(* ===== verification/Prelude.thy ===== *)
theory Prelude
  imports "HOL-Library.Word" "HOL-Library.List_Lexorder"
begin

text \<open>
  Shared vocabulary of the development: the machine types of the Rust sources, the error
  sum \<open>'e + 'a\<close> with its sequencing operator, little- and big-endian byte strings, and the
  lexicographic order on byte strings (Rust's \<^verbatim>\<open>Ord\<close> for \<^verbatim>\<open>[u8]\<close>).
  The collections \<open>codec\<close> (decoding an encoded field), \<open>wf\<close> (well-formedness facts) and
  \<open>slot_simps\<close> (versioned slots) are filled by the component theories.
\<close>

unbundle bit_operations_syntax

named_theorems codec \<open>a reader applied to what the writer produced\<close>
named_theorems wf_intros \<open>well-formedness is kept\<close>
named_theorems slot_simps \<open>reads of versioned slots after writes\<close>

type_synonym u8 = "8 word"
type_synonym u16 = "16 word"
type_synonym u32 = "32 word"
type_synonym u64 = "64 word"
type_synonym u128 = "128 word"

text \<open>
  Signed integers are words read with \<^const>\<open>sint\<close>; floats are their IEEE-754 bit patterns
  (\<^verbatim>\<open>to_bits\<close>); \<^verbatim>\<open>usize\<close> lengths are \<open>nat\<close>; a Rust \<^verbatim>\<open>String\<close> is its UTF-8 bytes.
\<close>

type_synonym i32 = "32 word"
type_synonym i64 = "64 word"
type_synonym f32 = "32 word"
type_synonym f64 = "64 word"
type_synonym bytes = "u8 list"
type_synonym rstring = "u8 list"

definition str :: "string \<Rightarrow> rstring" where
  "str s = map of_char s"

lemma str_simps [simp]: "str [] = []" "str (c # s) = of_char c # str s"
  by (simp_all add: str_def)

section \<open>Fallible computations\<close>

definition r_bind :: "'e + 'a \<Rightarrow> ('a \<Rightarrow> 'e + 'b) \<Rightarrow> 'e + 'b" where
  "r_bind m f = (case m of Inl e \<Rightarrow> Inl e | Inr a \<Rightarrow> f a)"

lemma r_bind_simps [simp]: "r_bind (Inl e) f = Inl e" "r_bind (Inr a) f = f a"
  by (simp_all add: r_bind_def)

lemma r_bind_eq_Inr: "r_bind m f = Inr b \<longleftrightarrow> (\<exists>a. m = Inr a \<and> f a = Inr b)"
  by (cases m) simp_all

lemma r_bind_eq_Inl: "r_bind m f = Inl e \<longleftrightarrow> m = Inl e \<or> (\<exists>a. m = Inr a \<and> f a = Inl e)"
  by (cases m) simp_all

lemma r_bind_cong [fundef_cong]:
  "m = m' \<Longrightarrow> (\<And>a. m' = Inr a \<Longrightarrow> f a = f' a) \<Longrightarrow> r_bind m f = r_bind m' f'"
  by (cases m') simp_all

definition map_err :: "('e \<Rightarrow> 'd) \<Rightarrow> 'e + 'a \<Rightarrow> 'd + 'a" where
  "map_err g m = (case m of Inl e \<Rightarrow> Inl (g e) | Inr a \<Rightarrow> Inr a)"

lemma map_err_simps [simp]: "map_err g (Inl e) = Inl (g e)" "map_err g (Inr a) = Inr a"
  by (simp_all add: map_err_def)

lemma map_err_eq_Inr [simp]: "map_err g m = Inr a \<longleftrightarrow> m = Inr a"
  by (cases m) simp_all

definition is_ok :: "'e + 'a \<Rightarrow> bool" where
  "is_ok m = (case m of Inl _ \<Rightarrow> False | Inr _ \<Rightarrow> True)"

lemma is_ok_simps [simp]: "\<not> is_ok (Inl e)" "is_ok (Inr a)"
  by (simp_all add: is_ok_def)

lemma is_ok_iff: "is_ok m \<longleftrightarrow> (\<exists>a. m = Inr a)"
  by (cases m) simp_all

text \<open>\<^verbatim>\<open>collect::<Result<_, _>>()\<close> over an iterator: stop at the first error.\<close>

fun r_map :: "('a \<Rightarrow> 'e + 'b) \<Rightarrow> 'a list \<Rightarrow> 'e + 'b list" where
  "r_map f [] = Inr []"
| "r_map f (x # xs) = r_bind (f x) (\<lambda>y. r_bind (r_map f xs) (\<lambda>ys. Inr (y # ys)))"

lemma r_map_length: "r_map f xs = Inr ys \<Longrightarrow> length ys = length xs"
  by (induction xs arbitrary: ys) (auto simp: r_bind_eq_Inr)

text \<open>A \<^verbatim>\<open>for\<close> loop with \<^verbatim>\<open>?\<close> in its body: fold that stops at the first error.\<close>

fun r_fold :: "('s \<Rightarrow> 'a \<Rightarrow> 'e + 's) \<Rightarrow> 's \<Rightarrow> 'a list \<Rightarrow> 'e + 's" where
  "r_fold f s [] = Inr s"
| "r_fold f s (x # xs) = r_bind (f s x) (\<lambda>s'. r_fold f s' xs)"

lemma r_fold_append: "r_fold f s (xs @ ys) = r_bind (r_fold f s xs) (\<lambda>s'. r_fold f s' ys)"
  by (induction xs arbitrary: s) (auto simp: r_bind_def split: sum.splits)

section \<open>Little- and big-endian byte strings\<close>

definition to_le_bytes :: "'a::len word \<Rightarrow> bytes" where
  "to_le_bytes w = map (\<lambda>i. ucast (drop_bit (8 * i) w)) [0 ..< LENGTH('a) div 8]"

primrec from_le_bytes :: "bytes \<Rightarrow> 'a::len word" where
  "from_le_bytes [] = 0"
| "from_le_bytes (b # bs) = ucast b OR push_bit 8 (from_le_bytes bs)"

definition to_be_bytes :: "'a::len word \<Rightarrow> bytes" where
  "to_be_bytes w = rev (to_le_bytes w)"

definition from_be_bytes :: "bytes \<Rightarrow> 'a::len word" where
  "from_be_bytes bs = from_le_bytes (rev bs)"

lemma length_to_le_bytes [simp]: "length (to_le_bytes (w :: 'a::len word)) = LENGTH('a) div 8"
  by (simp add: to_le_bytes_def)

lemma length_to_be_bytes [simp]: "length (to_be_bytes (w :: 'a::len word)) = LENGTH('a) div 8"
  by (simp add: to_be_bytes_def)

lemma bit_from_le_bytes:
  "bit (from_le_bytes bs :: 'a::len word) n \<longleftrightarrow>
     n < LENGTH('a) \<and> n div 8 < length bs \<and> bit (bs ! (n div 8)) (n mod 8)"
proof (induction bs arbitrary: n)
  case Nil
  show ?case by simp
next
  case (Cons b bs)
  show ?case
  proof (cases "n < 8")
    case True
    then show ?thesis by (auto simp: bit_simps)
  next
    case False
    then have "n div 8 = Suc ((n - 8) div 8)" and "(n - 8) mod 8 = n mod 8"
      by (simp_all add: le_div_geq le_mod_geq)
    moreover have "\<not> bit b n"
      using False bit_imp_le_length [of b n] by auto
    ultimately show ?thesis using False by (auto simp: bit_simps Cons.IH)
  qed
qed

lemma from_le_to_le [simp]:
  assumes "8 dvd LENGTH('a::len)"
  shows "from_le_bytes (to_le_bytes w) = (w :: 'a word)"
proof (rule bit_word_eqI)
  fix n
  assume n: "n < LENGTH('a)"
  then have "n div 8 < LENGTH('a) div 8"
    using assms by (simp add: div_less_dividend less_mult_imp_div_less)
  then show "bit (from_le_bytes (to_le_bytes w) :: 'a word) n \<longleftrightarrow> bit w n"
    using n by (simp add: bit_from_le_bytes to_le_bytes_def bit_simps)
qed

lemma to_le_from_le [simp]:
  assumes "length bs = LENGTH('a::len) div 8" and "8 dvd LENGTH('a)"
  shows "to_le_bytes (from_le_bytes bs :: 'a word) = bs"
proof (rule nth_equalityI)
  show "length (to_le_bytes (from_le_bytes bs :: 'a word)) = length bs"
    using assms by simp
next
  fix i
  assume "i < length (to_le_bytes (from_le_bytes bs :: 'a word))"
  then have i: "i < LENGTH('a) div 8" by simp
  show "to_le_bytes (from_le_bytes bs :: 'a word) ! i = bs ! i"
  proof (rule bit_word_eqI)
    fix n
    assume "n < LENGTH(8)"
    then have n: "n < 8" by simp
    with i assms(2) have "8 * i + n < LENGTH('a)" by (auto elim!: dvdE)
    with i n assms(1) show "bit (to_le_bytes (from_le_bytes bs :: 'a word) ! i) n \<longleftrightarrow> bit (bs ! i) n"
      by (simp add: to_le_bytes_def bit_simps bit_from_le_bytes add.commute)
  qed
qed

lemma from_be_to_be [simp]:
  "8 dvd LENGTH('a::len) \<Longrightarrow> from_be_bytes (to_be_bytes w) = (w :: 'a word)"
  by (simp add: from_be_bytes_def to_be_bytes_def)

lemma to_be_from_be [simp]:
  "length bs = LENGTH('a::len) div 8 \<Longrightarrow> 8 dvd LENGTH('a) \<Longrightarrow>
     to_be_bytes (from_be_bytes bs :: 'a word) = bs"
  by (simp add: from_be_bytes_def to_be_bytes_def)

lemma to_le_bytes_inject:
  "8 dvd LENGTH('a::len) \<Longrightarrow> to_le_bytes (v :: 'a word) = to_le_bytes w \<longleftrightarrow> v = w"
  by (metis from_le_to_le)

lemma to_be_bytes_inject:
  "8 dvd LENGTH('a::len) \<Longrightarrow> to_be_bytes (v :: 'a word) = to_be_bytes w \<longleftrightarrow> v = w"
  by (metis from_be_to_be)

section \<open>The order of byte strings\<close>

lemma append_less_same [simp]: "xs @ ys < xs @ zs \<longleftrightarrow> ys < (zs :: 'a::linorder list)"
  by (induction xs) simp_all

lemma append_le_same [simp]: "xs @ ys \<le> xs @ zs \<longleftrightarrow> ys \<le> (zs :: 'a::linorder list)"
  by (induction xs) simp_all

lemma append_less_same_length:
  "length xs = length ys \<Longrightarrow>
     xs @ us < ys @ vs \<longleftrightarrow> xs < ys \<or> xs = ys \<and> us < (vs :: 'a::linorder list)"
  by (induction xs ys rule: list_induct2) auto

primrec le_val :: "bytes \<Rightarrow> nat" where
  "le_val [] = 0"
| "le_val (b # bs) = unat b + 256 * le_val bs"

lemma le_val_bound: "le_val bs < 256 ^ length bs"
proof (induction bs)
  case Nil
  show ?case by simp
next
  case (Cons b bs)
  have "unat b < 256" using unsigned_less [of b, where ?'a = nat] by simp
  with Cons.IH show ?case by simp
qed

lemma le_val_append: "le_val (xs @ ys) = le_val xs + 256 ^ length xs * le_val ys"
  by (induction xs) (simp_all add: algebra_simps)

lemma from_le_bytes_of_nat: "from_le_bytes bs = (of_nat (le_val bs) :: 'a::len word)"
proof (induction bs)
  case Nil
  show ?case by simp
next
  case (Cons b bs)
  have "\<not> bit (ucast b :: 'a word) n \<or> \<not> bit (push_bit 8 (from_le_bytes bs) :: 'a word) n" for n
    using bit_imp_le_length [of b n] by (auto simp: bit_simps)
  then have "(ucast b OR push_bit 8 (from_le_bytes bs) :: 'a word) =
      ucast b + push_bit 8 (from_le_bytes bs)"
    by (simp add: disjunctive_add)
  then show ?case
    by (simp add: Cons.IH push_bit_eq_mult unsigned_of_nat [symmetric] mult.commute)
qed

lemma unat_from_le_bytes:
  "8 * length bs \<le> LENGTH('a::len) \<Longrightarrow> unat (from_le_bytes bs :: 'a word) = le_val bs"
proof -
  assume len: "8 * length bs \<le> LENGTH('a)"
  have "le_val bs < 2 ^ (8 * length bs)"
    using le_val_bound [of bs] by (simp add: power_mult)
  also have "\<dots> \<le> 2 ^ LENGTH('a)"
    using len by (simp add: power_increasing)
  finally show ?thesis
    by (simp add: from_le_bytes_of_nat unsigned_of_nat take_bit_nat_eq_self)
qed

lemma le_val_to_le_bytes:
  "8 dvd LENGTH('a::len) \<Longrightarrow> le_val (to_le_bytes (w :: 'a word)) = unat w"
  using unat_from_le_bytes [of "to_le_bytes w", where 'a = 'a] by (simp add: dvd_mult_div_cancel)

lemma less_iff_le_val_rev:
  "length xs = length ys \<Longrightarrow> xs < ys \<longleftrightarrow> le_val (rev xs) < le_val (rev ys)"
proof (induction xs ys rule: list_induct2)
  case Nil
  show ?case by simp
next
  case (Cons x xs y ys)
  let ?p = "256 ^ length ys :: nat"
  have lx: "le_val (rev xs) < ?p" and ly: "le_val (rev ys) < ?p"
    using le_val_bound [of "rev xs"] le_val_bound [of "rev ys"] Cons.hyps by simp_all
  have lt: "a + ?p * m < b + ?p * n" if "a < ?p" "m < n" for a b m n :: nat
  proof -
    have "a + ?p * m < ?p * Suc m" using that(1) by simp
    also have "\<dots> \<le> ?p * n" using that(2) by (metis Suc_leI mult_le_mono2)
    finally show ?thesis by simp
  qed
  consider "x < y" | "x = y" | "y < x" by (rule linorder_cases)
  then show ?case
  proof cases
    case 1
    then have "unat x < unat y" by (simp add: word_less_nat_alt)
    from lt [OF lx this, of "le_val (rev ys)"] 1 Cons.hyps show ?thesis
      by (simp add: le_val_append)
  next
    case 2
    with Cons show ?thesis by (simp add: le_val_append)
  next
    case 3
    then have "unat y < unat x" by (simp add: word_less_nat_alt)
    from lt [OF ly this, of "le_val (rev xs)"] 3 Cons.hyps show ?thesis
      by (auto simp: le_val_append)
  qed
qed

text \<open>Big-endian encodings of one width compare as the numbers do.\<close>

lemma to_be_bytes_less:
  "8 dvd LENGTH('a::len) \<Longrightarrow> to_be_bytes (v :: 'a word) < to_be_bytes w \<longleftrightarrow> v < w"
  by (simp add: less_iff_le_val_rev to_be_bytes_def le_val_to_le_bytes word_less_nat_alt)

lemma unat_of_nat_small: "n < 2 ^ LENGTH('a::len) \<Longrightarrow> unat (of_nat n :: 'a word) = n"
  by (simp add: unsigned_of_nat take_bit_nat_eq_self)

section \<open>Slices\<close>

text \<open>\<^verbatim>\<open>read_exact\<close> from a cursor: the first \<open>n\<close> bytes and the rest, or an end-of-file error.\<close>

definition split_exact :: "nat \<Rightarrow> 'a list \<Rightarrow> ('a list \<times> 'a list) option" where
  "split_exact n xs = (if n \<le> length xs then Some (take n xs, drop n xs) else None)"

lemma split_exact_append [codec, simp]: "length xs = n \<Longrightarrow> split_exact n (xs @ ys) = Some (xs, ys)"
  by (simp add: split_exact_def)

lemma split_exact_SomeD:
  "split_exact n xs = Some (ys, zs) \<Longrightarrow> xs = ys @ zs \<and> length ys = n"
  by (auto simp: split_exact_def split: if_splits)

lemma split_exact_eq_None: "split_exact n xs = None \<longleftrightarrow> length xs < n"
  by (auto simp: split_exact_def)

text \<open>\<^verbatim>\<open>slice.binary_search(&x)\<close>: whether the search over the half-open window finds \<open>x\<close>.\<close>

function binary_search_in :: "'a::linorder list \<Rightarrow> 'a \<Rightarrow> nat \<Rightarrow> nat \<Rightarrow> nat option" where
  "binary_search_in xs x lo hi =
     (if lo < hi then
        let mid = (lo + hi) div 2 in
        if xs ! mid = x then Some mid
        else if xs ! mid < x then binary_search_in xs x (Suc mid) hi
        else binary_search_in xs x lo mid
      else None)"
  by pat_completeness auto
termination
  by (relation "measure (\<lambda>(xs, x, lo, hi). hi - lo)") auto

declare binary_search_in.simps [simp del]

definition binary_search :: "'a::linorder list \<Rightarrow> 'a \<Rightarrow> nat option" where
  "binary_search xs x = binary_search_in xs x 0 (length xs)"

lemma binary_search_in_Some:
  "binary_search_in xs x lo hi = Some i \<Longrightarrow> lo \<le> i \<and> i < hi \<and> xs ! i = x"
proof (induction xs x lo hi rule: binary_search_in.induct)
  case (1 xs x lo hi)
  let ?mid = "(lo + hi) div 2"
  from "1.prems" have lt: "lo < hi"
    by (simp add: binary_search_in.simps [of xs x lo hi] split: if_splits)
  from "1.prems" lt consider "xs ! ?mid = x" "i = ?mid"
    | "xs ! ?mid < x" "xs ! ?mid \<noteq> x" "binary_search_in xs x (Suc ?mid) hi = Some i"
    | "\<not> xs ! ?mid < x" "xs ! ?mid \<noteq> x" "binary_search_in xs x lo ?mid = Some i"
    by (auto simp: binary_search_in.simps [of xs x lo hi] Let_def split: if_splits)
  then show ?case
    using lt "1.IH" [OF lt refl] by cases auto
qed

lemma binary_search_in_None:
  "sorted xs \<Longrightarrow> hi \<le> length xs \<Longrightarrow> binary_search_in xs x lo hi = None \<Longrightarrow>
     lo \<le> i \<Longrightarrow> i < hi \<Longrightarrow> xs ! i \<noteq> x"
proof (induction xs x lo hi rule: binary_search_in.induct)
  case (1 xs x lo hi)
  let ?mid = "(lo + hi) div 2"
  have lt: "lo < hi" using "1.prems"(4,5) by simp
  have mono: "xs ! a \<le> xs ! b" if "a \<le> b" "b < hi" for a b
    using "1.prems"(1,2) that by (auto intro: sorted_nth_mono)
  from "1.prems"(3) lt consider
      "xs ! ?mid < x" "xs ! ?mid \<noteq> x" "binary_search_in xs x (Suc ?mid) hi = None"
    | "x < xs ! ?mid" "xs ! ?mid \<noteq> x" "\<not> xs ! ?mid < x" "binary_search_in xs x lo ?mid = None"
    by (auto simp: binary_search_in.simps [of xs x lo hi] Let_def split: if_splits)
  then show ?case
  proof cases
    case 1
    show ?thesis
    proof (cases "Suc ?mid \<le> i")
      case True
      with 1 lt "1.IH"(1) "1.prems" show ?thesis by simp
    next
      case False
      then have "xs ! i \<le> xs ! ?mid" using lt by (intro mono) auto
      with 1 show ?thesis by auto
    qed
  next
    case 2
    show ?thesis
    proof (cases "i < ?mid")
      case True
      with 2 lt "1.IH"(2) "1.prems" show ?thesis by simp
    next
      case False
      then have "xs ! ?mid \<le> xs ! i" using "1.prems"(5) by (intro mono) auto
      with 2 show ?thesis by auto
    qed
  qed
qed

lemma binary_search_sorted:
  "sorted xs \<Longrightarrow> (\<exists>i. binary_search xs x = Some i) \<longleftrightarrow> x \<in> set xs"
proof
  assume "\<exists>i. binary_search xs x = Some i"
  then show "x \<in> set xs"
    by (auto simp: binary_search_def dest!: binary_search_in_Some)
next
  assume "sorted xs" and "x \<in> set xs"
  then obtain i where "i < length xs" "xs ! i = x" by (auto simp: in_set_conv_nth)
  with \<open>sorted xs\<close> show "\<exists>i. binary_search xs x = Some i"
    unfolding binary_search_def
    using binary_search_in_None [of xs "length xs" x 0 i] by fastforce
qed

end
