(* ===== verification/Graph_Types.thy ===== *)
theory Graph_Types
  imports Prelude
begin

text \<open>
  The data model of \<^verbatim>\<open>src/src/types.rs\<close> and \<^verbatim>\<open>src/src/error.rs\<close>: engine errors, label
  names and label sets, property values, node and edge records, WAL operations and their tags,
  and the FNV-1a hash. Error messages keep the fixed text of the Rust format string; the
  interpolated arguments are left out.
\<close>

section \<open>Errors\<close>

text \<open>The variants of \<^verbatim>\<open>EngineError\<close> less the four of the query language front end.\<close>

datatype engine_error =
    IoError string
  | CorruptRecord string
  | CorruptWal string
  | SerializationError string
  | ManifestError string
  | DatabaseNotFound string
  | DatabaseClosed
  | TxnConflict string
  | TxnClosed
  | InvalidOperation string
  | InvalidCursor string
  | CompactionCancelled
  | WalSyncFailed string

section \<open>UTF-8\<close>

text \<open>
  \<^verbatim>\<open>String::from_utf8\<close> and \<^verbatim>\<open>str::chars\<close>: one scalar value at a time, rejecting overlong
  forms, surrogates and values above U+10FFFF.
\<close>

definition utf8_cont :: "u8 \<Rightarrow> bool" where
  "utf8_cont b \<longleftrightarrow> 0x80 \<le> b \<and> b \<le> 0xBF"

definition cont_val :: "u8 \<Rightarrow> nat" where
  "cont_val b = unat b mod 64"

definition utf8_next :: "bytes \<Rightarrow> (nat \<times> bytes) option" where
  "utf8_next bs = (case bs of
     [] \<Rightarrow> None
   | b0 # r0 \<Rightarrow>
      if b0 < 0x80 then Some (unat b0, r0)
      else if b0 < 0xC2 then None
      else (case r0 of
         [] \<Rightarrow> None
       | b1 # r1 \<Rightarrow>
          if b0 \<le> 0xDF then
            (if utf8_cont b1 then Some (unat b0 mod 32 * 64 + cont_val b1, r1) else None)
          else (case r1 of
             [] \<Rightarrow> None
           | b2 # r2 \<Rightarrow>
              if b0 \<le> 0xEF then
                (if utf8_cont b1 \<and> utf8_cont b2 \<and> (b0 = 0xE0 \<longrightarrow> 0xA0 \<le> b1) \<and> (b0 = 0xED \<longrightarrow> b1 \<le> 0x9F)
                 then Some (unat b0 mod 16 * 4096 + cont_val b1 * 64 + cont_val b2, r2) else None)
              else (case r2 of
                 [] \<Rightarrow> None
               | b3 # r3 \<Rightarrow>
                  if b0 \<le> 0xF4 \<and> utf8_cont b1 \<and> utf8_cont b2 \<and> utf8_cont b3
                     \<and> (b0 = 0xF0 \<longrightarrow> 0x90 \<le> b1) \<and> (b0 = 0xF4 \<longrightarrow> b1 \<le> 0x8F)
                  then Some (unat b0 mod 8 * 262144 + cont_val b1 * 4096 + cont_val b2 * 64 + cont_val b3, r3)
                  else None))))"

lemma utf8_next_shorter: "utf8_next bs = Some (c, r) \<Longrightarrow> length r < length bs"
  by (auto simp: utf8_next_def split: list.splits if_splits)

function utf8_chars :: "bytes \<Rightarrow> nat list option" where
  "utf8_chars bs =
     (if bs = [] then Some []
      else case utf8_next bs of
        None \<Rightarrow> None
      | Some (c, r) \<Rightarrow> map_option (Cons c) (utf8_chars r))"
  by pat_completeness auto
termination
  by (relation "measure length") (auto dest: utf8_next_shorter)

declare utf8_chars.simps [simp del]

definition utf8_valid :: "bytes \<Rightarrow> bool" where
  "utf8_valid bs \<longleftrightarrow> utf8_chars bs \<noteq> None"

lemma utf8_chars_Nil [simp]: "utf8_chars [] = Some []"
  by (simp add: utf8_chars.simps)

lemma utf8_chars_ascii [simp]:
  "b < 0x80 \<Longrightarrow> utf8_chars (b # bs) = map_option (Cons (unat b)) (utf8_chars bs)"
  by (simp add: utf8_chars.simps [of "b # bs"] utf8_next_def)

lemma utf8_valid_Nil [simp]: "utf8_valid []"
  by (simp add: utf8_valid_def)

lemma utf8_valid_ascii [simp]: "b < 0x80 \<Longrightarrow> utf8_valid (b # bs) \<longleftrightarrow> utf8_valid bs"
  by (simp add: utf8_valid_def)

section \<open>Label names\<close>

text \<open>\<^verbatim>\<open>char::is_whitespace\<close>: the Unicode White_Space property.\<close>

definition char_is_whitespace :: "nat \<Rightarrow> bool" where
  "char_is_whitespace c \<longleftrightarrow>
     (9 \<le> c \<and> c \<le> 13) \<or> c = 0x20 \<or> c = 0x85 \<or> c = 0xA0 \<or> c = 0x1680
     \<or> (0x2000 \<le> c \<and> c \<le> 0x200A) \<or> c = 0x2028 \<or> c = 0x2029 \<or> c = 0x202F \<or> c = 0x205F \<or> c = 0x3000"

definition char_is_ascii_control :: "nat \<Rightarrow> bool" where
  "char_is_ascii_control c \<longleftrightarrow> c < 0x20 \<or> c = 0x7F"

definition trim_chars :: "nat list \<Rightarrow> nat list" where
  "trim_chars cs = rev (dropWhile char_is_whitespace (rev (dropWhile char_is_whitespace cs)))"

definition chars_of :: "rstring \<Rightarrow> nat list" where
  "chars_of name = (case utf8_chars name of None \<Rightarrow> [] | Some cs \<Rightarrow> cs)"

definition validate_label_token_name :: "rstring \<Rightarrow> engine_error + unit" where
  "validate_label_token_name name =
     (if name = [] then Inl (InvalidOperation ''label token name must not be empty'')
      else if length name > 255 then
        Inl (InvalidOperation ''label token name must be at most 255 UTF-8 bytes'')
      else if length (trim_chars (chars_of name)) \<noteq> length (chars_of name) then
        Inl (InvalidOperation ''label token name must not contain leading or trailing whitespace'')
      else if list_ex (\<lambda>ch. ch = 0 \<or> char_is_ascii_control ch) (chars_of name) then
        Inl (InvalidOperation ''label token name must not contain ASCII control characters or NUL'')
      else Inr ())"

section \<open>Node label sets\<close>

definition MAX_NODE_LABELS_PER_NODE :: nat where
  "MAX_NODE_LABELS_PER_NODE = 10"

record node_label_set =
  nls_count :: u8
  nls_label_ids :: "u32 list"

definition nls_len :: "node_label_set \<Rightarrow> nat" where
  "nls_len s = unat (nls_count s)"

definition as_slice :: "node_label_set \<Rightarrow> u32 list" where
  "as_slice s = take (nls_len s) (nls_label_ids s)"

definition nls_contains :: "node_label_set \<Rightarrow> u32 \<Rightarrow> bool" where
  "nls_contains s label_id \<longleftrightarrow> binary_search (as_slice s) label_id \<noteq> None"

definition contains_all :: "node_label_set \<Rightarrow> node_label_set \<Rightarrow> bool" where
  "contains_all s required \<longleftrightarrow> list_all (nls_contains s) (as_slice required)"

definition contains_any :: "node_label_set \<Rightarrow> node_label_set \<Rightarrow> bool" where
  "contains_any s candidates \<longleftrightarrow> list_ex (nls_contains s) (as_slice candidates)"

text \<open>The array literal \<^verbatim>\<open>[0u32; MAX]\<close> with the first ids stored.\<close>

definition check_canonical_id :: "u32 list \<Rightarrow> u32 list \<Rightarrow> nat \<Rightarrow> engine_error + u32 list" where
  "check_canonical_id label_ids ids idx =
     (let label_id = label_ids ! idx in
      if label_id = 0 then Inl (InvalidOperation ''node label token ID 0 is reserved'')
      else if idx > 0 \<and> label_ids ! (idx - 1) \<ge> label_id then
        Inl (InvalidOperation ''node label IDs must be sorted ascending and unique'')
      else Inr (ids[idx := label_id]))"

definition from_canonical_ids :: "u32 list \<Rightarrow> engine_error + node_label_set" where
  "from_canonical_ids label_ids =
     (if label_ids = [] then
        Inl (InvalidOperation ''node label set must contain at least one label'')
      else if length label_ids > MAX_NODE_LABELS_PER_NODE then
        Inl (InvalidOperation ''node label set must contain at most labels'')
      else
        r_bind (r_fold (check_canonical_id label_ids) (replicate MAX_NODE_LABELS_PER_NODE 0)
                  [0 ..< length label_ids])
          (\<lambda>ids. Inr \<lparr>nls_count = of_nat (length label_ids), nls_label_ids = ids\<rparr>))"

definition single :: "u32 \<Rightarrow> engine_error + node_label_set" where
  "single label_id = from_canonical_ids [label_id]"

definition check_sorted_prefix :: "u32 list \<Rightarrow> unit \<Rightarrow> nat \<Rightarrow> engine_error + unit" where
  "check_sorted_prefix label_ids u idx =
     (if label_ids ! idx = 0 then Inl (InvalidOperation ''node label token ID 0 is reserved'')
      else if idx > 0 \<and> label_ids ! (idx - 1) = label_ids ! idx then
        Inl (InvalidOperation ''node label set contains duplicate label ID'')
      else Inr ())"

definition from_sorted_prefix :: "u32 list \<Rightarrow> nat \<Rightarrow> engine_error + node_label_set" where
  "from_sorted_prefix label_ids count =
     r_bind (r_fold (check_sorted_prefix label_ids) () [0 ..< count])
       (\<lambda>_. Inr \<lparr>nls_count = of_nat count, nls_label_ids = label_ids\<rparr>)"

fun collect_label_ids :: "u32 list \<Rightarrow> u32 list \<Rightarrow> nat \<Rightarrow> engine_error + (u32 list \<times> nat)" where
  "collect_label_ids [] ids count = Inr (ids, count)"
| "collect_label_ids (label_id # rest) ids count =
     (if count = MAX_NODE_LABELS_PER_NODE then
        Inl (InvalidOperation ''node label set must contain at most labels'')
      else collect_label_ids rest (ids[count := label_id]) (Suc count))"

definition from_label_ids :: "u32 list \<Rightarrow> engine_error + node_label_set" where
  "from_label_ids label_ids =
     r_bind (collect_label_ids label_ids (replicate MAX_NODE_LABELS_PER_NODE 0) 0) (\<lambda>(ids, count).
       if count = 0 then Inl (InvalidOperation ''node label set must contain at least one label'')
       else from_sorted_prefix (sort (take count ids) @ drop count ids) count)"

text \<open>
  The type invariant every constructor establishes: one to ten labels, strictly increasing and
  nonzero, in an array padded with zeros.
\<close>

definition nls_wf :: "node_label_set \<Rightarrow> bool" where
  "nls_wf s \<longleftrightarrow>
     1 \<le> nls_len s \<and> nls_len s \<le> MAX_NODE_LABELS_PER_NODE \<and>
     nls_label_ids s = as_slice s @ replicate (MAX_NODE_LABELS_PER_NODE - nls_len s) 0 \<and>
     length (as_slice s) = nls_len s \<and>
     sorted_wrt (<) (as_slice s) \<and> 0 \<notin> set (as_slice s)"

section \<open>Property values, records, WAL operations\<close>

text \<open>\<^verbatim>\<open>PropValue::Int\<close> is \<open>SInt\<close> here: the name \<^verbatim>\<open>Int\<close> is HOL syntax.\<close>

datatype prop_value =
    Null
  | Bool bool
  | SInt i64
  | UInt u64
  | Float f64
  | String rstring
  | Bytes bytes
  | Array "prop_value list"
  | Map "(rstring \<times> prop_value) list"

text \<open>A \<^verbatim>\<open>BTreeMap<String, PropValue>\<close> is its entries in increasing key order.\<close>

type_synonym props = "(rstring \<times> prop_value) list"

definition btree_wf :: "('k::linorder \<times> 'v) list \<Rightarrow> bool" where
  "btree_wf m \<longleftrightarrow> sorted_wrt (<) (map fst m)"

text \<open>Strings are UTF-8 and maps are ordered, as their Rust types guarantee.\<close>

fun pv_wf :: "prop_value \<Rightarrow> bool" where
  "pv_wf (String s) \<longleftrightarrow> utf8_valid s"
| "pv_wf (Array vs) \<longleftrightarrow> (\<forall>v \<in> set vs. pv_wf v)"
| "pv_wf (Map kvs) \<longleftrightarrow> btree_wf kvs \<and> (\<forall>kv \<in> set kvs. utf8_valid (fst kv) \<and> pv_wf (snd kv))"
| "pv_wf _ \<longleftrightarrow> True"

definition props_wf :: "props \<Rightarrow> bool" where
  "props_wf p \<longleftrightarrow> pv_wf (Map p)"

type_synonym dense_vector = "f32 list"
type_synonym sparse_vector = "(u32 \<times> f32) list"

record tombstone_entry =
  deleted_at :: i64
  t_last_write_seq :: u64

record node_record =
  n_id :: u64
  n_label_ids :: node_label_set
  n_key :: rstring
  n_props :: props
  n_created_at :: i64
  n_updated_at :: i64
  n_weight :: f32
  n_dense_vector :: "dense_vector option"
  n_sparse_vector :: "sparse_vector option"
  n_last_write_seq :: u64

record edge_record =
  e_id :: u64
  e_from :: u64
  e_to :: u64
  e_label_id :: u32
  e_props :: props
  e_created_at :: i64
  e_updated_at :: i64
  e_weight :: f32
  e_valid_from :: i64
  e_valid_to :: i64
  e_last_write_seq :: u64

datatype wal_op =
    UpsertNode node_record
  | UpsertEdge edge_record
  | DeleteNode u64 i64
  | DeleteEdge u64 i64
  | EnsureNodeLabel rstring u32
  | EnsureEdgeLabel rstring u32
  | BeginAtomicBatch u64 u32
  | CommitAtomicBatch u64 u32

datatype op_tag =
    TagUpsertNode | TagUpsertEdge | TagDeleteNode | TagDeleteEdge
  | TagEnsureNodeLabel | TagEnsureEdgeLabel | TagBeginAtomicBatch | TagCommitAtomicBatch

fun tag_as_u8 :: "op_tag \<Rightarrow> u8" where
  "tag_as_u8 TagUpsertNode = 1"
| "tag_as_u8 TagUpsertEdge = 2"
| "tag_as_u8 TagDeleteNode = 3"
| "tag_as_u8 TagDeleteEdge = 4"
| "tag_as_u8 TagEnsureNodeLabel = 5"
| "tag_as_u8 TagEnsureEdgeLabel = 6"
| "tag_as_u8 TagBeginAtomicBatch = 7"
| "tag_as_u8 TagCommitAtomicBatch = 8"

definition tag_from_u8 :: "u8 \<Rightarrow> op_tag option" where
  "tag_from_u8 v =
     (if v = 1 then Some TagUpsertNode else if v = 2 then Some TagUpsertEdge
      else if v = 3 then Some TagDeleteNode else if v = 4 then Some TagDeleteEdge
      else if v = 5 then Some TagEnsureNodeLabel else if v = 6 then Some TagEnsureEdgeLabel
      else if v = 7 then Some TagBeginAtomicBatch else if v = 8 then Some TagCommitAtomicBatch
      else None)"

fun op_tag_of :: "wal_op \<Rightarrow> op_tag" where
  "op_tag_of (UpsertNode _) = TagUpsertNode"
| "op_tag_of (UpsertEdge _) = TagUpsertEdge"
| "op_tag_of (DeleteNode _ _) = TagDeleteNode"
| "op_tag_of (DeleteEdge _ _) = TagDeleteEdge"
| "op_tag_of (EnsureNodeLabel _ _) = TagEnsureNodeLabel"
| "op_tag_of (EnsureEdgeLabel _ _) = TagEnsureEdgeLabel"
| "op_tag_of (BeginAtomicBatch _ _) = TagBeginAtomicBatch"
| "op_tag_of (CommitAtomicBatch _ _) = TagCommitAtomicBatch"

lemma tag_from_as_u8 [simp]: "tag_from_u8 (tag_as_u8 t) = Some t"
  by (cases t) (simp_all add: tag_from_u8_def)

lemma tag_from_u8_Some: "tag_from_u8 v = Some t \<longleftrightarrow> v = tag_as_u8 t"
  by (cases t) (auto simp: tag_from_u8_def)

section \<open>FNV-1a\<close>

definition fnv1a :: "bytes \<Rightarrow> u64" where
  "fnv1a bs = foldl (\<lambda>hash b. (hash XOR ucast b) * 0x100000001b3) 0xcbf29ce484222325 bs"

definition hash_prop_key :: "rstring \<Rightarrow> u64" where
  "hash_prop_key key = fnv1a key"

section \<open>Label sets are canonical\<close>

text \<open>The label set that holds exactly the given strictly increasing ids.\<close>

definition mk_nls :: "u32 list \<Rightarrow> node_label_set" where
  "mk_nls l = \<lparr>nls_count = of_nat (length l),
     nls_label_ids = l @ replicate (MAX_NODE_LABELS_PER_NODE - length l) 0\<rparr>"

definition canonical_ids :: "u32 list \<Rightarrow> bool" where
  "canonical_ids l \<longleftrightarrow>
     l \<noteq> [] \<and> length l \<le> MAX_NODE_LABELS_PER_NODE \<and> 0 \<notin> set l \<and> sorted_wrt (<) l"

lemma nls_len_mk_nls [simp]:
  "length l \<le> MAX_NODE_LABELS_PER_NODE \<Longrightarrow> nls_len (mk_nls l) = length l"
  by (simp add: nls_len_def mk_nls_def MAX_NODE_LABELS_PER_NODE_def unsigned_of_nat take_bit_nat_eq_self)

lemma as_slice_mk_nls [simp]:
  "length l \<le> MAX_NODE_LABELS_PER_NODE \<Longrightarrow> as_slice (mk_nls l) = l"
  unfolding as_slice_def by simp (simp add: mk_nls_def)

lemma nls_wf_mk_nls [simp]: "canonical_ids l \<Longrightarrow> nls_wf (mk_nls l)"
  by (auto simp: nls_wf_def canonical_ids_def Suc_le_eq) (simp add: mk_nls_def)

lemma mk_nls_as_slice: "nls_wf s \<Longrightarrow> mk_nls (as_slice s) = s"
  by (simp add: nls_wf_def mk_nls_def nls_len_def)

lemma canonical_as_slice: "nls_wf s \<Longrightarrow> canonical_ids (as_slice s)"
  by (auto simp: nls_wf_def canonical_ids_def)

lemma nls_wf_iff: "nls_wf s \<longleftrightarrow> (\<exists>l. canonical_ids l \<and> s = mk_nls l)"
  using mk_nls_as_slice canonical_as_slice nls_wf_mk_nls by metis

lemma strict_sorted_iff_adjacent:
  "sorted_wrt (<) (l :: 'a::linorder list) \<longleftrightarrow> (\<forall>i < length l. 0 < i \<longrightarrow> l ! (i - 1) < l ! i)"
proof -
  have "sorted_wrt (<) l \<longleftrightarrow> (\<forall>i. Suc i < length l \<longrightarrow> l ! i < l ! Suc i)"
    by (rule sorted_wrt_iff_nth_Suc_transp) (auto intro: transpI)
  also have "\<dots> \<longleftrightarrow> (\<forall>i < length l. 0 < i \<longrightarrow> l ! (i - 1) < l ! i)"
    by (metis Suc_pred diff_Suc_1 zero_less_Suc)
  finally show ?thesis .
qed

lemma sorted_distinct_iff_strict:
  "sorted_wrt (<) (l :: 'a::linorder list) \<longleftrightarrow> sorted l \<and> distinct l"
  by (rule strict_sorted_iff)

lemma r_fold_unit_check:
  "(\<And>i. f () i = Inr () \<longleftrightarrow> P i) \<Longrightarrow> r_fold f () xs = Inr () \<longleftrightarrow> (\<forall>i \<in> set xs. P i)"
  by (induction xs) (auto simp: r_bind_eq_Inr)

lemma r_fold_check_canonical:
  assumes "length l \<le> length ids" and "n \<le> length l"
  shows "r_fold (check_canonical_id l) ids [0 ..< n] = Inr ids' \<longleftrightarrow>
    (\<forall>i < n. l ! i \<noteq> 0 \<and> (0 < i \<longrightarrow> l ! (i - 1) < l ! i)) \<and> ids' = take n l @ drop n ids"
  using assms(2)
proof (induction n arbitrary: ids')
  case 0
  show ?case by auto
next
  case (Suc n)
  have "(take n l @ drop n ids)[n := l ! n] = take (Suc n) l @ drop (Suc n) ids"
    using Suc.prems assms(1)
    by (intro nth_equalityI) (auto simp: nth_append nth_list_update min_def not_less less_Suc_eq)
  moreover have "check_canonical_id l xs n = Inr ys \<longleftrightarrow>
      l ! n \<noteq> 0 \<and> (0 < n \<longrightarrow> l ! (n - 1) < l ! n) \<and> ys = xs[n := l ! n]" for xs ys
    by (auto simp: check_canonical_id_def Let_def not_le)
  ultimately show ?case
    using Suc by (auto simp: r_fold_append r_bind_eq_Inr less_Suc_eq)
qed

lemma from_canonical_ids_eq:
  "from_canonical_ids l = Inr s \<longleftrightarrow> canonical_ids l \<and> s = mk_nls l"
proof (cases "l = [] \<or> length l > MAX_NODE_LABELS_PER_NODE")
  case True
  then show ?thesis by (auto simp: from_canonical_ids_def canonical_ids_def)
next
  case False
  then have len: "length l \<le> length (replicate MAX_NODE_LABELS_PER_NODE (0 :: u32))" by simp
  have nz: "(\<forall>i < length l. l ! i \<noteq> 0) \<longleftrightarrow> 0 \<notin> set l"
    by (auto simp: in_set_conv_nth)
  show ?thesis
    using False r_fold_check_canonical [OF len order_refl] nz strict_sorted_iff_adjacent [of l]
    by (auto simp: from_canonical_ids_def canonical_ids_def mk_nls_def r_bind_eq_Inr)
qed

lemma collect_label_ids_eq:
  assumes "length ids = MAX_NODE_LABELS_PER_NODE" and "count \<le> MAX_NODE_LABELS_PER_NODE"
  shows "collect_label_ids l ids count = Inr r \<longleftrightarrow>
    count + length l \<le> MAX_NODE_LABELS_PER_NODE \<and>
    r = (take count ids @ l @ drop (count + length l) ids, count + length l)"
  using assms
proof (induction l arbitrary: ids count)
  case Nil
  then show ?case by auto
next
  case (Cons x l)
  show ?case
  proof (cases "count = MAX_NODE_LABELS_PER_NODE")
    case True
    then show ?thesis by simp
  next
    case False
    with Cons.prems have lt: "count < length ids" by simp
    then have "take (Suc count) (ids[count := x]) = take count ids @ [x]"
      by (simp add: take_Suc_conv_app_nth)
    moreover have "drop (Suc count + length l) (ids[count := x]) = drop (count + length (x # l)) ids"
      by simp
    ultimately show ?thesis
      using Cons.IH [of "ids[count := x]" "Suc count"] Cons.prems False by auto
  qed
qed

lemma from_label_ids_eq:
  "from_label_ids l = Inr s \<longleftrightarrow>
     l \<noteq> [] \<and> length l \<le> MAX_NODE_LABELS_PER_NODE \<and> 0 \<notin> set l \<and> distinct l \<and> s = mk_nls (sort l)"
proof (cases "l \<noteq> [] \<and> length l \<le> MAX_NODE_LABELS_PER_NODE")
  case False
  then show ?thesis
    using collect_label_ids_eq [of "replicate MAX_NODE_LABELS_PER_NODE 0" 0 l]
    by (auto simp: from_label_ids_def r_bind_eq_Inr)
next
  case True
  let ?a = "sort l @ replicate (MAX_NODE_LABELS_PER_NODE - length l) 0"
  have chk: "check_sorted_prefix ?a u i = Inr () \<longleftrightarrow> ?a ! i \<noteq> 0 \<and> (0 < i \<longrightarrow> ?a ! (i - 1) \<noteq> ?a ! i)"
    for u i by (auto simp: check_sorted_prefix_def)
  have nth: "?a ! i = sort l ! i" if "i < length l" for i
    using that by (simp add: nth_append)
  have nz: "(\<forall>i < length l. sort l ! i \<noteq> 0) \<longleftrightarrow> 0 \<notin> set l"
    by (metis in_set_conv_nth length_sort set_sort)
  have step: "sort l ! (i - 1) \<noteq> sort l ! i \<longleftrightarrow> sort l ! (i - 1) < sort l ! i" if "i < length l" for i
    using that sorted_nth_mono [of "sort l" "i - 1" i] by auto
  have "(\<forall>i < length l. 0 < i \<longrightarrow> sort l ! (i - 1) \<noteq> sort l ! i) \<longleftrightarrow> distinct l"
    using strict_sorted_iff_adjacent [of "sort l"] step sorted_distinct_iff_strict [of "sort l"]
    by auto
  then have "r_fold (check_sorted_prefix ?a) () [0 ..< length l] = Inr () \<longleftrightarrow> 0 \<notin> set l \<and> distinct l"
    using r_fold_unit_check [of "check_sorted_prefix ?a", OF chk] nth nz by fastforce
  moreover have "collect_label_ids l (replicate MAX_NODE_LABELS_PER_NODE 0) 0 =
      Inr (l @ replicate (MAX_NODE_LABELS_PER_NODE - length l) 0, length l)"
    using collect_label_ids_eq [of "replicate MAX_NODE_LABELS_PER_NODE 0" 0 l] True by simp
  ultimately show ?thesis
    using True by (auto simp: from_label_ids_def from_sorted_prefix_def r_bind_eq_Inr mk_nls_def)
qed

lemma from_canonical_ids_wf [wf_intros]: "from_canonical_ids l = Inr s \<Longrightarrow> nls_wf s"
  by (simp add: from_canonical_ids_eq)

lemma canonical_ids_sort:
  "l \<noteq> [] \<Longrightarrow> length l \<le> MAX_NODE_LABELS_PER_NODE \<Longrightarrow> 0 \<notin> set l \<Longrightarrow> distinct l \<Longrightarrow> canonical_ids (sort l)"
  by (auto simp: canonical_ids_def sorted_distinct_iff_strict dest: arg_cong [where f = set])

lemma nls_contains_iff [simp]: "nls_wf s \<Longrightarrow> nls_contains s l \<longleftrightarrow> l \<in> set (as_slice s)"
  using binary_search_sorted [of "as_slice s" l]
  by (auto simp: nls_contains_def nls_wf_def sorted_distinct_iff_strict)

lemma distinct_as_slice [simp]: "nls_wf s \<Longrightarrow> distinct (as_slice s)"
  by (simp add: nls_wf_def sorted_distinct_iff_strict)

lemma nls_eqI: "nls_wf s \<Longrightarrow> nls_wf t \<Longrightarrow> set (as_slice s) = set (as_slice t) \<Longrightarrow> s = t"
  by (metis mk_nls_as_slice nls_wf_def sorted_distinct_iff_strict sorted_distinct_set_unique)

section \<open>What the constructors promise\<close>

text \<open>
  \<open>from_label_ids\<close> accepts a list exactly when it has one to ten distinct nonzero ids, and what it
  builds is the canonical set of them: sorted, zero-padded and holding the same ids, so that two
  nodes with the same labels have equal label sets whatever order the caller named them in.
\<close>

theorem from_label_ids_canonical:
  "from_label_ids l = Inr s \<longleftrightarrow>
     l \<noteq> [] \<and> length l \<le> MAX_NODE_LABELS_PER_NODE \<and> 0 \<notin> set l \<and> distinct l \<and>
     nls_wf s \<and> set (as_slice s) = set l"
proof -
  have "s = mk_nls (sort l) \<longleftrightarrow> nls_wf s \<and> set (as_slice s) = set l"
    if "l \<noteq> []" "length l \<le> MAX_NODE_LABELS_PER_NODE" "0 \<notin> set l" "distinct l"
    using canonical_ids_sort [OF that] nls_eqI [of s "mk_nls (sort l)"] that(2) by auto
  then show ?thesis by (auto simp: from_label_ids_eq)
qed

text \<open>
  The label tests mean what their names say: on well-formed sets, the binary searches behind
  \<open>contains\<close>, \<open>contains_all\<close> and \<open>contains_any\<close> decide membership, inclusion and overlap.
\<close>

theorem label_set_tests:
  assumes "nls_wf s" and "nls_wf t"
  shows "(nls_contains s i \<longleftrightarrow> i \<in> set (as_slice s)) \<and>
    (contains_all s t \<longleftrightarrow> set (as_slice t) \<subseteq> set (as_slice s)) \<and>
    (contains_any s t \<longleftrightarrow> set (as_slice s) \<inter> set (as_slice t) \<noteq> {})"
  using assms by (auto simp: contains_all_def contains_any_def list_all_iff list_ex_iff)

theorem label_set_tests_witness:
  "nls_wf (mk_nls [2, 5]) \<and> nls_wf (mk_nls [5]) \<and> contains_all (mk_nls [2, 5]) (mk_nls [5])"
proof -
  have "canonical_ids [2, 5]" "canonical_ids [5]"
    by (simp_all add: canonical_ids_def MAX_NODE_LABELS_PER_NODE_def)
  then show ?thesis
    using label_set_tests [of "mk_nls [2, 5]" "mk_nls [5]" 2] by (simp add: MAX_NODE_LABELS_PER_NODE_def)
qed

lemma trim_chars_length:
  "length (trim_chars cs) = length cs \<longleftrightarrow>
     cs = [] \<or> (\<not> char_is_whitespace (hd cs) \<and> \<not> char_is_whitespace (last cs))"
proof -
  have keep: "length (dropWhile P xs) = length xs \<longleftrightarrow> xs = [] \<or> \<not> P (hd xs)" for P and xs :: "'b list"
    using length_dropWhile_le [of P "tl xs"] by (cases xs) auto
  show ?thesis
  proof (cases "cs = [] \<or> char_is_whitespace (hd cs)")
    case True
    then show ?thesis
      using keep [of char_is_whitespace cs] length_dropWhile_le [of char_is_whitespace cs]
        length_dropWhile_le [of char_is_whitespace "rev (dropWhile char_is_whitespace cs)"]
      by (auto simp: trim_chars_def)
  next
    case False
    then have "dropWhile char_is_whitespace cs = cs" by (cases cs) auto
    with False show ?thesis
      using keep [of char_is_whitespace "rev cs"] by (simp add: trim_chars_def hd_rev)
  qed
qed

text \<open>
  A label name is accepted exactly when it is non-empty, at most 255 bytes, neither starts nor
  ends with a whitespace character and holds no ASCII control character.
\<close>

theorem validate_label_token_name_spec:
  "validate_label_token_name name = Inr () \<longleftrightarrow>
     name \<noteq> [] \<and> length name \<le> 255 \<and>
     (chars_of name = [] \<or> \<not> char_is_whitespace (hd (chars_of name)) \<and> \<not> char_is_whitespace (last (chars_of name))) \<and>
     (\<forall>ch. ch \<in> set (chars_of name) \<longrightarrow> 0x20 \<le> ch \<and> ch \<noteq> 0x7F)"
  by (auto simp: validate_label_token_name_def trim_chars_length list_ex_iff char_is_ascii_control_def not_less)

theorem validate_label_token_name_witness:
  "validate_label_token_name [80, 101] = Inr ()"
  by (simp add: validate_label_token_name_spec chars_of_def char_is_whitespace_def)

end
