(* ===== verification/Encoding.thy ===== *)
theory Encoding
  imports Graph_Types
begin

text \<open>
  The binary WAL payload codec of \<^verbatim>\<open>src/src/encoding.rs\<close>. Writers append to a byte buffer;
  readers take what is left of the cursor and return the value with the new rest. The
  MessagePack codec \<^verbatim>\<open>rmp_serde\<close> is third-party code: \<open>to_vec\<close> and \<open>from_slice\<close> are
  parameters, and \<open>rmp_lossless\<close> is what the code relies on. The locale \<open>field_codec\<close> is the
  contract between one field's writer and its reader; its lemma on repeated fields carries the
  dense and sparse vectors.
\<close>

type_synonym 'a reader = "bytes \<Rightarrow> engine_error + ('a \<times> bytes)"
type_synonym to_vec = "props \<Rightarrow> string + bytes"
type_synonym from_slice = "bytes \<Rightarrow> string + props"

section \<open>Writers\<close>

definition write_u8 :: "bytes \<Rightarrow> u8 \<Rightarrow> bytes" where
  "write_u8 buf v = buf @ [v]"

definition write_u16 :: "bytes \<Rightarrow> u16 \<Rightarrow> bytes" where
  "write_u16 buf v = buf @ to_le_bytes v"

definition write_u32 :: "bytes \<Rightarrow> u32 \<Rightarrow> bytes" where
  "write_u32 buf v = buf @ to_le_bytes v"

definition write_u64 :: "bytes \<Rightarrow> u64 \<Rightarrow> bytes" where
  "write_u64 buf v = buf @ to_le_bytes v"

definition write_i64 :: "bytes \<Rightarrow> i64 \<Rightarrow> bytes" where
  "write_i64 buf v = buf @ to_le_bytes v"

definition write_f32 :: "bytes \<Rightarrow> f32 \<Rightarrow> bytes" where
  "write_f32 buf v = buf @ to_le_bytes v"

definition write_sparse_vector_entry :: "bytes \<Rightarrow> u32 \<Rightarrow> f32 \<Rightarrow> bytes" where
  "write_sparse_vector_entry buf dimension_id weight = write_f32 (write_u32 buf dimension_id) weight"

definition MAX_BYTES_LEN :: nat where
  "MAX_BYTES_LEN = 64 * 1024 * 1024"

definition write_bytes :: "bytes \<Rightarrow> bytes \<Rightarrow> engine_error + bytes" where
  "write_bytes buf data =
     (if length data > MAX_BYTES_LEN then Inl (SerializationError ''bytes payload too large'')
      else Inr (write_u32 buf (of_nat (length data)) @ data))"

definition write_str :: "bytes \<Rightarrow> rstring \<Rightarrow> engine_error + bytes" where
  "write_str buf s =
     (if length s > 65535 then Inl (SerializationError ''string too long'')
      else Inr (write_u16 buf (of_nat (length s)) @ s))"

section \<open>Readers\<close>

definition read_word :: "nat \<Rightarrow> string \<Rightarrow> 'a::len word reader" where
  "read_word n what c = (case split_exact n c of
     None \<Rightarrow> Inl (CorruptRecord what)
   | Some (buf, rest) \<Rightarrow> Inr (from_le_bytes buf, rest))"

definition read_u8 :: "u8 reader" where
  "read_u8 c = (case split_exact 1 c of
     None \<Rightarrow> Inl (CorruptRecord ''unexpected EOF reading u8'')
   | Some (buf, rest) \<Rightarrow> Inr (buf ! 0, rest))"

definition read_u16 :: "u16 reader" where
  "read_u16 = read_word 2 ''unexpected EOF reading u16''"

definition read_u32 :: "u32 reader" where
  "read_u32 = read_word 4 ''unexpected EOF reading u32''"

definition read_u64 :: "u64 reader" where
  "read_u64 = read_word 8 ''unexpected EOF reading u64''"

definition read_i64 :: "i64 reader" where
  "read_i64 = read_word 8 ''unexpected EOF reading i64''"

definition read_f32 :: "f32 reader" where
  "read_f32 = read_word 4 ''unexpected EOF reading f32''"

definition remaining_bytes :: "bytes \<Rightarrow> nat" where
  "remaining_bytes c = length c"

definition read_bytes :: "bytes reader" where
  "read_bytes c = r_bind (read_u32 c) (\<lambda>(len, c).
     if unat len > MAX_BYTES_LEN then Inl (CorruptRecord ''bytes payload too large'')
     else (case split_exact (unat len) c of
       None \<Rightarrow> Inl (CorruptRecord ''unexpected EOF reading bytes'')
     | Some (buf, rest) \<Rightarrow> Inr (buf, rest)))"

definition read_str :: "rstring reader" where
  "read_str c = r_bind (read_u16 c) (\<lambda>(len, c).
     case split_exact (unat len) c of
       None \<Rightarrow> Inl (CorruptRecord ''unexpected EOF reading string'')
     | Some (buf, rest) \<Rightarrow>
         if utf8_valid buf then Inr (buf, rest)
         else Inl (CorruptRecord ''invalid UTF-8 in string''))"

fun read_label_ids :: "nat \<Rightarrow> u32 list \<Rightarrow> u32 list reader" where
  "read_label_ids 0 ids c = Inr (ids, c)"
| "read_label_ids (Suc n) ids c = r_bind (read_u32 c) (\<lambda>(label_id, c).
     if ids \<noteq> [] \<and> last ids \<ge> label_id then
       Inl (CorruptRecord ''node WAL label IDs must be sorted ascending and unique'')
     else read_label_ids n (ids @ [label_id]) c)"

definition read_node_label_set :: "node_label_set reader" where
  "read_node_label_set c = r_bind (read_u8 c) (\<lambda>(count, c).
     if count = 0 then Inl (CorruptRecord ''node WAL label_count must be at least 1'')
     else if unat count > MAX_NODE_LABELS_PER_NODE then
       Inl (CorruptRecord ''node WAL label_count exceeds maximum'')
     else r_bind (read_label_ids (unat count) [] c) (\<lambda>(ids, c).
       r_bind (map_err (\<lambda>_. CorruptRecord ''invalid node WAL label set'') (from_canonical_ids ids))
         (\<lambda>s. Inr (s, c))))"

text \<open>The \<^verbatim>\<open>for _ in 0..len\<close> loops that read one element per round.\<close>

fun read_many :: "'a reader \<Rightarrow> nat \<Rightarrow> 'a list reader" where
  "read_many rd 0 c = Inr ([], c)"
| "read_many rd (Suc n) c =
     r_bind (rd c) (\<lambda>(x, c). r_bind (read_many rd n c) (\<lambda>(xs, c). Inr (x # xs, c)))"

definition read_sparse_entry :: "(u32 \<times> f32) reader" where
  "read_sparse_entry c = r_bind (read_u32 c) (\<lambda>(dimension_id, c).
     r_bind (read_f32 c) (\<lambda>(weight, c). Inr ((dimension_id, weight), c)))"

definition reject_trailing_bytes :: "bytes \<Rightarrow> engine_error + unit" where
  "reject_trailing_bytes c =
     (if remaining_bytes c \<noteq> 0 then Inl (CorruptRecord ''unexpected trailing bytes'') else Inr ())"

section \<open>Whole operations\<close>

definition ser_err :: "string + 'a \<Rightarrow> engine_error + 'a" where
  "ser_err = map_err SerializationError"

definition vector_flags :: "node_record \<Rightarrow> u8" where
  "vector_flags node =
     (if n_dense_vector node \<noteq> None then 1 else 0) OR (if n_sparse_vector node \<noteq> None then 2 else 0)"

definition encode_upsert_node :: "to_vec \<Rightarrow> bytes \<Rightarrow> node_record \<Rightarrow> engine_error + bytes" where
  "encode_upsert_node to_vec buf node =
     (let buf = write_u8 buf (tag_as_u8 TagUpsertNode);
          buf = write_u64 buf (n_id node);
          buf = write_u8 buf (of_nat (nls_len (n_label_ids node)));
          buf = foldl write_u32 buf (as_slice (n_label_ids node))
      in r_bind (write_str buf (n_key node)) (\<lambda>buf.
         let buf = write_i64 buf (n_created_at node);
             buf = write_i64 buf (n_updated_at node);
             buf = write_f32 buf (n_weight node)
         in r_bind (ser_err (to_vec (n_props node))) (\<lambda>props_bytes.
            r_bind (write_bytes buf props_bytes) (\<lambda>buf.
            let buf = write_u8 buf (vector_flags node);
                buf = (case n_dense_vector node of
                   None \<Rightarrow> buf
                 | Some dense \<Rightarrow> foldl write_f32 (write_u32 buf (of_nat (length dense))) dense);
                buf = (case n_sparse_vector node of
                   None \<Rightarrow> buf
                 | Some sparse \<Rightarrow>
                     foldl (\<lambda>buf (dimension_id, weight). write_sparse_vector_entry buf dimension_id weight)
                       (write_u32 buf (of_nat (length sparse))) sparse)
            in Inr buf))))"

definition encode_upsert_edge :: "to_vec \<Rightarrow> bytes \<Rightarrow> edge_record \<Rightarrow> engine_error + bytes" where
  "encode_upsert_edge to_vec buf edge =
     (let buf = write_u8 buf (tag_as_u8 TagUpsertEdge);
          buf = write_u64 buf (e_id edge);
          buf = write_u64 buf (e_from edge);
          buf = write_u64 buf (e_to edge);
          buf = write_u32 buf (e_label_id edge);
          buf = write_i64 buf (e_created_at edge);
          buf = write_i64 buf (e_updated_at edge);
          buf = write_f32 buf (e_weight edge)
      in r_bind (ser_err (to_vec (e_props edge))) (\<lambda>props_bytes.
         r_bind (write_bytes buf props_bytes) (\<lambda>buf.
         let buf = write_i64 buf (e_valid_from edge);
             buf = write_i64 buf (e_valid_to edge)
         in Inr buf)))"

definition encode_wal_op_into :: "to_vec \<Rightarrow> wal_op \<Rightarrow> bytes \<Rightarrow> engine_error + bytes" where
  "encode_wal_op_into to_vec op buf =
     (let buf = [] in case op of
        UpsertNode node \<Rightarrow> encode_upsert_node to_vec buf node
      | UpsertEdge edge \<Rightarrow> encode_upsert_edge to_vec buf edge
      | DeleteNode i at \<Rightarrow> Inr (write_i64 (write_u64 (write_u8 buf (tag_as_u8 TagDeleteNode)) i) at)
      | DeleteEdge i at \<Rightarrow> Inr (write_i64 (write_u64 (write_u8 buf (tag_as_u8 TagDeleteEdge)) i) at)
      | EnsureNodeLabel label label_id \<Rightarrow>
          r_bind (write_str (write_u8 buf (tag_as_u8 TagEnsureNodeLabel)) label)
            (\<lambda>buf. Inr (write_u32 buf label_id))
      | EnsureEdgeLabel label label_id \<Rightarrow>
          r_bind (write_str (write_u8 buf (tag_as_u8 TagEnsureEdgeLabel)) label)
            (\<lambda>buf. Inr (write_u32 buf label_id))
      | BeginAtomicBatch first_seq op_count \<Rightarrow>
          Inr (write_u32 (write_u64 (write_u8 buf (tag_as_u8 TagBeginAtomicBatch)) first_seq) op_count)
      | CommitAtomicBatch first_seq op_count \<Rightarrow>
          Inr (write_u32 (write_u64 (write_u8 buf (tag_as_u8 TagCommitAtomicBatch)) first_seq) op_count))"

definition decode_vectors ::
    "bytes \<Rightarrow> engine_error + (dense_vector option \<times> sparse_vector option)" where
  "decode_vectors c =
     (if remaining_bytes c = 0 then Inr (None, None)
      else r_bind (read_u8 c) (\<lambda>(flags, c).
        if flags AND NOT 3 \<noteq> 0 then Inl (CorruptRecord ''invalid vector flags on node WAL op'')
        else r_bind
          (if flags AND 1 \<noteq> 0 then
             r_bind (read_u32 c) (\<lambda>(len, c).
             r_bind (read_many read_f32 (unat len) c) (\<lambda>(values, c). Inr (Some values, c)))
           else Inr (None, c)) (\<lambda>(dense_vector, c).
        r_bind
          (if flags AND 2 \<noteq> 0 then
             r_bind (read_u32 c) (\<lambda>(len, c).
             r_bind (read_many read_sparse_entry (unat len) c) (\<lambda>(values, c). Inr (Some values, c)))
           else Inr (None, c)) (\<lambda>(sparse_vector, c).
        r_bind (reject_trailing_bytes c) (\<lambda>_. Inr (dense_vector, sparse_vector))))))"

definition decode_upsert_node :: "from_slice \<Rightarrow> bytes \<Rightarrow> engine_error + wal_op" where
  "decode_upsert_node from_slice c =
     r_bind (read_u64 c) (\<lambda>(i, c).
     r_bind (read_node_label_set c) (\<lambda>(label_ids, c).
     r_bind (read_str c) (\<lambda>(key, c).
     r_bind (read_i64 c) (\<lambda>(created_at, c).
     r_bind (read_i64 c) (\<lambda>(updated_at, c).
     r_bind (read_f32 c) (\<lambda>(weight, c).
     r_bind (read_bytes c) (\<lambda>(props_bytes, c).
     r_bind (ser_err (from_slice props_bytes)) (\<lambda>props.
     r_bind (decode_vectors c) (\<lambda>(dense_vector, sparse_vector).
       Inr (UpsertNode \<lparr>n_id = i, n_label_ids = label_ids, n_key = key, n_props = props,
         n_created_at = created_at, n_updated_at = updated_at, n_weight = weight,
         n_dense_vector = dense_vector, n_sparse_vector = sparse_vector,
         n_last_write_seq = 0\<rparr>))))))))))"

definition decode_upsert_edge :: "from_slice \<Rightarrow> bytes \<Rightarrow> engine_error + wal_op" where
  "decode_upsert_edge from_slice c =
     r_bind (read_u64 c) (\<lambda>(i, c).
     r_bind (read_u64 c) (\<lambda>(from, c).
     r_bind (read_u64 c) (\<lambda>(to, c).
     r_bind (read_u32 c) (\<lambda>(label_id, c).
     r_bind (read_i64 c) (\<lambda>(created_at, c).
     r_bind (read_i64 c) (\<lambda>(updated_at, c).
     r_bind (read_f32 c) (\<lambda>(weight, c).
     r_bind (read_bytes c) (\<lambda>(props_bytes, c).
     r_bind (ser_err (from_slice props_bytes)) (\<lambda>props.
     r_bind (read_i64 c) (\<lambda>(valid_from, c).
     r_bind (read_i64 c) (\<lambda>(valid_to, c).
     r_bind (reject_trailing_bytes c) (\<lambda>_.
       Inr (UpsertEdge \<lparr>e_id = i, e_from = from, e_to = to, e_label_id = label_id, e_props = props,
         e_created_at = created_at, e_updated_at = updated_at, e_weight = weight,
         e_valid_from = valid_from, e_valid_to = valid_to, e_last_write_seq = 0\<rparr>)))))))))))))"

definition decode_id_at :: "(u64 \<Rightarrow> i64 \<Rightarrow> wal_op) \<Rightarrow> bytes \<Rightarrow> engine_error + wal_op" where
  "decode_id_at mk c = r_bind (read_u64 c) (\<lambda>(i, c). r_bind (read_i64 c) (\<lambda>(at, c).
     r_bind (reject_trailing_bytes c) (\<lambda>_. Inr (mk i at))))"

definition decode_label :: "(rstring \<Rightarrow> u32 \<Rightarrow> wal_op) \<Rightarrow> bytes \<Rightarrow> engine_error + wal_op" where
  "decode_label mk c = r_bind (read_str c) (\<lambda>(label, c). r_bind (read_u32 c) (\<lambda>(label_id, c).
     r_bind (reject_trailing_bytes c) (\<lambda>_. Inr (mk label label_id))))"

definition decode_batch :: "(u64 \<Rightarrow> u32 \<Rightarrow> wal_op) \<Rightarrow> bytes \<Rightarrow> engine_error + wal_op" where
  "decode_batch mk c = r_bind (read_u64 c) (\<lambda>(first_seq, c). r_bind (read_u32 c) (\<lambda>(op_count, c).
     r_bind (reject_trailing_bytes c) (\<lambda>_. Inr (mk first_seq op_count))))"

definition decode_wal_op :: "from_slice \<Rightarrow> bytes \<Rightarrow> engine_error + wal_op" where
  "decode_wal_op from_slice data = r_bind (read_u8 data) (\<lambda>(op_tag, c).
     case tag_from_u8 op_tag of
       Some TagUpsertNode \<Rightarrow> decode_upsert_node from_slice c
     | Some TagUpsertEdge \<Rightarrow> decode_upsert_edge from_slice c
     | Some TagDeleteNode \<Rightarrow> decode_id_at DeleteNode c
     | Some TagDeleteEdge \<Rightarrow> decode_id_at DeleteEdge c
     | Some TagEnsureNodeLabel \<Rightarrow> decode_label EnsureNodeLabel c
     | Some TagEnsureEdgeLabel \<Rightarrow> decode_label EnsureEdgeLabel c
     | Some TagBeginAtomicBatch \<Rightarrow> decode_batch BeginAtomicBatch c
     | Some TagCommitAtomicBatch \<Rightarrow> decode_batch CommitAtomicBatch c
     | None \<Rightarrow> Inl (CorruptRecord ''unknown op tag''))"

section \<open>The contract of a field codec\<close>

locale field_codec =
  fixes enc :: "'a \<Rightarrow> bytes" and dec :: "'a reader" and ok :: "'a \<Rightarrow> bool"
  assumes dec_enc: "ok v \<Longrightarrow> dec (enc v @ rest) = Inr (v, rest)"
    and dec_consumes: "dec c = Inr (v, rest) \<Longrightarrow> \<exists>used. c = used @ rest \<and> used \<noteq> []"
begin

lemma read_many_enc:
  "list_all ok vs \<Longrightarrow> read_many dec (length vs) (concat (map enc vs) @ rest) = Inr (vs, rest)"
  by (induction vs) (simp_all add: dec_enc)

lemma read_many_length: "read_many dec n c = Inr (vs, rest) \<Longrightarrow> length vs = n \<and> length rest + n \<le> length c"
proof (induction n arbitrary: c vs)
  case 0
  then show ?case by simp
next
  case (Suc n)
  then obtain v c' vs' where "dec c = Inr (v, c')" and "read_many dec n c' = Inr (vs', rest)"
    and "vs = v # vs'"
    by (auto simp: r_bind_eq_Inr)
  moreover from this(1) obtain used where "c = used @ c'" "used \<noteq> []"
    using dec_consumes by blast
  ultimately show ?case using Suc.IH [of c' vs'] by (cases used) auto
qed

lemma enc_injective: "ok v \<Longrightarrow> ok w \<Longrightarrow> enc v = enc w \<Longrightarrow> v = w"
  by (metis Inr_inject Pair_inject append_Nil2 dec_enc)

end

lemma read_word_to_le:
  "n = LENGTH('a::len) div 8 \<Longrightarrow> 8 dvd LENGTH('a) \<Longrightarrow>
     read_word n what (to_le_bytes (v :: 'a word) @ rest) = Inr (v, rest)"
  by (simp add: read_word_def)

lemma read_word_consumes:
  "0 < n \<Longrightarrow> read_word n what c = Inr (v, rest) \<Longrightarrow> \<exists>used. c = used @ rest \<and> used \<noteq> []"
  by (auto simp: read_word_def split: option.splits dest!: split_exact_SomeD)

interpretation u8_field: field_codec "\<lambda>v. [v]" read_u8 "\<lambda>_. True"
  by unfold_locales
    (auto simp: read_u8_def split_exact_def neq_Nil_conv Suc_le_length_iff split: if_splits)

interpretation u16_field: field_codec to_le_bytes read_u16 "\<lambda>_. True"
  by unfold_locales (auto simp: read_u16_def read_word_to_le intro: read_word_consumes [rotated])

interpretation u32_field: field_codec to_le_bytes read_u32 "\<lambda>_. True"
  by unfold_locales (auto simp: read_u32_def read_word_to_le intro: read_word_consumes [rotated])

interpretation u64_field: field_codec to_le_bytes read_u64 "\<lambda>_. True"
  by unfold_locales (auto simp: read_u64_def read_word_to_le intro: read_word_consumes [rotated])

interpretation i64_field: field_codec to_le_bytes read_i64 "\<lambda>_. True"
  by unfold_locales (auto simp: read_i64_def read_word_to_le intro: read_word_consumes [rotated])

interpretation f32_field: field_codec to_le_bytes read_f32 "\<lambda>_. True"
  by unfold_locales (auto simp: read_f32_def read_word_to_le intro: read_word_consumes [rotated])

lemmas [codec] = u8_field.dec_enc u16_field.dec_enc u32_field.dec_enc u64_field.dec_enc
  i64_field.dec_enc f32_field.dec_enc

definition enc_sparse_entry :: "u32 \<times> f32 \<Rightarrow> bytes" where
  "enc_sparse_entry e = to_le_bytes (fst e) @ to_le_bytes (snd e)"

interpretation sparse_field: field_codec enc_sparse_entry read_sparse_entry "\<lambda>_. True"
proof unfold_locales
  show "read_sparse_entry (enc_sparse_entry v @ rest) = Inr (v, rest)" for v rest
    by (simp add: enc_sparse_entry_def read_sparse_entry_def codec)
next
  fix c v rest
  assume "read_sparse_entry c = Inr (v, rest)"
  then obtain d w c' where "read_u32 c = Inr (d, c')" "read_f32 c' = Inr (w, rest)"
    by (auto simp: read_sparse_entry_def r_bind_eq_Inr)
  then show "\<exists>used. c = used @ rest \<and> used \<noteq> []"
    using u32_field.dec_consumes f32_field.dec_consumes by fastforce
qed

definition enc_str :: "rstring \<Rightarrow> bytes" where
  "enc_str s = to_le_bytes (of_nat (length s) :: u16) @ s"

definition enc_bytes :: "bytes \<Rightarrow> bytes" where
  "enc_bytes s = to_le_bytes (of_nat (length s) :: u32) @ s"

interpretation str_field: field_codec enc_str read_str "\<lambda>s. utf8_valid s \<and> length s \<le> 65535"
proof unfold_locales
  fix v :: rstring and rest
  assume v: "utf8_valid v \<and> length v \<le> 65535"
  then have "unat (of_nat (length v) :: u16) = length v" by (simp add: unat_of_nat_small)
  with v show "read_str (enc_str v @ rest) = Inr (v, rest)"
    by (simp add: read_str_def enc_str_def codec)
next
  fix c v rest
  assume "read_str c = Inr (v, rest)"
  then obtain len c' where "read_u16 c = Inr (len, c')" and "split_exact (unat len) c' = Some (v, rest)"
    by (auto simp: read_str_def r_bind_eq_Inr split: option.splits if_splits)
  then show "\<exists>used. c = used @ rest \<and> used \<noteq> []"
    using u16_field.dec_consumes split_exact_SomeD by fastforce
qed

interpretation bytes_field: field_codec enc_bytes read_bytes "\<lambda>s. length s \<le> MAX_BYTES_LEN"
proof unfold_locales
  fix v :: bytes and rest
  assume v: "length v \<le> MAX_BYTES_LEN"
  then have "unat (of_nat (length v) :: u32) = length v"
    by (simp add: MAX_BYTES_LEN_def unat_of_nat_small)
  with v show "read_bytes (enc_bytes v @ rest) = Inr (v, rest)"
    by (simp add: read_bytes_def enc_bytes_def codec)
next
  fix c v rest
  assume "read_bytes c = Inr (v, rest)"
  then obtain len c' where "read_u32 c = Inr (len, c')" and "split_exact (unat len) c' = Some (v, rest)"
    by (auto simp: read_bytes_def r_bind_eq_Inr split: option.splits if_splits)
  then show "\<exists>used. c = used @ rest \<and> used \<noteq> []"
    using u32_field.dec_consumes split_exact_SomeD by fastforce
qed

lemmas [codec] = str_field.dec_enc bytes_field.dec_enc sparse_field.dec_enc
  f32_field.read_many_enc sparse_field.read_many_enc

section \<open>Round trip of whole operations\<close>

declare tag_as_u8.simps [simp del]

text \<open>What the engine relies on from MessagePack: a serialised property map reads back.\<close>

definition rmp_lossless :: "to_vec \<Rightarrow> from_slice \<Rightarrow> bool" where
  "rmp_lossless to_vec from_slice \<longleftrightarrow>
     (\<forall>p bs. props_wf p \<longrightarrow> to_vec p = Inr bs \<longrightarrow> from_slice bs = Inr p)"

lemma rmp_losslessD:
  "rmp_lossless tv fs \<Longrightarrow> props_wf p \<Longrightarrow> tv p = Inr bs \<Longrightarrow> fs bs = Inr p"
  by (simp add: rmp_lossless_def)

fun op_wf :: "wal_op \<Rightarrow> bool" where
  "op_wf (UpsertNode n) \<longleftrightarrow>
     nls_wf (n_label_ids n) \<and> utf8_valid (n_key n) \<and> props_wf (n_props n) \<and>
     (\<forall>d. n_dense_vector n = Some d \<longrightarrow> length d < 2 ^ 32) \<and>
     (\<forall>d. n_sparse_vector n = Some d \<longrightarrow> length d < 2 ^ 32)"
| "op_wf (UpsertEdge e) \<longleftrightarrow> props_wf (e_props e)"
| "op_wf (EnsureNodeLabel l _) \<longleftrightarrow> utf8_valid l"
| "op_wf (EnsureEdgeLabel l _) \<longleftrightarrow> utf8_valid l"
| "op_wf _ \<longleftrightarrow> True"

text \<open>The write sequence is not part of the payload: decoding leaves it zero.\<close>

fun clear_seq :: "wal_op \<Rightarrow> wal_op" where
  "clear_seq (UpsertNode n) = UpsertNode (n\<lparr>n_last_write_seq := 0\<rparr>)"
| "clear_seq (UpsertEdge e) = UpsertEdge (e\<lparr>e_last_write_seq := 0\<rparr>)"
| "clear_seq op = op"

lemmas write_defs = write_u8_def write_u16_def write_u32_def write_u64_def write_i64_def write_f32_def
  write_sparse_vector_entry_def

lemma write_str_eq: "write_str buf s = Inr bs \<longleftrightarrow> length s \<le> 65535 \<and> bs = buf @ enc_str s"
  by (auto simp: write_str_def write_defs enc_str_def)

lemma write_bytes_eq: "write_bytes buf s = Inr bs \<longleftrightarrow> length s \<le> MAX_BYTES_LEN \<and> bs = buf @ enc_bytes s"
  by (auto simp: write_bytes_def write_defs enc_bytes_def)

lemma foldl_write_u32: "foldl write_u32 buf xs = buf @ concat (map to_le_bytes xs)"
  by (induction xs arbitrary: buf) (simp_all add: write_defs)

lemma foldl_write_f32: "foldl write_f32 buf xs = buf @ concat (map to_le_bytes xs)"
  by (induction xs arbitrary: buf) (simp_all add: write_defs)

lemma foldl_write_sparse:
  "foldl (\<lambda>buf (d, w). write_sparse_vector_entry buf d w) buf xs = buf @ concat (map enc_sparse_entry xs)"
  by (induction xs arbitrary: buf) (simp_all add: write_defs enc_sparse_entry_def split: prod.splits)

lemma read_label_ids_enc:
  "sorted_wrt (<) (ids @ ls) \<Longrightarrow>
     read_label_ids (length ls) ids (concat (map to_le_bytes ls) @ rest) = Inr (ids @ ls, rest)"
proof (induction ls arbitrary: ids)
  case Nil
  show ?case by simp
next
  case (Cons l ls)
  then have "\<forall>x \<in> set ids. x < l" by (auto simp: sorted_wrt_append)
  then have "ids = [] \<or> last ids < l" using last_in_set by blast
  moreover have "sorted_wrt (<) ((ids @ [l]) @ ls)" using Cons.prems by simp
  ultimately show ?case using Cons.IH [of "ids @ [l]"] by (auto simp: codec not_le)
qed

lemma read_node_label_set_enc [codec]:
  assumes "nls_wf s"
  shows "read_node_label_set (of_nat (nls_len s) # concat (map to_le_bytes (as_slice s)) @ rest) = Inr (s, rest)"
proof -
  from assms have len: "1 \<le> nls_len s" "nls_len s \<le> MAX_NODE_LABELS_PER_NODE" "length (as_slice s) = nls_len s"
    and srt: "sorted_wrt (<) ([] @ as_slice s)"
    by (simp_all add: nls_wf_def)
  have un: "unat (of_nat (nls_len s) :: u8) = nls_len s"
    using len(2) by (simp add: MAX_NODE_LABELS_PER_NODE_def unat_of_nat_small)
  then have nz: "(of_nat (nls_len s) :: u8) \<noteq> 0"
    using len(1) by (metis One_nat_def not_one_le_zero unat_0)
  have "from_canonical_ids (as_slice s) = Inr s"
    using assms by (simp add: from_canonical_ids_eq canonical_as_slice mk_nls_as_slice)
  then show ?thesis
    using len un nz read_label_ids_enc [OF srt, of rest] u8_field.dec_enc [of "of_nat (nls_len s)"]
    by (simp add: read_node_label_set_def)
qed

definition enc_vectors :: "node_record \<Rightarrow> bytes" where
  "enc_vectors n = [vector_flags n] @
     (case n_dense_vector n of None \<Rightarrow> []
      | Some d \<Rightarrow> to_le_bytes (of_nat (length d) :: u32) @ concat (map to_le_bytes d)) @
     (case n_sparse_vector n of None \<Rightarrow> []
      | Some d \<Rightarrow> to_le_bytes (of_nat (length d) :: u32) @ concat (map enc_sparse_entry d))"

definition after_decode :: "'a \<Rightarrow> bytes \<Rightarrow> engine_error + 'a" where
  "after_decode v extra =
     (if extra = [] then Inr v else Inl (CorruptRecord ''unexpected trailing bytes''))"

lemma reject_trailing_after: "r_bind (reject_trailing_bytes c) (\<lambda>_. Inr v) = after_decode v c"
  by (simp add: reject_trailing_bytes_def remaining_bytes_def after_decode_def)

lemma decode_vectors_enc [codec]:
  assumes "\<forall>d. n_dense_vector n = Some d \<longrightarrow> length d < 2 ^ 32"
    and "\<forall>d. n_sparse_vector n = Some d \<longrightarrow> length d < 2 ^ 32"
  shows "decode_vectors (enc_vectors n @ extra) = after_decode (n_dense_vector n, n_sparse_vector n) extra"
proof -
  have un: "unat (of_nat (length d) :: u32) = length d" if "length d < 2 ^ 32" for d :: "'a list"
    using that by (simp add: unat_of_nat_small)
  have f: "read_many read_f32 (length d) (concat (map to_le_bytes d) @ c) = Inr (d, c)" for d c
    using f32_field.read_many_enc [of d c] by (simp add: list_all_iff)
  have g: "read_many read_sparse_entry (length d) (concat (map enc_sparse_entry d) @ c) = Inr (d, c)" for d c
    using sparse_field.read_many_enc [of d c] by (simp add: list_all_iff)
  have h: "read_u8 (b # c) = Inr (b, c)" for b c
    using u8_field.dec_enc [of b c] by simp
  show ?thesis
    using assms
    by (cases "n_dense_vector n"; cases "n_sparse_vector n")
      (simp_all add: decode_vectors_def enc_vectors_def vector_flags_def remaining_bytes_def h un f g
        u32_field.dec_enc reject_trailing_after)
qed

definition enc_node :: "bytes \<Rightarrow> node_record \<Rightarrow> bytes" where
  "enc_node pb n = tag_as_u8 TagUpsertNode # to_le_bytes (n_id n) @
     (of_nat (nls_len (n_label_ids n)) # concat (map to_le_bytes (as_slice (n_label_ids n))) @
     enc_str (n_key n) @ to_le_bytes (n_created_at n) @ to_le_bytes (n_updated_at n) @
     to_le_bytes (n_weight n) @ enc_bytes pb @ enc_vectors n)"

definition enc_edge :: "bytes \<Rightarrow> edge_record \<Rightarrow> bytes" where
  "enc_edge pb e = tag_as_u8 TagUpsertEdge # to_le_bytes (e_id e) @ to_le_bytes (e_from e) @
     to_le_bytes (e_to e) @ to_le_bytes (e_label_id e) @ to_le_bytes (e_created_at e) @
     to_le_bytes (e_updated_at e) @ to_le_bytes (e_weight e) @ enc_bytes pb @
     to_le_bytes (e_valid_from e) @ to_le_bytes (e_valid_to e)"

lemma encode_upsert_node_eq:
  "encode_upsert_node tv [] n = Inr bs \<longleftrightarrow>
     (\<exists>pb. tv (n_props n) = Inr pb \<and> length (n_key n) \<le> 65535 \<and> length pb \<le> MAX_BYTES_LEN \<and> bs = enc_node pb n)"
  by (auto simp: encode_upsert_node_def Let_def r_bind_eq_Inr write_str_eq write_bytes_eq write_defs
      ser_err_def enc_node_def enc_vectors_def foldl_write_u32 foldl_write_f32
      foldl_write_sparse split: option.splits)

lemma encode_upsert_edge_eq:
  "encode_upsert_edge tv [] e = Inr bs \<longleftrightarrow>
     (\<exists>pb. tv (e_props e) = Inr pb \<and> length pb \<le> MAX_BYTES_LEN \<and> bs = enc_edge pb e)"
  by (auto simp: encode_upsert_edge_def Let_def r_bind_eq_Inr write_bytes_eq write_defs
      ser_err_def enc_edge_def)

lemma read_u8_Cons [codec]: "read_u8 (b # c) = Inr (b, c)"
  using u8_field.dec_enc [of b c] by simp

lemma decode_upsert_node_enc:
  assumes "op_wf (UpsertNode n)" and "length (n_key n) \<le> 65535" and "length pb \<le> MAX_BYTES_LEN"
    and "fs pb = Inr (n_props n)"
  shows "decode_wal_op fs (enc_node pb n @ extra) = after_decode (clear_seq (UpsertNode n)) extra"
  using assms
  by (auto simp: decode_wal_op_def enc_node_def codec decode_upsert_node_def ser_err_def after_decode_def)

lemma decode_upsert_edge_enc:
  assumes "length pb \<le> MAX_BYTES_LEN" and "fs pb = Inr (e_props e)"
  shows "decode_wal_op fs (enc_edge pb e @ extra) = after_decode (clear_seq (UpsertEdge e)) extra"
  using assms
  by (cases e) (simp add: decode_wal_op_def enc_edge_def codec decode_upsert_edge_def ser_err_def reject_trailing_after)

lemma decode_encode_extra:
  assumes rmp: "rmp_lossless tv fs" and wf: "op_wf op" and enc: "encode_wal_op_into tv op buf = Inr bs"
  shows "decode_wal_op fs (bs @ extra) = after_decode (clear_seq op) extra"
proof (cases op)
  case (UpsertNode n)
  with enc obtain pb where pb: "tv (n_props n) = Inr pb" "length (n_key n) \<le> 65535"
      "length pb \<le> MAX_BYTES_LEN" "bs = enc_node pb n"
    by (auto simp: encode_wal_op_into_def encode_upsert_node_eq)
  moreover have "fs pb = Inr (n_props n)"
    using rmp pb(1) wf UpsertNode by (auto intro: rmp_losslessD)
  ultimately show ?thesis using wf UpsertNode by (simp add: decode_upsert_node_enc del: op_wf.simps)
next
  case (UpsertEdge e)
  with enc obtain pb where pb: "tv (e_props e) = Inr pb" "length pb \<le> MAX_BYTES_LEN" "bs = enc_edge pb e"
    by (auto simp: encode_wal_op_into_def encode_upsert_edge_eq)
  moreover have "fs pb = Inr (e_props e)"
    using rmp pb(1) wf UpsertEdge by (auto intro: rmp_losslessD)
  ultimately show ?thesis using UpsertEdge by (simp add: decode_upsert_edge_enc)
qed (use wf enc in \<open>auto simp: encode_wal_op_into_def decode_wal_op_def r_bind_eq_Inr write_str_eq write_defs
       codec decode_id_at_def decode_label_def decode_batch_def reject_trailing_after\<close>)

lemma encode_ignores_buf: "encode_wal_op_into tv op buf = encode_wal_op_into tv op []"
  by (simp add: encode_wal_op_into_def)

lemma encode_nonempty: "encode_wal_op_into tv op buf = Inr bs \<Longrightarrow> \<exists>r. bs = tag_as_u8 (op_tag_of op) # r"
  by (cases op) (auto simp: encode_wal_op_into_def encode_upsert_node_eq encode_upsert_edge_eq enc_node_def
      enc_edge_def r_bind_eq_Inr write_str_eq write_defs)

section \<open>Payloads read back\<close>

text \<open>
  C26. Every operation the encoder accepts decodes to itself (the write sequence, which travels in the
  frame and not in the payload, reset to zero), and the decoder consumes exactly the bytes written:
  anything behind them is rejected as corruption.
\<close>

theorem wal_op_roundtrip:
  assumes "rmp_lossless tv fs" and "op_wf op" and "encode_wal_op_into tv op buf = Inr bs"
  shows "decode_wal_op fs (bs @ extra) =
    (if extra = [] then Inr (clear_seq op) else Inl (CorruptRecord ''unexpected trailing bytes''))"
  using decode_encode_extra [OF assms] by (simp add: after_decode_def)

text \<open>MessagePack on the empty map only (\<^verbatim>\<open>0x80\<close>): a codec the witnesses run with.\<close>

definition empty_map_to_vec :: to_vec where
  "empty_map_to_vec p = (if p = [] then Inr [0x80] else Inl ''unsupported'')"

definition empty_map_from_slice :: from_slice where
  "empty_map_from_slice bs = (if bs = [0x80] then Inr [] else Inl ''unsupported'')"

lemma empty_map_lossless: "rmp_lossless empty_map_to_vec empty_map_from_slice"
  by (auto simp: rmp_lossless_def empty_map_to_vec_def empty_map_from_slice_def split: if_splits)

definition example_node :: node_record where
  "example_node = \<lparr>n_id = 7, n_label_ids = mk_nls [1, 4], n_key = [97, 98], n_props = [],
     n_created_at = 10, n_updated_at = - 1, n_weight = 0, n_dense_vector = Some [1, 2],
     n_sparse_vector = Some [(3, 4)], n_last_write_seq = 99\<rparr>"

lemma example_node_wf: "op_wf (UpsertNode example_node)"
  by (simp add: example_node_def canonical_ids_def MAX_NODE_LABELS_PER_NODE_def props_wf_def btree_wf_def)

lemma encode_example_node:
  "encode_wal_op_into empty_map_to_vec (UpsertNode example_node) [] = Inr (enc_node [0x80] example_node)"
  by (simp add: encode_wal_op_into_def encode_upsert_node_eq example_node_def empty_map_to_vec_def MAX_BYTES_LEN_def)

theorem wal_op_roundtrip_witness:
  "decode_wal_op empty_map_from_slice (enc_node [0x80] example_node) =
     Inr (UpsertNode (example_node\<lparr>n_last_write_seq := 0\<rparr>))"
  using wal_op_roundtrip [OF empty_map_lossless example_node_wf encode_example_node, of "[]"] by simp

lemma read_str_ok: "read_str c = Inr (s, r) \<Longrightarrow> utf8_valid s \<and> length s \<le> 65535"
proof -
  assume "read_str c = Inr (s, r)"
  then obtain len c' where "split_exact (unat (len :: u16)) c' = Some (s, r)" and "utf8_valid s"
    by (auto simp: read_str_def r_bind_eq_Inr split: option.splits if_splits)
  moreover have "unat len \<le> 65535" using unsigned_less [of len, where ?'a = nat] by simp
  ultimately show ?thesis using split_exact_SomeD by fastforce
qed

lemma read_node_label_set_ok: "read_node_label_set c = Inr (s, r) \<Longrightarrow> nls_wf s"
  by (auto simp: read_node_label_set_def r_bind_eq_Inr split: if_splits intro: from_canonical_ids_wf)

lemma field_shrinks:
  "read_u8 c = Inr (a, r) \<Longrightarrow> length r \<le> length c"
  "read_u32 c = Inr (b, r) \<Longrightarrow> length r \<le> length c"
  "read_u64 c = Inr (d, r) \<Longrightarrow> length r \<le> length c"
  "read_i64 c = Inr (e, r) \<Longrightarrow> length r \<le> length c"
  "read_f32 c = Inr (f, r) \<Longrightarrow> length r \<le> length c"
  "read_str c = Inr (g, r) \<Longrightarrow> length r \<le> length c"
  "read_bytes c = Inr (h, r) \<Longrightarrow> length r \<le> length c"
  by (auto dest!: u8_field.dec_consumes u32_field.dec_consumes u64_field.dec_consumes
      i64_field.dec_consumes f32_field.dec_consumes str_field.dec_consumes bytes_field.dec_consumes)

lemma read_label_ids_shrinks: "read_label_ids n ids c = Inr (l, r) \<Longrightarrow> length r \<le> length c"
  by (induction n ids c rule: read_label_ids.induct)
    (fastforce simp: r_bind_eq_Inr dest: field_shrinks split: if_splits)+

lemma read_node_label_set_shrinks: "read_node_label_set c = Inr (s, r) \<Longrightarrow> length r \<le> length c"
  by (fastforce simp: read_node_label_set_def r_bind_eq_Inr dest: field_shrinks read_label_ids_shrinks
      split: if_splits)

lemma decode_vectors_ok:
  assumes "decode_vectors c = Inr (d, s)"
  shows "(case d of None \<Rightarrow> 0 | Some v \<Rightarrow> length v) + (case s of None \<Rightarrow> 0 | Some v \<Rightarrow> length v) \<le> length c"
  using assms
  by (fastforce simp: decode_vectors_def r_bind_eq_Inr dest!: field_shrinks f32_field.read_many_length
      sparse_field.read_many_length split: if_splits)

lemma decode_upsert_node_ok:
  assumes "decode_upsert_node fs c = Inr op"
  obtains n where "op = UpsertNode n" "nls_wf (n_label_ids n)" "utf8_valid (n_key n)"
    "length (n_key n) \<le> 65535" "n_last_write_seq n = 0"
    "(case n_dense_vector n of None \<Rightarrow> 0 | Some v \<Rightarrow> length v) +
       (case n_sparse_vector n of None \<Rightarrow> 0 | Some v \<Rightarrow> length v) \<le> length c"
proof -
  from assms obtain i c1 ls c2 key c3 ca c4 ua c5 w c6 pb c7 p d sp where
    r: "read_u64 c = Inr (i, c1)" "read_node_label_set c1 = Inr (ls, c2)" "read_str c2 = Inr (key, c3)"
      "read_i64 c3 = Inr (ca, c4)" "read_i64 c4 = Inr (ua, c5)" "read_f32 c5 = Inr (w, c6)"
      "read_bytes c6 = Inr (pb, c7)" "decode_vectors c7 = Inr (d, sp)"
    and op: "op = UpsertNode \<lparr>n_id = i, n_label_ids = ls, n_key = key, n_props = p, n_created_at = ca,
      n_updated_at = ua, n_weight = w, n_dense_vector = d, n_sparse_vector = sp, n_last_write_seq = 0\<rparr>"
    by (auto simp: decode_upsert_node_def r_bind_eq_Inr)
  from r have "length c7 \<le> length c"
    by (auto dest!: field_shrinks read_node_label_set_shrinks)
  with decode_vectors_ok [OF r(8)] read_str_ok [OF r(3)] read_node_label_set_ok [OF r(2)] op
  show ?thesis by (intro that) auto
qed

lemma decode_upsert_edge_ok:
  "decode_upsert_edge fs c = Inr op \<Longrightarrow> \<exists>e. op = UpsertEdge e \<and> e_last_write_seq e = 0"
  by (auto simp: decode_upsert_edge_def r_bind_eq_Inr)

text \<open>
  C27. Whatever bytes the decoder accepts, the record it returns is well formed: a node has a canonical
  label set, a UTF-8 key of at most 65535 bytes, a zero write sequence, and vectors with no more
  elements than the payload has bytes; a label record has a UTF-8 name.
\<close>

theorem decode_wal_op_wf:
  assumes "decode_wal_op fs bs = Inr op"
  shows "case op of
      UpsertNode n \<Rightarrow> nls_wf (n_label_ids n) \<and> utf8_valid (n_key n) \<and> length (n_key n) \<le> 65535 \<and>
        n_last_write_seq n = 0 \<and>
        (case n_dense_vector n of None \<Rightarrow> 0 | Some v \<Rightarrow> length v) +
        (case n_sparse_vector n of None \<Rightarrow> 0 | Some v \<Rightarrow> length v) \<le> length bs
    | UpsertEdge e \<Rightarrow> e_last_write_seq e = 0
    | EnsureNodeLabel label _ \<Rightarrow> utf8_valid label \<and> length label \<le> 65535
    | EnsureEdgeLabel label _ \<Rightarrow> utf8_valid label \<and> length label \<le> 65535
    | _ \<Rightarrow> True"
proof -
  from assms obtain t c where c: "read_u8 bs = Inr (t, c)" by (auto simp: decode_wal_op_def r_bind_eq_Inr)
  with assms consider
      "decode_upsert_node fs c = Inr op" | "decode_upsert_edge fs c = Inr op"
    | "decode_label EnsureNodeLabel c = Inr op" | "decode_label EnsureEdgeLabel c = Inr op"
    | "case op of DeleteNode _ _ \<Rightarrow> True | DeleteEdge _ _ \<Rightarrow> True | BeginAtomicBatch _ _ \<Rightarrow> True
        | CommitAtomicBatch _ _ \<Rightarrow> True | _ \<Rightarrow> False"
    by (auto simp: decode_wal_op_def decode_id_at_def decode_batch_def r_bind_eq_Inr
        split: option.splits op_tag.splits)
  then show ?thesis
  proof cases
    case 1
    then show ?thesis using field_shrinks(1) [OF c] by (auto elim!: decode_upsert_node_ok)
  next
    case 5
    then show ?thesis by (auto split: wal_op.splits)
  qed (auto simp: decode_label_def r_bind_eq_Inr dest!: decode_upsert_edge_ok read_str_ok)
qed

theorem decode_wal_op_wf_witness:
  "length (n_key (example_node\<lparr>n_last_write_seq := 0\<rparr>)) \<le> 65535"
  using decode_wal_op_wf [of empty_map_from_slice "enc_node [0x80] example_node"
      "UpsertNode (example_node\<lparr>n_last_write_seq := 0\<rparr>)"]
    decode_encode_extra [OF empty_map_lossless example_node_wf encode_example_node, of "[]"]
  by (simp add: after_decode_def)

text \<open>
  C28. The encoder fails exactly in the three cases the format cannot hold: a key or label name over
  65535 bytes, properties the MessagePack encoder refuses, or properties over 64 MiB.
\<close>

theorem encode_wal_op_fails_iff:
  "(\<exists>err. encode_wal_op_into tv op buf = Inl err) \<longleftrightarrow> (case op of
      UpsertNode n \<Rightarrow> length (n_key n) > 65535 \<or>
        (case tv (n_props n) of Inl _ \<Rightarrow> True | Inr pb \<Rightarrow> length pb > MAX_BYTES_LEN)
    | UpsertEdge e \<Rightarrow> (case tv (e_props e) of Inl _ \<Rightarrow> True | Inr pb \<Rightarrow> length pb > MAX_BYTES_LEN)
    | EnsureNodeLabel label _ \<Rightarrow> length label > 65535
    | EnsureEdgeLabel label _ \<Rightarrow> length label > 65535
    | _ \<Rightarrow> False)"
proof -
  have *: "(\<exists>err. r = Inl err) \<longleftrightarrow> \<not> (\<exists>v. r = Inr v)" for r :: "engine_error + bytes"
    by (cases r) auto
  show ?thesis
    unfolding *
    by (cases op)
      (auto simp: encode_wal_op_into_def encode_upsert_node_eq encode_upsert_edge_eq r_bind_eq_Inr
        write_str_eq not_less split: sum.splits)
qed

end
