(* ===== verification/Wal.thy ===== *)
theory Wal
  imports Encoding
begin

text \<open>
  The write-ahead log of \<^verbatim>\<open>src/src/wal.rs\<close>: framing with a length and a CRC, atomic batches
  between an opening and a commit record, and the reader that recovers the longest usable prefix.
  A log file is its byte string (\<open>None\<close>: no such file); a writer is the byte string handed to
  the operating system so far together with the length known to be on disk. The checksum of
  the crate \<^verbatim>\<open>crc32fast\<close> is the parameter \<open>crc\<close> (the incremental hasher of the writer and the
  one-shot \<^verbatim>\<open>hash\<close> of the reader compute the same checksum of the same bytes). Failing system
  calls are not modelled here.
\<close>

section \<open>Reading state of an atomic batch\<close>

record wal_read_atomic_batch =
  b_first_seq :: u64
  b_op_count :: u32
  b_ops_read :: u32

definition batch_new :: "u64 \<Rightarrow> u32 \<Rightarrow> wal_read_atomic_batch option" where
  "batch_new first_seq op_count =
     (if first_seq = 0 \<or> op_count < 2 then None
      else Some \<lparr>b_first_seq = first_seq, b_op_count = op_count, b_ops_read = 0\<rparr>)"

definition checked_add_u64 :: "u64 \<Rightarrow> u64 \<Rightarrow> u64 option" where
  "checked_add_u64 a b = (if unat a + unat b < 2 ^ 64 then Some (a + b) else None)"

definition push_normal_op :: "wal_read_atomic_batch \<Rightarrow> u64 \<Rightarrow> wal_read_atomic_batch option" where
  "push_normal_op b seq =
     (if b_ops_read b \<ge> b_op_count b then None
      else case checked_add_u64 (b_first_seq b) (ucast (b_ops_read b)) of
        None \<Rightarrow> None
      | Some expected_seq \<Rightarrow>
          if seq \<noteq> expected_seq then None else Some (b\<lparr>b_ops_read := b_ops_read b + 1\<rparr>))"

definition matches_commit :: "wal_read_atomic_batch \<Rightarrow> u64 \<Rightarrow> u32 \<Rightarrow> bool" where
  "matches_commit b first_seq op_count \<longleftrightarrow>
     b_first_seq b = first_seq \<and> b_op_count b = op_count \<and> b_ops_read b = op_count"

section \<open>Header\<close>

definition WAL_MAGIC :: bytes where
  "WAL_MAGIC = str ''OVGR''"

definition WAL_VERSION :: u32 where
  "WAL_VERSION = 3"

definition WAL_HEADER_SIZE :: nat where
  "WAL_HEADER_SIZE = 8"

definition MAX_WAL_RECORD_SIZE :: nat where
  "MAX_WAL_RECORD_SIZE = 64 * 1024 * 1024"

definition wal_header :: bytes where
  "wal_header = WAL_MAGIC @ to_le_bytes WAL_VERSION"

definition validate_wal_header :: "bytes \<Rightarrow> engine_error + unit" where
  "validate_wal_header header =
     (if take 4 header \<noteq> WAL_MAGIC then Inl (CorruptWal ''invalid WAL magic'')
      else if (from_le_bytes (take 4 (drop 4 header)) :: u32) \<noteq> WAL_VERSION then
        Inl (CorruptWal ''unsupported WAL version'')
      else Inr ())"

section \<open>Writer\<close>

record wal_writer =
  w_content :: bytes
  w_synced :: nat

definition open_generation :: "bytes option \<Rightarrow> engine_error + wal_writer" where
  "open_generation file =
     (let content = (case file of None \<Rightarrow> [] | Some bs \<Rightarrow> bs) in
      if length content = 0 then Inr \<lparr>w_content = wal_header, w_synced = length wal_header\<rparr>
      else if length content < WAL_HEADER_SIZE then Inl (CorruptWal ''WAL file too small for header'')
      else r_bind (validate_wal_header (take WAL_HEADER_SIZE content))
        (\<lambda>_. Inr \<lparr>w_content = content, w_synced = length content\<rparr>))"

definition frame_bytes :: "(bytes \<Rightarrow> u32) \<Rightarrow> u64 \<Rightarrow> bytes \<Rightarrow> bytes" where
  "frame_bytes crc seq encode_buf =
     (let seq_bytes = to_le_bytes seq;
          total_payload = 8 + length encode_buf;
          len = (of_nat total_payload :: u32);
          crc = crc (seq_bytes @ encode_buf)
      in to_le_bytes len @ to_le_bytes crc @ seq_bytes @ encode_buf)"

definition append ::
    "(bytes \<Rightarrow> u32) \<Rightarrow> to_vec \<Rightarrow> wal_writer \<Rightarrow> wal_op \<Rightarrow> u64 \<Rightarrow> engine_error + (wal_writer \<times> nat)" where
  "append crc to_vec w op engine_seq =
     r_bind (encode_wal_op_into to_vec op []) (\<lambda>encode_buf.
       Inr (w\<lparr>w_content := w_content w @ frame_bytes crc engine_seq encode_buf\<rparr>,
            8 + (8 + length encode_buf)))"

definition encode_frame_into ::
    "(bytes \<Rightarrow> u32) \<Rightarrow> to_vec \<Rightarrow> u64 \<Rightarrow> wal_op \<Rightarrow> bytes \<Rightarrow> engine_error + bytes" where
  "encode_frame_into crc to_vec seq op batch_buf =
     r_bind (encode_wal_op_into to_vec op []) (\<lambda>encode_buf.
       Inr (batch_buf @ frame_bytes crc seq encode_buf))"

definition check_batch_seq :: "u64 \<Rightarrow> unit \<Rightarrow> nat \<times> (u64 \<times> wal_op) \<Rightarrow> engine_error + unit" where
  "check_batch_seq first_seq u x = (case x of (idx, (seq, _)) \<Rightarrow>
     case checked_add_u64 first_seq (of_nat idx) of
       None \<Rightarrow> Inl (InvalidOperation ''atomic WAL batch sequence range overflows u64'')
     | Some expected_seq \<Rightarrow>
         if seq \<noteq> expected_seq then
           Inl (InvalidOperation ''atomic WAL batch sequences must be contiguous'')
         else Inr ())"

definition encode_batch ::
    "(bytes \<Rightarrow> u32) \<Rightarrow> to_vec \<Rightarrow> (u64 \<times> wal_op) list \<Rightarrow> engine_error + bytes" where
  "encode_batch crc to_vec ops = (case ops of
     [] \<Rightarrow> Inr []
   | [(seq, op)] \<Rightarrow> encode_frame_into crc to_vec seq op []
   | _ \<Rightarrow>
      (let first_seq = fst (ops ! 0) in
       if length ops \<ge> 2 ^ 32 then
         Inl (InvalidOperation ''atomic WAL batch op_count exceeds u32::MAX'')
       else
         let op_count = (of_nat (length ops) :: u32) in
         if first_seq = 0 then
           Inl (InvalidOperation ''atomic WAL batch first sequence must be nonzero'')
         else
           r_bind (r_fold (check_batch_seq first_seq) () (enumerate 0 ops)) (\<lambda>_.
           r_bind (encode_frame_into crc to_vec first_seq (BeginAtomicBatch first_seq op_count) []) (\<lambda>batch_buf.
           r_bind (r_fold (\<lambda>buf (seq, op). encode_frame_into crc to_vec seq op buf) batch_buf ops) (\<lambda>batch_buf.
             encode_frame_into crc to_vec first_seq (CommitAtomicBatch first_seq op_count) batch_buf)))))"

definition append_batch ::
    "(bytes \<Rightarrow> u32) \<Rightarrow> to_vec \<Rightarrow> wal_writer \<Rightarrow> (u64 \<times> wal_op) list \<Rightarrow> engine_error + (wal_writer \<times> nat)" where
  "append_batch crc to_vec w ops =
     r_bind (encode_batch crc to_vec ops) (\<lambda>batch_buf.
       Inr (w\<lparr>w_content := w_content w @ batch_buf\<rparr>, length batch_buf))"

definition wal_sync :: "wal_writer \<Rightarrow> wal_writer" where
  "wal_sync w = w\<lparr>w_synced := length (w_content w)\<rparr>"

section \<open>Reader\<close>

record wal_read_result =
  records :: "(u64 \<times> wal_op) list"
  durable_len :: nat

text \<open>
  What the loop body does with a decoded record: \<open>None\<close> is \<^verbatim>\<open>break\<close>; otherwise the new open
  batch and durable length.
\<close>

definition accept_record ::
    "wal_read_atomic_batch option \<Rightarrow> nat \<Rightarrow> nat \<Rightarrow> u64 \<Rightarrow> wal_op \<Rightarrow> (wal_read_atomic_batch option \<times> nat) option" where
  "accept_record open_batch durable frame_end engine_seq op = (case op of
     BeginAtomicBatch first_seq op_count \<Rightarrow>
       (if open_batch \<noteq> None then None
        else case batch_new first_seq op_count of
          None \<Rightarrow> None
        | Some batch \<Rightarrow> Some (Some batch, durable))
   | CommitAtomicBatch first_seq op_count \<Rightarrow>
       (case open_batch of
          None \<Rightarrow> None
        | Some batch \<Rightarrow>
            if \<not> matches_commit batch first_seq op_count then None else Some (None, frame_end))
   | _ \<Rightarrow>
       (case open_batch of
          Some batch \<Rightarrow>
            (case push_normal_op batch engine_seq of
               None \<Rightarrow> None
             | Some batch' \<Rightarrow> Some (Some batch', durable))
        | None \<Rightarrow> Some (None, frame_end)))"

text \<open>One frame cut off the rest of the file: its payload and what follows, or a stop.\<close>

definition next_frame :: "(bytes \<Rightarrow> u32) \<Rightarrow> bytes \<Rightarrow> (bytes \<times> bytes) option" where
  "next_frame crc c = (case split_exact 4 c of
     None \<Rightarrow> None
   | Some (len_buf, c) \<Rightarrow>
      (let payload_len = unat (from_le_bytes len_buf :: u32) in
       if payload_len = 0 \<or> payload_len > MAX_WAL_RECORD_SIZE then None
       else case split_exact 4 c of
          None \<Rightarrow> None
        | Some (crc_buf, c) \<Rightarrow>
           (case split_exact payload_len c of
              None \<Rightarrow> None
            | Some (payload, c) \<Rightarrow>
                if crc payload \<noteq> from_le_bytes crc_buf then None
                else if length payload < 8 then None
                else Some (payload, c))))"

lemma next_frame_shorter: "next_frame crc c = Some (payload, c') \<Longrightarrow> length c' < length c"
  by (auto simp: next_frame_def Let_def split: option.splits if_splits dest!: split_exact_SomeD)

function read_loop ::
    "from_slice \<Rightarrow> (bytes \<Rightarrow> u32) \<Rightarrow> bytes \<Rightarrow> nat \<Rightarrow> (u64 \<times> wal_op) list \<Rightarrow> wal_read_atomic_batch option \<Rightarrow> nat
      \<Rightarrow> engine_error + wal_read_result" where
  "read_loop from_slice crc c pos ops open_batch durable =
     (let stop = Inr \<lparr>records = ops, durable_len = durable\<rparr> in
      case next_frame crc c of
        None \<Rightarrow> stop
      | Some (payload, c') \<Rightarrow>
         (let frame_end = pos + 8 + length payload;
              engine_seq = (from_le_bytes (take 8 payload) :: u64);
              walop_bytes = drop 8 payload;
              recognized_tag = (case walop_bytes of [] \<Rightarrow> None | tag # _ \<Rightarrow> tag_from_u8 tag)
          in case decode_wal_op from_slice walop_bytes of
               Inr op \<Rightarrow>
                 (case accept_record open_batch durable frame_end engine_seq op of
                    None \<Rightarrow> stop
                  | Some (open_batch', durable') \<Rightarrow>
                      read_loop from_slice crc c' frame_end (ops @ [(engine_seq, op)]) open_batch' durable')
             | Inl err \<Rightarrow>
                 if recognized_tag = Some TagBeginAtomicBatch \<or> recognized_tag = Some TagCommitAtomicBatch then stop
                 else if open_batch \<noteq> None \<and> recognized_tag \<noteq> None then stop
                 else if recognized_tag \<noteq> None then Inl (CorruptWal ''failed to decode WAL record'')
                 else stop))"
  by pat_completeness auto
termination
  by (relation "measure (\<lambda>(_, _, c, _). length c)") (auto dest: next_frame_shorter)

declare read_loop.simps [simp del]

definition read_path :: "from_slice \<Rightarrow> (bytes \<Rightarrow> u32) \<Rightarrow> bytes option \<Rightarrow> engine_error + wal_read_result" where
  "read_path from_slice crc file = (case file of
     None \<Rightarrow> Inr \<lparr>records = [], durable_len = 0\<rparr>
   | Some content \<Rightarrow>
      if length content = 0 then Inr \<lparr>records = [], durable_len = 0\<rparr>
      else if length content < WAL_HEADER_SIZE then Inl (CorruptWal ''WAL file too small for header'')
      else r_bind (validate_wal_header (take WAL_HEADER_SIZE content)) (\<lambda>_.
        read_loop from_slice crc (drop WAL_HEADER_SIZE content) WAL_HEADER_SIZE [] None WAL_HEADER_SIZE))"

definition truncate_wal_generation_to :: "bytes option \<Rightarrow> nat \<Rightarrow> bytes option" where
  "truncate_wal_generation_to file durable = (case file of
     None \<Rightarrow> None
   | Some content \<Rightarrow> if length content > durable then Some (take durable content) else Some content)"

section \<open>Frames read back\<close>

lemma length_frame_bytes [simp]: "length (frame_bytes crc seq wb) = 16 + length wb"
  by (simp add: frame_bytes_def Let_def)

lemma next_frame_frame:
  assumes "8 + length wb \<le> MAX_WAL_RECORD_SIZE"
  shows "next_frame crc (frame_bytes crc seq wb @ rest) = Some (to_le_bytes seq @ wb, rest)"
proof -
  have "unat (of_nat (8 + length wb) :: u32) = 8 + length wb"
    using assms by (intro unat_of_nat_small) (simp add: MAX_WAL_RECORD_SIZE_def)
  moreover have "split_exact (8 + length wb) ((to_le_bytes seq @ wb) @ rest) = Some (to_le_bytes seq @ wb, rest)"
    by (rule split_exact_append) simp
  ultimately show ?thesis
    using assms by (simp add: next_frame_def frame_bytes_def Let_def)
qed

lemma next_frame_torn:
  assumes small: "8 + length wb \<le> MAX_WAL_RECORD_SIZE" and k: "k < length (frame_bytes crc seq wb)"
  shows "next_frame crc (take k (frame_bytes crc seq wb)) = None"
proof -
  let ?n = "of_nat (8 + length wb) :: u32"
  have n: "unat ?n = 8 + length wb"
    using small by (intro unat_of_nat_small) (simp add: MAX_WAL_RECORD_SIZE_def)
  let ?tl = "to_le_bytes (crc (to_le_bytes seq @ wb)) @ to_le_bytes seq @ wb"
  have fb: "frame_bytes crc seq wb = to_le_bytes ?n @ ?tl"
    by (simp add: frame_bytes_def Let_def)
  show ?thesis
  proof (cases "k < 4")
    case True
    then show ?thesis by (simp add: next_frame_def split_exact_def)
  next
    case False
    then have tk: "take k (frame_bytes crc seq wb) = to_le_bytes ?n @ take (k - 4) ?tl"
      by (simp add: fb)
    have "split_exact 4 (to_le_bytes ?n @ take (k - 4) ?tl) = Some (to_le_bytes ?n, take (k - 4) ?tl)"
      by (rule split_exact_append) simp
    moreover have "split_exact (8 + length wb) c' = None"
      if "split_exact 4 (take (k - 4) ?tl) = Some (b, c')" for b c'
      using split_exact_SomeD [OF that] k
      by (auto simp: split_exact_eq_None dest!: arg_cong [where f = length])
    ultimately show ?thesis
      using n by (auto simp: next_frame_def tk Let_def split: option.splits)
  qed
qed

section \<open>The log as a list of units\<close>

text \<open>
  A log is a list of units: an operation on its own, or an atomic batch, which the writer
  surrounds by its opening and commit records.
\<close>

datatype wal_unit = Single u64 wal_op | Batch "(u64 \<times> wal_op) list"

fun is_marker :: "wal_op \<Rightarrow> bool" where
  "is_marker (BeginAtomicBatch _ _) = True"
| "is_marker (CommitAtomicBatch _ _) = True"
| "is_marker _ = False"

definition batch_marks :: "(u64 \<times> wal_op) list \<Rightarrow> u64 \<times> u32" where
  "batch_marks ops = (fst (ops ! 0), of_nat (length ops))"

fun unit_entries :: "wal_unit \<Rightarrow> (u64 \<times> wal_op) list" where
  "unit_entries (Single seq op) = [(seq, op)]"
| "unit_entries (Batch ops) = (case batch_marks ops of (f, n) \<Rightarrow>
     (f, BeginAtomicBatch f n) # ops @ [(f, CommitAtomicBatch f n)])"

fun unit_ops :: "wal_unit \<Rightarrow> (u64 \<times> wal_op) list" where
  "unit_ops (Single seq op) = [(seq, op)]"
| "unit_ops (Batch ops) = ops"

definition clear_entry :: "u64 \<times> wal_op \<Rightarrow> u64 \<times> wal_op" where
  "clear_entry e = (fst e, clear_seq (snd e))"

definition unit_records :: "wal_unit \<Rightarrow> (u64 \<times> wal_op) list" where
  "unit_records u = map clear_entry (unit_entries u)"

definition frame_of :: "to_vec \<Rightarrow> (bytes \<Rightarrow> u32) \<Rightarrow> u64 \<times> wal_op \<Rightarrow> bytes" where
  "frame_of tv crc e = (case encode_wal_op_into tv (snd e) [] of
     Inl _ \<Rightarrow> [] | Inr wb \<Rightarrow> frame_bytes crc (fst e) wb)"

definition unit_bytes :: "to_vec \<Rightarrow> (bytes \<Rightarrow> u32) \<Rightarrow> wal_unit \<Rightarrow> bytes" where
  "unit_bytes tv crc u = concat (map (frame_of tv crc) (unit_entries u))"

definition log_bytes :: "to_vec \<Rightarrow> (bytes \<Rightarrow> u32) \<Rightarrow> wal_unit list \<Rightarrow> bytes" where
  "log_bytes tv crc us = concat (map (unit_bytes tv crc) us)"

definition entry_ok :: "to_vec \<Rightarrow> u64 \<times> wal_op \<Rightarrow> bool" where
  "entry_ok tv e \<longleftrightarrow> op_wf (snd e) \<and>
     (case encode_wal_op_into tv (snd e) [] of Inl _ \<Rightarrow> False
      | Inr wb \<Rightarrow> 8 + length wb \<le> MAX_WAL_RECORD_SIZE)"

definition batch_ok :: "(u64 \<times> wal_op) list \<Rightarrow> bool" where
  "batch_ok ops \<longleftrightarrow> 2 \<le> length ops \<and> length ops < 2 ^ 32 \<and> fst (ops ! 0) \<noteq> 0 \<and>
     unat (fst (ops ! 0)) + length ops \<le> 2 ^ 64 \<and>
     list_all (\<lambda>i. fst (ops ! i) = fst (ops ! 0) + of_nat i) [0 ..< length ops]"

fun unit_ok :: "to_vec \<Rightarrow> wal_unit \<Rightarrow> bool" where
  "unit_ok tv (Single seq op) \<longleftrightarrow> entry_ok tv (seq, op) \<and> \<not> is_marker op"
| "unit_ok tv (Batch ops) \<longleftrightarrow> batch_ok ops \<and> list_all (entry_ok tv) ops \<and> list_all (\<lambda>e. \<not> is_marker (snd e)) ops"

text \<open>The reader's decisions on a list of decodable records, with the frame sizes.\<close>

fun scan :: "(nat \<times> u64 \<times> wal_op) list \<Rightarrow> wal_read_atomic_batch option \<Rightarrow> nat \<Rightarrow> nat
    \<Rightarrow> (u64 \<times> wal_op) list \<times> nat" where
  "scan [] ob d pos = ([], d)"
| "scan ((n, seq, op) # es) ob d pos = (case accept_record ob d (pos + n) seq op of
     None \<Rightarrow> ([], d)
   | Some (ob', d') \<Rightarrow> (case scan es ob' d' (pos + n) of (rs, r) \<Rightarrow> ((seq, op) # rs, r)))"

definition sized :: "to_vec \<Rightarrow> (bytes \<Rightarrow> u32) \<Rightarrow> u64 \<times> wal_op \<Rightarrow> nat \<times> u64 \<times> wal_op" where
  "sized tv crc e = (length (frame_of tv crc e), clear_entry e)"

lemma read_loop_entries:
  assumes rmp: "rmp_lossless tv fs" and ok: "list_all (entry_ok tv) es" and tail: "next_frame crc tail = None"
  shows "read_loop fs crc (concat (map (frame_of tv crc) es) @ tail) pos ops ob d =
    (case scan (map (sized tv crc) es) ob d pos of (rs, r) \<Rightarrow> Inr \<lparr>records = ops @ rs, durable_len = r\<rparr>)"
  using ok
proof (induction es arbitrary: pos ops ob d)
  case Nil
  show ?case by (simp add: read_loop.simps tail)
next
  case (Cons e es)
  obtain seq op where e: "e = (seq, op)" by (cases e)
  from Cons.prems e obtain wb where wb: "encode_wal_op_into tv op [] = Inr wb"
      "8 + length wb \<le> MAX_WAL_RECORD_SIZE" "op_wf op"
    by (auto simp: entry_ok_def split: sum.splits)
  have dec: "decode_wal_op fs wb = Inr (clear_seq op)"
    using decode_encode_extra [OF rmp wb(3,1), of "[]"] by (simp add: after_decode_def)
  have fr: "frame_of tv crc e = frame_bytes crc seq wb"
    by (simp add: frame_of_def e wb(1))
  have step: "read_loop fs crc (frame_of tv crc e @ c) pos ops ob d =
      (case accept_record ob d (pos + length (frame_of tv crc e)) seq (clear_seq op) of
         None \<Rightarrow> Inr \<lparr>records = ops, durable_len = d\<rparr>
       | Some (ob', d') \<Rightarrow>
           read_loop fs crc c (pos + length (frame_of tv crc e)) (ops @ [(seq, clear_seq op)]) ob' d')" for c
    by (subst read_loop.simps)
      (simp add: fr dec next_frame_frame [OF wb(2)] add.assoc split: option.splits prod.splits)
  have "sized tv crc e = (length (frame_of tv crc e), seq, clear_seq op)"
    by (simp add: sized_def clear_entry_def e)
  then show ?case
    using Cons.prems Cons.IH by (simp add: step split: option.splits prod.splits)
qed

lemma scan_batch_ops:
  assumes "list_all (\<lambda>e. \<not> is_marker (snd e)) ops"
    and "\<And>i. i < length ops \<Longrightarrow> fst (ops ! i) = f + of_nat (j + i)"
    and "unat f + (j + length ops) \<le> 2 ^ 64" and "j + length ops \<le> unat n"
  shows "scan (map (sized tv crc) ops @ es)
      (Some \<lparr>b_first_seq = f, b_op_count = n, b_ops_read = of_nat j\<rparr>) d pos =
    (case scan es (Some \<lparr>b_first_seq = f, b_op_count = n, b_ops_read = of_nat (j + length ops)\<rparr>) d
        (pos + length (concat (map (frame_of tv crc) ops))) of (rs, r) \<Rightarrow> (map clear_entry ops @ rs, r))"
  using assms
proof (induction ops arbitrary: j pos)
  case Nil
  show ?case by simp
next
  case (Cons e ops)
  obtain seq op where e: "e = (seq, op)" by (cases e)
  have ul: "unat n < 2 ^ 32" using unsigned_less [of n, where ?'a = nat] by simp
  have uj: "unat (of_nat j :: u32) = j" "unat (of_nat (Suc j) :: u32) = Suc j"
    using Cons.prems(4) ul unat_of_nat_small [of j, where 'a = 32] unat_of_nat_small [of "Suc j", where 'a = 32]
    by (simp_all del: of_nat_Suc)
  have lt: "\<not> n \<le> of_nat j" using Cons.prems(4) uj by (simp add: word_le_nat_alt)
  have seq: "seq = f + of_nat j" using Cons.prems(2) [of 0] e by simp
  have uc: "unat (ucast (of_nat j :: u32) :: u64) = j" and uc': "unat (of_nat j :: u64) = j"
    using uj Cons.prems(4) ul by (simp_all add: unsigned_ucast_eq take_bit_nat_eq_self unat_of_nat_small)
  then have "(ucast (of_nat j :: u32) :: u64) = of_nat j"
    by (simp add: word_unat_eq_iff)
  then have add: "checked_add_u64 f (ucast (of_nat j :: u32)) = Some (f + of_nat j)"
    using Cons.prems(3) uc' by (simp add: checked_add_u64_def)
  have IH: "scan (map (sized tv crc) ops @ es)
      (Some \<lparr>b_first_seq = f, b_op_count = n, b_ops_read = of_nat (Suc j)\<rparr>) d (pos + length (frame_of tv crc e)) =
    (case scan es (Some \<lparr>b_first_seq = f, b_op_count = n, b_ops_read = of_nat (Suc j + length ops)\<rparr>) d
        (pos + length (frame_of tv crc e) + length (concat (map (frame_of tv crc) ops))) of (rs, r) \<Rightarrow> (map clear_entry ops @ rs, r))"
  proof (rule Cons.IH)
    show "fst (ops ! i) = f + of_nat (Suc j + i)" if "i < length ops" for i
      using Cons.prems(2) [of "Suc i"] that by simp
  qed (use Cons.prems in auto)
  have "\<not> is_marker (clear_seq op)" using Cons.prems(1) e by (cases op) auto
  then have "accept_record (Some \<lparr>b_first_seq = f, b_op_count = n, b_ops_read = of_nat j\<rparr>) d
      (pos + length (frame_of tv crc e)) seq (clear_seq op) =
    Some (Some \<lparr>b_first_seq = f, b_op_count = n, b_ops_read = of_nat (Suc j)\<rparr>, d)"
    using lt seq add by (cases "clear_seq op") (auto simp: accept_record_def push_normal_op_def add.commute)
  moreover have "sized tv crc e = (length (frame_of tv crc e), seq, clear_seq op)"
    and "clear_entry e = (seq, clear_seq op)"
    by (simp_all add: sized_def clear_entry_def e)
  ultimately show ?case
    using IH by (simp add: add.assoc split: prod.splits)
qed

lemma marker_entry_ok:
  "entry_ok tv (s, BeginAtomicBatch f n)" "entry_ok tv (s, CommitAtomicBatch f n)"
  by (simp_all add: entry_ok_def encode_wal_op_into_def write_defs MAX_WAL_RECORD_SIZE_def)

lemma unit_entries_ok: "unit_ok tv u \<Longrightarrow> list_all (entry_ok tv) (unit_entries u)"
  by (cases u) (simp_all add: marker_entry_ok split: prod.splits)

lemma batch_ok_count:
  assumes "batch_ok ops"
  shows "unat (of_nat (length ops) :: u32) = length ops"
    and "batch_new (fst (ops ! 0)) (of_nat (length ops)) =
      Some \<lparr>b_first_seq = fst (ops ! 0), b_op_count = of_nat (length ops), b_ops_read = 0\<rparr>"
    and "\<And>i. i < length ops \<Longrightarrow> fst (ops ! i) = fst (ops ! 0) + of_nat i"
proof -
  show n: "unat (of_nat (length ops) :: u32) = length ops"
    using assms by (intro unat_of_nat_small) (simp add: batch_ok_def)
  show "batch_new (fst (ops ! 0)) (of_nat (length ops)) =
      Some \<lparr>b_first_seq = fst (ops ! 0), b_op_count = of_nat (length ops), b_ops_read = 0\<rparr>"
    using assms n by (simp add: batch_new_def batch_ok_def word_less_nat_alt)
  show "\<And>i. i < length ops \<Longrightarrow> fst (ops ! i) = fst (ops ! 0) + of_nat i"
    using assms by (simp add: batch_ok_def list_all_iff)
qed

text \<open>A batch's opening record and the first \<open>m\<close> of its operations open the batch and commit nothing.\<close>

lemma scan_open_batch:
  assumes ok: "unit_ok tv (Batch ops)" and m: "m \<le> length ops"
  shows "scan (map (sized tv crc) (take (Suc m) (unit_entries (Batch ops))) @ es) None d pos =
    (case scan es (Some \<lparr>b_first_seq = fst (ops ! 0), b_op_count = of_nat (length ops), b_ops_read = of_nat m\<rparr>) d
       (pos + length (concat (map (frame_of tv crc) (take (Suc m) (unit_entries (Batch ops)))))) of
     (rs, r) \<Rightarrow> (take (Suc m) (unit_records (Batch ops)) @ rs, r))"
proof -
  let ?f = "fst (ops ! 0)" and ?n = "of_nat (length ops) :: u32"
  let ?opening = "(?f, BeginAtomicBatch ?f ?n)"
  from ok have b: "batch_ok ops" and nm: "list_all (\<lambda>e. \<not> is_marker (snd e)) ops" by simp_all
  have tk: "take (Suc m) (unit_entries (Batch ops)) = ?opening # take m ops"
    using m by (simp add: batch_marks_def)
  have rec: "take (Suc m) (unit_records (Batch ops)) = clear_entry ?opening # map clear_entry (take m ops)"
    using m by (simp add: unit_records_def batch_marks_def take_map [symmetric])
  have ops: "scan (map (sized tv crc) (take m ops) @ es)
      (Some \<lparr>b_first_seq = ?f, b_op_count = ?n, b_ops_read = of_nat 0\<rparr>) d p =
    (case scan es (Some \<lparr>b_first_seq = ?f, b_op_count = ?n, b_ops_read = of_nat (0 + length (take m ops))\<rparr>) d
        (p + length (concat (map (frame_of tv crc) (take m ops)))) of
      (rs, r) \<Rightarrow> (map clear_entry (take m ops) @ rs, r))" for p
  proof (rule scan_batch_ops)
    show "list_all (\<lambda>e. \<not> is_marker (snd e)) (take m ops)"
      using nm by (auto simp: list_all_iff dest: in_set_takeD)
    show "unat ?f + (0 + length (take m ops)) \<le> 2 ^ 64"
      using b m by (simp add: batch_ok_def)
  qed (use m batch_ok_count [OF b] in auto)
  have "accept_record None d e ?f (BeginAtomicBatch ?f ?n) =
      Some (Some \<lparr>b_first_seq = ?f, b_op_count = ?n, b_ops_read = of_nat 0\<rparr>, d)" for e
    using batch_ok_count(2) [OF b] by (simp add: accept_record_def)
  then show ?thesis
    using ops m unfolding tk rec by (simp add: sized_def clear_entry_def add.assoc split: prod.splits)
qed

lemma scan_unit:
  assumes ok: "unit_ok tv u"
  shows "scan (map (sized tv crc) (unit_entries u) @ es) None d pos =
    (case scan es None (pos + length (unit_bytes tv crc u)) (pos + length (unit_bytes tv crc u)) of
     (rs, r) \<Rightarrow> (unit_records u @ rs, r))"
proof (cases u)
  case (Single seq op)
  with ok have "\<not> is_marker (clear_seq op)" by (cases op) auto
  then have "accept_record None d e seq (clear_seq op) = Some (None, e)" for e
    by (cases "clear_seq op") (auto simp: accept_record_def)
  then show ?thesis
    by (simp add: Single sized_def clear_entry_def unit_records_def unit_bytes_def split: prod.splits)
next
  case (Batch ops)
  let ?f = "fst (ops ! 0)" and ?n = "of_nat (length ops) :: u32"
  let ?commit = "(?f, CommitAtomicBatch ?f ?n)"
  have ent: "unit_entries u = take (Suc (length ops)) (unit_entries u) @ [?commit]"
    by (simp add: Batch batch_marks_def)
  have rec: "take (Suc (length ops)) (unit_records u) @ clear_entry ?commit # rs = unit_records u @ rs" for rs
    by (simp add: Batch batch_marks_def unit_records_def)
  have len: "length (unit_bytes tv crc u) =
      length (concat (map (frame_of tv crc) (take (Suc (length ops)) (unit_entries u)))) +
      length (frame_of tv crc ?commit)"
    unfolding unit_bytes_def by (subst ent) simp
  have "accept_record (Some \<lparr>b_first_seq = ?f, b_op_count = ?n, b_ops_read = of_nat (length ops)\<rparr>) d e ?f
      (CommitAtomicBatch ?f ?n) = Some (None, e)" for e
    by (simp add: accept_record_def matches_commit_def)
  then have com: "scan (sized tv crc ?commit # es)
      (Some \<lparr>b_first_seq = ?f, b_op_count = ?n, b_ops_read = of_nat (length ops)\<rparr>) d p =
    (case scan es None (p + length (frame_of tv crc ?commit)) (p + length (frame_of tv crc ?commit)) of
      (rs, r) \<Rightarrow> (clear_entry ?commit # rs, r))" for p
    by (simp add: sized_def clear_entry_def)
  have "scan (map (sized tv crc) (unit_entries u) @ es) None d pos =
      scan (map (sized tv crc) (take (Suc (length ops)) (unit_entries u)) @ (sized tv crc ?commit # es)) None d pos"
    by (subst (1) ent) simp
  also have "\<dots> = (case scan (sized tv crc ?commit # es)
      (Some \<lparr>b_first_seq = ?f, b_op_count = ?n, b_ops_read = of_nat (length ops)\<rparr>) d
       (pos + length (concat (map (frame_of tv crc) (take (Suc (length ops)) (unit_entries u))))) of
     (rs, r) \<Rightarrow> (take (Suc (length ops)) (unit_records u) @ rs, r))"
    using scan_open_batch [of tv ops "length ops" crc "sized tv crc ?commit # es"] ok Batch by simp
  also have "\<dots> = (case scan es None (pos + length (unit_bytes tv crc u)) (pos + length (unit_bytes tv crc u)) of
     (rs, r) \<Rightarrow> (unit_records u @ rs, r))"
    unfolding com len by (simp add: rec add.assoc split: prod.splits)
  finally show ?thesis .
qed

lemma scan_units:
  "list_all (unit_ok tv) us \<Longrightarrow>
   scan (map (sized tv crc) (concat (map unit_entries us)) @ es) None pos pos =
    (case scan es None (pos + length (log_bytes tv crc us)) (pos + length (log_bytes tv crc us)) of
     (rs, r) \<Rightarrow> (concat (map unit_records us) @ rs, r))"
  by (induction us arbitrary: pos)
    (simp_all add: log_bytes_def scan_unit add.assoc split: prod.splits)

lemma scan_partial_unit:
  assumes "unit_ok tv u" and "m < length (unit_entries u)"
  shows "scan (map (sized tv crc) (take m (unit_entries u))) None d pos = (take m (unit_records u), d)"
proof (cases m)
  case 0
  then show ?thesis by simp
next
  case (Suc m')
  with assms(2) obtain ops where u: "u = Batch ops" and m': "m' \<le> length ops"
    by (cases u) (auto simp: batch_marks_def)
  show ?thesis
    using scan_open_batch [of tv ops m' crc "[]" d pos] assms(1) m' unfolding u Suc by simp
qed

section \<open>Recovery from any torn tail\<close>

lemma take_concat_split:
  "k < length (concat xs) \<Longrightarrow>
     \<exists>m < length xs. \<exists>t < length (xs ! m). take k (concat xs) = concat (take m xs) @ take t (xs ! m)"
proof (induction xs arbitrary: k)
  case Nil
  then show ?case by simp
next
  case (Cons x xs)
  show ?case
  proof (cases "k < length x")
    case True
    then show ?thesis by (intro exI [of _ 0]) auto
  next
    case False
    with Cons.prems have "k - length x < length (concat xs)" by simp
    with Cons.IH obtain m t where "m < length xs" "t < length (xs ! m)"
      "take (k - length x) (concat xs) = concat (take m xs) @ take t (xs ! m)" by blast
    with False show ?thesis by (intro exI [of _ "Suc m"]) auto
  qed
qed

lemma torn_unit:
  assumes "unit_ok tv u" and "k < length (unit_bytes tv crc u)"
  obtains m tail where "m < length (unit_entries u)" "next_frame crc tail = None"
    "take k (unit_bytes tv crc u) = concat (map (frame_of tv crc) (take m (unit_entries u))) @ tail"
proof -
  let ?fs = "map (frame_of tv crc) (unit_entries u)"
  from assms(2) obtain m t where m: "m < length ?fs" and t: "t < length (?fs ! m)"
    and eq: "take k (concat ?fs) = concat (take m ?fs) @ take t (?fs ! m)"
    unfolding unit_bytes_def using take_concat_split by blast
  let ?e = "unit_entries u ! m"
  have "entry_ok tv ?e"
    using unit_entries_ok [OF assms(1)] m by (simp add: list_all_length)
  then obtain wb where wb: "frame_of tv crc ?e = frame_bytes crc (fst ?e) wb" "8 + length wb \<le> MAX_WAL_RECORD_SIZE"
    by (auto simp: entry_ok_def frame_of_def split: sum.splits)
  have "next_frame crc (take t (?fs ! m)) = None"
    using next_frame_torn [OF wb(2), of t crc "fst ?e"] t m wb(1) by simp
  with that [of m "take t (?fs ! m)"] m eq show ?thesis
    by (simp add: unit_bytes_def take_map)
qed

lemma log_bytes_entries:
  "log_bytes tv crc us = concat (map (frame_of tv crc) (concat (map unit_entries us)))"
  by (induction us) (simp_all add: log_bytes_def unit_bytes_def)

lemma log_bytes_append: "log_bytes tv crc (us @ vs) = log_bytes tv crc us @ log_bytes tv crc vs"
  by (simp add: log_bytes_def)

lemma validate_wal_header_ok [simp]: "validate_wal_header wal_header = Inr ()"
  by (simp add: validate_wal_header_def wal_header_def WAL_MAGIC_def)

lemma length_wal_header [simp]: "length wal_header = WAL_HEADER_SIZE"
  by (simp add: wal_header_def WAL_MAGIC_def WAL_HEADER_SIZE_def)

lemma read_path_header:
  "read_path fs crc (Some (wal_header @ c)) = read_loop fs crc c WAL_HEADER_SIZE [] None WAL_HEADER_SIZE"
proof -
  have "0 < WAL_HEADER_SIZE" by (simp add: WAL_HEADER_SIZE_def)
  then show ?thesis by (simp add: read_path_def length_0_conv [symmetric] del: length_0_conv)
qed

lemma read_log_tail:
  assumes "rmp_lossless tv fs" and "list_all (unit_ok tv) us" and "list_all (entry_ok tv) es"
    and "next_frame crc tail = None"
  shows "read_path fs crc (Some (wal_header @ log_bytes tv crc us @ concat (map (frame_of tv crc) es) @ tail)) =
    (case scan (map (sized tv crc) es) None (WAL_HEADER_SIZE + length (log_bytes tv crc us))
       (WAL_HEADER_SIZE + length (log_bytes tv crc us)) of
     (rs, r) \<Rightarrow> Inr \<lparr>records = concat (map unit_records us) @ rs, durable_len = r\<rparr>)"
proof -
  have ok: "list_all (entry_ok tv) (concat (map unit_entries us) @ es)"
    using assms(2,3) unit_entries_ok by (fastforce simp: list_all_iff)
  show ?thesis
    using read_loop_entries [OF assms(1) ok assms(4), of WAL_HEADER_SIZE "[]" None WAL_HEADER_SIZE]
      scan_units [OF assms(2), of crc "map (sized tv crc) es" WAL_HEADER_SIZE]
    by (simp add: read_path_header log_bytes_entries split: prod.splits)
qed

lemma next_frame_Nil [simp]: "next_frame crc [] = None"
  by (simp add: next_frame_def split_exact_def)

lemma read_log_full:
  "rmp_lossless tv fs \<Longrightarrow> list_all (unit_ok tv) us \<Longrightarrow>
   read_path fs crc (Some (wal_header @ log_bytes tv crc us)) =
     Inr \<lparr>records = concat (map unit_records us), durable_len = WAL_HEADER_SIZE + length (log_bytes tv crc us)\<rparr>"
  using read_log_tail [of tv fs us "[]" crc "[]"] by simp

lemma read_log_torn:
  assumes rmp: "rmp_lossless tv fs" and us: "list_all (unit_ok tv) us" and u: "unit_ok tv u"
    and k: "k < length (unit_bytes tv crc u)"
  shows "\<exists>m < length (unit_entries u).
    read_path fs crc (Some (wal_header @ log_bytes tv crc us @ take k (unit_bytes tv crc u))) =
      Inr \<lparr>records = concat (map unit_records us) @ take m (unit_records u),
           durable_len = WAL_HEADER_SIZE + length (log_bytes tv crc us)\<rparr>"
proof -
  from u k obtain m tail where m: "m < length (unit_entries u)" and tail: "next_frame crc tail = None"
    and eq: "take k (unit_bytes tv crc u) = concat (map (frame_of tv crc) (take m (unit_entries u))) @ tail"
    by (rule torn_unit)
  have "list_all (entry_ok tv) (take m (unit_entries u))"
    using unit_entries_ok [OF u] by (auto simp: list_all_iff dest: in_set_takeD)
  from read_log_tail [OF rmp us this tail] scan_partial_unit [OF u m] m
  show ?thesis by (auto simp: eq)
qed

lemma log_prefix_cases:
  assumes "k \<le> length (log_bytes tv crc us)"
  obtains "take k (log_bytes tv crc us) = log_bytes tv crc us"
  | j t where "j < length us" "t < length (unit_bytes tv crc (us ! j))"
      "take k (log_bytes tv crc us) = log_bytes tv crc (take j us) @ take t (unit_bytes tv crc (us ! j))"
proof (cases "k = length (log_bytes tv crc us)")
  case True
  with that(1) show ?thesis by simp
next
  case False
  with assms have "k < length (concat (map (unit_bytes tv crc) us))" by (simp add: log_bytes_def)
  from take_concat_split [OF this] that(2) show ?thesis
    by (auto simp: log_bytes_def take_map)
qed

section \<open>What the writer appends\<close>

fun unit_of :: "(u64 \<times> wal_op) list \<Rightarrow> wal_unit list" where
  "unit_of [] = []"
| "unit_of [(seq, op)] = [Single seq op]"
| "unit_of ops = [Batch ops]"

lemma encode_frame_into_eq:
  "encode_frame_into crc tv seq op buf = Inr bs \<longleftrightarrow>
     is_ok (encode_wal_op_into tv op []) \<and> bs = buf @ frame_of tv crc (seq, op)"
  by (auto simp: encode_frame_into_def r_bind_eq_Inr frame_of_def is_ok_iff)

lemma r_fold_frames:
  "r_fold (\<lambda>buf (seq, op). encode_frame_into crc tv seq op buf) buf ops = Inr bs \<Longrightarrow>
     bs = buf @ concat (map (frame_of tv crc) ops)"
  by (induction ops arbitrary: buf) (fastforce simp: r_bind_eq_Inr encode_frame_into_eq)+

lemma check_batch_seq_eq:
  "check_batch_seq f () (i, e) = Inr () \<longleftrightarrow> unat f + unat (of_nat i :: u64) < 2 ^ 64 \<and> fst e = f + of_nat i"
  by (cases e) (auto simp: check_batch_seq_def checked_add_u64_def)

lemma r_fold_check_batch:
  assumes len: "length ops < 2 ^ 32" and ok: "r_fold (check_batch_seq f) () (enumerate 0 ops) = Inr ()"
    and i: "i < length ops"
  shows "unat f + i < 2 ^ 64 \<and> fst (ops ! i) = f + of_nat i"
proof -
  have "(i, ops ! i) \<in> set (enumerate 0 ops)"
    using i by (auto simp: in_set_enumerate_eq)
  moreover have "\<forall>x \<in> set (enumerate 0 ops). check_batch_seq f () x = Inr ()"
    using ok r_fold_unit_check [of "check_batch_seq f" "\<lambda>x. check_batch_seq f () x = Inr ()"] by simp
  ultimately have "check_batch_seq f () (i, ops ! i) = Inr ()" by blast
  moreover have "unat (of_nat i :: u64) = i"
    using i len by (intro unat_of_nat_small) simp
  ultimately show ?thesis by (simp add: check_batch_seq_eq)
qed

lemma encode_batch_units:
  assumes "encode_batch crc tv ops = Inr bs"
  shows "bs = log_bytes tv crc (unit_of ops)" and "2 \<le> length ops \<Longrightarrow> batch_ok ops"
proof -
  consider "ops = []" | seq op where "ops = [(seq, op)]" | a b r where "ops = a # b # r"
    by (metis list.exhaust surj_pair)
  then have "bs = log_bytes tv crc (unit_of ops) \<and> (2 \<le> length ops \<longrightarrow> batch_ok ops)"
  proof cases
    case 3
    let ?f = "fst (ops ! 0)" and ?n = "of_nat (length ops) :: u32"
    have len: "length ops < 2 ^ 32" and nz: "?f \<noteq> 0"
      and chk: "r_fold (check_batch_seq ?f) () (enumerate 0 ops) = Inr ()"
      using assms 3 by (auto simp: encode_batch_def Let_def r_bind_eq_Inr split: if_splits)
    from assms 3 len nz chk obtain b1 b2 where
      "encode_frame_into crc tv ?f (BeginAtomicBatch ?f ?n) [] = Inr b1"
      "r_fold (\<lambda>buf (seq, op). encode_frame_into crc tv seq op buf) b1 ops = Inr b2"
      "encode_frame_into crc tv ?f (CommitAtomicBatch ?f ?n) b2 = Inr bs"
      by (auto simp: encode_batch_def Let_def r_bind_eq_Inr)
    then have "bs = log_bytes tv crc [Batch ops]"
      using r_fold_frames by (auto simp: encode_frame_into_eq log_bytes_def unit_bytes_def batch_marks_def)
    moreover have "batch_ok ops"
      using len nz 3 r_fold_check_batch [OF len chk] r_fold_check_batch [OF len chk, of "length ops - 1"]
      by (simp add: batch_ok_def list_all_iff del: One_nat_def)
    ultimately show ?thesis using 3 by simp
  qed (use assms in \<open>auto simp: encode_batch_def encode_frame_into_eq log_bytes_def unit_bytes_def\<close>)
  then show "bs = log_bytes tv crc (unit_of ops)" and "2 \<le> length ops \<Longrightarrow> batch_ok ops" by simp_all
qed

text \<open>A request the reader can take back: every record fits the reader's limit and no marker is smuggled in.\<close>

definition request_ok :: "to_vec \<Rightarrow> (u64 \<times> wal_op) list \<Rightarrow> bool" where
  "request_ok tv ops \<longleftrightarrow> list_all (entry_ok tv) ops \<and> list_all (\<lambda>e. \<not> is_marker (snd e)) ops"

definition append_all ::
    "(bytes \<Rightarrow> u32) \<Rightarrow> to_vec \<Rightarrow> wal_writer \<Rightarrow> (u64 \<times> wal_op) list list \<Rightarrow> engine_error + wal_writer" where
  "append_all crc tv w reqs = r_fold (\<lambda>w ops. r_bind (append_batch crc tv w ops) (\<lambda>(w', _). Inr w')) w reqs"

definition units_of :: "(u64 \<times> wal_op) list list \<Rightarrow> wal_unit list" where
  "units_of reqs = concat (map unit_of reqs)"

lemma append_batch_units:
  assumes "append_batch crc tv w ops = Inr (w', n)" and "request_ok tv ops"
  shows "w_content w' = w_content w @ log_bytes tv crc (unit_of ops)" and "w_synced w' = w_synced w"
    and "list_all (unit_ok tv) (unit_of ops)"
proof -
  from assms(1) obtain bs where bs: "encode_batch crc tv ops = Inr bs" "w' = w\<lparr>w_content := w_content w @ bs\<rparr>"
    by (auto simp: append_batch_def r_bind_eq_Inr)
  from encode_batch_units [OF bs(1)] bs(2)
  show "w_content w' = w_content w @ log_bytes tv crc (unit_of ops)" and "w_synced w' = w_synced w"
    by simp_all
  show "list_all (unit_ok tv) (unit_of ops)"
    using assms(2) encode_batch_units(2) [OF bs(1)] by (cases ops rule: unit_of.cases) (auto simp: request_ok_def)
qed

lemma append_all_units:
  assumes "append_all crc tv w reqs = Inr w'" and "list_all (request_ok tv) reqs"
  shows "w_content w' = w_content w @ log_bytes tv crc (units_of reqs) \<and> list_all (unit_ok tv) (units_of reqs)"
  using assms
proof (induction reqs arbitrary: w)
  case Nil
  then show ?case by (simp add: append_all_def units_of_def log_bytes_def)
next
  case (Cons ops reqs)
  from Cons.prems(1) obtain w1 n where 1: "append_batch crc tv w ops = Inr (w1, n)"
    and 2: "append_all crc tv w1 reqs = Inr w'"
    by (auto simp: append_all_def r_bind_eq_Inr)
  with Cons.IH [OF 2] append_batch_units [OF 1] Cons.prems(2) show ?case
    by (simp add: units_of_def log_bytes_append)
qed

section \<open>Crash recovery\<close>

lemma log_recovered:
  assumes "rmp_lossless tv fs" and us: "list_all (unit_ok tv) us"
    and "WAL_HEADER_SIZE \<le> k" and "k \<le> length (wal_header @ log_bytes tv crc us)"
  obtains j m where "j \<le> length us"
    and "read_path fs crc (Some (take k (wal_header @ log_bytes tv crc us))) =
      Inr \<lparr>records = concat (map unit_records (take j us)) @ (if j < length us then take m (unit_records (us ! j)) else []),
           durable_len = WAL_HEADER_SIZE + length (log_bytes tv crc (take j us))\<rparr>"
    and "WAL_HEADER_SIZE + length (log_bytes tv crc (take j us)) \<le> k"
    and "j < length us \<Longrightarrow> m < length (unit_records (us ! j)) \<and>
      k < WAL_HEADER_SIZE + length (log_bytes tv crc (take (Suc j) us))"
proof -
  have tk: "take k (wal_header @ log_bytes tv crc us) = wal_header @ take (k - WAL_HEADER_SIZE) (log_bytes tv crc us)"
    using assms(3) by simp
  have kb: "k - WAL_HEADER_SIZE \<le> length (log_bytes tv crc us)" using assms(4) by simp
  from kb show ?thesis
  proof (cases rule: log_prefix_cases [where us = us and tv = tv and crc = crc])
    case 1
    then have "k = WAL_HEADER_SIZE + length (log_bytes tv crc us)"
      using kb assms(3) by (metis le_add_diff_inverse length_take min.absorb2)
    with 1 tk read_log_full [OF assms(1) us, of crc] show ?thesis
      by (intro that [of "length us" 0]) simp_all
  next
    case (2 j t)
    have ok: "list_all (unit_ok tv) (take j us)" "unit_ok tv (us ! j)"
      using us 2(1) by (auto simp: list_all_length dest: in_set_takeD)
    from read_log_torn [OF assms(1) ok 2(2)] obtain m where m: "m < length (unit_entries (us ! j))"
      and rd: "read_path fs crc (Some (take k (wal_header @ log_bytes tv crc us))) =
        Inr \<lparr>records = concat (map unit_records (take j us)) @ take m (unit_records (us ! j)),
             durable_len = WAL_HEADER_SIZE + length (log_bytes tv crc (take j us))\<rparr>"
      unfolding tk 2(3) by blast
    have "length (take (k - WAL_HEADER_SIZE) (log_bytes tv crc us)) = length (log_bytes tv crc (take j us)) + t"
      using 2(2,3) by simp
    then have "k = WAL_HEADER_SIZE + length (log_bytes tv crc (take j us)) + t"
      using kb assms(3) by simp
    moreover have "log_bytes tv crc (take (Suc j) us) = log_bytes tv crc (take j us) @ unit_bytes tv crc (us ! j)"
      using 2(1) by (simp add: take_Suc_conv_app_nth log_bytes_append) (simp add: log_bytes_def)
    ultimately show ?thesis
      using m rd 2(1,2) by (intro that [of j m]) (simp_all add: unit_records_def)
  qed
qed

text \<open>
  C4. Crash recovery of the log. Write any sequence of requests to a fresh generation, then keep any
  prefix of the file at least as long as its header (what a crash can leave). Reading it succeeds
  and returns exactly the first \<open>j\<close> units in order, where \<open>j\<close> counts the requests wholly inside
  the prefix, followed at most by records of the next batch without its commit; the durable
  length is the end of the last whole unit. No unit is lost, reordered, half-committed or
  invented, whatever checksum function is used.
\<close>

theorem wal_recovers_every_prefix:
  assumes "rmp_lossless tv fs" and "open_generation None = Inr w0"
    and "append_all crc tv w0 reqs = Inr w" and "list_all (request_ok tv) reqs"
    and "WAL_HEADER_SIZE \<le> k" and "k \<le> length (w_content w)"
  shows "\<exists>j m. j \<le> length (units_of reqs) \<and>
    read_path fs crc (Some (take k (w_content w))) =
      Inr \<lparr>records = concat (map unit_records (take j (units_of reqs))) @
                     (if j < length (units_of reqs) then take m (unit_records (units_of reqs ! j)) else []),
           durable_len = WAL_HEADER_SIZE + length (log_bytes tv crc (take j (units_of reqs)))\<rparr> \<and>
    WAL_HEADER_SIZE + length (log_bytes tv crc (take j (units_of reqs))) \<le> k \<and>
    (j < length (units_of reqs) \<longrightarrow>
       m < length (unit_records (units_of reqs ! j)) \<and>
       k < WAL_HEADER_SIZE + length (log_bytes tv crc (take (Suc j) (units_of reqs))))"
proof -
  from assms(2) have "w_content w0 = wal_header" by (auto simp: open_generation_def)
  with append_all_units [OF assms(3,4)]
  have content: "w_content w = wal_header @ log_bytes tv crc (units_of reqs)" and us: "list_all (unit_ok tv) (units_of reqs)"
    by simp_all
  from assms(6) have "k \<le> length (wal_header @ log_bytes tv crc (units_of reqs))" unfolding content .
  from log_recovered [OF assms(1) us assms(5) this] show ?thesis unfolding content by metis
qed

definition example_request :: "(u64 \<times> wal_op) list" where
  "example_request = [(1, DeleteNode 5 0), (2, DeleteEdge 7 0)]"

lemma example_request_ok: "request_ok tv example_request"
  by (simp add: request_ok_def example_request_def entry_ok_def encode_wal_op_into_def write_defs
      MAX_WAL_RECORD_SIZE_def)

definition fresh_writer :: wal_writer where
  "fresh_writer = \<lparr>w_content = wal_header, w_synced = length wal_header\<rparr>"

definition example_writer :: wal_writer where
  "example_writer = fresh_writer\<lparr>w_content := wal_header @
     log_bytes empty_map_to_vec (\<lambda>_. 0) (units_of [example_request])\<rparr>"

lemma open_fresh: "open_generation None = Inr fresh_writer"
  by (simp add: open_generation_def fresh_writer_def)

lemma encode_example_batch:
  "encode_batch (\<lambda>_. 0) tv example_request = Inr (log_bytes tv (\<lambda>_. 0) (units_of [example_request]))"
  by (simp add: example_request_def encode_batch_def Let_def check_batch_seq_def checked_add_u64_def
      encode_frame_into_def encode_wal_op_into_def units_of_def log_bytes_def unit_bytes_def batch_marks_def
      frame_of_def)

lemma example_append: "append_all (\<lambda>_. 0) empty_map_to_vec fresh_writer [example_request] = Inr example_writer"
  by (simp add: append_all_def append_batch_def encode_example_batch example_writer_def fresh_writer_def)

theorem wal_recovers_every_prefix_witness:
  "\<exists>j m. j \<le> length (units_of [example_request]) \<and>
    read_path empty_map_from_slice (\<lambda>_. 0) (Some (take WAL_HEADER_SIZE (w_content example_writer))) =
      Inr \<lparr>records = concat (map unit_records (take j (units_of [example_request]))) @
                     (if j < length (units_of [example_request])
                      then take m (unit_records (units_of [example_request] ! j)) else []),
           durable_len = WAL_HEADER_SIZE +
             length (log_bytes empty_map_to_vec (\<lambda>_. 0) (take j (units_of [example_request])))\<rparr>"
proof -
  have len: "WAL_HEADER_SIZE \<le> length (w_content example_writer)" by (simp add: example_writer_def)
  have ok: "list_all (request_ok empty_map_to_vec) [example_request]" by (simp add: example_request_ok)
  show ?thesis
    using wal_recovers_every_prefix [OF empty_map_lossless open_fresh example_append ok order_refl len] by blast
qed

text \<open>
  What damage is, by the layout of a frame alone: four bytes of length, four of checksum, the payload.
  A frame is damaged when its checksum is not that of its payload, its length field is zero or above
  the limit, its payload cannot hold a sequence number, or the file ends inside it.
\<close>

inductive damaged_frame :: "(bytes \<Rightarrow> u32) \<Rightarrow> bytes \<Rightarrow> bool" for crc where
  wrong_checksum: "length payload < 2 ^ 32 \<Longrightarrow> checksum \<noteq> crc payload \<Longrightarrow>
    damaged_frame crc (to_le_bytes (of_nat (length payload) :: u32) @ to_le_bytes checksum @ payload @ rest)"
| wrong_length: "n = 0 \<or> MAX_WAL_RECORD_SIZE < unat n \<Longrightarrow> damaged_frame crc (to_le_bytes (n :: u32) @ rest)"
| no_sequence: "length payload < 8 \<Longrightarrow>
    damaged_frame crc (to_le_bytes (of_nat (length payload) :: u32) @ to_le_bytes (checksum :: u32) @ payload @ rest)"
| cut_short: "length body < 4 + unat n \<Longrightarrow> damaged_frame crc (to_le_bytes (n :: u32) @ body)"
| cut_length: "length noise < 4 \<Longrightarrow> damaged_frame crc noise"

lemma next_frame_laid_out:
  assumes "length payload < 2 ^ 32"
  shows "next_frame crc (to_le_bytes (of_nat (length payload) :: u32) @ to_le_bytes (checksum :: u32) @ payload @ rest) =
    (if payload = [] \<or> MAX_WAL_RECORD_SIZE < length payload \<or> checksum \<noteq> crc payload \<or> length payload < 8 then None
     else Some (payload, rest))"
proof -
  have "unat (of_nat (length payload) :: u32) = length payload" using assms by (intro unat_of_nat_small) simp
  moreover have "split_exact (length payload) (payload @ rest) = Some (payload, rest)" by (rule split_exact_append) simp
  ultimately show ?thesis by (auto simp: next_frame_def Let_def)
qed

lemma damaged_frame_stops: "damaged_frame crc noise \<Longrightarrow> next_frame crc noise = None"
proof (induction rule: damaged_frame.induct)
  case (wrong_length n rest)
  then show ?case by (auto simp: next_frame_def)
next
  case (no_sequence payload checksum rest)
  then have "length payload < 2 ^ 32" by simp
  from next_frame_laid_out [OF this] no_sequence show ?case by simp
next
  case (cut_short body n)
  then have "split_exact (unat n) c' = None" if "split_exact 4 body = Some (b, c')" for b c'
    using split_exact_SomeD [OF that] by (simp add: split_exact_eq_None)
  then show ?case by (auto simp: next_frame_def Let_def split: option.splits)
next
  case (cut_length noise)
  then show ?case by (simp add: next_frame_def split_exact_def)
qed (simp add: next_frame_laid_out)

text \<open>
  C13. Corruption cuts the log, it does not poison it. Behind any sequence of whole units, and any first
  records of the next unit, let a damaged frame follow: one whose checksum is not that of its
  payload, whatever stands behind it, or one with a length field out of bounds, without room for
  the sequence number, or cut off by the end of the file. The reader returns exactly the records
  before it, and the durable length it reports is where the whole units end.
\<close>

theorem wal_stops_at_corruption:
  assumes "rmp_lossless tv fs" and "list_all (unit_ok tv) us" and "unit_ok tv u" and "m < length (unit_entries u)"
    and "damaged_frame crc noise"
  shows "read_path fs crc (Some (wal_header @ log_bytes tv crc us @
      concat (map (frame_of tv crc) (take m (unit_entries u))) @ noise)) =
    Inr \<lparr>records = concat (map unit_records us) @ take m (unit_records u),
         durable_len = WAL_HEADER_SIZE + length (log_bytes tv crc us)\<rparr>"
proof -
  have "list_all (entry_ok tv) (take m (unit_entries u))"
    using unit_entries_ok [OF assms(3)] by (auto simp: list_all_iff dest: in_set_takeD)
  from read_log_tail [OF assms(1,2) this damaged_frame_stops [OF assms(5)]] scan_partial_unit [OF assms(3,4)]
  show ?thesis by simp
qed

lemma example_unit_ok: "unit_ok empty_map_to_vec (Batch example_request)"
  using append_all_units [OF example_append]
  by (simp add: example_request_ok units_of_def) (simp add: example_request_def)

theorem wal_stops_at_corruption_witness:
  "read_path empty_map_from_slice (\<lambda>_. 0) (Some (wal_header @
      log_bytes empty_map_to_vec (\<lambda>_. 0) (units_of [example_request]) @
      concat (map (frame_of empty_map_to_vec (\<lambda>_. 0)) (take 1 (unit_entries (Batch example_request)))) @
      (to_le_bytes (of_nat (length [7 :: u8, 7, 7, 7, 7, 7, 7, 7, 7]) :: u32) @ to_le_bytes (1 :: u32) @ [7, 7, 7, 7, 7, 7, 7, 7, 7] @ [5]))) =
    Inr \<lparr>records = concat (map unit_records (units_of [example_request])) @ take 1 (unit_records (Batch example_request)),
         durable_len = WAL_HEADER_SIZE + length (log_bytes empty_map_to_vec (\<lambda>_. 0) (units_of [example_request]))\<rparr>"
proof (rule wal_stops_at_corruption [OF empty_map_lossless _ example_unit_ok])
  show "list_all (unit_ok empty_map_to_vec) (units_of [example_request])"
    using append_all_units [OF example_append] by (simp add: example_request_ok)
  show "1 < length (unit_entries (Batch example_request))"
    by (simp add: example_request_def batch_marks_def)
  show "damaged_frame (\<lambda>_. 0) (to_le_bytes (of_nat (length [7 :: u8, 7, 7, 7, 7, 7, 7, 7, 7]) :: u32) @ to_le_bytes (1 :: u32) @
      [7, 7, 7, 7, 7, 7, 7, 7, 7] @ [5])"
    by (rule damaged_frame.wrong_checksum) simp_all
qed

text \<open>
  C14. Repair and continue. After a crash that tore a unit, truncating the file to the durable length
  the reader reported leaves a log that opens for appending, and whatever is appended next is read
  back behind the units that survived.
\<close>

theorem wal_truncate_then_append:
  assumes "rmp_lossless tv fs" and "list_all (unit_ok tv) us" and "unit_ok tv u"
    and "t < length (unit_bytes tv crc u)"
    and "read_path fs crc (Some (wal_header @ log_bytes tv crc us @ take t (unit_bytes tv crc u))) = Inr r"
    and "open_generation (truncate_wal_generation_to
           (Some (wal_header @ log_bytes tv crc us @ take t (unit_bytes tv crc u))) (durable_len r)) = Inr w"
    and "append_all crc tv w reqs = Inr w'" and "list_all (request_ok tv) reqs"
  shows "read_path fs crc (Some (w_content w')) =
    Inr \<lparr>records = concat (map unit_records (us @ units_of reqs)),
         durable_len = length (w_content w')\<rparr>"
proof -
  from read_log_torn [OF assms(1-4)] assms(5)
  have dl: "durable_len r = WAL_HEADER_SIZE + length (log_bytes tv crc us)" by auto
  then have "truncate_wal_generation_to (Some (wal_header @ log_bytes tv crc us @ take t (unit_bytes tv crc u)))
      (durable_len r) = Some (wal_header @ log_bytes tv crc us)"
    by (simp add: truncate_wal_generation_to_def)
  with assms(6) have "w_content w = wal_header @ log_bytes tv crc us"
    by (auto simp: open_generation_def r_bind_eq_Inr Let_def WAL_HEADER_SIZE_def
        simp flip: length_wal_header split: if_splits)
  with append_all_units [OF assms(7,8)] have
    content: "w_content w' = wal_header @ log_bytes tv crc (us @ units_of reqs)"
    and us: "list_all (unit_ok tv) (us @ units_of reqs)"
    using assms(2) by (simp_all add: log_bytes_append)
  from read_log_full [OF assms(1) us, of crc] content show ?thesis by simp
qed

lemma example_unit_nonempty: "0 < length (unit_bytes tv (\<lambda>_. 0) (Batch example_request))"
  by (simp add: unit_bytes_def batch_marks_def frame_of_def encode_wal_op_into_def)

lemma open_truncated_header:
  "open_generation (truncate_wal_generation_to (Some (wal_header @ c)) WAL_HEADER_SIZE) = Inr fresh_writer"
proof -
  have "truncate_wal_generation_to (Some (wal_header @ c)) WAL_HEADER_SIZE = Some wal_header"
    by (auto simp: truncate_wal_generation_to_def)
  moreover have "wal_header \<noteq> []" by (simp add: wal_header_def WAL_MAGIC_def)
  ultimately show ?thesis by (simp add: open_generation_def fresh_writer_def)
qed

theorem wal_truncate_then_append_witness:
  "read_path empty_map_from_slice (\<lambda>_. 0) (Some (w_content example_writer)) =
    Inr \<lparr>records = concat (map unit_records ([] @ units_of [example_request])),
         durable_len = length (w_content example_writer)\<rparr>"
proof -
  obtain r where r: "read_path empty_map_from_slice (\<lambda>_. 0) (Some (wal_header @
      log_bytes empty_map_to_vec (\<lambda>_. 0) [] @ take 0 (unit_bytes empty_map_to_vec (\<lambda>_. 0) (Batch example_request)))) = Inr r"
    and dl: "durable_len r = WAL_HEADER_SIZE"
    using read_log_torn [OF empty_map_lossless _ example_unit_ok example_unit_nonempty, of "[]"]
    by (auto simp: log_bytes_def)
  show ?thesis
    by (rule wal_truncate_then_append [OF empty_map_lossless _ example_unit_ok example_unit_nonempty r,
          of fresh_writer "[example_request]"])
      (simp_all add: dl open_truncated_header example_append example_request_ok)
qed

text \<open>
  C25. The limit the writer forgets. \<open>append\<close> does not check the size the reader enforces: an operation
  whose payload is larger than \<open>MAX_WAL_RECORD_SIZE\<close> is appended and acknowledged, and the reader
  stops in front of it, so it and every operation acknowledged after it are gone on recovery.
\<close>

theorem wal_append_oversized_lost:
  assumes "rmp_lossless tv fs" and "list_all (unit_ok tv) us"
    and "append crc tv w op seq = Inr (w', n)"
    and "w_content w = wal_header @ log_bytes tv crc us"
    and "MAX_WAL_RECORD_SIZE + 8 < n" and "n < 2 ^ 32"
  shows "read_path fs crc (Some (w_content w' @ later)) =
    Inr \<lparr>records = concat (map unit_records us), durable_len = length (w_content w)\<rparr>"
proof -
  from assms(3) obtain wb where wb: "encode_wal_op_into tv op [] = Inr wb" "n = 16 + length wb"
      "w_content w' = w_content w @ frame_bytes crc seq wb"
    by (auto simp: append_def r_bind_eq_Inr)
  have "unat (of_nat (8 + length wb) :: u32) = 8 + length wb"
    using assms(6) wb(2) by (intro unat_of_nat_small) simp
  then have "next_frame crc (frame_bytes crc seq wb @ later) = None"
    using assms(5) wb(2) by (simp add: next_frame_def frame_bytes_def Let_def)
  from read_log_tail [OF assms(1,2) _ this, of "[]"] show ?thesis
    by (simp add: wb(3) assms(4))
qed

text \<open>
  A codec that serialises the empty map to the largest size the payload writer accepts, and the
  operation whose frame is then larger than the reader takes.
\<close>

definition huge_to_vec :: to_vec where
  "huge_to_vec p = (if p = [] then Inr (replicate MAX_BYTES_LEN 0) else Inl ''unsupported'')"

definition huge_from_slice :: from_slice where
  "huge_from_slice bs = Inr []"

lemma huge_lossless: "rmp_lossless huge_to_vec huge_from_slice"
  by (auto simp: rmp_lossless_def huge_to_vec_def huge_from_slice_def split: if_splits)

definition huge_edge :: edge_record where
  "huge_edge = \<lparr>e_id = 1, e_from = 1, e_to = 2, e_label_id = 1, e_props = [], e_created_at = 0,
     e_updated_at = 0, e_weight = 0, e_valid_from = 0, e_valid_to = 0, e_last_write_seq = 0\<rparr>"

definition huge_frame :: bytes where
  "huge_frame = enc_edge (replicate MAX_BYTES_LEN 0) huge_edge"

lemma huge_append:
  "append (\<lambda>_. 0) huge_to_vec fresh_writer (UpsertEdge huge_edge) 1 =
     Inr (fresh_writer\<lparr>w_content := wal_header @ frame_bytes (\<lambda>_. 0) 1 huge_frame\<rparr>, 8 + (8 + length huge_frame))"
proof -
  have "encode_upsert_edge huge_to_vec [] huge_edge = Inr huge_frame"
    by (simp add: encode_upsert_edge_eq huge_frame_def huge_to_vec_def huge_edge_def)
  then show ?thesis by (simp add: append_def encode_wal_op_into_def fresh_writer_def)
qed

lemma length_huge_frame: "length huge_frame = MAX_WAL_RECORD_SIZE + 69"
  by (simp add: huge_frame_def enc_edge_def enc_bytes_def) (simp add: MAX_WAL_RECORD_SIZE_def MAX_BYTES_LEN_def)

theorem wal_append_oversized_lost_witness:
  "read_path huge_from_slice (\<lambda>_. 0) (Some (wal_header @ frame_bytes (\<lambda>_. 0) 1 huge_frame)) =
     Inr \<lparr>records = [], durable_len = WAL_HEADER_SIZE\<rparr>"
  using wal_append_oversized_lost [OF huge_lossless _ huge_append, of "[]" "[]"]
  by (simp add: log_bytes_def length_huge_frame fresh_writer_def MAX_WAL_RECORD_SIZE_def)

end
