(* ===== verification/Wal_Sync.thy ===== *)
theory Wal_Sync
  imports Wal
begin

text \<open>
  Group commit, \<^verbatim>\<open>src/src/wal_sync.rs\<close> and the group-commit branches of \<^verbatim>\<open>wal_append\<close> and
  \<^verbatim>\<open>sync\<close> in \<^verbatim>\<open>src/src/engine/mod.rs\<close>. Writers append to the log under a mutex and a background
  thread makes it durable. Every critical section of the mutex is one step; what a file
  synchronisation returns is an argument. The condition variable is part of the state: a section
  that ends in \<^verbatim>\<open>cvar.wait\<close> is \<open>Wait\<close> and leaves its writer parked, and a parked writer runs again
  only after a \<^verbatim>\<open>notify_all\<close>. There is one writer at a time, since \<^verbatim>\<open>wal_append\<close> has the engine core
  to itself, so one flag holds the queue of the condition variable. The sync thread waits with a
  time limit and needs no notification to go on; a spurious wake-up only repeats a test that the
  model makes after the next notification. The text of the poison message leaves out the
  numbers and the error the source formats into it.
\<close>

section \<open>Critical sections\<close>

definition MAX_SYNC_FAILURES :: nat where
  "MAX_SYNC_FAILURES = 5"

record wal_sync_state =
  ws_writer :: wal_writer
  buffered_bytes :: nat
  ws_shutdown :: bool
  sync_error_count :: nat
  ws_poisoned :: "string option"
  ws_parked :: bool

type_synonym io_result = "engine_error + unit"

definition writer_sync :: "io_result \<Rightarrow> wal_writer \<Rightarrow> engine_error + wal_writer" where
  "writer_sync io w = r_bind io (\<lambda>_. Inr (wal_sync w))"

definition sync_state_new :: "wal_writer \<Rightarrow> wal_sync_state" where
  "sync_state_new w = \<lparr>ws_writer = w, buffered_bytes = 0, ws_shutdown = False, sync_error_count = 0, ws_poisoned = None, ws_parked = False\<rparr>"

text \<open>The condition variable: the writer goes to sleep on it, and is woken.\<close>

definition cvar_wait :: "wal_sync_state \<Rightarrow> wal_sync_state" where
  "cvar_wait s = s\<lparr>ws_parked := True\<rparr>"

definition notify_all :: "wal_sync_state \<Rightarrow> wal_sync_state" where
  "notify_all s = s\<lparr>ws_parked := False\<rparr>"

text \<open>One round of the thread after it wakes up; the flag says that it leaves its loop.\<close>

definition sync_tick :: "io_result \<Rightarrow> wal_sync_state \<Rightarrow> wal_sync_state \<times> bool" where
  "sync_tick io s =
     (if ws_shutdown s \<and> buffered_bytes s = 0 then (s, True)
      else if buffered_bytes s > 0 then
        (case writer_sync io (ws_writer s) of
           Inr w \<Rightarrow> (notify_all (s\<lparr>ws_writer := w, buffered_bytes := 0, sync_error_count := 0\<rparr>), ws_shutdown s)
         | Inl e \<Rightarrow>
             let s = s\<lparr>sync_error_count := sync_error_count s + 1\<rparr> in
             if sync_error_count s \<ge> MAX_SYNC_FAILURES
             then (notify_all (s\<lparr>ws_poisoned := Some ''WAL sync failed''\<rparr>), True)
             else (s, ws_shutdown s))
      else (s, ws_shutdown s))"

text \<open>
  The thread on its own, fed with the results of its synchronisations; \<open>None\<close> when the results run
  out before it ends.
\<close>

fun sync_thread_loop :: "io_result list \<Rightarrow> wal_sync_state \<Rightarrow> wal_sync_state option" where
  "sync_thread_loop [] s = None"
| "sync_thread_loop (io # ios) s = (case sync_tick io s of (s', stop) \<Rightarrow> if stop then Some s' else sync_thread_loop ios s')"

definition shutdown_sync_thread :: "io_result \<Rightarrow> io_result \<Rightarrow> bool \<Rightarrow> wal_sync_state \<Rightarrow> (engine_error + unit) \<times> wal_sync_state" where
  "shutdown_sync_thread thread_io final_io running s =
     (let s = notify_all (s\<lparr>ws_shutdown := True\<rparr>);
          s = (if running then fst (sync_tick thread_io s) else s)
      in if buffered_bytes s > 0 then
           (case writer_sync final_io (ws_writer s) of
              Inl e \<Rightarrow> (Inl e, s)
            | Inr w \<Rightarrow> (Inr (), s\<lparr>ws_writer := w, buffered_bytes := 0\<rparr>))
         else (Inr (), s))"

datatype ('s, 'a) attempt = Wait 's | Return 'a

text \<open>
  The section of a writer, from the lock to its return or to \<^verbatim>\<open>cvar.wait\<close>. A writer that is woken goes
  through the same tests again.
\<close>

definition wal_append_group ::
    "nat \<Rightarrow> nat \<Rightarrow> (wal_writer \<Rightarrow> engine_error + (wal_writer \<times> nat)) \<Rightarrow> wal_sync_state
       \<Rightarrow> (wal_sync_state, (engine_error + unit) \<times> wal_sync_state) attempt" where
  "wal_append_group soft hard f s = (case ws_poisoned s of
     Some msg \<Rightarrow> Return (Inl (WalSyncFailed msg), s)
   | None \<Rightarrow>
       if buffered_bytes s \<ge> hard then Wait (cvar_wait s)
       else case f (ws_writer s) of
         Inl e \<Rightarrow> Return (Inl e, s)
       | Inr (w, bytes_written) \<Rightarrow>
           let s = s\<lparr>ws_writer := w, buffered_bytes := buffered_bytes s + bytes_written\<rparr> in
           Return (Inr (), if buffered_bytes s \<ge> soft then notify_all s else s))"

definition sync_group :: "io_result \<Rightarrow> wal_sync_state \<Rightarrow> (engine_error + unit) \<times> wal_sync_state" where
  "sync_group io s = (case ws_poisoned s of
     Some msg \<Rightarrow> (Inl (WalSyncFailed msg), s)
   | None \<Rightarrow>
       if buffered_bytes s > 0 then
         (case writer_sync io (ws_writer s) of
            Inl e \<Rightarrow> (Inl e, s)
          | Inr w \<Rightarrow> (Inr (), notify_all (s\<lparr>ws_writer := w, buffered_bytes := 0, sync_error_count := 0\<rparr>)))
       else (Inr (), s))"

section \<open>Interleavings\<close>

text \<open>
  The shared state and whether the thread still runs, under any interleaving of the threads. A writer
  enters its section only while it is not parked.
\<close>

inductive sync_step ::
    "(bytes \<Rightarrow> u32) \<Rightarrow> to_vec \<Rightarrow> nat \<Rightarrow> nat \<Rightarrow> wal_sync_state \<times> bool \<Rightarrow> wal_sync_state \<times> bool \<Rightarrow> bool" for crc tv soft hard where
  tick: "sync_tick io s = (s', stop) \<Longrightarrow> sync_step crc tv soft hard (s, True) (s', \<not> stop)"
| append_one: "\<not> ws_parked s \<Longrightarrow> wal_append_group soft hard (\<lambda>w. append crc tv w op seq) s = Return (r, s') \<Longrightarrow>
    sync_step crc tv soft hard (s, running) (s', running)"
| append_many: "\<not> ws_parked s \<Longrightarrow> wal_append_group soft hard (\<lambda>w. append_batch crc tv w ops) s = Return (r, s') \<Longrightarrow>
    sync_step crc tv soft hard (s, running) (s', running)"
| park: "\<not> ws_parked s \<Longrightarrow> wal_append_group soft hard f s = Wait s' \<Longrightarrow> sync_step crc tv soft hard (s, running) (s', running)"
| force: "sync_group io s = (r, s') \<Longrightarrow> sync_step crc tv soft hard (s, running) (s', running)"
| request_shutdown: "sync_step crc tv soft hard (s, running) (notify_all (s\<lparr>ws_shutdown := True\<rparr>), running)"

inductive sync_reach :: "(bytes \<Rightarrow> u32) \<Rightarrow> to_vec \<Rightarrow> nat \<Rightarrow> nat \<Rightarrow> wal_sync_state \<times> bool \<Rightarrow> bool" for crc tv soft hard where
  start: "open_generation file = Inr w \<Longrightarrow> sync_reach crc tv soft hard (sync_state_new w, True)"
| step: "sync_reach crc tv soft hard c \<Longrightarrow> sync_step crc tv soft hard c c' \<Longrightarrow> sync_reach crc tv soft hard c'"

text \<open>
  The bytes counted as buffered are those behind the durable part of the file; the thread ends
  only poisoned or at shutdown.
\<close>

definition sync_inv :: "wal_sync_state \<times> bool \<Rightarrow> bool" where
  "sync_inv c \<longleftrightarrow> (case c of (s, running) \<Rightarrow>
     w_synced (ws_writer s) + buffered_bytes s = length (w_content (ws_writer s)) \<and>
     sync_error_count s \<le> MAX_SYNC_FAILURES \<and>
     (ws_poisoned s = None \<longleftrightarrow> sync_error_count s < MAX_SYNC_FAILURES) \<and>
     (running \<longrightarrow> ws_poisoned s = None) \<and>
     (\<not> running \<longrightarrow> ws_poisoned s \<noteq> None \<or> ws_shutdown s))"

lemma append_counts:
  "append crc tv w op seq = Inr (w', n) \<Longrightarrow> w_synced w' = w_synced w \<and> length (w_content w') = length (w_content w) + n"
  "append_batch crc tv w ops = Inr (w', n) \<Longrightarrow> w_synced w' = w_synced w \<and> length (w_content w') = length (w_content w) + n"
  by (auto simp: append_def append_batch_def r_bind_eq_Inr)

lemma inv_append:
  assumes "sync_inv (s, running)" and "wal_append_group soft hard f s = Return (r, s')"
    and f: "\<And>w' n. f (ws_writer s) = Inr (w', n) \<Longrightarrow>
      w_synced w' = w_synced (ws_writer s) \<and> length (w_content w') = length (w_content (ws_writer s)) + n"
  shows "sync_inv (s', running)"
  using assms(1,2) f
  by (auto simp: sync_inv_def wal_append_group_def notify_all_def Let_def split: option.splits if_splits sum.splits prod.splits)

lemma inv_tick:
  assumes "sync_inv (s, True)" and "sync_tick io s = (s', stop)"
  shows "sync_inv (s', \<not> stop)"
  using assms
  by (auto simp: sync_inv_def sync_tick_def notify_all_def writer_sync_def wal_sync_def r_bind_eq_Inr r_bind_eq_Inl MAX_SYNC_FAILURES_def
      Let_def split: if_splits sum.splits)

lemma inv_force: "sync_inv (s, running) \<Longrightarrow> sync_group io s = (r, s') \<Longrightarrow> sync_inv (s', running)"
  by (auto simp: sync_inv_def sync_group_def notify_all_def writer_sync_def wal_sync_def r_bind_eq_Inr r_bind_eq_Inl MAX_SYNC_FAILURES_def
      split: option.splits if_splits sum.splits)

lemma wait_parks:
  "wal_append_group soft hard f s = Wait s' \<longleftrightarrow> ws_poisoned s = None \<and> hard \<le> buffered_bytes s \<and> s' = cvar_wait s"
  by (auto simp: wal_append_group_def Let_def split: option.splits sum.splits)

lemma inv_step: "sync_step crc tv soft hard c c' \<Longrightarrow> sync_inv c \<Longrightarrow> sync_inv c'"
proof (induction rule: sync_step.induct)
  case (tick io s s' stop)
  then show ?case by (rule inv_tick [rotated])
next
  case (append_one s op seq r s' running)
  show ?case by (rule inv_append [OF append_one(3,2)], erule append_counts(1))
next
  case (append_many s ops r s' running)
  show ?case by (rule inv_append [OF append_many(3,2)], erule append_counts(2))
next
  case (park s f s' running)
  then show ?case by (auto simp: wait_parks cvar_wait_def sync_inv_def)
next
  case (force io s r s' running)
  show ?case by (rule inv_force [OF force(2,1)])
next
  case (request_shutdown s running)
  then show ?case by (auto simp: sync_inv_def notify_all_def)
qed

lemma open_synced: "open_generation file = Inr w \<Longrightarrow> w_synced w = length (w_content w)"
  by (auto simp: open_generation_def Let_def r_bind_eq_Inr split: option.splits if_splits)

lemma inv_start: "open_generation file = Inr w \<Longrightarrow> sync_inv (sync_state_new w, True)"
  by (simp add: sync_inv_def sync_state_new_def MAX_SYNC_FAILURES_def open_synced)

lemma reach_inv: "sync_reach crc tv soft hard c \<Longrightarrow> sync_inv c"
  by (induction rule: sync_reach.induct) (blast intro: inv_start inv_step)+

section \<open>Waiting writers and shutdown\<close>

text \<open>What can happen while a writer waits: rounds of the thread and forced synchronisations.\<close>

datatype sync_event = Tick io_result | Force io_result

fun run_event :: "sync_event \<Rightarrow> wal_sync_state \<times> bool \<Rightarrow> wal_sync_state \<times> bool" where
  "run_event (Tick io) (s, running) =
     (if running then (case sync_tick io s of (s', stop) \<Rightarrow> (s', \<not> stop)) else (s, running))"
| "run_event (Force io) (s, running) = (snd (sync_group io s), running)"

fun ticks :: "sync_event list \<Rightarrow> nat" where
  "ticks [] = 0"
| "ticks (Tick _ # evs) = Suc (ticks evs)"
| "ticks (Force _ # evs) = ticks evs"

text \<open>
  A writer that sleeps at the hard cap, and one that is awake and would be answered. Every event
  keeps the second, and turns the first into the second or counts one more failure.
\<close>

definition held :: "nat \<Rightarrow> wal_sync_state \<Rightarrow> bool" where
  "held hard s \<longleftrightarrow> ws_parked s \<and> ws_poisoned s = None \<and> hard \<le> buffered_bytes s"

definition released :: "nat \<Rightarrow> wal_sync_state \<Rightarrow> bool" where
  "released hard s \<longleftrightarrow> \<not> ws_parked s \<and> (ws_poisoned s \<noteq> None \<or> buffered_bytes s < hard)"

lemma released_returns: "released hard s \<Longrightarrow> \<exists>r. wal_append_group soft hard f s = Return r"
  by (cases "wal_append_group soft hard f s") (auto simp: wait_parks released_def)

lemma tick_held:
  assumes "held hard s" and "0 < hard" and "\<not> ws_shutdown s" and "sync_tick io s = (s', stop)"
  shows "released hard s' \<or> s' = s\<lparr>sync_error_count := sync_error_count s + 1\<rparr> \<and> \<not> stop"
  using assms by (auto simp: held_def released_def sync_tick_def notify_all_def writer_sync_def Let_def split: sum.splits if_splits)

lemma force_held:
  assumes "held hard s" and "0 < hard"
  shows "released hard (snd (sync_group io s)) \<or> snd (sync_group io s) = s"
  using assms by (auto simp: held_def released_def sync_group_def notify_all_def split: sum.splits)

lemma event_released:
  assumes "released hard (fst c)" and "0 < hard"
  shows "released hard (fst (run_event ev c))"
proof (cases ev)
  case (Tick io)
  with assms show ?thesis
    by (cases c) (auto simp: released_def sync_tick_def notify_all_def Let_def split: sum.splits)
next
  case (Force io)
  with assms show ?thesis
    by (cases c) (auto simp: released_def sync_group_def notify_all_def split: option.splits sum.splits)
qed

lemma events_released: "released hard (fst c) \<Longrightarrow> 0 < hard \<Longrightarrow> released hard (fst (fold run_event evs c))"
  by (induction evs arbitrary: c) (simp_all add: event_released)

lemma waiting_writer:
  assumes "held hard s" and "sync_inv (s, True)" and "\<not> ws_shutdown s" and "0 < hard"
    and "MAX_SYNC_FAILURES \<le> sync_error_count s + ticks evs"
  shows "\<exists>n \<le> length evs. released hard (fst (fold run_event (take n evs) (s, True)))"
  using assms
proof (induction evs arbitrary: s)
  case Nil
  then show ?case by (auto simp: held_def sync_inv_def)
next
  case (Cons ev evs)
  have next_state: ?case if "run_event ev (s, True) = (s', True)" "held hard s'" "sync_inv (s', True)" "\<not> ws_shutdown s'"
    "MAX_SYNC_FAILURES \<le> sync_error_count s' + ticks evs" for s'
  proof -
    from Cons.IH [OF that(2,3,4) Cons.prems(4) that(5)]
    obtain n where "n \<le> length evs" "released hard (fst (fold run_event (take n evs) (s', True)))" by blast
    then show ?thesis using that(1) by (intro exI [of _ "Suc n"]) simp
  qed
  have at_once: ?case if "released hard (fst (run_event ev (s, True)))"
    using that by (intro exI [of _ "Suc 0"]) simp
  show ?case
  proof (cases ev)
    case (Tick io)
    obtain s' stop where t: "sync_tick io s = (s', stop)" by (cases "sync_tick io s")
    from tick_held [OF Cons.prems(1,4,3) t] show ?thesis
    proof
      assume "released hard s'"
      then show ?thesis by (intro at_once) (simp add: Tick t)
    next
      assume s': "s' = s\<lparr>sync_error_count := sync_error_count s + 1\<rparr> \<and> \<not> stop"
      with inv_tick [OF Cons.prems(2) t] Cons.prems(1,3,5) show ?thesis
        by (intro next_state [of s']) (simp_all add: Tick t held_def)
    qed
  next
    case (Force io)
    from force_held [OF Cons.prems(1,4), of io] show ?thesis
    proof
      assume "released hard (snd (sync_group io s))"
      then show ?thesis by (intro at_once) (simp add: Force)
    next
      assume "snd (sync_group io s) = s"
      then show ?thesis using Cons.prems by (intro next_state [of s]) (simp_all add: Force)
    qed
  qed
qed

text \<open>
  C21. Back pressure cannot block a writer for ever. A writer that finds the log at its hard cap goes to
  sleep on the condition variable. While the database is open, after at most five rounds of the sync
  thread (with any forced synchronisations in between, and whatever the file system answers) a
  notification has woken it, and from then on, however late it gets the lock back, its next
  pass through the tests returns: with room for its bytes, or with the poison error.
\<close>

theorem group_commit_releases_writers:
  assumes "sync_reach crc tv soft hard (s, True)" and "wal_append_group soft hard f s = Wait s'"
    and "\<not> ws_shutdown s" and "0 < hard" and "MAX_SYNC_FAILURES \<le> ticks evs"
  shows "ws_parked s' \<and> (\<exists>n \<le> length evs. \<forall>m \<ge> n. \<exists>r.
    \<not> ws_parked (fst (fold run_event (take m evs) (s', True))) \<and>
    wal_append_group soft hard f (fst (fold run_event (take m evs) (s', True))) = Return r)"
proof -
  from assms(2) have s': "s' = cvar_wait s" and held: "held hard s'" by (auto simp: wait_parks held_def cvar_wait_def)
  have "sync_inv (s', True)" using reach_inv [OF assms(1)] by (auto simp: s' sync_inv_def cvar_wait_def)
  moreover have "\<not> ws_shutdown s'" and "MAX_SYNC_FAILURES \<le> sync_error_count s' + ticks evs"
    using assms(3,5) by (simp_all add: s' cvar_wait_def)
  ultimately
  obtain n where n: "n \<le> length evs" "released hard (fst (fold run_event (take n evs) (s', True)))"
    using waiting_writer [OF held _ _ assms(4)] by blast
  have later: "released hard (fst (fold run_event (take m evs) (s', True)))" if "n \<le> m" for m
  proof -
    have "take m evs = take n evs @ take (m - n) (drop n evs)" using that by (metis le_add_diff_inverse take_add)
    then show ?thesis using events_released [OF n(2) assms(4)] by simp
  qed
  have awake: "\<exists>r. \<not> ws_parked (fst (fold run_event (take m evs) (s', True))) \<and>
    wal_append_group soft hard f (fst (fold run_event (take m evs) (s', True))) = Return r" if "n \<le> m" for m
    using later [OF that] released_returns [OF later [OF that], of soft f] by (auto simp: released_def)
  show ?thesis using held n(1) awake by (auto simp: held_def)
qed

text \<open>A writer that found the cap at one byte, behind an earlier batch, with a file system that always fails.\<close>

definition full_state :: wal_sync_state where
  "full_state = (sync_state_new fresh_writer)\<lparr>ws_writer := example_writer,
     buffered_bytes := length (w_content example_writer) - WAL_HEADER_SIZE\<rparr>"

lemma full_state_reach: "sync_reach (\<lambda>_. 0) empty_map_to_vec 1 1 (full_state, True)"
proof (rule sync_reach.step [OF sync_reach.start [OF open_fresh]])
  have "append_batch (\<lambda>_. 0) empty_map_to_vec fresh_writer example_request =
      Inr (example_writer, length (w_content example_writer) - WAL_HEADER_SIZE)"
    by (simp add: append_batch_def encode_example_batch example_writer_def fresh_writer_def)
  then have "wal_append_group 1 1 (\<lambda>w. append_batch (\<lambda>_. 0) empty_map_to_vec w example_request) (sync_state_new fresh_writer) =
      Return (Inr (), full_state)"
    by (simp add: wal_append_group_def sync_state_new_def full_state_def notify_all_def Let_def)
  then show "sync_step (\<lambda>_. 0) empty_map_to_vec 1 1 (sync_state_new fresh_writer, True) (full_state, True)"
    by (rule sync_step.append_many [rotated]) (simp add: sync_state_new_def)
qed

lemma full_state_waits: "wal_append_group 1 1 f full_state = Wait (cvar_wait full_state)"
proof -
  have "0 < length (log_bytes empty_map_to_vec (\<lambda>_. 0) (units_of [example_request]))"
    by (simp add: example_request_def units_of_def log_bytes_def unit_bytes_def batch_marks_def frame_of_def
        encode_wal_op_into_def write_defs frame_bytes_def Let_def)
  then have "1 \<le> buffered_bytes full_state"
    by (simp add: full_state_def example_writer_def fresh_writer_def Suc_le_eq)
  moreover have "ws_poisoned full_state = None" by (simp add: full_state_def sync_state_new_def)
  ultimately show ?thesis by (simp add: wal_append_group_def)
qed

theorem group_commit_releases_writers_witness:
  "wal_append_group 1 1 (\<lambda>w. Inr (w, 0)) full_state = Wait (cvar_wait full_state) \<and>
   (\<exists>n \<le> 5. \<exists>r. wal_append_group 1 1 (\<lambda>w. Inr (w, 0))
     (fst (fold run_event (take n (replicate 5 (Tick (Inl (CorruptWal []))))) (cvar_wait full_state, True))) = Return r)"
proof -
  have open_db: "\<not> ws_shutdown full_state" and evs: "MAX_SYNC_FAILURES \<le> ticks (replicate 5 (Tick (Inl (CorruptWal []))))"
    by (simp_all add: full_state_def sync_state_new_def MAX_SYNC_FAILURES_def numeral_eq_Suc)
  from group_commit_releases_writers [OF full_state_reach full_state_waits open_db _ evs, of "\<lambda>w. Inr (w, 0)"]
  obtain n where "n \<le> 5" and "\<exists>r. wal_append_group 1 1 (\<lambda>w. Inr (w, 0))
     (fst (fold run_event (take n (replicate 5 (Tick (Inl (CorruptWal []))))) (cvar_wait full_state, True))) = Return r"
    by auto
  then show ?thesis using full_state_waits by blast
qed

lemma shutdown_tick_stops: "ws_shutdown s \<Longrightarrow> snd (sync_tick io s)"
  by (auto simp: sync_tick_def notify_all_def Let_def split: sum.splits)

lemma tick_content: "w_content (ws_writer (fst (sync_tick io s))) = w_content (ws_writer s)"
  by (auto simp: sync_tick_def notify_all_def Let_def writer_sync_def wal_sync_def r_bind_eq_Inr split: sum.splits)

lemma inv_final:
  assumes "sync_inv (s, running)" and "shutdown_sync_thread thread_io final_io running s = (r, s')"
  shows "w_content (ws_writer s') = w_content (ws_writer s) \<and>
    (r = Inr () \<longleftrightarrow> w_synced (ws_writer s') = length (w_content (ws_writer s'))) \<and>
    (\<forall>e. r = Inl e \<longrightarrow> final_io = Inl e)"
proof -
  define s1 where "s1 = (if running then fst (sync_tick thread_io (notify_all (s\<lparr>ws_shutdown := True\<rparr>))) else notify_all (s\<lparr>ws_shutdown := True\<rparr>))"
  have pre: "sync_inv (notify_all (s\<lparr>ws_shutdown := True\<rparr>), running)" using assms(1) by (auto simp: sync_inv_def notify_all_def)
  have inv: "\<exists>b. sync_inv (s1, b)"
  proof (cases running)
    case True
    then show ?thesis using inv_tick [of "notify_all (s\<lparr>ws_shutdown := True\<rparr>)" thread_io] pre
      by (cases "sync_tick thread_io (notify_all (s\<lparr>ws_shutdown := True\<rparr>))") (auto simp: s1_def)
  qed (use pre in \<open>auto simp: s1_def\<close>)
  have content: "w_content (ws_writer s1) = w_content (ws_writer s)" by (simp add: s1_def tick_content notify_all_def)
  from assms(2) have fin: "(r, s') = (if buffered_bytes s1 > 0 then
      (case writer_sync final_io (ws_writer s1) of Inl e \<Rightarrow> (Inl e, s1) | Inr w \<Rightarrow> (Inr (), s1\<lparr>ws_writer := w, buffered_bytes := 0\<rparr>))
    else (Inr (), s1))"
    unfolding shutdown_sync_thread_def Let_def s1_def [symmetric] by (rule sym)
  show ?thesis
    using fin inv content
    by (auto simp: writer_sync_def wal_sync_def r_bind_eq_Inr r_bind_eq_Inl sync_inv_def split: if_splits sum.splits)
qed

text \<open>
  C24. Shutdown ends and tells the truth: once shutdown is requested the thread leaves its loop in
  its next round; shutting down keeps every appended byte and reports success exactly when all of
  them are durable, and an error only when the final synchronisation returned it.
\<close>

theorem shutdown_ends_durable:
  assumes "sync_reach crc tv soft hard (s, running)"
  shows "sync_thread_loop (io # ios) (notify_all (s\<lparr>ws_shutdown := True\<rparr>)) = Some (fst (sync_tick io (notify_all (s\<lparr>ws_shutdown := True\<rparr>)))) \<and>
    (\<forall>r s'. shutdown_sync_thread thread_io final_io running s = (r, s') \<longrightarrow>
      w_content (ws_writer s') = w_content (ws_writer s) \<and>
      (r = Inr () \<longleftrightarrow> w_synced (ws_writer s') = length (w_content (ws_writer s'))) \<and>
      (\<forall>e. r = Inl e \<longrightarrow> final_io = Inl e))"
proof (intro conjI allI impI)
  show "sync_thread_loop (io # ios) (notify_all (s\<lparr>ws_shutdown := True\<rparr>)) = Some (fst (sync_tick io (notify_all (s\<lparr>ws_shutdown := True\<rparr>))))"
    using shutdown_tick_stops [of "notify_all (s\<lparr>ws_shutdown := True\<rparr>)" io]
    by (cases "sync_tick io (notify_all (s\<lparr>ws_shutdown := True\<rparr>))") (simp add: notify_all_def)
qed (use inv_final [OF reach_inv [OF assms]] in blast)+

theorem shutdown_ends_durable_witness:
  "\<exists>s'. shutdown_sync_thread (Inl (CorruptWal [])) (Inr ()) True full_state = (Inr (), s') \<and>
     w_synced (ws_writer s') = length (w_content example_writer)"
proof -
  obtain r s' where sh: "shutdown_sync_thread (Inl (CorruptWal [])) (Inr ()) True full_state = (r, s')"
    by (cases "shutdown_sync_thread (Inl (CorruptWal [])) (Inr ()) True full_state")
  from shutdown_ends_durable [OF full_state_reach, of "Inr ()" "[]" "Inl (CorruptWal [])" "Inr ()"] sh
  have "w_content (ws_writer s') = w_content (ws_writer full_state)"
    and "r = Inr () \<longleftrightarrow> w_synced (ws_writer s') = length (w_content (ws_writer s'))" and "\<forall>e. r \<noteq> Inl e" by auto
  then have "r = Inr ()" "w_synced (ws_writer s') = length (w_content (ws_writer full_state))"
    by (cases r; simp)+
  then show ?thesis using sh by (simp add: full_state_def)
qed

end
