(* ===== verification/Labels.thy ===== *)
theory Labels
  imports Graph_Types "HOL-Library.Finite_Map"
begin

text \<open>
  The label catalog: \<^verbatim>\<open>RuntimeLabelCatalog\<close> and the read snapshot of it in
  \<^verbatim>\<open>src/src/engine/mod.rs\<close>, and the validation of stored label tokens in \<^verbatim>\<open>src/src/manifest.rs\<close>.
  Node labels and edge labels are two name spaces with the same code; each is a \<open>token_space\<close>.
  The invariant \<open>tokens_ok\<close> says that names and ids are in one-to-one correspondence and that the
  next id is free; the catalog keeps it, and its operations never change an assigned id.
\<close>

section \<open>Name spaces\<close>

record token_space =
  label_to_id :: "(rstring, u32) fmap"
  id_to_label :: "(u32, rstring) fmap"
  label_wal_generation :: "(rstring, u64) fmap"
  next_label_id :: u32

record runtime_label_catalog =
  node_space :: token_space
  edge_space :: token_space

text \<open>The label fields of \<^verbatim>\<open>ManifestState\<close>.\<close>

record manifest_labels =
  label_token_schema_version :: u32
  node_label_tokens :: "(rstring, u32) fmap"
  edge_label_tokens :: "(rstring, u32) fmap"
  next_node_label_id :: u32
  next_edge_label_id :: u32

definition LABEL_TOKEN_SCHEMA_VERSION :: u32 where
  "LABEL_TOKEN_SCHEMA_VERSION = 1"

text \<open>Tree maps are walked in the order of their keys.\<close>

abbreviation map_entries :: "('k::linorder, 'v) fmap \<Rightarrow> ('k \<times> 'v) list" where
  "map_entries m \<equiv> map (\<lambda>k. (k, the (fmlookup m k))) (sorted_list_of_fset (fmdom m))"

definition rebuild_step :: "string \<Rightarrow> (u32, rstring) fmap \<Rightarrow> rstring \<times> u32 \<Rightarrow> engine_error + (u32, rstring) fmap" where
  "rebuild_step message reverse entry = (case entry of (label, label_id) \<Rightarrow>
     if fmlookup reverse label_id \<noteq> None then Inl (ManifestError message) else Inr (fmupd label_id label reverse))"

definition rebuild_reverse_map :: "string \<Rightarrow> (rstring, u32) fmap \<Rightarrow> engine_error + (u32, rstring) fmap" where
  "rebuild_reverse_map message tokens = r_fold (rebuild_step message) fmempty (map_entries tokens)"

definition space_from_manifest :: "string \<Rightarrow> (rstring, u32) fmap \<Rightarrow> u32 \<Rightarrow> engine_error + token_space" where
  "space_from_manifest message tokens next_id =
     r_bind (rebuild_reverse_map message tokens) (\<lambda>reverse.
       Inr \<lparr>label_to_id = tokens, id_to_label = reverse, label_wal_generation = fmempty, next_label_id = next_id\<rparr>)"

definition from_manifest :: "manifest_labels \<Rightarrow> engine_error + runtime_label_catalog" where
  "from_manifest manifest =
     r_bind (space_from_manifest ''node label token conflict'' (node_label_tokens manifest) (next_node_label_id manifest)) (\<lambda>node.
     r_bind (space_from_manifest ''edge-label token conflict'' (edge_label_tokens manifest) (next_edge_label_id manifest)) (\<lambda>edge.
       Inr \<lparr>node_space = node, edge_space = edge\<rparr>))"

definition apply_to_manifest :: "runtime_label_catalog \<Rightarrow> manifest_labels \<Rightarrow> manifest_labels" where
  "apply_to_manifest catalog manifest = manifest\<lparr>label_token_schema_version := LABEL_TOKEN_SCHEMA_VERSION,
     node_label_tokens := label_to_id (node_space catalog), edge_label_tokens := label_to_id (edge_space catalog),
     next_node_label_id := next_label_id (node_space catalog), next_edge_label_id := next_label_id (edge_space catalog)\<rparr>"

definition saturating_succ :: "u32 \<Rightarrow> u32" where
  "saturating_succ i = (if i = - 1 then i else i + 1)"

text \<open>Only tokens whose log generation is flushed, or that are stored already, reach the manifest.\<close>

definition checkpoint_tokens :: "token_space \<Rightarrow> u64 option \<Rightarrow> (rstring, u32) fmap \<Rightarrow> (rstring, u32) fmap" where
  "checkpoint_tokens space max_wal_generation tokens =
     fold (\<lambda>(label, label_id) tokens.
       if fmlookup tokens label = Some label_id \<or>
          (case (fmlookup (label_wal_generation space) label, max_wal_generation) of
             (Some generation, Some max_generation) \<Rightarrow> generation \<le> max_generation | _ \<Rightarrow> False)
       then fmupd label label_id tokens else tokens) (map_entries (label_to_id space)) tokens"

definition checkpoint_next_id :: "(rstring, u32) fmap \<Rightarrow> u32 \<Rightarrow> u32" where
  "checkpoint_next_id tokens next_id = max next_id (saturating_succ (fold max (map snd (map_entries tokens)) 0))"

definition apply_checkpointed_to_manifest :: "runtime_label_catalog \<Rightarrow> manifest_labels \<Rightarrow> u64 option \<Rightarrow> manifest_labels" where
  "apply_checkpointed_to_manifest catalog manifest max_wal_generation =
     (let nodes = checkpoint_tokens (node_space catalog) max_wal_generation (node_label_tokens manifest);
          edges = checkpoint_tokens (edge_space catalog) max_wal_generation (edge_label_tokens manifest)
      in manifest\<lparr>label_token_schema_version := LABEL_TOKEN_SCHEMA_VERSION,
           node_label_tokens := nodes, edge_label_tokens := edges,
           next_node_label_id := checkpoint_next_id nodes (next_node_label_id manifest),
           next_edge_label_id := checkpoint_next_id edges (next_edge_label_id manifest)\<rparr>)"

definition reserve_label :: "string \<Rightarrow> token_space \<Rightarrow> rstring \<Rightarrow> engine_error + u32 \<times> bool" where
  "reserve_label exhausted space label = (case fmlookup (label_to_id space) label of
     Some label_id \<Rightarrow> Inr (label_id, False)
   | None \<Rightarrow>
       r_bind (validate_label_token_name label) (\<lambda>_.
         if next_label_id space = - 1 then Inl (InvalidOperation exhausted)
         else Inr (next_label_id space, True)))"

definition reserve_node_label :: "runtime_label_catalog \<Rightarrow> rstring \<Rightarrow> engine_error + u32 \<times> bool" where
  "reserve_node_label catalog = reserve_label ''node label token ID space exhausted'' (node_space catalog)"

definition reserve_edge_label :: "runtime_label_catalog \<Rightarrow> rstring \<Rightarrow> engine_error + u32 \<times> bool" where
  "reserve_edge_label catalog = reserve_label ''edge-label token ID space exhausted'' (edge_space catalog)"

definition note_generation :: "rstring \<Rightarrow> u64 option \<Rightarrow> (rstring, u64) fmap \<Rightarrow> (rstring, u64) fmap" where
  "note_generation label wal_generation m = (case wal_generation of
     None \<Rightarrow> m
   | Some g \<Rightarrow> fmupd label (case fmlookup m label of None \<Rightarrow> g | Some existing \<Rightarrow> min existing g) m)"

definition apply_label :: "string \<Rightarrow> string \<Rightarrow> token_space \<Rightarrow> rstring \<Rightarrow> u32 \<Rightarrow> u64 option \<Rightarrow> engine_error + token_space" where
  "apply_label reserved conflict space label label_id wal_generation =
     r_bind (validate_label_token_name label) (\<lambda>_.
       if label_id = 0 then Inl (InvalidOperation reserved)
       else case fmlookup (label_to_id space) label of
         Some existing_id \<Rightarrow>
           if existing_id = label_id
           then Inr (space\<lparr>label_wal_generation := note_generation label wal_generation (label_wal_generation space)\<rparr>)
           else Inl (CorruptWal conflict)
       | None \<Rightarrow>
           if fmlookup (id_to_label space) label_id \<noteq> None then Inl (CorruptWal conflict)
           else Inr (space\<lparr>
             label_to_id := fmupd label label_id (label_to_id space),
             id_to_label := fmupd label_id label (id_to_label space),
             label_wal_generation := (case wal_generation of None \<Rightarrow> label_wal_generation space
               | Some g \<Rightarrow> fmupd label g (label_wal_generation space)),
             next_label_id := max (next_label_id space) (saturating_succ label_id)\<rparr>))"

definition apply_node_label :: "runtime_label_catalog \<Rightarrow> rstring \<Rightarrow> u32 \<Rightarrow> u64 option \<Rightarrow> engine_error + runtime_label_catalog" where
  "apply_node_label catalog label label_id wal_generation =
     r_bind (apply_label ''node label token ID 0 is reserved'' ''node label token conflict'' (node_space catalog) label label_id wal_generation)
       (\<lambda>space. Inr (catalog\<lparr>node_space := space\<rparr>))"

definition apply_edge_label :: "runtime_label_catalog \<Rightarrow> rstring \<Rightarrow> u32 \<Rightarrow> u64 option \<Rightarrow> engine_error + runtime_label_catalog" where
  "apply_edge_label catalog label label_id wal_generation =
     r_bind (apply_label ''edge-label token ID 0 is reserved'' ''edge-label token conflict'' (edge_space catalog) label label_id wal_generation)
       (\<lambda>space. Inr (catalog\<lparr>edge_space := space\<rparr>))"

section \<open>Stored tokens\<close>

definition check_token :: "(u32, rstring) fmap \<times> u32 \<Rightarrow> rstring \<times> u32 \<Rightarrow> engine_error + (u32, rstring) fmap \<times> u32" where
  "check_token acc entry = (case (acc, entry) of ((ids, max_id), (name, label_id)) \<Rightarrow>
     if \<not> is_ok (validate_label_token_name name) then Inl (ManifestError ''token name is invalid'')
     else if label_id = 0 then Inl (ManifestError ''token uses reserved label_id 0'')
     else if fmlookup ids label_id \<noteq> None then Inl (ManifestError ''token conflict'')
     else Inr (fmupd label_id name ids, max max_id label_id))"

definition validate_token_namespace :: "(rstring, u32) fmap \<Rightarrow> u32 \<Rightarrow> engine_error + unit" where
  "validate_token_namespace tokens next_id =
     r_bind (r_fold check_token (fmempty, 0) (map_entries tokens)) (\<lambda>(_, max_id).
       if next_id \<le> max_id then Inl (ManifestError ''next token id must be greater than max assigned id'') else Inr ())"

definition validate_label_token_manifest :: "manifest_labels \<Rightarrow> engine_error + unit" where
  "validate_label_token_manifest state =
     (if label_token_schema_version state = 0 then Inl (ManifestError ''database manifest is missing label token schema'')
      else if label_token_schema_version state \<noteq> LABEL_TOKEN_SCHEMA_VERSION then
        Inl (ManifestError ''unsupported label token schema version'')
      else r_bind (validate_token_namespace (node_label_tokens state) (next_node_label_id state)) (\<lambda>_.
        validate_token_namespace (edge_label_tokens state) (next_edge_label_id state)))"

section \<open>The read snapshot\<close>

datatype read_label_name_lookup = Dense "rstring option list" | Sparse "(u32, rstring) fmap"

definition MAX_DENSE_LEN :: nat where
  "MAX_DENSE_LEN = 1000000"

text \<open>The saturation of the threshold at \<^verbatim>\<open>usize::MAX\<close> is out of reach: a map has at most \<open>2^32\<close> names.\<close>

definition from_runtime_map :: "(u32, rstring) fmap \<Rightarrow> read_label_name_lookup" where
  "from_runtime_map names =
     (if fmdom names = {||} then Dense []
      else let len = unat (last (sorted_list_of_fset (fmdom names))) + 1;
               dense_threshold = fcard (fmdom names) * 8 + 64
           in if len \<le> MAX_DENSE_LEN \<and> len \<le> dense_threshold
              then Dense (fold (\<lambda>(label_id, name) dense. dense[unat label_id := Some name]) (map_entries names) (replicate len None))
              else Sparse names)"

definition lookup_get :: "read_label_name_lookup \<Rightarrow> u32 \<Rightarrow> rstring option" where
  "lookup_get names label_id = (case names of
     Dense ns \<Rightarrow> if unat label_id < length ns then ns ! unat label_id else None
   | Sparse m \<Rightarrow> fmlookup m label_id)"

section \<open>Names and ids correspond\<close>

definition tokens_ok :: "token_space \<Rightarrow> bool" where
  "tokens_ok space \<longleftrightarrow> 0 < next_label_id space \<and>
     (\<forall>l i. fmlookup (label_to_id space) l = Some i \<longleftrightarrow> fmlookup (id_to_label space) i = Some l) \<and>
     (\<forall>l i. fmlookup (label_to_id space) l = Some i \<longrightarrow>
        i \<noteq> 0 \<and> i < next_label_id space \<and> validate_label_token_name l = Inr ())"

lemma set_map_entries: "(k, v) \<in> set (map_entries m) \<longleftrightarrow> fmlookup m k = Some v"
  by (auto simp: fmlookup_dom_iff)

lemma distinct_ids:
  assumes "\<And>l l' i. fmlookup m l = Some i \<Longrightarrow> fmlookup m l' = Some i \<Longrightarrow> l = l'"
  shows "distinct (map snd (map_entries m))"
proof -
  have "inj_on (\<lambda>k. the (fmlookup m k)) (fset (fmdom m))"
    using assms by (auto simp: inj_on_def fmlookup_dom_iff)
  moreover have "distinct (sorted_list_of_fset (fmdom m))" by (simp add: sorted_list_of_fset.rep_eq)
  ultimately show ?thesis by (simp add: distinct_map comp_def)
qed

lemma rebuild_step_simp:
  "rebuild_step message reverse (label, label_id) =
     (if fmlookup reverse label_id \<noteq> None then Inl (ManifestError message) else Inr (fmupd label_id label reverse))"
  by (simp add: rebuild_step_def)

lemma rebuild_fold:
  assumes "distinct (map snd xs)" and "\<And>i. i \<in> snd ` set xs \<Longrightarrow> fmlookup acc i = None"
  shows "\<exists>m. r_fold (rebuild_step message) acc xs = Inr m \<and>
     (\<forall>i l. fmlookup m i = Some l \<longleftrightarrow> (l, i) \<in> set xs \<or> fmlookup acc i = Some l)"
  using assms
proof (induction xs arbitrary: acc)
  case (Cons x xs)
  obtain l i where x: "x = (l, i)" by (cases x)
  have free: "fmlookup acc i = None" using Cons.prems(2) [of i] x by simp
  have "\<exists>m. r_fold (rebuild_step message) (fmupd i l acc) xs = Inr m \<and>
     (\<forall>j k. fmlookup m j = Some k \<longleftrightarrow> (k, j) \<in> set xs \<or> fmlookup (fmupd i l acc) j = Some k)"
    using Cons.prems x by (intro Cons.IH) auto
  then obtain m where m: "r_fold (rebuild_step message) (fmupd i l acc) xs = Inr m"
    "\<And>j k. fmlookup m j = Some k \<longleftrightarrow> (k, j) \<in> set xs \<or> fmlookup (fmupd i l acc) j = Some k" by blast
  have "(k, i) \<notin> set xs" for k using Cons.prems(1) x by force
  then have "fmlookup m j = Some k \<longleftrightarrow> (k, j) \<in> set (x # xs) \<or> fmlookup acc j = Some k" for j k
    using m(2) [of j k] free x by (cases "j = i") auto
  then show ?case using m(1) free by (intro exI [of _ m]) (simp add: x rebuild_step_simp)
qed simp

lemma rebuild_ok:
  assumes "\<And>l l' i. fmlookup tokens l = Some i \<Longrightarrow> fmlookup tokens l' = Some i \<Longrightarrow> l = l'"
  shows "\<exists>m. rebuild_reverse_map message tokens = Inr m \<and> (\<forall>i l. fmlookup m i = Some l \<longleftrightarrow> fmlookup tokens l = Some i)"
proof -
  have "distinct (map snd (map_entries tokens))" using assms by (rule distinct_ids)
  from rebuild_fold [OF this, where acc = fmempty and message = message] show ?thesis
    unfolding rebuild_reverse_map_def set_map_entries by simp
qed

lemma check_token_simp:
  "check_token (ids, max_id) (name, label_id) =
     (if \<not> is_ok (validate_label_token_name name) then Inl (ManifestError ''token name is invalid'')
     else if label_id = 0 then Inl (ManifestError ''token uses reserved label_id 0'')
     else if fmlookup ids label_id \<noteq> None then Inl (ManifestError ''token conflict'')
     else Inr (fmupd label_id name ids, max max_id label_id))"
  by (simp add: check_token_def)

lemma check_tokens:
  assumes "r_fold check_token (ids, m) xs = Inr (ids', m')"
  shows "(\<forall>(l, i) \<in> set xs. i \<noteq> 0 \<and> i \<le> m' \<and> validate_label_token_name l = Inr () \<and> fmlookup ids i = None) \<and>
    m \<le> m' \<and> distinct (map snd xs)"
  using assms
proof (induction xs arbitrary: ids m)
  case (Cons x xs)
  obtain l i where x: "x = (l, i)" by (cases x)
  from Cons.prems have c: "i \<noteq> 0" "is_ok (validate_label_token_name l)" "fmlookup ids i = None"
    and r: "r_fold check_token (fmupd i l ids, max m i) xs = Inr (ids', m')"
    by (auto simp: x check_token_simp r_bind_eq_Inr split: if_splits)
  note ih = Cons.IH [OF r]
  have "i \<notin> snd ` set xs" using ih by force
  moreover have "fmlookup ids j = None" if "(k, j) \<in> set xs" for k j
    using ih that by (auto split: if_splits)
  moreover have "validate_label_token_name l = Inr ()" using c(2) by (simp add: is_ok_iff)
  moreover have "i \<le> m'" "m \<le> m'" using ih by simp_all
  ultimately show ?case using ih c by (auto simp: x)
qed simp

lemma check_tokens_complete:
  assumes "distinct (map snd xs)" and "\<And>l i. (l, i) \<in> set xs \<Longrightarrow> i \<noteq> 0 \<and> validate_label_token_name l = Inr () \<and> fmlookup ids i = None"
  shows "\<exists>ids'. r_fold check_token (ids, m) xs = Inr (ids', fold max (map snd xs) m)"
  using assms
proof (induction xs arbitrary: ids m)
  case (Cons x xs)
  obtain l i where x: "x = (l, i)" by (cases x)
  have "\<exists>ids'. r_fold check_token (fmupd i l ids, max m i) xs = Inr (ids', fold max (map snd xs) (max m i))"
  proof (rule Cons.IH)
    fix k j assume kj: "(k, j) \<in> set xs"
    moreover have "j \<noteq> i" using Cons.prems(1) kj x by force
    ultimately show "j \<noteq> 0 \<and> validate_label_token_name k = Inr () \<and> fmlookup (fmupd i l ids) j = None"
      using Cons.prems(2) [of k j] by simp
  qed (use Cons.prems(1) in simp)
  moreover have "check_token (ids, m) x = Inr (fmupd i l ids, max m i)"
    using Cons.prems(2) [of l i] by (simp add: x check_token_simp is_ok_iff)
  ultimately show ?case by (simp add: x max.commute)
qed simp

lemma less_saturating_succ: "i \<noteq> - 1 \<Longrightarrow> i < saturating_succ i"
proof -
  assume i: "i \<noteq> - 1"
  then have "1 + i \<noteq> 0" by (metis add_eq_0_iff minus_equation_iff)
  then have "unat (1 + i) = Suc (unat i)" by (rule unatSuc)
  with i show ?thesis by (simp add: saturating_succ_def word_less_nat_alt add.commute)
qed

lemma tokens_okD:
  assumes "tokens_ok space" and "fmlookup (label_to_id space) l = Some i"
  shows "fmlookup (id_to_label space) i = Some l" and "i \<noteq> 0" and "i < next_label_id space"
    and "validate_label_token_name l = Inr ()"
  using assms by (auto simp: tokens_ok_def)

lemma apply_label_ok:
  assumes "tokens_ok space" and "apply_label reserved conflict space label label_id gen = Inr space'" and "label_id \<noteq> - 1"
  shows "tokens_ok space' \<and> (\<forall>l. fmlookup (label_to_id space') l = (if l = label then Some label_id else fmlookup (label_to_id space) l))"
proof (cases "fmlookup (label_to_id space) label")
  case None
  with assms(2) have name: "validate_label_token_name label = Inr ()" and nz: "label_id \<noteq> 0"
    and free: "fmlookup (id_to_label space) label_id = None"
    and maps: "label_to_id space' = fmupd label label_id (label_to_id space)" "id_to_label space' = fmupd label_id label (id_to_label space)"
      "next_label_id space' = max (next_label_id space) (saturating_succ label_id)"
    by (auto simp: apply_label_def r_bind_eq_Inr split: if_splits)
  have "fmlookup (label_to_id space') l = Some i \<longleftrightarrow> fmlookup (id_to_label space') i = Some l" for l i
  proof -
    have bij: "fmlookup (label_to_id space) l = Some i \<longleftrightarrow> fmlookup (id_to_label space) i = Some l" for l i
      using assms(1) by (simp add: tokens_ok_def)
    show ?thesis using None free bij [of l i] bij [of label i] bij [of l label_id]
      by (cases "l = label"; cases "i = label_id") (simp_all add: maps)
  qed
  moreover have "i \<noteq> 0 \<and> i < next_label_id space' \<and> validate_label_token_name l = Inr ()"
    if "fmlookup (label_to_id space') l = Some i" for l i
    using that tokens_okD [OF assms(1), of l i] less_saturating_succ [OF assms(3)] name nz
    by (auto simp: maps less_max_iff_disj split: if_splits)
  moreover have "0 < next_label_id space'" using assms(1) by (simp add: tokens_ok_def maps less_max_iff_disj)
  ultimately show ?thesis by (simp add: tokens_ok_def maps(1))
next
  case (Some i)
  with assms(2) have "space' = space\<lparr>label_wal_generation := note_generation label gen (label_wal_generation space)\<rparr>" "i = label_id"
    by (auto simp: apply_label_def r_bind_eq_Inr split: if_splits)
  with assms(1) Some show ?thesis by (simp add: tokens_ok_def)
qed

lemma reserve_label_ok:
  assumes "tokens_ok space" and "reserve_label exhausted space label = Inr (label_id, created)"
  shows "label_id \<noteq> - 1 \<and> created = (fmlookup (label_to_id space) label = None) \<and>
    (created \<longrightarrow> fmlookup (id_to_label space) label_id = None) \<and>
    (\<exists>space'. apply_label reserved conflict space label label_id gen = Inr space')"
proof (cases "fmlookup (label_to_id space) label")
  case None
  with assms(2) have r: "validate_label_token_name label = Inr ()" "label_id = next_label_id space" "label_id \<noteq> - 1" "created"
    by (auto simp: reserve_label_def r_bind_eq_Inr split: if_splits)
  have "fmlookup (id_to_label space) label_id = None"
  proof (rule ccontr)
    assume "fmlookup (id_to_label space) label_id \<noteq> None"
    then obtain l where "fmlookup (label_to_id space) l = Some label_id" using assms(1) by (auto simp: tokens_ok_def)
    from tokens_okD(3) [OF assms(1) this] r(2) show False by simp
  qed
  moreover have "next_label_id space \<noteq> 0" using assms(1) by (auto simp: tokens_ok_def)
  ultimately show ?thesis using None r by (simp add: apply_label_def)
next
  case (Some i)
  with assms(2) have "label_id = i" "\<not> created" by (simp_all add: reserve_label_def)
  moreover have "i \<noteq> - 1" using tokens_okD(3) [OF assms(1) Some] by (metis word_order.extremum_strict)
  ultimately show ?thesis using tokens_okD [OF assms(1) Some] Some by (simp add: apply_label_def)
qed

lemma fold_max_bound:
  fixes m :: "'a::linorder"
  shows "m \<le> fold max xs m \<and> (\<forall>x \<in> set xs. x \<le> fold max xs m) \<and> (fold max xs m < b \<longleftrightarrow> m < b \<and> (\<forall>x \<in> set xs. x < b))"
proof (induction xs arbitrary: m)
  case (Cons a xs)
  from Cons.IH [of "max a m"] show ?case by auto
qed simp

lemma tokens_inj: "tokens_ok space \<Longrightarrow> fmlookup (label_to_id space) l = Some i \<Longrightarrow> fmlookup (label_to_id space) l' = Some i \<Longrightarrow> l = l'"
  by (auto simp: tokens_ok_def)

lemma namespace_valid: "tokens_ok space \<Longrightarrow> validate_token_namespace (label_to_id space) (next_label_id space) = Inr ()"
proof -
  assume ok: "tokens_ok space"
  let ?es = "map_entries (label_to_id space)"
  have mem: "fmlookup (label_to_id space) l = Some i" if "(l, i) \<in> set ?es" for l i using that unfolding set_map_entries .
  have "\<exists>ids'. r_fold check_token (fmempty, 0) ?es = Inr (ids', fold max (map snd ?es) 0)"
  proof (rule check_tokens_complete)
    show "distinct (map snd ?es)" using tokens_inj [OF ok] by (rule distinct_ids)
    show "i \<noteq> 0 \<and> validate_label_token_name l = Inr () \<and> fmlookup fmempty i = None" if "(l, i) \<in> set ?es" for l i
      using tokens_okD [OF ok mem [OF that]] by simp
  qed
  moreover have "fold max (map snd ?es) 0 < next_label_id space"
  proof -
    have "i < next_label_id space" if i: "i \<in> set (map snd ?es)" for i
    proof -
      from i obtain e where "e \<in> set ?es" "snd e = i" unfolding set_map [of snd] by (elim imageE) simp
      then have "(fst e, i) \<in> set ?es" by auto
      from tokens_okD(3) [OF ok mem [OF this]] show ?thesis .
    qed
    moreover have "0 < next_label_id space" using ok by (simp add: tokens_ok_def)
    ultimately show ?thesis using fold_max_bound [of 0 "map snd ?es" "next_label_id space"] by blast
  qed
  ultimately show ?thesis by (auto simp: validate_token_namespace_def)
qed

lemma space_valid:
  assumes "validate_token_namespace tokens next_id = Inr ()"
  shows "\<exists>space. space_from_manifest message tokens next_id = Inr space \<and> tokens_ok space \<and>
    label_to_id space = tokens \<and> next_label_id space = next_id"
proof -
  from assms obtain ids m where f: "r_fold check_token (fmempty, 0) (map_entries tokens) = Inr (ids, m)" and m: "m < next_id"
    by (auto simp: validate_token_namespace_def r_bind_eq_Inr split: if_splits)
  note chk = check_tokens [OF f]
  have inj: "l = l'" if "fmlookup tokens l = Some i" "fmlookup tokens l' = Some i" for l l' i
  proof -
    have "(l, i) \<in> set (map_entries tokens)" "(l', i) \<in> set (map_entries tokens)" using that unfolding set_map_entries by simp_all
    moreover have "inj_on snd (set (map_entries tokens))" using chk distinct_map by blast
    ultimately have "(l, i) = (l', i)" by (intro inj_onD [of snd "set (map_entries tokens)"]) simp_all
    then show ?thesis by simp
  qed
  have "\<exists>r. rebuild_reverse_map message tokens = Inr r \<and> (\<forall>i l. fmlookup r i = Some l \<longleftrightarrow> fmlookup tokens l = Some i)"
    by (rule rebuild_ok) (rule inj)
  then obtain r where r: "rebuild_reverse_map message tokens = Inr r"
    "\<And>i l. fmlookup r i = Some l \<longleftrightarrow> fmlookup tokens l = Some i" by blast
  have "i \<noteq> 0 \<and> i < next_id \<and> validate_label_token_name l = Inr ()" if "fmlookup tokens l = Some i" for l i
  proof -
    have "(l, i) \<in> set (map_entries tokens)" using that unfolding set_map_entries .
    with chk have "i \<noteq> 0 \<and> i \<le> m \<and> validate_label_token_name l = Inr ()" by blast
    with m show ?thesis by auto
  qed
  moreover have "0 < next_id" using m by (metis word_gt_0 word_not_simps(1))
  ultimately show ?thesis using r by (simp add: space_from_manifest_def tokens_ok_def)
qed

definition catalog_ok :: "runtime_label_catalog \<Rightarrow> bool" where
  "catalog_ok c \<longleftrightarrow> tokens_ok (node_space c) \<and> tokens_ok (edge_space c)"

text \<open>Catalogs of an open database: read from a valid manifest, grown by requests for labels.\<close>

inductive catalog_reach :: "runtime_label_catalog \<Rightarrow> bool" where
  opened: "validate_label_token_manifest m = Inr () \<Longrightarrow> from_manifest m = Inr c \<Longrightarrow> catalog_reach c"
| node: "catalog_reach c \<Longrightarrow> reserve_node_label c l = Inr (i, created) \<Longrightarrow> apply_node_label c l i gen = Inr c' \<Longrightarrow> catalog_reach c'"
| edge: "catalog_reach c \<Longrightarrow> reserve_edge_label c l = Inr (i, created) \<Longrightarrow> apply_edge_label c l i gen = Inr c' \<Longrightarrow> catalog_reach c'"

lemma from_manifest_valid:
  assumes "validate_label_token_manifest m = Inr ()"
  shows "\<exists>c. from_manifest m = Inr c \<and> catalog_ok c \<and>
    label_to_id (node_space c) = node_label_tokens m \<and> next_label_id (node_space c) = next_node_label_id m \<and>
    label_to_id (edge_space c) = edge_label_tokens m \<and> next_label_id (edge_space c) = next_edge_label_id m"
proof -
  from assms have "validate_token_namespace (node_label_tokens m) (next_node_label_id m) = Inr ()"
    "validate_token_namespace (edge_label_tokens m) (next_edge_label_id m) = Inr ()"
    by (auto simp: validate_label_token_manifest_def r_bind_eq_Inr split: if_splits)
  from space_valid [OF this(1), of "''node label token conflict''"] space_valid [OF this(2), of "''edge-label token conflict''"]
  show ?thesis by (auto simp: from_manifest_def catalog_ok_def)
qed

lemma apply_node_label_ok:
  assumes "catalog_ok c" and "apply_node_label c l i gen = Inr c'" and "i \<noteq> - 1"
  shows "catalog_ok c' \<and> edge_space c' = edge_space c \<and>
    (\<forall>k. fmlookup (label_to_id (node_space c')) k = (if k = l then Some i else fmlookup (label_to_id (node_space c)) k))"
  using assms(2) apply_label_ok [of "node_space c"] assms(1,3)
  by (auto simp: apply_node_label_def catalog_ok_def r_bind_eq_Inr)

lemma apply_edge_label_ok:
  assumes "catalog_ok c" and "apply_edge_label c l i gen = Inr c'" and "i \<noteq> - 1"
  shows "catalog_ok c' \<and> node_space c' = node_space c \<and>
    (\<forall>k. fmlookup (label_to_id (edge_space c')) k = (if k = l then Some i else fmlookup (label_to_id (edge_space c)) k))"
  using assms(2) apply_label_ok [of "edge_space c"] assms(1,3)
  by (auto simp: apply_edge_label_def catalog_ok_def r_bind_eq_Inr)

lemma apply_label_reverse:
  assumes "tokens_ok space" and "apply_label reserved conflict space label label_id gen = Inr space'"
  shows "fmlookup (id_to_label space') i = (if i = label_id then Some label else fmlookup (id_to_label space) i)"
  using assms by (auto simp: apply_label_def r_bind_eq_Inr tokens_ok_def split: option.splits if_splits)

lemma apply_node_label_reverse:
  assumes "catalog_ok c" and "apply_node_label c l i gen = Inr c'"
  shows "fmlookup (id_to_label (node_space c')) k = (if k = i then Some l else fmlookup (id_to_label (node_space c)) k)"
  using assms apply_label_reverse [of "node_space c"] by (auto simp: apply_node_label_def catalog_ok_def r_bind_eq_Inr)

lemma apply_edge_label_reverse:
  assumes "catalog_ok c" and "apply_edge_label c l i gen = Inr c'"
  shows "fmlookup (id_to_label (edge_space c')) k = (if k = i then Some l else fmlookup (id_to_label (edge_space c)) k)"
  using assms apply_label_reverse [of "edge_space c"] by (auto simp: apply_edge_label_def catalog_ok_def r_bind_eq_Inr)

lemma reserve_node_label_ok:
  assumes "catalog_ok c" and "reserve_node_label c l = Inr (i, created)"
  shows "i \<noteq> - 1 \<and> created = (fmlookup (label_to_id (node_space c)) l = None) \<and>
    (created \<longrightarrow> fmlookup (id_to_label (node_space c)) i = None) \<and> (\<exists>c'. apply_node_label c l i gen = Inr c')"
  using reserve_label_ok [of "node_space c"] assms
  by (simp add: reserve_node_label_def apply_node_label_def catalog_ok_def r_bind_eq_Inr)

lemma reserve_edge_label_ok:
  assumes "catalog_ok c" and "reserve_edge_label c l = Inr (i, created)"
  shows "i \<noteq> - 1 \<and> created = (fmlookup (label_to_id (edge_space c)) l = None) \<and>
    (created \<longrightarrow> fmlookup (id_to_label (edge_space c)) i = None) \<and> (\<exists>c'. apply_edge_label c l i gen = Inr c')"
  using reserve_label_ok [of "edge_space c"] assms
  by (simp add: reserve_edge_label_def apply_edge_label_def catalog_ok_def r_bind_eq_Inr)

lemma reach_catalog_ok: "catalog_reach c \<Longrightarrow> catalog_ok c"
proof (induction rule: catalog_reach.induct)
  case (opened m c)
  then show ?case using from_manifest_valid [of m] by auto
next
  case (node c l i created gen c')
  then show ?case using reserve_node_label_ok [of c l i created] apply_node_label_ok [of c l i gen c'] by blast
next
  case (edge c l i created gen c')
  then show ?case using reserve_edge_label_ok [of c l i created] apply_edge_label_ok [of c l i gen c'] by blast
qed

lemma apply_to_manifest_valid: "catalog_ok c \<Longrightarrow> validate_label_token_manifest (apply_to_manifest c m) = Inr ()"
  by (simp add: validate_label_token_manifest_def apply_to_manifest_def LABEL_TOKEN_SCHEMA_VERSION_def catalog_ok_def namespace_valid)

lemma tokens_ok_reverse:
  assumes "tokens_ok a" and "tokens_ok b" and "label_to_id a = label_to_id b"
  shows "id_to_label a = id_to_label b"
proof (rule fmap_ext)
  fix i
  show "fmlookup (id_to_label a) i = fmlookup (id_to_label b) i"
    using assms unfolding tokens_ok_def by (cases "fmlookup (id_to_label b) i") (metis not_None_eq)+
qed

section \<open>Snapshots\<close>

lemma fold_updates:
  assumes "distinct (map fst xs)" and "\<forall>(i, _) \<in> set xs. unat i < length acc"
  shows "length (fold (\<lambda>(i, v) ns. ns[unat i := Some v]) xs acc) = length acc \<and>
    (\<forall>i. unat i < length acc \<longrightarrow>
       fold (\<lambda>(i, v) ns. ns[unat i := Some v]) xs acc ! unat i = (case map_of xs i of Some v \<Rightarrow> Some v | None \<Rightarrow> acc ! unat i))"
  using assms
proof (induction xs arbitrary: acc)
  case (Cons x xs)
  obtain i v where x: "x = (i, v)" by (cases x)
  have none: "map_of xs i = None" using Cons.prems(1) x by (simp add: map_of_eq_None_iff)
  from Cons.IH [of "acc[unat i := Some v]"] Cons.prems x none show ?case
    by (auto simp: nth_list_update word_unat_eq_iff [symmetric] split: option.split)
qed simp

lemma map_of_entries: "map_of (map_entries m) k = fmlookup m k"
  by (cases "fmlookup m k") (auto simp: map_of_map_restrict restrict_map_def fmlookup_dom_iff comp_def)

lemma snapshot_lookup: "lookup_get (from_runtime_map names) label_id = fmlookup names label_id"
proof (cases "fmdom names = {||}")
  case True
  then have "fmlookup names label_id = None" by (metis fempty_iff fmdom_notD)
  with True show ?thesis by (simp add: from_runtime_map_def lookup_get_def)
next
  case False
  let ?ids = "sorted_list_of_fset (fmdom names)"
  let ?len = "unat (last ?ids) + 1"
  have srt: "sorted ?ids" "distinct ?ids" "set ?ids = fset (fmdom names)" by (simp_all add: sorted_list_of_fset.rep_eq)
  have top: "unat i < ?len" if "i \<in> set ?ids" for i
  proof -
    have "i \<le> last ?ids" using srt(1) that by (metis sorted_nth_mono last_conv_nth in_set_conv_nth
          length_pos_if_in_set less_Suc_eq_le Suc_pred' diff_less length_greater_0_conv list.size(3) not_less0 zero_less_one)
    then show ?thesis by (simp add: word_le_nat_alt)
  qed
  have "lookup_get (Dense (fold (\<lambda>(i, v) ns. ns[unat i := Some v]) (map_entries names) (replicate ?len None))) label_id = fmlookup names label_id"
  proof (cases "unat label_id < ?len")
    case True
    have dist: "distinct (map fst (map_entries names))" using srt(2) by (simp add: comp_def)
    have "\<forall>(i, _) \<in> set (map_entries names). unat i < length (replicate ?len (None :: rstring option))"
    proof
      fix x assume "x \<in> set (map_entries names)"
      then have "fst x \<in> set ?ids" unfolding set_map by (elim imageE) simp
      from top [OF this] show "case x of (i, _) \<Rightarrow> unat i < length (replicate ?len (None :: rstring option))"
        by (simp add: case_prod_beta)
    qed
    note up = fold_updates [OF dist this]
    have "replicate ?len None ! unat label_id = (None :: rstring option)" using True by (simp del: replicate.simps)
    with up True show ?thesis unfolding lookup_get_def map_of_entries
      by (simp del: replicate.simps add: option.case_eq_if)
  next
    case False
    then have "label_id \<notin> set ?ids" using top by blast
    then have "fmlookup names label_id = None" unfolding srt(3) by (rule fmdom_notD)
    moreover have "length (fold (\<lambda>(i, v) ns. ns[unat i := Some v]) (map_entries names) (replicate ?len None)) = ?len"
    proof -
      have "length (fold (\<lambda>(i, v) ns. ns[unat i := Some v]) xs acc) = length acc" for xs :: "(u32 \<times> rstring) list" and acc
        by (induction xs arbitrary: acc) auto
      then show ?thesis by simp
    qed
    ultimately show ?thesis using False by (simp add: lookup_get_def del: replicate.simps)
  qed
  with False show ?thesis by (simp add: from_runtime_map_def Let_def lookup_get_def)
qed

section \<open>Requests and reopening\<close>

text \<open>A database with no labels.\<close>

definition no_labels :: manifest_labels where
  "no_labels = \<lparr>label_token_schema_version = 1, node_label_tokens = fmempty, edge_label_tokens = fmempty,
     next_node_label_id = 1, next_edge_label_id = 1\<rparr>"

lemma no_labels_valid: "validate_label_token_manifest no_labels = Inr ()"
  by (simp add: validate_label_token_manifest_def no_labels_def LABEL_TOKEN_SCHEMA_VERSION_def validate_token_namespace_def
      sorted_list_of_fset.rep_eq)

lemma no_labels_reach: obtains c where "catalog_reach c" and "from_manifest no_labels = Inr c"
    and "label_to_id (node_space c) = fmempty" and "next_label_id (node_space c) = 1"
  using from_manifest_valid [OF no_labels_valid] catalog_reach.opened [OF no_labels_valid]
  by (auto simp: no_labels_def)

text \<open>
  C23. A request for a label is served: the id that the catalog hands out can always be applied and is
  fresh exactly when the name is new. Afterwards both lookups of the catalog agree on it, from the
  name to the id and from the id to the name, and every other name and every other id is
  looked up as before.
\<close>

theorem ensure_label_fresh:
  assumes "catalog_reach c" and "reserve_node_label c l = Inr (i, created)" and "reserve_edge_label c l = Inr (j, made)"
  shows "(\<exists>c'. apply_node_label c l i gen = Inr c' \<and> edge_space c' = edge_space c \<and>
      (\<forall>k. fmlookup (label_to_id (node_space c')) k = (if k = l then Some i else fmlookup (label_to_id (node_space c)) k)) \<and>
      (\<forall>k. fmlookup (id_to_label (node_space c')) k = (if k = i then Some l else fmlookup (id_to_label (node_space c)) k))) \<and>
    (created \<longleftrightarrow> fmlookup (label_to_id (node_space c)) l = None) \<and>
    (created \<longrightarrow> fmlookup (id_to_label (node_space c)) i = None) \<and>
    (\<exists>c'. apply_edge_label c l j gen = Inr c' \<and> node_space c' = node_space c \<and>
      (\<forall>k. fmlookup (label_to_id (edge_space c')) k = (if k = l then Some j else fmlookup (label_to_id (edge_space c)) k)) \<and>
      (\<forall>k. fmlookup (id_to_label (edge_space c')) k = (if k = j then Some l else fmlookup (id_to_label (edge_space c)) k))) \<and>
    (made \<longleftrightarrow> fmlookup (label_to_id (edge_space c)) l = None) \<and>
    (made \<longrightarrow> fmlookup (id_to_label (edge_space c)) j = None)"
proof -
  note ok = reach_catalog_ok [OF assms(1)]
  note n = reserve_node_label_ok [OF ok assms(2), of gen] and e = reserve_edge_label_ok [OF ok assms(3), of gen]
  from n obtain c1 where c1: "apply_node_label c l i gen = Inr c1" by blast
  from e obtain c2 where c2: "apply_edge_label c l j gen = Inr c2" by blast
  show ?thesis
    using n e c1 c2 apply_node_label_ok [OF ok c1] apply_edge_label_ok [OF ok c2]
      apply_node_label_reverse [OF ok c1] apply_edge_label_reverse [OF ok c2] by simp
qed

lemma valid_name_A: "validate_label_token_name [65] = Inr ()"
  by (simp add: validate_label_token_name_def chars_of_def trim_chars_def char_is_whitespace_def char_is_ascii_control_def)

theorem ensure_label_fresh_witness:
  "\<exists>c c'. from_manifest no_labels = Inr c \<and> reserve_node_label c [65] = Inr (1, True) \<and>
     apply_node_label c [65] 1 None = Inr c' \<and> fmlookup (label_to_id (node_space c')) [65] = Some 1"
proof -
  obtain c where c: "catalog_reach c" "from_manifest no_labels = Inr c" "label_to_id (node_space c) = fmempty"
    "next_label_id (node_space c) = 1" by (rule no_labels_reach)
  then have edge: "label_to_id (edge_space c) = fmempty" "next_label_id (edge_space c) = 1"
    using from_manifest_valid [OF no_labels_valid] by (auto simp: no_labels_def)
  have n: "reserve_node_label c [65] = Inr (1, True)" by (simp add: reserve_node_label_def reserve_label_def c valid_name_A)
  have e: "reserve_edge_label c [65] = Inr (1, True)" by (simp add: reserve_edge_label_def reserve_label_def edge valid_name_A)
  from ensure_label_fresh [OF c(1) n e, of None] c(2) n show ?thesis by force
qed

text \<open>
  C22. The catalog survives a restart: in an open database names and ids correspond one to one, the
  manifest written from the catalog is accepted by the validation at the next open, reading it back
  gives the same names, ids and next ids, and the snapshot handed to readers, dense or sparse,
  answers as the catalog does.
\<close>

theorem label_catalog_reopens:
  assumes "catalog_reach c"
  shows "(\<forall>l i. fmlookup (label_to_id (node_space c)) l = Some i \<longleftrightarrow> fmlookup (id_to_label (node_space c)) i = Some l) \<and>
    (\<forall>l i. fmlookup (label_to_id (edge_space c)) l = Some i \<longleftrightarrow> fmlookup (id_to_label (edge_space c)) i = Some l) \<and>
    validate_label_token_manifest (apply_to_manifest c m) = Inr () \<and>
    (\<exists>c'. from_manifest (apply_to_manifest c m) = Inr c' \<and>
      label_to_id (node_space c') = label_to_id (node_space c) \<and> id_to_label (node_space c') = id_to_label (node_space c) \<and>
      next_label_id (node_space c') = next_label_id (node_space c) \<and>
      label_to_id (edge_space c') = label_to_id (edge_space c) \<and> id_to_label (edge_space c') = id_to_label (edge_space c) \<and>
      next_label_id (edge_space c') = next_label_id (edge_space c)) \<and>
    (\<forall>i. lookup_get (from_runtime_map (id_to_label (node_space c))) i = fmlookup (id_to_label (node_space c)) i)"
proof -
  note ok = reach_catalog_ok [OF assms]
  note valid = apply_to_manifest_valid [OF ok, of m]
  from from_manifest_valid [OF valid] obtain c' where c': "from_manifest (apply_to_manifest c m) = Inr c'" "catalog_ok c'"
    "label_to_id (node_space c') = label_to_id (node_space c)" "next_label_id (node_space c') = next_label_id (node_space c)"
    "label_to_id (edge_space c') = label_to_id (edge_space c)" "next_label_id (edge_space c') = next_label_id (edge_space c)"
    by (auto simp: apply_to_manifest_def)
  have "id_to_label (node_space c') = id_to_label (node_space c)" "id_to_label (edge_space c') = id_to_label (edge_space c)"
    using c' ok by (auto intro!: tokens_ok_reverse simp: catalog_ok_def)
  with c' valid ok show ?thesis by (simp add: snapshot_lookup) (auto simp: catalog_ok_def tokens_ok_def)
qed

theorem label_catalog_reopens_witness:
  "\<exists>c. from_manifest no_labels = Inr c \<and> validate_label_token_manifest (apply_to_manifest c no_labels) = Inr ()"
proof -
  obtain c where c: "catalog_reach c" "from_manifest no_labels = Inr c" by (rule no_labels_reach)
  from label_catalog_reopens [OF c(1), of no_labels] c(2) show ?thesis by blast
qed

end
