(* ===== verification/Slots.thy ===== *)
theory Slots
  imports Prelude "HOL-Library.Finite_Map"
begin

text \<open>
  Versioned slots and maps of them, the multi-version layer of \<^verbatim>\<open>src/src/memtable.rs\<close>. A slot
  keeps its newest version and the older ones in push order; a read at a snapshot takes the newest
  version whose sequence number is not above it. Rust's hash and tree maps are finite maps.
  The contract \<open>mvcc_map\<close> says how a write shows in the reads at every snapshot, and is interpreted
  on the flat and nested maps the memtable uses; \<open>sized_mvcc_map\<close> adds the size accounting.
\<close>

section \<open>Slots\<close>

record 'a slot_version =
  sv_write_seq :: u64
  sv_value :: 'a

record 'a versioned_slot =
  vs_head :: "'a slot_version"
  vs_history :: "'a slot_version list option"

definition slot_new :: "u64 \<Rightarrow> 'a \<Rightarrow> 'a versioned_slot" where
  "slot_new write_seq value =
     \<lparr>vs_head = \<lparr>sv_write_seq = write_seq, sv_value = value\<rparr>, vs_history = None\<rparr>"

definition slot_replace :: "'a versioned_slot \<Rightarrow> u64 \<Rightarrow> 'a \<Rightarrow> 'a versioned_slot" where
  "slot_replace slot write_seq value =
     (if sv_write_seq (vs_head slot) = write_seq
      then slot\<lparr>vs_head := (vs_head slot)\<lparr>sv_value := value\<rparr>\<rparr>
      else \<lparr>vs_head = \<lparr>sv_write_seq = write_seq, sv_value = value\<rparr>,
            vs_history = Some (case_option [] id (vs_history slot) @ [vs_head slot])\<rparr>)"

definition slot_current :: "'a versioned_slot \<Rightarrow> 'a" where
  "slot_current slot = sv_value (vs_head slot)"

definition slot_at :: "'a versioned_slot \<Rightarrow> u64 \<Rightarrow> 'a option" where
  "slot_at slot snapshot_seq =
     (if sv_write_seq (vs_head slot) \<le> snapshot_seq then Some (sv_value (vs_head slot))
      else case vs_history slot of
        None \<Rightarrow> None
      | Some history \<Rightarrow>
          map_option sv_value (find (\<lambda>version. sv_write_seq version \<le> snapshot_seq) (rev history)))"

definition slot_option_current :: "'a option versioned_slot \<Rightarrow> 'a option" where
  "slot_option_current slot = slot_current slot"

definition slot_option_at :: "'a option versioned_slot \<Rightarrow> u64 \<Rightarrow> 'a option" where
  "slot_option_at slot snapshot_seq = Option.bind (slot_at slot snapshot_seq) id"

definition slot_option_visible :: "'a option versioned_slot \<Rightarrow> u64 \<Rightarrow> bool" where
  "slot_option_visible slot snapshot_seq =
     (case slot_at slot snapshot_seq of None \<Rightarrow> False | Some v \<Rightarrow> v \<noteq> None)"

definition estimate_slot :: "'a versioned_slot \<Rightarrow> ('a \<Rightarrow> nat) \<Rightarrow> nat" where
  "estimate_slot slot value_size =
     8 + value_size (sv_value (vs_head slot)) +
     (case vs_history slot of None \<Rightarrow> 0
      | Some history \<Rightarrow> sum_list (map (\<lambda>version. 8 + value_size (sv_value version)) history))"

definition U64_MAX :: u64 where
  "U64_MAX = 0xFFFFFFFFFFFFFFFF"

lemma le_U64_MAX [simp]: "w \<le> U64_MAX"
proof -
  have "U64_MAX = - 1" by (simp add: U64_MAX_def)
  then show ?thesis by (metis word_order.extremum)
qed

lemma slot_at_new [slot_simps]: "slot_at (slot_new w v) s = (if w \<le> s then Some v else None)"
  by (simp add: slot_at_def slot_new_def)

text \<open>
  A write is seen by exactly the snapshots at or after it; every earlier snapshot reads what it
  read before, in whatever order the sequence numbers come.
\<close>

lemma slot_at_replace [slot_simps]: "slot_at (slot_replace slot w v) s = (if w \<le> s then Some v else slot_at slot s)"
  by (auto simp: slot_at_def slot_replace_def split: option.splits)

lemma slot_at_max: "slot_at slot U64_MAX = Some (slot_current slot)"
  by (simp add: slot_at_def slot_current_def)

lemma slot_option_visible_at: "slot_option_visible slot s \<longleftrightarrow> slot_option_at slot s \<noteq> None"
  by (cases "slot_at slot s") (auto simp: slot_option_visible_def slot_option_at_def)

lemma slot_option_current_at: "slot_option_current slot = slot_option_at slot U64_MAX"
  by (simp add: slot_option_current_def slot_option_at_def slot_at_max)

section \<open>Maps of slots\<close>

text \<open>
  The shape every setter of the memtable has: replace in the slot that is there, or insert a new
  slot. For a map of maps the inner map is created by \<^verbatim>\<open>entry(..).or_default()\<close>.
\<close>

definition upsert_slot :: "'a versioned_slot option \<Rightarrow> u64 \<Rightarrow> 'a \<Rightarrow> 'a versioned_slot" where
  "upsert_slot s write_seq value = (case s of
     None \<Rightarrow> slot_new write_seq value
   | Some slot \<Rightarrow> slot_replace slot write_seq value)"

definition put_slot :: "('k, 'a versioned_slot) fmap \<Rightarrow> 'k \<Rightarrow> u64 \<Rightarrow> 'a \<Rightarrow> ('k, 'a versioned_slot) fmap" where
  "put_slot m k write_seq value = fmupd k (upsert_slot (fmlookup m k) write_seq value) m"

definition entry_or_default :: "('k, ('i, 'v) fmap) fmap \<Rightarrow> 'k \<Rightarrow> ('i, 'v) fmap" where
  "entry_or_default m k = (case fmlookup m k of None \<Rightarrow> fmempty | Some inner \<Rightarrow> inner)"

definition put_nested ::
    "('a, ('b, 'v versioned_slot) fmap) fmap \<Rightarrow> 'a \<times> 'b \<Rightarrow> u64 \<Rightarrow> 'v \<Rightarrow> ('a, ('b, 'v versioned_slot) fmap) fmap" where
  "put_nested m k write_seq value = fmupd (fst k) (put_slot (entry_or_default m (fst k)) (snd k) write_seq value) m"

definition put_nested3 ::
    "('a, ('b, ('c, 'v versioned_slot) fmap) fmap) fmap \<Rightarrow> 'a \<times> 'b \<times> 'c \<Rightarrow> u64 \<Rightarrow> 'v
       \<Rightarrow> ('a, ('b, ('c, 'v versioned_slot) fmap) fmap) fmap" where
  "put_nested3 m k write_seq value = fmupd (fst k) (put_nested (entry_or_default m (fst k)) (snd k) write_seq value) m"

definition put_sparse :: "('k, unit option versioned_slot) fmap \<Rightarrow> 'k \<Rightarrow> u64 \<Rightarrow> unit option \<Rightarrow> ('k, unit option versioned_slot) fmap" where
  "put_sparse m k write_seq value =
     (if fmlookup m k = None \<and> value = None then m else put_slot m k write_seq value)"

text \<open>Reads of a map at a snapshot, as functions of the key.\<close>

definition rec_at :: "('k, 'a versioned_slot) fmap \<Rightarrow> u64 \<Rightarrow> 'k \<Rightarrow> 'a option" where
  "rec_at m s k = Option.bind (fmlookup m k) (\<lambda>slot. slot_at slot s)"

definition opt_at :: "('k, 'a option versioned_slot) fmap \<Rightarrow> u64 \<Rightarrow> 'k \<Rightarrow> 'a option" where
  "opt_at m s k = Option.bind (fmlookup m k) (\<lambda>slot. slot_option_at slot s)"

definition nested_at :: "('a, ('b, 'v option versioned_slot) fmap) fmap \<Rightarrow> u64 \<Rightarrow> 'a \<times> 'b \<Rightarrow> 'v option" where
  "nested_at m s k = Option.bind (fmlookup m (fst k)) (\<lambda>inner. opt_at inner s (snd k))"

definition nested3_at ::
    "('a, ('b, ('c, 'v option versioned_slot) fmap) fmap) fmap \<Rightarrow> u64 \<Rightarrow> 'a \<times> 'b \<times> 'c \<Rightarrow> 'v option" where
  "nested3_at m s k = Option.bind (fmlookup m (fst k)) (\<lambda>inner. nested_at inner s (snd k))"

lemma upsert_slot_at:
  "slot_at (upsert_slot o' w v) s = (if w \<le> s then Some v else Option.bind o' (\<lambda>slot. slot_at slot s))"
  by (cases o') (simp_all add: upsert_slot_def slot_simps)

lemma upsert_slot_option_at:
  "slot_option_at (upsert_slot o' w v) s = (if w \<le> s then v else Option.bind o' (\<lambda>slot. slot_option_at slot s))"
  by (cases o') (simp_all add: slot_option_at_def upsert_slot_at)

lemma fmlookup_put_slot [simp]:
  "fmlookup (put_slot m k w v) = (fmlookup m)(k \<mapsto> upsert_slot (fmlookup m k) w v)"
  by (simp add: put_slot_def fun_eq_iff)

lemma rec_at_put: "rec_at (put_slot m k w v) s = (if w \<le> s then (rec_at m s)(k := Some v) else rec_at m s)"
  by (auto simp: rec_at_def upsert_slot_at fun_eq_iff)

lemma opt_at_put: "opt_at (put_slot m k w v) s = (if w \<le> s then (opt_at m s)(k := v) else opt_at m s)"
  by (auto simp: opt_at_def upsert_slot_option_at fun_eq_iff)

lemma opt_at_put_sparse: "opt_at (put_sparse m k w v) s = (if w \<le> s then (opt_at m s)(k := v) else opt_at m s)"
  by (auto simp: put_sparse_def opt_at_put) (auto simp: opt_at_def)

lemma opt_at_empty [simp]: "opt_at fmempty s = (\<lambda>_. None)"
  by (simp add: opt_at_def fun_eq_iff)

lemma nested_at_empty [simp]: "nested_at fmempty s = (\<lambda>_. None)"
  by (simp add: nested_at_def fun_eq_iff)

lemma nested3_at_empty [simp]: "nested3_at fmempty s = (\<lambda>_. None)"
  by (simp add: nested3_at_def fun_eq_iff)

lemma rec_at_empty [simp]: "rec_at fmempty s = (\<lambda>_. None)"
  by (simp add: rec_at_def fun_eq_iff)

lemma opt_at_entry: "opt_at (entry_or_default m a) s b = nested_at m s (a, b)"
  by (simp add: entry_or_default_def nested_at_def split: option.split)

lemma nested_at_entry: "nested_at (entry_or_default m a) s k = nested3_at m s (a, k)"
  by (simp add: entry_or_default_def nested3_at_def split: option.split)

lemma nested_at_put: "nested_at (put_nested m k w v) s = (if w \<le> s then (nested_at m s)(k := v) else nested_at m s)"
proof
  fix k'
  show "nested_at (put_nested m k w v) s k' = (if w \<le> s then (nested_at m s)(k := v) else nested_at m s) k'"
    by (cases k; cases k'; cases "fst k' = fst k")
      (auto simp: put_nested_def nested_at_def opt_at_put opt_at_entry [unfolded nested_at_def])
qed

lemma nested3_at_put:
  "nested3_at (put_nested3 m k w v) s = (if w \<le> s then (nested3_at m s)(k := v) else nested3_at m s)"
proof
  fix k'
  show "nested3_at (put_nested3 m k w v) s k' = (if w \<le> s then (nested3_at m s)(k := v) else nested3_at m s) k'"
    by (cases k; cases k'; cases "fst k' = fst k")
      (auto simp: put_nested3_def nested3_at_def nested_at_put nested_at_entry [unfolded nested3_at_def])
qed

section \<open>The contract of a multi-version map\<close>

text \<open>
  A write of \<open>v\<close> under \<open>k\<close> at \<open>w\<close> changes the read of \<open>k\<close> at the snapshots from \<open>w\<close> on and nothing
  else; \<open>ret\<close> is how a stored value reads.
\<close>

locale mvcc_map =
  fixes put :: "'m \<Rightarrow> 'k \<Rightarrow> u64 \<Rightarrow> 'v \<Rightarrow> 'm"
    and at :: "'m \<Rightarrow> u64 \<Rightarrow> 'k \<Rightarrow> 'r"
    and ret :: "'v \<Rightarrow> 'r"
  assumes at_put: "at (put m k w v) s = (if w \<le> s then (at m s)(k := ret v) else at m s)"
begin

lemma at_put_old: "s < w \<Longrightarrow> at (put m k w v) s = at m s"
  by (auto simp: at_put)

lemma at_put_new: "w \<le> s \<Longrightarrow> at (put m k w v) s = (at m s)(k := ret v)"
  by (simp add: at_put)

lemma at_fold:
  "at (fold (\<lambda>(k, v) m. put m k w v) kvs m) s =
     (if w \<le> s then fold (\<lambda>(k, v) f. f(k := ret v)) kvs (at m s) else at m s)"
  by (induction kvs arbitrary: m) (auto simp: at_put)

end

interpretation records: mvcc_map put_slot rec_at Some
  by unfold_locales (rule rec_at_put)

interpretation options: mvcc_map put_slot opt_at "\<lambda>v. v"
  by unfold_locales (rule opt_at_put)

interpretation sparse: mvcc_map put_sparse opt_at "\<lambda>v. v"
  by unfold_locales (rule opt_at_put_sparse)

interpretation nested: mvcc_map put_nested nested_at "\<lambda>v. v"
  by unfold_locales (rule nested_at_put)

interpretation nested3: mvcc_map put_nested3 nested3_at "\<lambda>v. v"
  by unfold_locales (rule nested3_at_put)

section \<open>Size accounting\<close>

text \<open>\<^verbatim>\<open>map.iter().map(f).sum()\<close>: the sum of a size over the entries of a map.\<close>

definition msize :: "('k \<Rightarrow> 'v \<Rightarrow> nat) \<Rightarrow> ('k, 'v) fmap \<Rightarrow> nat" where
  "msize f m = (\<Sum>k \<in> fset (fmdom m). f k (the (fmlookup m k)))"

definition entry_size :: "('k \<Rightarrow> 'v \<Rightarrow> nat) \<Rightarrow> ('k, 'v) fmap \<Rightarrow> 'k \<Rightarrow> nat" where
  "entry_size f m k = (case fmlookup m k of None \<Rightarrow> 0 | Some v \<Rightarrow> f k v)"

lemma msize_empty [simp]: "msize f fmempty = 0"
  by (simp add: msize_def)

lemma fset_fmdom: "k \<in> fset (fmdom m) \<longleftrightarrow> fmlookup m k \<noteq> None"
  by (auto simp: fmlookup_dom_iff)

lemma msize_split: "msize f m = entry_size f m k + (\<Sum>k' \<in> fset (fmdom m) - {k}. f k' (the (fmlookup m k')))"
proof (cases "k \<in> fset (fmdom m)")
  case True
  then show ?thesis
    by (auto simp: msize_def entry_size_def fset_fmdom sum.remove [OF _ True] split: option.split)
next
  case False
  then show ?thesis by (simp add: msize_def entry_size_def fset_fmdom)
qed

lemma msize_upd: "msize f (fmupd k v m) + entry_size f m k = msize f m + f k v"
proof -
  have "msize f (fmupd k v m) = f k v + (\<Sum>k' \<in> fset (fmdom m) - {k}. f k' (the (fmlookup m k')))"
    by (subst msize_split [of _ _ k]) (simp add: entry_size_def, rule sum.cong, auto)
  then show ?thesis by (subst (2) msize_split [of _ _ k]) simp
qed

lemma msize_drop: "msize f (fmdrop k m) + entry_size f m k = msize f m"
proof -
  have "msize f (fmdrop k m) = (\<Sum>k' \<in> fset (fmdom m) - {k}. f k' (the (fmlookup m k')))"
    by (auto simp: msize_def intro!: sum.cong)
  then show ?thesis by (subst (2) msize_split [of _ _ k]) simp
qed

lemma entry_size_upd [simp]: "entry_size f (fmupd k v m) k' = (if k' = k then f k v else entry_size f m k')"
  by (simp add: entry_size_def)

text \<open>
  A multi-version map with an estimate per entry and a total: a write moves the total by the
  difference of the estimates of the entry before and after it.
\<close>

locale sized_mvcc_map = mvcc_map put at ret
  for put :: "'m \<Rightarrow> 'k \<Rightarrow> u64 \<Rightarrow> 'v \<Rightarrow> 'm" and at :: "'m \<Rightarrow> u64 \<Rightarrow> 'k \<Rightarrow> 'r" and ret :: "'v \<Rightarrow> 'r" +
  fixes est :: "'m \<Rightarrow> 'k \<Rightarrow> nat" and total :: "'m \<Rightarrow> nat"
  assumes total_put: "total (put m k w v) + est m k = total m + est (put m k w v) k"
    and est_le_total: "est m k \<le> total m"
begin

text \<open>Adjusting a running sum by the difference keeps it equal to the total plus the rest.\<close>

lemma running_total:
  assumes "bytes = total m + rest"
  shows "(if est (put m k w v) k \<ge> est m k then bytes + (est (put m k w v) k - est m k)
      else bytes - (est m k - est (put m k w v) k)) = total (put m k w v) + rest"
  using assms total_put [of m k w v] est_le_total [of m k] by auto

end

end
