(* ===== verification/Numeric_Keys.thy ===== *)
theory Numeric_Keys
  imports Complex_Main Graph_Types
begin

text \<open>
  Numeric semantics of property values, \<^verbatim>\<open>src/src/property_value_semantics.rs\<close>: integers of both
  signs and floats are compared, hashed and range-indexed through one exact scalar key
  (sign, odd significand, exponent), which has a 24-byte form whose byte order is the numeric
  order. \<open>prop_number\<close> is the specification: the real number a value stands for.
  Exponents are integers; \<open>key_wf\<close> bounds them within \<^verbatim>\<open>i32\<close>.
\<close>

section \<open>Bit counting\<close>

fun bits_len :: "nat \<Rightarrow> nat" where
  "bits_len n = (if n = 0 then 0 else Suc (bits_len (n div 2)))"

fun ctz :: "nat \<Rightarrow> nat" where
  "ctz n = (if n = 0 \<or> odd n then 0 else Suc (ctz (n div 2)))"

declare bits_len.simps [simp del] ctz.simps [simp del]

definition leading_zeros :: "'a::len word \<Rightarrow> nat" where
  "leading_zeros w = LENGTH('a) - bits_len (unat w)"

definition trailing_zeros :: "'a::len word \<Rightarrow> nat" where
  "trailing_zeros w = (if w = 0 then LENGTH('a) else ctz (unat w))"

section \<open>Scalar keys\<close>

datatype ordering = Less | Equal | Greater

definition cmp :: "'a::linorder \<Rightarrow> 'a \<Rightarrow> ordering" where
  "cmp a b = (if a < b then Less else if a = b then Equal else Greater)"

datatype numeric_sign = Negative | Zero | Positive

record numeric_scalar_key =
  nk_sign :: numeric_sign
  nk_exponent :: int
  nk_significand :: u128

definition nk_zero :: numeric_scalar_key where
  "nk_zero = \<lparr>nk_sign = Zero, nk_exponent = 0, nk_significand = 0\<rparr>"

definition nk_nonzero :: "numeric_sign \<Rightarrow> u128 \<Rightarrow> int \<Rightarrow> numeric_scalar_key" where
  "nk_nonzero sign significand exponent =
     (let trailing = trailing_zeros significand in
      \<lparr>nk_sign = sign, nk_exponent = exponent + int trailing,
       nk_significand = drop_bit trailing significand\<rparr>)"

definition bit_length :: "numeric_scalar_key \<Rightarrow> nat" where
  "bit_length k = 128 - leading_zeros (nk_significand k)"

definition magnitude_rank :: "numeric_scalar_key \<Rightarrow> int" where
  "magnitude_rank k = nk_exponent k + int (bit_length k) - 1"

definition normalized_fraction :: "numeric_scalar_key \<Rightarrow> u128" where
  "normalized_fraction k = push_bit (128 - bit_length k) (nk_significand k)"

definition numeric_key_from_i64 :: "i64 \<Rightarrow> numeric_scalar_key" where
  "numeric_key_from_i64 v =
     (if v = 0 then nk_zero
      else nk_nonzero (if sint v < 0 then Negative else Positive)
        (ucast (word_of_int \<bar>sint v\<bar> :: u64)) 0)"

definition numeric_key_from_u64 :: "u64 \<Rightarrow> numeric_scalar_key" where
  "numeric_key_from_u64 v = (if v = 0 then nk_zero else nk_nonzero Positive (ucast v) 0)"

text \<open>The IEEE-754 fields of a double and the predicates Rust derives from them.\<close>

definition f64_exp_bits :: "f64 \<Rightarrow> u64" where
  "f64_exp_bits bits = drop_bit 52 bits AND 0x7ff"

definition f64_fraction :: "f64 \<Rightarrow> u64" where
  "f64_fraction bits = bits AND (push_bit 52 1 - 1)"

definition f64_is_finite :: "f64 \<Rightarrow> bool" where
  "f64_is_finite bits \<longleftrightarrow> f64_exp_bits bits \<noteq> 0x7ff"

definition f64_is_nan :: "f64 \<Rightarrow> bool" where
  "f64_is_nan bits \<longleftrightarrow> f64_exp_bits bits = 0x7ff \<and> f64_fraction bits \<noteq> 0"

definition f64_is_zero :: "f64 \<Rightarrow> bool" where
  "f64_is_zero bits \<longleftrightarrow> f64_exp_bits bits = 0 \<and> f64_fraction bits = 0"

definition numeric_key_from_f64 :: "f64 \<Rightarrow> numeric_scalar_key option" where
  "numeric_key_from_f64 bits =
     (if \<not> f64_is_finite bits then None
      else if f64_is_zero bits then Some nk_zero
      else
        let sign = (if drop_bit 63 bits = 0 then Positive else Negative);
            exp_bits = uint (f64_exp_bits bits);
            fraction = f64_fraction bits;
            (significand, exponent) =
              (if exp_bits = 0 then (ucast fraction :: u128, 1 - 1023 - 52)
               else (ucast (push_bit 52 1 OR fraction), exp_bits - 1023 - 52))
        in if significand = 0 then Some nk_zero else Some (nk_nonzero sign significand exponent))"

definition numeric_key :: "prop_value \<Rightarrow> numeric_scalar_key option" where
  "numeric_key value = (case value of
     SInt v \<Rightarrow> Some (numeric_key_from_i64 v)
   | UInt v \<Rightarrow> Some (numeric_key_from_u64 v)
   | Float v \<Rightarrow> numeric_key_from_f64 v
   | _ \<Rightarrow> None)"

definition compare_magnitudes :: "numeric_scalar_key \<Rightarrow> numeric_scalar_key \<Rightarrow> ordering" where
  "compare_magnitudes left right = (case cmp (magnitude_rank left) (magnitude_rank right) of
     Equal \<Rightarrow> cmp (normalized_fraction left) (normalized_fraction right)
   | ord \<Rightarrow> ord)"

definition compare_numeric_keys :: "numeric_scalar_key \<Rightarrow> numeric_scalar_key \<Rightarrow> ordering" where
  "compare_numeric_keys left right = (case (nk_sign left, nk_sign right) of
     (Negative, Negative) \<Rightarrow> compare_magnitudes right left
   | (Zero, Zero) \<Rightarrow> Equal
   | (Positive, Positive) \<Rightarrow> compare_magnitudes left right
   | (Negative, _) \<Rightarrow> Less
   | (_, Negative) \<Rightarrow> Greater
   | (Zero, Positive) \<Rightarrow> Less
   | (Positive, Zero) \<Rightarrow> Greater)"

definition compare_numeric_prop_values :: "prop_value \<Rightarrow> prop_value \<Rightarrow> ordering option" where
  "compare_numeric_prop_values left right = (case (numeric_key left, numeric_key right) of
     (Some l, Some r) \<Rightarrow> Some (compare_numeric_keys l r)
   | _ \<Rightarrow> None)"

section \<open>Equality and hashing\<close>

lemma zip_fst_smaller [termination_simp]:
  "(a, b) \<in> set (zip l r) \<Longrightarrow> size a < Suc (size_list size (l :: prop_value list))"
  by (drule set_zip_leftD) (simp add: less_Suc_eq_le size_list_estimation')

fun raw_structural_property_eq :: "prop_value \<Rightarrow> prop_value \<Rightarrow> bool" where
  "raw_structural_property_eq Null Null = True"
| "raw_structural_property_eq (Bool l) (Bool r) = (l = r)"
| "raw_structural_property_eq (SInt l) (SInt r) = (l = r)"
| "raw_structural_property_eq (UInt l) (UInt r) = (l = r)"
| "raw_structural_property_eq (Float l) (Float r) = (\<not> f64_is_nan l \<and> \<not> f64_is_nan r \<and> l = r)"
| "raw_structural_property_eq (String l) (String r) = (l = r)"
| "raw_structural_property_eq (Bytes l) (Bytes r) = (l = r)"
| "raw_structural_property_eq (Array l) (Array r) =
     (length l = length r \<and> (\<forall>x \<in> set (zip l r). raw_structural_property_eq (fst x) (snd x)))"
| "raw_structural_property_eq (Map l) (Map r) =
     (length l = length r \<and>
      (\<forall>x \<in> set l. case map_of r (fst x) of
         None \<Rightarrow> False | Some v \<Rightarrow> raw_structural_property_eq (snd x) v))"
| "raw_structural_property_eq _ _ = False"

definition semantic_property_eq :: "prop_value \<Rightarrow> prop_value \<Rightarrow> bool" where
  "semantic_property_eq left right = (case (numeric_key left, numeric_key right) of
     (Some l, Some r) \<Rightarrow> l = r
   | _ \<Rightarrow> raw_structural_property_eq left right)"

definition push_numeric_key_bytes :: "bytes \<Rightarrow> numeric_scalar_key \<Rightarrow> bytes" where
  "push_numeric_key_bytes target key =
     target @ [case nk_sign key of Negative \<Rightarrow> 0 | Zero \<Rightarrow> 1 | Positive \<Rightarrow> 2]
       @ to_be_bytes (word_of_int (nk_exponent key) :: i32) @ to_be_bytes (nk_significand key)"

text \<open>\<^verbatim>\<open>rmp_serde::to_vec\<close> on a single value is the parameter \<open>pv_to_vec\<close>.\<close>

definition semantic_equality_key_bytes :: "(prop_value \<Rightarrow> bytes) \<Rightarrow> prop_value \<Rightarrow> bytes" where
  "semantic_equality_key_bytes pv_to_vec value = (case numeric_key value of
     Some key \<Rightarrow> push_numeric_key_bytes [1] key
   | None \<Rightarrow> [2] @ pv_to_vec value)"

definition hash_semantic_equality_key_bytes :: "bytes \<Rightarrow> u64" where
  "hash_semantic_equality_key_bytes bs = fnv1a bs"

definition hash_prop_equality_key :: "(prop_value \<Rightarrow> bytes) \<Rightarrow> prop_value \<Rightarrow> u64" where
  "hash_prop_equality_key pv_to_vec value =
     hash_semantic_equality_key_bytes (semantic_equality_key_bytes pv_to_vec value)"

fun prop_value_contains_float_zero :: "prop_value \<Rightarrow> bool" where
  "prop_value_contains_float_zero (Float v) = f64_is_zero v"
| "prop_value_contains_float_zero (Array vs) = (\<exists>v \<in> set vs. prop_value_contains_float_zero v)"
| "prop_value_contains_float_zero (Map kvs) = (\<exists>kv \<in> set kvs. prop_value_contains_float_zero (snd kv))"
| "prop_value_contains_float_zero _ = False"

definition structural_value_contains_float_zero :: "prop_value \<Rightarrow> bool" where
  "structural_value_contains_float_zero value = (case value of
     Array vs \<Rightarrow> list_ex prop_value_contains_float_zero vs
   | Map kvs \<Rightarrow> list_ex (\<lambda>kv. prop_value_contains_float_zero (snd kv)) kvs
   | _ \<Rightarrow> False)"

section \<open>Sort keys and their validation\<close>

definition NUMERIC_RANGE_KEY_BYTES :: nat where
  "NUMERIC_RANGE_KEY_BYTES = 24"

definition numeric_range_sort_key :: "numeric_scalar_key \<Rightarrow> bytes" where
  "numeric_range_sort_key key = (case nk_sign key of
     Zero \<Rightarrow> [1] @ replicate 23 0
   | sign \<Rightarrow>
      (let rank = magnitude_rank key;
           fraction = normalized_fraction key;
           rank_bits = (word_of_int rank :: u32) XOR 0x80000000;
           negative = (sign = Negative);
           rank_bits = (if negative then NOT rank_bits else rank_bits);
           fraction_bits = (if negative then NOT fraction else fraction)
       in [if negative then 0 else 2] @ to_be_bytes rank_bits @ to_be_bytes fraction_bits @ [0, 0, 0]))"

definition numeric_range_sort_key_for_value :: "prop_value \<Rightarrow> bytes option" where
  "numeric_range_sort_key_for_value value = map_option numeric_range_sort_key (numeric_key value)"

definition slice :: "nat \<Rightarrow> nat \<Rightarrow> 'a list \<Rightarrow> 'a list" where
  "slice a b xs = take (b - a) (drop a xs)"

definition decode_nonzero_numeric_range_sidecar_key ::
    "bytes \<Rightarrow> engine_error + (numeric_scalar_key \<times> int \<times> nat)" where
  "decode_nonzero_numeric_range_sidecar_key bs =
     (let sign = (if bs ! 0 = 0 then Negative else Positive);
          encoded_rank = (from_be_bytes (slice 1 5 bs) :: u32);
          encoded_fraction = (from_be_bytes (slice 5 21 bs) :: u128);
          rank_bits = (if sign = Negative then NOT encoded_rank else encoded_rank);
          fraction = (if sign = Negative then NOT encoded_fraction else encoded_fraction)
      in if fraction = 0 then
           Inl (CorruptRecord ''numeric range sidecar key has zero nonzero-fraction payload'')
         else if leading_zeros fraction \<noteq> 0 then
           Inl (CorruptRecord ''numeric range sidecar key normalized fraction must set the top bit'')
         else
           let rank = sint (rank_bits XOR 0x80000000);
               bl = 128 - trailing_zeros fraction;
               significand = drop_bit (128 - bl) fraction;
               rank_offset = int bl - 1;
               exponent = rank - rank_offset
           in if exponent < - (2 ^ 31) then
                Inl (CorruptRecord ''numeric range sidecar key exponent overflow'')
              else Inr (\<lparr>nk_sign = sign, nk_exponent = exponent, nk_significand = significand\<rparr>, rank, bl))"

definition numeric_scalar_key_is_emittable :: "numeric_scalar_key \<Rightarrow> int \<Rightarrow> nat \<Rightarrow> bool" where
  "numeric_scalar_key_is_emittable key rank bl \<longleftrightarrow>
     \<not> (nk_significand key = 0 \<or> nk_significand key AND 1 = 0) \<and>
     ((nk_exponent key \<ge> - 1074 \<and> bl \<le> 53 \<and> rank \<le> 1023) \<or>
      nk_exponent key \<ge> 0 \<and>
      (case nk_sign key of
         Positive \<Rightarrow> rank \<le> 63
       | Negative \<Rightarrow> rank < 63 \<or> (rank = 63 \<and> nk_significand key = 1 \<and> nk_exponent key = 63)
       | Zero \<Rightarrow> False))"

definition validate_numeric_range_sidecar_key :: "bytes \<Rightarrow> engine_error + unit" where
  "validate_numeric_range_sidecar_key bs =
     (if bs ! 0 = 0 \<or> bs ! 0 = 2 then
        if list_ex (\<lambda>b. b \<noteq> 0) (slice 21 24 bs) then
          Inl (CorruptRecord ''numeric range sidecar key reserved bytes must be zero'')
        else r_bind (decode_nonzero_numeric_range_sidecar_key bs) (\<lambda>(key, rank, bl).
          if \<not> numeric_scalar_key_is_emittable key rank bl then
            Inl (CorruptRecord ''numeric range sidecar key is not a canonical finite numeric key'')
          else if numeric_range_sort_key key \<noteq> bs then
            Inl (CorruptRecord ''numeric range sidecar key does not round-trip through canonical encoding'')
          else Inr ())
      else if bs ! 0 = 1 then
        if list_ex (\<lambda>b. b \<noteq> 0) (slice 1 24 bs) then
          Inl (CorruptRecord ''numeric range sidecar zero key must have zero payload'')
        else Inr ()
      else Inl (CorruptRecord ''numeric range sidecar key has invalid class''))"

definition from_sidecar_bytes :: "bytes \<Rightarrow> engine_error + bytes" where
  "from_sidecar_bytes bs = r_bind (validate_numeric_range_sidecar_key bs) (\<lambda>_. Inr bs)"

section \<open>Ranges\<close>

datatype property_range_bound = Included prop_value | Excluded prop_value

fun bound_value :: "property_range_bound \<Rightarrow> prop_value" where
  "bound_value (Included v) = v"
| "bound_value (Excluded v) = v"

fun is_inclusive :: "property_range_bound \<Rightarrow> bool" where
  "is_inclusive (Included _) = True"
| "is_inclusive (Excluded _) = False"

record property_range_cursor =
  prc_value :: prop_value
  prc_node_id :: u64

record numeric_range_bound_key =
  rb_key :: numeric_scalar_key
  rb_inclusive :: bool

record validated_numeric_range =
  vr_lower :: "numeric_range_bound_key option"
  vr_upper :: "numeric_range_bound_key option"
  vr_is_empty :: bool

definition validate_numeric_range_value :: "prop_value \<Rightarrow> engine_error + numeric_scalar_key" where
  "validate_numeric_range_value value = (case value of
     Float v \<Rightarrow>
       if \<not> f64_is_finite v then
         Inl (InvalidOperation ''non-finite float is not valid for numeric range bounds'')
       else (case numeric_key value of
          None \<Rightarrow> Inl (InvalidOperation ''must be a finite numeric scalar'') | Some k \<Rightarrow> Inr k)
   | SInt _ \<Rightarrow> (case numeric_key value of
          None \<Rightarrow> Inl (InvalidOperation ''must be a finite numeric scalar'') | Some k \<Rightarrow> Inr k)
   | UInt _ \<Rightarrow> (case numeric_key value of
          None \<Rightarrow> Inl (InvalidOperation ''must be a finite numeric scalar'') | Some k \<Rightarrow> Inr k)
   | _ \<Rightarrow> Inl (InvalidOperation ''range bound must be a finite numeric scalar''))"

definition validate_bound :: "property_range_bound \<Rightarrow> engine_error + numeric_range_bound_key" where
  "validate_bound bound = r_bind (validate_numeric_range_value (bound_value bound)) (\<lambda>key.
     Inr \<lparr>rb_key = key, rb_inclusive = is_inclusive bound\<rparr>)"

definition transpose_opt :: "('e + 'a) option \<Rightarrow> 'e + 'a option" where
  "transpose_opt x = (case x of None \<Rightarrow> Inr None | Some m \<Rightarrow> r_bind m (\<lambda>a. Inr (Some a)))"

definition range_bounds_are_empty :: "numeric_range_bound_key \<Rightarrow> numeric_range_bound_key \<Rightarrow> bool" where
  "range_bounds_are_empty lower upper = (case compare_numeric_keys (rb_key lower) (rb_key upper) of
     Greater \<Rightarrow> True
   | Equal \<Rightarrow> \<not> (rb_inclusive lower \<and> rb_inclusive upper)
   | Less \<Rightarrow> False)"

definition bounds_empty :: "numeric_range_bound_key option \<Rightarrow> numeric_range_bound_key option \<Rightarrow> bool" where
  "bounds_empty lower upper = (case (lower, upper) of
     (Some l, Some u) \<Rightarrow> range_bounds_are_empty l u | _ \<Rightarrow> False)"

definition validate_numeric_range_bounds ::
    "property_range_bound option \<Rightarrow> property_range_bound option \<Rightarrow> property_range_cursor option
       \<Rightarrow> engine_error + validated_numeric_range" where
  "validate_numeric_range_bounds lower upper cursor =
     (if lower = None \<and> upper = None then
        Inl (InvalidOperation ''range query requires at least one finite numeric bound'')
      else r_bind (transpose_opt (map_option validate_bound lower)) (\<lambda>lower.
           r_bind (transpose_opt (map_option validate_bound upper)) (\<lambda>upper.
           r_bind (case cursor of None \<Rightarrow> Inr () | Some c \<Rightarrow>
                     r_bind (validate_numeric_range_value (prc_value c)) (\<lambda>_. Inr ())) (\<lambda>_.
           Inr \<lparr>vr_lower = lower, vr_upper = upper, vr_is_empty = bounds_empty lower upper\<rparr>))))"

definition numeric_range_value_within_bounds ::
    "prop_value \<Rightarrow> property_range_bound option \<Rightarrow> property_range_bound option \<Rightarrow> bool option" where
  "numeric_range_value_within_bounds value lower upper = (case numeric_key value of
     None \<Rightarrow> None
   | Some value_key \<Rightarrow>
      (let check_upper = (case upper of
             None \<Rightarrow> Some True
           | Some u \<Rightarrow> (case numeric_key (bound_value u) of
               None \<Rightarrow> None
             | Some upper_key \<Rightarrow>
                (let ord = compare_numeric_keys value_key upper_key in
                 Some (if is_inclusive u then ord \<noteq> Greater else ord = Less))))
       in case lower of
            None \<Rightarrow> check_upper
          | Some l \<Rightarrow> (case numeric_key (bound_value l) of
              None \<Rightarrow> None
            | Some lower_key \<Rightarrow>
               (let ord = compare_numeric_keys value_key lower_key in
                if (if is_inclusive l then ord \<noteq> Less else ord = Greater) then check_upper
                else Some False))))"

definition numeric_key_within_validated_range :: "numeric_scalar_key \<Rightarrow> validated_numeric_range \<Rightarrow> bool" where
  "numeric_key_within_validated_range value rng =
     (if vr_is_empty rng then False
      else
        (case vr_lower rng of None \<Rightarrow> True | Some lower \<Rightarrow>
           (let ord = compare_numeric_keys value (rb_key lower) in
            \<not> (if rb_inclusive lower then ord = Less else ord \<noteq> Greater))) \<and>
        (case vr_upper rng of None \<Rightarrow> True | Some upper \<Rightarrow>
           (let ord = compare_numeric_keys value (rb_key upper) in
            \<not> (if rb_inclusive upper then ord = Greater else ord \<noteq> Less))))"

definition prop_value_within_validated_range :: "prop_value \<Rightarrow> validated_numeric_range \<Rightarrow> bool" where
  "prop_value_within_validated_range value rng = (case numeric_key value of
     None \<Rightarrow> False | Some key \<Rightarrow> numeric_key_within_validated_range key rng)"

definition max_lower_bound ::
    "numeric_range_bound_key option \<Rightarrow> numeric_range_bound_key option \<Rightarrow> numeric_range_bound_key option" where
  "max_lower_bound left right = (case (left, right) of
     (Some l, Some r) \<Rightarrow>
       (case compare_numeric_keys (rb_key l) (rb_key r) of
          Less \<Rightarrow> Some r
        | Greater \<Rightarrow> Some l
        | Equal \<Rightarrow> Some \<lparr>rb_key = rb_key l, rb_inclusive = rb_inclusive l \<and> rb_inclusive r\<rparr>)
   | (Some b, None) \<Rightarrow> Some b
   | (None, Some b) \<Rightarrow> Some b
   | (None, None) \<Rightarrow> None)"

definition min_upper_bound ::
    "numeric_range_bound_key option \<Rightarrow> numeric_range_bound_key option \<Rightarrow> numeric_range_bound_key option" where
  "min_upper_bound left right = (case (left, right) of
     (Some l, Some r) \<Rightarrow>
       (case compare_numeric_keys (rb_key l) (rb_key r) of
          Less \<Rightarrow> Some l
        | Greater \<Rightarrow> Some r
        | Equal \<Rightarrow> Some \<lparr>rb_key = rb_key l, rb_inclusive = rb_inclusive l \<and> rb_inclusive r\<rparr>)
   | (Some b, None) \<Rightarrow> Some b
   | (None, Some b) \<Rightarrow> Some b
   | (None, None) \<Rightarrow> None)"

definition intersect_validated_numeric_ranges ::
    "validated_numeric_range \<Rightarrow> validated_numeric_range \<Rightarrow> validated_numeric_range" where
  "intersect_validated_numeric_ranges left right =
     (let lower = max_lower_bound (vr_lower left) (vr_lower right);
          upper = min_upper_bound (vr_upper left) (vr_upper right)
      in \<lparr>vr_lower = lower, vr_upper = upper,
          vr_is_empty = vr_is_empty left \<or> vr_is_empty right \<or> bounds_empty lower upper\<rparr>)"

end
