(* ===== verification/Numeric_Order.thy ===== *)
theory Numeric_Order
  imports Numeric_Keys
begin

text \<open>
  The meaning of the scalar keys of \<open>Numeric_Keys\<close>: the real number a key stands for, that every
  numeric value has the key of its exact number, and that the comparison of keys and the byte
  order of their 24-byte forms are the order of the reals.
\<close>

section \<open>Bit counts\<close>

declare of_nat_unat [simp del] of_int_sint [simp del]

lemma bits_len_0 [simp]: "bits_len 0 = 0"
  by (simp add: bits_len.simps)

lemma less_two_pow_bits_len: "n < 2 ^ bits_len n"
proof (induction n rule: bits_len.induct)
  case (1 n)
  then show ?case by (cases "n = 0") (auto simp: bits_len.simps [of n])
qed

lemma two_pow_bits_len_le: "n \<noteq> 0 \<Longrightarrow> 2 ^ bits_len n \<le> 2 * n"
proof (induction n rule: bits_len.induct)
  case (1 n)
  show ?case
  proof (cases "n div 2 = 0")
    case True
    with 1(2) have "n = 1" by simp
    then show ?thesis by (simp add: bits_len.simps)
  next
    case False
    with 1 show ?thesis by (simp add: bits_len.simps [of n])
  qed
qed

lemma bits_len_pos: "n \<noteq> 0 \<Longrightarrow> 0 < bits_len n"
  by (simp add: bits_len.simps [of n])

lemma bits_len_le: "n < 2 ^ k \<Longrightarrow> bits_len n \<le> k"
proof (rule ccontr)
  assume "n < 2 ^ k" and "\<not> bits_len n \<le> k"
  then have "2 ^ Suc k \<le> (2::nat) ^ bits_len n" by (intro power_increasing) auto
  also have "\<dots> \<le> 2 * n" using two_pow_bits_len_le [of n] \<open>\<not> bits_len n \<le> k\<close> by (cases "n = 0") auto
  finally show False using \<open>n < 2 ^ k\<close> by simp
qed

lemma bits_len_ge: "2 ^ k \<le> n \<Longrightarrow> Suc k \<le> bits_len n"
proof -
  assume "2 ^ k \<le> n"
  then have "(2::nat) ^ k < 2 ^ bits_len n" using less_two_pow_bits_len [of n] by linarith
  then show ?thesis by (simp add: Suc_le_eq)
qed

lemma bits_len_eqI: "2 ^ k \<le> n \<Longrightarrow> n < 2 ^ Suc k \<Longrightarrow> bits_len n = Suc k"
  using bits_len_le bits_len_ge le_antisym by blast

lemma bits_len_mult: "n \<noteq> 0 \<Longrightarrow> bits_len (n * 2 ^ k) = bits_len n + k"
proof -
  assume n: "n \<noteq> 0"
  obtain j where j: "bits_len n = Suc j" using bits_len_pos [OF n] by (cases "bits_len n") auto
  have "2 ^ j \<le> n" using two_pow_bits_len_le [OF n] j by simp
  moreover have "n < 2 ^ Suc j" using less_two_pow_bits_len [of n] j by simp
  ultimately have "2 ^ (j + k) \<le> n * 2 ^ k" "n * 2 ^ k < 2 ^ Suc (j + k)"
    by (simp_all add: power_add)
  then show ?thesis using j bits_len_eqI by fastforce
qed

lemma ctz_odd_part: "n \<noteq> 0 \<Longrightarrow> \<exists>m. odd m \<and> n = m * 2 ^ ctz n"
proof (induction n rule: ctz.induct)
  case (1 n)
  show ?case
  proof (cases "odd n")
    case True
    then show ?thesis by (auto simp: ctz.simps [of n])
  next
    case False
    then have "n div 2 \<noteq> 0" using 1(2) by auto
    with 1 False obtain m where "odd m" "n div 2 = m * 2 ^ ctz (n div 2)" by auto
    then have "n = m * 2 ^ Suc (ctz (n div 2))" using False by (auto elim!: evenE)
    with \<open>odd m\<close> False 1(2) show ?thesis by (auto simp: ctz.simps [of n])
  qed
qed

lemma ctz_mult: "odd m \<Longrightarrow> ctz (m * 2 ^ k) = k"
proof (induction k)
  case 0
  then show ?case by (simp add: ctz.simps)
next
  case (Suc k)
  then have "m * 2 ^ Suc k div 2 = m * 2 ^ k" "m * 2 ^ Suc k \<noteq> 0" "even (m * 2 ^ Suc k)"
    by (auto dest: odd_pos)
  then show ?case using Suc by (subst ctz.simps) simp
qed

lemma unat_less_pow: "unat (w :: 'a::len word) < 2 ^ LENGTH('a)"
  by (rule unsigned_less)

lemma unat_drop_bit: "unat (drop_bit k (w :: 'a::len word)) = unat w div 2 ^ k"
  by (rule trans [OF unsigned_drop_bit_eq]) (simp add: drop_bit_eq_div take_bit_nat_eq_self unat_less_pow)

lemma unat_push_bit: "unat (w :: 'a::len word) * 2 ^ k < 2 ^ LENGTH('a) \<Longrightarrow> unat (push_bit k w) = unat w * 2 ^ k"
  by (rule trans [OF unsigned_push_bit_eq]) (simp add: push_bit_eq_mult take_bit_nat_eq_self)

lemma unat_ucast_up: "LENGTH('a::len) \<le> LENGTH('b::len) \<Longrightarrow> unat (ucast (w :: 'a word) :: 'b word) = unat w"
  using order_less_le_trans [OF unat_less_pow [of w], of "2 ^ LENGTH('b)"]
  by (simp add: unsigned_ucast_eq take_bit_nat_eq_self)

lemma word_nonzero_iff: "(w :: 'a::len word) \<noteq> 0 \<longleftrightarrow> unat w \<noteq> 0"
  by (metis unsigned_0 unsigned_word_eqI)

lemma bits_len_unat_le: "bits_len (unat (w :: 'a::len word)) \<le> LENGTH('a)"
  by (rule bits_len_le) (rule unat_less_pow)

section \<open>The number a key stands for\<close>

definition key_mag :: "numeric_scalar_key \<Rightarrow> real" where
  "key_mag k = real (unat (nk_significand k)) * 2 powi nk_exponent k"

definition key_val :: "numeric_scalar_key \<Rightarrow> real" where
  "key_val k = (case nk_sign k of Negative \<Rightarrow> - key_mag k | Zero \<Rightarrow> 0 | Positive \<Rightarrow> key_mag k)"

text \<open>Keys are canonical: zero has one key, and the significand of another key is odd.\<close>

definition key_wf :: "numeric_scalar_key \<Rightarrow> bool" where
  "key_wf k \<longleftrightarrow> (if nk_sign k = Zero then k = nk_zero else
     odd (unat (nk_significand k)) \<and> - 1074 \<le> nk_exponent k \<and> nk_exponent k \<le> 1023)"

lemma bit_length_bits_len [simp]: "bit_length k = bits_len (unat (nk_significand k))"
  using bits_len_unat_le [of "nk_significand k"] by (simp add: bit_length_def leading_zeros_def)

lemma powi_less_powi: "(2::real) powi a < 2 powi b \<longleftrightarrow> a < b"
  using power_int_strict_increasing [of a b "2::real"] power_int_increasing [of b a "2::real"]
  by (cases "a < b") (auto simp: not_less)

lemma powi_add: "(2::real) powi (a + b) = 2 powi a * 2 powi b"
  by (simp add: power_int_add)

lemma powi_nat: "(2::real) powi int n = 2 ^ n"
  by simp

lemma normalized_fraction_unat:
  assumes "unat (nk_significand k) \<noteq> 0"
  shows "unat (normalized_fraction k) = unat (nk_significand k) * 2 ^ (128 - bit_length k)"
    and "2 ^ 127 \<le> unat (normalized_fraction k)" and "unat (normalized_fraction k) < 2 ^ 128"
proof -
  let ?s = "unat (nk_significand k)" and ?b = "bits_len (unat (nk_significand k))"
  have b: "?b \<le> 128" using bits_len_unat_le [of "nk_significand k"] by simp
  have "?s * 2 ^ (128 - ?b) < 2 ^ ?b * 2 ^ (128 - ?b)"
    using less_two_pow_bits_len [of ?s] by simp
  also have "\<dots> = 2 ^ 128" using b by (simp flip: power_add)
  finally show up: "unat (normalized_fraction k) = ?s * 2 ^ (128 - bit_length k)"
    by (simp add: normalized_fraction_def unat_push_bit)
  show "unat (normalized_fraction k) < 2 ^ 128" using unat_less_pow [of "normalized_fraction k"] by simp
  have "2 ^ ?b * 2 ^ (128 - ?b) \<le> 2 * (?s * 2 ^ (128 - ?b))"
    using two_pow_bits_len_le [OF assms] by simp
  then have "2 ^ 128 \<le> 2 * unat (normalized_fraction k)"
    using b up by (simp flip: power_add)
  then show "2 ^ 127 \<le> unat (normalized_fraction k)" by simp
qed

text \<open>A magnitude is its fraction scaled by its rank.\<close>

lemma key_mag_rank:
  assumes "unat (nk_significand k) \<noteq> 0"
  shows "key_mag k = real (unat (normalized_fraction k)) * 2 powi (magnitude_rank k - 127)"
proof -
  let ?b = "bits_len (unat (nk_significand k))"
  have b: "?b \<le> 128" using bits_len_unat_le [of "nk_significand k"] by simp
  have "magnitude_rank k - 127 = nk_exponent k - int (128 - ?b)"
    using b by (simp add: magnitude_rank_def of_nat_diff)
  then have "2 powi nk_exponent k = 2 ^ (128 - ?b) * (2::real) powi (magnitude_rank k - 127)"
    by (simp add: power_int_diff)
  then show ?thesis
    by (simp add: key_mag_def normalized_fraction_unat(1) [OF assms])
qed

lemma key_mag_bounds:
  assumes "unat (nk_significand k) \<noteq> 0"
  shows "2 powi magnitude_rank k \<le> key_mag k" and "key_mag k < 2 powi (magnitude_rank k + 1)"
proof -
  let ?f = "real (unat (normalized_fraction k))" and ?p = "(2::real) powi (magnitude_rank k - 127)"
  have p: "0 < ?p" by simp
  have f: "2 ^ 127 \<le> ?f" "?f < 2 ^ 128"
    using normalized_fraction_unat(2,3) [OF assms] by (metis of_nat_le_iff of_nat_less_iff of_nat_numeral of_nat_power)+
  have "(2::real) powi magnitude_rank k = 2 ^ 127 * ?p"
    using powi_add [of 127 "magnitude_rank k - 127"] powi_nat [of 127] by simp
  moreover have "(2::real) powi (magnitude_rank k + 1) = 2 ^ 128 * ?p"
    using powi_add [of 128 "magnitude_rank k - 127"] powi_nat [of 128] by (simp add: add.commute)
  ultimately show "2 powi magnitude_rank k \<le> key_mag k" "key_mag k < 2 powi (magnitude_rank k + 1)"
    using f p by (simp_all add: key_mag_rank [OF assms] mult_right_mono mult_strict_right_mono)
qed

lemma key_mag_less_iff:
  assumes "unat (nk_significand l) \<noteq> 0" and "unat (nk_significand r) \<noteq> 0"
  shows "key_mag l < key_mag r \<longleftrightarrow> magnitude_rank l < magnitude_rank r \<or>
    magnitude_rank l = magnitude_rank r \<and> normalized_fraction l < normalized_fraction r"
proof (cases "magnitude_rank l" "magnitude_rank r" rule: linorder_cases)
  case less
  then have "(2::real) powi (magnitude_rank l + 1) \<le> 2 powi magnitude_rank r"
    by (intro power_int_increasing) auto
  with key_mag_bounds [OF assms(1)] key_mag_bounds [OF assms(2)] less show ?thesis by auto
next
  case greater
  then have "(2::real) powi (magnitude_rank r + 1) \<le> 2 powi magnitude_rank l"
    by (intro power_int_increasing) auto
  with key_mag_bounds [OF assms(1)] key_mag_bounds [OF assms(2)] greater show ?thesis by auto
next
  case equal
  then show ?thesis by (simp add: key_mag_rank assms word_less_nat_alt)
qed

lemma key_mag_pos: "unat (nk_significand k) \<noteq> 0 \<Longrightarrow> 0 < key_mag k"
  by (simp add: key_mag_def)

lemma key_mag_eq_iff:
  assumes "unat (nk_significand l) \<noteq> 0" and "unat (nk_significand r) \<noteq> 0"
  shows "key_mag l = key_mag r \<longleftrightarrow>
    magnitude_rank l = magnitude_rank r \<and> normalized_fraction l = normalized_fraction r"
  using key_mag_less_iff [OF assms] key_mag_less_iff [OF assms(2,1)]
  by (metis key_mag_rank assms linorder_neq_iff)

lemma compare_magnitudes_correct:
  assumes "unat (nk_significand l) \<noteq> 0" and "unat (nk_significand r) \<noteq> 0"
  shows "compare_magnitudes l r = cmp (key_mag l) (key_mag r)"
  using key_mag_less_iff [OF assms] key_mag_eq_iff [OF assms]
  by (auto simp: compare_magnitudes_def cmp_def)

lemma key_wf_nonzero: "key_wf k \<Longrightarrow> nk_sign k \<noteq> Zero \<Longrightarrow> unat (nk_significand k) \<noteq> 0"
  by (auto simp: key_wf_def dest: odd_pos)

lemma cmp_neg: "cmp (- a) (- b) = cmp b (a :: real)"
  by (auto simp: cmp_def)

lemma compare_keys_cmp:
  assumes "key_wf l" and "key_wf r"
  shows "compare_numeric_keys l r = cmp (key_val l) (key_val r)"
proof -
  have l: "nk_sign l \<noteq> Zero \<Longrightarrow> 0 < key_mag l" and r: "nk_sign r \<noteq> Zero \<Longrightarrow> 0 < key_mag r"
    using assms key_wf_nonzero key_mag_pos by blast+
  show ?thesis
  proof (cases "nk_sign l = Zero \<or> nk_sign r = Zero")
    case True
    then show ?thesis using l r
      by (cases "nk_sign l"; cases "nk_sign r") (simp_all add: compare_numeric_keys_def key_val_def cmp_def)
  next
    case False
    with assms have nz: "unat (nk_significand l) \<noteq> 0" "unat (nk_significand r) \<noteq> 0"
      using key_wf_nonzero by blast+
    show ?thesis using False l r compare_magnitudes_correct [OF nz] compare_magnitudes_correct [OF nz(2,1)]
      by (cases "nk_sign l"; cases "nk_sign r")
        (simp_all add: compare_numeric_keys_def key_val_def cmp_neg, simp_all add: cmp_def)
  qed
qed

text \<open>
  C30. Comparison of numeric keys is exact: on canonical keys, \<open>compare_numeric_keys\<close> is the order
  of the real numbers the keys stand for, whatever types the values had.
\<close>

theorem compare_numeric_keys_correct:
  assumes "key_wf l" and "key_wf r"
  shows "compare_numeric_keys l r = cmp (key_val l) (key_val r)"
  by (rule compare_keys_cmp [OF assms])

theorem compare_numeric_keys_correct_witness:
  "compare_numeric_keys nk_zero nk_zero = cmp (key_val nk_zero) (key_val nk_zero)"
  by (rule compare_numeric_keys_correct) (simp_all add: key_wf_def nk_zero_def)

section \<open>Every numeric value has the key of its number\<close>

definition f64_real :: "f64 \<Rightarrow> real" where
  "f64_real bits =
     (if drop_bit 63 bits = 0 then 1 else - 1) *
     (if f64_exp_bits bits = 0 then real (unat (f64_fraction bits)) * 2 powi (- 1074)
      else real (2 ^ 52 + unat (f64_fraction bits)) * 2 powi (uint (f64_exp_bits bits) - 1075))"

fun prop_number :: "prop_value \<Rightarrow> real option" where
  "prop_number (SInt v) = Some (of_int (sint v))"
| "prop_number (UInt v) = Some (real (unat v))"
| "prop_number (Float v) = (if f64_is_finite v then Some (f64_real v) else None)"
| "prop_number _ = None"

lemma nk_nonzero_key:
  assumes "significand \<noteq> 0" and "unat significand < 2 ^ n" and "sign \<noteq> Zero"
  shows "nk_sign (nk_nonzero sign significand e) = sign"
    and "key_mag (nk_nonzero sign significand e) = real (unat significand) * 2 powi e"
    and "- 1074 \<le> e \<Longrightarrow> e + int n \<le> 1024 \<Longrightarrow> key_wf (nk_nonzero sign significand e)"
proof -
  let ?t = "ctz (unat significand)" and ?k = "nk_nonzero sign significand e"
  have nz: "unat significand \<noteq> 0" using assms(1) word_nonzero_iff by blast
  then obtain m where m: "odd m" "unat significand = m * 2 ^ ?t" using ctz_odd_part by blast
  have k: "?k = \<lparr>nk_sign = sign, nk_exponent = e + int ?t, nk_significand = drop_bit ?t significand\<rparr>"
    using assms(1) by (simp add: nk_nonzero_def trailing_zeros_def Let_def)
  have sg: "unat (drop_bit ?t significand) = m"
    using m(2) by (metis nonzero_mult_div_cancel_right power_not_zero unat_drop_bit zero_neq_numeral)
  have "2 ^ ?t \<le> m * 2 ^ ?t" using odd_pos [OF m(1)] by simp
  with m(2) assms(2) have "(2::nat) ^ ?t < 2 ^ n" by linarith
  then have t: "?t < n" by simp
  show "nk_sign ?k = sign" by (simp add: k)
  show "key_mag ?k = real (unat significand) * 2 powi e"
    by (subst m(2)) (simp add: k key_mag_def sg powi_add)
  show "key_wf ?k" if "- 1074 \<le> e" "e + int n \<le> 1024"
    using that t m(1) assms(3) by (simp add: k key_wf_def sg)
qed

lemma nk_zero_wf [simp]: "key_wf nk_zero" "key_val nk_zero = 0"
  by (simp_all add: key_wf_def nk_zero_def key_val_def)

lemma nk_from_i64:
  "key_wf (numeric_key_from_i64 v) \<and> key_val (numeric_key_from_i64 v) = of_int (sint v)"
proof (cases "v = 0")
  case True
  then show ?thesis by (simp add: numeric_key_from_i64_def)
next
  case False
  let ?a = "word_of_int \<bar>sint v\<bar> :: u64"
  have "\<bar>sint v\<bar> \<le> 2 ^ 63" using sint_ge [of v] sint_lt [of v] by simp
  then have ua: "uint ?a = \<bar>sint v\<bar>" by (simp add: uint_word_of_int)
  then have un: "unat ?a = nat \<bar>sint v\<bar>" by (metis unat_eq_nat_uint)
  have "sint v \<noteq> 0" using False by (metis signed_eq_0_iff)
  then have nz: "(ucast ?a :: u128) \<noteq> 0" and lt: "unat (ucast ?a :: u128) < 2 ^ 64"
    and uu: "unat (ucast ?a :: u128) = nat \<bar>sint v\<bar>"
    using un unat_less_pow [of ?a] by (simp_all add: word_nonzero_iff unat_ucast_up)
  define a where "a = (ucast ?a :: u128)"
  have k: "numeric_key_from_i64 v = nk_nonzero (if sint v < 0 then Negative else Positive) a 0"
    using False by (simp only: numeric_key_from_i64_def a_def if_False)
  show ?thesis
    using nk_nonzero_key [of a 64 _ 0] nz lt uu unfolding k a_def [symmetric]
    by (auto simp: key_val_def)
qed

lemma nk_from_u64:
  "key_wf (numeric_key_from_u64 v) \<and> key_val (numeric_key_from_u64 v) = real (unat v)"
proof (cases "v = 0")
  case True
  then show ?thesis by (simp add: numeric_key_from_u64_def)
next
  case False
  then have nz: "(ucast v :: u128) \<noteq> 0" and lt: "unat (ucast v :: u128) < 2 ^ 64"
    using unat_less_pow [of v] by (simp_all add: word_nonzero_iff unat_ucast_up)
  show ?thesis
    using False nk_nonzero_key [OF nz lt, of Positive 0]
    by (simp add: numeric_key_from_u64_def key_val_def unat_ucast_up)
qed

text \<open>The fields of a double.\<close>

lemma unat_take_bit: "unat (take_bit k (w :: 'a::len word)) = unat w mod 2 ^ k"
  by (rule trans [OF unsigned_take_bit_eq]) (simp add: take_bit_eq_mod)

lemma or_push_take_bit: "push_bit k 1 OR take_bit k (w :: 'a::len word) = push_bit k 1 + take_bit k w"
  by (rule disjunctive_add [symmetric]) (auto simp: bit_simps)

lemma f64_fraction_take_bit: "f64_fraction bits = take_bit 52 bits"
  by (simp add: f64_fraction_def take_bit_eq_mask mask_eq_exp_minus_1 push_bit_eq_mult)

lemma f64_fraction_less: "unat (f64_fraction bits) < 2 ^ 52"
  by (simp only: f64_fraction_take_bit unat_take_bit) simp

lemma f64_exp_bits_take_bit: "f64_exp_bits bits = take_bit 11 (drop_bit 52 bits)"
  by (simp add: f64_exp_bits_def take_bit_eq_mask mask_eq_exp_minus_1)

lemma f64_exp_bits_less: "uint (f64_exp_bits bits) < 2048" "0 \<le> uint (f64_exp_bits bits)"
proof -
  have "unat (f64_exp_bits bits) < 2048"
    by (simp only: f64_exp_bits_take_bit unat_take_bit) simp
  then have "int (unat (f64_exp_bits bits)) < 2048" by linarith
  then show "uint (f64_exp_bits bits) < 2048" by (simp only: of_nat_unat)
qed simp

lemma unat_hidden_bit: "unat (push_bit 52 1 OR f64_fraction bits) = 2 ^ 52 + unat (f64_fraction bits)"
proof -
  have "push_bit 52 1 OR f64_fraction bits = push_bit 52 1 + f64_fraction bits"
    by (simp only: f64_fraction_take_bit or_push_take_bit)
  moreover have "unat (push_bit 52 1 :: u64) = 2 ^ 52" by simp
  ultimately show ?thesis
    using f64_fraction_less [of bits] by (simp add: unat_word_ariths(1))
qed

lemma f64_key_cases:
  assumes "numeric_key_from_f64 bits = Some k"
  obtains (zero) "f64_is_finite bits" "k = nk_zero" "f64_real bits = 0"
  | (nonzero) s sig e where "f64_is_finite bits" "k = nk_nonzero s sig e" "s \<noteq> Zero" "sig \<noteq> 0"
      "unat sig < 2 ^ 53" "- 1074 \<le> e" "e \<le> 971"
      "f64_real bits = (if s = Negative then - 1 else 1) * (real (unat sig) * 2 powi e)"
proof -
  from assms have fin: "f64_is_finite bits" by (auto simp: numeric_key_from_f64_def split: if_splits)
  let ?sign = "if drop_bit 63 bits = 0 then Positive else Negative"
  let ?e = "f64_exp_bits bits" and ?f = "f64_fraction bits"
  have ue: "uint ?e = 0 \<longleftrightarrow> ?e = 0" by (rule uint_0_iff)
  have e: "uint ?e \<le> 2046"
  proof (rule ccontr)
    assume "\<not> uint ?e \<le> 2046"
    then have "uint ?e = uint (0x7ff :: u64)" using f64_exp_bits_less(1) [of bits] by simp
    with fin show False by (simp only: f64_is_finite_def word_uint_eq_iff)
  qed
  consider (z) "?e = 0" "?f = 0" | (sub) "?e = 0" "?f \<noteq> 0" | (norm) "?e \<noteq> 0" by blast
  then show thesis
  proof cases
    case z
    then have "k = nk_zero" "f64_real bits = 0"
      using assms fin by (simp_all add: numeric_key_from_f64_def f64_is_zero_def f64_real_def split: if_splits)
    with zero fin show thesis by blast
  next
    case sub
    have nz: "(ucast ?f :: u128) \<noteq> 0" and lt: "unat (ucast ?f :: u128) < 2 ^ 53"
      and un: "unat (ucast ?f :: u128) = unat ?f"
      using sub f64_fraction_less [of bits] by (simp_all add: word_nonzero_iff unat_ucast_up)
    have "k = nk_nonzero ?sign (ucast ?f) (- 1074)"
      using assms sub nz fin by (simp add: numeric_key_from_f64_def f64_is_zero_def split: if_splits)
    then show thesis
      using nz lt un sub fin by (intro nonzero [of ?sign "ucast ?f" "- 1074"]) (auto simp: f64_real_def)
  next
    case norm
    let ?s = "push_bit 52 1 OR ?f"
    have us: "unat (ucast ?s :: u128) = 2 ^ 52 + unat ?f" by (rule trans [OF unat_ucast_up unat_hidden_bit]) simp
    then have nz: "(ucast ?s :: u128) \<noteq> 0" and lt: "unat (ucast ?s :: u128) < 2 ^ 53"
      using f64_fraction_less [of bits] by (simp_all add: word_nonzero_iff)
    have k: "k = nk_nonzero ?sign (ucast ?s) (uint ?e - 1075)"
      using assms norm nz fin ue by (simp add: numeric_key_from_f64_def f64_is_zero_def Let_def split: if_splits)
    have "0 < uint ?e" using norm ue f64_exp_bits_less(2) [of bits] by linarith
    moreover have "f64_real bits =
        (if ?sign = Negative then - 1 else 1) * (real (unat (ucast ?s :: u128)) * 2 powi (uint ?e - 1075))"
      unfolding us using norm by (simp add: f64_real_def)
    ultimately show thesis
      using nz lt fin e k by (intro nonzero [of ?sign "ucast ?s" "uint ?e - 1075"]) simp_all
  qed
qed

lemma nk_from_f64:
  assumes "numeric_key_from_f64 bits = Some k"
  shows "f64_is_finite bits \<and> key_wf k \<and> key_val k = f64_real bits"
  using assms
proof (cases rule: f64_key_cases)
  case zero
  then show ?thesis by simp
next
  case (nonzero s sig e)
  then show ?thesis
    using nk_nonzero_key [OF nonzero(4,5,3), of e] by (cases s) (simp_all add: key_val_def)
qed

lemma nk_from_f64_None: "numeric_key_from_f64 bits = None \<longleftrightarrow> \<not> f64_is_finite bits"
  by (auto simp: numeric_key_from_f64_def Let_def split: prod.splits)

lemma numeric_key_exactness:
  "prop_number v = map_option key_val (numeric_key v) \<and> (\<forall>k. numeric_key v = Some k \<longrightarrow> key_wf k)"
proof (cases v)
  case (Float b)
  then show ?thesis
    using nk_from_f64 [of b] nk_from_f64_None [of b]
    by (cases "numeric_key_from_f64 b") (auto simp: numeric_key_def)
qed (simp_all add: numeric_key_def nk_from_i64 nk_from_u64)

text \<open>
  C29. Every numeric property value is given the key of exactly the number it stands for: a signed
  or unsigned integer or a finite double, with no rounding; the other values have no key.
\<close>

theorem numeric_key_exact:
  "(case numeric_key v of None \<Rightarrow> prop_number v = None
    | Some k \<Rightarrow> key_wf k \<and> prop_number v = Some (key_val k))"
  using numeric_key_exactness [of v] by (auto split: option.splits)

section \<open>Keys are canonical\<close>

lemma key_val_inject:
  assumes l: "key_wf l" and r: "key_wf r" and eq: "key_val l = key_val r"
  shows "l = r"
proof -
  have pos: "nk_sign k \<noteq> Zero \<Longrightarrow> 0 < key_mag k" if "key_wf k" for k
    using that key_wf_nonzero key_mag_pos by blast
  have sign: "nk_sign l = nk_sign r"
    using eq pos [OF l] pos [OF r]
    by (cases "nk_sign l"; cases "nk_sign r") (simp_all add: key_val_def)
  show ?thesis
  proof (cases "nk_sign l = Zero")
    case True
    with l r sign show ?thesis by (simp add: key_wf_def)
  next
    case False
    then have nz: "unat (nk_significand l) \<noteq> 0" "unat (nk_significand r) \<noteq> 0"
      using l r sign key_wf_nonzero by metis+
    have "key_mag l = key_mag r"
      using eq sign False by (cases "nk_sign l") (simp_all add: key_val_def)
    then have rank: "magnitude_rank l = magnitude_rank r"
      and frac: "unat (nk_significand l) * 2 ^ (128 - bit_length l) = unat (nk_significand r) * 2 ^ (128 - bit_length r)"
      using key_mag_eq_iff [OF nz] normalized_fraction_unat(1) [OF nz(1)] normalized_fraction_unat(1) [OF nz(2)]
      by (auto simp del: bit_length_bits_len)
    have odd: "odd (unat (nk_significand l))" "odd (unat (nk_significand r))"
      using l r False sign by (auto simp: key_wf_def)
    have "128 - bit_length l = 128 - bit_length r"
      using ctz_mult [OF odd(1), of "128 - bit_length l"] ctz_mult [OF odd(2), of "128 - bit_length r"] frac by metis
    then have bl: "bit_length l = bit_length r"
      using bits_len_unat_le [of "nk_significand l"] bits_len_unat_le [of "nk_significand r"] by simp
    with frac have "nk_significand l = nk_significand r" by (simp add: word_unat_eq_iff)
    moreover have "nk_exponent l = nk_exponent r" using rank bl by (simp add: magnitude_rank_def)
    ultimately show ?thesis using sign by (cases l, cases r) simp
  qed
qed

lemma numeric_key_Some: "numeric_key v = Some k \<Longrightarrow> key_wf k \<and> prop_number v = Some (key_val k)"
  using numeric_key_exactness [of v] by auto

text \<open>
  C33. Numeric equality of properties is equality of numbers: two numeric values, of whatever types,
  are semantically equal exactly when they stand for the same real number.
\<close>

theorem semantic_property_eq_numeric:
  assumes "prop_number l = Some x" and "prop_number r = Some y"
  shows "semantic_property_eq l r \<longleftrightarrow> x = y"
proof -
  obtain k k' where k: "numeric_key l = Some k" "numeric_key r = Some k'"
    using assms numeric_key_exactness [of l] numeric_key_exactness [of r] by auto
  with assms numeric_key_Some key_val_inject show ?thesis
    by (fastforce simp: semantic_property_eq_def)
qed

theorem semantic_property_eq_numeric_witness:
  "semantic_property_eq (SInt 1) (Float 0x3FF0000000000000)"
proof -
  have "f64_is_finite 0x3FF0000000000000" "f64_real 0x3FF0000000000000 = 1"
    by (simp_all add: f64_is_finite_def f64_real_def f64_exp_bits_def f64_fraction_def power_int_def power_one_over)
  then show ?thesis using semantic_property_eq_numeric [of "SInt 1" 1 "Float 0x3FF0000000000000" 1] by simp
qed

section \<open>The byte order of sort keys\<close>

lemma xor_push_bit_add: "\<not> bit w k \<Longrightarrow> w XOR push_bit k 1 = w + push_bit k (1 :: 'a::len word)"
  by (rule disjunctive_add_eq_xor [symmetric]) (auto intro: bit_word_eqI simp: bit_simps)

lemma xor_top_bit: "w XOR push_bit (LENGTH('a) - 1) 1 = w + push_bit (LENGTH('a) - 1) (1 :: 'a::len word)"
proof (cases "bit w (LENGTH('a) - 1)")
  case False
  then show ?thesis by (rule xor_push_bit_add)
next
  case True
  let ?p = "push_bit (LENGTH('a) - 1) (1 :: 'a word)"
  have "\<not> bit (w XOR ?p) (LENGTH('a) - 1)" using True by (simp add: bit_simps)
  then have "(w XOR ?p) XOR ?p = (w XOR ?p) + ?p" by (rule xor_push_bit_add)
  then have w: "w = (w XOR ?p) + ?p" by (simp only: xor.assoc xor_self_eq xor.right_neutral)
  have "?p + ?p = 2 ^ Suc (LENGTH('a) - 1)" by (simp only: push_bit_eq_mult mult_1 power_Suc mult_2)
  also have "Suc (LENGTH('a) - 1) = LENGTH('a)" by simp
  also have "2 ^ LENGTH('a) = (0 :: 'a word)" by (rule word_exp_length_eq_0)
  finally have "(w XOR ?p) + (?p + ?p) = w XOR ?p" by (simp only: add.right_neutral)
  then show ?thesis by (simp only: add.assoc [symmetric] w [symmetric])
qed

lemma unat_rank_bits:
  assumes "- (2 ^ 31) \<le> r" and "r < 2 ^ 31"
  shows "unat ((word_of_int r :: u32) XOR 0x80000000) = nat (r + 2 ^ 31)"
proof -
  have "(word_of_int r :: u32) XOR 0x80000000 = word_of_int r + 0x80000000"
    using xor_top_bit [of "word_of_int r :: u32"] by simp
  also have "\<dots> = word_of_int (r + 2 ^ 31)" by (simp add: wi_hom_add [symmetric])
  finally have "uint ((word_of_int r :: u32) XOR 0x80000000) = uint (word_of_int (r + 2 ^ 31) :: u32)"
    by (rule arg_cong)
  also have "\<dots> = r + 2 ^ 31"
    using assms by (simp only: uint_word_of_int) simp
  finally have "uint ((word_of_int r :: u32) XOR 0x80000000) = r + 2 ^ 31" .
  then show ?thesis by (metis unat_eq_nat_uint)
qed

lemma not_less_not: "NOT a < NOT b \<longleftrightarrow> b < (a :: 'a::len word)"
proof -
  have u: "unat (NOT w) = unat (- 1 :: 'a word) - unat w" "unat w \<le> unat (- 1 :: 'a word)" for w :: "'a word"
  proof -
    have "NOT w = - 1 - w" by (simp add: not_eq_complement)
    moreover have "w \<le> - 1" by simp
    ultimately show "unat (NOT w) = unat (- 1 :: 'a word) - unat w" by (metis unat_sub)
    show "unat w \<le> unat (- 1 :: 'a word)" using \<open>w \<le> - 1\<close> by (simp only: word_le_nat_alt)
  qed
  show ?thesis using u [of a] u [of b] unfolding word_less_nat_alt by linarith
qed

lemma magnitude_rank_range:
  assumes "key_wf k" and "nk_sign k \<noteq> Zero"
  shows "- 1074 \<le> magnitude_rank k" and "magnitude_rank k \<le> 1150"
proof -
  have "0 < bits_len (unat (nk_significand k))" using bits_len_pos key_wf_nonzero [OF assms] by blast
  moreover have "bits_len (unat (nk_significand k)) \<le> 128" using bits_len_unat_le [of "nk_significand k"] by simp
  ultimately show "- 1074 \<le> magnitude_rank k" "magnitude_rank k \<le> 1150"
    using assms by (simp_all add: key_wf_def magnitude_rank_def)
qed

definition rank_bits :: "numeric_scalar_key \<Rightarrow> u32" where
  "rank_bits k = word_of_int (magnitude_rank k) XOR 0x80000000"

lemma rank_bits_order:
  assumes "key_wf l" "key_wf r" and "nk_sign l \<noteq> Zero" "nk_sign r \<noteq> Zero"
  shows "rank_bits l < rank_bits r \<longleftrightarrow> magnitude_rank l < magnitude_rank r"
    and "rank_bits l = rank_bits r \<longleftrightarrow> magnitude_rank l = magnitude_rank r"
proof -
  have u: "unat (rank_bits k) = nat (magnitude_rank k + 2 ^ 31)" "- 1074 \<le> magnitude_rank k"
    if "key_wf k" "nk_sign k \<noteq> Zero" for k
    using magnitude_rank_range [OF that] by (simp_all add: rank_bits_def unat_rank_bits)
  show "rank_bits l < rank_bits r \<longleftrightarrow> magnitude_rank l < magnitude_rank r"
    using u [OF assms(1,3)] u [OF assms(2,4)] unfolding word_less_nat_alt by auto
  show "rank_bits l = rank_bits r \<longleftrightarrow> magnitude_rank l = magnitude_rank r"
    using u [OF assms(1,3)] u [OF assms(2,4)] unfolding word_unat_eq_iff by auto
qed

lemma sort_key_signed:
  "nk_sign k = Positive \<Longrightarrow>
     numeric_range_sort_key k = [2] @ to_be_bytes (rank_bits k) @ to_be_bytes (normalized_fraction k) @ [0, 0, 0]"
  "nk_sign k = Negative \<Longrightarrow>
     numeric_range_sort_key k = [0] @ to_be_bytes (NOT (rank_bits k)) @ to_be_bytes (NOT (normalized_fraction k)) @ [0, 0, 0]"
  "nk_sign k = Zero \<Longrightarrow> numeric_range_sort_key k = [1] @ replicate 23 0"
  by (simp_all add: numeric_range_sort_key_def rank_bits_def Let_def)

lemma length_sort_key [simp]: "length (numeric_range_sort_key k) = 24"
  by (cases "nk_sign k") (simp_all add: sort_key_signed)

lemma be_pair_less:
  "to_be_bytes (a :: u32) @ to_be_bytes (b :: u128) @ z < to_be_bytes c @ to_be_bytes d @ z \<longleftrightarrow>
     a < c \<or> a = c \<and> b < d"
  by (simp add: append_less_same_length to_be_bytes_less to_be_bytes_inject)

lemma sort_key_less:
  assumes l: "key_wf l" and r: "key_wf r"
  shows "numeric_range_sort_key l < numeric_range_sort_key r \<longleftrightarrow> key_val l < key_val r"
proof -
  have pos: "nk_sign k \<noteq> Zero \<Longrightarrow> 0 < key_mag k" if "key_wf k" for k
    using that key_wf_nonzero key_mag_pos by blast
  show ?thesis
  proof (cases "nk_sign l = nk_sign r \<and> nk_sign l \<noteq> Zero")
    case True
    then have nz: "unat (nk_significand l) \<noteq> 0" "unat (nk_significand r) \<noteq> 0"
      using l r key_wf_nonzero by metis+
    show ?thesis
      using True rank_bits_order [OF l r] rank_bits_order [OF r l] key_mag_less_iff [OF nz] key_mag_less_iff [OF nz(2,1)]
      by (cases "nk_sign l")
        (auto simp: sort_key_signed key_val_def be_pair_less not_less_not)
  next
    case False
    then show ?thesis
      using pos [OF l] pos [OF r]
      by (cases "nk_sign l"; cases "nk_sign r") (auto simp: sort_key_signed key_val_def)
  qed
qed

lemma sort_key_order_lemma:
  assumes "numeric_range_sort_key_for_value v = Some a" and "numeric_range_sort_key_for_value w = Some b"
  shows "length a = NUMERIC_RANGE_KEY_BYTES \<and>
    (a < b \<longleftrightarrow> the (prop_number v) < the (prop_number w)) \<and>
    (a = b \<longleftrightarrow> the (prop_number v) = the (prop_number w))"
proof -
  obtain k k' where k: "numeric_key v = Some k" "a = numeric_range_sort_key k"
    and k': "numeric_key w = Some k'" "b = numeric_range_sort_key k'"
    using assms by (auto simp: numeric_range_sort_key_for_value_def)
  have wf: "key_wf k" "key_wf k'" and num: "prop_number v = Some (key_val k)" "prop_number w = Some (key_val k')"
    using numeric_key_Some k(1) k'(1) by blast+
  have "length a = 24"
    unfolding k(2) by (cases "nk_sign k") (simp_all add: sort_key_signed)
  then show ?thesis
    using sort_key_less [OF wf] sort_key_less [OF wf(2,1)]
    by (auto simp: num k(2) k'(2) NUMERIC_RANGE_KEY_BYTES_def dest: key_val_inject [OF wf])
qed

text \<open>
  C31. The range index orders records by number. For any two numeric values, their 24-byte sort keys
  compare as byte strings exactly as the real numbers do, and are equal only for equal numbers.
\<close>

theorem sort_key_order:
  assumes "numeric_range_sort_key_for_value v = Some a" and "numeric_range_sort_key_for_value w = Some b"
  shows "length a = NUMERIC_RANGE_KEY_BYTES \<and>
    (a < b \<longleftrightarrow> the (prop_number v) < the (prop_number w)) \<and>
    (a = b \<longleftrightarrow> the (prop_number v) = the (prop_number w))"
  by (rule sort_key_order_lemma [OF assms])

theorem sort_key_order_witness:
  "the (numeric_range_sort_key_for_value (SInt (- 3))) < the (numeric_range_sort_key_for_value (UInt 2))"
proof -
  obtain a b where "numeric_range_sort_key_for_value (SInt (- 3)) = Some a"
      "numeric_range_sort_key_for_value (UInt 2) = Some b"
    by (simp add: numeric_range_sort_key_for_value_def numeric_key_def)
  with sort_key_order [OF this] show ?thesis by simp
qed

end
