(* ===== verification/Range_Semantics.thy ===== *)
theory Range_Semantics
  imports Numeric_Order
begin

text \<open>
  What the numeric keys are used for: the equality hash of the secondary indexes agrees with
  semantic equality, validated ranges mean the real interval between their bounds and intersect
  as sets, and the sidecar validator accepts exactly the sort keys some value has.
\<close>

section \<open>Equality and its hash\<close>

lemma btree_eqI:
  assumes "btree_wf l" and "btree_wf r" and len: "length l = length r" and sub: "set l \<subseteq> set r"
  shows "l = r"
proof -
  have d: "distinct (map fst l)" "distinct (map fst r)" and s: "sorted (map fst l)" "sorted (map fst r)"
    using assms(1,2) by (simp_all add: btree_wf_def strict_sorted_iff)
  have "set (map fst l) = set (map fst r)"
  proof (rule card_subset_eq)
    show "set (map fst l) \<subseteq> set (map fst r)" using sub by auto
    show "card (set (map fst l)) = card (set (map fst r))"
      using distinct_card [OF d(1)] distinct_card [OF d(2)] len by simp
  qed simp
  then have keys: "map fst l = map fst r"
    using s d by (intro sorted_distinct_set_unique)
  show ?thesis
  proof (rule nth_equalityI [OF len])
    fix i assume i: "i < length l"
    then obtain j where j: "j < length r" "l ! i = r ! j" using sub by (metis in_set_conv_nth nth_mem subsetD)
    have "map fst r ! i = map fst l ! i" using keys by simp
    also have "\<dots> = map fst r ! j" using i j by simp
    finally have "i = j" using nth_eq_iff_index_eq [OF d(2), of i j] i j(1) len by simp
    with j show "l ! i = r ! i" by simp
  qed
qed

lemma raw_structural_eq_imp_eq:
  "raw_structural_property_eq l r \<Longrightarrow> pv_wf l \<Longrightarrow> pv_wf r \<Longrightarrow> l = r"
proof (induction l r rule: raw_structural_property_eq.induct)
  case (8 l r)
  then have len: "length l = length r" by simp
  have "l ! i = r ! i" if i: "i < length l" for i
  proof -
    have z: "(l ! i, r ! i) \<in> set (zip l r)" using i len by (auto simp: in_set_zip)
    with 8(2) have eq: "raw_structural_property_eq (l ! i) (r ! i)" by fastforce
    have "pv_wf (l ! i)" "pv_wf (r ! i)" using 8(3,4) i len by simp_all
    with 8(1) [OF z] eq show ?thesis by simp
  qed
  with len show ?case by (auto intro: nth_equalityI)
next
  case (9 l r)
  have "x \<in> set r" if x: "x \<in> set l" for x
  proof -
    from x 9(2) obtain v where v: "map_of r (fst x) = Some v" "raw_structural_property_eq (snd x) v"
      by (fastforce split: option.splits)
    then have "(fst x, v) \<in> set r" by (simp add: map_of_SomeD)
    moreover from this have "snd x = v" using 9(1) [OF x v] 9(3,4) x by auto
    ultimately show ?thesis by auto
  qed
  then show ?case using 9(2-4) by (auto intro!: btree_eqI)
qed auto

text \<open>
  Equality lookups never miss: semantically equal property values have the same equality hash,
  whatever MessagePack encoder is used, so an equality index probed with one finds the other.
\<close>

theorem semantic_eq_same_hash:
  assumes "pv_wf l" and "pv_wf r" and "semantic_property_eq l r"
  shows "hash_prop_equality_key pv_to_vec l = hash_prop_equality_key pv_to_vec r"
  using assms raw_structural_eq_imp_eq [of l r]
  by (auto simp: semantic_property_eq_def hash_prop_equality_key_def semantic_equality_key_bytes_def
      split: option.splits)

theorem semantic_eq_same_hash_witness:
  "hash_prop_equality_key (\<lambda>_. []) (SInt 0) = hash_prop_equality_key (\<lambda>_. []) (Float 0x8000000000000000)"
  by (rule semantic_eq_same_hash)
    (simp_all add: semantic_property_eq_def numeric_key_def numeric_key_from_i64_def numeric_key_from_f64_def
      f64_is_finite_def f64_is_zero_def f64_exp_bits_def f64_fraction_def)

section \<open>Ranges\<close>

definition above :: "numeric_range_bound_key option \<Rightarrow> real \<Rightarrow> bool" where
  "above b x = (case b of None \<Rightarrow> True | Some b \<Rightarrow>
     if rb_inclusive b then key_val (rb_key b) \<le> x else key_val (rb_key b) < x)"

definition below :: "numeric_range_bound_key option \<Rightarrow> real \<Rightarrow> bool" where
  "below b x = (case b of None \<Rightarrow> True | Some b \<Rightarrow>
     if rb_inclusive b then x \<le> key_val (rb_key b) else x < key_val (rb_key b))"

definition bound_wf :: "numeric_range_bound_key option \<Rightarrow> bool" where
  "bound_wf b = (case b of None \<Rightarrow> True | Some b \<Rightarrow> key_wf (rb_key b))"

definition interval :: "validated_numeric_range \<Rightarrow> real set" where
  "interval r = {x. above (vr_lower r) x \<and> below (vr_upper r) x}"

definition range_wf :: "validated_numeric_range \<Rightarrow> bool" where
  "range_wf r \<longleftrightarrow> bound_wf (vr_lower r) \<and> bound_wf (vr_upper r) \<and> (vr_is_empty r \<longleftrightarrow> interval r = {})"

lemma compare_keys_less:
  "key_wf l \<Longrightarrow> key_wf r \<Longrightarrow> (compare_numeric_keys l r = Less \<longleftrightarrow> key_val l < key_val r)"
  "key_wf l \<Longrightarrow> key_wf r \<Longrightarrow> (compare_numeric_keys l r = Equal \<longleftrightarrow> key_val l = key_val r)"
  "key_wf l \<Longrightarrow> key_wf r \<Longrightarrow> (compare_numeric_keys l r = Greater \<longleftrightarrow> key_val l > key_val r)"
  by (auto simp: compare_keys_cmp cmp_def)

lemma bounds_empty_iff:
  assumes "bound_wf l" and "bound_wf u"
  shows "bounds_empty l u \<longleftrightarrow> {x. above l x \<and> below u x} = {}"
proof (cases l)
  case None
  have "\<exists>x. below u x"
    by (cases u) (auto simp: below_def intro: exI [of _ "key_val (rb_key (the u)) - 1"])
  with None show ?thesis by (auto simp: bounds_empty_def above_def)
next
  case (Some a)
  show ?thesis
  proof (cases u)
    case None
    have "above l (key_val (rb_key a) + 1)" using Some by (simp add: above_def)
    with None Some show ?thesis by (auto simp: bounds_empty_def below_def)
  next
    case (Some b)
    let ?a = "key_val (rb_key a)" and ?b = "key_val (rb_key b)"
    have wf: "key_wf (rb_key a)" "key_wf (rb_key b)" using assms Some \<open>l = Some a\<close> by (simp_all add: bound_wf_def)
    have mid: "?a < ?b \<Longrightarrow> ?a < (?a + ?b) / 2 \<and> (?a + ?b) / 2 < ?b" by simp
    show ?thesis
      using compare_keys_less [OF wf] mid Some \<open>l = Some a\<close>
      by (cases "compare_numeric_keys (rb_key a) (rb_key b)")
        (auto simp: bounds_empty_def range_bounds_are_empty_def above_def below_def
          intro: exI [of _ "(?a + ?b) / 2"])
  qed
qed

lemma within_iff:
  assumes "range_wf r" and "key_wf k"
  shows "numeric_key_within_validated_range k r \<longleftrightarrow> key_val k \<in> interval r"
  using assms compare_keys_less [OF assms(2)]
  by (auto simp: numeric_key_within_validated_range_def range_wf_def interval_def above_def below_def bound_wf_def
      split: option.splits)

lemma validate_value_ok:
  "validate_numeric_range_value v = Inr k \<longleftrightarrow> numeric_key v = Some k"
  by (cases v) (auto simp: validate_numeric_range_value_def numeric_key_def dest: nk_from_f64 split: option.splits)

definition bound_number :: "property_range_bound \<Rightarrow> real" where
  "bound_number b = the (prop_number (bound_value b))"

text \<open>The interval a caller's bounds describe.\<close>

definition requested :: "property_range_bound option \<Rightarrow> property_range_bound option \<Rightarrow> real set" where
  "requested lower upper = {x.
     (case lower of None \<Rightarrow> True | Some b \<Rightarrow> if is_inclusive b then bound_number b \<le> x else bound_number b < x) \<and>
     (case upper of None \<Rightarrow> True | Some b \<Rightarrow> if is_inclusive b then x \<le> bound_number b else x < bound_number b)}"

lemma validate_bound_ok:
  assumes "transpose_opt (map_option validate_bound b) = Inr b'"
  shows "bound_wf b'"
    and "above b' x \<longleftrightarrow> (case b of None \<Rightarrow> True | Some b \<Rightarrow> if is_inclusive b then bound_number b \<le> x else bound_number b < x)"
    and "below b' x \<longleftrightarrow> (case b of None \<Rightarrow> True | Some b \<Rightarrow> if is_inclusive b then x \<le> bound_number b else x < bound_number b)"
  using assms
  by (auto simp: transpose_opt_def validate_bound_def r_bind_eq_Inr validate_value_ok bound_wf_def above_def
      below_def bound_number_def dest: numeric_key_Some split: option.splits)

lemma validated_range_meaning:
  assumes "validate_numeric_range_bounds lower upper cursor = Inr r"
  shows "range_wf r" and "interval r = requested lower upper"
proof -
  from assms obtain l u where r: "r = \<lparr>vr_lower = l, vr_upper = u, vr_is_empty = bounds_empty l u\<rparr>"
    and l: "transpose_opt (map_option validate_bound lower) = Inr l"
    and u: "transpose_opt (map_option validate_bound upper) = Inr u"
    by (auto simp: validate_numeric_range_bounds_def r_bind_eq_Inr split: if_splits)
  have wf: "bound_wf l" "bound_wf u" using validate_bound_ok(1) l u by blast+
  with bounds_empty_iff [OF wf] show "range_wf r" by (simp add: range_wf_def r interval_def)
  show "interval r = requested lower upper"
    using validate_bound_ok(2) [OF l] validate_bound_ok(3) [OF u] by (simp add: interval_def requested_def r)
qed

lemma bound_numeric:
  assumes "transpose_opt (map_option validate_bound b) = Inr b'" and "b = Some c"
  obtains k where "numeric_key (bound_value c) = Some k" "key_wf k" "bound_number c = key_val k"
proof -
  from assms obtain k where k: "numeric_key (bound_value c) = Some k"
    by (auto simp: transpose_opt_def validate_bound_def r_bind_eq_Inr validate_value_ok)
  then show thesis using numeric_key_Some [OF k] by (intro that) (simp_all add: bound_number_def)
qed

lemma within_bounds_number:
  assumes "validate_numeric_range_bounds lower upper cursor = Inr r"
  shows "numeric_range_value_within_bounds v lower upper = map_option (\<lambda>x. x \<in> requested lower upper) (prop_number v)"
proof (cases "numeric_key v")
  case None
  then show ?thesis using numeric_key_exactness [of v] by (simp add: numeric_range_value_within_bounds_def)
next
  case (Some k)
  then have k: "key_wf k" "prop_number v = Some (key_val k)" using numeric_key_Some by blast+
  from assms obtain l u where "transpose_opt (map_option validate_bound lower) = Inr l"
    and "transpose_opt (map_option validate_bound upper) = Inr u"
    by (auto simp: validate_numeric_range_bounds_def r_bind_eq_Inr split: if_splits)
  then have "\<forall>c. lower = Some c \<longrightarrow> (\<exists>kb. numeric_key (bound_value c) = Some kb \<and> key_wf kb \<and> bound_number c = key_val kb)"
    and "\<forall>c. upper = Some c \<longrightarrow> (\<exists>kb. numeric_key (bound_value c) = Some kb \<and> key_wf kb \<and> bound_number c = key_val kb)"
    using bound_numeric by metis+
  then show ?thesis
    using Some k compare_keys_less [OF k(1)]
    by (cases lower; cases upper)
      (auto simp: numeric_range_value_within_bounds_def requested_def Let_def)
qed

text \<open>
  C34. A validated range means the interval the caller asked for: a value is in it exactly when it is
  numeric and its real number lies between the bounds, the emptiness flag is exact, and the
  check on unvalidated bounds gives the same answers.
\<close>

theorem validated_range_correct:
  assumes "validate_numeric_range_bounds lower upper cursor = Inr r"
  shows "(prop_value_within_validated_range v r \<longleftrightarrow> (\<exists>x. prop_number v = Some x \<and> x \<in> requested lower upper)) \<and>
    (vr_is_empty r \<longleftrightarrow> requested lower upper = {}) \<and>
    numeric_range_value_within_bounds v lower upper = map_option (\<lambda>x. x \<in> requested lower upper) (prop_number v)"
proof -
  note m = validated_range_meaning [OF assms]
  have "prop_value_within_validated_range v r \<longleftrightarrow> (\<exists>x. prop_number v = Some x \<and> x \<in> interval r)"
    using numeric_key_exactness [of v] within_iff [OF m(1)]
    by (auto simp: prop_value_within_validated_range_def split: option.splits)
  with m within_bounds_number [OF assms] show ?thesis by (auto simp: range_wf_def)
qed

theorem validated_range_correct_witness:
  "\<not> prop_value_within_validated_range (Bool True)
     \<lparr>vr_lower = Some \<lparr>rb_key = nk_zero, rb_inclusive = True\<rparr>, vr_upper = None, vr_is_empty = False\<rparr>"
proof -
  have "validate_numeric_range_bounds (Some (Included (SInt 0))) None None =
      Inr \<lparr>vr_lower = Some \<lparr>rb_key = nk_zero, rb_inclusive = True\<rparr>, vr_upper = None, vr_is_empty = False\<rparr>"
    by (simp add: validate_numeric_range_bounds_def transpose_opt_def validate_bound_def
        validate_numeric_range_value_def numeric_key_def numeric_key_from_i64_def bounds_empty_def)
  from validated_range_correct [OF this, of "Bool True"] show ?thesis by simp
qed

lemma max_lower_bound_above:
  assumes "bound_wf a" and "bound_wf b"
  shows "bound_wf (max_lower_bound a b)" and "above (max_lower_bound a b) x \<longleftrightarrow> above a x \<and> above b x"
  using assms
  by (cases a; cases b; auto simp: bound_wf_def max_lower_bound_def above_def compare_keys_less split: ordering.splits)+

lemma min_upper_bound_below:
  assumes "bound_wf a" and "bound_wf b"
  shows "bound_wf (min_upper_bound a b)" and "below (min_upper_bound a b) x \<longleftrightarrow> below a x \<and> below b x"
  using assms
  by (cases a; cases b; auto simp: bound_wf_def min_upper_bound_def below_def compare_keys_less split: ordering.splits)+

text \<open>
  Intersecting two validated ranges keeps exactly the values in both, and the result is again
  a well-formed range whose emptiness flag is exact.
\<close>

theorem intersect_ranges_correct:
  assumes "range_wf a" and "range_wf b"
  shows "range_wf (intersect_validated_numeric_ranges a b) \<and>
    (prop_value_within_validated_range v (intersect_validated_numeric_ranges a b) \<longleftrightarrow>
       prop_value_within_validated_range v a \<and> prop_value_within_validated_range v b)"
proof -
  let ?c = "intersect_validated_numeric_ranges a b"
  have wf: "bound_wf (vr_lower a)" "bound_wf (vr_lower b)" "bound_wf (vr_upper a)" "bound_wf (vr_upper b)"
    using assms by (simp_all add: range_wf_def)
  note lo = max_lower_bound_above [OF wf(1,2)] and up = min_upper_bound_below [OF wf(3,4)]
  have int: "interval ?c = interval a \<inter> interval b"
    using lo(2) up(2) by (auto simp: interval_def intersect_validated_numeric_ranges_def Let_def)
  have "vr_is_empty ?c \<longleftrightarrow> interval ?c = {}"
    using bounds_empty_iff [OF lo(1) up(1)] assms int
    by (auto simp: intersect_validated_numeric_ranges_def Let_def range_wf_def interval_def)
  then have c: "range_wf ?c"
    using lo(1) up(1) by (simp add: range_wf_def) (simp add: intersect_validated_numeric_ranges_def Let_def)
  moreover have "numeric_key v = Some k \<Longrightarrow> key_wf k" for k using numeric_key_Some by blast
  ultimately show ?thesis
    using within_iff [OF assms(1)] within_iff [OF assms(2)] within_iff [OF c] int
    by (auto simp: prop_value_within_validated_range_def split: option.splits)
qed

theorem intersect_ranges_correct_witness:
  "range_wf (intersect_validated_numeric_ranges
     \<lparr>vr_lower = None, vr_upper = None, vr_is_empty = False\<rparr>
     \<lparr>vr_lower = None, vr_upper = None, vr_is_empty = False\<rparr>)"
  using intersect_ranges_correct [of "\<lparr>vr_lower = None, vr_upper = None, vr_is_empty = False\<rparr>"
      "\<lparr>vr_lower = None, vr_upper = None, vr_is_empty = False\<rparr>"]
  by (simp add: range_wf_def bound_wf_def interval_def above_def below_def)

section \<open>Sidecar keys\<close>

lemma rank_bits_back:
  assumes "key_wf k" and "nk_sign k \<noteq> Zero"
  shows "sint (rank_bits k XOR 0x80000000) = magnitude_rank k"
proof -
  have "rank_bits k XOR 0x80000000 = word_of_int (magnitude_rank k)"
    by (simp only: rank_bits_def xor.assoc xor_self_eq xor.right_neutral)
  then show ?thesis
    using magnitude_rank_range [OF assms] by (simp add: sint_sbintrunc' signed_take_bit_int_eq_self)
qed

lemma fraction_back:
  assumes "key_wf k" and "nk_sign k \<noteq> Zero"
  defines "f \<equiv> normalized_fraction k"
  shows "f \<noteq> 0" and "leading_zeros f = 0" and "trailing_zeros f = 128 - bit_length k"
    and "drop_bit (128 - bit_length k) f = nk_significand k"
proof -
  have nz: "unat (nk_significand k) \<noteq> 0" and odd: "odd (unat (nk_significand k))"
    using assms key_wf_nonzero by (auto simp: key_wf_def)
  note f = normalized_fraction_unat [OF nz, folded f_def]
  have "unat f \<noteq> 0" using f(2) by auto
  then show f0: "f \<noteq> 0" by auto
  have "bits_len (unat f) = 128" using bits_len_eqI [of 127 "unat f"] f(2,3) by simp
  then show "leading_zeros f = 0" by (simp add: leading_zeros_def)
  show "trailing_zeros f = 128 - bit_length k"
    using f0 ctz_mult [OF odd] by (simp add: trailing_zeros_def f(1) del: bit_length_bits_len)
  have "unat (drop_bit (128 - bit_length k) f) = unat (nk_significand k)"
    unfolding unat_drop_bit f(1) by simp
  then show "drop_bit (128 - bit_length k) f = nk_significand k" by (simp only: word_unat_eq_iff)
qed

lemma sort_key_layout:
  assumes "nk_sign k \<noteq> Zero"
  shows "numeric_range_sort_key k = [if nk_sign k = Negative then 0 else 2] @
    to_be_bytes (if nk_sign k = Negative then NOT (rank_bits k) else rank_bits k) @
    to_be_bytes (if nk_sign k = Negative then NOT (normalized_fraction k) else normalized_fraction k) @ [0, 0, 0]"
  using assms by (cases "nk_sign k") (simp_all add: sort_key_signed)

lemma slice_layout:
  assumes "length a = 4" and "length b = 16" and "length z = 3"
  shows "slice 1 5 ([c] @ a @ b @ z) = a" and "slice 5 21 ([c] @ a @ b @ z) = b"
    and "slice 21 24 ([c] @ a @ b @ z) = z" and "([c] @ a @ b @ z) ! 0 = c"
  using assms by (simp_all add: slice_def)

lemma decode_sort_key:
  assumes "key_wf k" and nz: "nk_sign k \<noteq> Zero"
  shows "decode_nonzero_numeric_range_sidecar_key (numeric_range_sort_key k) =
    Inr (k, magnitude_rank k, bit_length k)"
proof -
  let ?a = "to_be_bytes (if nk_sign k = Negative then NOT (rank_bits k) else rank_bits k)"
  let ?b = "to_be_bytes (if nk_sign k = Negative then NOT (normalized_fraction k) else normalized_fraction k)"
  have l: "length ?a = 4" "length ?b = 16" "length [0, 0, 0 :: u8] = 3" by simp_all
  have bl: "bit_length k \<le> 128" using bits_len_unat_le [of "nk_significand k"] by simp
  have e: "magnitude_rank k - (int (bit_length k) - 1) = nk_exponent k" by (simp add: magnitude_rank_def)
  have lo: "\<not> nk_exponent k < - (2 ^ 31)" using assms by (simp add: key_wf_def)
  have k: "\<lparr>nk_sign = nk_sign k, nk_exponent = nk_exponent k, nk_significand = nk_significand k\<rparr> = k"
    by (cases k) simp
  have sub: "128 - (128 - bit_length k) = bit_length k" using bl by simp
  show ?thesis
    using nz fraction_back [OF assms] rank_bits_back [OF assms] lo k e sub
    unfolding sort_key_layout [OF nz] decode_nonzero_numeric_range_sidecar_key_def slice_layout [OF l] Let_def
    by (cases "nk_sign k") (simp_all del: bit_length_bits_len)
qed

lemma r_validate_nonzero:
  assumes "key_wf k" and nz: "nk_sign k \<noteq> Zero"
  shows "validate_numeric_range_sidecar_key (numeric_range_sort_key k) = Inr () \<longleftrightarrow>
    numeric_scalar_key_is_emittable k (magnitude_rank k) (bit_length k)"
proof -
  let ?a = "to_be_bytes (if nk_sign k = Negative then NOT (rank_bits k) else rank_bits k)"
  let ?b = "to_be_bytes (if nk_sign k = Negative then NOT (normalized_fraction k) else normalized_fraction k)"
  have l: "length ?a = 4" "length ?b = 16" "length [0, 0, 0 :: u8] = 3" by simp_all
  have "numeric_range_sort_key k ! 0 = (if nk_sign k = Negative then 0 else 2)"
      "slice 21 24 (numeric_range_sort_key k) = [0, 0, 0]"
    unfolding sort_key_layout [OF nz] slice_layout [OF l] by simp_all
  then show ?thesis
    by (simp add: validate_numeric_range_sidecar_key_def decode_sort_key [OF assms] del: bit_length_bits_len)
qed

lemma odd_unat: "odd (unat (w :: 'a::len word)) \<longleftrightarrow> odd w"
  by (simp add: bit_unsigned_iff flip: bit_0)

lemma emittable_iff:
  assumes "key_wf k" and "nk_sign k \<noteq> Zero"
  shows "numeric_scalar_key_is_emittable k rank bl \<longleftrightarrow>
    (bl \<le> 53 \<and> rank \<le> 1023) \<or> nk_exponent k \<ge> 0 \<and>
      (if nk_sign k = Positive then rank \<le> 63
       else rank < 63 \<or> (rank = 63 \<and> nk_significand k = 1 \<and> nk_exponent k = 63))"
proof -
  have "odd (unat (nk_significand k))" and "- 1074 \<le> nk_exponent k" using assms by (simp_all add: key_wf_def)
  then have "nk_significand k \<noteq> 0" and "nk_significand k AND 1 \<noteq> 0"
    by (auto simp: and_one_eq mod_2_eq_odd odd_unat)
  then show ?thesis
    using assms(2) \<open>- 1074 \<le> nk_exponent k\<close>
    by (cases "nk_sign k") (auto simp: numeric_scalar_key_is_emittable_def)
qed

lemma nk_nonzero_size:
  assumes "sig \<noteq> 0" and "unat sig < 2 ^ n"
  shows "e \<le> nk_exponent (nk_nonzero s sig e)" and "bit_length (nk_nonzero s sig e) \<le> n"
proof -
  have "unat (drop_bit t sig) < 2 ^ n" for t
    unfolding unat_drop_bit using assms(2) by (meson div_le_dividend order_le_less_trans)
  then show "e \<le> nk_exponent (nk_nonzero s sig e)" "bit_length (nk_nonzero s sig e) \<le> n"
    using assms(1) by (simp_all add: nk_nonzero_def trailing_zeros_def Let_def bits_len_le)
qed

lemma rank_less_if_mag_less:
  assumes "key_wf k" and "nk_sign k \<noteq> Zero" and "key_mag k < 2 powi e"
  shows "magnitude_rank k < e"
  using key_mag_bounds(1) [OF key_wf_nonzero [OF assms(1,2)]] assms(3) powi_less_powi
  by (meson order_le_less_trans)

lemma int_key_emittable:
  assumes k: "key_wf k" "nk_sign k \<noteq> Zero" and e: "0 \<le> nk_exponent k"
    and mag: "key_mag k < 2 powi 64" and neg: "nk_sign k = Negative \<Longrightarrow> key_mag k \<le> 2 powi 63"
  shows "numeric_scalar_key_is_emittable k (magnitude_rank k) (bit_length k)"
proof (cases "nk_sign k = Positive")
  case True
  then show ?thesis using rank_less_if_mag_less [OF k mag] e by (simp add: emittable_iff [OF k])
next
  case False
  then have n: "nk_sign k = Negative" using k(2) by (cases "nk_sign k") simp_all
  show ?thesis
  proof (cases "key_mag k < 2 powi 63")
    case True
    then show ?thesis using rank_less_if_mag_less [OF k True] e n by (simp add: emittable_iff [OF k])
  next
    case False
    let ?m = "\<lparr>nk_sign = Negative, nk_exponent = 63, nk_significand = 1\<rparr> :: numeric_scalar_key"
    have "key_val k = - (2 powi 63)" using n neg [OF n] False by (simp add: key_val_def)
    moreover have "key_wf ?m" "key_val ?m = - (2 powi 63)"
      by (simp_all add: key_wf_def key_val_def key_mag_def)
    ultimately have km: "k = ?m" using key_val_inject [OF k(1)] by metis
    have "bits_len 1 = 1" by (simp add: bits_len.simps)
    then show ?thesis using k by (simp add: emittable_iff) (simp add: km magnitude_rank_def)
  qed
qed

lemma numeric_key_emittable:
  assumes "numeric_key v = Some k" and nz: "nk_sign k \<noteq> Zero"
  shows "numeric_scalar_key_is_emittable k (magnitude_rank k) (bit_length k)"
proof -
  have wf: "key_wf k" and num: "prop_number v = Some (key_val k)" using numeric_key_Some assms(1) by blast+
  show ?thesis
  proof (cases v)
    case (SInt x)
    have "0 \<le> nk_exponent (numeric_key_from_i64 x)"
      by (auto simp: numeric_key_from_i64_def nk_zero_def nk_nonzero_def Let_def)
    moreover have "key_val k = of_int (sint x)" using num SInt by simp
    moreover have "- (2 ^ 63) \<le> sint x" "sint x < 2 ^ 63" using sint_ge [of x] sint_lt [of x] by simp_all
    ultimately show ?thesis
      using SInt assms wf by (intro int_key_emittable) (auto simp: numeric_key_def key_val_def split: numeric_sign.splits)
  next
    case (UInt x)
    have "0 \<le> nk_exponent (numeric_key_from_u64 x)" "nk_sign k \<noteq> Negative"
      using UInt assms(1) by (auto simp: numeric_key_def numeric_key_from_u64_def nk_zero_def nk_nonzero_def Let_def
          split: if_splits)
    moreover have "key_val k = real (unat x)" using num UInt by simp
    moreover have "unat x < 2 ^ 64" using unat_less_pow [of x] by simp
    ultimately show ?thesis
      using UInt assms wf by (intro int_key_emittable) (auto simp: numeric_key_def key_val_def split: numeric_sign.splits)
  next
    case (Float x)
    then have "numeric_key_from_f64 x = Some k" using assms(1) by (simp add: numeric_key_def)
    then show ?thesis
    proof (cases rule: f64_key_cases)
      case zero
      with nz show ?thesis by (simp add: nk_zero_def)
    next
      case (nonzero s sig e)
      have "key_mag k = real (unat sig) * 2 powi e" using nk_nonzero_key(2) [OF nonzero(4,5,3)] nonzero(2) by simp
      also have "\<dots> < 2 ^ 53 * 2 powi e" using nonzero(5) by simp
      also have "\<dots> \<le> 2 ^ 53 * 2 powi 971" using nonzero(7) by (intro mult_left_mono power_int_increasing) auto
      also have "\<dots> = 2 powi 1024" using powi_add [of 53 971] powi_nat [of 53] by simp
      finally have "magnitude_rank k < 1024" using rank_less_if_mag_less [OF wf nz] by blast
      moreover have "bit_length k \<le> 53" using nk_nonzero_size(2) [OF nonzero(4,5)] nonzero(2) by simp
      ultimately show ?thesis by (simp add: emittable_iff [OF wf nz])
    qed
  qed (use assms in \<open>simp_all add: numeric_key_def\<close>)
qed

text \<open>Conversely, a double with given fields and the values behind an emittable key.\<close>

definition mk_f64 :: "nat \<Rightarrow> nat \<Rightarrow> nat \<Rightarrow> f64" where
  "mk_f64 s e f = of_nat (s * 2 ^ 63 + e * 2 ^ 52 + f)"

lemma mk_f64_fields:
  assumes "s < 2" and "e < 2048" and "f < 2 ^ 52"
  shows "unat (f64_fraction (mk_f64 s e f)) = f" and "unat (f64_exp_bits (mk_f64 s e f)) = e"
    and "drop_bit 63 (mk_f64 s e f) = 0 \<longleftrightarrow> s = 0"
proof -
  let ?n = "s * 2 ^ 63 + e * 2 ^ 52 + f"
  have "e * 2 ^ 52 \<le> 2047 * 2 ^ 52" using assms(2) by simp
  moreover have "s * 2 ^ 63 \<le> 2 ^ 63" using assms(1) by simp
  ultimately have "?n < 2 ^ 64" and lo: "e * 2 ^ 52 + f < 2 ^ 63" using assms(3) by simp_all
  then have u: "unat (mk_f64 s e f) = ?n" unfolding mk_f64_def by (intro unat_of_nat_small) simp
  have n: "?n = (s * 2048 + e) * 2 ^ 52 + f" by simp
  have q: "(q * 2 ^ 52 + f) mod 2 ^ 52 = f" "(q * 2 ^ 52 + f) div 2 ^ 52 = q" for q
    using assms(3) by simp_all
  show "unat (f64_fraction (mk_f64 s e f)) = f"
    unfolding f64_fraction_take_bit unat_take_bit u n by (rule q)
  have "unat (f64_exp_bits (mk_f64 s e f)) = ((s * 2048 + e) * 2 ^ 52 + f) div 2 ^ 52 mod 2 ^ 11"
    unfolding f64_exp_bits_take_bit unat_take_bit unat_drop_bit u n ..
  also have "\<dots> = (s * 2048 + e) mod 2048" by (simp only: q) simp
  also have "\<dots> = e" using assms(2) by simp
  finally show "unat (f64_exp_bits (mk_f64 s e f)) = e" .
  have "unat (drop_bit 63 (mk_f64 s e f)) = s"
    unfolding unat_drop_bit u using lo by simp
  then show "drop_bit 63 (mk_f64 s e f) = 0 \<longleftrightarrow> s = 0" by (metis unat_0 word_nonzero_iff)
qed

lemma mk_f64_real:
  assumes "s < 2" and "e < 2047" and "f < 2 ^ 52"
  shows "prop_number (Float (mk_f64 s e f)) = Some ((if s = 0 then 1 else - 1) *
    (if e = 0 then real f * 2 powi (- 1074) else real (2 ^ 52 + f) * 2 powi (int e - 1075)))"
proof -
  have e: "e < 2048" using assms(2) by simp
  note fld = mk_f64_fields [OF assms(1) e assms(3)]
  have ue: "uint (f64_exp_bits (mk_f64 s e f)) = int e" using fld(2) by (metis of_nat_unat)
  have "unat (0x7ff :: u64) = 2047" by simp
  then have "f64_is_finite (mk_f64 s e f)"
    using fld(2) assms(2) by (auto simp: f64_is_finite_def)
  moreover have "f64_exp_bits (mk_f64 s e f) = 0 \<longleftrightarrow> e = 0" using fld(2) by (metis word_nonzero_iff)
  ultimately show ?thesis using fld ue by (cases "e = 0") (auto simp: f64_real_def)
qed

lemma numeric_keyI: "prop_number v = Some (key_val k) \<Longrightarrow> key_wf k \<Longrightarrow> numeric_key v = Some k"
  using numeric_key_exactness [of v] key_val_inject [of _ k] by auto

lemma f64_for_key:
  assumes wf: "key_wf k" and nz: "nk_sign k \<noteq> Zero" and bl: "bit_length k \<le> 53" and rank: "magnitude_rank k \<le> 1023"
  shows "\<exists>v. numeric_key v = Some k"
proof -
  let ?b = "bit_length k" and ?m = "unat (nk_significand k)" and ?r = "magnitude_rank k"
  let ?s = "if nk_sign k = Negative then 1 else 0 :: nat"
  have m0: "?m \<noteq> 0" using key_wf_nonzero [OF wf nz] .
  have m: "2 ^ ?b \<le> 2 * ?m" "?m < 2 ^ ?b" using two_pow_bits_len_le [OF m0] less_two_pow_bits_len [of ?m] by simp_all
  have e: "- 1074 \<le> nk_exponent k" using wf nz by (simp add: key_wf_def)
  have val: "key_val k = (if ?s = 0 then 1 else - 1) * key_mag k" using nz by (cases "nk_sign k") (simp_all add: key_val_def)
  show ?thesis
  proof (cases "?r < - 1022")
    case True
    let ?t = "nat (nk_exponent k + 1074)" and ?f = "?m * 2 ^ nat (nk_exponent k + 1074)"
    have t: "int ?t + - 1074 = nk_exponent k" using e by simp
    have "?f < 2 ^ ?b * 2 ^ ?t" using m(2) by simp
    also have "\<dots> = 2 ^ (?b + ?t)" by (simp add: power_add)
    also have "\<dots> \<le> 2 ^ 52" using True e by (intro power_increasing) (auto simp: magnitude_rank_def)
    finally have f: "?f < 2 ^ 52" .
    have "real ?f * 2 powi (- 1074) = real ?m * (2 powi int ?t * 2 powi (- 1074))" by (simp only: powi_nat) simp
    also have "\<dots> = key_mag k" by (simp only: t key_mag_def flip: powi_add)
    finally have "prop_number (Float (mk_f64 ?s 0 ?f)) = Some (key_val k)"
      using mk_f64_real [of ?s 0 ?f] f val by simp
    then show ?thesis using numeric_keyI wf by blast
  next
    case False
    let ?M = "?m * 2 ^ (53 - ?b)" and ?e = "nat (?r + 1023)"
    have "?M < 2 ^ ?b * 2 ^ (53 - ?b)" "2 ^ ?b * 2 ^ (53 - ?b) \<le> 2 * ?M" using m by simp_all
    then have M: "?M < 2 ^ 53" "2 ^ 52 \<le> ?M" using bl by (simp_all flip: power_add)
    have pos: "0 < ?e" "?e < 2047" and ie: "int ?e = ?r + 1023" using False rank by simp_all
    have "int ?e - 1075 = nk_exponent k - int (53 - ?b)" using bl ie by (simp add: magnitude_rank_def of_nat_diff)
    then have "real ?M * 2 powi (int ?e - 1075) = key_mag k"
      by (simp add: key_mag_def power_int_diff)
    moreover have "2 ^ 52 + (?M - 2 ^ 52) = ?M" using M(2) by simp
    ultimately have "prop_number (Float (mk_f64 ?s ?e (?M - 2 ^ 52))) = Some (key_val k)"
      using mk_f64_real [of ?s ?e "?M - 2 ^ 52"] M pos val by simp
    then show ?thesis using numeric_keyI wf by blast
  qed
qed

lemma sint_neg_nat: "n \<le> 2 ^ 63 \<Longrightarrow> sint (word_of_int (- int n) :: i64) = - int n"
proof -
  assume "n \<le> 2 ^ 63"
  then have "int n \<le> 2 ^ 63" using of_nat_mono [of n "2 ^ 63", where 'a = int] by simp
  then show ?thesis
    by (simp only: sint_sbintrunc') (rule signed_take_bit_int_eq_self, simp_all)
qed

lemma int_for_key:
  assumes wf: "key_wf k" and nz: "nk_sign k \<noteq> Zero" and e: "0 \<le> nk_exponent k"
    and em: "numeric_scalar_key_is_emittable k (magnitude_rank k) (bit_length k)" and big: "\<not> bit_length k \<le> 53"
  shows "\<exists>v. numeric_key v = Some k"
proof -
  let ?n = "unat (nk_significand k) * 2 ^ nat (nk_exponent k)" and ?r = "magnitude_rank k"
  have mag: "key_mag k = real ?n" using e powi_nat [of "nat (nk_exponent k)"] by (simp add: key_mag_def)
  have less: "real ?n < 2 powi (?r + 1)" using key_mag_bounds(2) [OF key_wf_nonzero [OF wf nz]] mag by simp
  have bound: "?n < 2 ^ j" if "?r + 1 \<le> int j" for j
  proof -
    have "(2::real) powi (?r + 1) \<le> 2 powi int j" using that by (intro power_int_increasing) auto
    with less have "real ?n < 2 ^ j" by (simp only: powi_nat)
    then show ?thesis by (metis of_nat_less_iff of_nat_numeral of_nat_power)
  qed
  show ?thesis
  proof (cases "nk_sign k = Positive")
    case True
    with em big have "?r \<le> 63" by (simp add: emittable_iff [OF wf nz])
    then have "?n < 2 ^ 64" using bound [of 64] by simp
    then have "prop_number (UInt (of_nat ?n)) = Some (real ?n)"
      by (simp only: prop_number.simps) (simp add: unat_of_nat_small del: of_nat_mult of_nat_power)
    then show ?thesis using numeric_keyI wf True mag by (metis key_val_def numeric_sign.simps(9))
  next
    case False
    then have neg: "nk_sign k = Negative" using nz by (cases "nk_sign k") simp_all
    have n63: "?n \<le> 2 ^ 63"
      using em big bound [of 63] neg by (auto simp: emittable_iff [OF wf nz])
    then have "sint (word_of_int (- int ?n) :: i64) = - int ?n"
      by (rule sint_neg_nat)
    then have "prop_number (SInt (word_of_int (- int ?n))) = Some (- real ?n)"
      by (simp only: prop_number.simps) simp
    then show ?thesis using numeric_keyI wf neg mag by (metis key_val_def numeric_sign.simps(7))
  qed
qed

lemma emittable_has_value:
  assumes "key_wf k" and "nk_sign k \<noteq> Zero"
    and "numeric_scalar_key_is_emittable k (magnitude_rank k) (bit_length k)"
  shows "\<exists>v. numeric_key v = Some k"
proof (cases "bit_length k \<le> 53 \<and> magnitude_rank k \<le> 1023")
  case True
  then show ?thesis using f64_for_key assms by blast
next
  case False
  with assms(3) have e: "0 \<le> nk_exponent k" and r: "magnitude_rank k \<le> 63"
    by (auto simp: emittable_iff [OF assms(1,2)] split: if_splits)
  with False have "\<not> bit_length k \<le> 53" by auto
  then show ?thesis using int_for_key [OF assms(1,2) e assms(3)] by blast
qed

text \<open>What the decoder returns is consistent with itself.\<close>

lemma decode_nonzero_facts:
  assumes "decode_nonzero_numeric_range_sidecar_key bs = Inr (k, rank, bl)"
  shows "nk_sign k \<noteq> Zero" and "bit_length k = bl" and "magnitude_rank k = rank"
proof -
  from assms obtain f where f: "f \<noteq> 0" "leading_zeros (f :: u128) = 0" "bl = 128 - trailing_zeros f"
    and k: "nk_significand k = drop_bit (128 - bl) f" "nk_exponent k = rank - (int bl - 1)" "nk_sign k \<noteq> Zero"
    by (auto simp: decode_nonzero_numeric_range_sidecar_key_def Let_def split: if_splits)
  have nz: "unat f \<noteq> 0" using f(1) word_nonzero_iff by blast
  then obtain m where m: "odd m" "unat f = m * 2 ^ ctz (unat f)" using ctz_odd_part by blast
  have m0: "m \<noteq> 0" using m(1) by (metis even_zero)
  have "bits_len (unat f) = 128"
    using f(2) bits_len_unat_le [of f] by (simp add: leading_zeros_def)
  then have b: "bits_len m + ctz (unat f) = 128" using bits_len_mult [OF m0] m(2) by metis
  have bl: "bl = bits_len m" "128 - bl = ctz (unat f)" using f(1,3) b by (simp_all add: trailing_zeros_def)
  have "unat (nk_significand k) = m"
    unfolding k(1) unat_drop_bit bl(2) using m(2)
    by (metis nonzero_mult_div_cancel_right power_not_zero zero_neq_numeral)
  then show "bit_length k = bl" "magnitude_rank k = rank" "nk_sign k \<noteq> Zero"
    using bl k by (simp_all add: magnitude_rank_def)
qed

lemma emittable_wf:
  assumes "nk_sign k \<noteq> Zero" and "numeric_scalar_key_is_emittable k (magnitude_rank k) (bit_length k)"
  shows "key_wf k"
proof -
  have odd: "odd (unat (nk_significand k))"
    using assms(2) by (auto simp: numeric_scalar_key_is_emittable_def and_one_eq mod_2_eq_odd odd_unat)
  then have "0 < bits_len (unat (nk_significand k))" using bits_len_pos odd_pos by fastforce
  with odd assms show ?thesis
    by (auto simp: key_wf_def numeric_scalar_key_is_emittable_def magnitude_rank_def split: numeric_sign.splits)
qed

lemma slice_zero_key:
  assumes "length bs = 24"
  shows "bs ! 0 = 1 \<and> \<not> list_ex (\<lambda>b. b \<noteq> 0) (slice 1 24 bs) \<longleftrightarrow> bs = [1] @ replicate 23 0"
proof -
  obtain c t where bs: "bs = c # t" "length t = 23" using assms by (cases bs) auto
  have "\<not> list_ex (\<lambda>b. b \<noteq> 0) t \<longleftrightarrow> t = replicate 23 0"
    using bs(2) by (metis (mono_tags, lifting) list_ex_iff in_set_replicate replicate_eqI)
  then show ?thesis using bs by (simp add: slice_def)
qed

lemma sidecar_key_valid_iff:
  assumes "length bs = NUMERIC_RANGE_KEY_BYTES"
  shows "validate_numeric_range_sidecar_key bs = Inr () \<longleftrightarrow>
    (\<exists>v. numeric_range_sort_key_for_value v = Some bs)"
proof
  assume "\<exists>v. numeric_range_sort_key_for_value v = Some bs"
  then obtain v k where k: "numeric_key v = Some k" and bs: "bs = numeric_range_sort_key k"
    by (auto simp: numeric_range_sort_key_for_value_def)
  then have wf: "key_wf k" using numeric_key_Some by blast
  show "validate_numeric_range_sidecar_key bs = Inr ()"
  proof (cases "nk_sign k = Zero")
    case True
    then have "bs = [1] @ replicate 23 0" using bs by (simp add: sort_key_signed)
    then show ?thesis
      using slice_zero_key [of bs] assms by (simp add: validate_numeric_range_sidecar_key_def NUMERIC_RANGE_KEY_BYTES_def)
  next
    case False
    then show ?thesis using numeric_key_emittable [OF k False] r_validate_nonzero [OF wf False] bs by simp
  qed
next
  assume ok: "validate_numeric_range_sidecar_key bs = Inr ()"
  show "\<exists>v. numeric_range_sort_key_for_value v = Some bs"
  proof (cases "bs ! 0 = 1")
    case True
    with ok have "bs = [1] @ replicate 23 0"
      using slice_zero_key [of bs] assms
      by (auto simp: validate_numeric_range_sidecar_key_def NUMERIC_RANGE_KEY_BYTES_def split: if_splits)
    then have "numeric_range_sort_key_for_value (SInt 0) = Some bs"
      by (simp add: numeric_range_sort_key_for_value_def numeric_key_def numeric_key_from_i64_def
          numeric_range_sort_key_def nk_zero_def)
    then show ?thesis ..
  next
    case False
    with ok obtain k rank bl where d: "decode_nonzero_numeric_range_sidecar_key bs = Inr (k, rank, bl)"
      and em: "numeric_scalar_key_is_emittable k rank bl" and bs: "numeric_range_sort_key k = bs"
      by (auto simp: validate_numeric_range_sidecar_key_def r_bind_eq_Inr split: if_splits)
    note f = decode_nonzero_facts [OF d]
    have em': "numeric_scalar_key_is_emittable k (magnitude_rank k) (bit_length k)" using em f by simp
    have wf: "key_wf k" by (rule emittable_wf [OF f(1) em'])
    then show ?thesis
      using emittable_has_value [OF wf f(1) em'] bs by (auto simp: numeric_range_sort_key_for_value_def)
  qed
qed

text \<open>
  C32. The sidecar validator is exact: a 24-byte string read from a range sidecar is accepted exactly
  when it is the sort key of some signed or unsigned integer or finite double. Nothing the
  engine can write is rejected, and nothing it cannot write is accepted.
\<close>

theorem validate_sidecar_key_exact:
  assumes "length bs = NUMERIC_RANGE_KEY_BYTES"
  shows "validate_numeric_range_sidecar_key bs = Inr () \<longleftrightarrow>
    (\<exists>v. numeric_range_sort_key_for_value v = Some bs)"
  by (rule sidecar_key_valid_iff [OF assms])

theorem validate_sidecar_key_exact_witness:
  "validate_numeric_range_sidecar_key ([1] @ replicate 23 0) = Inr ()"
  using validate_sidecar_key_exact [of "[1] @ replicate 23 0"]
  by (auto simp: NUMERIC_RANGE_KEY_BYTES_def numeric_range_sort_key_for_value_def numeric_key_def
      numeric_key_from_i64_def numeric_range_sort_key_def nk_zero_def intro: exI [of _ "SInt 0"])

end
