(* ===== verification/Compound_Keys.thy ===== *)
theory Compound_Keys
  imports Range_Semantics
begin

text \<open>
  Tuple keys of compound secondary indexes, \<^verbatim>\<open>src/src/secondary_index_key.rs\<close>: one component
  per declared field, each a class tag, a big-endian length and a payload; strings and byte
  strings over a limit are replaced by a domain-separated hash, and when the whole tuple is too
  long the longest variable component is hashed until it fits. Also the key ranges that prefix
  and range queries scan, and the declarations of \<^verbatim>\<open>src/src/types.rs\<close> they refer to.
\<close>

section \<open>Index declarations\<close>

datatype secondary_index_kind = Equality | Range

datatype node_metadata_index_field = NodeIdField | NodeKeyField | NodeWeightField | NodeCreatedAtField | NodeUpdatedAtField

datatype edge_metadata_index_field =
    EdgeIdField | EdgeFromField | EdgeToField | EdgeWeightField | EdgeCreatedAtField | EdgeUpdatedAtField
  | EdgeValidFromField | EdgeValidToField

text \<open>The variants the manifest stores, and the \<^verbatim>\<open>From\<close> impls between them and the public ones.\<close>

datatype node_metadata_index_field_manifest = NmId | NmKey | NmWeight | NmCreatedAt | NmUpdatedAt

datatype edge_metadata_index_field_manifest =
  EmId | EmFrom | EmTo | EmWeight | EmCreatedAt | EmUpdatedAt | EmValidFrom | EmValidTo

fun node_field_into_manifest :: "node_metadata_index_field \<Rightarrow> node_metadata_index_field_manifest" where
  "node_field_into_manifest NodeIdField = NmId"
| "node_field_into_manifest NodeKeyField = NmKey"
| "node_field_into_manifest NodeWeightField = NmWeight"
| "node_field_into_manifest NodeCreatedAtField = NmCreatedAt"
| "node_field_into_manifest NodeUpdatedAtField = NmUpdatedAt"

fun node_field_from_manifest :: "node_metadata_index_field_manifest \<Rightarrow> node_metadata_index_field" where
  "node_field_from_manifest NmId = NodeIdField"
| "node_field_from_manifest NmKey = NodeKeyField"
| "node_field_from_manifest NmWeight = NodeWeightField"
| "node_field_from_manifest NmCreatedAt = NodeCreatedAtField"
| "node_field_from_manifest NmUpdatedAt = NodeUpdatedAtField"

fun edge_field_into_manifest :: "edge_metadata_index_field \<Rightarrow> edge_metadata_index_field_manifest" where
  "edge_field_into_manifest EdgeIdField = EmId"
| "edge_field_into_manifest EdgeFromField = EmFrom"
| "edge_field_into_manifest EdgeToField = EmTo"
| "edge_field_into_manifest EdgeWeightField = EmWeight"
| "edge_field_into_manifest EdgeCreatedAtField = EmCreatedAt"
| "edge_field_into_manifest EdgeUpdatedAtField = EmUpdatedAt"
| "edge_field_into_manifest EdgeValidFromField = EmValidFrom"
| "edge_field_into_manifest EdgeValidToField = EmValidTo"

fun edge_field_from_manifest :: "edge_metadata_index_field_manifest \<Rightarrow> edge_metadata_index_field" where
  "edge_field_from_manifest EmId = EdgeIdField"
| "edge_field_from_manifest EmFrom = EdgeFromField"
| "edge_field_from_manifest EmTo = EdgeToField"
| "edge_field_from_manifest EmWeight = EdgeWeightField"
| "edge_field_from_manifest EmCreatedAt = EdgeCreatedAtField"
| "edge_field_from_manifest EmUpdatedAt = EdgeUpdatedAtField"
| "edge_field_from_manifest EmValidFrom = EdgeValidFromField"
| "edge_field_from_manifest EmValidTo = EdgeValidToField"

datatype secondary_index_field_manifest =
    Property rstring
  | NodeMetadata node_metadata_index_field_manifest
  | EdgeMetadata edge_metadata_index_field_manifest

datatype secondary_index_target =
    NodeProperty u32 rstring
  | EdgeProperty u32 rstring
  | NodeFieldIndex u32 "secondary_index_field_manifest list"
  | EdgeFieldIndex u32 "secondary_index_field_manifest list"

datatype secondary_index_state = Building | Ready | Failed

record secondary_index_manifest_entry =
  sie_index_id :: u64
  sie_target :: secondary_index_target
  sie_kind :: secondary_index_kind
  sie_state :: secondary_index_state
  sie_last_error :: "rstring option"

fun node_metadata_index_field_name :: "node_metadata_index_field \<Rightarrow> rstring" where
  "node_metadata_index_field_name NodeIdField = str ''id''"
| "node_metadata_index_field_name NodeKeyField = str ''key''"
| "node_metadata_index_field_name NodeWeightField = str ''weight''"
| "node_metadata_index_field_name NodeCreatedAtField = str ''created_at''"
| "node_metadata_index_field_name NodeUpdatedAtField = str ''updated_at''"

fun edge_metadata_index_field_name :: "edge_metadata_index_field \<Rightarrow> rstring" where
  "edge_metadata_index_field_name EdgeIdField = str ''id''"
| "edge_metadata_index_field_name EdgeFromField = str ''from''"
| "edge_metadata_index_field_name EdgeToField = str ''to''"
| "edge_metadata_index_field_name EdgeWeightField = str ''weight''"
| "edge_metadata_index_field_name EdgeCreatedAtField = str ''created_at''"
| "edge_metadata_index_field_name EdgeUpdatedAtField = str ''updated_at''"
| "edge_metadata_index_field_name EdgeValidFromField = str ''valid_from''"
| "edge_metadata_index_field_name EdgeValidToField = str ''valid_to''"

section \<open>Components\<close>

definition MAX_SECONDARY_INDEX_FIELDS :: nat where
  "MAX_SECONDARY_INDEX_FIELDS = 8"

definition MAX_COMPOUND_COMPONENT_BYTES :: nat where
  "MAX_COMPOUND_COMPONENT_BYTES = 1024"

definition MAX_COMPOUND_TUPLE_BYTES :: nat where
  "MAX_COMPOUND_TUPLE_BYTES = 4096"

datatype compound_component_class =
  CMissing | CNull | CBoolFalse | CBoolTrue | CNumeric | CString | CBytes | CEqualityHash

fun class_tag :: "compound_component_class \<Rightarrow> u8" where
  "class_tag CMissing = 0x01"
| "class_tag CNull = 0x02"
| "class_tag CBoolFalse = 0x03"
| "class_tag CBoolTrue = 0x04"
| "class_tag CNumeric = 0x10"
| "class_tag CString = 0x20"
| "class_tag CBytes = 0x30"
| "class_tag CEqualityHash = 0x40"

definition corrupt_compound_sidecar :: "string \<Rightarrow> engine_error" where
  "corrupt_compound_sidecar message = CorruptRecord message"

definition class_from_tag :: "u8 \<Rightarrow> engine_error + compound_component_class" where
  "class_from_tag tag =
     (if tag = 0x01 then Inr CMissing else if tag = 0x02 then Inr CNull
      else if tag = 0x03 then Inr CBoolFalse else if tag = 0x04 then Inr CBoolTrue
      else if tag = 0x10 then Inr CNumeric else if tag = 0x20 then Inr CString
      else if tag = 0x30 then Inr CBytes else if tag = 0x40 then Inr CEqualityHash
      else Inl (corrupt_compound_sidecar ''compound tuple component has invalid class''))"

datatype compound_sidecar_target_kind = TargetNode | TargetEdge

fun target_kind_tag :: "compound_sidecar_target_kind \<Rightarrow> u8" where
  "target_kind_tag TargetNode = 1"
| "target_kind_tag TargetEdge = 2"

datatype compound_field_source = SourceProperty | SourceNodeMetadata | SourceEdgeMetadata

fun field_source_tag :: "compound_field_source \<Rightarrow> u8" where
  "field_source_tag SourceProperty = 1"
| "field_source_tag SourceNodeMetadata = 2"
| "field_source_tag SourceEdgeMetadata = 3"

datatype compound_field_value =
    PropertyValue "prop_value option"
  | MetadataString rstring
  | MetadataI64 i64
  | MetadataU64 u64
  | MetadataF64 f64

record compound_tuple_context =
  ctx_target_kind :: compound_sidecar_target_kind
  ctx_target_label_id :: u32
  ctx_fields :: "secondary_index_field_manifest list"

definition from_manifest_entry :: "secondary_index_manifest_entry \<Rightarrow> engine_error + compound_tuple_context" where
  "from_manifest_entry entry = (case sie_target entry of
     NodeFieldIndex label_id flds \<Rightarrow>
       Inr \<lparr>ctx_target_kind = TargetNode, ctx_target_label_id = label_id, ctx_fields = flds\<rparr>
   | EdgeFieldIndex label_id flds \<Rightarrow>
       Inr \<lparr>ctx_target_kind = TargetEdge, ctx_target_label_id = label_id, ctx_fields = flds\<rparr>
   | _ \<Rightarrow> Inl (InvalidOperation ''single-property declarations use legacy sidecars''))"

fun field_source :: "secondary_index_field_manifest \<Rightarrow> compound_field_source" where
  "field_source (Property _) = SourceProperty"
| "field_source (NodeMetadata _) = SourceNodeMetadata"
| "field_source (EdgeMetadata _) = SourceEdgeMetadata"

fun canonical_field_name :: "secondary_index_field_manifest \<Rightarrow> rstring" where
  "canonical_field_name (Property key) = key"
| "canonical_field_name (NodeMetadata field) = node_metadata_index_field_name (node_field_from_manifest field)"
| "canonical_field_name (EdgeMetadata field) = edge_metadata_index_field_name (edge_field_from_manifest field)"

definition put_len_prefixed :: "bytes \<Rightarrow> bytes \<Rightarrow> bytes" where
  "put_len_prefixed target bs = target @ to_le_bytes (of_nat (length bs) :: u64) @ bs"

definition COMPOUND_EQUALITY_HASH_DOMAIN :: bytes where
  "COMPOUND_EQUALITY_HASH_DOMAIN = str ''compound-equality-component-v1''"

definition equality_hash_payload ::
    "compound_tuple_context \<Rightarrow> nat \<Rightarrow> secondary_index_field_manifest \<Rightarrow> bytes \<Rightarrow> bytes" where
  "equality_hash_payload context ordinal field semantic_bytes =
     (let bs = COMPOUND_EQUALITY_HASH_DOMAIN @ [target_kind_tag (ctx_target_kind context)]
            @ to_le_bytes (ctx_target_label_id context)
            @ to_le_bytes (of_nat (length (ctx_fields context)) :: u16)
            @ to_le_bytes (of_nat ordinal :: u16)
            @ [field_source_tag (field_source field)];
          bs = put_len_prefixed bs (canonical_field_name field);
          bs = bs @ to_le_bytes (hash_semantic_equality_key_bytes semantic_bytes);
          bs = put_len_prefixed bs semantic_bytes
      in to_le_bytes (fnv1a bs))"

definition emit_component :: "compound_component_class \<Rightarrow> bytes \<Rightarrow> engine_error + bytes" where
  "emit_component class payload =
     (if length payload > 65535 then Inl (InvalidOperation ''component payload length exceeds u16'')
      else Inr ([class_tag class] @ to_be_bytes (of_nat (length payload) :: u16) @ payload))"

record component_encoding =
  ce_bytes :: bytes
  ce_hashable_variable_len :: "nat option"

definition fixed_component :: "compound_component_class \<Rightarrow> bytes \<Rightarrow> engine_error + component_encoding" where
  "fixed_component class payload = r_bind (emit_component class payload) (\<lambda>bs.
     Inr \<lparr>ce_bytes = bs, ce_hashable_variable_len = None\<rparr>)"

definition variable_component :: "compound_component_class \<Rightarrow> bytes \<Rightarrow> engine_error + component_encoding" where
  "variable_component class payload = r_bind (emit_component class payload) (\<lambda>bs.
     Inr \<lparr>ce_bytes = bs, ce_hashable_variable_len = Some (length payload)\<rparr>)"

text \<open>
  Numeric values become their sort key; floats that have none (NaN, infinities) are hashed. Integers
  always have a sort key, so for them this is the source's \<^verbatim>\<open>expect\<close> branch that cannot fail.
\<close>

definition numeric_or_hash ::
    "compound_tuple_context \<Rightarrow> nat \<Rightarrow> secondary_index_field_manifest \<Rightarrow> bytes \<Rightarrow> prop_value \<Rightarrow> engine_error + component_encoding" where
  "numeric_or_hash context ordinal field semantic_bytes value =
     (case numeric_range_sort_key_for_value value of
        Some key \<Rightarrow> fixed_component CNumeric key
      | None \<Rightarrow> fixed_component CEqualityHash (equality_hash_payload context ordinal field semantic_bytes))"

definition encode_property_component ::
    "(prop_value \<Rightarrow> bytes) \<Rightarrow> compound_tuple_context \<Rightarrow> nat \<Rightarrow> secondary_index_field_manifest \<Rightarrow> prop_value \<Rightarrow> bool
       \<Rightarrow> engine_error + component_encoding" where
  "encode_property_component pv_to_vec context ordinal field value force_hash =
     (let hashed = fixed_component CEqualityHash
            (equality_hash_payload context ordinal field (semantic_equality_key_bytes pv_to_vec value))
      in case value of
        Null \<Rightarrow> fixed_component CNull []
      | Bool False \<Rightarrow> fixed_component CBoolFalse []
      | Bool True \<Rightarrow> fixed_component CBoolTrue []
      | SInt _ \<Rightarrow> numeric_or_hash context ordinal field (semantic_equality_key_bytes pv_to_vec value) value
      | UInt _ \<Rightarrow> numeric_or_hash context ordinal field (semantic_equality_key_bytes pv_to_vec value) value
      | Float _ \<Rightarrow> numeric_or_hash context ordinal field (semantic_equality_key_bytes pv_to_vec value) value
      | String s \<Rightarrow>
          if length s > MAX_COMPOUND_COMPONENT_BYTES \<or> force_hash then hashed else variable_component CString s
      | Bytes s \<Rightarrow>
          if length s > MAX_COMPOUND_COMPONENT_BYTES \<or> force_hash then hashed else variable_component CBytes s
      | Array _ \<Rightarrow> hashed
      | Map _ \<Rightarrow> hashed)"

definition value_matches_field :: "secondary_index_field_manifest \<Rightarrow> compound_field_value \<Rightarrow> bool" where
  "value_matches_field field value = (case field of
     Property _ \<Rightarrow> (case value of PropertyValue _ \<Rightarrow> True | _ \<Rightarrow> False)
   | NodeMetadata f \<Rightarrow> (case value of
        MetadataU64 _ \<Rightarrow> f = NmId
      | MetadataString _ \<Rightarrow> f = NmKey
      | MetadataF64 _ \<Rightarrow> f = NmWeight
      | MetadataI64 _ \<Rightarrow> f = NmCreatedAt \<or> f = NmUpdatedAt
      | _ \<Rightarrow> False)
   | EdgeMetadata f \<Rightarrow> (case value of
        MetadataU64 _ \<Rightarrow> f = EmId \<or> f = EmFrom \<or> f = EmTo
      | MetadataF64 _ \<Rightarrow> f = EmWeight
      | MetadataI64 _ \<Rightarrow> f = EmCreatedAt \<or> f = EmUpdatedAt \<or> f = EmValidFrom \<or> f = EmValidTo
      | _ \<Rightarrow> False))"

definition validate_value_matches_field ::
    "secondary_index_field_manifest \<Rightarrow> compound_field_value \<Rightarrow> engine_error + unit" where
  "validate_value_matches_field field value =
     (if value_matches_field field value then Inr ()
      else Inl (InvalidOperation ''value for field ordinal is incompatible with declaration field''))"

text \<open>A metadata value as the property value whose semantic bytes and sort key it shares.\<close>

fun metadata_prop_value :: "compound_field_value \<Rightarrow> prop_value" where
  "metadata_prop_value (MetadataString s) = String s"
| "metadata_prop_value (MetadataI64 v) = SInt v"
| "metadata_prop_value (MetadataU64 v) = UInt v"
| "metadata_prop_value (MetadataF64 v) = Float v"
| "metadata_prop_value (PropertyValue _) = Null"

definition metadata_semantic_equality_bytes :: "(prop_value \<Rightarrow> bytes) \<Rightarrow> compound_field_value \<Rightarrow> bytes" where
  "metadata_semantic_equality_bytes pv_to_vec value = semantic_equality_key_bytes pv_to_vec (metadata_prop_value value)"

definition encode_component ::
    "(prop_value \<Rightarrow> bytes) \<Rightarrow> compound_tuple_context \<Rightarrow> nat \<Rightarrow> secondary_index_field_manifest \<Rightarrow> compound_field_value \<Rightarrow> bool
       \<Rightarrow> engine_error + component_encoding" where
  "encode_component pv_to_vec context ordinal field value force_hash =
     r_bind (validate_value_matches_field field value) (\<lambda>_.
       let semantic = metadata_semantic_equality_bytes pv_to_vec value in
       case value of
         PropertyValue None \<Rightarrow> fixed_component CMissing []
       | PropertyValue (Some v) \<Rightarrow> encode_property_component pv_to_vec context ordinal field v force_hash
       | MetadataString s \<Rightarrow>
           if length s > MAX_COMPOUND_COMPONENT_BYTES \<or> force_hash
           then fixed_component CEqualityHash (equality_hash_payload context ordinal field semantic)
           else variable_component CString s
       | MetadataI64 v \<Rightarrow> numeric_or_hash context ordinal field semantic (SInt v)
       | MetadataU64 v \<Rightarrow> numeric_or_hash context ordinal field semantic (UInt v)
       | MetadataF64 v \<Rightarrow> numeric_or_hash context ordinal field semantic (Float v))"

section \<open>Tuples\<close>

definition validate_field_count :: "nat \<Rightarrow> engine_error + unit" where
  "validate_field_count field_count =
     (if 1 \<le> field_count \<and> field_count \<le> MAX_SECONDARY_INDEX_FIELDS then Inr ()
      else Inl (InvalidOperation ''field count is outside limits''))"

text \<open>The components of a tuple under given force-hash flags, in field order.\<close>

definition encode_all ::
    "(prop_value \<Rightarrow> bytes) \<Rightarrow> compound_tuple_context \<Rightarrow> compound_field_value list \<Rightarrow> bool list
       \<Rightarrow> engine_error + component_encoding list" where
  "encode_all pv_to_vec context values force_hash =
     r_map (\<lambda>(ordinal, field, value). encode_component pv_to_vec context ordinal field value (force_hash ! ordinal))
       (enumerate 0 (zip (ctx_fields context) values))"

text \<open>
  \<^verbatim>\<open>max_by_key\<close> over the components that can still be hashed: the last one of maximal length.
\<close>

definition hash_candidates :: "component_encoding list \<Rightarrow> bool list \<Rightarrow> (nat \<times> nat) list" where
  "hash_candidates encoded force_hash =
     concat (map (\<lambda>(ordinal, c). case ce_hashable_variable_len c of
         None \<Rightarrow> []
       | Some len \<Rightarrow> if force_hash ! ordinal then [] else [(ordinal, len)])
       (enumerate 0 encoded))"

definition max_by_len :: "(nat \<times> nat) list \<Rightarrow> (nat \<times> nat) option" where
  "max_by_len xs = foldl (\<lambda>best x. case best of
     None \<Rightarrow> Some x
   | Some b \<Rightarrow> if snd b \<le> snd x then Some x else Some b) None xs"

lemma max_by_len_mem: "max_by_len xs = Some x \<Longrightarrow> x \<in> set xs"
proof -
  have "foldl (\<lambda>best x. case best of None \<Rightarrow> Some x | Some b \<Rightarrow> if snd b \<le> snd x then Some x else Some b) b xs = Some x
      \<Longrightarrow> x \<in> set xs \<or> b = Some x" for b
    by (induction xs arbitrary: b) (force split: option.splits if_splits)+
  then show "max_by_len xs = Some x \<Longrightarrow> x \<in> set xs" by (force simp: max_by_len_def)
qed

lemma hash_candidates_mem:
  "(ordinal, len) \<in> set (hash_candidates encoded force_hash) \<Longrightarrow>
     ordinal < length encoded \<and> \<not> force_hash ! ordinal \<and> ce_hashable_variable_len (encoded ! ordinal) = Some len"
  by (auto simp: hash_candidates_def in_set_enumerate_eq split: option.splits if_splits)

lemma filter_Not_update:
  "i < length bs \<Longrightarrow> \<not> bs ! i \<Longrightarrow> length (filter Not (bs[i := True])) < length (filter Not bs)"
proof (induction bs arbitrary: i)
  case (Cons b bs)
  then show ?case by (cases i) auto
qed simp

text \<open>
  The loop around the encoder. Each round sets one more flag, which the bound on the flags left
  unset makes a terminating recursion; the \<^verbatim>\<open>get\<close> of a flag past the end cannot happen.
\<close>

function encode_compound_loop ::
    "(prop_value \<Rightarrow> bytes) \<Rightarrow> compound_tuple_context \<Rightarrow> compound_field_value list \<Rightarrow> bool list \<Rightarrow> engine_error + bytes" where
  "encode_compound_loop pv_to_vec context values force_hash =
     (case encode_all pv_to_vec context values force_hash of
        Inl e \<Rightarrow> Inl e
      | Inr encoded \<Rightarrow>
          let total_len = sum_list (map (length \<circ> ce_bytes) encoded) in
          if total_len \<le> MAX_COMPOUND_TUPLE_BYTES then Inr (concat (map ce_bytes encoded))
          else case max_by_len (hash_candidates encoded force_hash) of
            None \<Rightarrow> Inl (InvalidOperation ''encoded tuple length exceeds the maximum'')
          | Some (ordinal, _) \<Rightarrow>
              if ordinal < length force_hash
              then encode_compound_loop pv_to_vec context values (force_hash[ordinal := True])
              else Inl (InvalidOperation ''index out of bounds''))"
  by pat_completeness auto
termination
proof (relation "measure (\<lambda>(_, _, _, force_hash). length (filter Not force_hash))", goal_cases)
  case 1
  show ?case by simp
next
  case (2 pv ctx vals fh encoded total x ordinal len)
  then have "\<not> fh ! ordinal" and "ordinal < length fh"
    using hash_candidates_mem max_by_len_mem by blast+
  then show ?case by (simp add: filter_Not_update)
qed

declare encode_compound_loop.simps [simp del]

definition encode_compound_components ::
    "(prop_value \<Rightarrow> bytes) \<Rightarrow> compound_tuple_context \<Rightarrow> compound_field_value list \<Rightarrow> engine_error + bytes" where
  "encode_compound_components pv_to_vec context values =
     r_bind (validate_field_count (length (ctx_fields context))) (\<lambda>_.
       encode_compound_loop pv_to_vec context values (replicate (length values) False))"

definition encode_compound_tuple_key ::
    "(prop_value \<Rightarrow> bytes) \<Rightarrow> compound_tuple_context \<Rightarrow> compound_field_value list \<Rightarrow> engine_error + bytes" where
  "encode_compound_tuple_key pv_to_vec context values =
     (if length values \<noteq> length (ctx_fields context)
      then Inl (InvalidOperation ''tuple value count does not match field count'')
      else encode_compound_components pv_to_vec context values)"

definition encode_compound_tuple_prefix ::
    "(prop_value \<Rightarrow> bytes) \<Rightarrow> compound_tuple_context \<Rightarrow> compound_field_value list \<Rightarrow> engine_error + bytes" where
  "encode_compound_tuple_prefix pv_to_vec context values =
     (if length values > length (ctx_fields context)
      then Inl (InvalidOperation ''tuple prefix value count exceeds field count'')
      else encode_compound_components pv_to_vec context values)"

definition encode_compound_field_component ::
    "(prop_value \<Rightarrow> bytes) \<Rightarrow> compound_tuple_context \<Rightarrow> nat \<Rightarrow> compound_field_value \<Rightarrow> engine_error + bytes" where
  "encode_compound_field_component pv_to_vec context ordinal value =
     (if ordinal < length (ctx_fields context)
      then r_bind (encode_component pv_to_vec context ordinal (ctx_fields context ! ordinal) value False)
             (\<lambda>c. Inr (ce_bytes c))
      else Inl (InvalidOperation ''field ordinal exceeds declaration field count''))"

section \<open>Decoding and key ranges\<close>

definition component_class_compatible_with_field ::
    "compound_component_class \<Rightarrow> secondary_index_field_manifest \<Rightarrow> bool" where
  "component_class_compatible_with_field class field = (case field of
     Property _ \<Rightarrow> True
   | NodeMetadata f \<Rightarrow>
       (if f = NmKey then class = CString \<or> class = CEqualityHash
        else if f = NmWeight then class = CNumeric \<or> class = CEqualityHash
        else class = CNumeric)
   | EdgeMetadata f \<Rightarrow>
       (if f = EmWeight then class = CNumeric \<or> class = CEqualityHash else class = CNumeric))"

definition payload_shape_ok :: "compound_component_class \<Rightarrow> bytes \<Rightarrow> engine_error + unit" where
  "payload_shape_ok class payload =
     (if class = CNumeric then
        if length payload \<noteq> NUMERIC_RANGE_KEY_BYTES then
          Inl (corrupt_compound_sidecar ''numeric payload length'')
        else map_err (\<lambda>_. corrupt_compound_sidecar ''numeric component is invalid'')
          (validate_numeric_range_sidecar_key payload)
      else if class = CString then
        if length payload > MAX_COMPOUND_COMPONENT_BYTES then
          Inl (corrupt_compound_sidecar ''scalar payload length exceeds the maximum'')
        else if \<not> utf8_valid payload then
          Inl (corrupt_compound_sidecar ''string payload is not valid UTF-8'')
        else Inr ()
      else if class = CBytes then
        if length payload > MAX_COMPOUND_COMPONENT_BYTES then
          Inl (corrupt_compound_sidecar ''scalar payload length exceeds the maximum'')
        else Inr ()
      else if class = CEqualityHash then
        if length payload \<noteq> 8 then Inl (corrupt_compound_sidecar ''equality hash payload length'')
        else Inr ()
      else if payload \<noteq> [] then Inl (corrupt_compound_sidecar ''class must have empty payload'')
      else Inr ())"

definition validate_component_payload_for_field ::
    "compound_component_class \<Rightarrow> bytes \<Rightarrow> secondary_index_field_manifest \<Rightarrow> engine_error + unit" where
  "validate_component_payload_for_field class payload field =
     r_bind (payload_shape_ok class payload) (\<lambda>_.
       if \<not> component_class_compatible_with_field class field then
         Inl (corrupt_compound_sidecar ''class is incompatible with declaration field'')
       else Inr ())"

type_synonym decoded_component = "compound_component_class \<times> bytes"

fun decode_components :: "secondary_index_field_manifest list \<Rightarrow> bytes \<Rightarrow> engine_error + decoded_component list" where
  "decode_components [] data =
     (if data = [] then Inr [] else Inl (corrupt_compound_sidecar ''compound tuple has trailing bytes''))"
| "decode_components (field # fs) data = (case split_exact 3 data of
     None \<Rightarrow> Inl (corrupt_compound_sidecar ''component header exceeds key length'')
   | Some (header, data) \<Rightarrow>
      r_bind (class_from_tag (header ! 0)) (\<lambda>class.
      let payload_len = unat (from_be_bytes (drop 1 header) :: u16) in
      case split_exact payload_len data of
        None \<Rightarrow> Inl (corrupt_compound_sidecar ''component payload exceeds key length'')
      | Some (payload, data) \<Rightarrow>
         r_bind (validate_component_payload_for_field class payload field) (\<lambda>_.
         r_bind (decode_components fs data) (\<lambda>cs. Inr ((class, payload) # cs)))))"

definition decode_compound_tuple_components ::
    "bytes \<Rightarrow> secondary_index_field_manifest list \<Rightarrow> engine_error + decoded_component list" where
  "decode_compound_tuple_components data flds =
     (if flds = [] \<or> length flds > MAX_SECONDARY_INDEX_FIELDS
      then Inl (corrupt_compound_sidecar ''compound tuple field count is outside limits'')
      else decode_components flds data)"

record compound_prefix_bounds =
  pb_lower :: bytes
  pb_upper_exclusive :: bytes

record compound_lower_bound =
  lb_key :: bytes
  lb_exclusive_component_prefix :: bool

record compound_range_bounds =
  crb_lower :: "compound_lower_bound option"
  crb_upper_exclusive :: bytes

definition compound_prefix_bounds :: "bytes \<Rightarrow> compound_prefix_bounds" where
  "compound_prefix_bounds encoded_prefix =
     \<lparr>pb_lower = encoded_prefix, pb_upper_exclusive = encoded_prefix @ [0xFF]\<rparr>"

definition validate_numeric_range_bound_component :: "bytes \<Rightarrow> engine_error + unit" where
  "validate_numeric_range_bound_component component =
     (if length component \<noteq> 3 + NUMERIC_RANGE_KEY_BYTES then
        Inl (InvalidOperation ''range bound must be exactly one numeric component'')
      else if component ! 0 \<noteq> class_tag CNumeric then
        Inl (InvalidOperation ''range bound class is not numeric'')
      else if unat (from_be_bytes (slice 1 3 component) :: u16) \<noteq> NUMERIC_RANGE_KEY_BYTES then
        Inl (InvalidOperation ''range bound numeric payload length'')
      else map_err (\<lambda>_. InvalidOperation ''range bound numeric component is invalid'')
        (validate_numeric_range_sidecar_key (slice 3 (3 + NUMERIC_RANGE_KEY_BYTES) component)))"

definition compound_range_bounds ::
    "bytes \<Rightarrow> (bytes \<times> bool) option \<Rightarrow> (bytes \<times> bool) option \<Rightarrow> engine_error + compound_range_bounds" where
  "compound_range_bounds equality_prefix lower_component upper_component =
     r_bind (case lower_component of
         Some (component, inclusive) \<Rightarrow>
           r_bind (validate_numeric_range_bound_component component) (\<lambda>_.
             Inr (Some \<lparr>lb_key = equality_prefix @ component, lb_exclusive_component_prefix = \<not> inclusive\<rparr>))
       | None \<Rightarrow>
           Inr (Some \<lparr>lb_key = equality_prefix @ [class_tag CNumeric], lb_exclusive_component_prefix = False\<rparr>)) (\<lambda>lower.
     r_bind (case upper_component of
         Some (component, inclusive) \<Rightarrow>
           r_bind (validate_numeric_range_bound_component component) (\<lambda>_.
             Inr (equality_prefix @ component @ (if inclusive then [0xFF] else [])))
       | None \<Rightarrow> Inr (equality_prefix @ [class_tag CNumeric + 1])) (\<lambda>upper_exclusive.
     Inr \<lparr>crb_lower = lower, crb_upper_exclusive = upper_exclusive\<rparr>))"

text \<open>
  What a scan between bounds keeps of the keys it meets
  (\<^verbatim>\<open>scan_compound_key_range\<close>, \<^verbatim>\<open>collect_visible_compound_ids\<close>).
\<close>

definition starts_with :: "'a list \<Rightarrow> 'a list \<Rightarrow> bool" where
  "starts_with xs p \<longleftrightarrow> take (length p) xs = p"

definition in_prefix_scan :: "compound_prefix_bounds \<Rightarrow> bytes \<Rightarrow> bool" where
  "in_prefix_scan b key \<longleftrightarrow> pb_lower b \<le> key \<and> key < pb_upper_exclusive b"

definition in_range_scan :: "compound_range_bounds \<Rightarrow> bytes \<Rightarrow> bool" where
  "in_range_scan b key \<longleftrightarrow>
     (case crb_lower b of None \<Rightarrow> True | Some l \<Rightarrow>
        lb_key l \<le> key \<and> \<not> (lb_exclusive_component_prefix l \<and> starts_with key (lb_key l))) \<and>
     key < crb_upper_exclusive b"

end
