(* ===== verification/Index_Decl.thy ===== *)
theory Index_Decl
  imports Compound_Keys
begin

text \<open>
  Declarations of secondary indexes, \<^verbatim>\<open>src/src/types.rs\<close>: the public specification, its
  validation, the stored target it becomes, and the logical identity under which two
  declarations count as the same index. The public metadata fields and those the manifest stores
  are different types, with the conversions between them in \<open>Compound_Keys\<close>.
\<close>

datatype secondary_index_field =
    PropertyField rstring
  | NodeMetadataField node_metadata_index_field
  | EdgeMetadataField edge_metadata_index_field

record secondary_index_spec =
  spec_fields :: "secondary_index_field list"
  spec_kind :: secondary_index_kind

datatype secondary_index_target_kind = NodeTarget | EdgeTarget

record secondary_index_logical_identity =
  id_target_kind :: secondary_index_target_kind
  id_label_id :: u32
  id_fields :: "secondary_index_field list"
  id_kind :: secondary_index_kind

fun from_public :: "secondary_index_field \<Rightarrow> engine_error + secondary_index_field_manifest" where
  "from_public (PropertyField key) = Inr (Property key)"
| "from_public (NodeMetadataField field) = Inr (NodeMetadata (node_field_into_manifest field))"
| "from_public (EdgeMetadataField field) = Inr (EdgeMetadata (edge_field_into_manifest field))"

fun to_public :: "secondary_index_field_manifest \<Rightarrow> secondary_index_field" where
  "to_public (Property key) = PropertyField key"
| "to_public (NodeMetadata field) = NodeMetadataField (node_field_from_manifest field)"
| "to_public (EdgeMetadata field) = EdgeMetadataField (edge_field_from_manifest field)"

definition invalid_secondary_index :: "string \<Rightarrow> engine_error" where
  "invalid_secondary_index message = InvalidOperation (''invalid secondary index: '' @ message)"

definition check_index_field :: "secondary_index_target_kind \<Rightarrow> secondary_index_field \<Rightarrow> engine_error + unit" where
  "check_index_field target_kind field = (case (target_kind, field) of
     (_, PropertyField key) \<Rightarrow>
       if key = [] then Inl (invalid_secondary_index ''property key must not be empty'') else Inr ()
   | (NodeTarget, NodeMetadataField _) \<Rightarrow> Inr ()
   | (EdgeTarget, EdgeMetadataField _) \<Rightarrow> Inr ()
   | (NodeTarget, EdgeMetadataField _) \<Rightarrow> Inl (invalid_secondary_index ''node indexes cannot include edge metadata fields'')
   | (EdgeTarget, NodeMetadataField _) \<Rightarrow> Inl (invalid_secondary_index ''edge indexes cannot include node metadata fields''))"

text \<open>The loop over the fields, with the set of the fields seen so far.\<close>

fun check_index_fields ::
    "secondary_index_target_kind \<Rightarrow> secondary_index_field set \<Rightarrow> secondary_index_field list \<Rightarrow> engine_error + unit" where
  "check_index_fields target_kind seen [] = Inr ()"
| "check_index_fields target_kind seen (field # fs) =
     r_bind (check_index_field target_kind field) (\<lambda>_.
       if field \<in> seen then Inl (invalid_secondary_index ''duplicate field'')
       else check_index_fields target_kind (insert field seen) fs)"

definition validate_secondary_index_fields ::
    "secondary_index_field list \<Rightarrow> secondary_index_target_kind \<Rightarrow> engine_error + unit" where
  "validate_secondary_index_fields flds target_kind =
     (if length flds = 0 then Inl (invalid_secondary_index ''field list must contain 1 to 8 fields'')
      else if length flds \<le> MAX_SECONDARY_INDEX_FIELDS then check_index_fields target_kind {} flds
      else Inl (invalid_secondary_index ''compound secondary indexes support at most 8 fields''))"

definition validate_for_node :: "secondary_index_spec \<Rightarrow> engine_error + unit" where
  "validate_for_node spec = validate_secondary_index_fields (spec_fields spec) NodeTarget"

definition validate_for_edge :: "secondary_index_spec \<Rightarrow> engine_error + unit" where
  "validate_for_edge spec = validate_secondary_index_fields (spec_fields spec) EdgeTarget"

definition node_target :: "secondary_index_spec \<Rightarrow> u32 \<Rightarrow> engine_error + secondary_index_target" where
  "node_target spec label_id = r_bind (validate_for_node spec) (\<lambda>_.
     case spec_fields spec of
       [PropertyField key] \<Rightarrow> Inr (NodeProperty label_id key)
     | flds \<Rightarrow> r_bind (r_map from_public flds) (\<lambda>fs. Inr (NodeFieldIndex label_id fs)))"

definition edge_target :: "secondary_index_spec \<Rightarrow> u32 \<Rightarrow> engine_error + secondary_index_target" where
  "edge_target spec label_id = r_bind (validate_for_edge spec) (\<lambda>_.
     case spec_fields spec of
       [PropertyField key] \<Rightarrow> Inr (EdgeProperty label_id key)
     | flds \<Rightarrow> r_bind (r_map from_public flds) (\<lambda>fs. Inr (EdgeFieldIndex label_id fs)))"

fun target_kind :: "secondary_index_target \<Rightarrow> secondary_index_target_kind" where
  "target_kind (NodeProperty _ _) = NodeTarget"
| "target_kind (NodeFieldIndex _ _) = NodeTarget"
| "target_kind (EdgeProperty _ _) = EdgeTarget"
| "target_kind (EdgeFieldIndex _ _) = EdgeTarget"

fun target_label_id :: "secondary_index_target \<Rightarrow> u32" where
  "target_label_id (NodeProperty label_id _) = label_id"
| "target_label_id (EdgeProperty label_id _) = label_id"
| "target_label_id (NodeFieldIndex label_id _) = label_id"
| "target_label_id (EdgeFieldIndex label_id _) = label_id"

fun single_property_key :: "secondary_index_target \<Rightarrow> rstring option" where
  "single_property_key (NodeProperty _ prop_key) = Some prop_key"
| "single_property_key (EdgeProperty _ prop_key) = Some prop_key"
| "single_property_key _ = None"

fun public_fields :: "secondary_index_target \<Rightarrow> secondary_index_field list" where
  "public_fields (NodeProperty _ prop_key) = [PropertyField prop_key]"
| "public_fields (EdgeProperty _ prop_key) = [PropertyField prop_key]"
| "public_fields (NodeFieldIndex _ fs) = map to_public fs"
| "public_fields (EdgeFieldIndex _ fs) = map to_public fs"

definition is_compound :: "secondary_index_target \<Rightarrow> bool" where
  "is_compound target \<longleftrightarrow> length (public_fields target) \<ge> 2"

definition validate_secondary_index_target :: "secondary_index_target \<Rightarrow> engine_error + unit" where
  "validate_secondary_index_target target = validate_secondary_index_fields (public_fields target) (target_kind target)"

definition secondary_index_logical_identity ::
    "secondary_index_manifest_entry \<Rightarrow> engine_error + secondary_index_logical_identity" where
  "secondary_index_logical_identity entry = r_bind (validate_secondary_index_target (sie_target entry)) (\<lambda>_.
     Inr \<lparr>id_target_kind = target_kind (sie_target entry), id_label_id = target_label_id (sie_target entry),
       id_fields = public_fields (sie_target entry), id_kind = sie_kind entry\<rparr>)"

section \<open>Validation\<close>

text \<open>A field may stand in an index of the given kind.\<close>

definition field_allowed :: "secondary_index_target_kind \<Rightarrow> secondary_index_field \<Rightarrow> bool" where
  "field_allowed kind field \<longleftrightarrow> (case field of
     PropertyField key \<Rightarrow> key \<noteq> [] | NodeMetadataField _ \<Rightarrow> kind = NodeTarget | EdgeMetadataField _ \<Rightarrow> kind = EdgeTarget)"

lemma check_index_field_ok: "check_index_field kind f = Inr () \<longleftrightarrow> field_allowed kind f"
  by (cases kind; cases f) (auto simp: check_index_field_def field_allowed_def)

lemma check_index_fields_ok:
  "check_index_fields kind seen fs = Inr () \<longleftrightarrow>
     distinct fs \<and> set fs \<inter> seen = {} \<and> list_all (field_allowed kind) fs"
proof (induction fs arbitrary: seen)
  case (Cons f fs)
  then show ?case by (auto simp: r_bind_eq_Inr check_index_field_ok)
qed simp

lemma validate_fields_iff:
  "validate_secondary_index_fields fs kind = Inr () \<longleftrightarrow>
     1 \<le> length fs \<and> length fs \<le> MAX_SECONDARY_INDEX_FIELDS \<and> distinct fs \<and> list_all (field_allowed kind) fs"
proof -
  have "fs = [] \<or> 1 \<le> length fs" by (cases fs) auto
  then show ?thesis by (auto simp: validate_secondary_index_fields_def check_index_fields_ok)
qed

text \<open>
  An index field list is accepted exactly when it has 1 to 8 distinct fields, no property key
  is empty, and metadata fields belong to the kind of the target.
\<close>

theorem validate_secondary_index_fields_spec:
  "validate_secondary_index_fields fs kind = Inr () \<longleftrightarrow>
     1 \<le> length fs \<and> length fs \<le> MAX_SECONDARY_INDEX_FIELDS \<and> distinct fs \<and> list_all (field_allowed kind) fs"
  by (rule validate_fields_iff)

section \<open>Targets\<close>

lemma node_field_inverse [simp]: "node_field_from_manifest (node_field_into_manifest f) = f"
  by (cases f) simp_all

lemma edge_field_inverse [simp]: "edge_field_from_manifest (edge_field_into_manifest f) = f"
  by (cases f) simp_all

lemma r_map_from_public: "r_map from_public fs = Inr (map (\<lambda>f. case from_public f of Inr g \<Rightarrow> g) fs)"
proof (induction fs)
  case (Cons f fs)
  then show ?case by (cases f) auto
qed simp

lemma to_from_public [simp]: "to_public (case from_public f of Inr g \<Rightarrow> g) = f"
  by (cases f) auto

lemma from_public_inverse: "from_public f = Inr g \<Longrightarrow> to_public g = f"
  by (cases f) auto

lemma node_target_shape:
  assumes "node_target spec label = Inr t"
  shows "public_fields t = spec_fields spec \<and> target_kind t = NodeTarget \<and> target_label_id t = label"
  using assms by (auto simp: node_target_def r_bind_eq_Inr r_map_from_public comp_def from_public_inverse
      split: list.splits secondary_index_field.splits)

lemma edge_target_shape:
  assumes "edge_target spec label = Inr t"
  shows "public_fields t = spec_fields spec \<and> target_kind t = EdgeTarget \<and> target_label_id t = label"
  using assms by (auto simp: edge_target_def r_bind_eq_Inr r_map_from_public comp_def from_public_inverse
      split: list.splits secondary_index_field.splits)

definition target_for :: "secondary_index_target_kind \<Rightarrow> secondary_index_spec \<Rightarrow> u32 \<Rightarrow> engine_error + secondary_index_target" where
  "target_for kind = (case kind of NodeTarget \<Rightarrow> node_target | EdgeTarget \<Rightarrow> edge_target)"

lemma target_for_valid:
  assumes "target_for kind spec label = Inr t"
  shows "validate_secondary_index_fields (spec_fields spec) kind = Inr ()"
  using assms by (cases kind) (auto simp: target_for_def node_target_def edge_target_def validate_for_node_def
      validate_for_edge_def r_bind_eq_Inr)

lemma target_for_shape:
  assumes "target_for kind spec label = Inr t"
  shows "public_fields t = spec_fields spec" "target_kind t = kind" "target_label_id t = label"
  using assms node_target_shape edge_target_shape by (cases kind; auto simp: target_for_def)+

end
