(* ===== verification/Memtable.thy ===== *)
theory Memtable
  imports Slots Index_Decl "HOL-Library.Product_Lexorder"
begin

text \<open>
  The in-memory graph state, \<^verbatim>\<open>src/src/memtable.rs\<close>: nodes and edges in versioned slots, the
  indexes over them (key, label, time, triple, adjacency, declared secondary indexes) in slots of
  the same kind, the size estimate, and \<^verbatim>\<open>apply_op\<close>, which carries out one logged operation.
  \<open>None\<close> stands for a Rust panic (\<^verbatim>\<open>expect\<close>, \<^verbatim>\<open>unreachable!\<close>). Signed timestamps in index keys
  are \<open>int\<close>, so that tuples of them are ordered as in the source. The estimate \<^verbatim>\<open>estimated_bytes\<close>
  is a natural number: its overflow past 64 bits is not modelled.
\<close>

section \<open>State\<close>

record adj_entry =
  adj_edge_id :: u64
  adj_label_id :: u32
  adj_neighbor_id :: u64
  adj_weight :: f32
  adj_valid_from :: i64
  adj_valid_to :: i64

datatype 'a record_state = Live 'a | Tombstone tombstone_entry

type_synonym 'a record_slot = "'a record_state versioned_slot"
type_synonym 'a lookup_slot = "'a option versioned_slot"
type_synonym 'a membership_slot = "'a option versioned_slot"

text \<open>The declared indexes and how they are found from a label and a property key.\<close>

record index_decls =
  secondary_index_declarations :: "(u64, secondary_index_manifest_entry) fmap"
  secondary_eq_by_prop :: "(u32, (rstring, u64 list) fmap) fmap"
  secondary_range_by_prop :: "(u32, (rstring, u64 list) fmap) fmap"
  secondary_edge_eq_by_prop :: "(u32, (rstring, u64 list) fmap) fmap"
  secondary_edge_range_by_prop :: "(u32, (rstring, u64 list) fmap) fmap"
  secondary_node_field_indexes_by_label :: "(u32, u64 list) fmap"
  secondary_edge_field_indexes_by_label :: "(u32, u64 list) fmap"

record memtable_state = index_decls +
  estimated_bytes :: nat
  live_node_count :: nat
  live_edge_count :: nat
  nodes :: "(u64, node_record record_slot) fmap"
  edges :: "(u64, edge_record record_slot) fmap"
  node_tombstones :: "(u64, unit membership_slot) fmap"
  edge_tombstones :: "(u64, unit membership_slot) fmap"
  node_key_index :: "(u32, (rstring, u64 lookup_slot) fmap) fmap"
  edge_triple_index :: "(u64 \<times> u64 \<times> u32, u64 lookup_slot) fmap"
  adj_out :: "(u64, (u64, adj_entry membership_slot) fmap) fmap"
  adj_in :: "(u64, (u64, adj_entry membership_slot) fmap) fmap"
  ordered_edge_ids :: "(u64, unit membership_slot) fmap"
  label_node_index :: "(u32 \<times> u64, unit membership_slot) fmap"
  ordered_label_edge_index :: "(u32 \<times> u64, unit membership_slot) fmap"
  ordered_adj_out :: "(u64, (u64, adj_entry membership_slot) fmap) fmap"
  ordered_adj_in :: "(u64, (u64, adj_entry membership_slot) fmap) fmap"
  label_edge_index :: "(u32, (u64, unit membership_slot) fmap) fmap"
  time_node_index :: "(u32 \<times> int \<times> u64, unit membership_slot) fmap"
  secondary_eq_state :: "(u64, (u64, (u64, unit membership_slot) fmap) fmap) fmap"
  secondary_range_state :: "(u64, (bytes \<times> u64, unit membership_slot) fmap) fmap"
  secondary_compound_state :: "(u64, (bytes \<times> u64, unit membership_slot) fmap) fmap"

definition memtable_new :: memtable_state where
  "memtable_new = \<lparr>secondary_index_declarations = fmempty, secondary_eq_by_prop = fmempty,
     secondary_range_by_prop = fmempty, secondary_edge_eq_by_prop = fmempty,
     secondary_edge_range_by_prop = fmempty, secondary_node_field_indexes_by_label = fmempty,
     secondary_edge_field_indexes_by_label = fmempty,
     estimated_bytes = 0, live_node_count = 0, live_edge_count = 0, nodes = fmempty, edges = fmempty,
     node_tombstones = fmempty, edge_tombstones = fmempty, node_key_index = fmempty,
     edge_triple_index = fmempty, adj_out = fmempty, adj_in = fmempty, ordered_edge_ids = fmempty,
     label_node_index = fmempty, ordered_label_edge_index = fmempty, ordered_adj_out = fmempty,
     ordered_adj_in = fmempty, label_edge_index = fmempty, time_node_index = fmempty,
     secondary_eq_state = fmempty, secondary_range_state = fmempty, secondary_compound_state = fmempty\<rparr>"

section \<open>Size estimates\<close>

definition apply_size_delta :: "nat \<Rightarrow> nat \<Rightarrow> nat \<Rightarrow> nat" where
  "apply_size_delta bytes before after =
     (if after \<ge> before then bytes + (after - before) else bytes - (before - after))"

definition estimate_node_record :: "node_record \<Rightarrow> nat" where
  "estimate_node_record node =
     (let dense_bytes = (case n_dense_vector node of None \<Rightarrow> 0 | Some v \<Rightarrow> length v * 4);
          sparse_bytes = (case n_sparse_vector node of None \<Rightarrow> 0 | Some v \<Rightarrow> length v * (4 + 4))
      in 120 + length (n_key node) + length (n_props node) * 80 + dense_bytes + sparse_bytes)"

definition estimate_edge_record :: "edge_record \<Rightarrow> nat" where
  "estimate_edge_record edge = 100 + length (e_props edge) * 80"

definition estimate_node_record_slot :: "node_record record_slot \<Rightarrow> nat" where
  "estimate_node_record_slot slot = estimate_slot slot (\<lambda>state. case state of
     Live node \<Rightarrow> estimate_node_record node | Tombstone _ \<Rightarrow> 16)"

definition estimate_edge_record_slot :: "edge_record record_slot \<Rightarrow> nat" where
  "estimate_edge_record_slot slot = estimate_slot slot (\<lambda>state. case state of
     Live edge \<Rightarrow> estimate_edge_record edge | Tombstone _ \<Rightarrow> 16)"

definition estimate_lookup_slot :: "u64 lookup_slot \<Rightarrow> nat" where
  "estimate_lookup_slot slot = estimate_slot slot (\<lambda>_. 16)"

definition estimate_membership_slot :: "unit membership_slot \<Rightarrow> nat" where
  "estimate_membership_slot slot = estimate_slot slot (\<lambda>_. 8)"

definition estimate_adj_slot :: "adj_entry membership_slot \<Rightarrow> nat" where
  "estimate_adj_slot slot = estimate_slot slot (\<lambda>_. 48)"

definition estimate_secondary_decl_entry :: "secondary_index_manifest_entry \<Rightarrow> nat" where
  "estimate_secondary_decl_entry entry =
     (let field_bytes = (case sie_target entry of
            NodeProperty _ prop_key \<Rightarrow> length prop_key
          | EdgeProperty _ prop_key \<Rightarrow> length prop_key
          | NodeFieldIndex _ flds \<Rightarrow> sum_list (map (\<lambda>field. case field of Property key \<Rightarrow> length key | _ \<Rightarrow> 16) flds)
          | EdgeFieldIndex _ flds \<Rightarrow> sum_list (map (\<lambda>field. case field of Property key \<Rightarrow> length key | _ \<Rightarrow> 16) flds))
      in 96 + field_bytes + (case sie_last_error entry of None \<Rightarrow> 0 | Some msg \<Rightarrow> length msg))"

definition estimate_secondary_eq_lookup_entry :: "rstring \<Rightarrow> u64 list \<Rightarrow> nat" where
  "estimate_secondary_eq_lookup_entry prop_key index_ids = 48 + length prop_key + length index_ids * 8"

definition estimate_secondary_range_lookup_entry :: "rstring \<Rightarrow> u64 list \<Rightarrow> nat" where
  "estimate_secondary_range_lookup_entry prop_key indexes = 48 + length prop_key + length indexes * 8"

definition estimate_secondary_field_lookup_entry :: "u64 list \<Rightarrow> nat" where
  "estimate_secondary_field_lookup_entry index_ids = 48 + length index_ids * 8"

definition estimate_secondary_eq_state_groups :: "(u64, (u64, unit membership_slot) fmap) fmap \<Rightarrow> nat" where
  "estimate_secondary_eq_state_groups = msize (\<lambda>_. msize (\<lambda>_. estimate_membership_slot))"

definition estimate_secondary_range_state_entries :: "(bytes \<times> u64, unit membership_slot) fmap \<Rightarrow> nat" where
  "estimate_secondary_range_state_entries = msize (\<lambda>_. estimate_membership_slot)"

definition compound_entry_estimate :: "bytes \<times> u64 \<Rightarrow> unit membership_slot \<Rightarrow> nat" where
  "compound_entry_estimate k slot = length (fst k) + 8 + estimate_membership_slot slot"

definition estimate_compound_state_entries :: "(bytes \<times> u64, unit membership_slot) fmap \<Rightarrow> nat" where
  "estimate_compound_state_entries = msize compound_entry_estimate"

definition account :: "nat \<times> nat \<Rightarrow> memtable_state \<Rightarrow> memtable_state" where
  "account d st = st\<lparr>estimated_bytes := apply_size_delta (estimated_bytes st) (fst d) (snd d)\<rparr>"

section \<open>Writing one slot\<close>

text \<open>
  Each setter replaces the value of the slot of a key or inserts a new slot, and moves the
  estimate from the slot's size before (0 when there was none) to its size after.
\<close>

definition slot_delta :: "('k \<Rightarrow> 'v \<Rightarrow> nat) \<Rightarrow> ('k, 'v) fmap \<Rightarrow> ('k, 'v) fmap \<Rightarrow> 'k \<Rightarrow> nat \<times> nat" where
  "slot_delta est m m' k = (entry_size est m k, entry_size est m' k)"

definition set_node_state :: "memtable_state \<Rightarrow> u64 \<Rightarrow> node_record record_state \<Rightarrow> u64 \<Rightarrow> memtable_state" where
  "set_node_state st rid state write_seq =
     (let m = put_slot (nodes st) rid write_seq state
      in account (slot_delta (\<lambda>_. estimate_node_record_slot) (nodes st) m rid) (st\<lparr>nodes := m\<rparr>))"

definition set_edge_state :: "memtable_state \<Rightarrow> u64 \<Rightarrow> edge_record record_state \<Rightarrow> u64 \<Rightarrow> memtable_state" where
  "set_edge_state st rid state write_seq =
     (let m = put_slot (edges st) rid write_seq state
      in account (slot_delta (\<lambda>_. estimate_edge_record_slot) (edges st) m rid) (st\<lparr>edges := m\<rparr>))"

text \<open>A new key slot also counts the bytes of its key, once.\<close>

definition set_node_key :: "memtable_state \<Rightarrow> u32 \<Rightarrow> rstring \<Rightarrow> u64 option \<Rightarrow> u64 \<Rightarrow> memtable_state" where
  "set_node_key st label_id key value write_seq =
     (let by_key = entry_or_default (node_key_index st) label_id;
          by_key' = put_slot by_key key write_seq value;
          st' = st\<lparr>node_key_index := fmupd label_id by_key' (node_key_index st)\<rparr>;
          d = slot_delta (\<lambda>_. estimate_lookup_slot) by_key by_key' key
      in if fmlookup by_key key = None then account (0, length key + snd d) st' else account d st')"

definition set_edge_triple :: "memtable_state \<Rightarrow> u64 \<Rightarrow> u64 \<Rightarrow> u32 \<Rightarrow> u64 option \<Rightarrow> u64 \<Rightarrow> memtable_state" where
  "set_edge_triple st src to label_id value write_seq =
     (let m = put_slot (edge_triple_index st) (src, to, label_id) write_seq value
      in account (slot_delta (\<lambda>_. estimate_lookup_slot) (edge_triple_index st) m (src, to, label_id))
           (st\<lparr>edge_triple_index := m\<rparr>))"

definition nested_delta ::
    "('b \<Rightarrow> 'v \<Rightarrow> nat) \<Rightarrow> ('a, ('b, 'v) fmap) fmap \<Rightarrow> ('a, ('b, 'v) fmap) fmap \<Rightarrow> 'a \<times> 'b \<Rightarrow> nat \<times> nat" where
  "nested_delta est m m' k = slot_delta est (entry_or_default m (fst k)) (entry_or_default m' (fst k)) (snd k)"

definition set_adj_slot ::
    "(u64, (u64, adj_entry membership_slot) fmap) fmap \<Rightarrow> u64 \<Rightarrow> u64 \<Rightarrow> adj_entry option \<Rightarrow> u64
       \<Rightarrow> (u64, (u64, adj_entry membership_slot) fmap) fmap \<times> nat \<times> nat" where
  "set_adj_slot m owner_id member_id value write_seq =
     (let m' = put_nested m (owner_id, member_id) write_seq value
      in (m', nested_delta (\<lambda>_. estimate_adj_slot) m m' (owner_id, member_id)))"

text \<open>\<^verbatim>\<open>set_ordered_adj_slot\<close> has the same body over tree maps.\<close>

definition set_ordered_adj_slot ::
    "(u64, (u64, adj_entry membership_slot) fmap) fmap \<Rightarrow> u64 \<Rightarrow> u64 \<Rightarrow> adj_entry option \<Rightarrow> u64
       \<Rightarrow> (u64, (u64, adj_entry membership_slot) fmap) fmap \<times> nat \<times> nat" where
  "set_ordered_adj_slot m owner_id member_id value write_seq =
     (let m' = put_nested m (owner_id, member_id) write_seq value
      in (m', nested_delta (\<lambda>_. estimate_adj_slot) m m' (owner_id, member_id)))"

abbreviation present_value :: "bool \<Rightarrow> unit option" where
  "present_value present \<equiv> (if present then Some () else None)"

definition set_label_membership_slot ::
    "(u32, (u64, unit membership_slot) fmap) fmap \<Rightarrow> u32 \<Rightarrow> u64 \<Rightarrow> bool \<Rightarrow> u64
       \<Rightarrow> (u32, (u64, unit membership_slot) fmap) fmap \<times> nat \<times> nat" where
  "set_label_membership_slot m label_id member_id present write_seq =
     (let m' = put_nested m (label_id, member_id) write_seq (present_value present)
      in (m', nested_delta (\<lambda>_. estimate_membership_slot) m m' (label_id, member_id)))"

definition set_sparse_membership_slot ::
    "(u64, unit membership_slot) fmap \<Rightarrow> u64 \<Rightarrow> bool \<Rightarrow> u64 \<Rightarrow> (u64, unit membership_slot) fmap \<times> nat \<times> nat" where
  "set_sparse_membership_slot m member_id present write_seq =
     (let m' = put_sparse m member_id write_seq (present_value present)
      in (m', slot_delta (\<lambda>_. estimate_membership_slot) m m' member_id))"

definition set_time_slot :: "memtable_state \<Rightarrow> u32 \<times> int \<times> u64 \<Rightarrow> bool \<Rightarrow> u64 \<Rightarrow> memtable_state" where
  "set_time_slot st key present write_seq =
     (let m = put_slot (time_node_index st) key write_seq (present_value present)
      in account (slot_delta (\<lambda>_. estimate_membership_slot) (time_node_index st) m key) (st\<lparr>time_node_index := m\<rparr>))"

definition set_ordered_edge_slot :: "memtable_state \<Rightarrow> u64 \<Rightarrow> bool \<Rightarrow> u64 \<Rightarrow> memtable_state" where
  "set_ordered_edge_slot st edge_id present write_seq =
     (let m = put_slot (ordered_edge_ids st) edge_id write_seq (present_value present)
      in account (slot_delta (\<lambda>_. estimate_membership_slot) (ordered_edge_ids st) m edge_id) (st\<lparr>ordered_edge_ids := m\<rparr>))"

definition set_node_label_membership_slot :: "memtable_state \<Rightarrow> u32 \<Rightarrow> u64 \<Rightarrow> bool \<Rightarrow> u64 \<Rightarrow> memtable_state" where
  "set_node_label_membership_slot st label_id node_id present write_seq =
     (let m = put_slot (label_node_index st) (label_id, node_id) write_seq (present_value present)
      in account (slot_delta (\<lambda>_. estimate_membership_slot) (label_node_index st) m (label_id, node_id))
           (st\<lparr>label_node_index := m\<rparr>))"

definition set_ordered_edge_label_slot :: "memtable_state \<Rightarrow> u32 \<Rightarrow> u64 \<Rightarrow> bool \<Rightarrow> u64 \<Rightarrow> memtable_state" where
  "set_ordered_edge_label_slot st label_id edge_id present write_seq =
     (let m = put_slot (ordered_label_edge_index st) (label_id, edge_id) write_seq (present_value present)
      in account (slot_delta (\<lambda>_. estimate_membership_slot) (ordered_label_edge_index st) m (label_id, edge_id))
           (st\<lparr>ordered_label_edge_index := m\<rparr>))"

definition set_secondary_eq_slot_in ::
    "(u64, (u64, (u64, unit membership_slot) fmap) fmap) fmap \<Rightarrow> u64 \<Rightarrow> u64 \<Rightarrow> u64 \<Rightarrow> bool \<Rightarrow> u64
       \<Rightarrow> (u64, (u64, (u64, unit membership_slot) fmap) fmap) fmap \<times> nat \<times> nat" where
  "set_secondary_eq_slot_in m index_id value_hash node_id present write_seq =
     (let m' = put_nested3 m (index_id, value_hash, node_id) write_seq (present_value present)
      in (m', nested_delta (\<lambda>_. estimate_membership_slot) (entry_or_default m index_id) (entry_or_default m' index_id)
            (value_hash, node_id)))"

definition set_secondary_range_slot_in ::
    "(u64, (bytes \<times> u64, unit membership_slot) fmap) fmap \<Rightarrow> u64 \<Rightarrow> bytes \<Rightarrow> u64 \<Rightarrow> bool \<Rightarrow> u64
       \<Rightarrow> (u64, (bytes \<times> u64, unit membership_slot) fmap) fmap \<times> nat \<times> nat" where
  "set_secondary_range_slot_in m index_id encoded node_id present write_seq =
     (let m' = put_nested m (index_id, encoded, node_id) write_seq (present_value present)
      in (m', nested_delta (\<lambda>_. estimate_membership_slot) m m' (index_id, encoded, node_id)))"

definition set_compound_slot_in ::
    "(u64, (bytes \<times> u64, unit membership_slot) fmap) fmap \<Rightarrow> u64 \<Rightarrow> bytes \<Rightarrow> u64 \<Rightarrow> bool \<Rightarrow> u64
       \<Rightarrow> (u64, (bytes \<times> u64, unit membership_slot) fmap) fmap \<times> nat \<times> nat" where
  "set_compound_slot_in m index_id tuple_key record_id present write_seq =
     (let m' = put_nested m (index_id, tuple_key, record_id) write_seq (present_value present)
      in (m', nested_delta compound_entry_estimate m m' (index_id, tuple_key, record_id)))"

definition set_node_label_slot :: "memtable_state \<Rightarrow> u32 \<Rightarrow> u64 \<Rightarrow> bool \<Rightarrow> u64 \<Rightarrow> memtable_state" where
  "set_node_label_slot st label_id member_id present write_seq =
     set_node_label_membership_slot st label_id member_id present write_seq"

definition set_edge_label_slot :: "memtable_state \<Rightarrow> u32 \<Rightarrow> u64 \<Rightarrow> bool \<Rightarrow> u64 \<Rightarrow> memtable_state" where
  "set_edge_label_slot st label_id member_id present write_seq =
     (let (m, d) = set_label_membership_slot (label_edge_index st) label_id member_id present write_seq
      in account d (st\<lparr>label_edge_index := m\<rparr>))"

definition set_adj_out_slot :: "memtable_state \<Rightarrow> u64 \<Rightarrow> u64 \<Rightarrow> adj_entry option \<Rightarrow> u64 \<Rightarrow> memtable_state" where
  "set_adj_out_slot st owner_id member_id value write_seq =
     (let (m, d) = set_adj_slot (adj_out st) owner_id member_id value write_seq;
          st = account d (st\<lparr>adj_out := m\<rparr>);
          (m, d) = set_ordered_adj_slot (ordered_adj_out st) owner_id member_id value write_seq
      in account d (st\<lparr>ordered_adj_out := m\<rparr>))"

definition set_adj_in_slot :: "memtable_state \<Rightarrow> u64 \<Rightarrow> u64 \<Rightarrow> adj_entry option \<Rightarrow> u64 \<Rightarrow> memtable_state" where
  "set_adj_in_slot st owner_id member_id value write_seq =
     (let (m, d) = set_adj_slot (adj_in st) owner_id member_id value write_seq;
          st = account d (st\<lparr>adj_in := m\<rparr>);
          (m, d) = set_ordered_adj_slot (ordered_adj_in st) owner_id member_id value write_seq
      in account d (st\<lparr>ordered_adj_in := m\<rparr>))"

text \<open>The tombstone sets are left out of the estimate: their size is dropped.\<close>

definition set_node_tombstone_slot :: "memtable_state \<Rightarrow> u64 \<Rightarrow> bool \<Rightarrow> u64 \<Rightarrow> memtable_state" where
  "set_node_tombstone_slot st member_id present write_seq =
     st\<lparr>node_tombstones := fst (set_sparse_membership_slot (node_tombstones st) member_id present write_seq)\<rparr>"

definition set_edge_tombstone_slot :: "memtable_state \<Rightarrow> u64 \<Rightarrow> bool \<Rightarrow> u64 \<Rightarrow> memtable_state" where
  "set_edge_tombstone_slot st member_id present write_seq =
     st\<lparr>edge_tombstones := fst (set_sparse_membership_slot (edge_tombstones st) member_id present write_seq)\<rparr>"

definition set_secondary_eq_slot :: "memtable_state \<Rightarrow> u64 \<Rightarrow> u64 \<Rightarrow> u64 \<Rightarrow> bool \<Rightarrow> u64 \<Rightarrow> memtable_state" where
  "set_secondary_eq_slot st index_id value_hash node_id present write_seq =
     (let (m, d) = set_secondary_eq_slot_in (secondary_eq_state st) index_id value_hash node_id present write_seq
      in account d (st\<lparr>secondary_eq_state := m\<rparr>))"

definition set_secondary_range_slot :: "memtable_state \<Rightarrow> u64 \<Rightarrow> bytes \<Rightarrow> u64 \<Rightarrow> bool \<Rightarrow> u64 \<Rightarrow> memtable_state" where
  "set_secondary_range_slot st index_id encoded node_id present write_seq =
     (let (m, d) = set_secondary_range_slot_in (secondary_range_state st) index_id encoded node_id present write_seq
      in account d (st\<lparr>secondary_range_state := m\<rparr>))"

definition set_compound_slot :: "memtable_state \<Rightarrow> u64 \<Rightarrow> bytes \<Rightarrow> u64 \<Rightarrow> bool \<Rightarrow> u64 \<Rightarrow> memtable_state" where
  "set_compound_slot st index_id tuple_key record_id present write_seq =
     (let (m, d) = set_compound_slot_in (secondary_compound_state st) index_id tuple_key record_id present write_seq
      in account d (st\<lparr>secondary_compound_state := m\<rparr>))"

section \<open>Reading records\<close>

definition record_current :: "'a record_slot \<Rightarrow> 'a option" where
  "record_current slot = (case slot_current slot of Live value \<Rightarrow> Some value | Tombstone _ \<Rightarrow> None)"

definition record_at :: "'a record_slot \<Rightarrow> u64 \<Rightarrow> 'a record_state option" where
  "record_at slot snapshot_seq = slot_at slot snapshot_seq"

definition current_node :: "memtable_state \<Rightarrow> u64 \<Rightarrow> node_record option" where
  "current_node st rid = Option.bind (fmlookup (nodes st) rid) record_current"

definition current_edge :: "memtable_state \<Rightarrow> u64 \<Rightarrow> edge_record option" where
  "current_edge st rid = Option.bind (fmlookup (edges st) rid) record_current"

definition current_edge_triple_id :: "memtable_state \<Rightarrow> u64 \<Rightarrow> u64 \<Rightarrow> u32 \<Rightarrow> u64 option" where
  "current_edge_triple_id st src to label_id =
     Option.bind (fmlookup (edge_triple_index st) (src, to, label_id)) slot_option_current"

fun live_value :: "'a record_state \<Rightarrow> 'a option" where
  "live_value (Live value) = Some value"
| "live_value (Tombstone _) = None"

fun tombstone_value :: "'a record_state \<Rightarrow> tombstone_entry option" where
  "tombstone_value (Live _) = None"
| "tombstone_value (Tombstone entry) = Some entry"

definition node_at :: "memtable_state \<Rightarrow> u64 \<Rightarrow> u64 \<Rightarrow> node_record option" where
  "node_at st rid snapshot_seq =
     Option.bind (Option.bind (fmlookup (nodes st) rid) (\<lambda>slot. record_at slot snapshot_seq)) live_value"

definition edge_at :: "memtable_state \<Rightarrow> u64 \<Rightarrow> u64 \<Rightarrow> edge_record option" where
  "edge_at st rid snapshot_seq =
     Option.bind (Option.bind (fmlookup (edges st) rid) (\<lambda>slot. record_at slot snapshot_seq)) live_value"

definition node_deleted_at :: "memtable_state \<Rightarrow> u64 \<Rightarrow> u64 \<Rightarrow> bool" where
  "node_deleted_at st rid snapshot_seq =
     (case fmlookup (node_tombstones st) rid of None \<Rightarrow> False | Some slot \<Rightarrow> slot_option_visible slot snapshot_seq)"

definition edge_deleted_at :: "memtable_state \<Rightarrow> u64 \<Rightarrow> u64 \<Rightarrow> bool" where
  "edge_deleted_at st rid snapshot_seq =
     (case fmlookup (edge_tombstones st) rid of None \<Rightarrow> False | Some slot \<Rightarrow> slot_option_visible slot snapshot_seq)"

definition node_tombstone_current :: "memtable_state \<Rightarrow> u64 \<Rightarrow> tombstone_entry option" where
  "node_tombstone_current st rid =
     Option.bind (Option.bind (fmlookup (node_tombstones st) rid) slot_option_current) (\<lambda>_.
       Option.bind (Option.bind (fmlookup (nodes st) rid) (\<lambda>slot. record_at slot U64_MAX)) tombstone_value)"

definition edge_tombstone_current :: "memtable_state \<Rightarrow> u64 \<Rightarrow> tombstone_entry option" where
  "edge_tombstone_current st rid =
     Option.bind (Option.bind (fmlookup (edge_tombstones st) rid) slot_option_current) (\<lambda>_.
       Option.bind (Option.bind (fmlookup (edges st) rid) (\<lambda>slot. record_at slot U64_MAX)) tombstone_value)"

section \<open>Values of indexed fields\<close>

text \<open>
  The widening \<^verbatim>\<open>as f64\<close> of a single-precision weight, on bit patterns: it is exact, subnormal
  singles become normal doubles, and a NaN keeps its payload with the quiet bit set.
\<close>

definition f32_to_f64 :: "f32 \<Rightarrow> f64" where
  "f32_to_f64 bits =
     (let sign = push_bit 63 (ucast (drop_bit 31 bits) :: u64);
          ex = drop_bit 23 bits AND 0xFF;
          frac = bits AND 0x7FFFFF;
          wide = push_bit 29 (ucast frac :: u64)
      in if ex = 0xFF then
           sign OR push_bit 52 0x7FF OR (if frac = 0 then 0 else wide OR push_bit 51 1)
         else if ex = 0 then
           if frac = 0 then sign
           else let n = bits_len (unat frac) in
             sign OR push_bit 52 (of_nat (873 + n)) OR (push_bit (53 - n) (ucast frac) AND (push_bit 52 1 - 1))
         else sign OR push_bit 52 (ucast ex + 896) OR wide)"

definition optional_semantic_property_eq :: "prop_value option \<Rightarrow> prop_value option \<Rightarrow> bool" where
  "optional_semantic_property_eq left right = (case (left, right) of
     (Some l, Some r) \<Rightarrow> semantic_property_eq l r
   | (None, None) \<Rightarrow> True
   | _ \<Rightarrow> False)"

definition node_compound_field_value ::
    "node_record \<Rightarrow> secondary_index_field_manifest \<Rightarrow> compound_field_value option" where
  "node_compound_field_value node field = (case field of
     Property key \<Rightarrow> Some (PropertyValue (map_of (n_props node) key))
   | NodeMetadata f \<Rightarrow> Some (case f of
        NmId \<Rightarrow> MetadataU64 (n_id node)
      | NmKey \<Rightarrow> MetadataString (n_key node)
      | NmWeight \<Rightarrow> MetadataF64 (f32_to_f64 (n_weight node))
      | NmCreatedAt \<Rightarrow> MetadataI64 (n_created_at node)
      | NmUpdatedAt \<Rightarrow> MetadataI64 (n_updated_at node))
   | EdgeMetadata _ \<Rightarrow> None)"

definition edge_compound_field_value ::
    "edge_record \<Rightarrow> secondary_index_field_manifest \<Rightarrow> compound_field_value option" where
  "edge_compound_field_value edge field = (case field of
     Property key \<Rightarrow> Some (PropertyValue (map_of (e_props edge) key))
   | EdgeMetadata f \<Rightarrow> Some (case f of
        EmId \<Rightarrow> MetadataU64 (e_id edge)
      | EmFrom \<Rightarrow> MetadataU64 (e_from edge)
      | EmTo \<Rightarrow> MetadataU64 (e_to edge)
      | EmWeight \<Rightarrow> MetadataF64 (f32_to_f64 (e_weight edge))
      | EmCreatedAt \<Rightarrow> MetadataI64 (e_created_at edge)
      | EmUpdatedAt \<Rightarrow> MetadataI64 (e_updated_at edge)
      | EmValidFrom \<Rightarrow> MetadataI64 (e_valid_from edge)
      | EmValidTo \<Rightarrow> MetadataI64 (e_valid_to edge))
   | NodeMetadata _ \<Rightarrow> None)"

definition ok_or_panic :: "'e + 'a \<Rightarrow> 'a option" where
  "ok_or_panic r = (case r of Inl _ \<Rightarrow> None | Inr a \<Rightarrow> Some a)"

definition encode_node_compound_tuple_key ::
    "(prop_value \<Rightarrow> bytes) \<Rightarrow> u32 \<Rightarrow> secondary_index_field_manifest list \<Rightarrow> node_record \<Rightarrow> bytes option" where
  "encode_node_compound_tuple_key pv_to_vec label_id flds node =
     Option.bind (those (map (node_compound_field_value node) flds)) (\<lambda>vals.
       ok_or_panic (encode_compound_tuple_key pv_to_vec
         \<lparr>ctx_target_kind = TargetNode, ctx_target_label_id = label_id, ctx_fields = flds\<rparr> vals))"

definition encode_edge_compound_tuple_key ::
    "(prop_value \<Rightarrow> bytes) \<Rightarrow> u32 \<Rightarrow> secondary_index_field_manifest list \<Rightarrow> edge_record \<Rightarrow> bytes option" where
  "encode_edge_compound_tuple_key pv_to_vec label_id flds edge =
     Option.bind (those (map (edge_compound_field_value edge) flds)) (\<lambda>vals.
       ok_or_panic (encode_compound_tuple_key pv_to_vec
         \<lparr>ctx_target_kind = TargetEdge, ctx_target_label_id = label_id, ctx_fields = flds\<rparr> vals))"

section \<open>Secondary index actions\<close>

text \<open>
  What an upsert or delete does to the declared indexes is first collected as actions (index,
  value, record id, present or not) and then carried out in order. Where the source walks a hash
  map of property keys the model walks it in key order; actions of different property keys
  concern different indexes.
\<close>

type_synonym eq_action = "u64 \<times> u64 \<times> u64 \<times> bool"
type_synonym range_action = "u64 \<times> bytes \<times> u64 \<times> bool"
type_synonym compound_action = "u64 \<times> bytes \<times> u64 \<times> bool"

abbreviation by_prop_lookup :: "(rstring, u64 list) fmap option \<Rightarrow> rstring \<Rightarrow> u64 list option" where
  "by_prop_lookup by_prop prop_key \<equiv> Option.bind by_prop (\<lambda>m. fmlookup m prop_key)"

text \<open>The loop over the properties of a record, used for nodes and for edges.\<close>

definition entry_eq_actions ::
    "(prop_value \<Rightarrow> bytes) \<Rightarrow> (rstring, u64 list) fmap option \<Rightarrow> u64 \<Rightarrow> props \<Rightarrow> bool \<Rightarrow> eq_action list" where
  "entry_eq_actions pv_to_vec eq_by_prop record_id ps present =
     concat (map (\<lambda>(prop_key, prop_value). case by_prop_lookup eq_by_prop prop_key of
         None \<Rightarrow> []
       | Some index_ids \<Rightarrow>
           map (\<lambda>index_id. (index_id, hash_prop_equality_key pv_to_vec prop_value, record_id, present)) index_ids) ps)"

definition entry_range_actions ::
    "(rstring, u64 list) fmap option \<Rightarrow> u64 \<Rightarrow> props \<Rightarrow> bool \<Rightarrow> range_action list" where
  "entry_range_actions range_by_prop record_id ps present =
     concat (map (\<lambda>(prop_key, prop_value). case by_prop_lookup range_by_prop prop_key of
         None \<Rightarrow> []
       | Some indexes \<Rightarrow> concat (map (\<lambda>index_id. case numeric_range_sort_key_for_value prop_value of
             None \<Rightarrow> []
           | Some encoded \<Rightarrow> [(index_id, encoded, record_id, present)]) indexes)) ps)"

definition collect_secondary_index_entries_for_node_label ::
    "(prop_value \<Rightarrow> bytes) \<Rightarrow> 'z index_decls_scheme \<Rightarrow> u32 \<Rightarrow> u64 \<Rightarrow> props \<Rightarrow> bool \<Rightarrow> eq_action list \<times> range_action list" where
  "collect_secondary_index_entries_for_node_label pv_to_vec st label_id node_id ps present =
     (let eq_by_prop = fmlookup (secondary_eq_by_prop st) label_id;
          range_by_prop = fmlookup (secondary_range_by_prop st) label_id
      in if eq_by_prop = None \<and> range_by_prop = None then ([], [])
         else (entry_eq_actions pv_to_vec eq_by_prop node_id ps present,
               entry_range_actions range_by_prop node_id ps present))"

text \<open>The loops over the indexed property keys of two versions of a record.\<close>

definition update_eq_actions ::
    "(prop_value \<Rightarrow> bytes) \<Rightarrow> (rstring, u64 list) fmap \<Rightarrow> u64 \<Rightarrow> props \<Rightarrow> u64 \<Rightarrow> props \<Rightarrow> eq_action list" where
  "update_eq_actions pv_to_vec by_prop old_id old_props new_id new_props =
     concat (map (\<lambda>prop_key.
       let index_ids = the (fmlookup by_prop prop_key);
           old_value = map_of old_props prop_key;
           new_value = map_of new_props prop_key
       in if optional_semantic_property_eq old_value new_value then []
          else (case old_value of None \<Rightarrow> []
                | Some v \<Rightarrow> map (\<lambda>index_id. (index_id, hash_prop_equality_key pv_to_vec v, old_id, False)) index_ids)
             @ (case new_value of None \<Rightarrow> []
                | Some v \<Rightarrow> map (\<lambda>index_id. (index_id, hash_prop_equality_key pv_to_vec v, new_id, True)) index_ids))
       (sorted_list_of_fset (fmdom by_prop)))"

definition update_range_actions ::
    "(rstring, u64 list) fmap \<Rightarrow> u64 \<Rightarrow> props \<Rightarrow> u64 \<Rightarrow> props \<Rightarrow> range_action list" where
  "update_range_actions by_prop old_id old_props new_id new_props =
     concat (map (\<lambda>prop_key.
       let indexes = the (fmlookup by_prop prop_key);
           old_encoded = Option.bind (map_of old_props prop_key) numeric_range_sort_key_for_value;
           new_encoded = Option.bind (map_of new_props prop_key) numeric_range_sort_key_for_value
       in if old_encoded = new_encoded then []
          else concat (map (\<lambda>index_id.
              (case old_encoded of None \<Rightarrow> [] | Some encoded \<Rightarrow> [(index_id, encoded, old_id, False)])
            @ (case new_encoded of None \<Rightarrow> [] | Some encoded \<Rightarrow> [(index_id, encoded, new_id, True)])) indexes))
       (sorted_list_of_fset (fmdom by_prop)))"

definition collect_secondary_index_updates_for_node_label ::
    "(prop_value \<Rightarrow> bytes) \<Rightarrow> 'z index_decls_scheme \<Rightarrow> u32 \<Rightarrow> node_record \<Rightarrow> node_record \<Rightarrow> eq_action list \<times> range_action list" where
  "collect_secondary_index_updates_for_node_label pv_to_vec st label_id old_node new_node =
     ((case fmlookup (secondary_eq_by_prop st) label_id of
         None \<Rightarrow> []
       | Some by_prop \<Rightarrow> update_eq_actions pv_to_vec by_prop (n_id old_node) (n_props old_node) (n_id new_node) (n_props new_node)),
      (case fmlookup (secondary_range_by_prop st) label_id of
         None \<Rightarrow> []
       | Some by_prop \<Rightarrow> update_range_actions by_prop (n_id old_node) (n_props old_node) (n_id new_node) (n_props new_node)))"

text \<open>Field indexes of a label with their declared fields; a missing or foreign declaration panics.\<close>

definition node_field_index :: "'z index_decls_scheme \<Rightarrow> u64 \<Rightarrow> secondary_index_field_manifest list option" where
  "node_field_index st index_id = Option.bind (fmlookup (secondary_index_declarations st) index_id) (\<lambda>entry.
     case sie_target entry of NodeFieldIndex _ flds \<Rightarrow> Some flds | _ \<Rightarrow> None)"

definition edge_field_index :: "'z index_decls_scheme \<Rightarrow> u64 \<Rightarrow> secondary_index_field_manifest list option" where
  "edge_field_index st index_id = Option.bind (fmlookup (secondary_index_declarations st) index_id) (\<lambda>entry.
     case sie_target entry of EdgeFieldIndex _ flds \<Rightarrow> Some flds | _ \<Rightarrow> None)"

definition collect_compound_index_entries_for_node_label ::
    "(prop_value \<Rightarrow> bytes) \<Rightarrow> 'z index_decls_scheme \<Rightarrow> u32 \<Rightarrow> node_record \<Rightarrow> bool \<Rightarrow> compound_action list option" where
  "collect_compound_index_entries_for_node_label pv_to_vec st label_id node present =
     (case fmlookup (secondary_node_field_indexes_by_label st) label_id of
        None \<Rightarrow> Some []
      | Some index_ids \<Rightarrow> those (map (\<lambda>index_id.
          Option.bind (node_field_index st index_id) (\<lambda>flds.
          map_option (\<lambda>tuple_key. (index_id, tuple_key, n_id node, present))
            (encode_node_compound_tuple_key pv_to_vec label_id flds node))) index_ids))"

definition collect_compound_index_updates_for_node_label ::
    "(prop_value \<Rightarrow> bytes) \<Rightarrow> 'z index_decls_scheme \<Rightarrow> u32 \<Rightarrow> node_record \<Rightarrow> node_record \<Rightarrow> compound_action list option" where
  "collect_compound_index_updates_for_node_label pv_to_vec st label_id old_node new_node =
     (case fmlookup (secondary_node_field_indexes_by_label st) label_id of
        None \<Rightarrow> Some []
      | Some index_ids \<Rightarrow> map_option concat (those (map (\<lambda>index_id.
          Option.bind (node_field_index st index_id) (\<lambda>flds.
          Option.bind (encode_node_compound_tuple_key pv_to_vec label_id flds old_node) (\<lambda>old_key.
          Option.bind (encode_node_compound_tuple_key pv_to_vec label_id flds new_node) (\<lambda>new_key.
            Some (if old_key = new_key then []
              else [(index_id, old_key, n_id old_node, False), (index_id, new_key, n_id new_node, True)]))))) index_ids)))"

definition collect_compound_index_entries_for_edge_label ::
    "(prop_value \<Rightarrow> bytes) \<Rightarrow> 'z index_decls_scheme \<Rightarrow> u32 \<Rightarrow> edge_record \<Rightarrow> bool \<Rightarrow> compound_action list option" where
  "collect_compound_index_entries_for_edge_label pv_to_vec st label_id edge present =
     (case fmlookup (secondary_edge_field_indexes_by_label st) label_id of
        None \<Rightarrow> Some []
      | Some index_ids \<Rightarrow> those (map (\<lambda>index_id.
          Option.bind (edge_field_index st index_id) (\<lambda>flds.
          map_option (\<lambda>tuple_key. (index_id, tuple_key, e_id edge, present))
            (encode_edge_compound_tuple_key pv_to_vec label_id flds edge))) index_ids))"

definition collect_compound_index_updates_for_edge_label ::
    "(prop_value \<Rightarrow> bytes) \<Rightarrow> 'z index_decls_scheme \<Rightarrow> u32 \<Rightarrow> edge_record \<Rightarrow> edge_record \<Rightarrow> compound_action list option" where
  "collect_compound_index_updates_for_edge_label pv_to_vec st label_id old_edge new_edge =
     (case fmlookup (secondary_edge_field_indexes_by_label st) label_id of
        None \<Rightarrow> Some []
      | Some index_ids \<Rightarrow> map_option concat (those (map (\<lambda>index_id.
          Option.bind (edge_field_index st index_id) (\<lambda>flds.
          Option.bind (encode_edge_compound_tuple_key pv_to_vec label_id flds old_edge) (\<lambda>old_key.
          Option.bind (encode_edge_compound_tuple_key pv_to_vec label_id flds new_edge) (\<lambda>new_key.
            Some (if old_key = new_key then []
              else [(index_id, old_key, e_id old_edge, False), (index_id, new_key, e_id new_edge, True)]))))) index_ids)))"

text \<open>The three loops that carry out collected actions.\<close>

type_synonym index_actions = "eq_action list \<times> range_action list \<times> compound_action list"

definition run_actions :: "memtable_state \<Rightarrow> index_actions \<Rightarrow> u64 \<Rightarrow> memtable_state" where
  "run_actions st actions write_seq = (case actions of (eq_actions, range_actions, compound_actions) \<Rightarrow>
     let st = fold (\<lambda>(index_id, value_hash, record_id, present) st.
           set_secondary_eq_slot st index_id value_hash record_id present write_seq) eq_actions st;
         st = fold (\<lambda>(index_id, encoded, record_id, present) st.
           set_secondary_range_slot st index_id encoded record_id present write_seq) range_actions st
     in fold (\<lambda>(index_id, tuple_key, record_id, present) st.
           set_compound_slot st index_id tuple_key record_id present write_seq) compound_actions st)"

text \<open>
  Collecting over the labels of a node: each label appends its actions to the three vectors.
\<close>

fun append_actions :: "index_actions option list \<Rightarrow> index_actions option" where
  "append_actions [] = Some ([], [], [])"
| "append_actions (a # rest) = Option.bind a (\<lambda>(e, r, c).
     map_option (\<lambda>(es, rs, cs). (e @ es, r @ rs, c @ cs)) (append_actions rest))"

definition node_entry_actions ::
    "(prop_value \<Rightarrow> bytes) \<Rightarrow> 'z index_decls_scheme \<Rightarrow> node_record \<Rightarrow> bool \<Rightarrow> u32 \<Rightarrow> index_actions option" where
  "node_entry_actions pv_to_vec st node present label_id =
     (let (e, r) = collect_secondary_index_entries_for_node_label pv_to_vec st label_id (n_id node) (n_props node) present
      in map_option (\<lambda>c. (e, r, c))
           (collect_compound_index_entries_for_node_label pv_to_vec st label_id node present))"

definition node_update_actions ::
    "(prop_value \<Rightarrow> bytes) \<Rightarrow> 'z index_decls_scheme \<Rightarrow> node_record \<Rightarrow> node_record \<Rightarrow> u32 \<Rightarrow> index_actions option" where
  "node_update_actions pv_to_vec st old_node new_node label_id =
     (let (e, r) = collect_secondary_index_updates_for_node_label pv_to_vec st label_id old_node new_node
      in map_option (\<lambda>c. (e, r, c))
           (collect_compound_index_updates_for_node_label pv_to_vec st label_id old_node new_node))"

definition no_node_indexes :: "'z index_decls_scheme \<Rightarrow> bool" where
  "no_node_indexes st \<longleftrightarrow> secondary_eq_by_prop st = fmempty \<and> secondary_range_by_prop st = fmempty \<and>
     secondary_node_field_indexes_by_label st = fmempty"

definition no_edge_indexes :: "'z index_decls_scheme \<Rightarrow> bool" where
  "no_edge_indexes st \<longleftrightarrow> secondary_edge_eq_by_prop st = fmempty \<and> secondary_edge_range_by_prop st = fmempty \<and>
     secondary_edge_field_indexes_by_label st = fmempty"

text \<open>The actions of adding or removing a node, of an upsert, and the same for edges.\<close>

definition node_presence_actions ::
    "(prop_value \<Rightarrow> bytes) \<Rightarrow> 'z index_decls_scheme \<Rightarrow> node_record \<Rightarrow> bool \<Rightarrow> index_actions option" where
  "node_presence_actions pv_to_vec st node present =
     (if no_node_indexes st then Some ([], [], [])
      else append_actions (map (node_entry_actions pv_to_vec st node present) (as_slice (n_label_ids node))))"

definition add_secondary_index_entries_for_node ::
    "(prop_value \<Rightarrow> bytes) \<Rightarrow> memtable_state \<Rightarrow> node_record \<Rightarrow> u64 \<Rightarrow> memtable_state option" where
  "add_secondary_index_entries_for_node pv_to_vec st node write_seq =
     map_option (\<lambda>a. run_actions st a write_seq) (node_presence_actions pv_to_vec st node True)"

definition remove_secondary_index_entries_for_node ::
    "(prop_value \<Rightarrow> bytes) \<Rightarrow> memtable_state \<Rightarrow> node_record \<Rightarrow> u64 \<Rightarrow> memtable_state option" where
  "remove_secondary_index_entries_for_node pv_to_vec st node write_seq =
     map_option (\<lambda>a. run_actions st a write_seq) (node_presence_actions pv_to_vec st node False)"

definition node_upsert_actions ::
    "(prop_value \<Rightarrow> bytes) \<Rightarrow> 'z index_decls_scheme \<Rightarrow> node_record \<Rightarrow> node_record \<Rightarrow> index_actions option" where
  "node_upsert_actions pv_to_vec st old_node new_node =
     append_actions
       (map (node_entry_actions pv_to_vec st old_node False)
          (filter (\<lambda>l. \<not> nls_contains (n_label_ids new_node) l) (as_slice (n_label_ids old_node)))
      @ map (\<lambda>l. if nls_contains (n_label_ids old_node) l
               then node_update_actions pv_to_vec st old_node new_node l
               else node_entry_actions pv_to_vec st new_node True l) (as_slice (n_label_ids new_node)))"

definition sync_secondary_index_entries_for_node_upsert ::
    "(prop_value \<Rightarrow> bytes) \<Rightarrow> memtable_state \<Rightarrow> node_record option \<Rightarrow> node_record \<Rightarrow> u64 \<Rightarrow> memtable_state option" where
  "sync_secondary_index_entries_for_node_upsert pv_to_vec st old_node new_node write_seq =
     (if no_node_indexes st then Some st
      else case old_node of
        None \<Rightarrow> add_secondary_index_entries_for_node pv_to_vec st new_node write_seq
      | Some old_node \<Rightarrow>
          map_option (\<lambda>a. run_actions st a write_seq) (node_upsert_actions pv_to_vec st old_node new_node))"

definition edge_presence_actions ::
    "(prop_value \<Rightarrow> bytes) \<Rightarrow> 'z index_decls_scheme \<Rightarrow> edge_record \<Rightarrow> bool \<Rightarrow> index_actions option" where
  "edge_presence_actions pv_to_vec st edge present =
     (if no_edge_indexes st then Some ([], [], [])
      else
        let eq_by_prop = fmlookup (secondary_edge_eq_by_prop st) (e_label_id edge);
            range_by_prop = fmlookup (secondary_edge_range_by_prop st) (e_label_id edge)
        in if eq_by_prop = None \<and> range_by_prop = None \<and>
              fmlookup (secondary_edge_field_indexes_by_label st) (e_label_id edge) = None
           then Some ([], [], [])
           else map_option (\<lambda>c. (entry_eq_actions pv_to_vec eq_by_prop (e_id edge) (e_props edge) present,
                  entry_range_actions range_by_prop (e_id edge) (e_props edge) present, c))
                (collect_compound_index_entries_for_edge_label pv_to_vec st (e_label_id edge) edge present))"

definition add_secondary_index_entries_for_edge ::
    "(prop_value \<Rightarrow> bytes) \<Rightarrow> memtable_state \<Rightarrow> edge_record \<Rightarrow> u64 \<Rightarrow> memtable_state option" where
  "add_secondary_index_entries_for_edge pv_to_vec st edge write_seq =
     map_option (\<lambda>a. run_actions st a write_seq) (edge_presence_actions pv_to_vec st edge True)"

definition remove_secondary_index_entries_for_edge ::
    "(prop_value \<Rightarrow> bytes) \<Rightarrow> memtable_state \<Rightarrow> edge_record \<Rightarrow> u64 \<Rightarrow> memtable_state option" where
  "remove_secondary_index_entries_for_edge pv_to_vec st edge write_seq =
     map_option (\<lambda>a. run_actions st a write_seq) (edge_presence_actions pv_to_vec st edge False)"

definition edge_update_actions ::
    "(prop_value \<Rightarrow> bytes) \<Rightarrow> 'z index_decls_scheme \<Rightarrow> edge_record \<Rightarrow> edge_record \<Rightarrow> index_actions option" where
  "edge_update_actions pv_to_vec st old_edge new_edge =
     (let eq_by_prop = fmlookup (secondary_edge_eq_by_prop st) (e_label_id new_edge);
          range_by_prop = fmlookup (secondary_edge_range_by_prop st) (e_label_id new_edge)
      in if eq_by_prop = None \<and> range_by_prop = None \<and>
            fmlookup (secondary_edge_field_indexes_by_label st) (e_label_id new_edge) = None
         then Some ([], [], [])
         else map_option (\<lambda>c.
            ((case eq_by_prop of None \<Rightarrow> []
              | Some by_prop \<Rightarrow> update_eq_actions pv_to_vec by_prop (e_id old_edge) (e_props old_edge) (e_id new_edge) (e_props new_edge)),
             (case range_by_prop of None \<Rightarrow> []
              | Some by_prop \<Rightarrow> update_range_actions by_prop (e_id old_edge) (e_props old_edge) (e_id new_edge) (e_props new_edge)),
             c)) (collect_compound_index_updates_for_edge_label pv_to_vec st (e_label_id new_edge) old_edge new_edge))"

definition sync_secondary_index_entries_for_edge_upsert ::
    "(prop_value \<Rightarrow> bytes) \<Rightarrow> memtable_state \<Rightarrow> edge_record option \<Rightarrow> edge_record \<Rightarrow> u64 \<Rightarrow> memtable_state option" where
  "sync_secondary_index_entries_for_edge_upsert pv_to_vec st old_edge new_edge write_seq =
     (if no_edge_indexes st then Some st
      else case old_edge of
        None \<Rightarrow> add_secondary_index_entries_for_edge pv_to_vec st new_edge write_seq
      | Some old_edge \<Rightarrow>
          if e_label_id old_edge \<noteq> e_label_id new_edge then
            Option.bind (remove_secondary_index_entries_for_edge pv_to_vec st old_edge write_seq) (\<lambda>st.
              add_secondary_index_entries_for_edge pv_to_vec st new_edge write_seq)
          else map_option (\<lambda>a. run_actions st a write_seq) (edge_update_actions pv_to_vec st old_edge new_edge))"

section \<open>Applying one operation\<close>

definition USIZE_MAX :: nat where
  "USIZE_MAX = 2 ^ 64 - 1"

definition saturating_add :: "nat \<Rightarrow> nat \<Rightarrow> nat" where
  "saturating_add a b = min (a + b) USIZE_MAX"

text \<open>Loop body: entries of an old label of a node that is being rewritten.\<close>

definition retire_node_label :: "node_record \<Rightarrow> node_record \<Rightarrow> u64 \<Rightarrow> u32 \<Rightarrow> memtable_state \<Rightarrow> memtable_state" where
  "retire_node_label old node last_write_seq old_label_id st =
     (let label_removed = \<not> nls_contains (n_label_ids node) old_label_id;
          st = (if label_removed \<or> n_key old \<noteq> n_key node
                then set_node_key st old_label_id (n_key old) None last_write_seq else st);
          st = (if label_removed
                then set_node_label_slot st old_label_id (n_id old) False last_write_seq else st)
      in if label_removed \<or> n_updated_at old \<noteq> n_updated_at node
         then set_time_slot st (old_label_id, sint (n_updated_at old), n_id old) False last_write_seq else st)"

definition enter_node_label :: "node_record \<Rightarrow> u64 \<Rightarrow> u32 \<Rightarrow> memtable_state \<Rightarrow> memtable_state" where
  "enter_node_label node last_write_seq new_label_id st =
     (let st = set_node_key st new_label_id (n_key node) (Some (n_id node)) last_write_seq;
          st = set_node_label_slot st new_label_id (n_id node) True last_write_seq
      in set_time_slot st (new_label_id, sint (n_updated_at node), n_id node) True last_write_seq)"

definition apply_upsert_node ::
    "(prop_value \<Rightarrow> bytes) \<Rightarrow> memtable_state \<Rightarrow> node_record \<Rightarrow> u64 \<Rightarrow> memtable_state option" where
  "apply_upsert_node pv_to_vec st node last_write_seq =
     (let old_node = current_node st (n_id node);
          was_live = (old_node \<noteq> None);
          was_deleted = node_deleted_at st (n_id node) U64_MAX;
          st = (case old_node of None \<Rightarrow> st
                | Some old \<Rightarrow> fold (retire_node_label old node last_write_seq) (as_slice (n_label_ids old)) st);
          stored = node\<lparr>n_last_write_seq := last_write_seq\<rparr>;
          st = fold (enter_node_label node last_write_seq) (as_slice (n_label_ids node)) st
      in map_option (\<lambda>st.
           let st = (if was_deleted then set_node_tombstone_slot st (n_id node) False last_write_seq else st);
               st = set_node_state st (n_id node) (Live stored) last_write_seq
           in if \<not> was_live then st\<lparr>live_node_count := saturating_add (live_node_count st) 1\<rparr> else st)
         (sync_secondary_index_entries_for_node_upsert pv_to_vec st old_node stored last_write_seq))"

definition adj_out_entry :: "edge_record \<Rightarrow> adj_entry" where
  "adj_out_entry edge = \<lparr>adj_edge_id = e_id edge, adj_label_id = e_label_id edge, adj_neighbor_id = e_to edge,
     adj_weight = e_weight edge, adj_valid_from = e_valid_from edge, adj_valid_to = e_valid_to edge\<rparr>"

definition adj_in_entry :: "edge_record \<Rightarrow> adj_entry" where
  "adj_in_entry edge = \<lparr>adj_edge_id = e_id edge, adj_label_id = e_label_id edge, adj_neighbor_id = e_from edge,
     adj_weight = e_weight edge, adj_valid_from = e_valid_from edge, adj_valid_to = e_valid_to edge\<rparr>"

definition retire_edge :: "edge_record \<Rightarrow> edge_record \<Rightarrow> u64 \<Rightarrow> memtable_state \<Rightarrow> memtable_state" where
  "retire_edge old edge last_write_seq st =
     (let st = (if (e_from old \<noteq> e_from edge \<or> e_to old \<noteq> e_to edge \<or> e_label_id old \<noteq> e_label_id edge) \<and>
                   current_edge_triple_id st (e_from old) (e_to old) (e_label_id old) = Some (e_id old)
                then set_edge_triple st (e_from old) (e_to old) (e_label_id old) None last_write_seq else st);
          st = (if e_label_id old \<noteq> e_label_id edge
                then set_ordered_edge_label_slot (set_edge_label_slot st (e_label_id old) (e_id old) False last_write_seq)
                       (e_label_id old) (e_id old) False last_write_seq else st)
      in if e_from old \<noteq> e_from edge \<or> e_to old \<noteq> e_to edge
         then set_adj_in_slot (set_adj_out_slot st (e_from old) (e_id old) None last_write_seq)
                (e_to old) (e_id old) None last_write_seq
         else st)"

definition apply_upsert_edge ::
    "(prop_value \<Rightarrow> bytes) \<Rightarrow> memtable_state \<Rightarrow> edge_record \<Rightarrow> u64 \<Rightarrow> memtable_state option" where
  "apply_upsert_edge pv_to_vec st edge last_write_seq =
     (let old_edge = current_edge st (e_id edge);
          was_live = (old_edge \<noteq> None);
          was_deleted = edge_deleted_at st (e_id edge) U64_MAX;
          st = (case old_edge of None \<Rightarrow> st | Some old \<Rightarrow> retire_edge old edge last_write_seq st);
          current_triple_id = current_edge_triple_id st (e_from edge) (e_to edge) (e_label_id edge);
          should_update_triple = (case old_edge of
              Some old \<Rightarrow>
                if e_from old = e_from edge \<and> e_to old = e_to edge \<and> e_label_id old = e_label_id edge
                then (case current_triple_id of None \<Rightarrow> True | Some current_id \<Rightarrow> current_id = e_id edge)
                else True
            | None \<Rightarrow> True);
          st = (if should_update_triple
                then set_edge_triple st (e_from edge) (e_to edge) (e_label_id edge) (Some (e_id edge)) last_write_seq
                else st);
          st = set_adj_out_slot st (e_from edge) (e_id edge) (Some (adj_out_entry edge)) last_write_seq;
          st = set_adj_in_slot st (e_to edge) (e_id edge) (Some (adj_in_entry edge)) last_write_seq;
          st = set_edge_label_slot st (e_label_id edge) (e_id edge) True last_write_seq;
          st = set_ordered_edge_label_slot st (e_label_id edge) (e_id edge) True last_write_seq;
          st = set_ordered_edge_slot st (e_id edge) True last_write_seq;
          stored = edge\<lparr>e_last_write_seq := last_write_seq\<rparr>
      in map_option (\<lambda>st.
           let st = (if was_deleted then set_edge_tombstone_slot st (e_id edge) False last_write_seq else st);
               st = set_edge_state st (e_id edge) (Live stored) last_write_seq
           in if \<not> was_live then st\<lparr>live_edge_count := saturating_add (live_edge_count st) 1\<rparr> else st)
         (sync_secondary_index_entries_for_edge_upsert pv_to_vec st old_edge stored last_write_seq))"

definition leave_node_label :: "node_record \<Rightarrow> u64 \<Rightarrow> u32 \<Rightarrow> memtable_state \<Rightarrow> memtable_state" where
  "leave_node_label node last_write_seq label_id st =
     (let st = set_node_key st label_id (n_key node) None last_write_seq;
          st = set_node_label_slot st label_id (n_id node) False last_write_seq
      in set_time_slot st (label_id, sint (n_updated_at node), n_id node) False last_write_seq)"

definition apply_delete_node ::
    "(prop_value \<Rightarrow> bytes) \<Rightarrow> memtable_state \<Rightarrow> u64 \<Rightarrow> i64 \<Rightarrow> u64 \<Rightarrow> memtable_state option" where
  "apply_delete_node pv_to_vec st rid when last_write_seq =
     map_option (\<lambda>st.
         let st = set_node_state st rid (Tombstone \<lparr>deleted_at = when, t_last_write_seq = last_write_seq\<rparr>) last_write_seq
         in set_node_tombstone_slot st rid True last_write_seq)
       (case current_node st rid of
          None \<Rightarrow> Some st
        | Some node \<Rightarrow>
            map_option (\<lambda>st. st\<lparr>live_node_count := live_node_count st - 1\<rparr>)
              (remove_secondary_index_entries_for_node pv_to_vec
                 (fold (leave_node_label node last_write_seq) (as_slice (n_label_ids node)) st) node last_write_seq))"

definition leave_edge :: "u64 \<Rightarrow> edge_record \<Rightarrow> u64 \<Rightarrow> memtable_state \<Rightarrow> memtable_state" where
  "leave_edge rid edge last_write_seq st =
     (let st = (if current_edge_triple_id st (e_from edge) (e_to edge) (e_label_id edge) = Some rid
                then set_edge_triple st (e_from edge) (e_to edge) (e_label_id edge) None last_write_seq else st);
          st = set_edge_label_slot st (e_label_id edge) (e_id edge) False last_write_seq;
          st = set_ordered_edge_label_slot st (e_label_id edge) (e_id edge) False last_write_seq;
          st = set_adj_out_slot st (e_from edge) (e_id edge) None last_write_seq;
          st = set_adj_in_slot st (e_to edge) (e_id edge) None last_write_seq
      in set_ordered_edge_slot st (e_id edge) False last_write_seq)"

definition apply_delete_edge ::
    "(prop_value \<Rightarrow> bytes) \<Rightarrow> memtable_state \<Rightarrow> u64 \<Rightarrow> i64 \<Rightarrow> u64 \<Rightarrow> memtable_state option" where
  "apply_delete_edge pv_to_vec st rid when last_write_seq =
     map_option (\<lambda>st.
         let st = set_edge_state st rid (Tombstone \<lparr>deleted_at = when, t_last_write_seq = last_write_seq\<rparr>) last_write_seq
         in set_edge_tombstone_slot st rid True last_write_seq)
       (case current_edge st rid of
          None \<Rightarrow> Some st
        | Some edge \<Rightarrow>
            map_option (\<lambda>st. st\<lparr>live_edge_count := live_edge_count st - 1\<rparr>)
              (remove_secondary_index_entries_for_edge pv_to_vec (leave_edge rid edge last_write_seq st) edge last_write_seq))"

fun apply_op :: "(prop_value \<Rightarrow> bytes) \<Rightarrow> memtable_state \<Rightarrow> wal_op \<Rightarrow> u64 \<Rightarrow> memtable_state option" where
  "apply_op pv_to_vec st (UpsertNode node) last_write_seq = apply_upsert_node pv_to_vec st node last_write_seq"
| "apply_op pv_to_vec st (UpsertEdge edge) last_write_seq = apply_upsert_edge pv_to_vec st edge last_write_seq"
| "apply_op pv_to_vec st (DeleteNode rid when) last_write_seq = apply_delete_node pv_to_vec st rid when last_write_seq"
| "apply_op pv_to_vec st (DeleteEdge rid when) last_write_seq = apply_delete_edge pv_to_vec st rid when last_write_seq"
| "apply_op pv_to_vec st (EnsureNodeLabel _ _) last_write_seq = Some st"
| "apply_op pv_to_vec st (EnsureEdgeLabel _ _) last_write_seq = Some st"
| "apply_op pv_to_vec st (BeginAtomicBatch _ _) last_write_seq = Some st"
| "apply_op pv_to_vec st (CommitAtomicBatch _ _) last_write_seq = Some st"

end
