(* ===== verification/Vectors.thy ===== *)
theory Vectors
  imports Graph_Types Numeric_Order
begin

text \<open>
  Vectors on write and on replay: \<^verbatim>\<open>validate_dense_vector\<close> and \<^verbatim>\<open>canonicalize_sparse_vector\<close> of
  \<^verbatim>\<open>src/src/types.rs\<close> and the normalisation of logged operations of \<^verbatim>\<open>src/src/engine/mod.rs\<close>,
  over the bits of IEEE floats. Replay runs the same normalisation as the write did; it keeps an
  operation that was already normalised.
\<close>

section \<open>Float addition\<close>

text \<open>
  A float with \<open>p\<close> fraction bits and \<open>e\<close> exponent bits as a natural number: sign, exponent,
  fraction. Its magnitude counts units of the smallest subnormal, so a sum of two finite floats is
  the sum of two integers, rounded to the nearest float, ties to even. The payload of a NaN that an
  addition makes is left open by the language; it is the default quiet NaN here.
\<close>

definition fl_sign :: "nat \<Rightarrow> nat \<Rightarrow> nat \<Rightarrow> bool" where
  "fl_sign p e a \<longleftrightarrow> a \<ge> 2 ^ (p + e)"

definition fl_exp :: "nat \<Rightarrow> nat \<Rightarrow> nat \<Rightarrow> nat" where
  "fl_exp p e a = a div 2 ^ p mod 2 ^ e"

definition fl_frac :: "nat \<Rightarrow> nat \<Rightarrow> nat" where
  "fl_frac p a = a mod 2 ^ p"

definition fl_nan :: "nat \<Rightarrow> nat \<Rightarrow> nat \<Rightarrow> bool" where
  "fl_nan p e a \<longleftrightarrow> fl_exp p e a = 2 ^ e - 1 \<and> fl_frac p a \<noteq> 0"

definition fl_inf :: "nat \<Rightarrow> nat \<Rightarrow> nat \<Rightarrow> bool" where
  "fl_inf p e a \<longleftrightarrow> fl_exp p e a = 2 ^ e - 1 \<and> fl_frac p a = 0"

definition fl_zero :: "nat \<Rightarrow> nat \<Rightarrow> nat \<Rightarrow> bool" where
  "fl_zero p e a \<longleftrightarrow> fl_exp p e a = 0 \<and> fl_frac p a = 0"

definition fl_mag :: "nat \<Rightarrow> nat \<Rightarrow> nat \<Rightarrow> nat" where
  "fl_mag p e a = (if fl_exp p e a = 0 then fl_frac p a else (2 ^ p + fl_frac p a) * 2 ^ (fl_exp p e a - 1))"

definition fl_val :: "nat \<Rightarrow> nat \<Rightarrow> nat \<Rightarrow> int" where
  "fl_val p e a = (if fl_sign p e a then - int (fl_mag p e a) else int (fl_mag p e a))"

definition fl_infinity :: "nat \<Rightarrow> nat \<Rightarrow> nat" where
  "fl_infinity p e = (2 ^ e - 1) * 2 ^ p"

definition fl_round :: "nat \<Rightarrow> nat \<Rightarrow> nat \<Rightarrow> nat" where
  "fl_round p e s =
     (if s < 2 ^ (p + 1) then s
      else let k = bits_len s - (p + 1);
               q = s div 2 ^ k;
               r = s mod 2 ^ k;
               up = (2 * r > 2 ^ k \<or> 2 * r = 2 ^ k \<and> odd q)
           in min (fl_infinity p e) ((if up then q + 1 else q) + k * 2 ^ p))"

definition fl_add :: "nat \<Rightarrow> nat \<Rightarrow> nat \<Rightarrow> nat \<Rightarrow> nat" where
  "fl_add p e a b =
     (if fl_nan p e a \<or> fl_nan p e b then fl_infinity p e + 2 ^ (p - 1)
      else if fl_inf p e a then
        if fl_inf p e b \<and> fl_sign p e a \<noteq> fl_sign p e b then fl_infinity p e + 2 ^ (p - 1) else a
      else if fl_inf p e b then b
      else let s = fl_val p e a + fl_val p e b in
        if s = 0 then if fl_sign p e a \<and> fl_sign p e b then 2 ^ (p + e) else 0
        else (if s < 0 then 2 ^ (p + e) else 0) + fl_round p e (nat \<bar>s\<bar>))"

definition f32_add :: "f32 \<Rightarrow> f32 \<Rightarrow> f32" where
  "f32_add a b = of_nat (fl_add 23 8 (unat a) (unat b))"

definition f64_add :: "f64 \<Rightarrow> f64 \<Rightarrow> f64" where
  "f64_add a b = of_nat (fl_add 52 11 (unat a) (unat b))"

definition f32_is_finite :: "f32 \<Rightarrow> bool" where
  "f32_is_finite w \<longleftrightarrow> fl_exp 23 8 (unat w) \<noteq> 255"

definition f32_is_zero :: "f32 \<Rightarrow> bool" where
  "f32_is_zero w \<longleftrightarrow> fl_zero 23 8 (unat w)"

text \<open>\<^verbatim>\<open>w < 0.0\<close>: neither zero is negative, and a NaN compares false.\<close>

definition f32_negative :: "f32 \<Rightarrow> bool" where
  "f32_negative w \<longleftrightarrow> fl_sign 23 8 (unat w) \<and> \<not> f32_is_zero w \<and> \<not> fl_nan 23 8 (unat w)"

section \<open>Dense vectors\<close>

record hnsw_config =
  h_m :: u16
  h_ef_construction :: u16

datatype dense_metric = Cosine | Euclidean | DotProduct

record dense_vector_config =
  dc_dimension :: u32
  dc_metric :: dense_metric
  dc_hnsw :: hnsw_config

definition validate_dense_vector_config :: "dense_vector_config \<Rightarrow> engine_error + unit" where
  "validate_dense_vector_config config =
     (if dc_dimension config = 0 then Inl (InvalidOperation ''dense vector dimension must be > 0'')
      else if h_m (dc_hnsw config) = 0 then Inl (InvalidOperation ''dense HNSW m must be > 0'')
      else if h_ef_construction (dc_hnsw config) = 0 then Inl (InvalidOperation ''dense HNSW ef_construction must be > 0'')
      else if h_ef_construction (dc_hnsw config) < h_m (dc_hnsw config) then
        Inl (InvalidOperation ''dense HNSW ef_construction must be >= m'')
      else Inr ())"

definition validate_finite_vector_component :: "f32 \<Rightarrow> string \<Rightarrow> engine_error + unit" where
  "validate_finite_vector_component value what =
     (if \<not> f32_is_finite value then Inl (InvalidOperation (what @ '' contains NaN or infinite value'')) else Inr ())"

definition validate_dense_vector :: "f32 list \<Rightarrow> dense_vector_config \<Rightarrow> engine_error + unit" where
  "validate_dense_vector vec config =
     r_bind (validate_dense_vector_config config) (\<lambda>_.
       if length vec \<noteq> unat (dc_dimension config) then
         Inl (InvalidOperation ''dense vector length does not match configured dimension'')
       else r_fold (\<lambda>_ value. validate_finite_vector_component value ''dense vector'') () vec)"

section \<open>Sparse vectors\<close>

definition check_sparse_entry :: "unit \<Rightarrow> u32 \<times> f32 \<Rightarrow> engine_error + unit" where
  "check_sparse_entry u entry =
     r_bind (validate_finite_vector_component (snd entry) ''sparse vector'') (\<lambda>_.
       if f32_negative (snd entry) then Inl (InvalidOperation ''sparse vector weights must be non-negative'') else Inr ())"

text \<open>Merging equal neighbours; the sort before it is unstable in the source and stable here.\<close>

fun merge_sparse :: "sparse_vector \<Rightarrow> sparse_vector \<Rightarrow> sparse_vector" where
  "merge_sparse canonical [] = canonical"
| "merge_sparse canonical ((dimension_id, weight) # entries) =
     (if canonical \<noteq> [] \<and> fst (last canonical) = dimension_id
      then merge_sparse (butlast canonical @ [(dimension_id, f32_add (snd (last canonical)) weight)]) entries
      else merge_sparse (canonical @ [(dimension_id, weight)]) entries)"

definition canonicalize_sparse_vector :: "sparse_vector \<Rightarrow> engine_error + sparse_vector option" where
  "canonicalize_sparse_vector entries =
     (if entries = [] then Inr None
      else r_bind (r_fold check_sparse_entry () entries) (\<lambda>_.
        let canonical = filter (\<lambda>(_, weight). \<not> f32_is_zero weight) (merge_sparse [] (sort_key fst entries)) in
        if canonical = [] then Inr None
        else r_bind (r_fold (\<lambda>_ (_, weight). validate_finite_vector_component weight ''sparse vector'') () canonical)
          (\<lambda>_. Inr (Some canonical))))"

section \<open>Normalising logged operations\<close>

definition normalize_node_vectors_for_write ::
    "dense_vector_config option \<Rightarrow> dense_vector option \<Rightarrow> sparse_vector option
       \<Rightarrow> engine_error + dense_vector option \<times> sparse_vector option" where
  "normalize_node_vectors_for_write dense_config dense sparse =
     r_bind (case dense of
         Some vec \<Rightarrow> (case dense_config of
             None \<Rightarrow> Inl (InvalidOperation ''dense vector writes require DbOptions::dense_vector to be configured'')
           | Some config \<Rightarrow> r_bind (validate_dense_vector vec config) (\<lambda>_. Inr (Some vec)))
       | None \<Rightarrow> Inr None) (\<lambda>dense_vector.
     r_bind (case sparse of Some vec \<Rightarrow> canonicalize_sparse_vector vec | None \<Rightarrow> Inr None) (\<lambda>sparse_vector.
       Inr (dense_vector, sparse_vector)))"

definition normalize_wal_op_for_write :: "dense_vector_config option \<Rightarrow> wal_op \<Rightarrow> engine_error + wal_op" where
  "normalize_wal_op_for_write dense_config op = (case op of
     UpsertNode node \<Rightarrow>
       r_bind (normalize_node_vectors_for_write dense_config (n_dense_vector node) (n_sparse_vector node))
         (\<lambda>(dense_vector, sparse_vector).
           Inr (UpsertNode (node\<lparr>n_dense_vector := dense_vector, n_sparse_vector := sparse_vector\<rparr>)))
   | BeginAtomicBatch _ _ \<Rightarrow> Inl (InvalidOperation ''WAL atomic batch markers are not write operations'')
   | CommitAtomicBatch _ _ \<Rightarrow> Inl (InvalidOperation ''WAL atomic batch markers are not write operations'')
   | _ \<Rightarrow> Inr op)"

definition normalize_wal_op_for_replay :: "dense_vector_config option \<Rightarrow> wal_op \<Rightarrow> engine_error + wal_op" where
  "normalize_wal_op_for_replay dense_config op = (case normalize_wal_op_for_write dense_config op of
     Inr op' \<Rightarrow> Inr op'
   | Inl err \<Rightarrow> Inl (case (op, err) of
        (UpsertNode _, InvalidOperation _) \<Rightarrow> CorruptWal ''invalid vector payload for replayed node''
      | _ \<Rightarrow> err))"

section \<open>What normalisation leaves\<close>

definition sparse_ok :: "sparse_vector \<Rightarrow> bool" where
  "sparse_ok v \<longleftrightarrow> v \<noteq> [] \<and> sorted_wrt (<) (map fst v) \<and>
     list_all (\<lambda>(_, w). f32_is_finite w \<and> \<not> f32_negative w \<and> \<not> f32_is_zero w) v"

lemma r_fold_unit_ok: "(\<And>x. x \<in> set xs \<Longrightarrow> f () x = Inr ()) \<Longrightarrow> r_fold f () xs = Inr ()"
  by (induction xs) simp_all

lemma r_fold_unit_okD: "r_fold f () xs = Inr u \<Longrightarrow> x \<in> set xs \<Longrightarrow> f () x = Inr ()"
  by (induction xs) (auto simp: r_bind_eq_Inr)

lemma merge_sparse_id:
  "sorted_wrt (<) (map fst (acc @ xs)) \<Longrightarrow> merge_sparse acc xs = acc @ xs"
proof (induction acc xs rule: merge_sparse.induct)
  case (2 canonical dimension_id weight entries)
  then have "canonical \<noteq> [] \<Longrightarrow> fst (last canonical) < dimension_id"
    by (auto simp: sorted_wrt_append dest: last_in_set)
  with 2 show ?case by auto
qed simp

lemma canonicalize_fixed: "sparse_ok v \<Longrightarrow> canonicalize_sparse_vector v = Inr (Some v)"
proof -
  assume v: "sparse_ok v"
  then have s: "sort_key fst v = v" "merge_sparse [] v = v"
    by (auto simp: sparse_ok_def sort_key_id_if_sorted strict_sorted_imp_sorted merge_sparse_id)
  have f: "filter (\<lambda>(_, w). \<not> f32_is_zero w) v = v" using v by (intro filter_True) (auto simp: sparse_ok_def list_all_iff)
  have "r_fold check_sparse_entry () v = Inr ()"
    and "r_fold (\<lambda>_ (_, w). validate_finite_vector_component w ''sparse vector'') () v = Inr ()"
    using v by (auto intro!: r_fold_unit_ok
      simp: sparse_ok_def list_all_iff check_sparse_entry_def validate_finite_vector_component_def)
  with v s f show ?thesis by (simp add: canonicalize_sparse_vector_def sparse_ok_def)
qed

lemma fl_round_le: "fl_round p e s \<le> max (fl_infinity p e) (2 ^ (p + 1))"
  by (auto simp: fl_round_def Let_def min_def max_def)

text \<open>A weight that is no NaN and not negative stays so under addition.\<close>

definition f32_nonneg :: "f32 \<Rightarrow> bool" where
  "f32_nonneg w \<longleftrightarrow> \<not> fl_nan 23 8 (unat w) \<and> (fl_sign 23 8 (unat w) \<longrightarrow> f32_is_zero w)"

lemma fl_small: "n \<le> fl_infinity 23 8 \<Longrightarrow> \<not> fl_nan 23 8 n \<and> \<not> fl_sign 23 8 n"
proof -
  assume n: "n \<le> fl_infinity 23 8"
  then have n': "n \<le> 2139095040" by (simp add: fl_infinity_def)
  have split: "n = 8388608 * (n div 8388608) + n mod 8388608" by simp
  have "n mod 8388608 = 0" if "n div 8388608 mod 256 = 255"
  proof -
    have "255 \<le> n div 8388608" using that mod_less_eq_dividend [of "n div 8388608" 256] by simp
    with n' split show ?thesis by linarith
  qed
  with n' show ?thesis by (simp add: fl_nan_def fl_sign_def fl_exp_def fl_frac_def)
qed

lemma f32_nonneg_add:
  assumes "f32_nonneg a" and "f32_nonneg b"
  shows "f32_nonneg (f32_add a b)"
proof -
  define x y where "x = unat a" and "y = unat b"
  have z: "fl_mag 23 8 u = 0" if "fl_zero 23 8 u" for u using that by (simp add: fl_zero_def fl_mag_def)
  have inf_sign: "\<not> fl_sign 23 8 u" if "fl_inf 23 8 u" "fl_sign 23 8 u \<longrightarrow> fl_zero 23 8 u" for u
    using that by (auto simp: fl_inf_def fl_zero_def)
  have val: "0 \<le> fl_val 23 8 u" if "fl_sign 23 8 u \<longrightarrow> fl_zero 23 8 u" for u
    using that z by (auto simp: fl_val_def)
  have xy: "fl_sign 23 8 x \<longrightarrow> fl_zero 23 8 x" "fl_sign 23 8 y \<longrightarrow> fl_zero 23 8 y" "\<not> fl_nan 23 8 x" "\<not> fl_nan 23 8 y"
    using assms by (auto simp: f32_nonneg_def f32_is_zero_def x_def y_def)
  have bound: "x < 2 ^ 32" "y < 2 ^ 32" using unat_less_pow [of a] unat_less_pow [of b] by (simp_all add: x_def y_def)
  define n where "n = fl_add 23 8 x y"
  define t where "t = fl_val 23 8 x + fl_val 23 8 y"
  have t: "0 \<le> t" using val [OF xy(1)] val [OF xy(2)] by (simp add: t_def)
  consider (x) "fl_inf 23 8 x" | (y) "\<not> fl_inf 23 8 x" "fl_inf 23 8 y" | (zero) "\<not> fl_inf 23 8 x" "\<not> fl_inf 23 8 y" "t = 0"
    | (pos) "\<not> fl_inf 23 8 x" "\<not> fl_inf 23 8 y" "0 < t" using t by linarith
  then have "n < 2 ^ 32 \<and> \<not> fl_nan 23 8 n \<and> (fl_sign 23 8 n \<longrightarrow> fl_zero 23 8 n)"
  proof cases
    case x
    then have "n = x" using xy inf_sign [of x] inf_sign [of y] by (auto simp: n_def fl_add_def)
    then show ?thesis using xy bound by simp
  next
    case y
    then have "n = y" using xy by (simp add: n_def fl_add_def)
    then show ?thesis using xy bound by simp
  next
    case zero
    then have "n = 2 ^ 31 \<or> n = 0" using xy by (simp add: n_def fl_add_def t_def)
    then show ?thesis by (auto simp: fl_nan_def fl_exp_def fl_frac_def fl_zero_def)
  next
    case pos
    then have "n = fl_round 23 8 (nat t)" using xy by (simp add: n_def fl_add_def Let_def t_def [symmetric])
    then have "n \<le> fl_infinity 23 8" using fl_round_le [of 23 8 "nat t"] by (simp add: fl_infinity_def)
    then show ?thesis using fl_small [of n] by (auto simp: fl_infinity_def)
  qed
  moreover have "f32_add a b = of_nat n" by (simp add: f32_add_def n_def x_def y_def)
  ultimately show ?thesis by (simp add: f32_nonneg_def f32_is_zero_def unat_of_nat_small)
qed

lemma merge_sparse_sorted:
  assumes "sorted (map fst (acc @ xs))" and "sorted_wrt (<) (map fst acc)"
  shows "sorted_wrt (<) (map fst (merge_sparse acc xs))"
  using assms
proof (induction acc xs rule: merge_sparse.induct)
  case (2 canonical d w entries)
  show ?case
  proof (cases "canonical \<noteq> [] \<and> fst (last canonical) = d")
    case True
    then obtain front v where c: "canonical = front @ [(d, v)]" by (cases canonical rule: rev_cases) auto
    with 2 True show ?thesis by (auto simp: sorted_append)
  next
    case False
    have "fst x < d" if "x \<in> set canonical" for x
    proof -
      from that obtain front l where c: "canonical = front @ [l]" by (cases canonical rule: rev_cases) auto
      then have "fst x \<le> fst l" using 2(4) that by (auto simp: sorted_wrt_append)
      moreover have "fst l \<noteq> d" "fst l \<le> d" using False c 2(3) by (auto simp: sorted_append)
      ultimately show ?thesis by simp
    qed
    with 2 False show ?thesis by (auto simp: sorted_append sorted_wrt_append)
  qed
qed simp

lemma merge_sparse_nonneg:
  "\<forall>x \<in> set (acc @ xs). f32_nonneg (snd x) \<Longrightarrow> \<forall>x \<in> set (merge_sparse acc xs). f32_nonneg (snd x)"
proof (induction acc xs rule: merge_sparse.induct)
  case (2 canonical d w entries)
  show ?case
  proof (cases "canonical \<noteq> [] \<and> fst (last canonical) = d")
    case True
    then have "last canonical \<in> set canonical" by simp
    then have "f32_nonneg (f32_add (snd (last canonical)) w)" using 2(3) by (intro f32_nonneg_add) auto
    then have "\<forall>x \<in> set ((butlast canonical @ [(d, f32_add (snd (last canonical)) w)]) @ entries). f32_nonneg (snd x)"
      using 2(3) by (auto dest: in_set_butlastD)
    from 2(1) [OF True this] True show ?thesis by simp
  next
    case False
    from 2(2) [OF False] 2(3) show ?thesis using False by auto
  qed
qed simp

lemma finite_not_nan: "f32_is_finite w \<Longrightarrow> \<not> fl_nan 23 8 (unat w)"
  by (simp add: f32_is_finite_def fl_nan_def)

lemma check_sparse_nonneg: "check_sparse_entry () x = Inr () \<Longrightarrow> f32_nonneg (snd x)"
  by (auto simp: check_sparse_entry_def validate_finite_vector_component_def r_bind_eq_Inr f32_nonneg_def f32_negative_def
      finite_not_nan split: if_splits)

lemma canonicalize_result:
  assumes "canonicalize_sparse_vector v = Inr (Some v')"
  shows "sparse_ok v'"
proof -
  let ?m = "merge_sparse [] (sort_key fst v)"
  from assms have chk: "r_fold check_sparse_entry () v = Inr ()" and v': "v' = filter (\<lambda>(_, w). \<not> f32_is_zero w) ?m" "v' \<noteq> []"
    and fin: "r_fold (\<lambda>_ (_, w). validate_finite_vector_component w ''sparse vector'') () v' = Inr ()"
    by (auto simp: canonicalize_sparse_vector_def Let_def r_bind_eq_Inr split: if_splits)
  have "\<forall>x \<in> set v. f32_nonneg (snd x)"
    using r_fold_unit_okD [OF chk] check_sparse_nonneg by blast
  then have nn: "\<forall>x \<in> set ?m. f32_nonneg (snd x)" by (intro merge_sparse_nonneg) simp
  have "sorted_wrt (<) (map fst ?m)" by (intro merge_sparse_sorted) simp_all
  then have "sorted_wrt (<) (map fst v')"
    unfolding v'(1) by (simp add: sorted_wrt_map sorted_wrt_filter)
  moreover have "f32_is_finite w" if "(d, w) \<in> set v'" for d w
    using r_fold_unit_okD [OF fin that] by (simp add: validate_finite_vector_component_def split: if_splits)
  ultimately show ?thesis
    using nn v' by (auto simp: sparse_ok_def list_all_iff f32_nonneg_def f32_negative_def)
qed

text \<open>Normalising is idempotent, on write and on replay.\<close>

definition op_normal :: "dense_vector_config option \<Rightarrow> wal_op \<Rightarrow> bool" where
  "op_normal dense_config op \<longleftrightarrow> normalize_wal_op_for_write dense_config op = Inr op"

lemma normalize_result:
  assumes "normalize_wal_op_for_write dense_config op = Inr op'"
  shows "op_normal dense_config op'"
proof (cases op)
  case (UpsertNode node)
  with assms obtain d s where n: "normalize_node_vectors_for_write dense_config (n_dense_vector node) (n_sparse_vector node) = Inr (d, s)"
    and op': "op' = UpsertNode (node\<lparr>n_dense_vector := d, n_sparse_vector := s\<rparr>)"
    by (auto simp: normalize_wal_op_for_write_def r_bind_eq_Inr)
  from n have "normalize_node_vectors_for_write dense_config d s = Inr (d, s)"
    by (auto simp: normalize_node_vectors_for_write_def r_bind_eq_Inr canonicalize_fixed canonicalize_result split: option.splits)
  then show ?thesis by (simp add: op_normal_def normalize_wal_op_for_write_def op')
qed (use assms in \<open>auto simp: normalize_wal_op_for_write_def op_normal_def\<close>)

lemma replay_normal: "op_normal dense_config op \<Longrightarrow> normalize_wal_op_for_replay dense_config op = Inr op"
  by (simp add: op_normal_def normalize_wal_op_for_replay_def)

end
