(* ===== verification/Degree.thy ===== *)
theory Degree
  imports Memtable Vectors
begin

text \<open>
  The degree cache: \<^verbatim>\<open>DegreeDelta\<close> and the sharded overlay of \<^verbatim>\<open>src/src/degree_cache.rs\<close>, and the
  deltas that a logged operation contributes (\<^verbatim>\<open>collect_degree_delta_for_op\<close> in
  \<^verbatim>\<open>src/src/engine/mod.rs\<close>). Counts are 64-bit integers, weight sums IEEE doubles. The overlay is
  a tree of copy-on-write shards.
\<close>

section \<open>Deltas\<close>

record degree_delta =
  dd_out_degree :: i64
  dd_in_degree :: i64
  dd_out_weight_sum :: f64
  dd_in_weight_sum :: f64
  dd_self_loop_count :: i64
  dd_self_loop_weight_sum :: f64
  dd_temporal_edge_count :: i64

definition DELTA_ZERO :: degree_delta where
  "DELTA_ZERO = \<lparr>dd_out_degree = 0, dd_in_degree = 0, dd_out_weight_sum = 0, dd_in_weight_sum = 0,
     dd_self_loop_count = 0, dd_self_loop_weight_sum = 0, dd_temporal_edge_count = 0\<rparr>"

definition is_zero :: "degree_delta \<Rightarrow> bool" where
  "is_zero d \<longleftrightarrow> dd_out_degree d = 0 \<and> dd_in_degree d = 0 \<and> f64_is_zero (dd_out_weight_sum d) \<and>
     f64_is_zero (dd_in_weight_sum d) \<and> dd_self_loop_count d = 0 \<and> f64_is_zero (dd_self_loop_weight_sum d) \<and>
     dd_temporal_edge_count d = 0"

definition add_assign_delta :: "degree_delta \<Rightarrow> degree_delta \<Rightarrow> degree_delta" where
  "add_assign_delta d other = \<lparr>
     dd_out_degree = dd_out_degree d + dd_out_degree other,
     dd_in_degree = dd_in_degree d + dd_in_degree other,
     dd_out_weight_sum = f64_add (dd_out_weight_sum d) (dd_out_weight_sum other),
     dd_in_weight_sum = f64_add (dd_in_weight_sum d) (dd_in_weight_sum other),
     dd_self_loop_count = dd_self_loop_count d + dd_self_loop_count other,
     dd_self_loop_weight_sum = f64_add (dd_self_loop_weight_sum d) (dd_self_loop_weight_sum other),
     dd_temporal_edge_count = dd_temporal_edge_count d + dd_temporal_edge_count other\<rparr>"

definition f64_neg :: "f64 \<Rightarrow> f64" where
  "f64_neg w = w XOR push_bit 63 1"

definition negate :: "degree_delta \<Rightarrow> degree_delta" where
  "negate d = \<lparr>
     dd_out_degree = - dd_out_degree d,
     dd_in_degree = - dd_in_degree d,
     dd_out_weight_sum = f64_neg (dd_out_weight_sum d),
     dd_in_weight_sum = f64_neg (dd_in_weight_sum d),
     dd_self_loop_count = - dd_self_loop_count d,
     dd_self_loop_weight_sum = f64_neg (dd_self_loop_weight_sum d),
     dd_temporal_edge_count = - dd_temporal_edge_count d\<rparr>"

definition add_valid_edge :: "u64 \<Rightarrow> u64 \<Rightarrow> f32 \<Rightarrow> degree_delta" where
  "add_valid_edge src to weight = (let weight = f32_to_f64 weight in
     if src = to then \<lparr>dd_out_degree = 1, dd_in_degree = 1, dd_out_weight_sum = weight, dd_in_weight_sum = weight,
       dd_self_loop_count = 1, dd_self_loop_weight_sum = weight, dd_temporal_edge_count = 0\<rparr>
     else DELTA_ZERO\<lparr>dd_out_degree := 1, dd_out_weight_sum := weight\<rparr>)"

definition add_valid_edge_incoming :: "f32 \<Rightarrow> degree_delta" where
  "add_valid_edge_incoming weight = DELTA_ZERO\<lparr>dd_in_degree := 1, dd_in_weight_sum := f32_to_f64 weight\<rparr>"

definition remove_valid_edge :: "u64 \<Rightarrow> u64 \<Rightarrow> f32 \<Rightarrow> degree_delta" where
  "remove_valid_edge src to weight = negate (add_valid_edge src to weight)"

definition remove_valid_edge_incoming :: "f32 \<Rightarrow> degree_delta" where
  "remove_valid_edge_incoming weight = negate (add_valid_edge_incoming weight)"

definition add_temporal_marker :: degree_delta where
  "add_temporal_marker = DELTA_ZERO\<lparr>dd_temporal_edge_count := 1\<rparr>"

definition remove_temporal_marker :: degree_delta where
  "remove_temporal_marker = DELTA_ZERO\<lparr>dd_temporal_edge_count := - 1\<rparr>"

definition saturating_i64_to_u32 :: "i64 \<Rightarrow> u32" where
  "saturating_i64_to_u32 v = (if sint v \<le> 0 then 0 else of_int (min (sint v) (2 ^ 32 - 1)))"

record degree_entry =
  de_out_degree :: u32
  de_in_degree :: u32
  de_out_weight_sum :: f64
  de_in_weight_sum :: f64
  de_self_loop_count :: u32
  de_self_loop_weight_sum :: f64
  de_temporal_edge_count :: u32

definition apply_delta :: "degree_delta \<Rightarrow> degree_entry" where
  "apply_delta delta =
     (let out_degree = saturating_i64_to_u32 (dd_out_degree delta);
          in_degree = saturating_i64_to_u32 (dd_in_degree delta);
          self_loop_count = saturating_i64_to_u32 (dd_self_loop_count delta)
      in \<lparr>de_out_degree = out_degree, de_in_degree = in_degree,
          de_out_weight_sum = (if out_degree = 0 then 0 else dd_out_weight_sum delta),
          de_in_weight_sum = (if in_degree = 0 then 0 else dd_in_weight_sum delta),
          de_self_loop_count = self_loop_count,
          de_self_loop_weight_sum = (if self_loop_count = 0 then 0 else dd_self_loop_weight_sum delta),
          de_temporal_edge_count = saturating_i64_to_u32 (dd_temporal_edge_count delta)\<rparr>)"

section \<open>The overlay\<close>

definition DEGREE_OVERLAY_SHARD_COUNT :: nat where
  "DEGREE_OVERLAY_SHARD_COUNT = 1024"

definition DEGREE_OVERLAY_GROUP_SIZE :: nat where
  "DEGREE_OVERLAY_GROUP_SIZE = 128"

definition DEGREE_OVERLAY_GROUP_COUNT :: nat where
  "DEGREE_OVERLAY_GROUP_COUNT = 8"

type_synonym shard = "(u64, degree_delta) fmap"
type_synonym overlay = "shard list list"

definition overlay_empty :: overlay where
  "overlay_empty = replicate DEGREE_OVERLAY_GROUP_COUNT (replicate DEGREE_OVERLAY_GROUP_SIZE fmempty)"

definition degree_overlay_shard_index :: "u64 \<Rightarrow> nat" where
  "degree_overlay_shard_index node_id = unat (node_id AND 1023)"

definition group_index :: "u64 \<Rightarrow> nat" where
  "group_index node_id = degree_overlay_shard_index node_id div DEGREE_OVERLAY_GROUP_SIZE"

definition local_index :: "u64 \<Rightarrow> nat" where
  "local_index node_id = degree_overlay_shard_index node_id mod DEGREE_OVERLAY_GROUP_SIZE"

definition overlay_get :: "overlay \<Rightarrow> u64 \<Rightarrow> degree_delta" where
  "overlay_get groups node_id =
     (case fmlookup (groups ! group_index node_id ! local_index node_id) node_id of
        Some delta \<Rightarrow> delta | None \<Rightarrow> DELTA_ZERO)"

text \<open>Adding to a map of deltas: a zero delta is ignored and a sum that vanishes is removed.\<close>

definition add_degree_delta :: "shard \<Rightarrow> u64 \<Rightarrow> degree_delta \<Rightarrow> shard" where
  "add_degree_delta deltas node_id delta =
     (if is_zero delta then deltas
      else let entry = add_assign_delta (case fmlookup deltas node_id of Some d \<Rightarrow> d | None \<Rightarrow> DELTA_ZERO) delta
           in if is_zero entry then fmdrop node_id deltas else fmupd node_id entry deltas)"

definition overlay_add_delta :: "overlay \<Rightarrow> u64 \<Rightarrow> degree_delta \<Rightarrow> overlay" where
  "overlay_add_delta groups node_id delta =
     (let g = group_index node_id; l = local_index node_id
      in groups[g := (groups ! g)[l := add_degree_delta (groups ! g ! l) node_id delta]])"

text \<open>
  \<^verbatim>\<open>finish\<close> sweeps the shards that nobody else holds (\<open>owned\<close>) for zero entries.
\<close>

definition overlay_finish :: "(nat \<Rightarrow> nat \<Rightarrow> bool) \<Rightarrow> overlay \<Rightarrow> overlay" where
  "overlay_finish owned groups =
     map (\<lambda>g. map (\<lambda>l. if owned g l then fmfilter (\<lambda>k. \<not> is_zero (the (fmlookup (groups ! g ! l) k))) (groups ! g ! l)
                       else groups ! g ! l) [0..<length (groups ! g)]) [0..<length groups]"

abbreviation delta_entries :: "shard \<Rightarrow> (u64 \<times> degree_delta) list" where
  "delta_entries m \<equiv> map (\<lambda>k. (k, the (fmlookup m k))) (sorted_list_of_fset (fmdom m))"

text \<open>The deltas of a request reach the overlay in an order the source leaves open; each node has one.\<close>

definition apply_degree_deltas :: "(nat \<Rightarrow> nat \<Rightarrow> bool) \<Rightarrow> shard \<Rightarrow> overlay \<Rightarrow> overlay" where
  "apply_degree_deltas owned deltas groups =
     (if deltas = fmempty then groups
      else overlay_finish owned (fold (\<lambda>(node_id, delta) groups. overlay_add_delta groups node_id delta) (delta_entries deltas) groups))"

definition overlay_from_flat :: "(nat \<Rightarrow> nat \<Rightarrow> bool) \<Rightarrow> shard \<Rightarrow> overlay" where
  "overlay_from_flat owned deltas = apply_degree_deltas owned deltas overlay_empty"

definition overlay_sorted_entries :: "overlay \<Rightarrow> (u64 \<times> degree_delta) list" where
  "overlay_sorted_entries groups =
     sort_key fst (concat (map (\<lambda>group. concat (map (\<lambda>m. filter (\<lambda>(_, delta). \<not> is_zero delta) (delta_entries m)) group)) groups))"

section \<open>Deltas of an operation\<close>

record edge_core =
  ec_from :: u64
  ec_to :: u64
  ec_created_at :: i64
  ec_updated_at :: i64
  ec_weight :: f32
  ec_valid_from :: i64
  ec_valid_to :: i64

definition is_edge_valid_at :: "i64 \<Rightarrow> i64 \<Rightarrow> i64 \<Rightarrow> bool" where
  "is_edge_valid_at valid_from valid_to reference_time \<longleftrightarrow> sint valid_from \<le> sint reference_time \<and> sint reference_time < sint valid_to"

definition is_cache_bypass_edge :: "i64 \<Rightarrow> i64 \<Rightarrow> i64 \<Rightarrow> bool" where
  "is_cache_bypass_edge valid_from valid_to created_at \<longleftrightarrow> valid_to \<noteq> 0x7FFFFFFFFFFFFFFF \<or> sint created_at < sint valid_from"

definition add_valid_edge_delta :: "shard \<Rightarrow> u64 \<Rightarrow> u64 \<Rightarrow> f32 \<Rightarrow> bool \<Rightarrow> shard" where
  "add_valid_edge_delta deltas src to weight add =
     (let deltas = add_degree_delta deltas src (if add then add_valid_edge src to weight else remove_valid_edge src to weight)
      in if src \<noteq> to
         then add_degree_delta deltas to (if add then add_valid_edge_incoming weight else remove_valid_edge_incoming weight)
         else deltas)"

definition add_temporal_edge_delta :: "shard \<Rightarrow> u64 \<Rightarrow> u64 \<Rightarrow> bool \<Rightarrow> shard" where
  "add_temporal_edge_delta deltas src to add =
     (let delta = (if add then add_temporal_marker else remove_temporal_marker);
          deltas = add_degree_delta deltas src delta
      in if src \<noteq> to then add_degree_delta deltas to delta else deltas)"

text \<open>\<^verbatim>\<open>OldEdgeInfo\<close> has the fields of \<^verbatim>\<open>EdgeCore\<close>; a new edge contributes by the same two tests.\<close>

definition core_of :: "edge_record \<Rightarrow> edge_core" where
  "core_of edge = \<lparr>ec_from = e_from edge, ec_to = e_to edge, ec_created_at = e_created_at edge, ec_updated_at = e_updated_at edge,
     ec_weight = e_weight edge, ec_valid_from = e_valid_from edge, ec_valid_to = e_valid_to edge\<rparr>"

definition collect_degree_delta_for_edge :: "shard \<Rightarrow> edge_core \<Rightarrow> bool \<Rightarrow> shard" where
  "collect_degree_delta_for_edge deltas edge add =
     (let deltas = (if is_edge_valid_at (ec_valid_from edge) (ec_valid_to edge) (ec_updated_at edge)
            then add_valid_edge_delta deltas (ec_from edge) (ec_to edge) (ec_weight edge) add else deltas)
      in if is_cache_bypass_edge (ec_valid_from edge) (ec_valid_to edge) (ec_created_at edge)
         then add_temporal_edge_delta deltas (ec_from edge) (ec_to edge) add else deltas)"

definition collect_degree_delta_for_op :: "wal_op \<Rightarrow> edge_core option \<Rightarrow> shard \<Rightarrow> shard" where
  "collect_degree_delta_for_op op old_edge deltas =
     (let drop_old = (\<lambda>deltas. case old_edge of Some old \<Rightarrow> collect_degree_delta_for_edge deltas old False | None \<Rightarrow> deltas)
      in case op of
        UpsertEdge edge \<Rightarrow> collect_degree_delta_for_edge (drop_old deltas) (core_of edge) True
      | DeleteEdge _ _ \<Rightarrow> drop_old deltas
      | _ \<Rightarrow> deltas)"

fun edge_id_for_degree_op :: "wal_op \<Rightarrow> u64 option" where
  "edge_id_for_degree_op (UpsertEdge edge) = Some (e_id edge)"
| "edge_id_for_degree_op (DeleteEdge rid _) = Some rid"
| "edge_id_for_degree_op _ = None"

fun edge_core_after_op :: "wal_op \<Rightarrow> edge_core option" where
  "edge_core_after_op (UpsertEdge edge) = Some (core_of edge)"
| "edge_core_after_op _ = None"

end
