(* ===== verification/Memtable_Reads.thy ===== *)
theory Memtable_Reads
  imports Memtable
begin

text \<open>
  The reads of the memtable at a snapshot, \<^verbatim>\<open>src/src/memtable.rs\<close>: point and batched lookups with
  their per-batch caches, scans of the label, time, triple and adjacency indexes, cursors, counts,
  and scans of the declared secondary indexes. Tree maps are walked in key order. Hash maps are
  walked in an order the source leaves open: where the order can be seen (limits, callbacks that
  may stop) it is the parameter \<open>walk\<close>; where the result is sorted or is a map the model walks in
  key order. A callback is a function from its argument and an accumulator to the new accumulator
  and whether to stop.
\<close>

section \<open>Walking maps\<close>

definition btree_entries :: "('k::linorder, 'v) fmap \<Rightarrow> ('k \<times> 'v) list" where
  "btree_entries m = map (\<lambda>k. (k, the (fmlookup m k))) (sorted_list_of_fset (fmdom m))"

type_synonym walk = "u64 fset \<Rightarrow> u64 list"

definition hash_entries :: "walk \<Rightarrow> (u64, 'v) fmap \<Rightarrow> (u64 \<times> 'v) list" where
  "hash_entries walk m = map (\<lambda>k. (k, the (fmlookup m k))) (walk (fmdom m))"

text \<open>\<^verbatim>\<open>BTreeMap::range\<close> panics on a start above the end, and on equal bounds that both exclude.\<close>

datatype 'k bound = Included 'k | Excluded 'k | Unbounded

fun above_start :: "'k::linorder bound \<Rightarrow> 'k \<Rightarrow> bool" where
  "above_start (Included b) k = (b \<le> k)"
| "above_start (Excluded b) k = (b < k)"
| "above_start Unbounded k = True"

fun below_end :: "'k::linorder bound \<Rightarrow> 'k \<Rightarrow> bool" where
  "below_end (Included b) k = (k \<le> b)"
| "below_end (Excluded b) k = (k < b)"
| "below_end Unbounded k = True"

fun range_panics :: "'k::linorder bound \<Rightarrow> 'k bound \<Rightarrow> bool" where
  "range_panics (Excluded a) (Excluded b) = (b \<le> a)"
| "range_panics (Included a) (Included b) = (b < a)"
| "range_panics (Included a) (Excluded b) = (b < a)"
| "range_panics (Excluded a) (Included b) = (b < a)"
| "range_panics _ _ = False"

definition btree_range :: "('k::linorder, 'v) fmap \<Rightarrow> 'k bound \<Rightarrow> 'k bound \<Rightarrow> ('k \<times> 'v) list option" where
  "btree_range m start end' =
     (if range_panics start end' then None
      else Some (filter (\<lambda>(k, _). above_start start k \<and> below_end end' k) (btree_entries m)))"

type_synonym ('a, 'c) callback = "'a \<Rightarrow> 'c \<Rightarrow> 'c \<times> bool"

text \<open>Call back for each element until the callback breaks; the flag says whether it did.\<close>

fun visit_each :: "('a, 'c) callback \<Rightarrow> 'a list \<Rightarrow> 'c \<Rightarrow> 'c \<times> bool" where
  "visit_each cb [] acc = (acc, False)"
| "visit_each cb (x # xs) acc = (case cb x acc of (acc, stop) \<Rightarrow> if stop then (acc, True) else visit_each cb xs acc)"

section \<open>Point reads\<close>

definition get_node_at :: "memtable_state \<Rightarrow> u64 \<Rightarrow> u64 \<Rightarrow> node_record option" where
  "get_node_at st rid snapshot_seq = node_at st rid snapshot_seq"

definition get_edge_at :: "memtable_state \<Rightarrow> u64 \<Rightarrow> u64 \<Rightarrow> edge_record option" where
  "get_edge_at st rid snapshot_seq = edge_at st rid snapshot_seq"

definition is_node_deleted_at :: "memtable_state \<Rightarrow> u64 \<Rightarrow> u64 \<Rightarrow> bool" where
  "is_node_deleted_at st rid snapshot_seq = node_deleted_at st rid snapshot_seq"

definition is_edge_deleted_at :: "memtable_state \<Rightarrow> u64 \<Rightarrow> u64 \<Rightarrow> bool" where
  "is_edge_deleted_at st rid snapshot_seq = edge_deleted_at st rid snapshot_seq"

definition node_tombstone_at :: "memtable_state \<Rightarrow> u64 \<Rightarrow> u64 \<Rightarrow> tombstone_entry option" where
  "node_tombstone_at st rid snapshot_seq =
     Option.bind (Option.bind (fmlookup (nodes st) rid) (\<lambda>slot. record_at slot snapshot_seq)) tombstone_value"

definition edge_tombstone_at :: "memtable_state \<Rightarrow> u64 \<Rightarrow> u64 \<Rightarrow> tombstone_entry option" where
  "edge_tombstone_at st rid snapshot_seq =
     Option.bind (Option.bind (fmlookup (edges st) rid) (\<lambda>slot. record_at slot snapshot_seq)) tombstone_value"

text \<open>The loop of \<^verbatim>\<open>visit_nodes_sorted_at\<close>: the nodes passed to the callback, and the ids left over.\<close>

fun visit_nodes_sorted_at ::
    "memtable_state \<Rightarrow> u64 list \<Rightarrow> u64 \<Rightarrow> u64 list \<Rightarrow> (u64 \<times> node_record) list \<times> u64 list" where
  "visit_nodes_sorted_at st [] snapshot_seq remaining = ([], remaining)"
| "visit_nodes_sorted_at st (rid # sorted_ids) snapshot_seq remaining =
     (if node_deleted_at st rid snapshot_seq then visit_nodes_sorted_at st sorted_ids snapshot_seq remaining
      else case node_at st rid snapshot_seq of
        Some node \<Rightarrow> apfst ((#) (rid, node)) (visit_nodes_sorted_at st sorted_ids snapshot_seq remaining)
      | None \<Rightarrow> visit_nodes_sorted_at st sorted_ids snapshot_seq (remaining @ [rid]))"

definition get_edge_core_at ::
    "memtable_state \<Rightarrow> u64 \<Rightarrow> u64 \<Rightarrow> (u64 \<times> u64 \<times> i64 \<times> i64 \<times> f32 \<times> i64 \<times> i64) option" where
  "get_edge_core_at st rid snapshot_seq = map_option (\<lambda>edge.
     (e_from edge, e_to edge, e_created_at edge, e_updated_at edge, e_weight edge, e_valid_from edge, e_valid_to edge))
     (edge_at st rid snapshot_seq)"

datatype edge_visibility_state = EvLive | EvDeleted | EvMissing

definition edge_visibility_state_at :: "memtable_state \<Rightarrow> u64 \<Rightarrow> u64 \<Rightarrow> edge_visibility_state" where
  "edge_visibility_state_at st rid snapshot_seq =
     (case Option.bind (fmlookup (edges st) rid) (\<lambda>slot. record_at slot snapshot_seq) of
        Some (Live _) \<Rightarrow> EvLive
      | Some (Tombstone _) \<Rightarrow> EvDeleted
      | None \<Rightarrow> if edge_deleted_at st rid snapshot_seq then EvDeleted else EvMissing)"

definition node_by_key_at :: "memtable_state \<Rightarrow> u32 \<Rightarrow> rstring \<Rightarrow> u64 \<Rightarrow> node_record option" where
  "node_by_key_at st label_id key snapshot_seq =
     Option.bind (fmlookup (node_key_index st) label_id) (\<lambda>by_key.
     Option.bind (fmlookup by_key key) (\<lambda>slot.
     Option.bind (slot_option_at slot snapshot_seq) (\<lambda>node_id. node_at st node_id snapshot_seq)))"

definition node_id_by_key_at :: "memtable_state \<Rightarrow> u32 \<Rightarrow> rstring \<Rightarrow> u64 \<Rightarrow> u64 option" where
  "node_id_by_key_at st label_id key snapshot_seq =
     Option.bind (fmlookup (node_key_index st) label_id) (\<lambda>by_key.
     Option.bind (fmlookup by_key key) (\<lambda>slot.
     Option.bind (slot_option_at slot snapshot_seq) (\<lambda>node_id.
     Option.bind (node_at st node_id snapshot_seq) (\<lambda>node.
       if nls_contains (n_label_ids node) label_id \<and> n_key node = key then Some node_id else None))))"

definition edge_by_triple_at :: "memtable_state \<Rightarrow> u64 \<Rightarrow> u64 \<Rightarrow> u32 \<Rightarrow> u64 \<Rightarrow> edge_record option" where
  "edge_by_triple_at st src to label_id snapshot_seq =
     Option.bind (fmlookup (edge_triple_index st) (src, to, label_id)) (\<lambda>slot.
     Option.bind (slot_option_at slot snapshot_seq) (\<lambda>edge_id. edge_at st edge_id snapshot_seq))"

section \<open>Batched reads\<close>

text \<open>
  A batch asks for keys with the positions of their answers. The first lookup of a key is cached:
  a live record by the position it was written to, a tombstone and a miss as such. Later lookups
  of the key copy that position. Writing past the end of the results panics. The loop is the same
  for nodes, edges, selected fields and triples (which have no tombstones); \<open>outcome\<close> is the read
  of one key.
\<close>

datatype 'r outcome = Found 'r | Gone | NotHere

datatype cached_lookup = CachedLive nat | CachedTombstone | CachedMiss

definition write_result :: "'r option list \<Rightarrow> nat \<Rightarrow> 'r option \<Rightarrow> 'r option list option" where
  "write_result results i r = (if i < length results then Some (results[i := r]) else None)"

fun batch_loop ::
    "('k \<Rightarrow> 'r outcome) \<Rightarrow> (nat \<times> 'k) list \<Rightarrow> ('k, cached_lookup) fmap \<Rightarrow> 'r option list \<Rightarrow> (nat \<times> 'k) list
       \<Rightarrow> ('r option list \<times> (nat \<times> 'k) list) option" where
  "batch_loop outcome [] cache results remaining = Some (results, remaining)"
| "batch_loop outcome ((orig_idx, k) # lookups) cache results remaining =
     (case fmlookup cache k of
        Some (CachedLive cached_idx) \<Rightarrow>
          if cached_idx < length results then
            Option.bind (write_result results orig_idx (results ! cached_idx)) (\<lambda>results.
              batch_loop outcome lookups cache results remaining)
          else None
      | Some CachedTombstone \<Rightarrow> batch_loop outcome lookups cache results remaining
      | Some CachedMiss \<Rightarrow> batch_loop outcome lookups cache results (remaining @ [(orig_idx, k)])
      | None \<Rightarrow> (case outcome k of
            Found r \<Rightarrow> Option.bind (write_result results orig_idx (Some r)) (\<lambda>results.
              batch_loop outcome lookups (fmupd k (CachedLive orig_idx) cache) results remaining)
          | Gone \<Rightarrow> batch_loop outcome lookups (fmupd k CachedTombstone cache) results remaining
          | NotHere \<Rightarrow> batch_loop outcome lookups (fmupd k CachedMiss cache) results (remaining @ [(orig_idx, k)])))"

definition record_outcome :: "('a \<Rightarrow> 'r) \<Rightarrow> (u64, 'a record_slot) fmap \<Rightarrow> u64 \<Rightarrow> u64 \<Rightarrow> 'r outcome" where
  "record_outcome project m snapshot_seq rid = (case fmlookup m rid of
     Some slot \<Rightarrow> (case record_at slot snapshot_seq of
         Some (Live r) \<Rightarrow> Found (project r)
       | Some (Tombstone _) \<Rightarrow> Gone
       | None \<Rightarrow> NotHere)
   | None \<Rightarrow> NotHere)"

definition batch_get_nodes_at ::
    "memtable_state \<Rightarrow> (nat \<times> u64) list \<Rightarrow> u64 \<Rightarrow> node_record option list \<Rightarrow> (node_record option list \<times> (nat \<times> u64) list) option" where
  "batch_get_nodes_at st lookups snapshot_seq results =
     (if lookups = [] then Some (results, [])
      else batch_loop (record_outcome id (nodes st) snapshot_seq) lookups fmempty results [])"

definition batch_get_edges_at ::
    "memtable_state \<Rightarrow> (nat \<times> u64) list \<Rightarrow> u64 \<Rightarrow> edge_record option list \<Rightarrow> (edge_record option list \<times> (nat \<times> u64) list) option" where
  "batch_get_edges_at st lookups snapshot_seq results =
     (if lookups = [] then Some (results, [])
      else batch_loop (record_outcome id (edges st) snapshot_seq) lookups fmempty results [])"

definition batch_edges_by_triples_at ::
    "memtable_state \<Rightarrow> (nat \<times> u64 \<times> u64 \<times> u32) list \<Rightarrow> u64 \<Rightarrow> edge_record option list
       \<Rightarrow> (edge_record option list \<times> (nat \<times> u64 \<times> u64 \<times> u32) list) option" where
  "batch_edges_by_triples_at st lookups snapshot_seq results =
     (if lookups = [] then Some (results, [])
      else batch_loop (\<lambda>(src, to, label_id). case edge_by_triple_at st src to label_id snapshot_seq of
             Some edge \<Rightarrow> Found edge | None \<Rightarrow> NotHere) lookups fmempty results [])"

text \<open>Selected fields, with the property and vector selections of \<^verbatim>\<open>src/src/row_projection.rs\<close>.\<close>

datatype property_selection = SelNone | SelKeys "rstring list" | SelAll

datatype vector_selection = VecNone | VecDense | VecSparse | VecBoth

definition needs_dense :: "vector_selection \<Rightarrow> bool" where
  "needs_dense v \<longleftrightarrow> v = VecDense \<or> v = VecBoth"

definition needs_sparse :: "vector_selection \<Rightarrow> bool" where
  "needs_sparse v \<longleftrightarrow> v = VecSparse \<or> v = VecBoth"

record node_selected_field_needs =
  nn_key :: bool
  nn_created_at :: bool
  nn_props :: property_selection
  nn_vectors :: vector_selection

record edge_selected_field_needs =
  en_created_at :: bool
  en_props :: property_selection

record selected_node_fields =
  sn_id :: u64
  sn_label_ids :: node_label_set
  sn_updated_at :: i64
  sn_weight :: f32
  sn_key :: "rstring option"
  sn_props :: "(rstring, prop_value) fmap"
  sn_created_at :: "i64 option"
  sn_dense_vector :: "f32 list option"
  sn_sparse_vector :: "(u32 \<times> f32) list option"

record edge_metadata_for_query =
  em_id :: u64
  em_from :: u64
  em_to :: u64
  em_label_id :: u32
  em_updated_at :: i64
  em_weight :: f32
  em_valid_from :: i64
  em_valid_to :: i64

record selected_edge_fields =
  se_meta :: edge_metadata_for_query
  se_props :: "(rstring, prop_value) fmap"
  se_created_at :: "i64 option"

definition selected_props_from_map :: "props \<Rightarrow> property_selection \<Rightarrow> (rstring, prop_value) fmap" where
  "selected_props_from_map ps selection = (case selection of
     SelNone \<Rightarrow> fmempty
   | SelKeys ks \<Rightarrow> fold (\<lambda>key selected. case map_of ps key of
        Some value \<Rightarrow> fmupd key value selected | None \<Rightarrow> selected) ks fmempty
   | SelAll \<Rightarrow> fmap_of_list ps)"

definition project_node :: "node_selected_field_needs \<Rightarrow> node_record \<Rightarrow> selected_node_fields" where
  "project_node needs node = \<lparr>sn_id = n_id node, sn_label_ids = n_label_ids node, sn_updated_at = n_updated_at node,
     sn_weight = n_weight node,
     sn_key = (if nn_key needs then Some (n_key node) else None),
     sn_props = selected_props_from_map (n_props node) (nn_props needs),
     sn_created_at = (if nn_created_at needs then Some (n_created_at node) else None),
     sn_dense_vector = (if needs_dense (nn_vectors needs) then n_dense_vector node else None),
     sn_sparse_vector = (if needs_sparse (nn_vectors needs) then n_sparse_vector node else None)\<rparr>"

definition edge_metadata_from_edge :: "edge_record \<Rightarrow> edge_metadata_for_query" where
  "edge_metadata_from_edge edge = \<lparr>em_id = e_id edge, em_from = e_from edge, em_to = e_to edge,
     em_label_id = e_label_id edge, em_updated_at = e_updated_at edge, em_weight = e_weight edge,
     em_valid_from = e_valid_from edge, em_valid_to = e_valid_to edge\<rparr>"

definition project_edge :: "edge_selected_field_needs \<Rightarrow> edge_record \<Rightarrow> selected_edge_fields" where
  "project_edge needs edge = \<lparr>se_meta = edge_metadata_from_edge edge,
     se_props = selected_props_from_map (e_props edge) (en_props needs),
     se_created_at = (if en_created_at needs then Some (e_created_at edge) else None)\<rparr>"

definition batch_get_node_selected_fields_at ::
    "memtable_state \<Rightarrow> (nat \<times> u64) list \<Rightarrow> node_selected_field_needs \<Rightarrow> u64 \<Rightarrow> selected_node_fields option list
       \<Rightarrow> (selected_node_fields option list \<times> (nat \<times> u64) list) option" where
  "batch_get_node_selected_fields_at st lookups needs snapshot_seq results =
     (if lookups = [] then Some (results, [])
      else batch_loop (record_outcome (project_node needs) (nodes st) snapshot_seq) lookups fmempty results [])"

definition batch_get_edge_selected_fields_at ::
    "memtable_state \<Rightarrow> (nat \<times> u64) list \<Rightarrow> edge_selected_field_needs \<Rightarrow> u64 \<Rightarrow> selected_edge_fields option list
       \<Rightarrow> (selected_edge_fields option list \<times> (nat \<times> u64) list) option" where
  "batch_get_edge_selected_fields_at st lookups needs snapshot_seq results =
     (if lookups = [] then Some (results, [])
      else batch_loop (record_outcome (project_edge needs) (edges st) snapshot_seq) lookups fmempty results [])"

text \<open>Visibility of nodes: live with the metadata the planner filters on, deleted, or not in this memtable.\<close>

record node_visibility_meta =
  nv_label_ids :: node_label_set
  nv_updated_at :: i64
  nv_weight :: f32

datatype node_visibility_state = NvLive node_visibility_meta | NvDeleted | NvMissing

definition node_visibility_at :: "memtable_state \<Rightarrow> u64 \<Rightarrow> u64 \<Rightarrow> node_visibility_state" where
  "node_visibility_at st snapshot_seq rid =
     (case Option.bind (fmlookup (nodes st) rid) (\<lambda>slot. record_at slot snapshot_seq) of
        Some (Live node) \<Rightarrow> NvLive \<lparr>nv_label_ids = n_label_ids node, nv_updated_at = n_updated_at node, nv_weight = n_weight node\<rparr>
      | Some (Tombstone _) \<Rightarrow> NvDeleted
      | None \<Rightarrow> if node_deleted_at st rid snapshot_seq then NvDeleted else NvMissing)"

fun visibility_loop ::
    "(u64 \<Rightarrow> node_visibility_state) \<Rightarrow> (nat \<times> u64) list \<Rightarrow> (u64, node_visibility_state) fmap \<Rightarrow> node_visibility_state list
       \<Rightarrow> (nat \<times> u64) list \<Rightarrow> (node_visibility_state list \<times> (nat \<times> u64) list) option" where
  "visibility_loop read [] cache results remaining = Some (results, remaining)"
| "visibility_loop read ((orig_idx, rid) # lookups) cache results remaining =
     (let (visibility, cache) = (case fmlookup cache rid of
            Some state \<Rightarrow> (state, cache)
          | None \<Rightarrow> (read rid, fmupd rid (read rid) cache))
      in if visibility = NvMissing then visibility_loop read lookups cache results (remaining @ [(orig_idx, rid)])
         else if orig_idx < length results then visibility_loop read lookups cache (results[orig_idx := visibility]) remaining
         else None)"

definition batch_get_node_visibility_meta_at ::
    "memtable_state \<Rightarrow> (nat \<times> u64) list \<Rightarrow> u64 \<Rightarrow> node_visibility_state list
       \<Rightarrow> (node_visibility_state list \<times> (nat \<times> u64) list) option" where
  "batch_get_node_visibility_meta_at st lookups snapshot_seq results =
     (if lookups = [] then Some (results, [])
      else visibility_loop (node_visibility_at st snapshot_seq) lookups fmempty results [])"

section \<open>Scans of the record indexes\<close>

definition is_live_at :: "'a record_slot \<Rightarrow> u64 \<Rightarrow> bool" where
  "is_live_at slot snapshot_seq = (case record_at slot snapshot_seq of Some (Live _) \<Rightarrow> True | _ \<Rightarrow> False)"

definition for_each_visible_node_at ::
    "walk \<Rightarrow> memtable_state \<Rightarrow> u64 \<Rightarrow> (node_record, 'c) callback \<Rightarrow> 'c \<Rightarrow> 'c \<times> bool" where
  "for_each_visible_node_at walk st snapshot_seq callback acc =
     visit_each callback (List.map_filter (\<lambda>(_, slot). Option.bind (record_at slot snapshot_seq) live_value)
       (hash_entries walk (nodes st))) acc"

definition for_each_edge_metadata_at ::
    "walk \<Rightarrow> memtable_state \<Rightarrow> u64 \<Rightarrow> (edge_metadata_for_query, 'c) callback \<Rightarrow> 'c \<Rightarrow> 'c \<times> bool" where
  "for_each_edge_metadata_at walk st snapshot_seq callback acc =
     visit_each callback (List.map_filter (\<lambda>(_, slot).
         map_option edge_metadata_from_edge (Option.bind (record_at slot snapshot_seq) live_value))
       (hash_entries walk (edges st))) acc"

text \<open>The range of one label, \<^verbatim>\<open>(label_id, 0)..=(label_id, u64::MAX)\<close>, never panics.\<close>

definition label_range :: "(u32 \<times> u64, 'v) fmap \<Rightarrow> u32 \<Rightarrow> ((u32 \<times> u64) \<times> 'v) list option" where
  "label_range m label_id = btree_range m (Included (label_id, 0)) (Included (label_id, U64_MAX))"

definition visible_nodes_by_label_id :: "memtable_state \<Rightarrow> u32 \<Rightarrow> u64 \<Rightarrow> u64 list option" where
  "visible_nodes_by_label_id st label_id snapshot_seq =
     map_option (\<lambda>es. map (snd \<circ> fst) (filter (\<lambda>(_, slot). slot_option_visible slot snapshot_seq) es))
       (label_range (label_node_index st) label_id)"

definition visible_node_ids_at :: "memtable_state \<Rightarrow> u64 \<Rightarrow> u64 list" where
  "visible_node_ids_at st snapshot_seq =
     sort (map fst (filter (\<lambda>(_, slot). is_live_at slot snapshot_seq) (btree_entries (nodes st))))"

definition visible_node_count_at :: "memtable_state \<Rightarrow> u64 \<Rightarrow> nat" where
  "visible_node_count_at st snapshot_seq =
     length (filter (\<lambda>(_, slot). is_live_at slot snapshot_seq) (btree_entries (nodes st)))"

definition visible_nodes_by_label_id_count :: "memtable_state \<Rightarrow> u32 \<Rightarrow> u64 \<Rightarrow> nat option" where
  "visible_nodes_by_label_id_count st label_id snapshot_seq =
     map_option (\<lambda>es. length (filter (\<lambda>(_, slot). slot_option_visible slot snapshot_seq) es))
       (label_range (label_node_index st) label_id)"

definition visible_edges_by_label_id :: "memtable_state \<Rightarrow> u32 \<Rightarrow> u64 \<Rightarrow> u64 list" where
  "visible_edges_by_label_id st label_id snapshot_seq = (case fmlookup (label_edge_index st) label_id of
     None \<Rightarrow> []
   | Some members \<Rightarrow> sort (map fst (filter (\<lambda>(_, slot). slot_option_visible slot snapshot_seq) (btree_entries members))))"

definition visible_edges_by_label_id_count :: "memtable_state \<Rightarrow> u32 \<Rightarrow> u64 \<Rightarrow> nat option" where
  "visible_edges_by_label_id_count st label_id snapshot_seq =
     map_option (\<lambda>es. length (filter (\<lambda>(_, slot). slot_option_visible slot snapshot_seq) es))
       (label_range (ordered_label_edge_index st) label_id)"

definition first_visible :: "u64 \<Rightarrow> ('k \<times> 'a membership_slot) list \<Rightarrow> 'k option" where
  "first_visible snapshot_seq es = map_option fst (find (\<lambda>(_, slot). slot_option_visible slot snapshot_seq) es)"

definition after_bound :: "u64 option \<Rightarrow> u64 bound" where
  "after_bound after = (case after of None \<Rightarrow> Unbounded | Some a \<Rightarrow> Excluded a)"

definition next_visible_edge_id_after :: "memtable_state \<Rightarrow> u64 \<Rightarrow> u64 option \<Rightarrow> u64 option option" where
  "next_visible_edge_id_after st snapshot_seq after =
     map_option (first_visible snapshot_seq) (btree_range (ordered_edge_ids st) (after_bound after) Unbounded)"

definition label_cursor :: "(u32 \<times> u64, unit membership_slot) fmap \<Rightarrow> u32 \<Rightarrow> u64 \<Rightarrow> u64 option \<Rightarrow> u64 option option" where
  "label_cursor m label_id snapshot_seq after =
     (let start = (case after of Some a \<Rightarrow> Excluded (label_id, a) | None \<Rightarrow> Included (label_id, 0))
      in map_option (\<lambda>es. map_option snd (first_visible snapshot_seq es))
           (btree_range m start (Included (label_id, U64_MAX))))"

definition next_visible_node_by_label_id_after :: "memtable_state \<Rightarrow> u32 \<Rightarrow> u64 \<Rightarrow> u64 option \<Rightarrow> u64 option option" where
  "next_visible_node_by_label_id_after st label_id snapshot_seq after =
     label_cursor (label_node_index st) label_id snapshot_seq after"

definition next_visible_edge_by_label_id_after :: "memtable_state \<Rightarrow> u32 \<Rightarrow> u64 \<Rightarrow> u64 option \<Rightarrow> u64 option option" where
  "next_visible_edge_by_label_id_after st label_id snapshot_seq after =
     label_cursor (ordered_label_edge_index st) label_id snapshot_seq after"

definition edge_ids_by_triple_at :: "memtable_state \<Rightarrow> u64 \<Rightarrow> u64 \<Rightarrow> u32 \<Rightarrow> u64 \<Rightarrow> u64 list" where
  "edge_ids_by_triple_at st src to label_id snapshot_seq = (case fmlookup (adj_out st) src of
     None \<Rightarrow> []
   | Some entries \<Rightarrow> sort (List.map_filter (\<lambda>(edge_id, slot). case slot_option_at slot snapshot_seq of
         None \<Rightarrow> None
       | Some entry \<Rightarrow> if adj_neighbor_id entry = to \<and> adj_label_id entry = label_id then Some edge_id else None)
       (btree_entries entries)))"

text \<open>Time ranges: the entries of a label between two timestamps, both included.\<close>

definition time_range_ids :: "memtable_state \<Rightarrow> u32 \<Rightarrow> int \<Rightarrow> int \<Rightarrow> u64 \<Rightarrow> u64 list option" where
  "time_range_ids st label_id from_ms to_ms snapshot_seq =
     map_option (List.map_filter (\<lambda>((entry_label_id, _, node_id), slot).
         if entry_label_id = label_id \<and> slot_option_visible slot snapshot_seq then Some node_id else None))
       (btree_range (time_node_index st) (Included (label_id, from_ms, 0)) (Included (label_id, to_ms, U64_MAX)))"

definition visible_nodes_by_time_range :: "memtable_state \<Rightarrow> u32 \<Rightarrow> i64 \<Rightarrow> i64 \<Rightarrow> u64 \<Rightarrow> u64 list option" where
  "visible_nodes_by_time_range st label_id from_ms to_ms snapshot_seq =
     (if sint from_ms > sint to_ms then Some []
      else map_option sort (time_range_ids st label_id (sint from_ms) (sint to_ms) snapshot_seq))"

definition for_each_visible_node_by_time_range_at ::
    "memtable_state \<Rightarrow> u32 \<Rightarrow> i64 \<Rightarrow> i64 \<Rightarrow> u64 \<Rightarrow> (u64, 'c) callback \<Rightarrow> 'c \<Rightarrow> ('c \<times> bool) option" where
  "for_each_visible_node_by_time_range_at st label_id from_ms to_ms snapshot_seq callback acc =
     (if sint from_ms > sint to_ms then Some (acc, False)
      else map_option (\<lambda>ids. visit_each callback ids acc)
        (time_range_ids st label_id (sint from_ms) (sint to_ms) snapshot_seq))"

definition visible_node_time_range_count_at :: "memtable_state \<Rightarrow> u32 \<Rightarrow> i64 \<Rightarrow> i64 \<Rightarrow> u64 \<Rightarrow> nat option" where
  "visible_node_time_range_count_at st label_id from_ms to_ms snapshot_seq =
     map_option fst (for_each_visible_node_by_time_range_at st label_id from_ms to_ms snapshot_seq
       (\<lambda>_ count. (saturating_add count 1, False)) 0)"

text \<open>
  Groups of consecutive index keys with the same label: the labels with a visible member, and the
  current members per label. The \<^verbatim>\<open>expect\<close> on the current label is the value \<open>the\<close> of it.
\<close>

fun visible_labels_loop ::
    "u64 \<Rightarrow> ((u32 \<times> u64) \<times> unit membership_slot) list \<Rightarrow> u32 option \<Rightarrow> bool \<Rightarrow> u32 list \<Rightarrow> u32 list" where
  "visible_labels_loop snapshot_seq [] current visible label_ids =
     (if visible then label_ids @ [the current] else label_ids)"
| "visible_labels_loop snapshot_seq (((label_id, _), slot) # rest) current visible label_ids =
     (if current \<noteq> Some label_id
      then visible_labels_loop snapshot_seq rest (Some label_id) (slot_option_visible slot snapshot_seq)
             (if visible then label_ids @ [the current] else label_ids)
      else visible_labels_loop snapshot_seq rest current (visible \<or> slot_option_visible slot snapshot_seq) label_ids)"

definition visible_node_label_ids :: "memtable_state \<Rightarrow> u64 \<Rightarrow> u32 list" where
  "visible_node_label_ids st snapshot_seq =
     visible_labels_loop snapshot_seq (btree_entries (label_node_index st)) None False []"

fun posting_groups_loop ::
    "((u32 \<times> u64) \<times> unit membership_slot) list \<Rightarrow> u32 option \<Rightarrow> u64 list \<Rightarrow> (u32 \<times> u64 list) list \<Rightarrow> (u32 \<times> u64 list) list" where
  "posting_groups_loop [] current ids groups = (if ids \<noteq> [] then groups @ [(the current, ids)] else groups)"
| "posting_groups_loop (((label_id, node_id), slot) # rest) current ids groups =
     (let member = (if slot_option_current slot \<noteq> None then [node_id] else [])
      in if current \<noteq> Some label_id
         then posting_groups_loop rest (Some label_id) member (if ids \<noteq> [] then groups @ [(the current, ids)] else groups)
         else posting_groups_loop rest current (ids @ member) groups)"

definition node_label_posting_groups_current :: "memtable_state \<Rightarrow> (u32 \<times> u64 list) list" where
  "node_label_posting_groups_current st = posting_groups_loop (btree_entries (label_node_index st)) None [] []"

section \<open>Adjacency\<close>

datatype direction = Outgoing | Incoming | Both

record neighbor_record =
  nb_node_id :: u64
  nb_edge_id :: u64
  nb_edge_label_id :: u32
  nb_weight :: f32
  nb_valid_from :: i64
  nb_valid_to :: i64

definition label_excluded :: "u32 list option \<Rightarrow> u32 \<Rightarrow> bool" where
  "label_excluded label_filter_ids label_id = (case label_filter_ids of None \<Rightarrow> False | Some ids \<Rightarrow> label_id \<notin> set ids)"

definition neighbor_of :: "adj_entry \<Rightarrow> neighbor_record" where
  "neighbor_of entry = \<lparr>nb_node_id = adj_neighbor_id entry, nb_edge_id = adj_edge_id entry,
     nb_edge_label_id = adj_label_id entry, nb_weight = adj_weight entry,
     nb_valid_from = adj_valid_from entry, nb_valid_to = adj_valid_to entry\<rparr>"

text \<open>
  The closure \<^verbatim>\<open>collect\<close>: entries seen at the snapshot, allowed by the label filter, whose
  neighbour is not hidden; a self loop found among the outgoing entries is not reported again
  among the incoming ones. The state is the set of self loops seen and the results so far;
  \<open>limit = 0\<close> is no limit.
\<close>

definition adj_skipped :: "(u64 \<Rightarrow> bool) \<Rightarrow> u32 list option \<Rightarrow> u64 \<Rightarrow> bool \<Rightarrow> u64 set \<Rightarrow> adj_entry \<Rightarrow> bool" where
  "adj_skipped hidden label_filter_ids node_id dedupe_self_loops loops entry \<longleftrightarrow>
     label_excluded label_filter_ids (adj_label_id entry) \<or> hidden (adj_neighbor_id entry) \<or>
     dedupe_self_loops \<and> adj_neighbor_id entry = node_id \<and> adj_edge_id entry \<in> loops"

definition note_loop :: "u64 \<Rightarrow> adj_entry \<Rightarrow> u64 set \<Rightarrow> u64 set" where
  "note_loop node_id entry loops = (if adj_neighbor_id entry = node_id then insert (adj_edge_id entry) loops else loops)"

fun adj_collect ::
    "(u64 \<Rightarrow> bool) \<Rightarrow> u32 list option \<Rightarrow> u64 \<Rightarrow> nat \<Rightarrow> u64 \<Rightarrow> bool \<Rightarrow> (u64 \<times> adj_entry membership_slot) list
       \<Rightarrow> u64 set \<times> neighbor_record list \<Rightarrow> u64 set \<times> neighbor_record list" where
  "adj_collect hidden filt node_id limit snapshot_seq dedupe [] acc = acc"
| "adj_collect hidden filt node_id limit snapshot_seq dedupe ((_, slot) # rest) (loops, results) =
     (if limit > 0 \<and> length results \<ge> limit then (loops, results)
      else case slot_option_at slot snapshot_seq of
        None \<Rightarrow> adj_collect hidden filt node_id limit snapshot_seq dedupe rest (loops, results)
      | Some entry \<Rightarrow>
          if adj_skipped hidden filt node_id dedupe loops entry
          then adj_collect hidden filt node_id limit snapshot_seq dedupe rest (loops, results)
          else adj_collect hidden filt node_id limit snapshot_seq dedupe rest
                 (note_loop node_id entry loops, results @ [neighbor_of entry]))"

definition adj_entries :: "walk \<Rightarrow> (u64, (u64, adj_entry membership_slot) fmap) fmap \<Rightarrow> u64 \<Rightarrow> (u64 \<times> adj_entry membership_slot) list" where
  "adj_entries walk m node_id = (case fmlookup m node_id of None \<Rightarrow> [] | Some entries \<Rightarrow> hash_entries walk entries)"

definition collect_direction ::
    "walk \<Rightarrow> memtable_state \<Rightarrow> (u64 \<Rightarrow> bool) \<Rightarrow> u64 \<Rightarrow> direction \<Rightarrow> u32 list option \<Rightarrow> nat \<Rightarrow> u64 \<Rightarrow> neighbor_record list" where
  "collect_direction walk st hidden node_id direction label_filter_ids limit snapshot_seq =
     (let outgoing = adj_entries walk (adj_out st) node_id;
          incoming = adj_entries walk (adj_in st) node_id;
          collect = adj_collect hidden label_filter_ids node_id limit snapshot_seq
      in snd (case direction of
           Outgoing \<Rightarrow> collect False outgoing ({}, [])
         | Incoming \<Rightarrow> collect False incoming ({}, [])
         | Both \<Rightarrow> collect True incoming (collect False outgoing ({}, []))))"

definition neighbors_at ::
    "walk \<Rightarrow> memtable_state \<Rightarrow> u64 \<Rightarrow> direction \<Rightarrow> u32 list option \<Rightarrow> nat \<Rightarrow> u64 \<Rightarrow> neighbor_record list" where
  "neighbors_at walk st node_id direction label_filter_ids limit snapshot_seq =
     (if node_deleted_at st node_id snapshot_seq then []
      else collect_direction walk st (\<lambda>i. node_deleted_at st i snapshot_seq) node_id direction label_filter_ids limit snapshot_seq)"

text \<open>
  \<^verbatim>\<open>for_each_adj_entry_at\<close> below walks like \<^verbatim>\<open>neighbors_at\<close> without a limit and calls back
  instead of collecting. \<^verbatim>\<open>incident_edges_at\<close> has no limit and does not look at the far end.\<close>

definition incident_edges_at ::
    "walk \<Rightarrow> memtable_state \<Rightarrow> u64 \<Rightarrow> direction \<Rightarrow> u32 list option \<Rightarrow> u64 \<Rightarrow> neighbor_record list" where
  "incident_edges_at walk st node_id direction label_filter_ids snapshot_seq =
     (if node_deleted_at st node_id snapshot_seq then []
      else collect_direction walk st (\<lambda>_. False) node_id direction label_filter_ids 0 snapshot_seq)"

definition for_each_adj_entry_at ::
    "walk \<Rightarrow> memtable_state \<Rightarrow> u64 \<Rightarrow> direction \<Rightarrow> u32 list option \<Rightarrow> u64
       \<Rightarrow> (u64 \<times> u64 \<times> f32 \<times> i64 \<times> i64, 'c) callback \<Rightarrow> 'c \<Rightarrow> 'c \<times> bool" where
  "for_each_adj_entry_at walk st node_id direction label_filter_ids snapshot_seq callback acc =
     (if node_deleted_at st node_id snapshot_seq then (acc, False)
      else visit_each (\<lambda>n. callback (nb_edge_id n, nb_node_id n, nb_weight n, nb_valid_from n, nb_valid_to n))
        (collect_direction walk st (\<lambda>i. node_deleted_at st i snapshot_seq) node_id direction label_filter_ids 0 snapshot_seq) acc)"

definition neighbors :: "walk \<Rightarrow> memtable_state \<Rightarrow> u64 \<Rightarrow> direction \<Rightarrow> u32 list option \<Rightarrow> nat \<Rightarrow> neighbor_record list" where
  "neighbors walk st node_id direction label_filter_ids limit =
     neighbors_at walk st node_id direction label_filter_ids limit U64_MAX"

definition neighbors_batch_at ::
    "walk \<Rightarrow> memtable_state \<Rightarrow> u64 list \<Rightarrow> direction \<Rightarrow> u32 list option \<Rightarrow> u64 \<Rightarrow> (u64, neighbor_record list) fmap" where
  "neighbors_batch_at walk st node_ids direction label_filter_ids snapshot_seq =
     fold (\<lambda>nid results. let entries = neighbors_at walk st nid direction label_filter_ids 0 snapshot_seq
       in if entries \<noteq> [] then fmupd nid entries results else results) node_ids fmempty"

definition neighbors_batch ::
    "walk \<Rightarrow> memtable_state \<Rightarrow> u64 list \<Rightarrow> direction \<Rightarrow> u32 list option \<Rightarrow> (u64, neighbor_record list) fmap" where
  "neighbors_batch walk st node_ids direction label_filter_ids =
     fold (\<lambda>nid results. let entries = neighbors walk st nid direction label_filter_ids 0
       in if entries \<noteq> [] then fmupd nid entries results else results) node_ids fmempty"

definition next_visible_adj_edge_after ::
    "memtable_state \<Rightarrow> u64 \<Rightarrow> bool \<Rightarrow> u32 list option \<Rightarrow> u64 \<Rightarrow> u64 option \<Rightarrow> u64 option option" where
  "next_visible_adj_edge_after st node_id outgoing label_filter_ids snapshot_seq after =
     (if node_deleted_at st node_id snapshot_seq then Some None
      else case fmlookup (if outgoing then ordered_adj_out st else ordered_adj_in st) node_id of
        None \<Rightarrow> Some None
      | Some entries \<Rightarrow>
          map_option (\<lambda>es. map_option fst (find (\<lambda>(_, slot). case slot_option_at slot snapshot_seq of
              None \<Rightarrow> False
            | Some entry \<Rightarrow> \<not> label_excluded label_filter_ids (adj_label_id entry) \<and>
                \<not> node_deleted_at st (adj_neighbor_id entry) snapshot_seq) es))
            (btree_range entries (after_bound after) Unbounded))"

definition next_visible_edge_from_endpoint_after ::
    "memtable_state \<Rightarrow> u64 \<Rightarrow> u32 list option \<Rightarrow> u64 \<Rightarrow> u64 option \<Rightarrow> u64 option option" where
  "next_visible_edge_from_endpoint_after st node_id label_filter_ids snapshot_seq after =
     next_visible_adj_edge_after st node_id True label_filter_ids snapshot_seq after"

definition next_visible_edge_to_endpoint_after ::
    "memtable_state \<Rightarrow> u64 \<Rightarrow> u32 list option \<Rightarrow> u64 \<Rightarrow> u64 option \<Rightarrow> u64 option option" where
  "next_visible_edge_to_endpoint_after st node_id label_filter_ids snapshot_seq after =
     next_visible_adj_edge_after st node_id False label_filter_ids snapshot_seq after"

text \<open>Upper bounds on the number of visible edges of endpoints, and whether the bound is exact.\<close>

record endpoint_count_estimate =
  ece_count :: nat
  ece_exact :: bool

definition exact_zero :: endpoint_count_estimate where
  "exact_zero = \<lparr>ece_count = 0, ece_exact = True\<rparr>"

definition estimate_add :: "endpoint_count_estimate \<Rightarrow> endpoint_count_estimate \<Rightarrow> endpoint_count_estimate" where
  "estimate_add a b = \<lparr>ece_count = saturating_add (ece_count a) (ece_count b), ece_exact = (ece_exact a \<and> ece_exact b)\<rparr>"

definition visible_adj_edge_count_estimate ::
    "memtable_state \<Rightarrow> u64 \<Rightarrow> bool \<Rightarrow> u32 list option \<Rightarrow> u64 \<Rightarrow> endpoint_count_estimate" where
  "visible_adj_edge_count_estimate st node_id outgoing label_filter_ids snapshot_seq =
     (if label_filter_ids = Some [] \<or> node_deleted_at st node_id snapshot_seq then exact_zero
      else case fmlookup (if outgoing then ordered_adj_out st else ordered_adj_in st) node_id of
        None \<Rightarrow> exact_zero
      | Some entries \<Rightarrow> \<lparr>ece_count = fcard (fmdom entries), ece_exact = (fmdom entries = {||})\<rparr>)"

definition visible_adj_edges_count_estimate ::
    "memtable_state \<Rightarrow> u64 list \<Rightarrow> bool \<Rightarrow> u32 list option \<Rightarrow> u64 \<Rightarrow> endpoint_count_estimate" where
  "visible_adj_edges_count_estimate st node_ids outgoing label_filter_ids snapshot_seq =
     (if node_ids = [] \<or> label_filter_ids = Some [] then exact_zero
      else fold (\<lambda>node_id estimate. estimate_add estimate
        (visible_adj_edge_count_estimate st node_id outgoing label_filter_ids snapshot_seq)) node_ids exact_zero)"

definition visible_endpoint_edges_count_estimate ::
    "memtable_state \<Rightarrow> u64 list \<Rightarrow> direction \<Rightarrow> u32 list option \<Rightarrow> u64 \<Rightarrow> endpoint_count_estimate" where
  "visible_endpoint_edges_count_estimate st node_ids direction label_filter_ids snapshot_seq =
     (let side = (\<lambda>outgoing. visible_adj_edges_count_estimate st node_ids outgoing label_filter_ids snapshot_seq)
      in case direction of Outgoing \<Rightarrow> side True | Incoming \<Rightarrow> side False | Both \<Rightarrow> estimate_add (side True) (side False))"

end
