(* ===== verification/Engine.thy ===== *)
theory Engine
  imports Wal_Sync Labels Degree Memtable_Reads
begin

text \<open>
  The write path and the recovery path of the engine, \<^verbatim>\<open>src/src/engine/mod.rs\<close>. A committed
  request is a list of normalised operations: it is appended to the log, then each operation goes
  to the label catalog, the active memtable and the degree overlay. Opening a database replays the
  records of a log generation into a fresh memtable, holding back the operations of an atomic batch
  until its commit. \<open>None\<close> is a panic; \<open>Wait\<close> is a writer put to sleep by group commit. Segments
  enter through the two lookups the degree cache makes on them.
\<close>

section \<open>State\<close>

record segment_edges =
  seg_edge_deleted :: "u64 \<Rightarrow> bool"
  seg_edge_core :: "u64 \<Rightarrow> engine_error + edge_core option"

datatype wal_mode = Immediate wal_writer | GroupCommit nat nat wal_sync_state

record engine_core =
  ec_memtable :: memtable_state
  ec_catalog :: runtime_label_catalog
  ec_manifest :: manifest_labels
  ec_engine_seq :: u64
  ec_engine_seq_seen :: u64
  ec_wal :: wal_mode
  ec_generation :: u64
  ec_overlay :: overlay
  ec_epochs :: "memtable_state list"
  ec_segments :: "segment_edges list"

section \<open>Old edges\<close>

definition memtable_edge_core :: "memtable_state \<Rightarrow> u64 \<Rightarrow> edge_core option" where
  "memtable_edge_core st rid = map_option
     (\<lambda>(src, to, created_at, updated_at, weight, valid_from, valid_to).
        \<lparr>ec_from = src, ec_to = to, ec_created_at = created_at, ec_updated_at = updated_at, ec_weight = weight,
         ec_valid_from = valid_from, ec_valid_to = valid_to\<rparr>) (get_edge_core_at st rid U64_MAX)"

fun edge_core_from_segments :: "segment_edges list \<Rightarrow> u64 \<Rightarrow> engine_error + edge_core option" where
  "edge_core_from_segments [] rid = Inr None"
| "edge_core_from_segments (seg # segs) rid =
     (if seg_edge_deleted seg rid then Inr None
      else r_bind (seg_edge_core seg rid) (\<lambda>found. case found of
        Some core \<Rightarrow> Inr (Some core) | None \<Rightarrow> edge_core_from_segments segs rid))"

fun edge_core_from_memtables :: "memtable_state list \<Rightarrow> segment_edges list \<Rightarrow> u64 \<Rightarrow> engine_error + edge_core option" where
  "edge_core_from_memtables [] segs rid = edge_core_from_segments segs rid"
| "edge_core_from_memtables (st # sts) segs rid = (case memtable_edge_core st rid of
     Some core \<Rightarrow> Inr (Some core)
   | None \<Rightarrow> if is_edge_deleted_at st rid U64_MAX then Inr None else edge_core_from_memtables sts segs rid)"

definition get_edge_core_from_sources ::
    "memtable_state \<Rightarrow> memtable_state list \<Rightarrow> segment_edges list \<Rightarrow> u64 \<Rightarrow> engine_error + edge_core option" where
  "get_edge_core_from_sources st epochs segs rid = edge_core_from_memtables (st # epochs) segs rid"

definition get_edge_core_for_cache :: "engine_core \<Rightarrow> u64 \<Rightarrow> engine_error + edge_core option" where
  "get_edge_core_for_cache e rid = get_edge_core_from_sources (ec_memtable e) (ec_epochs e) (ec_segments e) rid"

text \<open>The edge states a batch starts from, one lookup for each edge it touches.\<close>

definition capture_edge_state ::
    "(u64 \<Rightarrow> engine_error + edge_core option) \<Rightarrow> (u64, edge_core option) fmap \<Rightarrow> wal_op \<Rightarrow> engine_error + (u64, edge_core option) fmap" where
  "capture_edge_state find_core states op = (case edge_id_for_degree_op op of
     None \<Rightarrow> Inr states
   | Some edge_id \<Rightarrow>
       if fmlookup states edge_id \<noteq> None then Inr states
       else r_bind (find_core edge_id) (\<lambda>core. Inr (fmupd edge_id core states)))"

definition capture_batch_edge_states :: "engine_core \<Rightarrow> wal_op list \<Rightarrow> engine_error + (u64, edge_core option) fmap" where
  "capture_batch_edge_states e ops = r_fold (capture_edge_state (get_edge_core_for_cache e)) fmempty ops"

definition batch_old_edge :: "(u64, edge_core option) fmap \<Rightarrow> wal_op \<Rightarrow> edge_core option" where
  "batch_old_edge states op = Option.bind (edge_id_for_degree_op op) (\<lambda>rid. Option.bind (fmlookup states rid) (\<lambda>core. core))"

definition note_edge_state :: "wal_op \<Rightarrow> (u64, edge_core option) fmap \<Rightarrow> (u64, edge_core option) fmap" where
  "note_edge_state op states = (case edge_id_for_degree_op op of
     None \<Rightarrow> states | Some rid \<Rightarrow> fmupd rid (edge_core_after_op op) states)"

section \<open>Writing\<close>

definition wal_append ::
    "io_result \<Rightarrow> (wal_writer \<Rightarrow> engine_error + (wal_writer \<times> nat)) \<Rightarrow> wal_mode \<Rightarrow> (wal_mode, (engine_error + unit) \<times> wal_mode) attempt" where
  "wal_append io f mode = (case mode of
     Immediate w \<Rightarrow> Return (case f w of
         Inl err \<Rightarrow> (Inl err, mode)
       | Inr (w', _) \<Rightarrow> (case writer_sync io w' of
            Inl err \<Rightarrow> (Inl err, Immediate w')
          | Inr w'' \<Rightarrow> (Inr (), Immediate w'')))
   | GroupCommit soft hard s \<Rightarrow> (case wal_append_group soft hard f s of
         Wait s' \<Rightarrow> Wait (GroupCommit soft hard s')
       | Return (r, s') \<Rightarrow> Return (r, GroupCommit soft hard s')))"

definition apply_label_token_op_after_wal_append :: "engine_core \<Rightarrow> wal_op \<Rightarrow> engine_error + engine_core" where
  "apply_label_token_op_after_wal_append e op = (case op of
     EnsureNodeLabel label label_id \<Rightarrow>
       r_bind (apply_node_label (ec_catalog e) label label_id (Some (ec_generation e))) (\<lambda>catalog.
         Inr (e\<lparr>ec_catalog := catalog, ec_manifest := apply_to_manifest catalog (ec_manifest e)\<rparr>))
   | EnsureEdgeLabel label label_id \<Rightarrow>
       r_bind (apply_edge_label (ec_catalog e) label label_id (Some (ec_generation e))) (\<lambda>catalog.
         Inr (e\<lparr>ec_catalog := catalog, ec_manifest := apply_to_manifest catalog (ec_manifest e)\<rparr>))
   | UpsertNode node \<Rightarrow>
       if list_all (\<lambda>label_id. fmlookup (id_to_label (node_space (ec_catalog e))) label_id \<noteq> None) (as_slice (n_label_ids node))
       then Inr e else Inl (InvalidOperation ''node label_id does not exist in the node label catalog'')
   | UpsertEdge edge \<Rightarrow>
       if fmlookup (id_to_label (edge_space (ec_catalog e))) (e_label_id edge) \<noteq> None
       then Inr e else Inl (InvalidOperation ''edge-label label_id does not exist in the edge-label catalog'')
   | DeleteNode _ _ \<Rightarrow> Inr e
   | DeleteEdge _ _ \<Rightarrow> Inr e
   | BeginAtomicBatch _ _ \<Rightarrow> Inl (InvalidOperation ''WAL atomic batch markers cannot be applied as normal write ops'')
   | CommitAtomicBatch _ _ \<Rightarrow> Inl (InvalidOperation ''WAL atomic batch markers cannot be applied as normal write ops''))"

text \<open>
  The loop over the sequenced operations of a request. An error of the label check leaves the
  engine as the operations before it left it.
\<close>

fun apply_sequenced ::
    "(prop_value \<Rightarrow> bytes) \<Rightarrow> (u64 \<times> wal_op) list \<Rightarrow> (u64, edge_core option) fmap \<Rightarrow> shard \<Rightarrow> engine_core
       \<Rightarrow> ((engine_error + shard) \<times> engine_core) option" where
  "apply_sequenced pv [] states deltas e = Some (Inr deltas, e)"
| "apply_sequenced pv ((seq, op) # rest) states deltas e =
     (let e = e\<lparr>ec_engine_seq := seq\<rparr> in
      case apply_label_token_op_after_wal_append e op of
        Inl err \<Rightarrow> Some (Inl err, e)
      | Inr e \<Rightarrow> Option.bind (apply_op pv (ec_memtable e) op seq) (\<lambda>st.
          apply_sequenced pv rest (note_edge_state op states)
            (collect_degree_delta_for_op op (batch_old_edge states op) deltas) (e\<lparr>ec_memtable := st\<rparr>)))"

definition update_engine_seq_seen :: "engine_core \<Rightarrow> engine_core" where
  "update_engine_seq_seen e = e\<lparr>ec_engine_seq_seen := max (ec_engine_seq_seen e) (ec_engine_seq e)\<rparr>"

definition finish_request :: "(nat \<Rightarrow> nat \<Rightarrow> bool) \<Rightarrow> shard \<Rightarrow> engine_core \<Rightarrow> engine_core" where
  "finish_request owned deltas e = update_engine_seq_seen (e\<lparr>ec_overlay := apply_degree_deltas owned deltas (ec_overlay e)\<rparr>)"

type_synonym write_result = "(engine_core, ((engine_error + unit) \<times> engine_core) option) attempt"

text \<open>After the log has the request: apply it, or return the error of the append.\<close>

definition logged_then ::
    "(wal_mode, (engine_error + unit) \<times> wal_mode) attempt \<Rightarrow> engine_core \<Rightarrow> (engine_core \<Rightarrow> ((engine_error + unit) \<times> engine_core) option) \<Rightarrow> write_result" where
  "logged_then logged e cont = (case logged of
     Wait wal \<Rightarrow> Wait (e\<lparr>ec_wal := wal\<rparr>)
   | Return (Inl err, wal) \<Rightarrow> Return (Some (Inl err, e\<lparr>ec_wal := wal\<rparr>))
   | Return (Inr _, wal) \<Rightarrow> Return (cont (e\<lparr>ec_wal := wal\<rparr>)))"

definition sequenced :: "u64 \<Rightarrow> wal_op list \<Rightarrow> (u64 \<times> wal_op) list" where
  "sequenced base_seq ops = map (\<lambda>(i, op). (base_seq + 1 + of_nat i, op)) (enumerate 0 ops)"

definition append_and_apply_normalized ::
    "(prop_value \<Rightarrow> bytes) \<Rightarrow> (bytes \<Rightarrow> u32) \<Rightarrow> to_vec \<Rightarrow> (nat \<Rightarrow> nat \<Rightarrow> bool) \<Rightarrow> io_result \<Rightarrow> engine_core \<Rightarrow> wal_op list \<Rightarrow> write_result" where
  "append_and_apply_normalized pv crc tv owned io e ops =
     (let entries = sequenced (ec_engine_seq e) ops in
      case capture_batch_edge_states e ops of
        Inl err \<Rightarrow> Return (Some (Inl err, e))
      | Inr states \<Rightarrow> logged_then (wal_append io (\<lambda>w. append_batch crc tv w entries) (ec_wal e)) e (\<lambda>e.
          map_option (\<lambda>(r, e). case r of
              Inl err \<Rightarrow> (Inl err, e)
            | Inr deltas \<Rightarrow> (Inr (), finish_request owned deltas e))
            (apply_sequenced pv entries states fmempty e)))"

definition append_and_apply_one_normalized ::
    "(prop_value \<Rightarrow> bytes) \<Rightarrow> (bytes \<Rightarrow> u32) \<Rightarrow> to_vec \<Rightarrow> (nat \<Rightarrow> nat \<Rightarrow> bool) \<Rightarrow> io_result \<Rightarrow> engine_core \<Rightarrow> wal_op \<Rightarrow> write_result" where
  "append_and_apply_one_normalized pv crc tv owned io e op =
     (let seq = ec_engine_seq e + 1 in
      case (case edge_id_for_degree_op op of None \<Rightarrow> Inr None | Some rid \<Rightarrow> get_edge_core_for_cache e rid) of
        Inl err \<Rightarrow> Return (Some (Inl err, e))
      | Inr old_edge \<Rightarrow> logged_then (wal_append io (\<lambda>w. append crc tv w op seq) (ec_wal e)) e (\<lambda>e.
          let e = e\<lparr>ec_engine_seq := seq\<rparr> in
          case apply_label_token_op_after_wal_append e op of
            Inl err \<Rightarrow> Some (Inl err, e)
          | Inr e \<Rightarrow> map_option (\<lambda>st.
              (Inr (), finish_request owned (collect_degree_delta_for_op op old_edge fmempty) (e\<lparr>ec_memtable := st\<rparr>)))
              (apply_op pv (ec_memtable e) op seq)))"

text \<open>The three cases of \<^verbatim>\<open>commit_core_write_plan\<close>.\<close>

definition commit_ops ::
    "(prop_value \<Rightarrow> bytes) \<Rightarrow> (bytes \<Rightarrow> u32) \<Rightarrow> to_vec \<Rightarrow> (nat \<Rightarrow> nat \<Rightarrow> bool) \<Rightarrow> io_result \<Rightarrow> engine_core \<Rightarrow> wal_op list \<Rightarrow> write_result" where
  "commit_ops pv crc tv owned io e ops = (case ops of
     [] \<Rightarrow> Return (Some (Inr (), e))
   | [op] \<Rightarrow> append_and_apply_one_normalized pv crc tv owned io e op
   | _ \<Rightarrow> append_and_apply_normalized pv crc tv owned io e ops)"

section \<open>Replaying\<close>

definition validate_or_apply_replayed_label_token_op ::
    "runtime_label_catalog \<Rightarrow> wal_op \<Rightarrow> u64 \<Rightarrow> engine_error + runtime_label_catalog" where
  "validate_or_apply_replayed_label_token_op catalog op wal_generation_id = (case op of
     EnsureNodeLabel label label_id \<Rightarrow> apply_node_label catalog label label_id (Some wal_generation_id)
   | EnsureEdgeLabel label label_id \<Rightarrow> apply_edge_label catalog label label_id (Some wal_generation_id)
   | UpsertNode node \<Rightarrow>
       if list_all (\<lambda>label_id. fmlookup (id_to_label (node_space catalog)) label_id \<noteq> None) (as_slice (n_label_ids node))
       then Inr catalog else Inl (CorruptWal ''node record references missing node label label_id'')
   | UpsertEdge edge \<Rightarrow>
       if fmlookup (id_to_label (edge_space catalog)) (e_label_id edge) \<noteq> None
       then Inr catalog else Inl (CorruptWal ''edge record references missing edge-label label_id'')
   | DeleteNode _ _ \<Rightarrow> Inr catalog
   | DeleteEdge _ _ \<Rightarrow> Inr catalog
   | BeginAtomicBatch _ _ \<Rightarrow> Inl (CorruptWal ''WAL atomic batch marker reached normal replay apply'')
   | CommitAtomicBatch _ _ \<Rightarrow> Inl (CorruptWal ''WAL atomic batch marker reached normal replay apply''))"

record replay_atomic_batch =
  rb_first_seq :: u64
  rb_op_count :: u32
  rb_ops :: "(u64 \<times> wal_op) list"

definition replay_batch_new :: "u64 \<Rightarrow> u32 \<Rightarrow> replay_atomic_batch option" where
  "replay_batch_new first_seq op_count =
     (if first_seq = 0 \<or> op_count < 2 then None
      else Some \<lparr>rb_first_seq = first_seq, rb_op_count = op_count, rb_ops = []\<rparr>)"

definition replay_batch_push :: "replay_atomic_batch \<Rightarrow> u64 \<Rightarrow> wal_op \<Rightarrow> replay_atomic_batch option" where
  "replay_batch_push batch seq op =
     (if length (rb_ops batch) \<ge> unat (rb_op_count batch) then None
      else Some (batch\<lparr>rb_ops := rb_ops batch @ [(seq, op)]\<rparr>))"

definition replay_batch_matches_commit :: "replay_atomic_batch \<Rightarrow> u64 \<Rightarrow> u32 \<Rightarrow> bool" where
  "replay_batch_matches_commit batch first_seq op_count \<longleftrightarrow>
     rb_first_seq batch = first_seq \<and> rb_op_count batch = op_count \<and> length (rb_ops batch) = unat op_count \<and>
     list_all (\<lambda>(idx, (seq, _)). checked_add_u64 (rb_first_seq batch) (of_nat idx) = Some seq) (enumerate 0 (rb_ops batch))"

record replay_state =
  rs_memtable :: memtable_state
  rs_deltas :: shard
  rs_catalog :: runtime_label_catalog
  rs_engine_seq :: u64

definition replay_apply_normalized_op ::
    "(prop_value \<Rightarrow> bytes) \<Rightarrow> replay_state \<Rightarrow> u64 \<Rightarrow> wal_op \<Rightarrow> edge_core option \<Rightarrow> replay_state option" where
  "replay_apply_normalized_op pv rs seq op old_edge =
     map_option (\<lambda>st. rs\<lparr>rs_memtable := st, rs_engine_seq := max (rs_engine_seq rs) seq,
         rs_deltas := collect_degree_delta_for_op op old_edge (rs_deltas rs)\<rparr>)
       (apply_op pv (rs_memtable rs) op seq)"

fun replay_batch_ops ::
    "(prop_value \<Rightarrow> bytes) \<Rightarrow> (u64 \<times> wal_op) list \<Rightarrow> (u64, edge_core option) fmap \<Rightarrow> replay_state \<Rightarrow> replay_state option" where
  "replay_batch_ops pv [] states rs = Some rs"
| "replay_batch_ops pv ((seq, op) # rest) states rs =
     Option.bind (replay_apply_normalized_op pv rs seq op (batch_old_edge states op)) (\<lambda>rs.
       replay_batch_ops pv rest (note_edge_state op states) rs)"

definition replay_apply_committed_atomic_batch ::
    "(prop_value \<Rightarrow> bytes) \<Rightarrow> dense_vector_config option \<Rightarrow> u64 \<Rightarrow> memtable_state list \<Rightarrow> segment_edges list
       \<Rightarrow> replay_atomic_batch \<Rightarrow> replay_state \<Rightarrow> (engine_error + replay_state) option" where
  "replay_apply_committed_atomic_batch pv dense_config wal_generation_id epochs segs batch rs =
     (case r_bind (r_map (\<lambda>(seq, op). r_bind (normalize_wal_op_for_replay dense_config op) (\<lambda>op. Inr (seq, op))) (rb_ops batch)) (\<lambda>ops.
           r_bind (r_fold (\<lambda>catalog (_, op). validate_or_apply_replayed_label_token_op catalog op wal_generation_id)
             (rs_catalog rs) ops) (\<lambda>catalog.
           r_bind (r_fold (capture_edge_state (get_edge_core_from_sources (rs_memtable rs) epochs segs)) fmempty (map snd ops)) (\<lambda>states.
             Inr (ops, catalog, states)))) of
        Inl err \<Rightarrow> Some (Inl err)
      | Inr (ops, catalog, states) \<Rightarrow> map_option Inr (replay_batch_ops pv ops states (rs\<lparr>rs_catalog := catalog\<rparr>)))"

definition replay_single ::
    "(prop_value \<Rightarrow> bytes) \<Rightarrow> dense_vector_config option \<Rightarrow> u64 \<Rightarrow> memtable_state list \<Rightarrow> segment_edges list
       \<Rightarrow> u64 \<Rightarrow> wal_op \<Rightarrow> replay_state \<Rightarrow> (engine_error + replay_state) option" where
  "replay_single pv dense_config wal_generation_id epochs segs seq op rs =
     (case r_bind (normalize_wal_op_for_replay dense_config op) (\<lambda>op.
           r_bind (validate_or_apply_replayed_label_token_op (rs_catalog rs) op wal_generation_id) (\<lambda>catalog.
           r_bind (case edge_id_for_degree_op op of None \<Rightarrow> Inr None
               | Some rid \<Rightarrow> get_edge_core_from_sources (rs_memtable rs) epochs segs rid) (\<lambda>old_edge.
             Inr (op, catalog, old_edge)))) of
        Inl err \<Rightarrow> Some (Inl err)
      | Inr (op, catalog, old_edge) \<Rightarrow>
          map_option Inr (replay_apply_normalized_op pv (rs\<lparr>rs_catalog := catalog\<rparr>) seq op old_edge))"

text \<open>The loop over the records of a generation; \<^verbatim>\<open>break\<close> returns what was applied so far.\<close>

fun replay_loop ::
    "(prop_value \<Rightarrow> bytes) \<Rightarrow> dense_vector_config option \<Rightarrow> u64 \<Rightarrow> memtable_state list \<Rightarrow> segment_edges list
       \<Rightarrow> (u64 \<times> wal_op) list \<Rightarrow> replay_atomic_batch option \<Rightarrow> replay_state \<Rightarrow> (engine_error + replay_state) option" where
  "replay_loop pv dc gen epochs segs [] open_batch rs = Some (Inr rs)"
| "replay_loop pv dc gen epochs segs ((seq, op) # rest) open_batch rs = (case op of
     BeginAtomicBatch first_seq op_count \<Rightarrow>
       (if open_batch \<noteq> None then Some (Inr rs)
        else case replay_batch_new first_seq op_count of
          None \<Rightarrow> Some (Inr rs)
        | Some batch \<Rightarrow> replay_loop pv dc gen epochs segs rest (Some batch) rs)
   | CommitAtomicBatch first_seq op_count \<Rightarrow>
       (case open_batch of
          None \<Rightarrow> Some (Inr rs)
        | Some batch \<Rightarrow>
            if \<not> replay_batch_matches_commit batch first_seq op_count then Some (Inr rs)
            else Option.bind (replay_apply_committed_atomic_batch pv dc gen epochs segs batch rs) (\<lambda>r. case r of
                Inl err \<Rightarrow> Some (Inl err)
              | Inr rs \<Rightarrow> replay_loop pv dc gen epochs segs rest None rs))
   | _ \<Rightarrow>
       (case open_batch of
          Some batch \<Rightarrow>
            (case replay_batch_push batch seq op of
               None \<Rightarrow> Some (Inr rs)
             | Some batch \<Rightarrow> replay_loop pv dc gen epochs segs rest (Some batch) rs)
        | None \<Rightarrow> Option.bind (replay_single pv dc gen epochs segs seq op rs) (\<lambda>r. case r of
              Inl err \<Rightarrow> Some (Inl err)
            | Inr rs \<Rightarrow> replay_loop pv dc gen epochs segs rest None rs)))"

definition replay_wal_generation_to_memtable_and_overlay ::
    "(prop_value \<Rightarrow> bytes) \<Rightarrow> from_slice \<Rightarrow> (bytes \<Rightarrow> u32) \<Rightarrow> (nat \<Rightarrow> nat \<Rightarrow> bool) \<Rightarrow> bytes option \<Rightarrow> u64 \<Rightarrow> dense_vector_config option
       \<Rightarrow> runtime_label_catalog \<Rightarrow> u64 \<Rightarrow> memtable_state list \<Rightarrow> segment_edges list
       \<Rightarrow> (engine_error + memtable_state \<times> overlay \<times> nat \<times> runtime_label_catalog \<times> u64) option" where
  "replay_wal_generation_to_memtable_and_overlay pv fs crc owned file gen dc catalog engine_seq epochs segs =
     (case read_path fs crc file of
        Inl err \<Rightarrow> Some (Inl err)
      | Inr read_result \<Rightarrow> map_option (\<lambda>r. r_bind r (\<lambda>rs.
            Inr (rs_memtable rs, overlay_from_flat owned (rs_deltas rs), durable_len read_result, rs_catalog rs, rs_engine_seq rs)))
          (replay_loop pv dc gen epochs segs (records read_result) None
            \<lparr>rs_memtable = memtable_new, rs_deltas = fmempty, rs_catalog = catalog, rs_engine_seq = engine_seq\<rparr>))"

end
