(* ===== verification/Recovery.thy ===== *)
theory Recovery
  imports Engine
begin

text \<open>
  The write path and the recovery path together: what a reopened database finds after a crash is
  the state that the running database had after one of its writes, and no write that the
  surviving part of the log holds is missing from it.
\<close>

section \<open>Replay does not look at the sequence stored in a record\<close>

lemma fold_enter_clear: "fold (enter_node_label (node\<lparr>n_last_write_seq := q\<rparr>) seq) ids st = fold (enter_node_label node seq) ids st"
  by (rule fold_cong) (simp_all add: enter_node_label_def fun_eq_iff)

lemma fold_retire_clear:
  "fold (retire_node_label old (node\<lparr>n_last_write_seq := q\<rparr>) seq) ids st = fold (retire_node_label old node seq) ids st"
  by (rule fold_cong) (simp_all add: retire_node_label_def fun_eq_iff)

lemma apply_upsert_node_clear: "apply_upsert_node pv st (node\<lparr>n_last_write_seq := q\<rparr>) seq = apply_upsert_node pv st node seq"
  by (simp add: apply_upsert_node_def fold_enter_clear fold_retire_clear cong: if_cong option.case_cong)

lemma apply_upsert_edge_clear: "apply_upsert_edge pv st (edge\<lparr>e_last_write_seq := q\<rparr>) seq = apply_upsert_edge pv st edge seq"
  by (simp add: apply_upsert_edge_def retire_edge_def adj_out_entry_def adj_in_entry_def cong: if_cong option.case_cong)

lemma apply_op_clear: "apply_op pv st (clear_seq op) seq = apply_op pv st op seq"
  by (cases op) (simp_all add: apply_upsert_node_clear apply_upsert_edge_clear)

lemma validate_clear:
  "validate_or_apply_replayed_label_token_op c (clear_seq op) gen = validate_or_apply_replayed_label_token_op c op gen"
  by (cases op) (simp_all add: validate_or_apply_replayed_label_token_op_def)

lemma edge_id_clear: "edge_id_for_degree_op (clear_seq op) = edge_id_for_degree_op op"
  by (cases op) simp_all

lemma marker_clear: "is_marker (clear_seq op) = is_marker op"
  by (cases op) simp_all

lemma normalize_clear:
  assumes "op_normal dc op"
  shows "normalize_wal_op_for_replay dc (clear_seq op) = Inr (clear_seq op)"
proof (rule replay_normal)
  have "n\<lparr>n_last_write_seq := 0, n_dense_vector := a, n_sparse_vector := b\<rparr> = n\<lparr>n_last_write_seq := 0\<rparr>"
    if "n\<lparr>n_dense_vector := a, n_sparse_vector := b\<rparr> = n" for n :: node_record and a b
    using that by (cases n) simp
  then show "op_normal dc (clear_seq op)"
    using assms by (cases op) (auto simp: op_normal_def normalize_wal_op_for_write_def r_bind_eq_Inr)
qed

lemmas clear_simps = apply_op_clear validate_clear edge_id_clear marker_clear

section \<open>One request\<close>

text \<open>A replay that has caught up with the engine.\<close>

definition caught_up :: "replay_state \<Rightarrow> engine_core \<Rightarrow> bool" where
  "caught_up rs e \<longleftrightarrow> rs_memtable rs = ec_memtable e \<and> rs_catalog rs = ec_catalog e \<and> rs_engine_seq rs = ec_engine_seq e"

fun mode_writer :: "wal_mode \<Rightarrow> wal_writer" where
  "mode_writer (Immediate w) = w"
| "mode_writer (GroupCommit _ _ s) = ws_writer s"

definition engine_log :: "engine_core \<Rightarrow> bytes" where
  "engine_log e = w_content (mode_writer (ec_wal e))"

text \<open>What a request never touches.\<close>

definition same_base :: "engine_core \<Rightarrow> engine_core \<Rightarrow> bool" where
  "same_base e e' \<longleftrightarrow> ec_generation e' = ec_generation e \<and> ec_epochs e' = ec_epochs e \<and> ec_segments e' = ec_segments e"

lemma sequenced_Cons: "sequenced b (op # ops) = (b + 1, op) # sequenced (b + 1) ops"
  by (auto simp: sequenced_def enumerate_Suc_eq map_map comp_def split_def add.assoc intro!: map_cong)

lemma sequenced_Nil [simp]: "sequenced b [] = []"
  by (simp add: sequenced_def)

lemma length_sequenced [simp]: "length (sequenced b ops) = length ops"
  by (simp add: sequenced_def)

lemma snd_sequenced: "map snd (sequenced b ops) = ops"
  by (induction ops arbitrary: b) (simp_all add: sequenced_Cons)

lemma label_step_replayed:
  assumes "apply_label_token_op_after_wal_append e op = Inr e'"
  shows "validate_or_apply_replayed_label_token_op (ec_catalog e) op (ec_generation e) = Inr (ec_catalog e')"
    and "\<not> is_marker op" and "same_base e e'" and "ec_wal e' = ec_wal e"
    and "ec_memtable e' = ec_memtable e" and "ec_engine_seq e' = ec_engine_seq e"
  using assms
  by (cases op; auto simp: apply_label_token_op_after_wal_append_def validate_or_apply_replayed_label_token_op_def
      same_base_def r_bind_eq_Inr split: if_splits)+

lemma same_base_refl [simp]: "same_base e e"
  by (simp add: same_base_def)

lemma same_base_trans: "same_base a b \<Longrightarrow> same_base b c \<Longrightarrow> same_base a c"
  by (simp add: same_base_def)

lemma next_seq: "unat (q :: u64) + Suc n < 2 ^ 64 \<Longrightarrow> max q (q + 1) = q + 1 \<and> unat (q + 1) + n < 2 ^ 64"
proof -
  assume *: "unat q + Suc n < 2 ^ 64"
  then have "unat (q + 1) = unat q + 1" by (subst unat_plus_simple [THEN iffD1]) (simp_all add: word_le_nat_alt unat_word_ariths)
  with * show ?thesis by (simp add: max_def word_le_nat_alt)
qed

text \<open>The replay of the operations of a request, once they are staged.\<close>

definition replays_to ::
    "(prop_value \<Rightarrow> bytes) \<Rightarrow> (u64 \<times> wal_op) list \<Rightarrow> memtable_state \<Rightarrow> u64 \<Rightarrow> memtable_state \<Rightarrow> u64 \<Rightarrow> bool" where
  "replays_to pv entries st seq st' seq' \<longleftrightarrow> (\<forall>states rs. rs_memtable rs = st \<longrightarrow> rs_engine_seq rs = seq \<longrightarrow>
     (\<exists>rs'. replay_batch_ops pv (map clear_entry entries) states rs = Some rs' \<and>
       rs_memtable rs' = st' \<and> rs_engine_seq rs' = seq' \<and> rs_catalog rs' = rs_catalog rs))"

lemma replays_to_Cons:
  assumes "apply_op pv st op seq = Some st1" and "max q seq = seq" and "replays_to pv entries st1 seq st' seq'"
  shows "replays_to pv ((seq, op) # entries) st q st' seq'"
  unfolding replays_to_def
proof (intro allI impI)
  fix states and rs :: replay_state
  assume rs: "rs_memtable rs = st" "rs_engine_seq rs = q"
  let ?op = "clear_seq op"
  define rs1 where "rs1 = rs\<lparr>rs_memtable := st1, rs_engine_seq := seq,
    rs_deltas := collect_degree_delta_for_op ?op (batch_old_edge states ?op) (rs_deltas rs)\<rparr>"
  have "replay_apply_normalized_op pv rs seq ?op (batch_old_edge states ?op) = Some rs1"
    using assms(1,2) rs by (simp add: replay_apply_normalized_op_def apply_op_clear rs1_def)
  moreover obtain rs' where "replay_batch_ops pv (map clear_entry entries) (note_edge_state ?op states) rs1 = Some rs'"
    "rs_memtable rs' = st'" "rs_engine_seq rs' = seq'" "rs_catalog rs' = rs_catalog rs1"
    using assms(3) [unfolded replays_to_def, rule_format, of rs1 "note_edge_state ?op states"] by (auto simp: rs1_def)
  ultimately show "\<exists>rs'. replay_batch_ops pv (map clear_entry ((seq, op) # entries)) states rs = Some rs' \<and>
      rs_memtable rs' = st' \<and> rs_engine_seq rs' = seq' \<and> rs_catalog rs' = rs_catalog rs"
    by (simp add: clear_entry_def rs1_def)
qed

lemma apply_sequenced_replayed:
  assumes "apply_sequenced pv (sequenced (ec_engine_seq e) ops) states deltas e = Some (Inr d, e')"
    and "unat (ec_engine_seq e) + length ops < 2 ^ 64"
  shows "r_fold (\<lambda>c (_, op). validate_or_apply_replayed_label_token_op c op (ec_generation e)) (ec_catalog e)
      (map clear_entry (sequenced (ec_engine_seq e) ops)) = Inr (ec_catalog e') \<and>
    same_base e e' \<and> ec_wal e' = ec_wal e \<and> list_all (\<lambda>op. \<not> is_marker op) ops \<and>
    replays_to pv (sequenced (ec_engine_seq e) ops) (ec_memtable e) (ec_engine_seq e) (ec_memtable e') (ec_engine_seq e')"
  using assms
proof (induction ops arbitrary: e states deltas)
  case Nil
  then show ?case by (simp add: replays_to_def)
next
  case (Cons op ops)
  let ?q = "ec_engine_seq e + 1"
  have seq: "max (ec_engine_seq e) ?q = ?q" "unat ?q + length ops < 2 ^ 64"
    using next_seq Cons.prems(2) by simp_all
  from Cons.prems(1) obtain e1 st where
    lab: "apply_label_token_op_after_wal_append (e\<lparr>ec_engine_seq := ?q\<rparr>) op = Inr e1"
    and st: "apply_op pv (ec_memtable e1) op ?q = Some st"
    and rest: "apply_sequenced pv (sequenced ?q ops) (note_edge_state op states)
      (collect_degree_delta_for_op op (batch_old_edge states op) deltas) (e1\<lparr>ec_memtable := st\<rparr>) = Some (Inr d, e')"
    by (auto simp: sequenced_Cons Let_def bind_eq_Some_conv split: sum.splits)
  note l = label_step_replayed [OF lab]
  have q: "ec_engine_seq (e1\<lparr>ec_memtable := st\<rparr>) = ?q" using l(6) by simp
  from Cons.IH [of "e1\<lparr>ec_memtable := st\<rparr>", unfolded q, OF rest seq(2)]
  have ih: "r_fold (\<lambda>c (_, op). validate_or_apply_replayed_label_token_op c op (ec_generation e)) (ec_catalog e1)
      (map clear_entry (sequenced ?q ops)) = Inr (ec_catalog e')"
    "same_base e1 e'" "ec_wal e' = ec_wal e1" "list_all (\<lambda>op. \<not> is_marker op) ops"
    "replays_to pv (sequenced ?q ops) st ?q (ec_memtable e') (ec_engine_seq e')"
    using l(3) by (simp_all add: same_base_def)
  show ?case
  proof (intro conjI)
    show "replays_to pv (sequenced (ec_engine_seq e) (op # ops)) (ec_memtable e) (ec_engine_seq e) (ec_memtable e') (ec_engine_seq e')"
      unfolding sequenced_Cons using st l(5) by (intro replays_to_Cons [OF _ seq(1) ih(5)]) simp
    show "r_fold (\<lambda>c (_, op). validate_or_apply_replayed_label_token_op c op (ec_generation e)) (ec_catalog e)
      (map clear_entry (sequenced (ec_engine_seq e) (op # ops))) = Inr (ec_catalog e')"
      using l(1) ih(1) by (simp add: sequenced_Cons clear_entry_def validate_clear)
  qed (use l ih in \<open>auto simp: same_base_def\<close>)
qed

section \<open>Replaying the records of a unit\<close>

lemma replay_loop_push:
  "\<not> is_marker op \<Longrightarrow> replay_loop pv dc gen epochs segs ((seq, op) # rest) (Some b) rs =
     (case replay_batch_push b seq op of None \<Rightarrow> Some (Inr rs)
      | Some b \<Rightarrow> replay_loop pv dc gen epochs segs rest (Some b) rs)"
  by (cases op) simp_all

lemma replay_loop_single:
  "\<not> is_marker op \<Longrightarrow> replay_loop pv dc gen epochs segs ((seq, op) # rest) None rs =
     Option.bind (replay_single pv dc gen epochs segs seq op rs) (\<lambda>r. case r of
       Inl err \<Rightarrow> Some (Inl err) | Inr rs \<Rightarrow> replay_loop pv dc gen epochs segs rest None rs)"
  by (cases op) simp_all

lemma replay_loop_pushes:
  assumes "list_all (\<lambda>e. \<not> is_marker (snd e)) ops" and "length (rb_ops b) + length ops \<le> unat (rb_op_count b)"
  shows "replay_loop pv dc gen epochs segs (map clear_entry ops @ rest) (Some b) rs =
    replay_loop pv dc gen epochs segs rest (Some (b\<lparr>rb_ops := rb_ops b @ map clear_entry ops\<rparr>)) rs"
  using assms
proof (induction ops arbitrary: b)
  case (Cons e ops)
  obtain seq op where e: "e = (seq, op)" by (cases e)
  have "\<not> is_marker (clear_seq op)" using Cons.prems(1) e by (simp add: marker_clear)
  moreover have "replay_batch_push b seq (clear_seq op) = Some (b\<lparr>rb_ops := rb_ops b @ [(seq, clear_seq op)]\<rparr>)"
    using Cons.prems(2) by (simp add: replay_batch_push_def)
  ultimately show ?case
    using Cons.prems Cons.IH [of "b\<lparr>rb_ops := rb_ops b @ [(seq, clear_seq op)]\<rparr>"]
    by (simp add: e clear_entry_def replay_loop_push del: replay_loop.simps)
qed simp

definition opened_batch :: "(u64 \<times> wal_op) list \<Rightarrow> (u64 \<times> wal_op) list \<Rightarrow> replay_atomic_batch" where
  "opened_batch entries done_ops =
     \<lparr>rb_first_seq = fst (batch_marks entries), rb_op_count = snd (batch_marks entries), rb_ops = map clear_entry done_ops\<rparr>"

lemma replay_open_batch:
  assumes "batch_ok entries" and "list_all (\<lambda>e. \<not> is_marker (snd e)) entries"
  shows "replay_loop pv dc gen epochs segs
      ((fst (batch_marks entries), BeginAtomicBatch (fst (batch_marks entries)) (snd (batch_marks entries))) #
         map clear_entry (take n entries) @ rest) None rs =
    replay_loop pv dc gen epochs segs rest (Some (opened_batch entries (take n entries))) rs"
proof -
  have n: "unat (snd (batch_marks entries)) = length entries"
    using assms(1) by (auto simp: batch_ok_def batch_marks_def intro!: unat_of_nat_small)
  have "replay_batch_new (fst (batch_marks entries)) (snd (batch_marks entries)) = Some (opened_batch entries [])"
    using assms(1) n by (auto simp: replay_batch_new_def opened_batch_def batch_ok_def word_less_nat_alt) (simp add: batch_marks_def)
  moreover have "list_all (\<lambda>e. \<not> is_marker (snd e)) (take n entries)"
    using assms(2) by (auto simp: list_all_iff dest: in_set_takeD)
  ultimately show ?thesis
    using replay_loop_pushes [of "take n entries" "opened_batch entries []" pv dc gen epochs segs rest rs] n
    by (simp add: opened_batch_def)
qed

lemma batch_commits:
  assumes "batch_ok entries"
  shows "replay_batch_matches_commit (opened_batch entries entries) (fst (batch_marks entries)) (snd (batch_marks entries))"
proof -
  have n: "unat (snd (batch_marks entries)) = length entries"
    using assms by (auto simp: batch_ok_def batch_marks_def intro!: unat_of_nat_small)
  have "checked_add_u64 (fst (entries ! 0)) (of_nat i) = Some (fst (entries ! i))" if "i < length entries" for i
  proof -
    have "unat (of_nat i :: u64) = i" using that assms by (intro unat_of_nat_small) (simp add: batch_ok_def)
    then show ?thesis using that assms by (auto simp: batch_ok_def checked_add_u64_def list_all_iff)
  qed
  then show ?thesis
    using n by (auto simp: replay_batch_matches_commit_def opened_batch_def list_all_iff in_set_enumerate_eq clear_entry_def)
      (simp add: batch_marks_def)
qed

lemma replay_batch_unit:
  assumes "unit_ok tv (Batch entries)"
  shows "replay_loop pv dc gen epochs segs (unit_records (Batch entries) @ rest) None rs =
    Option.bind (replay_apply_committed_atomic_batch pv dc gen epochs segs (opened_batch entries entries) rs) (\<lambda>r. case r of
      Inl err \<Rightarrow> Some (Inl err) | Inr rs \<Rightarrow> replay_loop pv dc gen epochs segs rest None rs)"
proof -
  have ok: "batch_ok entries" "list_all (\<lambda>e. \<not> is_marker (snd e)) entries" using assms by simp_all
  obtain f n where bm: "batch_marks entries = (f, n)" by (cases "batch_marks entries")
  show ?thesis
    using replay_open_batch [OF ok, of pv dc gen epochs segs "length entries"] batch_commits [OF ok(1)]
    by (simp add: unit_records_def bm clear_entry_def [of "(f, _)"])
qed

lemma replay_partial_unit:
  assumes "unit_ok tv u" and "m < length (unit_records u)"
  shows "replay_loop pv dc gen epochs segs (take m (unit_records u)) None rs = Some (Inr rs)"
proof (cases u)
  case (Single seq op)
  with assms show ?thesis by (simp add: unit_records_def)
next
  case (Batch entries)
  with assms have ok: "batch_ok entries" "list_all (\<lambda>e. \<not> is_marker (snd e)) entries" by simp_all
  obtain f k where bm: "batch_marks entries = (f, k)" by (cases "batch_marks entries")
  show ?thesis
  proof (cases m)
    case (Suc n)
    then have "n \<le> length entries" using assms(2) Batch by (simp add: unit_records_def bm)
    then show ?thesis
      using replay_open_batch [OF ok, of pv dc gen epochs segs n "[]" rs] Batch Suc
      by (simp add: unit_records_def bm take_map clear_entry_def [of "(f, _)"])
  qed simp
qed

section \<open>What a commit leaves in the log\<close>

lemma writer_sync_content: "writer_sync io w = Inr w' \<Longrightarrow> w_content w' = w_content w"
  by (auto simp: writer_sync_def wal_sync_def r_bind_eq_Inr)

lemma wal_append_ok:
  assumes "wal_append io f mode = Return (Inr (), mode')"
  obtains w' n where "f (mode_writer mode) = Inr (w', n)" and "w_content (mode_writer mode') = w_content w'"
  using assms that
  by (auto simp: wal_append_def wal_append_group_def notify_all_def Let_def dest!: writer_sync_content
      split: wal_mode.splits sum.splits prod.splits attempt.splits option.splits if_splits)

lemma wal_append_failed:
  assumes "wal_append io f mode = Return (Inl err, mode')"
    and grows: "\<And>w w' n. f w = Inr (w', n) \<Longrightarrow> length (w_content w) < length (w_content w')"
    and "w_content (mode_writer mode') = w_content (mode_writer mode)"
  shows "mode' = mode"
  using assms(1,3) grows
  by (fastforce simp: wal_append_def wal_append_group_def notify_all_def Let_def
      split: wal_mode.splits sum.splits prod.splits attempt.splits option.splits if_splits)

lemma frame_nonempty: "encode_frame_into crc tv seq op buf = Inr bs \<Longrightarrow> length buf < length bs"
  by (auto simp: encode_frame_into_eq frame_of_def is_ok_iff dest: arg_cong [where f = length])

lemma append_grows: "append crc tv w op seq = Inr (w', n) \<Longrightarrow> length (w_content w) < length (w_content w')"
  by (auto simp: append_def r_bind_eq_Inr)

lemma append_batch_grows:
  assumes "append_batch crc tv w (a # b # ops) = Inr (w', n)"
  shows "length (w_content w) < length (w_content w')"
proof -
  from assms obtain bs where bs: "encode_batch crc tv (a # b # ops) = Inr bs" "w' = w\<lparr>w_content := w_content w @ bs\<rparr>"
    by (auto simp: append_batch_def r_bind_eq_Inr)
  from bs(1) obtain buf f k where "encode_frame_into crc tv f (CommitAtomicBatch f k) buf = Inr bs"
    by (auto simp: encode_batch_def Let_def r_bind_eq_Inr split: if_splits)
  from frame_nonempty [OF this] bs(2) show ?thesis by auto
qed

lemma append_as_batch:
  "append crc tv w op seq = Inr (w', n) \<Longrightarrow> append_batch crc tv w [(seq, op)] = Inr (w', n)"
  by (auto simp: append_def append_batch_def encode_batch_def encode_frame_into_def r_bind_eq_Inr)

lemma apply_sequenced_wal:
  "apply_sequenced pv entries states deltas e = Some (r, e') \<Longrightarrow> ec_wal e' = ec_wal e"
proof (induction pv entries states deltas e rule: apply_sequenced.induct)
  case (2 pv seq op rest states deltas e)
  then show ?case
    by (auto simp: Let_def bind_eq_Some_conv label_step_replayed(4) split: sum.splits)
qed simp

text \<open>Every replay that has caught up with \<open>e\<close> catches up with \<open>e'\<close> over the records of the units.\<close>

definition catches_up ::
    "(prop_value \<Rightarrow> bytes) \<Rightarrow> dense_vector_config option \<Rightarrow> engine_core \<Rightarrow> wal_unit list \<Rightarrow> engine_core \<Rightarrow> bool" where
  "catches_up pv dc e us e' \<longleftrightarrow> same_base e e' \<and> (\<forall>rs. caught_up rs e \<longrightarrow> (\<exists>rs'. caught_up rs' e' \<and>
     (\<forall>rest. replay_loop pv dc (ec_generation e) (ec_epochs e) (ec_segments e) (concat (map unit_records us) @ rest) None rs =
       replay_loop pv dc (ec_generation e) (ec_epochs e) (ec_segments e) rest None rs')))"

lemma capture_clear:
  "r_fold (capture_edge_state f) s (map (\<lambda>e. snd (clear_entry e)) entries) = r_fold (capture_edge_state f) s (map snd entries)"
  by (induction entries arbitrary: s) (simp_all add: capture_edge_state_def clear_entry_def edge_id_clear cong: option.case_cong)

lemma normalize_entries:
  "list_all (\<lambda>e. op_normal dc (snd e)) entries \<Longrightarrow>
   r_map (\<lambda>(seq, op). r_bind (normalize_wal_op_for_replay dc op) (\<lambda>op. Inr (seq, op))) (map clear_entry entries) =
     Inr (map clear_entry entries)"
  by (induction entries) (simp_all add: clear_entry_def normalize_clear split_def)

lemma sequenced_all: "list_all (\<lambda>e. P (snd e)) (sequenced b ops) = list_all P ops"
  by (induction ops arbitrary: b) (simp_all add: sequenced_Cons)

lemma batch_caught_up:
  assumes rs: "caught_up rs e" and capt: "capture_batch_edge_states e ops = Inr states"
    and app: "apply_sequenced pv entries states deltas (e\<lparr>ec_wal := wal\<rparr>) = Some (Inr d, e')"
    and entries: "entries = sequenced (ec_engine_seq e) ops"
    and ops: "unat (ec_engine_seq e) + length ops < 2 ^ 64" "list_all (op_normal dc) ops"
  obtains rs' where "replay_apply_committed_atomic_batch pv dc (ec_generation e) (ec_epochs e) (ec_segments e)
      (opened_batch entries entries) rs = Some (Inr rs')" and "caught_up rs' e'"
proof -
  have st: "rs_memtable rs = ec_memtable e" "rs_catalog rs = ec_catalog e" "rs_engine_seq rs = ec_engine_seq e"
    using rs by (simp_all add: caught_up_def)
  from apply_sequenced_replayed [of pv "e\<lparr>ec_wal := wal\<rparr>" ops states deltas d e'] app ops(1)
  have fold: "r_fold (\<lambda>c (_, op). validate_or_apply_replayed_label_token_op c op (ec_generation e)) (ec_catalog e)
      (map clear_entry entries) = Inr (ec_catalog e')"
    and to: "replays_to pv entries (ec_memtable e) (ec_engine_seq e) (ec_memtable e') (ec_engine_seq e')"
    by (simp_all add: entries)
  have norm: "list_all (\<lambda>e. op_normal dc (snd e)) entries" using ops(2) by (simp add: entries sequenced_all)
  have cap: "r_fold (capture_edge_state (get_edge_core_from_sources (ec_memtable e) (ec_epochs e) (ec_segments e)))
      fmempty (map (\<lambda>e. snd (clear_entry e)) entries) = Inr states"
    unfolding capture_clear using capt
    by (simp add: entries snd_sequenced capture_batch_edge_states_def get_edge_core_for_cache_def [abs_def])
  obtain rs' where "replay_batch_ops pv (map clear_entry entries) states (rs\<lparr>rs_catalog := ec_catalog e'\<rparr>) = Some rs'"
    "rs_memtable rs' = ec_memtable e'" "rs_engine_seq rs' = ec_engine_seq e'" "rs_catalog rs' = ec_catalog e'"
    using to [unfolded replays_to_def, rule_format, of "rs\<lparr>rs_catalog := ec_catalog e'\<rparr>" states] st by auto
  with that [of rs'] show ?thesis
    using st fold cap normalize_entries [OF norm]
    by (simp add: replay_apply_committed_atomic_batch_def opened_batch_def comp_def caught_up_def)
qed

lemma finish_request_fields [simp]:
  "caught_up rs (finish_request owned deltas e) = caught_up rs e"
  "same_base a (finish_request owned deltas e) = same_base a e"
  "ec_wal (finish_request owned deltas e) = ec_wal e"
  by (simp_all add: finish_request_def update_engine_seq_seen_def caught_up_def same_base_def)

lemma single_caught_up:
  assumes rs: "caught_up rs e"
    and old: "(case edge_id_for_degree_op op of None \<Rightarrow> Inr None | Some rid \<Rightarrow> get_edge_core_for_cache e rid) = Inr old_edge"
    and lab: "apply_label_token_op_after_wal_append (e\<lparr>ec_wal := wal, ec_engine_seq := ec_engine_seq e + 1\<rparr>) op = Inr e1"
    and st: "apply_op pv (ec_memtable e1) op (ec_engine_seq e + 1) = Some st"
    and op: "unat (ec_engine_seq e) + 1 < 2 ^ 64" "op_normal dc op"
  obtains rs' where "replay_single pv dc (ec_generation e) (ec_epochs e) (ec_segments e) (ec_engine_seq e + 1) (clear_seq op) rs =
      Some (Inr rs')" and "caught_up rs' (e1\<lparr>ec_memtable := st\<rparr>)"
proof -
  have eq: "rs_memtable rs = ec_memtable e" "rs_catalog rs = ec_catalog e" "rs_engine_seq rs = ec_engine_seq e"
    using rs by (simp_all add: caught_up_def)
  note l = label_step_replayed [OF lab]
  have "max (ec_engine_seq e) (ec_engine_seq e + 1) = ec_engine_seq e + 1" using next_seq [of _ 0] op(1) by simp
  moreover have "(case edge_id_for_degree_op op of None \<Rightarrow> Inr None
      | Some rid \<Rightarrow> get_edge_core_from_sources (rs_memtable rs) (ec_epochs e) (ec_segments e) rid) = Inr old_edge"
    using old unfolding eq(1) get_edge_core_for_cache_def .
  ultimately show ?thesis
    using that eq l(1,5,6) st normalize_clear [OF op(2)]
    by (simp add: replay_single_def replay_apply_normalized_op_def clear_simps caught_up_def)
qed

lemma logged_then_ok:
  assumes "logged_then logged e cont = Return (Some (Inr (), e'))"
  obtains wal where "logged = Return (Inr (), wal)" and "cont (e\<lparr>ec_wal := wal\<rparr>) = Some (Inr (), e')"
proof (cases logged)
  case (Return p)
  obtain r wal where p: "p = (r, wal)" by (cases p)
  show ?thesis using assms that [of wal] by (cases r) (simp_all add: logged_then_def Return p)
qed (use assms in \<open>simp add: logged_then_def\<close>)

lemma one_committed:
  assumes "append_and_apply_one_normalized pv crc tv owned io e op = Return (Some (Inr (), e'))"
  obtains old_edge wal e1 st where
    "(case edge_id_for_degree_op op of None \<Rightarrow> Inr None | Some rid \<Rightarrow> get_edge_core_for_cache e rid) = Inr old_edge"
    and "wal_append io (\<lambda>w. append crc tv w op (ec_engine_seq e + 1)) (ec_wal e) = Return (Inr (), wal)"
    and "apply_label_token_op_after_wal_append (e\<lparr>ec_wal := wal, ec_engine_seq := ec_engine_seq e + 1\<rparr>) op = Inr e1"
    and "apply_op pv (ec_memtable e1) op (ec_engine_seq e + 1) = Some st"
    and "e' = finish_request owned (collect_degree_delta_for_op op old_edge fmempty) (e1\<lparr>ec_memtable := st\<rparr>)"
  using assms
  by (auto simp: append_and_apply_one_normalized_def Let_def elim!: logged_then_ok split: sum.splits)

lemma batch_committed:
  assumes "append_and_apply_normalized pv crc tv owned io e ops = Return (Some (Inr (), e'))"
  obtains states wal d e1 where "capture_batch_edge_states e ops = Inr states"
    and "wal_append io (\<lambda>w. append_batch crc tv w (sequenced (ec_engine_seq e) ops)) (ec_wal e) = Return (Inr (), wal)"
    and "apply_sequenced pv (sequenced (ec_engine_seq e) ops) states fmempty (e\<lparr>ec_wal := wal\<rparr>) = Some (Inr d, e1)"
    and "e' = finish_request owned d e1"
  using assms
  by (auto simp: append_and_apply_normalized_def Let_def elim!: logged_then_ok split: sum.splits)

text \<open>A request and its units: what it appends, and that replaying them follows it.\<close>

definition logs_units ::
    "(prop_value \<Rightarrow> bytes) \<Rightarrow> (bytes \<Rightarrow> u32) \<Rightarrow> to_vec \<Rightarrow> dense_vector_config option \<Rightarrow> engine_core \<Rightarrow> wal_unit list \<Rightarrow> engine_core \<Rightarrow> bool" where
  "logs_units pv crc tv dc e us e' \<longleftrightarrow> engine_log e' = engine_log e @ log_bytes tv crc us \<and>
     list_all (unit_ok tv) us \<and> catches_up pv dc e us e'"

lemma one_logged:
  assumes commit: "append_and_apply_one_normalized pv crc tv owned io e op = Return (Some (Inr (), e'))"
    and op: "unat (ec_engine_seq e) + 1 < 2 ^ 64" "op_normal dc op" "entry_ok tv (ec_engine_seq e + 1, op)"
  shows "logs_units pv crc tv dc e [Single (ec_engine_seq e + 1) op] e'"
proof -
  let ?q = "ec_engine_seq e + 1"
  from commit obtain old_edge wal e1 st where
    old: "(case edge_id_for_degree_op op of None \<Rightarrow> Inr None | Some rid \<Rightarrow> get_edge_core_for_cache e rid) = Inr old_edge"
    and wal: "wal_append io (\<lambda>w. append crc tv w op ?q) (ec_wal e) = Return (Inr (), wal)"
    and lab: "apply_label_token_op_after_wal_append (e\<lparr>ec_wal := wal, ec_engine_seq := ?q\<rparr>) op = Inr e1"
    and st: "apply_op pv (ec_memtable e1) op ?q = Some st"
    and e': "e' = finish_request owned (collect_degree_delta_for_op op old_edge fmempty) (e1\<lparr>ec_memtable := st\<rparr>)"
    by (rule one_committed)
  note l = label_step_replayed [OF lab]
  have marker: "\<not> is_marker op" by (rule l(2))
  from wal obtain w' n where "append crc tv (mode_writer (ec_wal e)) op ?q = Inr (w', n)" "w_content (mode_writer wal) = w_content w'"
    by (rule wal_append_ok)
  with append_batch_units(1) [OF append_as_batch, of crc tv _ op ?q w' n] op(3) marker l(4)
  have content: "engine_log e' = engine_log e @ log_bytes tv crc [Single ?q op]"
    by (simp add: engine_log_def e' request_ok_def)
  have "\<exists>rs'. caught_up rs' e' \<and> (\<forall>rest. replay_loop pv dc (ec_generation e) (ec_epochs e) (ec_segments e)
      (concat (map unit_records [Single ?q op]) @ rest) None rs =
      replay_loop pv dc (ec_generation e) (ec_epochs e) (ec_segments e) rest None rs')" if rs: "caught_up rs e" for rs
  proof -
    from single_caught_up [OF rs old lab st op(1,2)] obtain rs' where
      "replay_single pv dc (ec_generation e) (ec_epochs e) (ec_segments e) ?q (clear_seq op) rs = Some (Inr rs')"
      "caught_up rs' (e1\<lparr>ec_memtable := st\<rparr>)" .
    with marker show ?thesis
      by (intro exI [of _ rs']) (simp add: unit_records_def clear_entry_def replay_loop_single marker_clear e' del: replay_loop.simps)
  qed
  moreover have "same_base e e'" using l(3) by (simp add: e') (simp add: same_base_def)
  ultimately show ?thesis using content marker op(3) by (simp add: logs_units_def catches_up_def)
qed

lemma batch_logged:
  assumes commit: "append_and_apply_normalized pv crc tv owned io e ops = Return (Some (Inr (), e'))"
    and ops: "2 \<le> length ops" "unat (ec_engine_seq e) + length ops < 2 ^ 64" "list_all (op_normal dc) ops"
    and ok: "list_all (entry_ok tv) (sequenced (ec_engine_seq e) ops)"
  shows "logs_units pv crc tv dc e [Batch (sequenced (ec_engine_seq e) ops)] e'"
proof -
  define entries where "entries = sequenced (ec_engine_seq e) ops"
  from commit obtain states wal d e1 where capt: "capture_batch_edge_states e ops = Inr states"
    and wal: "wal_append io (\<lambda>w. append_batch crc tv w entries) (ec_wal e) = Return (Inr (), wal)"
    and app: "apply_sequenced pv entries states fmempty (e\<lparr>ec_wal := wal\<rparr>) = Some (Inr d, e1)"
    and e': "e' = finish_request owned d e1"
    unfolding entries_def by (rule batch_committed)
  from apply_sequenced_replayed [of pv "e\<lparr>ec_wal := wal\<rparr>" ops states fmempty d e1] app ops(2)
  have l: "same_base e e1" "ec_wal e1 = wal" "list_all (\<lambda>op. \<not> is_marker op) ops"
    by (simp_all add: entries_def same_base_def)
  have req: "request_ok tv entries"
    using ok sequenced_all [of "\<lambda>op. \<not> is_marker op" "ec_engine_seq e" ops] l(3) by (simp add: request_ok_def entries_def)
  have "2 \<le> length entries" using ops(1) by (simp add: entries_def)
  then have unit: "unit_of entries = [Batch entries]" by (cases entries rule: unit_of.cases) simp_all
  from wal obtain w' n where "append_batch crc tv (mode_writer (ec_wal e)) entries = Inr (w', n)"
    and "w_content (mode_writer wal) = w_content w'" by (rule wal_append_ok)
  with append_batch_units [OF _ req, of crc _ w' n] unit l(2)
  have content: "engine_log e' = engine_log e @ log_bytes tv crc [Batch entries]" and uok: "unit_ok tv (Batch entries)"
    by (auto simp: engine_log_def e')
  have "\<exists>rs'. caught_up rs' e' \<and> (\<forall>rest. replay_loop pv dc (ec_generation e) (ec_epochs e) (ec_segments e)
      (concat (map unit_records [Batch entries]) @ rest) None rs =
      replay_loop pv dc (ec_generation e) (ec_epochs e) (ec_segments e) rest None rs')" if rs: "caught_up rs e" for rs
  proof -
    from batch_caught_up [OF rs capt app entries_def ops(2,3)] obtain rs' where
      "replay_apply_committed_atomic_batch pv dc (ec_generation e) (ec_epochs e) (ec_segments e) (opened_batch entries entries) rs =
        Some (Inr rs')" "caught_up rs' e1" .
    then show ?thesis using replay_batch_unit [OF uok] by (intro exI [of _ rs']) (simp add: e')
  qed
  then show ?thesis using content uok l(1) by (simp add: logs_units_def catches_up_def e' entries_def)
qed

lemma commit_logged:
  assumes "commit_ops pv crc tv owned io e ops = Return (Some (Inr (), e'))"
    and "unat (ec_engine_seq e) + length ops < 2 ^ 64" and "list_all (op_normal dc) ops"
    and "list_all (entry_ok tv) (sequenced (ec_engine_seq e) ops)"
  shows "\<exists>us. length us \<le> 1 \<and> logs_units pv crc tv dc e us e'"
proof -
  consider "ops = []" | op where "ops = [op]" | a b r where "ops = a # b # r" by (metis list.exhaust)
  then show ?thesis
  proof cases
    case 1
    then have "logs_units pv crc tv dc e [] e'"
      using assms(1) by (auto simp: commit_ops_def logs_units_def catches_up_def log_bytes_def)
    then show ?thesis by (intro exI [of _ "[]"]) simp
  next
    case 2
    then have "logs_units pv crc tv dc e [Single (ec_engine_seq e + 1) op] e'"
      using assms by (intro one_logged) (simp_all add: commit_ops_def sequenced_Cons)
    then show ?thesis by (intro exI conjI) simp_all
  next
    case 3
    then have "logs_units pv crc tv dc e [Batch (sequenced (ec_engine_seq e) ops)] e'"
      using assms by (intro batch_logged) (simp_all add: commit_ops_def)
    then show ?thesis by (intro exI conjI) simp_all
  qed
qed

lemma logged_then_rejected:
  assumes "logged_then (wal_append io f (ec_wal e)) e cont = Return (Some (Inl err, e'))" and "engine_log e' = engine_log e"
    and grows: "\<And>w w' n. f w = Inr (w', n) \<Longrightarrow> length (w_content w) < length (w_content w')"
    and keeps: "\<And>e1. cont e1 = Some (Inl err, e') \<Longrightarrow> ec_wal e' = ec_wal e1"
  shows "e' = e"
proof (cases "wal_append io f (ec_wal e)")
  case (Return p)
  obtain r wal where p: "p = (r, wal)" by (cases p)
  show ?thesis
  proof (cases r)
    case (Inl err')
    then have e': "e' = e\<lparr>ec_wal := wal\<rparr>" using assms(1) by (simp add: logged_then_def Return p)
    have "wal = ec_wal e"
      using wal_append_failed [of io f "ec_wal e" err' wal] grows Return p Inl assms(2) by (simp add: e' engine_log_def)
    then show ?thesis by (simp add: e')
  next
    case (Inr u)
    then have ok: "wal_append io f (ec_wal e) = Return (Inr (), wal)" by (simp add: Return p)
    then obtain w' n where w: "f (mode_writer (ec_wal e)) = Inr (w', n)" "w_content (mode_writer wal) = w_content w'"
      by (rule wal_append_ok)
    have "cont (e\<lparr>ec_wal := wal\<rparr>) = Some (Inl err, e')" using assms(1) by (simp add: logged_then_def ok)
    from keeps [OF this] grows [OF w(1)] w(2) assms(2) show ?thesis by (simp add: engine_log_def)
  qed
qed (use assms(1) in \<open>simp add: logged_then_def\<close>)

lemma commit_rejected:
  assumes "commit_ops pv crc tv owned io e ops = Return (Some (Inl err, e'))" and "engine_log e' = engine_log e"
  shows "e' = e"
proof -
  consider "ops = []" | op where "ops = [op]" | a b r where "ops = a # b # r" by (metis list.exhaust)
  then show ?thesis
  proof cases
    case 2
    with assms(1) have *: "append_and_apply_one_normalized pv crc tv owned io e op = Return (Some (Inl err, e'))"
      by (simp add: commit_ops_def)
    show ?thesis
      using * assms(2) append_grows unfolding append_and_apply_one_normalized_def Let_def
      by (auto elim!: logged_then_rejected split: sum.splits)
  next
    case 3
    with assms(1) have *: "append_and_apply_normalized pv crc tv owned io e ops = Return (Some (Inl err, e'))"
      by (simp add: commit_ops_def)
    have grows: "append_batch crc tv w (sequenced (ec_engine_seq e) ops) = Inr (w', n) \<Longrightarrow> length (w_content w) < length (w_content w')"
      for w w' n unfolding 3 sequenced_Cons by (rule append_batch_grows)
    show ?thesis
      using * assms(2) grows apply_sequenced_wal unfolding append_and_apply_normalized_def Let_def
      by (auto elim!: logged_then_rejected split: sum.splits)
  qed (use assms in \<open>simp add: commit_ops_def\<close>)
qed

text \<open>
  In immediate mode the append can succeed and the synchronisation fail: the request is answered
  with an error, nothing is applied and the sequence counter stays, but the record is in the log,
  with the number the next request will use again.
\<close>

lemma failed_sync_keeps_record:
  assumes "ec_wal e = Immediate w" and "append crc tv w op (ec_engine_seq e + 1) = Inr (w', n)"
    and "edge_id_for_degree_op op = None"
  shows "append_and_apply_one_normalized pv crc tv owned (Inl err) e op = Return (Some (Inl err, e\<lparr>ec_wal := Immediate w'\<rparr>))"
  using assms
  by (simp add: append_and_apply_one_normalized_def wal_append_def logged_then_def writer_sync_def)

text \<open>
  In general: where a request succeeds when its synchronisation does, and fails when that fails, the
  two engines hold the same log, and the failed one has changed nothing else.
\<close>

lemma writer_sync_ok: "writer_sync (Inr ()) w = Inr (wal_sync w)"
  by (simp add: writer_sync_def)

lemma logged_then_unsynced:
  assumes "logged_then (wal_append (Inl x) f (ec_wal e)) e cont = Return (Some (Inl err, e'))"
    and "logged_then (wal_append (Inr ()) f (ec_wal e)) e cont = Return (Some (Inr (), e''))"
    and keeps: "\<And>e1. cont e1 = Some (Inr (), e'') \<Longrightarrow> ec_wal e'' = ec_wal e1"
  shows "engine_log e'' = engine_log e' \<and> e' = e\<lparr>ec_wal := ec_wal e'\<rparr>"
proof (cases "ec_wal e")
  case (Immediate w)
  then obtain w' n where "f w = Inr (w', n)"
    using assms(2) by (cases "f w") (auto simp: wal_append_def logged_then_def)
  then have "e' = e\<lparr>ec_wal := Immediate w'\<rparr>" and "cont (e\<lparr>ec_wal := Immediate (wal_sync w')\<rparr>) = Some (Inr (), e'')"
    using assms(1,2) Immediate by (auto simp: wal_append_def logged_then_def writer_sync_def)
  with keeps show ?thesis by (simp add: engine_log_def wal_sync_def)
next
  case (GroupCommit soft hard s)
  then show ?thesis using assms(1,2) by (simp add: wal_append_def)
qed

lemma commit_unsynced:
  assumes "commit_ops pv crc tv owned (Inl x) e ops = Return (Some (Inl err, e'))"
    and "commit_ops pv crc tv owned (Inr ()) e ops = Return (Some (Inr (), e''))"
  shows "engine_log e'' = engine_log e' \<and> e' = e\<lparr>ec_wal := ec_wal e'\<rparr>"
proof -
  consider "ops = []" | op where "ops = [op]" | a b r where "ops = a # b # r" by (metis list.exhaust)
  then show ?thesis
  proof cases
    case 2
    with assms have "append_and_apply_one_normalized pv crc tv owned (Inl x) e op = Return (Some (Inl err, e'))"
      and "append_and_apply_one_normalized pv crc tv owned (Inr ()) e op = Return (Some (Inr (), e''))"
      by (simp_all add: commit_ops_def)
    then show ?thesis
      unfolding append_and_apply_one_normalized_def Let_def
      by (auto elim!: logged_then_unsynced simp: finish_request_def update_engine_seq_seen_def dest!: label_step_replayed(4) split: sum.splits)
  next
    case 3
    with assms have "append_and_apply_normalized pv crc tv owned (Inl x) e ops = Return (Some (Inl err, e'))"
      and "append_and_apply_normalized pv crc tv owned (Inr ()) e ops = Return (Some (Inr (), e''))"
      by (simp_all add: commit_ops_def)
    then show ?thesis
      unfolding append_and_apply_normalized_def Let_def
      by (auto elim!: logged_then_unsynced simp: finish_request_def update_engine_seq_seen_def dest!: apply_sequenced_wal split: sum.splits)
  qed (use assms in \<open>simp add: commit_ops_def\<close>)
qed

lemma failed_sync_content:
  assumes "append crc tv w op (seq + 1) = Inr (w', n)"
  shows "length (engine_log (e\<lparr>ec_wal := Immediate w\<rparr>)) < length (engine_log (e\<lparr>ec_wal := Immediate w'\<rparr>))"
  using append_grows [OF assms] by (simp add: engine_log_def)

section \<open>Runs of the engine and crashes\<close>

text \<open>
  What the engine does on one log generation: it answers requests or puts their writer to sleep,
  and in group commit the sync thread makes rounds and callers force synchronisations. An accepted
  request is normalised, its sequence numbers do not overflow and each of its records is within the
  reader's limit. A rejected request is one that was refused before anything was logged. Two kinds
  of failed request are not steps of a run, since they leave their record in the log: one whose
  synchronisation fails in immediate mode, which ends a history below, and one whose label check
  fails after it was logged.
\<close>

inductive engine_step ::
    "(prop_value \<Rightarrow> bytes) \<Rightarrow> (bytes \<Rightarrow> u32) \<Rightarrow> to_vec \<Rightarrow> (nat \<Rightarrow> nat \<Rightarrow> bool) \<Rightarrow> dense_vector_config option
       \<Rightarrow> engine_core \<Rightarrow> engine_core \<Rightarrow> bool" for pv crc tv owned dc where
  accepted: "r_map (normalize_wal_op_for_write dc) request = Inr ops \<Longrightarrow>
    commit_ops pv crc tv owned io e ops = Return (Some (Inr (), e')) \<Longrightarrow>
    unat (ec_engine_seq e) + length ops < 2 ^ 64 \<Longrightarrow> list_all (entry_ok tv) (sequenced (ec_engine_seq e) ops) \<Longrightarrow>
    engine_step pv crc tv owned dc e e'"
| rejected: "commit_ops pv crc tv owned io e ops = Return (Some (Inl err, e')) \<Longrightarrow> engine_log e' = engine_log e \<Longrightarrow>
    engine_step pv crc tv owned dc e e'"
| blocked: "commit_ops pv crc tv owned io e ops = Wait e' \<Longrightarrow> engine_step pv crc tv owned dc e e'"
| sync_round: "ec_wal e = GroupCommit soft hard s \<Longrightarrow> sync_tick io s = (s', stop) \<Longrightarrow>
    engine_step pv crc tv owned dc e (e\<lparr>ec_wal := GroupCommit soft hard s'\<rparr>)"
| forced_sync: "ec_wal e = GroupCommit soft hard s \<Longrightarrow> sync_group io s = (r, s') \<Longrightarrow>
    engine_step pv crc tv owned dc e (e\<lparr>ec_wal := GroupCommit soft hard s'\<rparr>)"

text \<open>The states of a run, oldest first, from a fresh generation.\<close>

inductive engine_run ::
    "(prop_value \<Rightarrow> bytes) \<Rightarrow> (bytes \<Rightarrow> u32) \<Rightarrow> to_vec \<Rightarrow> (nat \<Rightarrow> nat \<Rightarrow> bool) \<Rightarrow> dense_vector_config option
       \<Rightarrow> engine_core list \<Rightarrow> bool" for pv crc tv owned dc where
  run_start: "engine_log e = wal_header \<Longrightarrow> ec_memtable e = memtable_new \<Longrightarrow> engine_run pv crc tv owned dc [e]"
| run_step: "engine_run pv crc tv owned dc es \<Longrightarrow> engine_step pv crc tv owned dc (last es) e \<Longrightarrow>
    engine_run pv crc tv owned dc (es @ [e])"

text \<open>
  What a crash can meet: the engine it stops, and the states that recovery may restore. Either a run
  was in progress, or its last request was appended but not synchronised: the engine answered it
  with an error and stands where it stood, with the record in its log; the state which the
  request would have made is then one more candidate. After such a failure the run is over, since the
  next request would be logged under the same sequence number. A request refused by the label check
  after it was logged is not a step either: the log keeps a record that the engine did not apply.
\<close>

inductive engine_history ::
    "(prop_value \<Rightarrow> bytes) \<Rightarrow> (bytes \<Rightarrow> u32) \<Rightarrow> to_vec \<Rightarrow> (nat \<Rightarrow> nat \<Rightarrow> bool) \<Rightarrow> dense_vector_config option
       \<Rightarrow> engine_core \<Rightarrow> engine_core list \<Rightarrow> bool" for pv crc tv owned dc where
  running: "engine_run pv crc tv owned dc es \<Longrightarrow> engine_history pv crc tv owned dc (last es) es"
| sync_failed: "engine_run pv crc tv owned dc es \<Longrightarrow> r_map (normalize_wal_op_for_write dc) request = Inr ops \<Longrightarrow>
    commit_ops pv crc tv owned (Inl x) (last es) ops = Return (Some (Inl err, e')) \<Longrightarrow>
    commit_ops pv crc tv owned (Inr ()) (last es) ops = Return (Some (Inr (), e'')) \<Longrightarrow>
    unat (ec_engine_seq (last es)) + length ops < 2 ^ 64 \<Longrightarrow>
    list_all (entry_ok tv) (sequenced (ec_engine_seq (last es)) ops) \<Longrightarrow>
    engine_history pv crc tv owned dc e' (es @ [e''])"

lemma history_run:
  assumes "engine_history pv crc tv owned dc e states"
  shows "engine_run pv crc tv owned dc states \<and> engine_log e = engine_log (last states)"
  using assms
proof cases
  case (sync_failed es request ops x err e'')
  from sync_failed(3,5,6,7) have "engine_step pv crc tv owned dc (last es) e''" by (rule engine_step.accepted)
  then have "engine_run pv crc tv owned dc states" unfolding sync_failed(1) by (rule engine_run.run_step [OF sync_failed(2)])
  then show ?thesis using commit_unsynced [OF sync_failed(4,5)] sync_failed(1) by simp
qed simp

lemma r_map_normal: "r_map (normalize_wal_op_for_write dc) request = Inr ops \<Longrightarrow> list_all (op_normal dc) ops"
  by (induction request arbitrary: ops) (auto simp: r_bind_eq_Inr normalize_result)

lemma logs_nothing:
  assumes "engine_log e' = engine_log e" and "same_base e e'" and "\<And>rs. caught_up rs e \<Longrightarrow> caught_up rs e'"
  shows "logs_units pv crc tv dc e [] e'"
  using assms by (auto simp: logs_units_def catches_up_def log_bytes_def)

lemma force_content: "w_content (ws_writer (snd (sync_group io s))) = w_content (ws_writer s)"
  by (auto simp: sync_group_def notify_all_def dest!: writer_sync_content split: option.splits sum.splits)

lemma commit_waits:
  assumes "commit_ops pv crc tv owned io e ops = Wait e'"
  shows "engine_log e' = engine_log e" and "same_base e e'" and "caught_up rs e' = caught_up rs e"
    and "ec_memtable e' = ec_memtable e" and "ec_overlay e' = ec_overlay e" and "ec_engine_seq e' = ec_engine_seq e"
  using assms
  by (auto simp: commit_ops_def append_and_apply_one_normalized_def append_and_apply_normalized_def Let_def logged_then_def
      wal_append_def wait_parks cvar_wait_def engine_log_def same_base_def caught_up_def
      split: list.splits sum.splits attempt.splits prod.splits wal_mode.splits)

lemma step_logged:
  assumes "engine_step pv crc tv owned dc e e'"
  shows "\<exists>us. length us \<le> 1 \<and> logs_units pv crc tv dc e us e'"
  using assms
proof cases
  case (accepted request ops io)
  then show ?thesis by (intro commit_logged r_map_normal) simp_all
next
  case (rejected io ops err)
  then have "e' = e" by (rule commit_rejected)
  then show ?thesis by (intro exI [of _ "[]"]) (simp add: logs_nothing)
next
  case (blocked io ops)
  then show ?thesis by (intro exI [of _ "[]"]) (auto simp: commit_waits logs_nothing)
next
  case (sync_round soft hard s io s' stop)
  with tick_content [of io s] have "logs_units pv crc tv dc e [] e'"
    by (intro logs_nothing) (simp_all add: engine_log_def same_base_def caught_up_def)
  then show ?thesis by (intro exI [of _ "[]"]) simp
next
  case (forced_sync soft hard s io r s')
  with force_content [of io s] have "logs_units pv crc tv dc e [] e'"
    by (intro logs_nothing) (simp_all add: engine_log_def same_base_def caught_up_def)
  then show ?thesis by (intro exI [of _ "[]"]) simp
qed

lemma catches_up_trans:
  assumes "catches_up pv dc a us b" and "catches_up pv dc b vs c"
  shows "catches_up pv dc a (us @ vs) c"
  unfolding catches_up_def
proof (intro conjI allI impI)
  show base: "same_base a c" using assms same_base_trans by (auto simp: catches_up_def)
  fix rs assume "caught_up rs a"
  with assms(1) obtain rs1 where 1: "caught_up rs1 b"
    "\<And>rest. replay_loop pv dc (ec_generation a) (ec_epochs a) (ec_segments a) (concat (map unit_records us) @ rest) None rs =
      replay_loop pv dc (ec_generation a) (ec_epochs a) (ec_segments a) rest None rs1"
    unfolding catches_up_def by blast
  from assms(2) 1(1) obtain rs2 where 2: "caught_up rs2 c"
    "\<And>rest. replay_loop pv dc (ec_generation b) (ec_epochs b) (ec_segments b) (concat (map unit_records vs) @ rest) None rs1 =
      replay_loop pv dc (ec_generation b) (ec_epochs b) (ec_segments b) rest None rs2"
    unfolding catches_up_def by blast
  have "same_base a b" using assms(1) by (simp add: catches_up_def)
  with 1 2 show "\<exists>rs'. caught_up rs' c \<and> (\<forall>rest. replay_loop pv dc (ec_generation a) (ec_epochs a) (ec_segments a)
      (concat (map unit_records (us @ vs)) @ rest) None rs =
      replay_loop pv dc (ec_generation a) (ec_epochs a) (ec_segments a) rest None rs')"
    by (intro exI [of _ rs2]) (simp add: same_base_def)
qed

text \<open>
  A machine that appends at most one unit to a log at each step, such that a replay of the unit
  follows the step. Along a run every state stands at a boundary between units, and every
  boundary has a state that the replay of the units before it reaches.
\<close>

definition boundaries ::
    "'b list \<Rightarrow> ('s \<Rightarrow> 'b list) \<Rightarrow> ('u list \<Rightarrow> 'b list) \<Rightarrow> ('s \<Rightarrow> 'u list \<Rightarrow> 's \<Rightarrow> bool) \<Rightarrow> ('u \<Rightarrow> bool) \<Rightarrow> 's list \<Rightarrow> 'u list \<Rightarrow> bool" where
  "boundaries header journal render carries good es us \<longleftrightarrow> list_all good us \<and>
     journal (last es) = header @ render us \<and> carries (hd es) us (last es) \<and>
     (\<forall>j \<le> length us. \<exists>e \<in> set es. journal e = header @ render (take j us) \<and> carries (hd es) (take j us) e) \<and>
     (\<forall>e \<in> set es. \<exists>j \<le> length us. journal e = header @ render (take j us))"

locale unit_journal =
  fixes step :: "'s \<Rightarrow> 's \<Rightarrow> bool" and journal :: "'s \<Rightarrow> 'b list" and render :: "'u list \<Rightarrow> 'b list"
    and carries :: "'s \<Rightarrow> 'u list \<Rightarrow> 's \<Rightarrow> bool" and good :: "'u \<Rightarrow> bool"
  assumes render_append: "render (us @ vs) = render us @ render vs"
    and carries_refl: "carries e [] e"
    and carries_trans: "carries a us b \<Longrightarrow> carries b vs c \<Longrightarrow> carries a (us @ vs) c"
    and step_logs: "step e e' \<Longrightarrow> \<exists>us. length us \<le> 1 \<and> journal e' = journal e @ render us \<and> list_all good us \<and> carries e us e'"
begin

lemma render_Nil: "render [] = []"
  using render_append [of "[]" "[]"] by simp

lemma start: "journal e = header \<Longrightarrow> boundaries header journal render carries good [e] []"
  by (simp add: boundaries_def carries_refl render_Nil)

lemma advance:
  assumes b: "boundaries header journal render carries good es us" and "es \<noteq> []" and "step (last es) e'"
  shows "\<exists>us. boundaries header journal render carries good (es @ [e']) us"
proof -
  from step_logs [OF assms(3)] obtain vs where vs: "length vs \<le> 1" "journal e' = journal (last es) @ render vs" "list_all good vs"
    "carries (last es) vs e'" by blast
  have journal: "journal e' = header @ render (us @ vs)" and up: "carries (hd es) (us @ vs) e'"
    using b vs carries_trans by (auto simp: boundaries_def render_append)
  have at_j: "\<exists>e \<in> set (es @ [e']). journal e = header @ render (take j (us @ vs)) \<and> carries (hd es) (take j (us @ vs)) e"
    if "j \<le> length (us @ vs)" for j
  proof (cases "j \<le> length us")
    case True
    then show ?thesis using b by (fastforce simp: boundaries_def)
  next
    case False
    with that vs(1) have "j = length (us @ vs)" by simp
    then show ?thesis using journal up by simp
  qed
  have at_e: "\<exists>j \<le> length (us @ vs). journal e = header @ render (take j (us @ vs))" if e: "e \<in> set (es @ [e'])" for e
  proof (cases "e = e'")
    case True
    then show ?thesis using journal by (intro exI [of _ "length (us @ vs)"]) simp
  next
    case False
    with e b obtain j where "j \<le> length us" "journal e = header @ render (take j us)" by (auto simp: boundaries_def)
    then show ?thesis by (intro exI [of _ j]) simp
  qed
  have "list_all good (us @ vs)" using b vs(3) by (simp add: boundaries_def)
  then have "boundaries header journal render carries good (es @ [e']) (us @ vs)"
    using assms(2) journal up at_j at_e by (simp add: boundaries_def)
  then show ?thesis by blast
qed

lemma take_mono:
  assumes "i \<le> j"
  shows "length (render (take i us)) \<le> length (render (take j us))"
proof -
  have "take j us = take i us @ take (j - i) (drop i us)" using assms by (metis le_add_diff_inverse take_add)
  then show ?thesis by (simp add: render_append)
qed

end

lemma catches_up_refl: "catches_up pv dc e [] e"
  by (auto simp: catches_up_def)

interpretation engine_journal: unit_journal "engine_step pv crc tv owned dc" engine_log "log_bytes tv crc" "catches_up pv dc" "unit_ok tv"
  for pv crc tv owned dc
proof
  show "\<exists>us. length us \<le> 1 \<and> engine_log e' = engine_log e @ log_bytes tv crc us \<and> list_all (unit_ok tv) us \<and> catches_up pv dc e us e'"
    if "engine_step pv crc tv owned dc e e'" for e e'
    using step_logged [OF that] by (auto simp: logs_units_def)
qed (rule log_bytes_append, rule catches_up_refl, rule catches_up_trans)

abbreviation run_units ::
    "(prop_value \<Rightarrow> bytes) \<Rightarrow> (bytes \<Rightarrow> u32) \<Rightarrow> to_vec \<Rightarrow> dense_vector_config option \<Rightarrow> engine_core list \<Rightarrow> wal_unit list \<Rightarrow> bool" where
  "run_units pv crc tv dc \<equiv> boundaries wal_header engine_log (log_bytes tv crc) (catches_up pv dc) (unit_ok tv)"

lemma run_logged:
  assumes "engine_run pv crc tv owned dc es"
  shows "es \<noteq> [] \<and> ec_memtable (hd es) = memtable_new \<and> (\<exists>us. run_units pv crc tv dc es us)"
  using assms
proof (induction rule: engine_run.induct)
  case (run_start e)
  then show ?case by (intro conjI exI [of _ "[]"] engine_journal.start) simp_all
next
  case (run_step es e)
  then obtain us where us: "run_units pv crc tv dc es us" and es: "es \<noteq> []" "ec_memtable (hd es) = memtable_new" by blast
  from engine_journal.advance [OF us es(1) run_step(2)] es show ?case by simp
qed

text \<open>Replaying a log cut inside a unit.\<close>

lemma replay_cut:
  assumes "catches_up pv dc e0 (take j us) e" and "list_all (unit_ok tv) us" and "caught_up rs e0"
    and "j < length us \<Longrightarrow> m < length (unit_records (us ! j))"
  shows "\<exists>rs'. caught_up rs' e \<and> replay_loop pv dc (ec_generation e0) (ec_epochs e0) (ec_segments e0)
    (concat (map unit_records (take j us)) @ (if j < length us then take m (unit_records (us ! j)) else [])) None rs = Some (Inr rs')"
proof -
  from assms(1,3) obtain rs' where up: "caught_up rs' e"
    and loop: "\<And>rest. replay_loop pv dc (ec_generation e0) (ec_epochs e0) (ec_segments e0)
      (concat (map unit_records (take j us)) @ rest) None rs =
      replay_loop pv dc (ec_generation e0) (ec_epochs e0) (ec_segments e0) rest None rs'"
    unfolding catches_up_def by blast
  show ?thesis
  proof (cases "j < length us")
    case True
    with assms(2) have "unit_ok tv (us ! j)" by (simp add: list_all_length)
    from replay_partial_unit [OF this] assms(4) True up loop show ?thesis by auto
  qed (use up loop [of "[]"] in auto)
qed

text \<open>
  C1. Crash recovery of the database. Run the engine on a fresh log generation through any sequence of
  accepted requests, requests refused before they were logged, and in group commit rounds of the
  sync thread, forced synchronisations and writers put to sleep; in immediate mode the last
  request may fail in its synchronisation, after its record was appended. Let a crash leave any
  prefix of the log that keeps its header. Replaying what is left succeeds and gives exactly the
  memtable, the label catalog and the sequence counter of one of the states of the run: the latest
  whose log lies within the prefix. An atomic batch is there as a whole or not at all. A request
  that failed in its synchronisation counts as the last state of the run: it is restored, although
  it was reported as failed, if the crash leaves its whole record. Outside the claim are requests
  after such a failure, and requests refused by the label check after their records were logged.
\<close>

theorem crash_recovery_restores_engine:
  assumes "rmp_lossless tv fs" and "engine_history pv crc tv owned dc crashed es"
    and "WAL_HEADER_SIZE \<le> k" and "k \<le> length (engine_log crashed)"
  shows "\<exists>e overlay. e \<in> set es \<and> length (engine_log e) \<le> k \<and>
    (\<forall>e' \<in> set es. length (engine_log e') \<le> k \<longrightarrow> length (engine_log e') \<le> length (engine_log e)) \<and>
    replay_wal_generation_to_memtable_and_overlay pv fs crc owned' (Some (take k (engine_log crashed)))
      (ec_generation (hd es)) dc (ec_catalog (hd es)) (ec_engine_seq (hd es)) (ec_epochs (hd es)) (ec_segments (hd es)) =
      Some (Inr (ec_memtable e, overlay, length (engine_log e), ec_catalog e, ec_engine_seq e))"
proof -
  from history_run [OF assms(2)] have run: "engine_run pv crc tv owned dc es" and same_log: "engine_log crashed = engine_log (last es)"
    by simp_all
  from run_logged [OF run] obtain us where us: "run_units pv crc tv dc es us" and new: "ec_memtable (hd es) = memtable_new"
    by blast
  have ok: "list_all (unit_ok tv) us" and log: "engine_log crashed = wal_header @ log_bytes tv crc us"
    using us by (simp_all add: boundaries_def same_log)
  from log_recovered [OF assms(1) ok assms(3) assms(4) [unfolded log]] obtain j m where j: "j \<le> length us"
    and rd: "read_path fs crc (Some (take k (wal_header @ log_bytes tv crc us))) =
      Inr \<lparr>records = concat (map unit_records (take j us)) @ (if j < length us then take m (unit_records (us ! j)) else []),
           durable_len = WAL_HEADER_SIZE + length (log_bytes tv crc (take j us))\<rparr>"
    and le: "WAL_HEADER_SIZE + length (log_bytes tv crc (take j us)) \<le> k"
    and torn: "j < length us \<Longrightarrow> m < length (unit_records (us ! j)) \<and>
      k < WAL_HEADER_SIZE + length (log_bytes tv crc (take (Suc j) us))" by blast
  from us j obtain e where e: "e \<in> set es" "engine_log e = wal_header @ log_bytes tv crc (take j us)"
    "catches_up pv dc (hd es) (take j us) e" unfolding boundaries_def by blast
  have latest: "length (engine_log e') \<le> length (engine_log e)" if e': "e' \<in> set es" "length (engine_log e') \<le> k" for e'
  proof -
    from us e'(1) obtain i where i: "i \<le> length us" "engine_log e' = wal_header @ log_bytes tv crc (take i us)"
      unfolding boundaries_def by blast
    have "i \<le> j"
    proof (rule ccontr)
      assume "\<not> i \<le> j"
      with i(1) torn engine_journal.take_mono [of "Suc j" i tv crc us] e'(2) i(2) show False by simp
    qed
    then show ?thesis using i(2) e(2) engine_journal.take_mono by simp
  qed
  define rs where "rs = \<lparr>rs_memtable = memtable_new, rs_deltas = fmempty, rs_catalog = ec_catalog (hd es), rs_engine_seq = ec_engine_seq (hd es)\<rparr>"
  have "caught_up rs (hd es)" using new by (simp add: caught_up_def rs_def)
  from replay_cut [OF e(3) ok this, of m] torn obtain rs' where up: "caught_up rs' e"
    and loop: "replay_loop pv dc (ec_generation (hd es)) (ec_epochs (hd es)) (ec_segments (hd es))
      (concat (map unit_records (take j us)) @ (if j < length us then take m (unit_records (us ! j)) else [])) None rs = Some (Inr rs')"
    by blast
  show ?thesis
    using e(1,2) le latest rd loop up log
    by (intro exI [of _ e] exI [of _ "overlay_from_flat owned' (rs_deltas rs')"])
      (simp add: replay_wal_generation_to_memtable_and_overlay_def caught_up_def rs_def)
qed

text \<open>An engine that deletes a node and an edge in one request, with every write synchronised.\<close>

definition example_engine :: engine_core where
  "example_engine = \<lparr>ec_memtable = memtable_new,
     ec_catalog = \<lparr>node_space = \<lparr>label_to_id = fmempty, id_to_label = fmempty, label_wal_generation = fmempty, next_label_id = 1\<rparr>,
       edge_space = \<lparr>label_to_id = fmempty, id_to_label = fmempty, label_wal_generation = fmempty, next_label_id = 1\<rparr>\<rparr>,
     ec_manifest = no_labels, ec_engine_seq = 0, ec_engine_seq_seen = 0, ec_wal = Immediate fresh_writer, ec_generation = 0,
     ec_overlay = overlay_empty, ec_epochs = [], ec_segments = []\<rparr>"

definition example_ops :: "wal_op list" where
  "example_ops = [DeleteNode 5 0, DeleteEdge 7 0]"

lemma example_sequenced: "sequenced (ec_engine_seq example_engine) example_ops = example_request"
  by (simp add: example_ops_def example_engine_def example_request_def sequenced_Cons)

lemma example_commit:
  "\<exists>e. commit_ops (\<lambda>_. []) (\<lambda>_. 0) empty_map_to_vec (\<lambda>_ _. False) (Inr ()) example_engine example_ops = Return (Some (Inr (), e))"
proof -
  have "append_batch (\<lambda>_. 0) empty_map_to_vec fresh_writer example_request =
      Inr (example_writer, length (log_bytes empty_map_to_vec (\<lambda>_. 0) (units_of [example_request])))"
    by (simp add: append_batch_def encode_example_batch example_writer_def fresh_writer_def)
  then have wal: "wal_append (Inr ()) (\<lambda>w. append_batch (\<lambda>_. 0) empty_map_to_vec w example_request) (ec_wal example_engine) =
      Return (Inr (), Immediate (wal_sync example_writer))"
    by (simp add: wal_append_def example_engine_def writer_sync_def)
  have "get_edge_core_at memtable_new 7 U64_MAX = None" and "\<not> is_edge_deleted_at memtable_new 7 U64_MAX"
    by (simp_all add: get_edge_core_at_def edge_at_def is_edge_deleted_at_def edge_deleted_at_def memtable_new_def)
  then have cap: "capture_batch_edge_states example_engine example_ops = Inr (fmupd 7 None fmempty)"
    by (simp add: capture_batch_edge_states_def example_ops_def capture_edge_state_def get_edge_core_for_cache_def
        get_edge_core_from_sources_def memtable_edge_core_def example_engine_def)
  define st where "st = the (apply_op (\<lambda>_. []) memtable_new (DeleteNode 5 0) 1)"
  have st: "apply_op (\<lambda>_. []) memtable_new (DeleteNode 5 0) 1 = Some st" and edge: "current_edge st 7 = None"
    by (simp_all add: st_def apply_delete_node_def current_node_def current_edge_def memtable_new_def set_node_tombstone_slot_def
        set_node_state_def Let_def account_def)
  obtain st' where st': "apply_op (\<lambda>_. []) st (DeleteEdge 7 0) 2 = Some st'"
    using edge by (simp add: apply_delete_edge_def)
  obtain d e where "apply_sequenced (\<lambda>_. []) example_request (fmupd 7 None fmempty) fmempty
      (example_engine\<lparr>ec_wal := Immediate (wal_sync example_writer)\<rparr>) = Some (Inr d, e)"
    using st st' by (simp add: example_request_def example_engine_def apply_label_token_op_after_wal_append_def)
  with cap wal have "append_and_apply_normalized (\<lambda>_. []) (\<lambda>_. 0) empty_map_to_vec (\<lambda>_ _. False) (Inr ()) example_engine example_ops =
      Return (Some (Inr (), finish_request (\<lambda>_ _. False) d e))"
    by (simp add: append_and_apply_normalized_def Let_def example_sequenced logged_then_def)
  then show ?thesis by (simp add: commit_ops_def example_ops_def)
qed

theorem crash_recovery_restores_engine_witness:
  "\<exists>e. commit_ops (\<lambda>_. []) (\<lambda>_. 0) empty_map_to_vec (\<lambda>_ _. False) (Inr ()) example_engine example_ops = Return (Some (Inr (), e)) \<and>
    (\<exists>overlay. replay_wal_generation_to_memtable_and_overlay (\<lambda>_. []) empty_map_from_slice (\<lambda>_. 0) (\<lambda>_ _. True)
      (Some (engine_log e)) 0 None (ec_catalog example_engine) 0 [] [] =
      Some (Inr (ec_memtable e, overlay, length (engine_log e), ec_catalog e, ec_engine_seq e)))"
proof -
  obtain e where commit: "commit_ops (\<lambda>_. []) (\<lambda>_. 0) empty_map_to_vec (\<lambda>_ _. False) (Inr ()) example_engine example_ops = Return (Some (Inr (), e))"
    using example_commit by blast
  have start: "engine_run (\<lambda>_. []) (\<lambda>_. 0) empty_map_to_vec (\<lambda>_ _. False) None [example_engine]"
    by (rule engine_run.run_start) (simp_all add: example_engine_def engine_log_def fresh_writer_def)
  have "r_map (normalize_wal_op_for_write None) example_ops = Inr example_ops"
    by (simp add: example_ops_def normalize_wal_op_for_write_def)
  then have step: "engine_step (\<lambda>_. []) (\<lambda>_. 0) empty_map_to_vec (\<lambda>_ _. False) None example_engine e"
    using commit
  proof (rule engine_step.accepted)
    show "unat (ec_engine_seq example_engine) + length example_ops < 2 ^ 64" by (simp add: example_engine_def example_ops_def)
    show "list_all (entry_ok empty_map_to_vec) (sequenced (ec_engine_seq example_engine) example_ops)"
      using example_request_ok by (simp add: example_sequenced request_ok_def)
  qed
  have run: "engine_run (\<lambda>_. []) (\<lambda>_. 0) empty_map_to_vec (\<lambda>_ _. False) None [example_engine, e]"
    using engine_run.run_step [OF start] step by simp
  have "append_and_apply_normalized (\<lambda>_. []) (\<lambda>_. 0) empty_map_to_vec (\<lambda>_ _. False) (Inr ()) example_engine example_ops = Return (Some (Inr (), e))"
    using commit by (simp add: commit_ops_def example_ops_def)
  then have "logs_units (\<lambda>_. []) (\<lambda>_. 0) empty_map_to_vec None example_engine [Batch example_request] e"
    unfolding example_sequenced [symmetric]
    by (rule batch_logged) (use example_request_ok in \<open>simp_all add: example_sequenced request_ok_def,
      simp_all add: example_ops_def example_engine_def op_normal_def normalize_wal_op_for_write_def\<close>)
  then have longer: "length (engine_log example_engine) < length (engine_log e)"
    using example_unit_nonempty by (simp add: logs_units_def log_bytes_def)
  then have header: "WAL_HEADER_SIZE \<le> length (engine_log (last [example_engine, e]))"
    by (simp add: engine_log_def example_engine_def fresh_writer_def)
  from crash_recovery_restores_engine [OF empty_map_lossless engine_history.running [OF run] header order_refl, of "\<lambda>_ _. True"]
  obtain e1 overlay where e1: "e1 \<in> set [example_engine, e]"
    and latest: "\<forall>e' \<in> set [example_engine, e]. length (engine_log e') \<le> length (engine_log (last [example_engine, e])) \<longrightarrow>
      length (engine_log e') \<le> length (engine_log e1)"
    and rep: "replay_wal_generation_to_memtable_and_overlay (\<lambda>_. []) empty_map_from_slice (\<lambda>_. 0) (\<lambda>_ _. True)
      (Some (take (length (engine_log (last [example_engine, e]))) (engine_log (last [example_engine, e]))))
      (ec_generation (hd [example_engine, e])) None (ec_catalog (hd [example_engine, e])) (ec_engine_seq (hd [example_engine, e]))
      (ec_epochs (hd [example_engine, e])) (ec_segments (hd [example_engine, e])) =
      Some (Inr (ec_memtable e1, overlay, length (engine_log e1), ec_catalog e1, ec_engine_seq e1))"
    by blast
  have "ec_generation example_engine = 0" "ec_engine_seq example_engine = 0" "ec_epochs example_engine = []" "ec_segments example_engine = []"
    by (simp_all add: example_engine_def)
  moreover have "e1 = e" using e1 latest longer by auto
  ultimately show ?thesis using commit rep by auto
qed

end
