(* ===== verification/Memtable_View.thy ===== *)
theory Memtable_View
  imports Memtable
begin

text \<open>
  What a snapshot of the memtable sees: a single-version store with the same indexes, each a plain
  partial function. Every setter of the memtable changes the views from its sequence number on in
  one place and leaves the earlier ones alone, by the contract \<open>mvcc_map\<close> of its map. From this,
  \<open>apply_op\<close> refines the single-version step \<open>store_step\<close>, and the view of a log at a snapshot is
  the run of the operations up to that snapshot.
\<close>

section \<open>The single-version store\<close>

record graph_store = index_decls +
  g_nodes :: "u64 \<Rightarrow> node_record record_state option"
  g_edges :: "u64 \<Rightarrow> edge_record record_state option"
  g_node_tombstones :: "u64 \<Rightarrow> unit option"
  g_edge_tombstones :: "u64 \<Rightarrow> unit option"
  g_keys :: "u32 \<times> rstring \<Rightarrow> u64 option"
  g_triples :: "u64 \<times> u64 \<times> u32 \<Rightarrow> u64 option"
  g_adj_out :: "u64 \<times> u64 \<Rightarrow> adj_entry option"
  g_adj_in :: "u64 \<times> u64 \<Rightarrow> adj_entry option"
  g_edge_ids :: "u64 \<Rightarrow> unit option"
  g_node_labels :: "u32 \<times> u64 \<Rightarrow> unit option"
  g_ordered_edge_labels :: "u32 \<times> u64 \<Rightarrow> unit option"
  g_ordered_adj_out :: "u64 \<times> u64 \<Rightarrow> adj_entry option"
  g_ordered_adj_in :: "u64 \<times> u64 \<Rightarrow> adj_entry option"
  g_edge_labels :: "u32 \<times> u64 \<Rightarrow> unit option"
  g_times :: "u32 \<times> int \<times> u64 \<Rightarrow> unit option"
  g_eq :: "u64 \<times> u64 \<times> u64 \<Rightarrow> unit option"
  g_range :: "u64 \<times> bytes \<times> u64 \<Rightarrow> unit option"
  g_compound :: "u64 \<times> bytes \<times> u64 \<Rightarrow> unit option"

definition view :: "memtable_state \<Rightarrow> u64 \<Rightarrow> graph_store" where
  "view st s = \<lparr>
     secondary_index_declarations = secondary_index_declarations st,
     secondary_eq_by_prop = secondary_eq_by_prop st, secondary_range_by_prop = secondary_range_by_prop st,
     secondary_edge_eq_by_prop = secondary_edge_eq_by_prop st,
     secondary_edge_range_by_prop = secondary_edge_range_by_prop st,
     secondary_node_field_indexes_by_label = secondary_node_field_indexes_by_label st,
     secondary_edge_field_indexes_by_label = secondary_edge_field_indexes_by_label st,
     g_nodes = rec_at (nodes st) s, g_edges = rec_at (edges st) s,
     g_node_tombstones = opt_at (node_tombstones st) s, g_edge_tombstones = opt_at (edge_tombstones st) s,
     g_keys = nested_at (node_key_index st) s, g_triples = opt_at (edge_triple_index st) s,
     g_adj_out = nested_at (adj_out st) s, g_adj_in = nested_at (adj_in st) s,
     g_edge_ids = opt_at (ordered_edge_ids st) s, g_node_labels = opt_at (label_node_index st) s,
     g_ordered_edge_labels = opt_at (ordered_label_edge_index st) s,
     g_ordered_adj_out = nested_at (ordered_adj_out st) s, g_ordered_adj_in = nested_at (ordered_adj_in st) s,
     g_edge_labels = nested_at (label_edge_index st) s, g_times = opt_at (time_node_index st) s,
     g_eq = nested3_at (secondary_eq_state st) s, g_range = nested_at (secondary_range_state st) s,
     g_compound = nested_at (secondary_compound_state st) s\<rparr>"

definition live_node :: "graph_store \<Rightarrow> u64 \<Rightarrow> node_record option" where
  "live_node g i = Option.bind (g_nodes g i) live_value"

definition live_edge :: "graph_store \<Rightarrow> u64 \<Rightarrow> edge_record option" where
  "live_edge g i = Option.bind (g_edges g i) live_value"

abbreviation labels_of :: "node_record \<Rightarrow> u32 set" where
  "labels_of n \<equiv> set (as_slice (n_label_ids n))"

abbreviation triple_of :: "edge_record \<Rightarrow> u64 \<times> u64 \<times> u32" where
  "triple_of e \<equiv> (e_from e, e_to e, e_label_id e)"

section \<open>Views of the setters\<close>

named_theorems view_simps \<open>the view of a setter\<close>

lemma account_simps [simp]:
  "view (account d st) s = view st s" "nodes (account d st) = nodes st" "edges (account d st) = edges st"
  "live_node_count (account d st) = live_node_count st" "live_edge_count (account d st) = live_edge_count st"
  "node_tombstones (account d st) = node_tombstones st" "edge_tombstones (account d st) = edge_tombstones st"
  by (simp_all add: account_def view_def)

lemma put_nested_eq: "fmupd l (put_slot (entry_or_default m l) k w v) m = put_nested m (l, k) w v"
  by (simp add: put_nested_def)

lemma view_set_node_state [view_simps]:
  "view (set_node_state st i v w) s =
     (if w \<le> s then (view st s)\<lparr>g_nodes := (g_nodes (view st s))(i \<mapsto> v)\<rparr> else view st s)"
  by (simp add: set_node_state_def Let_def) (simp add: view_def records.at_put)

lemma view_set_edge_state [view_simps]:
  "view (set_edge_state st i v w) s =
     (if w \<le> s then (view st s)\<lparr>g_edges := (g_edges (view st s))(i \<mapsto> v)\<rparr> else view st s)"
  by (simp add: set_edge_state_def Let_def) (simp add: view_def records.at_put)

lemma view_set_node_key [view_simps]:
  "view (set_node_key st l k v w) s =
     (if w \<le> s then (view st s)\<lparr>g_keys := (g_keys (view st s))((l, k) := v)\<rparr> else view st s)"
  by (simp add: set_node_key_def Let_def put_nested_eq) (simp add: view_def nested.at_put)

lemma view_set_edge_triple [view_simps]:
  "view (set_edge_triple st a b l v w) s =
     (if w \<le> s then (view st s)\<lparr>g_triples := (g_triples (view st s))((a, b, l) := v)\<rparr> else view st s)"
  by (simp add: set_edge_triple_def Let_def) (simp add: view_def options.at_put)

lemma view_set_time_slot [view_simps]:
  "view (set_time_slot st k p w) s =
     (if w \<le> s then (view st s)\<lparr>g_times := (g_times (view st s))(k := present_value p)\<rparr> else view st s)"
  by (simp add: set_time_slot_def Let_def) (simp add: view_def options.at_put)

lemma view_set_ordered_edge_slot [view_simps]:
  "view (set_ordered_edge_slot st i p w) s =
     (if w \<le> s then (view st s)\<lparr>g_edge_ids := (g_edge_ids (view st s))(i := present_value p)\<rparr> else view st s)"
  by (simp add: set_ordered_edge_slot_def Let_def) (simp add: view_def options.at_put)

lemma view_set_node_label_slot [view_simps]:
  "view (set_node_label_slot st l i p w) s =
     (if w \<le> s then (view st s)\<lparr>g_node_labels := (g_node_labels (view st s))((l, i) := present_value p)\<rparr> else view st s)"
  by (simp add: set_node_label_slot_def set_node_label_membership_slot_def Let_def) (simp add: view_def options.at_put)

lemma view_set_ordered_edge_label_slot [view_simps]:
  "view (set_ordered_edge_label_slot st l i p w) s =
     (if w \<le> s then (view st s)\<lparr>g_ordered_edge_labels := (g_ordered_edge_labels (view st s))((l, i) := present_value p)\<rparr>
      else view st s)"
  by (simp add: set_ordered_edge_label_slot_def Let_def) (simp add: view_def options.at_put)

lemma view_set_edge_label_slot [view_simps]:
  "view (set_edge_label_slot st l i p w) s =
     (if w \<le> s then (view st s)\<lparr>g_edge_labels := (g_edge_labels (view st s))((l, i) := present_value p)\<rparr> else view st s)"
  by (simp add: set_edge_label_slot_def set_label_membership_slot_def Let_def) (simp add: view_def nested.at_put)

lemma view_set_adj_out_slot [view_simps]:
  "view (set_adj_out_slot st a i v w) s =
     (if w \<le> s then (view st s)\<lparr>g_adj_out := (g_adj_out (view st s))((a, i) := v),
        g_ordered_adj_out := (g_ordered_adj_out (view st s))((a, i) := v)\<rparr> else view st s)"
  by (simp add: set_adj_out_slot_def set_adj_slot_def set_ordered_adj_slot_def Let_def account_def)
    (simp add: view_def nested.at_put)

lemma view_set_adj_in_slot [view_simps]:
  "view (set_adj_in_slot st a i v w) s =
     (if w \<le> s then (view st s)\<lparr>g_adj_in := (g_adj_in (view st s))((a, i) := v),
        g_ordered_adj_in := (g_ordered_adj_in (view st s))((a, i) := v)\<rparr> else view st s)"
  by (simp add: set_adj_in_slot_def set_adj_slot_def set_ordered_adj_slot_def Let_def account_def)
    (simp add: view_def nested.at_put)

lemma view_set_node_tombstone_slot [view_simps]:
  "view (set_node_tombstone_slot st i p w) s =
     (if w \<le> s then (view st s)\<lparr>g_node_tombstones := (g_node_tombstones (view st s))(i := present_value p)\<rparr> else view st s)"
  by (simp add: set_node_tombstone_slot_def set_sparse_membership_slot_def Let_def) (simp add: view_def sparse.at_put)

lemma view_set_edge_tombstone_slot [view_simps]:
  "view (set_edge_tombstone_slot st i p w) s =
     (if w \<le> s then (view st s)\<lparr>g_edge_tombstones := (g_edge_tombstones (view st s))(i := present_value p)\<rparr> else view st s)"
  by (simp add: set_edge_tombstone_slot_def set_sparse_membership_slot_def Let_def) (simp add: view_def sparse.at_put)

lemma view_set_secondary_eq_slot [view_simps]:
  "view (set_secondary_eq_slot st x h i p w) s =
     (if w \<le> s then (view st s)\<lparr>g_eq := (g_eq (view st s))((x, h, i) := present_value p)\<rparr> else view st s)"
  by (simp add: set_secondary_eq_slot_def set_secondary_eq_slot_in_def Let_def) (simp add: view_def nested3.at_put)

lemma view_set_secondary_range_slot [view_simps]:
  "view (set_secondary_range_slot st x e i p w) s =
     (if w \<le> s then (view st s)\<lparr>g_range := (g_range (view st s))((x, e, i) := present_value p)\<rparr> else view st s)"
  by (simp add: set_secondary_range_slot_def set_secondary_range_slot_in_def Let_def) (simp add: view_def nested.at_put)

lemma view_set_compound_slot [view_simps]:
  "view (set_compound_slot st x e i p w) s =
     (if w \<le> s then (view st s)\<lparr>g_compound := (g_compound (view st s))((x, e, i) := present_value p)\<rparr> else view st s)"
  by (simp add: set_compound_slot_def set_compound_slot_in_def Let_def) (simp add: view_def nested.at_put)

lemma view_counts [simp]:
  "view (st\<lparr>live_node_count := n\<rparr>) s = view st s" "view (st\<lparr>live_edge_count := n\<rparr>) s = view st s"
  by (simp_all add: view_def)

section \<open>Current reads\<close>

lemma record_current_at: "record_current slot = Option.bind (slot_at slot U64_MAX) live_value"
  by (simp add: record_current_def slot_at_max split: record_state.split)

lemma node_at_view: "node_at st i s = live_node (view st s) i"
  by (simp add: node_at_def live_node_def view_def rec_at_def record_at_def)

lemma edge_at_view: "edge_at st i s = live_edge (view st s) i"
  by (simp add: edge_at_def live_edge_def view_def rec_at_def record_at_def)

lemma current_node_view: "current_node st i = live_node (view st U64_MAX) i"
  by (simp add: current_node_def live_node_def view_def rec_at_def record_current_at split: Option.bind_splits)

lemma current_edge_view: "current_edge st i = live_edge (view st U64_MAX) i"
  by (simp add: current_edge_def live_edge_def view_def rec_at_def record_current_at split: Option.bind_splits)

lemma current_edge_triple_id_view: "current_edge_triple_id st a b l = g_triples (view st U64_MAX) (a, b, l)"
  by (simp add: current_edge_triple_id_def view_def opt_at_def slot_option_current_at [abs_def])

lemma node_deleted_at_view: "node_deleted_at st i s \<longleftrightarrow> g_node_tombstones (view st s) i \<noteq> None"
  by (simp add: node_deleted_at_def view_def opt_at_def slot_option_visible_at split: option.split)

lemma edge_deleted_at_view: "edge_deleted_at st i s \<longleftrightarrow> g_edge_tombstones (view st s) i \<noteq> None"
  by (simp add: edge_deleted_at_def view_def opt_at_def slot_option_visible_at split: option.split)

lemmas read_views = node_at_view edge_at_view current_node_view current_edge_view
  current_edge_triple_id_view node_deleted_at_view edge_deleted_at_view

section \<open>The single-version step\<close>

text \<open>
  What one operation does to a single-version store, stated per index: the entries of the new
  version of a record, none of those of the version it replaces, everything else as before.
\<close>

definition g_run_actions :: "graph_store \<Rightarrow> index_actions \<Rightarrow> graph_store" where
  "g_run_actions g a = (case a of (es, rs, cs) \<Rightarrow>
     g\<lparr>g_eq := fold (\<lambda>(x, h, i, p) f. f((x, h, i) := present_value p)) es (g_eq g),
       g_range := fold (\<lambda>(x, e, i, p) f. f((x, e, i) := present_value p)) rs (g_range g),
       g_compound := fold (\<lambda>(x, e, i, p) f. f((x, e, i) := present_value p)) cs (g_compound g)\<rparr>)"

definition store_sync_node ::
    "(prop_value \<Rightarrow> bytes) \<Rightarrow> graph_store \<Rightarrow> node_record option \<Rightarrow> node_record \<Rightarrow> graph_store option" where
  "store_sync_node pv g old new =
     (if no_node_indexes g then Some g
      else map_option (g_run_actions g) (case old of
          None \<Rightarrow> node_presence_actions pv g new True
        | Some o' \<Rightarrow> node_upsert_actions pv g o' new))"

definition store_sync_edge ::
    "(prop_value \<Rightarrow> bytes) \<Rightarrow> graph_store \<Rightarrow> edge_record option \<Rightarrow> edge_record \<Rightarrow> graph_store option" where
  "store_sync_edge pv g old new =
     (if no_edge_indexes g then Some g
      else case old of
          None \<Rightarrow> map_option (g_run_actions g) (edge_presence_actions pv g new True)
        | Some o' \<Rightarrow>
            if e_label_id o' \<noteq> e_label_id new then
              Option.bind (map_option (g_run_actions g) (edge_presence_actions pv g o' False)) (\<lambda>g.
                map_option (g_run_actions g) (edge_presence_actions pv g new True))
            else map_option (g_run_actions g) (edge_update_actions pv g o' new))"

text \<open>Replace what an old record contributed by what the new one does.\<close>

definition swap_entries :: "('k \<Rightarrow> bool) \<Rightarrow> ('k \<Rightarrow> bool) \<Rightarrow> 'v option \<Rightarrow> ('k \<Rightarrow> 'v option) \<Rightarrow> 'k \<Rightarrow> 'v option" where
  "swap_entries old new v f = (\<lambda>k. if new k then v else if old k then None else f k)"

definition key_entry :: "node_record \<Rightarrow> u32 \<times> rstring \<Rightarrow> bool" where
  "key_entry n k \<longleftrightarrow> fst k \<in> labels_of n \<and> snd k = n_key n"

definition label_entry :: "node_record \<Rightarrow> u32 \<times> u64 \<Rightarrow> bool" where
  "label_entry n k \<longleftrightarrow> fst k \<in> labels_of n \<and> snd k = n_id n"

definition time_entry :: "node_record \<Rightarrow> u32 \<times> int \<times> u64 \<Rightarrow> bool" where
  "time_entry n k \<longleftrightarrow> fst k \<in> labels_of n \<and> snd k = (sint (n_updated_at n), n_id n)"

abbreviation of_old :: "('r \<Rightarrow> 'k \<Rightarrow> bool) \<Rightarrow> 'r option \<Rightarrow> 'k \<Rightarrow> bool" where
  "of_old entry old k \<equiv> (case old of None \<Rightarrow> False | Some r \<Rightarrow> entry r k)"

definition swap_node :: "node_record option \<Rightarrow> node_record option \<Rightarrow> u64 \<Rightarrow> graph_store \<Rightarrow> graph_store" where
  "swap_node old new i g =
     g\<lparr>g_keys := swap_entries (of_old key_entry old) (of_old key_entry new) (Some i) (g_keys g),
       g_node_labels := swap_entries (of_old label_entry old) (of_old label_entry new) (Some ()) (g_node_labels g),
       g_times := swap_entries (of_old time_entry old) (of_old time_entry new) (Some ()) (g_times g)\<rparr>"

definition store_upsert_node :: "(prop_value \<Rightarrow> bytes) \<Rightarrow> graph_store \<Rightarrow> node_record \<Rightarrow> u64 \<Rightarrow> graph_store option" where
  "store_upsert_node pv g node w =
     (let i = n_id node; old = live_node g i; stored = node\<lparr>n_last_write_seq := w\<rparr>
      in map_option (\<lambda>g. g\<lparr>g_node_tombstones := (g_node_tombstones g)(i := None),
             g_nodes := (g_nodes g)(i \<mapsto> Live stored)\<rparr>)
           (store_sync_node pv (swap_node old (Some node) i g) old stored))"

definition store_delete_node :: "(prop_value \<Rightarrow> bytes) \<Rightarrow> graph_store \<Rightarrow> u64 \<Rightarrow> i64 \<Rightarrow> u64 \<Rightarrow> graph_store option" where
  "store_delete_node pv g i t w =
     map_option (\<lambda>g. g\<lparr>g_nodes := (g_nodes g)(i \<mapsto> Tombstone \<lparr>deleted_at = t, t_last_write_seq = w\<rparr>),
         g_node_tombstones := (g_node_tombstones g)(i \<mapsto> ())\<rparr>)
       (case live_node g i of
          None \<Rightarrow> Some g
        | Some n \<Rightarrow> map_option (g_run_actions (swap_node (Some n) None i g)) (node_presence_actions pv g n False))"

text \<open>
  The triple index names one of the edges with a triple. An edge takes it over when it is new to
  the triple, or when the triple names no other edge.
\<close>

definition clear_triple :: "edge_record \<Rightarrow> (u64 \<times> u64 \<times> u32 \<Rightarrow> u64 option) \<Rightarrow> u64 \<times> u64 \<times> u32 \<Rightarrow> u64 option" where
  "clear_triple e f = (if f (triple_of e) = Some (e_id e) then f(triple_of e := None) else f)"

definition swap_triples ::
    "edge_record option \<Rightarrow> edge_record \<Rightarrow> (u64 \<times> u64 \<times> u32 \<Rightarrow> u64 option) \<Rightarrow> u64 \<times> u64 \<times> u32 \<Rightarrow> u64 option" where
  "swap_triples old e f = (case old of
     None \<Rightarrow> f(triple_of e \<mapsto> e_id e)
   | Some o' \<Rightarrow>
       if triple_of o' = triple_of e
       then (if f (triple_of e) = None \<or> f (triple_of e) = Some (e_id e) then f(triple_of e \<mapsto> e_id e) else f)
       else (clear_triple o' f)(triple_of e \<mapsto> e_id e))"

definition out_entry :: "edge_record \<Rightarrow> u64 \<times> u64 \<Rightarrow> bool" where
  "out_entry e k \<longleftrightarrow> k = (e_from e, e_id e)"

definition in_entry :: "edge_record \<Rightarrow> u64 \<times> u64 \<Rightarrow> bool" where
  "in_entry e k \<longleftrightarrow> k = (e_to e, e_id e)"

definition edge_label_entry :: "edge_record \<Rightarrow> u32 \<times> u64 \<Rightarrow> bool" where
  "edge_label_entry e k \<longleftrightarrow> k = (e_label_id e, e_id e)"

definition swap_edge :: "edge_record option \<Rightarrow> edge_record option \<Rightarrow> graph_store \<Rightarrow> graph_store" where
  "swap_edge old new g =
     g\<lparr>g_adj_out := swap_entries (of_old out_entry old) (of_old out_entry new) (map_option adj_out_entry new) (g_adj_out g),
       g_adj_in := swap_entries (of_old in_entry old) (of_old in_entry new) (map_option adj_in_entry new) (g_adj_in g),
       g_ordered_adj_out := swap_entries (of_old out_entry old) (of_old out_entry new) (map_option adj_out_entry new) (g_ordered_adj_out g),
       g_ordered_adj_in := swap_entries (of_old in_entry old) (of_old in_entry new) (map_option adj_in_entry new) (g_ordered_adj_in g),
       g_edge_labels := swap_entries (of_old edge_label_entry old) (of_old edge_label_entry new) (Some ()) (g_edge_labels g),
       g_ordered_edge_labels := swap_entries (of_old edge_label_entry old) (of_old edge_label_entry new) (Some ()) (g_ordered_edge_labels g)\<rparr>"

definition store_upsert_edge :: "(prop_value \<Rightarrow> bytes) \<Rightarrow> graph_store \<Rightarrow> edge_record \<Rightarrow> u64 \<Rightarrow> graph_store option" where
  "store_upsert_edge pv g edge w =
     (let i = e_id edge; old = live_edge g i; stored = edge\<lparr>e_last_write_seq := w\<rparr>;
          g = (swap_edge old (Some edge) g)\<lparr>g_triples := swap_triples old edge (g_triples g),
                g_edge_ids := (g_edge_ids g)(i \<mapsto> ())\<rparr>
      in map_option (\<lambda>g. g\<lparr>g_edge_tombstones := (g_edge_tombstones g)(i := None),
             g_edges := (g_edges g)(i \<mapsto> Live stored)\<rparr>)
           (store_sync_edge pv g old stored))"

definition store_delete_edge :: "(prop_value \<Rightarrow> bytes) \<Rightarrow> graph_store \<Rightarrow> u64 \<Rightarrow> i64 \<Rightarrow> u64 \<Rightarrow> graph_store option" where
  "store_delete_edge pv g i t w =
     map_option (\<lambda>g. g\<lparr>g_edges := (g_edges g)(i \<mapsto> Tombstone \<lparr>deleted_at = t, t_last_write_seq = w\<rparr>),
         g_edge_tombstones := (g_edge_tombstones g)(i \<mapsto> ())\<rparr>)
       (case live_edge g i of
          None \<Rightarrow> Some g
        | Some e \<Rightarrow>
            let g = (swap_edge (Some e) None g)\<lparr>g_triples := clear_triple e (g_triples g),
                      g_edge_ids := (g_edge_ids g)(e_id e := None)\<rparr>
            in map_option (g_run_actions g) (edge_presence_actions pv g e False))"

fun store_step :: "(prop_value \<Rightarrow> bytes) \<Rightarrow> graph_store \<Rightarrow> wal_op \<Rightarrow> u64 \<Rightarrow> graph_store option" where
  "store_step pv g (UpsertNode node) w = store_upsert_node pv g node w"
| "store_step pv g (UpsertEdge edge) w = store_upsert_edge pv g edge w"
| "store_step pv g (DeleteNode i t) w = store_delete_node pv g i t w"
| "store_step pv g (DeleteEdge i t) w = store_delete_edge pv g i t w"
| "store_step pv g _ w = Some g"

text \<open>Records are stored under their own ids, and label sets are canonical.\<close>

definition ids_ok :: "graph_store \<Rightarrow> bool" where
  "ids_ok g \<longleftrightarrow> (\<forall>i n. live_node g i = Some n \<longrightarrow> n_id n = i \<and> nls_wf (n_label_ids n)) \<and>
     (\<forall>i e. live_edge g i = Some e \<longrightarrow> e_id e = i)"

fun op_ok :: "wal_op \<Rightarrow> bool" where
  "op_ok (UpsertNode node) \<longleftrightarrow> nls_wf (n_label_ids node)"
| "op_ok _ \<longleftrightarrow> True"

section \<open>Earlier snapshots are not affected\<close>

lemma view_fold_same:
  assumes "\<And>x st. view (f x st) s = view st s"
  shows "view (fold f xs st) s = view st s"
  using assms by (induction xs arbitrary: st) simp_all

lemma view_run_actions_old: "\<not> w \<le> s \<Longrightarrow> view (run_actions st a w) s = view st s"
  by (simp add: run_actions_def Let_def view_fold_same view_simps split_beta)

lemmas unfold_ops = apply_upsert_node_def apply_upsert_edge_def apply_delete_node_def apply_delete_edge_def
  sync_secondary_index_entries_for_node_upsert_def sync_secondary_index_entries_for_edge_upsert_def
  add_secondary_index_entries_for_node_def remove_secondary_index_entries_for_node_def
  add_secondary_index_entries_for_edge_def remove_secondary_index_entries_for_edge_def

lemma view_label_loops_old:
  assumes "\<not> w \<le> s"
  shows "view (fold (retire_node_label old node w) ls st) s = view st s"
    and "view (fold (enter_node_label node w) ls st) s = view st s"
    and "view (fold (leave_node_label node w) ls st) s = view st s"
  using assms by (simp_all add: view_fold_same retire_node_label_def enter_node_label_def leave_node_label_def Let_def view_simps)

lemma view_apply_op_old:
  assumes "apply_op pv st op w = Some st'" and "\<not> w \<le> s"
  shows "view st' s = view st s"
  using assms
  by (cases op) (auto simp: unfold_ops Let_def view_simps view_label_loops_old view_run_actions_old
      retire_edge_def leave_edge_def split: if_splits option.splits Option.bind_splits)

section \<open>Later snapshots take the single-version step\<close>

lemma view_fold:
  assumes "\<And>x st. view (f x st) s = F x (view st s)"
  shows "view (fold f xs st) s = fold F xs (view st s)"
  using assms by (induction xs arbitrary: st) simp_all

lemma decls_of_view [simp]:
  "secondary_index_declarations (view st s) = secondary_index_declarations st"
  "secondary_eq_by_prop (view st s) = secondary_eq_by_prop st"
  "secondary_range_by_prop (view st s) = secondary_range_by_prop st"
  "secondary_edge_eq_by_prop (view st s) = secondary_edge_eq_by_prop st"
  "secondary_edge_range_by_prop (view st s) = secondary_edge_range_by_prop st"
  "secondary_node_field_indexes_by_label (view st s) = secondary_node_field_indexes_by_label st"
  "secondary_edge_field_indexes_by_label (view st s) = secondary_edge_field_indexes_by_label st"
  by (simp_all add: view_def)

text \<open>Collected actions depend on the declarations alone.\<close>

lemmas action_defs = no_node_indexes_def no_edge_indexes_def node_presence_actions_def node_upsert_actions_def
  edge_presence_actions_def edge_update_actions_def node_entry_actions_def node_update_actions_def
  collect_secondary_index_entries_for_node_label_def collect_secondary_index_updates_for_node_label_def
  collect_compound_index_entries_for_node_label_def collect_compound_index_updates_for_node_label_def
  collect_compound_index_entries_for_edge_label_def collect_compound_index_updates_for_edge_label_def
  node_field_index_def edge_field_index_def

definition decls :: "'z index_decls_scheme \<Rightarrow> index_decls" where
  "decls st = index_decls.truncate st"

lemma decls_view [simp]: "decls (view st s) = decls st"
  by (simp add: decls_def index_decls.truncate_def)

lemma decls_eqD:
  assumes "decls st = decls st'"
  shows "secondary_index_declarations st = secondary_index_declarations st'"
    "secondary_eq_by_prop st = secondary_eq_by_prop st'"
    "secondary_range_by_prop st = secondary_range_by_prop st'"
    "secondary_edge_eq_by_prop st = secondary_edge_eq_by_prop st'"
    "secondary_edge_range_by_prop st = secondary_edge_range_by_prop st'"
    "secondary_node_field_indexes_by_label st = secondary_node_field_indexes_by_label st'"
    "secondary_edge_field_indexes_by_label st = secondary_edge_field_indexes_by_label st'"
  using assms by (simp_all add: decls_def index_decls.truncate_def)

lemma actions_cong:
  assumes "decls st = decls st'"
  shows "no_node_indexes st = no_node_indexes st'" "no_edge_indexes st = no_edge_indexes st'"
    "node_presence_actions pv st n p = node_presence_actions pv st' n p"
    "node_upsert_actions pv st n n' = node_upsert_actions pv st' n n'"
    "edge_presence_actions pv st e p = edge_presence_actions pv st' e p"
    "edge_update_actions pv st e e' = edge_update_actions pv st' e e'"
proof -
  note d = decls_eqD [OF assms]
  have f: "node_field_index st = node_field_index st'" "edge_field_index st = edge_field_index st'"
    by (simp_all add: fun_eq_iff node_field_index_def edge_field_index_def d)
  have n: "node_entry_actions pv st n p = node_entry_actions pv st' n p"
      "node_update_actions pv st n n' = node_update_actions pv st' n n'" for n p n'
    unfolding action_defs(7-12) [abs_def] d f by (rule refl)+
  show "no_node_indexes st = no_node_indexes st'" "no_edge_indexes st = no_edge_indexes st'"
    by (simp_all add: no_node_indexes_def no_edge_indexes_def d)
  then show "node_presence_actions pv st n p = node_presence_actions pv st' n p"
    "node_upsert_actions pv st n n' = node_upsert_actions pv st' n n'"
    "edge_presence_actions pv st e p = edge_presence_actions pv st' e p"
    "edge_update_actions pv st e e' = edge_update_actions pv st' e e'"
    unfolding action_defs(3-6,13,14) d f n by simp_all
qed

lemma decls_run_actions [simp]: "decls (g_run_actions g a) = decls g"
  by (cases a) (simp add: g_run_actions_def decls_def index_decls.truncate_def)

lemma decls_swap_node [simp]: "decls (swap_node old new i g) = decls g"
  by (simp add: swap_node_def decls_def index_decls.truncate_def)

lemma decls_swap_edge [simp]: "decls (swap_edge old new g) = decls g"
  by (simp add: swap_edge_def decls_def index_decls.truncate_def)

lemma g_run_fold_eq:
  "fold (\<lambda>(x, h, i, p) g. g\<lparr>g_eq := (g_eq g)((x, h, i) := present_value p)\<rparr>) es g =
     g\<lparr>g_eq := fold (\<lambda>(x, h, i, p) f. f((x, h, i) := present_value p)) es (g_eq g)\<rparr>"
  by (induction es arbitrary: g) auto

lemma g_run_fold_range:
  "fold (\<lambda>(x, e, i, p) g. g\<lparr>g_range := (g_range g)((x, e, i) := present_value p)\<rparr>) rs g =
     g\<lparr>g_range := fold (\<lambda>(x, e, i, p) f. f((x, e, i) := present_value p)) rs (g_range g)\<rparr>"
  by (induction rs arbitrary: g) auto

lemma g_run_fold_compound:
  "fold (\<lambda>(x, e, i, p) g. g\<lparr>g_compound := (g_compound g)((x, e, i) := present_value p)\<rparr>) cs g =
     g\<lparr>g_compound := fold (\<lambda>(x, e, i, p) f. f((x, e, i) := present_value p)) cs (g_compound g)\<rparr>"
  by (induction cs arbitrary: g) auto

lemmas g_run_fold = g_run_fold_eq g_run_fold_range g_run_fold_compound

lemma view_run_actions:
  assumes "w \<le> s"
  shows "view (run_actions st a w) s = g_run_actions (view st s) a"
proof -
  obtain es rs cs where a: "a = (es, rs, cs)" by (cases a)
  note folds =
    view_fold [of "\<lambda>(x, h, i, p) st. set_secondary_eq_slot st x h i p w" s
      "\<lambda>(x, h, i, p) g. g\<lparr>g_eq := (g_eq g)((x, h, i) := present_value p)\<rparr>"]
    view_fold [of "\<lambda>(x, e, i, p) st. set_secondary_range_slot st x e i p w" s
      "\<lambda>(x, e, i, p) g. g\<lparr>g_range := (g_range g)((x, e, i) := present_value p)\<rparr>"]
    view_fold [of "\<lambda>(x, e, i, p) st. set_compound_slot st x e i p w" s
      "\<lambda>(x, e, i, p) g. g\<lparr>g_compound := (g_compound g)((x, e, i) := present_value p)\<rparr>"]
  show ?thesis
    using assms by (simp add: a run_actions_def g_run_actions_def Let_def folds view_simps split_beta)
      (simp add: g_run_fold)
qed

lemma view_run_actions_map:
  "w \<le> s \<Longrightarrow> map_option (\<lambda>st. view st s) (map_option (\<lambda>a. run_actions st a w) x) = map_option (g_run_actions (view st s)) x"
  by (cases x) (simp_all add: view_run_actions)

lemma view_sync_node:
  assumes "w \<le> s"
  shows "map_option (\<lambda>st. view st s) (sync_secondary_index_entries_for_node_upsert pv st old new w) =
    store_sync_node pv (view st s) old new"
  using assms actions_cong [OF decls_view [of st s]]
  by (simp add: sync_secondary_index_entries_for_node_upsert_def store_sync_node_def add_secondary_index_entries_for_node_def
      view_run_actions_map split: option.split)

lemma view_sync_edge:
  assumes "w \<le> s"
  shows "map_option (\<lambda>st. view st s) (sync_secondary_index_entries_for_edge_upsert pv st old new w) =
    store_sync_edge pv (view st s) old new"
proof -
  have bind: "map_option (\<lambda>st. view st s) (Option.bind (map_option (\<lambda>a. run_actions st a w) x) f) =
      Option.bind (map_option (g_run_actions (view st s)) x) F"
    if "\<And>st'. map_option (\<lambda>st. view st s) (f st') = F (view st' s)" for x f F
    by (cases x) (simp_all add: that view_run_actions [OF assms])
  have add: "map_option (\<lambda>st. view st s) (add_secondary_index_entries_for_edge pv st' new w) =
      map_option (g_run_actions (view st' s)) (edge_presence_actions pv (view st' s) new True)" for st'
    using assms actions_cong(5) [OF decls_view [of st' s]]
    by (simp add: add_secondary_index_entries_for_edge_def view_run_actions_map)
  show ?thesis
    using assms actions_cong [OF decls_view [of st s]] add
    by (simp add: sync_secondary_index_entries_for_edge_upsert_def store_sync_edge_def
        remove_secondary_index_entries_for_edge_def view_run_actions_map bind split: option.split)
qed

lemma fold_upd_if:
  "fold (\<lambda>l f. if c l then f(k l := v) else f) ls f = (\<lambda>x. if \<exists>l \<in> set ls. c l \<and> x = k l then v else f x)"
  by (induction ls arbitrary: f) (auto simp: fun_eq_iff)

lemma fold_upd: "fold (\<lambda>l f. f(k l := v)) ls f = (\<lambda>x. if x \<in> k ` set ls then v else f x)"
  by (induction ls arbitrary: f) auto

lemma view_retire_loop:
  assumes "w \<le> s"
  shows "view (fold (retire_node_label old node w) ls st) s = (view st s)
    \<lparr>g_keys := fold (\<lambda>l f. if \<not> nls_contains (n_label_ids node) l \<or> n_key old \<noteq> n_key node
         then f((l, n_key old) := None) else f) ls (g_keys (view st s)),
      g_node_labels := fold (\<lambda>l f. if \<not> nls_contains (n_label_ids node) l
         then f((l, n_id old) := None) else f) ls (g_node_labels (view st s)),
      g_times := fold (\<lambda>l f. if \<not> nls_contains (n_label_ids node) l \<or> n_updated_at old \<noteq> n_updated_at node
         then f((l, sint (n_updated_at old), n_id old) := None) else f) ls (g_times (view st s))\<rparr>"
  using assms by (induction ls arbitrary: st) (simp_all add: retire_node_label_def Let_def view_simps)

lemma view_enter_loop:
  assumes "w \<le> s"
  shows "view (fold (enter_node_label node w) ls st) s = (view st s)
    \<lparr>g_keys := fold (\<lambda>l f. f((l, n_key node) := Some (n_id node))) ls (g_keys (view st s)),
      g_node_labels := fold (\<lambda>l f. f((l, n_id node) := Some ())) ls (g_node_labels (view st s)),
      g_times := fold (\<lambda>l f. f((l, sint (n_updated_at node), n_id node) := Some ())) ls (g_times (view st s))\<rparr>"
  using assms by (induction ls arbitrary: st) (simp_all add: enter_node_label_def Let_def view_simps)

lemma view_leave_loop:
  assumes "w \<le> s"
  shows "view (fold (leave_node_label node w) ls st) s = (view st s)
    \<lparr>g_keys := fold (\<lambda>l f. f((l, n_key node) := None)) ls (g_keys (view st s)),
      g_node_labels := fold (\<lambda>l f. f((l, n_id node) := None)) ls (g_node_labels (view st s)),
      g_times := fold (\<lambda>l f. f((l, sint (n_updated_at node), n_id node) := None)) ls (g_times (view st s))\<rparr>"
  using assms by (induction ls arbitrary: st) (simp_all add: leave_node_label_def Let_def view_simps)

lemma view_leave_swap:
  "w \<le> s \<Longrightarrow> view (fold (leave_node_label node w) (as_slice (n_label_ids node)) st) s = swap_node (Some node) None i (view st s)"
  by (simp add: view_leave_loop swap_node_def fold_upd)
    (auto simp: swap_entries_def key_entry_def label_entry_def time_entry_def fun_eq_iff image_iff)

lemma view_enter_swap:
  assumes "w \<le> s" and "nls_wf (n_label_ids node)"
  shows "view (fold (enter_node_label node w) (as_slice (n_label_ids node)) st) s = swap_node None (Some node) (n_id node) (view st s)"
  using assms by (simp add: view_enter_loop swap_node_def fold_upd)
    (auto simp: swap_entries_def key_entry_def label_entry_def time_entry_def fun_eq_iff image_iff)

lemma view_replace_swap:
  assumes "w \<le> s" and "nls_wf (n_label_ids node)" and "n_id old = n_id node"
  shows "view (fold (enter_node_label node w) (as_slice (n_label_ids node))
      (fold (retire_node_label old node w) (as_slice (n_label_ids old)) st)) s =
    swap_node (Some old) (Some node) (n_id node) (view st s)"
  using assms by (simp add: view_enter_loop view_retire_loop swap_node_def fold_upd fold_upd_if)
    (auto simp: swap_entries_def key_entry_def label_entry_def time_entry_def fun_eq_iff image_iff)

text \<open>No version is newer than \<open>w\<close>: every snapshot from \<open>w\<close> on sees the current state.\<close>

definition settled :: "memtable_state \<Rightarrow> u64 \<Rightarrow> bool" where
  "settled st w \<longleftrightarrow> (\<forall>s \<ge> w. view st s = view st U64_MAX)"

lemma settledD: "settled st w \<Longrightarrow> w \<le> s \<Longrightarrow> view st U64_MAX = view st s"
  unfolding settled_def by (elim allE impE) (assumption, rule sym)

lemma settled_mono: "settled st w \<Longrightarrow> w \<le> w' \<Longrightarrow> settled st w'"
  unfolding settled_def by (meson order_trans)

lemma current_reads:
  assumes "settled st w" and "w \<le> s"
  shows "current_node st i = live_node (view st s) i" "current_edge st i = live_edge (view st s) i"
    "node_deleted_at st i U64_MAX \<longleftrightarrow> g_node_tombstones (view st s) i \<noteq> None"
    "edge_deleted_at st i U64_MAX \<longleftrightarrow> g_edge_tombstones (view st s) i \<noteq> None"
  by (simp_all add: read_views settledD [OF assms])

lemma g_run_actions_frame [simp]:
  "g_nodes (g_run_actions g a) = g_nodes g" "g_edges (g_run_actions g a) = g_edges g"
  "g_node_tombstones (g_run_actions g a) = g_node_tombstones g"
  "g_edge_tombstones (g_run_actions g a) = g_edge_tombstones g"
  "g_keys (g_run_actions g a) = g_keys g" "g_triples (g_run_actions g a) = g_triples g"
  "g_adj_out (g_run_actions g a) = g_adj_out g" "g_adj_in (g_run_actions g a) = g_adj_in g"
  "g_edge_ids (g_run_actions g a) = g_edge_ids g" "g_node_labels (g_run_actions g a) = g_node_labels g"
  "g_ordered_edge_labels (g_run_actions g a) = g_ordered_edge_labels g"
  "g_ordered_adj_out (g_run_actions g a) = g_ordered_adj_out g"
  "g_ordered_adj_in (g_run_actions g a) = g_ordered_adj_in g"
  "g_edge_labels (g_run_actions g a) = g_edge_labels g" "g_times (g_run_actions g a) = g_times g"
  by (cases a; simp add: g_run_actions_def)+

text \<open>Synchronising the secondary indexes is a run of actions.\<close>

lemma g_run_actions_nil: "g_run_actions g ([], [], []) = g"
  by (simp add: g_run_actions_def)

lemma store_sync_node_run: "store_sync_node pv g old new = Some g' \<Longrightarrow> \<exists>a. g' = g_run_actions g a"
  by (auto simp: store_sync_node_def split: if_splits intro: g_run_actions_nil [symmetric])

lemma g_run_actions_append:
  "g_run_actions (g_run_actions g (a, b, c)) (a', b', c') = g_run_actions g (a @ a', b @ b', c @ c')"
  by (simp add: g_run_actions_def)

lemma store_sync_edge_run:
  assumes "store_sync_edge pv g old new = Some g'"
  shows "\<exists>a. g' = g_run_actions g a"
proof -
  have app: "\<exists>a. g_run_actions (g_run_actions g x) y = g_run_actions g a" for x y
    by (cases x; cases y) (auto simp: g_run_actions_append)
  have nil: "\<exists>a. g = g_run_actions g a" by (metis g_run_actions_nil)
  show ?thesis
    using assms app nil
    by (auto simp: store_sync_edge_def bind_eq_Some_conv split: if_splits option.splits)
qed

lemma clear_tombstone:
  fixes g :: graph_store
  assumes "f i \<noteq> Some ()"
  shows "g_node_tombstones g = f \<Longrightarrow> g\<lparr>g_node_tombstones := f(i := None), g_nodes := x\<rparr> = g\<lparr>g_nodes := x\<rparr>"
    and "g_edge_tombstones g = f \<Longrightarrow> g\<lparr>g_edge_tombstones := f(i := None), g_edges := y\<rparr> = g\<lparr>g_edges := y\<rparr>"
proof -
  have f: "f(i := None) = f" using assms by (cases "f i") (auto simp: fun_upd_idem)
  show "g_node_tombstones g = f \<Longrightarrow> g\<lparr>g_node_tombstones := f(i := None), g_nodes := x\<rparr> = g\<lparr>g_nodes := x\<rparr>"
    "g_edge_tombstones g = f \<Longrightarrow> g\<lparr>g_edge_tombstones := f(i := None), g_edges := y\<rparr> = g\<lparr>g_edges := y\<rparr>"
    unfolding f by (auto intro!: graph_store.equality)
qed

lemma view_upsert_node:
  assumes "settled st w" and "w \<le> s" and "ids_ok (view st s)" and "nls_wf (n_label_ids node)"
  shows "map_option (\<lambda>st. view st s) (apply_upsert_node pv st node w) = store_upsert_node pv (view st s) node w"
proof -
  let ?i = "n_id node" and ?old = "live_node (view st s) (n_id node)" and ?new = "node\<lparr>n_last_write_seq := w\<rparr>"
  define st1 where "st1 = fold (enter_node_label node w) (as_slice (n_label_ids node)) (case ?old of None \<Rightarrow> st
      | Some old \<Rightarrow> fold (retire_node_label old node w) (as_slice (n_label_ids old)) st)"
  have st1: "view st1 s = swap_node ?old (Some node) ?i (view st s)"
  proof (cases ?old)
    case None
    then show ?thesis using view_enter_swap [OF assms(2,4)] by (simp add: st1_def)
  next
    case (Some old)
    then have "n_id old = ?i" using assms(3) by (simp add: ids_ok_def)
    from view_replace_swap [OF assms(2,4) this] Some show ?thesis by (simp add: st1_def)
  qed
  define post where "post = (\<lambda>st2.
      let st2 = (if g_node_tombstones (view st s) ?i \<noteq> None then set_node_tombstone_slot st2 ?i False w else st2);
          st2 = set_node_state st2 ?i (Live ?new) w
      in if ?old = None then st2\<lparr>live_node_count := saturating_add (live_node_count st2) 1\<rparr> else st2)"
  have steps: "apply_upsert_node pv st node w =
      map_option post (sync_secondary_index_entries_for_node_upsert pv st1 ?old ?new w)"
    by (simp add: apply_upsert_node_def Let_def current_reads [OF assms(1,2)] st1_def post_def)
  have post: "view (post st2) s = (view st2 s)\<lparr>g_node_tombstones := (g_node_tombstones (view st2 s))(?i := None),
      g_nodes := (g_nodes (view st2 s))(?i \<mapsto> Live ?new)\<rparr>"
    if "sync_secondary_index_entries_for_node_upsert pv st1 ?old ?new w = Some st2" for st2
  proof -
    have "store_sync_node pv (view st1 s) ?old ?new = Some (view st2 s)"
      using view_sync_node [OF assms(2), of pv st1 ?old ?new] that by simp
    then obtain a where "view st2 s = g_run_actions (view st1 s) a" using store_sync_node_run by blast
    then have "g_node_tombstones (view st2 s) = g_node_tombstones (view st s)" by (simp add: st1 swap_node_def)
    then show ?thesis using assms(2) by (auto simp: post_def Let_def view_simps clear_tombstone)
  qed
  show ?thesis
    using view_sync_node [OF assms(2), of pv st1 ?old ?new] post
    by (cases "sync_secondary_index_entries_for_node_upsert pv st1 ?old ?new w")
      (auto simp: steps store_upsert_node_def Let_def st1 dest: sym)
qed

lemma view_delete_node:
  assumes "settled st w" and "w \<le> s"
  shows "map_option (\<lambda>st. view st s) (apply_delete_node pv st i t w) = store_delete_node pv (view st s) i t w"
proof (cases "live_node (view st s) i")
  case None
  with assms(2) show ?thesis
    by (simp add: apply_delete_node_def store_delete_node_def current_reads [OF assms] Let_def view_simps)
next
  case (Some n)
  let ?st1 = "fold (leave_node_label n w) (as_slice (n_label_ids n)) st"
  have v: "view ?st1 s = swap_node (Some n) None i (view st s)" by (rule view_leave_swap [OF assms(2)])
  have "decls ?st1 = decls (view st s)" using v decls_view [of ?st1 s] by simp
  then have "node_presence_actions pv ?st1 n False = node_presence_actions pv (view st s) n False"
    by (rule actions_cong(3))
  with Some assms(2) v show ?thesis
    by (cases "node_presence_actions pv (view st s) n False")
      (simp_all add: apply_delete_node_def store_delete_node_def current_reads [OF assms] Let_def view_simps
        remove_secondary_index_entries_for_node_def view_run_actions)
qed

lemma triple_of_eq: "triple_of a = triple_of b \<longleftrightarrow> e_from a = e_from b \<and> e_to a = e_to b \<and> e_label_id a = e_label_id b"
  by simp

lemma view_retire_edge:
  assumes "settled st w" and "w \<le> s"
  shows "view (retire_edge old edge w st) s = (view st s)
    \<lparr>g_triples := (if triple_of old \<noteq> triple_of edge then clear_triple old (g_triples (view st s)) else g_triples (view st s)),
      g_edge_labels := (if e_label_id old \<noteq> e_label_id edge
         then (g_edge_labels (view st s))((e_label_id old, e_id old) := None) else g_edge_labels (view st s)),
      g_ordered_edge_labels := (if e_label_id old \<noteq> e_label_id edge
         then (g_ordered_edge_labels (view st s))((e_label_id old, e_id old) := None) else g_ordered_edge_labels (view st s)),
      g_adj_out := (if e_from old \<noteq> e_from edge \<or> e_to old \<noteq> e_to edge
         then (g_adj_out (view st s))((e_from old, e_id old) := None) else g_adj_out (view st s)),
      g_ordered_adj_out := (if e_from old \<noteq> e_from edge \<or> e_to old \<noteq> e_to edge
         then (g_ordered_adj_out (view st s))((e_from old, e_id old) := None) else g_ordered_adj_out (view st s)),
      g_adj_in := (if e_from old \<noteq> e_from edge \<or> e_to old \<noteq> e_to edge
         then (g_adj_in (view st s))((e_to old, e_id old) := None) else g_adj_in (view st s)),
      g_ordered_adj_in := (if e_from old \<noteq> e_from edge \<or> e_to old \<noteq> e_to edge
         then (g_ordered_adj_in (view st s))((e_to old, e_id old) := None) else g_ordered_adj_in (view st s))\<rparr>"
proof -
  have t: "current_edge_triple_id st a b l = g_triples (view st s) (a, b, l)" for a b l
    by (simp add: current_edge_triple_id_view settledD [OF assms])
  show ?thesis
    using assms(2) by (auto simp: retire_edge_def Let_def t view_simps clear_triple_def intro!: graph_store.equality)
qed

text \<open>The part of an edge upsert that writes the indexes.\<close>

definition place_edge :: "edge_record option \<Rightarrow> edge_record \<Rightarrow> u64 \<Rightarrow> memtable_state \<Rightarrow> memtable_state" where
  "place_edge old_edge edge w st =
     (let st = (case old_edge of None \<Rightarrow> st | Some old \<Rightarrow> retire_edge old edge w st);
          current_triple_id = current_edge_triple_id st (e_from edge) (e_to edge) (e_label_id edge);
          should_update_triple = (case old_edge of
              Some old \<Rightarrow>
                if e_from old = e_from edge \<and> e_to old = e_to edge \<and> e_label_id old = e_label_id edge
                then (case current_triple_id of None \<Rightarrow> True | Some current_id \<Rightarrow> current_id = e_id edge)
                else True
            | None \<Rightarrow> True);
          st = (if should_update_triple
                then set_edge_triple st (e_from edge) (e_to edge) (e_label_id edge) (Some (e_id edge)) w
                else st);
          st = set_adj_out_slot st (e_from edge) (e_id edge) (Some (adj_out_entry edge)) w;
          st = set_adj_in_slot st (e_to edge) (e_id edge) (Some (adj_in_entry edge)) w;
          st = set_edge_label_slot st (e_label_id edge) (e_id edge) True w;
          st = set_ordered_edge_label_slot st (e_label_id edge) (e_id edge) True w
      in set_ordered_edge_slot st (e_id edge) True w)"

lemmas edge_entry_defs = out_entry_def [abs_def] in_entry_def [abs_def] edge_label_entry_def [abs_def]

lemma swap_entries_upd:
  "c \<or> k' = k \<Longrightarrow> (if c then f(k' := None) else f)(k := v) = swap_entries (\<lambda>x. x = k') (\<lambda>x. x = k) v f"
  by (auto simp: swap_entries_def fun_eq_iff)

lemma swap_entries_new: "f(k := v) = swap_entries (\<lambda>_. False) (\<lambda>x. x = k) v f"
  by (auto simp: swap_entries_def fun_eq_iff)

lemma swap_entries_gone: "f(k := None) = swap_entries (\<lambda>x. x = k) (\<lambda>_. False) v f"
  by (auto simp: swap_entries_def fun_eq_iff)

lemma view_place_edge_new:
  assumes "w \<le> s"
  shows "view (place_edge None edge w st) s =
    (swap_edge None (Some edge) (view st s))\<lparr>g_triples := swap_triples None edge (g_triples (view st s)),
       g_edge_ids := (g_edge_ids (view st s))(e_id edge \<mapsto> ())\<rparr>"
  using assms by (simp add: place_edge_def Let_def view_simps swap_edge_def swap_triples_def edge_entry_defs swap_entries_new)

lemma view_place_edge_over:
  assumes "settled st w" and "w \<le> s" and "e_id old = e_id edge"
  shows "view (place_edge (Some old) edge w st) s =
    (swap_edge (Some old) (Some edge) (view st s))\<lparr>g_triples := swap_triples (Some old) edge (g_triples (view st s)),
       g_edge_ids := (g_edge_ids (view st s))(e_id edge \<mapsto> ())\<rparr>"
proof -
  let ?st1 = "retire_edge old edge w st" and ?f = "g_triples (view st s)"
  let ?t1 = "if triple_of old \<noteq> triple_of edge then clear_triple old ?f else ?f"
  let ?upd = "triple_of old = triple_of edge \<longrightarrow> ?t1 (triple_of edge) = None \<or> ?t1 (triple_of edge) = Some (e_id edge)"
  have v: "view st U64_MAX = view st s" by (rule settledD [OF assms(1,2)])
  have t: "current_edge_triple_id ?st1 (e_from edge) (e_to edge) (e_label_id edge) = ?t1 (triple_of edge)"
    by (simp add: current_edge_triple_id_view view_retire_edge [OF assms(1) le_U64_MAX] v)
  have upd: "(case Some old of Some old \<Rightarrow>
                if e_from old = e_from edge \<and> e_to old = e_to edge \<and> e_label_id old = e_label_id edge
                then (case ?t1 (triple_of edge) of None \<Rightarrow> True | Some current_id \<Rightarrow> current_id = e_id edge)
                else True
            | None \<Rightarrow> True) = ?upd"
    by (auto split: option.split)
  have triples: "swap_triples (Some old) edge ?f = (if ?upd then ?t1(triple_of edge \<mapsto> e_id edge) else ?t1)"
    by (simp add: swap_triples_def)
  have "view (place_edge (Some old) edge w st) s = (view ?st1 s)
      \<lparr>g_triples := (if ?upd then ?t1(triple_of edge \<mapsto> e_id edge) else ?t1),
        g_adj_out := (g_adj_out (view ?st1 s))((e_from edge, e_id edge) \<mapsto> adj_out_entry edge),
        g_ordered_adj_out := (g_ordered_adj_out (view ?st1 s))((e_from edge, e_id edge) \<mapsto> adj_out_entry edge),
        g_adj_in := (g_adj_in (view ?st1 s))((e_to edge, e_id edge) \<mapsto> adj_in_entry edge),
        g_ordered_adj_in := (g_ordered_adj_in (view ?st1 s))((e_to edge, e_id edge) \<mapsto> adj_in_entry edge),
        g_edge_labels := (g_edge_labels (view ?st1 s))((e_label_id edge, e_id edge) \<mapsto> ()),
        g_ordered_edge_labels := (g_ordered_edge_labels (view ?st1 s))((e_label_id edge, e_id edge) \<mapsto> ()),
        g_edge_ids := (g_edge_ids (view ?st1 s))(e_id edge \<mapsto> ())\<rparr>"
    using assms(2) unfolding place_edge_def Let_def option.case(2) t upd [unfolded option.case(2)]
    by (cases ?upd) (simp_all add: view_simps view_retire_edge [OF assms(1,2)] del: not_None_eq)
  then show ?thesis
    unfolding view_retire_edge [OF assms(1,2)] triples
    by (simp add: swap_edge_def edge_entry_defs swap_entries_upd assms(3))
qed

lemma view_upsert_edge:
  assumes "settled st w" and "w \<le> s" and "ids_ok (view st s)"
  shows "map_option (\<lambda>st. view st s) (apply_upsert_edge pv st edge w) = store_upsert_edge pv (view st s) edge w"
proof -
  let ?i = "e_id edge" and ?old = "live_edge (view st s) (e_id edge)" and ?new = "edge\<lparr>e_last_write_seq := w\<rparr>"
  define st1 where "st1 = place_edge ?old edge w st"
  have st1: "view st1 s = (swap_edge ?old (Some edge) (view st s))
      \<lparr>g_triples := swap_triples ?old edge (g_triples (view st s)), g_edge_ids := (g_edge_ids (view st s))(?i \<mapsto> ())\<rparr>"
  proof (cases ?old)
    case None
    then show ?thesis using view_place_edge_new [OF assms(2)] by (simp add: st1_def)
  next
    case (Some old)
    then have "e_id old = ?i" using assms(3) by (simp add: ids_ok_def)
    from view_place_edge_over [OF assms(1,2) this] Some show ?thesis by (simp add: st1_def)
  qed
  define post where "post = (\<lambda>st2.
      let st2 = (if g_edge_tombstones (view st s) ?i \<noteq> None then set_edge_tombstone_slot st2 ?i False w else st2);
          st2 = set_edge_state st2 ?i (Live ?new) w
      in if ?old = None then st2\<lparr>live_edge_count := saturating_add (live_edge_count st2) 1\<rparr> else st2)"
  have steps: "apply_upsert_edge pv st edge w =
      map_option post (sync_secondary_index_entries_for_edge_upsert pv st1 ?old ?new w)"
    by (simp add: apply_upsert_edge_def place_edge_def Let_def current_reads [OF assms(1,2)] st1_def post_def)
  have post: "view (post st2) s = (view st2 s)\<lparr>g_edge_tombstones := (g_edge_tombstones (view st2 s))(?i := None),
      g_edges := (g_edges (view st2 s))(?i \<mapsto> Live ?new)\<rparr>"
    if "sync_secondary_index_entries_for_edge_upsert pv st1 ?old ?new w = Some st2" for st2
  proof -
    have "store_sync_edge pv (view st1 s) ?old ?new = Some (view st2 s)"
      using view_sync_edge [OF assms(2), of pv st1 ?old ?new] that by simp
    then obtain a where "view st2 s = g_run_actions (view st1 s) a" using store_sync_edge_run by blast
    then have "g_edge_tombstones (view st2 s) = g_edge_tombstones (view st s)" by (simp add: st1 swap_edge_def)
    then show ?thesis using assms(2) by (auto simp: post_def Let_def view_simps clear_tombstone)
  qed
  show ?thesis
    using view_sync_edge [OF assms(2), of pv st1 ?old ?new] post
    by (cases "sync_secondary_index_entries_for_edge_upsert pv st1 ?old ?new w")
      (auto simp: steps store_upsert_edge_def Let_def st1 dest: sym)
qed

lemma view_leave_edge:
  assumes "settled st w" and "w \<le> s" and "e_id e = i"
  shows "view (leave_edge i e w st) s = (swap_edge (Some e) None (view st s))
    \<lparr>g_triples := clear_triple e (g_triples (view st s)), g_edge_ids := (g_edge_ids (view st s))(e_id e := None)\<rparr>"
proof -
  have t: "current_edge_triple_id st a b l = g_triples (view st s) (a, b, l)" for a b l
    by (simp add: current_edge_triple_id_view settledD [OF assms(1,2)])
  show ?thesis
    using assms(2,3) by (simp add: leave_edge_def Let_def t view_simps clear_triple_def swap_edge_def edge_entry_defs
        swap_entries_gone)
qed

lemma decls_updates [simp]:
  "decls (g\<lparr>g_triples := x\<rparr>) = decls g" "decls (g\<lparr>g_edge_ids := y\<rparr>) = decls g"
  "decls (g\<lparr>g_nodes := a\<rparr>) = decls g" "decls (g\<lparr>g_edges := b\<rparr>) = decls g"
  "decls (g\<lparr>g_node_tombstones := c\<rparr>) = decls g" "decls (g\<lparr>g_edge_tombstones := d\<rparr>) = decls g"
  by (simp_all add: decls_def index_decls.truncate_def)

lemma view_delete_edge:
  assumes "settled st w" and "w \<le> s" and "ids_ok (view st s)"
  shows "map_option (\<lambda>st. view st s) (apply_delete_edge pv st i t w) = store_delete_edge pv (view st s) i t w"
proof (cases "live_edge (view st s) i")
  case None
  with assms(2) show ?thesis
    by (simp add: apply_delete_edge_def store_delete_edge_def current_reads [OF assms(1,2)] Let_def view_simps)
next
  case (Some e)
  let ?st1 = "leave_edge i e w st"
  have "e_id e = i" using Some assms(3) by (simp add: ids_ok_def)
  note v = view_leave_edge [OF assms(1,2) this]
  have "edge_presence_actions pv ?st1 e False = edge_presence_actions pv (view ?st1 s) e False"
    by (rule actions_cong(5)) simp
  with Some assms(2) v show ?thesis
    by (cases "edge_presence_actions pv (view ?st1 s) e False")
      (simp_all add: apply_delete_edge_def store_delete_edge_def current_reads [OF assms(1,2)] Let_def view_simps
        remove_secondary_index_entries_for_edge_def view_run_actions)
qed

lemma view_apply_op_new:
  assumes "settled st w" and "w \<le> s" and "ids_ok (view st s)" and "op_ok op"
  shows "map_option (\<lambda>st. view st s) (apply_op pv st op w) = store_step pv (view st s) op w"
  using assms by (cases op) (simp_all add: view_upsert_node view_upsert_edge view_delete_node view_delete_edge)

lemma settled_apply_op:
  assumes "settled st w" and "ids_ok (view st U64_MAX)" and "op_ok op" and "apply_op pv st op w = Some st'"
  shows "settled st' w"
  unfolding settled_def
proof (intro allI impI)
  fix s
  assume "w \<le> s"
  then have v: "view st U64_MAX = view st s" by (rule settledD [OF assms(1)])
  have "Some (view st' s) = store_step pv (view st s) op w"
    using view_apply_op_new [OF assms(1) \<open>w \<le> s\<close> _ assms(3), of pv] assms(2,4) v by simp
  moreover have "Some (view st' U64_MAX) = store_step pv (view st U64_MAX) op w"
    using view_apply_op_new [OF assms(1) le_U64_MAX assms(2,3), of pv] assms(4) by simp
  ultimately show "view st' s = view st' U64_MAX" using v by (metis option.inject)
qed

section \<open>Records of the single-version store\<close>

text \<open>The abstract graph: which nodes and edges live, and what an operation does to them.\<close>

lemma store_sync_frame:
  assumes "store_sync_node pv g old new = Some g'"
  shows "g_nodes g' = g_nodes g \<and> g_edges g' = g_edges g"
  using store_sync_node_run [OF assms] by auto

lemma store_sync_edge_frame:
  assumes "store_sync_edge pv g old new = Some g'"
  shows "g_nodes g' = g_nodes g \<and> g_edges g' = g_edges g"
  using store_sync_edge_run [OF assms] by auto

lemma store_step_nodes:
  assumes "store_step pv g op w = Some g'"
  shows "g_nodes g' = (case op of
      UpsertNode n \<Rightarrow> (g_nodes g)(n_id n \<mapsto> Live (n\<lparr>n_last_write_seq := w\<rparr>))
    | DeleteNode i t \<Rightarrow> (g_nodes g)(i \<mapsto> Tombstone \<lparr>deleted_at = t, t_last_write_seq = w\<rparr>)
    | _ \<Rightarrow> g_nodes g)"
  using assms
  by (cases op) (auto simp: store_upsert_node_def store_upsert_edge_def store_delete_node_def store_delete_edge_def Let_def
      swap_node_def swap_edge_def dest!: store_sync_frame store_sync_edge_frame split: option.splits)

lemma store_step_edges:
  assumes "store_step pv g op w = Some g'"
  shows "g_edges g' = (case op of
      UpsertEdge e \<Rightarrow> (g_edges g)(e_id e \<mapsto> Live (e\<lparr>e_last_write_seq := w\<rparr>))
    | DeleteEdge i t \<Rightarrow> (g_edges g)(i \<mapsto> Tombstone \<lparr>deleted_at = t, t_last_write_seq = w\<rparr>)
    | _ \<Rightarrow> g_edges g)"
  using assms
  by (cases op) (auto simp: store_upsert_node_def store_upsert_edge_def store_delete_node_def store_delete_edge_def Let_def
      swap_node_def swap_edge_def dest!: store_sync_frame store_sync_edge_frame split: option.splits)

lemma ids_ok_step:
  assumes "ids_ok g" and "op_ok op" and "store_step pv g op w = Some g'"
  shows "ids_ok g'"
  using assms(1,2)
  by (cases op) (auto simp: ids_ok_def live_node_def live_edge_def store_step_nodes [OF assms(3)] store_step_edges [OF assms(3)])

section \<open>Runs\<close>

fun apply_ops :: "(prop_value \<Rightarrow> bytes) \<Rightarrow> memtable_state \<Rightarrow> (wal_op \<times> u64) list \<Rightarrow> memtable_state option" where
  "apply_ops pv st [] = Some st"
| "apply_ops pv st ((op, w) # rest) = Option.bind (apply_op pv st op w) (\<lambda>st. apply_ops pv st rest)"

fun store_run :: "(prop_value \<Rightarrow> bytes) \<Rightarrow> graph_store \<Rightarrow> (wal_op \<times> u64) list \<Rightarrow> graph_store option" where
  "store_run pv g [] = Some g"
| "store_run pv g ((op, w) # rest) = Option.bind (store_step pv g op w) (\<lambda>g. store_run pv g rest)"

definition log_ok :: "u64 \<Rightarrow> (wal_op \<times> u64) list \<Rightarrow> bool" where
  "log_ok w ops \<longleftrightarrow> sorted (w # map snd ops) \<and> (\<forall>(op, _) \<in> set ops. op_ok op)"

lemma apply_ops_view:
  assumes "settled st w" and "ids_ok (view st U64_MAX)" and "log_ok w ops" and "apply_ops pv st ops = Some st'"
    and "w \<le> s"
  shows "store_run pv (view st s) (filter (\<lambda>(_, x). x \<le> s) ops) = Some (view st' s)"
  using assms
proof (induction ops arbitrary: st w)
  case (Cons e ops)
  obtain op x where e: "e = (op, x)" by (cases e)
  from Cons.prems e obtain st1 where st1: "apply_op pv st op x = Some st1" "apply_ops pv st1 ops = Some st'"
    by (auto simp: bind_eq_Some_conv)
  have x: "w \<le> x" "log_ok x ops" "op_ok op" using Cons.prems(3) e by (auto simp: log_ok_def)
  have set: "settled st x" by (rule settled_mono [OF Cons.prems(1) x(1)])
  have set1: "settled st1 x" by (rule settled_apply_op [OF set Cons.prems(2) x(3) st1(1)])
  have "Some (view st1 U64_MAX) = store_step pv (view st U64_MAX) op x"
    using view_apply_op_new [OF set le_U64_MAX Cons.prems(2) x(3), of pv] st1(1) by simp
  then have ids: "ids_ok (view st1 U64_MAX)" using ids_ok_step [OF Cons.prems(2) x(3)] by metis
  show ?case
  proof (cases "x \<le> s")
    case True
    have "view st U64_MAX = view st s" by (rule settledD [OF Cons.prems(1,5)])
    then have "Some (view st1 s) = store_step pv (view st s) op x"
      using view_apply_op_new [OF set True _ x(3), of pv] Cons.prems(2) st1(1) by simp
    with Cons.IH [OF set1 ids x(2) st1(2) True] True e show ?thesis by (auto dest: sym)
  next
    case False
    then have gone: "filter (\<lambda>(_, y). y \<le> s) ops = []"
      using x(2) by (auto simp: log_ok_def filter_empty_conv)
    have "view st1 s = view st s" by (rule view_apply_op_old [OF st1(1) False])
    moreover have "view st' s = view st1 s"
      using st1(2) x(2) False
    proof (induction ops arbitrary: st1 x)
      case (Cons e ops)
      obtain op y where e: "e = (op, y)" by (cases e)
      from Cons.prems e obtain st2 where st2: "apply_op pv st1 op y = Some st2" "apply_ops pv st2 ops = Some st'"
        by (auto simp: bind_eq_Some_conv)
      have "\<not> y \<le> s" "log_ok y ops" using Cons.prems(2,3) e by (auto simp: log_ok_def)
      with Cons.IH [OF st2(2)] view_apply_op_old [OF st2(1)] show ?case by simp
    qed simp
    ultimately show ?thesis using False gone e by simp
  qed
qed simp

definition store_empty :: graph_store where
  "store_empty = \<lparr>secondary_index_declarations = fmempty, secondary_eq_by_prop = fmempty,
     secondary_range_by_prop = fmempty, secondary_edge_eq_by_prop = fmempty,
     secondary_edge_range_by_prop = fmempty, secondary_node_field_indexes_by_label = fmempty,
     secondary_edge_field_indexes_by_label = fmempty,
     g_nodes = (\<lambda>_. None), g_edges = (\<lambda>_. None), g_node_tombstones = (\<lambda>_. None), g_edge_tombstones = (\<lambda>_. None),
     g_keys = (\<lambda>_. None), g_triples = (\<lambda>_. None), g_adj_out = (\<lambda>_. None), g_adj_in = (\<lambda>_. None),
     g_edge_ids = (\<lambda>_. None), g_node_labels = (\<lambda>_. None), g_ordered_edge_labels = (\<lambda>_. None),
     g_ordered_adj_out = (\<lambda>_. None), g_ordered_adj_in = (\<lambda>_. None), g_edge_labels = (\<lambda>_. None),
     g_times = (\<lambda>_. None), g_eq = (\<lambda>_. None), g_range = (\<lambda>_. None), g_compound = (\<lambda>_. None)\<rparr>"

lemma view_new [simp]: "view memtable_new s = store_empty"
  by (simp add: view_def memtable_new_def store_empty_def)

lemma settled_new: "settled memtable_new w"
  by (simp add: settled_def)

lemma live_empty [simp]: "live_node store_empty i = None" "live_edge store_empty i = None"
  by (simp_all add: live_node_def live_edge_def store_empty_def)

lemma ids_ok_empty: "ids_ok store_empty"
  by (simp add: ids_ok_def)

lemma log_view:
  assumes "log_ok 0 ops" and "apply_ops pv memtable_new ops = Some st"
  shows "store_run pv store_empty (filter (\<lambda>(_, w). w \<le> s) ops) = Some (view st s)"
  using apply_ops_view [OF settled_new [of 0] _ assms, of s] ids_ok_empty by simp

end
