(* ===== verification/Memtable_Store.thy ===== *)
theory Memtable_Store
  imports Memtable_View
begin

text \<open>
  The indexes of the single-version store agree with its records: label, time, adjacency and
  tombstone entries are exactly those of the live records, the triple index names a live edge of
  the triple, and, as long as no two live nodes share a label and a key, the key index names the
  node. Every step keeps this; through the views it holds of the memtable at every snapshot.
\<close>

section \<open>Index consistency\<close>

definition node_indexes_ok :: "graph_store \<Rightarrow> bool" where
  "node_indexes_ok g \<longleftrightarrow>
     (\<forall>l i. g_node_labels g (l, i) = Some () \<longleftrightarrow> (\<exists>n. live_node g i = Some n \<and> l \<in> labels_of n)) \<and>
     (\<forall>l t i. g_times g (l, t, i) = Some () \<longleftrightarrow>
        (\<exists>n. live_node g i = Some n \<and> l \<in> labels_of n \<and> sint (n_updated_at n) = t)) \<and>
     (\<forall>i. g_node_tombstones g i = Some () \<longleftrightarrow> (\<exists>t. g_nodes g i = Some (Tombstone t)))"

definition edge_indexes_ok :: "graph_store \<Rightarrow> bool" where
  "edge_indexes_ok g \<longleftrightarrow>
     (\<forall>l i. g_edge_labels g (l, i) = Some () \<longleftrightarrow> (\<exists>e. live_edge g i = Some e \<and> e_label_id e = l)) \<and>
     g_ordered_edge_labels g = g_edge_labels g \<and>
     (\<forall>i. g_edge_ids g i = Some () \<longleftrightarrow> live_edge g i \<noteq> None) \<and>
     (\<forall>a i x. g_adj_out g (a, i) = Some x \<longleftrightarrow> (\<exists>e. live_edge g i = Some e \<and> e_from e = a \<and> x = adj_out_entry e)) \<and>
     (\<forall>a i x. g_adj_in g (a, i) = Some x \<longleftrightarrow> (\<exists>e. live_edge g i = Some e \<and> e_to e = a \<and> x = adj_in_entry e)) \<and>
     g_ordered_adj_out g = g_adj_out g \<and> g_ordered_adj_in g = g_adj_in g \<and>
     (\<forall>t i. g_triples g t = Some i \<longrightarrow> (\<exists>e. live_edge g i = Some e \<and> triple_of e = t)) \<and>
     (\<forall>i. g_edge_tombstones g i = Some () \<longleftrightarrow> (\<exists>t. g_edges g i = Some (Tombstone t)))"

definition key_index_ok :: "graph_store \<Rightarrow> bool" where
  "key_index_ok g \<longleftrightarrow> (\<forall>l k i. g_keys g (l, k) = Some i \<longleftrightarrow>
     (\<exists>n. live_node g i = Some n \<and> l \<in> labels_of n \<and> n_key n = k))"

text \<open>No other live node has the key under one of the labels.\<close>

definition key_free :: "graph_store \<Rightarrow> wal_op \<Rightarrow> bool" where
  "key_free g op \<longleftrightarrow> (case op of
     UpsertNode n \<Rightarrow> (\<forall>j m. live_node g j = Some m \<longrightarrow> j \<noteq> n_id n \<longrightarrow> n_key m = n_key n \<longrightarrow> labels_of m \<inter> labels_of n = {})
   | _ \<Rightarrow> True)"

lemma live_node_upd:
  "live_node (g\<lparr>g_nodes := (g_nodes g)(i \<mapsto> x)\<rparr>) j = (if j = i then live_value x else live_node g j)"
  by (simp add: live_node_def)

lemma live_node_step:
  assumes "store_step pv g op w = Some g'"
  shows "live_node g' j = (case op of
      UpsertNode n \<Rightarrow> if j = n_id n then Some (n\<lparr>n_last_write_seq := w\<rparr>) else live_node g j
    | DeleteNode i t \<Rightarrow> if j = i then None else live_node g j
    | _ \<Rightarrow> live_node g j)"
  by (simp add: live_node_def store_step_nodes [OF assms] split: wal_op.split)

lemma live_edge_step:
  assumes "store_step pv g op w = Some g'"
  shows "live_edge g' j = (case op of
      UpsertEdge e \<Rightarrow> if j = e_id e then Some (e\<lparr>e_last_write_seq := w\<rparr>) else live_edge g j
    | DeleteEdge i t \<Rightarrow> if j = i then None else live_edge g j
    | _ \<Rightarrow> live_edge g j)"
  by (simp add: live_edge_def store_step_edges [OF assms] split: wal_op.split)

section \<open>What a step does to each index\<close>

text \<open>The versions of the touched record before and after an operation.\<close>

fun old_node :: "graph_store \<Rightarrow> wal_op \<Rightarrow> node_record option" where
  "old_node g (UpsertNode n) = live_node g (n_id n)"
| "old_node g (DeleteNode i _) = live_node g i"
| "old_node g _ = None"

fun new_node :: "wal_op \<Rightarrow> node_record option" where
  "new_node (UpsertNode n) = Some n"
| "new_node _ = None"

fun old_edge :: "graph_store \<Rightarrow> wal_op \<Rightarrow> edge_record option" where
  "old_edge g (UpsertEdge e) = live_edge g (e_id e)"
| "old_edge g (DeleteEdge i _) = live_edge g i"
| "old_edge g _ = None"

fun new_edge :: "wal_op \<Rightarrow> edge_record option" where
  "new_edge (UpsertEdge e) = Some e"
| "new_edge _ = None"

lemma swap_entries_id: "swap_entries (\<lambda>_. False) (\<lambda>_. False) v f = f"
  by (simp add: swap_entries_def)

lemmas store_ops = store_upsert_node_def store_upsert_edge_def store_delete_node_def store_delete_edge_def

lemma store_step_node_indexes:
  assumes "store_step pv g op w = Some g'"
  shows "g_node_labels g' = swap_entries (of_old label_entry (old_node g op)) (of_old label_entry (new_node op)) (Some ()) (g_node_labels g)"
    and "g_times g' = swap_entries (of_old time_entry (old_node g op)) (of_old time_entry (new_node op)) (Some ()) (g_times g)"
    and "g_keys g' = swap_entries (of_old key_entry (old_node g op)) (of_old key_entry (new_node op))
           (map_option n_id (new_node op)) (g_keys g)"
  using assms
  by (cases op; auto simp: store_ops Let_def swap_node_def swap_edge_def swap_entries_id
      dest!: store_sync_node_run store_sync_edge_run split: option.splits;
      auto simp: swap_entries_def fun_eq_iff)+

lemma store_step_edge_indexes:
  assumes "store_step pv g op w = Some g'"
  shows "g_edge_labels g' = swap_entries (of_old edge_label_entry (old_edge g op)) (of_old edge_label_entry (new_edge op)) (Some ()) (g_edge_labels g)"
    and "g_ordered_edge_labels g' = swap_entries (of_old edge_label_entry (old_edge g op)) (of_old edge_label_entry (new_edge op)) (Some ()) (g_ordered_edge_labels g)"
    and "g_adj_out g' = swap_entries (of_old out_entry (old_edge g op)) (of_old out_entry (new_edge op)) (map_option adj_out_entry (new_edge op)) (g_adj_out g)"
    and "g_ordered_adj_out g' = swap_entries (of_old out_entry (old_edge g op)) (of_old out_entry (new_edge op)) (map_option adj_out_entry (new_edge op)) (g_ordered_adj_out g)"
    and "g_adj_in g' = swap_entries (of_old in_entry (old_edge g op)) (of_old in_entry (new_edge op)) (map_option adj_in_entry (new_edge op)) (g_adj_in g)"
    and "g_ordered_adj_in g' = swap_entries (of_old in_entry (old_edge g op)) (of_old in_entry (new_edge op)) (map_option adj_in_entry (new_edge op)) (g_ordered_adj_in g)"
  using assms
  by (cases op; auto simp: store_ops Let_def swap_node_def swap_edge_def swap_entries_id
      dest!: store_sync_node_run store_sync_edge_run split: option.splits)+

lemma store_step_edge_ids:
  assumes "store_step pv g op w = Some g'" and "ids_ok g"
  shows "g_edge_ids g' = (case op of UpsertEdge e \<Rightarrow> (g_edge_ids g)(e_id e \<mapsto> ())
    | DeleteEdge i _ \<Rightarrow> (if live_edge g i = None then g_edge_ids g else (g_edge_ids g)(i := None)) | _ \<Rightarrow> g_edge_ids g)"
  using assms by (cases op) (auto simp: store_ops Let_def swap_node_def swap_edge_def ids_ok_def
      dest!: store_sync_node_run store_sync_edge_run split: option.splits)

lemma store_step_triples:
  assumes "store_step pv g op w = Some g'"
  shows "g_triples g' = (case op of UpsertEdge e \<Rightarrow> swap_triples (live_edge g (e_id e)) e (g_triples g)
    | DeleteEdge i _ \<Rightarrow> (case live_edge g i of None \<Rightarrow> g_triples g | Some e \<Rightarrow> clear_triple e (g_triples g)) | _ \<Rightarrow> g_triples g)"
  using assms by (cases op) (auto simp: store_ops Let_def swap_node_def swap_edge_def
      dest!: store_sync_node_run store_sync_edge_run split: option.splits)

lemma store_step_tombstones:
  assumes "store_step pv g op w = Some g'"
  shows "g_node_tombstones g' = (case op of UpsertNode n \<Rightarrow> (g_node_tombstones g)(n_id n := None)
      | DeleteNode i _ \<Rightarrow> (g_node_tombstones g)(i \<mapsto> ()) | _ \<Rightarrow> g_node_tombstones g)"
    and "g_edge_tombstones g' = (case op of UpsertEdge e \<Rightarrow> (g_edge_tombstones g)(e_id e := None)
      | DeleteEdge i _ \<Rightarrow> (g_edge_tombstones g)(i \<mapsto> ()) | _ \<Rightarrow> g_edge_tombstones g)"
  using assms by (cases op; auto simp: store_ops Let_def swap_node_def swap_edge_def
      dest!: store_sync_node_run store_sync_edge_run split: option.splits)+

section \<open>Steps keep the indexes consistent\<close>

lemmas node_entry_defs = label_entry_def time_entry_def key_entry_def

lemma node_indexes_step:
  assumes "node_indexes_ok g" and "ids_ok g" and "store_step pv g op w = Some g'"
  shows "node_indexes_ok g'"
proof -
  note live = live_node_step [OF assms(3)] and idx = store_step_node_indexes(1,2) [OF assms(3)]
    and tomb = store_step_tombstones(1) [OF assms(3)] and recs = store_step_nodes [OF assms(3)]
  have ids: "live_node g i = Some n \<Longrightarrow> n_id n = i" for i n using assms(2) by (simp add: ids_ok_def)
  have "g_node_labels g' (l, i) = Some () \<longleftrightarrow> (\<exists>n. live_node g' i = Some n \<and> l \<in> labels_of n)" for l i
    using assms(1) unfolding node_indexes_ok_def live idx
    by (cases op) (auto simp: swap_entries_def node_entry_defs ids split: option.splits)
  moreover have "g_times g' (l, t, i) = Some () \<longleftrightarrow>
      (\<exists>n. live_node g' i = Some n \<and> l \<in> labels_of n \<and> sint (n_updated_at n) = t)" for l t i
    using assms(1) unfolding node_indexes_ok_def live idx
    by (cases op) (auto simp: swap_entries_def node_entry_defs ids split: option.splits)
  moreover have "g_node_tombstones g' i = Some () \<longleftrightarrow> (\<exists>t. g_nodes g' i = Some (Tombstone t))" for i
    using assms(1) unfolding node_indexes_ok_def tomb recs by (cases op) auto
  ultimately show ?thesis unfolding node_indexes_ok_def by blast
qed

lemma key_index_step:
  assumes "key_index_ok g" and "ids_ok g" and "key_free g op" and "store_step pv g op w = Some g'"
  shows "key_index_ok g'"
proof -
  note live = live_node_step [OF assms(4)] and idx = store_step_node_indexes(3) [OF assms(4)]
  have ids: "live_node g i = Some n \<Longrightarrow> n_id n = i" for i n using assms(2) by (simp add: ids_ok_def)
  have keys: "g_keys g (l, k) = Some i \<longleftrightarrow> (\<exists>n. live_node g i = Some n \<and> l \<in> labels_of n \<and> n_key n = k)" for l k i
    using assms(1) by (simp add: key_index_ok_def)
  have unique: "i = j" if "live_node g i = Some n" "live_node g j = Some m" "l \<in> labels_of n" "l \<in> labels_of m" "n_key n = n_key m"
    for i j n m l using keys [of l "n_key n" i] keys [of l "n_key n" j] that by auto
  have free: "n_key m \<noteq> n_key n \<or> l \<notin> labels_of m" if "op = UpsertNode n" "live_node g j = Some m" "j \<noteq> n_id n" "l \<in> labels_of n"
    for n j m l using assms(3) that by (auto simp: key_free_def)
  have "g_keys g' (l, k) = Some i \<longleftrightarrow> (\<exists>n. live_node g' i = Some n \<and> l \<in> labels_of n \<and> n_key n = k)" for l k i
    unfolding live idx
    by (cases op) (auto simp: swap_entries_def node_entry_defs ids keys split: option.splits dest: unique free)
  then show ?thesis unfolding key_index_ok_def by blast
qed

lemma triples_step:
  assumes "\<And>t i. g_triples g t = Some i \<Longrightarrow> \<exists>e. live_edge g i = Some e \<and> triple_of e = t"
    and "ids_ok g" and "store_step pv g op w = Some g'" and "g_triples g' t = Some i"
  shows "\<exists>e. live_edge g' i = Some e \<and> triple_of e = t"
proof -
  have ids: "live_edge g i = Some e \<Longrightarrow> e_id e = i" for i e using assms(2) by (simp add: ids_ok_def)
  show ?thesis
    using assms(1) [of t i] assms(4) unfolding live_edge_step [OF assms(3)] store_step_triples [OF assms(3)]
    by (cases op) (auto simp: swap_triples_def clear_triple_def ids split: option.splits if_splits)
qed

lemma edge_indexes_step:
  assumes "edge_indexes_ok g" and "ids_ok g" and "store_step pv g op w = Some g'"
  shows "edge_indexes_ok g'"
proof -
  note live = live_edge_step [OF assms(3)] and idx = store_step_edge_indexes [OF assms(3)]
    and tomb = store_step_tombstones(2) [OF assms(3)] and recs = store_step_edges [OF assms(3)]
    and eids = store_step_edge_ids [OF assms(3,2)]
  have ids: "live_edge g i = Some e \<Longrightarrow> e_id e = i" for i e using assms(2) by (simp add: ids_ok_def)
  note old = assms(1) [unfolded edge_indexes_ok_def]
  have same: "g_ordered_edge_labels g' = g_edge_labels g'" "g_ordered_adj_out g' = g_adj_out g'" "g_ordered_adj_in g' = g_adj_in g'"
    using old by (simp_all add: idx)
  have labels: "g_edge_labels g' (l, i) = Some () \<longleftrightarrow> (\<exists>e. live_edge g' i = Some e \<and> e_label_id e = l)" for l i
    using old unfolding live idx
    by (cases op) (auto simp: swap_entries_def edge_entry_defs ids split: option.splits)
  have eid: "g_edge_ids g' i = Some () \<longleftrightarrow> live_edge g' i \<noteq> None" for i
    using old unfolding live eids by (cases op) (auto split: if_splits)
  have out: "g_adj_out g' (a, i) = Some x \<longleftrightarrow> (\<exists>e. live_edge g' i = Some e \<and> e_from e = a \<and> x = adj_out_entry e)" for a i x
    using old unfolding live idx
    by (cases op) (auto simp: swap_entries_def edge_entry_defs ids adj_out_entry_def split: option.splits)
  have inc: "g_adj_in g' (a, i) = Some x \<longleftrightarrow> (\<exists>e. live_edge g' i = Some e \<and> e_to e = a \<and> x = adj_in_entry e)" for a i x
    using old unfolding live idx
    by (cases op) (auto simp: swap_entries_def edge_entry_defs ids adj_in_entry_def split: option.splits)
  have dead: "g_edge_tombstones g' i = Some () \<longleftrightarrow> (\<exists>t. g_edges g' i = Some (Tombstone t))" for i
    using old unfolding tomb recs by (cases op) auto
  have trip: "\<exists>e. live_edge g' i = Some e \<and> triple_of e = t" if "g_triples g' t = Some i" for t i
    by (rule triples_step [OF _ assms(2,3) that]) (use old in blast)
  show ?thesis
    unfolding edge_indexes_ok_def using same labels eid out inc dead trip by blast
qed

end
