(* ===== verification/Memtable_Index.thy ===== *)
theory Memtable_Index
  imports Memtable
begin

text \<open>
  Declaring and dropping a secondary index on a memtable, \<^verbatim>\<open>register_secondary_index\<close> and
  \<^verbatim>\<open>unregister_secondary_index\<close> of \<^verbatim>\<open>src/src/memtable.rs\<close>: the lookup tables from labels and
  property keys to index ids, the entries seeded from the current records, and the size estimate.
  Hash maps of records are walked in id order; the seeded entries of different records are in
  different slots.
\<close>

section \<open>Lookup tables\<close>

text \<open>The estimates of the equality and of the range lookup entries have the same formula.\<close>

definition add_prop_lookup ::
    "(rstring \<Rightarrow> u64 list \<Rightarrow> nat) \<Rightarrow> (u32, (rstring, u64 list) fmap) fmap \<Rightarrow> u32 \<Rightarrow> rstring \<Rightarrow> u64
       \<Rightarrow> (u32, (rstring, u64 list) fmap) fmap \<times> nat \<times> nat" where
  "add_prop_lookup est m label_id prop_key index_id =
     (let by_prop = entry_or_default m label_id in
      case fmlookup by_prop prop_key of
        Some index_ids \<Rightarrow>
          (fmupd label_id (fmupd prop_key (index_ids @ [index_id]) by_prop) m,
           est prop_key index_ids, est prop_key (index_ids @ [index_id]))
      | None \<Rightarrow> (fmupd label_id (fmupd prop_key [index_id] by_prop) m, 0, est prop_key [index_id]))"

definition remove_prop_lookup ::
    "(rstring \<Rightarrow> u64 list \<Rightarrow> nat) \<Rightarrow> (u32, (rstring, u64 list) fmap) fmap \<Rightarrow> u32 \<Rightarrow> rstring \<Rightarrow> u64
       \<Rightarrow> (u32, (rstring, u64 list) fmap) fmap \<times> nat \<times> nat" where
  "remove_prop_lookup est m label_id prop_key index_id = (case fmlookup m label_id of
     None \<Rightarrow> (m, 0, 0)
   | Some by_prop \<Rightarrow>
       let (by_prop', d) = (case fmlookup by_prop prop_key of
             None \<Rightarrow> (by_prop, 0, 0)
           | Some index_ids \<Rightarrow>
               let kept = filter (\<lambda>i. i \<noteq> index_id) index_ids in
               if kept = [] then (fmdrop prop_key by_prop, est prop_key index_ids, 0)
               else (fmupd prop_key kept by_prop, est prop_key index_ids, est prop_key kept))
       in (if by_prop' = fmempty then fmdrop label_id m else fmupd label_id by_prop' m, d))"

definition add_field_index_lookup :: "(u32, u64 list) fmap \<Rightarrow> u32 \<Rightarrow> u64 \<Rightarrow> (u32, u64 list) fmap \<times> nat \<times> nat" where
  "add_field_index_lookup m label_id index_id = (case fmlookup m label_id of
     Some index_ids \<Rightarrow>
       (fmupd label_id (index_ids @ [index_id]) m,
        estimate_secondary_field_lookup_entry index_ids, estimate_secondary_field_lookup_entry (index_ids @ [index_id]))
   | None \<Rightarrow> (fmupd label_id [index_id] m, 0, estimate_secondary_field_lookup_entry [index_id]))"

text \<open>
  \<^verbatim>\<open>remove_field_index_lookup\<close> also tells the caller to drop an emptied label entry; here the
  entry is dropped in the returned map.
\<close>

definition remove_field_index_lookup :: "(u32, u64 list) fmap \<Rightarrow> u32 \<Rightarrow> u64 \<Rightarrow> (u32, u64 list) fmap \<times> nat \<times> nat" where
  "remove_field_index_lookup m label_id index_id = (case fmlookup m label_id of
     None \<Rightarrow> (m, 0, 0)
   | Some index_ids \<Rightarrow>
       let kept = filter (\<lambda>i. i \<noteq> index_id) index_ids in
       if kept = [] then (fmdrop label_id m, estimate_secondary_field_lookup_entry index_ids, 0)
       else (fmupd label_id kept m, estimate_secondary_field_lookup_entry index_ids,
             estimate_secondary_field_lookup_entry kept))"

section \<open>Registering\<close>

definition live_nodes :: "memtable_state \<Rightarrow> node_record list" where
  "live_nodes st = List.map_filter (current_node st) (sorted_list_of_fset (fmdom (nodes st)))"

definition live_edges :: "memtable_state \<Rightarrow> edge_record list" where
  "live_edges st = List.map_filter (current_edge st) (sorted_list_of_fset (fmdom (edges st)))"

text \<open>The records an index covers, as (value, record id, sequence number).\<close>

definition node_seeds :: "memtable_state \<Rightarrow> u32 \<Rightarrow> rstring \<Rightarrow> (prop_value \<Rightarrow> 'v option) \<Rightarrow> ('v \<times> u64 \<times> u64) list" where
  "node_seeds st label_id prop_key enc = List.map_filter (\<lambda>node.
     if nls_contains (n_label_ids node) label_id
     then map_option (\<lambda>v. (v, n_id node, n_last_write_seq node)) (Option.bind (map_of (n_props node) prop_key) enc)
     else None) (live_nodes st)"

definition edge_seeds :: "memtable_state \<Rightarrow> u32 \<Rightarrow> rstring \<Rightarrow> (prop_value \<Rightarrow> 'v option) \<Rightarrow> ('v \<times> u64 \<times> u64) list" where
  "edge_seeds st label_id prop_key enc = List.map_filter (\<lambda>edge.
     if e_label_id edge = label_id
     then map_option (\<lambda>v. (v, e_id edge, e_last_write_seq edge)) (Option.bind (map_of (e_props edge) prop_key) enc)
     else None) (live_edges st)"

definition seed_eq :: "u64 \<Rightarrow> (u64 \<times> u64 \<times> u64) list \<Rightarrow> memtable_state \<Rightarrow> memtable_state" where
  "seed_eq index_id seeds st =
     (let st = st\<lparr>secondary_eq_state := fmupd index_id (entry_or_default (secondary_eq_state st) index_id) (secondary_eq_state st)\<rparr>
      in fold (\<lambda>(value_hash, record_id, write_seq) st. set_secondary_eq_slot st index_id value_hash record_id True write_seq) seeds st)"

definition seed_range :: "u64 \<Rightarrow> (bytes \<times> u64 \<times> u64) list \<Rightarrow> memtable_state \<Rightarrow> memtable_state" where
  "seed_range index_id seeds st =
     (let st = st\<lparr>secondary_range_state := fmupd index_id (entry_or_default (secondary_range_state st) index_id) (secondary_range_state st)\<rparr>
      in fold (\<lambda>(encoded, record_id, write_seq) st. set_secondary_range_slot st index_id encoded record_id True write_seq) seeds st)"

definition seed_compound :: "u64 \<Rightarrow> (bytes \<times> u64 \<times> u64) list \<Rightarrow> memtable_state \<Rightarrow> memtable_state" where
  "seed_compound index_id seeds st =
     (let st = st\<lparr>secondary_compound_state := fmupd index_id (entry_or_default (secondary_compound_state st) index_id) (secondary_compound_state st)\<rparr>
      in fold (\<lambda>(tuple_key, record_id, write_seq) st. set_compound_slot st index_id tuple_key record_id True write_seq) seeds st)"

definition node_compound_seeds ::
    "(prop_value \<Rightarrow> bytes) \<Rightarrow> memtable_state \<Rightarrow> u32 \<Rightarrow> secondary_index_field_manifest list \<Rightarrow> (bytes \<times> u64 \<times> u64) list option" where
  "node_compound_seeds pv_to_vec st label_id flds =
     those (map (\<lambda>node. map_option (\<lambda>key. (key, n_id node, n_last_write_seq node))
         (encode_node_compound_tuple_key pv_to_vec label_id flds node))
       (filter (\<lambda>node. nls_contains (n_label_ids node) label_id) (live_nodes st)))"

definition edge_compound_seeds ::
    "(prop_value \<Rightarrow> bytes) \<Rightarrow> memtable_state \<Rightarrow> u32 \<Rightarrow> secondary_index_field_manifest list \<Rightarrow> (bytes \<times> u64 \<times> u64) list option" where
  "edge_compound_seeds pv_to_vec st label_id flds =
     those (map (\<lambda>edge. map_option (\<lambda>key. (key, e_id edge, e_last_write_seq edge))
         (encode_edge_compound_tuple_key pv_to_vec label_id flds edge))
       (filter (\<lambda>edge. e_label_id edge = label_id) (live_edges st)))"

definition register_target ::
    "(prop_value \<Rightarrow> bytes) \<Rightarrow> memtable_state \<Rightarrow> secondary_index_manifest_entry \<Rightarrow> memtable_state option" where
  "register_target pv_to_vec st entry =
     (let index_id = sie_index_id entry; hash = (\<lambda>v. Some (hash_prop_equality_key pv_to_vec v)) in
      case sie_target entry of
        NodeProperty label_id prop_key \<Rightarrow> (case sie_kind entry of
          Equality \<Rightarrow>
            let (m, d) = add_prop_lookup estimate_secondary_eq_lookup_entry (secondary_eq_by_prop st) label_id prop_key index_id
            in Some (seed_eq index_id (node_seeds st label_id prop_key hash) (account d (st\<lparr>secondary_eq_by_prop := m\<rparr>)))
        | Range \<Rightarrow>
            let (m, d) = add_prop_lookup estimate_secondary_range_lookup_entry (secondary_range_by_prop st) label_id prop_key index_id
            in Some (seed_range index_id (node_seeds st label_id prop_key numeric_range_sort_key_for_value)
                 (account d (st\<lparr>secondary_range_by_prop := m\<rparr>))))
      | EdgeProperty label_id prop_key \<Rightarrow> (case sie_kind entry of
          Equality \<Rightarrow>
            let (m, d) = add_prop_lookup estimate_secondary_eq_lookup_entry (secondary_edge_eq_by_prop st) label_id prop_key index_id
            in Some (seed_eq index_id (edge_seeds st label_id prop_key hash) (account d (st\<lparr>secondary_edge_eq_by_prop := m\<rparr>)))
        | Range \<Rightarrow>
            let (m, d) = add_prop_lookup estimate_secondary_range_lookup_entry (secondary_edge_range_by_prop st) label_id prop_key index_id
            in Some (seed_range index_id (edge_seeds st label_id prop_key numeric_range_sort_key_for_value)
                 (account d (st\<lparr>secondary_edge_range_by_prop := m\<rparr>))))
      | NodeFieldIndex label_id flds \<Rightarrow>
          let (m, d) = add_field_index_lookup (secondary_node_field_indexes_by_label st) label_id index_id
          in map_option (\<lambda>seeds. seed_compound index_id seeds (account d (st\<lparr>secondary_node_field_indexes_by_label := m\<rparr>)))
               (node_compound_seeds pv_to_vec st label_id flds)
      | EdgeFieldIndex label_id flds \<Rightarrow>
          let (m, d) = add_field_index_lookup (secondary_edge_field_indexes_by_label st) label_id index_id
          in map_option (\<lambda>seeds. seed_compound index_id seeds (account d (st\<lparr>secondary_edge_field_indexes_by_label := m\<rparr>)))
               (edge_compound_seeds pv_to_vec st label_id flds))"

definition register_secondary_index ::
    "(prop_value \<Rightarrow> bytes) \<Rightarrow> memtable_state \<Rightarrow> secondary_index_manifest_entry \<Rightarrow> memtable_state option" where
  "register_secondary_index pv_to_vec st entry =
     (if fmlookup (secondary_index_declarations st) (sie_index_id entry) \<noteq> None then Some st
      else register_target pv_to_vec
        (st\<lparr>secondary_index_declarations := fmupd (sie_index_id entry) entry (secondary_index_declarations st),
            estimated_bytes := estimated_bytes st + estimate_secondary_decl_entry entry\<rparr>) entry)"

section \<open>Unregistering\<close>

text \<open>Remove the entries of an index; the source subtracts their size with \<^verbatim>\<open>saturating_sub\<close>.\<close>

definition drop_eq_state :: "u64 \<Rightarrow> memtable_state \<Rightarrow> memtable_state" where
  "drop_eq_state index_id st = (case fmlookup (secondary_eq_state st) index_id of
     None \<Rightarrow> st
   | Some groups \<Rightarrow> st\<lparr>secondary_eq_state := fmdrop index_id (secondary_eq_state st),
       estimated_bytes := estimated_bytes st - estimate_secondary_eq_state_groups groups\<rparr>)"

definition drop_range_state :: "u64 \<Rightarrow> memtable_state \<Rightarrow> memtable_state" where
  "drop_range_state index_id st = (case fmlookup (secondary_range_state st) index_id of
     None \<Rightarrow> st
   | Some entries \<Rightarrow> st\<lparr>secondary_range_state := fmdrop index_id (secondary_range_state st),
       estimated_bytes := estimated_bytes st - estimate_secondary_range_state_entries entries\<rparr>)"

definition drop_compound_state :: "u64 \<Rightarrow> memtable_state \<Rightarrow> memtable_state" where
  "drop_compound_state index_id st = (case fmlookup (secondary_compound_state st) index_id of
     None \<Rightarrow> st
   | Some entries \<Rightarrow> st\<lparr>secondary_compound_state := fmdrop index_id (secondary_compound_state st),
       estimated_bytes := estimated_bytes st - estimate_compound_state_entries entries\<rparr>)"

definition unregister_target :: "memtable_state \<Rightarrow> secondary_index_manifest_entry \<Rightarrow> u64 \<Rightarrow> memtable_state" where
  "unregister_target st entry index_id = (case sie_target entry of
     NodeProperty label_id prop_key \<Rightarrow> (case sie_kind entry of
       Equality \<Rightarrow>
         let (m, d) = remove_prop_lookup estimate_secondary_eq_lookup_entry (secondary_eq_by_prop st) label_id prop_key index_id
         in drop_eq_state index_id (account d (st\<lparr>secondary_eq_by_prop := m\<rparr>))
     | Range \<Rightarrow>
         let (m, d) = remove_prop_lookup estimate_secondary_range_lookup_entry (secondary_range_by_prop st) label_id prop_key index_id
         in drop_range_state index_id (account d (st\<lparr>secondary_range_by_prop := m\<rparr>)))
   | EdgeProperty label_id prop_key \<Rightarrow> (case sie_kind entry of
       Equality \<Rightarrow>
         let (m, d) = remove_prop_lookup estimate_secondary_eq_lookup_entry (secondary_edge_eq_by_prop st) label_id prop_key index_id
         in drop_eq_state index_id (account d (st\<lparr>secondary_edge_eq_by_prop := m\<rparr>))
     | Range \<Rightarrow>
         let (m, d) = remove_prop_lookup estimate_secondary_range_lookup_entry (secondary_edge_range_by_prop st) label_id prop_key index_id
         in drop_range_state index_id (account d (st\<lparr>secondary_edge_range_by_prop := m\<rparr>)))
   | NodeFieldIndex label_id _ \<Rightarrow>
       let (m, d) = remove_field_index_lookup (secondary_node_field_indexes_by_label st) label_id index_id
       in drop_compound_state index_id (account d (st\<lparr>secondary_node_field_indexes_by_label := m\<rparr>))
   | EdgeFieldIndex label_id _ \<Rightarrow>
       let (m, d) = remove_field_index_lookup (secondary_edge_field_indexes_by_label st) label_id index_id
       in drop_compound_state index_id (account d (st\<lparr>secondary_edge_field_indexes_by_label := m\<rparr>)))"

definition unregister_secondary_index :: "memtable_state \<Rightarrow> u64 \<Rightarrow> memtable_state \<times> bool" where
  "unregister_secondary_index st index_id = (case fmlookup (secondary_index_declarations st) index_id of
     None \<Rightarrow> (st, False)
   | Some entry \<Rightarrow>
       (unregister_target (st\<lparr>secondary_index_declarations := fmdrop index_id (secondary_index_declarations st),
            estimated_bytes := estimated_bytes st - estimate_secondary_decl_entry entry\<rparr>) entry index_id, True))"

end
