(* ===== verification/Memtable_Size.thy ===== *)
theory Memtable_Size
  imports Memtable_Index
begin

text \<open>
  The running size estimate of the memtable is exact: after every operation it equals the sum
  \<^verbatim>\<open>recompute_estimated_size\<close> takes over all maps, so its decrements never underflow. The maps
  meet the contract \<open>sized_mvcc_map\<close>, and the setters inherit the balance from it.
\<close>

section \<open>The sized maps\<close>

lemma put_slot_size: "msize f (put_slot m k w v) + entry_size f m k = msize f m + entry_size f (put_slot m k w v) k"
  using msize_upd [of f k "upsert_slot (fmlookup m k) w v" m] by (simp add: put_slot_def)

lemma entry_size_le: "entry_size f m k \<le> msize f m"
  using msize_split [of f m k] by simp

definition nested_est :: "('b \<Rightarrow> 'v \<Rightarrow> nat) \<Rightarrow> ('a, ('b, 'v) fmap) fmap \<Rightarrow> 'a \<times> 'b \<Rightarrow> nat" where
  "nested_est f m k = entry_size f (entry_or_default m (fst k)) (snd k)"

lemma entry_size_nested: "entry_size (\<lambda>_. msize f) m a = msize f (entry_or_default m a)"
  by (simp add: entry_size_def entry_or_default_def split: option.split)

lemma entry_or_default_upd [simp]: "entry_or_default (fmupd a x m) a' = (if a' = a then x else entry_or_default m a')"
  by (simp add: entry_or_default_def)

lemma put_nested_size:
  "msize (\<lambda>_. msize f) (put_nested m k w v) + nested_est f m k =
     msize (\<lambda>_. msize f) m + nested_est f (put_nested m k w v) k"
  using msize_upd [of "\<lambda>_. msize f" "fst k" "put_slot (entry_or_default m (fst k)) (snd k) w v" m]
    put_slot_size [of f "entry_or_default m (fst k)" "snd k" w v]
  by (simp add: put_nested_def entry_size_nested nested_est_def)

lemma nested_est_le: "nested_est f m k \<le> msize (\<lambda>_. msize f) m"
  using entry_size_le [of f "entry_or_default m (fst k)" "snd k"] entry_size_le [of "\<lambda>_. msize f" m "fst k"]
  by (simp add: nested_est_def entry_size_nested)

definition nested3_est :: "('c \<Rightarrow> 'v \<Rightarrow> nat) \<Rightarrow> ('a, ('b, ('c, 'v) fmap) fmap) fmap \<Rightarrow> 'a \<times> 'b \<times> 'c \<Rightarrow> nat" where
  "nested3_est f m k = nested_est f (entry_or_default m (fst k)) (snd k)"

lemma put_nested3_size:
  "msize (\<lambda>_. msize (\<lambda>_. msize f)) (put_nested3 m k w v) + nested3_est f m k =
     msize (\<lambda>_. msize (\<lambda>_. msize f)) m + nested3_est f (put_nested3 m k w v) k"
  using msize_upd [of "\<lambda>_. msize (\<lambda>_. msize f)" "fst k" "put_nested (entry_or_default m (fst k)) (snd k) w v" m]
    put_nested_size [of f "entry_or_default m (fst k)" "snd k" w v]
  by (simp add: put_nested3_def entry_size_nested nested3_est_def)

lemma nested3_est_le: "nested3_est f m k \<le> msize (\<lambda>_. msize (\<lambda>_. msize f)) m"
  using nested_est_le [of f "entry_or_default m (fst k)" "snd k"] entry_size_le [of "\<lambda>_. msize (\<lambda>_. msize f)" m "fst k"]
  by (simp add: nested3_est_def entry_size_nested)

interpretation sized_records: sized_mvcc_map put_slot rec_at Some "entry_size f" "msize f" for f
  by unfold_locales (rule put_slot_size, rule entry_size_le)

interpretation sized_options: sized_mvcc_map put_slot opt_at "\<lambda>v. v" "entry_size f" "msize f" for f
  by unfold_locales (rule put_slot_size, rule entry_size_le)

interpretation sized_nested: sized_mvcc_map put_nested nested_at "\<lambda>v. v" "nested_est f" "msize (\<lambda>_. msize f)" for f
  by unfold_locales (rule put_nested_size, rule nested_est_le)

interpretation sized_nested3: sized_mvcc_map put_nested3 nested3_at "\<lambda>v. v" "nested3_est f" "msize (\<lambda>_. msize (\<lambda>_. msize f))" for f
  by unfold_locales (rule put_nested3_size, rule nested3_est_le)

section \<open>The recomputed size\<close>

definition key_entry_estimate :: "rstring \<Rightarrow> u64 lookup_slot \<Rightarrow> nat" where
  "key_entry_estimate key slot = length key + estimate_lookup_slot slot"

definition recompute_estimated_size :: "memtable_state \<Rightarrow> nat" where
  "recompute_estimated_size st =
     (let member = (\<lambda>_. estimate_membership_slot); adj = (\<lambda>_. msize (\<lambda>_. estimate_adj_slot));
          node_size = msize (\<lambda>_. estimate_node_record_slot) (nodes st);
          edge_size = msize (\<lambda>_. estimate_edge_record_slot) (edges st);
          node_key_size = msize (\<lambda>_. msize key_entry_estimate) (node_key_index st);
          edge_triple_size = msize (\<lambda>_. estimate_lookup_slot) (edge_triple_index st);
          adj_out_size = msize adj (adj_out st);
          adj_in_size = msize adj (adj_in st);
          ordered_edge_size = msize member (ordered_edge_ids st) + msize (\<lambda>_. estimate_membership_slot) (label_node_index st)
            + msize (\<lambda>_. estimate_membership_slot) (ordered_label_edge_index st);
          ordered_adj_size = msize adj (ordered_adj_out st) + msize adj (ordered_adj_in st);
          label_idx_size = msize (\<lambda>_. msize (\<lambda>_. estimate_membership_slot)) (label_edge_index st);
          time_idx_size = msize (\<lambda>_. estimate_membership_slot) (time_node_index st);
          secondary_decl_size = msize (\<lambda>_. estimate_secondary_decl_entry) (secondary_index_declarations st);
          secondary_eq_lookup_size = msize (\<lambda>_. msize estimate_secondary_eq_lookup_entry) (secondary_eq_by_prop st);
          secondary_range_lookup_size = msize (\<lambda>_. msize estimate_secondary_range_lookup_entry) (secondary_range_by_prop st);
          secondary_edge_eq_lookup_size = msize (\<lambda>_. msize estimate_secondary_eq_lookup_entry) (secondary_edge_eq_by_prop st);
          secondary_edge_range_lookup_size = msize (\<lambda>_. msize estimate_secondary_range_lookup_entry) (secondary_edge_range_by_prop st);
          secondary_node_field_lookup_size = msize (\<lambda>_. estimate_secondary_field_lookup_entry) (secondary_node_field_indexes_by_label st);
          secondary_edge_field_lookup_size = msize (\<lambda>_. estimate_secondary_field_lookup_entry) (secondary_edge_field_indexes_by_label st);
          secondary_eq_state_size = msize (\<lambda>_. estimate_secondary_eq_state_groups) (secondary_eq_state st);
          secondary_range_state_size = msize (\<lambda>_. estimate_secondary_range_state_entries) (secondary_range_state st);
          secondary_compound_state_size = msize (\<lambda>_. estimate_compound_state_entries) (secondary_compound_state st)
      in node_size + edge_size + node_key_size + edge_triple_size + adj_out_size + adj_in_size + ordered_edge_size
         + ordered_adj_size + label_idx_size + time_idx_size + secondary_decl_size + secondary_eq_lookup_size
         + secondary_range_lookup_size + secondary_edge_eq_lookup_size + secondary_edge_range_lookup_size
         + secondary_node_field_lookup_size + secondary_edge_field_lookup_size + secondary_eq_state_size
         + secondary_range_state_size + secondary_compound_state_size)"

definition balanced :: "memtable_state \<Rightarrow> bool" where
  "balanced st \<longleftrightarrow> estimated_bytes st = recompute_estimated_size st"

section \<open>Setters keep the balance\<close>

lemma recompute_bytes [simp]: "recompute_estimated_size (st\<lparr>estimated_bytes := x\<rparr>) = recompute_estimated_size st"
  by (simp add: recompute_estimated_size_def)

lemma balanced_account:
  assumes "balanced st" and "recompute_estimated_size st' + fst d = recompute_estimated_size st + snd d"
    and "fst d \<le> recompute_estimated_size st" and "estimated_bytes st' = estimated_bytes st"
  shows "balanced (account d st')"
  using assms by (auto simp: balanced_def account_def apply_size_delta_def)

named_theorems balance \<open>an operation keeps the estimate exact\<close>

lemmas recompute_simps = slot_delta_def nested_delta_def nested_est_def nested3_est_def recompute_estimated_size_def Let_def
  estimate_secondary_eq_state_groups_def estimate_secondary_range_state_entries_def estimate_compound_state_entries_def

lemma balanced_set_node_state [balance]: "balanced st \<Longrightarrow> balanced (set_node_state st i v w)"
  unfolding set_node_state_def Let_def
  using sized_records.total_put [of "\<lambda>_. estimate_node_record_slot" "nodes st" "i" w]
    sized_records.est_le_total [of "\<lambda>_. estimate_node_record_slot" "nodes st" "i"]
  by (intro balanced_account) (auto simp: recompute_simps)

lemma balanced_set_edge_state [balance]: "balanced st \<Longrightarrow> balanced (set_edge_state st i v w)"
  unfolding set_edge_state_def Let_def
  using sized_records.total_put [of "\<lambda>_. estimate_edge_record_slot" "edges st" "i" w]
    sized_records.est_le_total [of "\<lambda>_. estimate_edge_record_slot" "edges st" "i"]
  by (intro balanced_account) (auto simp: recompute_simps)

lemma balanced_set_edge_triple [balance]: "balanced st \<Longrightarrow> balanced (set_edge_triple st a b l v w)"
  unfolding set_edge_triple_def Let_def
  using sized_options.total_put [of "\<lambda>_. estimate_lookup_slot" "edge_triple_index st" "(a, b, l)" w]
    sized_options.est_le_total [of "\<lambda>_. estimate_lookup_slot" "edge_triple_index st" "(a, b, l)"]
  by (intro balanced_account) (auto simp: recompute_simps)

lemma balanced_set_time_slot [balance]: "balanced st \<Longrightarrow> balanced (set_time_slot st k p w)"
  unfolding set_time_slot_def Let_def
  using sized_options.total_put [of "\<lambda>_. estimate_membership_slot" "time_node_index st" "k" w]
    sized_options.est_le_total [of "\<lambda>_. estimate_membership_slot" "time_node_index st" "k"]
  by (intro balanced_account) (auto simp: recompute_simps)

lemma balanced_set_ordered_edge_slot [balance]: "balanced st \<Longrightarrow> balanced (set_ordered_edge_slot st i p w)"
  unfolding set_ordered_edge_slot_def Let_def
  using sized_options.total_put [of "\<lambda>_. estimate_membership_slot" "ordered_edge_ids st" "i" w]
    sized_options.est_le_total [of "\<lambda>_. estimate_membership_slot" "ordered_edge_ids st" "i"]
  by (intro balanced_account) (auto simp: recompute_simps)

lemma balanced_set_node_label_membership_slot [balance]: "balanced st \<Longrightarrow> balanced (set_node_label_membership_slot st l i p w)"
  unfolding set_node_label_membership_slot_def Let_def
  using sized_options.total_put [of "\<lambda>_. estimate_membership_slot" "label_node_index st" "(l, i)" w]
    sized_options.est_le_total [of "\<lambda>_. estimate_membership_slot" "label_node_index st" "(l, i)"]
  by (intro balanced_account) (auto simp: recompute_simps)

lemma balanced_set_ordered_edge_label_slot [balance]: "balanced st \<Longrightarrow> balanced (set_ordered_edge_label_slot st l i p w)"
  unfolding set_ordered_edge_label_slot_def Let_def
  using sized_options.total_put [of "\<lambda>_. estimate_membership_slot" "ordered_label_edge_index st" "(l, i)" w]
    sized_options.est_le_total [of "\<lambda>_. estimate_membership_slot" "ordered_label_edge_index st" "(l, i)"]
  by (intro balanced_account) (auto simp: recompute_simps)

lemma balanced_set_node_label_slot [balance]: "balanced st \<Longrightarrow> balanced (set_node_label_slot st l i p w)"
  by (simp add: set_node_label_slot_def balanced_set_node_label_membership_slot)

lemma balanced_set_edge_label_slot [balance]: "balanced st \<Longrightarrow> balanced (set_edge_label_slot st l i p w)"
  unfolding set_edge_label_slot_def set_label_membership_slot_def Let_def prod.case
  using sized_nested.total_put [of "\<lambda>_. estimate_membership_slot" "label_edge_index st" "(l, i)" w]
    sized_nested.est_le_total [of "\<lambda>_. estimate_membership_slot" "label_edge_index st" "(l, i)"]
  by (intro balanced_account) (auto simp: recompute_simps)

lemma balanced_set_secondary_eq_slot [balance]: "balanced st \<Longrightarrow> balanced (set_secondary_eq_slot st x h i p w)"
  unfolding set_secondary_eq_slot_def set_secondary_eq_slot_in_def Let_def prod.case
  using sized_nested3.total_put [of "\<lambda>_. estimate_membership_slot" "secondary_eq_state st" "(x, h, i)" w]
    sized_nested3.est_le_total [of "\<lambda>_. estimate_membership_slot" "secondary_eq_state st" "(x, h, i)"]
  by (intro balanced_account) (auto simp: recompute_simps)

lemma balanced_set_secondary_range_slot [balance]: "balanced st \<Longrightarrow> balanced (set_secondary_range_slot st x e i p w)"
  unfolding set_secondary_range_slot_def set_secondary_range_slot_in_def Let_def prod.case
  using sized_nested.total_put [of "\<lambda>_. estimate_membership_slot" "secondary_range_state st" "(x, e, i)" w]
    sized_nested.est_le_total [of "\<lambda>_. estimate_membership_slot" "secondary_range_state st" "(x, e, i)"]
  by (intro balanced_account) (auto simp: recompute_simps)

lemma balanced_set_compound_slot [balance]: "balanced st \<Longrightarrow> balanced (set_compound_slot st x e i p w)"
  unfolding set_compound_slot_def set_compound_slot_in_def Let_def prod.case
  using sized_nested.total_put [of compound_entry_estimate "secondary_compound_state st" "(x, e, i)" w]
    sized_nested.est_le_total [of compound_entry_estimate "secondary_compound_state st" "(x, e, i)"]
  by (intro balanced_account) (auto simp: recompute_simps)

lemma balanced_tombstones [balance]:
  "balanced st \<Longrightarrow> balanced (set_node_tombstone_slot st i p w)" "balanced st \<Longrightarrow> balanced (set_edge_tombstone_slot st i p w)"
  by (simp_all add: balanced_def set_node_tombstone_slot_def set_edge_tombstone_slot_def recompute_estimated_size_def)

lemma balanced_counts [balance]:
  "balanced st \<Longrightarrow> balanced (st\<lparr>live_node_count := n\<rparr>)" "balanced st \<Longrightarrow> balanced (st\<lparr>live_edge_count := n\<rparr>)"
  by (simp_all add: balanced_def recompute_estimated_size_def)

lemma balanced_set_adj_out_slot [balance]:
  assumes "balanced st"
  shows "balanced (set_adj_out_slot st a i v w)"
proof -
  let ?m = "put_nested (adj_out st) (a, i) w v" and ?m' = "put_nested (ordered_adj_out st) (a, i) w v"
  let ?d = "nested_delta (\<lambda>_. estimate_adj_slot) (adj_out st) ?m (a, i)"
  have b: "balanced (account ?d (st\<lparr>adj_out := ?m\<rparr>))"
    using sized_nested.total_put [of "\<lambda>_. estimate_adj_slot" "adj_out st" "(a, i)" w v] assms
      sized_nested.est_le_total [of "\<lambda>_. estimate_adj_slot" "adj_out st" "(a, i)"]
    by (intro balanced_account) (auto simp: recompute_simps)
  have "balanced (account (nested_delta (\<lambda>_. estimate_adj_slot) (ordered_adj_out st) ?m' (a, i))
      ((account ?d (st\<lparr>adj_out := ?m\<rparr>))\<lparr>ordered_adj_out := ?m'\<rparr>))"
    using sized_nested.total_put [of "\<lambda>_. estimate_adj_slot" "ordered_adj_out st" "(a, i)" w v]
      sized_nested.est_le_total [of "\<lambda>_. estimate_adj_slot" "ordered_adj_out st" "(a, i)"]
    by (intro balanced_account [OF b]) (auto simp: recompute_simps account_def)
  then show ?thesis
    by (simp add: set_adj_out_slot_def set_adj_slot_def set_ordered_adj_slot_def Let_def account_def)
qed

lemma balanced_set_adj_in_slot [balance]:
  assumes "balanced st"
  shows "balanced (set_adj_in_slot st a i v w)"
proof -
  let ?m = "put_nested (adj_in st) (a, i) w v" and ?m' = "put_nested (ordered_adj_in st) (a, i) w v"
  let ?d = "nested_delta (\<lambda>_. estimate_adj_slot) (adj_in st) ?m (a, i)"
  have b: "balanced (account ?d (st\<lparr>adj_in := ?m\<rparr>))"
    using sized_nested.total_put [of "\<lambda>_. estimate_adj_slot" "adj_in st" "(a, i)" w v] assms
      sized_nested.est_le_total [of "\<lambda>_. estimate_adj_slot" "adj_in st" "(a, i)"]
    by (intro balanced_account) (auto simp: recompute_simps)
  have "balanced (account (nested_delta (\<lambda>_. estimate_adj_slot) (ordered_adj_in st) ?m' (a, i))
      ((account ?d (st\<lparr>adj_in := ?m\<rparr>))\<lparr>ordered_adj_in := ?m'\<rparr>))"
    using sized_nested.total_put [of "\<lambda>_. estimate_adj_slot" "ordered_adj_in st" "(a, i)" w v]
      sized_nested.est_le_total [of "\<lambda>_. estimate_adj_slot" "ordered_adj_in st" "(a, i)"]
    by (intro balanced_account [OF b]) (auto simp: recompute_simps account_def)
  then show ?thesis
    by (simp add: set_adj_in_slot_def set_adj_slot_def set_ordered_adj_slot_def Let_def account_def)
qed

text \<open>Key slots: the bytes of a key are counted when its slot is created.\<close>

lemma balanced_set_node_key [balance]:
  assumes "balanced st"
  shows "balanced (set_node_key st l k v w)"
proof -
  let ?b = "entry_or_default (node_key_index st) l"
  let ?b' = "put_slot ?b k w v"
  have tot: "msize (\<lambda>_. msize key_entry_estimate) (fmupd l ?b' (node_key_index st)) + entry_size key_entry_estimate ?b k =
      msize (\<lambda>_. msize key_entry_estimate) (node_key_index st) + entry_size key_entry_estimate ?b' k"
    using sized_nested.total_put [of key_entry_estimate "node_key_index st" "(l, k)" w v]
    by (simp add: put_nested_def nested_est_def)
  have le: "entry_size key_entry_estimate ?b k \<le> msize (\<lambda>_. msize key_entry_estimate) (node_key_index st)"
    using sized_nested.est_le_total [of key_entry_estimate "node_key_index st" "(l, k)"] by (simp add: nested_est_def)
  show ?thesis
    unfolding set_node_key_def Let_def
    using assms tot le
    by (auto intro!: balanced_account [of st] simp: slot_delta_def recompute_estimated_size_def Let_def entry_size_def
        key_entry_estimate_def split: option.splits)
qed

section \<open>Operations keep the balance\<close>

lemma balanced_fold:
  assumes "\<And>x st. balanced st \<Longrightarrow> balanced (f x st)" and "balanced st"
  shows "balanced (fold f xs st)"
  using assms(2) by (induction xs arbitrary: st) (simp_all add: assms(1))

lemma balanced_run_actions [balance]: "balanced st \<Longrightarrow> balanced (run_actions st a w)"
  by (cases a) (auto simp: run_actions_def Let_def intro!: balanced_fold balance)

lemma balanced_loops [balance]:
  "balanced st \<Longrightarrow> balanced (fold (retire_node_label old node w) ls st)"
  "balanced st \<Longrightarrow> balanced (fold (enter_node_label node w) ls st)"
  "balanced st \<Longrightarrow> balanced (fold (leave_node_label node w) ls st)"
  by (auto simp: retire_node_label_def enter_node_label_def leave_node_label_def Let_def intro!: balanced_fold balance)

lemma balanced_edge_moves [balance]:
  "balanced st \<Longrightarrow> balanced (retire_edge old edge w st)" "balanced st \<Longrightarrow> balanced (leave_edge i edge w st)"
  by (auto simp: retire_edge_def leave_edge_def Let_def intro!: balance)

lemma balanced_sync:
  assumes "balanced st"
  shows "sync_secondary_index_entries_for_node_upsert pv st old node w = Some st' \<Longrightarrow> balanced st'"
    and "sync_secondary_index_entries_for_edge_upsert pv st old_e edge w = Some st' \<Longrightarrow> balanced st'"
    and "remove_secondary_index_entries_for_node pv st node w = Some st' \<Longrightarrow> balanced st'"
    and "remove_secondary_index_entries_for_edge pv st edge w = Some st' \<Longrightarrow> balanced st'"
  using assms
  by (auto simp: sync_secondary_index_entries_for_node_upsert_def sync_secondary_index_entries_for_edge_upsert_def
      add_secondary_index_entries_for_node_def remove_secondary_index_entries_for_node_def bind_eq_Some_conv
      add_secondary_index_entries_for_edge_def remove_secondary_index_entries_for_edge_def
      split: if_splits option.splits intro!: balance)

lemma balanced_apply_op:
  assumes "balanced st" and "apply_op pv st op w = Some st'"
  shows "balanced st'"
  using assms
  by (cases op) (auto simp: apply_upsert_node_def apply_upsert_edge_def apply_delete_node_def apply_delete_edge_def Let_def
      split: option.splits if_splits intro!: balance dest!: balanced_sync [rotated])

section \<open>Index declarations keep the balance\<close>

text \<open>How a map update with its reported sizes before and after moves a total.\<close>

definition moves :: "('m \<Rightarrow> nat) \<Rightarrow> 'm \<Rightarrow> 'm \<times> nat \<times> nat \<Rightarrow> bool" where
  "moves total_of m r \<longleftrightarrow> total_of (fst r) + fst (snd r) = total_of m + snd (snd r) \<and> fst (snd r) \<le> total_of m"

lemma moves_nested:
  assumes "moves (msize f) (entry_or_default m a) (inner, d)"
  shows "moves (msize (\<lambda>_. msize f)) m (fmupd a inner m, d)"
  using assms msize_upd [of "\<lambda>_. msize f" a inner m] entry_size_le [of "\<lambda>_. msize f" m a]
  by (simp add: moves_def entry_size_nested)

lemma moves_add_prop_lookup: "moves (msize (\<lambda>_. msize est)) m (add_prop_lookup est m l k i)"
proof (cases "fmlookup (entry_or_default m l) k")
  case None
  then have "moves (msize est) (entry_or_default m l) (fmupd k [i] (entry_or_default m l), 0, est k [i])"
    using msize_upd [of est k "[i]" "entry_or_default m l"] by (simp add: moves_def entry_size_def)
  from moves_nested [OF this] None show ?thesis by (simp add: add_prop_lookup_def)
next
  case (Some ids)
  then have "moves (msize est) (entry_or_default m l)
      (fmupd k (ids @ [i]) (entry_or_default m l), est k ids, est k (ids @ [i]))"
    using msize_upd [of est k "ids @ [i]" "entry_or_default m l"] entry_size_le [of est "entry_or_default m l" k]
    by (simp add: moves_def entry_size_def)
  from moves_nested [OF this] Some show ?thesis by (simp add: add_prop_lookup_def)
qed

lemma moves_drop_entry:
  assumes "moves (msize f) (entry_or_default m a) (fmempty, d)"
  shows "moves (msize (\<lambda>_. msize f)) m (fmdrop a m, d)"
  using assms msize_drop [of "\<lambda>_. msize f" a m] entry_size_le [of "\<lambda>_. msize f" m a]
  by (simp add: moves_def entry_size_nested)

lemma moves_filtered:
  assumes "fmlookup m k = Some ids"
  shows "moves (msize est) m (fmdrop k m, est k ids, 0)" and "moves (msize est) m (fmupd k kept m, est k ids, est k kept)"
  using assms msize_drop [of est k m] msize_upd [of est k kept m] entry_size_le [of est m k]
  by (simp_all add: moves_def entry_size_def)

lemma moves_remove_prop_lookup: "moves (msize (\<lambda>_. msize est)) m (remove_prop_lookup est m l k i)"
proof (cases "fmlookup m l")
  case None
  then show ?thesis by (simp add: remove_prop_lookup_def moves_def)
next
  case (Some by_prop)
  then have e: "entry_or_default m l = by_prop" by (simp add: entry_or_default_def)
  define r where "r = (case fmlookup by_prop k of None \<Rightarrow> (by_prop, 0, 0)
      | Some index_ids \<Rightarrow> let kept = filter (\<lambda>x. x \<noteq> i) index_ids in
          if kept = [] then (fmdrop k by_prop, est k index_ids, 0) else (fmupd k kept by_prop, est k index_ids, est k kept))"
  have "moves (msize est) by_prop r"
    using moves_filtered [of by_prop k _ est] by (auto simp: r_def Let_def moves_def split: option.split)
  moreover obtain b d where r: "r = (b, d)" by (cases r)
  ultimately have m: "moves (msize est) (entry_or_default m l) (b, d)" by (simp add: e)
  have "remove_prop_lookup est m l k i = (if b = fmempty then fmdrop l m else fmupd l b m, d)"
    using r Some by (simp add: remove_prop_lookup_def r_def)
  then show ?thesis using moves_nested [OF m] moves_drop_entry [of est m l d] m by auto
qed

lemma moves_add_field_index_lookup:
  "moves (msize (\<lambda>_. estimate_secondary_field_lookup_entry)) m (add_field_index_lookup m l i)"
proof (cases "fmlookup m l")
  case None
  then show ?thesis
    using msize_upd [of "\<lambda>_. estimate_secondary_field_lookup_entry" l "[i]" m]
    by (simp add: add_field_index_lookup_def moves_def entry_size_def)
next
  case (Some ids)
  then show ?thesis
    using moves_filtered(2) [OF Some, of "\<lambda>_. estimate_secondary_field_lookup_entry" "ids @ [i]"]
    by (simp add: add_field_index_lookup_def)
qed

lemma moves_remove_field_index_lookup:
  "moves (msize (\<lambda>_. estimate_secondary_field_lookup_entry)) m (remove_field_index_lookup m l i)"
proof (cases "fmlookup m l")
  case None
  then show ?thesis by (simp add: remove_field_index_lookup_def moves_def)
next
  case (Some ids)
  then show ?thesis
    using moves_filtered [OF Some, of "\<lambda>_. estimate_secondary_field_lookup_entry"]
    by (simp add: remove_field_index_lookup_def Let_def)
qed

lemma balanced_lookup_moves [balance]:
  assumes "balanced st"
  shows "moves (msize (\<lambda>_. msize estimate_secondary_eq_lookup_entry)) (secondary_eq_by_prop st) (m, d) \<Longrightarrow>
      balanced (account d (st\<lparr>secondary_eq_by_prop := m\<rparr>))"
    and "moves (msize (\<lambda>_. msize estimate_secondary_range_lookup_entry)) (secondary_range_by_prop st) (m, d) \<Longrightarrow>
      balanced (account d (st\<lparr>secondary_range_by_prop := m\<rparr>))"
    and "moves (msize (\<lambda>_. msize estimate_secondary_eq_lookup_entry)) (secondary_edge_eq_by_prop st) (m, d) \<Longrightarrow>
      balanced (account d (st\<lparr>secondary_edge_eq_by_prop := m\<rparr>))"
    and "moves (msize (\<lambda>_. msize estimate_secondary_range_lookup_entry)) (secondary_edge_range_by_prop st) (m, d) \<Longrightarrow>
      balanced (account d (st\<lparr>secondary_edge_range_by_prop := m\<rparr>))"
    and "moves (msize (\<lambda>_. estimate_secondary_field_lookup_entry)) (secondary_node_field_indexes_by_label st) (f, d) \<Longrightarrow>
      balanced (account d (st\<lparr>secondary_node_field_indexes_by_label := f\<rparr>))"
    and "moves (msize (\<lambda>_. estimate_secondary_field_lookup_entry)) (secondary_edge_field_indexes_by_label st) (f, d) \<Longrightarrow>
      balanced (account d (st\<lparr>secondary_edge_field_indexes_by_label := f\<rparr>))"
  by (rule balanced_account [OF assms]; simp add: moves_def recompute_estimated_size_def Let_def)+

lemma msize_touch: "msize (\<lambda>_. msize f) (fmupd i (entry_or_default m i) m) = msize (\<lambda>_. msize f) m"
  using msize_upd [of "\<lambda>_. msize f" i "entry_or_default m i" m] by (simp add: entry_size_nested)

lemma balanced_seeds [balance]:
  assumes "balanced st"
  shows "balanced (seed_eq i eqs st)" "balanced (seed_range i rs st)" "balanced (seed_compound i rs st)"
proof -
  have "balanced (st\<lparr>secondary_eq_state := fmupd i (entry_or_default (secondary_eq_state st) i) (secondary_eq_state st)\<rparr>)"
    "balanced (st\<lparr>secondary_range_state := fmupd i (entry_or_default (secondary_range_state st) i) (secondary_range_state st)\<rparr>)"
    "balanced (st\<lparr>secondary_compound_state := fmupd i (entry_or_default (secondary_compound_state st) i) (secondary_compound_state st)\<rparr>)"
    using assms by (simp_all add: balanced_def recompute_simps msize_touch)
  then show "balanced (seed_eq i eqs st)" "balanced (seed_range i rs st)" "balanced (seed_compound i rs st)"
    by (auto simp: seed_eq_def seed_range_def seed_compound_def Let_def intro!: balanced_fold balance)
qed

lemma balanced_drops [balance]:
  assumes "balanced st"
  shows "balanced (drop_eq_state i st)" "balanced (drop_range_state i st)" "balanced (drop_compound_state i st)"
  using assms msize_drop [of "\<lambda>_. msize (\<lambda>_. msize (\<lambda>_. estimate_membership_slot))" i "secondary_eq_state st"]
    msize_drop [of "\<lambda>_. msize (\<lambda>_. estimate_membership_slot)" i "secondary_range_state st"]
    msize_drop [of "\<lambda>_. msize compound_entry_estimate" i "secondary_compound_state st"]
  by (auto simp: drop_eq_state_def drop_range_state_def drop_compound_state_def balanced_def recompute_simps entry_size_def
      split: option.split)

lemma balanced_declare:
  assumes "balanced st" and "fmlookup (secondary_index_declarations st) i = None"
  shows "balanced (st\<lparr>secondary_index_declarations := fmupd i x (secondary_index_declarations st),
      estimated_bytes := estimated_bytes st + estimate_secondary_decl_entry x\<rparr>)"
  using assms msize_upd [of "\<lambda>_. estimate_secondary_decl_entry" i x "secondary_index_declarations st"]
  by (simp add: balanced_def recompute_estimated_size_def Let_def entry_size_def)

lemma balanced_undeclare:
  assumes "balanced st" and "fmlookup (secondary_index_declarations st) i = Some x"
  shows "balanced (st\<lparr>secondary_index_declarations := fmdrop i (secondary_index_declarations st),
      estimated_bytes := estimated_bytes st - estimate_secondary_decl_entry x\<rparr>)"
  using assms msize_drop [of "\<lambda>_. estimate_secondary_decl_entry" i "secondary_index_declarations st"]
  by (simp add: balanced_def recompute_estimated_size_def Let_def entry_size_def)

lemma balanced_register_target:
  assumes "balanced st" and "register_target pv st entry = Some st'"
  shows "balanced st'"
proof -
  note moves = moves_add_prop_lookup [of estimate_secondary_eq_lookup_entry] moves_add_prop_lookup [of estimate_secondary_range_lookup_entry]
    moves_add_field_index_lookup
  show ?thesis
    using assms(2)
    by (auto simp: register_target_def Let_def split: secondary_index_target.splits secondary_index_kind.splits prod.splits
        intro!: balance assms(1); metis moves)
qed

lemma balanced_register:
  assumes "balanced st" and "register_secondary_index pv st entry = Some st'"
  shows "balanced st'"
  using assms balanced_declare [OF assms(1), of "sie_index_id entry" entry]
  by (auto simp: register_secondary_index_def split: if_splits intro: balanced_register_target)

lemma balanced_unregister:
  assumes "balanced st"
  shows "balanced (fst (unregister_secondary_index st i))"
proof (cases "fmlookup (secondary_index_declarations st) i")
  case None
  with assms show ?thesis by (simp add: unregister_secondary_index_def)
next
  case (Some entry)
  note moves = moves_remove_prop_lookup [of estimate_secondary_eq_lookup_entry] moves_remove_prop_lookup [of estimate_secondary_range_lookup_entry]
    moves_remove_field_index_lookup
  note b = balanced_undeclare [OF assms Some]
  show ?thesis
    using Some
    by (auto simp: unregister_secondary_index_def unregister_target_def Let_def
        split: secondary_index_target.splits secondary_index_kind.splits prod.splits intro!: balance b; metis moves)
qed

end
