(* ===== verification/Memtable_Reach.thy ===== *)
theory Memtable_Reach
  imports Memtable_Store Memtable_Size
begin

text \<open>
  The states a memtable can reach: logged operations with sequence numbers that do not decrease,
  and index declarations and removals in between. Rule induction gives what every reachable state
  satisfies: versions are settled, the record indexes are consistent at every snapshot, the size
  estimate is exact.
\<close>

inductive memtable_reach :: "(prop_value \<Rightarrow> bytes) \<Rightarrow> memtable_state \<Rightarrow> u64 \<Rightarrow> bool" for pv where
  new: "memtable_reach pv memtable_new 0"
| op: "memtable_reach pv st w \<Longrightarrow> w \<le> x \<Longrightarrow> op_ok op \<Longrightarrow> apply_op pv st op x = Some st' \<Longrightarrow> memtable_reach pv st' x"
| register: "memtable_reach pv st w \<Longrightarrow> register_secondary_index pv st entry = Some st' \<Longrightarrow> memtable_reach pv st' w"
| unregister: "memtable_reach pv st w \<Longrightarrow> memtable_reach pv (fst (unregister_secondary_index st i)) w"

section \<open>Declarations do not touch the records\<close>

definition same_core :: "graph_store \<Rightarrow> graph_store \<Rightarrow> bool" where
  "same_core g h \<longleftrightarrow> g_nodes g = g_nodes h \<and> g_edges g = g_edges h \<and>
     g_node_tombstones g = g_node_tombstones h \<and> g_edge_tombstones g = g_edge_tombstones h \<and>
     g_keys g = g_keys h \<and> g_triples g = g_triples h \<and> g_adj_out g = g_adj_out h \<and> g_adj_in g = g_adj_in h \<and>
     g_edge_ids g = g_edge_ids h \<and> g_node_labels g = g_node_labels h \<and> g_ordered_edge_labels g = g_ordered_edge_labels h \<and>
     g_ordered_adj_out g = g_ordered_adj_out h \<and> g_ordered_adj_in g = g_ordered_adj_in h \<and>
     g_edge_labels g = g_edge_labels h \<and> g_times g = g_times h"

lemma same_core_refl [simp]: "same_core g g"
  by (simp add: same_core_def)

lemma same_core_trans: "same_core f g \<Longrightarrow> same_core g h \<Longrightarrow> same_core f h"
  by (simp add: same_core_def)

lemma same_core_live:
  "same_core g h \<Longrightarrow> live_node g = live_node h" "same_core g h \<Longrightarrow> live_edge g = live_edge h"
  by (simp_all add: same_core_def live_node_def [abs_def] live_edge_def [abs_def])

lemma same_core_invariants:
  assumes "same_core g h"
  shows "ids_ok g = ids_ok h" "node_indexes_ok g = node_indexes_ok h" "edge_indexes_ok g = edge_indexes_ok h"
    "key_index_ok g = key_index_ok h"
  using assms same_core_live [OF assms]
  by (simp_all add: ids_ok_def node_indexes_ok_def edge_indexes_ok_def key_index_ok_def same_core_def)

lemma same_core_fold:
  assumes "\<And>x st. same_core (view (f x st) s) (view st s)"
  shows "same_core (view (fold f xs st) s) (view st s)"
  using assms by (induction xs arbitrary: st) (auto intro: same_core_trans)

lemma same_core_setters:
  "same_core (view (set_secondary_eq_slot st a b c p x) s) (view st s)"
  "same_core (view (set_secondary_range_slot st a d c p x) s) (view st s)"
  "same_core (view (set_compound_slot st a d c p x) s) (view st s)"
  by (simp_all add: view_simps same_core_def)

lemma same_core_decl_updates [simp]:
  "same_core (view (st\<lparr>secondary_index_declarations := a\<rparr>) s) h = same_core (view st s) h"
  "same_core (view (st\<lparr>secondary_eq_by_prop := b\<rparr>) s) h = same_core (view st s) h"
  "same_core (view (st\<lparr>secondary_range_by_prop := b\<rparr>) s) h = same_core (view st s) h"
  "same_core (view (st\<lparr>secondary_edge_eq_by_prop := b\<rparr>) s) h = same_core (view st s) h"
  "same_core (view (st\<lparr>secondary_edge_range_by_prop := b\<rparr>) s) h = same_core (view st s) h"
  "same_core (view (st\<lparr>secondary_node_field_indexes_by_label := c\<rparr>) s) h = same_core (view st s) h"
  "same_core (view (st\<lparr>secondary_edge_field_indexes_by_label := c\<rparr>) s) h = same_core (view st s) h"
  "same_core (view (st\<lparr>secondary_eq_state := d\<rparr>) s) h = same_core (view st s) h"
  "same_core (view (st\<lparr>secondary_range_state := e\<rparr>) s) h = same_core (view st s) h"
  "same_core (view (st\<lparr>secondary_compound_state := e\<rparr>) s) h = same_core (view st s) h"
  "same_core (view (st\<lparr>estimated_bytes := n\<rparr>) s) h = same_core (view st s) h"
  by (simp_all add: same_core_def view_def)

lemma same_core_seeds:
  "same_core (view (seed_eq i eqs st) s) (view st s)"
  "same_core (view (seed_range i rs st) s) (view st s)"
  "same_core (view (seed_compound i rs st) s) (view st s)"
  unfolding seed_eq_def seed_range_def seed_compound_def Let_def
  by (rule same_core_trans [OF same_core_fold]; auto simp: same_core_setters)+

lemma same_core_register:
  assumes "register_secondary_index pv st entry = Some st'"
  shows "same_core (view st' s) (view st s)"
  using assms
  by (auto simp: register_secondary_index_def register_target_def Let_def
      split: if_splits secondary_index_target.splits secondary_index_kind.splits prod.splits
      intro!: same_core_trans [OF same_core_seeds(1)] same_core_trans [OF same_core_seeds(2)] same_core_trans [OF same_core_seeds(3)])

lemma same_core_unregister: "same_core (view (fst (unregister_secondary_index st i)) s) (view st s)"
  by (auto simp: unregister_secondary_index_def unregister_target_def drop_eq_state_def drop_range_state_def
      drop_compound_state_def Let_def
      split: option.splits secondary_index_target.splits secondary_index_kind.splits prod.splits)

section \<open>Declarations keep the versions settled\<close>

lemma settled_by:
  assumes "settled st w" and "\<And>s. w \<le> s \<Longrightarrow> view st' s = F (view st s)"
  shows "settled st' w"
  unfolding settled_def
proof (intro allI impI)
  fix s
  assume "w \<le> s"
  have "view st' s = F (view st s)" by (rule assms(2) [OF \<open>w \<le> s\<close>])
  also have "\<dots> = F (view st U64_MAX)" using settledD [OF assms(1) \<open>w \<le> s\<close>] by (rule arg_cong [OF sym])
  also have "\<dots> = view st' U64_MAX" by (rule assms(2) [symmetric]) simp
  finally show "view st' s = view st' U64_MAX" .
qed

lemma settled_setters:
  assumes "settled st w" and "x \<le> w"
  shows "settled (set_secondary_eq_slot st a b c p x) w" "settled (set_secondary_range_slot st a d c p x) w"
    "settled (set_compound_slot st a d c p x) w"
proof -
  have seen: "x \<le> s" if "w \<le> s" for s using assms(2) that by (rule order_trans)
  show "settled (set_secondary_eq_slot st a b c p x) w"
    by (rule settled_by [OF assms(1), of _ "\<lambda>g. g\<lparr>g_eq := (g_eq g)((a, b, c) := present_value p)\<rparr>"]) (simp add: view_simps seen)
  show "settled (set_secondary_range_slot st a d c p x) w"
    by (rule settled_by [OF assms(1), of _ "\<lambda>g. g\<lparr>g_range := (g_range g)((a, d, c) := present_value p)\<rparr>"]) (simp add: view_simps seen)
  show "settled (set_compound_slot st a d c p x) w"
    by (rule settled_by [OF assms(1), of _ "\<lambda>g. g\<lparr>g_compound := (g_compound g)((a, d, c) := present_value p)\<rparr>"]) (simp add: view_simps seen)
qed

lemma settled_fold:
  assumes "\<And>x st. x \<in> set xs \<Longrightarrow> settled st w \<Longrightarrow> settled (f x st) w" and "settled st w"
  shows "settled (fold f xs st) w"
  using assms by (induction xs arbitrary: st) simp_all

lemma nested_at_touch [simp]:
  "nested_at (fmupd i (entry_or_default m i) m) s = nested_at m s"
  "nested3_at (fmupd i (entry_or_default m' i) m') s = nested3_at m' s"
  by (auto simp: fun_eq_iff nested_at_def nested3_at_def entry_or_default_def split: option.split)

lemma view_touch [simp]:
  "view (st\<lparr>secondary_eq_state := fmupd i (entry_or_default (secondary_eq_state st) i) (secondary_eq_state st)\<rparr>) s = view st s"
  "view (st\<lparr>secondary_range_state := fmupd i (entry_or_default (secondary_range_state st) i) (secondary_range_state st)\<rparr>) s = view st s"
  "view (st\<lparr>secondary_compound_state := fmupd i (entry_or_default (secondary_compound_state st) i) (secondary_compound_state st)\<rparr>) s = view st s"
  by (simp_all add: view_def)

lemma settled_view_eq: "(\<And>s. view st' s = view st s) \<Longrightarrow> settled st' w = settled st w"
  by (simp add: settled_def)

definition seeds_ok :: "u64 \<Rightarrow> ('a \<times> 'b \<times> u64) list \<Rightarrow> bool" where
  "seeds_ok w seeds \<longleftrightarrow> (\<forall>(_, _, x) \<in> set seeds. x \<le> w)"

lemma settled_seeds:
  assumes "settled st w"
  shows "seeds_ok w eqs \<Longrightarrow> settled (seed_eq i eqs st) w"
    and "seeds_ok w rs \<Longrightarrow> settled (seed_range i rs st) w"
    and "seeds_ok w rs \<Longrightarrow> settled (seed_compound i rs st) w"
  unfolding seed_eq_def seed_range_def seed_compound_def Let_def seeds_ok_def
  by (rule settled_fold; use assms in \<open>auto simp: settled_view_eq [OF view_touch(1)] settled_view_eq [OF view_touch(2)]
      settled_view_eq [OF view_touch(3)] intro!: settled_setters\<close>)+

lemma settled_decl_updates [simp]:
  "settled (st\<lparr>secondary_index_declarations := a\<rparr>) w = settled st w"
  "settled (st\<lparr>secondary_eq_by_prop := b\<rparr>) w = settled st w"
  "settled (st\<lparr>secondary_range_by_prop := b\<rparr>) w = settled st w"
  "settled (st\<lparr>secondary_edge_eq_by_prop := b\<rparr>) w = settled st w"
  "settled (st\<lparr>secondary_edge_range_by_prop := b\<rparr>) w = settled st w"
  "settled (st\<lparr>secondary_node_field_indexes_by_label := c\<rparr>) w = settled st w"
  "settled (st\<lparr>secondary_edge_field_indexes_by_label := c\<rparr>) w = settled st w"
  "settled (st\<lparr>estimated_bytes := n\<rparr>) w = settled st w" "settled (account d st) w = settled st w"
  by (simp_all add: settled_def view_def account_def)

lemma nested_at_drop:
  "nested_at (fmdrop i m) s = (\<lambda>k. if fst k = i then None else nested_at m s k)"
  "nested3_at (fmdrop i m') s = (\<lambda>k. if fst k = i then None else nested3_at m' s k)"
  by (auto simp: fun_eq_iff nested_at_def nested3_at_def)

lemma settled_drops:
  assumes "settled st w"
  shows "settled (drop_eq_state i st) w" "settled (drop_range_state i st) w" "settled (drop_compound_state i st) w"
proof -
  have "settled (st\<lparr>secondary_eq_state := fmdrop i (secondary_eq_state st), estimated_bytes := n\<rparr>) w" for n
    by (rule settled_by [OF assms, of _ "\<lambda>g. g\<lparr>g_eq := (\<lambda>k. if fst k = i then None else g_eq g k)\<rparr>"])
      (simp add: view_def nested_at_drop fun_eq_iff)
  moreover have "settled (st\<lparr>secondary_range_state := fmdrop i (secondary_range_state st), estimated_bytes := n\<rparr>) w" for n
    by (rule settled_by [OF assms, of _ "\<lambda>g. g\<lparr>g_range := (\<lambda>k. if fst k = i then None else g_range g k)\<rparr>"])
      (simp add: view_def nested_at_drop fun_eq_iff)
  moreover have "settled (st\<lparr>secondary_compound_state := fmdrop i (secondary_compound_state st), estimated_bytes := n\<rparr>) w" for n
    by (rule settled_by [OF assms, of _ "\<lambda>g. g\<lparr>g_compound := (\<lambda>k. if fst k = i then None else g_compound g k)\<rparr>"])
      (simp add: view_def nested_at_drop fun_eq_iff)
  ultimately show "settled (drop_eq_state i st) w" "settled (drop_range_state i st) w" "settled (drop_compound_state i st) w"
    using assms by (simp_all add: drop_eq_state_def drop_range_state_def drop_compound_state_def split: option.split)
qed

lemma settled_unregister: "settled st w \<Longrightarrow> settled (fst (unregister_secondary_index st i)) w"
  by (auto simp: unregister_secondary_index_def unregister_target_def Let_def
      split: option.splits secondary_index_target.splits secondary_index_kind.splits prod.splits intro!: settled_drops)

text \<open>Live records carry the sequence number of the operation that wrote them.\<close>

definition seqs_below :: "memtable_state \<Rightarrow> u64 \<Rightarrow> bool" where
  "seqs_below st w \<longleftrightarrow> (\<forall>i n. current_node st i = Some n \<longrightarrow> n_last_write_seq n \<le> w) \<and>
     (\<forall>i e. current_edge st i = Some e \<longrightarrow> e_last_write_seq e \<le> w)"

lemma live_nodes_seqs: "seqs_below st w \<Longrightarrow> n \<in> set (live_nodes st) \<Longrightarrow> n_last_write_seq n \<le> w"
  by (auto simp: seqs_below_def live_nodes_def List.map_filter_def)

lemma live_edges_seqs: "seqs_below st w \<Longrightarrow> e \<in> set (live_edges st) \<Longrightarrow> e_last_write_seq e \<le> w"
  by (auto simp: seqs_below_def live_edges_def List.map_filter_def)

lemma those_mem: "those (map f xs) = Some ys \<Longrightarrow> y \<in> set ys \<Longrightarrow> \<exists>x \<in> set xs. f x = Some y"
  by (induction xs arbitrary: ys) (auto split: option.splits)

lemma seeds_below:
  assumes "seqs_below st w"
  shows "seeds_ok w (node_seeds st l k enc)" "seeds_ok w (edge_seeds st l k enc)"
    "node_compound_seeds pv st l fs = Some cs \<Longrightarrow> seeds_ok w cs"
    "edge_compound_seeds pv st l fs = Some cs \<Longrightarrow> seeds_ok w cs"
  using live_nodes_seqs [OF assms] live_edges_seqs [OF assms]
  by (auto simp: seeds_ok_def node_seeds_def edge_seeds_def List.map_filter_def node_compound_seeds_def edge_compound_seeds_def
      dest!: those_mem split: if_splits)

lemma seqs_below_decl [simp]:
  "seqs_below (st\<lparr>secondary_index_declarations := a, estimated_bytes := n\<rparr>) w = seqs_below st w"
  by (simp add: seqs_below_def current_node_def current_edge_def)

lemma settled_register:
  assumes "settled st w" and "seqs_below st w" and "register_secondary_index pv st entry = Some st'"
  shows "settled st' w"
  using assms
  by (auto simp: register_secondary_index_def register_target_def Let_def
      split: if_splits secondary_index_target.splits secondary_index_kind.splits prod.splits
      intro!: settled_seeds intro: seeds_below(1,2) seeds_below(3,4) [rotated])

section \<open>Invariants of reachable states\<close>

definition store_ok :: "graph_store \<Rightarrow> bool" where
  "store_ok g \<longleftrightarrow> ids_ok g \<and> node_indexes_ok g \<and> edge_indexes_ok g"

lemma store_ok_step: "store_ok g \<Longrightarrow> op_ok op \<Longrightarrow> store_step pv g op w = Some g' \<Longrightarrow> store_ok g'"
  unfolding store_ok_def using ids_ok_step node_indexes_step edge_indexes_step by blast

lemma store_ok_empty: "store_ok store_empty"
proof -
  have "g_nodes store_empty = (\<lambda>_. None)" "g_edges store_empty = (\<lambda>_. None)" by (simp_all add: store_empty_def)
  then show ?thesis
    by (simp add: store_ok_def ids_ok_empty node_indexes_ok_def edge_indexes_ok_def) (simp add: store_empty_def)
qed

lemma seqs_below_op:
  assumes "settled st w" and "ids_ok (view st U64_MAX)" and "op_ok op" and "seqs_below st w" and "apply_op pv st op w = Some st'"
  shows "seqs_below st' w"
proof -
  have "store_step pv (view st U64_MAX) op w = Some (view st' U64_MAX)"
    using view_apply_op_new [OF assms(1) le_U64_MAX assms(2,3), of pv] assms(5) by simp
  note step = live_node_step [OF this] live_edge_step [OF this]
  show ?thesis
    using assms(4) unfolding seqs_below_def current_node_view current_edge_view step
    by (cases op) (auto split: if_splits)
qed

lemma seqs_below_mono: "seqs_below st w \<Longrightarrow> w \<le> x \<Longrightarrow> seqs_below st x"
  unfolding seqs_below_def by (meson order_trans)

lemma reach_invariants:
  assumes "memtable_reach pv st w"
  shows "balanced st \<and> settled st w \<and> seqs_below st w \<and> (\<forall>s. store_ok (view st s))"
  using assms
proof (induction rule: memtable_reach.induct)
  case new
  have "balanced memtable_new" by (simp add: balanced_def recompute_estimated_size_def memtable_new_def)
  moreover have "seqs_below memtable_new 0" by (simp add: seqs_below_def current_node_def current_edge_def memtable_new_def)
  ultimately show ?case by (simp add: settled_new store_ok_empty)
next
  case (op st w x op st')
  then have inv: "balanced st" "settled st x" "seqs_below st x" "\<And>s. store_ok (view st s)"
    using settled_mono seqs_below_mono by blast+
  have ids: "ids_ok (view st s)" for s using inv(4) by (simp add: store_ok_def)
  have "store_ok (view st' s)" for s
  proof (cases "x \<le> s")
    case True
    have "store_step pv (view st s) op x = Some (view st' s)"
      using view_apply_op_new [OF inv(2) True ids op.hyps(3), of pv] op.hyps(4) by simp
    then show ?thesis using store_ok_step [OF inv(4) op.hyps(3)] by blast
  next
    case False
    then show ?thesis using view_apply_op_old [OF op.hyps(4)] inv(4) by simp
  qed
  then show ?case
    using balanced_apply_op [OF inv(1) op.hyps(4)] settled_apply_op [OF inv(2) ids op.hyps(3,4)]
      seqs_below_op [OF inv(2) ids op.hyps(3) inv(3) op.hyps(4)] by blast
next
  case (register st w entry st')
  have core: "same_core (view st' s) (view st s)" for s by (rule same_core_register [OF register.hyps(2)])
  have "seqs_below st' w"
    using register.IH same_core_live [OF core [of U64_MAX]]
    by (simp add: seqs_below_def current_node_view current_edge_view)
  moreover have "store_ok (view st' s)" for s
    using register.IH same_core_invariants [OF core] by (simp add: store_ok_def)
  ultimately show ?case
    using register.IH balanced_register [OF _ register.hyps(2)] settled_register [OF _ _ register.hyps(2)] by blast
next
  case (unregister st w i)
  note core = same_core_unregister [of st i]
  have "seqs_below (fst (unregister_secondary_index st i)) w"
    using unregister.IH same_core_live [OF core [of U64_MAX]]
    by (simp add: seqs_below_def current_node_view current_edge_view)
  moreover have "store_ok (view (fst (unregister_secondary_index st i)) s)" for s
    using unregister.IH same_core_invariants [OF core] by (simp add: store_ok_def)
  ultimately show ?case
    using unregister.IH balanced_unregister settled_unregister by blast
qed

end
