(* ===== verification/Memtable_Scans.thy ===== *)
theory Memtable_Scans
  imports Memtable_Reads
begin

text \<open>
  Scans of the declared secondary indexes of the memtable at a snapshot, and the exports of its
  current state that a flush reads, \<^verbatim>\<open>src/src/memtable.rs\<close>.
\<close>

section \<open>Equality indexes\<close>

definition eq_group :: "memtable_state \<Rightarrow> u64 \<Rightarrow> u64 \<Rightarrow> (u64, unit membership_slot) fmap option" where
  "eq_group st index_id value_hash =
     Option.bind (fmlookup (secondary_eq_state st) index_id) (\<lambda>groups. fmlookup groups value_hash)"

text \<open>Take the ids that pass until the limit is reached; the limit is tested after each push.\<close>

fun take_ids :: "nat option \<Rightarrow> (u64 \<times> 'a \<Rightarrow> bool) \<Rightarrow> (u64 \<times> 'a) list \<Rightarrow> u64 list \<Rightarrow> u64 list" where
  "take_ids max_ids keep [] ids = ids"
| "take_ids max_ids keep (e # es) ids =
     (if keep e then
        let ids = ids @ [fst e]
        in if (case max_ids of None \<Rightarrow> False | Some n \<Rightarrow> length ids \<ge> n) then ids else take_ids max_ids keep es ids
      else take_ids max_ids keep es ids)"

definition prop_matches :: "props \<Rightarrow> rstring \<Rightarrow> prop_value \<Rightarrow> bool" where
  "prop_matches ps prop_key prop_value =
     (case map_of ps prop_key of None \<Rightarrow> False | Some value \<Rightarrow> semantic_property_eq value prop_value)"

definition eq_node_matches :: "memtable_state \<Rightarrow> rstring \<Rightarrow> prop_value \<Rightarrow> u64 \<Rightarrow> u64 \<times> unit membership_slot \<Rightarrow> bool" where
  "eq_node_matches st prop_key prop_value snapshot_seq e \<longleftrightarrow>
     slot_option_visible (snd e) snapshot_seq \<and>
     (case node_at st (fst e) snapshot_seq of None \<Rightarrow> False | Some node \<Rightarrow> prop_matches (n_props node) prop_key prop_value)"

definition eq_edge_matches :: "memtable_state \<Rightarrow> rstring \<Rightarrow> prop_value \<Rightarrow> u64 \<Rightarrow> u64 \<times> unit membership_slot \<Rightarrow> bool" where
  "eq_edge_matches st prop_key prop_value snapshot_seq e \<longleftrightarrow>
     slot_option_visible (snd e) snapshot_seq \<and>
     (case edge_at st (fst e) snapshot_seq of None \<Rightarrow> False | Some edge \<Rightarrow> prop_matches (e_props edge) prop_key prop_value)"

definition find_secondary_eq_nodes_at_limited ::
    "(prop_value \<Rightarrow> bytes) \<Rightarrow> walk \<Rightarrow> memtable_state \<Rightarrow> u64 \<Rightarrow> rstring \<Rightarrow> prop_value \<Rightarrow> u64 \<Rightarrow> nat option \<Rightarrow> u64 list" where
  "find_secondary_eq_nodes_at_limited pv_to_vec walk st index_id prop_key prop_value snapshot_seq max_ids =
     sort (case eq_group st index_id (hash_prop_equality_key pv_to_vec prop_value) of
         None \<Rightarrow> []
       | Some members \<Rightarrow> take_ids max_ids (eq_node_matches st prop_key prop_value snapshot_seq) (hash_entries walk members) [])"

definition find_secondary_eq_nodes_at ::
    "(prop_value \<Rightarrow> bytes) \<Rightarrow> walk \<Rightarrow> memtable_state \<Rightarrow> u64 \<Rightarrow> rstring \<Rightarrow> prop_value \<Rightarrow> u64 \<Rightarrow> u64 list" where
  "find_secondary_eq_nodes_at pv_to_vec walk st index_id prop_key prop_value snapshot_seq =
     find_secondary_eq_nodes_at_limited pv_to_vec walk st index_id prop_key prop_value snapshot_seq None"

definition find_secondary_eq_by_hash :: "walk \<Rightarrow> memtable_state \<Rightarrow> u64 \<Rightarrow> u64 \<Rightarrow> u64 \<Rightarrow> nat option \<Rightarrow> u64 list" where
  "find_secondary_eq_by_hash walk st index_id value_hash snapshot_seq max_ids =
     (case eq_group st index_id value_hash of
        None \<Rightarrow> []
      | Some members \<Rightarrow> sort (take_ids max_ids (\<lambda>(_, slot). slot_option_visible slot snapshot_seq) (hash_entries walk members) []))"

definition find_secondary_eq_nodes_by_hash_at_limited ::
    "walk \<Rightarrow> memtable_state \<Rightarrow> u64 \<Rightarrow> u64 \<Rightarrow> u64 \<Rightarrow> nat option \<Rightarrow> u64 list" where
  "find_secondary_eq_nodes_by_hash_at_limited = find_secondary_eq_by_hash"

definition find_secondary_eq_edges_by_hash_at_limited ::
    "walk \<Rightarrow> memtable_state \<Rightarrow> u64 \<Rightarrow> u64 \<Rightarrow> u64 \<Rightarrow> nat option \<Rightarrow> u64 list" where
  "find_secondary_eq_edges_by_hash_at_limited = find_secondary_eq_by_hash"

definition secondary_eq_node_count_at ::
    "(prop_value \<Rightarrow> bytes) \<Rightarrow> memtable_state \<Rightarrow> u64 \<Rightarrow> rstring \<Rightarrow> prop_value \<Rightarrow> u64 \<Rightarrow> nat" where
  "secondary_eq_node_count_at pv_to_vec st index_id prop_key prop_value snapshot_seq =
     (case eq_group st index_id (hash_prop_equality_key pv_to_vec prop_value) of
        None \<Rightarrow> 0
      | Some members \<Rightarrow> length (filter (eq_node_matches st prop_key prop_value snapshot_seq) (btree_entries members)))"

definition secondary_eq_edge_count_at ::
    "(prop_value \<Rightarrow> bytes) \<Rightarrow> memtable_state \<Rightarrow> u64 \<Rightarrow> rstring \<Rightarrow> prop_value \<Rightarrow> u64 \<Rightarrow> nat" where
  "secondary_eq_edge_count_at pv_to_vec st index_id prop_key prop_value snapshot_seq =
     (case eq_group st index_id (hash_prop_equality_key pv_to_vec prop_value) of
        None \<Rightarrow> 0
      | Some members \<Rightarrow> length (filter (eq_edge_matches st prop_key prop_value snapshot_seq) (btree_entries members)))"

definition eq_hash_count :: "memtable_state \<Rightarrow> u64 \<Rightarrow> u64 \<Rightarrow> u64 \<Rightarrow> nat" where
  "eq_hash_count st index_id value_hash snapshot_seq = (case eq_group st index_id value_hash of
     None \<Rightarrow> 0
   | Some members \<Rightarrow> length (filter (\<lambda>(_, slot). slot_option_visible slot snapshot_seq) (btree_entries members)))"

definition secondary_eq_node_hash_count_at :: "memtable_state \<Rightarrow> u64 \<Rightarrow> u64 \<Rightarrow> u64 \<Rightarrow> nat" where
  "secondary_eq_node_hash_count_at = eq_hash_count"

definition secondary_eq_edge_hash_count_at :: "memtable_state \<Rightarrow> u64 \<Rightarrow> u64 \<Rightarrow> u64 \<Rightarrow> nat" where
  "secondary_eq_edge_hash_count_at = eq_hash_count"

section \<open>Range indexes\<close>

text \<open>
  A scan starts at the lower bound or after the cursor, whichever is later. An exclusive lower
  bound starts after the last id of its value; the flag says that the start itself is excluded.
\<close>

definition secondary_range_start_bound :: "(bytes \<times> bool) option \<Rightarrow> (bytes \<times> u64) option \<Rightarrow> (bytes \<times> u64) bound" where
  "secondary_range_start_bound lower after =
     (let start = map_option (\<lambda>(value, inclusive).
            if inclusive then ((value, 0), False) else ((value, U64_MAX), True)) lower;
          start = (case after of
              None \<Rightarrow> start
            | Some cursor \<Rightarrow> Some (case start of
                Some existing \<Rightarrow>
                  if fst existing > cursor then existing
                  else if fst existing < cursor then (cursor, True)
                  else (fst existing, snd existing \<or> True)
              | None \<Rightarrow> (cursor, True)))
      in case start of
           Some (target, True) \<Rightarrow> Excluded target
         | Some (target, False) \<Rightarrow> Included target
         | None \<Rightarrow> Unbounded)"

definition secondary_range_past_upper :: "bytes \<Rightarrow> (bytes \<times> bool) option \<Rightarrow> bool" where
  "secondary_range_past_upper encoded upper = (case upper of
     None \<Rightarrow> False
   | Some (upper_value, inclusive) \<Rightarrow> encoded > upper_value \<or> \<not> inclusive \<and> encoded = upper_value)"

fun range_loop ::
    "(bytes \<times> bool) option \<Rightarrow> u64 \<Rightarrow> nat option \<Rightarrow> ((bytes \<times> u64) \<times> unit membership_slot) list \<Rightarrow> (bytes \<times> u64) list
       \<Rightarrow> (bytes \<times> u64) list" where
  "range_loop upper snapshot_seq limit [] result = result"
| "range_loop upper snapshot_seq limit (((encoded, node_id), slot) # rest) result =
     (if secondary_range_past_upper encoded upper then result
      else if \<not> slot_option_visible slot snapshot_seq then range_loop upper snapshot_seq limit rest result
      else let result = result @ [(encoded, node_id)]
        in if (case limit of None \<Rightarrow> False | Some n \<Rightarrow> length result \<ge> n) then result
           else range_loop upper snapshot_seq limit rest result)"

definition visible_secondary_range_entries_limited ::
    "memtable_state \<Rightarrow> u64 \<Rightarrow> (bytes \<times> bool) option \<Rightarrow> (bytes \<times> bool) option \<Rightarrow> (bytes \<times> u64) option \<Rightarrow> u64 \<Rightarrow> nat option
       \<Rightarrow> (bytes \<times> u64) list option" where
  "visible_secondary_range_entries_limited st index_id lower upper after snapshot_seq limit =
     (if limit = Some 0 then Some []
      else case fmlookup (secondary_range_state st) index_id of
        None \<Rightarrow> Some []
      | Some entries \<Rightarrow> map_option (\<lambda>es. range_loop upper snapshot_seq limit es [])
          (btree_range entries (secondary_range_start_bound lower after) Unbounded))"

definition visible_secondary_range_entry_count ::
    "memtable_state \<Rightarrow> u64 \<Rightarrow> (bytes \<times> bool) option \<Rightarrow> (bytes \<times> bool) option \<Rightarrow> (bytes \<times> u64) option \<Rightarrow> u64 \<Rightarrow> nat option" where
  "visible_secondary_range_entry_count st index_id lower upper after snapshot_seq =
     (case fmlookup (secondary_range_state st) index_id of
        None \<Rightarrow> Some 0
      | Some entries \<Rightarrow> map_option (\<lambda>es. length (filter (\<lambda>(_, slot). slot_option_visible slot snapshot_seq)
            (takeWhile (\<lambda>((encoded, _), _). \<not> secondary_range_past_upper encoded upper) es)))
          (btree_range entries (secondary_range_start_bound lower after) Unbounded))"

fun range_visit ::
    "(bytes \<times> bool) option \<Rightarrow> u64 \<Rightarrow> (bytes \<times> u64, 'c) callback \<Rightarrow> ((bytes \<times> u64) \<times> unit membership_slot) list \<Rightarrow> 'c \<Rightarrow> 'c \<times> bool" where
  "range_visit upper snapshot_seq callback [] acc = (acc, False)"
| "range_visit upper snapshot_seq callback (((encoded, node_id), slot) # rest) acc =
     (if secondary_range_past_upper encoded upper then (acc, False)
      else if \<not> slot_option_visible slot snapshot_seq then range_visit upper snapshot_seq callback rest acc
      else case callback (encoded, node_id) acc of (acc, stop) \<Rightarrow>
        if stop then (acc, True) else range_visit upper snapshot_seq callback rest acc)"

definition for_each_visible_secondary_range_entry_at ::
    "memtable_state \<Rightarrow> u64 \<Rightarrow> (bytes \<times> bool) option \<Rightarrow> (bytes \<times> bool) option \<Rightarrow> (bytes \<times> u64) option \<Rightarrow> u64
       \<Rightarrow> (bytes \<times> u64, 'c) callback \<Rightarrow> 'c \<Rightarrow> ('c \<times> bool) option" where
  "for_each_visible_secondary_range_entry_at st index_id lower upper after snapshot_seq callback acc =
     (case fmlookup (secondary_range_state st) index_id of
        None \<Rightarrow> Some (acc, False)
      | Some entries \<Rightarrow> map_option (\<lambda>es. range_visit upper snapshot_seq callback es acc)
          (btree_range entries (secondary_range_start_bound lower after) Unbounded))"

section \<open>Compound indexes\<close>

definition compound_start_bound :: "compound_lower_bound option \<Rightarrow> (bytes \<times> u64) bound" where
  "compound_start_bound lower = (case lower of Some lower \<Rightarrow> Included (lb_key lower, 0) | None \<Rightarrow> Unbounded)"

definition compound_kept :: "bytes option \<Rightarrow> u64 \<Rightarrow> (bytes \<times> u64) \<times> unit membership_slot \<Rightarrow> bool" where
  "compound_kept skip snapshot_seq e \<longleftrightarrow>
     \<not> (case skip of None \<Rightarrow> False | Some prefix \<Rightarrow> starts_with (fst (fst e)) prefix) \<and> slot_option_visible (snd e) snapshot_seq"

definition collect_visible_compound_ids ::
    "(bytes \<times> u64, unit membership_slot) fmap \<Rightarrow> (bytes \<times> u64) bound \<Rightarrow> bytes \<Rightarrow> bytes option \<Rightarrow> u64 \<Rightarrow> u64 list option" where
  "collect_visible_compound_ids entries lower upper_exclusive skip_prefix snapshot_seq =
     map_option (\<lambda>es. map (snd \<circ> fst) (filter (compound_kept skip_prefix snapshot_seq) es))
       (btree_range entries lower (Excluded (upper_exclusive, 0)))"

definition count_visible_compound_ids ::
    "(bytes \<times> u64, unit membership_slot) fmap \<Rightarrow> (bytes \<times> u64) bound \<Rightarrow> bytes \<Rightarrow> bytes option \<Rightarrow> u64 \<Rightarrow> nat option" where
  "count_visible_compound_ids entries lower upper_exclusive skip_prefix snapshot_seq =
     map_option (\<lambda>es. length (filter (compound_kept skip_prefix snapshot_seq) es))
       (btree_range entries lower (Excluded (upper_exclusive, 0)))"

text \<open>Prefix and range scans, the same for node and for edge indexes.\<close>

definition find_compound_prefix_at :: "memtable_state \<Rightarrow> u64 \<Rightarrow> compound_prefix_bounds \<Rightarrow> u64 \<Rightarrow> u64 list option" where
  "find_compound_prefix_at st index_id bounds snapshot_seq = (case fmlookup (secondary_compound_state st) index_id of
     None \<Rightarrow> Some []
   | Some entries \<Rightarrow> collect_visible_compound_ids entries (Included (pb_lower bounds, 0)) (pb_upper_exclusive bounds) None snapshot_seq)"

definition count_compound_prefix_at :: "memtable_state \<Rightarrow> u64 \<Rightarrow> compound_prefix_bounds \<Rightarrow> u64 \<Rightarrow> nat option" where
  "count_compound_prefix_at st index_id bounds snapshot_seq = (case fmlookup (secondary_compound_state st) index_id of
     None \<Rightarrow> Some 0
   | Some entries \<Rightarrow> count_visible_compound_ids entries (Included (pb_lower bounds, 0)) (pb_upper_exclusive bounds) None snapshot_seq)"

definition range_skip_prefix :: "compound_range_bounds \<Rightarrow> bytes option" where
  "range_skip_prefix bounds = (case crb_lower bounds of
     None \<Rightarrow> None
   | Some lower \<Rightarrow> if lb_exclusive_component_prefix lower then Some (lb_key lower) else None)"

definition find_compound_range_at :: "memtable_state \<Rightarrow> u64 \<Rightarrow> compound_range_bounds \<Rightarrow> u64 \<Rightarrow> u64 list option" where
  "find_compound_range_at st index_id bounds snapshot_seq = (case fmlookup (secondary_compound_state st) index_id of
     None \<Rightarrow> Some []
   | Some entries \<Rightarrow> collect_visible_compound_ids entries (compound_start_bound (crb_lower bounds)) (crb_upper_exclusive bounds)
       (range_skip_prefix bounds) snapshot_seq)"

definition count_compound_range_at :: "memtable_state \<Rightarrow> u64 \<Rightarrow> compound_range_bounds \<Rightarrow> u64 \<Rightarrow> nat option" where
  "count_compound_range_at st index_id bounds snapshot_seq = (case fmlookup (secondary_compound_state st) index_id of
     None \<Rightarrow> Some 0
   | Some entries \<Rightarrow> count_visible_compound_ids entries (compound_start_bound (crb_lower bounds)) (crb_upper_exclusive bounds)
       (range_skip_prefix bounds) snapshot_seq)"

section \<open>Exports\<close>

definition collect_deleted_nodes_at :: "memtable_state \<Rightarrow> u64 \<Rightarrow> u64 fset" where
  "collect_deleted_nodes_at st snapshot_seq =
     fset_of_list (map fst (filter (\<lambda>(_, slot). slot_option_visible slot snapshot_seq) (btree_entries (node_tombstones st))))"

definition collect_deleted_edges_at :: "memtable_state \<Rightarrow> u64 \<Rightarrow> u64 fset" where
  "collect_deleted_edges_at st snapshot_seq =
     fset_of_list (map fst (filter (\<lambda>(_, slot). slot_option_visible slot snapshot_seq) (btree_entries (edge_tombstones st))))"

definition current_nodes :: "memtable_state \<Rightarrow> (u64, node_record) fmap" where
  "current_nodes st = fmap_of_list (List.map_filter (\<lambda>(rid, slot). map_option (\<lambda>node. (rid, node)) (record_current slot))
     (btree_entries (nodes st)))"

definition current_edges :: "memtable_state \<Rightarrow> (u64, edge_record) fmap" where
  "current_edges st = fmap_of_list (List.map_filter (\<lambda>(rid, slot). map_option (\<lambda>edge. (rid, edge)) (record_current slot))
     (btree_entries (edges st)))"

definition deleted_nodes :: "memtable_state \<Rightarrow> (u64, tombstone_entry) fmap" where
  "deleted_nodes st = fmap_of_list (List.map_filter (\<lambda>(rid, _). map_option (\<lambda>entry. (rid, entry)) (node_tombstone_current st rid))
     (btree_entries (node_tombstones st)))"

definition deleted_edges :: "memtable_state \<Rightarrow> (u64, tombstone_entry) fmap" where
  "deleted_edges st = fmap_of_list (List.map_filter (\<lambda>(rid, _). map_option (\<lambda>entry. (rid, entry)) (edge_tombstone_current st rid))
     (btree_entries (edge_tombstones st)))"

text \<open>The current members of a map of slots; an owner without one is left out.\<close>

definition current_members :: "('k::linorder, 'a membership_slot) fmap \<Rightarrow> ('k, 'a) fmap" where
  "current_members m = fmap_of_list (List.map_filter (\<lambda>(k, slot). map_option (Pair k) (slot_option_current slot)) (btree_entries m))"

definition non_empty_groups :: "(('i, 'v) fmap \<Rightarrow> ('j, 'w) fmap) \<Rightarrow> ('k::linorder, ('i, 'v) fmap) fmap \<Rightarrow> ('k, ('j, 'w) fmap) fmap" where
  "non_empty_groups f m = fmap_of_list (filter (\<lambda>(_, visible). visible \<noteq> fmempty) (map (\<lambda>(k, inner). (k, f inner)) (btree_entries m)))"

definition current_adj_map ::
    "(u64, (u64, adj_entry membership_slot) fmap) fmap \<Rightarrow> (u64, (u64, adj_entry) fmap) fmap" where
  "current_adj_map = non_empty_groups current_members"

definition current_label_membership_index ::
    "(u32, (u64, unit membership_slot) fmap) fmap \<Rightarrow> (u32, (u64, unit) fmap) fmap" where
  "current_label_membership_index = non_empty_groups current_members"

definition current_secondary_eq_state ::
    "(u64, (u64, (u64, unit membership_slot) fmap) fmap) fmap \<Rightarrow> (u64, (u64, (u64, unit) fmap) fmap) fmap" where
  "current_secondary_eq_state = non_empty_groups (non_empty_groups current_members)"

definition current_secondary_range_state ::
    "(u64, (bytes \<times> u64, unit membership_slot) fmap) fmap \<Rightarrow> (u64, (bytes \<times> u64, unit) fmap) fmap" where
  "current_secondary_range_state = non_empty_groups current_members"

definition current_time_index :: "(u32 \<times> int \<times> u64, unit membership_slot) fmap \<Rightarrow> (u32 \<times> int \<times> u64) fset" where
  "current_time_index m = fset_of_list (List.map_filter (\<lambda>(k, slot). map_option (\<lambda>_. k) (slot_option_current slot)) (btree_entries m))"

text \<open>The compound indexes asked for, each once, with their current entries in key order.\<close>

definition current_compound_secondary_state_for_indexes ::
    "(u64, (bytes \<times> u64, unit membership_slot) fmap) fmap \<Rightarrow> u64 list \<Rightarrow> (u64, (bytes \<times> u64) list) fmap" where
  "current_compound_secondary_state_for_indexes source index_ids =
     fold (\<lambda>index_id result. case fmlookup source index_id of
         None \<Rightarrow> result
       | Some entries \<Rightarrow>
           let visible = List.map_filter (\<lambda>(k, slot). map_option (\<lambda>_. k) (slot_option_current slot)) (btree_entries entries)
           in if visible \<noteq> [] then fmupd index_id visible result else result)
       (remdups_adj (sort index_ids)) fmempty"

end
