(* ===== verification/Memtable_Query.thy ===== *)
theory Memtable_Query
  imports Memtable_Reach Memtable_Scans
begin

text \<open>
  What the reads of a memtable return, in terms of the records its snapshot holds. Every scan of an
  index of a reachable memtable gives exactly the records it should, in order and once.
\<close>

section \<open>Walks of maps\<close>

lemma set_btree_entries: "set (btree_entries m) = {(k, v). fmlookup m k = Some v}"
  by (force simp: btree_entries_def fmlookup_dom_iff)

lemma filter_btree_entries:
  "map fst (filter P (btree_entries m)) = sorted_list_of_set {k. \<exists>v. fmlookup m k = Some v \<and> P (k, v)}" (is "?xs = sorted_list_of_set ?S")
proof -
  let ?Q = "\<lambda>k. P (k, the (fmlookup m k))"
  have xs: "?xs = filter ?Q (sorted_list_of_fset (fmdom m))"
    by (simp add: btree_entries_def filter_map comp_def)
  have "set ?xs = ?S" by (auto simp: xs fmlookup_dom_iff)
  moreover have "sorted ?xs" "distinct ?xs"
    unfolding xs by (simp_all add: sorted_wrt_filter sorted_list_of_fset.rep_eq)
  ultimately show ?thesis by (metis sorted_list_of_set.idem_if_sorted_distinct)
qed

lemma visible_entry: "(\<exists>v. fmlookup m k = Some v \<and> slot_option_visible v s) \<longleftrightarrow> opt_at m s k \<noteq> None"
  by (auto simp: opt_at_def slot_option_visible_at bind_eq_Some_conv)

lemma visible_entries:
  "map fst (filter (\<lambda>(_, slot). slot_option_visible slot s) (btree_entries m)) = sorted_list_of_set {k. opt_at m s k \<noteq> None}"
  unfolding filter_btree_entries by (simp add: visible_entry)

lemma finite_opt_at: "finite {k. opt_at m s k \<noteq> None}"
  by (rule finite_subset [of _ "fset (fmdom m)"]) (auto simp: opt_at_def fmlookup_dom_iff bind_eq_Some_conv)

lemma finite_rec_at: "finite {k. rec_at m s k \<noteq> None}"
  by (rule finite_subset [of _ "fset (fmdom m)"]) (auto simp: rec_at_def fmlookup_dom_iff bind_eq_Some_conv)

lemma range_visible:
  assumes "btree_range m start end' = Some es"
  shows "map fst (filter (\<lambda>(_, slot). slot_option_visible slot s) es) =
    sorted_list_of_set {k. above_start start k \<and> below_end end' k \<and> opt_at m s k \<noteq> None}"
proof -
  have "filter (\<lambda>(_, slot). slot_option_visible slot s) es =
      filter (\<lambda>(k, slot). above_start start k \<and> below_end end' k \<and> slot_option_visible slot s) (btree_entries m)"
    using assms by (auto simp: btree_range_def case_prod_beta' conj_assoc split: if_splits)
  moreover have "(\<exists>v. fmlookup m k = Some v \<and> above_start start k \<and> below_end end' k \<and> slot_option_visible v s) \<longleftrightarrow>
      above_start start k \<and> below_end end' k \<and> opt_at m s k \<noteq> None" for k
    using visible_entry [of m k s] by blast
  ultimately show ?thesis by (simp add: filter_btree_entries del: not_None_eq)
qed

lemma sorted_list_head:
  "finite S \<Longrightarrow> (case sorted_list_of_set S of [] \<Rightarrow> None | k # _ \<Rightarrow> Some k) = (if S = {} then None else Some (Min S))"
  by (cases "S = {}") (simp_all add: sorted_list_of_set_nonempty)

lemma find_visible:
  assumes "btree_range m start end' = Some es"
  shows "first_visible s es = (let S = {k. above_start start k \<and> below_end end' k \<and> opt_at m s k \<noteq> None}
    in if S = {} then None else Some (Min S))"
proof -
  let ?S = "{k. above_start start k \<and> below_end end' k \<and> opt_at m s k \<noteq> None}"
  have fin: "finite ?S" by (rule finite_subset [OF _ finite_opt_at [of m s]]) auto
  have find: "map_option fst (find P xs) = (case map fst (filter P xs) of [] \<Rightarrow> None | k # _ \<Rightarrow> Some k)" for P and xs :: "('c \<times> 'd) list"
    by (induction xs) auto
  have "first_visible s es = (case sorted_list_of_set ?S of [] \<Rightarrow> None | k # _ \<Rightarrow> Some k)"
    unfolding first_visible_def find range_visible [OF assms] ..
  then show ?thesis unfolding Let_def sorted_list_head [OF fin] .
qed

section \<open>Labels\<close>

lemma label_interval: "(l, 0) \<le> k \<and> k \<le> (l, U64_MAX) \<longleftrightarrow> fst k = (l :: u32)"
  by (cases k) auto

lemma sorted_list_of_set_map:
  assumes "finite A" and "\<And>x y. x \<in> A \<Longrightarrow> y \<in> A \<Longrightarrow> x < y \<Longrightarrow> f x < f y"
  shows "map f (sorted_list_of_set A) = sorted_list_of_set (f ` A)"
proof -
  let ?xs = "sorted_list_of_set A"
  have "sorted_wrt (<) (map f ?xs)"
    unfolding sorted_wrt_map using assms(1)
    by (intro sorted_wrt_mono_rel [OF _ strict_sorted_list_of_set]) (simp add: assms)
  then have "sorted (map f ?xs)" "distinct (map f ?xs)" by (simp_all add: strict_sorted_iff)
  moreover have "set (map f ?xs) = f ` A" using assms(1) by simp
  ultimately show ?thesis by (metis sorted_list_of_set.idem_if_sorted_distinct)
qed

lemma pair_section:
  fixes l :: "'a::linorder" and S :: "('a \<times> 'b::linorder) set"
  assumes "finite S" and "\<And>k. k \<in> S \<Longrightarrow> fst k = l"
  shows "map snd (sorted_list_of_set S) = sorted_list_of_set {i. (l, i) \<in> S}"
proof -
  have "snd ` S = {i. (l, i) \<in> S}" using assms(2) by force
  moreover have "snd x < snd y" if "x \<in> S" "y \<in> S" "x < y" for x y
    using that assms(2) [OF that(1)] assms(2) [OF that(2)] by (auto simp: less_prod_def')
  ultimately show ?thesis using sorted_list_of_set_map [OF assms(1), of snd] by metis
qed

lemma label_scan:
  "map_option (\<lambda>es. map (snd \<circ> fst) (filter (\<lambda>(_, slot). slot_option_visible slot s) es)) (label_range m l) =
     Some (sorted_list_of_set {i. opt_at m s (l, i) \<noteq> None})"
  "map_option (\<lambda>es. length (filter (\<lambda>(_, slot). slot_option_visible slot s) es)) (label_range m l) =
     Some (card {i. opt_at m s (l, i) \<noteq> None})"
proof -
  obtain es where es: "label_range m l = Some es" by (auto simp: label_range_def btree_range_def)
  let ?S = "{k. fst k = l \<and> opt_at m s k \<noteq> None}"
  have "map fst (filter (\<lambda>(_, slot). slot_option_visible slot s) es) = sorted_list_of_set ?S"
    using range_visible [OF es [unfolded label_range_def], of s] by (simp add: label_interval flip: conj_assoc)
  moreover have fin: "finite ?S" by (rule finite_subset [OF _ finite_opt_at [of m s]]) auto
  ultimately have scan: "map (snd \<circ> fst) (filter (\<lambda>(_, slot). slot_option_visible slot s) es) =
      sorted_list_of_set {i. opt_at m s (l, i) \<noteq> None}"
    using pair_section [OF fin, of l] by (simp flip: map_map)
  then show "map_option (\<lambda>es. map (snd \<circ> fst) (filter (\<lambda>(_, slot). slot_option_visible slot s) es)) (label_range m l) =
     Some (sorted_list_of_set {i. opt_at m s (l, i) \<noteq> None})"
    by (simp add: es)
  have "length (filter (\<lambda>(_, slot). slot_option_visible slot s) es) = card {i. opt_at m s (l, i) \<noteq> None}"
    using arg_cong [OF scan, of length] by simp
  then show "map_option (\<lambda>es. length (filter (\<lambda>(_, slot). slot_option_visible slot s) es)) (label_range m l) =
     Some (card {i. opt_at m s (l, i) \<noteq> None})"
    by (simp add: es)
qed

lemma label_cursor_eq:
  "label_cursor m l s after = Some (let S = {i. (\<forall>a. after = Some a \<longrightarrow> a < i) \<and> opt_at m s (l, i) \<noteq> None}
     in if S = {} then None else Some (Min S))"
proof -
  let ?start = "case after of Some a \<Rightarrow> Excluded (l, a) | None \<Rightarrow> Included (l, 0)"
  obtain es where es: "btree_range m ?start (Included (l, U64_MAX)) = Some es"
    by (cases after) (auto simp: btree_range_def not_less)
  let ?S = "{k. above_start ?start k \<and> below_end (Included (l, U64_MAX)) k \<and> opt_at m s k \<noteq> None}"
  let ?I = "{i. (\<forall>a. after = Some a \<longrightarrow> a < i) \<and> opt_at m s (l, i) \<noteq> None}"
  have S: "?S = Pair l ` ?I" by (cases after) auto
  have fin: "finite ?I" using finite_opt_at [of m s] by (rule finite_surj [of _ _ snd]) force
  have "Min (Pair l ` ?I) = (l, Min ?I)" if "?I \<noteq> {}"
    using mono_Min_commute [of "Pair l" ?I] fin that by (simp add: mono_def)
  then show ?thesis
    unfolding label_cursor_def Let_def es option.map find_visible [OF es] S by auto
qed

section \<open>Index entries of reachable states\<close>

lemma index_views [simp]:
  "g_node_labels (view st s) = opt_at (label_node_index st) s" "g_times (view st s) = opt_at (time_node_index st) s"
  "g_edge_labels (view st s) = nested_at (label_edge_index st) s"
  "g_ordered_edge_labels (view st s) = opt_at (ordered_label_edge_index st) s"
  "g_edge_ids (view st s) = opt_at (ordered_edge_ids st) s" "g_adj_out (view st s) = nested_at (adj_out st) s"
  "g_adj_in (view st s) = nested_at (adj_in st) s" "g_ordered_adj_out (view st s) = nested_at (ordered_adj_out st) s"
  "g_ordered_adj_in (view st s) = nested_at (ordered_adj_in st) s" "g_triples (view st s) = opt_at (edge_triple_index st) s"
  "g_keys (view st s) = nested_at (node_key_index st) s"
  by (simp_all add: view_def)

lemma unit_option: "(x :: unit option) \<noteq> None \<longleftrightarrow> x = Some ()"
  by (cases x) simp_all

lemma reach_node_index:
  assumes "memtable_reach pv st w"
  shows "opt_at (label_node_index st) s (l, i) \<noteq> None \<longleftrightarrow> (\<exists>n. node_at st i s = Some n \<and> l \<in> labels_of n)"
    and "opt_at (time_node_index st) s (l, t, i) \<noteq> None \<longleftrightarrow>
      (\<exists>n. node_at st i s = Some n \<and> l \<in> labels_of n \<and> sint (n_updated_at n) = t)"
proof -
  have "node_indexes_ok (view st s)" using reach_invariants [OF assms] by (simp add: store_ok_def)
  then show "opt_at (label_node_index st) s (l, i) \<noteq> None \<longleftrightarrow> (\<exists>n. node_at st i s = Some n \<and> l \<in> labels_of n)"
    "opt_at (time_node_index st) s (l, t, i) \<noteq> None \<longleftrightarrow>
      (\<exists>n. node_at st i s = Some n \<and> l \<in> labels_of n \<and> sint (n_updated_at n) = t)"
    unfolding node_indexes_ok_def unit_option node_at_view by simp_all
qed

lemma reach_edge_index:
  assumes "memtable_reach pv st w"
  shows "nested_at (label_edge_index st) s (l, i) \<noteq> None \<longleftrightarrow> (\<exists>e. edge_at st i s = Some e \<and> e_label_id e = l)"
    and "opt_at (ordered_label_edge_index st) s (l, i) \<noteq> None \<longleftrightarrow> (\<exists>e. edge_at st i s = Some e \<and> e_label_id e = l)"
    and "opt_at (ordered_edge_ids st) s i \<noteq> None \<longleftrightarrow> edge_at st i s \<noteq> None"
    and "nested_at (adj_out st) s (a, i) = Some x \<longleftrightarrow> (\<exists>e. edge_at st i s = Some e \<and> e_from e = a \<and> x = adj_out_entry e)"
    and "nested_at (adj_in st) s (a, i) = Some x \<longleftrightarrow> (\<exists>e. edge_at st i s = Some e \<and> e_to e = a \<and> x = adj_in_entry e)"
    and "nested_at (ordered_adj_out st) s = nested_at (adj_out st) s"
    and "nested_at (ordered_adj_in st) s = nested_at (adj_in st) s"
    and "opt_at (edge_triple_index st) s t = Some i \<Longrightarrow> \<exists>e. edge_at st i s = Some e \<and> triple_of e = t"
proof -
  have "edge_indexes_ok (view st s)" using reach_invariants [OF assms] by (simp add: store_ok_def)
  note ok = this [unfolded edge_indexes_ok_def, folded edge_at_view, unfolded index_views]
  show "nested_at (label_edge_index st) s (l, i) \<noteq> None \<longleftrightarrow> (\<exists>e. edge_at st i s = Some e \<and> e_label_id e = l)"
    "opt_at (ordered_label_edge_index st) s (l, i) \<noteq> None \<longleftrightarrow> (\<exists>e. edge_at st i s = Some e \<and> e_label_id e = l)"
    "opt_at (ordered_edge_ids st) s i \<noteq> None \<longleftrightarrow> edge_at st i s \<noteq> None"
    "nested_at (adj_out st) s (a, i) = Some x \<longleftrightarrow> (\<exists>e. edge_at st i s = Some e \<and> e_from e = a \<and> x = adj_out_entry e)"
    "nested_at (adj_in st) s (a, i) = Some x \<longleftrightarrow> (\<exists>e. edge_at st i s = Some e \<and> e_to e = a \<and> x = adj_in_entry e)"
    "nested_at (ordered_adj_out st) s = nested_at (adj_out st) s" "nested_at (ordered_adj_in st) s = nested_at (adj_in st) s"
    unfolding unit_option using ok by (simp_all del: not_None_eq)
  show "\<exists>e. edge_at st i s = Some e \<and> triple_of e = t" if "opt_at (edge_triple_index st) s t = Some i"
    using ok that by blast
qed

lemma live_at_iff: "is_live_at slot s \<longleftrightarrow> Option.bind (record_at slot s) live_value \<noteq> None"
  by (simp add: is_live_at_def split: option.split record_state.split)

lemma visible_node_ids: "visible_node_ids_at st s = sorted_list_of_set {i. node_at st i s \<noteq> None}"
  "visible_node_count_at st s = card {i. node_at st i s \<noteq> None}"
proof -
  have "(\<exists>v. fmlookup (nodes st) i = Some v \<and> is_live_at v s) \<longleftrightarrow> node_at st i s \<noteq> None" for i
    by (cases "fmlookup (nodes st) i") (auto simp: node_at_def live_at_iff)
  then have scan: "map fst (filter (\<lambda>(_, slot). is_live_at slot s) (btree_entries (nodes st))) = sorted_list_of_set {i. node_at st i s \<noteq> None}"
    by (simp add: filter_btree_entries del: not_None_eq)
  then show "visible_node_ids_at st s = sorted_list_of_set {i. node_at st i s \<noteq> None}"
    unfolding visible_node_ids_at_def by (simp add: sorted_sort_id)
  show "visible_node_count_at st s = card {i. node_at st i s \<noteq> None}"
    using arg_cong [OF scan, of length] unfolding visible_node_count_at_def by simp
qed

lemma edges_by_label:
  "visible_edges_by_label_id st l s = sorted_list_of_set {i. nested_at (label_edge_index st) s (l, i) \<noteq> None}"
  by (simp add: visible_edges_by_label_id_def nested_at_def visible_entries sorted_sort_id split: option.split)

section \<open>Groups of labels\<close>

lemma labels_loop:
  assumes "sorted (map (fst \<circ> fst) es)" and "vis \<Longrightarrow> cur \<noteq> None"
    and "\<And>c e. cur = Some c \<Longrightarrow> e \<in> set es \<Longrightarrow> c \<le> fst (fst e)"
  shows "visible_labels_loop s es cur vis acc =
    acc @ remdups_adj ((if vis then [the cur] else []) @ map (fst \<circ> fst) (filter (\<lambda>e. slot_option_visible (snd e) s) es))"
  using assms
proof (induction es arbitrary: cur vis acc)
  case (Cons e es)
  obtain l i slot where e: "e = ((l, i), slot)" by (metis prod.exhaust)
  let ?L = "map (fst \<circ> fst) (filter (\<lambda>e. slot_option_visible (snd e) s) es)"
  have IH: "visible_labels_loop s es (Some l) v a = a @ remdups_adj ((if v then [l] else []) @ ?L)" for v a
    by (subst Cons.IH) (use Cons.prems(1) e in \<open>auto simp: comp_def\<close>)
  show ?case
  proof (cases "cur = Some l")
    case True
    then show ?thesis using e by (simp add: IH comp_def)
  next
    case False
    have "remdups_adj (c # (if slot_option_visible slot s then [l] else []) @ ?L) =
        c # remdups_adj ((if slot_option_visible slot s then [l] else []) @ ?L)" if "cur = Some c" for c
    proof -
      have "c < l" using Cons.prems(3) [OF that, of e] False e that by auto
      then have "c \<noteq> x" if "x \<in> set ((if slot_option_visible slot s then [l] else []) @ ?L)" for x
        using that Cons.prems(1) e by (auto split: if_splits)
      then show ?thesis by (cases "(if slot_option_visible slot s then [l] else []) @ ?L") auto
    qed
    with False Cons.prems(2) e show ?thesis by (cases cur) (auto simp: IH comp_def)
  qed
qed simp

lemma sorted_btree_keys: "sorted (map fst (btree_entries m))"
  by (simp add: btree_entries_def comp_def sorted_list_of_fset.rep_eq)

lemma sorted_labels:
  fixes es :: "(('a::linorder \<times> 'b::linorder) \<times> 'x) list"
  assumes "sorted (map fst es)"
  shows "sorted (map (fst \<circ> fst) es)"
  using assms unfolding sorted_map by (rule sorted_wrt_mono_rel [rotated]) (auto simp: less_eq_prod_def)

lemma distinct_remdups_adj: "sorted xs \<Longrightarrow> distinct (remdups_adj xs)"
  by (induction xs rule: remdups_adj.induct) (auto intro: order_antisym)

lemma sorted_remdups_adj_set: "sorted xs \<Longrightarrow> remdups_adj xs = sorted_list_of_set (set xs)"
  using sorted_list_of_set.idem_if_sorted_distinct [of "remdups_adj xs"] by (simp add: distinct_remdups_adj)

lemma visible_labels:
  "visible_node_label_ids st s = sorted_list_of_set {l. \<exists>i. opt_at (label_node_index st) s (l, i) \<noteq> None}"
proof -
  let ?es = "btree_entries (label_node_index st)" and ?V = "\<lambda>e. slot_option_visible (snd e) s"
  let ?L = "map (fst \<circ> fst) (filter ?V ?es)"
  have "visible_node_label_ids st s = remdups_adj ?L"
    unfolding visible_node_label_ids_def
    using labels_loop [of ?es False None s "[]", OF sorted_labels [OF sorted_btree_keys]] by simp
  also have "\<dots> = sorted_list_of_set (set ?L)"
    using sorted_btree_keys [of "label_node_index st"]
    by (intro sorted_remdups_adj_set sorted_labels) (auto simp: sorted_map intro: sorted_wrt_filter)
  also have "set ?L = {l. \<exists>i. \<exists>slot. fmlookup (label_node_index st) (l, i) = Some slot \<and> slot_option_visible slot s}"
    by (auto simp: set_btree_entries image_iff) blast+
  finally show ?thesis unfolding visible_entry .
qed

section \<open>Time ranges\<close>

lemma time_interval:
  "(l, a, 0) \<le> k \<and> k \<le> (l, b, U64_MAX) \<longleftrightarrow> fst k = (l :: u32) \<and> (a :: int) \<le> fst (snd k) \<and> fst (snd k) \<le> b"
  by (cases k) auto

definition time_keys :: "memtable_state \<Rightarrow> u64 \<Rightarrow> u32 \<Rightarrow> int \<Rightarrow> int \<Rightarrow> (u32 \<times> int \<times> u64) set" where
  "time_keys st s l a b = {k. fst k = l \<and> a \<le> fst (snd k) \<and> fst (snd k) \<le> b \<and> opt_at (time_node_index st) s k \<noteq> None}"

lemma finite_time_keys: "finite (time_keys st s l a b)"
  by (rule finite_subset [OF _ finite_opt_at [of "time_node_index st" s]]) (auto simp: time_keys_def)

lemma map_filter_label:
  assumes "\<And>e. e \<in> set es \<Longrightarrow> fst (fst e) = l"
  shows "List.map_filter (\<lambda>((entry_label_id, _, node_id), slot).
         if entry_label_id = l \<and> slot_option_visible slot s then Some node_id else None) es =
      map (snd \<circ> snd \<circ> fst) (filter (\<lambda>(_, slot). slot_option_visible slot s) es)"
  using assms
proof (induction es)
  case (Cons e es)
  obtain k t i slot where "e = ((k, t, i), slot)" by (metis prod.exhaust)
  moreover have "fst (fst e) = l" using Cons.prems by simp
  ultimately show ?case using Cons by (simp add: List.map_filter_simps)
qed (simp add: List.map_filter_simps)

lemma time_range_keys:
  assumes "a \<le> b"
  shows "time_range_ids st l a b s = Some (map (snd \<circ> snd) (sorted_list_of_set (time_keys st s l a b)))"
proof -
  let ?m = "time_node_index st"
  obtain es where es: "btree_range ?m (Included (l, a, 0)) (Included (l, b, U64_MAX)) = Some es"
    using assms by (simp add: btree_range_def)
  have keys: "map fst (filter (\<lambda>(_, slot). slot_option_visible slot s) es) = sorted_list_of_set (time_keys st s l a b)"
    using range_visible [OF es, of s]
    unfolding time_keys_def above_start.simps below_end.simps conj_assoc [symmetric] time_interval .
  have "es = filter (\<lambda>(k, _). above_start (Included (l, a, 0)) k \<and> below_end (Included (l, b, U64_MAX)) k) (btree_entries ?m)"
    using es by (simp add: btree_range_def split: if_splits del: above_start.simps below_end.simps)
  then have "(l, a, 0) \<le> fst e \<and> fst e \<le> (l, b, U64_MAX)" if "e \<in> set es" for e
    using that by (simp add: case_prod_beta')
  then have "fst (fst e) = l" if "e \<in> set es" for e using that unfolding time_interval by blast
  note map_filter_label [OF this, of es s]
  then show ?thesis unfolding time_range_ids_def es keys [symmetric] by simp
qed

lemma time_scan:
  assumes "memtable_reach pv st w" and "a \<le> b"
  shows "\<exists>ids. time_range_ids st l a b s = Some ids \<and> distinct ids \<and>
    set ids = {i. \<exists>n. node_at st i s = Some n \<and> l \<in> labels_of n \<and> a \<le> sint (n_updated_at n) \<and> sint (n_updated_at n) \<le> b}"
proof -
  note at = reach_node_index(2) [OF assms(1), of s l]
  let ?S = "time_keys st s l a b"
  have mem: "(k, t, i) \<in> ?S \<longleftrightarrow> k = l \<and> a \<le> t \<and> t \<le> b \<and> (\<exists>n. node_at st i s = Some n \<and> l \<in> labels_of n \<and> sint (n_updated_at n) = t)"
    for k t i unfolding time_keys_def mem_Collect_eq fst_conv snd_conv using at by blast
  have "inj_on (snd \<circ> snd) ?S" by (rule inj_onI) (clarsimp simp: mem)
  then have "distinct (map (snd \<circ> snd) (sorted_list_of_set ?S))" using finite_time_keys by (simp add: distinct_map)
  moreover have "i \<in> (snd \<circ> snd) ` ?S \<longleftrightarrow> (\<exists>k t. (k, t, i) \<in> ?S)" for i by force
  then have "set (map (snd \<circ> snd) (sorted_list_of_set ?S)) =
      {i. \<exists>n. node_at st i s = Some n \<and> l \<in> labels_of n \<and> a \<le> sint (n_updated_at n) \<and> sint (n_updated_at n) \<le> b}"
    using finite_time_keys by (simp add: set_eq_iff mem del: comp_apply) blast
  ultimately show ?thesis using time_range_keys [OF assms(2)] by blast
qed

lemma visit_all: "visit_each (\<lambda>x acc. (f x acc, False)) xs acc = (fold f xs acc, False)"
  by (induction xs arbitrary: acc) auto

lemma count_loop: "c + length xs \<le> USIZE_MAX \<Longrightarrow> fold (\<lambda>_ count. saturating_add count 1) xs c = c + length xs"
  by (induction xs arbitrary: c) (auto simp: saturating_add_def)

section \<open>Batches\<close>

text \<open>The batch without a cache: every key is read.\<close>

fun batch_plain :: "('k \<Rightarrow> 'r outcome) \<Rightarrow> (nat \<times> 'k) list \<Rightarrow> 'r option list \<Rightarrow> (nat \<times> 'k) list \<Rightarrow> 'r option list \<times> (nat \<times> 'k) list" where
  "batch_plain outcome [] results remaining = (results, remaining)"
| "batch_plain outcome ((i, k) # lookups) results remaining = (case outcome k of
     Found r \<Rightarrow> batch_plain outcome lookups (results[i := Some r]) remaining
   | Gone \<Rightarrow> batch_plain outcome lookups results remaining
   | NotHere \<Rightarrow> batch_plain outcome lookups results (remaining @ [(i, k)]))"

fun cached_ok :: "'r outcome \<Rightarrow> 'r option list \<Rightarrow> nat set \<Rightarrow> cached_lookup \<Rightarrow> bool" where
  "cached_ok oc results todo (CachedLive i) \<longleftrightarrow> i \<notin> todo \<and> i < length results \<and> (\<exists>r. oc = Found r \<and> results ! i = Some r)"
| "cached_ok oc results todo CachedTombstone \<longleftrightarrow> oc = Gone"
| "cached_ok oc results todo CachedMiss \<longleftrightarrow> oc = NotHere"

lemma cached_ok_step:
  assumes "cached_ok oc results (insert i todo) c" and "i \<notin> todo"
  shows "cached_ok oc results todo c" "cached_ok oc (results[i := x]) todo c"
  using assms by (cases c; auto simp: nth_list_update)+

lemma batch_cached:
  assumes "distinct (map fst lookups)" and "\<forall>i \<in> set (map fst lookups). i < length results"
    and "\<And>k c. fmlookup cache k = Some c \<Longrightarrow> cached_ok (outcome k) results (set (map fst lookups)) c"
  shows "batch_loop outcome lookups cache results remaining = Some (batch_plain outcome lookups results remaining)"
  using assms
proof (induction lookups arbitrary: cache results remaining)
  case (Cons ik lookups)
  obtain i k where ik: "ik = (i, k)" by (cases ik)
  from Cons.prems ik have i: "i \<notin> set (map fst lookups)" "i < length results" "distinct (map fst lookups)"
      "\<forall>j \<in> set (map fst lookups). j < length results" by auto
  have old: "cached_ok (outcome k') results (set (map fst lookups)) c"
      "cached_ok (outcome k') (results[i := x]) (set (map fst lookups)) c" if "fmlookup cache k' = Some c" for k' c x
    using cached_ok_step [OF _ i(1), of "outcome k'" results c] Cons.prems(3) [OF that] ik by simp_all
  have IH: "batch_loop outcome lookups cache' res' rem' = Some (batch_plain outcome lookups res' rem')"
    if "length res' = length results" "\<And>k c. fmlookup cache' k = Some c \<Longrightarrow> cached_ok (outcome k) res' (set (map fst lookups)) c"
    for cache' res' rem' using Cons.IH [of res' cache' rem'] i(3,4) that by simp
  show ?case
  proof (cases "fmlookup cache k")
    case None
    then show ?thesis
      using ik i(1,2) old by (cases "outcome k") (auto simp: write_result_def intro!: IH split: if_splits)
  next
    case (Some c)
    then show ?thesis
      using ik i(2) old Cons.prems(3) [OF Some] by (cases c) (auto simp: write_result_def IH)
  qed
qed simp

end
