(* ===== verification/Compound_Order.thy ===== *)
theory Compound_Order
  imports Compound_Keys
begin

text \<open>
  Tuple keys are total, readable and ordered: the encoder succeeds on every value list that
  fits its declaration and its keys decode; keys split uniquely into components, so that the
  key interval of a prefix query holds exactly the keys with those leading components and the
  interval of a range query exactly the keys whose next component is a number in the range.
\<close>

section \<open>Single components\<close>

definition component :: "decoded_component \<Rightarrow> bytes" where
  "component cp = [class_tag (fst cp)] @ to_be_bytes (of_nat (length (snd cp)) :: u16) @ snd cp"

lemma emit_component_eq: "emit_component c p = Inr bs \<longleftrightarrow> length p \<le> 65535 \<and> bs = component (c, p)"
  by (auto simp: emit_component_def component_def)

lemma fixed_component_eq:
  "length p \<le> 65535 \<Longrightarrow> fixed_component c p = Inr \<lparr>ce_bytes = component (c, p), ce_hashable_variable_len = None\<rparr>"
  by (simp add: fixed_component_def emit_component_def component_def)

lemma variable_component_eq:
  "length p \<le> 65535 \<Longrightarrow>
     variable_component c p = Inr \<lparr>ce_bytes = component (c, p), ce_hashable_variable_len = Some (length p)\<rparr>"
  by (simp add: variable_component_def emit_component_def component_def)

lemma class_from_tag_tag [simp]: "class_from_tag (class_tag c) = Inr c"
  by (cases c) (simp_all add: class_from_tag_def)

lemma class_tag_inject [simp]: "class_tag c = class_tag d \<longleftrightarrow> c = d"
  by (metis class_from_tag_tag Inr_inject)

lemma class_tag_less_FF: "class_tag c < 0xFF"
  by (cases c) simp_all

lemma length_component: "length (component cp) = 3 + length (snd cp)"
  by (simp add: component_def)

lemma split_header:
  "split_exact 3 (component (c, p) @ r) = Some ([class_tag c] @ to_be_bytes (of_nat (length p) :: u16), p @ r)"
  by (simp add: component_def split_exact_def)

lemma decode_component_step:
  assumes "length p \<le> 65535"
  shows "decode_components (f # fs) (component (c, p) @ r) =
    r_bind (validate_component_payload_for_field c p f) (\<lambda>_.
      r_bind (decode_components fs r) (\<lambda>cs. Inr ((c, p) # cs)))"
proof -
  have "unat (of_nat (length p) :: u16) = length p" using assms by (simp add: unat_of_nat_small)
  then show ?thesis by (simp add: split_header)
qed

lemma component_split:
  assumes "component a @ r = component b @ s" and "length (snd a) \<le> 65535" and "length (snd b) \<le> 65535"
  shows "a = b \<and> r = s"
proof -
  let ?la = "to_be_bytes (of_nat (length (snd a)) :: u16)" and ?lb = "to_be_bytes (of_nat (length (snd b)) :: u16)"
  have c: "fst a = fst b" and t: "?la @ (snd a @ r) = ?lb @ (snd b @ s)"
    using assms(1) by (simp_all add: component_def)
  from t have l: "?la = ?lb" and p: "snd a @ r = snd b @ s" by (simp_all add: append_eq_append_conv)
  have u: "unat (of_nat (length q) :: u16) = length q" if "length q \<le> 65535" for q :: bytes
    using that by (intro unat_of_nat_small) simp
  have "8 dvd LENGTH(16)" by simp
  from iffD1 [OF to_be_bytes_inject [OF this] l]
  have "unat (of_nat (length (snd a)) :: u16) = unat (of_nat (length (snd b)) :: u16)" by (rule arg_cong)
  then have "length (snd a) = length (snd b)" using u [OF assms(2)] u [OF assms(3)] by simp
  with p c show ?thesis by (simp add: prod_eq_iff)
qed

section \<open>Every fitting value has a component\<close>

fun cv_wf :: "compound_field_value \<Rightarrow> bool" where
  "cv_wf (PropertyValue (Some v)) = pv_wf v"
| "cv_wf (MetadataString s) = utf8_valid s"
| "cv_wf _ = True"

text \<open>What an encoded component is: a payload the decoder accepts, of limited size.\<close>

definition enc_ok :: "secondary_index_field_manifest \<Rightarrow> bool \<Rightarrow> component_encoding \<Rightarrow> bool" where
  "enc_ok field force e \<longleftrightarrow> (\<exists>c p. ce_bytes e = component (c, p) \<and>
     validate_component_payload_for_field c p field = Inr () \<and> length p \<le> 65535 \<and>
     (ce_hashable_variable_len e = None \<longrightarrow> length p \<le> 24) \<and>
     (force \<longrightarrow> ce_hashable_variable_len e = None))"

lemma length_equality_hash_payload [simp]: "length (equality_hash_payload ctx i f s) = 8"
  by (simp add: equality_hash_payload_def Let_def)

lemma validate_hash_payload:
  assumes "component_class_compatible_with_field CEqualityHash f"
  shows "validate_component_payload_for_field CEqualityHash (equality_hash_payload ctx i f s) f = Inr ()"
  using assms by (simp add: validate_component_payload_for_field_def payload_shape_ok_def)

lemma sort_key_payload:
  assumes "numeric_range_sort_key_for_value v = Some key"
  shows "length key = 24" and "validate_numeric_range_sidecar_key key = Inr ()"
proof -
  show "length key = 24"
    using assms by (auto simp: numeric_range_sort_key_for_value_def length_sort_key)
  then show "validate_numeric_range_sidecar_key key = Inr ()"
    using sidecar_key_valid_iff [of key] assms by (auto simp: NUMERIC_RANGE_KEY_BYTES_def)
qed

lemma enc_ok_hash:
  "component_class_compatible_with_field CEqualityHash f \<Longrightarrow>
     \<exists>e. fixed_component CEqualityHash (equality_hash_payload ctx i f s) = Inr e \<and> enc_ok f force e"
  by (auto simp: fixed_component_eq enc_ok_def validate_hash_payload intro!: exI)

lemma enc_ok_numeric:
  assumes "component_class_compatible_with_field CNumeric f"
    and "component_class_compatible_with_field CEqualityHash f \<or> numeric_key v \<noteq> None"
  shows "\<exists>e. numeric_or_hash ctx i f s v = Inr e \<and> enc_ok f force e"
proof (cases "numeric_range_sort_key_for_value v")
  case None
  then show ?thesis
    using assms enc_ok_hash by (auto simp: numeric_or_hash_def numeric_range_sort_key_for_value_def)
next
  case (Some key)
  note k = sort_key_payload [OF Some]
  have "validate_component_payload_for_field CNumeric key f = Inr ()"
    using assms(1) k by (simp add: validate_component_payload_for_field_def payload_shape_ok_def NUMERIC_RANGE_KEY_BYTES_def)
  with Some k(1) show ?thesis
    by (auto simp: numeric_or_hash_def fixed_component_eq enc_ok_def intro!: exI)
qed

lemma enc_ok_variable:
  assumes "validate_component_payload_for_field c p f = Inr ()" and "length p \<le> 65535"
  shows "\<exists>e. variable_component c p = Inr e \<and> enc_ok f False e"
  using assms by (auto simp: variable_component_eq enc_ok_def intro!: exI)

lemma enc_ok_empty:
  assumes "c \<in> {CMissing, CNull, CBoolFalse, CBoolTrue}"
  shows "\<exists>e. fixed_component c [] = Inr e \<and> enc_ok (Property k) force e"
proof -
  have "validate_component_payload_for_field c [] (Property k) = Inr ()"
    using assms by (auto simp: validate_component_payload_for_field_def payload_shape_ok_def
        component_class_compatible_with_field_def)
  then have "enc_ok (Property k) force \<lparr>ce_bytes = component (c, []), ce_hashable_variable_len = None\<rparr>"
    unfolding enc_ok_def by (intro exI [of _ c] exI [of _ "[]"]) simp
  then show ?thesis by (simp add: fixed_component_eq)
qed

lemma encode_property_component_ok:
  assumes "pv_wf v"
  shows "\<exists>e. encode_property_component pv ctx i (Property k) v force = Inr e \<and> enc_ok (Property k) force e"
proof -
  have compat: "component_class_compatible_with_field c (Property k)" for c
    by (simp add: component_class_compatible_with_field_def)
  have str: "\<exists>e. variable_component CString p = Inr e \<and> enc_ok (Property k) False e"
    if "length p \<le> MAX_COMPOUND_COMPONENT_BYTES" "utf8_valid p" for p
    using that compat
    by (intro enc_ok_variable)
      (simp_all add: validate_component_payload_for_field_def payload_shape_ok_def MAX_COMPOUND_COMPONENT_BYTES_def)
  have byt: "\<exists>e. variable_component CBytes p = Inr e \<and> enc_ok (Property k) False e"
    if "length p \<le> MAX_COMPOUND_COMPONENT_BYTES" for p
    using that compat
    by (intro enc_ok_variable)
      (simp_all add: validate_component_payload_for_field_def payload_shape_ok_def MAX_COMPOUND_COMPONENT_BYTES_def)
  have h: "\<exists>e. fixed_component CEqualityHash (equality_hash_payload ctx i (Property k) s) = Inr e \<and> enc_ok (Property k) force e" for s
    by (rule enc_ok_hash [OF compat])
  show ?thesis
  proof (cases v)
    case (Bool b)
    then show ?thesis by (cases b) (simp_all add: encode_property_component_def enc_ok_empty)
  next
    case (String s)
    then show ?thesis using assms h str [of s] by (cases force) (auto simp: encode_property_component_def not_less Let_def)
  next
    case (Bytes s)
    then show ?thesis using h byt [of s] by (cases force) (auto simp: encode_property_component_def not_less Let_def)
  qed (simp_all add: encode_property_component_def enc_ok_empty enc_ok_numeric compat h)
qed

lemma encode_component_ok:
  assumes "value_matches_field f v" and "cv_wf v"
  shows "\<exists>e. encode_component pv ctx i f v force = Inr e \<and> enc_ok f force e"
proof (cases v)
  case (PropertyValue pvo)
  with assms(1) obtain k where f: "f = Property k"
    by (auto simp: value_matches_field_def split: secondary_index_field_manifest.splits)
  show ?thesis
    using encode_property_component_ok assms PropertyValue f enc_ok_empty [of CMissing]
    by (cases pvo) (simp_all add: encode_component_def validate_value_matches_field_def)
next
  case (MetadataString s)
  with assms(1) have f: "f = NodeMetadata NmKey"
    by (auto simp: value_matches_field_def split: secondary_index_field_manifest.splits)
  have compat: "component_class_compatible_with_field CEqualityHash f" "component_class_compatible_with_field CString f"
    by (simp_all add: f component_class_compatible_with_field_def)
  have "\<exists>e. variable_component CString s = Inr e \<and> enc_ok f False e" if "length s \<le> MAX_COMPOUND_COMPONENT_BYTES"
    using that compat assms(2) MetadataString
    by (intro enc_ok_variable)
      (simp_all add: validate_component_payload_for_field_def payload_shape_ok_def MAX_COMPOUND_COMPONENT_BYTES_def)
  then show ?thesis
    using assms enc_ok_hash [OF compat(1)] MetadataString
    by (cases force) (auto simp: encode_component_def validate_value_matches_field_def not_less)
next
  case (MetadataI64 x)
  with assms(1) have "component_class_compatible_with_field CNumeric f"
    by (auto simp: value_matches_field_def component_class_compatible_with_field_def
        split: secondary_index_field_manifest.splits)
  then show ?thesis
    using enc_ok_numeric [of f "SInt x"] assms MetadataI64
    by (simp add: encode_component_def validate_value_matches_field_def numeric_key_def)
next
  case (MetadataU64 x)
  with assms(1) have "component_class_compatible_with_field CNumeric f"
    by (auto simp: value_matches_field_def component_class_compatible_with_field_def
        split: secondary_index_field_manifest.splits)
  then show ?thesis
    using enc_ok_numeric [of f "UInt x"] assms MetadataU64
    by (simp add: encode_component_def validate_value_matches_field_def numeric_key_def)
next
  case (MetadataF64 x)
  with assms(1) have "component_class_compatible_with_field CNumeric f" "component_class_compatible_with_field CEqualityHash f"
    by (auto simp: value_matches_field_def component_class_compatible_with_field_def
        split: secondary_index_field_manifest.splits)
  then show ?thesis
    using enc_ok_numeric [of f "Float x"] assms MetadataF64
    by (simp add: encode_component_def validate_value_matches_field_def)
qed

section \<open>Whole tuples\<close>

definition fits :: "compound_tuple_context \<Rightarrow> compound_field_value list \<Rightarrow> bool" where
  "fits ctx vs \<longleftrightarrow> length vs \<le> length (ctx_fields ctx) \<and>
     list_all2 value_matches_field (take (length vs) (ctx_fields ctx)) vs \<and> list_all cv_wf vs"

lemma r_map_all_ok:
  assumes "\<And>x. x \<in> set xs \<Longrightarrow> \<exists>y. f x = Inr y \<and> P x y"
  shows "\<exists>ys. r_map f xs = Inr ys \<and> list_all2 P xs ys"
  using assms
proof (induction xs)
  case (Cons x xs)
  then obtain y ys where "f x = Inr y" "P x y" "r_map f xs = Inr ys" "list_all2 P xs ys" by fastforce
  then show ?case by auto
qed simp

lemma encode_all_ok:
  assumes "fits ctx vs" and "length fh = length vs"
  shows "\<exists>encs. encode_all pv ctx vs fh = Inr encs \<and> length encs = length vs \<and>
    (\<forall>i < length vs. enc_ok (ctx_fields ctx ! i) (fh ! i) (encs ! i))"
proof -
  let ?xs = "enumerate 0 (zip (ctx_fields ctx) vs)"
  let ?P = "\<lambda>(i, f, v) e. enc_ok f (fh ! i) e"
  have len: "length vs \<le> length (ctx_fields ctx)" using assms(1) by (simp add: fits_def)
  let ?f = "\<lambda>(i, f, v). encode_component pv ctx i f v (fh ! i)"
  have all: "\<exists>y. ?f x = Inr y \<and> ?P x y" if "x \<in> set ?xs" for x
  proof -
    obtain i f v where x: "x = (i, f, v)" by (cases x) auto
    with that len have i: "i < length vs" "f = ctx_fields ctx ! i" "v = vs ! i"
      by (auto simp: in_set_enumerate_eq)
    then have "value_matches_field f v" "cv_wf v"
      using assms(1) len by (auto simp: fits_def list_all2_conv_all_nth list_all_length)
    with x show ?thesis using encode_component_ok by simp
  qed
  from r_map_all_ok [of ?xs ?f ?P, OF all] obtain encs where "encode_all pv ctx vs fh = Inr encs" and P: "list_all2 ?P ?xs encs"
    unfolding encode_all_def by blast
  moreover from P have "length encs = length vs" using len by (simp add: list_all2_conv_all_nth)
  moreover have "enc_ok (ctx_fields ctx ! i) (fh ! i) (encs ! i)" if "i < length vs" for i
    using list_all2_nthD [OF P, of i] that len by (simp add: nth_enumerate_eq)
  ultimately show ?thesis by blast
qed

lemma encode_all_flags:
  assumes "encode_compound_loop pv ctx vs fh = Inr key"
  shows "\<exists>fh' encs. length fh' = length fh \<and> encode_all pv ctx vs fh' = Inr encs \<and>
    key = concat (map ce_bytes encs) \<and> length key \<le> MAX_COMPOUND_TUPLE_BYTES"
  using assms
proof (induction pv ctx vs fh rule: encode_compound_loop.induct)
  case (1 pv ctx vs fh)
  from "1.prems" obtain encs where e: "encode_all pv ctx vs fh = Inr encs"
    by (auto simp: encode_compound_loop.simps [of pv ctx vs fh] split: sum.splits)
  show ?case
  proof (cases "sum_list (map (length \<circ> ce_bytes) encs) \<le> MAX_COMPOUND_TUPLE_BYTES")
    case True
    with "1.prems" e show ?thesis
      by (intro exI [of _ fh] exI [of _ encs])
        (auto simp: encode_compound_loop.simps [of pv ctx vs fh] length_concat comp_def)
  next
    case False
    with "1.prems" e obtain i len where m: "max_by_len (hash_candidates encs fh) = Some (i, len)"
      and i: "i < length fh" and r: "encode_compound_loop pv ctx vs (fh[i := True]) = Inr key"
      by (auto simp: encode_compound_loop.simps [of pv ctx vs fh] split: option.splits if_splits)
    from "1.IH" [OF e refl _ m refl i r] False show ?thesis by simp
  qed
qed

lemma enc_ok_length:
  assumes "enc_ok f force e" and "ce_hashable_variable_len e = None \<or> force"
  shows "length (ce_bytes e) \<le> 27"
  using assms by (auto simp: enc_ok_def length_component)

lemma max_by_len_None: "max_by_len xs = None \<longleftrightarrow> xs = []"
proof -
  have "foldl (\<lambda>best x. case best of None \<Rightarrow> Some x | Some b \<Rightarrow> if snd b \<le> snd x then Some x else Some b) (Some b) ys
      \<noteq> None" for b :: "nat \<times> nat" and ys
    by (induction ys arbitrary: b) auto
  then show ?thesis by (cases xs) (simp_all add: max_by_len_def)
qed

lemma sum_list_bound: "(\<forall>x \<in> set xs. f x \<le> (k::nat)) \<Longrightarrow> sum_list (map f xs) \<le> k * length xs"
  by (induction xs) auto

lemma hash_candidate_exists:
  assumes ok: "\<forall>i < length encs. enc_ok (flds ! i) (fh ! i) (encs ! i)" and "length encs \<le> MAX_SECONDARY_INDEX_FIELDS"
    and big: "\<not> sum_list (map (length \<circ> ce_bytes) encs) \<le> MAX_COMPOUND_TUPLE_BYTES"
  shows "max_by_len (hash_candidates encs fh) \<noteq> None"
proof
  assume "max_by_len (hash_candidates encs fh) = None"
  then have none: "hash_candidates encs fh = []" by (simp only: max_by_len_None)
  have "length (ce_bytes (encs ! i)) \<le> 27" if i: "i < length encs" for i
  proof -
    have "ce_hashable_variable_len (encs ! i) = None \<or> fh ! i"
    proof (rule ccontr)
      assume "\<not> ?thesis"
      then obtain len where "ce_hashable_variable_len (encs ! i) = Some len" "\<not> fh ! i" by auto
      then have "(i, len) \<in> set (hash_candidates encs fh)"
        using i by (force simp: hash_candidates_def in_set_enumerate_eq)
      with none show False by simp
    qed
    then show ?thesis using ok i enc_ok_length by blast
  qed
  then have "sum_list (map (length \<circ> ce_bytes) encs) \<le> 27 * length encs"
    by (intro sum_list_bound) (auto simp: in_set_conv_nth)
  with assms(2) big show False by (simp add: MAX_SECONDARY_INDEX_FIELDS_def MAX_COMPOUND_TUPLE_BYTES_def)
qed

lemma encode_compound_loop_total:
  assumes "fits ctx vs" and "length vs \<le> MAX_SECONDARY_INDEX_FIELDS" and "length fh = length vs"
  shows "\<exists>key. encode_compound_loop pv ctx vs fh = Inr key"
  using assms
proof (induction pv ctx vs fh rule: encode_compound_loop.induct)
  case (1 pv ctx vs fh)
  obtain encs where e: "encode_all pv ctx vs fh = Inr encs" "length encs = length vs"
    and ok: "\<forall>i < length encs. enc_ok (ctx_fields ctx ! i) (fh ! i) (encs ! i)"
    using encode_all_ok "1.prems"(1,3) by metis
  show ?case
  proof (cases "sum_list (map (length \<circ> ce_bytes) encs) \<le> MAX_COMPOUND_TUPLE_BYTES")
    case True
    then show ?thesis using e by (simp add: encode_compound_loop.simps [of pv ctx vs fh])
  next
    case False
    have "length encs \<le> MAX_SECONDARY_INDEX_FIELDS" using e(2) "1.prems"(2) by simp
    from hash_candidate_exists [OF ok this False] obtain i len
      where m: "max_by_len (hash_candidates encs fh) = Some (i, len)" by auto
    then have i: "i < length fh" using max_by_len_mem hash_candidates_mem e(2) "1.prems"(3) by fastforce
    from "1.IH" [OF e(1) refl False m refl i] "1.prems"
    show ?thesis using e(1) False m i by (simp add: encode_compound_loop.simps [of pv ctx vs fh])
  qed
qed

lemma decode_concat:
  assumes "list_all2 (\<lambda>f e. \<exists>force. enc_ok f force e) fs encs"
  shows "\<exists>cs. decode_components fs (concat (map ce_bytes encs)) = Inr cs \<and> map component cs = map ce_bytes encs"
  using assms
proof (induction rule: list_all2_induct)
  case (Cons f fs e es)
  then obtain force cs where e: "enc_ok f force e"
    and cs: "decode_components fs (concat (map ce_bytes es)) = Inr cs" "map component cs = map ce_bytes es" by blast
  from e obtain c q where "ce_bytes e = component (c, q)" "validate_component_payload_for_field c q f = Inr ()"
      "length q \<le> 65535"
    by (auto simp: enc_ok_def)
  with cs show ?case
    by (intro exI [of _ "(c, q) # cs"]) (simp add: decode_component_step del: decode_components.simps)
qed simp

text \<open>
  C35. Compound keys never fail and always read back: whenever the values fit the declared fields,
  the encoder returns a key (the \<^verbatim>\<open>expect\<close> on it cannot panic), the key is at most 4096 bytes
  however long the values are, and decoding it yields one valid component per field.
\<close>

theorem compound_key_total:
  assumes "fits ctx vs" and "length vs = length (ctx_fields ctx)"
    and "1 \<le> length vs" and "length vs \<le> MAX_SECONDARY_INDEX_FIELDS"
  shows "\<exists>key cs. encode_compound_tuple_key pv ctx vs = Inr key \<and> length key \<le> MAX_COMPOUND_TUPLE_BYTES \<and>
    decode_compound_tuple_components key (ctx_fields ctx) = Inr cs \<and>
    length cs = length vs \<and> key = concat (map component cs)"
proof -
  let ?fh = "replicate (length vs) False"
  obtain key where key: "encode_compound_loop pv ctx vs ?fh = Inr key"
    using encode_compound_loop_total [OF assms(1,4)] by fastforce
  from encode_all_flags [OF key] obtain fh encs where fh: "length fh = length vs"
    and e: "encode_all pv ctx vs fh = Inr encs" and k: "key = concat (map ce_bytes encs)"
    and len: "length key \<le> MAX_COMPOUND_TUPLE_BYTES" by auto
  from encode_all_ok [OF assms(1) fh, of pv] e have el: "length encs = length vs"
    and ok: "\<forall>i < length vs. enc_ok (ctx_fields ctx ! i) (fh ! i) (encs ! i)" by auto
  then have "list_all2 (\<lambda>f e. \<exists>force. enc_ok f force e) (ctx_fields ctx) encs"
    using assms(2) by (auto simp: list_all2_conv_all_nth)
  from decode_concat [OF this] obtain cs where
    "decode_components (ctx_fields ctx) key = Inr cs" and cs: "map component cs = map ce_bytes encs"
    unfolding k by blast
  moreover from cs have "length cs = length encs" by (metis length_map)
  ultimately show ?thesis
    using key len el cs k assms
    by (intro exI [of _ key] exI [of _ cs])
      (auto simp: encode_compound_tuple_key_def encode_compound_components_def validate_field_count_def
        decode_compound_tuple_components_def)
qed

definition one_field_context :: compound_tuple_context where
  "one_field_context = \<lparr>ctx_target_kind = TargetNode, ctx_target_label_id = 1, ctx_fields = [Property [97]]\<rparr>"

theorem compound_key_total_witness:
  "\<exists>key. encode_compound_tuple_key (\<lambda>_. []) one_field_context [PropertyValue (Some (Bool True))] = Inr key"
  using compound_key_total [of one_field_context "[PropertyValue (Some (Bool True))]" "\<lambda>_. []"]
  by (auto simp: fits_def one_field_context_def value_matches_field_def MAX_SECONDARY_INDEX_FIELDS_def)

section \<open>Key intervals\<close>

lemma lex_between: "p \<le> key \<Longrightarrow> key < p @ y \<Longrightarrow> \<exists>r. key = p @ (r :: 'a::linorder list)"
proof (induction p arbitrary: key)
  case (Cons a p)
  then show ?case by (cases key) auto
qed simp

lemma decode_components_sound:
  "decode_components fs data = Inr cs \<Longrightarrow>
     data = concat (map component cs) \<and> length cs = length fs \<and>
     list_all2 (\<lambda>f cp. validate_component_payload_for_field (fst cp) (snd cp) f = Inr () \<and> length (snd cp) \<le> 65535) fs cs"
proof (induction fs arbitrary: data cs)
  case Nil
  then show ?case by (simp split: if_splits)
next
  case (Cons f fs)
  from Cons.prems obtain header r cls payload r' cs' where
    h: "split_exact 3 data = Some (header, r)" and c: "class_from_tag (header ! 0) = Inr cls"
    and q: "split_exact (unat (from_be_bytes (drop 1 header) :: u16)) r = Some (payload, r')"
    and v: "validate_component_payload_for_field cls payload f = Inr ()"
    and d: "decode_components fs r' = Inr cs'" and cs: "cs = (cls, payload) # cs'"
    by (auto simp: r_bind_eq_Inr split: option.splits prod.splits)
  have hd: "data = header @ r" "length header = 3" using split_exact_SomeD [OF h] by auto
  have pr: "r = payload @ r'" "length payload = unat (from_be_bytes (drop 1 header) :: u16)"
    using split_exact_SomeD [OF q] by auto
  have "header ! 0 = class_tag cls"
    using c by (auto simp: class_from_tag_def split: if_splits)
  moreover have "(of_nat (length payload) :: u16) = from_be_bytes (drop 1 header)"
    by (simp only: pr(2) of_nat_unat ucast_id)
  then have "to_be_bytes (of_nat (length payload) :: u16) = drop 1 header" using hd(2) by simp
  moreover have "header = header ! 0 # drop 1 header" using hd(2) by (cases header) auto
  ultimately have "data = component (cls, payload) @ r'" using hd(1) pr(1) by (simp add: component_def)
  moreover have "length payload \<le> 65535" using pr(2) unsigned_less [of "from_be_bytes (drop 1 header) :: u16", where ?'a = nat] by simp
  ultimately show ?case using Cons.IH [OF d] v cs by simp
qed

lemma concat_components_prefix:
  assumes "concat (map component ps) @ r = concat (map component cs)"
    and "\<forall>cp \<in> set (ps @ cs). length (snd cp) \<le> 65535"
  shows "\<exists>ts. cs = ps @ ts \<and> r = concat (map component ts)"
  using assms
proof (induction ps arbitrary: cs)
  case (Cons cp ps)
  then obtain c cs' where cs: "cs = c # cs'" by (cases cs) (auto simp: component_def)
  with Cons.prems have "component cp @ (concat (map component ps) @ r) = component c @ concat (map component cs')" by simp
  from component_split [OF this] Cons.prems(2) cs
  have "cp = c" "concat (map component ps) @ r = concat (map component cs')" by auto
  with Cons.IH [of cs'] Cons.prems(2) cs show ?case by auto
qed simp

lemma concat_components_less_FF: "concat (map component ts) < [0xFF]"
  by (cases ts) (auto simp: component_def class_tag_less_FF)

lemma decoded_bounds:
  assumes "decode_compound_tuple_components key flds = Inr cs"
  shows "key = concat (map component cs)" and "\<forall>cp \<in> set cs. length (snd cp) \<le> 65535"
    and "\<forall>cp \<in> set cs. payload_shape_ok (fst cp) (snd cp) = Inr ()"
proof -
  have "decode_components flds key = Inr cs"
    using assms by (simp add: decode_compound_tuple_components_def split: if_splits)
  note s = decode_components_sound [OF this]
  from s show "key = concat (map component cs)" by blast
  have P: "length (snd cp) \<le> 65535 \<and> payload_shape_ok (fst cp) (snd cp) = Inr ()" if cp: "cp \<in> set cs" for cp
  proof -
    obtain i where i: "i < length cs" "cp = cs ! i" using cp by (auto simp: in_set_conv_nth)
    then have "i < length flds" using s by simp
    from list_all2_nthD [OF conjunct2 [OF conjunct2 [OF s]] this] i show ?thesis
      by (auto simp: validate_component_payload_for_field_def r_bind_eq_Inr)
  qed
  then show "\<forall>cp \<in> set cs. length (snd cp) \<le> 65535" "\<forall>cp \<in> set cs. payload_shape_ok (fst cp) (snd cp) = Inr ()"
    by blast+
qed

text \<open>
  C37. A prefix scan is exact: between the two bounds of a prefix lie exactly the stored keys whose
  leading components are those of the prefix.
\<close>

theorem prefix_scan_exact:
  assumes "decode_compound_tuple_components key flds = Inr cs"
    and "\<forall>cp \<in> set ps. length (snd cp) \<le> 65535"
  shows "in_prefix_scan (compound_prefix_bounds (concat (map component ps))) key \<longleftrightarrow> (\<exists>ts. cs = ps @ ts)"
proof
  note d = decoded_bounds [OF assms(1)]
  assume "in_prefix_scan (compound_prefix_bounds (concat (map component ps))) key"
  then obtain r where "key = concat (map component ps) @ r"
    using lex_between by (fastforce simp: in_prefix_scan_def compound_prefix_bounds_def)
  then show "\<exists>ts. cs = ps @ ts"
    using concat_components_prefix [of ps r cs] d(1,2) assms(2) by auto
next
  note d = decoded_bounds [OF assms(1)]
  assume "\<exists>ts. cs = ps @ ts"
  then obtain ts where "key = concat (map component ps) @ concat (map component ts)" using d(1) by auto
  then show "in_prefix_scan (compound_prefix_bounds (concat (map component ps))) key"
    using concat_components_less_FF [of ts] append_le_same [of "concat (map component ps)" "[]"]
    by (simp add: in_prefix_scan_def compound_prefix_bounds_def)
qed

theorem prefix_scan_exact_witness:
  "in_prefix_scan (compound_prefix_bounds (concat (map component [(CBoolTrue, [])]))) (component (CBoolTrue, []))"
proof -
  have "decode_compound_tuple_components (component (CBoolTrue, [])) [Property [97]] = Inr [(CBoolTrue, [])]"
    using decode_component_step [of "[]" "Property [97]" "[]" CBoolTrue "[]"]
    by (simp add: decode_compound_tuple_components_def MAX_SECONDARY_INDEX_FIELDS_def
        validate_component_payload_for_field_def payload_shape_ok_def component_class_compatible_with_field_def
        del: decode_components.simps(2))
  from prefix_scan_exact [OF this, of "[(CBoolTrue, [])]"] show ?thesis by simp
qed

text \<open>The component of a numeric range bound.\<close>

definition bound_component :: "prop_value \<times> bool \<Rightarrow> bytes \<times> bool" where
  "bound_component b = (component (CNumeric, the (numeric_range_sort_key_for_value (fst b))), snd b)"

definition number_in :: "(prop_value \<times> bool) option \<Rightarrow> (prop_value \<times> bool) option \<Rightarrow> real \<Rightarrow> bool" where
  "number_in lo hi x \<longleftrightarrow>
     (case lo of None \<Rightarrow> True | Some (v, incl) \<Rightarrow> if incl then the (prop_number v) \<le> x else the (prop_number v) < x) \<and>
     (case hi of None \<Rightarrow> True | Some (v, incl) \<Rightarrow> if incl then x \<le> the (prop_number v) else x < the (prop_number v))"

lemma class_tag_le_numeric: "class_tag c \<le> 0x10 \<and> 0x10 \<le> class_tag c \<longleftrightarrow> c = CNumeric"
  by (cases c) (simp_all add: word_le_nat_alt)

lemma component_less:
  assumes "length (snd a) = 24" and "length (snd b) = 24 \<or> fst b \<noteq> fst a"
  shows "component a @ x < component b @ y \<longleftrightarrow>
      class_tag (fst a) < class_tag (fst b) \<or> fst a = fst b \<and> (snd a < snd b \<or> snd a = snd b \<and> x < y)"
    and "component b @ y < component a @ x \<longleftrightarrow>
      class_tag (fst b) < class_tag (fst a) \<or> fst a = fst b \<and> (snd b < snd a \<or> snd a = snd b \<and> y < x)"
  using assms by (auto simp: component_def append_less_same_length)

lemma component_less_single:
  "component b @ y < [t] \<longleftrightarrow> class_tag (fst b) < t" "[t] \<le> component b @ y \<longleftrightarrow> t \<le> class_tag (fst b)"
  by (auto simp: component_def)

lemma starts_with_append: "starts_with (p @ r) (p @ x) \<longleftrightarrow> starts_with r x"
  by (simp add: starts_with_def)

lemma numeric_payload:
  assumes "payload_shape_ok CNumeric q = Inr ()"
  obtains v where "numeric_range_sort_key_for_value v = Some q"
  using assms sidecar_key_valid_iff [of q] by (auto simp: payload_shape_ok_def split: if_splits)

lemma sort_key_cmp:
  assumes "numeric_range_sort_key_for_value v = Some a" and "numeric_range_sort_key_for_value w = Some b"
  shows "a < b \<longleftrightarrow> the (prop_number v) < the (prop_number w)" and "a = b \<longleftrightarrow> the (prop_number v) = the (prop_number w)"
  using sort_key_order_lemma [OF assms] by blast+

lemma starts_with_component:
  assumes "length k = 24" and "length q \<le> 65535"
  shows "starts_with (component (c, q) @ rest) (component (CNumeric, k)) \<longleftrightarrow> c = CNumeric \<and> q = k"
proof
  assume "starts_with (component (c, q) @ rest) (component (CNumeric, k))"
  then have "component (c, q) @ rest = component (CNumeric, k) @ drop (length (component (CNumeric, k))) (component (c, q) @ rest)"
    unfolding starts_with_def by (metis append_take_drop_id)
  from component_split [OF this] assms show "c = CNumeric \<and> q = k" by auto
qed (simp add: starts_with_def)

text \<open>The tail of a key against one bound, behind a common prefix.\<close>

lemma lower_bound_tail:
  assumes "length k = 24" and "length q \<le> 65535" and "c = CNumeric \<Longrightarrow> length q = 24"
  shows "p @ component (CNumeric, k) \<le> p @ component (c, q) @ rest \<and>
      \<not> (ex \<and> starts_with (p @ component (c, q) @ rest) (p @ component (CNumeric, k))) \<longleftrightarrow>
    0x10 < class_tag c \<or> c = CNumeric \<and> (if ex then k < q else k \<le> q)"
proof -
  have "component (CNumeric, k) \<le> component (c, q) @ rest \<longleftrightarrow> \<not> component (c, q) @ rest < component (CNumeric, k) @ []"
    by (simp add: not_less)
  also have "\<dots> \<longleftrightarrow> \<not> (class_tag c < 0x10 \<or> c = CNumeric \<and> q < k)"
    using component_less(2) [of "(CNumeric, k)" "(c, q)" rest "[]"] assms by auto
  finally have le: "component (CNumeric, k) \<le> component (c, q) @ rest \<longleftrightarrow>
      \<not> (class_tag c < 0x10 \<or> c = CNumeric \<and> q < k)" .
  have "class_tag c < 0x10 \<or> c = CNumeric \<or> 0x10 < class_tag c" and "c = CNumeric \<Longrightarrow> class_tag c = 0x10"
    by (cases c; simp)+
  then show ?thesis
    unfolding append_le_same starts_with_append le starts_with_component [OF assms(1,2)]
    by (cases "c = CNumeric") auto
qed

lemma upper_bound_tail:
  assumes "length k = 24" and "c = CNumeric \<Longrightarrow> length q = 24" and "rest = concat (map component ts)"
  shows "p @ component (c, q) @ rest < p @ component (CNumeric, k) @ (if incl then [0xFF] else []) \<longleftrightarrow>
    class_tag c < 0x10 \<or> c = CNumeric \<and> (if incl then q \<le> k else q < k)"
proof -
  have "component (c, q) @ rest < component (CNumeric, k) @ (if incl then [0xFF] else []) \<longleftrightarrow>
      class_tag c < 0x10 \<or> c = CNumeric \<and> (q < k \<or> k = q \<and> rest < (if incl then [0xFF] else []))"
    using component_less(2) [where a = "(CNumeric, k)" and b = "(c, q)", unfolded fst_conv snd_conv,
        OF assms(1), of rest "if incl then [0xFF] else []"] assms(2) by (cases "c = CNumeric") auto
  then show ?thesis
    using concat_components_less_FF [of ts] by (auto simp: assms(3))
qed

definition bound_key :: "prop_value \<Rightarrow> bytes" where
  "bound_key v = the (numeric_range_sort_key_for_value v)"

lemma range_bounds_shape:
  assumes "compound_range_bounds p (map_option bound_component lo) (map_option bound_component hi) = Inr b"
  shows "crb_lower b = Some \<lparr>lb_key = p @ (case lo of None \<Rightarrow> [0x10] | Some (v, i) \<Rightarrow> component (CNumeric, bound_key v)),
      lb_exclusive_component_prefix = (case lo of None \<Rightarrow> False | Some (v, i) \<Rightarrow> \<not> i)\<rparr>"
    and "crb_upper_exclusive b =
      p @ (case hi of None \<Rightarrow> [0x11] | Some (v, i) \<Rightarrow> component (CNumeric, bound_key v) @ (if i then [0xFF] else []))"
  using assms
  by (cases lo; cases hi; auto simp: compound_range_bounds_def r_bind_eq_Inr bound_component_def bound_key_def)+

definition above_key :: "(prop_value \<times> bool) option \<Rightarrow> bytes \<Rightarrow> bool" where
  "above_key lo q = (case lo of None \<Rightarrow> True | Some (v, i) \<Rightarrow> if i then bound_key v \<le> q else bound_key v < q)"

definition below_key :: "(prop_value \<times> bool) option \<Rightarrow> bytes \<Rightarrow> bool" where
  "below_key hi q = (case hi of None \<Rightarrow> True | Some (v, i) \<Rightarrow> if i then q \<le> bound_key v else q < bound_key v)"

lemma bound_key_length: "numeric_key v \<noteq> None \<Longrightarrow> length (bound_key v) = 24"
  by (auto simp: bound_key_def numeric_range_sort_key_for_value_def)

lemma range_tail_keys:
  assumes q: "length q \<le> 65535" "c = CNumeric \<Longrightarrow> length q = 24"
    and lo: "\<forall>v i. lo = Some (v, i) \<longrightarrow> numeric_key v \<noteq> None" and hi: "\<forall>v i. hi = Some (v, i) \<longrightarrow> numeric_key v \<noteq> None"
    and rest: "rest = concat (map component ts)"
    and b: "compound_range_bounds p (map_option bound_component lo) (map_option bound_component hi) = Inr b"
  shows "in_range_scan b (p @ component (c, q) @ rest) \<longleftrightarrow> c = CNumeric \<and> above_key lo q \<and> below_key hi q"
proof -
  let ?key = "p @ component (c, q) @ rest" and ?l = "the (crb_lower b)"
  have L: "lb_key ?l \<le> ?key \<and> \<not> (lb_exclusive_component_prefix ?l \<and> starts_with ?key (lb_key ?l)) \<longleftrightarrow>
      0x10 < class_tag c \<or> c = CNumeric \<and> above_key lo q \<or> lo = None \<and> 0x10 \<le> class_tag c"
  proof (cases lo)
    case None
    have "p @ [0x10] \<le> ?key \<longleftrightarrow> 0x10 \<le> class_tag c"
      using component_less_single(2) [where b = "(c, q)" and y = rest] by (simp only: append_le_same fst_conv)
    moreover have "c = CNumeric \<Longrightarrow> 0x10 \<le> class_tag c" by simp
    ultimately show ?thesis using None by (auto simp: range_bounds_shape(1) [OF b])
  next
    case (Some vi)
    then obtain v i where vi: "lo = Some (v, i)" by (cases vi) auto
    then have k: "length (bound_key v) = 24" using lo bound_key_length by blast
    show ?thesis
      using lower_bound_tail [OF k q(1,2), where p = p and rest = rest and ex = "\<not> i"] vi
      by (cases i) (simp_all add: range_bounds_shape(1) [OF b] above_key_def)
  qed
  have U: "?key < crb_upper_exclusive b \<longleftrightarrow>
      class_tag c < 0x10 \<or> c = CNumeric \<and> below_key hi q \<or> hi = None \<and> class_tag c \<le> 0x10"
  proof (cases hi)
    case None
    have "?key < p @ [0x11] \<longleftrightarrow> class_tag c < 0x11"
      using component_less_single(1) [where b = "(c, q)" and y = rest] by (simp only: append_less_same fst_conv)
    moreover have "class_tag c < 0x11 \<longleftrightarrow> class_tag c \<le> 0x10" by (cases c) (simp_all add: word_le_nat_alt)
    moreover have "c = CNumeric \<Longrightarrow> class_tag c \<le> 0x10" by simp
    ultimately show ?thesis using None by (auto simp: range_bounds_shape(2) [OF b])
  next
    case (Some vi)
    then obtain v i where vi: "hi = Some (v, i)" by (cases vi) auto
    then have k: "length (bound_key v) = 24" using hi bound_key_length by blast
    show ?thesis
      using upper_bound_tail [OF k q(2) rest, where p = p and incl = i] vi
      by (cases i) (simp_all add: range_bounds_shape(2) [OF b] below_key_def)
  qed
  have "in_range_scan b ?key \<longleftrightarrow> (lb_key ?l \<le> ?key \<and> \<not> (lb_exclusive_component_prefix ?l \<and> starts_with ?key (lb_key ?l))) \<and>
      ?key < crb_upper_exclusive b"
    by (simp add: in_range_scan_def range_bounds_shape(1) [OF b])
  moreover have "c = CNumeric \<longleftrightarrow> class_tag c = 0x10" by (cases c) simp_all
  moreover have "lo = None \<Longrightarrow> above_key lo q" "hi = None \<Longrightarrow> below_key hi q"
    by (simp_all add: above_key_def below_key_def)
  ultimately show ?thesis
    unfolding L U by (cases "class_tag c" "0x10 :: u8" rule: linorder_cases) auto
qed

lemma keys_numbers:
  assumes w: "numeric_range_sort_key_for_value w = Some q"
    and lo: "\<forall>v i. lo = Some (v, i) \<longrightarrow> numeric_key v \<noteq> None" and hi: "\<forall>v i. hi = Some (v, i) \<longrightarrow> numeric_key v \<noteq> None"
  shows "above_key lo q \<and> below_key hi q \<longleftrightarrow> number_in lo hi (the (prop_number w))"
proof -
  have k: "numeric_range_sort_key_for_value v = Some (bound_key v)" if "numeric_key v \<noteq> None" for v
    using that by (auto simp: bound_key_def numeric_range_sort_key_for_value_def)
  have "above_key lo q \<longleftrightarrow> number_in lo None (the (prop_number w))"
    using lo sort_key_cmp [OF k w] by (cases lo) (auto simp: above_key_def number_in_def order_le_less)
  moreover have "below_key hi q \<longleftrightarrow> number_in None hi (the (prop_number w))"
    using hi sort_key_cmp [OF w k] by (cases hi) (auto simp: below_key_def number_in_def order_le_less)
  ultimately show ?thesis by (auto simp: number_in_def)
qed

lemma range_tail:
  assumes q: "payload_shape_ok c q = Inr ()" "length q \<le> 65535"
    and lo: "\<forall>v i. lo = Some (v, i) \<longrightarrow> numeric_key v \<noteq> None" and hi: "\<forall>v i. hi = Some (v, i) \<longrightarrow> numeric_key v \<noteq> None"
    and b: "compound_range_bounds p (map_option bound_component lo) (map_option bound_component hi) = Inr b"
  shows "in_range_scan b (p @ component (c, q) @ concat (map component ts)) \<longleftrightarrow>
    c = CNumeric \<and> (\<exists>v x. numeric_range_sort_key_for_value v = Some q \<and> prop_number v = Some x \<and> number_in lo hi x)"
proof -
  have lenq: "c = CNumeric \<Longrightarrow> length q = 24"
    using q by (auto simp: payload_shape_ok_def NUMERIC_RANGE_KEY_BYTES_def split: if_splits)
  have num: "\<exists>x. prop_number w = Some x" if "numeric_range_sort_key_for_value w = Some q" for w
    using that numeric_key_Some by (auto simp: numeric_range_sort_key_for_value_def)
  have key: "in_range_scan b (p @ component (c, q) @ concat (map component ts)) \<longleftrightarrow>
      c = CNumeric \<and> above_key lo q \<and> below_key hi q"
    by (rule range_tail_keys [OF q(2) lenq lo hi refl b])
  show ?thesis
  proof (cases "c = CNumeric")
    case True
    then obtain w where w: "numeric_range_sort_key_for_value w = Some q" using q(1) numeric_payload by blast
    with num obtain x where x: "prop_number w = Some x" by blast
    show ?thesis
    proof
      assume "in_range_scan b (p @ component (c, q) @ concat (map component ts))"
      with key keys_numbers [OF w lo hi] x have "number_in lo hi x" by simp
      with True w x show "c = CNumeric \<and> (\<exists>v x. numeric_range_sort_key_for_value v = Some q \<and>
          prop_number v = Some x \<and> number_in lo hi x)" by blast
    next
      assume "c = CNumeric \<and> (\<exists>v x. numeric_range_sort_key_for_value v = Some q \<and>
          prop_number v = Some x \<and> number_in lo hi x)"
      then obtain v y where v: "numeric_range_sort_key_for_value v = Some q" "prop_number v = Some y" "number_in lo hi y"
        by blast
      with key keys_numbers [OF v(1) lo hi] True
      show "in_range_scan b (p @ component (c, q) @ concat (map component ts))" by simp
    qed
  qed (simp add: key)
qed

text \<open>
  C36. A range scan is exact: behind an equality prefix, the scan between the encoded bounds keeps
  exactly the stored keys whose leading components are those of the prefix and whose next
  component is a number within the requested bounds; other component classes are skipped.
\<close>

theorem range_scan_exact:
  assumes "decode_compound_tuple_components key flds = Inr cs"
    and "\<forall>cp \<in> set ps. length (snd cp) \<le> 65535"
    and "\<forall>v i. lo = Some (v, i) \<longrightarrow> numeric_key v \<noteq> None" and "\<forall>v i. hi = Some (v, i) \<longrightarrow> numeric_key v \<noteq> None"
    and "compound_range_bounds (concat (map component ps)) (map_option bound_component lo) (map_option bound_component hi) = Inr b"
  shows "in_range_scan b key \<longleftrightarrow>
    (\<exists>q ts v x. cs = ps @ (CNumeric, q) # ts \<and> numeric_range_sort_key_for_value v = Some q \<and>
       prop_number v = Some x \<and> number_in lo hi x)"
proof -
  note d = decoded_bounds [OF assms(1)]
  let ?p = "concat (map component ps)"
  have tail: "in_range_scan b key \<longleftrightarrow> c = CNumeric \<and>
      (\<exists>v x. numeric_range_sort_key_for_value v = Some q \<and> prop_number v = Some x \<and> number_in lo hi x)"
    if cs: "cs = ps @ (c, q) # ts" for c q ts
  proof -
    have "payload_shape_ok c q = Inr ()" "length q \<le> 65535" using d(2,3) cs by auto
    from range_tail [OF this assms(3,4,5), of ts] show ?thesis using d(1) cs by simp
  qed
  have "\<exists>c q ts. cs = ps @ (c, q) # ts" if scan: "in_range_scan b key"
  proof -
    obtain x y where xy: "lb_key (the (crb_lower b)) = ?p @ x" "x \<noteq> []" "crb_upper_exclusive b = ?p @ y" "crb_lower b \<noteq> None"
    proof (rule that)
      show "lb_key (the (crb_lower b)) = ?p @ (case lo of None \<Rightarrow> [0x10] | Some (v, i) \<Rightarrow> component (CNumeric, bound_key v))"
        by (simp add: range_bounds_shape(1) [OF assms(5)])
      show "(case lo of None \<Rightarrow> [0x10] | Some (v, i) \<Rightarrow> component (CNumeric, bound_key v)) \<noteq> []"
        by (simp add: component_def split: option.splits prod.splits)
    qed (simp_all add: range_bounds_shape [OF assms(5)])
    with scan have between: "?p @ x \<le> key" "key < ?p @ y" by (auto simp: in_range_scan_def split: option.splits)
    have "?p \<le> key" using between(1) append_le_same [of ?p "[]" x] by (metis append_Nil2 Nil_le_Cons neq_Nil_conv order.trans)
    then obtain r where r: "key = ?p @ r" using lex_between between(2) by blast
    then obtain ts where ts: "cs = ps @ ts" "r = concat (map component ts)"
      using concat_components_prefix [of ps r cs] d(1,2) assms(2) by auto
    have "r \<noteq> []" using between(1) xy(2) r by (cases x) auto
    with ts obtain cp us where "ts = cp # us" by (cases ts) auto
    with ts show ?thesis by (cases cp) auto
  qed
  then show ?thesis
  proof (intro iffI)
    assume scan: "in_range_scan b key" and "in_range_scan b key \<Longrightarrow> \<exists>c q ts. cs = ps @ (c, q) # ts"
    then obtain c q ts where "cs = ps @ (c, q) # ts" by blast
    with tail [OF this] scan show "\<exists>q ts v x. cs = ps @ (CNumeric, q) # ts \<and>
        numeric_range_sort_key_for_value v = Some q \<and> prop_number v = Some x \<and> number_in lo hi x" by blast
  next
    assume "\<exists>q ts v x. cs = ps @ (CNumeric, q) # ts \<and>
        numeric_range_sort_key_for_value v = Some q \<and> prop_number v = Some x \<and> number_in lo hi x"
    then obtain q ts v x where "cs = ps @ (CNumeric, q) # ts" "numeric_range_sort_key_for_value v = Some q"
        "prop_number v = Some x" "number_in lo hi x" by blast
    then show "in_range_scan b key" using tail by blast
  qed
qed

definition zero_key :: bytes where
  "zero_key = [1] @ replicate 23 0"

lemma decode_zero_key:
  "decode_compound_tuple_components (component (CNumeric, zero_key)) [Property [97]] = Inr [(CNumeric, zero_key)]"
proof -
  have "numeric_range_sort_key_for_value (SInt 0) = Some zero_key"
    by (simp add: numeric_range_sort_key_for_value_def numeric_key_def numeric_key_from_i64_def
        numeric_range_sort_key_def nk_zero_def zero_key_def)
  then have "length zero_key = 24" "payload_shape_ok CNumeric zero_key = Inr ()"
    using sort_key_payload [of "SInt 0" zero_key] by (simp_all add: payload_shape_ok_def NUMERIC_RANGE_KEY_BYTES_def)
  then show ?thesis
    using decode_component_step [of zero_key "Property [97]" "[]" CNumeric "[]"]
    by (simp add: decode_compound_tuple_components_def MAX_SECONDARY_INDEX_FIELDS_def
        validate_component_payload_for_field_def component_class_compatible_with_field_def
        del: decode_components.simps(2))
qed

theorem range_scan_exact_witness:
  "\<exists>b. compound_range_bounds [] None None = Inr b \<and> in_range_scan b (component (CNumeric, zero_key))"
proof -
  obtain b where b: "compound_range_bounds [] None None = Inr b" by (simp add: compound_range_bounds_def)
  have z: "numeric_range_sort_key_for_value (SInt 0) = Some zero_key"
    by (simp add: numeric_range_sort_key_for_value_def numeric_key_def numeric_key_from_i64_def
        numeric_range_sort_key_def nk_zero_def zero_key_def)
  show ?thesis
    using range_scan_exact [OF decode_zero_key, of "[]" None None b] b z
    by (auto simp: number_in_def intro!: exI [of _ "SInt 0"])
qed

section \<open>Prefix queries against stored tuples\<close>

lemma r_map_take: "r_map f xs = Inr ys \<Longrightarrow> r_map f (take n xs) = Inr (take n ys)"
proof (induction xs arbitrary: n ys)
  case (Cons x xs)
  then show ?case by (cases n) (auto simp: r_bind_eq_Inr)
qed simp

lemma r_map_cong_set: "(\<And>x. x \<in> set xs \<Longrightarrow> f x = g x) \<Longrightarrow> r_map f xs = r_map g xs"
  by (induction xs) auto

lemma encode_all_take:
  assumes "encode_all pv ctx vs (replicate (length vs) False) = Inr encs" and "n \<le> length vs"
  shows "encode_all pv ctx (take n vs) (replicate n False) = Inr (take n encs)"
proof -
  let ?f = "\<lambda>m (i, f, v). encode_component pv ctx i f v (replicate m False ! i)"
  have e: "enumerate 0 (zip (ctx_fields ctx) (take n vs)) = take n (enumerate 0 (zip (ctx_fields ctx) vs))"
    by (intro nth_equalityI) (simp_all add: nth_enumerate_eq min_def split: if_splits)
  have "r_map (?f n) (take n (enumerate 0 (zip (ctx_fields ctx) vs))) =
      r_map (?f (length vs)) (take n (enumerate 0 (zip (ctx_fields ctx) vs)))"
    using assms(2) by (intro r_map_cong_set) (auto simp: e [symmetric] in_set_enumerate_eq)
  with r_map_take [of "?f (length vs)" _ encs n] assms(1) show ?thesis
    unfolding encode_all_def e by simp
qed

lemma encode_compound_loop_fits:
  assumes "encode_all pv ctx vs fh = Inr encs" and "sum_list (map (length \<circ> ce_bytes) encs) \<le> MAX_COMPOUND_TUPLE_BYTES"
  shows "encode_compound_loop pv ctx vs fh = Inr (concat (map ce_bytes encs))"
  using assms by (simp add: encode_compound_loop.simps)

text \<open>
  C38. A prefix query finds the record: when the plain encoding of a record's values fits the tuple
  limit, the key interval of the first \<open>n\<close> of those values contains the record's stored key.
\<close>

theorem prefix_query_finds_record:
  assumes "fits ctx vs" and "length vs = length (ctx_fields ctx)"
    and "1 \<le> length vs" and "length vs \<le> MAX_SECONDARY_INDEX_FIELDS"
    and "encode_all pv ctx vs (replicate (length vs) False) = Inr encs"
    and "sum_list (map (length \<circ> ce_bytes) encs) \<le> MAX_COMPOUND_TUPLE_BYTES" and "n \<le> length vs"
  shows "\<exists>key p. encode_compound_tuple_key pv ctx vs = Inr key \<and>
    encode_compound_tuple_prefix pv ctx (take n vs) = Inr p \<and> in_prefix_scan (compound_prefix_bounds p) key"
proof -
  let ?bytes = "\<lambda>es. concat (map ce_bytes es)"
  have key: "encode_compound_tuple_key pv ctx vs = Inr (?bytes encs)"
    using encode_compound_loop_fits [OF assms(5,6)] assms(2-4)
    by (simp add: encode_compound_tuple_key_def encode_compound_components_def validate_field_count_def)
  have "sum_list (map (length \<circ> ce_bytes) (take n encs)) \<le> sum_list (map (length \<circ> ce_bytes) encs)"
    by (metis append_take_drop_id le_add1 map_append sum_list_append)
  then have small: "sum_list (map (length \<circ> ce_bytes) (take n encs)) \<le> MAX_COMPOUND_TUPLE_BYTES"
    using assms(6) by linarith
  have len: "length (take n vs) = n" using assms(7) by simp
  have "encode_compound_loop pv ctx (take n vs) (replicate n False) = Inr (?bytes (take n encs))"
    by (rule encode_compound_loop_fits [OF encode_all_take [OF assms(5,7)] small])
  then have p: "encode_compound_tuple_prefix pv ctx (take n vs) = Inr (?bytes (take n encs))"
    using assms(2-4,7) len
    by (simp add: encode_compound_tuple_prefix_def encode_compound_components_def validate_field_count_def)
  have encs: "\<forall>i < length encs. \<exists>cp. ce_bytes (encs ! i) = component cp"
    using encode_all_ok [OF assms(1), of "replicate (length vs) False" pv] assms(5) unfolding enc_ok_def by fastforce
  then have "\<exists>cp. ce_bytes e = component cp" if "e \<in> set encs" for e
    using that by (metis in_set_conv_nth)
  then obtain comp where comp: "\<forall>e \<in> set encs. ce_bytes e = component (comp e)" by metis
  have "map ce_bytes (drop n encs) = map component (map comp (drop n encs))"
    using comp by simp (metis in_set_dropD)
  then have "?bytes (drop n encs) = concat (map component (map comp (drop n encs)))"
    by (rule arg_cong)
  then have "?bytes (drop n encs) < [0xFF]" using concat_components_less_FF by metis
  moreover have "?bytes encs = ?bytes (take n encs) @ ?bytes (drop n encs)"
    by (metis append_take_drop_id concat_append map_append)
  ultimately have "in_prefix_scan (compound_prefix_bounds (?bytes (take n encs))) (?bytes encs)"
    using append_le_same [of "?bytes (take n encs)" "[]"] by (simp add: in_prefix_scan_def compound_prefix_bounds_def)
  with key p show ?thesis by blast
qed

theorem prefix_query_finds_record_witness:
  "\<exists>key p. encode_compound_tuple_key (\<lambda>_. []) one_field_context [PropertyValue (Some (String [97]))] = Inr key \<and>
     encode_compound_tuple_prefix (\<lambda>_. []) one_field_context [PropertyValue (Some (String [97]))] = Inr p \<and>
     in_prefix_scan (compound_prefix_bounds p) key"
  using prefix_query_finds_record [of one_field_context "[PropertyValue (Some (String [97]))]" "\<lambda>_. []"
      "[\<lparr>ce_bytes = component (CString, [97]), ce_hashable_variable_len = Some 1\<rparr>]" 1]
  by (simp add: fits_def one_field_context_def value_matches_field_def MAX_SECONDARY_INDEX_FIELDS_def
      MAX_COMPOUND_COMPONENT_BYTES_def MAX_COMPOUND_TUPLE_BYTES_def encode_all_def encode_component_def
      encode_property_component_def validate_value_matches_field_def variable_component_eq component_def utf8_valid_def)

text \<open>A record whose plain tuple is over the limit: one string of 1024 bytes and four of 1000.\<close>

definition wide_context :: compound_tuple_context where
  "wide_context = \<lparr>ctx_target_kind = TargetNode, ctx_target_label_id = 1,
     ctx_fields = [Property [97], Property [98], Property [99], Property [100], Property [101]]\<rparr>"

definition wide_string :: "nat \<Rightarrow> compound_field_value" where
  "wide_string n = PropertyValue (Some (String (replicate n 97)))"

definition wide_values :: "compound_field_value list" where
  "wide_values = [wide_string 1024, wide_string 1000, wide_string 1000, wide_string 1000, wide_string 1000]"

lemma encode_wide_string:
  assumes "n \<le> 1024"
  shows "encode_component pv ctx i (Property k) (wide_string n) force =
    (if force then Inr \<lparr>ce_bytes = component (CEqualityHash, equality_hash_payload ctx i (Property k)
         (semantic_equality_key_bytes pv (String (replicate n 97)))), ce_hashable_variable_len = None\<rparr>
     else Inr \<lparr>ce_bytes = component (CString, replicate n 97), ce_hashable_variable_len = Some n\<rparr>)"
  using assms by (simp add: encode_component_def wide_string_def validate_value_matches_field_def value_matches_field_def
      encode_property_component_def MAX_COMPOUND_COMPONENT_BYTES_def fixed_component_eq variable_component_eq)

text \<open>
  C39. The condition on the plain encoding is necessary. For a record of five string fields, of 1024
  and four times 1000 bytes, the stored key replaces the first component by its hash, while the
  prefix query on that same first value uses the string itself: the query's interval does not
  contain the record's key, so the record is not found.
\<close>

theorem oversized_tuple_missed_by_prefix:
  "\<exists>key p. encode_compound_tuple_key pv wide_context wide_values = Inr key \<and>
     encode_compound_tuple_prefix pv wide_context (take 1 wide_values) = Inr p \<and>
     \<not> in_prefix_scan (compound_prefix_bounds p) key"
proof -
  note enc = encode_all_def wide_context_def wide_values_def encode_wide_string length_component
  have plain: "encode_compound_loop pv wide_context wide_values [False, False, False, False, False] =
      encode_compound_loop pv wide_context wide_values [True, False, False, False, False]"
    by (subst encode_compound_loop.simps)
      (simp add: enc hash_candidates_def max_by_len_def MAX_COMPOUND_TUPLE_BYTES_def)
  have hashed: "\<exists>h r. encode_compound_loop pv wide_context wide_values [True, False, False, False, False] =
      Inr (component (CEqualityHash, h) @ r)"
    by (subst encode_compound_loop.simps) (auto simp: enc MAX_COMPOUND_TUPLE_BYTES_def)
  have "encode_compound_loop pv wide_context [wide_string 1024] [False] = Inr (component (CString, replicate 1024 97))"
    by (subst encode_compound_loop.simps) (simp add: enc MAX_COMPOUND_TUPLE_BYTES_def)
  then have p: "encode_compound_tuple_prefix pv wide_context (take 1 wide_values) =
      Inr (component (CString, replicate 1024 97))"
    by (simp add: encode_compound_tuple_prefix_def encode_compound_components_def validate_field_count_def
        wide_values_def) (simp add: wide_context_def MAX_SECONDARY_INDEX_FIELDS_def)
  from hashed obtain h r where "encode_compound_loop pv wide_context wide_values [True, False, False, False, False] =
      Inr (component (CEqualityHash, h) @ r)" by blast
  then have key: "encode_compound_tuple_key pv wide_context wide_values = Inr (component (CEqualityHash, h) @ r)"
    using plain by (simp add: encode_compound_tuple_key_def encode_compound_components_def validate_field_count_def)
      (simp add: wide_context_def wide_values_def MAX_SECONDARY_INDEX_FIELDS_def eval_nat_numeral)
  have "\<not> in_prefix_scan (compound_prefix_bounds (component (CString, replicate 1024 97)))
      (component (CEqualityHash, h) @ r)"
    by (simp add: in_prefix_scan_def compound_prefix_bounds_def component_def)
  with key p show ?thesis by blast
qed

end
