(* ===== verification/Memtable_Total.thy ===== *)
theory Memtable_Total
  imports Memtable_Reach Compound_Order Encoding
begin

text \<open>
  The memtable never panics. The \<^verbatim>\<open>expect\<close> calls on compound keys and the \<^verbatim>\<open>unreachable!\<close> arms of
  the field index loops of \<^verbatim>\<open>src/src/memtable.rs\<close> cannot be reached in a session whose records are
  well formed and whose declarations passed validation: the lookup tables only name declared
  indexes of the right kind and label, and every such index has a key for every record.
\<close>

inductive memtable_session :: "(prop_value \<Rightarrow> bytes) \<Rightarrow> memtable_state \<Rightarrow> u64 \<Rightarrow> bool" for pv where
  new: "memtable_session pv memtable_new 0"
| op: "memtable_session pv st w \<Longrightarrow> w \<le> x \<Longrightarrow> op_wf op \<Longrightarrow> apply_op pv st op x = Some st' \<Longrightarrow> memtable_session pv st' x"
| register: "memtable_session pv st w \<Longrightarrow> validate_secondary_index_target (sie_target entry) = Inr () \<Longrightarrow>
    register_secondary_index pv st entry = Some st' \<Longrightarrow> memtable_session pv st' w"
| unregister: "memtable_session pv st w \<Longrightarrow> memtable_session pv (fst (unregister_secondary_index st i)) w"

lemma op_wf_ok: "op_wf op \<Longrightarrow> op_ok op"
  by (cases op) simp_all

lemma session_reach: "memtable_session pv st w \<Longrightarrow> memtable_reach pv st w"
  by (induction rule: memtable_session.induct) (auto intro: memtable_reach.intros op_wf_ok)

section \<open>Keys of well formed records\<close>

definition node_wf :: "node_record \<Rightarrow> bool" where
  "node_wf n \<longleftrightarrow> utf8_valid (n_key n) \<and> props_wf (n_props n)"

definition edge_wf :: "edge_record \<Rightarrow> bool" where
  "edge_wf e \<longleftrightarrow> props_wf (e_props e)"

lemma props_wf_lookup: "props_wf ps \<Longrightarrow> map_of ps k = Some v \<Longrightarrow> pv_wf v"
  by (auto simp: props_wf_def dest!: map_of_SomeD)

lemma cv_wf_property: "props_wf ps \<Longrightarrow> cv_wf (PropertyValue (map_of ps k))"
  by (cases "map_of ps k") (auto dest: props_wf_lookup)

lemma validated_fields:
  assumes "validate_secondary_index_fields fs kind = Inr ()"
  shows "1 \<le> length fs" "length fs \<le> MAX_SECONDARY_INDEX_FIELDS" "list_all (field_allowed kind) fs"
  using assms unfolding validate_fields_iff by blast+

text \<open>A record whose fields all have fitting values has a tuple key.\<close>

lemma tuple_key_total:
  assumes "those (map value flds) = Some vals" and "\<And>f v. f \<in> set flds \<Longrightarrow> value f = Some v \<Longrightarrow> value_matches_field f v \<and> cv_wf v"
    and "ctx_fields ctx = flds" and "1 \<le> length flds" and "length flds \<le> MAX_SECONDARY_INDEX_FIELDS"
  shows "\<exists>key. ok_or_panic (encode_compound_tuple_key pv ctx vals) = Some key"
proof -
  have vals: "list_all2 (\<lambda>f v. value f = Some v) flds vals"
    using assms(1)
  proof (induction flds arbitrary: vals)
    case (Cons f fs)
    then show ?case by (auto split: option.splits)
  qed simp
  then have "list_all2 (\<lambda>f v. value_matches_field f v \<and> cv_wf v) flds vals"
    unfolding list_all2_conv_all_nth using assms(2) nth_mem by metis
  then have "fits ctx vals" and len: "length vals = length flds"
    using assms(3) by (auto simp: fits_def list_all2_conv_all_nth list_all_length)
  from encode_compound_loop_total [OF this(1), of "replicate (length vals) False" pv] len assms(3-5)
  obtain key where "encode_compound_loop pv ctx vals (replicate (length vals) False) = Inr key" by auto
  with len assms(3-5) show ?thesis
    by (simp add: encode_compound_tuple_key_def encode_compound_components_def validate_field_count_def ok_or_panic_def)
qed

lemma those_total: "(\<And>x. x \<in> set xs \<Longrightarrow> f x \<noteq> None) \<Longrightarrow> \<exists>ys. those (map f xs) = Some ys"
  by (induction xs) force+

lemma encode_node_total:
  assumes "node_wf n" and "validate_secondary_index_fields (map to_public flds) NodeTarget = Inr ()"
  shows "\<exists>key. encode_node_compound_tuple_key pv l flds n = Some key"
proof -
  note v = validated_fields [OF assms(2)]
  have allowed: "field_allowed NodeTarget (to_public f)" if "f \<in> set flds" for f using v(3) that by (simp add: list_all_iff)
  have "node_compound_field_value n f \<noteq> None" if "f \<in> set flds" for f
    using allowed [OF that] by (cases f) (auto simp: node_compound_field_value_def field_allowed_def)
  from those_total [of flds "node_compound_field_value n", OF this] obtain vals where vals: "those (map (node_compound_field_value n) flds) = Some vals" by blast
  have "value_matches_field f x \<and> cv_wf x" if "f \<in> set flds" "node_compound_field_value n f = Some x" for f x
    using that(2) allowed [OF that(1)] assms(1)
    by (cases f; cases x) (auto simp: node_compound_field_value_def field_allowed_def value_matches_field_def node_wf_def
        split: node_metadata_index_field_manifest.splits option.splits intro: cv_wf_property)
  from tuple_key_total [OF vals this] v(1,2) vals show ?thesis
    by (simp add: encode_node_compound_tuple_key_def)
qed

lemma encode_edge_total:
  assumes "edge_wf e" and "validate_secondary_index_fields (map to_public flds) EdgeTarget = Inr ()"
  shows "\<exists>key. encode_edge_compound_tuple_key pv l flds e = Some key"
proof -
  note v = validated_fields [OF assms(2)]
  have allowed: "field_allowed EdgeTarget (to_public f)" if "f \<in> set flds" for f using v(3) that by (simp add: list_all_iff)
  have "edge_compound_field_value e f \<noteq> None" if "f \<in> set flds" for f
    using allowed [OF that] by (cases f) (auto simp: edge_compound_field_value_def field_allowed_def)
  from those_total [of flds "edge_compound_field_value e", OF this] obtain vals where vals: "those (map (edge_compound_field_value e) flds) = Some vals" by blast
  have "value_matches_field f x \<and> cv_wf x" if "f \<in> set flds" "edge_compound_field_value e f = Some x" for f x
    using that(2) allowed [OF that(1)] assms(1)
    by (cases f; cases x) (auto simp: edge_compound_field_value_def field_allowed_def value_matches_field_def edge_wf_def
        split: edge_metadata_index_field_manifest.splits option.splits intro: cv_wf_property)
  from tuple_key_total [OF vals this] v(1,2) vals show ?thesis
    by (simp add: encode_edge_compound_tuple_key_def)
qed

section \<open>Declarations behind the lookup tables\<close>

definition decls_ok :: "'z index_decls_scheme \<Rightarrow> bool" where
  "decls_ok d \<longleftrightarrow>
     (\<forall>l ids i. fmlookup (secondary_node_field_indexes_by_label d) l = Some ids \<longrightarrow> i \<in> set ids \<longrightarrow>
        (\<exists>e flds. fmlookup (secondary_index_declarations d) i = Some e \<and> sie_target e = NodeFieldIndex l flds \<and>
           validate_secondary_index_fields (map to_public flds) NodeTarget = Inr ())) \<and>
     (\<forall>l ids i. fmlookup (secondary_edge_field_indexes_by_label d) l = Some ids \<longrightarrow> i \<in> set ids \<longrightarrow>
        (\<exists>e flds. fmlookup (secondary_index_declarations d) i = Some e \<and> sie_target e = EdgeFieldIndex l flds \<and>
           validate_secondary_index_fields (map to_public flds) EdgeTarget = Inr ()))"

lemma decls_ok_nodeD:
  assumes "decls_ok d" and "fmlookup (secondary_node_field_indexes_by_label d) l = Some ids" and "i \<in> set ids"
  obtains flds where "node_field_index d i = Some flds" "validate_secondary_index_fields (map to_public flds) NodeTarget = Inr ()"
  using assms by (fastforce simp: decls_ok_def node_field_index_def)

lemma decls_ok_edgeD:
  assumes "decls_ok d" and "fmlookup (secondary_edge_field_indexes_by_label d) l = Some ids" and "i \<in> set ids"
  obtains flds where "edge_field_index d i = Some flds" "validate_secondary_index_fields (map to_public flds) EdgeTarget = Inr ()"
  using assms by (fastforce simp: decls_ok_def edge_field_index_def)

section \<open>Collecting actions does not fail\<close>

lemma those_not_None: "(\<And>x. x \<in> set xs \<Longrightarrow> f x \<noteq> None) \<Longrightarrow> those (map f xs) \<noteq> None"
  using those_total [of xs f] by auto

lemma append_actions_total: "(\<And>a. a \<in> set as \<Longrightarrow> a \<noteq> None) \<Longrightarrow> append_actions as \<noteq> None"
proof (induction as)
  case (Cons a as)
  then show ?case by (cases a; cases "append_actions as") auto
qed simp

lemma node_entries_total:
  assumes "decls_ok d" and "node_wf n"
  shows "collect_compound_index_entries_for_node_label pv d l n p \<noteq> None"
proof (cases "fmlookup (secondary_node_field_indexes_by_label d) l")
  case (Some ids)
  have "Option.bind (node_field_index d i) (\<lambda>flds. map_option (\<lambda>k. (i, k, n_id n, p))
      (encode_node_compound_tuple_key pv l flds n)) \<noteq> None" if i: "i \<in> set ids" for i
    by (rule decls_ok_nodeD [OF assms(1) Some i]) (use encode_node_total [OF assms(2)] in fastforce)
  with Some show ?thesis
    unfolding collect_compound_index_entries_for_node_label_def by (simp add: those_not_None del: not_None_eq)
qed (simp add: collect_compound_index_entries_for_node_label_def)

lemma node_updates_total:
  assumes "decls_ok d" and "node_wf n" and "node_wf n'"
  shows "collect_compound_index_updates_for_node_label pv d l n n' \<noteq> None"
proof (cases "fmlookup (secondary_node_field_indexes_by_label d) l")
  case (Some ids)
  have "Option.bind (node_field_index d i) (\<lambda>flds.
          Option.bind (encode_node_compound_tuple_key pv l flds n) (\<lambda>old_key.
          Option.bind (encode_node_compound_tuple_key pv l flds n') (\<lambda>new_key.
            Some (if old_key = new_key then []
              else [(i, old_key, n_id n, False), (i, new_key, n_id n', True)])))) \<noteq> None" if i: "i \<in> set ids" for i
    by (rule decls_ok_nodeD [OF assms(1) Some i])
      (use encode_node_total [OF assms(2), of _ pv l] encode_node_total [OF assms(3), of _ pv l] in fastforce)
  with Some show ?thesis
    unfolding collect_compound_index_updates_for_node_label_def
    by (simp add: those_not_None del: not_None_eq)
qed (simp add: collect_compound_index_updates_for_node_label_def)

lemma edge_entries_total:
  assumes "decls_ok d" and "edge_wf e"
  shows "collect_compound_index_entries_for_edge_label pv d l e p \<noteq> None"
proof (cases "fmlookup (secondary_edge_field_indexes_by_label d) l")
  case (Some ids)
  have "Option.bind (edge_field_index d i) (\<lambda>flds. map_option (\<lambda>k. (i, k, e_id e, p))
      (encode_edge_compound_tuple_key pv l flds e)) \<noteq> None" if i: "i \<in> set ids" for i
    by (rule decls_ok_edgeD [OF assms(1) Some i]) (use encode_edge_total [OF assms(2)] in fastforce)
  with Some show ?thesis
    unfolding collect_compound_index_entries_for_edge_label_def by (simp add: those_not_None del: not_None_eq)
qed (simp add: collect_compound_index_entries_for_edge_label_def)

lemma edge_updates_total:
  assumes "decls_ok d" and "edge_wf e" and "edge_wf e'"
  shows "collect_compound_index_updates_for_edge_label pv d l e e' \<noteq> None"
proof (cases "fmlookup (secondary_edge_field_indexes_by_label d) l")
  case (Some ids)
  have "Option.bind (edge_field_index d i) (\<lambda>flds.
          Option.bind (encode_edge_compound_tuple_key pv l flds e) (\<lambda>old_key.
          Option.bind (encode_edge_compound_tuple_key pv l flds e') (\<lambda>new_key.
            Some (if old_key = new_key then []
              else [(i, old_key, e_id e, False), (i, new_key, e_id e', True)])))) \<noteq> None" if i: "i \<in> set ids" for i
    by (rule decls_ok_edgeD [OF assms(1) Some i])
      (use encode_edge_total [OF assms(2), of _ pv l] encode_edge_total [OF assms(3), of _ pv l] in fastforce)
  with Some show ?thesis
    unfolding collect_compound_index_updates_for_edge_label_def
    by (simp add: those_not_None del: not_None_eq)
qed (simp add: collect_compound_index_updates_for_edge_label_def)

lemma node_actions_total:
  assumes "decls_ok d" and "node_wf n"
  shows "node_presence_actions pv d n p \<noteq> None" and "node_wf n' \<Longrightarrow> node_upsert_actions pv d n n' \<noteq> None"
proof -
  have entry: "node_entry_actions pv d m q l \<noteq> None" if "node_wf m" for m q l
    using node_entries_total [OF assms(1) that, of pv l q] by (simp add: node_entry_actions_def split_beta del: not_None_eq)
  show "node_presence_actions pv d n p \<noteq> None"
    using append_actions_total [of "map (node_entry_actions pv d n p) (as_slice (n_label_ids n))"] entry [OF assms(2)]
    by (force simp: node_presence_actions_def)
  assume n': "node_wf n'"
  have update: "node_update_actions pv d n n' l \<noteq> None" for l
    using node_updates_total [OF assms n', of pv l] by (simp add: node_update_actions_def split_beta del: not_None_eq)
  show "node_upsert_actions pv d n n' \<noteq> None"
    unfolding node_upsert_actions_def
    by (rule append_actions_total) (use entry [OF assms(2)] entry [OF n'] update in \<open>auto split: if_splits\<close>)
qed

lemma edge_actions_total:
  assumes "decls_ok d" and "edge_wf e"
  shows "edge_presence_actions pv d e p \<noteq> None" and "edge_wf e' \<Longrightarrow> edge_update_actions pv d e e' \<noteq> None"
  using edge_entries_total [OF assms, of pv "e_label_id e" p] edge_updates_total [OF assms, of e' pv "e_label_id e'"]
  by (simp_all add: edge_presence_actions_def edge_update_actions_def Let_def del: not_None_eq)

section \<open>Steps do not fail\<close>

definition records_wf :: "graph_store \<Rightarrow> bool" where
  "records_wf g \<longleftrightarrow> (\<forall>i n. live_node g i = Some n \<longrightarrow> node_wf n) \<and> (\<forall>i e. live_edge g i = Some e \<longrightarrow> edge_wf e)"

lemma decls_ok_cong:
  assumes "decls d = decls d'"
  shows "decls_ok d = decls_ok d'"
  unfolding decls_ok_def decls_eqD [OF assms] by (rule refl)

lemma wf_stored [simp]: "node_wf (n\<lparr>n_last_write_seq := w\<rparr>) = node_wf n" "edge_wf (e\<lparr>e_last_write_seq := w\<rparr>) = edge_wf e"
  by (simp_all add: node_wf_def edge_wf_def)

lemma store_sync_node_total:
  assumes "decls_ok g" and "\<And>o'. old = Some o' \<Longrightarrow> node_wf o'" and "node_wf new"
  shows "store_sync_node pv g old new \<noteq> None"
  using assms node_actions_total [OF assms(1)] by (cases old) (auto simp: store_sync_node_def)

lemma store_sync_edge_total:
  assumes "decls_ok g" and "\<And>o'. old = Some o' \<Longrightarrow> edge_wf o'" and "edge_wf new"
  shows "store_sync_edge pv g old new \<noteq> None"
proof -
  have run: "decls_ok (g_run_actions g a)" for a using decls_ok_cong [of "g_run_actions g a" g] assms(1) by simp
  have pres: "map_option (g_run_actions g') (edge_presence_actions pv g' e p) \<noteq> None" if "decls_ok g'" "edge_wf e" for g' e p
    using edge_actions_total(1) [OF that] by simp
  show ?thesis
  proof (cases old)
    case None
    then show ?thesis using pres [OF assms(1,3)] by (simp add: store_sync_edge_def del: not_None_eq)
  next
    case (Some o')
    with assms(2) have o': "edge_wf o'" by simp
    from edge_actions_total(1) [OF assms(1) o', of pv False] edge_actions_total(2) [OF assms(1) o' assms(3), of pv] Some
    show ?thesis using pres [OF run assms(3)] by (auto simp: store_sync_edge_def)
  qed
qed

lemma op_wf_node: "op_wf (UpsertNode n) \<Longrightarrow> node_wf n" and op_wf_edge: "op_wf (UpsertEdge e) \<Longrightarrow> edge_wf e"
  by (simp_all add: node_wf_def edge_wf_def)

lemma store_step_total:
  assumes "decls_ok g" and "records_wf g" and "op_wf op"
  shows "store_step pv g op w \<noteq> None"
proof -
  have d: "decls_ok h" if "decls h = decls g" for h using decls_ok_cong [OF that] assms(1) by simp
  show ?thesis
  proof (cases op)
    case (UpsertNode n)
    have "store_sync_node pv (swap_node (live_node g (n_id n)) (Some n) (n_id n) g) (live_node g (n_id n))
        (n\<lparr>n_last_write_seq := w\<rparr>) \<noteq> None"
      by (rule store_sync_node_total)
        (use assms(2,3) UpsertNode in \<open>simp_all add: d records_wf_def op_wf_node del: op_wf.simps\<close>)
    with UpsertNode show ?thesis by (simp add: store_upsert_node_def Let_def del: not_None_eq)
  next
    case (UpsertEdge e)
    have "store_sync_edge pv ((swap_edge (live_edge g (e_id e)) (Some e) g)
        \<lparr>g_triples := swap_triples (live_edge g (e_id e)) e (g_triples g), g_edge_ids := (g_edge_ids g)(e_id e \<mapsto> ())\<rparr>)
        (live_edge g (e_id e)) (e\<lparr>e_last_write_seq := w\<rparr>) \<noteq> None"
      by (rule store_sync_edge_total)
        (use assms(2,3) UpsertEdge in \<open>simp_all add: d records_wf_def op_wf_edge del: op_wf.simps\<close>)
    with UpsertEdge show ?thesis by (simp add: store_upsert_edge_def Let_def del: not_None_eq)
  next
    case (DeleteNode i t)
    then show ?thesis
      using node_actions_total(1) [OF assms(1)] assms(2)
      by (auto simp: store_delete_node_def records_wf_def split: option.split)
  next
    case (DeleteEdge i t)
    have "edge_presence_actions pv ((swap_edge (Some e) None g)\<lparr>g_triples := x, g_edge_ids := y\<rparr>) e False \<noteq> None"
      if "live_edge g i = Some e" for e x y
      by (rule edge_actions_total(1) [OF d]) (use assms(2) that in \<open>simp_all add: records_wf_def\<close>)
    with DeleteEdge show ?thesis
      by (simp add: store_delete_edge_def Let_def del: not_None_eq split: option.split)
  qed simp_all
qed

section \<open>Sessions keep the declarations and records well formed\<close>

lemma store_sync_decls:
  "store_sync_node pv g old new = Some g' \<Longrightarrow> decls g' = decls g"
  "store_sync_edge pv g o' n' = Some h \<Longrightarrow> decls h = decls g"
  using store_sync_node_run store_sync_edge_run by fastforce+

lemma store_step_decls:
  assumes "store_step pv g op w = Some g'"
  shows "decls g' = decls g"
  using assms by (cases op) (auto simp: store_ops Let_def dest!: store_sync_decls split: option.splits)

lemma records_wf_step:
  assumes "records_wf g" and "op_wf op" and "store_step pv g op w = Some g'"
  shows "records_wf g'"
  using assms(1,2) unfolding records_wf_def live_node_step [OF assms(3)] live_edge_step [OF assms(3)]
  by (cases op) (auto simp: op_wf_node op_wf_edge simp del: op_wf.simps split: if_splits)

lemma field_lookup_add: "fmlookup (fst (add_field_index_lookup m l i)) k = (if k = l then
    Some ((case fmlookup m l of None \<Rightarrow> [] | Some ids \<Rightarrow> ids) @ [i]) else fmlookup m k)"
  by (simp add: add_field_index_lookup_def split: option.split)

lemma field_lookup_remove:
  "fmlookup (fst (remove_field_index_lookup m l i)) k = Some ids \<Longrightarrow>
     \<exists>ids'. fmlookup m k = Some ids' \<and> set ids \<subseteq> set ids' \<and> (k = l \<longrightarrow> i \<notin> set ids)"
  by (auto simp: remove_field_index_lookup_def Let_def split: option.splits if_splits)

lemma decls_setters [simp]:
  "decls (set_secondary_eq_slot st a b c p x) = decls st"
  "decls (set_secondary_range_slot st a e c p x) = decls st"
  "decls (set_compound_slot st a e c p x) = decls st"
  by (simp_all add: decls_def index_decls.truncate_def set_secondary_eq_slot_def set_secondary_range_slot_def
      set_compound_slot_def account_def split_beta)

lemma decls_fold: "(\<And>x st. decls (f x st) = decls st) \<Longrightarrow> decls (fold f xs st) = decls st"
  by (induction xs arbitrary: st) simp_all

lemma decls_seeds [simp]:
  "decls (seed_eq i seeds1 st) = decls st" "decls (seed_range i seeds2 st) = decls st" "decls (seed_compound i seeds2 st) = decls st"
  by (simp_all add: seed_eq_def seed_range_def seed_compound_def Let_def decls_fold split_beta)
    (simp_all add: decls_def index_decls.truncate_def)

lemmas seed_lookups = decls_seeds(1) [THEN decls_eqD(1)] decls_seeds(2) [THEN decls_eqD(1)] decls_seeds(3) [THEN decls_eqD(1)]
  decls_seeds(1) [THEN decls_eqD(6)] decls_seeds(2) [THEN decls_eqD(6)] decls_seeds(3) [THEN decls_eqD(6)]
  decls_seeds(1) [THEN decls_eqD(7)] decls_seeds(2) [THEN decls_eqD(7)] decls_seeds(3) [THEN decls_eqD(7)]

lemma register_lookups:
  assumes "register_secondary_index pv st entry = Some st'" and "fmlookup (secondary_index_declarations st) (sie_index_id entry) = None"
  shows "secondary_index_declarations st' = fmupd (sie_index_id entry) entry (secondary_index_declarations st)"
    "secondary_node_field_indexes_by_label st' = (case sie_target entry of
       NodeFieldIndex l _ \<Rightarrow> fst (add_field_index_lookup (secondary_node_field_indexes_by_label st) l (sie_index_id entry))
     | _ \<Rightarrow> secondary_node_field_indexes_by_label st)"
    "secondary_edge_field_indexes_by_label st' = (case sie_target entry of
       EdgeFieldIndex l _ \<Rightarrow> fst (add_field_index_lookup (secondary_edge_field_indexes_by_label st) l (sie_index_id entry))
     | _ \<Rightarrow> secondary_edge_field_indexes_by_label st)"
  using assms by (auto simp: register_secondary_index_def register_target_def Let_def seed_lookups account_def split_beta
      split: secondary_index_target.splits secondary_index_kind.splits)

lemma decls_register:
  assumes "decls_ok st" and "validate_secondary_index_target (sie_target entry) = Inr ()"
    and "register_secondary_index pv st entry = Some st'"
  shows "decls_ok st'"
proof (cases "fmlookup (secondary_index_declarations st) (sie_index_id entry)")
  case None
  show ?thesis
    using assms(1,2) None unfolding decls_ok_def register_lookups [OF assms(3) None]
    by (cases "sie_target entry")
      (fastforce simp: field_lookup_add validate_secondary_index_target_def split: if_splits option.splits)+
next
  case (Some e)
  with assms show ?thesis by (simp add: register_secondary_index_def)
qed

lemma unregister_lookups:
  assumes "fmlookup (secondary_index_declarations st) i = Some entry"
  shows "secondary_index_declarations (fst (unregister_secondary_index st i)) = fmdrop i (secondary_index_declarations st)"
    "secondary_node_field_indexes_by_label (fst (unregister_secondary_index st i)) = (case sie_target entry of
       NodeFieldIndex l _ \<Rightarrow> fst (remove_field_index_lookup (secondary_node_field_indexes_by_label st) l i)
     | _ \<Rightarrow> secondary_node_field_indexes_by_label st)"
    "secondary_edge_field_indexes_by_label (fst (unregister_secondary_index st i)) = (case sie_target entry of
       EdgeFieldIndex l _ \<Rightarrow> fst (remove_field_index_lookup (secondary_edge_field_indexes_by_label st) l i)
     | _ \<Rightarrow> secondary_edge_field_indexes_by_label st)"
  using assms by (auto simp: unregister_secondary_index_def unregister_target_def Let_def account_def split_beta
      drop_eq_state_def drop_range_state_def drop_compound_state_def
      split: secondary_index_target.splits secondary_index_kind.splits option.splits)

lemma decls_unregister:
  assumes "decls_ok st"
  shows "decls_ok (fst (unregister_secondary_index st i))"
proof (cases "fmlookup (secondary_index_declarations st) i")
  case None
  with assms show ?thesis by (simp add: unregister_secondary_index_def)
next
  case (Some entry)
  show ?thesis
    using assms Some unfolding decls_ok_def unregister_lookups [OF Some]
    by (cases "sie_target entry") (fastforce dest!: field_lookup_remove)+
qed

lemma session_invariants:
  assumes "memtable_session pv st w"
  shows "decls_ok st \<and> records_wf (view st U64_MAX)"
  using assms
proof (induction rule: memtable_session.induct)
  case new
  have "decls_ok memtable_new" by (simp add: decls_ok_def memtable_new_def)
  then show ?case by (simp add: records_wf_def)
next
  case (op st w x op st')
  note inv = reach_invariants [OF session_reach [OF op.hyps(1)]]
  have "settled st x" "ids_ok (view st U64_MAX)" using inv settled_mono op.hyps(2) by (auto simp: store_ok_def)
  from view_apply_op_new [OF this(1) le_U64_MAX this(2) op_wf_ok [OF op.hyps(3)], of pv] op.hyps(4)
  have step: "store_step pv (view st U64_MAX) op x = Some (view st' U64_MAX)" by simp
  have "decls st' = decls st" using store_step_decls [OF step] by simp
  then show ?case using op.IH records_wf_step [OF _ op.hyps(3) step] decls_ok_cong by blast
next
  case (register st w entry st')
  have "same_core (view st' U64_MAX) (view st U64_MAX)" by (rule same_core_register [OF register.hyps(3)])
  then show ?case
    using register.IH decls_register [OF _ register.hyps(2,3)] same_core_live by (metis records_wf_def)
next
  case (unregister st w i)
  then show ?case using decls_unregister same_core_live [OF same_core_unregister [of st i U64_MAX]] by (metis records_wf_def)
qed

lemma session_op_total:
  assumes "memtable_session pv st w" and "w \<le> x" and "op_wf op"
  shows "\<exists>st'. apply_op pv st op x = Some st'"
proof -
  note inv = reach_invariants [OF session_reach [OF assms(1)]]
  have "settled st x" "ids_ok (view st U64_MAX)" using inv settled_mono assms(2) by (auto simp: store_ok_def)
  note view = view_apply_op_new [OF this(1) le_U64_MAX this(2) op_wf_ok [OF assms(3)], of pv]
  have "decls_ok (view st U64_MAX)" "records_wf (view st U64_MAX)"
    using session_invariants [OF assms(1)] decls_ok_cong [of "view st U64_MAX" st] by simp_all
  from store_step_total [OF this assms(3), of pv x] view show ?thesis by (cases "apply_op pv st op x") auto
qed

lemma session_register_total:
  assumes "memtable_session pv st w" and "validate_secondary_index_target (sie_target entry) = Inr ()"
  shows "\<exists>st'. register_secondary_index pv st entry = Some st'"
proof -
  have wf: "records_wf (view st U64_MAX)" using session_invariants [OF assms(1)] by simp
  have nodes: "node_wf n" if "n \<in> set (live_nodes (st\<lparr>secondary_index_declarations := a, estimated_bytes := b\<rparr>))" for n a b
    using wf that by (auto simp: live_nodes_def List.map_filter_def records_wf_def current_node_def current_node_view [symmetric])
  have edges: "edge_wf e" if "e \<in> set (live_edges (st\<lparr>secondary_index_declarations := a, estimated_bytes := b\<rparr>))" for e a b
    using wf that by (auto simp: live_edges_def List.map_filter_def records_wf_def current_edge_def current_edge_view [symmetric])
  have n: "node_compound_seeds pv (st\<lparr>secondary_index_declarations := a, estimated_bytes := b\<rparr>) l flds \<noteq> None"
    if "sie_target entry = NodeFieldIndex l flds" for l flds a b
    unfolding node_compound_seeds_def
    by (rule those_not_None)
      (use nodes encode_node_total [of _ flds pv l] assms(2) that in \<open>force simp: validate_secondary_index_target_def\<close>)
  have e: "edge_compound_seeds pv (st\<lparr>secondary_index_declarations := a, estimated_bytes := b\<rparr>) l flds \<noteq> None"
    if "sie_target entry = EdgeFieldIndex l flds" for l flds a b
    unfolding edge_compound_seeds_def
    by (rule those_not_None)
      (use edges encode_edge_total [of _ flds pv l] assms(2) that in \<open>force simp: validate_secondary_index_target_def\<close>)
  show ?thesis
    by (cases "sie_target entry"; cases "sie_kind entry")
      (auto simp: register_secondary_index_def register_target_def Let_def split_beta dest: n e)
qed

end
