(* ===== verification/Degree_Exact.thy ===== *)
theory Degree_Exact
  imports Recovery Memtable_Query Memtable_Total
begin

text \<open>
  The degree cache counts the edges: after any run of the engine the overlay holds, for every
  node, the difference between the degrees over the edges the engine sees and the degrees over
  the edges of the older sources. The counts are machine integers; weight sums are floating point
  and carry no such law.
\<close>

section \<open>Counts of deltas\<close>

datatype degree_count = OutDegree | InDegree | SelfLoops | TemporalEdges

fun cnt :: "degree_count \<Rightarrow> degree_delta \<Rightarrow> i64" where
  "cnt OutDegree d = dd_out_degree d"
| "cnt InDegree d = dd_in_degree d"
| "cnt SelfLoops d = dd_self_loop_count d"
| "cnt TemporalEdges d = dd_temporal_edge_count d"

definition shard_delta :: "shard \<Rightarrow> u64 \<Rightarrow> degree_delta" where
  "shard_delta m n = (case fmlookup m n of Some d \<Rightarrow> d | None \<Rightarrow> DELTA_ZERO)"

lemma cnt_simps [simp]:
  "cnt f DELTA_ZERO = 0"
  "cnt f (add_assign_delta a b) = cnt f a + cnt f b"
  "cnt f (negate a) = - cnt f a"
  by (cases f; simp add: DELTA_ZERO_def add_assign_delta_def negate_def)+

lemmas cnt_eqs = cnt.simps
declare cnt.simps [simp del]

lemma cnt_zero: "is_zero d \<Longrightarrow> cnt f d = 0"
  by (cases f) (simp_all add: is_zero_def cnt_eqs)

lemma shard_delta_empty [simp]: "shard_delta fmempty n = DELTA_ZERO"
  by (simp add: shard_delta_def)

text \<open>A map of deltas that a client adds to: each addition changes the counts of one node.\<close>

locale delta_map =
  fixes wf :: "'m \<Rightarrow> bool" and get :: "'m \<Rightarrow> u64 \<Rightarrow> degree_delta" and add :: "'m \<Rightarrow> u64 \<Rightarrow> degree_delta \<Rightarrow> 'm"
  assumes wf_add: "wf m \<Longrightarrow> wf (add m k d)"
    and cnt_add: "wf m \<Longrightarrow> cnt f (get (add m k d) n) = cnt f (get m n) + (if n = k then cnt f d else 0)"
begin

lemma add_all:
  assumes "wf m" and "distinct (map fst ds)"
  shows "wf (fold (\<lambda>(k, d) m. add m k d) ds m) \<and>
    cnt f (get (fold (\<lambda>(k, d) m. add m k d) ds m) n) =
      cnt f (get m n) + (case map_of ds n of Some d \<Rightarrow> cnt f d | None \<Rightarrow> 0)"
  using assms
proof (induction ds arbitrary: m)
  case (Cons kd ds)
  obtain k d where kd: "kd = (k, d)" by (cases kd)
  have "map_of ds k = None" using Cons.prems(2) kd by (simp add: map_of_eq_None_iff)
  then show ?case
    using Cons.IH [OF wf_add [OF Cons.prems(1)], of k d] Cons.prems kd cnt_add [OF Cons.prems(1)] by auto
qed simp

end

lemma cnt_add_degree_delta:
  "cnt f (shard_delta (add_degree_delta m k d) n) = cnt f (shard_delta m n) + (if n = k then cnt f d else 0)"
proof -
  have "cnt f (shard_delta m k) + cnt f d = 0" if "is_zero (add_assign_delta (shard_delta m k) d)"
    using cnt_zero [OF that, of f] by simp
  then show ?thesis
    by (auto simp: add_degree_delta_def Let_def cnt_zero shard_delta_def split: option.splits)
qed

interpretation shard_map: delta_map "\<lambda>_. True" shard_delta add_degree_delta
  by unfold_locales (rule TrueI, rule cnt_add_degree_delta)

text \<open>What an edge contributes to a node.\<close>

definition contribution :: "degree_count \<Rightarrow> u64 \<Rightarrow> edge_core \<Rightarrow> i64" where
  "contribution f n c =
     (let valid = is_edge_valid_at (ec_valid_from c) (ec_valid_to c) (ec_updated_at c);
          bypass = is_cache_bypass_edge (ec_valid_from c) (ec_valid_to c) (ec_created_at c)
      in case f of
        OutDegree \<Rightarrow> of_bool (valid \<and> ec_from c = n)
      | InDegree \<Rightarrow> of_bool (valid \<and> ec_to c = n)
      | SelfLoops \<Rightarrow> of_bool (valid \<and> ec_from c = n \<and> ec_to c = n)
      | TemporalEdges \<Rightarrow> of_bool (bypass \<and> (ec_from c = n \<or> ec_to c = n)))"

lemma cnt_edge_deltas [simp]:
  "cnt f (add_valid_edge a b w) = (if a = b then (if f = TemporalEdges then 0 else 1) else (if f = OutDegree then 1 else 0))"
  "cnt f (add_valid_edge_incoming w) = (if f = InDegree then 1 else 0)"
  "cnt f add_temporal_marker = (if f = TemporalEdges then 1 else 0)"
  "cnt f remove_temporal_marker = (if f = TemporalEdges then - 1 else 0)"
  by (cases f; simp add: add_valid_edge_def add_valid_edge_incoming_def add_temporal_marker_def remove_temporal_marker_def
      DELTA_ZERO_def Let_def cnt_eqs)+

lemma cnt_collect_edge:
  "cnt f (shard_delta (collect_degree_delta_for_edge m c add) n) =
     cnt f (shard_delta m n) + (if add then contribution f n c else - contribution f n c)"
  by (cases f) (auto simp: collect_degree_delta_for_edge_def add_valid_edge_delta_def add_temporal_edge_delta_def Let_def
      shard_map.cnt_add remove_valid_edge_def remove_valid_edge_incoming_def contribution_def)

definition contributes :: "degree_count \<Rightarrow> u64 \<Rightarrow> edge_core option \<Rightarrow> i64" where
  "contributes f n c = (case c of None \<Rightarrow> 0 | Some c \<Rightarrow> contribution f n c)"

lemma cnt_collect_op:
  assumes "edge_id_for_degree_op op = Some rid"
  shows "cnt f (shard_delta (collect_degree_delta_for_op op old m) n) =
    cnt f (shard_delta m n) + contributes f n (edge_core_after_op op) - contributes f n old"
  using assms by (cases op; cases old) (simp_all add: collect_degree_delta_for_op_def cnt_collect_edge contributes_def)

lemma collect_op_none: "edge_id_for_degree_op op = None \<Longrightarrow> collect_degree_delta_for_op op old m = m"
  by (cases op) (simp_all add: collect_degree_delta_for_op_def)

section \<open>The overlay is a map\<close>

definition overlay_wf :: "overlay \<Rightarrow> bool" where
  "overlay_wf g \<longleftrightarrow> length g = DEGREE_OVERLAY_GROUP_COUNT \<and> (\<forall>x \<in> set g. length x = DEGREE_OVERLAY_GROUP_SIZE)"

lemma shard_bounds: "group_index n < DEGREE_OVERLAY_GROUP_COUNT" "local_index n < DEGREE_OVERLAY_GROUP_SIZE"
proof -
  have "n AND 1023 \<le> 1023" by (rule word_and_le1)
  then have "degree_overlay_shard_index n \<le> 1023" by (simp add: degree_overlay_shard_index_def word_le_nat_alt)
  then show "group_index n < DEGREE_OVERLAY_GROUP_COUNT"
    by (simp add: group_index_def DEGREE_OVERLAY_GROUP_COUNT_def DEGREE_OVERLAY_GROUP_SIZE_def)
qed (simp add: local_index_def DEGREE_OVERLAY_GROUP_SIZE_def)

lemma overlay_empty_wf: "overlay_wf overlay_empty"
  by (simp add: overlay_wf_def overlay_empty_def)

lemma overlay_empty_get [simp]: "overlay_get overlay_empty n = DELTA_ZERO"
  by (simp add: overlay_get_def overlay_empty_def shard_bounds)

lemma overlay_get_shard: "overlay_get g n = shard_delta (g ! group_index n ! local_index n) n"
  by (simp add: overlay_get_def shard_delta_def)

lemma overlay_add_wf:
  assumes "overlay_wf g"
  shows "overlay_wf (overlay_add_delta g k d)"
  using assms shard_bounds [of k] nth_mem
  by (fastforce simp: overlay_wf_def overlay_add_delta_def Let_def in_set_conv_nth nth_list_update)

lemma overlay_add_get:
  assumes "overlay_wf g"
  shows "cnt f (overlay_get (overlay_add_delta g k d) n) = cnt f (overlay_get g n) + (if n = k then cnt f d else 0)"
proof -
  have len: "group_index k < length g" "local_index k < length (g ! group_index k)"
    using assms shard_bounds [of k] by (simp_all add: overlay_wf_def)
  have "overlay_add_delta g k d ! group_index n ! local_index n =
      (if group_index n = group_index k \<and> local_index n = local_index k
       then add_degree_delta (g ! group_index n ! local_index n) k d else g ! group_index n ! local_index n)"
    using len by (auto simp: overlay_add_delta_def Let_def nth_list_update)
  then show ?thesis by (auto simp: overlay_get_shard cnt_add_degree_delta)
qed

interpretation overlay_map: delta_map overlay_wf overlay_get overlay_add_delta
  by unfold_locales (rule overlay_add_wf, assumption, rule overlay_add_get)

lemma overlay_finish_wf: "overlay_wf g \<Longrightarrow> overlay_wf (overlay_finish owned g)"
  by (auto simp: overlay_wf_def overlay_finish_def)

lemma overlay_finish_get:
  assumes "overlay_wf g"
  shows "cnt f (overlay_get (overlay_finish owned g) n) = cnt f (overlay_get g n)"
proof -
  have "group_index n < length g" "local_index n < length (g ! group_index n)"
    using assms shard_bounds [of n] by (simp_all add: overlay_wf_def)
  then have "overlay_finish owned g ! group_index n ! local_index n =
      (if owned (group_index n) (local_index n)
       then fmfilter (\<lambda>k. \<not> is_zero (the (fmlookup (g ! group_index n ! local_index n) k))) (g ! group_index n ! local_index n)
       else g ! group_index n ! local_index n)"
    by (simp add: overlay_finish_def cong del: fmfilter_cong)
  then show ?thesis
    by (auto simp: overlay_get_shard shard_delta_def cnt_zero split: option.splits)
qed

lemma delta_entries_map:
  "distinct (map fst (delta_entries m))" "map_of (delta_entries m) n = fmlookup m n"
proof -
  show "distinct (map fst (delta_entries m))" by (simp add: comp_def sorted_list_of_fset.rep_eq)
  have "map_of (delta_entries m) n = (if n \<in> fset (fmdom m) then Some (the (fmlookup m n)) else None)"
    by (simp add: map_of_map_restrict restrict_map_def sorted_list_of_fset.rep_eq)
  also have "\<dots> = fmlookup m n" by (auto simp: fmdom'_notI fmlookup_dom_iff)
  finally show "map_of (delta_entries m) n = fmlookup m n" .
qed

lemma overlay_apply:
  assumes "overlay_wf g"
  shows "overlay_wf (apply_degree_deltas owned m g)"
    and "cnt f (overlay_get (apply_degree_deltas owned m g) n) = cnt f (overlay_get g n) + cnt f (shard_delta m n)"
proof -
  note fold = overlay_map.add_all [OF assms delta_entries_map(1), of m f n]
  show "overlay_wf (apply_degree_deltas owned m g)"
    using assms fold by (simp add: apply_degree_deltas_def overlay_finish_wf)
  show "cnt f (overlay_get (apply_degree_deltas owned m g) n) = cnt f (overlay_get g n) + cnt f (shard_delta m n)"
    using fold unfolding delta_entries_map(2)
    by (auto simp: apply_degree_deltas_def overlay_finish_get shard_delta_def split: option.splits)
qed

section \<open>The edges the engine sees\<close>

definition older_edge :: "engine_core \<Rightarrow> u64 \<Rightarrow> edge_core option" where
  "older_edge e rid = (case edge_core_from_memtables (ec_epochs e) (ec_segments e) rid of Inr c \<Rightarrow> c | Inl _ \<Rightarrow> None)"

definition seen_edge :: "engine_core \<Rightarrow> u64 \<Rightarrow> edge_core option" where
  "seen_edge e rid = (case get_edge_core_for_cache e rid of Inr c \<Rightarrow> c | Inl _ \<Rightarrow> None)"

definition memtable_edge :: "engine_core \<Rightarrow> u64 \<Rightarrow> edge_record record_state option" where
  "memtable_edge e = g_edges (view (ec_memtable e) U64_MAX)"

definition memtable_ok :: "(prop_value \<Rightarrow> bytes) \<Rightarrow> engine_core \<Rightarrow> bool" where
  "memtable_ok pv e \<longleftrightarrow> (\<exists>w \<le> ec_engine_seq e. memtable_reach pv (ec_memtable e) w)"

lemma finite_memtable_edge: "finite {rid. memtable_edge e rid \<noteq> None}"
  by (simp add: memtable_edge_def view_def finite_rec_at)

lemma seen_edge_cases:
  assumes "memtable_ok pv e"
  shows "seen_edge e rid = (case memtable_edge e rid of
    None \<Rightarrow> older_edge e rid | Some (Live r) \<Rightarrow> Some (core_of r) | Some (Tombstone _) \<Rightarrow> None)"
proof -
  let ?g = "view (ec_memtable e) U64_MAX"
  from assms obtain w where "memtable_reach pv (ec_memtable e) w" by (auto simp: memtable_ok_def)
  from reach_invariants [OF this] have "edge_indexes_ok ?g" by (simp add: store_ok_def)
  then have tomb: "g_edge_tombstones ?g rid \<noteq> None \<longleftrightarrow> (\<exists>t. g_edges ?g rid = Some (Tombstone t))"
    by (simp add: edge_indexes_ok_def unit_option)
  show ?thesis
    using tomb
    by (auto simp: seen_edge_def older_edge_def get_edge_core_for_cache_def get_edge_core_from_sources_def memtable_edge_core_def
        get_edge_core_at_def is_edge_deleted_at_def read_views live_edge_def memtable_edge_def core_of_def
        split: option.splits record_state.splits)
qed

lemma store_step_reach:
  assumes "memtable_reach pv st w" and "w \<le> x" and "op_ok op" and "apply_op pv st op x = Some st'"
  shows "store_step pv (view st U64_MAX) op x = Some (view st' U64_MAX)"
proof -
  have "settled st x" and "ids_ok (view st U64_MAX)"
    using reach_invariants [OF assms(1)] settled_mono [OF _ assms(2)] by (auto simp: store_ok_def)
  from view_apply_op_new [OF this(1) le_U64_MAX this(2) assms(3), of pv] assms(4) show ?thesis by simp
qed

text \<open>One operation replaces the edge it names and no other.\<close>

lemma op_seen:
  assumes ok: "memtable_ok pv e" and x: "ec_engine_seq e \<le> x" and op: "op_ok op"
    and st: "apply_op pv (ec_memtable e) op x = Some st"
    and e': "same_base e e'" "ec_memtable e' = st" "ec_engine_seq e' = x"
  shows "memtable_ok pv e'"
    and "memtable_edge e rid \<noteq> None \<Longrightarrow> memtable_edge e' rid \<noteq> None"
    and "edge_id_for_degree_op op = Some rid \<Longrightarrow> memtable_edge e' rid \<noteq> None"
    and "seen_edge e' rid = (if edge_id_for_degree_op op = Some rid then edge_core_after_op op else seen_edge e rid)"
proof -
  from ok obtain w where w: "w \<le> ec_engine_seq e" "memtable_reach pv (ec_memtable e) w" by (auto simp: memtable_ok_def)
  have wx: "w \<le> x" using w(1) x by (rule order_trans)
  show ok': "memtable_ok pv e'"
    using memtable_reach.op [OF w(2) wx op st] e'(2,3) by (auto simp: memtable_ok_def)
  note edges = store_step_edges [OF store_step_reach [OF w(2) wx op st]]
  have older: "older_edge e' rid = older_edge e rid" using e'(1) by (simp add: older_edge_def same_base_def)
  show "memtable_edge e rid \<noteq> None \<Longrightarrow> memtable_edge e' rid \<noteq> None"
    using edges e'(2) by (cases op) (auto simp: memtable_edge_def)
  show "edge_id_for_degree_op op = Some rid \<Longrightarrow> memtable_edge e' rid \<noteq> None"
    using edges e'(2) by (cases op) (auto simp: memtable_edge_def)
  show "seen_edge e' rid = (if edge_id_for_degree_op op = Some rid then edge_core_after_op op else seen_edge e rid)"
    unfolding seen_edge_cases [OF ok] seen_edge_cases [OF ok'] older
    using edges e'(2) by (cases op) (auto simp: memtable_edge_def core_of_def)
qed

definition degree_sum :: "degree_count \<Rightarrow> u64 \<Rightarrow> (u64 \<Rightarrow> edge_core option) \<Rightarrow> u64 set \<Rightarrow> i64" where
  "degree_sum f n E S = (\<Sum>rid \<in> S. contributes f n (E rid))"

lemma degree_sum_upd:
  assumes "finite S" and "rid \<in> S" and "\<And>x. E' x = (if x = rid then c else E x)"
  shows "degree_sum f n E' S = degree_sum f n E S + contributes f n c - contributes f n (E rid)"
proof -
  have "(\<Sum>x \<in> S - {rid}. contributes f n (E' x)) = (\<Sum>x \<in> S - {rid}. contributes f n (E x))"
    using assms(3) by (intro sum.cong) auto
  then show ?thesis
    using assms by (simp add: degree_sum_def sum.remove [OF assms(1,2)])
qed

lemma op_degrees:
  assumes "finite S" and S: "\<And>rid. edge_id_for_degree_op op = Some rid \<Longrightarrow> rid \<in> S"
    and seen: "\<And>rid. seen_edge e' rid = (if edge_id_for_degree_op op = Some rid then edge_core_after_op op else seen_edge e rid)"
    and old: "\<And>rid. edge_id_for_degree_op op = Some rid \<Longrightarrow> old = seen_edge e rid"
  shows "cnt f (shard_delta (collect_degree_delta_for_op op old m) n) =
    cnt f (shard_delta m n) + degree_sum f n (seen_edge e') S - degree_sum f n (seen_edge e) S"
proof (cases "edge_id_for_degree_op op")
  case None
  then show ?thesis using seen by (simp add: collect_op_none degree_sum_def)
next
  case (Some rid)
  then have "degree_sum f n (seen_edge e') S =
      degree_sum f n (seen_edge e) S + contributes f n (edge_core_after_op op) - contributes f n (seen_edge e rid)"
    using S by (intro degree_sum_upd [OF assms(1)]) (simp_all add: seen eq_commute)
  then show ?thesis using cnt_collect_op [OF Some] old [OF Some] by simp
qed

section \<open>A request\<close>

lemma label_step_overlay: "apply_label_token_op_after_wal_append e op = Inr e' \<Longrightarrow> ec_overlay e' = ec_overlay e"
  by (cases op) (auto simp: apply_label_token_op_after_wal_append_def r_bind_eq_Inr split: if_splits)

lemma apply_sequenced_overlay:
  "apply_sequenced pv entries states deltas e = Some (r, e') \<Longrightarrow> ec_overlay e' = ec_overlay e"
proof (induction pv entries states deltas e rule: apply_sequenced.induct)
  case (2 pv seq op rest states deltas e)
  then show ?case
    by (auto simp: Let_def bind_eq_Some_conv label_step_overlay split: sum.splits)
qed simp

lemma captured:
  assumes "r_fold (capture_edge_state find_core) s ops = Inr states" and "\<And>rid c. fmlookup s rid = Some c \<Longrightarrow> find_core rid = Inr c"
  shows "(\<forall>rid c. fmlookup s rid = Some c \<longrightarrow> fmlookup states rid = Some c) \<and>
    (\<forall>op \<in> set ops. \<forall>rid. edge_id_for_degree_op op = Some rid \<longrightarrow> fmlookup states rid \<noteq> None) \<and>
    (\<forall>rid c. fmlookup states rid = Some c \<longrightarrow> find_core rid = Inr c)"
  using assms
proof (induction ops arbitrary: s)
  case (Cons op ops)
  from Cons.prems(1) obtain s1 where s1: "capture_edge_state find_core s op = Inr s1"
    and rest: "r_fold (capture_edge_state find_core) s1 ops = Inr states" by (auto simp: r_bind_eq_Inr)
  have keep: "fmlookup s rid = Some c \<Longrightarrow> fmlookup s1 rid = Some c" for rid c
    using s1 by (auto simp: capture_edge_state_def r_bind_eq_Inr split: option.splits if_splits)
  have found: "edge_id_for_degree_op op = Some rid \<Longrightarrow> fmlookup s1 rid \<noteq> None" for rid
    using s1 by (auto simp: capture_edge_state_def r_bind_eq_Inr split: option.splits if_splits)
  have sound: "fmlookup s1 rid = Some c \<Longrightarrow> find_core rid = Inr c" for rid c
    using s1 Cons.prems(2) by (auto simp: capture_edge_state_def r_bind_eq_Inr split: option.splits if_splits)
  from Cons.IH [OF rest sound] keep found show ?case by fastforce
qed auto

lemma captured_seen:
  assumes "capture_batch_edge_states e ops = Inr states" and "op \<in> set ops" and "edge_id_for_degree_op op = Some rid"
  shows "fmlookup states rid = Some (seen_edge e rid)"
proof -
  from captured [OF assms(1) [unfolded capture_batch_edge_states_def]] assms(2,3) obtain c where
    "fmlookup states rid = Some c" "get_edge_core_for_cache e rid = Inr c" by fastforce
  then show ?thesis by (simp add: seen_edge_def)
qed

lemma sequenced_degrees:
  assumes "apply_sequenced pv (sequenced (ec_engine_seq e) ops) states deltas e = Some (Inr d, e')"
    and "unat (ec_engine_seq e) + length ops < 2 ^ 64" and "memtable_ok pv e" and "list_all op_ok ops"
    and "\<And>op rid. op \<in> set ops \<Longrightarrow> edge_id_for_degree_op op = Some rid \<Longrightarrow> fmlookup states rid = Some (seen_edge e rid)"
    and "finite S" and "{rid. memtable_edge e' rid \<noteq> None} \<subseteq> S"
  shows "memtable_ok pv e' \<and> (\<forall>rid. memtable_edge e rid \<noteq> None \<longrightarrow> memtable_edge e' rid \<noteq> None) \<and>
    cnt f (shard_delta d n) = cnt f (shard_delta deltas n) + degree_sum f n (seen_edge e') S - degree_sum f n (seen_edge e) S"
  using assms(1-5)
proof (induction ops arbitrary: e states deltas)
  case (Cons op ops)
  let ?q = "ec_engine_seq e + 1"
  have seq: "max (ec_engine_seq e) ?q = ?q" "unat ?q + length ops < 2 ^ 64"
    using next_seq Cons.prems(2) by simp_all
  from Cons.prems(1) obtain e1 st where
    lab: "apply_label_token_op_after_wal_append (e\<lparr>ec_engine_seq := ?q\<rparr>) op = Inr e1"
    and st: "apply_op pv (ec_memtable e1) op ?q = Some st"
    and rest: "apply_sequenced pv (sequenced ?q ops) (note_edge_state op states)
      (collect_degree_delta_for_op op (batch_old_edge states op) deltas) (e1\<lparr>ec_memtable := st\<rparr>) = Some (Inr d, e')"
    by (auto simp: sequenced_Cons Let_def bind_eq_Some_conv split: sum.splits)
  note l = label_step_replayed [OF lab]
  define e2 where "e2 = e1\<lparr>ec_memtable := st\<rparr>"
  have e2: "same_base e e2" "ec_memtable e2 = st" "ec_engine_seq e2 = ?q" using l(3,6) by (simp_all add: e2_def same_base_def)
  have "ec_engine_seq e \<le> ?q" using seq(1) by (metis max.cobounded1)
  note seen = op_seen [OF Cons.prems(3) this _ _ e2, of op]
  have op: "op_ok op" "apply_op pv (ec_memtable e) op ?q = Some st" using Cons.prems(4) st l(5) by simp_all
  have states: "fmlookup (note_edge_state op states) rid = Some (seen_edge e2 rid)"
    if "op' \<in> set ops" "edge_id_for_degree_op op' = Some rid" for op' rid
    using Cons.prems(5) [of op' rid] that seen(4) [OF op, of rid]
    by (auto simp: note_edge_state_def split: option.splits)
  have ih: "memtable_ok pv e' \<and> (\<forall>rid. memtable_edge e2 rid \<noteq> None \<longrightarrow> memtable_edge e' rid \<noteq> None) \<and>
    cnt f (shard_delta d n) = cnt f (shard_delta (collect_degree_delta_for_op op (batch_old_edge states op) deltas) n)
      + degree_sum f n (seen_edge e') S - degree_sum f n (seen_edge e2) S"
    using Cons.prems(4) rest seq(2) e2(3) seen(1) [OF op] states by (intro Cons.IH) (simp_all add: e2_def)
  have "cnt f (shard_delta (collect_degree_delta_for_op op (batch_old_edge states op) deltas) n) =
    cnt f (shard_delta deltas n) + degree_sum f n (seen_edge e2) S - degree_sum f n (seen_edge e) S"
  proof (rule op_degrees [OF assms(6)])
    show "rid \<in> S" if "edge_id_for_degree_op op = Some rid" for rid using that ih seen(3) [OF op] assms(7) by blast
    show "batch_old_edge states op = seen_edge e rid" if "edge_id_for_degree_op op = Some rid" for rid
      using that Cons.prems(5) [of op rid] by (simp add: batch_old_edge_def)
  qed (rule seen(4) [OF op])
  with ih seen(2) [OF op] show ?case by auto
qed simp

section \<open>Runs\<close>

definition degrees_ok :: "(prop_value \<Rightarrow> bytes) \<Rightarrow> engine_core \<Rightarrow> bool" where
  "degrees_ok pv e \<longleftrightarrow> memtable_ok pv e \<and> overlay_wf (ec_overlay e) \<and>
     (\<forall>f n S. finite S \<longrightarrow> {rid. memtable_edge e rid \<noteq> None} \<subseteq> S \<longrightarrow>
        cnt f (overlay_get (ec_overlay e) n) = degree_sum f n (seen_edge e) S - degree_sum f n (older_edge e) S)"

text \<open>Any engine with the same sources and overlay is as good.\<close>

lemma degrees_ok_keep:
  assumes "degrees_ok pv e" and "ec_memtable e' = ec_memtable e" and "ec_engine_seq e \<le> ec_engine_seq e'" and "same_base e e'"
    and "ec_overlay e' = ec_overlay e"
  shows "degrees_ok pv e'"
proof -
  have "seen_edge e' = seen_edge e" "older_edge e' = older_edge e" "memtable_edge e' = memtable_edge e"
    using assms by (simp_all add: fun_eq_iff seen_edge_def older_edge_def memtable_edge_def get_edge_core_for_cache_def same_base_def)
  moreover have "memtable_ok pv e'" using assms(1-3) by (auto simp: degrees_ok_def memtable_ok_def intro: order_trans)
  ultimately show ?thesis using assms(1,5) by (simp add: degrees_ok_def)
qed

lemma degrees_finish:
  assumes ok: "degrees_ok pv e" and base: "same_base e e1" and ov: "ec_overlay e1 = ec_overlay e" and ok1: "memtable_ok pv e1"
    and mono: "\<And>rid. memtable_edge e rid \<noteq> None \<Longrightarrow> memtable_edge e1 rid \<noteq> None"
    and deltas: "\<And>f n S. finite S \<Longrightarrow> {rid. memtable_edge e1 rid \<noteq> None} \<subseteq> S \<Longrightarrow>
      cnt f (shard_delta d n) = degree_sum f n (seen_edge e1) S - degree_sum f n (seen_edge e) S"
  shows "degrees_ok pv (finish_request owned d e1)"
proof -
  define e' where "e' = finish_request owned d e1"
  have same: "seen_edge e' = seen_edge e1" "older_edge e' = older_edge e" "memtable_edge e' = memtable_edge e1" "memtable_ok pv e'"
    "ec_overlay e' = apply_degree_deltas owned d (ec_overlay e)"
    using ok1 base ov by (simp_all add: e'_def finish_request_def update_engine_seq_seen_def fun_eq_iff seen_edge_def older_edge_def
        memtable_edge_def get_edge_core_for_cache_def same_base_def memtable_ok_def)
  have wf: "overlay_wf (ec_overlay e)" using ok by (simp add: degrees_ok_def)
  have "cnt f (overlay_get (ec_overlay e') n) = degree_sum f n (seen_edge e') S - degree_sum f n (older_edge e') S"
    if S: "finite S" "{rid. memtable_edge e' rid \<noteq> None} \<subseteq> S" for f n S
  proof -
    have "{rid. memtable_edge e rid \<noteq> None} \<subseteq> S" using S(2) mono same(3) by auto
    with ok S(1) have "cnt f (overlay_get (ec_overlay e) n) = degree_sum f n (seen_edge e) S - degree_sum f n (older_edge e) S"
      unfolding degrees_ok_def by blast
    with deltas [of S f n] S show ?thesis by (simp add: same overlay_apply(2) [OF wf])
  qed
  then show ?thesis using same wf by (simp add: degrees_ok_def overlay_apply(1) flip: e'_def)
qed

lemma one_degrees:
  assumes ok: "degrees_ok pv e" and commit: "append_and_apply_one_normalized pv crc tv owned io e op = Return (Some (Inr (), e'))"
    and op: "unat (ec_engine_seq e) + 1 < 2 ^ 64" "op_ok op"
  shows "degrees_ok pv e'"
proof -
  let ?q = "ec_engine_seq e + 1"
  from commit obtain old_edge wal e1 st where
    old: "(case edge_id_for_degree_op op of None \<Rightarrow> Inr None | Some rid \<Rightarrow> get_edge_core_for_cache e rid) = Inr old_edge"
    and lab: "apply_label_token_op_after_wal_append (e\<lparr>ec_wal := wal, ec_engine_seq := ?q\<rparr>) op = Inr e1"
    and st: "apply_op pv (ec_memtable e1) op ?q = Some st"
    and e': "e' = finish_request owned (collect_degree_delta_for_op op old_edge fmempty) (e1\<lparr>ec_memtable := st\<rparr>)"
    using one_committed [OF commit] by metis
  note l = label_step_replayed [OF lab]
  define e2 where "e2 = e1\<lparr>ec_memtable := st\<rparr>"
  have e2: "same_base e e2" "ec_memtable e2 = st" "ec_engine_seq e2 = ?q" using l(3,6) by (simp_all add: e2_def same_base_def)
  have "max (ec_engine_seq e) ?q = ?q" using next_seq [of _ 0] op(1) by simp
  then have le: "ec_engine_seq e \<le> ?q" by (metis max.cobounded1)
  have mem: "memtable_ok pv e" using ok by (simp add: degrees_ok_def)
  have st': "apply_op pv (ec_memtable e) op ?q = Some st" using st l(5) by simp
  note seen = op_seen [OF mem le op(2) st' e2]
  have ov: "ec_overlay e2 = ec_overlay e" using label_step_overlay [OF lab] by (simp add: e2_def)
  show ?thesis
    unfolding e' e2_def [symmetric]
  proof (rule degrees_finish [OF ok e2(1) ov seen(1,2)])
    fix f n and S :: "u64 set"
    assume S: "finite S" "{rid. memtable_edge e2 rid \<noteq> None} \<subseteq> S"
    have "cnt f (shard_delta (collect_degree_delta_for_op op old_edge fmempty) n) =
      cnt f (shard_delta fmempty n) + degree_sum f n (seen_edge e2) S - degree_sum f n (seen_edge e) S"
    proof (rule op_degrees [OF S(1)])
      show "rid \<in> S" if "edge_id_for_degree_op op = Some rid" for rid using that seen(3) S(2) by blast
      show "old_edge = seen_edge e rid" if "edge_id_for_degree_op op = Some rid" for rid
        using that old by (simp add: seen_edge_def)
    qed (rule seen(4))
    then show "cnt f (shard_delta (collect_degree_delta_for_op op old_edge fmempty) n) =
      degree_sum f n (seen_edge e2) S - degree_sum f n (seen_edge e) S" by simp
  qed
qed

lemma batch_degrees:
  assumes ok: "degrees_ok pv e" and commit: "append_and_apply_normalized pv crc tv owned io e ops = Return (Some (Inr (), e'))"
    and ops: "unat (ec_engine_seq e) + length ops < 2 ^ 64" "list_all op_ok ops"
  shows "degrees_ok pv e'"
proof -
  from commit obtain states wal d e1 where capt: "capture_batch_edge_states e ops = Inr states"
    and app: "apply_sequenced pv (sequenced (ec_engine_seq e) ops) states fmempty (e\<lparr>ec_wal := wal\<rparr>) = Some (Inr d, e1)"
    and e': "e' = finish_request owned d e1"
    by (rule batch_committed)
  define e0 where "e0 = e\<lparr>ec_wal := wal\<rparr>"
  have ok0: "degrees_ok pv e0" using ok degrees_ok_keep [of pv e e0] by (simp add: e0_def same_base_def)
  have app0: "apply_sequenced pv (sequenced (ec_engine_seq e0) ops) states fmempty e0 = Some (Inr d, e1)"
    using app by (simp add: e0_def)
  have states: "fmlookup states rid = Some (seen_edge e0 rid)" if "op \<in> set ops" "edge_id_for_degree_op op = Some rid" for op rid
    using captured_seen [OF capt that] by (simp add: e0_def seen_edge_def get_edge_core_for_cache_def)
  have mem: "memtable_ok pv e0" using ok0 by (simp add: degrees_ok_def)
  have len: "unat (ec_engine_seq e0) + length ops < 2 ^ 64" using ops(1) by (simp add: e0_def)
  have run: "memtable_ok pv e1 \<and> (\<forall>rid. memtable_edge e0 rid \<noteq> None \<longrightarrow> memtable_edge e1 rid \<noteq> None) \<and>
    cnt f (shard_delta d n) = cnt f (shard_delta fmempty n) + degree_sum f n (seen_edge e1) S - degree_sum f n (seen_edge e0) S"
    if "finite S" "{rid. memtable_edge e1 rid \<noteq> None} \<subseteq> S" for f n S
    by (rule sequenced_degrees [OF app0 len mem ops(2) states that])
  have base: "same_base e0 e1" using apply_sequenced_replayed [OF app0 len] by simp
  have ov: "ec_overlay e1 = ec_overlay e0" by (rule apply_sequenced_overlay [OF app0])
  have mem1: "memtable_ok pv e1" and mono: "memtable_edge e0 rid \<noteq> None \<Longrightarrow> memtable_edge e1 rid \<noteq> None" for rid
    using run [OF finite_memtable_edge order_refl] by blast+
  show ?thesis
    unfolding e'
  proof (rule degrees_finish [OF ok0 base ov mem1 mono])
    fix f n and S :: "u64 set"
    assume "finite S" and "{rid. memtable_edge e1 rid \<noteq> None} \<subseteq> S"
    from run [OF this, of f n] show "cnt f (shard_delta d n) = degree_sum f n (seen_edge e1) S - degree_sum f n (seen_edge e0) S"
      by simp
  qed
qed

lemma commit_degrees:
  assumes "degrees_ok pv e" and "commit_ops pv crc tv owned io e ops = Return (Some (Inr (), e'))"
    and "unat (ec_engine_seq e) + length ops < 2 ^ 64" and "list_all op_ok ops"
  shows "degrees_ok pv e'"
proof -
  consider "ops = []" | op where "ops = [op]" | a b r where "ops = a # b # r" by (metis list.exhaust)
  then show ?thesis
  proof cases
    case 2
    then have "append_and_apply_one_normalized pv crc tv owned io e op = Return (Some (Inr (), e'))"
      using assms(2) by (simp add: commit_ops_def)
    from one_degrees [OF assms(1) this] assms(3,4) 2 show ?thesis by simp
  next
    case 3
    with assms(2) have "append_and_apply_normalized pv crc tv owned io e ops = Return (Some (Inr (), e'))"
      by (simp add: commit_ops_def)
    from batch_degrees [OF assms(1) this assms(3,4)] show ?thesis .
  qed (use assms in \<open>simp add: commit_ops_def\<close>)
qed

lemma entry_op_ok: "entry_ok tv e \<Longrightarrow> op_ok (snd e)"
  by (cases "snd e") (simp_all add: entry_ok_def)

lemma step_degrees:
  assumes "engine_step pv crc tv owned dc e e'" and "degrees_ok pv e"
  shows "degrees_ok pv e'"
  using assms(1)
proof cases
  case (accepted request ops io)
  have "list_all (\<lambda>x. op_ok (snd x)) (sequenced (ec_engine_seq e) ops)"
    using accepted(4) entry_op_ok by (fastforce simp: list_all_iff)
  then have "list_all op_ok ops" by (simp add: sequenced_all)
  with commit_degrees [OF assms(2) accepted(2,3)] show ?thesis .
next
  case (rejected io ops err)
  then have "e' = e" by (rule commit_rejected)
  then show ?thesis using assms(2) by simp
next
  case (blocked io ops)
  with commit_waits [OF blocked] assms(2) degrees_ok_keep [of pv e e'] show ?thesis by simp
next
  case (sync_round soft hard s io s' stop)
  with assms(2) degrees_ok_keep [of pv e e'] show ?thesis by (simp add: same_base_def)
next
  case (forced_sync soft hard s io r s')
  with assms(2) degrees_ok_keep [of pv e e'] show ?thesis by (simp add: same_base_def)
qed

lemma memtable_new_reach: "ec_memtable e = memtable_new \<Longrightarrow> memtable_ok pv e"
  unfolding memtable_ok_def using memtable_reach.new [of pv] by (intro exI [of _ 0]) simp

lemma degrees_start:
  assumes "ec_memtable e = memtable_new" and "ec_overlay e = overlay_empty"
  shows "degrees_ok pv e"
proof -
  have mem: "memtable_ok pv e" using assms(1) by (rule memtable_new_reach)
  have "memtable_edge e rid = None" for rid using assms(1) by (simp add: memtable_edge_def store_empty_def)
  then have "seen_edge e = older_edge e" using seen_edge_cases [OF mem] by (simp add: fun_eq_iff)
  then show ?thesis using mem assms(2) by (simp add: degrees_ok_def overlay_empty_wf)
qed

text \<open>
  The degree cache also survives the failed requests that a history leaves out, as long as they
  applied nothing: a synchronisation that fails after the append, or a label check that fails before
  the first write to the memtable. What remains outside is a batch whose label check fails after
  some of its operations were applied, \<open>failed_batch_drops_degrees\<close> below.
\<close>

inductive serving_step ::
    "(prop_value \<Rightarrow> bytes) \<Rightarrow> (bytes \<Rightarrow> u32) \<Rightarrow> to_vec \<Rightarrow> (nat \<Rightarrow> nat \<Rightarrow> bool) \<Rightarrow> dense_vector_config option
       \<Rightarrow> engine_core \<Rightarrow> engine_core \<Rightarrow> bool" for pv crc tv owned dc where
  logged_step: "engine_step pv crc tv owned dc e e' \<Longrightarrow> serving_step pv crc tv owned dc e e'"
| refused: "commit_ops pv crc tv owned io e ops = Return (Some (Inl err, e')) \<Longrightarrow>
    unat (ec_engine_seq e) + length ops < 2 ^ 64 \<Longrightarrow> ec_memtable e' = ec_memtable e \<Longrightarrow> serving_step pv crc tv owned dc e e'"

inductive serving_run ::
    "(prop_value \<Rightarrow> bytes) \<Rightarrow> (bytes \<Rightarrow> u32) \<Rightarrow> to_vec \<Rightarrow> (nat \<Rightarrow> nat \<Rightarrow> bool) \<Rightarrow> dense_vector_config option
       \<Rightarrow> engine_core list \<Rightarrow> bool" for pv crc tv owned dc where
  serving_start: "ec_memtable e = memtable_new \<Longrightarrow> ec_overlay e = overlay_empty \<Longrightarrow> serving_run pv crc tv owned dc [e]"
| serving_more: "serving_run pv crc tv owned dc es \<Longrightarrow> serving_step pv crc tv owned dc (last es) e \<Longrightarrow>
    serving_run pv crc tv owned dc (es @ [e])"

lemma apply_sequenced_keeps:
  assumes "apply_sequenced pv (sequenced (ec_engine_seq e) ops) states d e = Some (r, e')" and "unat (ec_engine_seq e) + length ops < 2 ^ 64"
  shows "same_base e e' \<and> ec_engine_seq e \<le> ec_engine_seq e'"
  using assms
proof (induction ops arbitrary: states d e)
  case Nil
  then show ?case by (simp add: sequenced_def)
next
  case (Cons op ops)
  let ?q = "ec_engine_seq e + 1"
  from Cons.prems(2) have room: "ec_engine_seq e \<le> ?q" "unat ?q + length ops < 2 ^ 64"
    using next_seq [of "ec_engine_seq e" "length ops"] by (simp_all, metis max.cobounded1)
  show ?case
  proof (cases "apply_label_token_op_after_wal_append (e\<lparr>ec_engine_seq := ?q\<rparr>) op")
    case (Inl err)
    then show ?thesis using Cons.prems(1) room(1) by (auto simp: sequenced_Cons Let_def same_base_def)
  next
    case (Inr e1)
    note l = label_step_replayed [OF Inr]
    from Cons.prems(1) Inr obtain st where
      rest: "apply_sequenced pv (sequenced ?q ops) (note_edge_state op states)
        (collect_degree_delta_for_op op (batch_old_edge states op) d) (e1\<lparr>ec_memtable := st\<rparr>) = Some (r, e')"
      by (auto simp: sequenced_Cons Let_def bind_eq_Some_conv)
    have q: "ec_engine_seq (e1\<lparr>ec_memtable := st\<rparr>) = ?q" using l(6) by simp
    have "same_base (e1\<lparr>ec_memtable := st\<rparr>) e' \<and> ec_engine_seq (e1\<lparr>ec_memtable := st\<rparr>) \<le> ec_engine_seq e'"
      by (rule Cons.IH) (use rest room(2) in \<open>simp_all only: q\<close>)
    then show ?thesis using l(3) room(1) by (auto simp: q same_base_def intro: order_trans)
  qed
qed

lemma refused_keeps:
  assumes "commit_ops pv crc tv owned io e ops = Return (Some (Inl err, e'))" and "unat (ec_engine_seq e) + length ops < 2 ^ 64"
  shows "same_base e e' \<and> ec_engine_seq e \<le> ec_engine_seq e' \<and> ec_overlay e' = ec_overlay e"
proof -
  consider "ops = []" | op where "ops = [op]" | a b r where "ops = a # b # r" by (metis list.exhaust)
  then show ?thesis
  proof cases
    case 2
    have "ec_engine_seq e \<le> ec_engine_seq e + 1"
      using assms(2) 2 next_seq [of "ec_engine_seq e" 0] by (simp, metis max.cobounded1)
    moreover from assms(1) 2 have "append_and_apply_one_normalized pv crc tv owned io e op = Return (Some (Inl err, e'))"
      by (simp add: commit_ops_def)
    ultimately show ?thesis
      by (auto simp: append_and_apply_one_normalized_def Let_def logged_then_def same_base_def
          split: sum.splits attempt.splits prod.splits option.splits)
  next
    case 3
    from assms(1) 3 have "append_and_apply_normalized pv crc tv owned io e ops = Return (Some (Inl err, e'))"
      by (simp add: commit_ops_def)
    then have "e' = e \<or> (\<exists>wal. e' = e\<lparr>ec_wal := wal\<rparr>) \<or> (\<exists>wal states r.
        apply_sequenced pv (sequenced (ec_engine_seq e) ops) states fmempty (e\<lparr>ec_wal := wal\<rparr>) = Some (r, e'))"
      by (auto simp: append_and_apply_normalized_def Let_def logged_then_def split: sum.splits attempt.splits prod.splits) (metis sum.exhaust)
    moreover have "same_base e e' \<and> ec_engine_seq e \<le> ec_engine_seq e' \<and> ec_overlay e' = ec_overlay e"
      if "apply_sequenced pv (sequenced (ec_engine_seq e) ops) states fmempty (e\<lparr>ec_wal := wal\<rparr>) = Some (r, e')" for wal states r
      using apply_sequenced_keeps [of pv "e\<lparr>ec_wal := wal\<rparr>" ops states fmempty r e'] apply_sequenced_overlay [OF that] that assms(2)
      by (simp add: same_base_def)
    ultimately show ?thesis by (auto simp: same_base_def)
  qed (use assms in \<open>simp add: commit_ops_def\<close>)
qed

lemma serving_degrees:
  assumes "serving_step pv crc tv owned dc e e'" and "degrees_ok pv e"
  shows "degrees_ok pv e'"
  using assms(1)
proof cases
  case logged_step
  then show ?thesis using assms(2) by (rule step_degrees)
next
  case (refused io ops err)
  from refused_keeps [OF refused(1,2)] refused(3) assms(2) show ?thesis by (auto intro: degrees_ok_keep)
qed

lemma run_degrees:
  assumes "serving_run pv crc tv owned dc es"
  shows "es \<noteq> [] \<and> degrees_ok pv (last es)"
  using assms
  by (induction rule: serving_run.induct) (auto intro: degrees_start serving_degrees)

text \<open>
  C5. The degree cache counts the edges. Start from a fresh memtable and an empty overlay and let the
  engine run: accepted requests, requests refused at any point before they wrote to the memtable
  (also after their record was logged, when the synchronisation or the first label check fails),
  writers put to sleep, rounds of the sync thread and forced synchronisations. For every node and each
  of the four counts (outgoing, incoming, self loops, temporal edges), the overlay holds the sum
  over the edges the engine now sees minus the sum over the edges of the frozen memtables and
  segments, taken over any finite set of edge ids that includes those the memtable knows. The
  counts are 64-bit integers and may wrap. A batch whose label check fails after some of its
  operations were applied is not covered: it loses their counts.
\<close>

theorem degree_overlay_counts_edges:
  assumes "serving_run pv crc tv owned dc es"
    and "finite S" and "{rid. memtable_edge (last es) rid \<noteq> None} \<subseteq> S"
  shows "cnt f (overlay_get (ec_overlay (last es)) n) =
    degree_sum f n (seen_edge (last es)) S - degree_sum f n (older_edge (last es)) S"
  using run_degrees [OF assms(1)] assms(2,3) unfolding degrees_ok_def by blast

text \<open>An engine that knows one edge label and writes one edge from node 3 to node 4.\<close>

definition edge_engine :: engine_core where
  "edge_engine = example_engine\<lparr>ec_catalog := (ec_catalog example_engine)\<lparr>edge_space :=
     \<lparr>label_to_id = fmupd [69] 1 fmempty, id_to_label = fmupd 1 [69] fmempty, label_wal_generation = fmempty, next_label_id = 2\<rparr>\<rparr>\<rparr>"

definition sample_edge :: edge_record where
  "sample_edge = \<lparr>e_id = 1, e_from = 3, e_to = 4, e_label_id = 1, e_props = [], e_created_at = 0, e_updated_at = 0, e_weight = 0,
     e_valid_from = 0, e_valid_to = 0x7FFFFFFFFFFFFFFF, e_last_write_seq = 0\<rparr>"

lemma sample_encoded: "encode_wal_op_into empty_map_to_vec (UpsertEdge sample_edge) [] = Inr (enc_edge [0x80] sample_edge)"
  by (simp add: encode_wal_op_into_def encode_upsert_edge_eq sample_edge_def empty_map_to_vec_def MAX_BYTES_LEN_def)

lemma sample_entry_ok: "entry_ok empty_map_to_vec (1, UpsertEdge sample_edge)"
  by (simp add: entry_ok_def sample_encoded) (simp add: sample_edge_def props_wf_def btree_wf_def enc_edge_def enc_bytes_def MAX_WAL_RECORD_SIZE_def)

lemma sample_commit:
  obtains e where "commit_ops (\<lambda>_. []) (\<lambda>_. 0) empty_map_to_vec (\<lambda>_ _. False) (Inr ()) edge_engine [UpsertEdge sample_edge] =
      Return (Some (Inr (), e))"
    and "seen_edge e 1 = Some (core_of sample_edge)" and "{rid. memtable_edge e rid \<noteq> None} = {1}"
    and "ec_epochs e = []" and "ec_segments e = []"
proof -
  have "get_edge_core_at memtable_new 1 U64_MAX = None" and "\<not> is_edge_deleted_at memtable_new 1 U64_MAX"
    by (simp_all add: get_edge_core_at_def edge_at_def is_edge_deleted_at_def edge_deleted_at_def memtable_new_def)
  then have old: "get_edge_core_for_cache edge_engine 1 = Inr None"
    by (simp add: get_edge_core_for_cache_def get_edge_core_from_sources_def memtable_edge_core_def edge_engine_def example_engine_def)
  obtain w where wal: "wal_append (Inr ()) (\<lambda>w. append (\<lambda>_. 0) empty_map_to_vec w (UpsertEdge sample_edge) 1) (ec_wal edge_engine) =
      Return (Inr (), w)"
    by (simp add: wal_append_def edge_engine_def example_engine_def append_def sample_encoded writer_sync_def)
  have lab: "apply_label_token_op_after_wal_append (edge_engine\<lparr>ec_wal := w, ec_engine_seq := 1\<rparr>) (UpsertEdge sample_edge) =
      Inr (edge_engine\<lparr>ec_wal := w, ec_engine_seq := 1\<rparr>)"
    by (simp add: apply_label_token_op_after_wal_append_def edge_engine_def sample_edge_def)
  have wf: "op_wf (UpsertEdge sample_edge)" using sample_entry_ok by (simp add: entry_ok_def)
  obtain st where st: "apply_op (\<lambda>_. []) memtable_new (UpsertEdge sample_edge) 1 = Some st"
    using session_op_total [OF memtable_session.new _ wf, of 1 "\<lambda>_. []"] by auto
  define e1 where "e1 = edge_engine\<lparr>ec_wal := w, ec_engine_seq := 1, ec_memtable := st\<rparr>"
  define e where "e = finish_request (\<lambda>_ _. False) (collect_degree_delta_for_op (UpsertEdge sample_edge) None fmempty) e1"
  have new: "ec_memtable edge_engine = memtable_new" "ec_engine_seq edge_engine = 0" "ec_epochs edge_engine = []" "ec_segments edge_engine = []"
    by (simp_all add: edge_engine_def example_engine_def)
  have edge_id: "e_id sample_edge = 1" by (simp add: sample_edge_def)
  have "commit_ops (\<lambda>_. []) (\<lambda>_. 0) empty_map_to_vec (\<lambda>_ _. False) (Inr ()) edge_engine [UpsertEdge sample_edge] = Return (Some (Inr (), e))"
    using old wal lab st new
    by (simp add: commit_ops_def append_and_apply_one_normalized_def Let_def edge_id logged_then_def e_def e1_def)
  moreover have "seen_edge e 1 = Some (core_of sample_edge)"
    using op_seen(4) [where pv = "\<lambda>_. []" and e = edge_engine and x = 1 and op = "UpsertEdge sample_edge" and st = st and e' = e1 and rid = 1]
      memtable_new_reach [OF new(1)] st new edge_id
    by (simp add: e_def e1_def same_base_def seen_edge_def get_edge_core_for_cache_def finish_request_def update_engine_seq_seen_def)
  moreover have "{rid. memtable_edge e rid \<noteq> None} = {1}"
  proof -
    have "store_step (\<lambda>_. []) (view memtable_new U64_MAX) (UpsertEdge sample_edge) 1 = Some (view st U64_MAX)"
      by (rule store_step_reach [OF memtable_reach.new _ _ st]) simp_all
    from store_step_edges [OF this] show ?thesis
      by (auto simp: memtable_edge_def e_def e1_def finish_request_def update_engine_seq_seen_def edge_id store_empty_def)
  qed
  moreover have "ec_epochs e = []" "ec_segments e = []"
    using new by (simp_all add: e_def e1_def finish_request_def update_engine_seq_seen_def)
  ultimately show ?thesis by (rule that)
qed

theorem degree_overlay_counts_edges_witness:
  "\<exists>e. commit_ops (\<lambda>_. []) (\<lambda>_. 0) empty_map_to_vec (\<lambda>_ _. False) (Inr ()) edge_engine [UpsertEdge sample_edge] = Return (Some (Inr (), e)) \<and>
     cnt OutDegree (overlay_get (ec_overlay e) 3) = 1"
proof -
  obtain e where commit: "commit_ops (\<lambda>_. []) (\<lambda>_. 0) empty_map_to_vec (\<lambda>_ _. False) (Inr ()) edge_engine [UpsertEdge sample_edge] =
      Return (Some (Inr (), e))"
    and seen: "seen_edge e 1 = Some (core_of sample_edge)" and ids: "{rid. memtable_edge e rid \<noteq> None} = {1}"
    and base: "ec_epochs e = []" "ec_segments e = []" by (rule sample_commit)
  have start: "serving_run (\<lambda>_. []) (\<lambda>_. 0) empty_map_to_vec (\<lambda>_ _. False) None [edge_engine]"
    by (rule serving_run.serving_start) (simp_all add: edge_engine_def example_engine_def)
  have "r_map (normalize_wal_op_for_write None) [UpsertEdge sample_edge] = Inr [UpsertEdge sample_edge]"
    by (simp add: normalize_wal_op_for_write_def)
  from this commit have "engine_step (\<lambda>_. []) (\<lambda>_. 0) empty_map_to_vec (\<lambda>_ _. False) None edge_engine e"
    by (rule engine_step.accepted) (use sample_entry_ok in \<open>simp_all add: edge_engine_def example_engine_def sequenced_Cons\<close>)
  then have run: "serving_run (\<lambda>_. []) (\<lambda>_. 0) empty_map_to_vec (\<lambda>_ _. False) None [edge_engine, e]"
    using serving_run.serving_more [OF start] serving_step.logged_step by simp
  have "cnt OutDegree (overlay_get (ec_overlay (last [edge_engine, e])) 3) =
      degree_sum OutDegree 3 (seen_edge (last [edge_engine, e])) {1} - degree_sum OutDegree 3 (older_edge (last [edge_engine, e])) {1}"
    by (rule degree_overlay_counts_edges [OF run]) (use ids in simp_all)
  also have "\<dots> = 1"
    using seen base by (simp add: degree_sum_def contributes_def contribution_def Let_def older_edge_def core_of_def sample_edge_def
        is_edge_valid_at_def)
  finally show ?thesis using commit by auto
qed

text \<open>
  What the property leaves out does happen in the code: a batch that writes an edge and then fails the
  label check of its second edge leaves the first edge in the memtable and no count in the overlay.
\<close>

definition unlabelled_edge :: edge_record where
  "unlabelled_edge = sample_edge\<lparr>e_id := 2, e_label_id := 9\<rparr>"

lemma unlabelled_encoded:
  "encode_wal_op_into empty_map_to_vec (UpsertEdge unlabelled_edge) [] = Inr (enc_edge [0x80] unlabelled_edge)"
  by (simp add: encode_wal_op_into_def encode_upsert_edge_eq unlabelled_edge_def sample_edge_def empty_map_to_vec_def MAX_BYTES_LEN_def)

lemma failed_batch_drops_degrees:
  "\<exists>err e. commit_ops (\<lambda>_. []) (\<lambda>_. 0) empty_map_to_vec (\<lambda>_ _. False) (Inr ()) edge_engine
      [UpsertEdge sample_edge, UpsertEdge unlabelled_edge] = Return (Some (Inl err, e)) \<and>
    seen_edge e 1 = Some (core_of sample_edge) \<and> ec_overlay e = overlay_empty"
proof -
  let ?ops = "[UpsertEdge sample_edge, UpsertEdge unlabelled_edge]"
  have ids: "e_id sample_edge = 1" "e_id unlabelled_edge = 2" by (simp_all add: sample_edge_def unlabelled_edge_def)
  have "get_edge_core_at memtable_new i U64_MAX = None" and "\<not> is_edge_deleted_at memtable_new i U64_MAX" for i
    by (simp_all add: get_edge_core_at_def edge_at_def is_edge_deleted_at_def edge_deleted_at_def memtable_new_def)
  then have old: "get_edge_core_for_cache edge_engine i = Inr None" for i
    by (simp add: get_edge_core_for_cache_def get_edge_core_from_sources_def memtable_edge_core_def edge_engine_def example_engine_def)
  have new: "ec_memtable edge_engine = memtable_new" "ec_engine_seq edge_engine = 0" "ec_wal edge_engine = Immediate fresh_writer"
    "ec_overlay edge_engine = overlay_empty"
    by (simp_all add: edge_engine_def example_engine_def)
  obtain states where capt: "capture_batch_edge_states edge_engine ?ops = Inr states"
    using old by (simp add: capture_batch_edge_states_def capture_edge_state_def ids)
  have entries: "sequenced (ec_engine_seq edge_engine) ?ops = [(1, UpsertEdge sample_edge), (2, UpsertEdge unlabelled_edge)]"
    by (simp add: new sequenced_Cons)
  obtain bs where "encode_batch (\<lambda>_. 0) empty_map_to_vec [(1, UpsertEdge sample_edge), (2, UpsertEdge unlabelled_edge)] = Inr bs"
    by (simp add: encode_batch_def Let_def check_batch_seq_def checked_add_u64_def encode_frame_into_def sample_encoded unlabelled_encoded
        encode_wal_op_into_def [of _ "BeginAtomicBatch _ _"] encode_wal_op_into_def [of _ "CommitAtomicBatch _ _"])
  then obtain w where wal: "wal_append (Inr ()) (\<lambda>w. append_batch (\<lambda>_. 0) empty_map_to_vec w
      [(1, UpsertEdge sample_edge), (2, UpsertEdge unlabelled_edge)]) (ec_wal edge_engine) = Return (Inr (), w)"
    by (simp add: wal_append_def new append_batch_def writer_sync_def)
  let ?e = "edge_engine\<lparr>ec_wal := w\<rparr>"
  have wf: "op_wf (UpsertEdge sample_edge)" using sample_entry_ok by (simp add: entry_ok_def)
  obtain st where st: "apply_op (\<lambda>_. []) memtable_new (UpsertEdge sample_edge) 1 = Some st"
    using session_op_total [OF memtable_session.new _ wf, of 1 "\<lambda>_. []"] by auto
  define e1 where "e1 = edge_engine\<lparr>ec_wal := w, ec_engine_seq := 1, ec_memtable := st\<rparr>"
  have lab: "apply_label_token_op_after_wal_append (?e\<lparr>ec_engine_seq := 1\<rparr>) (UpsertEdge sample_edge) = Inr (?e\<lparr>ec_engine_seq := 1\<rparr>)"
    by (simp add: apply_label_token_op_after_wal_append_def edge_engine_def sample_edge_def)
  obtain err where bad: "apply_label_token_op_after_wal_append (e1\<lparr>ec_engine_seq := 2\<rparr>) (UpsertEdge unlabelled_edge) = Inl err"
    by (simp add: apply_label_token_op_after_wal_append_def e1_def edge_engine_def unlabelled_edge_def)
  have "apply_sequenced (\<lambda>_. []) [(1, UpsertEdge sample_edge), (2, UpsertEdge unlabelled_edge)] states fmempty ?e =
      Some (Inl err, e1\<lparr>ec_engine_seq := 2\<rparr>)"
    using lab st bad by (simp add: Let_def new e1_def)
  then have "commit_ops (\<lambda>_. []) (\<lambda>_. 0) empty_map_to_vec (\<lambda>_ _. False) (Inr ()) edge_engine ?ops =
      Return (Some (Inl err, e1\<lparr>ec_engine_seq := 2\<rparr>))"
    using capt wal by (simp add: commit_ops_def append_and_apply_normalized_def Let_def entries logged_then_def)
  moreover have "seen_edge (e1\<lparr>ec_engine_seq := 2\<rparr>) 1 = Some (core_of sample_edge)"
    using op_seen(4) [where pv = "\<lambda>_. []" and e = edge_engine and x = 1 and op = "UpsertEdge sample_edge" and st = st and e' = e1 and rid = 1]
      memtable_new_reach [OF new(1)] st new ids
    by (simp add: e1_def same_base_def seen_edge_def get_edge_core_for_cache_def)
  moreover have "ec_overlay (e1\<lparr>ec_engine_seq := 2\<rparr>) = overlay_empty" by (simp add: e1_def new)
  ultimately show ?thesis by blast
qed

end
