(* ===== verification/Byte_Layout.thy ===== *)
theory Byte_Layout
  imports Graph_Types
begin

text \<open>
  Files as byte lists: ranges of a file, and where the fields of a file made of a prefix, a table of
  entries and a rest are found. The segment and sidecar readers of the development share these facts.
\<close>

section \<open>Ranges\<close>

text \<open>\<^verbatim>\<open>slice::get\<close> on a range.\<close>

definition get_range :: "bytes \<Rightarrow> nat \<Rightarrow> nat \<Rightarrow> bytes option" where
  "get_range data a b = (if a \<le> b \<and> b \<le> length data then Some (take (b - a) (drop a data)) else None)"

lemma get_range_at:
  assumes "data = pre @ mid @ post" and "a = length pre" and "b = length pre + length mid"
  shows "get_range data a b = Some mid"
  using assms by (simp add: get_range_def)

section \<open>Tables of entries\<close>

lemma concat_map_split:
  assumes "i < length xs"
  shows "concat (map f xs) = concat (map f (take i xs)) @ f (xs ! i) @ concat (map f (drop (Suc i) xs))"
  by (subst id_take_nth_drop [OF assms]) simp

lemma length_concat_map: "(\<And>x. length (f x) = k) \<Longrightarrow> length (concat (map f xs)) = length xs * k"
  by (induction xs) simp_all

lemma get_range_field:
  assumes f: "\<And>x. length (f x) = k" and "i < length xs" and "f (xs ! i) = l @ mid @ r"
  shows "get_range (pre @ concat (map f xs) @ post) (length pre + i * k + length l) (length pre + i * k + length l + length mid) = Some mid"
proof (rule get_range_at)
  show "pre @ concat (map f xs) @ post =
      (pre @ concat (map f (take i xs)) @ l) @ mid @ (r @ concat (map f (drop (Suc i) xs)) @ post)"
    by (subst concat_map_split [OF assms(2)]) (simp add: assms(3))
  show "length pre + i * k + length l = length (pre @ concat (map f (take i xs)) @ l)"
    using assms(2) by (simp add: length_concat_map [OF f])
qed (use assms(2) in \<open>simp add: length_concat_map [OF f]\<close>)

text \<open>Entries of varying length: an entry starts where those before it end.\<close>

definition starts :: "nat \<Rightarrow> ('a \<Rightarrow> bytes) \<Rightarrow> 'a list \<Rightarrow> nat \<Rightarrow> nat" where
  "starts base f xs i = base + length (concat (map f (take i xs)))"

lemma starts_0 [simp]: "starts base f xs 0 = base"
  by (simp add: starts_def)

lemma starts_Suc: "i < length xs \<Longrightarrow> starts base f xs (Suc i) = starts base f xs i + length (f (xs ! i))"
  by (simp add: starts_def take_Suc_conv_app_nth)

lemma get_range_record:
  assumes "i < length xs" and "f (xs ! i) = l @ mid @ r" and "base = length pre"
  shows "get_range (pre @ concat (map f xs)) (starts base f xs i + length l) (starts base f xs i + length l + length mid) = Some mid"
proof (rule get_range_at)
  show "pre @ concat (map f xs) =
      (pre @ concat (map f (take i xs)) @ l) @ mid @ (r @ concat (map f (drop (Suc i) xs)))"
    by (subst concat_map_split [OF assms(1)]) (simp add: assms(2))
qed (simp_all add: starts_def assms(3))

end
