(* ===== verification/Degree_Sidecar.thy ===== *)
theory Degree_Sidecar
  imports Degree Byte_Layout "HOL-Library.Product_Lexorder"
begin

text \<open>
  The degree sidecar file of a segment, \<^verbatim>\<open>src/src/degree_cache.rs\<close>: its layout, its validation, the
  block-indexed binary search of a lookup, and the k-way merge that folds the sidecars of compacted
  segments into one. A payload is a list of bytes; an access outside it is a panic, \<open>None\<close>. The
  checksum is a parameter. The identity header in front of the payload is not part of this theory.
\<close>

section \<open>Layout\<close>

definition DEGREE_DELTA_MAGIC :: bytes where
  "DEGREE_DELTA_MAGIC = str ''OGDDLT01''"

definition DEGREE_DELTA_FORMAT_VERSION :: u32 where
  "DEGREE_DELTA_FORMAT_VERSION = 1"

definition DEGREE_DELTA_BLOCK_SIZE :: u32 where
  "DEGREE_DELTA_BLOCK_SIZE = 256"

definition HEADER_SIZE :: nat where "HEADER_SIZE = 32"
definition BLOCK_INDEX_ENTRY_SIZE :: nat where "BLOCK_INDEX_ENTRY_SIZE = 16"
definition DELTA_ENTRY_SIZE :: nat where "DELTA_ENTRY_SIZE = 64"
definition CRC_SIZE :: nat where "CRC_SIZE = 4"

abbreviation block_size :: nat where
  "block_size \<equiv> unat DEGREE_DELTA_BLOCK_SIZE"

type_synonym degree_entries = "(u64 \<times> degree_delta) list"

definition block_count_of :: "nat \<Rightarrow> nat" where
  "block_count_of entry_count = (if entry_count = 0 then 0 else (entry_count + block_size - 1) div block_size)"

definition encode_header :: "nat \<Rightarrow> nat \<Rightarrow> bytes" where
  "encode_header entry_count block_count =
     DEGREE_DELTA_MAGIC @ to_le_bytes DEGREE_DELTA_FORMAT_VERSION @ to_le_bytes DEGREE_DELTA_BLOCK_SIZE @
     to_le_bytes (of_nat entry_count :: u64) @ to_le_bytes (of_nat block_count :: u64)"

definition encode_index_entry :: "u64 \<times> nat \<Rightarrow> bytes" where
  "encode_index_entry e = to_le_bytes (fst e) @ to_le_bytes (of_nat (snd e) :: u64)"

definition encode_degree_entry :: "u64 \<times> degree_delta \<Rightarrow> bytes" where
  "encode_degree_entry e = (case e of (node_id, delta) \<Rightarrow>
     to_le_bytes node_id @ to_le_bytes (dd_out_degree delta) @ to_le_bytes (dd_in_degree delta) @
     to_le_bytes (dd_out_weight_sum delta) @ to_le_bytes (dd_in_weight_sum delta) @
     to_le_bytes (dd_self_loop_count delta) @ to_le_bytes (dd_self_loop_weight_sum delta) @
     to_le_bytes (dd_temporal_edge_count delta))"

definition encode_sorted_degree_delta_sidecar_unchecked :: "(bytes \<Rightarrow> u32) \<Rightarrow> degree_entries \<Rightarrow> bytes" where
  "encode_sorted_degree_delta_sidecar_unchecked crc entries =
     (let block_count = block_count_of (length entries);
          bs = encode_header (length entries) block_count @
            concat (map (\<lambda>b. encode_index_entry (fst (entries ! (b * block_size)), b * block_size)) [0 ..< block_count]) @
            concat (map encode_degree_entry entries)
      in bs @ to_le_bytes (crc bs))"

text \<open>The check before writing.\<close>

fun check_sorted_from :: "u64 option \<Rightarrow> degree_entries \<Rightarrow> engine_error + unit" where
  "check_sorted_from previous [] = Inr ()"
| "check_sorted_from previous ((node_id, delta) # entries) =
     (if is_zero delta then Inl (InvalidOperation ''sorted degree sidecar entries must not include zero deltas'')
      else if (case previous of Some p \<Rightarrow> p \<ge> node_id | None \<Rightarrow> False)
      then Inl (InvalidOperation ''sorted degree sidecar entries must be strictly ordered by node id'')
      else check_sorted_from (Some node_id) entries)"

definition validate_sorted_degree_delta_entries :: "degree_entries \<Rightarrow> engine_error + unit" where
  "validate_sorted_degree_delta_entries entries = check_sorted_from None entries"

definition write_sorted_degree_delta_sidecar_payload :: "(bytes \<Rightarrow> u32) \<Rightarrow> degree_entries \<Rightarrow> engine_error + bytes" where
  "write_sorted_degree_delta_sidecar_payload crc entries =
     r_bind (validate_sorted_degree_delta_entries entries) (\<lambda>_. Inr (encode_sorted_degree_delta_sidecar_unchecked crc entries))"

section \<open>Reading\<close>

definition read_u32_at :: "bytes \<Rightarrow> nat \<Rightarrow> engine_error + u32" where
  "read_u32_at data offset =
     (if offset + 4 \<ge> 2 ^ 64 then Inl (CorruptRecord ''degree sidecar u32 offset overflow'')
      else case get_range data offset (offset + 4) of
        None \<Rightarrow> Inl (CorruptRecord ''degree sidecar u32 read exceeds length'') | Some bs \<Rightarrow> Inr (from_le_bytes bs))"

definition read_u64_at :: "bytes \<Rightarrow> nat \<Rightarrow> engine_error + u64" where
  "read_u64_at data offset =
     (if offset + 8 \<ge> 2 ^ 64 then Inl (CorruptRecord ''degree sidecar u64 offset overflow'')
      else case get_range data offset (offset + 8) of
        None \<Rightarrow> Inl (CorruptRecord ''degree sidecar u64 read exceeds length'') | Some bs \<Rightarrow> Inr (from_le_bytes bs))"

definition sidecar_entry_offset :: "nat \<Rightarrow> nat \<Rightarrow> nat" where
  "sidecar_entry_offset block_count index =
     HEADER_SIZE + block_count * BLOCK_INDEX_ENTRY_SIZE + index * DELTA_ENTRY_SIZE"

definition read_word :: "bytes \<Rightarrow> nat \<Rightarrow> u64 option" where
  "read_word data offset = map_option from_le_bytes (get_range data offset (offset + 8))"

definition read_sidecar_entry_node_id :: "bytes \<Rightarrow> nat \<Rightarrow> nat \<Rightarrow> u64 option" where
  "read_sidecar_entry_node_id data block_count index = read_word data (sidecar_entry_offset block_count index)"

definition read_sidecar_entry_delta :: "bytes \<Rightarrow> nat \<Rightarrow> nat \<Rightarrow> degree_delta option" where
  "read_sidecar_entry_delta data block_count index =
     (let offset = sidecar_entry_offset block_count index in
      Option.bind (read_word data (offset + 8)) (\<lambda>out_degree.
      Option.bind (read_word data (offset + 16)) (\<lambda>in_degree.
      Option.bind (read_word data (offset + 24)) (\<lambda>out_weight_sum.
      Option.bind (read_word data (offset + 32)) (\<lambda>in_weight_sum.
      Option.bind (read_word data (offset + 40)) (\<lambda>self_loop_count.
      Option.bind (read_word data (offset + 48)) (\<lambda>self_loop_weight_sum.
      Option.bind (read_word data (offset + 56)) (\<lambda>temporal_edge_count.
        Some \<lparr>dd_out_degree = out_degree, dd_in_degree = in_degree, dd_out_weight_sum = out_weight_sum,
          dd_in_weight_sum = in_weight_sum, dd_self_loop_count = self_loop_count,
          dd_self_loop_weight_sum = self_loop_weight_sum, dd_temporal_edge_count = temporal_edge_count\<rparr>))))))))"

text \<open>The shape: the number of entries and of blocks. Lengths that overflow \<^verbatim>\<open>usize\<close> are errors.\<close>

definition validate_degree_sidecar_shape :: "bytes \<Rightarrow> engine_error + nat \<times> nat" where
  "validate_degree_sidecar_shape data =
     (if length data < HEADER_SIZE + CRC_SIZE then Inl (CorruptRecord ''degree sidecar length is smaller than header'')
      else if get_range data 0 8 \<noteq> Some DEGREE_DELTA_MAGIC then Inl (CorruptRecord ''degree sidecar magic mismatch'')
      else r_bind (read_u32_at data 8) (\<lambda>format_version.
        if format_version \<noteq> DEGREE_DELTA_FORMAT_VERSION then Inl (CorruptRecord ''unsupported degree sidecar version'')
        else r_bind (read_u32_at data 12) (\<lambda>size.
          if size \<noteq> DEGREE_DELTA_BLOCK_SIZE then Inl (CorruptRecord ''unsupported degree sidecar block size'')
          else r_bind (read_u64_at data 16) (\<lambda>entry_count. r_bind (read_u64_at data 24) (\<lambda>block_count.
            let entry_count = unat entry_count; block_count = unat block_count;
                entries_start = HEADER_SIZE + block_count * BLOCK_INDEX_ENTRY_SIZE;
                expected_len = entries_start + entry_count * DELTA_ENTRY_SIZE + CRC_SIZE
            in if block_count \<noteq> block_count_of entry_count then
                 Inl (CorruptRecord ''degree sidecar block count does not match entry count'')
               else if block_count * BLOCK_INDEX_ENTRY_SIZE \<ge> 2 ^ 64 then
                 Inl (CorruptRecord ''degree sidecar block index length overflow'')
               else if entries_start \<ge> 2 ^ 64 then Inl (CorruptRecord ''degree sidecar entries offset overflow'')
               else if entry_count * DELTA_ENTRY_SIZE \<ge> 2 ^ 64 then
                 Inl (CorruptRecord ''degree sidecar entries length overflow'')
               else if expected_len \<ge> 2 ^ 64 then Inl (CorruptRecord ''degree sidecar length overflow'')
               else if length data \<noteq> expected_len then
                 Inl (CorruptRecord ''degree sidecar length does not match expected'')
               else Inr (entry_count, block_count))))))"

text \<open>
  The full validation, run before folding. A read outside the payload would panic; the shape rules
  that out.
\<close>

fun check_entries_from :: "bytes \<Rightarrow> nat \<Rightarrow> u64 option \<Rightarrow> nat list \<Rightarrow> (engine_error + unit) option" where
  "check_entries_from data block_count prev [] = Some (Inr ())"
| "check_entries_from data block_count prev (index # rest) =
     Option.bind (read_sidecar_entry_node_id data block_count index) (\<lambda>node_id.
       if (case prev of Some p \<Rightarrow> p \<ge> node_id | None \<Rightarrow> False)
       then Some (Inl (CorruptRecord ''degree sidecar node IDs are not strictly sorted''))
       else Option.bind (read_sidecar_entry_delta data block_count index) (\<lambda>delta.
         if is_zero delta then Some (Inl (CorruptRecord ''degree sidecar contains zero delta''))
         else check_entries_from data block_count (Some node_id) rest))"

fun check_blocks :: "bytes \<Rightarrow> nat \<Rightarrow> nat \<Rightarrow> nat list \<Rightarrow> (engine_error + unit) option" where
  "check_blocks data entry_count block_count [] = Some (Inr ())"
| "check_blocks data entry_count block_count (block_index # rest) =
     (let index_offset = HEADER_SIZE + block_index * BLOCK_INDEX_ENTRY_SIZE in
      case read_u64_at data index_offset of
        Inl err \<Rightarrow> Some (Inl err)
      | Inr first_node_id \<Rightarrow> (case read_u64_at data (index_offset + 8) of
          Inl err \<Rightarrow> Some (Inl err)
        | Inr entry_start \<Rightarrow>
            if unat entry_start \<noteq> block_index * block_size then Some (Inl (CorruptRecord ''degree sidecar block starts elsewhere''))
            else if unat entry_start \<ge> entry_count then Some (Inl (CorruptRecord ''degree sidecar block start exceeds entry count''))
            else Option.bind (read_sidecar_entry_node_id data block_count (unat entry_start)) (\<lambda>actual_first.
              if first_node_id \<noteq> actual_first then Some (Inl (CorruptRecord ''degree sidecar block first node does not match''))
              else check_blocks data entry_count block_count rest)))"

definition validate_degree_sidecar :: "(bytes \<Rightarrow> u32) \<Rightarrow> bytes \<Rightarrow> (engine_error + unit) option" where
  "validate_degree_sidecar crc data = (case validate_degree_sidecar_shape data of
     Inl err \<Rightarrow> Some (Inl err)
   | Inr (entry_count, block_count) \<Rightarrow> (case read_u32_at data (length data - CRC_SIZE) of
       Inl err \<Rightarrow> Some (Inl err)
     | Inr stored_crc \<Rightarrow>
         if stored_crc \<noteq> crc (take (length data - CRC_SIZE) data) then Some (Inl (CorruptRecord ''degree sidecar CRC mismatch''))
         else Option.bind (check_entries_from data block_count None [0 ..< entry_count]) (\<lambda>r. case r of
             Inl err \<Rightarrow> Some (Inl err)
           | Inr _ \<Rightarrow> check_blocks data entry_count block_count [0 ..< block_count])))"

record degree_sidecar =
  sc_payload :: bytes
  sc_entry_count :: nat
  sc_block_count :: nat

text \<open>Opening a payload.\<close>

definition sidecar_open :: "bytes \<Rightarrow> engine_error + degree_sidecar" where
  "sidecar_open payload = r_bind (validate_degree_sidecar_shape payload) (\<lambda>(entry_count, block_count).
     Inr \<lparr>sc_payload = payload, sc_entry_count = entry_count, sc_block_count = block_count\<rparr>)"

definition block_first_node_id :: "degree_sidecar \<Rightarrow> nat \<Rightarrow> u64 option" where
  "block_first_node_id sc block_index = read_word (sc_payload sc) (HEADER_SIZE + block_index * BLOCK_INDEX_ENTRY_SIZE)"

definition entry_at :: "degree_sidecar \<Rightarrow> nat \<Rightarrow> (u64 \<times> degree_delta) option option" where
  "entry_at sc index =
     (if index \<ge> sc_entry_count sc then Some None
      else Option.bind (read_sidecar_entry_node_id (sc_payload sc) (sc_block_count sc) index) (\<lambda>node_id.
           Option.bind (read_sidecar_entry_delta (sc_payload sc) (sc_block_count sc) index) (\<lambda>delta.
             Some (Some (node_id, delta)))))"

section \<open>Lookup\<close>

text \<open>The two binary searches: over the first nodes of the blocks, then within a block.\<close>

function search_blocks :: "(nat \<Rightarrow> u64 option) \<Rightarrow> u64 \<Rightarrow> nat \<Rightarrow> nat \<Rightarrow> nat option" where
  "search_blocks first_node node_id lo hi =
     (if lo < hi then
        (let mid = lo + (hi - lo) div 2 in
         case first_node mid of
           None \<Rightarrow> None
         | Some first \<Rightarrow>
             if first \<le> node_id then search_blocks first_node node_id (mid + 1) hi
             else search_blocks first_node node_id lo mid)
      else Some lo)"
  by pat_completeness auto
termination by (relation "measure (\<lambda>(_, _, lo, hi). hi - lo)") auto

function search_entries :: "(nat \<Rightarrow> u64 option) \<Rightarrow> u64 \<Rightarrow> nat \<Rightarrow> nat \<Rightarrow> nat option option" where
  "search_entries entry_node node_id lo hi =
     (if lo < hi then
        (let mid = lo + (hi - lo) div 2 in
         case entry_node mid of
           None \<Rightarrow> None
         | Some mid_node \<Rightarrow>
             if mid_node < node_id then search_entries entry_node node_id (mid + 1) hi
             else if mid_node > node_id then search_entries entry_node node_id lo mid
             else Some (Some mid))
      else Some None)"
  by pat_completeness auto
termination by (relation "measure (\<lambda>(_, _, lo, hi). hi - lo)") auto

definition sidecar_lookup :: "degree_sidecar \<Rightarrow> u64 \<Rightarrow> degree_delta option" where
  "sidecar_lookup sc node_id =
     (if sc_entry_count sc = 0 \<or> sc_block_count sc = 0 then Some DELTA_ZERO
      else Option.bind (search_blocks (block_first_node_id sc) node_id 0 (sc_block_count sc)) (\<lambda>lo.
        if lo = 0 then Some DELTA_ZERO
        else let start = (lo - 1) * block_size; last_entry = min (start + block_size) (sc_entry_count sc)
             in Option.bind (search_entries (read_sidecar_entry_node_id (sc_payload sc) (sc_block_count sc)) node_id start last_entry)
                  (\<lambda>found. case found of
                     None \<Rightarrow> Some DELTA_ZERO
                   | Some mid \<Rightarrow> read_sidecar_entry_delta (sc_payload sc) (sc_block_count sc) mid)))"

declare search_blocks.simps [simp del] search_entries.simps [simp del]

section \<open>Folding\<close>

text \<open>
  The heap holds a node and a cursor for every sidecar with entries left. Its order puts the least
  node first and, among equal nodes, the least cursor; a cursor is in it at most once. It is kept
  as a sorted list, whose head is what the source pops.
\<close>

type_synonym cursor_heap = "(u64 \<times> nat) list"

definition consume_degree_cursor ::
    "degree_sidecar list \<Rightarrow> nat list \<Rightarrow> cursor_heap \<Rightarrow> nat \<Rightarrow> degree_delta \<Rightarrow> (nat list \<times> cursor_heap \<times> degree_delta) option" where
  "consume_degree_cursor scs cursors heap i acc =
     (if i \<ge> length cursors \<or> i \<ge> length scs then None
      else Option.bind (entry_at (scs ! i) (cursors ! i)) (\<lambda>current. case current of
          None \<Rightarrow> Some (cursors, heap, acc)
        | Some (_, delta) \<Rightarrow>
            Option.bind (entry_at (scs ! i) (cursors ! i + 1)) (\<lambda>following.
              Some (cursors[i := cursors ! i + 1],
                    (case following of None \<Rightarrow> heap | Some (node_id, _) \<Rightarrow> insort (node_id, i) heap),
                    add_assign_delta acc delta))))"

text \<open>What the loops do not yet have consumed.\<close>

definition entries_left :: "degree_sidecar list \<Rightarrow> nat list \<Rightarrow> nat" where
  "entries_left scs cursors = (\<Sum>i \<leftarrow> [0 ..< length cursors]. sc_entry_count (scs ! i) - cursors ! i)"

lemma entries_left_step:
  assumes "i < length cursors" and "cursors ! i < sc_entry_count (scs ! i)"
  shows "Suc (entries_left scs (cursors[i := cursors ! i + 1])) = entries_left scs cursors"
proof -
  let ?f = "\<lambda>c j. sc_entry_count (scs ! j) - c ! j"
  have "entries_left scs c = (\<Sum>j \<in> {..<length c}. ?f c j)" for c
    by (simp add: entries_left_def interv_sum_list_conv_sum_set_nat atLeast0LessThan)
  moreover have "(\<Sum>j \<in> {..<length cursors}. ?f c j) = ?f c i + (\<Sum>j \<in> {..<length cursors} - {i}. ?f c j)" for c
    using assms(1) by (intro sum.remove) simp_all
  moreover have "(\<Sum>j \<in> {..<length cursors} - {i}. ?f (cursors[i := cursors ! i + 1]) j) = (\<Sum>j \<in> {..<length cursors} - {i}. ?f cursors j)"
    by (intro sum.cong) auto
  ultimately show ?thesis using assms by simp
qed

lemma consume_measure:
  assumes "consume_degree_cursor scs cursors heap i acc = Some (cursors', heap', acc')"
  shows "entries_left scs cursors' + length heap' \<le> entries_left scs cursors + length heap"
  using assms entries_left_step [of i cursors scs]
  by (auto simp: consume_degree_cursor_def bind_eq_Some_conv entry_at_def split: if_splits option.splits prod.splits)

function drain_node ::
    "degree_sidecar list \<Rightarrow> u64 \<Rightarrow> nat list \<Rightarrow> cursor_heap \<Rightarrow> degree_delta \<Rightarrow> (nat list \<times> cursor_heap \<times> degree_delta) option" where
  "drain_node scs node_id cursors heap acc = (case heap of
     [] \<Rightarrow> Some (cursors, heap, acc)
   | (n, i) # rest \<Rightarrow>
       if n = node_id then (case consume_degree_cursor scs cursors rest i acc of
           None \<Rightarrow> None
         | Some (cursors, heap, acc) \<Rightarrow> drain_node scs node_id cursors heap acc)
       else Some (cursors, heap, acc))"
  by pat_completeness auto
termination
  by (relation "measure (\<lambda>(scs, _, cursors, heap, _). entries_left scs cursors + length heap)")
    (auto dest!: consume_measure)

declare drain_node.simps [simp del]

lemma drain_measure:
  "drain_node scs node_id cursors heap acc = Some (cursors', heap', acc') \<Longrightarrow>
     entries_left scs cursors' + length heap' \<le> entries_left scs cursors + length heap"
proof (induction scs node_id cursors heap acc rule: drain_node.induct)
  case (1 scs node_id cursors heap acc)
  from "1.prems" show ?case
    by (subst (asm) drain_node.simps)
      (fastforce dest: consume_measure dest!: "1.IH" split: list.splits prod.splits if_splits option.splits)
qed

text \<open>\<^verbatim>\<open>for_each_folded_degree_entry\<close>, with the emitted entries as its result.\<close>

function fold_cursors :: "degree_sidecar list \<Rightarrow> nat list \<Rightarrow> cursor_heap \<Rightarrow> degree_entries option" where
  "fold_cursors scs cursors heap = (case heap of
     [] \<Rightarrow> Some []
   | (node_id, i) # rest \<Rightarrow>
       (case consume_degree_cursor scs cursors rest i DELTA_ZERO of
          None \<Rightarrow> None
        | Some (cursors, heap, acc) \<Rightarrow>
            (case drain_node scs node_id cursors heap acc of
               None \<Rightarrow> None
             | Some (cursors, heap, acc) \<Rightarrow>
                 (case fold_cursors scs cursors heap of
                    None \<Rightarrow> None
                  | Some out \<Rightarrow> Some (if is_zero acc then out else (node_id, acc) # out)))))"
  by pat_completeness auto
termination
  by (relation "measure (\<lambda>(scs, cursors, heap). entries_left scs cursors + length heap)")
    (auto dest!: consume_measure drain_measure)

declare fold_cursors.simps [simp del]

definition initial_heap :: "degree_sidecar list \<Rightarrow> cursor_heap option" where
  "initial_heap scs = map_option (\<lambda>cs. sort (List.map_filter (\<lambda>(i, c). map_option (\<lambda>(n, _). (n, i)) c) (enumerate 0 cs)))
     (those (map (\<lambda>sc. entry_at sc 0) scs))"

definition for_each_folded_degree_entry :: "degree_sidecar list \<Rightarrow> degree_entries option" where
  "for_each_folded_degree_entry scs = Option.bind (initial_heap scs) (fold_cursors scs (replicate (length scs) 0))"

text \<open>The first pass collects the block index, the second writes the entries.\<close>

definition collect_block_index :: "degree_entries \<Rightarrow> (u64 \<times> nat) list" where
  "collect_block_index entries =
     List.map_filter (\<lambda>(i, (node_id, _)). if i mod block_size = 0 then Some (node_id, i) else None) (enumerate 0 entries)"

fun validate_all :: "(bytes \<Rightarrow> u32) \<Rightarrow> degree_sidecar list \<Rightarrow> (engine_error + unit) option" where
  "validate_all crc [] = Some (Inr ())"
| "validate_all crc (sc # scs) = Option.bind (validate_degree_sidecar crc (sc_payload sc)) (\<lambda>r. case r of
     Inl err \<Rightarrow> Some (Inl err) | Inr _ \<Rightarrow> validate_all crc scs)"

definition write_folded_degree_delta_sidecar_payload_from_sidecars ::
    "(bytes \<Rightarrow> u32) \<Rightarrow> degree_sidecar list \<Rightarrow> (engine_error + bytes) option" where
  "write_folded_degree_delta_sidecar_payload_from_sidecars crc scs =
     Option.bind (validate_all crc scs) (\<lambda>r. case r of
       Inl err \<Rightarrow> Some (Inl err)
     | Inr _ \<Rightarrow> map_option (\<lambda>entries.
         let block_index = collect_block_index entries;
             bs = encode_header (length entries) (length block_index) @
               concat (map encode_index_entry block_index) @ concat (map encode_degree_entry entries)
         in Inr (bs @ to_le_bytes (crc bs))) (for_each_folded_degree_entry scs))"

section \<open>Reading back what was written\<close>

lemma length_encode [simp]:
  "length (encode_header n b) = HEADER_SIZE"
  "length (encode_index_entry e) = BLOCK_INDEX_ENTRY_SIZE"
  "length (encode_degree_entry d) = DELTA_ENTRY_SIZE"
  by (simp_all add: encode_header_def encode_index_entry_def encode_degree_entry_def DEGREE_DELTA_MAGIC_def HEADER_SIZE_def
      BLOCK_INDEX_ENTRY_SIZE_def DELTA_ENTRY_SIZE_def split: prod.splits)

definition block_index_of :: "degree_entries \<Rightarrow> (u64 \<times> nat) list" where
  "block_index_of entries = map (\<lambda>b. (fst (entries ! (b * block_size)), b * block_size)) [0 ..< block_count_of (length entries)]"

definition payload_of :: "(bytes \<Rightarrow> u32) \<Rightarrow> degree_entries \<Rightarrow> bytes" where
  "payload_of crc entries =
     (let bs = encode_header (length entries) (block_count_of (length entries)) @
        concat (map encode_index_entry (block_index_of entries)) @ concat (map encode_degree_entry entries)
      in bs @ to_le_bytes (crc bs))"

lemma encode_payload: "encode_sorted_degree_delta_sidecar_unchecked crc entries = payload_of crc entries"
  by (simp add: encode_sorted_degree_delta_sidecar_unchecked_def payload_of_def block_index_of_def Let_def comp_def)

lemma length_block_index [simp]: "length (block_index_of entries) = block_count_of (length entries)"
  by (simp add: block_index_of_def)

lemma length_payload:
  "length (payload_of crc entries) =
     HEADER_SIZE + block_count_of (length entries) * BLOCK_INDEX_ENTRY_SIZE + length entries * DELTA_ENTRY_SIZE + CRC_SIZE"
  by (simp add: payload_of_def Let_def length_concat_map CRC_SIZE_def)

lemma index_word:
  assumes "b < block_count_of (length entries)"
  shows "read_word (payload_of crc entries) (HEADER_SIZE + b * BLOCK_INDEX_ENTRY_SIZE) = Some (fst (entries ! (b * block_size)))"
    and "read_word (payload_of crc entries) (HEADER_SIZE + b * BLOCK_INDEX_ENTRY_SIZE + 8) = Some (of_nat (b * block_size))"
proof -
  let ?e = "(fst (entries ! (b * block_size)), b * block_size)"
  have e: "block_index_of entries ! b = ?e" using assms by (simp add: block_index_of_def)
  note field = get_range_field [of encode_index_entry, OF length_encode(2), of b "block_index_of entries" _ _ _
      "encode_header (length entries) (block_count_of (length entries))"]
  from field [of "[]" "to_le_bytes (fst ?e)" "to_le_bytes (of_nat (snd ?e) :: u64)"] assms e
  show "read_word (payload_of crc entries) (HEADER_SIZE + b * BLOCK_INDEX_ENTRY_SIZE) = Some (fst (entries ! (b * block_size)))"
    by (simp add: read_word_def payload_of_def Let_def encode_index_entry_def)
  from field [of "to_le_bytes (fst ?e)" "to_le_bytes (of_nat (snd ?e) :: u64)" "[]"] assms e
  show "read_word (payload_of crc entries) (HEADER_SIZE + b * BLOCK_INDEX_ENTRY_SIZE + 8) = Some (of_nat (b * block_size))"
    by (simp add: read_word_def payload_of_def Let_def encode_index_entry_def)
qed

lemma entry_word:
  assumes "i < length entries" and "encode_degree_entry (entries ! i) = l @ to_le_bytes w @ r"
  shows "read_word (payload_of crc entries) (sidecar_entry_offset (block_count_of (length entries)) i + length l) = Some w"
proof -
  let ?pre = "encode_header (length entries) (block_count_of (length entries)) @ concat (map encode_index_entry (block_index_of entries))"
  have len: "length ?pre = HEADER_SIZE + block_count_of (length entries) * BLOCK_INDEX_ENTRY_SIZE"
    by (simp add: length_concat_map)
  from get_range_field [of encode_degree_entry, OF length_encode(3) assms, of ?pre "to_le_bytes (crc (?pre @ concat (map encode_degree_entry entries)))"]
  show ?thesis unfolding len by (simp add: read_word_def payload_of_def Let_def sidecar_entry_offset_def)
qed

lemma entry_read:
  assumes "i < length entries"
  shows "read_sidecar_entry_node_id (payload_of crc entries) (block_count_of (length entries)) i = Some (fst (entries ! i))"
    and "read_sidecar_entry_delta (payload_of crc entries) (block_count_of (length entries)) i = Some (snd (entries ! i))"
proof -
  obtain n d where e: "entries ! i = (n, d)" by (cases "entries ! i")
  let ?f = "[n, dd_out_degree d, dd_in_degree d, dd_out_weight_sum d, dd_in_weight_sum d, dd_self_loop_count d,
      dd_self_loop_weight_sum d, dd_temporal_edge_count d]"
  have enc: "encode_degree_entry (entries ! i) = concat (map to_le_bytes ?f)" by (simp add: encode_degree_entry_def e)
  have word: "read_word (payload_of crc entries) (sidecar_entry_offset (block_count_of (length entries)) i + j * 8) = Some (?f ! j)"
    if "j < length ?f" for j
    using entry_word [OF assms enc [unfolded concat_map_split [OF that]]] that by (simp add: length_concat_map [of to_le_bytes 8])
  from word [of 0] show "read_sidecar_entry_node_id (payload_of crc entries) (block_count_of (length entries)) i = Some (fst (entries ! i))"
    by (simp add: read_sidecar_entry_node_id_def e)
  from word [of 1] word [of 2] word [of 3] word [of 4] word [of 5] word [of 6] word [of 7]
  show "read_sidecar_entry_delta (payload_of crc entries) (block_count_of (length entries)) i = Some (snd (entries ! i))"
    by (simp add: read_sidecar_entry_delta_def Let_def e)
qed

section \<open>A written payload validates\<close>

definition entries_ok :: "degree_entries \<Rightarrow> bool" where
  "entries_ok entries \<longleftrightarrow> sorted_wrt (<) (map fst entries) \<and> list_all (\<lambda>e. \<not> is_zero (snd e)) entries"

lemma check_sorted_from_iff:
  "check_sorted_from prev entries = Inr () \<longleftrightarrow> entries_ok entries \<and>
     (case prev of None \<Rightarrow> True | Some p \<Rightarrow> list_all (\<lambda>e. p < fst e) entries)"
proof (induction prev entries rule: check_sorted_from.induct)
  case (2 prev n d entries)
  then show ?case
    by (auto simp: entries_ok_def list_all_iff not_le dest: less_trans split: option.splits) (meson less_trans)?
qed (simp add: entries_ok_def split: option.split)

lemma validate_sorted_iff: "validate_sorted_degree_delta_entries entries = Inr () \<longleftrightarrow> entries_ok entries"
  by (simp add: validate_sorted_degree_delta_entries_def check_sorted_from_iff)

lemma block_size_eq: "block_size = 256"
  by (simp add: DEGREE_DELTA_BLOCK_SIZE_def)

lemma block_count_le: "block_count_of n \<le> n"
  by (auto simp: block_count_of_def block_size_eq)

lemma block_start: "b < block_count_of n \<Longrightarrow> b * block_size < n"
  by (auto simp: block_count_of_def block_size_eq split: if_splits)

lemma in_block: "i < n \<Longrightarrow> i div block_size < block_count_of n"
  by (auto simp: block_count_of_def block_size_eq)

lemma header_reads:
  assumes "length entries < 2 ^ 56"
  shows "get_range (payload_of crc entries) 0 8 = Some DEGREE_DELTA_MAGIC"
    and "read_u32_at (payload_of crc entries) 8 = Inr DEGREE_DELTA_FORMAT_VERSION"
    and "read_u32_at (payload_of crc entries) 12 = Inr DEGREE_DELTA_BLOCK_SIZE"
    and "read_u64_at (payload_of crc entries) 16 = Inr (of_nat (length entries))"
    and "read_u64_at (payload_of crc entries) 24 = Inr (of_nat (block_count_of (length entries)))"
proof -
  obtain rest where p: "payload_of crc entries = encode_header (length entries) (block_count_of (length entries)) @ rest"
    by (simp add: payload_of_def Let_def)
  have m: "length DEGREE_DELTA_MAGIC = 8" by (simp add: DEGREE_DELTA_MAGIC_def)
  let ?v = "to_le_bytes DEGREE_DELTA_FORMAT_VERSION" and ?s = "to_le_bytes DEGREE_DELTA_BLOCK_SIZE"
    and ?e = "to_le_bytes (of_nat (length entries) :: u64)" and ?b = "to_le_bytes (of_nat (block_count_of (length entries)) :: u64)"
  show "get_range (payload_of crc entries) 0 8 = Some DEGREE_DELTA_MAGIC"
    by (rule get_range_at [of _ "[]" _ "?v @ ?s @ ?e @ ?b @ rest"]) (simp_all add: p encode_header_def m)
  have "get_range (payload_of crc entries) 8 12 = Some ?v"
    by (rule get_range_at [of _ DEGREE_DELTA_MAGIC _ "?s @ ?e @ ?b @ rest"]) (simp_all add: p encode_header_def m)
  then show "read_u32_at (payload_of crc entries) 8 = Inr DEGREE_DELTA_FORMAT_VERSION" by (simp add: read_u32_at_def)
  have "get_range (payload_of crc entries) 12 16 = Some ?s"
    by (rule get_range_at [of _ "DEGREE_DELTA_MAGIC @ ?v" _ "?e @ ?b @ rest"]) (simp_all add: p encode_header_def m)
  then show "read_u32_at (payload_of crc entries) 12 = Inr DEGREE_DELTA_BLOCK_SIZE" by (simp add: read_u32_at_def)
  have "get_range (payload_of crc entries) 16 24 = Some ?e"
    by (rule get_range_at [of _ "DEGREE_DELTA_MAGIC @ ?v @ ?s" _ "?b @ rest"]) (simp_all add: p encode_header_def m)
  then show "read_u64_at (payload_of crc entries) 16 = Inr (of_nat (length entries))" by (simp add: read_u64_at_def)
  have "get_range (payload_of crc entries) 24 32 = Some ?b"
    by (rule get_range_at [of _ "DEGREE_DELTA_MAGIC @ ?v @ ?s @ ?e" _ rest]) (simp_all add: p encode_header_def m)
  then show "read_u64_at (payload_of crc entries) 24 = Inr (of_nat (block_count_of (length entries)))" by (simp add: read_u64_at_def)
qed

lemma shape_ok:
  assumes "length entries < 2 ^ 56"
  shows "validate_degree_sidecar_shape (payload_of crc entries) = Inr (length entries, block_count_of (length entries))"
proof -
  have "unat (of_nat (length entries) :: u64) = length entries"
    and "unat (of_nat (block_count_of (length entries)) :: u64) = block_count_of (length entries)"
    using assms block_count_le [of "length entries"] by (auto intro!: unat_of_nat_small)
  then show ?thesis
    using assms block_count_le [of "length entries"]
    by (simp add: validate_degree_sidecar_shape_def header_reads [OF assms] Let_def length_payload)
      (simp add: HEADER_SIZE_def CRC_SIZE_def BLOCK_INDEX_ENTRY_SIZE_def DELTA_ENTRY_SIZE_def)
qed

lemma check_entries_ok:
  assumes "k \<le> length entries" and "check_sorted_from prev (drop k entries) = Inr ()"
  shows "check_entries_from (payload_of crc entries) (block_count_of (length entries)) prev [k ..< length entries] = Some (Inr ())"
  using assms
proof (induction "length entries - k" arbitrary: k prev)
  case (Suc m)
  then have k: "k < length entries" by simp
  obtain n d where e: "entries ! k = (n, d)" by (cases "entries ! k")
  have "drop k entries = (n, d) # drop (Suc k) entries" using Cons_nth_drop_Suc [OF k] e by simp
  with Suc.prems(2) have chk: "\<not> is_zero d" "\<not> (case prev of Some p \<Rightarrow> p \<ge> n | None \<Rightarrow> False)"
    "check_sorted_from (Some n) (drop (Suc k) entries) = Inr ()" by (simp_all split: if_splits)
  have "m = length entries - Suc k" "Suc k \<le> length entries" using Suc.hyps(2) k by simp_all
  from Suc.hyps(1) [OF this chk(3)] chk show ?case
    using k by (simp add: upt_conv_Cons entry_read e)
qed simp

lemma read_u64_word: "offset + 8 < 2 ^ 64 \<Longrightarrow> read_word data offset = Some w \<Longrightarrow> read_u64_at data offset = Inr w"
  by (auto simp: read_u64_at_def read_word_def split: option.splits)

lemma check_blocks_ok:
  assumes "length entries < 2 ^ 56" and "\<forall>b \<in> set bs. b < block_count_of (length entries)"
  shows "check_blocks (payload_of crc entries) (length entries) (block_count_of (length entries)) bs = Some (Inr ())"
  using assms(2)
proof (induction bs)
  case (Cons b bs)
  then have b: "b < block_count_of (length entries)" by simp
  note start = block_start [OF b]
  have nat: "unat (of_nat (b * block_size) :: u64) = b * block_size"
    using start assms(1) by (intro unat_of_nat_small) simp
  have "HEADER_SIZE + b * BLOCK_INDEX_ENTRY_SIZE + 8 + 8 < 2 ^ 64"
    using b block_count_le [of "length entries"] assms(1) by (simp add: HEADER_SIZE_def BLOCK_INDEX_ENTRY_SIZE_def)
  with index_word [OF b, of crc]
  have "read_u64_at (payload_of crc entries) (HEADER_SIZE + b * BLOCK_INDEX_ENTRY_SIZE) = Inr (fst (entries ! (b * block_size)))"
    and "read_u64_at (payload_of crc entries) (HEADER_SIZE + b * BLOCK_INDEX_ENTRY_SIZE + 8) = Inr (of_nat (b * block_size))"
    by (simp_all add: read_u64_word)
  with Cons start nat entry_read(1) [OF start] show ?case by (simp add: Let_def)
qed simp

lemma payload_validates:
  assumes "entries_ok entries" and "length entries < 2 ^ 56"
  shows "validate_degree_sidecar crc (payload_of crc entries) = Some (Inr ())"
proof -
  obtain bs where bs: "payload_of crc entries = bs @ to_le_bytes (crc bs)" unfolding payload_of_def Let_def by blast
  have len: "length (payload_of crc entries) - CRC_SIZE = length bs" "length bs + 4 < 2 ^ 64"
    using length_payload [of crc entries] assms(2) block_count_le [of "length entries"]
    by (simp_all add: bs CRC_SIZE_def HEADER_SIZE_def BLOCK_INDEX_ENTRY_SIZE_def DELTA_ENTRY_SIZE_def)
  have "get_range (payload_of crc entries) (length bs) (length bs + 4) = Some (to_le_bytes (crc bs))"
    by (rule get_range_at [of _ bs _ "[]"]) (simp_all add: bs)
  then have "read_u32_at (payload_of crc entries) (length bs) = Inr (crc bs)"
    using len(2) by (simp add: read_u32_at_def)
  moreover have "take (length bs) (payload_of crc entries) = bs" by (simp add: bs)
  moreover have "check_entries_from (payload_of crc entries) (block_count_of (length entries)) None [0 ..< length entries] = Some (Inr ())"
    using check_entries_ok [of 0 entries None crc] assms(1) by (simp add: check_sorted_from_iff)
  ultimately show ?thesis
    using check_blocks_ok [OF assms(2), of "[0 ..< block_count_of (length entries)]" crc]
    by (simp add: validate_degree_sidecar_def shape_ok [OF assms(2)] len(1))
qed

section \<open>Lookup is the map\<close>

definition opened :: "(bytes \<Rightarrow> u32) \<Rightarrow> degree_entries \<Rightarrow> degree_sidecar" where
  "opened crc entries = \<lparr>sc_payload = payload_of crc entries, sc_entry_count = length entries,
     sc_block_count = block_count_of (length entries)\<rparr>"

lemma opened_simps [simp]:
  "sc_payload (opened crc entries) = payload_of crc entries" "sc_entry_count (opened crc entries) = length entries"
  "sc_block_count (opened crc entries) = block_count_of (length entries)"
  by (simp_all add: opened_def)

lemma open_payload: "length entries < 2 ^ 56 \<Longrightarrow> sidecar_open (payload_of crc entries) = Inr (opened crc entries)"
  by (simp add: sidecar_open_def shape_ok opened_def)

lemma entry_at_opened: "entry_at (opened crc entries) i = Some (if i < length entries then Some (entries ! i) else None)"
  by (simp add: entry_at_def entry_read)

lemma search_blocks_splits:
  assumes "\<And>b. lo \<le> b \<Longrightarrow> b < hi \<Longrightarrow> first_node b = Some (g b)"
    and "\<And>b c. lo \<le> b \<Longrightarrow> b \<le> c \<Longrightarrow> c < hi \<Longrightarrow> g b \<le> g c" and "lo \<le> hi"
  shows "\<exists>r. search_blocks first_node node_id lo hi = Some r \<and> lo \<le> r \<and> r \<le> hi \<and>
    (\<forall>b. lo \<le> b \<longrightarrow> b < r \<longrightarrow> g b \<le> node_id) \<and> (\<forall>b. r \<le> b \<longrightarrow> b < hi \<longrightarrow> node_id < g b)"
  using assms
proof (induction first_node node_id lo hi rule: search_blocks.induct)
  case (1 first_node node_id lo hi)
  show ?case
  proof (cases "lo < hi")
    case True
    define mid where "mid = lo + (hi - lo) div 2"
    have mid: "lo \<le> mid" "mid < hi" using True by (auto simp: mid_def)
    have first: "first_node mid = Some (g mid)" by (rule "1.prems"(1) [OF mid])
    show ?thesis
    proof (cases "g mid \<le> node_id")
      case le: True
      have "\<exists>r. search_blocks first_node node_id (mid + 1) hi = Some r \<and> mid + 1 \<le> r \<and> r \<le> hi \<and>
        (\<forall>b. mid + 1 \<le> b \<longrightarrow> b < r \<longrightarrow> g b \<le> node_id) \<and> (\<forall>b. r \<le> b \<longrightarrow> b < hi \<longrightarrow> node_id < g b)"
        using True mid "1.prems" by (intro "1.IH"(1) [OF True mid_def first le]) simp_all
      then obtain r where r: "search_blocks first_node node_id (mid + 1) hi = Some r" "mid + 1 \<le> r" "r \<le> hi"
        "\<And>b. mid + 1 \<le> b \<Longrightarrow> b < r \<Longrightarrow> g b \<le> node_id" "\<And>b. r \<le> b \<Longrightarrow> b < hi \<Longrightarrow> node_id < g b" by blast
      have "g b \<le> node_id" if "lo \<le> b" "b < r" for b
        using that r(4) [of b] "1.prems"(2) [of b mid] mid le by (cases "b \<le> mid") (auto intro: order_trans)
      then show ?thesis using True first le r mid by (subst search_blocks.simps) (auto simp: Let_def mid_def [symmetric])
    next
      case gt: False
      have "\<exists>r. search_blocks first_node node_id lo mid = Some r \<and> lo \<le> r \<and> r \<le> mid \<and>
        (\<forall>b. lo \<le> b \<longrightarrow> b < r \<longrightarrow> g b \<le> node_id) \<and> (\<forall>b. r \<le> b \<longrightarrow> b < mid \<longrightarrow> node_id < g b)"
        using True mid "1.prems" by (intro "1.IH"(2) [OF True mid_def first gt]) simp_all
      then obtain r where r: "search_blocks first_node node_id lo mid = Some r" "lo \<le> r" "r \<le> mid"
        "\<And>b. lo \<le> b \<Longrightarrow> b < r \<Longrightarrow> g b \<le> node_id" "\<And>b. r \<le> b \<Longrightarrow> b < mid \<Longrightarrow> node_id < g b" by blast
      have "node_id < g b" if "r \<le> b" "b < hi" for b
        using that r(5) [of b] "1.prems"(2) [of mid b] mid gt by (cases "b < mid") (auto simp: not_le intro: less_le_trans)
      then show ?thesis using True first gt r mid by (subst search_blocks.simps) (auto simp: Let_def mid_def [symmetric])
    qed
  next
    case False
    then show ?thesis using "1.prems"(3) by (subst search_blocks.simps) auto
  qed
qed

lemma search_entries_finds:
  assumes "\<And>i. lo \<le> i \<Longrightarrow> i < hi \<Longrightarrow> entry_node i = Some (g i)"
    and "\<And>i j. lo \<le> i \<Longrightarrow> i < j \<Longrightarrow> j < hi \<Longrightarrow> g i < g j"
  shows "(\<exists>m. lo \<le> m \<and> m < hi \<and> g m = node_id \<and> search_entries entry_node node_id lo hi = Some (Some m)) \<or>
    (\<forall>i. lo \<le> i \<longrightarrow> i < hi \<longrightarrow> g i \<noteq> node_id) \<and> search_entries entry_node node_id lo hi = Some None"
  using assms
proof (induction entry_node node_id lo hi rule: search_entries.induct)
  case (1 entry_node node_id lo hi)
  show ?case
  proof (cases "lo < hi")
    case True
    define mid where "mid = lo + (hi - lo) div 2"
    have mid: "lo \<le> mid" "mid < hi" using True by (auto simp: mid_def)
    have node: "entry_node mid = Some (g mid)" by (rule "1.prems"(1) [OF mid])
    consider "g mid < node_id" | "g mid > node_id" | "g mid = node_id" by (rule linorder_cases)
    then show ?thesis
    proof cases
      case lt: 1
      have eq: "search_entries entry_node node_id lo hi = search_entries entry_node node_id (mid + 1) hi"
        using True node lt by (subst search_entries.simps) (simp add: Let_def mid_def [symmetric])
      have low: "g i \<noteq> node_id" if "lo \<le> i" "i \<le> mid" for i
        using that "1.prems"(2) [of i mid] mid lt by (cases "i = mid") auto
      have "(\<exists>m. mid + 1 \<le> m \<and> m < hi \<and> g m = node_id \<and> search_entries entry_node node_id (mid + 1) hi = Some (Some m)) \<or>
        (\<forall>i. mid + 1 \<le> i \<longrightarrow> i < hi \<longrightarrow> g i \<noteq> node_id) \<and> search_entries entry_node node_id (mid + 1) hi = Some None"
        using mid "1.prems" by (intro "1.IH"(1) [OF True mid_def node lt]) simp_all
      then show ?thesis
      proof (elim disjE exE conjE)
        fix m assume "mid + 1 \<le> m" "m < hi" "g m = node_id" "search_entries entry_node node_id (mid + 1) hi = Some (Some m)"
        then show ?thesis unfolding eq using mid(1) by (intro disjI1 exI [of _ m]) simp
      next
        assume no: "\<forall>i. mid + 1 \<le> i \<longrightarrow> i < hi \<longrightarrow> g i \<noteq> node_id" "search_entries entry_node node_id (mid + 1) hi = Some None"
        have "g i \<noteq> node_id" if "lo \<le> i" "i < hi" for i using low [of i] no(1) that by (cases "i \<le> mid") simp_all
        then show ?thesis unfolding eq using no(2) by blast
      qed
    next
      case gt: 2
      then have nlt: "\<not> g mid < node_id" by simp
      have eq: "search_entries entry_node node_id lo hi = search_entries entry_node node_id lo mid"
        using True node gt nlt by (subst search_entries.simps) (simp add: Let_def mid_def [symmetric])
      have high: "g i \<noteq> node_id" if "mid \<le> i" "i < hi" for i
        using that "1.prems"(2) [of mid i] mid gt by (cases "i = mid") auto
      have "(\<exists>m. lo \<le> m \<and> m < mid \<and> g m = node_id \<and> search_entries entry_node node_id lo mid = Some (Some m)) \<or>
        (\<forall>i. lo \<le> i \<longrightarrow> i < mid \<longrightarrow> g i \<noteq> node_id) \<and> search_entries entry_node node_id lo mid = Some None"
        using mid "1.prems" by (intro "1.IH"(2) [OF True mid_def node nlt gt]) simp_all
      then show ?thesis
      proof (elim disjE exE conjE)
        fix m assume "lo \<le> m" "m < mid" "g m = node_id" "search_entries entry_node node_id lo mid = Some (Some m)"
        then show ?thesis unfolding eq using mid(2) by (intro disjI1 exI [of _ m]) simp
      next
        assume no: "\<forall>i. lo \<le> i \<longrightarrow> i < mid \<longrightarrow> g i \<noteq> node_id" "search_entries entry_node node_id lo mid = Some None"
        have "g i \<noteq> node_id" if "lo \<le> i" "i < hi" for i using high [of i] no(1) that by (cases "i < mid") simp_all
        then show ?thesis unfolding eq using no(2) by blast
      qed
    next
      case 3
      have "search_entries entry_node node_id lo hi = Some (Some mid)"
        using True node 3 by (subst search_entries.simps) (simp add: Let_def mid_def [symmetric])
      then show ?thesis using mid 3 by blast
    qed
  next
    case False
    then show ?thesis by (subst search_entries.simps) auto
  qed
qed

lemma entries_sorted_nth:
  assumes "entries_ok entries" and "i < j" and "j < length entries"
  shows "fst (entries ! i) < fst (entries ! j)"
  using assms sorted_wrt_nth_less [of "(<)" "map fst entries" i j] by (simp add: entries_ok_def)

lemma entries_distinct: "entries_ok entries \<Longrightarrow> distinct (map fst entries)"
  by (simp add: entries_ok_def strict_sorted_iff)

lemma map_of_nth_id: "entries_ok entries \<Longrightarrow> i < length entries \<Longrightarrow> map_of entries (fst (entries ! i)) = Some (snd (entries ! i))"
  by (simp add: entries_distinct)

definition delta_of :: "degree_entries \<Rightarrow> u64 \<Rightarrow> degree_delta" where
  "delta_of entries n = (case map_of entries n of Some d \<Rightarrow> d | None \<Rightarrow> DELTA_ZERO)"

lemma delta_of_missing: "(\<And>i. i < length entries \<Longrightarrow> fst (entries ! i) \<noteq> n) \<Longrightarrow> delta_of entries n = DELTA_ZERO"
proof -
  assume "\<And>i. i < length entries \<Longrightarrow> fst (entries ! i) \<noteq> n"
  then have "map_of entries n = None" by (fastforce simp: map_of_eq_None_iff in_set_conv_nth)
  then show ?thesis by (simp add: delta_of_def)
qed

lemma lookup_opened:
  assumes ok: "entries_ok entries"
  shows "sidecar_lookup (opened crc entries) n = Some (delta_of entries n)"
proof (cases "entries = []")
  case True
  then show ?thesis by (simp add: sidecar_lookup_def delta_of_def)
next
  case False
  let ?sc = "opened crc entries" and ?bc = "block_count_of (length entries)"
  let ?g = "\<lambda>b. fst (entries ! (b * block_size))"
  have pos: "0 < ?bc" using False in_block [of 0 "length entries"] by simp
  have mono: "?g b \<le> ?g c" if "b \<le> c" "c < ?bc" for b c
    using entries_sorted_nth [OF ok, of "b * block_size" "c * block_size"] that block_start [of c]
    by (cases "b = c") (auto simp: block_size_eq)
  have "block_first_node_id ?sc b = Some (?g b)" if "b < ?bc" for b
    using index_word(1) [OF that] by (simp add: block_first_node_id_def)
  then obtain r where r: "search_blocks (block_first_node_id ?sc) n 0 ?bc = Some r" "r \<le> ?bc"
    "\<And>b. b < r \<Longrightarrow> ?g b \<le> n" "\<And>b. r \<le> b \<Longrightarrow> b < ?bc \<Longrightarrow> n < ?g b"
    using search_blocks_splits [of 0 ?bc "block_first_node_id ?sc" ?g n] mono by auto
  have later: "fst (entries ! i) \<noteq> n" if "i < length entries" "r \<le> i div block_size" for i
  proof -
    let ?b = "i div block_size"
    have b: "?b < ?bc" by (rule in_block [OF that(1)])
    have le: "?b * block_size \<le> i" by simp
    have "?g ?b \<le> fst (entries ! i)"
    proof (cases "?b * block_size = i")
      case False
      with le have "?b * block_size < i" by (rule le_neq_trans)
      from entries_sorted_nth [OF ok this that(1)] show ?thesis by simp
    qed simp
    with r(4) [OF that(2) b] show ?thesis by simp
  qed
  show ?thesis
  proof (cases "r = 0")
    case True
    then have "delta_of entries n = DELTA_ZERO" using later by (intro delta_of_missing) simp
    then show ?thesis using r(1) pos False True by (simp add: sidecar_lookup_def)
  next
    case nz: False
    define start where "start = (r - 1) * block_size"
    define last_entry where "last_entry = min (start + block_size) (length entries)"
    have start: "start < length entries" unfolding start_def using nz r(2) by (intro block_start) simp
    have earlier: "fst (entries ! i) \<noteq> n" if "i < start" for i
      using entries_sorted_nth [OF ok that start] r(3) [of "r - 1"] nz by (auto simp: start_def)
    have beyond: "fst (entries ! i) \<noteq> n" if "last_entry \<le> i" "i < length entries" for i
    proof (rule later [OF that(2)])
      have "r * block_size \<le> i" using that nz by (cases r) (auto simp: last_entry_def start_def)
      then show "r \<le> i div block_size" by (simp add: block_size_eq less_eq_div_iff_mult_less_eq)
    qed
    have node: "read_sidecar_entry_node_id (payload_of crc entries) ?bc i = Some (fst (entries ! i))" if "i < last_entry" for i
      using that by (intro entry_read(1)) (simp add: last_entry_def)
    have sorted: "fst (entries ! i) < fst (entries ! j)" if "i < j" "j < last_entry" for i j
      using that by (intro entries_sorted_nth [OF ok]) (simp_all add: last_entry_def)
    from search_entries_finds [of start last_entry "read_sidecar_entry_node_id (payload_of crc entries) ?bc" "\<lambda>i. fst (entries ! i)" n]
      node sorted
    consider m where "start \<le> m" "m < last_entry" "fst (entries ! m) = n"
        "search_entries (read_sidecar_entry_node_id (payload_of crc entries) ?bc) n start last_entry = Some (Some m)"
      | "\<forall>i. start \<le> i \<longrightarrow> i < last_entry \<longrightarrow> fst (entries ! i) \<noteq> n"
        "search_entries (read_sidecar_entry_node_id (payload_of crc entries) ?bc) n start last_entry = Some None"
      by auto
    then show ?thesis
    proof cases
      case (1 m)
      then have m: "m < length entries" by (simp add: last_entry_def)
      have "delta_of entries n = snd (entries ! m)" using map_of_nth_id [OF ok m] 1(3) by (simp add: delta_of_def)
      then show ?thesis
        using r(1) pos False nz 1(4) entry_read(2) [OF m, of crc]
        by (simp add: sidecar_lookup_def Let_def start_def last_entry_def)
    next
      case 2
      have "delta_of entries n = DELTA_ZERO"
      proof (rule delta_of_missing)
        fix i assume "i < length entries"
        then show "fst (entries ! i) \<noteq> n" using earlier [of i] beyond [of i] 2(1) by (cases "i < start"; cases "i < last_entry") auto
      qed
      then show ?thesis using r(1) pos False nz 2(2) by (simp add: sidecar_lookup_def Let_def start_def last_entry_def)
    qed
  qed
qed

section \<open>The merge\<close>

text \<open>What a cursor position of every sidecar stands for.\<close>

definition at_node :: "degree_entries list \<Rightarrow> nat list \<Rightarrow> u64 \<Rightarrow> nat \<Rightarrow> bool" where
  "at_node ess c n i \<longleftrightarrow> c ! i < length (ess ! i) \<and> fst (ess ! i ! (c ! i)) = n"

definition heap_ok :: "degree_entries list \<Rightarrow> nat list \<Rightarrow> cursor_heap \<Rightarrow> bool" where
  "heap_ok ess c heap \<longleftrightarrow> length c = length ess \<and> sorted heap \<and> distinct heap \<and>
     set heap = {(n, i). i < length ess \<and> at_node ess c n i}"

definition advance :: "degree_entries list \<Rightarrow> nat list \<Rightarrow> u64 \<Rightarrow> nat list" where
  "advance ess c n = map (\<lambda>i. if at_node ess c n i then c ! i + 1 else c ! i) [0 ..< length c]"

definition head_deltas :: "degree_entries list \<Rightarrow> nat list \<Rightarrow> u64 \<Rightarrow> degree_delta list" where
  "head_deltas ess c n = map (\<lambda>i. snd (ess ! i ! (c ! i))) (filter (at_node ess c n) [0 ..< length c])"

abbreviation add_all_deltas :: "degree_delta list \<Rightarrow> degree_delta \<Rightarrow> degree_delta" where
  "add_all_deltas \<equiv> fold (\<lambda>d acc. add_assign_delta acc d)"

lemma at_node_update:
  "i < length c \<Longrightarrow> at_node ess (c[i := k]) n j = (if j = i then k < length (ess ! i) \<and> fst (ess ! i ! k) = n else at_node ess c n j)"
  by (simp add: at_node_def)

lemma consume_step:
  assumes "length c = length ess" and "i < length ess" and "at_node ess c n i"
  shows "consume_degree_cursor (map (opened crc) ess) c heap i acc =
    Some (c[i := c ! i + 1],
          (if c ! i + 1 < length (ess ! i) then insort (fst (ess ! i ! (c ! i + 1)), i) heap else heap),
          add_assign_delta acc (snd (ess ! i ! (c ! i))))"
  using assms by (auto simp: consume_degree_cursor_def entry_at_opened at_node_def split: prod.splits)

lemma heap_after:
  assumes ok: "heap_ok ess c ((n, i) # rest)" and sorted: "list_all entries_ok ess"
  shows "heap_ok ess (c[i := c ! i + 1])
      (if c ! i + 1 < length (ess ! i) then insort (fst (ess ! i ! (c ! i + 1)), i) rest else rest)"
    and "c ! i + 1 < length (ess ! i) \<Longrightarrow> n < fst (ess ! i ! (c ! i + 1))"
proof -
  have set: "insert (n, i) (set rest) = {(n, i). i < length ess \<and> at_node ess c n i}" and rest: "(n, i) \<notin> set rest"
    and len: "length c = length ess" and srt: "sorted rest" "distinct rest"
    using ok by (auto simp: heap_ok_def)
  then have i: "i < length ess" "at_node ess c n i" by auto
  have es: "entries_ok (ess ! i)" using sorted i(1) by (simp add: list_all_length)
  show next_node: "c ! i + 1 < length (ess ! i) \<Longrightarrow> n < fst (ess ! i ! (c ! i + 1))"
    using entries_sorted_nth [OF es, of "c ! i" "c ! i + 1"] i(2) by (simp add: at_node_def)
  have only: "(m, i) \<notin> set rest" for m
  proof
    assume m: "(m, i) \<in> set rest"
    then have "at_node ess c m i" using set by blast
    then have "m = n" using i(2) by (simp add: at_node_def)
    with m rest show False by simp
  qed
  have "set rest = {(m, j). j < length ess \<and> j \<noteq> i \<and> at_node ess c m j}"
    using set only rest by (auto simp: at_node_def)
  then show "heap_ok ess (c[i := c ! i + 1])
      (if c ! i + 1 < length (ess ! i) then insort (fst (ess ! i ! (c ! i + 1)), i) rest else rest)"
    using len srt i(1) only by (auto simp: heap_ok_def sorted_insort distinct_insort set_insort_key at_node_update)
qed

lemma no_heads:
  assumes "heap_ok ess c heap" and "\<forall>x \<in> set heap. n < fst x"
  shows "advance ess c n = c" and "head_deltas ess c n = []"
proof -
  have "\<not> at_node ess c n i" if "i < length c" for i
    using assms that by (force simp: heap_ok_def)
  then show "advance ess c n = c" and "head_deltas ess c n = []"
    by (auto simp: advance_def head_deltas_def filter_empty_conv intro: nth_equalityI)
qed

lemma head_deltas_first:
  assumes ok: "heap_ok ess c ((n, i) # rest)" and "list_all entries_ok ess"
  shows "head_deltas ess c n = snd (ess ! i ! (c ! i)) # head_deltas ess (c[i := c ! i + 1]) n"
    and "advance ess (c[i := c ! i + 1]) n = advance ess c n"
proof -
  let ?c = "c[i := c ! i + 1]"
  have i: "i < length c" "at_node ess c n i" using ok by (auto simp: heap_ok_def)
  have gone: "\<not> at_node ess ?c n i" using heap_after(2) [OF ok assms(2)] i(1) by (auto simp: at_node_update)
  have before: "\<not> at_node ess c n j" if "j < i" for j
  proof
    assume "at_node ess c n j"
    then have "(n, j) \<in> set ((n, i) # rest)" using ok that i(1) by (auto simp: heap_ok_def)
    with that have "(n, j) \<in> set rest" by simp
    with ok have "(n, i) \<le> (n, j)" unfolding heap_ok_def by fastforce
    with that show False by simp
  qed
  have upt: "[0 ..< length c] = [0 ..< i] @ i # [Suc i ..< length c]"
    using i(1) upt_add_eq_append [of 0 i "length c - i"] by (simp add: upt_conv_Cons)
  have same: "at_node ess ?c n j = at_node ess c n j" if "j \<noteq> i" for j using that i(1) by (simp add: at_node_update)
  have none: "filter (at_node ess c n) [0 ..< i] = []" "filter (at_node ess ?c n) [0 ..< i] = []"
    using before same by (auto simp: filter_empty_conv)
  have "filter (at_node ess ?c n) [Suc i ..< length c] = filter (at_node ess c n) [Suc i ..< length c]"
    using same by (intro filter_cong) auto
  then show "head_deltas ess c n = snd (ess ! i ! (c ! i)) # head_deltas ess ?c n"
    using i(2) gone none by (auto simp: head_deltas_def upt)
  show "advance ess ?c n = advance ess c n"
    using same gone i by (auto simp: advance_def nth_list_update)
qed

lemma drain_all:
  assumes "heap_ok ess c heap" and "list_all entries_ok ess" and "\<forall>x \<in> set heap. n \<le> fst x"
  shows "\<exists>heap'. drain_node (map (opened crc) ess) n c heap acc = Some (advance ess c n, heap', add_all_deltas (head_deltas ess c n) acc) \<and>
    heap_ok ess (advance ess c n) heap'"
  using assms
proof (induction "map (opened crc) ess" n c heap acc rule: drain_node.induct)
  case (1 n c heap acc)
  show ?case
  proof (cases heap)
    case Nil
    with no_heads [OF "1.prems"(1), of n] "1.prems"(1) show ?thesis by (simp add: drain_node.simps)
  next
    case (Cons x rest)
    obtain m i where x: "x = (m, i)" by (cases x)
    show ?thesis
    proof (cases "m = n")
      case True
      have ok: "heap_ok ess c ((n, i) # rest)" using "1.prems"(1) Cons x True by simp
      then have i: "length c = length ess" "i < length ess" "at_node ess c n i" by (auto simp: heap_ok_def)
      let ?c = "c[i := c ! i + 1]"
      let ?h = "if c ! i + 1 < length (ess ! i) then insort (fst (ess ! i ! (c ! i + 1)), i) rest else rest"
      let ?a = "add_assign_delta acc (snd (ess ! i ! (c ! i)))"
      note cons = consume_step [OF i, of crc rest acc]
      have later: "\<forall>x \<in> set ?h. n \<le> fst x"
        using heap_after(2) [OF ok "1.prems"(2)] "1.prems"(3) Cons by (auto simp: set_insort_key less_imp_le)
      have step: "drain_node (map (opened crc) ess) n c heap acc = drain_node (map (opened crc) ess) n ?c ?h ?a"
        by (subst drain_node.simps) (simp add: Cons x True cons del: if_split)
      from "1.hyps" [OF Cons x [symmetric] True cons refl refl heap_after(1) [OF ok "1.prems"(2)] "1.prems"(2) later]
      obtain heap' where "drain_node (map (opened crc) ess) n ?c ?h ?a =
          Some (advance ess ?c n, heap', add_all_deltas (head_deltas ess ?c n) ?a)" "heap_ok ess (advance ess ?c n) heap'" by blast
      then show ?thesis unfolding step head_deltas_first [OF ok "1.prems"(2)] by (intro exI [of _ heap']) simp
    next
      case False
      have "n < m" using "1.prems"(3) Cons x False by (simp add: less_le)
      moreover have "m \<le> fst y" if "y \<in> set rest" for y
        using "1.prems"(1) Cons x that by (cases y) (fastforce simp: heap_ok_def)
      ultimately have "\<forall>y \<in> set heap. n < fst y" using Cons x by (auto intro: less_le_trans)
      note none = no_heads [OF "1.prems"(1) this]
      have "drain_node (map (opened crc) ess) n c heap acc = Some (c, heap, acc)"
        using Cons x False by (subst drain_node.simps) simp
      then show ?thesis using none "1.prems"(1) by simp
    qed
  qed
qed

text \<open>The reference: for every node with entries left, the sum over the sidecars in their order.\<close>

definition ids_left :: "degree_entries list \<Rightarrow> nat list \<Rightarrow> u64 set" where
  "ids_left ess c = (\<Union>i < length ess. fst ` set (drop (c ! i) (ess ! i)))"

definition deltas_left :: "degree_entries list \<Rightarrow> nat list \<Rightarrow> u64 \<Rightarrow> degree_delta list" where
  "deltas_left ess c n = List.map_filter (\<lambda>i. map_of (drop (c ! i) (ess ! i)) n) [0 ..< length ess]"

definition merged_left :: "degree_entries list \<Rightarrow> nat list \<Rightarrow> degree_entries" where
  "merged_left ess c = filter (\<lambda>e. \<not> is_zero (snd e))
     (map (\<lambda>n. (n, add_all_deltas (deltas_left ess c n) DELTA_ZERO)) (sorted_list_of_set (ids_left ess c)))"

lemma finite_ids_left [simp]: "finite (ids_left ess c)"
  by (simp add: ids_left_def)

lemma heap_head:
  assumes ok: "heap_ok ess c ((n, i) # rest)" and sorted: "list_all entries_ok ess"
  shows "n \<in> ids_left ess c" and "m \<in> ids_left ess c \<Longrightarrow> n \<le> m"
proof -
  have i: "i < length ess" "at_node ess c n i" using ok by (auto simp: heap_ok_def)
  then have "ess ! i ! (c ! i) \<in> set (drop (c ! i) (ess ! i))"
    by (auto simp: at_node_def in_set_conv_nth intro!: exI [of _ 0])
  then show "n \<in> ids_left ess c" using i by (force simp: ids_left_def at_node_def)
  assume "m \<in> ids_left ess c"
  then obtain j where j: "j < length ess" "m \<in> fst ` set (drop (c ! j) (ess ! j))" by (auto simp: ids_left_def)
  then obtain k where k: "k < length (ess ! j) - c ! j" "m = fst (ess ! j ! (c ! j + k))"
    by (auto simp: in_set_conv_nth)
  have "entries_ok (ess ! j)" using sorted j(1) by (simp add: list_all_length)
  then have le: "fst (ess ! j ! (c ! j)) \<le> m"
    using entries_sorted_nth [of "ess ! j" "c ! j" "c ! j + k"] k by (cases "k = 0") (auto intro: less_imp_le)
  have "at_node ess c (fst (ess ! j ! (c ! j))) j" using k(1) by (simp add: at_node_def)
  then have "(fst (ess ! j ! (c ! j)), j) \<in> set ((n, i) # rest)" using ok j(1) by (auto simp: heap_ok_def)
  with ok have "n \<le> fst (ess ! j ! (c ! j))" unfolding heap_ok_def by fastforce
  from order_trans [OF this le] show "n \<le> m" .
qed

lemma drop_at_node:
  assumes "at_node ess c n j"
  shows "drop (c ! j) (ess ! j) = (n, snd (ess ! j ! (c ! j))) # drop (c ! j + 1) (ess ! j)"
  using assms Cons_nth_drop_Suc [of "c ! j" "ess ! j"] by (auto simp: at_node_def prod_eq_iff)

lemma drop_ids:
  assumes es: "entries_ok (ess ! j)" and least: "\<And>m. m \<in> fst ` set (drop (c ! j) (ess ! j)) \<Longrightarrow> n \<le> m"
  shows "\<not> at_node ess c n j \<Longrightarrow> n \<notin> fst ` set (drop (c ! j) (ess ! j))"
    and "at_node ess c n j \<Longrightarrow> n \<notin> fst ` set (drop (c ! j + 1) (ess ! j))"
proof -
  have later: "n \<noteq> fst (ess ! j ! k)" if "n \<le> fst (ess ! j ! (c ! j))" "c ! j < k" "k < length (ess ! j)" for k
    using entries_sorted_nth [OF es that(2,3)] that(1) by auto
  show "n \<notin> fst ` set (drop (c ! j) (ess ! j))" if no: "\<not> at_node ess c n j"
  proof
    assume mem: "n \<in> fst ` set (drop (c ! j) (ess ! j))"
    then obtain k where k: "k < length (ess ! j) - c ! j" "n = fst (ess ! j ! (c ! j + k))" by (auto simp: in_set_conv_nth)
    have "ess ! j ! (c ! j) \<in> set (drop (c ! j) (ess ! j))" using k(1) by (auto simp: in_set_conv_nth intro!: exI [of _ 0])
    then have "n \<le> fst (ess ! j ! (c ! j))" by (intro least) simp
    moreover have "c ! j + k < length (ess ! j)" using k(1) by simp
    ultimately show False using later [of "c ! j + k"] k no by (cases "k = 0") (auto simp: at_node_def)
  qed
  show "n \<notin> fst ` set (drop (c ! j + 1) (ess ! j))" if yes: "at_node ess c n j"
  proof
    assume "n \<in> fst ` set (drop (c ! j + 1) (ess ! j))"
    then obtain k where "k < length (ess ! j) - (c ! j + 1)" "n = fst (ess ! j ! (c ! j + 1 + k))" by (auto simp: in_set_conv_nth)
    moreover from this have "c ! j + 1 + k < length (ess ! j)" by simp
    ultimately show False using later [of "c ! j + 1 + k"] yes by (auto simp: at_node_def)
  qed
qed

lemma map_filter_filter: "List.map_filter (\<lambda>x. if P x then Some (f x) else None) xs = map f (filter P xs)"
  by (induction xs) (simp_all add: List.map_filter_simps)

lemma map_filter_cong: "(\<And>x. x \<in> set xs \<Longrightarrow> f x = g x) \<Longrightarrow> List.map_filter f xs = List.map_filter g xs"
proof (induction xs)
  case (Cons x xs)
  then have "f x = g x" "List.map_filter f xs = List.map_filter g xs" by simp_all
  then show ?case by (simp add: List.map_filter_simps split: option.split)
qed (simp add: List.map_filter_simps)

lemma node_deltas:
  assumes "length c = length ess" and "list_all entries_ok ess" and least: "\<And>m. m \<in> ids_left ess c \<Longrightarrow> n \<le> m"
  shows "deltas_left ess c n = head_deltas ess c n"
    and "m \<noteq> n \<Longrightarrow> deltas_left ess (advance ess c n) m = deltas_left ess c m"
    and "ids_left ess (advance ess c n) = ids_left ess c - {n}"
proof -
  have ids: "\<not> at_node ess c n j \<Longrightarrow> n \<notin> fst ` set (drop (c ! j) (ess ! j))"
    "at_node ess c n j \<Longrightarrow> n \<notin> fst ` set (drop (c ! j + 1) (ess ! j))" if "j < length ess" for j
    using drop_ids [of ess j c n] least assms(2) that by (auto simp: list_all_length ids_left_def)
  have adv: "advance ess c n ! j = (if at_node ess c n j then c ! j + 1 else c ! j)" if "j < length ess" for j
    using that assms(1) by (simp add: advance_def)
  have "map_of (drop (c ! j) (ess ! j)) n = (if at_node ess c n j then Some (snd (ess ! j ! (c ! j))) else None)" if "j < length ess" for j
    using ids(1) [OF that] by (auto simp: drop_at_node map_of_eq_None_iff)
  then show "deltas_left ess c n = head_deltas ess c n"
    unfolding deltas_left_def head_deltas_def map_filter_filter [symmetric] assms(1) by (intro map_filter_cong) simp
  have "map_of (drop (advance ess c n ! j) (ess ! j)) m = map_of (drop (c ! j) (ess ! j)) m" if "j < length ess" "m \<noteq> n" for j m
    using that by (simp add: adv drop_at_node)
  then show "m \<noteq> n \<Longrightarrow> deltas_left ess (advance ess c n) m = deltas_left ess c m"
    unfolding deltas_left_def by (intro map_filter_cong) simp
  have "fst ` set (drop (advance ess c n ! j) (ess ! j)) = fst ` set (drop (c ! j) (ess ! j)) - {n}" if "j < length ess" for j
    using ids [OF that] that by (auto simp: adv drop_at_node)
  then show "ids_left ess (advance ess c n) = ids_left ess c - {n}" by (auto simp: ids_left_def)
qed

lemma fold_cursors_merges:
  assumes "heap_ok ess c heap" and "list_all entries_ok ess"
  shows "fold_cursors (map (opened crc) ess) c heap = Some (merged_left ess c)"
  using assms(1)
proof (induction "card (ids_left ess c)" arbitrary: c heap rule: less_induct)
  case less
  show ?case
  proof (cases heap)
    case Nil
    have "drop (c ! j) (ess ! j) = []" if "j < length ess" for j
    proof (rule ccontr)
      assume "drop (c ! j) (ess ! j) \<noteq> []"
      then have "at_node ess c (fst (ess ! j ! (c ! j))) j" by (simp add: at_node_def)
      then show False using less.prems Nil that by (auto simp: heap_ok_def)
    qed
    then have "ids_left ess c = {}" by (simp add: ids_left_def)
    then show ?thesis using Nil by (simp add: fold_cursors.simps merged_left_def)
  next
    case (Cons x rest)
    obtain n i where x: "x = (n, i)" by (cases x)
    have ok: "heap_ok ess c ((n, i) # rest)" using less.prems Cons x by simp
    then have i: "length c = length ess" "i < length ess" "at_node ess c n i" by (auto simp: heap_ok_def)
    note head = heap_head [OF ok assms(2)]
    have node: "deltas_left ess c n = head_deltas ess c n" "ids_left ess (advance ess c n) = ids_left ess c - {n}"
      "\<And>m. m \<noteq> n \<Longrightarrow> deltas_left ess (advance ess c n) m = deltas_left ess c m"
      using node_deltas [OF i(1) assms(2), of n] head(2) by simp_all
    obtain c1 h1 s1 where cons: "consume_degree_cursor (map (opened crc) ess) c rest i DELTA_ZERO = Some (c1, h1, s1)"
      using consume_step [OF i, of crc rest DELTA_ZERO] by simp
    have "\<forall>x \<in> set ((n, i) # rest). n \<le> fst x" using ok unfolding heap_ok_def by fastforce
    from drain_all [OF ok assms(2) this, of crc DELTA_ZERO] obtain heap' where
      drain: "drain_node (map (opened crc) ess) n c ((n, i) # rest) DELTA_ZERO =
        Some (advance ess c n, heap', add_all_deltas (head_deltas ess c n) DELTA_ZERO)"
      and ok': "heap_ok ess (advance ess c n) heap'" by blast
    have drained: "drain_node (map (opened crc) ess) n c1 h1 s1 = drain_node (map (opened crc) ess) n c ((n, i) # rest) DELTA_ZERO"
      by (subst (2) drain_node.simps) (simp add: cons)
    have "card (ids_left ess (advance ess c n)) < card (ids_left ess c)"
      unfolding node(2) using head(1) by (intro card_Diff1_less) simp_all
    from less.hyps [OF this ok'] have rest_merged: "fold_cursors (map (opened crc) ess) (advance ess c n) heap' = Some (merged_left ess (advance ess c n))" .
    have "sorted_list_of_set (ids_left ess c) = n # sorted_list_of_set (ids_left ess c - {n})"
    proof -
      have "Min (ids_left ess c) = n" using head by (intro Min_eqI) auto
      then show ?thesis using head(1) sorted_list_of_set_nonempty [of "ids_left ess c"] by auto
    qed
    moreover have maps: "map (\<lambda>m. (m, add_all_deltas (deltas_left ess c m) DELTA_ZERO)) (sorted_list_of_set (ids_left ess c - {n})) =
        map (\<lambda>m. (m, add_all_deltas (deltas_left ess (advance ess c n) m) DELTA_ZERO)) (sorted_list_of_set (ids_left ess c - {n}))"
      using node(3) by (intro map_cong) simp_all
    ultimately have merged: "merged_left ess c = (let s = add_all_deltas (head_deltas ess c n) DELTA_ZERO in
        if is_zero s then merged_left ess (advance ess c n) else (n, s) # merged_left ess (advance ess c n))"
      using node(1,2) by (simp add: merged_left_def Let_def maps)
    show ?thesis
      using cons drain drained rest_merged by (subst fold_cursors.simps) (simp add: Cons x merged Let_def)
  qed
qed

section \<open>The whole fold\<close>

lemma enumerate_nth: "enumerate 0 xs = map (\<lambda>i. (i, xs ! i)) [0 ..< length xs]"
  by (auto intro!: nth_equalityI simp: nth_enumerate_eq)

lemma map_filter_map: "List.map_filter f (map g xs) = List.map_filter (\<lambda>x. f (g x)) xs"
  by (induction xs) (simp_all add: List.map_filter_simps split: option.split)

lemma initial_heap_ok:
  obtains heap where "initial_heap (map (opened crc) ess) = Some heap" and "heap_ok ess (replicate (length ess) 0) heap"
proof -
  define cs where "cs = map (\<lambda>es. if es = [] then None else Some (es ! 0 :: u64 \<times> degree_delta)) ess"
  have "those (map Some xs) = Some xs" for xs :: "(u64 \<times> degree_delta) option list" by (induction xs) simp_all
  moreover have "map (\<lambda>sc. entry_at sc 0) (map (opened crc) ess) = map Some cs" by (simp add: cs_def entry_at_opened)
  ultimately have those: "those (map (\<lambda>sc. entry_at sc 0) (map (opened crc) ess)) = Some cs" by (simp only:)
  define heads where "heads = map (\<lambda>i. (fst (ess ! i ! 0), i)) (filter (\<lambda>i. ess ! i \<noteq> []) [0 ..< length ess])"
  have "List.map_filter (\<lambda>(i, c). map_option (\<lambda>(n, _). (n, i)) c) (enumerate 0 cs) =
      List.map_filter (\<lambda>i. if ess ! i \<noteq> [] then Some (fst (ess ! i ! 0), i) else None) [0 ..< length ess]"
    unfolding enumerate_nth map_filter_map by (simp add: cs_def) (intro map_filter_cong, simp add: split_def)
  then have heap: "initial_heap (map (opened crc) ess) = Some (sort heads)"
    using those by (simp add: initial_heap_def heads_def map_filter_filter)
  have "distinct heads" by (simp add: heads_def distinct_map inj_on_def)
  moreover have "set heads = {(n, i). i < length ess \<and> at_node ess (replicate (length ess) 0) n i}"
    by (auto simp: heads_def at_node_def)
  ultimately have "heap_ok ess (replicate (length ess) 0) (sort heads)" by (simp add: heap_ok_def)
  with heap show ?thesis by (rule that)
qed

lemma block_multiples: "filter (\<lambda>i. i mod block_size = 0) [0 ..< n] = map (\<lambda>b. b * block_size) [0 ..< block_count_of n]"
proof (rule sorted_distinct_set_unique)
  have "i mod block_size = 0 \<and> i < n \<longleftrightarrow> (\<exists>b < block_count_of n. i = b * block_size)" for i
    using in_block [of i n] block_start [of _ n] by (auto simp: block_size_eq intro!: exI [of _ "i div 256"])
  moreover have "x \<in> set (filter (\<lambda>i. i mod block_size = 0) [0 ..< n]) \<longleftrightarrow> x mod block_size = 0 \<and> x < n" for x by auto
  moreover have "x \<in> set (map (\<lambda>b. b * block_size) [0 ..< block_count_of n]) \<longleftrightarrow> (\<exists>b < block_count_of n. x = b * block_size)" for x
    by auto
  ultimately show "set (filter (\<lambda>i. i mod block_size = 0) [0 ..< n]) = set (map (\<lambda>b. b * block_size) [0 ..< block_count_of n])"
    by (intro set_eqI) (simp only:)
qed (auto simp: sorted_wrt_filter sorted_wrt_map distinct_map inj_on_def block_size_eq intro: sorted_wrt_mono_rel [OF _ sorted_upt])

lemma collect_block_index_eq: "collect_block_index entries = block_index_of entries"
proof -
  have "collect_block_index entries = map (\<lambda>i. (fst (entries ! i), i)) (filter (\<lambda>i. i mod block_size = 0) [0 ..< length entries])"
    unfolding collect_block_index_def enumerate_nth map_filter_map map_filter_filter [symmetric]
    by (intro map_filter_cong) (simp add: split_def)
  then show ?thesis by (simp add: block_multiples block_index_of_def comp_def)
qed

definition folded_delta :: "degree_entries list \<Rightarrow> u64 \<Rightarrow> degree_delta" where
  "folded_delta ess n = add_all_deltas (List.map_filter (\<lambda>es. map_of es n) ess) DELTA_ZERO"

definition merged :: "degree_entries list \<Rightarrow> degree_entries" where
  "merged ess = merged_left ess (replicate (length ess) 0)"

lemma start_deltas: "deltas_left ess (replicate (length ess) 0) n = List.map_filter (\<lambda>es. map_of es n) ess"
proof -
  have "List.map_filter (\<lambda>es. map_of es n) ess = List.map_filter (\<lambda>es. map_of es n) (map (\<lambda>i. ess ! i) [0 ..< length ess])"
    by (simp add: map_nth)
  also have "\<dots> = List.map_filter (\<lambda>i. map_of (ess ! i) n) [0 ..< length ess]" by (rule map_filter_map)
  also have "\<dots> = deltas_left ess (replicate (length ess) 0) n"
    unfolding deltas_left_def by (intro map_filter_cong) simp
  finally show ?thesis by simp
qed

lemma merged_ok: "entries_ok (merged ess)"
  by (auto simp: merged_def merged_left_def entries_ok_def list_all_iff sorted_wrt_map sorted_wrt_filter)

lemma delta_zero_is_zero: "is_zero DELTA_ZERO"
  by (simp add: is_zero_def DELTA_ZERO_def f64_is_zero_def f64_exp_bits_def f64_fraction_def)

lemma delta_of_merged: "delta_of (merged ess) n = (if is_zero (folded_delta ess n) then DELTA_ZERO else folded_delta ess n)"
proof -
  let ?ids = "ids_left ess (replicate (length ess) 0)"
  have entry: "(n, d) \<in> set (merged ess) \<longleftrightarrow> n \<in> ?ids \<and> d = folded_delta ess n \<and> \<not> is_zero d" for d
    by (auto simp: merged_def merged_left_def start_deltas folded_delta_def)
  have outside: "folded_delta ess n = DELTA_ZERO" if "n \<notin> ?ids"
  proof -
    have "map_of es n = None" if es: "es \<in> set ess" for es
    proof -
      from es obtain i where "i < length ess" "es = ess ! i" by (auto simp: in_set_conv_nth)
      with \<open>n \<notin> ?ids\<close> show ?thesis by (auto simp: ids_left_def map_of_eq_None_iff)
    qed
    then have "List.map_filter (\<lambda>es. map_of es n) ess = List.map_filter (\<lambda>_. None) ess" by (intro map_filter_cong) simp
    then show ?thesis by (simp add: folded_delta_def List.map_filter_def)
  qed
  have "map_of (merged ess) n = (if n \<in> ?ids \<and> \<not> is_zero (folded_delta ess n) then Some (folded_delta ess n) else None)"
  proof (cases "map_of (merged ess) n")
    case None
    then have "(n, d) \<notin> set (merged ess)" for d by (force simp: map_of_eq_None_iff)
    then show ?thesis using None entry by auto
  next
    case (Some d)
    then show ?thesis using entry [of d] map_of_SomeD [OF Some] by auto
  qed
  then show ?thesis using outside delta_zero_is_zero by (auto simp: delta_of_def)
qed

lemma length_merged: "length (merged ess) \<le> sum_list (map length ess)"
proof -
  let ?ids = "ids_left ess (replicate (length ess) 0)"
  have "?ids = (\<Union>es \<in> (\<lambda>i. ess ! i) ` {0..<length ess}. fst ` set es)" by (auto simp: ids_left_def)
  then have ids: "?ids = (\<Union>es \<in> set ess. fst ` set es)" by (simp add: nth_image)
  have "length (merged ess) \<le> card ?ids"
    unfolding merged_def merged_left_def by (rule order_trans [OF length_filter_le]) simp
  also have "\<dots> \<le> sum_list (map length ess)"
    unfolding ids
  proof (induction ess)
    case (Cons es ess)
    have "card (\<Union>es \<in> set (es # ess). fst ` set es) \<le> card (fst ` set es) + card (\<Union>es \<in> set ess. fst ` set es)"
      by (simp add: card_Un_le)
    moreover have "card (fst ` set es) \<le> length es" by (metis card_image_le card_length finite_set order_trans)
    ultimately show ?case using Cons by simp
  qed simp
  finally show ?thesis .
qed

lemma folded_payload:
  assumes "list_all entries_ok ess" and "list_all (\<lambda>es. length es < 2 ^ 56) ess"
  shows "write_folded_degree_delta_sidecar_payload_from_sidecars crc (map (opened crc) ess) = Some (Inr (payload_of crc (merged ess)))"
proof -
  have valid: "validate_all crc (map (opened crc) ess) = Some (Inr ())"
    using assms by (induction ess) (simp_all add: payload_validates)
  obtain heap where heap: "initial_heap (map (opened crc) ess) = Some heap" "heap_ok ess (replicate (length ess) 0) heap"
    by (rule initial_heap_ok)
  have "for_each_folded_degree_entry (map (opened crc) ess) = Some (merged ess)"
    using fold_cursors_merges [OF heap(2) assms(1)] heap(1) by (simp add: for_each_folded_degree_entry_def merged_def)
  with valid show ?thesis
    by (simp add: write_folded_degree_delta_sidecar_payload_from_sidecars_def collect_block_index_eq payload_of_def Let_def)
qed

section \<open>Properties\<close>

text \<open>
  C19. A written sidecar is the map it was written from. For every list of entries the writer accepts
  (strictly sorted by node, no zero delta), the payload validates and opens, and a lookup, with its
  search over the block index and inside a block, returns for every node the delta of its entry and
  the zero delta for a node without one. No read leaves the payload.
\<close>

theorem sidecar_lookup_exact:
  assumes "write_sorted_degree_delta_sidecar_payload crc entries = Inr payload" and "length entries < 2 ^ 56"
  shows "validate_degree_sidecar crc payload = Some (Inr ()) \<and>
    (\<exists>sc. sidecar_open payload = Inr sc \<and>
      (\<forall>n. sidecar_lookup sc n = Some (case map_of entries n of Some d \<Rightarrow> d | None \<Rightarrow> DELTA_ZERO)))"
proof -
  have ok: "entries_ok entries" and payload: "payload = payload_of crc entries"
    using assms(1) by (auto simp: write_sorted_degree_delta_sidecar_payload_def r_bind_eq_Inr validate_sorted_iff encode_payload)
  show ?thesis
    using payload_validates [OF ok assms(2)] open_payload [OF assms(2)] lookup_opened [OF ok]
    unfolding payload delta_of_def by blast
qed

definition one_edge_entries :: degree_entries where
  "one_edge_entries = [(3, add_valid_edge 3 4 0), (4, add_valid_edge_incoming 0)]"

lemma one_edge_written:
  "write_sorted_degree_delta_sidecar_payload crc one_edge_entries = Inr (payload_of crc one_edge_entries)"
  by (simp add: write_sorted_degree_delta_sidecar_payload_def validate_sorted_degree_delta_entries_def one_edge_entries_def
      is_zero_def add_valid_edge_def add_valid_edge_incoming_def Let_def encode_payload)

theorem sidecar_lookup_exact_witness:
  "\<exists>sc. sidecar_open (payload_of (\<lambda>_. 7) one_edge_entries) = Inr sc \<and>
     sidecar_lookup sc 4 = Some (add_valid_edge_incoming 0) \<and> sidecar_lookup sc 5 = Some DELTA_ZERO"
proof -
  have "length one_edge_entries < 2 ^ 56" by (simp add: one_edge_entries_def)
  from sidecar_lookup_exact [OF one_edge_written this, of "\<lambda>_. 7"] obtain sc where
    sc: "sidecar_open (payload_of (\<lambda>_. 7) one_edge_entries) = Inr sc"
    "\<And>n. sidecar_lookup sc n = Some (case map_of one_edge_entries n of Some d \<Rightarrow> d | None \<Rightarrow> DELTA_ZERO)" by blast
  then show ?thesis by (simp add: one_edge_entries_def)
qed

text \<open>
  C20. Folding sidecars adds them up. Merging the sidecars of several segments with cursors and a heap
  never fails, writes a sidecar that validates and opens, and a lookup in it returns the sum, in the
  order of the segments, of the deltas that the merged sidecars hold for the node (the zero delta
  when they cancel): the merged file stands for all of them.
\<close>

theorem folded_sidecars_add_up:
  assumes "list_all2 (\<lambda>entries sc. \<exists>payload. write_sorted_degree_delta_sidecar_payload crc entries = Inr payload \<and>
      sidecar_open payload = Inr sc) ess scs"
    and "sum_list (map length ess) < 2 ^ 56"
  shows "\<exists>payload sc. write_folded_degree_delta_sidecar_payload_from_sidecars crc scs = Some (Inr payload) \<and>
    validate_degree_sidecar crc payload = Some (Inr ()) \<and> sidecar_open payload = Inr sc \<and>
    (\<forall>n. sidecar_lookup sc n = Some (
      let d = fold (\<lambda>d acc. add_assign_delta acc d) (List.map_filter (\<lambda>entries. map_of entries n) ess) DELTA_ZERO
      in if is_zero d then DELTA_ZERO else d))"
proof -
  have short: "length es < 2 ^ 56" if "es \<in> set ess" for es
    using member_le_sum_list [of "length es" "map length ess"] that assms(2) by simp
  have each: "entries_ok es \<and> sc = opened crc es" if "es \<in> set ess"
    "\<exists>payload. write_sorted_degree_delta_sidecar_payload crc es = Inr payload \<and> sidecar_open payload = Inr sc" for es sc
    using that(2) open_payload [OF short [OF that(1)], of crc]
    by (auto simp: write_sorted_degree_delta_sidecar_payload_def r_bind_eq_Inr validate_sorted_iff encode_payload)
  have "list_all entries_ok ess \<and> scs = map (opened crc) ess"
    using assms(1) each
  proof (induction ess scs rule: list_all2_induct)
    case (Cons es ess sc scs)
    have "entries_ok es \<and> sc = opened crc es" by (rule Cons.prems) (use Cons.hyps(1) in auto)
    moreover have "list_all entries_ok ess \<and> scs = map (opened crc) ess" by (rule Cons.IH, rule Cons.prems) auto
    ultimately show ?case by simp
  qed simp
  then have ok: "list_all entries_ok ess" and scs: "scs = map (opened crc) ess" by simp_all
  have len: "length (merged ess) < 2 ^ 56" using length_merged [of ess] assms(2) by simp
  have "write_folded_degree_delta_sidecar_payload_from_sidecars crc scs = Some (Inr (payload_of crc (merged ess)))"
    unfolding scs using ok short by (intro folded_payload) (simp_all add: list_all_iff)
  then show ?thesis
    using payload_validates [OF merged_ok len] open_payload [OF len] lookup_opened [OF merged_ok]
    by (intro exI conjI allI) (auto simp: delta_of_merged folded_delta_def Let_def)
qed

theorem folded_sidecars_add_up_witness:
  "\<exists>payload sc. write_folded_degree_delta_sidecar_payload_from_sidecars (\<lambda>_. 7)
       [opened (\<lambda>_. 7) one_edge_entries, opened (\<lambda>_. 7) one_edge_entries] = Some (Inr payload) \<and>
     sidecar_open payload = Inr sc \<and> map_option dd_in_degree (sidecar_lookup sc 4) = Some 2"
proof -
  have len: "length one_edge_entries < 2 ^ 56" by (simp add: one_edge_entries_def)
  have all: "list_all2 (\<lambda>entries sc. \<exists>payload. write_sorted_degree_delta_sidecar_payload (\<lambda>_. 7) entries = Inr payload \<and>
      sidecar_open payload = Inr sc) [one_edge_entries, one_edge_entries]
      [opened (\<lambda>_. 7) one_edge_entries, opened (\<lambda>_. 7) one_edge_entries]"
    using one_edge_written open_payload [OF len] by simp
  have "sum_list (map length [one_edge_entries, one_edge_entries]) < 2 ^ 56" by (simp add: one_edge_entries_def)
  from folded_sidecars_add_up [OF all this] obtain payload sc where
    sc: "write_folded_degree_delta_sidecar_payload_from_sidecars (\<lambda>_. 7)
       [opened (\<lambda>_. 7) one_edge_entries, opened (\<lambda>_. 7) one_edge_entries] = Some (Inr payload)" "sidecar_open payload = Inr sc"
    and look: "\<And>n. sidecar_lookup sc n = Some (
      let d = fold (\<lambda>d acc. add_assign_delta acc d) (List.map_filter (\<lambda>entries. map_of entries n) [one_edge_entries, one_edge_entries]) DELTA_ZERO
      in if is_zero d then DELTA_ZERO else d)" by blast
  have "map_option dd_in_degree (sidecar_lookup sc 4) = Some 2"
    unfolding look by (simp add: one_edge_entries_def List.map_filter_simps Let_def is_zero_def add_assign_delta_def
        add_valid_edge_incoming_def DELTA_ZERO_def)
  with sc show ?thesis by blast
qed

end
