(* ===== verification/Index_Targets.thy ===== *)
theory Index_Targets
  imports Memtable
begin

text \<open>
  Specifications of secondary indexes and the targets stored for them: what comes back from the
  manifest, and what the memtable reads of a record for each stored field.
\<close>

text \<open>
  What a specification asks for, independent of how it is stored: the value of a record that each
  of its fields names.
\<close>

definition specified_node_value :: "node_record \<Rightarrow> secondary_index_field \<Rightarrow> compound_field_value option" where
  "specified_node_value node field = (case field of
     PropertyField key \<Rightarrow> Some (PropertyValue (map_of (n_props node) key))
   | NodeMetadataField f \<Rightarrow> Some (case f of
        NodeIdField \<Rightarrow> MetadataU64 (n_id node)
      | NodeKeyField \<Rightarrow> MetadataString (n_key node)
      | NodeWeightField \<Rightarrow> MetadataF64 (f32_to_f64 (n_weight node))
      | NodeCreatedAtField \<Rightarrow> MetadataI64 (n_created_at node)
      | NodeUpdatedAtField \<Rightarrow> MetadataI64 (n_updated_at node))
   | EdgeMetadataField _ \<Rightarrow> None)"

definition specified_edge_value :: "edge_record \<Rightarrow> secondary_index_field \<Rightarrow> compound_field_value option" where
  "specified_edge_value edge field = (case field of
     PropertyField key \<Rightarrow> Some (PropertyValue (map_of (e_props edge) key))
   | NodeMetadataField _ \<Rightarrow> None
   | EdgeMetadataField f \<Rightarrow> Some (case f of
        EdgeIdField \<Rightarrow> MetadataU64 (e_id edge)
      | EdgeFromField \<Rightarrow> MetadataU64 (e_from edge)
      | EdgeToField \<Rightarrow> MetadataU64 (e_to edge)
      | EdgeWeightField \<Rightarrow> MetadataF64 (f32_to_f64 (e_weight edge))
      | EdgeCreatedAtField \<Rightarrow> MetadataI64 (e_created_at edge)
      | EdgeUpdatedAtField \<Rightarrow> MetadataI64 (e_updated_at edge)
      | EdgeValidFromField \<Rightarrow> MetadataI64 (e_valid_from edge)
      | EdgeValidToField \<Rightarrow> MetadataI64 (e_valid_to edge)))"

fun stored_fields :: "secondary_index_target \<Rightarrow> secondary_index_field_manifest list" where
  "stored_fields (NodeProperty _ prop_key) = [Property prop_key]"
| "stored_fields (EdgeProperty _ prop_key) = [Property prop_key]"
| "stored_fields (NodeFieldIndex _ fs) = fs"
| "stored_fields (EdgeFieldIndex _ fs) = fs"

lemma stored_value:
  assumes "from_public f = Inr g"
  shows "node_compound_field_value node g = specified_node_value node f"
    and "edge_compound_field_value edge g = specified_edge_value edge f"
  using assms
  by (cases f; auto simp: node_compound_field_value_def specified_node_value_def edge_compound_field_value_def
      specified_edge_value_def split: node_metadata_index_field.splits edge_metadata_index_field.splits)+

lemma stored_values:
  assumes "r_map from_public fs = Inr gs"
  shows "map (node_compound_field_value node) gs = map (specified_node_value node) fs \<and>
    map (edge_compound_field_value edge) gs = map (specified_edge_value edge) fs"
  using assms by (induction fs arbitrary: gs) (auto simp: r_bind_eq_Inr stored_value)

lemma target_for_values:
  assumes "target_for kind spec label = Inr t"
  shows "map (node_compound_field_value node) (stored_fields t) = map (specified_node_value node) (spec_fields spec) \<and>
    map (edge_compound_field_value edge) (stored_fields t) = map (specified_edge_value edge) (spec_fields spec)"
proof -
  from assms consider key where "spec_fields spec = [PropertyField key]" "stored_fields t = [Property key]"
    | "r_map from_public (spec_fields spec) = Inr (stored_fields t)"
    by (cases kind) (auto simp: target_for_def node_target_def edge_target_def r_bind_eq_Inr
        split: list.splits secondary_index_field.splits)
  then show ?thesis
    by cases (simp_all add: node_compound_field_value_def edge_compound_field_value_def specified_node_value_def
        specified_edge_value_def stored_values)
qed

text \<open>
  C40. The stored target of a specification keeps it. The logical identity read back from a manifest
  entry with that target is the target kind, label, fields and kind of the specification, so two
  declarations are the same index exactly when they were specified alike; and of every node and
  edge the stored fields pick the values that the specified fields name, in their order.
\<close>

theorem declared_identity_roundtrip:
  assumes "target_for kind spec label = Inr t"
  shows "secondary_index_logical_identity
      \<lparr>sie_index_id = i, sie_target = t, sie_kind = spec_kind spec, sie_state = st, sie_last_error = le\<rparr> =
    Inr \<lparr>id_target_kind = kind, id_label_id = label, id_fields = spec_fields spec, id_kind = spec_kind spec\<rparr> \<and>
    map (node_compound_field_value node) (stored_fields t) = map (specified_node_value node) (spec_fields spec) \<and>
    map (edge_compound_field_value edge) (stored_fields t) = map (specified_edge_value edge) (spec_fields spec)"
  using target_for_valid [OF assms] target_for_shape [OF assms] target_for_values [OF assms]
  by (simp add: secondary_index_logical_identity_def validate_secondary_index_target_def)

theorem declared_identity_roundtrip_witness:
  "\<exists>t. target_for NodeTarget \<lparr>spec_fields = [PropertyField [97], NodeMetadataField NodeCreatedAtField], spec_kind = Equality\<rparr> 7 = Inr t \<and>
     stored_fields t = [Property [97], NodeMetadata NmCreatedAt] \<and>
     secondary_index_logical_identity
      \<lparr>sie_index_id = 1, sie_target = t, sie_kind = Equality, sie_state = Ready, sie_last_error = None\<rparr> =
     Inr \<lparr>id_target_kind = NodeTarget, id_label_id = 7, id_fields = [PropertyField [97], NodeMetadataField NodeCreatedAtField],
        id_kind = Equality\<rparr>"
proof -
  let ?spec = "\<lparr>spec_fields = [PropertyField [97], NodeMetadataField NodeCreatedAtField], spec_kind = Equality\<rparr>"
  have t: "target_for NodeTarget ?spec 7 = Inr (NodeFieldIndex 7 [Property [97], NodeMetadata NmCreatedAt])"
    by (simp add: target_for_def node_target_def validate_for_node_def validate_secondary_index_fields_def
        MAX_SECONDARY_INDEX_FIELDS_def check_index_field_def)
  show ?thesis using declared_identity_roundtrip [OF t, of 1 Ready None] t by simp
qed

end
