(* ===== verification/Segment_Io.thy ===== *)
theory Segment_Io
  imports Memtable Byte_Layout
begin

text \<open>
  Reading segment files, \<^verbatim>\<open>src/src/segment_reader.rs\<close>: the bounds-checked field readers, the binary
  searches over sorted tables, the cost model that picks a strategy for a batch, and the two
  strategies. A component file is its payload, a list of bytes. Offsets are computed in \<^verbatim>\<open>usize\<close> and
  wrap in a release build; the readers reduce the offset they are given. A panic (an index outside
  a result vector) is \<open>None\<close> around the result.
\<close>

section \<open>Fallible computations that may panic\<close>

definition t_bind :: "('e + 'a) option \<Rightarrow> ('a \<Rightarrow> ('e + 'b) option) \<Rightarrow> ('e + 'b) option" where
  "t_bind m f = (case m of None \<Rightarrow> None | Some (Inl e) \<Rightarrow> Some (Inl e) | Some (Inr a) \<Rightarrow> f a)"

lemma t_bind_simps [simp]:
  "t_bind None f = None" "t_bind (Some (Inl e)) f = Some (Inl e)" "t_bind (Some (Inr a)) f = f a"
  by (simp_all add: t_bind_def)

lemma t_bind_cong [fundef_cong]:
  "m = m' \<Longrightarrow> (\<And>a. m' = Some (Inr a) \<Longrightarrow> f a = f' a) \<Longrightarrow> t_bind m f = t_bind m' f'"
  by (auto simp: t_bind_def split: option.splits sum.splits)

section \<open>Fields\<close>

definition word_at :: "string \<Rightarrow> string \<Rightarrow> bytes \<Rightarrow> nat \<Rightarrow> engine_error + 'a::len word" where
  "word_at overflow short data offset =
     (let offset = offset mod 2 ^ 64; width = LENGTH('a) div 8 in
      if offset + width \<ge> 2 ^ 64 then Inl (CorruptRecord overflow)
      else case get_range data offset (offset + width) of
        None \<Rightarrow> Inl (CorruptRecord short) | Some bs \<Rightarrow> Inr (from_le_bytes bs))"

definition seg_u8_at :: "bytes \<Rightarrow> nat \<Rightarrow> engine_error + u8" where
  "seg_u8_at data offset =
     (let offset = offset mod 2 ^ 64 in
      if offset < length data then Inr (data ! offset) else Inl (CorruptRecord ''u8 read exceeds data length''))"

definition seg_u16_at :: "bytes \<Rightarrow> nat \<Rightarrow> engine_error + u16" where
  "seg_u16_at = word_at ''u16 offset overflow'' ''u16 read exceeds data length''"

definition seg_u32_at :: "bytes \<Rightarrow> nat \<Rightarrow> engine_error + u32" where
  "seg_u32_at = word_at ''u32 offset overflow'' ''u32 read exceeds data length''"

definition seg_u64_at :: "bytes \<Rightarrow> nat \<Rightarrow> engine_error + u64" where
  "seg_u64_at = word_at ''u64 offset overflow'' ''u64 read exceeds data length''"

definition seg_i64_at :: "bytes \<Rightarrow> nat \<Rightarrow> engine_error + i64" where
  "seg_i64_at = word_at ''i64 offset overflow'' ''i64 read exceeds data length''"

definition seg_f32_at :: "bytes \<Rightarrow> nat \<Rightarrow> engine_error + f32" where
  "seg_f32_at = word_at ''f32 offset overflow'' ''f32 read exceeds data length''"

definition read_bytes_at :: "bytes \<Rightarrow> nat \<Rightarrow> nat \<Rightarrow> engine_error + bytes" where
  "read_bytes_at data offset len =
     (let offset = offset mod 2 ^ 64 in
      if offset + len \<ge> 2 ^ 64 then Inl (CorruptRecord ''byte slice offset overflow'')
      else case get_range data offset (offset + len) of
        None \<Rightarrow> Inl (CorruptRecord ''byte slice exceeds data length'') | Some bs \<Rightarrow> Inr bs)"

text \<open>
  Unsigned varints. The accumulator is shifted in a 64-bit word; bits beyond it are lost. The loop
  gives up before an eleventh byte.
\<close>

function varint_loop :: "bytes \<Rightarrow> u64 \<Rightarrow> nat \<Rightarrow> nat \<Rightarrow> nat \<Rightarrow> engine_error + (u64 \<times> nat)" where
  "varint_loop data result shift pos offset =
     (if pos \<ge> length data then Inl (CorruptRecord ''varint read exceeds data length'')
      else let byte = data ! pos; pos = pos + 1; result = result OR push_bit shift (ucast (byte AND 0x7F)) in
        if byte AND 0x80 = 0 then Inr (result, pos - offset)
        else if shift + 7 \<ge> 70 then Inl (CorruptRecord ''varint too long'')
        else varint_loop data result (shift + 7) pos offset)"
  by pat_completeness auto
termination by (relation "measure (\<lambda>(data, _, _, pos, _). length data - pos)") auto

declare varint_loop.simps [simp del]

definition read_varint_at :: "bytes \<Rightarrow> nat \<Rightarrow> engine_error + (u64 \<times> nat)" where
  "read_varint_at data offset = varint_loop data 0 0 (offset mod 2 ^ 64) (offset mod 2 ^ 64)"

definition checked_adj_edge_id_delta :: "u64 \<Rightarrow> u64 \<Rightarrow> engine_error + u64" where
  "checked_adj_edge_id_delta prev_edge_id delta =
     (if unat prev_edge_id + unat delta < 2 ^ 64 then Inr (prev_edge_id + delta)
      else Inl (CorruptRecord ''adjacency edge id delta overflow''))"

section \<open>Binary search\<close>

text \<open>
  The loops of the file readers over the positions \<open>lo ..< hi\<close> of a table, with the read of a position
  as a parameter: the first position where \<open>is_below\<close> fails; any position that compares equal; the
  first one that does.
\<close>

function lower_bound_loop :: "(nat \<Rightarrow> 'e + 'k) \<Rightarrow> ('k \<Rightarrow> bool) \<Rightarrow> nat \<Rightarrow> nat \<Rightarrow> 'e + nat" where
  "lower_bound_loop read is_below lo hi =
     (if lo < hi then
        (let mid = lo + (hi - lo) div 2 in
         r_bind (read mid) (\<lambda>key.
           if is_below key then lower_bound_loop read is_below (mid + 1) hi else lower_bound_loop read is_below lo mid))
      else Inr lo)"
  by pat_completeness auto
termination by (relation "measure (\<lambda>(_, _, lo, hi). hi - lo)") auto

function search_loop :: "(nat \<Rightarrow> 'e + 'k) \<Rightarrow> ('k \<Rightarrow> ordering) \<Rightarrow> nat \<Rightarrow> nat \<Rightarrow> 'e + nat option" where
  "search_loop read judge lo hi =
     (if lo < hi then
        (let mid = lo + (hi - lo) div 2 in
         r_bind (read mid) (\<lambda>key. case judge key of
             Less \<Rightarrow> search_loop read judge (mid + 1) hi
           | Greater \<Rightarrow> search_loop read judge lo mid
           | Equal \<Rightarrow> Inr (Some mid)))
      else Inr None)"
  by pat_completeness auto
termination by (relation "measure (\<lambda>(_, _, lo, hi). hi - lo)") auto

function search_first_loop :: "(nat \<Rightarrow> 'e + 'k) \<Rightarrow> ('k \<Rightarrow> ordering) \<Rightarrow> nat option \<Rightarrow> nat \<Rightarrow> nat \<Rightarrow> 'e + nat option" where
  "search_first_loop read judge found lo hi =
     (if lo < hi then
        (let mid = lo + (hi - lo) div 2 in
         r_bind (read mid) (\<lambda>key. case judge key of
             Less \<Rightarrow> search_first_loop read judge found (mid + 1) hi
           | Greater \<Rightarrow> search_first_loop read judge found lo mid
           | Equal \<Rightarrow> search_first_loop read judge (Some mid) lo mid))
      else Inr found)"
  by pat_completeness auto
termination by (relation "measure (\<lambda>(_, _, _, lo, hi). hi - lo)") auto

declare lower_bound_loop.simps [simp del] search_loop.simps [simp del] search_first_loop.simps [simp del]

definition compare_keys :: "'k::linorder \<Rightarrow> 'k \<Rightarrow> ordering" where
  "compare_keys target key = (if key < target then Less else if target < key then Greater else Equal)"

section \<open>The strategy of a batch\<close>

datatype batch_read_strategy = SeekPerKey | MergeWalk

definition BATCH_RANDOM_ACCESS_PENALTY :: nat where
  "BATCH_RANDOM_ACCESS_PENALTY = 4"

definition saturating_mul :: "nat \<Rightarrow> nat \<Rightarrow> nat" where
  "saturating_mul a b = min (a * b) USIZE_MAX"

fun bit_count :: "nat \<Rightarrow> nat" where
  "bit_count n = (if n = 0 then 0 else Suc (bit_count (n div 2)))"

declare bit_count.simps [simp del]

definition ceil_log2_usize :: "nat \<Rightarrow> nat" where
  "ceil_log2_usize n = (if n \<le> 1 then 0 else bit_count (n - 1))"

definition key_position :: "nat \<Rightarrow> nat \<Rightarrow> nat \<Rightarrow> nat \<Rightarrow> nat" where
  "key_position idx_start row_size key_offset i = idx_start + i * row_size + key_offset"

definition lower_bound_u64_index :: "bytes \<Rightarrow> nat \<Rightarrow> nat \<Rightarrow> nat \<Rightarrow> nat \<Rightarrow> u64 \<Rightarrow> engine_error + nat" where
  "lower_bound_u64_index data idx_start count row_size key_offset target =
     lower_bound_loop (\<lambda>mid. seg_u64_at data (key_position idx_start row_size key_offset mid)) (\<lambda>key. key < target) 0 count"

definition upper_bound_u64_index :: "bytes \<Rightarrow> nat \<Rightarrow> nat \<Rightarrow> nat \<Rightarrow> nat \<Rightarrow> u64 \<Rightarrow> engine_error + nat" where
  "upper_bound_u64_index data idx_start count row_size key_offset target =
     lower_bound_loop (\<lambda>mid. seg_u64_at data (key_position idx_start row_size key_offset mid)) (\<lambda>key. key \<le> target) 0 count"

definition strategy_of_cost :: "nat \<Rightarrow> nat \<Rightarrow> nat \<Rightarrow> nat \<Rightarrow> batch_read_strategy" where
  "strategy_of_cost unique_keys index_count span_start span_end =
     (let span = max (span_end - span_start) unique_keys;
          seek_cost = saturating_mul (saturating_mul unique_keys (ceil_log2_usize index_count)) BATCH_RANDOM_ACCESS_PENALTY
      in if seek_cost \<le> span then SeekPerKey else MergeWalk)"

definition choose_batch_read_strategy ::
    "bytes \<Rightarrow> nat \<Rightarrow> nat \<Rightarrow> nat \<Rightarrow> nat \<Rightarrow> nat \<Rightarrow> u64 \<Rightarrow> u64 \<Rightarrow> engine_error + batch_read_strategy" where
  "choose_batch_read_strategy index_data idx_start index_count row_size key_offset unique_keys min_key max_key =
     (if unique_keys \<le> 2 \<or> index_count \<le> 1 then Inr SeekPerKey
      else r_bind (lower_bound_u64_index index_data idx_start index_count row_size key_offset min_key) (\<lambda>span_start.
           r_bind (upper_bound_u64_index index_data idx_start index_count row_size key_offset max_key) (\<lambda>span_end.
             Inr (strategy_of_cost unique_keys index_count span_start span_end))))"

text \<open>The number of runs of equal keys.\<close>

fun count_runs :: "'k option \<Rightarrow> 'k list \<Rightarrow> nat" where
  "count_runs prev [] = 0"
| "count_runs prev (k # ks) = (if prev \<noteq> Some k then Suc (count_runs (Some k) ks) else count_runs prev ks)"

section \<open>Batches\<close>

text \<open>
  The two strategies over lookups sorted by key. Seeking searches every key anew, except that a
  repeated key reuses the last search. Walking moves one cursor through the table. Keys that
  \<open>skip\<close> selects (tombstones) are passed over.
\<close>

fun seek_batch ::
    "(u64 \<Rightarrow> bool) \<Rightarrow> (u64 \<Rightarrow> 'e + 'p option) \<Rightarrow> ('p \<Rightarrow> u64 \<Rightarrow> 'e + 'r) \<Rightarrow> (nat \<times> u64) list \<Rightarrow> (u64 \<times> 'p option) option
       \<Rightarrow> 'r option list \<Rightarrow> ('e + 'r option list) option" where
  "seek_batch skip search decode [] prev results = Some (Inr results)"
| "seek_batch skip search decode ((orig_idx, target_id) # lookups) prev results =
     (if skip target_id then seek_batch skip search decode lookups prev results
      else t_bind (Some (case prev of
            Some (prev_id, prev_entry) \<Rightarrow> if prev_id = target_id then Inr prev_entry else search target_id
          | None \<Rightarrow> search target_id)) (\<lambda>entry. case entry of
          None \<Rightarrow> seek_batch skip search decode lookups (Some (target_id, entry)) results
        | Some place \<Rightarrow> t_bind (Some (decode place target_id)) (\<lambda>record.
            if orig_idx < length results
            then seek_batch skip search decode lookups (Some (target_id, entry)) (results[orig_idx := Some record])
            else None)))"

text \<open>The seek loop of the metadata reads caches the decoded row and writes misses as well.\<close>

fun seek_meta_batch ::
    "(u64 \<Rightarrow> bool) \<Rightarrow> (u64 \<Rightarrow> 'e + 'r option) \<Rightarrow> (nat \<times> u64) list \<Rightarrow> (u64 \<times> 'r option) option
       \<Rightarrow> 'r option list \<Rightarrow> ('e + 'r option list) option" where
  "seek_meta_batch skip read [] prev results = Some (Inr results)"
| "seek_meta_batch skip read ((orig_idx, target_id) # lookups) prev results =
     (if skip target_id then seek_meta_batch skip read lookups prev results
      else t_bind (Some (case prev of
            Some (prev_id, prev_meta) \<Rightarrow> if prev_id = target_id then Inr prev_meta else read target_id
          | None \<Rightarrow> read target_id)) (\<lambda>meta.
            if orig_idx < length results
            then seek_meta_batch skip read lookups (Some (target_id, meta)) (results[orig_idx := meta])
            else None))"

function walk_to :: "(nat \<Rightarrow> 'e + 'k::linorder) \<Rightarrow> nat \<Rightarrow> 'k \<Rightarrow> nat \<Rightarrow> 'e + (nat \<times> bool)" where
  "walk_to read_id count target_id idx_pos =
     (if idx_pos < count then
        r_bind (read_id idx_pos) (\<lambda>row_id.
          if row_id < target_id then walk_to read_id count target_id (idx_pos + 1) else Inr (idx_pos, row_id = target_id))
      else Inr (idx_pos, False))"
  by pat_completeness auto
termination by (relation "measure (\<lambda>(_, count, _, pos). count - pos)") auto

declare walk_to.simps [simp del]

fun walk_batch ::
    "(u64 \<Rightarrow> bool) \<Rightarrow> (nat \<Rightarrow> 'e + u64) \<Rightarrow> nat \<Rightarrow> (nat \<Rightarrow> u64 \<Rightarrow> 'e + 'r) \<Rightarrow> (nat \<times> u64) list \<Rightarrow> nat
       \<Rightarrow> 'r option list \<Rightarrow> ('e + 'r option list) option" where
  "walk_batch skip read_id count decode [] idx_pos results = Some (Inr results)"
| "walk_batch skip read_id count decode ((orig_idx, target_id) # lookups) idx_pos results =
     (if skip target_id then walk_batch skip read_id count decode lookups idx_pos results
      else t_bind (Some (walk_to read_id count target_id idx_pos)) (\<lambda>(idx_pos, hit).
        if hit then t_bind (Some (decode idx_pos target_id)) (\<lambda>record.
          if orig_idx < length results
          then walk_batch skip read_id count decode lookups idx_pos (results[orig_idx := Some record])
          else None)
        else walk_batch skip read_id count decode lookups idx_pos results))"

section \<open>An open segment\<close>

text \<open>The payloads of the required components, and the tombstones loaded when the segment is opened.\<close>

record segment_reader =
  sr_nodes :: bytes
  sr_edges :: bytes
  sr_adj_out_idx :: bytes
  sr_adj_out_dat :: bytes
  sr_adj_in_idx :: bytes
  sr_adj_in_dat :: bytes
  sr_key_index :: bytes
  sr_node_label_index :: bytes
  sr_edge_label_index :: bytes
  sr_edge_triple_index :: bytes
  sr_timestamp_index :: bytes
  sr_node_meta :: bytes
  sr_edge_meta :: bytes
  sr_node_vector_meta :: bytes
  sr_node_dense_vectors :: bytes
  sr_node_sparse_vectors :: bytes
  sr_deleted_nodes :: "(u64, tombstone_entry) fmap"
  sr_deleted_edges :: "(u64, tombstone_entry) fmap"

end
