(* ===== verification/Segment_Search.thy ===== *)
theory Segment_Search
  imports Segment_Io
begin

text \<open>
  The searches and batches of \<open>Segment_Io\<close> on well-formed tables: each search finds what a linear scan
  would, the strategy of a batch is always chosen, and both strategies fill in exactly the entries
  that reading each key alone would.
\<close>

section \<open>Fields\<close>

lemma word_at_range:
  assumes "8 dvd LENGTH('a::len)" and "get_range data a (a + LENGTH('a) div 8) = Some (to_le_bytes w)"
    and "a + LENGTH('a) div 8 < 2 ^ 64"
  shows "word_at e1 e2 data a = Inr (w :: 'a word)"
  using assms by (simp add: word_at_def)

lemma field_reads:
  "get_range data a (a + 2) = Some (to_le_bytes w2) \<Longrightarrow> a + 2 < 2 ^ 64 \<Longrightarrow> seg_u16_at data a = Inr w2"
  "get_range data a (a + 4) = Some (to_le_bytes w4) \<Longrightarrow> a + 4 < 2 ^ 64 \<Longrightarrow> seg_u32_at data a = Inr w4"
  "get_range data a (a + 8) = Some (to_le_bytes w8) \<Longrightarrow> a + 8 < 2 ^ 64 \<Longrightarrow> seg_u64_at data a = Inr w8"
  "get_range data a (a + 8) = Some (to_le_bytes w8) \<Longrightarrow> a + 8 < 2 ^ 64 \<Longrightarrow> seg_i64_at data a = Inr w8"
  "get_range data a (a + 4) = Some (to_le_bytes w4) \<Longrightarrow> a + 4 < 2 ^ 64 \<Longrightarrow> seg_f32_at data a = Inr w4"
  unfolding seg_u16_at_def seg_u32_at_def seg_u64_at_def seg_i64_at_def seg_f32_at_def
  by (rule word_at_range; simp)+

lemmas field_reads_off = field_reads [where a = "off + k" for off k, unfolded add.assoc]

lemma read_bytes_range:
  "get_range data a (a + k) = Some bs \<Longrightarrow> a + k < 2 ^ 64 \<Longrightarrow> read_bytes_at data a k = Inr bs"
  by (simp add: read_bytes_at_def)

lemma get_range_bound: "get_range data a b = Some bs \<Longrightarrow> a \<le> b \<and> b \<le> length data"
  by (auto simp: get_range_def split: if_splits)

section \<open>Searches\<close>

definition rows_ok :: "(nat \<Rightarrow> 'e + 'k) \<Rightarrow> 'k list \<Rightarrow> bool" where
  "rows_ok read xs \<longleftrightarrow> (\<forall>i < length xs. read i = Inr (xs ! i))"

lemma rows_okD: "rows_ok read xs \<Longrightarrow> i < length xs \<Longrightarrow> read i = Inr (xs ! i)"
  by (simp add: rows_ok_def)

lemma lower_bound_loop_rows:
  assumes rows: "rows_ok read xs" and down: "\<And>i j. i \<le> j \<Longrightarrow> j < length xs \<Longrightarrow> P (xs ! j) \<Longrightarrow> P (xs ! i)"
    and "hi \<le> length xs" and "lo \<le> hi"
  shows "\<exists>p. lower_bound_loop read P lo hi = Inr p \<and> lo \<le> p \<and> p \<le> hi \<and>
    (\<forall>i. lo \<le> i \<longrightarrow> i < p \<longrightarrow> P (xs ! i)) \<and> (\<forall>i. p \<le> i \<longrightarrow> i < hi \<longrightarrow> \<not> P (xs ! i))"
  using assms(3,4)
proof (induction "hi - lo" arbitrary: lo hi rule: less_induct)
  case less
  show ?case
  proof (cases "lo < hi")
    case True
    define mid where "mid = lo + (hi - lo) div 2"
    have mid: "lo \<le> mid" "mid < hi" using True by (simp_all add: mid_def)
    have read: "read mid = Inr (xs ! mid)" using rows mid less.prems by (simp add: rows_okD)
    show ?thesis
    proof (cases "P (xs ! mid)")
      case True
      have step: "lower_bound_loop read P lo hi = lower_bound_loop read P (mid + 1) hi"
        using mid read True by (subst lower_bound_loop.simps) (simp add: mid_def [symmetric] Let_def)
      have "\<forall>i. lo \<le> i \<longrightarrow> i < mid + 1 \<longrightarrow> P (xs ! i)" using down [of _ mid] True mid less.prems by auto
      moreover have "hi - (mid + 1) < hi - lo" using mid by simp
      from less.hyps [OF this] obtain p where "lower_bound_loop read P (mid + 1) hi = Inr p" "mid + 1 \<le> p" "p \<le> hi"
          "\<forall>i. mid + 1 \<le> i \<longrightarrow> i < p \<longrightarrow> P (xs ! i)" "\<forall>i. p \<le> i \<longrightarrow> i < hi \<longrightarrow> \<not> P (xs ! i)"
        using mid less.prems by auto
      ultimately have "lo \<le> p \<and> (\<forall>i. lo \<le> i \<longrightarrow> i < p \<longrightarrow> P (xs ! i))" using mid by (metis not_le order_trans le_add1)
      with \<open>lower_bound_loop read P (mid + 1) hi = Inr p\<close> \<open>p \<le> hi\<close> \<open>\<forall>i. p \<le> i \<longrightarrow> i < hi \<longrightarrow> \<not> P (xs ! i)\<close>
      show ?thesis unfolding step by blast
    next
      case False
      have step: "lower_bound_loop read P lo hi = lower_bound_loop read P lo mid"
        using mid read False by (subst lower_bound_loop.simps) (simp add: mid_def [symmetric] Let_def)
      have "\<not> P (xs ! i)" if "mid \<le> i" "i < hi" for i using down [OF that(1)] that(2) False less.prems by fastforce
      moreover have "mid - lo < hi - lo" using mid by simp
      from less.hyps [OF this] obtain p where "lower_bound_loop read P lo mid = Inr p" "lo \<le> p" "p \<le> mid"
          "\<forall>i. lo \<le> i \<longrightarrow> i < p \<longrightarrow> P (xs ! i)" "\<forall>i. p \<le> i \<longrightarrow> i < mid \<longrightarrow> \<not> P (xs ! i)"
        using mid less.prems by auto
      ultimately have "p \<le> hi \<and> (\<forall>i. p \<le> i \<longrightarrow> i < hi \<longrightarrow> \<not> P (xs ! i))" using mid by (metis not_le order_trans less_imp_le)
      with \<open>lower_bound_loop read P lo mid = Inr p\<close> \<open>lo \<le> p\<close> \<open>\<forall>i. lo \<le> i \<longrightarrow> i < p \<longrightarrow> P (xs ! i)\<close>
      show ?thesis unfolding step by blast
    qed
  next
    case False
    then show ?thesis using less.prems by (subst lower_bound_loop.simps) auto
  qed
qed

text \<open>A search finds the target where it is, and reports a miss only when it is not there.\<close>

lemma search_loop_rows:
  assumes rows: "rows_ok read xs" and sorted: "sorted xs" and "hi \<le> length xs"
  shows "\<exists>r. search_loop read (compare_keys t) lo hi = Inr r \<and>
    (case r of Some i \<Rightarrow> lo \<le> i \<and> i < hi \<and> xs ! i = t | None \<Rightarrow> \<forall>i. lo \<le> i \<longrightarrow> i < hi \<longrightarrow> xs ! i \<noteq> t)"
  using assms(3)
proof (induction "hi - lo" arbitrary: lo hi rule: less_induct)
  case less
  show ?case
  proof (cases "lo < hi")
    case True
    define mid where "mid = lo + (hi - lo) div 2"
    have mid: "lo \<le> mid" "mid < hi" using True by (simp_all add: mid_def)
    have read: "read mid = Inr (xs ! mid)" using rows mid less.prems by (simp add: rows_okD)
    have step: "search_loop read (compare_keys t) lo hi = (if xs ! mid < t then search_loop read (compare_keys t) (mid + 1) hi
        else if t < xs ! mid then search_loop read (compare_keys t) lo mid else Inr (Some mid))"
      using mid read by (subst search_loop.simps) (simp add: mid_def [symmetric] Let_def compare_keys_def)
    consider "xs ! mid < t" | "t < xs ! mid" | "xs ! mid = t" by fastforce
    then show ?thesis
    proof cases
      case 1
      have left: "xs ! i \<noteq> t" if "i \<le> mid" for i
        using sorted_nth_mono [OF sorted that] 1 mid less.prems by fastforce
      have "hi - (mid + 1) < hi - lo" using mid by simp
      from less.hyps [OF this less.prems] obtain r where r: "search_loop read (compare_keys t) (mid + 1) hi = Inr r"
          "case r of Some i \<Rightarrow> mid + 1 \<le> i \<and> i < hi \<and> xs ! i = t | None \<Rightarrow> \<forall>i. mid + 1 \<le> i \<longrightarrow> i < hi \<longrightarrow> xs ! i \<noteq> t"
        by blast
      have "case r of Some i \<Rightarrow> lo \<le> i \<and> i < hi \<and> xs ! i = t | None \<Rightarrow> \<forall>i. lo \<le> i \<longrightarrow> i < hi \<longrightarrow> xs ! i \<noteq> t"
        using r(2) left mid by (cases r) (auto simp: Suc_le_eq, metis not_le)
      with 1 r(1) show ?thesis unfolding step by auto
    next
      case 2
      have right: "xs ! i \<noteq> t" if "mid \<le> i" "i < hi" for i
        using sorted_nth_mono [OF sorted that(1)] 2 that(2) less.prems by fastforce
      have "mid - lo < hi - lo" "mid \<le> length xs" using mid less.prems by simp_all
      from less.hyps [OF this] obtain r where r: "search_loop read (compare_keys t) lo mid = Inr r"
          "case r of Some i \<Rightarrow> lo \<le> i \<and> i < mid \<and> xs ! i = t | None \<Rightarrow> \<forall>i. lo \<le> i \<longrightarrow> i < mid \<longrightarrow> xs ! i \<noteq> t"
        by blast
      have "case r of Some i \<Rightarrow> lo \<le> i \<and> i < hi \<and> xs ! i = t | None \<Rightarrow> \<forall>i. lo \<le> i \<longrightarrow> i < hi \<longrightarrow> xs ! i \<noteq> t"
        using r(2) right mid by (cases r) (auto, metis not_le)
      with 2 r(1) show ?thesis unfolding step by auto
    qed (use mid step in auto)
  qed (auto simp: search_loop.simps [of read _ lo hi])
qed

text \<open>Searching left on a match finds the first position that has the target.\<close>

lemma search_first_rows:
  assumes rows: "rows_ok read xs" and sorted: "sorted xs" and "hi \<le> length xs" and "lo \<le> hi"
    and "\<And>i. i < lo \<Longrightarrow> xs ! i < t" and "\<And>i. hi \<le> i \<Longrightarrow> i < length xs \<Longrightarrow> t \<le> xs ! i"
    and "found = (if hi < length xs \<and> xs ! hi = t then Some hi else None)"
  shows "search_first_loop read (compare_keys t) found lo hi =
    Inr (if t \<in> set xs then Some (LEAST i. i < length xs \<and> xs ! i = t) else None)"
  using assms(3-7)
proof (induction "hi - lo" arbitrary: lo hi found rule: less_induct)
  case less
  show ?case
  proof (cases "lo < hi")
    case True
    define mid where "mid = lo + (hi - lo) div 2"
    have mid: "lo \<le> mid" "mid < hi" "mid < length xs" using True less.prems by (simp_all add: mid_def)
    have read: "read mid = Inr (xs ! mid)" using rows mid by (simp add: rows_okD)
    let ?go = "search_first_loop read (compare_keys t)"
    have step: "?go found lo hi = (if xs ! mid < t then ?go found (mid + 1) hi
        else ?go (if t < xs ! mid then found else Some mid) lo mid)"
      using mid read by (subst search_first_loop.simps) (simp add: mid_def [symmetric] Let_def compare_keys_def)
    show ?thesis
    proof (cases "xs ! mid < t")
      case True
      have left: "xs ! i < t" if "i < mid + 1" for i
        using sorted_nth_mono [OF sorted, of i mid] True mid that by fastforce
      have "?go found (mid + 1) hi = Inr (if t \<in> set xs then Some (LEAST i. i < length xs \<and> xs ! i = t) else None)"
        by (rule less.hyps) (use mid less.prems left in auto)
      with True show ?thesis unfolding step by simp
    next
      case False
      have up: "t \<le> xs ! i" if "mid \<le> i" "i < length xs" for i
        using sorted_nth_mono [OF sorted that] False by fastforce
      have "(if t < xs ! mid then found else Some mid) = (if mid < length xs \<and> xs ! mid = t then Some mid else None)"
        using less.prems(5) False mid sorted_nth_mono [OF sorted, of mid hi] by auto
      then have "?go (if t < xs ! mid then found else Some mid) lo mid =
          Inr (if t \<in> set xs then Some (LEAST i. i < length xs \<and> xs ! i = t) else None)"
        by (intro less.hyps) (use mid less.prems up in auto)
      with False show ?thesis unfolding step by simp
    qed
  next
    case False
    with less.prems have "lo = hi" by simp
    have "t \<in> set xs \<longleftrightarrow> hi < length xs \<and> xs ! hi = t"
    proof
      assume "t \<in> set xs"
      then obtain i where i: "i < length xs" "xs ! i = t" by (auto simp: in_set_conv_nth)
      with less.prems(3) have "hi \<le> i" unfolding \<open>lo = hi\<close> by (metis not_less less_irrefl)
      with i less.prems(4) [of hi] sorted_nth_mono [OF sorted, of hi i] show "hi < length xs \<and> xs ! hi = t" by auto
    qed auto
    moreover have "(LEAST i. i < length xs \<and> xs ! i = t) = hi" if "hi < length xs" "xs ! hi = t"
      using that less.prems(3) unfolding \<open>lo = hi\<close> by (intro Least_equality) (auto, metis not_le less_irrefl)
    moreover have "search_first_loop read (compare_keys t) found lo hi = Inr found"
      using False by (subst search_first_loop.simps) simp
    ultimately show ?thesis using less.prems(5) by simp
  qed
qed

section \<open>Strategies\<close>

lemma u64_bounds_defined:
  assumes "rows_ok (\<lambda>i. seg_u64_at data (key_position idx_start row_size key_offset i)) ids" and "sorted ids" and "count = length ids"
  shows "\<exists>p. lower_bound_u64_index data idx_start count row_size key_offset t = Inr p"
    and "\<exists>p. upper_bound_u64_index data idx_start count row_size key_offset t = Inr p"
  using lower_bound_loop_rows [OF assms(1), of "\<lambda>k. k < t" count 0] lower_bound_loop_rows [OF assms(1), of "\<lambda>k. k \<le> t" count 0]
    sorted_nth_mono [OF assms(2)] assms(3)
  unfolding lower_bound_u64_index_def upper_bound_u64_index_def by fastforce+

lemma strategy_defined:
  assumes "rows_ok (\<lambda>i. seg_u64_at data (key_position idx_start row_size key_offset i)) ids" and "sorted ids" and "count = length ids"
  shows "\<exists>s. choose_batch_read_strategy data idx_start count row_size key_offset unique lo hi = Inr s"
proof -
  obtain a b where "lower_bound_u64_index data idx_start count row_size key_offset lo = Inr a"
      "upper_bound_u64_index data idx_start count row_size key_offset hi = Inr b"
    using u64_bounds_defined [OF assms] by blast
  then show ?thesis by (simp add: choose_batch_read_strategy_def)
qed

section \<open>Batches\<close>

text \<open>What reading each key alone fills in.\<close>

definition fill_in :: "('k \<Rightarrow> 'r option) \<Rightarrow> (nat \<times> 'k) list \<Rightarrow> 'r option list \<Rightarrow> 'r option list" where
  "fill_in read lookups results = fold (\<lambda>(i, k) rs. case read k of Some r \<Rightarrow> rs[i := Some r] | None \<Rightarrow> rs) lookups results"

lemma fill_in_simps [simp]:
  "fill_in read [] results = results"
  "fill_in read ((i, k) # lookups) results =
     fill_in read lookups (case read k of Some r \<Rightarrow> results[i := Some r] | None \<Rightarrow> results)"
  by (simp_all add: fill_in_def)

lemma length_fill_in [simp]: "length (fill_in read lookups results) = length results"
  by (induction lookups arbitrary: results) (auto split: option.splits)

definition table_read :: "(u64 \<Rightarrow> bool) \<Rightarrow> u64 list \<Rightarrow> 'r list \<Rightarrow> u64 \<Rightarrow> 'r option" where
  "table_read skip ids rows k = (if skip k then None else map_of (zip ids rows) k)"

lemma seek_batch_rows:
  assumes find: "\<And>k. search k = Inr (place k)" and dec: "\<And>k p. place k = Some p \<Longrightarrow> decode p k = Inr (row k)"
    and "\<forall>i \<in> set (map fst lookups). i < length results" and "\<And>k e. prev = Some (k, e) \<Longrightarrow> e = place k"
  shows "seek_batch skip search decode lookups prev results =
    Some (Inr (fill_in (\<lambda>k. if skip k then None else map_option (\<lambda>_. row k) (place k)) lookups results))"
  using assms(3,4)
proof (induction lookups arbitrary: prev results)
  case (Cons l lookups)
  obtain i k where l: "l = (i, k)" by (cases l)
  have entry: "(case prev of Some (prev_id, prev_entry) \<Rightarrow> if prev_id = k then Inr prev_entry else search k | None \<Rightarrow> search k) = Inr (place k)"
    using Cons.prems(2) find by (auto split: option.splits)
  have ih: "seek_batch skip search decode lookups (Some (k, place k)) rs =
      Some (Inr (fill_in (\<lambda>k. if skip k then None else map_option (\<lambda>_. row k) (place k)) lookups rs))"
    if "length rs = length results" for rs
    using Cons.IH [of rs "Some (k, place k)"] Cons.prems(1) that by simp
  have skipped: "skip k \<Longrightarrow> ?case" using Cons.IH [of results prev] Cons.prems l by simp
  show ?case
  proof (cases "skip k")
    case False
    then show ?thesis using l entry ih dec [of k] Cons.prems(1) by (cases "place k") simp_all
  qed (rule skipped)
qed simp

lemma seek_meta_batch_rows:
  assumes find: "\<And>k. read k = Inr (meta k)"
    and "\<forall>i \<in> set (map fst lookups). i < length results" and "\<forall>i \<in> set (map fst lookups). results ! i = None"
    and "distinct (map fst lookups)" and "\<And>k e. prev = Some (k, e) \<Longrightarrow> e = meta k"
  shows "seek_meta_batch skip read lookups prev results =
    Some (Inr (fill_in (\<lambda>k. if skip k then None else meta k) lookups results))"
  using assms(2-5)
proof (induction lookups arbitrary: prev results)
  case (Cons l lookups)
  obtain i k where l: "l = (i, k)" by (cases l)
  have entry: "(case prev of Some (prev_id, prev_meta) \<Rightarrow> if prev_id = k then Inr prev_meta else read k | None \<Rightarrow> read k) = Inr (meta k)"
    using Cons.prems(4) find by (auto split: option.splits)
  have rest: "\<forall>j \<in> set (map fst lookups). results[i := r] ! j = None" for r
    using Cons.prems(2,3) l by (auto, metis (no_types) nth_list_update_neq fst_conv image_eqI)
  have keep: "results[i := None] = results" using Cons.prems(2) l by (simp add: list_update_same_conv Cons.prems(1))
  show ?case
  proof (cases "skip k")
    case True
    then show ?thesis using Cons.IH [of results prev] Cons.prems l by simp
  next
    case False
    then show ?thesis using Cons.IH [of "results[i := meta k]" "Some (k, meta k)"] Cons.prems(1-3) l entry rest keep
      by (cases "meta k") auto
  qed
qed simp

lemma walk_to_rows:
  assumes "rows_ok read ids" and "count = length ids"
    and "\<forall>j < pos. ids ! j < t" and "pos \<le> count"
  shows "\<exists>q. walk_to read count t pos = Inr (q, q < count \<and> ids ! q = t) \<and> q \<le> count \<and> (\<forall>j < q. ids ! j < t) \<and> (q < count \<longrightarrow> t \<le> ids ! q)"
  using assms(3,4)
proof (induction "count - pos" arbitrary: pos rule: less_induct)
  case less
  show ?case
  proof (cases "pos < count")
    case True
    then have read: "read pos = Inr (ids ! pos)" using assms(1,2) by (simp add: rows_okD)
    show ?thesis
    proof (cases "ids ! pos < t")
      case lt: True
      have "\<forall>j < pos + 1. ids ! j < t" using less.prems(1) lt by (auto simp: less_Suc_eq)
      from less.hyps [OF _ this] True have "\<exists>q. walk_to read count t (pos + 1) = Inr (q, q < count \<and> ids ! q = t) \<and> q \<le> count \<and>
          (\<forall>j < q. ids ! j < t) \<and> (q < count \<longrightarrow> t \<le> ids ! q)" by simp
      moreover have "walk_to read count t pos = walk_to read count t (pos + 1)"
        using True read lt by (subst walk_to.simps) simp
      ultimately show ?thesis by simp
    next
      case False
      then have "walk_to read count t pos = Inr (pos, ids ! pos = t)" using True read by (subst walk_to.simps) simp
      with True False less.prems show ?thesis by auto
    qed
  next
    case False
    then have "walk_to read count t pos = Inr (pos, False)" by (subst walk_to.simps) simp
    with False less.prems show ?thesis by auto
  qed
qed

lemma map_of_zip_nth_distinct:
  "length xs = length ys \<Longrightarrow> distinct xs \<Longrightarrow> i < length xs \<Longrightarrow> map_of (zip xs ys) (xs ! i) = Some (ys ! i)"
  by (metis map_of_zip_nth)

lemma walk_batch_rows:
  assumes rows: "rows_ok read ids" and sorted: "sorted_wrt (<) ids" and count: "count = length ids" and len: "length recs = length ids"
    and dec: "\<And>i. i < length ids \<Longrightarrow> \<not> skip (ids ! i) \<Longrightarrow> decode i (ids ! i) = Inr (recs ! i)"
    and "\<forall>i \<in> set (map fst lookups). i < length results" and "sorted (map snd lookups)"
    and "\<forall>k \<in> set (map snd lookups). \<forall>j < pos. ids ! j < k" and "pos \<le> count"
  shows "walk_batch skip read count decode lookups pos results =
    Some (Inr (fill_in (table_read skip ids recs) lookups results))"
  using assms(6-9)
proof (induction lookups arbitrary: pos results)
  case (Cons l lookups)
  obtain i k where l: "l = (i, k)" by (cases l)
  have dist: "distinct ids" using sorted by (simp add: strict_sorted_iff)
  show ?case
  proof (cases "skip k")
    case True
    then show ?thesis using Cons l by (simp add: table_read_def)
  next
    case False
    have "\<forall>j < pos. ids ! j < k" using Cons.prems(3) l by simp
    from walk_to_rows [OF rows count this Cons.prems(4)]
    obtain q where q: "walk_to read count k pos = Inr (q, q < count \<and> ids ! q = k)" "q \<le> count" "\<forall>j < q. ids ! j < k"
        "q < count \<longrightarrow> k \<le> ids ! q" by blast
    have ahead: "\<forall>k' \<in> set (map snd lookups). \<forall>j < q. ids ! j < k'"
      using q(3) Cons.prems(2) l by (fastforce simp: order_less_le_trans)
    have ih: "walk_batch skip read count decode lookups q rs = Some (Inr (fill_in (table_read skip ids recs) lookups rs))"
      if "length rs = length results" for rs
      using Cons.IH [of rs q] Cons.prems ahead q(2) that l by simp
    show ?thesis
    proof (cases "q < count \<and> ids ! q = k")
      case True
      then have "table_read skip ids recs k = Some (recs ! q)"
        using map_of_zip_nth_distinct [of ids recs q] dist len count False by (auto simp: table_read_def)
      moreover have "decode q k = Inr (recs ! q)" using dec [of q] True count False by auto
      ultimately show ?thesis using q(1) True False l ih Cons.prems(1) by simp
    next
      case miss: False
      have "k \<notin> set ids"
      proof
        assume "k \<in> set ids"
        then obtain j where j: "j < count" "ids ! j = k" using count by (auto simp: in_set_conv_nth)
        have "q \<le> j" using q(3) j(2) by (metis not_le less_irrefl)
        moreover have "q \<noteq> j" using miss j by auto
        ultimately have "q < j" by simp
        then have "ids ! q < ids ! j" using sorted j(1) count by (simp add: sorted_wrt_iff_nth_less)
        then show False using q(4) j \<open>q < j\<close> by auto
      qed
      then have "table_read skip ids recs k = None" using len by (auto simp: table_read_def map_of_zip_is_None)
      then show ?thesis using q(1) miss False l ih by auto
    qed
  qed
qed simp

end
