(* ===== verification/Segment_Edges.thy ===== *)
theory Segment_Edges
  imports Segment_Search Encoding Memtable_Reads
begin

text \<open>
  The edges of a segment: what \<^verbatim>\<open>src/src/segment_writer.rs\<close> writes for them (records, metadata rows,
  tombstones) and how \<^verbatim>\<open>src/src/segment_reader.rs\<close> finds them again, alone and in batches.
\<close>

section \<open>Writing\<close>

definition EDGE_INDEX_ENTRY_SIZE :: nat where "EDGE_INDEX_ENTRY_SIZE = 16"
definition EDGE_META_ENTRY_SIZE :: nat where "EDGE_META_ENTRY_SIZE = 80"
definition TOMBSTONE_ENTRY_SIZE :: nat where "TOMBSTONE_ENTRY_SIZE = 25"

text \<open>The id, offset and length of every record written.\<close>

type_synonym record_spans = "(u64 \<times> u64 \<times> u32) list"

definition encode_edge_record_into :: "to_vec \<Rightarrow> edge_record \<Rightarrow> engine_error + bytes" where
  "encode_edge_record_into to_vec edge =
     r_bind (ser_err (to_vec (e_props edge))) (\<lambda>props_bytes.
       Inr (to_le_bytes (e_from edge) @ to_le_bytes (e_to edge) @ to_le_bytes (e_label_id edge) @
         to_le_bytes (e_created_at edge) @ to_le_bytes (e_updated_at edge) @ to_le_bytes (e_weight edge) @
         to_le_bytes (e_valid_from edge) @ to_le_bytes (e_valid_to edge) @
         to_le_bytes (of_nat (length props_bytes) :: u32) @ props_bytes))"

fun index_rows :: "u64 \<Rightarrow> (u64 \<times> bytes) list \<Rightarrow> record_spans" where
  "index_rows data_offset [] = []"
| "index_rows data_offset ((rid, record) # rest) =
     (rid, data_offset, of_nat (length record)) # index_rows (data_offset + of_nat (length record)) rest"

definition index_entry :: "u64 \<times> u64 \<times> u32 \<Rightarrow> bytes" where
  "index_entry row = (case row of (rid, data_offset, _) \<Rightarrow> to_le_bytes rid @ to_le_bytes data_offset)"

text \<open>The common layout of the node and edge files: the count, the index, the records.\<close>

definition records_payload :: "u64 list \<Rightarrow> bytes list \<Rightarrow> record_spans \<times> bytes" where
  "records_payload ids records =
     (let count = of_nat (length ids) :: u64; spans = index_rows (8 + count * 16) (zip ids records)
      in (spans, to_le_bytes count @ concat (map index_entry spans) @ concat records))"

definition sorted_values :: "('r \<Rightarrow> u64) \<Rightarrow> (u64, 'r) fmap \<Rightarrow> 'r list" where
  "sorted_values rid m = sort_key rid (map (\<lambda>k. the (fmlookup m k)) (sorted_list_of_fset (fmdom m)))"

definition write_edges_payload :: "to_vec \<Rightarrow> (u64, edge_record) fmap \<Rightarrow> engine_error + record_spans \<times> bytes" where
  "write_edges_payload to_vec edge_map =
     (let sorted = sorted_values e_id edge_map
      in r_bind (r_map (encode_edge_record_into to_vec) sorted) (\<lambda>records. Inr (records_payload (map e_id sorted) records)))"

definition edge_meta_row :: "(u64, edge_record) fmap \<Rightarrow> u64 \<times> u64 \<times> u32 \<Rightarrow> engine_error + bytes" where
  "edge_meta_row edge_map row = (case row of (edge_id, data_offset, data_len) \<Rightarrow> (case fmlookup edge_map edge_id of
     None \<Rightarrow> Inl (CorruptRecord ''edge not found for metadata'')
   | Some edge \<Rightarrow> Inr (to_le_bytes edge_id @ to_le_bytes data_offset @ to_le_bytes data_len @
       to_le_bytes (e_from edge) @ to_le_bytes (e_to edge) @ to_le_bytes (e_label_id edge) @
       to_le_bytes (e_updated_at edge) @ to_le_bytes (e_weight edge) @ to_le_bytes (e_valid_from edge) @
       to_le_bytes (e_valid_to edge) @ to_le_bytes (e_last_write_seq edge) @ to_le_bytes (0 :: u32))))"

definition write_edge_meta_payload :: "record_spans \<Rightarrow> (u64, edge_record) fmap \<Rightarrow> engine_error + bytes" where
  "write_edge_meta_payload edge_data edge_map =
     r_bind (r_map (edge_meta_row edge_map) edge_data) (\<lambda>rows. Inr (to_le_bytes (of_nat (length edge_data) :: u64) @ concat rows))"

definition tombstone_row :: "u8 \<Rightarrow> u64 \<times> tombstone_entry \<Rightarrow> bytes" where
  "tombstone_row kind e = (case e of (rid, ts) \<Rightarrow>
     to_le_bytes kind @ to_le_bytes rid @ to_le_bytes (deleted_at ts) @ to_le_bytes (t_last_write_seq ts))"

definition write_tombstones_payload :: "(u64, tombstone_entry) fmap \<Rightarrow> (u64, tombstone_entry) fmap \<Rightarrow> bytes" where
  "write_tombstones_payload deleted_nodes deleted_edges =
     to_le_bytes (of_nat (fcard (fmdom deleted_nodes) + fcard (fmdom deleted_edges)) :: u64) @
     concat (map (tombstone_row 0) (btree_entries deleted_nodes)) @ concat (map (tombstone_row 1) (btree_entries deleted_edges))"

section \<open>Reading\<close>

definition decode_edge_at :: "from_slice \<Rightarrow> bytes \<Rightarrow> nat \<Rightarrow> u64 \<Rightarrow> engine_error + edge_record" where
  "decode_edge_at from_slice data offset rid =
     r_bind (seg_u64_at data offset) (\<lambda>src. r_bind (seg_u64_at data (offset + 8)) (\<lambda>to.
     r_bind (seg_u32_at data (offset + 16)) (\<lambda>label_id. r_bind (seg_i64_at data (offset + 20)) (\<lambda>created_at.
     r_bind (seg_i64_at data (offset + 28)) (\<lambda>updated_at. r_bind (seg_f32_at data (offset + 36)) (\<lambda>weight.
     r_bind (seg_i64_at data (offset + 40)) (\<lambda>valid_from. r_bind (seg_i64_at data (offset + 48)) (\<lambda>valid_to.
     r_bind (seg_u32_at data (offset + 56)) (\<lambda>props_len.
     r_bind (read_bytes_at data (offset + 60) (unat props_len)) (\<lambda>props_bytes.
     r_bind (map_err CorruptRecord (from_slice props_bytes)) (\<lambda>props.
       Inr \<lparr>e_id = rid, e_from = src, e_to = to, e_label_id = label_id, e_props = props, e_created_at = created_at,
         e_updated_at = updated_at, e_weight = weight, e_valid_from = valid_from, e_valid_to = valid_to,
         e_last_write_seq = 0\<rparr>)))))))))))"

type_synonym edge_meta = "u64 \<times> u64 \<times> u32 \<times> u64 \<times> u64 \<times> u32 \<times> i64 \<times> f32 \<times> i64 \<times> i64 \<times> u64"

definition edge_meta_at :: "segment_reader \<Rightarrow> nat \<Rightarrow> engine_error + edge_meta" where
  "edge_meta_at sr index =
     (let data = sr_edge_meta sr; off = 8 + index * EDGE_META_ENTRY_SIZE in
      r_bind (seg_u64_at data off) (\<lambda>edge_id. r_bind (seg_u64_at data (off + 8)) (\<lambda>data_offset.
      r_bind (seg_u32_at data (off + 16)) (\<lambda>data_len. r_bind (seg_u64_at data (off + 20)) (\<lambda>src.
      r_bind (seg_u64_at data (off + 28)) (\<lambda>to. r_bind (seg_u32_at data (off + 36)) (\<lambda>label_id.
      r_bind (seg_i64_at data (off + 40)) (\<lambda>updated_at. r_bind (seg_f32_at data (off + 48)) (\<lambda>weight.
      r_bind (seg_i64_at data (off + 52)) (\<lambda>valid_from. r_bind (seg_i64_at data (off + 60)) (\<lambda>valid_to.
      r_bind (seg_u64_at data (off + 68)) (\<lambda>last_write_seq.
        Inr (edge_id, data_offset, data_len, src, to, label_id, updated_at, weight, valid_from, valid_to, last_write_seq)))))))))))))"

definition id_at :: "bytes \<Rightarrow> nat \<Rightarrow> engine_error + u64" where
  "id_at data i = seg_u64_at data (8 + i * EDGE_INDEX_ENTRY_SIZE)"

definition offset_at :: "bytes \<Rightarrow> nat \<Rightarrow> engine_error + nat" where
  "offset_at data i = r_bind (seg_u64_at data (8 + i * EDGE_INDEX_ENTRY_SIZE + 8)) (\<lambda>offset. Inr (unat offset))"

text \<open>The position and offset of a record; the same function serves nodes and edges.\<close>

definition binary_search_id_index :: "bytes \<Rightarrow> u64 \<Rightarrow> engine_error + (nat \<times> nat) option" where
  "binary_search_id_index data target_id =
     (if length data < 8 then Inr None
      else r_bind (seg_u64_at data 0) (\<lambda>count.
        if count = 0 then Inr None
        else r_bind (search_loop (id_at data) (compare_keys target_id) 0 (unat count)) (\<lambda>hit. case hit of
            None \<Rightarrow> Inr None
          | Some mid \<Rightarrow> r_bind (offset_at data mid) (\<lambda>offset. Inr (Some (mid, offset))))))"

definition binary_search_edge_index :: "segment_reader \<Rightarrow> u64 \<Rightarrow> engine_error + (nat \<times> nat) option" where
  "binary_search_edge_index sr target_id = binary_search_id_index (sr_edges sr) target_id"

definition is_edge_deleted :: "segment_reader \<Rightarrow> u64 \<Rightarrow> bool" where
  "is_edge_deleted sr rid = (rid |\<in>| fmdom (sr_deleted_edges sr))"

definition has_edge :: "segment_reader \<Rightarrow> u64 \<Rightarrow> bool" where
  "has_edge sr rid = (case binary_search_edge_index sr rid of Inr (Some _) \<Rightarrow> True | _ \<Rightarrow> False)"

text \<open>An edge record, with the sequence number of its last write from the metadata row.\<close>

definition read_edge :: "from_slice \<Rightarrow> segment_reader \<Rightarrow> nat \<times> nat \<Rightarrow> u64 \<Rightarrow> engine_error + edge_record" where
  "read_edge from_slice sr place rid = (case place of (index, offset) \<Rightarrow>
     r_bind (decode_edge_at from_slice (sr_edges sr) offset rid) (\<lambda>edge.
     r_bind (edge_meta_at sr index) (\<lambda>(_, _, _, _, _, _, _, _, _, _, last_write_seq).
       Inr (edge\<lparr>e_last_write_seq := last_write_seq\<rparr>))))"

definition get_edge :: "from_slice \<Rightarrow> segment_reader \<Rightarrow> u64 \<Rightarrow> engine_error + edge_record option" where
  "get_edge from_slice sr rid =
     (if is_edge_deleted sr rid then Inr None
      else r_bind (binary_search_edge_index sr rid) (\<lambda>hit. case hit of
          None \<Rightarrow> Inr None
        | Some place \<Rightarrow> r_bind (read_edge from_slice sr place rid) (\<lambda>edge. Inr (Some edge))))"

type_synonym edge_core_fields = "u64 \<times> u64 \<times> i64 \<times> i64 \<times> f32 \<times> i64 \<times> i64"

definition edge_core_at :: "bytes \<Rightarrow> nat \<Rightarrow> engine_error + edge_core_fields" where
  "edge_core_at data offset =
     r_bind (seg_u64_at data offset) (\<lambda>src. r_bind (seg_u64_at data (offset + 8)) (\<lambda>to.
     r_bind (seg_i64_at data (offset + 20)) (\<lambda>created_at. r_bind (seg_i64_at data (offset + 28)) (\<lambda>updated_at.
     r_bind (seg_f32_at data (offset + 36)) (\<lambda>weight. r_bind (seg_i64_at data (offset + 40)) (\<lambda>valid_from.
     r_bind (seg_i64_at data (offset + 48)) (\<lambda>valid_to.
       Inr (src, to, created_at, updated_at, weight, valid_from, valid_to))))))))"

definition get_edge_core :: "segment_reader \<Rightarrow> u64 \<Rightarrow> engine_error + edge_core_fields option" where
  "get_edge_core sr rid =
     (if is_edge_deleted sr rid then Inr None
      else r_bind (binary_search_edge_index sr rid) (\<lambda>hit. case hit of
          None \<Rightarrow> Inr None
        | Some (_, offset) \<Rightarrow> r_bind (edge_core_at (sr_edges sr) offset) (\<lambda>c. Inr (Some c))))"

definition edge_metadata_at_index :: "segment_reader \<Rightarrow> nat \<Rightarrow> engine_error + edge_metadata_for_query" where
  "edge_metadata_at_index sr index =
     r_bind (edge_meta_at sr index) (\<lambda>(edge_id, _, _, src, to, label_id, updated_at, weight, valid_from, valid_to, _).
       Inr \<lparr>em_id = edge_id, em_from = src, em_to = to, em_label_id = label_id, em_updated_at = updated_at,
         em_weight = weight, em_valid_from = valid_from, em_valid_to = valid_to\<rparr>)"

text \<open>The prologue all batch reads share: an empty batch or table is no work; otherwise a strategy is chosen.\<close>

definition batch_start ::
    "bytes \<Rightarrow> (nat \<times> u64) list \<Rightarrow> 'a \<Rightarrow> (batch_read_strategy \<Rightarrow> nat \<Rightarrow> (engine_error + 'a) option) \<Rightarrow> (engine_error + 'a) option" where
  "batch_start data lookups results run =
     (if lookups = [] \<or> length data < 8 then Some (Inr results)
      else t_bind (Some (seg_u64_at data 0)) (\<lambda>count.
        if count = 0 then Some (Inr results)
        else t_bind (Some (choose_batch_read_strategy data 8 (unat count) EDGE_INDEX_ENTRY_SIZE 0
               (count_runs None (map snd lookups)) (snd (hd lookups)) (snd (last lookups)))) (\<lambda>strategy. run strategy (unat count))))"

definition get_edges_batch ::
    "from_slice \<Rightarrow> segment_reader \<Rightarrow> (nat \<times> u64) list \<Rightarrow> edge_record option list \<Rightarrow> (engine_error + edge_record option list) option" where
  "get_edges_batch from_slice sr lookups results =
     batch_start (sr_edges sr) lookups results (\<lambda>strategy count. case strategy of
         SeekPerKey \<Rightarrow> seek_batch (is_edge_deleted sr) (binary_search_edge_index sr) (read_edge from_slice sr) lookups None results
       | MergeWalk \<Rightarrow> walk_batch (is_edge_deleted sr) (id_at (sr_edges sr)) count
           (\<lambda>i rid. r_bind (offset_at (sr_edges sr) i) (\<lambda>offset. read_edge from_slice sr (i, offset) rid)) lookups 0 results)"

definition get_edge_metadata_batch ::
    "segment_reader \<Rightarrow> (nat \<times> u64) list \<Rightarrow> edge_metadata_for_query option list \<Rightarrow> (engine_error + edge_metadata_for_query option list) option" where
  "get_edge_metadata_batch sr lookups results =
     batch_start (sr_edges sr) lookups results (\<lambda>strategy count. case strategy of
         SeekPerKey \<Rightarrow> seek_meta_batch (is_edge_deleted sr) (\<lambda>rid. r_bind (binary_search_edge_index sr rid) (\<lambda>hit. case hit of
             None \<Rightarrow> Inr None
           | Some (index, _) \<Rightarrow> r_bind (edge_metadata_at_index sr index) (\<lambda>meta. Inr (Some meta)))) lookups None results
       | MergeWalk \<Rightarrow> walk_batch (is_edge_deleted sr) (id_at (sr_edges sr)) count
           (\<lambda>i _. edge_metadata_at_index sr i) lookups 0 results)"

text \<open>The loop over the tombstone rows; a row of an unknown kind is skipped.\<close>

fun load_tombstone_rows ::
    "bytes \<Rightarrow> nat \<Rightarrow> nat list \<Rightarrow> (u64, tombstone_entry) fmap \<Rightarrow> (u64, tombstone_entry) fmap
       \<Rightarrow> engine_error + (u64, tombstone_entry) fmap \<times> (u64, tombstone_entry) fmap" where
  "load_tombstone_rows data count [] deleted_nodes deleted_edges = Inr (deleted_nodes, deleted_edges)"
| "load_tombstone_rows data count (i # rest) deleted_nodes deleted_edges =
     (let off = (8 + i * TOMBSTONE_ENTRY_SIZE) mod 2 ^ 64 in
      if (off + TOMBSTONE_ENTRY_SIZE) mod 2 ^ 64 > length data then Inl (CorruptRecord ''tombstone entry exceeds file length'')
      else r_bind (seg_u8_at data off) (\<lambda>kind. r_bind (seg_u64_at data (off + 1)) (\<lambda>rid.
           r_bind (seg_i64_at data (off + 9)) (\<lambda>deleted_at. r_bind (seg_u64_at data (off + 17)) (\<lambda>last_write_seq.
           let entry = \<lparr>deleted_at = deleted_at, t_last_write_seq = last_write_seq\<rparr> in
             if kind = 0 then load_tombstone_rows data count rest (fmupd rid entry deleted_nodes) deleted_edges
             else if kind = 1 then load_tombstone_rows data count rest deleted_nodes (fmupd rid entry deleted_edges)
             else load_tombstone_rows data count rest deleted_nodes deleted_edges)))))"

definition load_tombstones_from_bytes ::
    "bytes \<Rightarrow> engine_error + (u64, tombstone_entry) fmap \<times> (u64, tombstone_entry) fmap" where
  "load_tombstones_from_bytes data =
     (if length data < 8 then Inr (fmempty, fmempty)
      else r_bind (seg_u64_at data 0) (\<lambda>count. load_tombstone_rows data (unat count) [0 ..< unat count] fmempty fmempty))"

end
