(* ===== verification/Segment_Nodes.thy ===== *)
theory Segment_Nodes
  imports Segment_Edges
begin

text \<open>
  The nodes of a segment: records, metadata with its table of labels, and vectors, as
  \<^verbatim>\<open>src/src/segment_writer.rs\<close> writes them and \<^verbatim>\<open>src/src/segment_reader.rs\<close> reads them. \<^verbatim>\<open>usize\<close> is 64 bits
  wide, so that \<^verbatim>\<open>usize_from_u64\<close> never fails.
\<close>

definition usize_from_u64 :: "u64 \<Rightarrow> string \<Rightarrow> engine_error + nat" where
  "usize_from_u64 value context' = Inr (unat value)"

definition checked_add_or :: "engine_error \<Rightarrow> nat \<Rightarrow> nat \<Rightarrow> engine_error + nat" where
  "checked_add_or err a b = (if a + b < 2 ^ 64 then Inr (a + b) else Inl err)"

definition checked_mul_or :: "engine_error \<Rightarrow> nat \<Rightarrow> nat \<Rightarrow> engine_error + nat" where
  "checked_mul_or err a b = (if a * b < 2 ^ 64 then Inr (a * b) else Inl err)"

definition checked_range_end :: "nat \<Rightarrow> nat \<Rightarrow> string \<Rightarrow> engine_error + nat" where
  "checked_range_end start len context' = checked_add_or (CorruptRecord context') start len"

section \<open>Writing\<close>

definition NODE_INDEX_ENTRY_SIZE :: nat where "NODE_INDEX_ENTRY_SIZE = 16"
definition NODE_META_HEADER_SIZE :: nat where "NODE_META_HEADER_SIZE = 48"
definition NODE_META_FIXED_ENTRY_SIZE :: nat where "NODE_META_FIXED_ENTRY_SIZE = 48"
definition NODE_META_LABEL_OFFSET_ENTRY_SIZE :: nat where "NODE_META_LABEL_OFFSET_ENTRY_SIZE = 8"
definition NODE_VECTOR_META_ENTRY_SIZE :: nat where "NODE_VECTOR_META_ENTRY_SIZE = 28"
definition NODE_VECTOR_FLAG_DENSE :: u8 where "NODE_VECTOR_FLAG_DENSE = 1"
definition NODE_VECTOR_FLAG_SPARSE :: u8 where "NODE_VECTOR_FLAG_SPARSE = 2"
definition DENSE_VECTOR_VALUE_SIZE :: nat where "DENSE_VECTOR_VALUE_SIZE = 4"
definition SPARSE_VECTOR_ENTRY_SIZE :: nat where "SPARSE_VECTOR_ENTRY_SIZE = 8"

definition encode_node_record_into :: "to_vec \<Rightarrow> node_record \<Rightarrow> engine_error + bytes" where
  "encode_node_record_into to_vec node =
     (let head = [of_nat (nls_len (n_label_ids node))] @ concat (map to_le_bytes (as_slice (n_label_ids node)));
          key_bytes = n_key node
      in if length key_bytes > 65535 then Inl (SerializationError ''node key exceeds maximum length'')
         else r_bind (ser_err (to_vec (n_props node))) (\<lambda>props_bytes.
           Inr (head @ to_le_bytes (of_nat (length key_bytes) :: u16) @ key_bytes @ to_le_bytes (n_created_at node) @
             to_le_bytes (n_updated_at node) @ to_le_bytes (n_weight node) @
             to_le_bytes (of_nat (length props_bytes) :: u32) @ props_bytes)))"

definition write_nodes_payload :: "to_vec \<Rightarrow> (u64, node_record) fmap \<Rightarrow> engine_error + record_spans \<times> bytes" where
  "write_nodes_payload to_vec node_map =
     (let sorted = sorted_values n_id node_map
      in r_bind (r_map (encode_node_record_into to_vec) sorted) (\<lambda>records. Inr (records_payload (map n_id sorted) records)))"

text \<open>The rows of the node metadata in order; a node that is not there is an error.\<close>

definition node_of_span :: "(u64, node_record) fmap \<Rightarrow> u64 \<times> u64 \<times> u32 \<Rightarrow> engine_error + (u64 \<times> u64 \<times> u32) \<times> node_record" where
  "node_of_span node_map row = (case fmlookup node_map (fst row) of
      None \<Rightarrow> Inl (CorruptRecord ''node not found for metadata'')
    | Some node \<Rightarrow> Inr (row, node))"

definition node_meta_row :: "(u64 \<times> u64 \<times> u32) \<times> node_record \<Rightarrow> bytes" where
  "node_meta_row e = (case e of ((node_id, data_offset, data_len), node) \<Rightarrow>
     to_le_bytes node_id @ to_le_bytes data_offset @ to_le_bytes data_len @ to_le_bytes (n_updated_at node) @
     to_le_bytes (n_weight node) @ to_le_bytes (of_nat (length (n_key node)) :: u16) @ to_le_bytes (n_last_write_seq node) @
     replicate 6 0)"

fun running_lengths :: "nat \<Rightarrow> 'a list list \<Rightarrow> nat list" where
  "running_lengths n [] = []"
| "running_lengths n (x # xs) = (n + length x) # running_lengths (n + length x) xs"

definition write_node_meta_payload :: "record_spans \<Rightarrow> (u64, node_record) fmap \<Rightarrow> engine_error + bytes" where
  "write_node_meta_payload node_data node_map =
     (let count = length node_data; fixed_entries_offset = NODE_META_HEADER_SIZE in
      r_bind (checked_mul_or (CorruptRecord ''node metadata fixed table overflow'') count NODE_META_FIXED_ENTRY_SIZE) (\<lambda>fixed_entries_len.
      r_bind (checked_add_or (CorruptRecord ''node metadata offset overflow'') fixed_entries_offset fixed_entries_len) (\<lambda>label_offsets_offset.
      r_bind (checked_add_or (CorruptRecord ''node metadata label offset count overflow'') count 1) (\<lambda>label_offset_entries.
      r_bind (checked_add_or (CorruptRecord ''node metadata label ID offset overflow'') label_offsets_offset
        ((label_offset_entries * NODE_META_LABEL_OFFSET_ENTRY_SIZE) mod 2 ^ 64)) (\<lambda>label_ids_offset.
      r_bind (r_map (node_of_span node_map) node_data) (\<lambda>rows.
        let labels = map (\<lambda>(_, node). as_slice (n_label_ids node)) rows;
            label_offsets = 0 # running_lengths 0 labels; label_ids = concat labels
        in Inr (to_le_bytes (of_nat count :: u64) @ to_le_bytes (of_nat NODE_META_FIXED_ENTRY_SIZE :: u16) @
             to_le_bytes (of_nat NODE_META_LABEL_OFFSET_ENTRY_SIZE :: u16) @ to_le_bytes (0 :: u32) @
             to_le_bytes (of_nat fixed_entries_offset :: u64) @ to_le_bytes (of_nat label_offsets_offset :: u64) @
             to_le_bytes (of_nat label_ids_offset :: u64) @ to_le_bytes (of_nat (length label_ids) :: u64) @
             concat (map node_meta_row rows) @ concat (map (\<lambda>n. to_le_bytes (of_nat n :: u64)) label_offsets) @
             concat (map to_le_bytes label_ids))))))))"

text \<open>Vectors: a row of offsets and lengths for every node, and one blob for each kind of vector.\<close>

record node_vector_row =
  vr_node_id :: u64
  vr_flags :: u8
  vr_dense_offset :: u64
  vr_dense_len :: u32
  vr_sparse_offset :: u64
  vr_sparse_len :: u32

fun prepare_node_vector_source_plan ::
    "(u64, node_record) fmap \<Rightarrow> nat \<Rightarrow> nat \<Rightarrow> record_spans \<Rightarrow> engine_error + node_vector_row list" where
  "prepare_node_vector_source_plan node_map dense_offset sparse_offset [] = Inr []"
| "prepare_node_vector_source_plan node_map dense_offset sparse_offset ((node_id, _, _) # rest) =
     (case fmlookup node_map node_id of
        None \<Rightarrow> Inl (CorruptRecord ''node not found for vector source'')
      | Some node \<Rightarrow>
          (let dense = n_dense_vector node; sparse = n_sparse_vector node;
               dense_size = (case dense of Some values \<Rightarrow> length values * DENSE_VECTOR_VALUE_SIZE | None \<Rightarrow> 0);
               sparse_size = (case sparse of Some values \<Rightarrow> length values * SPARSE_VECTOR_ENTRY_SIZE | None \<Rightarrow> 0)
           in r_bind (checked_add_or (CorruptRecord ''dense vector blob offset overflow'') dense_offset dense_size) (\<lambda>next_dense.
              r_bind (checked_add_or (CorruptRecord ''sparse vector blob offset overflow'') sparse_offset sparse_size) (\<lambda>next_sparse.
              r_bind (prepare_node_vector_source_plan node_map next_dense next_sparse rest) (\<lambda>rows.
                Inr (\<lparr>vr_node_id = node_id,
                  vr_flags = (if dense \<noteq> None then NODE_VECTOR_FLAG_DENSE else 0) OR (if sparse \<noteq> None then NODE_VECTOR_FLAG_SPARSE else 0),
                  vr_dense_offset = (case dense of Some _ \<Rightarrow> of_nat dense_offset | None \<Rightarrow> 0),
                  vr_dense_len = (case dense of Some values \<Rightarrow> of_nat (length values) | None \<Rightarrow> 0),
                  vr_sparse_offset = (case sparse of Some _ \<Rightarrow> of_nat sparse_offset | None \<Rightarrow> 0),
                  vr_sparse_len = (case sparse of Some values \<Rightarrow> of_nat (length values) | None \<Rightarrow> 0)\<rparr> # rows))))))"

definition vector_meta_row :: "node_vector_row \<Rightarrow> bytes" where
  "vector_meta_row row = [vr_flags row] @ replicate 3 0 @ to_le_bytes (vr_dense_offset row) @ to_le_bytes (vr_dense_len row) @
     to_le_bytes (vr_sparse_offset row) @ to_le_bytes (vr_sparse_len row)"

definition write_node_vector_meta_payload :: "node_vector_row list \<Rightarrow> bytes" where
  "write_node_vector_meta_payload rows = to_le_bytes (of_nat (length rows) :: u64) @ concat (map vector_meta_row rows)"

definition dense_blob_row :: "(u64, node_record) fmap \<Rightarrow> node_vector_row \<Rightarrow> engine_error + bytes" where
  "dense_blob_row node_map row =
     (if vr_dense_len row = 0 then Inr []
      else case fmlookup node_map (vr_node_id row) of
        None \<Rightarrow> Inl (CorruptRecord ''node not found for dense vector blob'')
      | Some node \<Rightarrow> (case n_dense_vector node of
          None \<Rightarrow> Inl (CorruptRecord ''node missing dense vector for blob'')
        | Some values \<Rightarrow> Inr (concat (map to_le_bytes values))))"

definition write_node_dense_vector_blob_payload :: "node_vector_row list \<Rightarrow> (u64, node_record) fmap \<Rightarrow> engine_error + bytes" where
  "write_node_dense_vector_blob_payload rows node_map = r_bind (r_map (dense_blob_row node_map) rows) (\<lambda>parts. Inr (concat parts))"

definition sparse_entry :: "u32 \<times> f32 \<Rightarrow> bytes" where
  "sparse_entry e = to_le_bytes (fst e) @ to_le_bytes (snd e)"

definition sparse_blob_row :: "(u64, node_record) fmap \<Rightarrow> node_vector_row \<Rightarrow> engine_error + bytes" where
  "sparse_blob_row node_map row =
     (if vr_sparse_len row = 0 then Inr []
      else case fmlookup node_map (vr_node_id row) of
        None \<Rightarrow> Inl (CorruptRecord ''node not found for sparse vector blob'')
      | Some node \<Rightarrow> (case n_sparse_vector node of
          None \<Rightarrow> Inl (CorruptRecord ''node missing sparse vector for blob'')
        | Some values \<Rightarrow> Inr (concat (map sparse_entry values))))"

definition write_node_sparse_vector_blob_payload :: "node_vector_row list \<Rightarrow> (u64, node_record) fmap \<Rightarrow> engine_error + bytes" where
  "write_node_sparse_vector_blob_payload rows node_map = r_bind (r_map (sparse_blob_row node_map) rows) (\<lambda>parts. Inr (concat parts))"

text \<open>The three vector payloads; a payload that is not written is empty.\<close>

definition write_node_vector_source_components ::
    "record_spans \<Rightarrow> (u64, node_record) fmap \<Rightarrow> engine_error + bytes \<times> bytes \<times> bytes" where
  "write_node_vector_source_components node_data node_map =
     r_bind (prepare_node_vector_source_plan node_map 0 0 node_data) (\<lambda>rows.
       let has_dense = list_ex (\<lambda>row. vr_flags row AND NODE_VECTOR_FLAG_DENSE \<noteq> 0) rows;
           has_sparse = list_ex (\<lambda>row. vr_flags row AND NODE_VECTOR_FLAG_SPARSE \<noteq> 0) rows
       in if \<not> has_dense \<and> \<not> has_sparse then Inr ([], [], [])
          else r_bind (if has_dense then write_node_dense_vector_blob_payload rows node_map else Inr []) (\<lambda>dense.
               r_bind (if has_sparse then write_node_sparse_vector_blob_payload rows node_map else Inr []) (\<lambda>sparse.
                 Inr (write_node_vector_meta_payload rows, dense, sparse))))"

section \<open>Reading records\<close>

text \<open>Label ids read one after the other, each above the one before.\<close>

fun read_ascending :: "(nat \<Rightarrow> engine_error + u32) \<Rightarrow> engine_error \<Rightarrow> nat list \<Rightarrow> u32 list \<Rightarrow> engine_error + u32 list" where
  "read_ascending read err [] ids = Inr ids"
| "read_ascending read err (i # is) ids =
     r_bind (read i) (\<lambda>label_id.
       if ids \<noteq> [] \<and> last ids \<ge> label_id then Inl err else read_ascending read err is (ids @ [label_id]))"

definition decode_node_at_with_end :: "from_slice \<Rightarrow> bytes \<Rightarrow> nat \<Rightarrow> u64 \<Rightarrow> engine_error + node_record \<times> nat" where
  "decode_node_at_with_end from_slice data offset rid =
     r_bind (seg_u8_at data offset) (\<lambda>label_count_byte. let label_count = unat label_count_byte in
     if label_count = 0 \<or> label_count > MAX_NODE_LABELS_PER_NODE then Inl (CorruptRecord ''node record has invalid label count'')
     else r_bind (read_ascending (\<lambda>label_index. seg_u32_at data (offset + 1 + label_index * 4))
       (CorruptRecord ''node record label IDs must be sorted ascending and unique'') [0 ..< label_count] []) (\<lambda>ids.
     r_bind (map_err (\<lambda>_. CorruptRecord ''invalid label set on node record'') (from_canonical_ids ids)) (\<lambda>label_ids.
     let key_len_offset = offset + 1 + label_count * 4 in
     r_bind (seg_u16_at data key_len_offset) (\<lambda>key_len_word. let key_len = unat key_len_word; key_start = key_len_offset + 2 in
     r_bind (read_bytes_at data key_start key_len) (\<lambda>key_bytes.
     if \<not> utf8_valid key_bytes then Inl (CorruptRecord ''invalid UTF-8 in node key'')
     else let pos = key_start + key_len in
     r_bind (seg_i64_at data pos) (\<lambda>created_at. r_bind (seg_i64_at data (pos + 8)) (\<lambda>updated_at.
     r_bind (seg_f32_at data (pos + 16)) (\<lambda>weight. r_bind (seg_u32_at data (pos + 20)) (\<lambda>props_len.
     r_bind (read_bytes_at data (pos + 24) (unat props_len)) (\<lambda>props_bytes.
     r_bind (map_err CorruptRecord (from_slice props_bytes)) (\<lambda>props.
     r_bind (checked_add_or (CorruptRecord ''node record end offset overflow'') pos 24) (\<lambda>base.
     r_bind (checked_add_or (CorruptRecord ''node record end offset overflow'') base (unat props_len)) (\<lambda>end'.
       Inr (\<lparr>n_id = rid, n_label_ids = label_ids, n_key = key_bytes, n_props = props, n_created_at = created_at,
         n_updated_at = updated_at, n_weight = weight, n_dense_vector = None, n_sparse_vector = None,
         n_last_write_seq = 0\<rparr>, end'))))))))))))))"

definition decode_node_at :: "from_slice \<Rightarrow> bytes \<Rightarrow> nat \<Rightarrow> u64 \<Rightarrow> engine_error + node_record" where
  "decode_node_at from_slice data offset rid = r_bind (decode_node_at_with_end from_slice data offset rid) (\<lambda>(node, _). Inr node)"

definition binary_search_node_index :: "segment_reader \<Rightarrow> u64 \<Rightarrow> engine_error + (nat \<times> nat) option" where
  "binary_search_node_index sr target_id = binary_search_id_index (sr_nodes sr) target_id"

definition is_node_deleted :: "segment_reader \<Rightarrow> u64 \<Rightarrow> bool" where
  "is_node_deleted sr rid = (rid |\<in>| fmdom (sr_deleted_nodes sr))"

section \<open>Reading metadata\<close>

record node_meta_layout =
  ml_node_count :: nat
  ml_fixed_entry_size :: nat
  ml_label_offset_entry_size :: nat
  ml_fixed_entries_offset :: nat
  ml_label_offsets_offset :: nat
  ml_label_ids_offset :: nat
  ml_label_id_count :: nat

definition parse_node_meta_layout :: "bytes \<Rightarrow> engine_error + node_meta_layout option" where
  "parse_node_meta_layout data =
     (if length data < 8 then Inr None
      else r_bind (seg_u64_at data 0) (\<lambda>count. r_bind (usize_from_u64 count ''node metadata count'') (\<lambda>node_count.
      if node_count = 0 then Inr (Some \<lparr>ml_node_count = node_count, ml_fixed_entry_size = NODE_META_FIXED_ENTRY_SIZE,
        ml_label_offset_entry_size = NODE_META_LABEL_OFFSET_ENTRY_SIZE, ml_fixed_entries_offset = NODE_META_HEADER_SIZE,
        ml_label_offsets_offset = NODE_META_HEADER_SIZE, ml_label_ids_offset = NODE_META_HEADER_SIZE, ml_label_id_count = 0\<rparr>)
      else if length data < NODE_META_HEADER_SIZE then Inl (CorruptRecord ''node metadata header is too short'')
      else r_bind (seg_u16_at data 8) (\<lambda>fixed_size. r_bind (seg_u16_at data 10) (\<lambda>offset_size.
      if unat fixed_size \<noteq> NODE_META_FIXED_ENTRY_SIZE then Inl (CorruptRecord ''unsupported node metadata fixed entry size'')
      else if unat offset_size \<noteq> NODE_META_LABEL_OFFSET_ENTRY_SIZE then Inl (CorruptRecord ''unsupported node metadata label offset entry size'')
      else r_bind (seg_u64_at data 16) (\<lambda>fixed_at. r_bind (seg_u64_at data 24) (\<lambda>offsets_at. r_bind (seg_u64_at data 32) (\<lambda>ids_at.
      r_bind (seg_u64_at data 40) (\<lambda>id_count.
      let fixed = unat fixed_at; offsets = unat offsets_at; ids = unat ids_at; label_id_count = unat id_count in
      r_bind (checked_mul_or (CorruptRecord ''node metadata fixed table overflow'') node_count NODE_META_FIXED_ENTRY_SIZE) (\<lambda>fixed_bytes.
      r_bind (checked_add_or (CorruptRecord ''node metadata label offset count overflow'') node_count 1) (\<lambda>offset_entries.
      r_bind (checked_mul_or (CorruptRecord ''node metadata label offset table overflow'') offset_entries NODE_META_LABEL_OFFSET_ENTRY_SIZE) (\<lambda>offset_bytes.
      r_bind (checked_mul_or (CorruptRecord ''node metadata label ID region overflow'') label_id_count 4) (\<lambda>id_bytes.
      r_bind (checked_range_end fixed fixed_bytes ''node metadata fixed table'') (\<lambda>fixed_end.
      if fixed_end > length data then Inl (CorruptRecord ''node metadata fixed table exceeds payload length'')
      else r_bind (checked_range_end offsets offset_bytes ''node metadata label offset table'') (\<lambda>offsets_end.
      if offsets_end > length data then Inl (CorruptRecord ''node metadata label offset table exceeds payload length'')
      else r_bind (checked_range_end ids id_bytes ''node metadata label ID region'') (\<lambda>ids_end.
      if ids_end > length data then Inl (CorruptRecord ''node metadata label ID region exceeds payload length'')
      else if label_id_count > saturating_mul node_count MAX_NODE_LABELS_PER_NODE
        then Inl (CorruptRecord ''node metadata label ID count exceeds maximum'')
      else r_bind (seg_u64_at data offsets) (\<lambda>first_label_offset.
      if unat first_label_offset \<noteq> 0 then Inl (CorruptRecord ''node metadata first label offset must be 0'')
      else r_bind (checked_mul_or (CorruptRecord ''node metadata terminal label offset overflow'') node_count NODE_META_LABEL_OFFSET_ENTRY_SIZE) (\<lambda>n.
      r_bind (checked_add_or (CorruptRecord ''node metadata terminal label offset overflow'') offsets n) (\<lambda>terminal_pos.
      r_bind (seg_u64_at data terminal_pos) (\<lambda>terminal.
      if unat terminal \<noteq> label_id_count then Inl (CorruptRecord ''node metadata terminal label offset does not match label ID count'')
      else Inr (Some \<lparr>ml_node_count = node_count, ml_fixed_entry_size = NODE_META_FIXED_ENTRY_SIZE,
        ml_label_offset_entry_size = NODE_META_LABEL_OFFSET_ENTRY_SIZE, ml_fixed_entries_offset = fixed,
        ml_label_offsets_offset = offsets, ml_label_ids_offset = ids, ml_label_id_count = label_id_count\<rparr>)))))))))))))))))))))"

record segment_node_meta =
  sm_node_id :: u64
  sm_data_offset :: u64
  sm_data_len :: u32
  sm_label_ids :: node_label_set
  sm_updated_at :: i64
  sm_weight :: f32
  sm_key_len :: u16
  sm_last_write_seq :: u64

text \<open>The offset of a row of a table: \<^verbatim>\<open>checked_add(base, checked_mul(index, size))\<close>.\<close>

definition row_offset :: "string \<Rightarrow> nat \<Rightarrow> nat \<Rightarrow> nat \<Rightarrow> engine_error + nat" where
  "row_offset msg base index row_size =
     r_bind (checked_mul_or (CorruptRecord msg) index row_size) (\<lambda>n. checked_add_or (CorruptRecord msg) base n)"

definition read_node_meta_entry_at :: "bytes \<Rightarrow> node_meta_layout \<Rightarrow> nat \<Rightarrow> engine_error + segment_node_meta" where
  "read_node_meta_entry_at data layout index =
     (if index \<ge> ml_node_count layout then Inl (CorruptRecord ''node metadata index out of bounds'')
      else r_bind (row_offset ''node metadata fixed entry offset overflow'' (ml_fixed_entries_offset layout) index (ml_fixed_entry_size layout)) (\<lambda>off.
      r_bind (seg_u64_at data off) (\<lambda>node_id. r_bind (seg_u64_at data (off + 8)) (\<lambda>data_offset.
      r_bind (seg_u32_at data (off + 16)) (\<lambda>data_len. r_bind (seg_i64_at data (off + 20)) (\<lambda>updated_at.
      r_bind (seg_f32_at data (off + 28)) (\<lambda>weight. r_bind (seg_u16_at data (off + 32)) (\<lambda>key_len.
      r_bind (seg_u64_at data (off + 34)) (\<lambda>last_write_seq.
      r_bind (row_offset ''node metadata label offset entry overflow'' (ml_label_offsets_offset layout) index (ml_label_offset_entry_size layout)) (\<lambda>label_offset_pos.
      r_bind (seg_u64_at data label_offset_pos) (\<lambda>start_word.
      r_bind (seg_u64_at data (label_offset_pos + ml_label_offset_entry_size layout)) (\<lambda>end_word.
      let label_start = unat start_word; label_end = unat end_word; label_count = label_end - label_start in
      if label_start > label_end then Inl (CorruptRecord ''node metadata label offsets are not monotonic'')
      else if label_end > ml_label_id_count layout then Inl (CorruptRecord ''node metadata label end exceeds label ID count'')
      else if label_count = 0 \<or> label_count > MAX_NODE_LABELS_PER_NODE then Inl (CorruptRecord ''node metadata row has invalid label count'')
      else r_bind (read_ascending (\<lambda>label_index. r_bind (row_offset ''node metadata label ID offset overflow''
          (ml_label_ids_offset layout) (label_start + label_index) 4) (seg_u32_at data))
        (CorruptRecord ''node metadata label IDs must be sorted ascending and unique'') [0 ..< label_count] []) (\<lambda>ids.
      r_bind (map_err (\<lambda>_. CorruptRecord ''invalid node metadata label set'') (from_canonical_ids ids)) (\<lambda>label_ids.
        Inr \<lparr>sm_node_id = node_id, sm_data_offset = data_offset, sm_data_len = data_len, sm_label_ids = label_ids,
          sm_updated_at = updated_at, sm_weight = weight, sm_key_len = key_len, sm_last_write_seq = last_write_seq\<rparr>))))))))))))))"

definition meta_id_at :: "bytes \<Rightarrow> node_meta_layout \<Rightarrow> nat \<Rightarrow> engine_error + u64" where
  "meta_id_at data layout mid =
     r_bind (row_offset ''node metadata fixed entry offset overflow'' (ml_fixed_entries_offset layout) mid (ml_fixed_entry_size layout)) (seg_u64_at data)"

definition binary_search_node_meta_index :: "bytes \<Rightarrow> node_meta_layout \<Rightarrow> u64 \<Rightarrow> engine_error + nat option" where
  "binary_search_node_meta_index data layout target_id =
     search_loop (meta_id_at data layout) (compare_keys target_id) 0 (ml_node_count layout)"

definition node_meta_at :: "segment_reader \<Rightarrow> nat \<Rightarrow> engine_error + segment_node_meta" where
  "node_meta_at sr index =
     r_bind (parse_node_meta_layout (sr_node_meta sr)) (\<lambda>layout. case layout of
         None \<Rightarrow> Inl (CorruptRecord ''node metadata payload is missing'')
       | Some layout \<Rightarrow> read_node_meta_entry_at (sr_node_meta sr) layout index)"

section \<open>Reading vectors\<close>

definition read_node_vector_meta_entry :: "bytes \<Rightarrow> nat \<Rightarrow> engine_error + u8 \<times> u64 \<times> u32 \<times> u64 \<times> u32" where
  "read_node_vector_meta_entry data index =
     (let off = 8 + index * NODE_VECTOR_META_ENTRY_SIZE in
      r_bind (seg_u8_at data off) (\<lambda>flags. r_bind (seg_u64_at data (off + 4)) (\<lambda>dense_offset.
      r_bind (seg_u32_at data (off + 12)) (\<lambda>dense_len. r_bind (seg_u64_at data (off + 16)) (\<lambda>sparse_offset.
      r_bind (seg_u32_at data (off + 24)) (\<lambda>sparse_len. Inr (flags, dense_offset, dense_len, sparse_offset, sparse_len)))))))"

definition node_vector_meta_at :: "segment_reader \<Rightarrow> nat \<Rightarrow> engine_error + u64 \<times> u32 \<times> u64 \<times> u32" where
  "node_vector_meta_at sr index =
     (if sr_node_vector_meta sr = [] then Inr (0, 0, 0, 0)
      else r_bind (read_node_vector_meta_entry (sr_node_vector_meta sr) index) (\<lambda>(flags, dense_offset, dense_len, sparse_offset, sparse_len).
        let dense = (flags AND NODE_VECTOR_FLAG_DENSE \<noteq> 0); sparse = (flags AND NODE_VECTOR_FLAG_SPARSE \<noteq> 0)
        in Inr (if dense then dense_offset else 0, if dense then dense_len else 0,
                if sparse then sparse_offset else 0, if sparse then sparse_len else 0)))"

definition read_dense_vector_from_blob :: "segment_reader \<Rightarrow> u64 \<Rightarrow> u32 \<Rightarrow> engine_error + dense_vector option" where
  "read_dense_vector_from_blob sr dense_offset dense_len =
     (if dense_len = 0 then Inr None
      else r_bind (r_map (\<lambda>i. seg_f32_at (sr_node_dense_vectors sr) (unat dense_offset + i * DENSE_VECTOR_VALUE_SIZE)) [0 ..< unat dense_len])
        (\<lambda>values. Inr (Some values)))"

definition blob_sparse_entry :: "bytes \<Rightarrow> nat \<Rightarrow> engine_error + u32 \<times> f32" where
  "blob_sparse_entry data entry_off =
     r_bind (seg_u32_at data entry_off) (\<lambda>dimension_id. r_bind (seg_f32_at data (entry_off + 4)) (\<lambda>weight. Inr (dimension_id, weight)))"

definition read_sparse_vector_from_blob :: "segment_reader \<Rightarrow> u64 \<Rightarrow> u32 \<Rightarrow> engine_error + sparse_vector option" where
  "read_sparse_vector_from_blob sr sparse_offset sparse_len =
     (if sparse_len = 0 then Inr None
      else r_bind (r_map (\<lambda>i. blob_sparse_entry (sr_node_sparse_vectors sr) (unat sparse_offset + i * SPARSE_VECTOR_ENTRY_SIZE)) [0 ..< unat sparse_len])
        (\<lambda>values. Inr (Some values)))"

definition hydrate_node_vectors :: "segment_reader \<Rightarrow> nat \<Rightarrow> node_record \<Rightarrow> engine_error + node_record" where
  "hydrate_node_vectors sr index node =
     r_bind (node_vector_meta_at sr index) (\<lambda>(dense_offset, dense_len, sparse_offset, sparse_len).
     r_bind (if dense_len > 0 then r_bind (read_dense_vector_from_blob sr dense_offset dense_len) (\<lambda>v. Inr (node\<lparr>n_dense_vector := v\<rparr>))
             else Inr node) (\<lambda>node.
     if sparse_len > 0 then r_bind (read_sparse_vector_from_blob sr sparse_offset sparse_len) (\<lambda>v. Inr (node\<lparr>n_sparse_vector := v\<rparr>))
     else Inr node))"

section \<open>Lookups\<close>

definition read_node :: "from_slice \<Rightarrow> segment_reader \<Rightarrow> nat \<times> nat \<Rightarrow> u64 \<Rightarrow> engine_error + node_record" where
  "read_node from_slice sr place rid = (case place of (index, offset) \<Rightarrow>
     r_bind (decode_node_at from_slice (sr_nodes sr) offset rid) (\<lambda>node.
     r_bind (hydrate_node_vectors sr index node) (\<lambda>node.
     r_bind (node_meta_at sr index) (\<lambda>meta. Inr (node\<lparr>n_last_write_seq := sm_last_write_seq meta\<rparr>)))))"

definition get_node :: "from_slice \<Rightarrow> segment_reader \<Rightarrow> u64 \<Rightarrow> engine_error + node_record option" where
  "get_node from_slice sr rid =
     (if is_node_deleted sr rid then Inr None
      else r_bind (binary_search_node_index sr rid) (\<lambda>hit. case hit of
          None \<Rightarrow> Inr None
        | Some place \<Rightarrow> r_bind (read_node from_slice sr place rid) (\<lambda>node. Inr (Some node))))"

definition get_nodes_batch ::
    "from_slice \<Rightarrow> segment_reader \<Rightarrow> (nat \<times> u64) list \<Rightarrow> node_record option list \<Rightarrow> (engine_error + node_record option list) option" where
  "get_nodes_batch from_slice sr lookups results =
     batch_start (sr_nodes sr) lookups results (\<lambda>strategy count. case strategy of
         SeekPerKey \<Rightarrow> seek_batch (is_node_deleted sr) (binary_search_node_index sr) (read_node from_slice sr) lookups None results
       | MergeWalk \<Rightarrow> walk_batch (is_node_deleted sr) (id_at (sr_nodes sr)) count
           (\<lambda>i rid. r_bind (offset_at (sr_nodes sr) i) (\<lambda>offset. read_node from_slice sr (i, offset) rid)) lookups 0 results)"

type_synonym node_meta_triple = "node_label_set \<times> i64 \<times> f32"

definition meta_triple :: "segment_node_meta \<Rightarrow> node_meta_triple" where
  "meta_triple meta = (sm_label_ids meta, sm_updated_at meta, sm_weight meta)"

definition get_node_meta_batch ::
    "segment_reader \<Rightarrow> (nat \<times> u64) list \<Rightarrow> node_meta_triple option list \<Rightarrow> (engine_error + node_meta_triple option list) option" where
  "get_node_meta_batch sr lookups results =
     (if lookups = [] then Some (Inr results)
      else t_bind (Some (parse_node_meta_layout (sr_node_meta sr))) (\<lambda>parsed. case parsed of
        None \<Rightarrow> Some (Inr results)
      | Some layout \<Rightarrow>
          (let data = sr_node_meta sr; count = ml_node_count layout; entry = (\<lambda>i. r_bind (read_node_meta_entry_at data layout i) (\<lambda>meta. Inr (meta_triple meta)))
           in if count = 0 then Some (Inr results)
              else t_bind (Some (choose_batch_read_strategy data (ml_fixed_entries_offset layout) count (ml_fixed_entry_size layout) 0
                (count_runs None (map snd lookups)) (snd (hd lookups)) (snd (last lookups)))) (\<lambda>strategy. case strategy of
                  SeekPerKey \<Rightarrow> seek_meta_batch (is_node_deleted sr) (\<lambda>rid. r_bind (binary_search_node_meta_index data layout rid) (\<lambda>hit. case hit of
                      None \<Rightarrow> Inr None
                    | Some index \<Rightarrow> r_bind (entry index) (\<lambda>t. Inr (Some t)))) lookups None results
                | MergeWalk \<Rightarrow> walk_batch (is_node_deleted sr)
                    (\<lambda>i. seg_u64_at data (ml_fixed_entries_offset layout + i * ml_fixed_entry_size layout)) count (\<lambda>i _. entry i) lookups 0 results))))"

end
