(* ===== verification/Segment_Indexes.thy ===== *)
theory Segment_Indexes
  imports Segment_Nodes
begin

text \<open>
  The lookup indexes of a segment: keys, labels, update times and edge triples, as
  \<^verbatim>\<open>src/src/segment_writer.rs\<close> writes them and \<^verbatim>\<open>src/src/segment_reader.rs\<close> searches them. A slice
  of lookups is a list of positions with the key asked for; a callback returns its new state and
  whether it stops.
\<close>

section \<open>Writing\<close>

record key_index_entry =
  ke_label_id :: u32
  ke_key :: bytes
  ke_node_id :: u64
  ke_encoded_len :: u64

definition key_index_entries :: "node_record \<Rightarrow> engine_error + key_index_entry list" where
  "key_index_entries node =
     (if length (n_key node) > 65535 then Inl (SerializationError ''node key exceeds maximum length'')
      else Inr (map (\<lambda>label_id. \<lparr>ke_label_id = label_id, ke_key = n_key node, ke_node_id = n_id node,
        ke_encoded_len = 4 + 8 + 2 + of_nat (length (n_key node))\<rparr>) (as_slice (n_label_ids node))))"

definition key_order :: "key_index_entry \<Rightarrow> u32 \<times> bytes \<times> u64" where
  "key_order e = (ke_label_id e, ke_key e, ke_node_id e)"

fun duplicate_key_pair :: "key_index_entry list \<Rightarrow> bool" where
  "duplicate_key_pair (left # right # es) \<longleftrightarrow>
     ke_label_id left = ke_label_id right \<and> ke_key left = ke_key right \<and> ke_node_id left \<noteq> ke_node_id right \<or>
     duplicate_key_pair (right # es)"
| "duplicate_key_pair _ \<longleftrightarrow> False"

definition prepare_key_index_payload :: "walk \<Rightarrow> (u64, node_record) fmap \<Rightarrow> engine_error + key_index_entry list" where
  "prepare_key_index_payload walk node_map =
     r_bind (r_map key_index_entries (map (\<lambda>k. the (fmlookup node_map k)) (walk (fmdom node_map)))) (\<lambda>entries.
       let entries = sort_key key_order (concat entries)
       in if duplicate_key_pair entries then Inl (InvalidOperation ''duplicate live node key membership'') else Inr entries)"

fun key_index_offsets :: "u64 \<Rightarrow> key_index_entry list \<Rightarrow> u64 list" where
  "key_index_offsets offset [] = []"
| "key_index_offsets offset (e # es) = offset # key_index_offsets (offset + ke_encoded_len e) es"

definition key_index_row :: "key_index_entry \<Rightarrow> bytes" where
  "key_index_row e = to_le_bytes (ke_label_id e) @ to_le_bytes (ke_node_id e) @
     to_le_bytes (of_nat (length (ke_key e)) :: u16) @ ke_key e"

definition write_key_index_plan_payload :: "key_index_entry list \<Rightarrow> bytes" where
  "write_key_index_plan_payload entries =
     (let count = of_nat (length entries) :: u64 in
      to_le_bytes count @ concat (map to_le_bytes (key_index_offsets (8 + count * 8) entries)) @ concat (map key_index_row entries))"

definition LABEL_POSTING_INDEX_ENTRY_SIZE :: nat where
  "LABEL_POSTING_INDEX_ENTRY_SIZE = 16"

text \<open>Groups come sorted by label and without empty ones; collecting and sorting a set lists it in order.\<close>

definition prepare_label_posting_index_payload :: "(u32, (u64, unit) fmap) fmap \<Rightarrow> (u32 \<times> u64 list) list" where
  "prepare_label_posting_index_payload label_posting_index =
     map (\<lambda>(target_label, ids). (target_label, sorted_list_of_fset (fmdom ids)))
       (filter (\<lambda>(_, ids). ids \<noteq> fmempty) (btree_entries label_posting_index))"

fun label_index_rows :: "u64 \<Rightarrow> (u32 \<times> u64 list) list \<Rightarrow> bytes list" where
  "label_index_rows data_offset [] = []"
| "label_index_rows data_offset ((target_label, ids) # groups) =
     (let count = of_nat (length ids) :: u32 in
      (to_le_bytes target_label @ to_le_bytes data_offset @ to_le_bytes count) # label_index_rows (data_offset + ucast count * 8) groups)"

definition write_label_posting_index_plan_payload :: "(u32 \<times> u64 list) list \<Rightarrow> bytes" where
  "write_label_posting_index_plan_payload groups =
     (let entry_count = of_nat (length groups) :: u64 in
      to_le_bytes entry_count @ concat (label_index_rows (8 + entry_count * of_nat LABEL_POSTING_INDEX_ENTRY_SIZE) groups) @
      concat (map (\<lambda>(_, ids). concat (map to_le_bytes ids)) groups))"

definition EDGE_TRIPLE_ENTRY_SIZE :: nat where
  "EDGE_TRIPLE_ENTRY_SIZE = 28"

definition prepare_edge_triple_index_payload :: "walk \<Rightarrow> (u64, edge_record) fmap \<Rightarrow> (u64 \<times> u64 \<times> u32 \<times> u64) list" where
  "prepare_edge_triple_index_payload walk edge_map =
     sort (map (\<lambda>k. let e = the (fmlookup edge_map k) in (e_from e, e_to e, e_label_id e, e_id e)) (walk (fmdom edge_map)))"

definition edge_triple_row :: "u64 \<times> u64 \<times> u32 \<times> u64 \<Rightarrow> bytes" where
  "edge_triple_row entry = (case entry of (from, to, label_id, edge_id) \<Rightarrow>
     to_le_bytes from @ to_le_bytes to @ to_le_bytes label_id @ to_le_bytes edge_id)"

definition write_edge_triple_index_plan_payload :: "(u64 \<times> u64 \<times> u32 \<times> u64) list \<Rightarrow> bytes" where
  "write_edge_triple_index_plan_payload entries =
     to_le_bytes (of_nat (length entries) :: u64) @ concat (map edge_triple_row entries)"

definition prepare_timestamp_index_payload :: "(u32 \<times> int \<times> u64) fset \<Rightarrow> (u32 \<times> int \<times> u64) list" where
  "prepare_timestamp_index_payload time_index = sorted_list_of_fset time_index"

definition timestamp_row :: "u32 \<times> int \<times> u64 \<Rightarrow> bytes" where
  "timestamp_row entry = (case entry of (label_id, updated_at, node_id) \<Rightarrow>
     to_le_bytes label_id @ to_le_bytes (word_of_int updated_at :: i64) @ to_le_bytes node_id)"

definition write_timestamp_index_plan_payload :: "(u32 \<times> int \<times> u64) list \<Rightarrow> bytes" where
  "write_timestamp_index_plan_payload entries =
     to_le_bytes (of_nat (length entries) :: u64) @ concat (map timestamp_row entries)"

section \<open>Batches of lookups\<close>

text \<open>Seeking every key, or walking the table once; each lists the positions of the keys found with their ids.\<close>

fun seek_ids :: "('k \<Rightarrow> 'e + u64 option) \<Rightarrow> (nat \<times> 'k) list \<Rightarrow> ('k \<times> u64 option) option \<Rightarrow> (nat \<times> u64) list \<Rightarrow> 'e + (nat \<times> u64) list" where
  "seek_ids search [] prev resolved = Inr resolved"
| "seek_ids search ((orig_idx, k) # lookups) prev resolved =
     r_bind (case prev of Some (prev_query, prev_id) \<Rightarrow> if prev_query = k then Inr prev_id else search k | None \<Rightarrow> search k) (\<lambda>hit.
       seek_ids search lookups (Some (k, hit)) (case hit of Some rid \<Rightarrow> resolved @ [(orig_idx, rid)] | None \<Rightarrow> resolved))"

fun walk_keys ::
    "(nat \<Rightarrow> 'e + 'k::linorder) \<Rightarrow> (nat \<Rightarrow> 'e + u64) \<Rightarrow> nat \<Rightarrow> (nat \<times> 'k) list \<Rightarrow> nat \<Rightarrow> (nat \<times> u64) list \<Rightarrow> 'e + (nat \<times> u64) list" where
  "walk_keys read_key read_id count [] idx_pos resolved = Inr resolved"
| "walk_keys read_key read_id count ((orig_idx, k) # lookups) idx_pos resolved =
     r_bind (walk_to read_key count k idx_pos) (\<lambda>(idx_pos, hit).
       if hit then r_bind (read_id idx_pos) (\<lambda>rid. walk_keys read_key read_id count lookups idx_pos (resolved @ [(orig_idx, rid)]))
       else walk_keys read_key read_id count lookups idx_pos resolved)"

fun walk_triples ::
    "(nat \<Rightarrow> 'e + 'k::linorder) \<Rightarrow> (nat \<Rightarrow> 'e + u64) \<Rightarrow> nat \<Rightarrow> (nat \<times> 'k) list \<Rightarrow> nat \<Rightarrow> ('k \<times> u64 option) option \<Rightarrow> (nat \<times> u64) list
       \<Rightarrow> 'e + (nat \<times> u64) list" where
  "walk_triples read_key read_id count [] idx_pos prev resolved = Inr resolved"
| "walk_triples read_key read_id count ((orig_idx, k) # lookups) idx_pos prev resolved =
     (if map_option fst prev = Some k then
        walk_triples read_key read_id count lookups idx_pos prev
          (case Option.bind prev snd of Some rid \<Rightarrow> resolved @ [(orig_idx, rid)] | None \<Rightarrow> resolved)
      else r_bind (walk_to read_key count k idx_pos) (\<lambda>(idx_pos, hit).
        if hit then r_bind (read_id idx_pos) (\<lambda>rid.
          walk_triples read_key read_id count lookups idx_pos (Some (k, Some rid)) (resolved @ [(orig_idx, rid)]))
        else walk_triples read_key read_id count lookups idx_pos (Some (k, None)) resolved))"

section \<open>The key index\<close>

definition key_entry_offset :: "bytes \<Rightarrow> nat \<Rightarrow> engine_error + nat" where
  "key_entry_offset data i = r_bind (seg_u64_at data (8 + i * 8)) (\<lambda>offset. Inr (unat offset))"

definition key_entry_at :: "bytes \<Rightarrow> nat \<Rightarrow> engine_error + u32 \<times> bytes" where
  "key_entry_at data entry_offset =
     r_bind (seg_u32_at data entry_offset) (\<lambda>entry_label_id. r_bind (seg_u16_at data (entry_offset + 12)) (\<lambda>key_len.
     r_bind (read_bytes_at data (entry_offset + 14) (unat key_len)) (\<lambda>key_bytes.
       if utf8_valid key_bytes then Inr (entry_label_id, key_bytes) else Inl (CorruptRecord ''invalid UTF-8 in key index''))))"

definition key_row_at :: "bytes \<Rightarrow> nat \<Rightarrow> engine_error + u32 \<times> bytes" where
  "key_row_at data i = r_bind (key_entry_offset data i) (key_entry_at data)"

definition key_row_id :: "bytes \<Rightarrow> nat \<Rightarrow> engine_error + u64" where
  "key_row_id data i = r_bind (key_entry_offset data i) (\<lambda>entry_offset. seg_u64_at data (entry_offset + 4))"

definition lower_bound_key_index :: "bytes \<Rightarrow> nat \<Rightarrow> u32 \<times> bytes \<Rightarrow> engine_error + nat" where
  "lower_bound_key_index data count target = lower_bound_loop (key_row_at data) (\<lambda>k. k < target) 0 count"

definition upper_bound_key_index :: "bytes \<Rightarrow> nat \<Rightarrow> u32 \<times> bytes \<Rightarrow> engine_error + nat" where
  "upper_bound_key_index data count target = lower_bound_loop (key_row_at data) (\<lambda>k. k \<le> target) 0 count"

definition binary_search_key_index :: "segment_reader \<Rightarrow> u32 \<times> bytes \<Rightarrow> engine_error + u64 option" where
  "binary_search_key_index sr target =
     (let data = sr_key_index sr in
      if length data < 8 then Inr None
      else r_bind (seg_u64_at data 0) (\<lambda>count.
        r_bind (search_loop (key_row_at data) (compare_keys target) 0 (unat count)) (\<lambda>hit. case hit of
            None \<Rightarrow> Inr None | Some mid \<Rightarrow> r_bind (key_row_id data mid) (\<lambda>node_id. Inr (Some node_id)))))"

definition segment_node_by_key :: "from_slice \<Rightarrow> segment_reader \<Rightarrow> u32 \<times> bytes \<Rightarrow> engine_error + node_record option" where
  "segment_node_by_key from_slice sr target =
     r_bind (binary_search_key_index sr target) (\<lambda>hit. case hit of None \<Rightarrow> Inr None | Some node_id \<Rightarrow> get_node from_slice sr node_id)"

definition resolve_keys_to_ids :: "segment_reader \<Rightarrow> (nat \<times> u32 \<times> bytes) list \<Rightarrow> engine_error + (nat \<times> u64) list" where
  "resolve_keys_to_ids sr lookups =
     (let data = sr_key_index sr in
      if length data < 8 then Inr []
      else r_bind (seg_u64_at data 0) (\<lambda>n. let count = unat n; unique_keys = count_runs None (map snd lookups) in
        if count = 0 then Inr []
        else r_bind (if unique_keys \<le> 2 \<or> count \<le> 1 then Inr SeekPerKey
            else r_bind (lower_bound_key_index data count (snd (hd lookups))) (\<lambda>span_start.
              r_bind (upper_bound_key_index data count (snd (last lookups))) (\<lambda>span_end.
                Inr (strategy_of_cost unique_keys count span_start span_end)))) (\<lambda>strategy. case strategy of
          SeekPerKey \<Rightarrow> seek_ids (binary_search_key_index sr) lookups None []
        | MergeWalk \<Rightarrow> walk_keys (key_row_at data) (key_row_id data) count lookups 0 [])))"

section \<open>Label indexes\<close>

definition label_row_label :: "bytes \<Rightarrow> nat \<Rightarrow> engine_error + u32" where
  "label_row_label data i = seg_u32_at data (8 + i * LABEL_POSTING_INDEX_ENTRY_SIZE)"

definition find_label_row :: "bytes \<Rightarrow> u32 \<Rightarrow> engine_error + nat option" where
  "find_label_row data target_label =
     (if length data < 8 then Inr None
      else r_bind (seg_u64_at data 0) (\<lambda>count.
        search_loop (label_row_label data) (compare_keys target_label) 0 (unat count)))"

definition label_row_span :: "bytes \<Rightarrow> nat \<Rightarrow> engine_error + nat \<times> nat" where
  "label_row_span data i =
     (let entry_off = 8 + i * LABEL_POSTING_INDEX_ENTRY_SIZE in
      r_bind (seg_u64_at data (entry_off + 4)) (\<lambda>offset. r_bind (seg_u32_at data (entry_off + 12)) (\<lambda>id_count.
        Inr (unat offset, unat id_count))))"

definition query_label_posting_index :: "bytes \<Rightarrow> u32 \<Rightarrow> (u64, tombstone_entry) fmap \<Rightarrow> engine_error + u64 list" where
  "query_label_posting_index data target_label deleted =
     r_bind (find_label_row data target_label) (\<lambda>hit. case hit of
        None \<Rightarrow> Inr []
      | Some mid \<Rightarrow> r_bind (label_row_span data mid) (\<lambda>(offset, id_count).
          r_bind (r_map (\<lambda>i. seg_u64_at data (offset + i * 8)) [0 ..< id_count]) (\<lambda>ids.
            Inr (filter (\<lambda>rid. rid |\<notin>| fmdom deleted) ids))))"

type_synonym segment_label_posting = "nat \<times> nat"

definition label_posting_index :: "bytes \<Rightarrow> u32 \<Rightarrow> engine_error + segment_label_posting option" where
  "label_posting_index data target_label =
     r_bind (find_label_row data target_label) (\<lambda>hit. case hit of
        None \<Rightarrow> Inr None
      | Some mid \<Rightarrow> r_bind (label_row_span data mid) (\<lambda>(offset, id_count).
          r_bind (checked_mul_or (CorruptRecord ''label posting index payload overflow'') id_count 8) (\<lambda>len.
          r_bind (checked_add_or (CorruptRecord ''label posting index payload end overflow'') offset len) (\<lambda>end_off.
            if end_off > length data then Inl (CorruptRecord ''label posting index payload exceeds file length'')
            else Inr (Some (offset, id_count))))))"

definition label_posting_index_count :: "bytes \<Rightarrow> u32 \<Rightarrow> engine_error + nat" where
  "label_posting_index_count data target_label =
     r_bind (label_posting_index data target_label) (\<lambda>posting. Inr (case posting of Some (_, count) \<Rightarrow> count | None \<Rightarrow> 0))"

definition id_at_label_posting :: "bytes \<Rightarrow> segment_label_posting \<Rightarrow> nat \<Rightarrow> engine_error + u64 option" where
  "id_at_label_posting data posting index = (case posting of (offset, count) \<Rightarrow>
     if index \<ge> count then Inr None else r_bind (seg_u64_at data (offset + index * 8)) (\<lambda>rid. Inr (Some rid)))"

definition label_posting_lower_bound :: "bytes \<Rightarrow> segment_label_posting \<Rightarrow> u64 \<Rightarrow> engine_error + nat" where
  "label_posting_lower_bound data posting after = (case posting of (offset, count) \<Rightarrow>
     lower_bound_loop (\<lambda>mid. seg_u64_at data (offset + mid * 8)) (\<lambda>rid. rid \<le> after) 0 count)"

definition nodes_by_label_id :: "segment_reader \<Rightarrow> u32 \<Rightarrow> engine_error + u64 list" where
  "nodes_by_label_id sr label_id = query_label_posting_index (sr_node_label_index sr) label_id (sr_deleted_nodes sr)"

definition edges_by_label_id :: "segment_reader \<Rightarrow> u32 \<Rightarrow> engine_error + u64 list" where
  "edges_by_label_id sr label_id = query_label_posting_index (sr_edge_label_index sr) label_id (sr_deleted_edges sr)"

definition label_posting_index_ids :: "bytes \<Rightarrow> engine_error + u32 list" where
  "label_posting_index_ids data =
     (if length data < 8 then Inr []
      else r_bind (seg_u64_at data 0) (\<lambda>count. r_map (label_row_label data) [0 ..< unat count]))"

definition segment_node_label_ids :: "segment_reader \<Rightarrow> engine_error + u32 list" where
  "segment_node_label_ids sr = label_posting_index_ids (sr_node_label_index sr)"

section \<open>Ranges of a table\<close>

text \<open>The rows from a position on while \<open>inside\<close> holds.\<close>

function scan_ids :: "(nat \<Rightarrow> 'e + bool) \<Rightarrow> (nat \<Rightarrow> 'e + u64) \<Rightarrow> (u64 \<Rightarrow> bool) \<Rightarrow> nat \<Rightarrow> nat \<Rightarrow> u64 list \<Rightarrow> 'e + u64 list" where
  "scan_ids inside read_id skip count pos ids =
     (if pos < count then
        r_bind (inside pos) (\<lambda>continue.
          if \<not> continue then Inr ids
          else r_bind (read_id pos) (\<lambda>rid. scan_ids inside read_id skip count (pos + 1) (if skip rid then ids else ids @ [rid])))
      else Inr ids)"
  by pat_completeness auto
termination by (relation "measure (\<lambda>(_, _, _, count, pos, _). count - pos)") auto

function scan_each ::
    "(nat \<Rightarrow> 'e + bool) \<Rightarrow> (nat \<Rightarrow> 'e + u64) \<Rightarrow> (u64 \<Rightarrow> bool) \<Rightarrow> (u64, 'c) callback \<Rightarrow> nat \<Rightarrow> nat \<Rightarrow> 'c \<Rightarrow> 'e + 'c \<times> bool" where
  "scan_each inside read_id skip callback count pos acc =
     (if pos < count then
        r_bind (inside pos) (\<lambda>continue.
          if \<not> continue then Inr (acc, False)
          else r_bind (read_id pos) (\<lambda>rid.
            if skip rid then scan_each inside read_id skip callback count (pos + 1) acc
            else case callback rid acc of (acc, stop) \<Rightarrow>
              if stop then Inr (acc, True) else scan_each inside read_id skip callback count (pos + 1) acc))
      else Inr (acc, False))"
  by pat_completeness auto
termination by (relation "measure (\<lambda>(_, _, _, _, count, pos, _). count - pos)") auto

declare scan_ids.simps [simp del] scan_each.simps [simp del]

section \<open>The timestamp index\<close>

definition time_row_key :: "bytes \<Rightarrow> nat \<Rightarrow> engine_error + u32 \<times> int" where
  "time_row_key data i =
     r_bind (seg_u32_at data (8 + i * 20)) (\<lambda>entry_label_id. r_bind (seg_i64_at data (8 + i * 20 + 4)) (\<lambda>e_time.
       Inr (entry_label_id, sint e_time)))"

definition time_row_inside :: "bytes \<Rightarrow> u32 \<Rightarrow> i64 \<Rightarrow> nat \<Rightarrow> engine_error + bool" where
  "time_row_inside data label_id to_ms i =
     r_bind (seg_u32_at data (8 + i * 20)) (\<lambda>entry_label_id.
       if entry_label_id \<noteq> label_id then Inr False
       else r_bind (seg_i64_at data (8 + i * 20 + 4)) (\<lambda>e_time. Inr (\<not> sint e_time > sint to_ms)))"

definition time_row_id :: "bytes \<Rightarrow> nat \<Rightarrow> engine_error + u64" where
  "time_row_id data i = seg_u64_at data (8 + i * 20 + 12)"

definition segment_nodes_by_time_range :: "segment_reader \<Rightarrow> u32 \<Rightarrow> i64 \<Rightarrow> i64 \<Rightarrow> engine_error + u64 list" where
  "segment_nodes_by_time_range sr label_id from_ms to_ms =
     (let data = sr_timestamp_index sr in
      if length data < 8 then Inl (CorruptRecord ''timestamp index missing or truncated (< 8 bytes)'')
      else r_bind (seg_u64_at data 0) (\<lambda>n. let count = unat n in
        if count = 0 then Inr []
        else r_bind (lower_bound_loop (time_row_key data) (\<lambda>k. k < (label_id, sint from_ms)) 0 count) (\<lambda>lo.
          r_bind (scan_ids (time_row_inside data label_id to_ms) (time_row_id data) (\<lambda>rid. rid |\<in>| fmdom (sr_deleted_nodes sr)) count lo [])
            (\<lambda>ids. Inr (sort ids)))))"

definition for_each_node_by_time_range ::
    "segment_reader \<Rightarrow> u32 \<Rightarrow> i64 \<Rightarrow> i64 \<Rightarrow> (u64, 'c) callback \<Rightarrow> 'c \<Rightarrow> engine_error + 'c \<times> bool" where
  "for_each_node_by_time_range sr label_id from_ms to_ms callback acc =
     (let data = sr_timestamp_index sr in
      if length data < 8 then Inl (CorruptRecord ''timestamp index missing or truncated (< 8 bytes)'')
      else r_bind (seg_u64_at data 0) (\<lambda>n. let count = unat n in
        if count = 0 \<or> sint from_ms > sint to_ms then Inr (acc, False)
        else r_bind (lower_bound_loop (time_row_key data) (\<lambda>k. k < (label_id, sint from_ms)) 0 count) (\<lambda>lo.
          scan_each (time_row_inside data label_id to_ms) (time_row_id data) (\<lambda>rid. rid |\<in>| fmdom (sr_deleted_nodes sr)) callback count lo acc)))"

section \<open>The edge triple index\<close>

definition read_edge_triple_key_at :: "bytes \<Rightarrow> nat \<Rightarrow> engine_error + u64 \<times> u64 \<times> u32" where
  "read_edge_triple_key_at data i =
     (let off = 8 + i * EDGE_TRIPLE_ENTRY_SIZE in
      r_bind (seg_u64_at data off) (\<lambda>from. r_bind (seg_u64_at data (off + 8)) (\<lambda>to. r_bind (seg_u32_at data (off + 16)) (\<lambda>label_id.
        Inr (from, to, label_id)))))"

definition triple_row_id :: "bytes \<Rightarrow> nat \<Rightarrow> engine_error + u64" where
  "triple_row_id data i = seg_u64_at data (8 + i * EDGE_TRIPLE_ENTRY_SIZE + 20)"

definition lower_bound_edge_triple_index :: "bytes \<Rightarrow> nat \<Rightarrow> u64 \<times> u64 \<times> u32 \<Rightarrow> engine_error + nat" where
  "lower_bound_edge_triple_index data count target = lower_bound_loop (read_edge_triple_key_at data) (\<lambda>k. k < target) 0 count"

definition upper_bound_edge_triple_index :: "bytes \<Rightarrow> nat \<Rightarrow> u64 \<times> u64 \<times> u32 \<Rightarrow> engine_error + nat" where
  "upper_bound_edge_triple_index data count target = lower_bound_loop (read_edge_triple_key_at data) (\<lambda>k. k \<le> target) 0 count"

definition binary_search_edge_triple_index :: "bytes \<Rightarrow> nat \<Rightarrow> u64 \<times> u64 \<times> u32 \<Rightarrow> engine_error + u64 option" where
  "binary_search_edge_triple_index data count target =
     r_bind (lower_bound_edge_triple_index data count target) (\<lambda>pos.
       if pos \<ge> count then Inr None
       else r_bind (read_edge_triple_key_at data pos) (\<lambda>k.
         if k \<noteq> target then Inr None else r_bind (triple_row_id data pos) (\<lambda>rid. Inr (Some rid))))"

definition segment_edge_by_triple :: "from_slice \<Rightarrow> segment_reader \<Rightarrow> u64 \<times> u64 \<times> u32 \<Rightarrow> engine_error + edge_record option" where
  "segment_edge_by_triple from_slice sr target =
     (let data = sr_edge_triple_index sr in
      if length data < 8 then Inr None
      else r_bind (seg_u64_at data 0) (\<lambda>count.
        r_bind (search_loop (read_edge_triple_key_at data) (compare_keys target) 0 (unat count)) (\<lambda>hit. case hit of
            None \<Rightarrow> Inr None | Some mid \<Rightarrow> r_bind (triple_row_id data mid) (\<lambda>edge_id. get_edge from_slice sr edge_id))))"

definition resolve_triples_to_ids :: "segment_reader \<Rightarrow> (nat \<times> u64 \<times> u64 \<times> u32) list \<Rightarrow> engine_error + (nat \<times> u64) list" where
  "resolve_triples_to_ids sr lookups =
     (let data = sr_edge_triple_index sr in
      if length data < 8 then Inr []
      else r_bind (seg_u64_at data 0) (\<lambda>n. let count = unat n; unique_triples = count_runs None (map snd lookups) in
        if count = 0 then Inr []
        else r_bind (if unique_triples \<le> 2 \<or> count \<le> 1 then Inr SeekPerKey
            else r_bind (lower_bound_edge_triple_index data count (snd (hd lookups))) (\<lambda>span_start.
              r_bind (upper_bound_edge_triple_index data count (snd (last lookups))) (\<lambda>span_end.
                Inr (strategy_of_cost unique_triples count span_start span_end)))) (\<lambda>strategy. case strategy of
          SeekPerKey \<Rightarrow> seek_ids (binary_search_edge_triple_index data count) lookups None []
        | MergeWalk \<Rightarrow> walk_triples (read_edge_triple_key_at data) (triple_row_id data) count lookups 0 None [])))"

text \<open>The order of equal edge ids among the sorted lookups is of no account: each fills its own position.\<close>

definition resolve_triples_batch ::
    "from_slice \<Rightarrow> segment_reader \<Rightarrow> (nat \<times> u64 \<times> u64 \<times> u32) list \<Rightarrow> edge_record option list \<Rightarrow> (engine_error + nat list \<times> edge_record option list) option" where
  "resolve_triples_batch from_slice sr lookups results =
     (if lookups = [] then Some (Inr ([], results))
      else t_bind (Some (resolve_triples_to_ids sr lookups)) (\<lambda>resolved.
        if resolved = [] then Some (Inr ([], results))
        else let edge_lookups = sort_key snd (filter (\<lambda>(_, eid). eid |\<notin>| fmdom (sr_deleted_edges sr)) resolved) in
          t_bind (get_edges_batch from_slice sr edge_lookups results) (\<lambda>results. Some (Inr (map fst resolved, results)))))"

definition triple_row_inside :: "bytes \<Rightarrow> u64 \<times> u64 \<times> u32 \<Rightarrow> nat \<Rightarrow> engine_error + bool" where
  "triple_row_inside data target i = r_bind (read_edge_triple_key_at data i) (\<lambda>k. Inr (k = target))"

definition edge_ids_by_triple :: "segment_reader \<Rightarrow> u64 \<times> u64 \<times> u32 \<Rightarrow> engine_error + u64 list" where
  "edge_ids_by_triple sr target =
     (let data = sr_edge_triple_index sr in
      if length data < 8 then Inr []
      else r_bind (seg_u64_at data 0) (\<lambda>n. let count = unat n in
        if count = 0 then Inr []
        else r_bind (lower_bound_loop (read_edge_triple_key_at data) (\<lambda>k. k < target) 0 count) (\<lambda>lo.
          r_bind (scan_ids (triple_row_inside data target) (triple_row_id data) (\<lambda>rid. rid |\<in>| fmdom (sr_deleted_edges sr)) count lo [])
            (\<lambda>ids. Inr (remdups_adj (sort ids))))))"

end
