(* ===== verification/Segment_Adjacency.thy ===== *)
theory Segment_Adjacency
  imports Segment_Edges
begin

text \<open>
  The adjacency of a segment: the postings and their index as \<^verbatim>\<open>src/src/segment_writer.rs\<close> writes them,
  and the walks, batches and cursors of \<^verbatim>\<open>src/src/segment_reader.rs\<close> over them. Lengths and offsets in
  the plan are 64-bit words.
\<close>

section \<open>Writing\<close>

definition ADJ_INDEX_ENTRY_SIZE :: nat where "ADJ_INDEX_ENTRY_SIZE = 24"
definition I64_MAX :: i64 where "I64_MAX = 0x7FFFFFFFFFFFFFFF"

lemma drop_7_less: "drop_bit 7 val \<noteq> 0 \<Longrightarrow> unat (drop_bit 7 val) < unat (val :: u64)"
  by (cases "val = 0") (auto simp: drop_bit_eq_div unat_div intro!: div_less_dividend unat_gt_0 [THEN iffD2])

function write_varint_to_vec :: "u64 \<Rightarrow> bytes" where
  "write_varint_to_vec val =
     (let byte = ucast (val AND 0x7F) :: u8; val = drop_bit 7 val
      in if val = 0 then [byte] else (byte OR 0x80) # write_varint_to_vec val)"
  by pat_completeness auto

termination by (relation "measure unat") (auto intro: drop_7_less)

declare write_varint_to_vec.simps [simp del]

function varint_len :: "u64 \<Rightarrow> u64" where
  "varint_len val = (if val \<ge> 0x80 then varint_len (drop_bit 7 val) + 1 else 1)"
  by pat_completeness auto

termination
proof (relation "measure unat")
  fix val :: u64
  assume "0x80 \<le> val"
  then have "val \<noteq> 0" by auto
  then show "(drop_bit 7 val, val) \<in> measure unat"
    by (auto simp: drop_bit_eq_div unat_div intro!: div_less_dividend unat_gt_0 [THEN iffD2])
qed simp

declare varint_len.simps [simp del]

text \<open>A posting: edge, neighbour, weight, validity.\<close>

type_synonym adjacency_posting = "u64 \<times> u64 \<times> f32 \<times> i64 \<times> i64"

definition valid_to_enc :: "i64 \<Rightarrow> u64" where
  "valid_to_enc valid_to = (if valid_to = I64_MAX then 0 else valid_to + 1)"

definition write_adjacency_posting_bytes :: "u64 \<Rightarrow> adjacency_posting \<Rightarrow> bytes" where
  "write_adjacency_posting_bytes prev_edge_id posting = (case posting of (edge_id, neighbor_id, weight, valid_from, valid_to) \<Rightarrow>
     write_varint_to_vec (edge_id - prev_edge_id) @ write_varint_to_vec neighbor_id @ to_le_bytes weight @
     write_varint_to_vec valid_from @ write_varint_to_vec (valid_to_enc valid_to))"

fun group_posting_bytes :: "u64 \<Rightarrow> adjacency_posting list \<Rightarrow> bytes" where
  "group_posting_bytes prev_edge_id [] = []"
| "group_posting_bytes prev_edge_id (p # ps) = write_adjacency_posting_bytes prev_edge_id p @ group_posting_bytes (fst p) ps"

fun adjacency_postings_len :: "u64 \<Rightarrow> adjacency_posting list \<Rightarrow> u64" where
  "adjacency_postings_len prev_edge_id [] = 0"
| "adjacency_postings_len prev_edge_id ((edge_id, neighbor_id, _, valid_from, valid_to) # ps) =
     varint_len (edge_id - prev_edge_id) + varint_len neighbor_id + 4 + varint_len valid_from + varint_len (valid_to_enc valid_to) +
     adjacency_postings_len edge_id ps"

record adjacency_group_plan =
  gp_node_id :: u64
  gp_label_id :: u32
  gp_offset :: u64
  gp_postings :: "adjacency_posting list"

text \<open>
  The groups of one node, one for each label. The hash maps are walked in an order the source leaves
  open; the sorts after it remove the order again. \<open>walk\<close> is that order, and the labels come here in
  the order of their first entry.
\<close>

definition posting_of :: "adj_entry \<Rightarrow> adjacency_posting" where
  "posting_of e = (adj_edge_id e, adj_neighbor_id e, adj_weight e, adj_valid_from e, adj_valid_to e)"

definition label_groups :: "u64 \<Rightarrow> adj_entry list \<Rightarrow> (u64 \<times> u32 \<times> adjacency_posting list) list" where
  "label_groups node_id es =
     map (\<lambda>l. (node_id, l, sort_key fst (map posting_of (filter (\<lambda>e. adj_label_id e = l) es)))) (remdups (map adj_label_id es))"

definition adjacency_groups :: "walk \<Rightarrow> (u64, (u64, adj_entry) fmap) fmap \<Rightarrow> (u64 \<times> u32 \<times> adjacency_posting list) list" where
  "adjacency_groups walk adj =
     sort_key (\<lambda>(node_id, label_id, _). (node_id, label_id))
       (concat (map (\<lambda>(node_id, edge_map). label_groups node_id (map snd (hash_entries walk edge_map))) (hash_entries walk adj)))"

fun place_groups :: "u64 \<Rightarrow> (u64 \<times> u32 \<times> adjacency_posting list) list \<Rightarrow> adjacency_group_plan list" where
  "place_groups off [] = []"
| "place_groups off ((node_id, label_id, ps) # rest) =
     \<lparr>gp_node_id = node_id, gp_label_id = label_id, gp_offset = off, gp_postings = ps\<rparr> #
     place_groups (off + adjacency_postings_len 0 ps) rest"

definition prepare_adjacency_payloads :: "walk \<Rightarrow> (u64, (u64, adj_entry) fmap) fmap \<Rightarrow> adjacency_group_plan list" where
  "prepare_adjacency_payloads walk adj = place_groups 0 (adjacency_groups walk adj)"

definition write_adjacency_postings_payload :: "adjacency_group_plan list \<Rightarrow> bytes" where
  "write_adjacency_postings_payload plan = concat (map (\<lambda>g. group_posting_bytes 0 (gp_postings g)) plan)"

definition adjacency_index_row :: "adjacency_group_plan \<Rightarrow> bytes" where
  "adjacency_index_row g = to_le_bytes (gp_node_id g) @ to_le_bytes (gp_label_id g) @ to_le_bytes (gp_offset g) @
     to_le_bytes (of_nat (length (gp_postings g)) :: u32)"

definition write_adjacency_index_payload :: "adjacency_group_plan list \<Rightarrow> bytes" where
  "write_adjacency_index_payload plan = to_le_bytes (of_nat (length plan) :: u64) @ concat (map adjacency_index_row plan)"

section \<open>Reading postings\<close>

text \<open>
  One posting at an offset, after the edge \<open>prev_edge_id\<close>: the posting and the offset behind it. The
  readers repeat this text in their loops.
\<close>

definition decode_adj_posting :: "bytes \<Rightarrow> nat \<Rightarrow> u64 \<Rightarrow> engine_error + adjacency_posting \<times> nat" where
  "decode_adj_posting dat cur_off prev_edge_id =
     r_bind (read_varint_at dat cur_off) (\<lambda>(delta, n). let cur_off = cur_off + n in
     r_bind (checked_adj_edge_id_delta prev_edge_id delta) (\<lambda>edge_id.
     r_bind (read_varint_at dat cur_off) (\<lambda>(neighbor_id, n). let cur_off = cur_off + n in
     r_bind (seg_f32_at dat cur_off) (\<lambda>weight. let cur_off = cur_off + 4 in
     r_bind (read_varint_at dat cur_off) (\<lambda>(valid_from, n). let cur_off = cur_off + n in
     r_bind (read_varint_at dat cur_off) (\<lambda>(vt_enc, n). let cur_off = cur_off + n in
       Inr ((edge_id, neighbor_id, weight, valid_from, if vt_enc = 0 then I64_MAX else vt_enc - 1), cur_off)))))))"

definition find_first_adj_entry :: "bytes \<Rightarrow> u64 \<Rightarrow> engine_error + nat option" where
  "find_first_adj_entry idx_data target_node_id =
     (if length idx_data < 8 then Inr None
      else r_bind (seg_u64_at idx_data 0) (\<lambda>count.
        if count = 0 then Inr None
        else search_first_loop (\<lambda>mid. seg_u64_at idx_data (8 + mid * ADJ_INDEX_ENTRY_SIZE)) (compare_keys target_node_id) None 0 (unat count)))"

text \<open>A row of the index behind its node: label, offset of the postings and their number.\<close>

definition adj_row_at :: "bytes \<Rightarrow> nat \<Rightarrow> engine_error + u32 \<times> nat \<times> nat" where
  "adj_row_at idx_data entry_off =
     r_bind (seg_u32_at idx_data (entry_off + 8)) (\<lambda>label_id.
     r_bind (seg_u64_at idx_data (entry_off + 12)) (\<lambda>posting_offset.
     r_bind (seg_u32_at idx_data (entry_off + 20)) (\<lambda>posting_count.
       Inr (label_id, unat posting_offset, unat posting_count))))"

section \<open>The neighbours of a node\<close>

text \<open>
  The options of \<^verbatim>\<open>collect_adj_neighbors\<close>: the limit (0 for none), whether self loops are recorded and
  which are skipped; the state: the self loops recorded, the raw budget, the results.
\<close>

record collect_options =
  co_node_id :: u64
  co_labels :: "u32 list option"
  co_limit :: nat
  co_record :: bool
  co_skip :: "u64 fset option"

type_synonym collect_state = "u64 fset \<times> nat option \<times> neighbor_record list"

definition hidden_posting :: "segment_reader \<Rightarrow> adjacency_posting \<Rightarrow> bool" where
  "hidden_posting sr p = (case p of (edge_id, neighbor_id, _) \<Rightarrow> edge_id |\<in>| fmdom (sr_deleted_edges sr) \<or> neighbor_id |\<in>| fmdom (sr_deleted_nodes sr))"

definition neighbor_of_posting :: "u32 \<Rightarrow> adjacency_posting \<Rightarrow> neighbor_record" where
  "neighbor_of_posting label_id p = (case p of (edge_id, neighbor_id, weight, valid_from, valid_to) \<Rightarrow>
     \<lparr>nb_node_id = neighbor_id, nb_edge_id = edge_id, nb_edge_label_id = label_id, nb_weight = weight,
      nb_valid_from = valid_from, nb_valid_to = valid_to\<rparr>)"

definition collect_full :: "collect_options \<Rightarrow> collect_state \<Rightarrow> bool" where
  "collect_full opts st = (case st of (_, budget, results) \<Rightarrow> (case budget of
      Some remaining \<Rightarrow> remaining = 0
    | None \<Rightarrow> co_limit opts > 0 \<and> length results \<ge> co_limit opts))"

definition collect_posting :: "segment_reader \<Rightarrow> collect_options \<Rightarrow> u32 \<Rightarrow> adjacency_posting \<Rightarrow> collect_state \<Rightarrow> collect_state" where
  "collect_posting sr opts label_id p st = (case (p, st) of ((edge_id, neighbor_id, _), loops, budget, results) \<Rightarrow>
     if hidden_posting sr p then (loops, budget, results)
     else (let budget = map_option (\<lambda>remaining. remaining - 1) budget in
       if neighbor_id = co_node_id opts \<and> (case co_skip opts of Some skip \<Rightarrow> edge_id |\<in>| skip | None \<Rightarrow> False)
       then (loops, budget, results)
       else (if neighbor_id = co_node_id opts \<and> co_record opts then finsert edge_id loops else loops, budget,
             results @ [neighbor_of_posting label_id p])))"

fun collect_postings ::
    "segment_reader \<Rightarrow> collect_options \<Rightarrow> bytes \<Rightarrow> u32 \<Rightarrow> nat \<Rightarrow> nat \<Rightarrow> u64 \<Rightarrow> collect_state \<Rightarrow> engine_error + collect_state" where
  "collect_postings sr opts dat label_id 0 cur_off prev st = Inr st"
| "collect_postings sr opts dat label_id (Suc n) cur_off prev st =
     (if collect_full opts st then Inr st
      else r_bind (decode_adj_posting dat cur_off prev) (\<lambda>(p, cur_off).
        collect_postings sr opts dat label_id n cur_off (fst p) (collect_posting sr opts label_id p st)))"

fun collect_rows :: "segment_reader \<Rightarrow> collect_options \<Rightarrow> bytes \<Rightarrow> bytes \<Rightarrow> nat list \<Rightarrow> collect_state \<Rightarrow> engine_error + collect_state" where
  "collect_rows sr opts idx dat [] st = Inr st"
| "collect_rows sr opts idx dat (i # is) st =
     (if collect_full opts st then Inr st
      else let entry_off = 8 + i * ADJ_INDEX_ENTRY_SIZE in
        r_bind (seg_u64_at idx entry_off) (\<lambda>entry_node.
        if entry_node \<noteq> co_node_id opts then Inr st
        else r_bind (adj_row_at idx entry_off) (\<lambda>(label_id, posting_offset, posting_count).
          if label_excluded (co_labels opts) label_id then collect_rows sr opts idx dat is st
          else r_bind (collect_postings sr opts dat label_id posting_count posting_offset 0 st) (collect_rows sr opts idx dat is))))"

definition collect_adj_neighbors ::
    "segment_reader \<Rightarrow> collect_options \<Rightarrow> bytes \<Rightarrow> bytes \<Rightarrow> collect_state \<Rightarrow> engine_error + collect_state" where
  "collect_adj_neighbors sr opts idx dat st =
     r_bind (find_first_adj_entry idx (co_node_id opts)) (\<lambda>first. case first of
         None \<Rightarrow> Inr st
       | Some i \<Rightarrow> r_bind (seg_u64_at idx 0) (\<lambda>count. collect_rows sr opts idx dat [i ..< unat count] st))"

definition segment_neighbors ::
    "segment_reader \<Rightarrow> u64 \<Rightarrow> direction \<Rightarrow> u32 list option \<Rightarrow> nat \<Rightarrow> engine_error + neighbor_record list" where
  "segment_neighbors sr node_id direction label_filter_ids limit =
     (let opts = \<lparr>co_node_id = node_id, co_labels = label_filter_ids, co_limit = limit, co_record = False, co_skip = None\<rparr>;
          outgoing = (\<lambda>opts. collect_adj_neighbors sr opts (sr_adj_out_idx sr) (sr_adj_out_dat sr));
          incoming = (\<lambda>opts. collect_adj_neighbors sr opts (sr_adj_in_idx sr) (sr_adj_in_dat sr));
          results = (\<lambda>(_, _, results). Inr results)
      in case direction of
          Outgoing \<Rightarrow> r_bind (outgoing opts ({||}, None, [])) results
        | Incoming \<Rightarrow> r_bind (incoming opts ({||}, None, [])) results
        | Both \<Rightarrow> r_bind (outgoing (opts\<lparr>co_record := True\<rparr>) ({||}, None, [])) (\<lambda>(loops, _, found).
            let second = opts\<lparr>co_limit := 0, co_skip := Some loops\<rparr> in
            if limit = 0 then r_bind (incoming second ({||}, None, found)) results
            else if limit - length found = 0 then Inr found
            else r_bind (incoming second ({||}, Some (limit - length found), found)) results))"

section \<open>Callbacks\<close>

fun visit_postings ::
    "segment_reader \<Rightarrow> bytes \<Rightarrow> (adjacency_posting, 'c) callback \<Rightarrow> nat \<Rightarrow> nat \<Rightarrow> u64 \<Rightarrow> 'c \<Rightarrow> engine_error + 'c \<times> bool" where
  "visit_postings sr dat callback 0 cur_off prev acc = Inr (acc, False)"
| "visit_postings sr dat callback (Suc n) cur_off prev acc =
     r_bind (decode_adj_posting dat cur_off prev) (\<lambda>(p, cur_off).
       if hidden_posting sr p then visit_postings sr dat callback n cur_off (fst p) acc
       else case callback p acc of (acc, stop) \<Rightarrow>
         if stop then Inr (acc, True) else visit_postings sr dat callback n cur_off (fst p) acc)"

fun visit_rows ::
    "segment_reader \<Rightarrow> u64 \<Rightarrow> u32 list option \<Rightarrow> bytes \<Rightarrow> bytes \<Rightarrow> (adjacency_posting, 'c) callback \<Rightarrow> nat list \<Rightarrow> 'c \<Rightarrow> engine_error + 'c \<times> bool" where
  "visit_rows sr node_id filt idx dat callback [] acc = Inr (acc, False)"
| "visit_rows sr node_id filt idx dat callback (i # is) acc =
     (let entry_off = 8 + i * ADJ_INDEX_ENTRY_SIZE in
      r_bind (seg_u64_at idx entry_off) (\<lambda>entry_node.
        if entry_node \<noteq> node_id then Inr (acc, False)
        else r_bind (adj_row_at idx entry_off) (\<lambda>(label_id, posting_offset, posting_count).
          if label_excluded filt label_id then visit_rows sr node_id filt idx dat callback is acc
          else r_bind (visit_postings sr dat callback posting_count posting_offset 0 acc) (\<lambda>(acc, stop).
            if stop then Inr (acc, True) else visit_rows sr node_id filt idx dat callback is acc))))"

definition decode_adj_postings_cb ::
    "segment_reader \<Rightarrow> bytes \<Rightarrow> bytes \<Rightarrow> u64 \<Rightarrow> u32 list option \<Rightarrow> (adjacency_posting, 'c) callback \<Rightarrow> 'c \<Rightarrow> engine_error + 'c \<times> bool" where
  "decode_adj_postings_cb sr idx dat node_id filt callback acc =
     r_bind (find_first_adj_entry idx node_id) (\<lambda>first. case first of
         None \<Rightarrow> Inr (acc, False)
       | Some i \<Rightarrow> r_bind (seg_u64_at idx 0) (\<lambda>count. visit_rows sr node_id filt idx dat callback [i ..< unat count] acc))"

definition for_each_adj_posting ::
    "segment_reader \<Rightarrow> u64 \<Rightarrow> direction \<Rightarrow> u32 list option \<Rightarrow> (adjacency_posting, 'c) callback \<Rightarrow> 'c \<Rightarrow> engine_error + 'c \<times> bool" where
  "for_each_adj_posting sr node_id direction filt callback acc =
     (let outgoing = decode_adj_postings_cb sr (sr_adj_out_idx sr) (sr_adj_out_dat sr) node_id filt callback;
          incoming = decode_adj_postings_cb sr (sr_adj_in_idx sr) (sr_adj_in_dat sr) node_id filt callback
      in case direction of Outgoing \<Rightarrow> outgoing acc | Incoming \<Rightarrow> incoming acc
        | Both \<Rightarrow> r_bind (outgoing acc) (\<lambda>(acc, stop). if stop then Inr (acc, True) else incoming acc))"

end
