(* ===== verification/Segment_Write.thy ===== *)
theory Segment_Write
  imports Segment_Indexes Segment_Adjacency Memtable_Scans
begin

text \<open>
  Writing a memtable as a segment and opening it again: which parts of the memtable go into which
  component, in the order of \<^verbatim>\<open>write_segment_inner\<close> (\<^verbatim>\<open>src/src/segment_writer.rs\<close>), and the checks of
  \<^verbatim>\<open>SegmentReader::open_with_info\<close> (\<^verbatim>\<open>src/src/segment_reader.rs\<close>) on the contents of the required
  components. Component manifests, identities and the optional components are left out.
\<close>

section \<open>Writing\<close>

record segment_files =
  sf_nodes :: bytes
  sf_edges :: bytes
  sf_node_meta :: bytes
  sf_edge_meta :: bytes
  sf_tombstones :: bytes
  sf_node_vector_meta :: bytes
  sf_node_dense_vectors :: bytes
  sf_node_sparse_vectors :: bytes
  sf_key_index :: bytes
  sf_node_label_index :: bytes
  sf_timestamp_index :: bytes
  sf_edge_label_index :: bytes
  sf_edge_triple_index :: bytes
  sf_adj_out_dat :: bytes
  sf_adj_out_idx :: bytes
  sf_adj_in_dat :: bytes
  sf_adj_in_idx :: bytes

record flush_node_index_output =
  fn_key_index :: "key_index_entry list"
  fn_node_label_index :: "(u32 \<times> u64 list) list"
  fn_timestamp_index :: "(u32 \<times> int \<times> u64) list"

definition write_flush_node_index_components ::
    "walk \<Rightarrow> memtable_state \<Rightarrow> (u64, node_record) fmap \<Rightarrow> engine_error + flush_node_index_output" where
  "write_flush_node_index_components walk st node_map =
     r_bind (prepare_key_index_payload walk node_map) (\<lambda>key_index.
       Inr \<lparr>fn_key_index = key_index, fn_node_label_index = node_label_posting_groups_current st,
         fn_timestamp_index = prepare_timestamp_index_payload (current_time_index (time_node_index st))\<rparr>)"

record flush_edge_index_output =
  fe_adj_out :: "adjacency_group_plan list"
  fe_adj_in :: "adjacency_group_plan list"
  fe_edge_label_index :: "(u32 \<times> u64 list) list"
  fe_edge_triple_index :: "(u64 \<times> u64 \<times> u32 \<times> u64) list"

definition write_flush_edge_index_components :: "walk \<Rightarrow> memtable_state \<Rightarrow> (u64, edge_record) fmap \<Rightarrow> flush_edge_index_output" where
  "write_flush_edge_index_components walk st edge_map =
     \<lparr>fe_adj_out = prepare_adjacency_payloads walk (current_adj_map (adj_out st)),
      fe_adj_in = prepare_adjacency_payloads walk (current_adj_map (adj_in st)),
      fe_edge_label_index = prepare_label_posting_index_payload (current_label_membership_index (label_edge_index st)),
      fe_edge_triple_index = prepare_edge_triple_index_payload walk edge_map\<rparr>"

definition write_segment_inner :: "walk \<Rightarrow> to_vec \<Rightarrow> memtable_state \<Rightarrow> engine_error + segment_files" where
  "write_segment_inner walk to_vec st =
     (let node_map = current_nodes st; edge_map = current_edges st in
      r_bind (write_nodes_payload to_vec node_map) (\<lambda>(node_data, nodes_dat).
      r_bind (write_edges_payload to_vec edge_map) (\<lambda>(edge_data, edges_dat).
      r_bind (write_node_meta_payload node_data node_map) (\<lambda>node_meta.
      r_bind (write_edge_meta_payload edge_data edge_map) (\<lambda>edge_meta.
      r_bind (write_node_vector_source_components node_data node_map) (\<lambda>(vector_meta, dense_vectors, sparse_vectors).
      r_bind (write_flush_node_index_components walk st node_map) (\<lambda>node_output.
      let edge_output = write_flush_edge_index_components walk st edge_map in
      Inr \<lparr>sf_nodes = nodes_dat, sf_edges = edges_dat, sf_node_meta = node_meta, sf_edge_meta = edge_meta,
        sf_tombstones = write_tombstones_payload (deleted_nodes st) (deleted_edges st),
        sf_node_vector_meta = vector_meta, sf_node_dense_vectors = dense_vectors, sf_node_sparse_vectors = sparse_vectors,
        sf_key_index = write_key_index_plan_payload (fn_key_index node_output),
        sf_node_label_index = write_label_posting_index_plan_payload (fn_node_label_index node_output),
        sf_timestamp_index = write_timestamp_index_plan_payload (fn_timestamp_index node_output),
        sf_edge_label_index = write_label_posting_index_plan_payload (fe_edge_label_index edge_output),
        sf_edge_triple_index = write_edge_triple_index_plan_payload (fe_edge_triple_index edge_output),
        sf_adj_out_dat = write_adjacency_postings_payload (fe_adj_out edge_output),
        sf_adj_out_idx = write_adjacency_index_payload (fe_adj_out edge_output),
        sf_adj_in_dat = write_adjacency_postings_payload (fe_adj_in edge_output),
        sf_adj_in_idx = write_adjacency_index_payload (fe_adj_in edge_output)\<rparr>)))))))"

section \<open>Checks on vectors\<close>

definition validate_blob_range :: "bytes \<Rightarrow> u64 \<Rightarrow> nat \<Rightarrow> engine_error + unit" where
  "validate_blob_range blob offset len =
     r_bind (checked_add_or (CorruptRecord ''vector range overflow'') (unat offset) len) (\<lambda>end_off.
       if end_off > length blob then Inl (CorruptRecord ''node vector entry range exceeds blob length'') else Inr ())"

text \<open>One of the two vectors of an entry: the end of its range in the blob.\<close>

definition check_vector_part :: "bytes \<Rightarrow> nat \<Rightarrow> bool \<Rightarrow> u64 \<Rightarrow> u32 \<Rightarrow> nat \<Rightarrow> engine_error + nat" where
  "check_vector_part blob value_size present offset len next_offset =
     (if \<not> present then
        (if offset \<noteq> 0 \<or> len \<noteq> 0 then Inl (CorruptRecord ''node vector entry has payload without flag'') else Inr next_offset)
      else r_bind (checked_mul_or (CorruptRecord ''vector blob size overflow'') (unat len) value_size) (\<lambda>size.
        if unat offset \<noteq> next_offset then Inl (CorruptRecord ''node vector entry offset does not match expected'')
        else r_bind (validate_blob_range blob offset size) (\<lambda>_.
          checked_add_or (CorruptRecord ''vector blob size overflow'') next_offset size)))"

text \<open>The number of dense and of sparse vectors seen, and the ends of the two blobs so far.\<close>

record vector_summary =
  vs_dense_count :: nat
  vs_sparse_count :: nat
  vs_next_dense_offset :: nat
  vs_next_sparse_offset :: nat

fun check_vector_rows :: "bytes \<Rightarrow> bytes \<Rightarrow> bytes \<Rightarrow> nat list \<Rightarrow> vector_summary \<Rightarrow> engine_error + vector_summary" where
  "check_vector_rows vector_meta dense_blob sparse_blob [] s = Inr s"
| "check_vector_rows vector_meta dense_blob sparse_blob (i # rest) s =
     r_bind (read_node_vector_meta_entry vector_meta i) (\<lambda>(flags, dense_offset, dense_len, sparse_offset, sparse_len).
       if flags AND NOT (NODE_VECTOR_FLAG_DENSE OR NODE_VECTOR_FLAG_SPARSE) \<noteq> 0
       then Inl (CorruptRecord ''node vector entry has invalid flags'')
       else let dense = (flags AND NODE_VECTOR_FLAG_DENSE \<noteq> 0); sparse = (flags AND NODE_VECTOR_FLAG_SPARSE \<noteq> 0) in
         r_bind (check_vector_part dense_blob DENSE_VECTOR_VALUE_SIZE dense dense_offset dense_len (vs_next_dense_offset s)) (\<lambda>next_dense.
         r_bind (check_vector_part sparse_blob SPARSE_VECTOR_ENTRY_SIZE sparse sparse_offset sparse_len (vs_next_sparse_offset s)) (\<lambda>next_sparse.
           check_vector_rows vector_meta dense_blob sparse_blob rest
             \<lparr>vs_dense_count = vs_dense_count s + (if dense then 1 else 0), vs_sparse_count = vs_sparse_count s + (if sparse then 1 else 0),
              vs_next_dense_offset = next_dense, vs_next_sparse_offset = next_sparse\<rparr>)))"

definition validate_node_vector_sidecars :: "bytes \<Rightarrow> bytes \<Rightarrow> bytes \<Rightarrow> u64 \<Rightarrow> engine_error + nat \<times> nat" where
  "validate_node_vector_sidecars vector_meta dense_blob sparse_blob expected_count =
     (if vector_meta = [] then
        (if dense_blob \<noteq> [] \<or> sparse_blob \<noteq> [] then Inl (CorruptRecord ''segment has vector blobs without node vector metadata'')
         else Inr (0, 0))
      else if length vector_meta < 8 then Inl (CorruptRecord ''segment node vector metadata too short'')
      else r_bind (seg_u64_at vector_meta 0) (\<lambda>n.
        if n \<noteq> expected_count then Inl (CorruptRecord ''segment node vector metadata count does not match node metadata count'')
        else let count = unat n in
          r_bind (checked_mul_or (CorruptRecord ''node vector metadata size overflow'') count NODE_VECTOR_META_ENTRY_SIZE) (\<lambda>index_bytes.
          r_bind (checked_add_or (CorruptRecord ''node vector metadata size overflow'') 8 index_bytes) (\<lambda>expected_len.
          if length vector_meta \<noteq> expected_len then Inl (CorruptRecord ''segment node vector metadata size does not match expected'')
          else r_bind (check_vector_rows vector_meta dense_blob sparse_blob [0 ..< count]
              \<lparr>vs_dense_count = 0, vs_sparse_count = 0, vs_next_dense_offset = 0, vs_next_sparse_offset = 0\<rparr>) (\<lambda>s.
            let has_dense = (vs_dense_count s > 0); has_sparse = (vs_sparse_count s > 0) in
            if has_dense \<and> dense_blob = [] then Inl (CorruptRecord ''segment references dense vectors but dense blob is missing'')
            else if has_sparse \<and> sparse_blob = [] then Inl (CorruptRecord ''segment references sparse vectors but sparse blob is missing'')
            else if \<not> has_dense \<and> dense_blob \<noteq> [] then Inl (CorruptRecord ''segment has orphaned dense vector blob'')
            else if \<not> has_sparse \<and> sparse_blob \<noteq> [] then Inl (CorruptRecord ''segment has orphaned sparse vector blob'')
            else if has_dense \<and> vs_next_dense_offset s \<noteq> length dense_blob
              then Inl (CorruptRecord ''segment dense vector blob has trailing or unreferenced bytes'')
            else if has_sparse \<and> vs_next_sparse_offset s \<noteq> length sparse_blob
              then Inl (CorruptRecord ''segment sparse vector blob has trailing or unreferenced bytes'')
            else Inr (vs_dense_count s, vs_sparse_count s))))))"

section \<open>Opening\<close>

definition count_from_header :: "bytes \<Rightarrow> engine_error + u64" where
  "count_from_header data = (if length data \<ge> 8 then seg_u64_at data 0 else Inr 0)"

definition open_segment :: "segment_files \<Rightarrow> engine_error + segment_reader" where
  "open_segment files =
     r_bind (load_tombstones_from_bytes (sf_tombstones files)) (\<lambda>(dead_nodes, dead_edges).
     r_bind (count_from_header (sf_nodes files)) (\<lambda>node_count.
     r_bind (count_from_header (sf_edges files)) (\<lambda>edge_count.
     r_bind (count_from_header (sf_node_meta files)) (\<lambda>node_meta_count.
     r_bind (validate_node_vector_sidecars (sf_node_vector_meta files) (sf_node_dense_vectors files) (sf_node_sparse_vectors files) node_meta_count) (\<lambda>_.
       Inr \<lparr>sr_nodes = sf_nodes files, sr_edges = sf_edges files, sr_adj_out_idx = sf_adj_out_idx files, sr_adj_out_dat = sf_adj_out_dat files,
         sr_adj_in_idx = sf_adj_in_idx files, sr_adj_in_dat = sf_adj_in_dat files, sr_key_index = sf_key_index files,
         sr_node_label_index = sf_node_label_index files, sr_edge_label_index = sf_edge_label_index files,
         sr_edge_triple_index = sf_edge_triple_index files, sr_timestamp_index = sf_timestamp_index files,
         sr_node_meta = sf_node_meta files, sr_edge_meta = sf_edge_meta files, sr_node_vector_meta = sf_node_vector_meta files,
         sr_node_dense_vectors = sf_node_dense_vectors files, sr_node_sparse_vectors = sf_node_sparse_vectors files,
         sr_deleted_nodes = dead_nodes, sr_deleted_edges = dead_edges\<rparr>)))))"

end
