(* ===== verification/Segment_Edges_Exact.thy ===== *)
theory Segment_Edges_Exact
  imports Segment_Edges
begin

text \<open>
  What a segment writes for its edges is what it reads: the point lookups return exactly the live
  edges written, and the batched lookups the same with either strategy.
\<close>

section \<open>The layout of a records file\<close>

lemma index_rows_nth:
  assumes "length ids = length records" and "i < length records"
  shows "index_rows off (zip ids records) ! i =
    (ids ! i, off + of_nat (length (concat (take i records))), of_nat (length (records ! i)))"
  using assms
proof (induction records arbitrary: ids off i)
  case (Cons r records)
  then obtain d ds where "ids = d # ds" by (cases ids) auto
  with Cons show ?case by (cases i) auto
qed simp

lemma length_index_rows [simp]: "length (index_rows off rows) = length rows"
  by (induction off rows rule: index_rows.induct) auto

lemma length_index_entry [simp]: "length (index_entry row) = 16"
  by (simp add: index_entry_def split: prod.splits)

definition records_start :: "nat \<Rightarrow> nat" where
  "records_start n = 8 + n * 16"

lemma records_payload_parts:
  assumes "records_payload ids records = (spans, data)" and "length ids = length records"
  shows "spans = index_rows (8 + of_nat (length ids) * 16) (zip ids records)"
    and "data = (to_le_bytes (of_nat (length ids) :: u64) @ concat (map index_entry spans)) @ concat (map id records)"
    and "length data = records_start (length ids) + length (concat records)"
    and "length (to_le_bytes (of_nat (length ids) :: u64) @ concat (map index_entry spans)) = records_start (length ids)"
    and "length spans = length ids"
  using assms by (auto simp: records_payload_def Let_def records_start_def length_concat_map [of index_entry 16])

lemma records_payload_reads:
  assumes payload: "records_payload ids records = (spans, data)" and len: "length ids = length records" and fits: "length data < 2 ^ 64"
  shows "seg_u64_at data 0 = Inr (of_nat (length ids))" and "8 \<le> length data" and "length ids < 2 ^ 64"
    and "rows_ok (id_at data) ids"
    and "i < length ids \<Longrightarrow> offset_at data i = Inr (starts (records_start (length ids)) id records i)"
    and "i < length ids \<Longrightarrow> starts (records_start (length ids)) id records i + length (records ! i) \<le> length data"
proof -
  note parts = records_payload_parts [OF payload len]
  show small: "length ids < 2 ^ 64" and "8 \<le> length data" using fits parts(3) by (simp_all add: records_start_def)
  have "get_range data 0 (0 + 8) = Some (to_le_bytes (of_nat (length ids) :: u64))"
    by (rule get_range_at [of _ "[]"]) (use parts(2) in simp_all)
  then show "seg_u64_at data 0 = Inr (of_nat (length ids))" by (rule field_reads(3)) simp
  have entry: "get_range data (8 + i * 16 + length l) (8 + i * 16 + length l + length mid) = Some mid"
    if "i < length ids" "index_entry (spans ! i) = l @ mid @ r" for i l mid r
  proof -
    have "get_range (to_le_bytes (of_nat (length ids) :: u64) @ concat (map index_entry spans) @ concat records)
        (8 + i * 16 + length l) (8 + i * 16 + length l + length mid) = Some mid"
      using get_range_field [of index_entry 16 i spans l mid r "to_le_bytes (of_nat (length ids) :: u64)" "concat records"] that parts(5)
      by simp
    then show ?thesis using parts(2) by simp
  qed
  have bound: "8 + i * 16 + 16 < 2 ^ 64" if "i < length ids" for i
    using that fits parts(3) by (simp add: records_start_def)
  have span: "spans ! i = (ids ! i, 8 + of_nat (length ids) * 16 + of_nat (length (concat (take i records))), of_nat (length (records ! i)))"
    if "i < length ids" for i unfolding parts(1) using index_rows_nth [OF len] that len by simp
  show "rows_ok (id_at data) ids"
    unfolding rows_ok_def id_at_def EDGE_INDEX_ENTRY_SIZE_def
  proof (intro allI impI field_reads(3))
    fix i assume i: "i < length ids"
    show "get_range data (8 + i * 16) (8 + i * 16 + 8) = Some (to_le_bytes (ids ! i))"
      using entry [OF i, of "[]" "to_le_bytes (ids ! i)"] span [OF i] by (simp add: index_entry_def)
    show "8 + i * 16 + 8 < 2 ^ 64" using bound [OF i] by simp
  qed
  let ?off = "\<lambda>i. starts (records_start (length ids)) id records i"
  {
    assume i: "i < length ids"
    have "concat records = concat (take i records) @ records ! i @ concat (drop (Suc i) records)"
      using concat_map_split [of i records id] i len by simp
    then have "length (concat (take i records)) + length (records ! i) \<le> length (concat records)" by simp
    then show ends: "?off i + length (records ! i) \<le> length data" by (simp add: starts_def parts(3))
    have "get_range data (8 + i * 16 + 8) (8 + i * 16 + 8 + 8) =
        Some (to_le_bytes (8 + of_nat (length ids) * 16 + of_nat (length (concat (take i records))) :: u64))"
      using entry [OF i, of "to_le_bytes (ids ! i)" "to_le_bytes (8 + of_nat (length ids) * 16 + of_nat (length (concat (take i records))) :: u64)" "[]"]
        span [OF i] by (simp add: index_entry_def)
    then have "seg_u64_at data (8 + i * 16 + 8) = Inr (8 + of_nat (length ids) * 16 + of_nat (length (concat (take i records))))"
      by (rule field_reads(3)) (use bound [OF i] in simp)
    moreover have "8 + of_nat (length ids) * 16 + of_nat (length (concat (take i records))) = (of_nat (?off i) :: u64)"
      by (simp add: starts_def records_start_def)
    moreover have "?off i < 2 ^ 64" using ends fits by simp
    ultimately show "offset_at data i = Inr (?off i)" by (simp add: offset_at_def EDGE_INDEX_ENTRY_SIZE_def take_bit_eq_mod unsigned_of_nat)
  }
qed

text \<open>A record is read in chunks, one after the other.\<close>

fun chunks_at :: "bytes \<Rightarrow> nat \<Rightarrow> nat \<Rightarrow> bytes list \<Rightarrow> bool" where
  "chunks_at data off k [] = True"
| "chunks_at data off k (c # cs) \<longleftrightarrow> get_range data (off + k) (off + (k + length c)) = Some c \<and> chunks_at data off (k + length c) cs"

lemma chunks_atI: "data = pre @ concat cs @ post \<Longrightarrow> off + k = length pre \<Longrightarrow> chunks_at data off k cs"
proof (induction cs arbitrary: pre k)
  case (Cons c cs)
  have "get_range data (off + k) (off + (k + length c)) = Some c"
    by (rule get_range_at [of _ pre c "concat cs @ post"]) (use Cons.prems in simp_all)
  moreover have "chunks_at data off (k + length c) cs" by (rule Cons.IH [of "pre @ c"]) (use Cons.prems in simp_all)
  ultimately show ?case by simp
qed simp

lemma chunks_at_bound: "chunks_at data off k cs \<Longrightarrow> cs \<noteq> [] \<Longrightarrow> off + k + length (concat cs) \<le> length data"
proof (induction cs arbitrary: k)
  case (Cons c cs)
  show ?case
  proof (cases "cs = []")
    case True
    then show ?thesis using Cons.prems get_range_bound [of data "off + k" "off + (k + length c)" c] by simp
  next
    case False
    then show ?thesis using Cons.IH [of "k + length c"] Cons.prems by (simp add: add.assoc)
  qed
qed simp

lemma record_chunks:
  assumes "records_payload ids records = (spans, data)" and "length ids = length records" and "i < length ids"
    and "records ! i = concat cs"
  shows "chunks_at data (starts (records_start (length ids)) id records i) 0 cs"
proof (rule chunks_atI)
  show "data = ((to_le_bytes (of_nat (length ids) :: u64) @ concat (map index_entry spans)) @ concat (take i records)) @
      concat cs @ concat (drop (Suc i) records)"
    using concat_map_split [of i records id] assms(2-4) unfolding records_payload_parts(2) [OF assms(1,2)] by simp
qed (use records_payload_parts(4) [OF assms(1,2)] in \<open>simp add: starts_def\<close>)

lemma table_chunks:
  assumes "data = to_le_bytes (n :: u64) @ concat rows" and "\<And>r. r \<in> set rows \<Longrightarrow> length r = k" and "i < length rows"
    and "rows ! i = concat cs"
  shows "chunks_at data (8 + i * k) 0 cs"
proof (rule chunks_atI)
  show "data = (to_le_bytes n @ concat (take i rows)) @ concat cs @ concat (drop (Suc i) rows)"
    using concat_map_split [of i rows id] assms(1,3,4) by simp
  have "length (concat (take i rows)) = i * k"
    using assms(2,3)
  proof (induction rows arbitrary: i)
    case (Cons r rows) then show ?case by (cases i) auto
  qed simp
  then show "8 + i * k + 0 = length (to_le_bytes n @ concat (take i rows))" by simp
qed

section \<open>Searching and batching over a records file\<close>

definition keyed :: "('r \<Rightarrow> u64) \<Rightarrow> (u64, 'r) fmap \<Rightarrow> bool" where
  "keyed rid m \<longleftrightarrow> (\<forall>k r. fmlookup m k = Some r \<longrightarrow> rid r = k)"

lemma sorted_ids: "sorted_wrt (<) (sorted_list_of_fset (s :: 'a::linorder fset))"
  by (simp add: sorted_list_of_fset.rep_eq)

lemma set_sorted_ids [simp]: "set (sorted_list_of_fset s) = fset s"
  by (simp add: sorted_list_of_fset.rep_eq)

lemma sorted_values_keyed:
  assumes "keyed rid m"
  shows "sorted_values rid m = map (\<lambda>k. the (fmlookup m k)) (sorted_list_of_fset (fmdom m))"
    and "map rid (sorted_values rid m) = sorted_list_of_fset (fmdom m)"
proof -
  have ids: "map (\<lambda>k. rid (the (fmlookup m k))) (sorted_list_of_fset (fmdom m)) = sorted_list_of_fset (fmdom m)"
    using assms by (intro map_idI) (auto simp: keyed_def fmlookup_dom_iff)
  then show vals: "sorted_values rid m = map (\<lambda>k. the (fmlookup m k)) (sorted_list_of_fset (fmdom m))"
    unfolding sorted_values_def by (intro sort_key_id_if_sorted) (simp add: comp_def sorted_list_of_fset.rep_eq)
  show "map rid (sorted_values rid m) = sorted_list_of_fset (fmdom m)" unfolding vals using ids by (simp add: comp_def)
qed

lemma records_search:
  assumes "records_payload ids records = (spans, data)" and "length ids = length records" and "length data < 2 ^ 64"
    and "sorted_wrt (<) ids"
  shows "i < length ids \<Longrightarrow> binary_search_id_index data (ids ! i) = Inr (Some (i, starts (records_start (length ids)) id records i))"
    and "t \<notin> set ids \<Longrightarrow> binary_search_id_index data t = Inr None"
proof -
  note reads = records_payload_reads [OF assms(1-3)]
  have sorted: "sorted ids" and dist: "distinct ids" using assms(4) by (simp_all add: strict_sorted_iff)
  have count: "unat (of_nat (length ids) :: u64) = length ids" using reads(3) by (simp add: unat_of_nat take_bit_eq_mod)
  have zero: "(of_nat (length ids) :: u64) = 0 \<longleftrightarrow> ids = []" using count by (metis length_0_conv unat_eq_zero)
  {
    assume i: "i < length ids"
    obtain r where r: "search_loop (id_at data) (compare_keys (ids ! i)) 0 (length ids) = Inr r"
        "case r of Some j \<Rightarrow> 0 \<le> j \<and> j < length ids \<and> ids ! j = ids ! i | None \<Rightarrow> \<forall>j. 0 \<le> j \<longrightarrow> j < length ids \<longrightarrow> ids ! j \<noteq> ids ! i"
      using search_loop_rows [OF reads(4) sorted order_refl] by blast
    then have "r = Some i" using i dist by (auto split: option.splits simp: nth_eq_iff_index_eq)
    then show "binary_search_id_index data (ids ! i) = Inr (Some (i, starts (records_start (length ids)) id records i))"
      using reads(1,2) reads(5) [OF i] r(1) count zero i by (auto simp: binary_search_id_index_def)
  next
    assume t: "t \<notin> set ids"
    obtain r where r: "search_loop (id_at data) (compare_keys t) 0 (length ids) = Inr r"
        "case r of Some j \<Rightarrow> 0 \<le> j \<and> j < length ids \<and> ids ! j = t | None \<Rightarrow> \<forall>j. 0 \<le> j \<longrightarrow> j < length ids \<longrightarrow> ids ! j \<noteq> t"
      using search_loop_rows [OF reads(4) sorted order_refl] by blast
    with t have "r = None" by (auto split: option.splits)
    then show "binary_search_id_index data t = Inr None"
      using reads(1,2) r(1) count by (simp add: binary_search_id_index_def)
  }
qed

lemma batch_start_exact:
  assumes "records_payload ids records = (spans, data)" and "length ids = length records" and "length data < 2 ^ 64"
    and "sorted_wrt (<) ids" and run: "\<And>strategy. run strategy (length ids) = Some (Inr r)"
    and none: "lookups = [] \<or> ids = [] \<Longrightarrow> r = results"
  shows "batch_start data lookups results run = Some (Inr r)"
proof -
  note reads = records_payload_reads [OF assms(1-3)]
  have count: "unat (of_nat (length ids) :: u64) = length ids" using reads(3) by (simp add: unat_of_nat take_bit_eq_mod)
  have zero: "(of_nat (length ids) :: u64) = 0 \<longleftrightarrow> ids = []" using count by (metis length_0_conv unat_eq_zero)
  have rows: "rows_ok (\<lambda>i. seg_u64_at data (key_position 8 EDGE_INDEX_ENTRY_SIZE 0 i)) ids"
    using reads(4) by (simp add: rows_ok_def id_at_def key_position_def)
  have sorted: "sorted ids" using assms(4) by (simp add: strict_sorted_iff)
  from strategy_defined [OF rows sorted refl] obtain s where
    "choose_batch_read_strategy data 8 (length ids) EDGE_INDEX_ENTRY_SIZE 0 (count_runs None (map snd lookups)) (snd (hd lookups)) (snd (last lookups)) = Inr s"
    by blast
  then show ?thesis using reads(1,2) none count zero run by (auto simp: batch_start_def)
qed

section \<open>Edges\<close>

text \<open>The edge files of a segment as the writer leaves them, within the widths of their length fields.\<close>

definition edges_written :: "to_vec \<Rightarrow> (u64, edge_record) fmap \<Rightarrow> segment_reader \<Rightarrow> bool" where
  "edges_written tv m sr \<longleftrightarrow>
     (\<exists>spans. write_edges_payload tv m = Inr (spans, sr_edges sr) \<and> write_edge_meta_payload spans m = Inr (sr_edge_meta sr)) \<and>
     length (sr_edges sr) < 2 ^ 64 \<and> length (sr_edge_meta sr) < 2 ^ 64 \<and> keyed e_id m \<and>
     (\<forall>k e. fmlookup m k = Some e \<longrightarrow> props_wf (e_props e) \<and> (\<forall>bs. tv (e_props e) = Inr bs \<longrightarrow> length bs < 2 ^ 32))"

definition edge_chunks :: "bytes \<Rightarrow> edge_record \<Rightarrow> bytes list" where
  "edge_chunks ps e = [to_le_bytes (e_from e), to_le_bytes (e_to e), to_le_bytes (e_label_id e), to_le_bytes (e_created_at e),
     to_le_bytes (e_updated_at e), to_le_bytes (e_weight e), to_le_bytes (e_valid_from e), to_le_bytes (e_valid_to e),
     to_le_bytes (of_nat (length ps) :: u32), ps]"

definition edge_meta_chunks :: "u64 \<times> u64 \<times> u32 \<Rightarrow> edge_record \<Rightarrow> bytes list" where
  "edge_meta_chunks row e = (case row of (edge_id, data_offset, data_len) \<Rightarrow>
     [to_le_bytes edge_id, to_le_bytes data_offset, to_le_bytes data_len, to_le_bytes (e_from e), to_le_bytes (e_to e),
      to_le_bytes (e_label_id e), to_le_bytes (e_updated_at e), to_le_bytes (e_weight e), to_le_bytes (e_valid_from e),
      to_le_bytes (e_valid_to e), to_le_bytes (e_last_write_seq e), to_le_bytes (0 :: u32)])"

lemma r_map_nth: "r_map f xs = Inr ys \<Longrightarrow> i < length xs \<Longrightarrow> f (xs ! i) = Inr (ys ! i)"
proof (induction xs arbitrary: ys i)
  case (Cons x xs)
  then show ?case by (cases i) (auto simp: r_bind_eq_Inr)
qed simp

lemma r_map_length_eq: "r_map f xs = Inr ys \<Longrightarrow> length ys = length xs"
  by (rule r_map_length)

lemma encode_edge_chunks:
  assumes "encode_edge_record_into tv e = Inr r"
  obtains ps where "tv (e_props e) = Inr ps" and "r = concat (edge_chunks ps e)"
  using assms by (auto simp: encode_edge_record_into_def r_bind_eq_Inr ser_err_def edge_chunks_def)

lemma decode_edge_chunks:
  assumes chunks: "chunks_at data off 0 (edge_chunks ps e)"
    and fits: "length data < 2 ^ 64" and "length ps < 2 ^ 32" and "fs ps = Inr (e_props e)"
  shows "decode_edge_at fs data off (e_id e) = Inr (e\<lparr>e_last_write_seq := 0\<rparr>)"
    and "seg_u64_at data off = Inr (e_from e)" and "seg_u64_at data (off + 8) = Inr (e_to e)"
    and "seg_i64_at data (off + 20) = Inr (e_created_at e)" and "seg_i64_at data (off + 28) = Inr (e_updated_at e)"
    and "seg_f32_at data (off + 36) = Inr (e_weight e)" and "seg_i64_at data (off + 40) = Inr (e_valid_from e)"
    and "seg_i64_at data (off + 48) = Inr (e_valid_to e)"
proof -
  have bound: "off + 60 + length ps < 2 ^ 64"
    using chunks_at_bound [OF chunks] fits by (simp add: edge_chunks_def)
  note c = chunks [unfolded edge_chunks_def, simplified]
  have w: "unat (of_nat (length ps) :: u32) = length ps" using assms(3) by (simp add: unat_of_nat take_bit_eq_mod)
  show "seg_u64_at data off = Inr (e_from e)" by (rule field_reads; use c bound in simp)
  moreover show "seg_u64_at data (off + 8) = Inr (e_to e)"
    "seg_i64_at data (off + 20) = Inr (e_created_at e)" "seg_i64_at data (off + 28) = Inr (e_updated_at e)"
    "seg_f32_at data (off + 36) = Inr (e_weight e)" "seg_i64_at data (off + 40) = Inr (e_valid_from e)"
    "seg_i64_at data (off + 48) = Inr (e_valid_to e)"
    by (rule field_reads_off; use c bound in simp)+
  moreover have "seg_u32_at data (off + 16) = Inr (e_label_id e)" "seg_u32_at data (off + 56) = Inr (of_nat (length ps))"
    by (rule field_reads_off; use c bound in simp)+
  moreover have "read_bytes_at data (off + 60) (length ps) = Inr ps"
    by (rule read_bytes_range) (use c bound in \<open>simp_all add: add.assoc\<close>)
  ultimately show "decode_edge_at fs data off (e_id e) = Inr (e\<lparr>e_last_write_seq := 0\<rparr>)"
    using assms(4) w by (simp add: decode_edge_at_def)
qed

definition core_fields :: "edge_record \<Rightarrow> edge_core_fields" where
  "core_fields e = (e_from e, e_to e, e_created_at e, e_updated_at e, e_weight e, e_valid_from e, e_valid_to e)"

lemma edge_meta_at_chunks:
  assumes chunks: "chunks_at (sr_edge_meta sr) (8 + i * EDGE_META_ENTRY_SIZE) 0 (edge_meta_chunks (k, off, len) e)"
    and fits: "length (sr_edge_meta sr) < 2 ^ 64"
  shows "edge_meta_at sr i = Inr (k, off, len, e_from e, e_to e, e_label_id e, e_updated_at e, e_weight e, e_valid_from e,
    e_valid_to e, e_last_write_seq e)"
proof -
  let ?o = "8 + i * EDGE_META_ENTRY_SIZE" and ?d = "sr_edge_meta sr"
  have bound: "?o + 80 < 2 ^ 64" using chunks_at_bound [OF chunks] fits by (simp add: edge_meta_chunks_def)
  define o' where "o' = ?o"
  note c = chunks [folded o'_def, unfolded edge_meta_chunks_def prod.case, simplified] and b = bound [folded o'_def]
  have "seg_u64_at ?d o' = Inr k" by (rule field_reads; use c b in simp)
  moreover have "seg_u64_at ?d (o' + 8) = Inr off" "seg_u32_at ?d (o' + 16) = Inr len" "seg_u64_at ?d (o' + 20) = Inr (e_from e)"
    "seg_u64_at ?d (o' + 28) = Inr (e_to e)" "seg_u32_at ?d (o' + 36) = Inr (e_label_id e)"
    "seg_i64_at ?d (o' + 40) = Inr (e_updated_at e)" "seg_f32_at ?d (o' + 48) = Inr (e_weight e)"
    "seg_i64_at ?d (o' + 52) = Inr (e_valid_from e)" "seg_i64_at ?d (o' + 60) = Inr (e_valid_to e)"
    "seg_u64_at ?d (o' + 68) = Inr (e_last_write_seq e)"
    by (rule field_reads_off; use c b in simp)+
  ultimately show ?thesis by (simp add: edge_meta_at_def Let_def o'_def [symmetric])
qed

text \<open>The rows of a segment with the edges \<open>m\<close>: where the edge of each id is, and what is read there.\<close>

lemma edges_written_rows:
  assumes written: "edges_written tv m sr" and rmp: "rmp_lossless tv fs"
  obtains ids records spans where "records_payload ids records = (spans, sr_edges sr)" and "length ids = length records"
    and "ids = sorted_list_of_fset (fmdom m)"
    and "\<And>i. i < length ids \<Longrightarrow> read_edge fs sr (i, starts (records_start (length ids)) id records i) (ids ! i) = Inr (the (fmlookup m (ids ! i)))"
    and "\<And>i. i < length ids \<Longrightarrow> edge_metadata_at_index sr i = Inr (edge_metadata_from_edge (the (fmlookup m (ids ! i))))"
    and "\<And>i. i < length ids \<Longrightarrow>
      edge_core_at (sr_edges sr) (starts (records_start (length ids)) id records i) = Inr (core_fields (the (fmlookup m (ids ! i))))"
proof -
  define ids where "ids = sorted_list_of_fset (fmdom m)"
  from written have keyed: "keyed e_id m" by (simp add: edges_written_def)
  note vals = sorted_values_keyed [OF keyed, folded ids_def]
  from written obtain spans where w: "write_edges_payload tv m = Inr (spans, sr_edges sr)"
      and meta: "write_edge_meta_payload spans m = Inr (sr_edge_meta sr)" and fits: "length (sr_edges sr) < 2 ^ 64" "length (sr_edge_meta sr) < 2 ^ 64"
      and props: "\<And>k e. fmlookup m k = Some e \<Longrightarrow> props_wf (e_props e) \<and> (\<forall>bs. tv (e_props e) = Inr bs \<longrightarrow> length bs < 2 ^ 32)"
    by (auto simp: edges_written_def)
  from w vals obtain records where recs: "r_map (encode_edge_record_into tv) (map (\<lambda>k. the (fmlookup m k)) ids) = Inr records"
      and payload: "records_payload ids records = (spans, sr_edges sr)"
    by (auto simp: write_edges_payload_def Let_def r_bind_eq_Inr)
  have len: "length ids = length records" using r_map_length [OF recs] by simp
  note parts = records_payload_parts [OF payload len]
  have edge: "\<exists>e. fmlookup m (ids ! i) = Some e \<and> e_id e = ids ! i" if "i < length ids" for i
    using that keyed nth_mem [OF that] by (auto simp: ids_def keyed_def fmlookup_dom_iff)
  from meta obtain rows where rows: "r_map (edge_meta_row m) spans = Inr rows"
      and md: "sr_edge_meta sr = to_le_bytes (of_nat (length spans) :: u64) @ concat rows"
    by (auto simp: write_edge_meta_payload_def r_bind_eq_Inr)
  have row: "rows ! i = concat (edge_meta_chunks (spans ! i) e)" if "i < length ids" "fmlookup m (ids ! i) = Some e" for i e
    using r_map_nth [OF rows, of i] that parts(1,5) index_rows_nth [OF len, of i] len
    by (auto simp: edge_meta_row_def edge_meta_chunks_def)
  have row_len: "length r = EDGE_META_ENTRY_SIZE" if r: "r \<in> set rows" for r
  proof -
    from r obtain i where i: "i < length rows" "r = rows ! i" by (auto simp: in_set_conv_nth)
    then have "i < length ids" using r_map_length [OF rows] parts(5) by simp
    with edge obtain e where "fmlookup m (ids ! i) = Some e" by blast
    from row [OF \<open>i < length ids\<close> this] i show ?thesis by (simp add: edge_meta_chunks_def EDGE_META_ENTRY_SIZE_def split: prod.splits)
  qed
  let ?o = "\<lambda>i. starts (records_start (length ids)) id records i"
  have meta_at: "\<exists>off len. edge_meta_at sr i = Inr (ids ! i, off, len, e_from e, e_to e, e_label_id e, e_updated_at e, e_weight e,
      e_valid_from e, e_valid_to e, e_last_write_seq e)" if i: "i < length ids" and e: "fmlookup m (ids ! i) = Some e" for i e
  proof -
    obtain off len where sp: "spans ! i = (ids ! i, off, len)" using parts(1) index_rows_nth [OF len, of i] i len by simp
    have "i < length rows" using r_map_length [OF rows] parts(5) i by simp
    from table_chunks [OF md row_len this row [OF i e]] sp show ?thesis
      using edge_meta_at_chunks [OF _ fits(2)] by auto
  qed
  have chunk: "\<exists>ps. chunks_at (sr_edges sr) (?o i) 0 (edge_chunks ps e) \<and> fs ps = Inr (e_props e) \<and> length ps < 2 ^ 32"
    if i: "i < length ids" and e: "fmlookup m (ids ! i) = Some e" for i e
  proof -
    have "encode_edge_record_into tv e = Inr (records ! i)" using r_map_nth [OF recs, of i] i e by simp
    then obtain ps where ps: "tv (e_props e) = Inr ps" "records ! i = concat (edge_chunks ps e)" by (rule encode_edge_chunks)
    moreover have "fs ps = Inr (e_props e)" using rmp_losslessD [OF rmp] props [OF e] ps(1) by blast
    ultimately show ?thesis using record_chunks [OF payload len i ps(2)] props [OF e] by blast
  qed
  show thesis
  proof (rule that [OF payload len ids_def])
    fix i assume i: "i < length ids"
    then obtain e where e: "fmlookup m (ids ! i) = Some e" "e_id e = ids ! i" using edge by blast
    from chunk [OF i e(1)] obtain ps where ps: "chunks_at (sr_edges sr) (?o i) 0 (edge_chunks ps e)" "fs ps = Inr (e_props e)" "length ps < 2 ^ 32"
      by blast
    note decode = decode_edge_chunks [where data = "sr_edges sr" and off = "?o i" and ps = ps and e = e and fs = fs]
    from meta_at [OF i e(1)] decode [OF ps(1) fits(1) ps(3,2)] e
    show "read_edge fs sr (i, ?o i) (ids ! i) = Inr (the (fmlookup m (ids ! i)))" by (auto simp: read_edge_def)
    from meta_at [OF i e(1)] e show "edge_metadata_at_index sr i = Inr (edge_metadata_from_edge (the (fmlookup m (ids ! i))))"
      by (auto simp: edge_metadata_at_index_def edge_metadata_from_edge_def)
    from decode [OF ps(1) fits(1) ps(3,2)] e
    show "edge_core_at (sr_edges sr) (?o i) = Inr (core_fields (the (fmlookup m (ids ! i))))"
      by (simp add: edge_core_at_def core_fields_def)
  qed
qed

text \<open>The live edges of the segment.\<close>

definition segment_edge :: "segment_reader \<Rightarrow> (u64, edge_record) fmap \<Rightarrow> u64 \<Rightarrow> edge_record option" where
  "segment_edge sr m k = (if is_edge_deleted sr k then None else fmlookup m k)"

lemma edges_written_search:
  assumes written: "edges_written tv m sr" and rmp: "rmp_lossless tv fs"
  shows "fmlookup m k = None \<Longrightarrow> binary_search_edge_index sr k = Inr None"
    and "fmlookup m k = Some e \<Longrightarrow> \<exists>place. binary_search_edge_index sr k = Inr (Some place) \<and> read_edge fs sr place k = Inr e \<and>
      edge_core_at (sr_edges sr) (snd place) = Inr (core_fields e) \<and>
      edge_metadata_at_index sr (fst place) = Inr (edge_metadata_from_edge e)"
proof -
  obtain ids records spans where payload: "records_payload ids records = (spans, sr_edges sr)" "length ids = length records"
    and ids: "ids = sorted_list_of_fset (fmdom m)"
    and rows: "\<And>i. i < length ids \<Longrightarrow> read_edge fs sr (i, starts (records_start (length ids)) id records i) (ids ! i) = Inr (the (fmlookup m (ids ! i)))"
      "\<And>i. i < length ids \<Longrightarrow> edge_metadata_at_index sr i = Inr (edge_metadata_from_edge (the (fmlookup m (ids ! i))))"
      "\<And>i. i < length ids \<Longrightarrow> edge_core_at (sr_edges sr) (starts (records_start (length ids)) id records i) = Inr (core_fields (the (fmlookup m (ids ! i))))"
    by (rule edges_written_rows [OF assms]) blast
  have fits: "length (sr_edges sr) < 2 ^ 64" using written by (simp add: edges_written_def)
  note search = records_search [OF payload fits sorted_ids [of "fmdom m", folded ids]]
  show "fmlookup m k = None \<Longrightarrow> binary_search_edge_index sr k = Inr None"
    using search(2) [of k] by (auto simp: binary_search_edge_index_def ids fmlookup_dom_iff)
  assume e: "fmlookup m k = Some e"
  then have "k \<in> set ids" by (auto simp: ids fmlookup_dom_iff)
  then obtain i where i: "i < length ids" "ids ! i = k" by (auto simp: in_set_conv_nth)
  from search(1) [OF i(1)] rows [OF i(1)] i e
  show "\<exists>place. binary_search_edge_index sr k = Inr (Some place) \<and> read_edge fs sr place k = Inr e \<and>
      edge_core_at (sr_edges sr) (snd place) = Inr (core_fields e) \<and>
      edge_metadata_at_index sr (fst place) = Inr (edge_metadata_from_edge e)"
    by (simp add: binary_search_edge_index_def)
qed

lemma segment_edge_reads:
  assumes "edges_written tv m sr" and "rmp_lossless tv fs"
  shows "get_edge fs sr k = Inr (segment_edge sr m k)"
    and "get_edge_core sr k = Inr (map_option core_fields (segment_edge sr m k))"
    and "has_edge sr k \<longleftrightarrow> fmlookup m k \<noteq> None"
  using edges_written_search [OF assms, of k]
  by (cases "fmlookup m k"; force simp: get_edge_def get_edge_core_def segment_edge_def has_edge_def)+

section \<open>Batches of lookups\<close>

text \<open>A lookup by identity as the batches see it: the place of every id, and the row at a place.\<close>

lemma edge_places:
  assumes "edges_written tv m sr" and "rmp_lossless tv fs"
  obtains place where "\<And>k. binary_search_edge_index sr k = Inr (place k)"
    and "\<And>k. place k = None \<longleftrightarrow> fmlookup m k = None"
    and "\<And>k p. place k = Some p \<Longrightarrow> read_edge fs sr p k = Inr (the (fmlookup m k))"
    and "\<And>k p. place k = Some p \<Longrightarrow> edge_metadata_at_index sr (fst p) = Inr (edge_metadata_from_edge (the (fmlookup m k)))"
proof
  fix k
  note search = edges_written_search [OF assms, of k]
  show "binary_search_edge_index sr k = Inr (projr (binary_search_edge_index sr k))"
    "projr (binary_search_edge_index sr k) = None \<longleftrightarrow> fmlookup m k = None"
    using search by (cases "fmlookup m k"; force)+
  fix p assume "projr (binary_search_edge_index sr k) = Some p"
  then show "read_edge fs sr p k = Inr (the (fmlookup m k))"
    "edge_metadata_at_index sr (fst p) = Inr (edge_metadata_from_edge (the (fmlookup m k)))"
    using search by (cases "fmlookup m k"; force)+
qed

lemma table_read_edges:
  assumes "ids = sorted_list_of_fset (fmdom m)"
  shows "table_read (is_edge_deleted sr) ids (map (\<lambda>k. f (the (fmlookup m k))) ids) = (\<lambda>k. map_option f (segment_edge sr m k))"
proof
  fix k
  have "map_of (zip ids (map (\<lambda>k. f (the (fmlookup m k))) ids)) k = map_option f (fmlookup m k)"
    using assms by (cases "fmlookup m k") (auto simp: map_of_zip_map fmlookup_dom_iff)
  then show "table_read (is_edge_deleted sr) ids (map (\<lambda>k. f (the (fmlookup m k))) ids) k = map_option f (segment_edge sr m k)"
    by (simp add: table_read_def segment_edge_def)
qed

lemma fill_in_nothing: "(\<And>k. k \<in> set (map snd lookups) \<Longrightarrow> read k = None) \<Longrightarrow> fill_in read lookups results = results"
  by (induction lookups arbitrary: results) auto

lemma no_edges: "ids = sorted_list_of_fset (fmdom m) \<Longrightarrow> ids = [] \<Longrightarrow> fmlookup m k = None"
  using set_sorted_ids [of "fmdom m"] by (auto intro: fmdom_notD)

lemma edges_batch:
  assumes written: "edges_written tv m sr" and rmp: "rmp_lossless tv fs"
    and slots: "\<forall>i \<in> set (map fst lookups). i < length results" and sorted: "sorted (map snd lookups)"
  shows "get_edges_batch fs sr lookups results = Some (Inr (fill_in (segment_edge sr m) lookups results))"
proof -
  obtain ids records spans where payload: "records_payload ids records = (spans, sr_edges sr)" "length ids = length records"
    and ids: "ids = sorted_list_of_fset (fmdom m)"
    and row: "\<And>i. i < length ids \<Longrightarrow> read_edge fs sr (i, starts (records_start (length ids)) id records i) (ids ! i) = Inr (the (fmlookup m (ids ! i)))"
    by (rule edges_written_rows [OF written rmp]) blast
  have fits: "length (sr_edges sr) < 2 ^ 64" using written by (simp add: edges_written_def)
  note reads = records_payload_reads [OF payload fits] and strict = sorted_ids [of "fmdom m", folded ids]
  obtain place where place: "\<And>k. binary_search_edge_index sr k = Inr (place k)" "\<And>k. place k = None \<longleftrightarrow> fmlookup m k = None"
    "\<And>k p. place k = Some p \<Longrightarrow> read_edge fs sr p k = Inr (the (fmlookup m k))"
    by (rule edge_places [OF written rmp]) blast
  have seek: "(\<lambda>k. if is_edge_deleted sr k then None else map_option (\<lambda>_. the (fmlookup m k)) (place k)) = segment_edge sr m"
  proof
    fix k show "(if is_edge_deleted sr k then None else map_option (\<lambda>_. the (fmlookup m k)) (place k)) = segment_edge sr m k"
      using place(2) [of k] by (cases "place k") (auto simp: segment_edge_def)
  qed
  have walk: "walk_batch (is_edge_deleted sr) (id_at (sr_edges sr)) (length ids)
      (\<lambda>i rid. r_bind (offset_at (sr_edges sr) i) (\<lambda>offset. read_edge fs sr (i, offset) rid)) lookups 0 results =
      Some (Inr (fill_in (segment_edge sr m) lookups results))"
  proof (subst walk_batch_rows [OF reads(4) strict refl, of "map (\<lambda>k. the (fmlookup m k)) ids"])
    fix i assume "i < length ids"
    then show "r_bind (offset_at (sr_edges sr) i) (\<lambda>offset. read_edge fs sr (i, offset) (ids ! i)) =
        Inr (map (\<lambda>k. the (fmlookup m k)) ids ! i)" using reads(5) row by simp
  qed (use slots sorted table_read_edges [OF ids, of sr "\<lambda>e. e"] in \<open>simp_all add: option.map_ident\<close>)
  show ?thesis
    unfolding get_edges_batch_def
  proof (rule batch_start_exact [OF payload fits strict])
    fix strategy
    show "(case strategy of SeekPerKey \<Rightarrow> seek_batch (is_edge_deleted sr) (binary_search_edge_index sr) (read_edge fs sr) lookups None results
       | MergeWalk \<Rightarrow> walk_batch (is_edge_deleted sr) (id_at (sr_edges sr)) (length ids)
           (\<lambda>i rid. r_bind (offset_at (sr_edges sr) i) (\<lambda>offset. read_edge fs sr (i, offset) rid)) lookups 0 results) =
       Some (Inr (fill_in (segment_edge sr m) lookups results))"
      using seek_batch_rows [where place = place and row = "\<lambda>k. the (fmlookup m k)" and lookups = lookups and prev = None and
          skip = "is_edge_deleted sr" and search = "binary_search_edge_index sr" and decode = "read_edge fs sr" and results = results,
          OF place(1,3) slots] walk
      by (cases strategy) (simp_all add: seek)
  next
    assume "lookups = [] \<or> ids = []"
    then show "fill_in (segment_edge sr m) lookups results = results"
      using no_edges [OF ids] by (intro fill_in_nothing) (auto simp: segment_edge_def)
  qed
qed

text \<open>The batched metadata reads; the positions they fill are distinct and empty, as \<^verbatim>\<open>enumerate\<close> leaves them.\<close>

lemma edge_metadata_batch:
  assumes written: "edges_written tv m sr" and rmp: "rmp_lossless tv fs"
    and slots: "\<forall>i \<in> set (map fst lookups). i < length results" and sorted: "sorted (map snd lookups)"
    and fresh: "\<forall>i \<in> set (map fst lookups). results ! i = None" "distinct (map fst lookups)"
  shows "get_edge_metadata_batch sr lookups results =
    Some (Inr (fill_in (\<lambda>k. map_option edge_metadata_from_edge (segment_edge sr m k)) lookups results))" (is "_ = Some (Inr (fill_in ?meta _ _))")
proof -
  obtain ids records spans where payload: "records_payload ids records = (spans, sr_edges sr)" "length ids = length records"
    and ids: "ids = sorted_list_of_fset (fmdom m)"
    and row: "\<And>i. i < length ids \<Longrightarrow> edge_metadata_at_index sr i = Inr (edge_metadata_from_edge (the (fmlookup m (ids ! i))))"
    by (rule edges_written_rows [OF written rmp]) blast
  have fits: "length (sr_edges sr) < 2 ^ 64" using written by (simp add: edges_written_def)
  note reads = records_payload_reads [OF payload fits] and strict = sorted_ids [of "fmdom m", folded ids]
  obtain place where place: "\<And>k. binary_search_edge_index sr k = Inr (place k)" "\<And>k. place k = None \<longleftrightarrow> fmlookup m k = None"
    "\<And>k p. place k = Some p \<Longrightarrow> edge_metadata_at_index sr (fst p) = Inr (edge_metadata_from_edge (the (fmlookup m k)))"
    by (rule edge_places [OF written rmp]) blast
  let ?read = "\<lambda>rid. r_bind (binary_search_edge_index sr rid) (\<lambda>hit. case hit of
      None \<Rightarrow> Inr None
    | Some (index, _) \<Rightarrow> r_bind (edge_metadata_at_index sr index) (\<lambda>meta. Inr (Some meta)))"
  have read: "?read k = Inr (map_option edge_metadata_from_edge (fmlookup m k))" for k
    using place(1,2) [of k] place(3) [of k] by (cases "place k") (auto split: prod.splits)
  have seek: "(\<lambda>k. if is_edge_deleted sr k then None else map_option edge_metadata_from_edge (fmlookup m k)) = ?meta"
    by (auto simp: segment_edge_def)
  have walk: "walk_batch (is_edge_deleted sr) (id_at (sr_edges sr)) (length ids) (\<lambda>i _. edge_metadata_at_index sr i) lookups 0 results =
      Some (Inr (fill_in ?meta lookups results))"
    by (subst walk_batch_rows [OF reads(4) strict refl, of "map (\<lambda>k. edge_metadata_from_edge (the (fmlookup m k))) ids"])
      (use slots sorted row table_read_edges [OF ids, of sr edge_metadata_from_edge] in simp_all)
  show ?thesis
    unfolding get_edge_metadata_batch_def
  proof (rule batch_start_exact [OF payload fits strict])
    fix strategy
    show "(case strategy of SeekPerKey \<Rightarrow> seek_meta_batch (is_edge_deleted sr) ?read lookups None results
       | MergeWalk \<Rightarrow> walk_batch (is_edge_deleted sr) (id_at (sr_edges sr)) (length ids) (\<lambda>i _. edge_metadata_at_index sr i) lookups 0 results) =
       Some (Inr (fill_in ?meta lookups results))"
      using seek_meta_batch_rows [where read = ?read and lookups = lookups and prev = None and skip = "is_edge_deleted sr" and results = results,
          OF read slots fresh] walk
      by (cases strategy) (simp_all add: seek)
  next
    assume "lookups = [] \<or> ids = []"
    then show "fill_in ?meta lookups results = results"
      using no_edges [OF ids] by (intro fill_in_nothing) (auto simp: segment_edge_def)
  qed
qed

end
