(* ===== verification/Segment_Nodes_Exact.thy ===== *)
theory Segment_Nodes_Exact
  imports Segment_Nodes Segment_Edges_Exact
begin

text \<open>
  What a segment writes for its nodes is what it reads: records, metadata rows with their labels, and
  vectors; point lookups and batches return exactly the live nodes written.
\<close>

section \<open>Tables inside a payload\<close>

lemma get_range_parts':
  assumes "get_range data a (a + n) = Some mid"
  obtains pre post where "data = pre @ mid @ post" and "length pre = a" and "length mid = n"
proof
  from assms have h: "a + n \<le> length data" "mid = take n (drop a data)" by (auto simp: get_range_def split: if_splits)
  show "data = take a data @ mid @ drop (a + n) data"
    unfolding h(2) by (metis append_take_drop_id drop_drop add.commute)
  show "length (take a data) = a" "length mid = n" using h by simp_all
qed

lemma get_range_table:
  assumes "get_range data a (a + length (concat (map f xs))) = Some (concat (map f xs))" and "\<And>x. length (f x) = k" and "i < length xs"
  shows "get_range data (a + i * k) (a + i * k + k) = Some (f (xs ! i))"
proof -
  from assms(1) obtain pre post where d: "data = pre @ concat (map f xs) @ post" "length pre = a" by (rule get_range_parts')
  show ?thesis using get_range_field [where l = "[]" and mid = "f (xs ! i)" and r = "[]" and pre = pre and post = post, OF assms(2,3)] assms(2) d by simp
qed

lemma get_range_inner:
  assumes "get_range data a (a + n) = Some (l @ mid @ r)"
  shows "get_range data (a + length l) (a + length l + length mid) = Some mid"
proof -
  from assms obtain pre post where "data = pre @ (l @ mid @ r) @ post" "length pre = a" by (rule get_range_parts')
  then show ?thesis by (intro get_range_at [of _ "pre @ l" _ "r @ post"]) simp_all
qed

lemma get_range_le: "get_range data a b = Some x \<Longrightarrow> a \<le> b \<and> b \<le> length data"
  by (auto simp: get_range_def split: if_splits)

lemma seg_u8_first: "get_range data a (a + 1) = Some [k] \<Longrightarrow> length data < 2 ^ 64 \<Longrightarrow> seg_u8_at data a = Inr k"
  by (auto simp: get_range_def seg_u8_at_def Let_def drop_Suc take_Suc Cons_nth_drop_Suc [symmetric] split: if_splits)

lemma read_ascending_all:
  assumes "\<And>i. i < length ls \<Longrightarrow> read i = Inr (ls ! i)" and "sorted_wrt (<) ls" and "j \<le> length ls"
  shows "read_ascending read err [j ..< length ls] (take j ls) = Inr ls"
  using assms(3)
proof (induction "length ls - j" arbitrary: j)
  case (Suc d)
  then have j: "j < length ls" by simp
  have "\<not> (take j ls \<noteq> [] \<and> last (take j ls) \<ge> ls ! j)"
  proof (cases j)
    case (Suc j')
    then have "last (take j ls) = ls ! j'" using j by (simp add: take_Suc_conv_app_nth)
    then show ?thesis using assms(2) Suc j by (simp add: sorted_wrt_iff_nth_less not_le)
  qed simp
  moreover have "take j ls @ [ls ! j] = take (Suc j) ls" using j by (simp add: take_Suc_conv_app_nth)
  ultimately show ?case
    using Suc.hyps(1) [of "Suc j"] Suc.hyps(2) assms(1) [OF j] j by (simp add: upt_conv_Cons del: take_Suc)
qed simp

section \<open>Records\<close>

definition node_chunks :: "bytes \<Rightarrow> node_record \<Rightarrow> bytes list" where
  "node_chunks ps n = [[of_nat (nls_len (n_label_ids n))], concat (map to_le_bytes (as_slice (n_label_ids n))),
     to_le_bytes (of_nat (length (n_key n)) :: u16), n_key n, to_le_bytes (n_created_at n), to_le_bytes (n_updated_at n),
     to_le_bytes (n_weight n), to_le_bytes (of_nat (length ps) :: u32), ps]"

text \<open>The nodes a memtable holds, as far as the writer needs them.\<close>

definition node_ok :: "node_record \<Rightarrow> bool" where
  "node_ok n \<longleftrightarrow> nls_wf (n_label_ids n) \<and> utf8_valid (n_key n) \<and> props_wf (n_props n) \<and>
     (\<forall>v. n_dense_vector n = Some v \<longrightarrow> v \<noteq> [] \<and> length v < 2 ^ 32) \<and> (\<forall>v. n_sparse_vector n = Some v \<longrightarrow> v \<noteq> [] \<and> length v < 2 ^ 32)"

lemma node_ok_labels:
  assumes "node_ok n"
  shows "unat (of_nat (nls_len (n_label_ids n)) :: u8) = nls_len (n_label_ids n)" and "nls_len (n_label_ids n) \<le> MAX_NODE_LABELS_PER_NODE"
    and "nls_len (n_label_ids n) \<noteq> 0" and "length (as_slice (n_label_ids n)) = nls_len (n_label_ids n)"
    and "sorted_wrt (<) (as_slice (n_label_ids n))" and "from_canonical_ids (as_slice (n_label_ids n)) = Inr (n_label_ids n)"
proof -
  have wf: "nls_wf (n_label_ids n)" using assms by (simp add: node_ok_def)
  then show "nls_len (n_label_ids n) \<le> MAX_NODE_LABELS_PER_NODE" "nls_len (n_label_ids n) \<noteq> 0"
    "length (as_slice (n_label_ids n)) = nls_len (n_label_ids n)" "sorted_wrt (<) (as_slice (n_label_ids n))"
    by (auto simp: nls_wf_def)
  then show "unat (of_nat (nls_len (n_label_ids n)) :: u8) = nls_len (n_label_ids n)"
    by (simp add: unat_of_nat take_bit_eq_mod MAX_NODE_LABELS_PER_NODE_def)
  show "from_canonical_ids (as_slice (n_label_ids n)) = Inr (n_label_ids n)"
    using wf by (simp add: from_canonical_ids_eq canonical_as_slice mk_nls_as_slice)
qed

lemma encode_node_chunks:
  assumes "encode_node_record_into tv n = Inr r"
  obtains ps where "tv (n_props n) = Inr ps" and "r = concat (node_chunks ps n)" and "length (n_key n) \<le> 65535"
  using assms by (auto simp: encode_node_record_into_def r_bind_eq_Inr ser_err_def node_chunks_def Let_def split: if_splits)

definition bare :: "node_record \<Rightarrow> node_record" where
  "bare n = n\<lparr>n_dense_vector := None, n_sparse_vector := None, n_last_write_seq := 0\<rparr>"

lemma decode_node_chunks:
  assumes chunks: "chunks_at data off 0 (node_chunks ps n)" and fits: "length data < 2 ^ 64" and ok: "node_ok n"
    and key: "length (n_key n) \<le> 65535" and "length ps < 2 ^ 32" and "fs ps = Inr (n_props n)"
  shows "decode_node_at_with_end fs data off (n_id n) = Inr (bare n, off + length (concat (node_chunks ps n)))"
proof -
  note ls = node_ok_labels [OF ok]
  let ?ls = "as_slice (n_label_ids n)" and ?k = "length (n_key n)"
  define c where "c = nls_len (n_label_ids n)"
  have labels_len: "length (concat (map to_le_bytes ?ls)) = c * 4" using ls(4) by (simp add: length_concat_map [of _ 4] c_def)
  have bound: "off + 27 + c * 4 + ?k + length ps \<le> length data"
    using chunks_at_bound [OF chunks] labels_len by (simp add: node_chunks_def)
  define o1 where "o1 = off + 1"
  define o2 where "o2 = o1 + c * 4"
  define o3 where "o3 = o2 + 2"
  define o4 where "o4 = o3 + ?k"
  have g: "get_range data off (off + 1) = Some [of_nat c]" "get_range data o1 (o1 + length (concat (map to_le_bytes ?ls))) = Some (concat (map to_le_bytes ?ls))"
    "get_range data o2 (o2 + 2) = Some (to_le_bytes (of_nat ?k :: u16))" "get_range data o3 (o3 + ?k) = Some (n_key n)"
    "get_range data o4 (o4 + 8) = Some (to_le_bytes (n_created_at n))" "get_range data (o4 + 8) (o4 + 16) = Some (to_le_bytes (n_updated_at n))"
    "get_range data (o4 + 16) (o4 + 20) = Some (to_le_bytes (n_weight n))"
    "get_range data (o4 + 20) (o4 + 24) = Some (to_le_bytes (of_nat (length ps) :: u32))"
    "get_range data (o4 + 24) (o4 + 24 + length ps) = Some ps"
    using chunks labels_len by (simp_all add: node_chunks_def o1_def o2_def o3_def o4_def c_def [symmetric] add_ac)
  have small: "o4 + 24 + length ps < 2 ^ 64" "o1 + c * 4 < 2 ^ 64" "o2 + 2 < 2 ^ 64" using bound fits by (simp_all add: o1_def o2_def o3_def o4_def)
  have u8: "seg_u8_at data off = Inr (of_nat c)" by (rule seg_u8_first [OF g(1) fits])
  have label: "seg_u32_at data (o1 + i * 4) = Inr (?ls ! i)" if "i < length ?ls" for i
  proof (rule field_reads(2))
    show "get_range data (o1 + i * 4) (o1 + i * 4 + 4) = Some (to_le_bytes (?ls ! i))" using get_range_table [OF g(2) _ that, of 4] by simp
    show "o1 + i * 4 + 4 < 2 ^ 64" using that ls(4) small(2) by (simp add: c_def)
  qed
  have labels: "read_ascending (\<lambda>i. seg_u32_at data (o1 + i * 4)) err [0 ..< c] [] = Inr ?ls" for err
    using read_ascending_all [of ?ls "\<lambda>i. seg_u32_at data (o1 + i * 4)" 0 err] label ls(4,5) by (simp add: c_def)
  have count: "unat (of_nat c :: u8) = c" "\<not> (c = 0 \<or> c > MAX_NODE_LABELS_PER_NODE)" using ls by (simp_all add: c_def)
  have "seg_u16_at data o2 = Inr (of_nat ?k)" by (rule field_reads(1) [OF g(3)]) (use small in simp)
  moreover have "read_bytes_at data o3 ?k = Inr (n_key n)" by (rule read_bytes_range [OF g(4)]) (use small in \<open>simp add: o4_def\<close>)
  moreover have "seg_i64_at data o4 = Inr (n_created_at n)" by (rule field_reads(4) [OF g(5)]) (use small in simp)
  moreover have "seg_i64_at data (o4 + 8) = Inr (n_updated_at n)" "seg_f32_at data (o4 + 16) = Inr (n_weight n)"
    "seg_u32_at data (o4 + 20) = Inr (of_nat (length ps))"
    by (rule field_reads_off; use g small in simp)+
  moreover have "read_bytes_at data (o4 + 24) (length ps) = Inr ps" by (rule read_bytes_range [OF g(9)]) (use small in simp)
  moreover have "unat (of_nat ?k :: u16) = ?k" "unat (of_nat (length ps) :: u32) = length ps"
    using key assms(5) by (simp_all add: unat_of_nat take_bit_eq_mod)
  moreover have "utf8_valid (n_key n)" using ok by (simp add: node_ok_def)
  moreover have "off + length (concat (node_chunks ps n)) = o4 + 24 + length ps"
    using labels_len by (simp add: node_chunks_def o1_def o2_def o3_def o4_def)
  ultimately show ?thesis
    unfolding decode_node_at_with_end_def u8 r_bind_simps Let_def count(1) if_not_P [OF count(2)] o1_def [symmetric] o2_def [symmetric]
      labels o3_def [symmetric]
    using ls(6) assms(6) small by (simp add: o4_def [symmetric] checked_add_or_def bare_def)
qed

section \<open>Metadata\<close>

lemma running_lengths_nth: "i < length xs \<Longrightarrow> running_lengths n xs ! i = n + length (concat (take (Suc i) xs))"
  by (induction n xs arbitrary: i rule: running_lengths.induct) (auto simp: nth_Cons split: nat.split)

lemma length_running_lengths [simp]: "length (running_lengths n xs) = length xs"
  by (induction n xs rule: running_lengths.induct) auto

lemma label_offset_nth: "i \<le> length xs \<Longrightarrow> (0 # running_lengths 0 xs) ! i = length (concat (take i xs))"
  by (cases i) (auto simp: running_lengths_nth)

definition meta_layout :: "nat \<Rightarrow> nat \<Rightarrow> node_meta_layout" where
  "meta_layout n c = \<lparr>ml_node_count = n, ml_fixed_entry_size = 48, ml_label_offset_entry_size = 8, ml_fixed_entries_offset = 48,
     ml_label_offsets_offset = 48 + n * 48, ml_label_ids_offset = 48 + n * 48 + (n + 1) * 8, ml_label_id_count = c\<rparr>"

definition meta_of :: "u64 \<times> u64 \<times> u32 \<Rightarrow> node_record \<Rightarrow> segment_node_meta" where
  "meta_of row n = \<lparr>sm_node_id = fst row, sm_data_offset = fst (snd row), sm_data_len = snd (snd row), sm_label_ids = n_label_ids n,
     sm_updated_at = n_updated_at n, sm_weight = n_weight n, sm_key_len = of_nat (length (n_key n)), sm_last_write_seq = n_last_write_seq n\<rparr>"

lemmas meta_sizes = NODE_META_HEADER_SIZE_def NODE_META_FIXED_ENTRY_SIZE_def NODE_META_LABEL_OFFSET_ENTRY_SIZE_def

definition meta_header :: "nat \<Rightarrow> nat \<Rightarrow> bytes list" where
  "meta_header n c = [to_le_bytes (of_nat n :: u64), to_le_bytes (48 :: u16), to_le_bytes (8 :: u16), to_le_bytes (0 :: u32), to_le_bytes (48 :: u64),
     to_le_bytes (of_nat (48 + n * 48) :: u64), to_le_bytes (of_nat (48 + n * 48 + (n + 1) * 8) :: u64), to_le_bytes (of_nat c :: u64)]"

definition row_labels :: "((u64 \<times> u64 \<times> u32) \<times> node_record) list \<Rightarrow> u32 list list" where
  "row_labels rows = map (\<lambda>(_, node). as_slice (n_label_ids node)) rows"

definition meta_data :: "((u64 \<times> u64 \<times> u32) \<times> node_record) list \<Rightarrow> bytes" where
  "meta_data rows = concat (meta_header (length rows) (length (concat (row_labels rows)))) @ concat (map node_meta_row rows) @
     concat (map (\<lambda>k. to_le_bytes (of_nat k :: u64)) (0 # running_lengths 0 (row_labels rows))) @ concat (map to_le_bytes (concat (row_labels rows)))"

lemma node_meta_payload_sections:
  assumes "write_node_meta_payload spans m = Inr data"
  obtains rows where "data = meta_data rows" and "map fst rows = spans"
    and "\<And>i. i < length rows \<Longrightarrow> fmlookup m (fst (fst (rows ! i))) = Some (snd (rows ! i))"
proof -
  from assms obtain rows where rows: "r_map (node_of_span m) spans = Inr rows" and small: "length spans * 48 < 2 ^ 64" "48 + length spans * 48 < 2 ^ 64"
      "length spans + 1 < 2 ^ 64" "48 + length spans * 48 + ((length spans + 1) * 8) mod 2 ^ 64 < 2 ^ 64"
    and data: "data = to_le_bytes (of_nat (length spans) :: u64) @ to_le_bytes (48 :: u16) @ to_le_bytes (8 :: u16) @ to_le_bytes (0 :: u32) @
      to_le_bytes (48 :: u64) @ to_le_bytes (of_nat (48 + length spans * 48) :: u64) @
      to_le_bytes (of_nat (48 + length spans * 48 + ((length spans + 1) * 8) mod 2 ^ 64) :: u64) @
      to_le_bytes (of_nat (length (concat (map (\<lambda>(_, node). as_slice (n_label_ids node)) rows))) :: u64) @
      concat (map node_meta_row rows) @
      concat (map (\<lambda>n. to_le_bytes (of_nat n :: u64)) (0 # running_lengths 0 (map (\<lambda>(_, node). as_slice (n_label_ids node)) rows))) @
      concat (map to_le_bytes (concat (map (\<lambda>(_, node). as_slice (n_label_ids node)) rows)))"
    by (auto simp: write_node_meta_payload_def Let_def r_bind_eq_Inr checked_mul_or_def checked_add_or_def meta_sizes split: if_splits)
  have len: "length rows = length spans" using r_map_length [OF rows] by simp
  have "(length spans + 1) * 8 < 2 ^ 64" using small(1) by simp
  then have "((length spans + 1) * 8) mod 2 ^ 64 = (length spans + 1) * 8" by simp
  then have d: "data = meta_data rows" unfolding data by (simp add: meta_data_def meta_header_def row_labels_def len)
  have row: "rows ! i = (spans ! i, snd (rows ! i)) \<and> fmlookup m (fst (spans ! i)) = Some (snd (rows ! i))" if "i < length rows" for i
    using r_map_nth [OF rows, of i] that len by (cases "rows ! i") (auto simp: node_of_span_def split: option.splits)
  then have "map fst rows = spans" using len by (intro nth_equalityI) (auto, metis fst_conv)
  then show thesis using that [OF d] row by (metis nth_map)
qed

lemma length_node_meta_row [simp]: "length (node_meta_row e) = 48"
  by (simp add: node_meta_row_def split: prod.splits)

lemma node_meta_parts:
  assumes data: "data = meta_data rows" and fits: "length data < 2 ^ 64"
    and n: "n = length rows" and labels: "labels = row_labels rows"
  shows "length data = 48 + n * 48 + (n + 1) * 8 + length (concat labels) * 4"
    and "seg_u64_at data 0 = Inr (of_nat n)" and "seg_u16_at data 8 = Inr 48" and "seg_u16_at data 10 = Inr 8" and "seg_u64_at data 16 = Inr 48"
    and "seg_u64_at data 24 = Inr (of_nat (48 + n * 48))" and "seg_u64_at data 32 = Inr (of_nat (48 + n * 48 + (n + 1) * 8))"
    and "seg_u64_at data 40 = Inr (of_nat (length (concat labels)))"
    and "i < n \<Longrightarrow> get_range data (48 + i * 48) (48 + i * 48 + 48) = Some (node_meta_row (rows ! i))"
    and "i \<le> n \<Longrightarrow> seg_u64_at data (48 + n * 48 + i * 8) = Inr (of_nat (length (concat (take i labels))))"
    and "j < length (concat labels) \<Longrightarrow> seg_u32_at data (48 + n * 48 + (n + 1) * 8 + j * 4) = Inr (concat labels ! j)"
proof -
  define R where "R = concat (map node_meta_row rows)"
  define O' where "O' = concat (map (\<lambda>k. to_le_bytes (of_nat k :: u64)) (0 # running_lengths 0 labels))"
  define I where "I = concat (map to_le_bytes (concat labels))"
  have len_labels: "length labels = n" by (simp add: labels row_labels_def n)
  have lens: "length R = n * 48" "length O' = (n + 1) * 8" "length I = length (concat labels) * 4"
    unfolding R_def O'_def I_def using length_concat_map [of node_meta_row 48 rows]
      length_concat_map [of "\<lambda>k. to_le_bytes (of_nat k :: u64)" 8 "0 # running_lengths 0 labels"]
      length_concat_map [of "to_le_bytes :: u32 \<Rightarrow> _" 4 "concat labels"] by (simp_all add: n len_labels)
  have d: "data = concat (meta_header n (length (concat labels)) @ [R, O', I])" by (simp add: data meta_data_def R_def O'_def I_def n labels)
  show len: "length data = 48 + n * 48 + (n + 1) * 8 + length (concat labels) * 4"
    unfolding d using lens by (simp add: meta_header_def)
  have "chunks_at data 0 0 (meta_header n (length (concat labels)) @ [R, O', I])" by (rule chunks_atI [of _ "[]" _ "[]"]) (simp_all add: d)
  note c = this [unfolded meta_header_def append.simps chunks_at.simps length_to_le_bytes lens, simplified]
  show "seg_u64_at data 0 = Inr (of_nat n)" "seg_u64_at data 16 = Inr 48" "seg_u64_at data 24 = Inr (of_nat (48 + n * 48))"
    "seg_u64_at data 32 = Inr (of_nat (48 + n * 48 + (n + 1) * 8))" "seg_u64_at data 40 = Inr (of_nat (length (concat labels)))"
    by (rule field_reads(3); use c in simp)+
  show "seg_u16_at data 8 = Inr 48" "seg_u16_at data 10 = Inr 8" by (rule field_reads(1); use c in simp)+
  have tables: "get_range data 48 (48 + n * 48) = Some R" "get_range data (48 + n * 48) (48 + n * 48 + (n + 1) * 8) = Some O'"
    "get_range data (48 + n * 48 + (n + 1) * 8) (48 + n * 48 + (n + 1) * 8 + length (concat labels) * 4) = Some I"
    using c by (simp_all add: algebra_simps)
  show "i < n \<Longrightarrow> get_range data (48 + i * 48) (48 + i * 48 + 48) = Some (node_meta_row (rows ! i))"
    using get_range_table [of data 48 node_meta_row rows 48 i] tables(1) lens(1) n by (simp add: R_def)
  show "seg_u64_at data (48 + n * 48 + i * 8) = Inr (of_nat (length (concat (take i labels))))" if i: "i \<le> n"
  proof (rule field_reads(3))
    have "get_range data (48 + n * 48 + i * 8) (48 + n * 48 + i * 8 + 8) =
        Some (to_le_bytes (of_nat ((0 # running_lengths 0 labels) ! i) :: u64))"
      by (rule get_range_table) (use i tables(2) lens(2) len_labels in \<open>simp_all add: O'_def\<close>)
    then show "get_range data (48 + n * 48 + i * 8) (48 + n * 48 + i * 8 + 8) = Some (to_le_bytes (of_nat (length (concat (take i labels))) :: u64))"
      using i len_labels by (simp add: label_offset_nth)
    show "48 + n * 48 + i * 8 + 8 < 2 ^ 64" using i len fits by simp
  qed
  show "seg_u32_at data (48 + n * 48 + (n + 1) * 8 + j * 4) = Inr (concat labels ! j)" if j: "j < length (concat labels)"
  proof (rule field_reads(2))
    show "get_range data (48 + n * 48 + (n + 1) * 8 + j * 4) (48 + n * 48 + (n + 1) * 8 + j * 4 + 4) = Some (to_le_bytes (concat labels ! j))"
      by (rule get_range_table) (use j tables(3) lens(3) in \<open>simp_all add: I_def\<close>)
    show "48 + n * 48 + (n + 1) * 8 + j * 4 + 4 < 2 ^ 64" using j len fits by simp
  qed
qed

lemma unat_small: "x < 2 ^ 64 \<Longrightarrow> unat (of_nat x :: u64) = x"
  by (simp add: unat_of_nat take_bit_eq_mod)

lemma length_concat_bound: "(\<And>x. x \<in> set xs \<Longrightarrow> length x \<le> k) \<Longrightarrow> length (concat xs) \<le> length xs * k"
  by (induction xs) (fastforce simp: add_mono)+

lemma row_labels_ok:
  assumes "\<And>i. i < length rows \<Longrightarrow> node_ok (snd (rows ! i))"
  shows "length (concat (row_labels rows)) \<le> length rows * MAX_NODE_LABELS_PER_NODE"
proof -
  have "length x \<le> MAX_NODE_LABELS_PER_NODE" if "x \<in> set (row_labels rows)" for x
  proof -
    from that obtain i where "i < length rows" "x = as_slice (n_label_ids (snd (rows ! i)))"
      by (auto simp: row_labels_def in_set_conv_nth split_beta)
    then show ?thesis using node_ok_labels(2,4) [OF assms] by simp
  qed
  then have "length (concat (row_labels rows)) \<le> length (row_labels rows) * MAX_NODE_LABELS_PER_NODE" by (rule length_concat_bound)
  then show ?thesis by (simp add: row_labels_def)
qed

lemma node_meta_layout_written:
  assumes data: "data = meta_data rows" and fits: "length data < 2 ^ 64" and ok: "\<And>i. i < length rows \<Longrightarrow> node_ok (snd (rows ! i))"
    and some: "rows \<noteq> []"
  shows "parse_node_meta_layout data = Inr (Some (meta_layout (length rows) (length (concat (row_labels rows)))))"
proof -
  define n c where "n = length rows" and "c = length (concat (row_labels rows))"
  note parts = node_meta_parts [OF data fits n_def refl]
  have len: "length data = 48 + n * 48 + (n + 1) * 8 + c * 4" using parts(1) by (simp add: c_def)
  have bound: "48 + n * 48 + (n + 1) * 8 + c * 4 < 2 ^ 64" using len fits by simp
  have w: "unat (of_nat n :: u64) = n" "unat (of_nat (48 + n * 48) :: u64) = 48 + n * 48"
    "unat (of_nat (48 + n * 48 + (n + 1) * 8) :: u64) = 48 + n * 48 + (n + 1) * 8" "unat (of_nat c :: u64) = c"
    by (rule unat_small, use bound in simp)+
  have "c \<le> n * MAX_NODE_LABELS_PER_NODE" unfolding n_def c_def by (rule row_labels_ok [OF ok])
  moreover have "n * MAX_NODE_LABELS_PER_NODE \<le> USIZE_MAX" using bound by (simp add: MAX_NODE_LABELS_PER_NODE_def USIZE_MAX_def)
  ultimately have many: "\<not> c > saturating_mul n MAX_NODE_LABELS_PER_NODE" by (simp add: saturating_mul_def)
  have first: "seg_u64_at data (48 + n * 48) = Inr 0" using parts(10) [of 0] by simp
  have last: "seg_u64_at data (48 + n * 48 + n * 8) = Inr (of_nat c)"
    using parts(10) [of n] by (simp add: c_def n_def row_labels_def)
  have n: "n \<noteq> 0" using some by (simp add: n_def)
  have long: "\<not> length data < 8" "\<not> length data < 48" using len by simp_all
  have ends: "48 + n * 48 \<le> length data" "48 + n * 48 + (n + 1) * 8 \<le> length data" "48 + n * 48 + (n + 1) * 8 + c * 4 \<le> length data"
    using len by simp_all
  have checks: "checked_mul_or e n 48 = Inr (n * 48)" "checked_add_or e n 1 = Inr (n + 1)" "checked_mul_or e (n + 1) 8 = Inr ((n + 1) * 8)"
    "checked_mul_or e c 4 = Inr (c * 4)" "checked_range_end 48 (n * 48) m = Inr (48 + n * 48)"
    "checked_range_end (48 + n * 48) ((n + 1) * 8) m = Inr (48 + n * 48 + (n + 1) * 8)"
    "checked_range_end (48 + n * 48 + (n + 1) * 8) (c * 4) m = Inr (48 + n * 48 + (n + 1) * 8 + c * 4)"
    "checked_mul_or e n 8 = Inr (n * 8)" "checked_add_or e (48 + n * 48) (n * 8) = Inr (48 + n * 48 + n * 8)" for e m
    using bound by (simp_all add: checked_mul_or_def checked_add_or_def checked_range_end_def)
  have sizes: "unat (48 :: u16) = 48" "unat (8 :: u16) = 8" "unat (48 :: u64) = 48" by simp_all
  show ?thesis
    unfolding parse_node_meta_layout_def if_not_P [OF long(1)] parts(2) r_bind_simps usize_from_u64_def w(1) if_not_P [OF n] meta_sizes
      if_not_P [OF long(2)] parts(3,4) sizes parts(5-8) Let_def c_def [symmetric] w checks
    using ends many first last w(4) by (simp add: meta_layout_def n_def [symmetric] c_def [symmetric])
qed

lemma concat_nth_part:
  "i < length xs \<Longrightarrow> j < length (xs ! i) \<Longrightarrow>
     concat xs ! (length (concat (take i xs)) + j) = xs ! i ! j \<and> length (concat (take i xs)) + j < length (concat xs)"
  using concat_map_split [of i xs id] by (simp add: nth_append)

lemma take_concat_Suc: "i < length xs \<Longrightarrow> length (concat (take (Suc i) xs)) = length (concat (take i xs)) + length (xs ! i)"
  by (simp add: take_Suc_conv_app_nth)

lemma take_concat_le: "length (concat (take i xs)) \<le> length (concat xs)"
  by (metis append_take_drop_id concat_append le_add1 length_append)

lemma row_offset_small: "base + i * k < 2 ^ 64 \<Longrightarrow> row_offset msg base i k = Inr (base + i * k)"
  by (simp add: row_offset_def checked_mul_or_def checked_add_or_def)

lemma node_meta_entry_written:
  assumes data: "data = meta_data rows" and fits: "length data < 2 ^ 64" and ok: "\<And>i. i < length rows \<Longrightarrow> node_ok (snd (rows ! i))"
    and i: "i < length rows"
  shows "read_node_meta_entry_at data (meta_layout (length rows) (length (concat (row_labels rows)))) i = Inr (meta_of (fst (rows ! i)) (snd (rows ! i)))"
proof -
  define n c where "n = length rows" and "c = length (concat (row_labels rows))"
  note parts = node_meta_parts [OF data fits n_def refl]
  have len: "length data = 48 + n * 48 + (n + 1) * 8 + c * 4" using parts(1) by (simp add: c_def)
  have bound: "48 + n * 48 + (n + 1) * 8 + c * 4 < 2 ^ 64" using len fits by simp
  have "i < n" using i by (simp add: n_def)
  obtain k off dl node where row: "rows ! i = ((k, off, dl), node)" by (metis prod_cases3 surj_pair)
  note ls = node_ok_labels [OF ok [OF i], unfolded row snd_conv]
  let ?ls = "as_slice (n_label_ids node)"
  define a s where "a = 48 + i * 48" and "s = length (concat (take i (row_labels rows)))"
  have lab: "row_labels rows ! i = ?ls" "i < length (row_labels rows)" using i row by (simp_all add: row_labels_def)
  have g: "get_range data a (a + 48) = Some (node_meta_row (rows ! i))" using parts(9) [OF \<open>i < n\<close>] by (simp add: a_def)
  have small: "a + 48 < 2 ^ 64" using bound \<open>i < n\<close> by (simp add: a_def)
  have "chunks_at data a 0 [to_le_bytes k, to_le_bytes off, to_le_bytes dl, to_le_bytes (n_updated_at node), to_le_bytes (n_weight node),
      to_le_bytes (of_nat (length (n_key node)) :: u16), to_le_bytes (n_last_write_seq node), replicate 6 0]"
  proof -
    from g obtain pre post where "data = pre @ node_meta_row (rows ! i) @ post" "length pre = a" by (rule get_range_parts')
    then show ?thesis by (intro chunks_atI [of _ pre _ post]) (simp_all add: node_meta_row_def row)
  qed
  note c = this [simplified]
  have fields: "seg_u64_at data a = Inr k" "seg_u64_at data (a + 8) = Inr off" "seg_u32_at data (a + 16) = Inr dl"
    "seg_i64_at data (a + 20) = Inr (n_updated_at node)" "seg_f32_at data (a + 28) = Inr (n_weight node)"
    "seg_u16_at data (a + 32) = Inr (of_nat (length (n_key node)))" "seg_u64_at data (a + 34) = Inr (n_last_write_seq node)"
    by (rule field_reads; use c small in simp) (rule field_reads_off; use c small in simp)+
  have ends: "s + length ?ls \<le> c" using take_concat_le [of "Suc i" "row_labels rows"] take_concat_Suc [OF lab(2)] lab(1) by (simp add: s_def c_def)
  have "seg_u64_at data (48 + n * 48 + i * 8) = Inr (of_nat s)" using parts(10) [of i] \<open>i < n\<close> by (simp add: s_def)
  moreover have "seg_u64_at data (48 + n * 48 + i * 8 + 8) = Inr (of_nat (s + length ?ls))"
    using parts(10) [of "Suc i"] \<open>i < n\<close> take_concat_Suc [OF lab(2)] lab(1) by (simp add: s_def add.commute add.left_commute)
  moreover have "unat (of_nat s :: u64) = s" "unat (of_nat (s + length ?ls) :: u64) = s + length ?ls"
    by (rule unat_small, use bound ends in simp)+
  moreover have label: "seg_u32_at data (48 + n * 48 + (n + 1) * 8 + (s + j) * 4) = Inr (?ls ! j) \<and>
      row_offset m (48 + n * 48 + (n + 1) * 8) (s + j) 4 = Inr (48 + n * 48 + (n + 1) * 8 + (s + j) * 4)" if "j < length ?ls" for j m
    using parts(11) [of "s + j"] concat_nth_part [OF lab(2), of j] that lab(1) bound ends by (simp add: s_def row_offset_small)
  have labels: "read_ascending (\<lambda>j. r_bind (row_offset m (48 + n * 48 + (n + 1) * 8) (s + j) 4) (seg_u32_at data)) err [0 ..< length ?ls] [] = Inr ?ls" for m err
    using read_ascending_all [of ?ls _ 0 err] label ls(5) by simp
  moreover have "row_offset m 48 i 48 = Inr a" "row_offset m (48 + n * 48) i 8 = Inr (48 + n * 48 + i * 8)" for m
    using bound \<open>i < n\<close> by (simp_all add: row_offset_small a_def)
  moreover have "\<not> s + length ?ls > c" "\<not> (length ?ls = 0 \<or> length ?ls > MAX_NODE_LABELS_PER_NODE)" "\<not> i \<ge> n"
    using ends ls(2,3,4) \<open>i < n\<close> by simp_all
  ultimately show ?thesis
    unfolding n_def [symmetric] c_def [symmetric] row fst_conv snd_conv
    using fields ls(6) by (simp add: read_node_meta_entry_at_def meta_layout_def meta_of_def Let_def)
qed

lemma node_meta_ids_written:
  assumes data: "data = meta_data rows" and fits: "length data < 2 ^ 64"
  shows "rows_ok (\<lambda>i. seg_u64_at data (48 + i * 48)) (map (fst \<circ> fst) rows)"
    and "rows_ok (meta_id_at data (meta_layout (length rows) c)) (map (fst \<circ> fst) rows)"
proof -
  note parts = node_meta_parts [OF data fits refl refl]
  have bound: "48 + length rows * 48 < 2 ^ 64" using parts(1) fits by simp
  have row: "seg_u64_at data (48 + i * 48) = Inr (fst (fst (rows ! i)))" if i: "i < length rows" for i
  proof (rule field_reads(3))
    obtain k off dl node where r: "rows ! i = ((k, off, dl), node)" by (metis prod_cases3 surj_pair)
    have "get_range data (48 + i * 48) (48 + i * 48 + 48) = Some (node_meta_row (rows ! i))" by (rule parts(9) [OF i])
    then have "get_range data (48 + i * 48) (48 + i * 48 + 48) = Some ([] @ to_le_bytes k @ drop 8 (node_meta_row (rows ! i)))"
      by (simp add: node_meta_row_def r)
    from get_range_inner [OF this] show "get_range data (48 + i * 48) (48 + i * 48 + 8) = Some (to_le_bytes (fst (fst (rows ! i))))" by (simp add: r)
    show "48 + i * 48 + 8 < 2 ^ 64" using i bound by simp
  qed
  then show "rows_ok (\<lambda>i. seg_u64_at data (48 + i * 48)) (map (fst \<circ> fst) rows)" by (simp add: rows_ok_def)
  show "rows_ok (meta_id_at data (meta_layout (length rows) c)) (map (fst \<circ> fst) rows)"
    using row bound by (simp add: rows_ok_def meta_id_at_def meta_layout_def row_offset_small)
qed

section \<open>Vectors\<close>

definition dense_bytes :: "node_record \<Rightarrow> bytes" where
  "dense_bytes n = (case n_dense_vector n of Some v \<Rightarrow> concat (map to_le_bytes v) | None \<Rightarrow> [])"

definition sparse_bytes :: "node_record \<Rightarrow> bytes" where
  "sparse_bytes n = (case n_sparse_vector n of Some v \<Rightarrow> concat (map sparse_entry v) | None \<Rightarrow> [])"

lemma length_sparse_entry [simp]: "length (sparse_entry e) = 8"
  by (simp add: sparse_entry_def)

lemma vector_bytes_length:
  "length (dense_bytes n) = (case n_dense_vector n of Some v \<Rightarrow> length v * 4 | None \<Rightarrow> 0)"
  "length (sparse_bytes n) = (case n_sparse_vector n of Some v \<Rightarrow> length v * 8 | None \<Rightarrow> 0)"
  by (simp_all add: dense_bytes_def sparse_bytes_def length_concat_map [of _ 4] length_concat_map [of _ 8] split: option.split)

definition vector_row :: "u64 \<Rightarrow> node_record \<Rightarrow> nat \<Rightarrow> nat \<Rightarrow> node_vector_row" where
  "vector_row k n d s = \<lparr>vr_node_id = k,
     vr_flags = (if n_dense_vector n \<noteq> None then NODE_VECTOR_FLAG_DENSE else 0) OR (if n_sparse_vector n \<noteq> None then NODE_VECTOR_FLAG_SPARSE else 0),
     vr_dense_offset = (case n_dense_vector n of Some _ \<Rightarrow> of_nat d | None \<Rightarrow> 0),
     vr_dense_len = (case n_dense_vector n of Some v \<Rightarrow> of_nat (length v) | None \<Rightarrow> 0),
     vr_sparse_offset = (case n_sparse_vector n of Some _ \<Rightarrow> of_nat s | None \<Rightarrow> 0),
     vr_sparse_len = (case n_sparse_vector n of Some v \<Rightarrow> of_nat (length v) | None \<Rightarrow> 0)\<rparr>"

fun vector_rows :: "nat \<Rightarrow> nat \<Rightarrow> (u64 \<times> node_record) list \<Rightarrow> node_vector_row list" where
  "vector_rows d s [] = []"
| "vector_rows d s ((k, n) # es) = vector_row k n d s # vector_rows (d + length (dense_bytes n)) (s + length (sparse_bytes n)) es"

lemma vector_plan:
  assumes "prepare_node_vector_source_plan m d s spans = Inr rows" and "\<And>i. i < length spans \<Longrightarrow> fmlookup m (fst (spans ! i)) = Some (ns ! i)"
    and "length ns = length spans" and "d < 2 ^ 64" and "s < 2 ^ 64"
  shows "rows = vector_rows d s (zip (map fst spans) ns) \<and> d + length (concat (map dense_bytes ns)) < 2 ^ 64 \<and> s + length (concat (map sparse_bytes ns)) < 2 ^ 64"
  using assms
proof (induction spans arbitrary: d s rows ns)
  case (Cons e spans)
  obtain k off len where e: "e = (k, off, len)" by (cases e)
  obtain n ns' where ns: "ns = n # ns'" using Cons.prems(3) by (cases ns) auto
  have n: "fmlookup m k = Some n" using Cons.prems(2) [of 0] e ns by simp
  have rest: "fmlookup m (fst (spans ! i)) = Some (ns' ! i)" if "i < length spans" for i using Cons.prems(2) [of "Suc i"] that ns by simp
  from Cons.prems(1) n obtain rows' where go: "prepare_node_vector_source_plan m (d + length (dense_bytes n)) (s + length (sparse_bytes n)) spans = Inr rows'"
      and fits: "d + length (dense_bytes n) < 2 ^ 64" "s + length (sparse_bytes n) < 2 ^ 64" and rows: "rows = vector_row k n d s # rows'"
    by (auto simp: e Let_def r_bind_eq_Inr checked_add_or_def vector_bytes_length DENSE_VECTOR_VALUE_SIZE_def SPARSE_VECTOR_ENTRY_SIZE_def vector_row_def
        split: if_splits option.splits)
  from Cons.IH [OF go rest _ fits] Cons.prems(3) ns have
    "rows' = vector_rows (d + length (dense_bytes n)) (s + length (sparse_bytes n)) (zip (map fst spans) ns') \<and>
     d + length (dense_bytes n) + length (concat (map dense_bytes ns')) < 2 ^ 64 \<and>
     s + length (sparse_bytes n) + length (concat (map sparse_bytes ns')) < 2 ^ 64" by simp
  then show ?case by (simp add: rows ns e)
qed simp

lemma vector_rows_nth:
  "i < length es \<Longrightarrow> vector_rows d s es ! i = vector_row (fst (es ! i)) (snd (es ! i))
     (d + length (concat (map dense_bytes (take i (map snd es))))) (s + length (concat (map sparse_bytes (take i (map snd es)))))"
  by (induction d s es arbitrary: i rule: vector_rows.induct) (auto simp: nth_Cons add.assoc split: nat.split)

lemma length_vector_rows [simp]: "length (vector_rows d s es) = length es"
  by (induction d s es rule: vector_rows.induct) auto

lemma blob_rows:
  assumes "\<forall>(k, n) \<in> set es. fmlookup m k = Some n \<and> node_ok n"
  shows "r_map (dense_blob_row m) (vector_rows d s es) = Inr (map (dense_bytes \<circ> snd) es)"
    and "r_map (sparse_blob_row m) (vector_rows d s es) = Inr (map (sparse_bytes \<circ> snd) es)"
proof -
  have nz: "(of_nat (length v) :: u32) \<noteq> 0" if "v \<noteq> []" "length v < 2 ^ 32" for v :: "'b list"
  proof -
    have "unat (of_nat (length v) :: u32) = length v" using that by (simp add: unat_of_nat take_bit_eq_mod)
    then show ?thesis using that(1) by (metis length_0_conv unat_0)
  qed
  have d: "dense_blob_row m (vector_row k n d s) = Inr (dense_bytes n)" if "fmlookup m k = Some n" "node_ok n" for k n d s
    using that nz by (auto simp: dense_blob_row_def vector_row_def dense_bytes_def node_ok_def split: option.split)
  have p: "sparse_blob_row m (vector_row k n d s) = Inr (sparse_bytes n)" if "fmlookup m k = Some n" "node_ok n" for k n d s
    using that nz by (auto simp: sparse_blob_row_def vector_row_def sparse_bytes_def node_ok_def split: option.split)
  show "r_map (dense_blob_row m) (vector_rows d s es) = Inr (map (dense_bytes \<circ> snd) es)"
    using assms d by (induction d s es rule: vector_rows.induct) auto
  show "r_map (sparse_blob_row m) (vector_rows d s es) = Inr (map (sparse_bytes \<circ> snd) es)"
    using assms p by (induction d s es rule: vector_rows.induct) auto
qed

lemma r_map_nths:
  assumes "\<And>i. i < n \<Longrightarrow> f (g i) = Inr (xs ! i)" and "n = length xs"
  shows "r_map (\<lambda>i. f (g i)) [0 ..< n] = Inr xs"
proof -
  have "r_map (\<lambda>i. f (g i)) is = Inr (map ((!) xs) is)" if "set is \<subseteq> {0 ..< n}" for "is"
    using that assms(1) by (induction "is") auto
  then show ?thesis using assms(2) by (simp add: map_nth)
qed

text \<open>The vector payloads of the nodes \<open>es\<close>.\<close>

definition vectors_written :: "(u64 \<times> node_record) list \<Rightarrow> segment_reader \<Rightarrow> bool" where
  "vectors_written es sr \<longleftrightarrow>
     (if list_all (\<lambda>(_, n). n_dense_vector n = None \<and> n_sparse_vector n = None) es then sr_node_vector_meta sr = []
      else sr_node_vector_meta sr = write_node_vector_meta_payload (vector_rows 0 0 es) \<and>
        (list_ex (\<lambda>(_, n). n_dense_vector n \<noteq> None) es \<longrightarrow> sr_node_dense_vectors sr = concat (map (dense_bytes \<circ> snd) es)) \<and>
        (list_ex (\<lambda>(_, n). n_sparse_vector n \<noteq> None) es \<longrightarrow> sr_node_sparse_vectors sr = concat (map (sparse_bytes \<circ> snd) es))) \<and>
     length (concat (map (dense_bytes \<circ> snd) es)) < 2 ^ 64 \<and> length (concat (map (sparse_bytes \<circ> snd) es)) < 2 ^ 64"

lemma flag_bits:
  "(vr_flags (vector_row k n d s) AND NODE_VECTOR_FLAG_DENSE \<noteq> 0) \<longleftrightarrow> n_dense_vector n \<noteq> None"
  "(vr_flags (vector_row k n d s) AND NODE_VECTOR_FLAG_SPARSE \<noteq> 0) \<longleftrightarrow> n_sparse_vector n \<noteq> None"
  by (cases "n_dense_vector n"; cases "n_sparse_vector n"; simp add: vector_row_def NODE_VECTOR_FLAG_DENSE_def NODE_VECTOR_FLAG_SPARSE_def)+

lemma flag_some:
  "list_ex (\<lambda>row. vr_flags row AND NODE_VECTOR_FLAG_DENSE \<noteq> 0) (vector_rows d s es) \<longleftrightarrow> list_ex (\<lambda>(_, n). n_dense_vector n \<noteq> None) es"
  "list_ex (\<lambda>row. vr_flags row AND NODE_VECTOR_FLAG_SPARSE \<noteq> 0) (vector_rows d s es) \<longleftrightarrow> list_ex (\<lambda>(_, n). n_sparse_vector n \<noteq> None) es"
  by (induction d s es rule: vector_rows.induct) (simp_all add: flag_bits)

lemma vectors_of_writer:
  assumes written: "write_node_vector_source_components spans m = Inr (sr_node_vector_meta sr, sr_node_dense_vectors sr, sr_node_sparse_vectors sr)"
    and nodes: "\<And>i. i < length spans \<Longrightarrow> fmlookup m (fst (spans ! i)) = Some (ns ! i) \<and> node_ok (ns ! i)" and len: "length ns = length spans"
  shows "vectors_written (zip (map fst spans) ns) sr"
proof -
  let ?es = "zip (map fst spans) ns"
  from written obtain rows where plan: "prepare_node_vector_source_plan m 0 0 spans = Inr rows"
    by (auto simp: write_node_vector_source_components_def r_bind_eq_Inr)
  from vector_plan [OF this _ len] nodes have rows: "rows = vector_rows 0 0 ?es"
      and fits: "length (concat (map dense_bytes ns)) < 2 ^ 64" "length (concat (map sparse_bytes ns)) < 2 ^ 64" by simp_all
  have snds: "map (f \<circ> snd) ?es = map f ns" for f :: "node_record \<Rightarrow> bytes" using len by (simp add: map_map [symmetric] del: map_map)
  have "\<forall>(k, n) \<in> set ?es. fmlookup m k = Some n \<and> node_ok n" using nodes len by (auto simp: set_zip)
  note blobs = blob_rows [OF this]
  have none: "list_all (\<lambda>(_, n). n_dense_vector n = None \<and> n_sparse_vector n = None) es \<longleftrightarrow>
      \<not> list_ex (\<lambda>(_, n). n_dense_vector n \<noteq> None) es \<and> \<not> list_ex (\<lambda>(_, n). n_sparse_vector n \<noteq> None) es" for es :: "(u64 \<times> node_record) list"
    by (auto simp: list_all_iff list_ex_iff)
  show ?thesis
    using written plan fits unfolding vectors_written_def none snds
    by (auto simp: write_node_vector_source_components_def rows flag_some Let_def write_node_dense_vector_blob_payload_def
        write_node_sparse_vector_blob_payload_def blobs snds split: if_splits)
qed

lemma length_vector_meta_row [simp]: "length (vector_meta_row row) = 28"
  by (simp add: vector_meta_row_def)

lemma vector_meta_read:
  assumes "data = write_node_vector_meta_payload rows" and "i < length rows" and "length data < 2 ^ 64"
  shows "read_node_vector_meta_entry data i =
    Inr (vr_flags (rows ! i), vr_dense_offset (rows ! i), vr_dense_len (rows ! i), vr_sparse_offset (rows ! i), vr_sparse_len (rows ! i))"
proof -
  have "chunks_at data (8 + i * 28) 0 [[vr_flags (rows ! i)], replicate 3 0, to_le_bytes (vr_dense_offset (rows ! i)), to_le_bytes (vr_dense_len (rows ! i)),
      to_le_bytes (vr_sparse_offset (rows ! i)), to_le_bytes (vr_sparse_len (rows ! i))]"
    by (rule table_chunks [where rows = "map vector_meta_row rows" and n = "of_nat (length rows)"])
      (use assms(1,2) in \<open>auto simp: write_node_vector_meta_payload_def vector_meta_row_def\<close>)
  moreover define off where "off = 8 + i * 28"
  ultimately have chunks: "chunks_at data off 0 [[vr_flags (rows ! i)], replicate 3 0, to_le_bytes (vr_dense_offset (rows ! i)), to_le_bytes (vr_dense_len (rows ! i)),
      to_le_bytes (vr_sparse_offset (rows ! i)), to_le_bytes (vr_sparse_len (rows ! i))]" by simp
  have bound: "off + 28 < 2 ^ 64" using chunks_at_bound [OF chunks] assms(3) by simp
  note c = chunks [simplified]
  have flags: "seg_u8_at data off = Inr (vr_flags (rows ! i))" by (rule seg_u8_first [OF _ assms(3)]) (use c in simp)
  have "seg_u64_at data (off + 4) = Inr (vr_dense_offset (rows ! i))" "seg_u32_at data (off + 12) = Inr (vr_dense_len (rows ! i))"
    "seg_u64_at data (off + 16) = Inr (vr_sparse_offset (rows ! i))" "seg_u32_at data (off + 24) = Inr (vr_sparse_len (rows ! i))"
    by (rule field_reads_off; use c bound in simp)+
  with flags show ?thesis by (simp add: read_node_vector_meta_entry_def NODE_VECTOR_META_ENTRY_SIZE_def off_def)
qed

lemma blob_range:
  assumes "i < length es" and "blob = concat (map (f \<circ> snd) es)" and "off = length (concat (map f (take i (map snd es))))"
  shows "get_range blob off (off + length (f (snd (es ! i)))) = Some (f (snd (es ! i)))"
proof (rule get_range_at)
  show "blob = concat (map (f \<circ> snd) (take i es)) @ f (snd (es ! i)) @ concat (map (f \<circ> snd) (drop (Suc i) es))"
    using concat_map_split [OF assms(1), of "f \<circ> snd"] assms(2) by simp
qed (simp_all add: assms(3) take_map)

lemma dense_vector_read:
  assumes range: "get_range (sr_node_dense_vectors sr) d (d + length (concat (map to_le_bytes v))) = Some (concat (map to_le_bytes v))"
    and fits: "length (sr_node_dense_vectors sr) < 2 ^ 64" and v: "v \<noteq> []" "length v < 2 ^ 32"
  shows "read_dense_vector_from_blob sr (of_nat d) (of_nat (length v)) = Inr (Some v)"
proof -
  have len: "length (concat (map to_le_bytes v)) = length v * 4" by (simp add: length_concat_map [of _ 4])
  have d: "d + length v * 4 < 2 ^ 64" using get_range_le [OF range] fits len by simp
  have w: "unat (of_nat (length v) :: u32) = length v" "unat (of_nat d :: u64) = d" using v d by (simp_all add: unat_of_nat take_bit_eq_mod)
  have "(of_nat (length v) :: u32) \<noteq> 0" using w(1) v(1) by (metis length_0_conv unat_0)
  moreover have "r_map (\<lambda>i. seg_f32_at (sr_node_dense_vectors sr) (d + i * 4)) [0 ..< length v] = Inr v"
  proof (rule r_map_nths [OF _ refl])
    fix i assume i: "i < length v"
    show "seg_f32_at (sr_node_dense_vectors sr) (d + i * 4) = Inr (v ! i)"
    proof (rule field_reads(5))
      show "get_range (sr_node_dense_vectors sr) (d + i * 4) (d + i * 4 + 4) = Some (to_le_bytes (v ! i))"
        by (rule get_range_table [OF range]) (use i in simp_all)
    qed (use i d in simp)
  qed
  ultimately show ?thesis by (simp add: read_dense_vector_from_blob_def w DENSE_VECTOR_VALUE_SIZE_def)
qed

lemma sparse_vector_read:
  assumes range: "get_range (sr_node_sparse_vectors sr) d (d + length (concat (map sparse_entry v))) = Some (concat (map sparse_entry v))"
    and fits: "length (sr_node_sparse_vectors sr) < 2 ^ 64" and v: "v \<noteq> []" "length v < 2 ^ 32"
  shows "read_sparse_vector_from_blob sr (of_nat d) (of_nat (length v)) = Inr (Some v)"
proof -
  have len: "length (concat (map sparse_entry v)) = length v * 8" by (simp add: length_concat_map [of _ 8])
  have d: "d + length v * 8 < 2 ^ 64" using get_range_le [OF range] fits len by simp
  have w: "unat (of_nat (length v) :: u32) = length v" "unat (of_nat d :: u64) = d" using v d by (simp_all add: unat_of_nat take_bit_eq_mod)
  have "(of_nat (length v) :: u32) \<noteq> 0" using w(1) v(1) by (metis length_0_conv unat_0)
  moreover have "r_map (\<lambda>i. blob_sparse_entry (sr_node_sparse_vectors sr) (d + i * 8)) [0 ..< length v] = Inr v"
  proof (rule r_map_nths [OF _ refl])
    fix i assume i: "i < length v"
    have "get_range (sr_node_sparse_vectors sr) (d + i * 8) (d + i * 8 + 8) = Some (sparse_entry (v ! i))"
      by (rule get_range_table [OF range]) (use i in simp_all)
    then have e: "get_range (sr_node_sparse_vectors sr) (d + i * 8) (d + i * 8 + 8) = Some ([] @ to_le_bytes (fst (v ! i)) @ to_le_bytes (snd (v ! i)))"
      "get_range (sr_node_sparse_vectors sr) (d + i * 8) (d + i * 8 + 8) = Some (to_le_bytes (fst (v ! i)) @ to_le_bytes (snd (v ! i)) @ [])"
      by (simp_all add: sparse_entry_def)
    have "seg_u32_at (sr_node_sparse_vectors sr) (d + i * 8) = Inr (fst (v ! i))"
      by (rule field_reads(2)) (use get_range_inner [OF e(1)] i d in simp_all)
    moreover have "seg_f32_at (sr_node_sparse_vectors sr) (d + i * 8 + 4) = Inr (snd (v ! i))"
      by (rule field_reads(5)) (use get_range_inner [OF e(2)] i d in simp_all)
    ultimately show "blob_sparse_entry (sr_node_sparse_vectors sr) (d + i * 8) = Inr (v ! i)" by (simp add: blob_sparse_entry_def)
  qed
  ultimately show ?thesis by (simp add: read_sparse_vector_from_blob_def w SPARSE_VECTOR_ENTRY_SIZE_def)
qed

lemma hydrate_written:
  assumes written: "vectors_written es sr" and i: "i < length es" and n: "n = snd (es ! i)" and ok: "node_ok n"
    and fits: "length (sr_node_vector_meta sr) < 2 ^ 64"
  shows "hydrate_node_vectors sr i (bare n) = Inr (n\<lparr>n_last_write_seq := 0\<rparr>)"
proof (cases "list_all (\<lambda>(_, n). n_dense_vector n = None \<and> n_sparse_vector n = None) es")
  case True
  then have "n_dense_vector n = None" "n_sparse_vector n = None" using i n by (simp_all add: list_all_length split_beta)
  moreover have "sr_node_vector_meta sr = []" using written True by (simp add: vectors_written_def)
  ultimately show ?thesis by (cases n) (simp add: hydrate_node_vectors_def node_vector_meta_at_def bare_def)
next
  case False
  define d s where "d = length (concat (map dense_bytes (take i (map snd es))))" and "s = length (concat (map sparse_bytes (take i (map snd es))))"
  from written False have meta: "sr_node_vector_meta sr = write_node_vector_meta_payload (vector_rows 0 0 es)"
    and dense: "list_ex (\<lambda>(_, n). n_dense_vector n \<noteq> None) es \<longrightarrow> sr_node_dense_vectors sr = concat (map (dense_bytes \<circ> snd) es)"
    and sparse: "list_ex (\<lambda>(_, n). n_sparse_vector n \<noteq> None) es \<longrightarrow> sr_node_sparse_vectors sr = concat (map (sparse_bytes \<circ> snd) es)"
    and blobs: "length (concat (map (dense_bytes \<circ> snd) es)) < 2 ^ 64" "length (concat (map (sparse_bytes \<circ> snd) es)) < 2 ^ 64"
    unfolding vectors_written_def if_not_P [OF False] by blast+
  have "sr_node_vector_meta sr \<noteq> []" unfolding meta by (simp add: write_node_vector_meta_payload_def to_le_bytes_def)
  moreover have "vector_rows 0 0 es ! i = vector_row (fst (es ! i)) n d s" using vector_rows_nth [OF i, of 0 0] by (simp add: d_def s_def n)
  ultimately have at: "node_vector_meta_at sr i = Inr
      (case n_dense_vector n of Some _ \<Rightarrow> of_nat d | None \<Rightarrow> 0, case n_dense_vector n of Some v \<Rightarrow> of_nat (length v) | None \<Rightarrow> 0,
       case n_sparse_vector n of Some _ \<Rightarrow> of_nat s | None \<Rightarrow> 0, case n_sparse_vector n of Some v \<Rightarrow> of_nat (length v) | None \<Rightarrow> 0)"
    using vector_meta_read [OF meta _ fits, of i] i
    by (simp add: node_vector_meta_at_def flag_bits Let_def) (simp add: vector_row_def split: option.split)
  have es: "\<exists>x \<in> set es. snd x = n" using i n nth_mem by blast
  have D: "read_dense_vector_from_blob sr (of_nat d) (of_nat (length v)) = Inr (Some v) \<and> (of_nat (length v) :: u32) > 0" if v: "n_dense_vector n = Some v" for v
  proof -
    have ne: "v \<noteq> []" "length v < 2 ^ 32" using ok v by (auto simp: node_ok_def)
    have blob: "sr_node_dense_vectors sr = concat (map (dense_bytes \<circ> snd) es)" using dense es v by (force simp: list_ex_iff)
    have "dense_bytes n = concat (map to_le_bytes v)" by (simp add: dense_bytes_def v)
    with blob_range [OF i blob d_def] have "get_range (sr_node_dense_vectors sr) d (d + length (concat (map to_le_bytes v))) = Some (concat (map to_le_bytes v))"
      unfolding n [symmetric] by simp
    from dense_vector_read [OF this _ ne] blobs(1) have "read_dense_vector_from_blob sr (of_nat d) (of_nat (length v)) = Inr (Some v)" unfolding blob by simp
    moreover have "unat (of_nat (length v) :: u32) = length v" using ne by (simp add: unat_of_nat take_bit_eq_mod)
    ultimately show ?thesis using ne(1) by (metis length_greater_0_conv unat_gt_0 word_gt_0)
  qed
  have S: "read_sparse_vector_from_blob sr (of_nat s) (of_nat (length v)) = Inr (Some v) \<and> (of_nat (length v) :: u32) > 0" if v: "n_sparse_vector n = Some v" for v
  proof -
    have ne: "v \<noteq> []" "length v < 2 ^ 32" using ok v by (auto simp: node_ok_def)
    have blob: "sr_node_sparse_vectors sr = concat (map (sparse_bytes \<circ> snd) es)" using sparse es v by (force simp: list_ex_iff)
    have "sparse_bytes n = concat (map sparse_entry v)" by (simp add: sparse_bytes_def v)
    with blob_range [OF i blob s_def] have "get_range (sr_node_sparse_vectors sr) s (s + length (concat (map sparse_entry v))) = Some (concat (map sparse_entry v))"
      unfolding n [symmetric] by simp
    from sparse_vector_read [OF this _ ne] blobs(2) have "read_sparse_vector_from_blob sr (of_nat s) (of_nat (length v)) = Inr (Some v)" unfolding blob by simp
    moreover have "unat (of_nat (length v) :: u32) = length v" using ne by (simp add: unat_of_nat take_bit_eq_mod)
    ultimately show ?thesis using ne(1) by (metis length_greater_0_conv unat_gt_0 word_gt_0)
  qed
  show ?thesis
    using at D S by (cases n) (cases "n_dense_vector n"; cases "n_sparse_vector n"; simp add: hydrate_node_vectors_def bare_def)
qed

section \<open>Nodes\<close>

text \<open>The node files of a segment as the writer leaves them, within the widths of their length fields.\<close>

definition nodes_written :: "to_vec \<Rightarrow> (u64, node_record) fmap \<Rightarrow> segment_reader \<Rightarrow> bool" where
  "nodes_written tv m sr \<longleftrightarrow>
     (\<exists>spans. write_nodes_payload tv m = Inr (spans, sr_nodes sr) \<and> write_node_meta_payload spans m = Inr (sr_node_meta sr) \<and>
       write_node_vector_source_components spans m = Inr (sr_node_vector_meta sr, sr_node_dense_vectors sr, sr_node_sparse_vectors sr)) \<and>
     length (sr_nodes sr) < 2 ^ 64 \<and> length (sr_node_meta sr) < 2 ^ 64 \<and> length (sr_node_vector_meta sr) < 2 ^ 64 \<and> keyed n_id m \<and>
     (\<forall>k n. fmlookup m k = Some n \<longrightarrow> node_ok n \<and> (\<forall>bs. tv (n_props n) = Inr bs \<longrightarrow> length bs < 2 ^ 32))"

lemma nodes_written_rows:
  assumes written: "nodes_written tv m sr" and rmp: "rmp_lossless tv fs"
  obtains ids records spans rows where "records_payload ids records = (spans, sr_nodes sr)" and "length ids = length records"
    and "ids = sorted_list_of_fset (fmdom m)"
    and "\<And>i. i < length ids \<Longrightarrow> read_node fs sr (i, starts (records_start (length ids)) id records i) (ids ! i) = Inr (the (fmlookup m (ids ! i)))"
    and "sr_node_meta sr = meta_data rows" and "map (fst \<circ> fst) rows = ids"
    and "\<And>i. i < length ids \<Longrightarrow> snd (rows ! i) = the (fmlookup m (ids ! i)) \<and> node_ok (snd (rows ! i))"
proof -
  define ids where "ids = sorted_list_of_fset (fmdom m)"
  from written have keyed: "keyed n_id m" by (simp add: nodes_written_def)
  note vals = sorted_values_keyed [OF keyed, folded ids_def]
  from written obtain spans where w: "write_nodes_payload tv m = Inr (spans, sr_nodes sr)" and meta: "write_node_meta_payload spans m = Inr (sr_node_meta sr)"
      and vecs: "write_node_vector_source_components spans m = Inr (sr_node_vector_meta sr, sr_node_dense_vectors sr, sr_node_sparse_vectors sr)"
      and fits: "length (sr_nodes sr) < 2 ^ 64" "length (sr_node_meta sr) < 2 ^ 64" "length (sr_node_vector_meta sr) < 2 ^ 64"
      and node: "\<And>k n. fmlookup m k = Some n \<Longrightarrow> node_ok n \<and> (\<forall>bs. tv (n_props n) = Inr bs \<longrightarrow> length bs < 2 ^ 32)"
    unfolding nodes_written_def by blast
  from w vals obtain records where recs: "r_map (encode_node_record_into tv) (map (\<lambda>k. the (fmlookup m k)) ids) = Inr records"
      and payload: "records_payload ids records = (spans, sr_nodes sr)"
    by (auto simp: write_nodes_payload_def Let_def r_bind_eq_Inr)
  have len: "length ids = length records" using r_map_length [OF recs] by simp
  note parts = records_payload_parts [OF payload len]
  have in_m: "\<exists>n. fmlookup m (ids ! i) = Some n \<and> n_id n = ids ! i" if "i < length ids" for i
    using that keyed nth_mem [OF that] by (auto simp: ids_def keyed_def fmlookup_dom_iff)
  have span_ids: "map fst spans = ids"
    using parts(1,5) index_rows_nth [OF len] len by (intro nth_equalityI) simp_all
  obtain rows where rows: "sr_node_meta sr = meta_data rows" "map fst rows = spans"
      "\<And>i. i < length rows \<Longrightarrow> fmlookup m (fst (fst (rows ! i))) = Some (snd (rows ! i))"
    using node_meta_payload_sections [OF meta] by blast
  have row_ids: "map (fst \<circ> fst) rows = ids" using span_ids rows(2) by (metis map_map)
  then have n_rows: "length rows = length ids" by (metis length_map)
  have row: "snd (rows ! i) = the (fmlookup m (ids ! i)) \<and> node_ok (snd (rows ! i))" if i: "i < length ids" for i
  proof -
    have "fst (fst (rows ! i)) = ids ! i" using row_ids i n_rows by (metis comp_apply nth_map)
    then show ?thesis using rows(3) [of i] node i n_rows by (metis option.sel)
  qed
  define ns where "ns = map (\<lambda>k. the (fmlookup m k)) ids"
  have ns: "fmlookup m (fst (spans ! i)) = Some (ns ! i) \<and> node_ok (ns ! i)" if "i < length spans" for i
  proof -
    have "fst (spans ! i) = ids ! i" "i < length ids" using span_ids that by auto
    then show ?thesis using in_m [of i] node by (auto simp: ns_def)
  qed
  have vw: "vectors_written (zip ids ns) sr"
    using vectors_of_writer [OF vecs ns] span_ids parts(5) by (simp add: ns_def)
  let ?o = "\<lambda>i. starts (records_start (length ids)) id records i"
  show thesis
  proof (rule that [OF payload len ids_def _ rows(1) row_ids row])
    fix i assume i: "i < length ids"
    then obtain n where n: "fmlookup m (ids ! i) = Some n" "n_id n = ids ! i" using in_m by blast
    have ok: "node_ok n" using node [OF n(1)] by simp
    have "encode_node_record_into tv n = Inr (records ! i)" using r_map_nth [OF recs, of i] i n(1) by simp
    then obtain ps where ps: "tv (n_props n) = Inr ps" "records ! i = concat (node_chunks ps n)" "length (n_key n) \<le> 65535"
      by (rule encode_node_chunks)
    have chunks: "chunks_at (sr_nodes sr) (?o i) 0 (node_chunks ps n)" by (rule record_chunks [OF payload len i ps(2)])
    have decoded: "fs ps = Inr (n_props n)" using rmp_losslessD [OF rmp _ ps(1)] ok by (simp add: node_ok_def)
    have "length ps < 2 ^ 32" using node [OF n(1)] ps(1) by blast
    then have "decode_node_at fs (sr_nodes sr) (?o i) (ids ! i) = Inr (bare n)"
      using decode_node_chunks [where fs = fs, OF chunks fits(1) ok ps(3) _ decoded] n(2) by (simp add: decode_node_at_def)
    moreover have "hydrate_node_vectors sr i (bare n) = Inr (n\<lparr>n_last_write_seq := 0\<rparr>)"
      by (rule hydrate_written [OF vw _ _ ok fits(3)]) (use i n(1) in \<open>simp_all add: ns_def\<close>)
    moreover have "node_meta_at sr i = Inr (meta_of (fst (rows ! i)) (snd (rows ! i)))"
    proof -
      have ok_rows: "node_ok (snd (rows ! j))" if "j < length rows" for j by (rule conjunct2 [OF row [of j]]) (use that n_rows in \<open>simp only:\<close>)
      have "rows \<noteq> []" using i n_rows by auto
      from node_meta_layout_written [OF rows(1) fits(2) ok_rows this] node_meta_entry_written [OF rows(1) fits(2) ok_rows, of i] i n_rows
      show ?thesis by (simp add: node_meta_at_def)
    qed
    ultimately show "read_node fs sr (i, ?o i) (ids ! i) = Inr (the (fmlookup m (ids ! i)))"
      using row [OF i] n(1) by (simp add: read_node_def meta_of_def)
  qed
qed

definition segment_node :: "segment_reader \<Rightarrow> (u64, node_record) fmap \<Rightarrow> u64 \<Rightarrow> node_record option" where
  "segment_node sr m k = (if is_node_deleted sr k then None else fmlookup m k)"

lemma no_nodes: "ids = sorted_list_of_fset (fmdom m) \<Longrightarrow> ids = [] \<Longrightarrow> fmlookup m k = None"
  by (rule no_edges)

text \<open>The place of every node and what is read there.\<close>

lemma node_places:
  assumes written: "nodes_written tv m sr" and rmp: "rmp_lossless tv fs"
  obtains place where "\<And>k. binary_search_node_index sr k = Inr (place k)"
    and "\<And>k. place k = None \<longleftrightarrow> fmlookup m k = None"
    and "\<And>k p. place k = Some p \<Longrightarrow> read_node fs sr p k = Inr (the (fmlookup m k))"
proof -
  obtain ids records spans where payload: "records_payload ids records = (spans, sr_nodes sr)" "length ids = length records"
    and ids: "ids = sorted_list_of_fset (fmdom m)"
    and row: "\<And>i. i < length ids \<Longrightarrow> read_node fs sr (i, starts (records_start (length ids)) id records i) (ids ! i) = Inr (the (fmlookup m (ids ! i)))"
    by (rule nodes_written_rows [OF assms]) blast
  have fits: "length (sr_nodes sr) < 2 ^ 64" using written by (auto simp: nodes_written_def)
  note search = records_search [OF payload fits sorted_ids [of "fmdom m", folded ids]]
  have miss: "binary_search_node_index sr k = Inr None" if "fmlookup m k = None" for k
    using search(2) [of k] that by (auto simp: binary_search_node_index_def ids fmlookup_dom_iff)
  have hit: "\<exists>p. binary_search_node_index sr k = Inr (Some p) \<and> read_node fs sr p k = Inr n" if n: "fmlookup m k = Some n" for k n
  proof -
    have "k \<in> set ids" using n by (auto simp: ids fmlookup_dom_iff)
    then obtain i where i: "i < length ids" "ids ! i = k" by (auto simp: in_set_conv_nth)
    from search(1) [OF i(1)] row [OF i(1)] i n show ?thesis by (simp add: binary_search_node_index_def)
  qed
  show thesis
  proof (rule that [of "\<lambda>k. projr (binary_search_node_index sr k)"])
    fix k
    show "binary_search_node_index sr k = Inr (projr (binary_search_node_index sr k))"
      "projr (binary_search_node_index sr k) = None \<longleftrightarrow> fmlookup m k = None"
      using miss [of k] hit [of k] by (cases "fmlookup m k"; force)+
    fix p assume "projr (binary_search_node_index sr k) = Some p"
    then show "read_node fs sr p k = Inr (the (fmlookup m k))" using miss [of k] hit [of k] by (cases "fmlookup m k"; force)
  qed
qed

lemma segment_node_reads:
  assumes "nodes_written tv m sr" and "rmp_lossless tv fs"
  shows "get_node fs sr k = Inr (segment_node sr m k)"
proof -
  obtain place where "binary_search_node_index sr k = Inr (place k)" "place k = None \<longleftrightarrow> fmlookup m k = None"
    "\<And>p. place k = Some p \<Longrightarrow> read_node fs sr p k = Inr (the (fmlookup m k))"
    using node_places [OF assms] by metis
  then show ?thesis by (cases "place k") (auto simp: get_node_def segment_node_def)
qed

lemma table_read_nodes:
  assumes "ids = sorted_list_of_fset (fmdom m)"
  shows "table_read (is_node_deleted sr) ids (map (\<lambda>k. f (the (fmlookup m k))) ids) = (\<lambda>k. map_option f (segment_node sr m k))"
proof
  fix k
  have "map_of (zip ids (map (\<lambda>k. f (the (fmlookup m k))) ids)) k = map_option f (fmlookup m k)"
    using assms by (cases "fmlookup m k") (auto simp: map_of_zip_map fmlookup_dom_iff)
  then show "table_read (is_node_deleted sr) ids (map (\<lambda>k. f (the (fmlookup m k))) ids) k = map_option f (segment_node sr m k)"
    by (simp add: table_read_def segment_node_def)
qed

lemma nodes_batch:
  assumes written: "nodes_written tv m sr" and rmp: "rmp_lossless tv fs"
    and slots: "\<forall>i \<in> set (map fst lookups). i < length results" and sorted: "sorted (map snd lookups)"
  shows "get_nodes_batch fs sr lookups results = Some (Inr (fill_in (segment_node sr m) lookups results))"
proof -
  obtain ids records spans where payload: "records_payload ids records = (spans, sr_nodes sr)" "length ids = length records"
    and ids: "ids = sorted_list_of_fset (fmdom m)"
    and row: "\<And>i. i < length ids \<Longrightarrow> read_node fs sr (i, starts (records_start (length ids)) id records i) (ids ! i) = Inr (the (fmlookup m (ids ! i)))"
    by (rule nodes_written_rows [OF written rmp]) blast
  have fits: "length (sr_nodes sr) < 2 ^ 64" using written by (auto simp: nodes_written_def)
  note reads = records_payload_reads [OF payload fits] and strict = sorted_ids [of "fmdom m", folded ids]
  obtain place where place: "\<And>k. binary_search_node_index sr k = Inr (place k)" "\<And>k. place k = None \<longleftrightarrow> fmlookup m k = None"
    "\<And>k p. place k = Some p \<Longrightarrow> read_node fs sr p k = Inr (the (fmlookup m k))"
    by (rule node_places [OF written rmp]) blast
  have seek: "(\<lambda>k. if is_node_deleted sr k then None else map_option (\<lambda>_. the (fmlookup m k)) (place k)) = segment_node sr m"
  proof
    fix k show "(if is_node_deleted sr k then None else map_option (\<lambda>_. the (fmlookup m k)) (place k)) = segment_node sr m k"
      using place(2) [of k] by (cases "place k") (auto simp: segment_node_def)
  qed
  have walk: "walk_batch (is_node_deleted sr) (id_at (sr_nodes sr)) (length ids)
      (\<lambda>i rid. r_bind (offset_at (sr_nodes sr) i) (\<lambda>offset. read_node fs sr (i, offset) rid)) lookups 0 results =
      Some (Inr (fill_in (segment_node sr m) lookups results))"
  proof (subst walk_batch_rows [OF reads(4) strict refl, of "map (\<lambda>k. the (fmlookup m k)) ids"])
    fix i assume "i < length ids"
    then show "r_bind (offset_at (sr_nodes sr) i) (\<lambda>offset. read_node fs sr (i, offset) (ids ! i)) =
        Inr (map (\<lambda>k. the (fmlookup m k)) ids ! i)" using reads(5) row by simp
  qed (use slots sorted table_read_nodes [OF ids, of sr "\<lambda>e. e"] in \<open>simp_all add: option.map_ident\<close>)
  show ?thesis
    unfolding get_nodes_batch_def
  proof (rule batch_start_exact [OF payload fits strict])
    fix strategy
    show "(case strategy of SeekPerKey \<Rightarrow> seek_batch (is_node_deleted sr) (binary_search_node_index sr) (read_node fs sr) lookups None results
       | MergeWalk \<Rightarrow> walk_batch (is_node_deleted sr) (id_at (sr_nodes sr)) (length ids)
           (\<lambda>i rid. r_bind (offset_at (sr_nodes sr) i) (\<lambda>offset. read_node fs sr (i, offset) rid)) lookups 0 results) =
       Some (Inr (fill_in (segment_node sr m) lookups results))"
      using seek_batch_rows [where place = place and row = "\<lambda>k. the (fmlookup m k)" and lookups = lookups and prev = None and
          skip = "is_node_deleted sr" and search = "binary_search_node_index sr" and decode = "read_node fs sr" and results = results,
          OF place(1,3) slots] walk
      by (cases strategy) (simp_all add: seek)
  next
    assume "lookups = [] \<or> ids = []"
    then show "fill_in (segment_node sr m) lookups results = results"
      using no_nodes [OF ids] by (intro fill_in_nothing) (auto simp: segment_node_def)
  qed
qed

text \<open>The batched metadata reads of nodes.\<close>

definition node_triple :: "node_record \<Rightarrow> node_meta_triple" where
  "node_triple n = (n_label_ids n, n_updated_at n, n_weight n)"

lemma no_node_meta: "parse_node_meta_layout (meta_data []) = Inr (Some (\<lparr>ml_node_count = 0, ml_fixed_entry_size = 48,
    ml_label_offset_entry_size = 8, ml_fixed_entries_offset = 48, ml_label_offsets_offset = 48, ml_label_ids_offset = 48, ml_label_id_count = 0\<rparr>))"
proof -
  have len: "length (meta_data []) < 2 ^ 64"     by (simp add: meta_data_def row_labels_def meta_header_def)
  note parts = node_meta_parts [OF refl len refl refl]
  have "\<not> length (meta_data []) < 8" using parts(1) by simp
  then show ?thesis using parts(2) by (simp add: parse_node_meta_layout_def usize_from_u64_def meta_sizes)
qed

lemma node_metadata_batch:
  assumes written: "nodes_written tv m sr" and rmp: "rmp_lossless tv fs"
    and slots: "\<forall>i \<in> set (map fst lookups). i < length results" and sorted: "sorted (map snd lookups)"
    and fresh: "\<forall>i \<in> set (map fst lookups). results ! i = None" "distinct (map fst lookups)"
  shows "get_node_meta_batch sr lookups results =
    Some (Inr (fill_in (\<lambda>k. map_option node_triple (segment_node sr m k)) lookups results))" (is "_ = Some (Inr (fill_in ?meta _ _))")
proof -
  obtain ids records spans rows where ids: "ids = sorted_list_of_fset (fmdom m)"
    and data: "sr_node_meta sr = meta_data rows" and row_ids: "map (fst \<circ> fst) rows = ids"
    and row: "\<And>i. i < length ids \<Longrightarrow> snd (rows ! i) = the (fmlookup m (ids ! i)) \<and> node_ok (snd (rows ! i))"
    by (rule nodes_written_rows [OF written rmp]) blast
  have fits: "length (sr_node_meta sr) < 2 ^ 64" using written by (auto simp: nodes_written_def)
  have n_rows: "length rows = length ids" using row_ids by (metis length_map)
  have ok: "node_ok (snd (rows ! j))" if "j < length rows" for j by (rule conjunct2 [OF row [of j]]) (use that n_rows in \<open>simp only:\<close>)
  show ?thesis
  proof (cases "lookups = [] \<or> ids = []")
    case True
    then have "fill_in ?meta lookups results = results"
      using no_nodes [OF ids] by (intro fill_in_nothing) (auto simp: segment_node_def)
    moreover have "get_node_meta_batch sr lookups results = Some (Inr results)"
    proof (cases "lookups = []")
      case False
      then have "rows = []" using True n_rows by simp
      then show ?thesis by (simp add: get_node_meta_batch_def data no_node_meta)
    qed (simp add: get_node_meta_batch_def)
    ultimately show ?thesis by simp
  next
    case False
    then have some: "rows \<noteq> []" "lookups \<noteq> []" using n_rows by auto
    let ?layout = "meta_layout (length rows) (length (concat (row_labels rows)))"
    let ?entry = "\<lambda>i. r_bind (read_node_meta_entry_at (sr_node_meta sr) ?layout i) (\<lambda>meta. Inr (meta_triple meta))"
    note layout = node_meta_layout_written [OF data fits ok some(1)]
    note idr = node_meta_ids_written [OF data fits, folded row_ids, unfolded row_ids]
    have strict: "sorted_wrt (<) ids" using sorted_ids [of "fmdom m"] by (simp add: ids)
    then have asc: "sorted ids" by (simp add: strict_sorted_iff)
    have entry: "?entry i = Inr (node_triple (the (fmlookup m (ids ! i))))" if i: "i < length ids" for i
    proof -
      obtain k off dl n where r: "rows ! i = ((k, off, dl), n)" by (metis prod_cases3 surj_pair)
      have "read_node_meta_entry_at (sr_node_meta sr) ?layout i = Inr (meta_of (fst (rows ! i)) (snd (rows ! i)))"
        by (rule node_meta_entry_written [OF data fits ok]) (use i n_rows in simp_all)
      moreover have "n = the (fmlookup m (ids ! i))" using row [OF i] r by simp
      ultimately show ?thesis by (simp add: r meta_of_def meta_triple_def node_triple_def)
    qed
    have fields: "ml_node_count ?layout = length ids" "ml_fixed_entries_offset ?layout = 48" "ml_fixed_entry_size ?layout = 48"
      by (simp_all add: meta_layout_def n_rows)
    have key_rows: "rows_ok (\<lambda>i. seg_u64_at (sr_node_meta sr) (key_position 48 48 0 i)) ids" using idr(1) by (simp add: key_position_def)
    let ?read = "\<lambda>rid. r_bind (binary_search_node_meta_index (sr_node_meta sr) ?layout rid) (\<lambda>hit. case hit of
        None \<Rightarrow> Inr None | Some index \<Rightarrow> r_bind (?entry index) (\<lambda>t. Inr (Some t)))"
    have read: "?read k = Inr (map_option node_triple (fmlookup m k))" for k
    proof -
      obtain r where r: "binary_search_node_meta_index (sr_node_meta sr) ?layout k = Inr r"
        "case r of Some i \<Rightarrow> i < length ids \<and> ids ! i = k | None \<Rightarrow> \<forall>i < length ids. ids ! i \<noteq> k"
        using search_loop_rows [OF idr(2) asc order_refl, of "length (concat (row_labels rows))" k 0] unfolding binary_search_node_meta_index_def fields by (auto split: option.splits)
      show ?thesis
      proof (cases r)
        case None
        then have "k \<notin> set ids" using r(2) by (auto simp: in_set_conv_nth)
        then have "fmlookup m k = None" by (simp add: ids fmdom_notD)
        then show ?thesis using r(1) None by simp
      next
        case (Some i)
        then have i: "i < length ids" "ids ! i = k" using r(2) by simp_all
        then have "k |\<in>| fmdom m" using nth_mem [OF i(1)] by (simp add: ids)
        then obtain n where "fmlookup m k = Some n" by (auto simp: fmlookup_dom_iff)
        then show ?thesis using r(1) Some entry [OF i(1)] i(2) by simp
      qed
    qed
    have seek: "(\<lambda>k. if is_node_deleted sr k then None else map_option node_triple (fmlookup m k)) = ?meta"
      by (auto simp: segment_node_def)
    have walk: "walk_batch (is_node_deleted sr) (\<lambda>i. seg_u64_at (sr_node_meta sr) (48 + i * 48)) (length ids) (\<lambda>i _. ?entry i) lookups 0 results =
        Some (Inr (fill_in ?meta lookups results))"
      by (subst walk_batch_rows [OF idr(1) strict refl, of "map (\<lambda>k. node_triple (the (fmlookup m k))) ids"])
        (use slots sorted entry table_read_nodes [OF ids, of sr node_triple] in simp_all)
    obtain s where s: "choose_batch_read_strategy (sr_node_meta sr) 48 (length ids) 48 0
        (count_runs None (map snd lookups)) (snd (hd lookups)) (snd (last lookups)) = Inr s"
      using strategy_defined [OF key_rows asc refl] by blast
    have "seek_meta_batch (is_node_deleted sr) ?read lookups None results = Some (Inr (fill_in ?meta lookups results))"
      using seek_meta_batch_rows [where read = ?read and lookups = lookups and prev = None and skip = "is_node_deleted sr" and results = results,
          OF read slots fresh] by (simp add: seek)
    with walk s some False show ?thesis
      by (cases s) (simp_all add: get_node_meta_batch_def layout fields Let_def)
  qed
qed

end
