(* ===== verification/Segment_Tombstones.thy ===== *)
theory Segment_Tombstones
  imports Segment_Edges_Exact Memtable_Query
begin

text \<open>The tombstone file of a segment: what is written is what an open segment has loaded.\<close>

definition load_step :: "u8 \<times> u64 \<times> tombstone_entry \<Rightarrow> (u64, tombstone_entry) fmap \<times> (u64, tombstone_entry) fmap
    \<Rightarrow> (u64, tombstone_entry) fmap \<times> (u64, tombstone_entry) fmap" where
  "load_step row ms = (case (row, ms) of ((kind, rid, ts), dn, de) \<Rightarrow>
     if kind = 0 then (fmupd rid ts dn, de) else (dn, fmupd rid ts de))"

definition tombstone_rows :: "(u64, tombstone_entry) fmap \<Rightarrow> (u64, tombstone_entry) fmap \<Rightarrow> (u8 \<times> u64 \<times> tombstone_entry) list" where
  "tombstone_rows dn de = map (Pair 0) (btree_entries dn) @ map (Pair 1) (btree_entries de)"

lemma length_tombstone_row: "length (tombstone_row k e) = TOMBSTONE_ENTRY_SIZE"
  by (simp add: tombstone_row_def TOMBSTONE_ENTRY_SIZE_def split: prod.splits)

lemma length_sorted_ids: "length (sorted_list_of_fset s) = fcard s"
  by (simp add: sorted_list_of_fset.rep_eq fcard.rep_eq)

lemma seg_u8_range: "get_range data a (a + 1) = Some (to_le_bytes (k :: u8)) \<Longrightarrow> a + 1 < 2 ^ 64 \<Longrightarrow> seg_u8_at data a = Inr k"
  by (auto simp: get_range_def seg_u8_at_def to_le_bytes_def drop_Suc take_Suc Cons_nth_drop_Suc [symmetric] split: if_splits)

lemma load_rows:
  assumes data: "data = to_le_bytes (n :: u64) @ concat (map (\<lambda>(k, e). tombstone_row k e) rows)" and fits: "length data < 2 ^ 64"
    and kinds: "\<forall>(k, e) \<in> set rows. k = 0 \<or> k = 1" and "i \<le> length rows"
  shows "load_tombstone_rows data count [i ..< length rows] dn de = Inr (fold load_step (drop i rows) (dn, de))"
  using assms(4)
proof (induction "length rows - i" arbitrary: i dn de)
  case (Suc d)
  then have i: "i < length rows" by simp
  obtain k rid ts where row: "rows ! i = (k, rid, ts)" by (cases "rows ! i") auto
  let ?o = "8 + i * TOMBSTONE_ENTRY_SIZE"
  have "chunks_at data (8 + i * TOMBSTONE_ENTRY_SIZE) 0 [to_le_bytes k, to_le_bytes rid, to_le_bytes (deleted_at ts), to_le_bytes (t_last_write_seq ts)]"
    by (rule table_chunks [OF data]) (use i row in \<open>auto simp: length_tombstone_row tombstone_row_def TOMBSTONE_ENTRY_SIZE_def\<close>)
  then have c: "chunks_at data ?o 0 [to_le_bytes k, to_le_bytes rid, to_le_bytes (deleted_at ts), to_le_bytes (t_last_write_seq ts)]" .
  have bound: "?o + TOMBSTONE_ENTRY_SIZE \<le> length data" using chunks_at_bound [OF c] by (simp add: TOMBSTONE_ENTRY_SIZE_def)
  define off where "off = ?o"
  note c' = c [folded off_def, simplified] and b = bound [folded off_def, unfolded TOMBSTONE_ENTRY_SIZE_def]
  have kind: "seg_u8_at data off = Inr k" by (rule seg_u8_range) (use c' b fits in simp_all)
  have reads: "seg_u64_at data (off + 1) = Inr rid" "seg_i64_at data (off + 9) = Inr (deleted_at ts)"
    "seg_u64_at data (off + 17) = Inr (t_last_write_seq ts)"
    by (rule field_reads_off; use c' b fits in simp)+
  have small: "off mod 2 ^ 64 = off" "(off + TOMBSTONE_ENTRY_SIZE) mod 2 ^ 64 = off + TOMBSTONE_ENTRY_SIZE" "off + TOMBSTONE_ENTRY_SIZE \<le> length data"
    using bound fits by (simp_all add: off_def TOMBSTONE_ENTRY_SIZE_def)
  have ends: "\<not> length data < (off + TOMBSTONE_ENTRY_SIZE) mod 2 ^ 64" using small(2,3) by simp
  have known: "k = 0 \<or> k = 1" using kinds nth_mem [OF i] row by auto
  have step: "load_tombstone_rows data count (i # is) dn de =
      (case load_step (k, rid, ts) (dn, de) of (dn', de') \<Rightarrow> load_tombstone_rows data count is dn' de')" for "is"
    unfolding load_tombstone_rows.simps Let_def off_def [symmetric] small(1) if_not_P [OF ends] kind reads r_bind_simps
    using known by (cases ts) (auto simp: load_step_def)
  have "[i ..< length rows] = i # [Suc i ..< length rows]" "drop i rows = (k, rid, ts) # drop (Suc i) rows"
    using i row by (simp_all add: upt_conv_Cons Cons_nth_drop_Suc [symmetric])
  then show ?case using step Suc by (simp split: prod.splits)
qed simp

lemma fold_fmupd_entries: "fold (\<lambda>(k, v). fmupd k v) (btree_entries m) fmempty = m"
proof (rule fmap_ext)
  fix x
  have fold: "fmlookup (fold (\<lambda>(k, v). fmupd k v) es m0) x = (case map_of (rev es) x of None \<Rightarrow> fmlookup m0 x | Some v \<Rightarrow> Some v)"
    for es :: "('a \<times> 'b) list" and m0
  proof (induction es arbitrary: m0)
    case (Cons e es)
    then show ?case by (cases e) (simp add: map_add_def split: option.splits)
  qed simp
  have dist: "distinct (map fst (rev (btree_entries m)))" 
    by (simp add: btree_entries_def comp_def rev_map [symmetric] sorted_list_of_fset.rep_eq)
  have "map_of (rev (btree_entries m)) x = fmlookup m x"
  proof (cases "fmlookup m x")
    case None
    then show ?thesis using set_btree_entries [of m] by (auto simp: map_of_eq_None_iff)
  next
    case (Some v)
    then show ?thesis using dist set_btree_entries [of m] by (auto intro!: map_of_is_SomeI)
  qed
  then show "fmlookup (fold (\<lambda>(k, v). fmupd k v) (btree_entries m) fmempty) x = fmlookup m x"
    using fold [of "btree_entries m" fmempty] by (simp split: option.splits)
qed

lemma load_all_rows: "fold load_step (tombstone_rows dn de) (fmempty, fmempty) = (dn, de)"
proof -
  have "fold load_step (map (Pair 0) es) (a, b) = (fold (\<lambda>(k, v). fmupd k v) es a, b)" for es a b
    by (induction es arbitrary: a) (auto simp: load_step_def)
  moreover have "fold load_step (map (Pair 1) es) (a, b) = (a, fold (\<lambda>(k, v). fmupd k v) es b)" for es a b
    by (induction es arbitrary: b) (auto simp: load_step_def)
  ultimately show ?thesis by (simp add: tombstone_rows_def fold_fmupd_entries)
qed

lemma load_written_tombstones:
  assumes "length (write_tombstones_payload dn de) < 2 ^ 64"
  shows "load_tombstones_from_bytes (write_tombstones_payload dn de) = Inr (dn, de)"
proof -
  let ?data = "write_tombstones_payload dn de" and ?rows = "tombstone_rows dn de" and ?n = "fcard (fmdom dn) + fcard (fmdom de)"
  have data: "?data = to_le_bytes (of_nat ?n :: u64) @ concat (map (\<lambda>(k, e). tombstone_row k e) ?rows)"
    by (simp add: write_tombstones_payload_def tombstone_rows_def comp_def)
  have count: "length ?rows = ?n" by (simp add: tombstone_rows_def btree_entries_def length_sorted_ids)
  have "length ?data = 8 + length ?rows * 25"
    unfolding data by (simp add: length_concat_map [of _ TOMBSTONE_ENTRY_SIZE] length_tombstone_row TOMBSTONE_ENTRY_SIZE_def split_beta)
  then have small: "8 \<le> length ?data" "length ?rows < 2 ^ 64" using assms by simp_all
  have "get_range ?data 0 (0 + 8) = Some (to_le_bytes (of_nat ?n :: u64))" by (rule get_range_at [of _ "[]"]) (simp_all add: data)
  then have "seg_u64_at ?data 0 = Inr (of_nat ?n)" by (rule field_reads(3)) simp
  moreover have "unat (of_nat ?n :: u64) = length ?rows" using small(2) count by (simp add: unat_of_nat take_bit_eq_mod del: of_nat_add)
  moreover have "\<forall>(k, e) \<in> set ?rows. k = 0 \<or> k = 1" by (auto simp: tombstone_rows_def)
  ultimately show ?thesis
    using load_rows [OF data assms, of 0] small(1) by (simp add: load_tombstones_from_bytes_def load_all_rows del: of_nat_add)
qed

text \<open>
  Tombstones round trip: opening a segment loads exactly the deleted nodes and the deleted edges it
  was written with, each with its deletion time and sequence number.
\<close>

theorem tombstones_roundtrip:
  assumes "length (write_tombstones_payload dn de) < 2 ^ 64"
  shows "load_tombstones_from_bytes (write_tombstones_payload dn de) = Inr (dn, de)"
  using assms by (rule load_written_tombstones)

theorem tombstones_roundtrip_witness:
  "load_tombstones_from_bytes (write_tombstones_payload (fmupd 7 \<lparr>deleted_at = 5, t_last_write_seq = 9\<rparr> fmempty) fmempty) =
    Inr (fmupd 7 \<lparr>deleted_at = 5, t_last_write_seq = 9\<rparr> fmempty, fmempty)"
  by (rule tombstones_roundtrip) (simp add: write_tombstones_payload_def btree_entries_def tombstone_row_def sorted_list_of_fset.rep_eq)

end
