(* ===== verification/Segment_Adjacency_Exact.thy ===== *)
theory Segment_Adjacency_Exact
  imports Segment_Adjacency Segment_Tombstones
begin

text \<open>
  What a segment answers about neighbours is what its writer was given: varints and postings are read
  back as written, and the walks over them return the postings of the node, label by label, without
  those that tombstones hide.
\<close>

unbundle bit_operations_syntax

section \<open>Varints\<close>

lemma mask7: "(0x7F :: u64) = mask 7" "(0x7F :: u8) = mask 7"
  by (simp_all add: mask_eq_exp_minus_1)

lemma bit80: "bit (0x80 :: u8) n \<longleftrightarrow> n = 7"
  using bit_push_bit_iff [of 7 "1 :: u8" n] by (auto simp: bit_1_iff push_bit_eq_mult)

text \<open>The simplifier turns bits of word numerals into bits of integers; these rewrites come first.\<close>

lemmas byte_bits = bit_and_iff bit_or_iff bit_unsigned_iff bit80

lemma varint_bytes:
  fixes v :: u64
  shows "(ucast (v AND 0x7F) :: u8) AND 0x80 = 0" and "((ucast (v AND 0x7F) :: u8) OR 0x80) AND 0x80 \<noteq> 0"
    and "(ucast ((ucast (v AND 0x7F) :: u8) AND 0x7F) :: u64) = v AND 0x7F"
    and "(ucast (((ucast (v AND 0x7F) :: u8) OR 0x80) AND 0x7F) :: u64) = v AND 0x7F"
proof -
  show "(ucast (v AND 0x7F) :: u8) AND 0x80 = 0"
    unfolding mask7 by (rule bit_word_eqI, simp only: byte_bits) (auto simp: bit_simps)
  have "bit (((ucast (v AND 0x7F) :: u8) OR 0x80) AND 0x80) 7" unfolding mask7 by (simp only: byte_bits) (simp add: bit_simps)
  then show "((ucast (v AND 0x7F) :: u8) OR 0x80) AND 0x80 \<noteq> 0" by force
  show "(ucast ((ucast (v AND 0x7F) :: u8) AND 0x7F) :: u64) = v AND 0x7F"
    unfolding mask7 by (rule bit_word_eqI, simp only: byte_bits) (auto simp: bit_simps)
  show "(ucast (((ucast (v AND 0x7F) :: u8) OR 0x80) AND 0x7F) :: u64) = v AND 0x7F"
    unfolding mask7 by (rule bit_word_eqI, simp only: byte_bits) (auto simp: bit_simps)
qed

lemma join7: "push_bit k (v AND 0x7F) OR push_bit (k + 7) (drop_bit 7 v) = push_bit k (v :: u64)"
proof (rule bit_word_eqI)
  show "bit (push_bit k (v AND 0x7F) OR push_bit (k + 7) (drop_bit 7 v)) n = bit (push_bit k v) n" if "n < LENGTH(64)" for n
    using that unfolding mask7 by (cases "n < k + 7") (auto simp: bit_simps)
qed

lemma get_range_parts:
  assumes "get_range data a (a + n) = Some mid"
  obtains pre post where "data = pre @ mid @ post" and "length pre = a"
proof
  from assms have h: "a + n \<le> length data" "mid = take n (drop a data)" by (auto simp: get_range_def split: if_splits)
  show "data = take a data @ mid @ drop (a + n) data"
    unfolding h(2) by (metis append_take_drop_id drop_drop add.commute)
  show "length (take a data) = a" using h(1) by simp
qed

lemma get_range_Cons:
  assumes "get_range data a b = Some (x # xs)"
  shows "a < length data" and "data ! a = x" and "get_range data (a + 1) b = Some xs" and "b = a + Suc (length xs)"
proof -
  have h: "a \<le> b" "b \<le> length data" "take (b - a) (drop a data) = x # xs" using assms by (auto simp: get_range_def split: if_splits)
  then have len: "b - a = Suc (length xs)" by (metis length_Cons length_drop length_take min_absorb2 diff_le_mono)
  then show a: "a < length data" and "b = a + Suc (length xs)" using h by simp_all
  then show "data ! a = x" and "get_range data (a + 1) b = Some xs"
    using h len by (auto simp: get_range_def Cons_nth_drop_Suc [symmetric])
qed

lemma shift_room: "128 \<le> n \<Longrightarrow> n * 2 ^ k < (2 :: nat) ^ 64 \<Longrightarrow> k + 7 < 64"
proof (rule ccontr)
  assume n: "128 \<le> n" "n * 2 ^ k < (2 :: nat) ^ 64" and "\<not> k + 7 < 64"
  then have "(2 :: nat) ^ 64 \<le> 2 ^ (k + 7)" by (intro power_increasing) simp_all
  also have "\<dots> \<le> n * 2 ^ k" using n(1) by (simp add: power_add)
  finally show False using n(2) by simp
qed

lemma varint_loop_write:
  assumes "get_range data pos (pos + length (write_varint_to_vec v)) = Some (write_varint_to_vec v)"
    and "unat v * 2 ^ shift < 2 ^ 64" and "shift < 64"
  shows "varint_loop data result shift pos offset = Inr (result OR push_bit shift v, pos + length (write_varint_to_vec v) - offset)"
  using assms
proof (induction v arbitrary: result shift pos rule: write_varint_to_vec.induct)
  case (1 v)
  let ?b = "ucast (v AND 0x7F) :: u8"
  show ?case
  proof (cases "drop_bit 7 v = 0")
    case True
    then have w: "write_varint_to_vec v = [?b]" by (subst write_varint_to_vec.simps) simp
    have low: "v AND 0x7F = v" using join7 [of 0 v] True by simp
    have "pos < length data" "data ! pos = ?b" using get_range_Cons [of data pos _ ?b "[]"] "1.prems"(1) w by simp_all
    then show ?thesis using w low varint_bytes(1,3) [of v, unfolded low] by (subst varint_loop.simps) (simp add: Let_def)
  next
    case False
    define v' where "v' = drop_bit 7 v"
    have w: "write_varint_to_vec v = (?b OR 0x80) # write_varint_to_vec v'"
      using False by (subst write_varint_to_vec.simps) (simp add: v'_def)
    have v': "unat v' = unat v div 128" unfolding v'_def unat_drop_bit_eq by (simp add: drop_bit_eq_div)
    have big: "128 \<le> unat v"
    proof (rule ccontr)
      assume "\<not> 128 \<le> unat v"
      with v' have "unat v' = 0" by simp
      then show False using False unfolding v'_def by (simp only: unat_eq_zero)
    qed
    have "unat v' * 2 ^ (shift + 7) \<le> unat v * 2 ^ shift" unfolding v' by (simp add: power_add)
    with "1.prems"(2) have fits: "unat v' * 2 ^ (shift + 7) < 2 ^ 64" by simp
    have shift: "shift + 7 < 64" using shift_room [OF big "1.prems"(2)] .
    note byte = get_range_Cons [OF "1.prems"(1) [unfolded w length_Cons]]
    have step: "varint_loop data result shift pos offset = varint_loop data (result OR push_bit shift (v AND 0x7F)) (shift + 7) (pos + 1) offset"
      using byte(1,2) shift by (subst varint_loop.simps) (simp add: varint_bytes Let_def)
    have "get_range data (pos + 1) (pos + 1 + length (write_varint_to_vec v')) = Some (write_varint_to_vec v')"
      using byte(3) by simp
    from "1.IH" [OF refl refl False, folded v'_def, OF this fits shift] step
    show ?thesis unfolding w by (simp add: or.assoc join7 [of shift v, folded v'_def] del: push_bit_and)
  qed
qed

lemma read_varint_write:
  assumes "get_range data off (off + length (write_varint_to_vec v)) = Some (write_varint_to_vec v)" and "length data < 2 ^ 64"
  shows "read_varint_at data off = Inr (v, length (write_varint_to_vec v))"
proof -
  have "off < 2 ^ 64" using assms by (auto simp: get_range_def split: if_splits)
  then show ?thesis using varint_loop_write [of data off v 0 0 off] assms(1) unsigned_less [of v] by (simp add: read_varint_at_def)
qed

lemma varint_len_write: "varint_len v = of_nat (length (write_varint_to_vec v))"
proof (induction v rule: varint_len.induct)
  case (1 v)
  have small: "drop_bit 7 v = 0 \<longleftrightarrow> v < 0x80"
    unfolding word_less_nat_alt unat_eq_zero [symmetric] unat_drop_bit_eq by (simp add: drop_bit_eq_div div_eq_0_iff)
  show ?case
    using 1 small by (subst varint_len.simps, subst write_varint_to_vec.simps) (auto simp: Let_def not_less)
qed

section \<open>Postings\<close>

definition expiry_ok :: "adjacency_posting \<Rightarrow> bool" where
  "expiry_ok p \<longleftrightarrow> (case p of (_, _, _, _, valid_to) \<Rightarrow> valid_to \<noteq> -1)"

lemma valid_to_back: "(if valid_to_enc t = 0 then I64_MAX else valid_to_enc t - 1) = (if t = -1 then I64_MAX else t)"
proof (cases "t = I64_MAX")
  case False
  then show ?thesis by (auto simp: valid_to_enc_def eq_neg_iff_add_eq_0)
qed (simp add: valid_to_enc_def I64_MAX_def)

text \<open>What is read of a posting: the expiry \<open>-1\<close> comes back as no expiry.\<close>

definition read_back :: "adjacency_posting \<Rightarrow> adjacency_posting" where
  "read_back p = (case p of (e, n, w, vf, vt) \<Rightarrow> (e, n, w, vf, if vt = -1 then I64_MAX else vt))"

lemma read_back_id: "expiry_ok p \<Longrightarrow> read_back p = p"
  by (auto simp: expiry_ok_def read_back_def)

lemma fst_read_back [simp]: "fst (read_back p) = fst p"
  by (simp add: read_back_def split: prod.splits)

lemma decode_posting_written:
  assumes bytes: "get_range dat off (off + length (write_adjacency_posting_bytes prev p)) = Some (write_adjacency_posting_bytes prev p)"
    and fits: "length dat < 2 ^ 64" and order: "prev \<le> fst p"
  shows "decode_adj_posting dat off prev = Inr (read_back p, off + length (write_adjacency_posting_bytes prev p))"
proof -
  obtain e n w vf vt where p: "p = (e, n, w, vf, vt)" by (cases p)
  let ?d = "write_varint_to_vec (e - prev)" and ?n = "write_varint_to_vec n" and ?w = "to_le_bytes w"
    and ?f = "write_varint_to_vec vf" and ?t = "write_varint_to_vec (valid_to_enc vt)"
  have b: "write_adjacency_posting_bytes prev p = ?d @ ?n @ ?w @ ?f @ ?t" by (simp add: p write_adjacency_posting_bytes_def)
  obtain pre post where dat: "dat = pre @ (?d @ ?n @ ?w @ ?f @ ?t) @ post" "length pre = off"
    using bytes unfolding b by (rule get_range_parts)
  have "chunks_at dat off 0 [?d, ?n, ?w, ?f, ?t]" by (rule chunks_atI [of _ pre]) (simp_all add: dat)
  note c = this [unfolded chunks_at.simps add_0 add.assoc [symmetric] add_0_right]
  have bound: "off + length (?d @ ?n @ ?w @ ?f @ ?t) < 2 ^ 64" using dat fits by simp
  have "seg_f32_at dat (off + length ?d + length ?n) = Inr w"
    by (rule field_reads(5)) (use c bound in \<open>simp_all add: add.assoc\<close>)
  moreover have "checked_adj_edge_id_delta prev (e - prev) = Inr e"
    using order p unsigned_less [of e] by (simp add: checked_adj_edge_id_delta_def unat_sub word_le_nat_alt)
  ultimately show ?thesis
    using read_varint_write [OF _ fits, of "off" "e - prev"] read_varint_write [OF _ fits, of "off + length ?d" n]
      read_varint_write [OF _ fits, of "off + length ?d + length ?n + 4" vf] c
      read_varint_write [OF _ fits, of "off + length ?d + length ?n + 4 + length ?f" "valid_to_enc vt"]
    unfolding b by (simp add: decode_adj_posting_def Let_def valid_to_back p read_back_def add.assoc)
qed

text \<open>The postings \<open>ps\<close> are what is read one after the other from an offset on.\<close>

fun postings_at :: "bytes \<Rightarrow> nat \<Rightarrow> u64 \<Rightarrow> adjacency_posting list \<Rightarrow> bool" where
  "postings_at dat off prev [] = True"
| "postings_at dat off prev (p # ps) \<longleftrightarrow> (\<exists>off'. decode_adj_posting dat off prev = Inr (p, off') \<and> postings_at dat off' (fst p) ps)"

lemma group_postings:
  assumes "get_range dat off (off + length (group_posting_bytes prev ps)) = Some (group_posting_bytes prev ps)"
    and "length dat < 2 ^ 64" and "sorted (prev # map fst ps)"
  shows "postings_at dat off prev (map read_back ps)"
  using assms(1,3)
proof (induction ps arbitrary: off prev)
  case (Cons p ps)
  let ?b = "write_adjacency_posting_bytes prev p" and ?r = "group_posting_bytes (fst p) ps"
  obtain pre post where dat: "dat = pre @ (?b @ ?r) @ post" "length pre = off"
    using Cons.prems(1) unfolding group_posting_bytes.simps by (rule get_range_parts)
  have "get_range dat off (off + length ?b) = Some ?b" by (rule get_range_at [of _ pre _ "?r @ post"]) (simp_all add: dat)
  then have "decode_adj_posting dat off prev = Inr (read_back p, off + length ?b)"
    by (rule decode_posting_written [OF _ assms(2)]) (use Cons.prems(2) in simp)
  moreover have "postings_at dat (off + length ?b) (fst p) (map read_back ps)"
  proof (rule Cons.IH)
    show "get_range dat (off + length ?b) (off + length ?b + length ?r) = Some ?r"
      by (rule get_range_at [of _ "pre @ ?b" _ post]) (simp_all add: dat)
  qed (use Cons.prems(2) in simp)
  ultimately show ?case by simp
qed simp

lemma length_group_bytes: "of_nat (length (group_posting_bytes prev ps)) = adjacency_postings_len prev ps"
  by (induction prev ps rule: adjacency_postings_len.induct)
    (simp_all add: write_adjacency_posting_bytes_def varint_len_write)

section \<open>The files of one direction\<close>

definition group_key :: "adjacency_group_plan \<Rightarrow> u64 \<times> u32" where
  "group_key g = (gp_node_id g, gp_label_id g)"

definition group_bytes :: "adjacency_group_plan \<Rightarrow> bytes" where
  "group_bytes g = group_posting_bytes 0 (gp_postings g)"

text \<open>The index and postings of a plan that fits its length fields, with the groups in order.\<close>

definition adjacency_written :: "adjacency_group_plan list \<Rightarrow> bytes \<Rightarrow> bytes \<Rightarrow> bool" where
  "adjacency_written plan idx dat \<longleftrightarrow> idx = write_adjacency_index_payload plan \<and> dat = write_adjacency_postings_payload plan \<and>
     length idx < 2 ^ 64 \<and> length dat < 2 ^ 64 \<and>
     (\<forall>g \<in> set plan. length (gp_postings g) < 2 ^ 32 \<and> sorted (map fst (gp_postings g))) \<and>
     sorted (map gp_node_id plan) \<and> (\<forall>i < length plan. unat (gp_offset (plan ! i)) = starts 0 group_bytes plan i)"

lemma adjacency_writtenD:
  assumes "adjacency_written plan idx dat"
  shows "idx = to_le_bytes (of_nat (length plan) :: u64) @ concat (map adjacency_index_row plan)"
    and "dat = concat (map group_bytes plan)" and "length idx < 2 ^ 64" and "length dat < 2 ^ 64"
    and "sorted (map gp_node_id plan)"
    and "i < length plan \<Longrightarrow> length (gp_postings (plan ! i)) < 2 ^ 32"
    and "i < length plan \<Longrightarrow> sorted (map fst (gp_postings (plan ! i)))"
    and "i < length plan \<Longrightarrow> unat (gp_offset (plan ! i)) = starts 0 group_bytes plan i"
  using assms
  unfolding adjacency_written_def write_adjacency_index_payload_def write_adjacency_postings_payload_def group_bytes_def [abs_def]
  by (blast intro: nth_mem)+

lemma length_index_row [simp]: "length (adjacency_index_row g) = ADJ_INDEX_ENTRY_SIZE"
  by (simp add: adjacency_index_row_def ADJ_INDEX_ENTRY_SIZE_def)

lemma adjacency_index_reads:
  assumes "adjacency_written plan idx dat"
  shows "seg_u64_at idx 0 = Inr (of_nat (length plan))" and "8 \<le> length idx" and "unat (of_nat (length plan) :: u64) = length plan"
    and "rows_ok (\<lambda>i. seg_u64_at idx (8 + i * ADJ_INDEX_ENTRY_SIZE)) (map gp_node_id plan)"
    and "i < length plan \<Longrightarrow> adj_row_at idx (8 + i * ADJ_INDEX_ENTRY_SIZE) =
      Inr (gp_label_id (plan ! i), starts 0 group_bytes plan i, length (gp_postings (plan ! i)))"
proof -
  note idx = adjacency_writtenD(1) [OF assms] and fits = adjacency_writtenD(3) [OF assms]
  have len: "length idx = 8 + length plan * ADJ_INDEX_ENTRY_SIZE" by (simp add: idx length_concat_map [of _ ADJ_INDEX_ENTRY_SIZE])
  then show "8 \<le> length idx" by simp
  have small: "length plan < 2 ^ 64" using len fits by (simp add: ADJ_INDEX_ENTRY_SIZE_def)
  then show "unat (of_nat (length plan) :: u64) = length plan" by (simp add: unat_of_nat take_bit_eq_mod)
  have "get_range idx 0 (0 + 8) = Some (to_le_bytes (of_nat (length plan) :: u64))" by (rule get_range_at [of _ "[]"]) (simp_all add: idx)
  then show "seg_u64_at idx 0 = Inr (of_nat (length plan))" by (rule field_reads(3)) simp
  have chunks: "chunks_at idx (8 + i * ADJ_INDEX_ENTRY_SIZE) 0
      [to_le_bytes (gp_node_id (plan ! i)), to_le_bytes (gp_label_id (plan ! i)), to_le_bytes (gp_offset (plan ! i)),
       to_le_bytes (of_nat (length (gp_postings (plan ! i))) :: u32)]" if "i < length plan" for i
    by (rule table_chunks [OF idx]) (use that in \<open>auto simp: adjacency_index_row_def ADJ_INDEX_ENTRY_SIZE_def\<close>)
  have bound: "8 + i * ADJ_INDEX_ENTRY_SIZE + 24 < 2 ^ 64" if "i < length plan" for i
    using that len fits by (simp add: ADJ_INDEX_ENTRY_SIZE_def)
  show "rows_ok (\<lambda>i. seg_u64_at idx (8 + i * ADJ_INDEX_ENTRY_SIZE)) (map gp_node_id plan)"
    unfolding rows_ok_def
  proof (intro allI impI field_reads(3))
    fix i assume i: "i < length (map gp_node_id plan)"
    show "get_range idx (8 + i * ADJ_INDEX_ENTRY_SIZE) (8 + i * ADJ_INDEX_ENTRY_SIZE + 8) = Some (to_le_bytes (map gp_node_id plan ! i))"
      using chunks [of i] i by simp
    show "8 + i * ADJ_INDEX_ENTRY_SIZE + 8 < 2 ^ 64" using bound [of i] i by simp
  qed
  assume i: "i < length plan"
  define off where "off = 8 + i * ADJ_INDEX_ENTRY_SIZE"
  note c = chunks [OF i, folded off_def, simplified] and b = bound [OF i, folded off_def]
  have "seg_u32_at idx (off + 8) = Inr (gp_label_id (plan ! i))" "seg_u64_at idx (off + 12) = Inr (gp_offset (plan ! i))"
    "seg_u32_at idx (off + 20) = Inr (of_nat (length (gp_postings (plan ! i))))"
    by (rule field_reads_off; use c b in simp)+
  moreover have "length (gp_postings (plan ! i)) < 2 ^ 32" "unat (gp_offset (plan ! i)) = starts 0 group_bytes plan i"
    using adjacency_writtenD(6,8) [OF assms i] by simp_all
  ultimately show "adj_row_at idx (8 + i * ADJ_INDEX_ENTRY_SIZE) =
      Inr (gp_label_id (plan ! i), starts 0 group_bytes plan i, length (gp_postings (plan ! i)))"
    unfolding off_def [symmetric] by (simp add: adj_row_at_def unat_of_nat take_bit_eq_mod)
qed

lemma adjacency_postings_read:
  assumes "adjacency_written plan idx dat" and i: "i < length plan"
  shows "postings_at dat (starts 0 group_bytes plan i) 0 (map read_back (gp_postings (plan ! i)))"
proof (rule group_postings)
  have dat: "dat = [] @ concat (map group_bytes plan)" using adjacency_writtenD(2) [OF assms(1)] by simp
  show "length dat < 2 ^ 64" by (rule adjacency_writtenD(4) [OF assms(1)])
  show "get_range dat (starts 0 group_bytes plan i) (starts 0 group_bytes plan i + length (group_posting_bytes 0 (gp_postings (plan ! i)))) =
      Some (group_posting_bytes 0 (gp_postings (plan ! i)))"
    using get_range_record [OF i, of group_bytes "[]" "group_posting_bytes 0 (gp_postings (plan ! i))" "[]" 0 "[]"] dat
    by (simp add: group_bytes_def)
  show "sorted (0 # map fst (gp_postings (plan ! i)))" using adjacency_writtenD(7) [OF assms] by simp
qed

lemma first_entry_written:
  assumes "adjacency_written plan idx dat"
  shows "find_first_adj_entry idx n =
    Inr (if n \<in> set (map gp_node_id plan) then Some (LEAST i. i < length plan \<and> map gp_node_id plan ! i = n) else None)"
proof -
  note reads = adjacency_index_reads [OF assms]
  have "(of_nat (length plan) :: u64) = 0 \<longleftrightarrow> plan = []" using reads(3) by (metis length_0_conv unat_eq_zero)
  moreover have "sorted (map gp_node_id plan)" by (rule adjacency_writtenD(5) [OF assms])
  ultimately show ?thesis
    using reads(1,2,3) search_first_rows [OF reads(4), of "length plan" 0 n None] by (auto simp: find_first_adj_entry_def)
qed

lemma takeWhile_run: "sorted (map f xs) \<Longrightarrow> \<forall>x \<in> set xs. n \<le> f x \<Longrightarrow> filter (\<lambda>x. f x = n) xs = takeWhile (\<lambda>x. f x = n) xs"
proof (induction xs)
  case (Cons x xs)
  then show ?case by (cases xs) (auto simp: filter_empty_conv)
qed simp

lemma sorted_run:
  assumes "sorted (map f xs)" and "n \<in> set (map f xs)"
  defines "i \<equiv> LEAST i. i < length xs \<and> map f xs ! i = n"
  shows "i \<le> length xs" and "filter (\<lambda>x. f x = n) xs = takeWhile (\<lambda>x. f x = n) (drop i xs)"
proof -
  have ex: "\<exists>i. i < length xs \<and> map f xs ! i = n" using assms(2) unfolding in_set_conv_nth by simp
  have i: "i < length xs" "map f xs ! i = n" using LeastI_ex [OF ex] by (simp_all add: i_def)
  then show "i \<le> length xs" by simp
  have "f x \<noteq> n" if "x \<in> set (take i xs)" for x
  proof -
    from that obtain j where "j < i" "x = xs ! j" by (auto simp: in_set_conv_nth)
    then show ?thesis using not_less_Least [of j, folded i_def] i(1) by (fastforce simp: i_def)
  qed
  then have "filter (\<lambda>x. f x = n) xs = filter (\<lambda>x. f x = n) (drop i xs)"
    by (subst append_take_drop_id [of i xs, symmetric]) (simp only: filter_append, simp add: filter_empty_conv)
  also have "\<dots> = takeWhile (\<lambda>x. f x = n) (drop i xs)"
  proof -
    have head: "\<forall>x \<in> set (drop i xs). n \<le> f x"
      using sorted_nth_mono [OF assms(1)] i by (force simp: in_set_conv_nth)
    have "sorted (map f (drop i xs))" using assms(1) by (simp add: drop_map [symmetric] sorted_wrt_drop)
    from takeWhile_run [OF this head] show ?thesis .
  qed
  finally show "filter (\<lambda>x. f x = n) xs = takeWhile (\<lambda>x. f x = n) (drop i xs)" .
qed

section \<open>Walks\<close>

text \<open>The postings of a node under a label filter, label by label, as they are read back.\<close>

definition group_list :: "adjacency_group_plan \<Rightarrow> (u32 \<times> adjacency_posting) list" where
  "group_list g = map (\<lambda>p. (gp_label_id g, read_back p)) (gp_postings g)"

definition listed :: "u32 list option \<Rightarrow> adjacency_group_plan list \<Rightarrow> (u32 \<times> adjacency_posting) list" where
  "listed filt gs = concat (map group_list (filter (\<lambda>g. \<not> label_excluded filt (gp_label_id g)) gs))"

definition node_postings :: "u32 list option \<Rightarrow> adjacency_group_plan list \<Rightarrow> u64 \<Rightarrow> (u32 \<times> adjacency_posting) list" where
  "node_postings filt plan n = listed filt (filter (\<lambda>g. gp_node_id g = n) plan)"

fun collect_list :: "segment_reader \<Rightarrow> collect_options \<Rightarrow> (u32 \<times> adjacency_posting) list \<Rightarrow> collect_state \<Rightarrow> collect_state" where
  "collect_list sr opts [] st = st"
| "collect_list sr opts ((l, p) # xs) st = (if collect_full opts st then st else collect_list sr opts xs (collect_posting sr opts l p st))"

lemma collect_list_full: "collect_full opts st \<Longrightarrow> collect_list sr opts xs st = st"
  by (cases xs) auto

lemma collect_list_append: "collect_list sr opts (xs @ ys) st = collect_list sr opts ys (collect_list sr opts xs st)"
proof (induction xs arbitrary: st)
  case (Cons x xs)
  then show ?case by (cases x) (auto simp: collect_list_full)
qed simp

lemma collect_postings_list:
  "postings_at dat off prev ps \<Longrightarrow> collect_postings sr opts dat l (length ps) off prev st = Inr (collect_list sr opts (map (Pair l) ps) st)"
proof (induction ps arbitrary: off prev st)
  case (Cons p ps)
  from Cons.prems obtain off' where "decode_adj_posting dat off prev = Inr (p, off')" "postings_at dat off' (fst p) ps" by auto
  then show ?case using Cons.IH [of off' "fst p"] by simp
qed simp

lemma visit_postings_list:
  "postings_at dat off prev ps \<Longrightarrow>
     visit_postings sr dat callback (length ps) off prev acc = Inr (visit_each callback (filter (\<lambda>p. \<not> hidden_posting sr p) ps) acc)"
  by (induction ps arbitrary: off prev acc) (auto split: prod.splits)

lemma visit_each_append:
  "visit_each cb (xs @ ys) acc = (case visit_each cb xs acc of (acc, stop) \<Rightarrow> if stop then (acc, True) else visit_each cb ys acc)"
  by (induction xs arbitrary: acc) (auto split: prod.splits)

lemma collect_rows_list:
  assumes written: "adjacency_written plan idx dat" and "i \<le> length plan"
  shows "collect_rows sr opts idx dat [i ..< length plan] st =
    Inr (collect_list sr opts (listed (co_labels opts) (takeWhile (\<lambda>g. gp_node_id g = co_node_id opts) (drop i plan))) st)"
  using assms(2)
proof (induction "length plan - i" arbitrary: i st)
  case (Suc d)
  then have i: "i < length plan" by simp
  note reads = adjacency_index_reads [OF written]
  have node: "seg_u64_at idx (8 + i * ADJ_INDEX_ENTRY_SIZE) = Inr (gp_node_id (plan ! i))" using rows_okD [OF reads(4), of i] i by simp
  have postings: "collect_postings sr opts dat l (length (gp_postings (plan ! i))) (starts 0 group_bytes plan i) 0 st =
      Inr (collect_list sr opts (map (Pair l) (map read_back (gp_postings (plan ! i)))) st)" for l st
    using collect_postings_list [OF adjacency_postings_read [OF written i]] by simp
  have drop: "drop i plan = plan ! i # drop (Suc i) plan" and upt: "[i ..< length plan] = i # [Suc i ..< length plan]"
    using i by (simp_all add: Cons_nth_drop_Suc upt_conv_Cons)
  have ih: "collect_rows sr opts idx dat [Suc i ..< length plan] st =
      Inr (collect_list sr opts (listed (co_labels opts) (takeWhile (\<lambda>g. gp_node_id g = co_node_id opts) (drop (Suc i) plan))) st)" for st
    using Suc.hyps(1) [of "Suc i"] Suc.hyps(2) i by simp
  show ?case
    unfolding upt drop collect_rows.simps Let_def node reads(5) [OF i]
    by (auto simp: collect_list_full postings ih listed_def group_list_def collect_list_append comp_def)
qed (simp add: listed_def)

lemma visit_rows_list:
  assumes written: "adjacency_written plan idx dat" and "i \<le> length plan"
  shows "visit_rows sr n filt idx dat callback [i ..< length plan] acc =
    Inr (visit_each callback (filter (\<lambda>p. \<not> hidden_posting sr p) (map snd (listed filt (takeWhile (\<lambda>g. gp_node_id g = n) (drop i plan))))) acc)"
  using assms(2)
proof (induction "length plan - i" arbitrary: i acc)
  case (Suc d)
  then have i: "i < length plan" by simp
  note reads = adjacency_index_reads [OF written]
  have node: "seg_u64_at idx (8 + i * ADJ_INDEX_ENTRY_SIZE) = Inr (gp_node_id (plan ! i))" using rows_okD [OF reads(4), of i] i by simp
  have postings: "visit_postings sr dat callback (length (gp_postings (plan ! i))) (starts 0 group_bytes plan i) 0 acc =
      Inr (visit_each callback (filter (\<lambda>p. \<not> hidden_posting sr p) (map read_back (gp_postings (plan ! i)))) acc)" for acc
    using visit_postings_list [OF adjacency_postings_read [OF written i]] by simp
  have drop: "drop i plan = plan ! i # drop (Suc i) plan" and upt: "[i ..< length plan] = i # [Suc i ..< length plan]"
    using i by (simp_all add: Cons_nth_drop_Suc upt_conv_Cons)
  have ih: "visit_rows sr n filt idx dat callback [Suc i ..< length plan] acc =
      Inr (visit_each callback (filter (\<lambda>p. \<not> hidden_posting sr p) (map snd (listed filt (takeWhile (\<lambda>g. gp_node_id g = n) (drop (Suc i) plan))))) acc)" for acc
    using Suc.hyps(1) [of "Suc i"] Suc.hyps(2) i by simp
  show ?case
    unfolding upt drop visit_rows.simps Let_def node reads(5) [OF i]
    by (auto simp: postings ih listed_def group_list_def visit_each_append comp_def split: prod.splits)
qed (simp add: listed_def)

lemma node_run:
  assumes "adjacency_written plan idx dat"
  obtains "n \<notin> set (map gp_node_id plan)" and "find_first_adj_entry idx n = Inr None" and "node_postings filt plan n = []"
  | i where "i \<le> length plan" and "find_first_adj_entry idx n = Inr (Some i)"
    and "node_postings filt plan n = listed filt (takeWhile (\<lambda>g. gp_node_id g = n) (drop i plan))"
proof (cases "n \<in> set (map gp_node_id plan)")
  case True
  from sorted_run [OF adjacency_writtenD(5) [OF assms] True] first_entry_written [OF assms, of n] True that(2) show ?thesis
    by (simp add: node_postings_def)
next
  case False
  then have "filter (\<lambda>g. gp_node_id g = n) plan = []" by (auto simp: filter_empty_conv)
  with False first_entry_written [OF assms, of n] that(1) show ?thesis by (simp add: node_postings_def listed_def)
qed

lemma collect_written:
  assumes "adjacency_written plan idx dat"
  shows "collect_adj_neighbors sr opts idx dat st = Inr (collect_list sr opts (node_postings (co_labels opts) plan (co_node_id opts)) st)"
  by (rule node_run [OF assms, of "co_node_id opts" "co_labels opts"])
    (simp_all add: collect_adj_neighbors_def adjacency_index_reads(1,3) [OF assms] collect_rows_list [OF assms])

lemma visit_written:
  assumes "adjacency_written plan idx dat"
  shows "decode_adj_postings_cb sr idx dat n filt callback acc =
    Inr (visit_each callback (filter (\<lambda>p. \<not> hidden_posting sr p) (map snd (node_postings filt plan n))) acc)"
  by (rule node_run [OF assms, of n filt])
    (simp_all add: decode_adj_postings_cb_def adjacency_index_reads(1,3) [OF assms] visit_rows_list [OF assms])

end
