(* ===== verification/Memtable_Adjacency.thy ===== *)
theory Memtable_Adjacency
  imports Memtable_Query
begin

text \<open>
  What the adjacency reads of a memtable return: for every order in which the hash maps are walked,
  each incident edge once, with the limit a prefix of the unlimited answer.
\<close>

definition walk_ok :: "walk \<Rightarrow> bool" where
  "walk_ok walk \<longleftrightarrow> (\<forall>A. set (walk A) = fset A \<and> distinct (walk A))"

definition entries_at :: "u64 \<Rightarrow> (u64 \<times> adj_entry membership_slot) list \<Rightarrow> adj_entry list" where
  "entries_at s es = List.map_filter (\<lambda>(_, slot). slot_option_at slot s) es"

lemma entries_at_simps [simp]:
  "entries_at s [] = []"
  "entries_at s ((i, slot) # es) = (case slot_option_at slot s of None \<Rightarrow> entries_at s es | Some x \<Rightarrow> x # entries_at s es)"
  by (simp_all add: entries_at_def List.map_filter_simps split: option.split)

definition allowed :: "(u64 \<Rightarrow> bool) \<Rightarrow> u32 list option \<Rightarrow> adj_entry \<Rightarrow> bool" where
  "allowed hidden filt x \<longleftrightarrow> \<not> label_excluded filt (adj_label_id x) \<and> \<not> hidden (adj_neighbor_id x)"

lemma collect_first_pass:
  "adj_collect hidden filt n 0 s False es (loops, rs) =
     (loops \<union> {adj_edge_id x |x. x \<in> set (filter (allowed hidden filt) (entries_at s es)) \<and> adj_neighbor_id x = n},
      rs @ map neighbor_of (filter (allowed hidden filt) (entries_at s es)))"
proof (induction es arbitrary: loops rs)
  case (Cons e es)
  obtain i slot where "e = (i, slot)" by (cases e)
  with Cons show ?case
    by (auto simp: adj_skipped_def allowed_def note_loop_def split: option.split)
qed simp

lemma collect_second_pass:
  assumes "distinct (map adj_edge_id (entries_at s es))"
    and "\<And>x. x \<in> set (entries_at s es) \<Longrightarrow> adj_edge_id x \<in> loops \<longleftrightarrow> adj_edge_id x \<in> loops0"
  shows "snd (adj_collect hidden filt n 0 s True es (loops, rs)) =
     rs @ map neighbor_of (filter (\<lambda>x. allowed hidden filt x \<and> \<not> (adj_neighbor_id x = n \<and> adj_edge_id x \<in> loops0)) (entries_at s es))"
  using assms
proof (induction es arbitrary: loops rs)
  case (Cons e es)
  obtain i slot where e: "e = (i, slot)" by (cases e)
  show ?case
  proof (cases "slot_option_at slot s")
    case None
    with Cons e show ?thesis by simp
  next
    case (Some x)
    have "adj_edge_id x \<in> loops \<longleftrightarrow> adj_edge_id x \<in> loops0" using Cons.prems(2) [of x] Some e by simp
    moreover have "adj_edge_id y \<in> note_loop n x loops \<longleftrightarrow> adj_edge_id y \<in> loops0" if "y \<in> set (entries_at s es)" for y
      using Cons.prems(1) Cons.prems(2) [of y] Some e that by (auto simp: note_loop_def rev_image_eqI)
    ultimately show ?thesis
      using Cons.IH Cons.prems Some e by (auto simp: adj_skipped_def allowed_def)
  qed
qed simp

lemma collect_extends: "\<exists>more. snd (adj_collect hidden filt n k s d es (loops, rs)) = rs @ more"
proof (induction es arbitrary: loops rs)
  case (Cons e es)
  obtain i slot where "e = (i, slot)" by (cases e)
  moreover have "\<exists>more. snd (adj_collect hidden filt n k s d es (note_loop n x loops, rs @ [neighbor_of x])) = rs @ more" for x
    using Cons [of "note_loop n x loops" "rs @ [neighbor_of x]"] by force
  ultimately show ?case using Cons by (auto split: option.split)
qed simp

lemma collect_limit:
  assumes "0 < k" and "length rs \<le> k"
  shows "snd (adj_collect hidden filt n k s d es (loops, rs)) = take k (snd (adj_collect hidden filt n 0 s d es (loops, rs))) \<and>
    (length (snd (adj_collect hidden filt n 0 s d es (loops, rs))) < k \<longrightarrow>
       adj_collect hidden filt n k s d es (loops, rs) = adj_collect hidden filt n 0 s d es (loops, rs))"
  using assms(2)
proof (induction es arbitrary: loops rs)
  case (Cons e es)
  obtain i slot where e: "e = (i, slot)" by (cases e)
  show ?case
  proof (cases "length rs = k")
    case True
    obtain more where "snd (adj_collect hidden filt n 0 s d (e # es) (loops, rs)) = rs @ more"
      using collect_extends by blast
    with True assms(1) e show ?thesis by (simp del: adj_collect.simps(2)) (simp add: e)
  next
    case False
    then have "length rs < k" using Cons.prems by simp
    with Cons.IH e assms(1) show ?thesis by (auto split: option.split)
  qed
qed (simp add: assms)

lemma adj_entries_at:
  assumes "walk_ok walk" and "\<And>i x. nested_at m s (n, i) = Some x \<Longrightarrow> adj_edge_id x = i"
  shows "set (entries_at s (adj_entries walk m n)) = {x. \<exists>i. nested_at m s (n, i) = Some x}"
    and "distinct (map adj_edge_id (entries_at s (adj_entries walk m n)))"
proof -
  have "set (entries_at s (adj_entries walk m n)) = {x. \<exists>i. nested_at m s (n, i) = Some x} \<and>
    distinct (map adj_edge_id (entries_at s (adj_entries walk m n)))"
  proof (cases "fmlookup m n")
    case None
    then show ?thesis by (simp add: adj_entries_def nested_at_def)
  next
    case (Some es)
    let ?f = "\<lambda>k. slot_option_at (the (fmlookup es k)) s"
    have at: "nested_at m s (n, i) = Some x \<longleftrightarrow> i |\<in>| fmdom es \<and> ?f i = Some x" for i x
      by (auto simp: nested_at_def opt_at_def Some fmlookup_dom_iff bind_eq_Some_conv)
    have walk: "set (walk (fmdom es)) = fset (fmdom es)" "distinct (walk (fmdom es))"
      using assms(1) by (auto simp: walk_ok_def)
    have list: "entries_at s (adj_entries walk m n) = map (the \<circ> ?f) (filter (\<lambda>k. ?f k \<noteq> None) (walk (fmdom es)))"
      by (simp add: entries_at_def adj_entries_def Some hash_entries_def List.map_filter_def comp_def filter_map)
    have ids: "adj_edge_id (the (?f k)) = k" if "k \<in> set (walk (fmdom es))" "?f k \<noteq> None" for k
      using that assms(2) [of k] at [of k] walk(1) by auto
    have "map adj_edge_id (entries_at s (adj_entries walk m n)) = filter (\<lambda>k. ?f k \<noteq> None) (walk (fmdom es))"
      unfolding list map_map by (rule map_idI) (use ids in auto)
    moreover have "set (entries_at s (adj_entries walk m n)) = {x. \<exists>i. i |\<in>| fmdom es \<and> ?f i = Some x}"
      unfolding list using walk(1) by (auto simp: image_iff) force
    ultimately show ?thesis using walk(2) by (simp add: at)
  qed
  then show "set (entries_at s (adj_entries walk m n)) = {x. \<exists>i. nested_at m s (n, i) = Some x}"
    "distinct (map adj_edge_id (entries_at s (adj_entries walk m n)))" by blast+
qed

lemma reach_edge_ids: "memtable_reach pv st w \<Longrightarrow> edge_at st i s = Some e \<Longrightarrow> e_id e = i"
  using reach_invariants [of pv st w] by (auto simp: store_ok_def ids_ok_def edge_at_view)

text \<open>The edges at a node in a direction that pass the label filter and whose far end is not hidden.\<close>

definition incident :: "memtable_state \<Rightarrow> u64 \<Rightarrow> (u64 \<Rightarrow> bool) \<Rightarrow> u64 \<Rightarrow> direction \<Rightarrow> u32 list option \<Rightarrow> neighbor_record set" where
  "incident st s hidden n dir filt =
     {neighbor_of x |x. allowed hidden filt x \<and> (\<exists>i e. edge_at st i s = Some e \<and>
        (dir \<noteq> Incoming \<and> e_from e = n \<and> x = adj_out_entry e \<or> dir \<noteq> Outgoing \<and> e_to e = n \<and> x = adj_in_entry e))}"

lemma neighbor_ids [simp]: "nb_edge_id (neighbor_of x) = adj_edge_id x"
  by (simp add: neighbor_of_def)

lemma adj_entry_ids [simp]: "adj_edge_id (adj_out_entry e) = e_id e" "adj_edge_id (adj_in_entry e) = e_id e"
  "adj_neighbor_id (adj_out_entry e) = e_to e" "adj_neighbor_id (adj_in_entry e) = e_from e"
  by (simp_all add: adj_out_entry_def adj_in_entry_def)

lemma loop_entry: "e_from e = e_to e \<Longrightarrow> adj_in_entry e = adj_out_entry e"
  by (simp add: adj_out_entry_def adj_in_entry_def)

text \<open>Merging the two passes: a self loop of the second list is already in the first.\<close>

lemma merge_passes:
  assumes "distinct (map adj_edge_id out)" and "distinct (map adj_edge_id inc)"
    and self: "\<And>x. x \<in> set inc \<Longrightarrow> adj_neighbor_id x = n \<Longrightarrow> x \<in> set out"
    and shared: "\<And>x y. x \<in> set out \<Longrightarrow> y \<in> set inc \<Longrightarrow> adj_edge_id x = adj_edge_id y \<Longrightarrow> adj_neighbor_id y = n"
    and loops: "loops = {adj_edge_id x |x. x \<in> set (filter ok out) \<and> adj_neighbor_id x = n}"
    and inc': "inc' = filter (\<lambda>x. ok x \<and> \<not> (adj_neighbor_id x = n \<and> adj_edge_id x \<in> loops)) inc"
  shows "distinct (map adj_edge_id (filter ok out @ inc'))" and "set (filter ok out @ inc') = {x \<in> set out \<union> set inc. ok x}"
proof -
  have mem: "x \<in> set inc' \<longleftrightarrow> x \<in> set inc \<and> ok x \<and> adj_neighbor_id x \<noteq> n" for x
  proof -
    have "adj_edge_id x \<in> loops" if "x \<in> set inc" "ok x" "adj_neighbor_id x = n"
      unfolding loops using that self by auto
    then show ?thesis unfolding inc' by auto
  qed
  have "distinct (map adj_edge_id inc')" "distinct (map adj_edge_id (filter ok out))"
    using assms(1,2) unfolding inc' by (simp_all add: distinct_map inj_on_def)
  moreover have "adj_edge_id x \<noteq> adj_edge_id y" if "x \<in> set (filter ok out)" "y \<in> set inc'" for x y
    using that mem shared [of x y] by auto
  ultimately show "distinct (map adj_edge_id (filter ok out @ inc'))" by (auto simp del: set_filter)
  show "set (filter ok out @ inc') = {x \<in> set out \<union> set inc. ok x}"
    using self by (auto simp: mem)
qed

lemma collect_lists:
  assumes "distinct (map adj_edge_id (entries_at s (adj_entries walk (adj_in st) n)))"
  shows "collect_direction walk st hidden n dir filt 0 s =
    (let ok = allowed hidden filt; out = entries_at s (adj_entries walk (adj_out st) n);
         inc = entries_at s (adj_entries walk (adj_in st) n);
         loops = {adj_edge_id x |x. x \<in> set (filter ok out) \<and> adj_neighbor_id x = n}
     in map neighbor_of (case dir of Outgoing \<Rightarrow> filter ok out | Incoming \<Rightarrow> filter ok inc
        | Both \<Rightarrow> filter ok out @ filter (\<lambda>x. ok x \<and> \<not> (adj_neighbor_id x = n \<and> adj_edge_id x \<in> loops)) inc))"
  unfolding collect_direction_def Let_def collect_first_pass by (cases dir) (simp_all add: collect_second_pass [OF assms refl])

lemma collect_exact:
  assumes "memtable_reach pv st w" and "walk_ok walk"
  shows "distinct (map nb_edge_id (collect_direction walk st hidden n dir filt 0 s))"
    and "set (collect_direction walk st hidden n dir filt 0 s) = incident st s hidden n dir filt"
proof -
  note at = reach_edge_index(4,5) [OF assms(1), where s = s and a = n]
  note id = reach_edge_ids [OF assms(1), where s = s]
  define out inc where "out = entries_at s (adj_entries walk (adj_out st) n)" and "inc = entries_at s (adj_entries walk (adj_in st) n)"
  have "adj_edge_id x = i" if "nested_at (adj_out st) s (n, i) = Some x" for i x using that id unfolding at(1) by auto
  from adj_entries_at [OF assms(2), of "adj_out st" s n, OF this] have out: "set out = {x. \<exists>i e. edge_at st i s = Some e \<and> e_from e = n \<and> x = adj_out_entry e}"
      "distinct (map adj_edge_id out)"
    unfolding out_def at(1) by simp_all
  have "adj_edge_id x = i" if "nested_at (adj_in st) s (n, i) = Some x" for i x using that id unfolding at(2) by auto
  from adj_entries_at [OF assms(2), of "adj_in st" s n, OF this] have inc: "set inc = {x. \<exists>i e. edge_at st i s = Some e \<and> e_to e = n \<and> x = adj_in_entry e}"
      "distinct (map adj_edge_id inc)"
    unfolding inc_def at(2) by simp_all
  have self: "x \<in> set out" if "x \<in> set inc" "adj_neighbor_id x = n" for x
  proof -
    from that obtain i e where e: "edge_at st i s = Some e" "e_to e = n" "x = adj_in_entry e" unfolding inc(1) by blast
    with that(2) have "e_from e = n" by simp
    with e loop_entry [of e] show ?thesis unfolding out(1) by auto
  qed
  have shared: "adj_neighbor_id y = n" if "x \<in> set out" "y \<in> set inc" "adj_edge_id x = adj_edge_id y" for x y
  proof -
    from that obtain i e j f where e: "edge_at st i s = Some e" "e_from e = n" "x = adj_out_entry e"
      and f: "edge_at st j s = Some f" "y = adj_in_entry f" unfolding out(1) inc(1) by blast
    with that(3) have "j = i" using id [OF e(1)] id [OF f(1)] by simp
    with e f show ?thesis by simp
  qed
  let ?ok = "allowed hidden filt"
  let ?inc' = "filter (\<lambda>x. ?ok x \<and> \<not> (adj_neighbor_id x = n \<and>
      adj_edge_id x \<in> {adj_edge_id x |x. x \<in> set (filter ?ok out) \<and> adj_neighbor_id x = n})) inc"
  have merged: "distinct (map adj_edge_id (filter ?ok out @ ?inc'))" "set (filter ?ok out @ ?inc') = {x \<in> set out \<union> set inc. ?ok x}"
    by (rule merge_passes [OF out(2) inc(2)]; use self shared in blast)+
  note lists = collect_lists [OF inc(2) [unfolded inc_def], of hidden dir filt, folded out_def inc_def, unfolded Let_def]
  have "distinct (map adj_edge_id (filter (allowed hidden filt) out))" "distinct (map adj_edge_id (filter (allowed hidden filt) inc))"
    using out(2) inc(2) by (simp_all add: distinct_map inj_on_def)
  with merged(1) show "distinct (map nb_edge_id (collect_direction walk st hidden n dir filt 0 s))"
    unfolding lists map_map by (cases dir) (simp_all add: comp_def)
  show "set (collect_direction walk st hidden n dir filt 0 s) = incident st s hidden n dir filt"
  proof (cases dir)
    case Both
    have "set (collect_direction walk st hidden n dir filt 0 s) = neighbor_of ` {x \<in> set out \<union> set inc. allowed hidden filt x}"
      unfolding lists unfolding Both direction.case set_map merged(2) ..
    then show ?thesis unfolding incident_def Both out(1) inc(1) by blast
  next
    case Outgoing
    then show ?thesis unfolding lists incident_def unfolding Outgoing direction.case set_map set_filter out(1) by blast
  next
    case Incoming
    then show ?thesis unfolding lists incident_def unfolding Incoming direction.case set_map set_filter inc(1) by blast
  qed
qed

lemma collect_direction_limit:
  "collect_direction walk st hidden n dir filt k s =
     (if k = 0 then collect_direction walk st hidden n dir filt 0 s
      else take k (collect_direction walk st hidden n dir filt 0 s))"
proof (cases "k = 0")
  case False
  then have k: "0 < k" by simp
  let ?c = "\<lambda>k d m. adj_collect hidden filt n k s d (adj_entries walk m n)"
  note one = collect_limit [OF k, of "[]" hidden filt n s False _ "{}", simplified]
  show ?thesis
  proof (cases dir)
    case Both
    let ?r = "?c 0 False (adj_out st) ({}, [])"
    obtain loops rs where r: "?r = (loops, rs)" by (cases ?r)
    show ?thesis
    proof (cases "length rs < k")
      case True
      then have "?c k False (adj_out st) ({}, []) = (loops, rs)" using one r by simp
      with True r collect_limit [OF k, of rs] Both False show ?thesis by (simp add: collect_direction_def)
    next
      case full: False
      obtain loops' rs' where r': "?c k False (adj_out st) ({}, []) = (loops', rs')" by (cases "?c k False (adj_out st) ({}, [])")
      have rs': "rs' = take k rs" "length rs' = k" using one r r' full by (metis snd_conv, metis snd_conv length_take min_absorb2 not_less)
      have "snd (?c k True (adj_in st) (loops', rs')) = rs'"
        using rs'(2) k by (cases "adj_entries walk (adj_in st) n") auto
      moreover obtain more where "snd (?c 0 True (adj_in st) (loops, rs)) = rs @ more" using collect_extends by blast
      ultimately show ?thesis using Both False r r' rs'(1) full by (simp add: collect_direction_def)
    qed
  qed (use False one in \<open>simp_all add: collect_direction_def\<close>)
qed simp

end
