(* ===== verification/Segment_Neighbors.thy ===== *)
theory Segment_Neighbors
  imports Segment_Adjacency_Exact Memtable_Adjacency
begin

text \<open>
  The neighbours a segment answers, with and without a limit, and that a flushed memtable and the
  segment written from it answer the same.
\<close>

section \<open>Answers of a segment\<close>

definition shown :: "segment_reader \<Rightarrow> (u32 \<times> adjacency_posting) list \<Rightarrow> (u32 \<times> adjacency_posting) list" where
  "shown sr xs = filter (\<lambda>(_, p). \<not> hidden_posting sr p) xs"

definition posting_neighbor :: "u32 \<times> adjacency_posting \<Rightarrow> neighbor_record" where
  "posting_neighbor x = (case x of (l, p) \<Rightarrow> neighbor_of_posting l p)"

definition self_loop :: "u64 \<Rightarrow> u32 \<times> adjacency_posting \<Rightarrow> bool" where
  "self_loop n x = (case x of (_, _, neighbor_id, _) \<Rightarrow> neighbor_id = n)"

definition posting_edge :: "u32 \<times> adjacency_posting \<Rightarrow> u64" where
  "posting_edge x = fst (snd x)"

definition skipped :: "collect_options \<Rightarrow> u32 \<times> adjacency_posting \<Rightarrow> bool" where
  "skipped opts x \<longleftrightarrow> self_loop (co_node_id opts) x \<and> (case co_skip opts of Some skip \<Rightarrow> posting_edge x |\<in>| skip | None \<Rightarrow> False)"

text \<open>One posting, as one step on the recorded loops, the budget and the results.\<close>

lemma collect_posting_step:
  "collect_posting sr opts l p (loops, budget, rs) =
     (if hidden_posting sr p then (loops, budget, rs)
      else if skipped opts (l, p) then (loops, map_option (\<lambda>r. r - 1) budget, rs)
      else (if self_loop (co_node_id opts) (l, p) \<and> co_record opts then finsert (posting_edge (l, p)) loops else loops,
            map_option (\<lambda>r. r - 1) budget, rs @ [posting_neighbor (l, p)]))"
  by (cases p) (auto simp: collect_posting_def skipped_def self_loop_def posting_edge_def posting_neighbor_def Let_def split: option.split)

definition new_loops :: "collect_options \<Rightarrow> (u32 \<times> adjacency_posting) list \<Rightarrow> u64 fset" where
  "new_loops opts xs = (if co_record opts then fset_of_list (map posting_edge (filter (\<lambda>x. self_loop (co_node_id opts) x \<and> \<not> skipped opts x) xs)) else {||})"

lemma new_loops_Cons:
  "new_loops opts (x # xs) = (if self_loop (co_node_id opts) x \<and> \<not> skipped opts x \<and> co_record opts then finsert (posting_edge x) (new_loops opts xs) else new_loops opts xs)"
  by (simp add: new_loops_def)

lemma shown_Cons: "shown sr ((l, p) # xs) = (if hidden_posting sr p then shown sr xs else (l, p) # shown sr xs)"
  by (simp add: shown_def)

lemma collect_unlimited:
  "co_limit opts = 0 \<Longrightarrow> collect_list sr opts xs (loops, None, rs) =
     (loops |\<union>| new_loops opts (shown sr xs), None, rs @ map posting_neighbor (filter (\<lambda>x. \<not> skipped opts x) (shown sr xs)))"
proof (induction xs arbitrary: loops rs)
  case (Cons x xs)
  obtain l p where x: "x = (l, p)" by (cases x)
  have step: "collect_list sr opts (x # xs) (loops, None, rs) = collect_list sr opts xs (collect_posting sr opts l p (loops, None, rs))"
    using Cons.prems x by (simp add: collect_full_def)
  show ?case
    unfolding step collect_posting_step
    using Cons.IH [OF Cons.prems] x by (auto simp: shown_Cons new_loops_Cons simp del: skipped_def)
qed (simp add: new_loops_def shown_def)

lemma collect_budget:
  "snd (snd (collect_list sr opts xs (loops, Some r, rs))) =
     rs @ map posting_neighbor (filter (\<lambda>x. \<not> skipped opts x) (take r (shown sr xs)))"
proof (induction xs arbitrary: loops r rs)
  case (Cons x xs)
  obtain l p where x: "x = (l, p)" by (cases x)
  show ?case
  proof (cases r)
    case 0
    then show ?thesis by (simp add: x collect_full_def)
  next
    case (Suc r')
    have step: "collect_list sr opts (x # xs) (loops, Some r, rs) = collect_list sr opts xs (collect_posting sr opts l p (loops, Some r, rs))"
      using Suc x by (simp add: collect_full_def)
    show ?thesis unfolding step collect_posting_step using Cons.IH x Suc by (auto simp: shown_Cons)
  qed
qed (simp add: shown_def)

lemma collect_limited:
  assumes "co_limit opts = k" and "0 < k" and "co_skip opts = None" and "length rs \<le> k"
  shows "snd (snd (collect_list sr opts xs (loops, None, rs))) = take k (rs @ map posting_neighbor (shown sr xs)) \<and>
    (length (rs @ map posting_neighbor (shown sr xs)) < k \<longrightarrow>
      fst (collect_list sr opts xs (loops, None, rs)) = loops |\<union>| new_loops opts (shown sr xs))"
  using assms(4)
proof (induction xs arbitrary: loops rs)
  case (Cons x xs)
  obtain l p where x: "x = (l, p)" by (cases x)
  have skip: "\<not> skipped opts y" for y using assms(3) by (simp add: skipped_def)
  show ?case
  proof (cases "length rs = k")
    case True
    then show ?thesis using x assms(1,2) by (simp add: collect_full_def)
  next
    case False
    then have step: "collect_list sr opts (x # xs) (loops, None, rs) = collect_list sr opts xs (collect_posting sr opts l p (loops, None, rs))"
      using Cons.prems x assms(1) by (simp add: collect_full_def)
    have more: "take (k - length rs) (y # ys) = y # take (k - Suc (length rs)) ys" for y :: neighbor_record and ys
      using False Cons.prems by (simp add: take_Cons')
    show ?thesis unfolding step collect_posting_step using Cons.IH Cons.prems False x by (auto simp: shown_Cons new_loops_Cons skip more)
  qed
qed (use assms in \<open>simp_all add: shown_def new_loops_def\<close>)

text \<open>Both directions report a self loop once.\<close>

definition segment_answer ::
    "segment_reader \<Rightarrow> adjacency_group_plan list \<Rightarrow> adjacency_group_plan list \<Rightarrow> u64 \<Rightarrow> direction \<Rightarrow> u32 list option \<Rightarrow> neighbor_record list" where
  "segment_answer sr out_plan in_plan n dir filt =
     (let out = shown sr (node_postings filt out_plan n); inc = shown sr (node_postings filt in_plan n);
          loops = posting_edge ` set (filter (self_loop n) out)
      in map posting_neighbor (case dir of Outgoing \<Rightarrow> out | Incoming \<Rightarrow> inc
         | Both \<Rightarrow> out @ filter (\<lambda>x. \<not> (self_loop n x \<and> posting_edge x \<in> loops)) inc))"

definition adjacency_files :: "adjacency_group_plan list \<Rightarrow> adjacency_group_plan list \<Rightarrow> segment_reader \<Rightarrow> bool" where
  "adjacency_files out_plan in_plan sr \<longleftrightarrow>
     adjacency_written out_plan (sr_adj_out_idx sr) (sr_adj_out_dat sr) \<and> adjacency_written in_plan (sr_adj_in_idx sr) (sr_adj_in_dat sr)"

lemma loops_of_out:
  "fset (new_loops \<lparr>co_node_id = n, co_labels = filt, co_limit = k, co_record = True, co_skip = None\<rparr> xs) = posting_edge ` set (filter (self_loop n) xs)"
  by (auto simp: new_loops_def skipped_def fset_of_list.rep_eq)

lemma segment_neighbors_unlimited:
  assumes "adjacency_files out_plan in_plan sr"
  shows "segment_neighbors sr n dir filt 0 = Inr (segment_answer sr out_plan in_plan n dir filt)"
proof -
  have w: "adjacency_written out_plan (sr_adj_out_idx sr) (sr_adj_out_dat sr)" "adjacency_written in_plan (sr_adj_in_idx sr) (sr_adj_in_dat sr)"
    using assms by (simp_all add: adjacency_files_def)
  show ?thesis
    by (cases dir) (simp_all add: segment_neighbors_def collect_written [OF w(1)] collect_written [OF w(2)] collect_unlimited
      segment_answer_def Let_def skipped_def loops_of_out)
qed

lemma filter_take_prefix: "\<exists>m \<le> r. filter P (take r xs) = take m (filter P xs)"
proof (intro exI conjI)
  show "length (filter P (take r xs)) \<le> r" by (rule order_trans [OF length_filter_le]) simp
  show "filter P (take r xs) = take (length (filter P (take r xs))) (filter P xs)"
    by (subst (3) append_take_drop_id [of r xs, symmetric]) (simp only: filter_append, simp)
qed

lemma segment_neighbors_prefix:
  assumes "adjacency_files out_plan in_plan sr" and "0 < k"
  shows "\<exists>m \<le> k. segment_neighbors sr n dir filt k = Inr (take m (segment_answer sr out_plan in_plan n dir filt)) \<and> (dir \<noteq> Both \<longrightarrow> m = k)"
proof -
  have w: "adjacency_written out_plan (sr_adj_out_idx sr) (sr_adj_out_dat sr)" "adjacency_written in_plan (sr_adj_in_idx sr) (sr_adj_in_dat sr)"
    using assms by (simp_all add: adjacency_files_def)
  note written = collect_written [OF w(1)] collect_written [OF w(2)]
  show ?thesis
  proof (cases "dir = Both")
    case False
    have "snd (snd (collect_list sr \<lparr>co_node_id = n, co_labels = filt, co_limit = k, co_record = False, co_skip = None\<rparr> xs ({||}, None, []))) =
        take k (map posting_neighbor (shown sr xs))" for xs
      using collect_limited [of _ k "[]"] assms(2) by simp
    with False show ?thesis
      by (intro exI [of _ k]) (cases dir; simp add: segment_neighbors_def written segment_answer_def Let_def split_beta)
  next
    case True
    let ?out = "shown sr (node_postings filt out_plan n)" and ?inc = "shown sr (node_postings filt in_plan n)"
    let ?first = "\<lparr>co_node_id = n, co_labels = filt, co_limit = k, co_record = True, co_skip = None\<rparr>"
    obtain loops b found where first: "collect_list sr ?first (node_postings filt out_plan n) ({||}, None, []) = (loops, b, found)"
      by (metis prod_cases3)
    have found: "found = take k (map posting_neighbor ?out)" and loops: "length ?out < k \<Longrightarrow> loops = new_loops ?first ?out"
      using collect_limited [of ?first k "[]" sr "node_postings filt out_plan n" "{||}"] first assms(2) by simp_all
    show ?thesis
    proof (cases "length ?out < k")
      case False
      then have "length found = k" using found by simp
      with False True found first assms(2) show ?thesis
        by (intro exI [of _ k]) (simp add: segment_neighbors_def written segment_answer_def Let_def)
    next
      case small: True
      let ?second = "?first\<lparr>co_record := False, co_limit := 0, co_skip := Some loops\<rparr>"
      have short: "length found < k" and every: "found = map posting_neighbor ?out" using small found by simp_all
      then have run: "segment_neighbors sr n dir filt k =
          Inr (found @ map posting_neighbor (filter (\<lambda>x. \<not> skipped ?second x) (take (k - length found) ?inc)))"
        using True first assms(2) collect_budget [of sr ?second "node_postings filt in_plan n" "{||}" "k - length found" found]
        by (simp add: segment_neighbors_def written Let_def split_beta)
      obtain m where m: "m \<le> k - length found" "filter (\<lambda>x. \<not> skipped ?second x) (take (k - length found) ?inc) =
          take m (filter (\<lambda>x. \<not> skipped ?second x) ?inc)" using filter_take_prefix by blast
      have "segment_answer sr out_plan in_plan n dir filt = found @ map posting_neighbor (filter (\<lambda>x. \<not> skipped ?second x) ?inc)"
        using True every loops [OF small] by (simp add: segment_answer_def Let_def skipped_def loops_of_out)
      with run m True short show ?thesis
        by (intro exI [of _ "length found + m"]) (simp add: take_map)
    qed
  qed
qed

end
