(* ===== verification/Segment_Flush.thy ===== *)
theory Segment_Flush
  imports Segment_Neighbors Memtable_Scans "HOL-Library.Multiset"
begin

text \<open>
  From a memtable to the adjacency files of a segment: the groups the writer makes are in order and
  hold exactly the current entries of the memtable.
\<close>

section \<open>Exports of a memtable\<close>

lemma lookup_map_filter:
  assumes "distinct (map fst es)"
  shows "fmlookup (fmap_of_list (List.map_filter (\<lambda>(k, v). map_option (Pair k) (f k v)) es)) k = Option.bind (map_of es k) (f k)"
proof -
  have "map_of (List.map_filter (\<lambda>(k, v). map_option (Pair k) (f k v)) es) k = Option.bind (map_of es k) (f k)"
    using assms
  proof (induction es)
    case (Cons e es)
    obtain a b where e: "e = (a, b)" by (cases e)
    have "map_of es a = None" using Cons.prems e by (auto simp: map_of_eq_None_iff)
    then show ?case using Cons e by (cases "f a b") (auto simp: List.map_filter_simps)
  qed (simp add: List.map_filter_simps)
  then show ?thesis by (simp add: fmlookup_of_list)
qed

lemma map_of_btree_entries: "map_of (btree_entries m) k = fmlookup m k"
proof -
  have "distinct (map fst (btree_entries m))" by (simp add: btree_entries_def comp_def sorted_list_of_fset.rep_eq)
  then show ?thesis
    using set_btree_entries [of m] by (cases "fmlookup m k") (auto simp: map_of_eq_None_iff intro!: map_of_is_SomeI)
qed

lemma distinct_btree_keys: "distinct (map fst (btree_entries m))"
  by (simp add: btree_entries_def comp_def sorted_list_of_fset.rep_eq)

lemmas lookup_entries = lookup_map_filter [OF distinct_btree_keys, unfolded map_of_btree_entries]

lemma current_members_lookup: "fmlookup (current_members m) k = opt_at m U64_MAX k"
  by (simp add: current_members_def lookup_entries opt_at_def slot_option_current_at [abs_def])

lemma lookup_current:
  "fmlookup (current_nodes st) i = node_at st i U64_MAX" "fmlookup (current_edges st) i = edge_at st i U64_MAX"
  by (simp_all add: current_nodes_def current_edges_def lookup_entries node_at_def edge_at_def record_at_def record_current_at [abs_def])

lemma lookup_deleted:
  "fmlookup (deleted_nodes st) i = node_tombstone_current st i" "fmlookup (deleted_edges st) i = edge_tombstone_current st i"
  by (auto simp: deleted_nodes_def deleted_edges_def lookup_entries node_tombstone_current_def edge_tombstone_current_def
      split: Option.bind_splits)

lemma non_empty_groups_lookup:
  "fmlookup (non_empty_groups f m) k = (case fmlookup m k of Some inner \<Rightarrow> if f inner = fmempty then None else Some (f inner) | None \<Rightarrow> None)"
proof -
  have eq: "filter (\<lambda>(_, v). v \<noteq> fmempty) (map (\<lambda>(k, v). (k, f v)) es) =
      List.map_filter (\<lambda>(k, v). map_option (Pair k) (if f v = fmempty then None else Some (f v))) es" for es
    by (induction es) (auto simp: List.map_filter_simps)
  show ?thesis unfolding non_empty_groups_def eq lookup_entries by (simp split: option.split)
qed

lemma current_adj_lookup:
  "(\<exists>es. fmlookup (current_adj_map src) n = Some es \<and> fmlookup es i = Some x) \<longleftrightarrow> nested_at src U64_MAX (n, i) = Some x"
  by (auto simp: current_adj_map_def non_empty_groups_lookup current_members_lookup nested_at_def split: option.splits if_splits)
    (metis current_members_lookup fmempty_lookup option.distinct(1))

section \<open>The plan\<close>

lemma hash_entries_set: "walk_ok walk \<Longrightarrow> set (hash_entries walk m) = {(k, v). fmlookup m k = Some v}"
  by (force simp: walk_ok_def hash_entries_def fmlookup_dom_iff)

lemma hash_keys: "walk_ok walk \<Longrightarrow> distinct (map fst (hash_entries walk m))"
  by (simp add: walk_ok_def hash_entries_def comp_def)

definition keyed_adj :: "(u64, (u64, adj_entry) fmap) fmap \<Rightarrow> bool" where
  "keyed_adj adj \<longleftrightarrow> (\<forall>n es i x. fmlookup adj n = Some es \<longrightarrow> fmlookup es i = Some x \<longrightarrow> adj_edge_id x = i)"

definition adj_values :: "(u64, (u64, adj_entry) fmap) fmap \<Rightarrow> u64 \<Rightarrow> adj_entry set" where
  "adj_values adj n = {x. \<exists>es i. fmlookup adj n = Some es \<and> fmlookup es i = Some x}"

abbreviation group_triple :: "adjacency_group_plan \<Rightarrow> u64 \<times> u32 \<times> adjacency_posting list" where
  "group_triple g \<equiv> (gp_node_id g, gp_label_id g, gp_postings g)"

lemma place_groups_triples: "map group_triple (place_groups off gs) = gs"
  by (induction off gs rule: place_groups.induct) auto

lemma place_groups_offsets:
  "i < length gs \<Longrightarrow> gp_offset (place_groups off gs ! i) = off + of_nat (length (concat (map group_bytes (take i (place_groups off gs)))))"
proof (induction off gs arbitrary: i rule: place_groups.induct)
  case (2 off n l ps rest)
  then show ?case by (cases i) (auto simp: group_bytes_def length_group_bytes [symmetric] algebra_simps)
qed simp

lemma set_label_groups:
  "x \<in> set (label_groups n es) \<longleftrightarrow> fst x = n \<and> fst (snd x) \<in> adj_label_id ` set es \<and>
     snd (snd x) = sort_key fst (map posting_of (filter (\<lambda>e. adj_label_id e = fst (snd x)) es))"
  by (cases x) (auto simp: label_groups_def)

lemma set_adjacency_groups:
  assumes "walk_ok walk"
  shows "x \<in> set (adjacency_groups walk adj) \<longleftrightarrow>
    (\<exists>es. fmlookup adj (fst x) = Some es \<and> x \<in> set (label_groups (fst x) (map snd (hash_entries walk es))))"
proof -
  have "x \<in> set (adjacency_groups walk adj) \<longleftrightarrow> (\<exists>n es. fmlookup adj n = Some es \<and> x \<in> set (label_groups n (map snd (hash_entries walk es))))"
    by (simp add: adjacency_groups_def hash_entries_set [OF assms])
  then show ?thesis unfolding set_label_groups by blast
qed

lemma hash_values: "walk_ok walk \<Longrightarrow> set (map snd (hash_entries walk es)) = {x. \<exists>i. fmlookup es i = Some x}"
  by (force simp: hash_entries_set)

lemma group_triples: "map group_triple (prepare_adjacency_payloads walk adj) = adjacency_groups walk adj"
  by (simp add: prepare_adjacency_payloads_def place_groups_triples)

lemma in_plan:
  assumes "g \<in> set (prepare_adjacency_payloads walk adj)"
  shows "group_triple g \<in> set (adjacency_groups walk adj)"
  unfolding group_triples [symmetric] using assms by simp

lemma sorted_plan: "sorted (map gp_node_id (prepare_adjacency_payloads walk adj))"
proof -
  have "sorted (map (\<lambda>(n, l, _). (n, l)) (adjacency_groups walk adj))" by (simp add: adjacency_groups_def)
  then have "sorted_wrt (\<lambda>a b. fst a \<le> fst b) (adjacency_groups walk adj)"
    unfolding sorted_map by (rule sorted_wrt_mono_rel [rotated]) (auto simp: less_eq_prod_def)
  then have "sorted_wrt (\<lambda>a b. fst a \<le> fst b) (map group_triple (prepare_adjacency_payloads walk adj))"
    by (simp only: group_triples)
  then show ?thesis by (simp add: sorted_wrt_map sorted_map)
qed

lemma plan_written:
  assumes walk: "walk_ok walk" and plan: "plan = prepare_adjacency_payloads walk adj"
    and idx: "idx = write_adjacency_index_payload plan" and dat: "dat = write_adjacency_postings_payload plan"
    and fits: "length idx < 2 ^ 64" "length dat < 2 ^ 64" and small: "\<And>n es. fmlookup adj n = Some es \<Longrightarrow> fcard (fmdom es) < 2 ^ 32"
  shows "adjacency_written plan idx dat"
  unfolding adjacency_written_def
proof (intro conjI ballI allI impI)
  fix g assume "g \<in> set plan"
  then have "group_triple g \<in> set (adjacency_groups walk adj)" unfolding plan by (rule in_plan)
  then obtain es where es: "fmlookup adj (gp_node_id g) = Some es" "group_triple g \<in> set (label_groups (gp_node_id g) (map snd (hash_entries walk es)))"
    unfolding set_adjacency_groups [OF walk] by auto
  then have ps: "gp_postings g = sort_key fst (map posting_of (filter (\<lambda>e. adj_label_id e = gp_label_id g) (map snd (hash_entries walk es))))"
    unfolding set_label_groups by simp
  show "sorted (map fst (gp_postings g))" unfolding ps by simp
  have "length (gp_postings g) \<le> length (hash_entries walk es)" unfolding ps by (simp add: le_trans [OF length_filter_le])
  also have "\<dots> = fcard (fmdom es)"
    using walk by (simp add: hash_entries_def walk_ok_def fcard.rep_eq distinct_card [symmetric])
  finally show "length (gp_postings g) < 2 ^ 32" using small [OF es(1)] by simp
next
  show "sorted (map gp_node_id plan)" unfolding plan by (rule sorted_plan)
  fix i assume i: "i < length plan"
  have "length plan = length (adjacency_groups walk adj)" unfolding plan group_triples [symmetric] by simp
  then have off: "gp_offset (plan ! i) = of_nat (length (concat (map group_bytes (take i plan))))"
    using place_groups_offsets [of i "adjacency_groups walk adj" 0] i by (simp add: plan prepare_adjacency_payloads_def)
  have "dat = concat (map group_bytes (take i plan)) @ concat (map group_bytes (drop i plan))"
    unfolding dat write_adjacency_postings_payload_def group_bytes_def [abs_def, symmetric]
    by (subst append_take_drop_id [of i plan, symmetric]) (simp only: map_append concat_append)
  then have "length (concat (map group_bytes (take i plan))) < 2 ^ 64" using fits(2) by simp
  then show "unat (gp_offset (plan ! i)) = starts 0 group_bytes plan i" unfolding off starts_def by (simp add: unat_of_nat take_bit_eq_mod)
qed (use idx dat fits in auto)

text \<open>What the plan holds for a node.\<close>

lemma set_group_list: "set (group_list g) = (\<lambda>p. (gp_label_id g, read_back p)) ` set (gp_postings g)"
  by (simp add: group_list_def)

lemma ball_plan:
  "(\<exists>g \<in> set (prepare_adjacency_payloads walk adj). P (gp_node_id g) (gp_label_id g) (gp_postings g)) \<longleftrightarrow>
     (\<exists>x \<in> set (adjacency_groups walk adj). P (fst x) (fst (snd x)) (snd (snd x)))"
  unfolding group_triples [of walk adj, symmetric] by simp

lemma label_group_postings:
  "(\<exists>x \<in> set (label_groups n es). fst x = n \<and> \<not> label_excluded filt (fst (snd x)) \<and> l = fst (snd x) \<and> q \<in> read_back ` set (snd (snd x))) \<longleftrightarrow>
     \<not> label_excluded filt l \<and> (\<exists>e \<in> set es. adj_label_id e = l \<and> q = read_back (posting_of e))"
  by (auto simp: label_groups_def)

lemma set_node_postings:
  assumes walk: "walk_ok walk"
  shows "set (node_postings filt (prepare_adjacency_payloads walk adj) n) =
    (\<lambda>e. (adj_label_id e, read_back (posting_of e))) ` {e \<in> adj_values adj n. \<not> label_excluded filt (adj_label_id e)}"
proof -
  have "(l, q) \<in> set (node_postings filt (prepare_adjacency_payloads walk adj) n) \<longleftrightarrow>
      (\<exists>g \<in> set (prepare_adjacency_payloads walk adj). gp_node_id g = n \<and> \<not> label_excluded filt (gp_label_id g) \<and> l = gp_label_id g \<and>
        q \<in> read_back ` set (gp_postings g))" for l q
    by (auto simp: node_postings_def listed_def set_group_list)
  also have "\<dots> l q \<longleftrightarrow> (\<exists>x \<in> set (adjacency_groups walk adj). fst x = n \<and> \<not> label_excluded filt (fst (snd x)) \<and> l = fst (snd x) \<and>
      q \<in> read_back ` set (snd (snd x)))" for l q
    by (rule ball_plan [of _ _ "\<lambda>m k ps. m = n \<and> \<not> label_excluded filt k \<and> l = k \<and> q \<in> read_back ` set ps"])
  also have "\<dots> l q \<longleftrightarrow> (\<exists>es. fmlookup adj n = Some es \<and> (\<exists>x \<in> set (label_groups n (map snd (hash_entries walk es))).
      fst x = n \<and> \<not> label_excluded filt (fst (snd x)) \<and> l = fst (snd x) \<and> q \<in> read_back ` set (snd (snd x))))" for l q
    unfolding Bex_def set_adjacency_groups [OF walk] by blast
  finally show ?thesis unfolding label_group_postings hash_values [OF walk] adj_values_def by (auto simp: set_eq_iff)
qed

lemma distinct_concat_map:
  assumes "distinct xs" and "\<And>x. x \<in> set xs \<Longrightarrow> distinct (f x)"
    and "\<And>x y. x \<in> set xs \<Longrightarrow> y \<in> set xs \<Longrightarrow> x \<noteq> y \<Longrightarrow> set (f x) \<inter> set (f y) = {}"
  shows "distinct (concat (map f xs))"
  using assms
proof (induction xs)
  case (Cons x xs)
  have "set (f x) \<inter> set (f y) = {}" if "y \<in> set xs" for y using Cons.prems(1) Cons.prems(3) [of x y] that by auto
  then show ?case using Cons by auto
qed simp

lemma distinct_group_keys:
  assumes walk: "walk_ok walk"
  shows "distinct (map group_key (prepare_adjacency_payloads walk adj))"
proof -
  let ?key = "\<lambda>x :: u64 \<times> u32 \<times> adjacency_posting list. (fst x, fst (snd x))"
  let ?lists = "map (\<lambda>(n, es). map ?key (label_groups n (map snd (hash_entries walk es)))) (hash_entries walk adj)"
  have "distinct (concat ?lists)"
  proof (rule distinct_concat_map)
    show "distinct (hash_entries walk adj)" using hash_keys [OF walk, of adj] by (simp add: distinct_map)
    fix x y assume x: "x \<in> set (hash_entries walk adj)"
    obtain n es where ne: "x = (n, es)" by (cases x)
    have "map ?key (label_groups n vs) = map (Pair n) (remdups (map adj_label_id vs))" for vs by (simp add: label_groups_def)
    then show "distinct (case x of (n, es) \<Rightarrow> map ?key (label_groups n (map snd (hash_entries walk es))))"
      using ne by (simp add: distinct_map inj_on_def)
    assume y: "y \<in> set (hash_entries walk adj)" and "x \<noteq> y"
    then have "fst x \<noteq> fst y" using x hash_keys [OF walk, of adj] by (auto simp: distinct_map inj_on_def)
    then show "set (case x of (n, es) \<Rightarrow> map ?key (label_groups n (map snd (hash_entries walk es)))) \<inter>
        set (case y of (n, es) \<Rightarrow> map ?key (label_groups n (map snd (hash_entries walk es)))) = {}"
      by (auto simp: label_groups_def split: prod.splits)
  qed
  moreover have same: "mset (map ?key (adjacency_groups walk adj)) =
      mset (map ?key (concat (map (\<lambda>(n, es). label_groups n (map snd (hash_entries walk es))) (hash_entries walk adj))))"
    by (simp only: adjacency_groups_def mset_map mset_sort)
  moreover have "map ?key (concat (map (\<lambda>(n, es). label_groups n (map snd (hash_entries walk es))) (hash_entries walk adj))) = concat ?lists"
    by (simp add: map_concat case_prod_unfold comp_def)
  ultimately have "distinct (map ?key (adjacency_groups walk adj))" using mset_eq_imp_distinct_iff [OF same] by simp
  then show ?thesis unfolding group_triples [symmetric] by (simp add: comp_def group_key_def [abs_def])
qed

lemma distinct_node_postings:
  assumes walk: "walk_ok walk" and keyed: "keyed_adj adj"
  shows "distinct (map fst (map snd (node_postings filt (prepare_adjacency_payloads walk adj) n)))"
proof -
  let ?plan = "prepare_adjacency_payloads walk adj"
  let ?gs = "filter (\<lambda>g. \<not> label_excluded filt (gp_label_id g)) (filter (\<lambda>g. gp_node_id g = n) ?plan)"
  have entry: "\<exists>es. fmlookup adj (gp_node_id g) = Some es \<and> gp_postings g =
      sort_key fst (map posting_of (filter (\<lambda>e. adj_label_id e = gp_label_id g) (map snd (hash_entries walk es))))" if "g \<in> set ?plan" for g
    using in_plan [OF that] unfolding set_adjacency_groups [OF walk] set_label_groups by auto
  have edge: "\<exists>es x. fmlookup adj (gp_node_id g) = Some es \<and> fmlookup es i = Some x \<and> adj_label_id x = gp_label_id g"
    if g: "g \<in> set ?plan" and i: "i \<in> fst ` set (gp_postings g)" for g i
  proof -
    obtain es where es: "fmlookup adj (gp_node_id g) = Some es" "gp_postings g =
        sort_key fst (map posting_of (filter (\<lambda>e. adj_label_id e = gp_label_id g) (map snd (hash_entries walk es))))" using entry [OF g] by blast
    have "i \<in> adj_edge_id ` {x \<in> set (map snd (hash_entries walk es)). adj_label_id x = gp_label_id g}"
      using i unfolding es(2) set_sort set_map set_filter image_image by (simp add: posting_of_def)
    then obtain x where x: "x \<in> set (map snd (hash_entries walk es))" "adj_label_id x = gp_label_id g" "i = adj_edge_id x" by blast
    then obtain j where "fmlookup es j = Some x" unfolding hash_values [OF walk] by blast
    with keyed es(1) x show ?thesis by (auto simp: keyed_adj_def)
  qed
  have "distinct (concat (map (\<lambda>g. map fst (gp_postings g)) ?gs))"
  proof (rule distinct_concat_map)
    show "distinct ?gs" using distinct_group_keys [OF walk, of adj] by (simp add: distinct_map)
    fix g h assume g: "g \<in> set ?gs"
    then obtain es where es: "fmlookup adj (gp_node_id g) = Some es" "gp_postings g =
        sort_key fst (map posting_of (filter (\<lambda>e. adj_label_id e = gp_label_id g) (map snd (hash_entries walk es))))" using entry by auto
    have "map adj_edge_id (map snd (hash_entries walk es)) = map fst (hash_entries walk es)"
      using keyed es(1) by (auto simp: keyed_adj_def hash_entries_set [OF walk])
    then have "distinct (map adj_edge_id (map snd (hash_entries walk es)))" by (simp only: hash_keys [OF walk])
    then have "distinct (map fst (map posting_of (filter (\<lambda>e. adj_label_id e = gp_label_id g) (map snd (hash_entries walk es)))))"
      unfolding map_map by (simp add: posting_of_def comp_def distinct_map_filter)
    moreover have "mset (map fst (sort_key fst ps)) = mset (map fst ps)" for ps :: "adjacency_posting list" by simp
    ultimately show "distinct (map fst (gp_postings g))" unfolding es(2) using mset_eq_imp_distinct_iff by blast
    assume h: "h \<in> set ?gs" and "g \<noteq> h"
    then have "gp_label_id g \<noteq> gp_label_id h"
      using g distinct_group_keys [OF walk, of adj] by (auto simp: distinct_map inj_on_def group_key_def)
    then show "set (map fst (gp_postings g)) \<inter> set (map fst (gp_postings h)) = {}"
      using edge [of g] edge [of h] g h by fastforce
  qed
  then show ?thesis by (simp add: node_postings_def listed_def group_list_def map_concat comp_def)
qed

section \<open>Neighbours before and after\<close>

text \<open>The adjacency and tombstones of the memtable \<open>st\<close> in a segment, within the widths of the length fields.\<close>

definition flushed_adjacency :: "walk \<Rightarrow> memtable_state \<Rightarrow> segment_reader \<Rightarrow> bool" where
  "flushed_adjacency walk st sr \<longleftrightarrow>
     (let out = prepare_adjacency_payloads walk (current_adj_map (adj_out st));
          inc = prepare_adjacency_payloads walk (current_adj_map (adj_in st))
      in sr_adj_out_idx sr = write_adjacency_index_payload out \<and> sr_adj_out_dat sr = write_adjacency_postings_payload out \<and>
         sr_adj_in_idx sr = write_adjacency_index_payload inc \<and> sr_adj_in_dat sr = write_adjacency_postings_payload inc \<and>
         sr_deleted_nodes sr = deleted_nodes st \<and> sr_deleted_edges sr = deleted_edges st)"

definition adjacency_fits :: "memtable_state \<Rightarrow> segment_reader \<Rightarrow> bool" where
  "adjacency_fits st sr \<longleftrightarrow>
     length (sr_adj_out_idx sr) < 2 ^ 64 \<and> length (sr_adj_out_dat sr) < 2 ^ 64 \<and>
     length (sr_adj_in_idx sr) < 2 ^ 64 \<and> length (sr_adj_in_dat sr) < 2 ^ 64 \<and>
     (\<forall>n. \<forall>es. fmlookup (current_adj_map (adj_out st)) n = Some es \<or> fmlookup (current_adj_map (adj_in st)) n = Some es \<longrightarrow> fcard (fmdom es) < 2 ^ 32)"

lemma adjacency_of_flush:
  assumes "walk_ok walk" and "flushed_adjacency walk st sr" and "adjacency_fits st sr"
  shows "adjacency_files (prepare_adjacency_payloads walk (current_adj_map (adj_out st)))
    (prepare_adjacency_payloads walk (current_adj_map (adj_in st))) sr"
  unfolding adjacency_files_def
proof
  show "adjacency_written (prepare_adjacency_payloads walk (current_adj_map (adj_out st))) (sr_adj_out_idx sr) (sr_adj_out_dat sr)"
    by (rule plan_written [OF assms(1) refl]) (use assms(2,3) in \<open>auto simp: flushed_adjacency_def adjacency_fits_def Let_def\<close>)
  show "adjacency_written (prepare_adjacency_payloads walk (current_adj_map (adj_in st))) (sr_adj_in_idx sr) (sr_adj_in_dat sr)"
    by (rule plan_written [OF assms(1) refl]) (use assms(2,3) in \<open>auto simp: flushed_adjacency_def adjacency_fits_def Let_def\<close>)
qed

lemma adj_values_current:
  assumes "memtable_reach pv st w"
  shows "adj_values (current_adj_map (adj_out st)) n = {x. \<exists>i e. edge_at st i U64_MAX = Some e \<and> e_from e = n \<and> x = adj_out_entry e}"
    and "adj_values (current_adj_map (adj_in st)) n = {x. \<exists>i e. edge_at st i U64_MAX = Some e \<and> e_to e = n \<and> x = adj_in_entry e}"
    and "keyed_adj (current_adj_map (adj_out st))" and "keyed_adj (current_adj_map (adj_in st))"
proof -
  note at = reach_edge_index(4,5) [OF assms, where s = U64_MAX] and id = reach_edge_ids [OF assms]
  have vals: "adj_values (current_adj_map src) n = {x. \<exists>i. nested_at src U64_MAX (n, i) = Some x}" for src
    unfolding adj_values_def current_adj_lookup [symmetric] by blast
  show "adj_values (current_adj_map (adj_out st)) n = {x. \<exists>i e. edge_at st i U64_MAX = Some e \<and> e_from e = n \<and> x = adj_out_entry e}"
    "adj_values (current_adj_map (adj_in st)) n = {x. \<exists>i e. edge_at st i U64_MAX = Some e \<and> e_to e = n \<and> x = adj_in_entry e}"
    unfolding vals at by blast+
  have keyed: "keyed_adj (current_adj_map src)" if "\<And>n i x. nested_at src U64_MAX (n, i) = Some x \<Longrightarrow> adj_edge_id x = i" for src
    using that unfolding keyed_adj_def current_adj_lookup [symmetric] by blast
  show "keyed_adj (current_adj_map (adj_out st))" "keyed_adj (current_adj_map (adj_in st))"
    by (rule keyed, use id at in auto)+
qed

lemma deleted_flags:
  assumes "memtable_reach pv st w"
  shows "node_tombstone_current st i \<noteq> None \<longleftrightarrow> node_deleted_at st i U64_MAX"
    and "edge_at st i U64_MAX = Some e \<Longrightarrow> edge_tombstone_current st i = None"
proof -
  have "node_indexes_ok (view st U64_MAX)" using reach_invariants [OF assms] by (simp add: store_ok_def)
  then have dead: "g_node_tombstones (view st U64_MAX) i = Some () \<longleftrightarrow> (\<exists>t. g_nodes (view st U64_MAX) i = Some (Tombstone t))"
    unfolding node_indexes_ok_def by blast
  have nodes: "g_nodes (view st U64_MAX) i = Option.bind (fmlookup (nodes st) i) (\<lambda>slot. record_at slot U64_MAX)"
    by (simp add: view_def rec_at_def record_at_def)
  have tomb: "g_node_tombstones (view st U64_MAX) i = Option.bind (fmlookup (node_tombstones st) i) slot_option_current"
    by (simp add: view_def opt_at_def slot_option_current_at [abs_def])
  show "node_tombstone_current st i \<noteq> None \<longleftrightarrow> node_deleted_at st i U64_MAX"
    unfolding node_deleted_at_view node_tombstone_current_def unit_option dead tomb [symmetric] nodes [symmetric]
    using dead by (cases "g_nodes (view st U64_MAX) i"; cases "g_node_tombstones (view st U64_MAX) i") (auto elim: tombstone_value.elims)
  show "edge_at st i U64_MAX = Some e \<Longrightarrow> edge_tombstone_current st i = None"
    by (auto simp: edge_at_def edge_tombstone_current_def split: Option.bind_splits elim!: live_value.elims)
qed

text \<open>A posting and its label say the same as an adjacency entry.\<close>

definition entry_of :: "u32 \<times> adjacency_posting \<Rightarrow> adj_entry" where
  "entry_of x = (case x of (l, e, n, w, vf, vt) \<Rightarrow>
     \<lparr>adj_edge_id = e, adj_label_id = l, adj_neighbor_id = n, adj_weight = w, adj_valid_from = vf, adj_valid_to = vt\<rparr>)"

lemma entry_of_simps:
  "adj_edge_id (entry_of x) = posting_edge x" "adj_neighbor_id (entry_of x) = n \<longleftrightarrow> self_loop n x"
  "neighbor_of (entry_of x) = posting_neighbor x" "entry_of (adj_label_id e, posting_of e) = e"
  by (cases x; simp add: entry_of_def posting_edge_def self_loop_def neighbor_of_def posting_neighbor_def neighbor_of_posting_def posting_of_def)+

lemma shown_entries:
  assumes walk: "walk_ok walk" and entries: "\<forall>x \<in> adj_values adj n. adj_valid_to x \<noteq> -1 \<and> (hidden_posting sr (posting_of x) \<longleftrightarrow> hidden (adj_neighbor_id x))"
    and es: "es = map entry_of (node_postings filt (prepare_adjacency_payloads walk adj) n)"
  shows "set es = {x \<in> adj_values adj n. \<not> label_excluded filt (adj_label_id x)}"
    and "map entry_of (shown sr (node_postings filt (prepare_adjacency_payloads walk adj) n)) = filter (allowed hidden filt) es"
    and "keyed_adj adj \<Longrightarrow> distinct (map adj_edge_id es)"
proof -
  let ?xs = "node_postings filt (prepare_adjacency_payloads walk adj) n"
  have same: "read_back (posting_of x) = posting_of x" if "x \<in> adj_values adj n" for x
    using entries that by (simp add: read_back_def posting_of_def)
  have xs: "set ?xs = (\<lambda>e. (adj_label_id e, posting_of e)) ` {e \<in> adj_values adj n. \<not> label_excluded filt (adj_label_id e)}"
    unfolding set_node_postings [OF walk] using same by auto
  show "set es = {x \<in> adj_values adj n. \<not> label_excluded filt (adj_label_id x)}"
    unfolding es set_map xs image_image entry_of_simps by simp
  have "\<not> hidden_posting sr (snd x) \<longleftrightarrow> allowed hidden filt (entry_of x)" if "x \<in> set ?xs" for x
    using that entries unfolding xs by (auto simp: entry_of_simps allowed_def)
  then have "shown sr ?xs = filter (\<lambda>x. allowed hidden filt (entry_of x)) ?xs"
    unfolding shown_def by (intro filter_cong) (auto simp: split_beta)
  then show "map entry_of (shown sr ?xs) = filter (allowed hidden filt) es" unfolding es by (simp add: filter_map comp_def)
  assume "keyed_adj adj"
  from distinct_node_postings [OF walk this, of filt n] show "distinct (map adj_edge_id es)"
    unfolding es map_map by (simp add: comp_def entry_of_simps posting_edge_def)
qed

text \<open>The answer of a flushed segment, as the merge of its two lists of entries.\<close>

lemma answer_entries:
  "segment_answer sr out_plan in_plan n dir filt =
     (let out = map entry_of (shown sr (node_postings filt out_plan n)); inc = map entry_of (shown sr (node_postings filt in_plan n));
          loops = {adj_edge_id x |x. x \<in> set out \<and> adj_neighbor_id x = n}
      in map neighbor_of (case dir of Outgoing \<Rightarrow> out | Incoming \<Rightarrow> inc
        | Both \<Rightarrow> out @ filter (\<lambda>x. \<not> (adj_neighbor_id x = n \<and> adj_edge_id x \<in> loops)) inc))"
proof -
  let ?out = "shown sr (node_postings filt out_plan n)"
  have "{adj_edge_id x |x. x \<in> set (map entry_of ?out) \<and> adj_neighbor_id x = n} =
      (\<lambda>x. adj_edge_id (entry_of x)) ` {x \<in> set ?out. adj_neighbor_id (entry_of x) = n}" unfolding set_map by blast
  then have loops: "{adj_edge_id x |x. x \<in> set (map entry_of ?out) \<and> adj_neighbor_id x = n} = posting_edge ` set (filter (self_loop n) ?out)"
    by (simp add: entry_of_simps)
  show ?thesis
    unfolding segment_answer_def Let_def loops by (cases dir) (simp_all add: filter_map comp_def entry_of_simps)
qed

lemma flush_neighbors:
  assumes reach: "memtable_reach pv st w" and walk: "walk_ok walk" and flushed: "flushed_adjacency walk st sr" and fits: "adjacency_fits st sr"
    and expiry: "\<And>i e. edge_at st i U64_MAX = Some e \<Longrightarrow> e_valid_to e \<noteq> -1"
  obtains answer where "segment_neighbors sr n dir filt 0 = Inr answer" and "distinct (map nb_edge_id answer)"
    and "set answer = incident st U64_MAX (\<lambda>i. node_deleted_at st i U64_MAX) n dir filt"
proof
  let ?hidden = "\<lambda>i. node_deleted_at st i U64_MAX" and ?O = "current_adj_map (adj_out st)" and ?I = "current_adj_map (adj_in st)"
  let ?ok = "allowed ?hidden filt"
  note vals = adj_values_current [OF reach] and flags = deleted_flags [OF reach] and ids = reach_edge_ids [OF reach]
  show "segment_neighbors sr n dir filt 0 = Inr (segment_answer sr (prepare_adjacency_payloads walk ?O) (prepare_adjacency_payloads walk ?I) n dir filt)"
    by (rule segment_neighbors_unlimited [OF adjacency_of_flush [OF walk flushed fits]])
  have del: "sr_deleted_nodes sr = deleted_nodes st" "sr_deleted_edges sr = deleted_edges st"
    using flushed by (simp_all add: flushed_adjacency_def Let_def)
  have hides: "hidden_posting sr (posting_of x) \<longleftrightarrow> ?hidden (adj_neighbor_id x)" if "edge_at st i U64_MAX = Some e" "adj_edge_id x = e_id e" for x i e
    using that flags(1) [of "adj_neighbor_id x"] flags(2) [OF that(1)] ids [OF that(1)]
    by (simp add: hidden_posting_def posting_of_def del fmlookup_dom_iff lookup_deleted)
  define es_o es_i where "es_o = map entry_of (node_postings filt (prepare_adjacency_payloads walk ?O) n)"
    and "es_i = map entry_of (node_postings filt (prepare_adjacency_payloads walk ?I) n)"
  have vo: "\<exists>i e. edge_at st i U64_MAX = Some e \<and> e_from e = n \<and> x = adj_out_entry e" if "x \<in> adj_values ?O n" for x using that unfolding vals by blast
  have vi: "\<exists>i e. edge_at st i U64_MAX = Some e \<and> e_to e = n \<and> x = adj_in_entry e" if "x \<in> adj_values ?I n" for x using that unfolding vals by blast
  have valid: "adj_valid_to (adj_out_entry e) = e_valid_to e" "adj_valid_to (adj_in_entry e) = e_valid_to e" for e
    by (simp_all add: adj_out_entry_def adj_in_entry_def)
  have "\<forall>x \<in> adj_values ?O n. adj_valid_to x \<noteq> -1 \<and> (hidden_posting sr (posting_of x) \<longleftrightarrow> ?hidden (adj_neighbor_id x))"
  proof
    fix x assume "x \<in> adj_values ?O n"
    from vo [OF this] obtain i e where e: "edge_at st i U64_MAX = Some e" "x = adj_out_entry e" by blast
    then have "adj_edge_id x = e_id e" by simp
    from hides [OF e(1) this] expiry [OF e(1)] e(2) show "adj_valid_to x \<noteq> -1 \<and> (hidden_posting sr (posting_of x) \<longleftrightarrow> ?hidden (adj_neighbor_id x))"
      by (simp add: valid)
  qed
  note out = shown_entries [OF walk this es_o_def]
  have "\<forall>x \<in> adj_values ?I n. adj_valid_to x \<noteq> -1 \<and> (hidden_posting sr (posting_of x) \<longleftrightarrow> ?hidden (adj_neighbor_id x))"
  proof
    fix x assume "x \<in> adj_values ?I n"
    from vi [OF this] obtain i e where e: "edge_at st i U64_MAX = Some e" "x = adj_in_entry e" by blast
    then have "adj_edge_id x = e_id e" by simp
    from hides [OF e(1) this] expiry [OF e(1)] e(2) show "adj_valid_to x \<noteq> -1 \<and> (hidden_posting sr (posting_of x) \<longleftrightarrow> ?hidden (adj_neighbor_id x))"
      by (simp add: valid)
  qed
  note inc = shown_entries [OF walk this es_i_def]
  have self: "x \<in> set es_o" if "x \<in> set es_i" "adj_neighbor_id x = n" for x
  proof -
    from that(1) obtain i e where e: "edge_at st i U64_MAX = Some e" "e_to e = n" "x = adj_in_entry e" "\<not> label_excluded filt (adj_label_id x)"
      unfolding inc(1) using vi [of x] by blast
    with that(2) have "e_from e = n" by simp
    with e loop_entry [of e] show ?thesis unfolding out(1) vals(1) by auto
  qed
  have shared: "adj_neighbor_id y = n" if "x \<in> set es_o" "y \<in> set es_i" "adj_edge_id x = adj_edge_id y" for x y
  proof -
    from that obtain i e j f where e: "edge_at st i U64_MAX = Some e" "e_from e = n" "x = adj_out_entry e"
      and f: "edge_at st j U64_MAX = Some f" "y = adj_in_entry f" unfolding out(1) inc(1) using vo [of x] vi [of y] by blast
    with that(3) have "j = i" using ids [OF e(1)] ids [OF f(1)] by simp
    with e f show ?thesis by simp
  qed
  let ?inc' = "filter (\<lambda>x. ?ok x \<and> \<not> (adj_neighbor_id x = n \<and>
      adj_edge_id x \<in> {adj_edge_id x |x. x \<in> set (filter ?ok es_o) \<and> adj_neighbor_id x = n})) es_i"
  have merged: "distinct (map adj_edge_id (filter ?ok es_o @ ?inc'))" "set (filter ?ok es_o @ ?inc') = {x \<in> set es_o \<union> set es_i. ?ok x}"
    by (rule merge_passes [OF out(3) [OF vals(3)] inc(3) [OF vals(4)]]; use self shared in blast)+
  have answer: "segment_answer sr (prepare_adjacency_payloads walk ?O) (prepare_adjacency_payloads walk ?I) n dir filt =
      map neighbor_of (case dir of Outgoing \<Rightarrow> filter ?ok es_o | Incoming \<Rightarrow> filter ?ok es_i | Both \<Rightarrow> filter ?ok es_o @ ?inc')"
    unfolding answer_entries out(2) inc(2) Let_def filter_filter by (simp add: conj_commute cong: direction.case_cong)
  show "distinct (map nb_edge_id (segment_answer sr (prepare_adjacency_payloads walk ?O) (prepare_adjacency_payloads walk ?I) n dir filt))"
    unfolding answer map_map comp_def neighbor_ids
    using merged(1) out(3) [OF vals(3)] inc(3) [OF vals(4)] by (cases dir) (simp_all add: distinct_map_filter)
  have sets: "set (filter ?ok es_o) = {x \<in> adj_values ?O n. ?ok x}" "set (filter ?ok es_i) = {x \<in> adj_values ?I n. ?ok x}"
    "{x \<in> set es_o \<union> set es_i. ?ok x} = {x \<in> adj_values ?O n \<union> adj_values ?I n. ?ok x}"
    unfolding set_filter out(1) inc(1) allowed_def by blast+
  show "set (segment_answer sr (prepare_adjacency_payloads walk ?O) (prepare_adjacency_payloads walk ?I) n dir filt) =
      incident st U64_MAX ?hidden n dir filt"
  proof (cases dir)
    case Outgoing
    show ?thesis unfolding answer incident_def unfolding Outgoing direction.case set_map sets vals by blast
  next
    case Incoming
    show ?thesis unfolding answer incident_def unfolding Incoming direction.case set_map sets vals by blast
  next
    case Both
    have "set (segment_answer sr (prepare_adjacency_payloads walk ?O) (prepare_adjacency_payloads walk ?I) n dir filt) =
        neighbor_of ` {x \<in> adj_values ?O n \<union> adj_values ?I n. ?ok x}"
      unfolding answer unfolding Both direction.case set_map merged(2) unfolding sets(3) ..
    then show ?thesis unfolding incident_def Both vals by blast
  qed
qed

end
