(* ===== verification/Segment_Open.thy ===== *)
theory Segment_Open
  imports Segment_Write Segment_Nodes_Exact Segment_Tombstones Segment_Flush
begin

text \<open>Opening a segment that was written: the checks on the required components pass.\<close>

section \<open>Headers\<close>

lemma count_from_header_ok: "\<exists>n. count_from_header data = Inr n"
proof (cases "length data \<ge> 8")
  case True
  have "get_range data 0 (0 + 8) = Some (take 8 data)" using True by (simp add: get_range_def)
  then show ?thesis using True by (simp add: count_from_header_def seg_u64_at_def word_at_def)
qed (simp add: count_from_header_def)

lemma count_written:
  assumes "data = to_le_bytes (n :: u64) @ rest"
  shows "count_from_header data = Inr n"
proof -
  have "get_range data 0 (0 + 8) = Some (to_le_bytes n)" by (rule get_range_at [of _ "[]"]) (simp_all add: assms)
  then have "seg_u64_at data 0 = Inr n" by (rule field_reads(3)) simp
  then show ?thesis by (simp add: count_from_header_def assms)
qed

section \<open>Vectors\<close>

text \<open>The vector files as the writer leaves them: none, or a row for every node and both blobs.\<close>

abbreviation any_dense :: "(u64 \<times> node_record) list \<Rightarrow> bool" where
  "any_dense es \<equiv> list_ex (\<lambda>(_, n). n_dense_vector n \<noteq> None) es"

abbreviation any_sparse :: "(u64 \<times> node_record) list \<Rightarrow> bool" where
  "any_sparse es \<equiv> list_ex (\<lambda>(_, n). n_sparse_vector n \<noteq> None) es"

lemma no_vector_bytes:
  assumes "node_ok n"
  shows "dense_bytes n = [] \<longleftrightarrow> n_dense_vector n = None" and "sparse_bytes n = [] \<longleftrightarrow> n_sparse_vector n = None"
proof -
  have "length (dense_bytes n) \<noteq> 0" if "n_dense_vector n = Some v" for v
    using assms that unfolding vector_bytes_length by (simp add: node_ok_def)
  then show "dense_bytes n = [] \<longleftrightarrow> n_dense_vector n = None" by (cases "n_dense_vector n") (auto simp: dense_bytes_def)
  have "length (sparse_bytes n) \<noteq> 0" if "n_sparse_vector n = Some v" for v
    using assms that unfolding vector_bytes_length by (simp add: node_ok_def)
  then show "sparse_bytes n = [] \<longleftrightarrow> n_sparse_vector n = None" by (cases "n_sparse_vector n") (auto simp: sparse_bytes_def)
qed

lemma blobs_empty:
  assumes "\<forall>e \<in> set es. node_ok (snd e)"
  shows "concat (map (dense_bytes \<circ> snd) es) = [] \<longleftrightarrow> \<not> any_dense es"
    and "concat (map (sparse_bytes \<circ> snd) es) = [] \<longleftrightarrow> \<not> any_sparse es"
  using assms by (induction es) (simp_all add: no_vector_bytes split_beta)

definition vector_files :: "(u64 \<times> node_record) list \<Rightarrow> bytes \<Rightarrow> bytes \<Rightarrow> bytes \<Rightarrow> bool" where
  "vector_files es vm db sb \<longleftrightarrow>
     (if any_dense es \<or> any_sparse es then vm = write_node_vector_meta_payload (vector_rows 0 0 es) else vm = []) \<and>
     db = concat (map (dense_bytes \<circ> snd) es) \<and> sb = concat (map (sparse_bytes \<circ> snd) es) \<and> length db < 2 ^ 64 \<and> length sb < 2 ^ 64"

lemma vector_files_written:
  assumes written: "write_node_vector_source_components spans m = Inr (vm, db, sb)"
    and nodes: "\<And>i. i < length spans \<Longrightarrow> fmlookup m (fst (spans ! i)) = Some (ns ! i) \<and> node_ok (ns ! i)" and len: "length ns = length spans"
  shows "vector_files (zip (map fst spans) ns) vm db sb"
proof -
  let ?es = "zip (map fst spans) ns"
  from written obtain rows where plan: "prepare_node_vector_source_plan m 0 0 spans = Inr rows"
    by (auto simp: write_node_vector_source_components_def r_bind_eq_Inr)
  from vector_plan [OF this _ len] nodes have rows: "rows = vector_rows 0 0 ?es"
      and fits: "length (concat (map dense_bytes ns)) < 2 ^ 64" "length (concat (map sparse_bytes ns)) < 2 ^ 64" by simp_all
  have snds: "map (f \<circ> snd) ?es = map f ns" for f :: "node_record \<Rightarrow> bytes" using len by (simp add: map_map [symmetric] del: map_map)
  have ok: "\<forall>(k, n) \<in> set ?es. fmlookup m k = Some n \<and> node_ok n" using nodes len by (auto simp: set_zip)
  then have "\<forall>e \<in> set ?es. node_ok (snd e)" by auto
  note empty = blobs_empty [OF this, unfolded snds]
  show ?thesis
    using written plan fits empty unfolding vector_files_def snds
    by (auto simp: write_node_vector_source_components_def rows flag_some Let_def write_node_dense_vector_blob_payload_def
        write_node_sparse_vector_blob_payload_def blob_rows [OF ok] snds split: if_splits)
qed

lemma vector_part_ok:
  assumes "next_offset + sz \<le> length blob" and "length blob < 2 ^ 64" and "unat len * value_size = sz" and "unat offset = next_offset"
  shows "check_vector_part blob value_size True offset len next_offset = Inr (next_offset + sz)"
  using assms by (simp add: check_vector_part_def validate_blob_range_def checked_mul_or_def checked_add_or_def)

lemma vector_part_absent: "check_vector_part blob value_size False 0 0 next_offset = Inr next_offset"
  by (simp add: check_vector_part_def)

abbreviation dense_end :: "(u64 \<times> node_record) list \<Rightarrow> nat \<Rightarrow> nat" where
  "dense_end es i \<equiv> length (concat (map dense_bytes (take i (map snd es))))"

abbreviation sparse_end :: "(u64 \<times> node_record) list \<Rightarrow> nat \<Rightarrow> nat" where
  "sparse_end es i \<equiv> length (concat (map sparse_bytes (take i (map snd es))))"

lemma ends_step:
  assumes "i < length es"
  shows "dense_end es (Suc i) = dense_end es i + length (dense_bytes (snd (es ! i)))"
    and "sparse_end es (Suc i) = sparse_end es i + length (sparse_bytes (snd (es ! i)))"
  using assms by (simp_all add: take_Suc_conv_app_nth)

lemma ends_le:
  assumes "i < length es"
  shows "dense_end es i + length (dense_bytes (snd (es ! i))) \<le> length (concat (map (dense_bytes \<circ> snd) es))"
    and "sparse_end es i + length (sparse_bytes (snd (es ! i))) \<le> length (concat (map (sparse_bytes \<circ> snd) es))"
  unfolding concat_map_split [OF assms, of "dense_bytes \<circ> snd"] concat_map_split [OF assms, of "sparse_bytes \<circ> snd"]
  by (simp_all add: take_map)

lemma vector_parts_pass:
  assumes i: "i < length es" and ok: "node_ok (snd (es ! i))"
    and db: "db = concat (map (dense_bytes \<circ> snd) es)" "length db < 2 ^ 64" and sb: "sb = concat (map (sparse_bytes \<circ> snd) es)" "length sb < 2 ^ 64"
    and row: "row = vector_row (fst (es ! i)) (snd (es ! i)) (dense_end es i) (sparse_end es i)"
  shows "check_vector_part db DENSE_VECTOR_VALUE_SIZE (n_dense_vector (snd (es ! i)) \<noteq> None) (vr_dense_offset row) (vr_dense_len row) (dense_end es i) =
      Inr (dense_end es (Suc i))" (is ?dense)
    and "check_vector_part sb SPARSE_VECTOR_ENTRY_SIZE (n_sparse_vector (snd (es ! i)) \<noteq> None) (vr_sparse_offset row) (vr_sparse_len row) (sparse_end es i) =
      Inr (sparse_end es (Suc i))" (is ?sparse)
proof -
  let ?n = "snd (es ! i)"
  note le = ends_le [OF i]
  show ?dense
  proof (cases "n_dense_vector ?n")
    case None
    then show ?thesis unfolding ends_step [OF i] row by (simp add: vector_row_def vector_part_absent dense_bytes_def)
  next
    case (Some v)
    then have v: "length v < 2 ^ 32" using ok by (simp add: node_ok_def)
    have size: "length (dense_bytes ?n) = length v * 4" using Some by (simp add: vector_bytes_length)
    have "check_vector_part db DENSE_VECTOR_VALUE_SIZE True (vr_dense_offset row) (vr_dense_len row) (dense_end es i) = Inr (dense_end es i + length (dense_bytes ?n))"
    proof (rule vector_part_ok)
      show "dense_end es i + length (dense_bytes ?n) \<le> length db" "length db < 2 ^ 64" using le(1) db by simp_all
      then have "dense_end es i < 2 ^ 64" by linarith
      then show "unat (vr_dense_offset row) = dense_end es i" using Some by (simp add: row vector_row_def unat_of_nat take_bit_eq_mod)
      show "unat (vr_dense_len row) * DENSE_VECTOR_VALUE_SIZE = length (dense_bytes ?n)"
        using Some v by (simp add: row vector_row_def unat_of_nat take_bit_eq_mod size DENSE_VECTOR_VALUE_SIZE_def)
    qed
    then show ?thesis unfolding ends_step [OF i] using Some by simp
  qed
  show ?sparse
  proof (cases "n_sparse_vector ?n")
    case None
    then show ?thesis unfolding ends_step [OF i] row by (simp add: vector_row_def vector_part_absent sparse_bytes_def)
  next
    case (Some v)
    then have v: "length v < 2 ^ 32" using ok by (simp add: node_ok_def)
    have size: "length (sparse_bytes ?n) = length v * 8" using Some by (simp add: vector_bytes_length)
    have "check_vector_part sb SPARSE_VECTOR_ENTRY_SIZE True (vr_sparse_offset row) (vr_sparse_len row) (sparse_end es i) = Inr (sparse_end es i + length (sparse_bytes ?n))"
    proof (rule vector_part_ok)
      show "sparse_end es i + length (sparse_bytes ?n) \<le> length sb" "length sb < 2 ^ 64" using le(2) sb by simp_all
      then have "sparse_end es i < 2 ^ 64" by linarith
      then show "unat (vr_sparse_offset row) = sparse_end es i" using Some by (simp add: row vector_row_def unat_of_nat take_bit_eq_mod)
      show "unat (vr_sparse_len row) * SPARSE_VECTOR_ENTRY_SIZE = length (sparse_bytes ?n)"
        using Some v by (simp add: row vector_row_def unat_of_nat take_bit_eq_mod size SPARSE_VECTOR_ENTRY_SIZE_def)
    qed
    then show ?thesis unfolding ends_step [OF i] using Some by simp
  qed
qed

lemma known_flags: "vr_flags (vector_row k n d s) AND NOT (NODE_VECTOR_FLAG_DENSE OR NODE_VECTOR_FLAG_SPARSE) = 0"
  by (simp add: vector_row_def NODE_VECTOR_FLAG_DENSE_def NODE_VECTOR_FLAG_SPARSE_def)

lemma vector_rows_pass:
  assumes vm: "vm = write_node_vector_meta_payload (vector_rows 0 0 es)" "length vm < 2 ^ 64" and ok: "\<forall>e \<in> set es. node_ok (snd e)"
    and db: "db = concat (map (dense_bytes \<circ> snd) es)" "length db < 2 ^ 64" and sb: "sb = concat (map (sparse_bytes \<circ> snd) es)" "length sb < 2 ^ 64"
    and "i \<le> length es" and "vs_next_dense_offset s = dense_end es i" and "vs_next_sparse_offset s = sparse_end es i"
  shows "check_vector_rows vm db sb [i ..< length es] s = Inr
    \<lparr>vs_dense_count = vs_dense_count s + length (filter (\<lambda>e. n_dense_vector (snd e) \<noteq> None) (drop i es)),
     vs_sparse_count = vs_sparse_count s + length (filter (\<lambda>e. n_sparse_vector (snd e) \<noteq> None) (drop i es)),
     vs_next_dense_offset = length db, vs_next_sparse_offset = length sb\<rparr>"
  using assms(8-10)
proof (induction "length es - i" arbitrary: i s)
  case 0
  then show ?case by (cases s) (simp add: db(1) sb(1) del: not_None_eq)
next
  case (Suc d)
  then have i: "i < length es" by simp
  define row where "row = vector_row (fst (es ! i)) (snd (es ! i)) (dense_end es i) (sparse_end es i)"
  have row_at: "vector_rows 0 0 es ! i = row" using vector_rows_nth [OF i, of 0 0] by (simp add: row_def)
  have read: "read_node_vector_meta_entry vm i = Inr (vr_flags row, vr_dense_offset row, vr_dense_len row, vr_sparse_offset row, vr_sparse_len row)"
    using vector_meta_read [OF vm(1) _ vm(2), of i] i by (simp add: row_at)
  have flags: "(vr_flags row AND NODE_VECTOR_FLAG_DENSE \<noteq> 0) = (n_dense_vector (snd (es ! i)) \<noteq> None)"
    "(vr_flags row AND NODE_VECTOR_FLAG_SPARSE \<noteq> 0) = (n_sparse_vector (snd (es ! i)) \<noteq> None)"
    "vr_flags row AND NOT (NODE_VECTOR_FLAG_DENSE OR NODE_VECTOR_FLAG_SPARSE) = 0" unfolding row_def by (rule flag_bits known_flags)+
  have node: "node_ok (snd (es ! i))" using ok nth_mem [OF i] by blast
  note parts = vector_parts_pass [OF i node db sb row_def]
  let ?s = "\<lparr>vs_dense_count = vs_dense_count s + (if n_dense_vector (snd (es ! i)) \<noteq> None then 1 else 0),
    vs_sparse_count = vs_sparse_count s + (if n_sparse_vector (snd (es ! i)) \<noteq> None then 1 else 0),
    vs_next_dense_offset = dense_end es (Suc i), vs_next_sparse_offset = sparse_end es (Suc i)\<rparr>"
  have list: "[i ..< length es] = i # [Suc i ..< length es]" using i by (simp add: upt_conv_Cons)
  have step: "check_vector_rows vm db sb [i ..< length es] s = check_vector_rows vm db sb [Suc i ..< length es] ?s"
    unfolding list check_vector_rows.simps read r_bind_simps prod.case Let_def flags Suc.prems(2,3) parts by simp
  have drop: "drop i es = es ! i # drop (Suc i) es" using i by (simp add: Cons_nth_drop_Suc)
  show ?case unfolding step drop using Suc.hyps(1) [of "Suc i" ?s] Suc.hyps(2) i by simp
qed

lemma sidecars_pass:
  assumes "seg_u64_at vm 0 = Inr e" and "unat e = k" and "8 + k * 28 < 2 ^ 64" and "length vm = 8 + k * 28"
    and "check_vector_rows vm db sb [0 ..< k] \<lparr>vs_dense_count = 0, vs_sparse_count = 0, vs_next_dense_offset = 0, vs_next_sparse_offset = 0\<rparr> =
      Inr \<lparr>vs_dense_count = d, vs_sparse_count = s, vs_next_dense_offset = length db, vs_next_sparse_offset = length sb\<rparr>"
    and "d > 0 \<longleftrightarrow> db \<noteq> []" and "s > 0 \<longleftrightarrow> sb \<noteq> []"
  shows "validate_node_vector_sidecars vm db sb e = Inr (d, s)"
proof -
  have "vm \<noteq> []" "\<not> length vm < 8" using assms(4) by auto
  then show ?thesis
    using assms by (simp add: validate_node_vector_sidecars_def Let_def checked_mul_or_def checked_add_or_def NODE_VECTOR_META_ENTRY_SIZE_def)
qed

lemma vectors_valid:
  assumes files: "vector_files es vm db sb" and ok: "\<forall>e \<in> set es. node_ok (snd e)" and fits: "length vm < 2 ^ 64"
  shows "\<exists>counts. validate_node_vector_sidecars vm db sb (of_nat (length es)) = Inr counts"
proof (cases "any_dense es \<or> any_sparse es")
  case False
  then have none: "\<not> any_dense es" "\<not> any_sparse es" unfolding de_Morgan_disj by (rule conjunct1, rule conjunct2)
  then have "concat (map (dense_bytes \<circ> snd) es) = []" "concat (map (sparse_bytes \<circ> snd) es) = []"
    by (simp_all only: blobs_empty [OF ok] simp_thms)
  with files have "vm = []" "db = []" "sb = []" unfolding vector_files_def if_not_P [OF False] by simp_all
  then show ?thesis by (simp add: validate_node_vector_sidecars_def)
next
  case True
  with files have vm: "vm = write_node_vector_meta_payload (vector_rows 0 0 es)" and db: "db = concat (map (dense_bytes \<circ> snd) es)" "length db < 2 ^ 64"
    and sb: "sb = concat (map (sparse_bytes \<circ> snd) es)" "length sb < 2 ^ 64"
    unfolding vector_files_def if_P [OF True] by blast+
  let ?dense = "filter (\<lambda>e. n_dense_vector (snd e) \<noteq> None) es" and ?sparse = "filter (\<lambda>e. n_sparse_vector (snd e) \<noteq> None) es"
  have len: "length vm = 8 + length es * 28"
    unfolding vm write_node_vector_meta_payload_def by (simp add: length_concat_map [of vector_meta_row 28])
  then have small: "length es < 2 ^ 64" "length es * 28 < 2 ^ 64" "8 + length es * 28 < 2 ^ 64" using fits by simp_all
  have "get_range vm 0 (0 + 8) = Some (to_le_bytes (of_nat (length es) :: u64))"
    by (rule get_range_at [of _ "[]"]) (simp_all add: vm write_node_vector_meta_payload_def)
  then have count: "seg_u64_at vm 0 = Inr (of_nat (length es))" by (rule field_reads(3)) simp
  have n: "unat (of_nat (length es) :: u64) = length es" using small(1) by (simp add: unat_of_nat take_bit_eq_mod)
  have rows: "check_vector_rows vm db sb [0 ..< length es]
      \<lparr>vs_dense_count = 0, vs_sparse_count = 0, vs_next_dense_offset = 0, vs_next_sparse_offset = 0\<rparr> = Inr
      \<lparr>vs_dense_count = length ?dense, vs_sparse_count = length ?sparse, vs_next_dense_offset = length db, vs_next_sparse_offset = length sb\<rparr>"
    using vector_rows_pass [OF vm fits ok db sb, of 0] by simp
  have any: "length ?dense > 0 \<longleftrightarrow> any_dense es" "length ?sparse > 0 \<longleftrightarrow> any_sparse es"
    by (induction es) auto
  have blobs: "db = [] \<longleftrightarrow> \<not> any_dense es" "sb = [] \<longleftrightarrow> \<not> any_sparse es" unfolding db sb by (rule blobs_empty [OF ok])+
  have "validate_node_vector_sidecars vm db sb (of_nat (length es)) = Inr (length ?dense, length ?sparse)"
    by (rule sidecars_pass [OF count n small(3) len rows]) (simp_all only: any blobs not_not)
  then show ?thesis by blast
qed

section \<open>The whole segment\<close>

definition files_fit :: "segment_files \<Rightarrow> bool" where
  "files_fit files \<longleftrightarrow>
     list_all (\<lambda>data. length data < 2 ^ 64) [sf_nodes files, sf_edges files, sf_node_meta files, sf_edge_meta files, sf_tombstones files,
       sf_node_vector_meta files, sf_key_index files, sf_node_label_index files, sf_timestamp_index files, sf_edge_label_index files,
       sf_edge_triple_index files, sf_adj_out_dat files, sf_adj_out_idx files, sf_adj_in_dat files, sf_adj_in_idx files]"

text \<open>
  A memtable whose current records fit the widths of the segment format: keys are UTF-8, encoded
  properties and vectors are shorter than \<open>2 ^ 32\<close>, vectors are not empty, and there are fewer than
  \<open>2 ^ 32\<close> nodes and edges.
\<close>

definition flushable :: "to_vec \<Rightarrow> memtable_state \<Rightarrow> bool" where
  "flushable to_vec st \<longleftrightarrow>
     (\<forall>i n. node_at st i U64_MAX = Some n \<longrightarrow> node_ok n \<and> (\<forall>bs. to_vec (n_props n) = Inr bs \<longrightarrow> length bs < 2 ^ 32)) \<and>
     (\<forall>i e. edge_at st i U64_MAX = Some e \<longrightarrow> props_wf (e_props e) \<and> (\<forall>bs. to_vec (e_props e) = Inr bs \<longrightarrow> length bs < 2 ^ 32)) \<and>
     fcard (fmdom (current_nodes st)) < 2 ^ 32 \<and> fcard (fmdom (current_edges st)) < 2 ^ 32"

lemma keyed_current:
  assumes "memtable_reach pv st w"
  shows "keyed n_id (current_nodes st)" and "keyed e_id (current_edges st)"
proof -
  have "ids_ok (view st U64_MAX)" using reach_invariants [OF assms] by (simp add: store_ok_def)
  then show "keyed n_id (current_nodes st)" "keyed e_id (current_edges st)"
    unfolding ids_ok_def keyed_def lookup_current node_at_view edge_at_view by blast+
qed

lemma written_spans:
  assumes written: "write_nodes_payload tv m = Inr (spans, data)" and keyed: "keyed n_id m"
  shows "map fst spans = sorted_list_of_fset (fmdom m)"
proof -
  note vals = sorted_values_keyed [OF keyed]
  let ?ids = "sorted_list_of_fset (fmdom m)"
  from written vals obtain records where recs: "r_map (encode_node_record_into tv) (map (\<lambda>k. the (fmlookup m k)) ?ids) = Inr records"
      and payload: "records_payload ?ids records = (spans, data)"
    by (auto simp: write_nodes_payload_def Let_def r_bind_eq_Inr)
  have len: "length ?ids = length records" using r_map_length [OF recs] by simp
  note parts = records_payload_parts [OF payload len]
  show ?thesis using parts(1,5) index_rows_nth [OF len] len by (intro nth_equalityI) simp_all
qed

lemma node_meta_count:
  assumes "write_node_meta_payload spans m = Inr data"
  shows "count_from_header data = Inr (of_nat (length spans))"
proof -
  from assms obtain rest where "data = to_le_bytes (of_nat (length spans) :: u64) @ rest"
    by (auto simp: write_node_meta_payload_def Let_def r_bind_eq_Inr)
  then show ?thesis by (rule count_written)
qed

text \<open>What the files of a segment hold.\<close>

lemma write_segment_parts:
  assumes "write_segment_inner walk tv st = Inr files"
  obtains spans espans keys where
    "write_nodes_payload tv (current_nodes st) = Inr (spans, sf_nodes files)"
    "write_node_meta_payload spans (current_nodes st) = Inr (sf_node_meta files)"
    "write_node_vector_source_components spans (current_nodes st) =
       Inr (sf_node_vector_meta files, sf_node_dense_vectors files, sf_node_sparse_vectors files)"
    "write_edges_payload tv (current_edges st) = Inr (espans, sf_edges files)"
    "write_edge_meta_payload espans (current_edges st) = Inr (sf_edge_meta files)"
    "prepare_key_index_payload walk (current_nodes st) = Inr keys" "sf_key_index files = write_key_index_plan_payload keys"
    "sf_tombstones files = write_tombstones_payload (deleted_nodes st) (deleted_edges st)"
    "sf_node_label_index files = write_label_posting_index_plan_payload (node_label_posting_groups_current st)"
    "sf_edge_label_index files = write_label_posting_index_plan_payload
       (prepare_label_posting_index_payload (current_label_membership_index (label_edge_index st)))"
    "sf_timestamp_index files = write_timestamp_index_plan_payload (prepare_timestamp_index_payload (current_time_index (time_node_index st)))"
    "sf_edge_triple_index files = write_edge_triple_index_plan_payload (prepare_edge_triple_index_payload walk (current_edges st))"
    "sf_adj_out_dat files = write_adjacency_postings_payload (prepare_adjacency_payloads walk (current_adj_map (adj_out st)))"
    "sf_adj_out_idx files = write_adjacency_index_payload (prepare_adjacency_payloads walk (current_adj_map (adj_out st)))"
    "sf_adj_in_dat files = write_adjacency_postings_payload (prepare_adjacency_payloads walk (current_adj_map (adj_in st)))"
    "sf_adj_in_idx files = write_adjacency_index_payload (prepare_adjacency_payloads walk (current_adj_map (adj_in st)))"
proof -
  from assms show thesis
    by (clarsimp simp: write_segment_inner_def Let_def r_bind_eq_Inr write_flush_node_index_components_def
        write_flush_edge_index_components_def split: prod.splits) (rule that; simp)
qed

lemma open_written:
  assumes reach: "memtable_reach pv st w" and written: "write_segment_inner walk tv st = Inr files" and fits: "files_fit files" and ok: "flushable tv st"
  shows "\<exists>sr. open_segment files = Inr sr"
proof -
  from written obtain spans where nodes: "write_nodes_payload tv (current_nodes st) = Inr (spans, sf_nodes files)"
    and meta: "write_node_meta_payload spans (current_nodes st) = Inr (sf_node_meta files)"
    and vecs: "write_node_vector_source_components spans (current_nodes st) =
      Inr (sf_node_vector_meta files, sf_node_dense_vectors files, sf_node_sparse_vectors files)"
    and tombs: "sf_tombstones files = write_tombstones_payload (deleted_nodes st) (deleted_edges st)"
    by (rule write_segment_parts)
  let ?m = "current_nodes st"
  note ids = written_spans [OF nodes keyed_current(1) [OF reach]]
  define ns where "ns = map (\<lambda>x. the (fmlookup ?m (fst x))) spans"
  have len: "length ns = length spans" by (simp add: ns_def)
  have node: "fmlookup ?m (fst (spans ! i)) = Some (ns ! i) \<and> node_ok (ns ! i)" if i: "i < length spans" for i
  proof -
    have "fst (spans ! i) \<in> set (map fst spans)" using i by simp
    then obtain n where "fmlookup ?m (fst (spans ! i)) = Some n" unfolding ids by (auto simp: fmlookup_dom_iff)
    then show ?thesis using ok i by (auto simp: ns_def flushable_def lookup_current)
  qed
  let ?es = "zip (map fst spans) ns"
  have vf: "vector_files ?es (sf_node_vector_meta files) (sf_node_dense_vectors files) (sf_node_sparse_vectors files)"
    by (rule vector_files_written [OF vecs _ len]) (rule node)
  have es: "\<forall>e \<in> set ?es. node_ok (snd e)" using node len by (auto simp: set_zip)
  have "\<exists>counts. validate_node_vector_sidecars (sf_node_vector_meta files) (sf_node_dense_vectors files) (sf_node_sparse_vectors files)
      (of_nat (length ?es)) = Inr counts"
    by (rule vectors_valid [OF vf es]) (use fits in \<open>simp_all add: files_fit_def\<close>)
  moreover have "length (sf_tombstones files) < 2 ^ 64" using fits by (simp add: files_fit_def)
  ultimately show ?thesis
    using count_from_header_ok [of "sf_nodes files"] count_from_header_ok [of "sf_edges files"] node_meta_count [OF meta] len
    by (auto simp: open_segment_def tombs load_written_tombstones)
qed

lemma open_segment_parts:
  assumes "open_segment files = Inr sr"
  shows "sr_nodes sr = sf_nodes files" "sr_edges sr = sf_edges files" "sr_adj_out_idx sr = sf_adj_out_idx files"
    "sr_adj_out_dat sr = sf_adj_out_dat files" "sr_adj_in_idx sr = sf_adj_in_idx files" "sr_adj_in_dat sr = sf_adj_in_dat files"
    "sr_key_index sr = sf_key_index files" "sr_node_label_index sr = sf_node_label_index files" "sr_edge_label_index sr = sf_edge_label_index files"
    "sr_edge_triple_index sr = sf_edge_triple_index files" "sr_timestamp_index sr = sf_timestamp_index files"
    "sr_node_meta sr = sf_node_meta files" "sr_edge_meta sr = sf_edge_meta files" "sr_node_vector_meta sr = sf_node_vector_meta files"
    "sr_node_dense_vectors sr = sf_node_dense_vectors files" "sr_node_sparse_vectors sr = sf_node_sparse_vectors files"
    "load_tombstones_from_bytes (sf_tombstones files) = Inr (sr_deleted_nodes sr, sr_deleted_edges sr)"
  using assms by (auto simp: open_segment_def r_bind_eq_Inr)

end
