(* ===== verification/Segment_Indexes_Exact.thy ===== *)
theory Segment_Indexes_Exact
  imports Segment_Indexes Segment_Nodes_Exact
begin

text \<open>
  The lookup indexes of a segment answer from their files what their plans hold: every search and
  scan is a filter of the plan, and both strategies of a batch find the same rows.
\<close>

section \<open>Ranges of a table\<close>

lemma scan_ids_table:
  assumes "\<And>i. pos \<le> i \<Longrightarrow> i < count \<Longrightarrow> inside i = Inr (P i) \<and> read_id i = Inr (f i)" and "pos \<le> count"
  shows "scan_ids inside read_id skip count pos acc = Inr (acc @ filter (\<lambda>x. \<not> skip x) (map f (takeWhile P [pos ..< count])))"
  using assms
proof (induction "count - pos" arbitrary: pos acc)
  case 0
  then show ?case by (subst scan_ids.simps) simp
next
  case (Suc d)
  then have pos: "pos < count" by simp
  have rest: "scan_ids inside read_id skip count (pos + 1) acc' = Inr (acc' @ filter (\<lambda>x. \<not> skip x) (map f (takeWhile P [pos + 1 ..< count])))" for acc'
    by (rule Suc.hyps(1)) (use Suc.hyps(2) Suc.prems pos in auto)
  show ?case using pos Suc.prems(1) [of pos] rest by (subst scan_ids.simps) (simp add: upt_conv_Cons)
qed

lemma scan_each_table:
  assumes "\<And>i. pos \<le> i \<Longrightarrow> i < count \<Longrightarrow> inside i = Inr (P i) \<and> read_id i = Inr (f i)" and "pos \<le> count"
  shows "scan_each inside read_id skip callback count pos acc =
    Inr (visit_each callback (filter (\<lambda>x. \<not> skip x) (map f (takeWhile P [pos ..< count]))) acc)"
  using assms
proof (induction "count - pos" arbitrary: pos acc)
  case 0
  then show ?case by (subst scan_each.simps) simp
next
  case (Suc d)
  then have pos: "pos < count" by simp
  have rest: "scan_each inside read_id skip callback count (pos + 1) acc' =
      Inr (visit_each callback (filter (\<lambda>x. \<not> skip x) (map f (takeWhile P [pos + 1 ..< count]))) acc')" for acc'
    by (rule Suc.hyps(1)) (use Suc.hyps(2) Suc.prems pos in auto)
  show ?case using pos Suc.prems(1) [of pos] rest by (subst scan_each.simps) (simp add: upt_conv_Cons split: prod.split)
qed

lemma takeWhile_range:
  assumes "\<And>i. i < p \<Longrightarrow> \<not> Q i" and "\<And>i. p \<le> i \<Longrightarrow> i < n \<Longrightarrow> P i \<longleftrightarrow> Q i"
    and "\<And>i j. p \<le> i \<Longrightarrow> i \<le> j \<Longrightarrow> j < n \<Longrightarrow> P j \<Longrightarrow> P i" and "p \<le> n"
  shows "takeWhile P [p ..< n] = filter Q [0 ..< n]"
proof -
  have "takeWhile P [q ..< n] = filter Q [q ..< n]" if "p \<le> q" for q
    using that
  proof (induction "n - q" arbitrary: q)
    case (Suc d)
    then have q: "q < n" by simp
    have ih: "takeWhile P [Suc q ..< n] = filter Q [Suc q ..< n]" by (rule Suc.hyps(1)) (use Suc.hyps(2) Suc.prems in auto)
    show ?case
    proof (cases "P q")
      case True
      then show ?thesis using q ih assms(2) [of q] Suc.prems by (simp add: upt_conv_Cons)
    next
      case False
      then have "\<not> Q i" if "q \<le> i" "i < n" for i using assms(3) [of q i] assms(2) [of i] that Suc.prems by (metis order_trans)
      then have "filter Q [q ..< n] = []" by (simp add: filter_empty_conv)
      then show ?thesis using False q by (simp add: upt_conv_Cons)
    qed
  qed simp
  then have "takeWhile P [p ..< n] = filter Q [p ..< n]" by simp
  moreover have "filter Q [0 ..< p] = []" using assms(1) by (simp add: filter_empty_conv)
  moreover have "[0 ..< n] = [0 ..< p] @ [p ..< n]" using upt_add_eq_append [of 0 p "n - p"] assms(4) by simp
  ultimately show ?thesis by simp
qed

lemma filter_positions: "map (\<lambda>i. g (xs ! i)) (filter (\<lambda>i. R (xs ! i)) [0 ..< length xs]) = map g (filter R xs)"
proof -
  have "map g (filter R xs) = map g (filter R (map ((!) xs) [0 ..< length xs]))" by (simp add: map_nth)
  then show ?thesis by (simp add: filter_map comp_def)
qed

text \<open>The lower bound of a range in a sorted table, and the rows scanned from there.\<close>

lemma range_of_table:
  assumes rows: "rows_ok read (map key xs)" and sorted: "sorted (map key xs)"
    and conv: "\<forall>x y. t \<le> key x \<longrightarrow> key x \<le> key y \<longrightarrow> P y \<longrightarrow> P x"
  obtains lo where "lower_bound_loop read (\<lambda>k. k < t) 0 (length xs) = Inr lo" and "lo \<le> length xs"
    and "map (\<lambda>i. g (xs ! i)) (takeWhile (\<lambda>i. P (xs ! i)) [lo ..< length xs]) = map g (filter (\<lambda>x. t \<le> key x \<and> P x) xs)"
proof -
  have "key (xs ! i) < t" if "i \<le> j" "j < length xs" "key (xs ! j) < t" for i j
    using sorted_nth_mono [OF sorted that(1)] that by simp
  then obtain lo where lo: "lower_bound_loop read (\<lambda>k. k < t) 0 (length xs) = Inr lo" "lo \<le> length xs"
      "\<And>i. i < lo \<Longrightarrow> key (xs ! i) < t" "\<And>i. lo \<le> i \<Longrightarrow> i < length xs \<Longrightarrow> t \<le> key (xs ! i)"
    using lower_bound_loop_rows [OF rows, of "\<lambda>k. k < t" "length xs" 0] by (auto simp: not_less)
  have "takeWhile (\<lambda>i. P (xs ! i)) [lo ..< length xs] = filter (\<lambda>i. t \<le> key (xs ! i) \<and> P (xs ! i)) [0 ..< length xs]"
  proof (rule takeWhile_range)
    fix i j assume ij: "lo \<le> i" "i \<le> j" "j < length xs" "P (xs ! j)"
    have "key (xs ! i) \<le> key (xs ! j)" using sorted_nth_mono [OF sorted ij(2)] ij(2,3) by simp
    then show "P (xs ! i)" using conv lo(4) [of i] ij by simp
  qed (use lo in \<open>auto simp: not_le\<close>)
  then show thesis using that [OF lo(1,2)] filter_positions [of g xs "\<lambda>x. t \<le> key x \<and> P x"] by simp
qed

lemma bounds_defined:
  assumes "rows_ok read ks" and sorted: "sorted ks"
  shows "\<exists>p. lower_bound_loop read (\<lambda>x. x < k) 0 (length ks) = Inr p" and "\<exists>p. lower_bound_loop read (\<lambda>x. x \<le> k) 0 (length ks) = Inr p"
proof -
  have le: "ks ! i \<le> ks ! j" if "i \<le> j" "j < length ks" for i j using sorted_nth_mono [OF sorted that] .
  show "\<exists>p. lower_bound_loop read (\<lambda>x. x < k) 0 (length ks) = Inr p"
    by (rule exE [OF lower_bound_loop_rows [where P = "\<lambda>x. x < k", OF assms(1) _ order_refl le0]]) (auto intro: order_le_less_trans [OF le])
  show "\<exists>p. lower_bound_loop read (\<lambda>x. x \<le> k) 0 (length ks) = Inr p"
    by (rule exE [OF lower_bound_loop_rows [where P = "\<lambda>x. x \<le> k", OF assms(1) _ order_refl le0]]) (auto intro: order_trans [OF le])
qed

section \<open>Batches of lookups\<close>

definition hits :: "('k \<Rightarrow> u64 option) \<Rightarrow> (nat \<times> 'k) list \<Rightarrow> (nat \<times> u64) list" where
  "hits find_id lookups = List.map_filter (\<lambda>(i, k). map_option (Pair i) (find_id k)) lookups"

lemma hits_simps [simp]:
  "hits f [] = []"
  "hits f ((i, k) # lookups) = (case f k of Some rid \<Rightarrow> [(i, rid)] | None \<Rightarrow> []) @ hits f lookups"
  by (auto simp: hits_def List.map_filter_simps split: option.split)

lemma seek_ids_hits:
  assumes "\<And>k. search k = Inr (f k)" and "\<And>k r. prev = Some (k, r) \<Longrightarrow> r = f k"
  shows "seek_ids search lookups prev resolved = Inr (resolved @ hits f lookups)"
  using assms(2)
proof (induction lookups arbitrary: prev resolved)
  case (Cons l lookups)
  obtain i k where l: "l = (i, k)" by (cases l)
  have "(case prev of Some (pk, r) \<Rightarrow> if pk = k then Inr r else search k | None \<Rightarrow> search k) = Inr (f k)"
    using Cons.prems assms(1) by (cases prev) auto
  moreover have "seek_ids search lookups (Some (k, f k)) rs = Inr (rs @ hits f lookups)" for rs by (rule Cons.IH) simp
  ultimately show ?case using l by (cases "f k") simp_all
qed simp

text \<open>The first row of a key.\<close>

definition first_row :: "'k list \<Rightarrow> u64 list \<Rightarrow> 'k \<Rightarrow> u64 option" where
  "first_row ks ids k = map_of (zip ks ids) k"

lemma first_row_None: "length ks = length ids \<Longrightarrow> first_row ks ids k = None \<longleftrightarrow> k \<notin> set ks"
  by (simp add: first_row_def map_of_zip_is_None)

lemma first_row_at:
  "length ks = length ids \<Longrightarrow> q < length ks \<Longrightarrow> ks ! q = k \<Longrightarrow> (\<And>j. j < q \<Longrightarrow> ks ! j \<noteq> k) \<Longrightarrow> first_row ks ids k = Some (ids ! q)"
proof (induction ks ids arbitrary: q rule: list_induct2)
  case (Cons k' ks i ids)
  show ?case
  proof (cases q)
    case 0
    then show ?thesis using Cons.prems by (simp add: first_row_def)
  next
    case (Suc q')
    have "ks ! j \<noteq> k" if "j < q'" for j using Cons.prems(3) [of "Suc j"] that Suc by simp
    moreover have "k' \<noteq> k" using Cons.prems(3) [of 0] Suc by simp
    ultimately show ?thesis using Cons.IH [of q'] Cons.prems Suc by (auto simp: first_row_def)
  qed
qed simp

text \<open>Where one walk stops, the next one goes on.\<close>

lemma walk_step:
  assumes rows: "rows_ok read ks" "rows_ok read_id ids" and len: "length ks = length ids" and sorted: "sorted ks"
    and behind: "\<forall>j < pos. ks ! j < k" and pos: "pos \<le> length ks"
  obtains q hit where "walk_to read (length ks) k pos = Inr (q, hit)" and "q \<le> length ks" and "\<forall>j < q. ks ! j < k"
    and "hit \<longrightarrow> read_id q = Inr (ids ! q) \<and> first_row ks ids k = Some (ids ! q)" and "\<not> hit \<longrightarrow> first_row ks ids k = None"
proof -
  obtain q where q: "walk_to read (length ks) k pos = Inr (q, q < length ks \<and> ks ! q = k)" "q \<le> length ks" "\<forall>j < q. ks ! j < k"
      "q < length ks \<longrightarrow> k \<le> ks ! q"
    using walk_to_rows [OF rows(1) refl behind pos] by blast
  show thesis
  proof (rule that [OF q(1-3)])
    have "ks ! j \<noteq> k" if "j < q" for j using q(3) that by (auto dest: less_imp_neq)
    then show "q < length ks \<and> ks ! q = k \<longrightarrow> read_id q = Inr (ids ! q) \<and> first_row ks ids k = Some (ids ! q)"
      using rows(2) len first_row_at [OF len, of q k] by (simp add: rows_ok_def)
    show "\<not> (q < length ks \<and> ks ! q = k) \<longrightarrow> first_row ks ids k = None"
    proof
      assume miss: "\<not> (q < length ks \<and> ks ! q = k)"
      have "ks ! j \<noteq> k" if j: "j < length ks" for j
      proof (cases "j < q")
        case False
        then have "ks ! q \<le> ks ! j" using sorted_nth_mono [OF sorted] j by simp
        then show ?thesis using q(4) miss False j by auto
      qed (use q(3) in auto)
      then show "first_row ks ids k = None" unfolding first_row_None [OF len] by (auto simp: in_set_conv_nth)
    qed
  qed
qed

lemma walk_keys_hits:
  assumes "rows_ok read ks" "rows_ok read_id ids" and "length ks = length ids" and "sorted ks"
    and "sorted (map snd lookups)" and "\<forall>k \<in> set (map snd lookups). \<forall>j < pos. ks ! j < k" and "pos \<le> length ks"
  shows "walk_keys read read_id (length ks) lookups pos resolved = Inr (resolved @ hits (first_row ks ids) lookups)"
  using assms(5-7)
proof (induction lookups arbitrary: pos resolved)
  case (Cons l lookups)
  obtain i k where l: "l = (i, k)" by (cases l)
  have "\<forall>j < pos. ks ! j < k" using Cons.prems(2) l by simp
  from walk_step [OF assms(1-4) this Cons.prems(3)] obtain q hit where q: "walk_to read (length ks) k pos = Inr (q, hit)"
      "q \<le> length ks" "\<forall>j < q. ks ! j < k" "hit \<longrightarrow> read_id q = Inr (ids ! q) \<and> first_row ks ids k = Some (ids ! q)"
      "\<not> hit \<longrightarrow> first_row ks ids k = None" by blast
  have "\<forall>k' \<in> set (map snd lookups). \<forall>j < q. ks ! j < k'" using q(3) Cons.prems(1) l by (fastforce simp: order_less_le_trans)
  then have "walk_keys read read_id (length ks) lookups q rs = Inr (rs @ hits (first_row ks ids) lookups)" for rs
    using Cons.IH [of q rs] Cons.prems(1) q(2) l by simp
  then show ?case using q l by (cases hit) auto
qed simp

lemma walk_triples_hits:
  assumes "rows_ok read ks" "rows_ok read_id ids" and "length ks = length ids" and "sorted ks"
    and "sorted (map snd lookups)" and "\<forall>k \<in> set (map snd lookups). \<forall>j < pos. ks ! j < k" and "pos \<le> length ks"
    and "\<And>k r. prev = Some (k, r) \<Longrightarrow> r = first_row ks ids k"
  shows "walk_triples read read_id (length ks) lookups pos prev resolved = Inr (resolved @ hits (first_row ks ids) lookups)"
  using assms(5-8)
proof (induction lookups arbitrary: pos prev resolved)
  case (Cons l lookups)
  obtain i k where l: "l = (i, k)" by (cases l)
  have srt: "sorted (map snd lookups)" using Cons.prems(1) by simp
  show ?case
  proof (cases "map_option fst prev = Some k")
    case True
    then obtain r where r: "prev = Some (k, r)" by (cases prev) auto
    have ih: "walk_triples read read_id (length ks) lookups pos prev rs = Inr (rs @ hits (first_row ks ids) lookups)" for rs
      by (rule Cons.IH [OF srt _ Cons.prems(3,4)]) (use Cons.prems(2) in simp)
    have "r = first_row ks ids k" by (rule Cons.prems(4) [OF r])
    then show ?thesis using ih l r by (cases "first_row ks ids k") simp_all
  next
    case False
    have "\<forall>j < pos. ks ! j < k" using Cons.prems(2) l by simp
    from walk_step [OF assms(1-4) this Cons.prems(3)] obtain q hit where q: "walk_to read (length ks) k pos = Inr (q, hit)"
        "q \<le> length ks" "\<forall>j < q. ks ! j < k" "hit \<longrightarrow> read_id q = Inr (ids ! q) \<and> first_row ks ids k = Some (ids ! q)"
        "\<not> hit \<longrightarrow> first_row ks ids k = None" by blast
    have ahead: "\<forall>k' \<in> set (map snd lookups). \<forall>j < q. ks ! j < k'" using q(3) Cons.prems(1) l by (fastforce simp: order_less_le_trans)
    have "walk_triples read read_id (length ks) lookups q (Some (k, first_row ks ids k)) rs = Inr (rs @ hits (first_row ks ids) lookups)" for rs
      by (rule Cons.IH [OF srt ahead q(2)]) simp
    then show ?thesis using q(1,4,5) l False by (cases hit) simp_all
  qed
qed simp

section \<open>Tables behind a count\<close>

lemma table_header:
  assumes data: "data = to_le_bytes (of_nat n :: u64) @ rest" and "n \<le> length rest" and fits: "length data < 2 ^ 64"
  shows "seg_u64_at data 0 = Inr (of_nat n)" and "\<not> length data < 8" and "unat (of_nat n :: u64) = n"
proof -
  have "get_range data 0 (0 + 8) = Some (to_le_bytes (of_nat n :: u64))" by (rule get_range_at [of _ "[]"]) (simp_all add: data)
  then show "seg_u64_at data 0 = Inr (of_nat n)" by (rule field_reads(3)) simp
  show "\<not> length data < 8" by (simp add: data)
  have "n < 2 ^ 64" using assms by simp
  then show "unat (of_nat n :: u64) = n" by (simp add: unat_of_nat take_bit_eq_mod)
qed

lemma rows_length: "(\<And>x. length (row x) = k) \<Longrightarrow> 0 < k \<Longrightarrow> length xs \<le> length (concat (map row xs))"
  by (simp add: length_concat_map [of row k])

section \<open>The timestamp index\<close>

lemma length_timestamp_row: "length (timestamp_row x) = 20"
  by (simp add: timestamp_row_def split: prod.split)

definition times_ok :: "(u32 \<times> int \<times> u64) list \<Rightarrow> bool" where
  "times_ok xs \<longleftrightarrow> sorted xs \<and> (\<forall>(_, t, _) \<in> set xs. sint (word_of_int t :: i64) = t)"

definition time_key :: "u32 \<times> int \<times> u64 \<Rightarrow> u32 \<times> int" where
  "time_key x = (case x of (l, t, _) \<Rightarrow> (l, t))"

definition time_id :: "u32 \<times> int \<times> u64 \<Rightarrow> u64" where
  "time_id x = snd (snd x)"

lemma timestamp_reads:
  assumes data: "data = write_timestamp_index_plan_payload xs" and fits: "length data < 2 ^ 64" and ok: "times_ok xs"
  shows "seg_u64_at data 0 = Inr (of_nat (length xs))" and "\<not> length data < 8" and "unat (of_nat (length xs) :: u64) = length xs"
    and "rows_ok (time_row_key data) (map time_key xs)" and "rows_ok (time_row_id data) (map time_id xs)"
    and "i < length xs \<Longrightarrow> time_row_inside data l to i = Inr (fst (time_key (xs ! i)) = l \<and> snd (time_key (xs ! i)) \<le> sint to)"
proof -
  have d: "data = to_le_bytes (of_nat (length xs) :: u64) @ concat (map timestamp_row xs)" by (simp add: data write_timestamp_index_plan_payload_def)
  note header = table_header [OF d rows_length [OF length_timestamp_row] fits, simplified]
  show "seg_u64_at data 0 = Inr (of_nat (length xs))" "\<not> length data < 8" "unat (of_nat (length xs) :: u64) = length xs"
    by (rule header)+
  have fields: "seg_u32_at data (8 + i * 20) = Inr (fst (time_key (xs ! i)))" "seg_i64_at data (8 + i * 20 + 4) = Inr (word_of_int (snd (time_key (xs ! i))))"
    "seg_u64_at data (8 + i * 20 + 12) = Inr (time_id (xs ! i))" if i: "i < length xs" for i
  proof -
    obtain l t n where x: "xs ! i = (l, t, n)" by (metis prod_cases3)
    have "chunks_at data (8 + i * 20) 0 [to_le_bytes l, to_le_bytes (word_of_int t :: i64), to_le_bytes n]"
      by (rule table_chunks [OF d]) (use i x in \<open>auto simp: timestamp_row_def\<close>)
    moreover from chunks_at_bound [OF this] fits have "8 + i * 20 + 20 < 2 ^ 64" by simp
    moreover define off where "off = 8 + i * 20"
    ultimately show "seg_u32_at data (8 + i * 20) = Inr (fst (time_key (xs ! i)))"
      "seg_i64_at data (8 + i * 20 + 4) = Inr (word_of_int (snd (time_key (xs ! i))))"
      "seg_u64_at data (8 + i * 20 + 12) = Inr (time_id (xs ! i))"
      unfolding off_def [symmetric] by (simp_all add: field_reads field_reads_off x time_key_def time_id_def)
  qed
  have sint: "sint (word_of_int (snd (time_key (xs ! i))) :: i64) = snd (time_key (xs ! i))" if "i < length xs" for i
    using ok nth_mem [OF that] by (auto simp: times_ok_def time_key_def split: prod.splits)
  show "rows_ok (time_row_key data) (map time_key xs)"
    using fields sint by (simp add: rows_ok_def time_row_key_def)
  show "rows_ok (time_row_id data) (map time_id xs)" using fields by (simp add: rows_ok_def time_row_id_def)
  show "i < length xs \<Longrightarrow> time_row_inside data l to i = Inr (fst (time_key (xs ! i)) = l \<and> snd (time_key (xs ! i)) \<le> sint to)"
    using fields [of i] sint [of i] by (auto simp: time_row_inside_def not_less)
qed

definition times_between :: "(u32 \<times> int \<times> u64) list \<Rightarrow> u32 \<Rightarrow> int \<Rightarrow> int \<Rightarrow> u64 list" where
  "times_between xs l a b = map time_id (filter (\<lambda>x. fst (time_key x) = l \<and> a \<le> snd (time_key x) \<and> snd (time_key x) \<le> b) xs)"

lemma time_range_written:
  assumes data: "sr_timestamp_index sr = write_timestamp_index_plan_payload xs" and fits: "length (sr_timestamp_index sr) < 2 ^ 64" and ok: "times_ok xs"
  shows "segment_nodes_by_time_range sr l from to =
      Inr (sort (filter (\<lambda>i. i |\<notin>| fmdom (sr_deleted_nodes sr)) (times_between xs l (sint from) (sint to))))"
    and "for_each_node_by_time_range sr l from to callback acc =
      Inr (visit_each callback (filter (\<lambda>i. i |\<notin>| fmdom (sr_deleted_nodes sr)) (times_between xs l (sint from) (sint to))) acc)"
proof -
  note reads = timestamp_reads [OF data fits ok]
  let ?P = "\<lambda>x. fst (time_key x) = l \<and> snd (time_key x) \<le> sint to"
  have mono: "time_key x \<le> time_key y" if "x \<le> y" for x y using that by (auto simp: time_key_def split: prod.splits)
  have sorted: "sorted (map time_key xs)"
    unfolding sorted_map by (rule sorted_wrt_mono_rel [of _ "(\<le>)"]) (use ok mono in \<open>simp_all add: times_ok_def\<close>)
  have conv: "\<forall>x y. (l, sint from) \<le> time_key x \<longrightarrow> time_key x \<le> time_key y \<longrightarrow> ?P y \<longrightarrow> ?P x"
    by (auto simp: less_eq_prod_def)
  obtain lo where lo: "lower_bound_loop (time_row_key (sr_timestamp_index sr)) (\<lambda>k. k < (l, sint from)) 0 (length xs) = Inr lo" "lo \<le> length xs"
      "map (\<lambda>i. time_id (xs ! i)) (takeWhile (\<lambda>i. ?P (xs ! i)) [lo ..< length xs]) = map time_id (filter (\<lambda>x. (l, sint from) \<le> time_key x \<and> ?P x) xs)"
    by (rule range_of_table [where t = "(l, sint from)" and P = ?P and g = time_id, OF reads(4) sorted conv])
  have range_eq: "map time_id (filter (\<lambda>x. (l, sint from) \<le> time_key x \<and> ?P x) xs) = times_between xs l (sint from) (sint to)"
    unfolding times_between_def by (intro arg_cong [where f = "map time_id"] filter_cong) (auto simp: less_eq_prod_def)
  have row: "time_row_inside (sr_timestamp_index sr) l to i = Inr (?P (xs ! i)) \<and> time_row_id (sr_timestamp_index sr) i = Inr (time_id (xs ! i))"
    if "i < length xs" for i
    using reads(5,6) that by (simp add: rows_ok_def)
  note scans = scan_ids_table [where f = "\<lambda>i. time_id (xs ! i)" and P = "\<lambda>i. ?P (xs ! i)", OF row lo(2), unfolded lo(3) range_eq, simplified]
    scan_each_table [where f = "\<lambda>i. time_id (xs ! i)" and P = "\<lambda>i. ?P (xs ! i)", OF row lo(2), unfolded lo(3) range_eq, simplified]
  have none: "xs = [] \<or> sint from > sint to \<Longrightarrow> times_between xs l (sint from) (sint to) = []" by (auto simp: times_between_def filter_empty_conv)
  show "segment_nodes_by_time_range sr l from to =
      Inr (sort (filter (\<lambda>i. i |\<notin>| fmdom (sr_deleted_nodes sr)) (times_between xs l (sint from) (sint to))))"
    using reads(1-3) lo(1) scans(1) none by (cases "xs = []") (simp_all add: segment_nodes_by_time_range_def Let_def)
  show "for_each_node_by_time_range sr l from to callback acc =
      Inr (visit_each callback (filter (\<lambda>i. i |\<notin>| fmdom (sr_deleted_nodes sr)) (times_between xs l (sint from) (sint to))) acc)"
    using reads(1-3) lo(1) scans(2) none
    by (cases "xs = [] \<or> sint from > sint to") (auto simp: for_each_node_by_time_range_def Let_def)
qed

section \<open>The edge triple index\<close>

lemma length_edge_triple_row: "length (edge_triple_row x) = 28"
  by (simp add: edge_triple_row_def split: prod.split)

definition triple_key :: "u64 \<times> u64 \<times> u32 \<times> u64 \<Rightarrow> u64 \<times> u64 \<times> u32" where
  "triple_key x = (case x of (a, b, l, _) \<Rightarrow> (a, b, l))"

definition triple_id :: "u64 \<times> u64 \<times> u32 \<times> u64 \<Rightarrow> u64" where
  "triple_id x = snd (snd (snd x))"

lemma triple_reads:
  assumes data: "data = write_edge_triple_index_plan_payload xs" and fits: "length data < 2 ^ 64"
  shows "seg_u64_at data 0 = Inr (of_nat (length xs))" and "\<not> length data < 8" and "unat (of_nat (length xs) :: u64) = length xs"
    and "rows_ok (read_edge_triple_key_at data) (map triple_key xs)" and "rows_ok (triple_row_id data) (map triple_id xs)"
proof -
  have d: "data = to_le_bytes (of_nat (length xs) :: u64) @ concat (map edge_triple_row xs)" by (simp add: data write_edge_triple_index_plan_payload_def)
  note header = table_header [OF d rows_length [OF length_edge_triple_row] fits, simplified]
  show "seg_u64_at data 0 = Inr (of_nat (length xs))" "\<not> length data < 8" "unat (of_nat (length xs) :: u64) = length xs"
    by (rule header)+
  have fields: "read_edge_triple_key_at data i = Inr (triple_key (xs ! i)) \<and> triple_row_id data i = Inr (triple_id (xs ! i))" if i: "i < length xs" for i
  proof -
    obtain a b l e where x: "xs ! i = (a, b, l, e)" by (metis prod_cases4)
    have "chunks_at data (8 + i * 28) 0 [to_le_bytes a, to_le_bytes b, to_le_bytes l, to_le_bytes e]"
      by (rule table_chunks [OF d]) (use i x in \<open>auto simp: edge_triple_row_def\<close>)
    moreover from chunks_at_bound [OF this] fits have "8 + i * 28 + 28 < 2 ^ 64" by simp
    moreover define off where "off = 8 + i * 28"
    ultimately show ?thesis
      unfolding read_edge_triple_key_at_def triple_row_id_def EDGE_TRIPLE_ENTRY_SIZE_def off_def [symmetric]
      by (simp add: Let_def field_reads field_reads_off x triple_key_def triple_id_def)
  qed
  then show "rows_ok (read_edge_triple_key_at data) (map triple_key xs)" "rows_ok (triple_row_id data) (map triple_id xs)"
    by (simp_all add: rows_ok_def)
qed

lemma sorted_triples:
  assumes "sorted xs"
  shows "sorted (map triple_key xs)"
proof -
  have le: "triple_key x \<le> triple_key y" if "x \<le> y" for x y
    using that by (cases x; cases y) (auto simp: triple_key_def less_eq_prod_def)
  have "sorted_wrt (\<lambda>x y. triple_key x \<le> triple_key y) xs" using assms by (rule sorted_wrt_mono_rel [rotated]) (rule le)
  then show ?thesis by (simp only: sorted_map)
qed

lemma triple_ids_written:
  assumes data: "sr_edge_triple_index sr = write_edge_triple_index_plan_payload xs" and fits: "length (sr_edge_triple_index sr) < 2 ^ 64" and ok: "sorted xs"
  shows "edge_ids_by_triple sr t =
    Inr (remdups_adj (sort (filter (\<lambda>i. i |\<notin>| fmdom (sr_deleted_edges sr)) (map triple_id (filter (\<lambda>x. triple_key x = t) xs)))))"
proof -
  note reads = triple_reads [OF data fits] and sorted = sorted_triples [OF ok]
  let ?P = "\<lambda>x. triple_key x = t"
  have conv: "\<forall>x y. t \<le> triple_key x \<longrightarrow> triple_key x \<le> triple_key y \<longrightarrow> ?P y \<longrightarrow> ?P x"
    by (intro allI impI, rule antisym) simp_all
  obtain lo where lo: "lower_bound_loop (read_edge_triple_key_at (sr_edge_triple_index sr)) (\<lambda>k. k < t) 0 (length xs) = Inr lo" "lo \<le> length xs"
      "map (\<lambda>i. triple_id (xs ! i)) (takeWhile (\<lambda>i. ?P (xs ! i)) [lo ..< length xs]) = map triple_id (filter (\<lambda>x. t \<le> triple_key x \<and> ?P x) xs)"
    by (rule range_of_table [where t = t and P = ?P and g = triple_id, OF reads(4) sorted conv])
  have range_eq: "map triple_id (filter (\<lambda>x. t \<le> triple_key x \<and> ?P x) xs) = map triple_id (filter ?P xs)"
    by (intro arg_cong [where f = "map triple_id"] filter_cong) auto
  have row: "triple_row_inside (sr_edge_triple_index sr) t i = Inr (?P (xs ! i)) \<and> triple_row_id (sr_edge_triple_index sr) i = Inr (triple_id (xs ! i))"
    if "i < length xs" for i
    using reads(4,5) that by (simp add: rows_ok_def triple_row_inside_def)
  note scan = scan_ids_table [where f = "\<lambda>i. triple_id (xs ! i)" and P = "\<lambda>i. ?P (xs ! i)", OF row lo(2), unfolded lo(3) range_eq, simplified]
  show ?thesis
    using reads(1-3) lo(1) scan by (cases "xs = []") (simp_all add: edge_ids_by_triple_def Let_def)
qed

lemma triple_search_written:
  assumes data: "data = write_edge_triple_index_plan_payload xs" and fits: "length data < 2 ^ 64" and ok: "sorted xs"
  shows "binary_search_edge_triple_index data (length xs) t = Inr (first_row (map triple_key xs) (map triple_id xs) t)"
proof -
  note reads = triple_reads [OF data fits] and sorted = sorted_triples [OF ok]
  have down: "map triple_key xs ! i < t" if "i \<le> j" "j < length (map triple_key xs)" "map triple_key xs ! j < t" for i j
    using sorted_nth_mono [OF sorted that(1,2)] that(3) by simp
  obtain p where p: "lower_bound_edge_triple_index data (length xs) t = Inr p" "p \<le> length xs"
      "\<And>i. i < p \<Longrightarrow> map triple_key xs ! i < t" "\<And>i. p \<le> i \<Longrightarrow> i < length xs \<Longrightarrow> t \<le> map triple_key xs ! i"
    using lower_bound_loop_rows [OF reads(4), of "\<lambda>k. k < t" "length xs" 0] down by (auto simp: not_less lower_bound_edge_triple_index_def)
  show ?thesis
  proof (cases "p < length xs \<and> map triple_key xs ! p = t")
    case True
    have "first_row (map triple_key xs) (map triple_id xs) t = Some (map triple_id xs ! p)"
    proof (rule first_row_at)
      fix j assume "j < p"
      then show "map triple_key xs ! j \<noteq> t" using p(3) [of j] by simp
    qed (use True in simp_all)
    then show ?thesis using True p(1) reads(4,5) by (auto simp: binary_search_edge_triple_index_def rows_ok_def)
  next
    case False
    have miss: "map triple_key xs ! j \<noteq> t" if j: "j < length xs" for j
    proof (cases "j < p")
      case ge: False
      then have "map triple_key xs ! p \<le> map triple_key xs ! j" using sorted_nth_mono [OF sorted, of p j] j by simp
      then show ?thesis using p(4) [of p] False ge j by auto
    qed (use p(3) in fastforce)
    have "t \<notin> set (map triple_key xs)" unfolding in_set_conv_nth length_map using miss by blast
    then have "first_row (map triple_key xs) (map triple_id xs) t = None" by (subst first_row_None) simp_all
    moreover have "p < length xs \<Longrightarrow> triple_key (xs ! p) \<noteq> t" using False by simp
    ultimately show ?thesis using p(1) reads(4) by (auto simp: binary_search_edge_triple_index_def rows_ok_def)
  qed
qed

lemma resolve_triples_written:
  assumes data: "sr_edge_triple_index sr = write_edge_triple_index_plan_payload xs" and fits: "length (sr_edge_triple_index sr) < 2 ^ 64" and ok: "sorted xs"
    and lookups: "sorted (map snd lookups)"
  shows "resolve_triples_to_ids sr lookups = Inr (hits (first_row (map triple_key xs) (map triple_id xs)) lookups)"
proof -
  note reads = triple_reads [OF data fits] and sorted = sorted_triples [OF ok]
  let ?data = "sr_edge_triple_index sr"
  have seek: "seek_ids (binary_search_edge_triple_index ?data (length xs)) lookups None [] = Inr (hits (first_row (map triple_key xs) (map triple_id xs)) lookups)"
    using seek_ids_hits [where search = "binary_search_edge_triple_index ?data (length xs)" and prev = None, OF triple_search_written [OF data fits ok]] by simp
  have walk: "walk_triples (read_edge_triple_key_at ?data) (triple_row_id ?data) (length xs) lookups 0 None [] =
      Inr (hits (first_row (map triple_key xs) (map triple_id xs)) lookups)"
    using walk_triples_hits [OF reads(4,5) _ sorted lookups, of 0 None "[]"] by simp
  obtain lo hi where below: "lower_bound_edge_triple_index ?data (length xs) (snd (hd lookups)) = Inr lo"
      "upper_bound_edge_triple_index ?data (length xs) (snd (last lookups)) = Inr hi"
    using bounds_defined [OF reads(4) sorted] unfolding lower_bound_edge_triple_index_def upper_bound_edge_triple_index_def length_map by metis
  show ?thesis
  proof (cases "xs = []")
    case True
    have "hits (first_row [] []) ls = []" for ls :: "(nat \<times> u64 \<times> u64 \<times> u32) list" by (induction ls) (auto simp: first_row_def)
    then show ?thesis using True reads(1-3) by (simp add: resolve_triples_to_ids_def)
  next
    case False
    then show ?thesis
      using reads(1-3) seek walk below by (auto simp: resolve_triples_to_ids_def Let_def split: batch_read_strategy.split)
  qed
qed

section \<open>The key index\<close>

definition entry_key :: "key_index_entry \<Rightarrow> u32 \<times> bytes" where
  "entry_key e = (ke_label_id e, ke_key e)"

definition keys_ok :: "key_index_entry list \<Rightarrow> bool" where
  "keys_ok es \<longleftrightarrow> sorted (map key_order es) \<and> \<not> duplicate_key_pair es \<and>
     (\<forall>e \<in> set es. length (ke_key e) \<le> 65535 \<and> utf8_valid (ke_key e) \<and> ke_encoded_len e = of_nat (14 + length (ke_key e)))"

lemma length_key_row: "length (key_index_row e) = 14 + length (ke_key e)"
  by (simp add: key_index_row_def)

lemma key_index_offsets_nth:
  assumes "\<forall>e \<in> set es. ke_encoded_len e = of_nat (14 + length (ke_key e))" and "i < length es"
  shows "key_index_offsets off es ! i = off + of_nat (length (concat (map key_index_row (take i es))))"
  using assms
proof (induction off es arbitrary: i rule: key_index_offsets.induct)
  case (2 off e es)
  then show ?case by (cases i) (auto simp: length_key_row add.assoc)
qed simp

lemma length_key_offsets [simp]: "length (key_index_offsets off es) = length es"
  by (induction off es rule: key_index_offsets.induct) auto

lemma key_index_reads:
  assumes data: "data = write_key_index_plan_payload es" and fits: "length data < 2 ^ 64" and ok: "keys_ok es"
  shows "seg_u64_at data 0 = Inr (of_nat (length es))" and "\<not> length data < 8" and "unat (of_nat (length es) :: u64) = length es"
    and "rows_ok (key_row_at data) (map entry_key es)" and "rows_ok (key_row_id data) (map ke_node_id es)"
proof -
  define offs where "offs = key_index_offsets (8 + of_nat (length es) * 8) es"
  have d: "data = to_le_bytes (of_nat (length es) :: u64) @ concat (map to_le_bytes offs) @ concat (map key_index_row es)"
    by (simp add: data write_key_index_plan_payload_def Let_def offs_def)
  have offs_len: "length offs = length es" by (simp add: offs_def)
  have table: "length (concat (map to_le_bytes offs)) = length es * 8" by (simp add: length_concat_map [of to_le_bytes 8] offs_len)
  have size: "length data = 8 + length es * 8 + length (concat (map key_index_row es))" by (simp add: d table)
  note header = table_header [OF d _ fits, simplified table length_append]
  show "seg_u64_at data 0 = Inr (of_nat (length es))" "\<not> length data < 8" "unat (of_nat (length es) :: u64) = length es"
    by (rule header, simp)+
  let ?s = "starts (8 + length es * 8) key_index_row es"
  have read: "key_entry_offset data i = Inr (?s i) \<and> key_entry_at data (?s i) = Inr (entry_key (es ! i)) \<and> seg_u64_at data (?s i + 4) = Inr (ke_node_id (es ! i))"
    if i: "i < length es" for i
  proof -
    let ?e = "es ! i"
    have e: "length (ke_key ?e) \<le> 65535" "utf8_valid (ke_key ?e)" using ok i by (auto simp: keys_ok_def)
    have "get_range data (8 + i * 8) (8 + i * 8 + 8) = Some (to_le_bytes (offs ! i))"
      using get_range_field [of to_le_bytes 8 i offs "[]" "to_le_bytes (offs ! i)" "[]" "to_le_bytes (of_nat (length es) :: u64)" "concat (map key_index_row es)"] i offs_len
      by (simp add: d)
    then have word: "seg_u64_at data (8 + i * 8) = Inr (offs ! i)" by (rule field_reads(3)) (use i size fits in simp)
    have cat: "concat (map key_index_row es) = concat (map key_index_row (take i es)) @ key_index_row ?e @ concat (map key_index_row (drop (Suc i) es))"
      by (rule concat_map_split [OF i])
    have "offs ! i = of_nat (?s i)"
      using key_index_offsets_nth [of es i] ok i by (simp add: offs_def keys_ok_def starts_def)
    moreover have "?s i < 2 ^ 64" using fits unfolding size cat starts_def by simp
    ultimately have off: "unat (offs ! i) = ?s i" by (simp add: unat_of_nat take_bit_eq_mod)
    have chunks: "chunks_at data (?s i) 0 [to_le_bytes (ke_label_id ?e), to_le_bytes (ke_node_id ?e), to_le_bytes (of_nat (length (ke_key ?e)) :: u16), ke_key ?e]"
    proof (rule chunks_atI)
      show "data = (to_le_bytes (of_nat (length es) :: u64) @ concat (map to_le_bytes offs) @ concat (map key_index_row (take i es))) @
          concat [to_le_bytes (ke_label_id ?e), to_le_bytes (ke_node_id ?e), to_le_bytes (of_nat (length (ke_key ?e)) :: u16), ke_key ?e] @
          concat (map key_index_row (drop (Suc i) es))"
        unfolding d cat by (simp add: key_index_row_def)
    qed (simp add: starts_def table)
    define base where "base = ?s i"
    have bound: "base + 14 + length (ke_key ?e) < 2 ^ 64" using chunks_at_bound [OF chunks] fits by (simp add: base_def)
    note c = chunks [folded base_def, simplified]
    have len: "unat (of_nat (length (ke_key ?e)) :: u16) = length (ke_key ?e)" using e(1) by (simp add: unat_of_nat take_bit_eq_mod)
    have "seg_u32_at data base = Inr (ke_label_id ?e)" "seg_u64_at data (base + 4) = Inr (ke_node_id ?e)"
      "seg_u16_at data (base + 12) = Inr (of_nat (length (ke_key ?e)))"
      using c bound by (simp_all add: field_reads field_reads_off)
    moreover have "read_bytes_at data (base + 14) (length (ke_key ?e)) = Inr (ke_key ?e)"
      by (rule read_bytes_range) (use c bound in \<open>simp_all add: add.assoc\<close>)
    ultimately show ?thesis using word off len e(2) by (simp add: key_entry_offset_def key_entry_at_def entry_key_def base_def)
  qed
  then show "rows_ok (key_row_at data) (map entry_key es)" "rows_ok (key_row_id data) (map ke_node_id es)"
    by (simp_all add: rows_ok_def key_row_at_def key_row_id_def)
qed

lemma sorted_keys:
  assumes "keys_ok es"
  shows "sorted (map entry_key es)"
proof -
  have le: "entry_key a \<le> entry_key b" if "key_order a \<le> key_order b" for a b
    using that by (auto simp: key_order_def entry_key_def less_eq_prod_def)
  have "sorted_wrt (\<lambda>a b. key_order a \<le> key_order b) es" using assms by (simp add: keys_ok_def sorted_map)
  then have "sorted_wrt (\<lambda>a b. entry_key a \<le> entry_key b) es" by (rule sorted_wrt_mono_rel [rotated]) (rule le)
  then show ?thesis by (simp only: sorted_map)
qed

lemma no_duplicates_head:
  "\<not> duplicate_key_pair (l # es) \<Longrightarrow> sorted (map entry_key (l # es)) \<Longrightarrow> c \<in> set es \<Longrightarrow> entry_key c = entry_key l \<Longrightarrow>
     ke_node_id c = ke_node_id l"
proof (induction es arbitrary: l)
  case (Cons r es)
  have le: "entry_key l \<le> entry_key r" "entry_key r \<le> entry_key c" using Cons.prems(2,3) by auto
  have key: "entry_key r = entry_key l" using le unfolding Cons.prems(4) by (rule antisym [rotated])
  have "ke_label_id r = ke_label_id l" "ke_key r = ke_key l" using key by (simp_all add: entry_key_def)
  then have same: "ke_node_id r = ke_node_id l" using Cons.prems(1) by (metis duplicate_key_pair.simps(1))
  show ?case
  proof (cases "c = r")
    case False
    have "ke_node_id c = ke_node_id r"
    proof (rule Cons.IH)
      show "\<not> duplicate_key_pair (r # es)" using Cons.prems(1) by (metis duplicate_key_pair.simps(1))
      show "sorted (map entry_key (r # es))" using Cons.prems(2) by simp
      show "c \<in> set es" using Cons.prems(3) False by simp
      show "entry_key c = entry_key r" using Cons.prems(4) key by (rule trans [OF _ sym])
    qed
    then show ?thesis using same by (rule trans)
  qed (use same in simp)
qed simp

lemma no_duplicates:
  "\<not> duplicate_key_pair es \<Longrightarrow> sorted (map entry_key es) \<Longrightarrow> a \<in> set es \<Longrightarrow> b \<in> set es \<Longrightarrow> entry_key a = entry_key b \<Longrightarrow> ke_node_id a = ke_node_id b"
proof (induction es)
  case (Cons l es)
  have rest: "\<not> duplicate_key_pair es" using Cons.prems(1) by (cases es) (auto simp del: de_Morgan_conj)
  have sorted: "sorted (map entry_key es)" using Cons.prems(2) by simp
  consider "a = l" "b = l" | "a = l" "b \<in> set es" | "b = l" "a \<in> set es" | "a \<in> set es" "b \<in> set es"
    using Cons.prems(3,4) by (metis set_ConsD)
  then show ?case
  proof cases
    case 2
    then show ?thesis using no_duplicates_head [OF Cons.prems(1,2) 2(2)] Cons.prems(5) by metis
  next
    case 3
    then show ?thesis using no_duplicates_head [OF Cons.prems(1,2) 3(2)] Cons.prems(5) by metis
  next
    case 4
    show ?thesis by (rule Cons.IH [OF rest sorted 4 Cons.prems(5)])
  qed simp
qed simp

abbreviation key_rows :: "key_index_entry list \<Rightarrow> u32 \<times> bytes \<Rightarrow> u64 option" where
  "key_rows es \<equiv> first_row (map entry_key es) (map ke_node_id es)"

lemma zip_maps: "zip (map f xs) (map g xs) = map (\<lambda>x. (f x, g x)) xs"
  by (induction xs) simp_all

lemma key_rows_iff:
  assumes "keys_ok es"
  shows "key_rows es t = Some i \<longleftrightarrow> (\<exists>e \<in> set es. entry_key e = t \<and> ke_node_id e = i)"
proof
  assume "key_rows es t = Some i"
  then have "(t, i) \<in> set (map (\<lambda>e. (entry_key e, ke_node_id e)) es)" unfolding first_row_def zip_maps by (rule map_of_SomeD)
  then show "\<exists>e \<in> set es. entry_key e = t \<and> ke_node_id e = i" by auto
next
  assume "\<exists>e \<in> set es. entry_key e = t \<and> ke_node_id e = i"
  then obtain e where e: "e \<in> set es" "entry_key e = t" "ke_node_id e = i" by blast
  then have "t \<in> set (map entry_key es)" by auto
  then have "key_rows es t \<noteq> None" by (subst first_row_None) simp_all
  then obtain j where j: "key_rows es t = Some j" by blast
  then have "(t, j) \<in> set (map (\<lambda>e. (entry_key e, ke_node_id e)) es)" unfolding first_row_def zip_maps by (rule map_of_SomeD)
  then obtain e' where e': "e' \<in> set es" "entry_key e' = t" "ke_node_id e' = j" by auto
  have "\<not> duplicate_key_pair es" using assms by (simp add: keys_ok_def)
  from no_duplicates [OF this sorted_keys [OF assms] e(1) e'(1)] e e' have "i = j" by simp
  then show "key_rows es t = Some i" using j by simp
qed

lemma key_search_written:
  assumes data: "sr_key_index sr = write_key_index_plan_payload es" and fits: "length (sr_key_index sr) < 2 ^ 64" and ok: "keys_ok es"
  shows "binary_search_key_index sr t = Inr (key_rows es t)"
proof -
  note reads = key_index_reads [OF data fits ok]
  obtain r where r: "search_loop (key_row_at (sr_key_index sr)) (compare_keys t) 0 (length es) = Inr r"
      "case r of Some i \<Rightarrow> i < length es \<and> entry_key (es ! i) = t | None \<Rightarrow> \<forall>i < length es. entry_key (es ! i) \<noteq> t"
    using search_loop_rows [OF reads(4) sorted_keys [OF ok], of "length es" t 0] by (auto split: option.splits)
  show ?thesis
  proof (cases r)
    case None
    then have "key_rows es t = None" using r(2) by (subst first_row_None) (auto simp: in_set_conv_nth)
    then show ?thesis using None r(1) reads(1-3) by (simp add: binary_search_key_index_def Let_def)
  next
    case (Some i)
    then have "key_rows es t = Some (ke_node_id (es ! i))" unfolding key_rows_iff [OF ok] using r(2) by auto
    then show ?thesis using Some r reads(1-3,5) by (simp add: binary_search_key_index_def Let_def rows_ok_def)
  qed
qed

lemma resolve_keys_written:
  assumes data: "sr_key_index sr = write_key_index_plan_payload es" and fits: "length (sr_key_index sr) < 2 ^ 64" and ok: "keys_ok es"
    and lookups: "sorted (map snd lookups)"
  shows "resolve_keys_to_ids sr lookups = Inr (hits (key_rows es) lookups)"
proof -
  note reads = key_index_reads [OF data fits ok] and sorted = sorted_keys [OF ok]
  let ?data = "sr_key_index sr"
  have seek: "seek_ids (binary_search_key_index sr) lookups None [] = Inr (hits (key_rows es) lookups)"
    using seek_ids_hits [where search = "binary_search_key_index sr" and prev = None, OF key_search_written [OF data fits ok]] by simp
  have walk: "walk_keys (key_row_at ?data) (key_row_id ?data) (length es) lookups 0 [] = Inr (hits (key_rows es) lookups)"
    using walk_keys_hits [OF reads(4,5) _ sorted lookups, of 0 "[]"] by simp
  obtain lo hi where below: "lower_bound_key_index ?data (length es) (snd (hd lookups)) = Inr lo"
      "upper_bound_key_index ?data (length es) (snd (last lookups)) = Inr hi"
    using bounds_defined [OF reads(4) sorted] unfolding lower_bound_key_index_def upper_bound_key_index_def length_map by metis
  show ?thesis
  proof (cases "es = []")
    case True
    have "hits (first_row [] []) ls = []" for ls :: "(nat \<times> u32 \<times> bytes) list" by (induction ls) (auto simp: first_row_def)
    then show ?thesis using True reads(1-3) by (simp add: resolve_keys_to_ids_def)
  next
    case False
    then show ?thesis
      using reads(1-3) seek walk below by (auto simp: resolve_keys_to_ids_def Let_def split: batch_read_strategy.split)
  qed
qed

section \<open>Label indexes\<close>

abbreviation group_ids_bytes :: "u32 \<times> u64 list \<Rightarrow> bytes" where
  "group_ids_bytes g \<equiv> concat (map to_le_bytes (snd g))"

definition label_groups_ok :: "(u32 \<times> u64 list) list \<Rightarrow> bool" where
  "label_groups_ok gs \<longleftrightarrow> sorted_wrt (<) (map fst gs) \<and> (\<forall>g \<in> set gs. length (snd g) < 2 ^ 32)"

lemma length_label_rows [simp]: "length (label_index_rows off gs) = length gs"
  by (induction off gs rule: label_index_rows.induct) (auto simp: Let_def)

lemma label_rows_sizes: "r \<in> set (label_index_rows off gs) \<Longrightarrow> length r = 16"
  by (induction off gs rule: label_index_rows.induct) (auto simp: Let_def)

lemma label_rows_nth:
  assumes "\<forall>g \<in> set gs. length (snd g) < 2 ^ 32" and "i < length gs"
  shows "label_index_rows off gs ! i = to_le_bytes (fst (gs ! i)) @
    to_le_bytes (off + of_nat (length (concat (map group_ids_bytes (take i gs)))) :: u64) @ to_le_bytes (of_nat (length (snd (gs ! i))) :: u32)"
  using assms
proof (induction off gs arbitrary: i rule: label_index_rows.induct)
  case (2 off l ids gs)
  have small: "length ids < 2 ^ 32" using "2.prems"(1) by simp
  have "unat (of_nat (length ids) :: u32) = length ids" using small by (simp add: unat_of_nat take_bit_eq_mod)
  then have w: "(ucast (of_nat (length ids) :: u32) :: u64) = of_nat (length ids)" by (metis of_nat_unat)
  have len: "length (concat (map to_le_bytes ids)) = length ids * 8" by (rule length_concat_map) simp
  show ?case
  proof (cases i)
    case 0
    then show ?thesis by (simp add: Let_def)
  next
    case (Suc j)
    have j: "j < length gs" using "2.prems"(2) Suc by simp
    have rest: "\<forall>g \<in> set gs. length (snd g) < 2 ^ 32" using "2.prems"(1) by simp
    show ?thesis using "2.IH" [OF refl rest j] Suc by (simp add: Let_def w len algebra_simps)
  qed
qed simp

lemma label_index_reads:
  assumes data: "data = write_label_posting_index_plan_payload gs" and fits: "length data < 2 ^ 64" and ok: "label_groups_ok gs"
  shows "seg_u64_at data 0 = Inr (of_nat (length gs))" and "\<not> length data < 8" and "unat (of_nat (length gs) :: u64) = length gs"
    and "rows_ok (label_row_label data) (map fst gs)"
    and "i < length gs \<Longrightarrow> label_row_span data i = Inr (starts (8 + length gs * 16) group_ids_bytes gs i, length (snd (gs ! i)))"
    and "i < length gs \<Longrightarrow> rows_ok (\<lambda>j. seg_u64_at data (starts (8 + length gs * 16) group_ids_bytes gs i + j * 8)) (snd (gs ! i))"
    and "i < length gs \<Longrightarrow> starts (8 + length gs * 16) group_ids_bytes gs i + length (snd (gs ! i)) * 8 \<le> length data"
proof -
  define rows where "rows = label_index_rows (8 + of_nat (length gs) * 16) gs"
  have d: "data = to_le_bytes (of_nat (length gs) :: u64) @ concat rows @ concat (map group_ids_bytes gs)"
    by (simp add: data write_label_posting_index_plan_payload_def Let_def rows_def LABEL_POSTING_INDEX_ENTRY_SIZE_def case_prod_unfold)
  have rows_len: "length rows = length gs" by (simp add: rows_def)
  have row_size: "length r = 16" if "r \<in> set rows" for r using label_rows_sizes that by (auto simp: rows_def)
  have take_size: "length (concat (take i rows)) = i * 16" if "i \<le> length gs" for i
  proof -
    have "length (concat rs) = length rs * 16" if "set rs \<subseteq> set rows" for rs using that row_size by (induction rs) auto
    from this [of "take i rows"] that rows_len show ?thesis by (simp add: set_take_subset)
  qed
  then have table: "length (concat rows) = length gs * 16" using take_size [of "length gs"] rows_len by simp
  have size: "length data = 8 + length gs * 16 + length (concat (map group_ids_bytes gs))" by (simp add: d table)
  note header = table_header [OF d _ fits, simplified table length_append]
  show "seg_u64_at data 0 = Inr (of_nat (length gs))" "\<not> length data < 8" "unat (of_nat (length gs) :: u64) = length gs"
    by (rule header, simp)+
  let ?s = "starts (8 + length gs * 16) group_ids_bytes gs"
  have small: "\<forall>g \<in> set gs. length (snd g) < 2 ^ 32" using ok by (simp add: label_groups_ok_def)
  have cat: "concat (map group_ids_bytes gs) = concat (map group_ids_bytes (take i gs)) @ group_ids_bytes (gs ! i) @ concat (map group_ids_bytes (drop (Suc i) gs))"
    if "i < length gs" for i by (rule concat_map_split [OF that])
  have ends: "?s i + length (snd (gs ! i)) * 8 \<le> length data" if "i < length gs" for i
    unfolding size cat [OF that] starts_def by (simp add: length_concat_map [of to_le_bytes 8])
  have row: "label_row_label data i = Inr (fst (gs ! i)) \<and> label_row_span data i = Inr (?s i, length (snd (gs ! i)))" if i: "i < length gs" for i
  proof -
    have chunks: "chunks_at data (8 + i * 16) 0 [to_le_bytes (fst (gs ! i)), to_le_bytes (of_nat (?s i) :: u64), to_le_bytes (of_nat (length (snd (gs ! i))) :: u32)]"
    proof (rule chunks_atI)
      show "data = (to_le_bytes (of_nat (length gs) :: u64) @ concat (take i rows)) @
          concat [to_le_bytes (fst (gs ! i)), to_le_bytes (of_nat (?s i) :: u64), to_le_bytes (of_nat (length (snd (gs ! i))) :: u32)] @
          (concat (drop (Suc i) rows) @ concat (map group_ids_bytes gs))"
        using concat_map_split [of i rows id] label_rows_nth [OF small i, of "8 + of_nat (length gs) * 16"] i rows_len
        unfolding d by (simp add: rows_def [symmetric] starts_def)
    qed (use take_size [of i] i in simp)
    have bound: "8 + i * 16 + 16 < 2 ^ 64" using chunks_at_bound [OF chunks] fits by simp
    define base where "base = 8 + i * 16"
    have "?s i < 2 ^ 64" using ends [OF i] fits by simp
    then have w: "unat (of_nat (?s i) :: u64) = ?s i" by (simp add: unat_of_nat take_bit_eq_mod)
    have "length (snd (gs ! i)) < 2 ^ 32" using small i by simp
    then have w': "unat (of_nat (length (snd (gs ! i))) :: u32) = length (snd (gs ! i))" by (simp add: unat_of_nat take_bit_eq_mod)
    note c = chunks [folded base_def, simplified]
    have "seg_u32_at data base = Inr (fst (gs ! i))" "seg_u64_at data (base + 4) = Inr (of_nat (?s i))" "seg_u32_at data (base + 12) = Inr (of_nat (length (snd (gs ! i))))"
      using c bound by (simp_all add: field_reads field_reads_off base_def)
    then show ?thesis using w w' by (simp add: label_row_label_def label_row_span_def LABEL_POSTING_INDEX_ENTRY_SIZE_def base_def)
  qed
  then show "rows_ok (label_row_label data) (map fst gs)" by (simp add: rows_ok_def)
  show "i < length gs \<Longrightarrow> label_row_span data i = Inr (?s i, length (snd (gs ! i)))" using row by simp
  show "i < length gs \<Longrightarrow> ?s i + length (snd (gs ! i)) * 8 \<le> length data" by (rule ends)
  assume i: "i < length gs"
  show "rows_ok (\<lambda>j. seg_u64_at data (?s i + j * 8)) (snd (gs ! i))"
    unfolding rows_ok_def
  proof (intro allI impI field_reads(3))
    fix j assume j: "j < length (snd (gs ! i))"
    define pre rest where "pre = to_le_bytes (of_nat (length gs) :: u64) @ concat rows @ concat (map group_ids_bytes (take i gs))"
      and "rest = concat (map group_ids_bytes (drop (Suc i) gs))"
    have pre: "length pre = ?s i" by (simp add: pre_def starts_def table)
    have "data = pre @ concat (map to_le_bytes (snd (gs ! i))) @ rest"
      unfolding d cat [OF i] pre_def rest_def by simp
    then show "get_range data (?s i + j * 8) (?s i + j * 8 + 8) = Some (to_le_bytes (snd (gs ! i) ! j))"
      using get_range_field [of to_le_bytes 8 j "snd (gs ! i)" "[]" "to_le_bytes (snd (gs ! i) ! j)" "[]" pre rest] j
      by (simp add: pre)
    show "?s i + j * 8 + 8 < 2 ^ 64" using ends [OF i] j fits by simp
  qed
qed

lemma find_label_written:
  assumes data: "data = write_label_posting_index_plan_payload gs" and fits: "length data < 2 ^ 64" and ok: "label_groups_ok gs"
  obtains r where "find_label_row data l = Inr r"
    and "case r of Some i \<Rightarrow> i < length gs \<and> map_of gs l = Some (snd (gs ! i)) | None \<Rightarrow> map_of gs l = None"
proof -
  note reads = label_index_reads [OF data fits ok]
  have strict: "sorted_wrt (<) (map fst gs)" using ok by (simp add: label_groups_ok_def)
  then have sorted: "sorted (map fst gs)" and dist: "distinct (map fst gs)" by (simp_all add: strict_sorted_iff)
  obtain r where r: "search_loop (label_row_label data) (compare_keys l) 0 (length gs) = Inr r"
      "case r of Some i \<Rightarrow> i < length gs \<and> fst (gs ! i) = l | None \<Rightarrow> \<forall>i < length gs. fst (gs ! i) \<noteq> l"
    using search_loop_rows [OF reads(4) sorted, of "length gs" l 0] by (auto split: option.splits)
  have "case r of Some i \<Rightarrow> i < length gs \<and> map_of gs l = Some (snd (gs ! i)) | None \<Rightarrow> map_of gs l = None"
  proof (cases r)
    case None
    have "fst g \<noteq> l" if "g \<in> set gs" for g using r(2) None that by (auto simp: in_set_conv_nth)
    then show ?thesis using None by (auto simp: map_of_eq_None_iff)
  next
    case (Some i)
    then have i: "i < length gs" "fst (gs ! i) = l" using r(2) by simp_all
    then have "(l, snd (gs ! i)) \<in> set gs" by (metis nth_mem prod.collapse)
    then show ?thesis using Some i dist by simp
  qed
  then show thesis using that r(1) reads(1-3) by (simp add: find_label_row_def)
qed

abbreviation group_of :: "(u32 \<times> u64 list) list \<Rightarrow> u32 \<Rightarrow> u64 list" where
  "group_of gs l \<equiv> case_option [] (\<lambda>ids. ids) (map_of gs l)"

lemma label_query_written:
  assumes data: "data = write_label_posting_index_plan_payload gs" and fits: "length data < 2 ^ 64" and ok: "label_groups_ok gs"
  shows "query_label_posting_index data l del = Inr (filter (\<lambda>i. i |\<notin>| fmdom del) (group_of gs l))"
    and "label_posting_index_count data l = Inr (length (group_of gs l))"
    and "\<exists>posting. label_posting_index data l = Inr posting \<and> (case posting of None \<Rightarrow> map_of gs l = None
      | Some p \<Rightarrow> (\<exists>ids. map_of gs l = Some ids \<and> snd p = length ids \<and>
          (\<forall>i. id_at_label_posting data p i = Inr (if i < length ids then Some (ids ! i) else None)) \<and>
          (sorted ids \<longrightarrow> (\<forall>x. label_posting_lower_bound data p x = Inr (length (filter (\<lambda>y. y \<le> x) ids))))))"
proof -
  note reads = label_index_reads [OF data fits ok]
  obtain r where r: "find_label_row data l = Inr r"
      "case r of Some i \<Rightarrow> i < length gs \<and> map_of gs l = Some (snd (gs ! i)) | None \<Rightarrow> map_of gs l = None"
    by (rule find_label_written [OF assms])
  let ?posting = "label_posting_index data l"
  have "query_label_posting_index data l del = Inr (filter (\<lambda>i. i |\<notin>| fmdom del) (group_of gs l)) \<and>
      (\<exists>posting. ?posting = Inr posting \<and> (case posting of None \<Rightarrow> map_of gs l = None
      | Some p \<Rightarrow> (\<exists>ids. map_of gs l = Some ids \<and> snd p = length ids \<and>
          (\<forall>i. id_at_label_posting data p i = Inr (if i < length ids then Some (ids ! i) else None)) \<and>
          (sorted ids \<longrightarrow> (\<forall>x. label_posting_lower_bound data p x = Inr (length (filter (\<lambda>y. y \<le> x) ids)))))))"
  proof (cases r)
    case None
    then show ?thesis using r by (simp add: query_label_posting_index_def label_posting_index_def)
  next
    case (Some i)
    define ids where "ids = snd (gs ! i)"
    define s where "s = starts (8 + length gs * 16) group_ids_bytes gs i"
    have i: "i < length gs" "map_of gs l = Some ids" using r(2) Some by (simp_all add: ids_def)
    note span = reads(5) [OF i(1), folded s_def ids_def] and cells = reads(6) [OF i(1), folded s_def ids_def] and ends = reads(7) [OF i(1), folded s_def ids_def]
    have all: "r_map (\<lambda>j. seg_u64_at data (s + j * 8)) [0 ..< length ids] = Inr ids"
      using r_map_nths [of "length ids" "seg_u64_at data" "\<lambda>j. s + j * 8" ids] cells by (simp add: rows_ok_def)
    have checks: "checked_mul_or e (length ids) 8 = Inr (length ids * 8)" "checked_add_or e s (length ids * 8) = Inr (s + length ids * 8)" for e
      using ends fits by (simp_all add: checked_mul_or_def checked_add_or_def)
    have posting: "?posting = Inr (Some (s, length ids))"
      using r(1) Some span checks ends by (simp add: label_posting_index_def)
    have at: "id_at_label_posting data (s, length ids) j = Inr (if j < length ids then Some (ids ! j) else None)" for j
      using cells by (simp add: id_at_label_posting_def rows_ok_def)
    have bound: "label_posting_lower_bound data (s, length ids) x = Inr (length (filter (\<lambda>y. y \<le> x) ids))" if srt: "sorted ids" for x
    proof -
      have down: "ids ! a \<le> x" if "a \<le> b" "b < length ids" "ids ! b \<le> x" for a b
        using sorted_nth_mono [OF srt that(1,2)] that(3) by simp
      obtain p where p: "lower_bound_loop (\<lambda>j. seg_u64_at data (s + j * 8)) (\<lambda>y. y \<le> x) 0 (length ids) = Inr p" "p \<le> length ids"
          "\<And>i. i < p \<Longrightarrow> ids ! i \<le> x" "\<And>i. p \<le> i \<Longrightarrow> i < length ids \<Longrightarrow> \<not> ids ! i \<le> x"
        using lower_bound_loop_rows [OF cells, of "\<lambda>y. y \<le> x" "length ids" 0] down by auto
      have "filter (\<lambda>y. y \<le> x) ids = take p ids"
      proof -
        have "filter (\<lambda>y. y \<le> x) (take p ids) = take p ids" using p(2,3) by (auto simp: filter_id_conv in_set_conv_nth)
        moreover have "filter (\<lambda>y. y \<le> x) (drop p ids) = []" using p(4) by (auto simp: filter_empty_conv in_set_conv_nth)
        ultimately show ?thesis by (metis append_take_drop_id filter_append append_Nil2)
      qed
      then show ?thesis using p(1,2) by (simp add: label_posting_lower_bound_def)
    qed
    have "query_label_posting_index data l del = Inr (filter (\<lambda>i. i |\<notin>| fmdom del) ids)"
      using r(1) Some span all by (simp add: query_label_posting_index_def)
    then show ?thesis using posting at bound i(2) by auto
  qed
  then show query: "query_label_posting_index data l del = Inr (filter (\<lambda>i. i |\<notin>| fmdom del) (group_of gs l))"
    and posting: "\<exists>posting. label_posting_index data l = Inr posting \<and> (case posting of None \<Rightarrow> map_of gs l = None
      | Some p \<Rightarrow> (\<exists>ids. map_of gs l = Some ids \<and> snd p = length ids \<and>
          (\<forall>i. id_at_label_posting data p i = Inr (if i < length ids then Some (ids ! i) else None)) \<and>
          (sorted ids \<longrightarrow> (\<forall>x. label_posting_lower_bound data p x = Inr (length (filter (\<lambda>y. y \<le> x) ids))))))" by blast+
  from posting show "label_posting_index_count data l = Inr (length (group_of gs l))"
    by (auto simp: label_posting_index_count_def split: option.splits)
qed

lemma label_ids_written:
  assumes data: "data = write_label_posting_index_plan_payload gs" and fits: "length data < 2 ^ 64" and ok: "label_groups_ok gs"
  shows "label_posting_index_ids data = Inr (map fst gs)"
proof -
  note reads = label_index_reads(1-4) [OF assms]
  have "r_map (\<lambda>i. label_row_label data i) [0 ..< length gs] = Inr (map fst gs)"
    by (rule r_map_nths) (use reads(4) in \<open>simp_all add: rows_ok_def\<close>)
  then show ?thesis using reads(1-3) by (simp add: label_posting_index_ids_def)
qed

end
