(* ===== verification/Segment_Export.thy ===== *)
theory Segment_Export
  imports Segment_Write Segment_Flush Segment_Indexes_Exact Memtable_Query
begin

text \<open>
  What the memtable hands to the index writers: the groups of a label index and the entries of the
  time index list exactly the current members, in order.
\<close>

section \<open>Sets in order\<close>

lemma sorted_fset_list: "sorted_list_of_fset A = sorted_list_of_set (fset A)"
  by (simp add: sorted_list_of_fset.rep_eq)

lemma sorted_set_list: "sorted xs \<Longrightarrow> distinct xs \<Longrightarrow> xs = sorted_list_of_set (set xs)"
  using sorted_list_of_set.idem_if_sorted_distinct by metis

lemma current_time_set: "fset (current_time_index m) = {k. opt_at m U64_MAX k \<noteq> None}"
proof -
  have "set (List.map_filter (\<lambda>(k, slot). map_option (\<lambda>_. k) (slot_option_current slot)) es) =
      {k. \<exists>slot. (k, slot) \<in> set es \<and> slot_option_current slot \<noteq> None}" for es :: "((u32 \<times> int \<times> u64) \<times> unit membership_slot) list"
    by (induction es) (auto simp: List.map_filter_simps split: option.split)
  then show ?thesis
    by (simp add: current_time_index_def fset_of_list.rep_eq set_btree_entries opt_at_def slot_option_current_at [abs_def] bind_eq_Some_conv
        del: not_None_eq) (auto simp: bind_eq_None_conv)
qed

section \<open>Groups of a label index\<close>

abbreviation no_empty_group :: "(u32 \<times> u64 list) list \<Rightarrow> bool" where
  "no_empty_group gs \<equiv> \<forall>g \<in> set gs. snd g \<noteq> []"

lemma map_of_absent: "l \<notin> fst ` set gs \<Longrightarrow> map_of gs l = None"
  by (simp only: map_of_eq_None_iff not_False_eq_True)

lemma group_of_absent: "l \<notin> fst ` set gs \<Longrightarrow> group_of gs l = []"
  by (simp add: map_of_absent)

lemma group_of_snoc: "c \<notin> fst ` set gs \<Longrightarrow> group_of (gs @ [(c, ids)]) l = (if l = c then ids else group_of gs l)"
  by (cases "l = c") (simp_all add: map_of_absent map_add_def split: option.split)

lemma label_groups_of_map:
  "sorted_wrt (<) (map fst (prepare_label_posting_index_payload m))"
  "group_of (prepare_label_posting_index_payload m) l = (case fmlookup m l of Some ids \<Rightarrow> sorted_list_of_set (fset (fmdom ids)) | None \<Rightarrow> [])"
proof -
  have eq: "prepare_label_posting_index_payload m =
      map (\<lambda>(l, ids). (l, sorted_list_of_fset (fmdom ids))) (filter (\<lambda>e. snd e \<noteq> fmempty) (btree_entries m))"
    by (simp add: prepare_label_posting_index_payload_def case_prod_unfold)
  have fsts: "map fst (map (\<lambda>(l, ids). (l, f ids)) es) = map fst es" for es :: "(u32 \<times> (u64, unit) fmap) list" and f :: "_ \<Rightarrow> u64 list"
    by (simp add: comp_def case_prod_unfold)
  show "sorted_wrt (<) (map fst (prepare_label_posting_index_payload m))"
    unfolding eq fsts filter_btree_entries by simp
  have "map_of (map (\<lambda>(l, ids). (l, sorted_list_of_fset (fmdom ids))) (filter (\<lambda>e. snd e \<noteq> fmempty) es)) l =
      (case map_of es l of Some ids \<Rightarrow> if ids = fmempty then None else Some (sorted_list_of_fset (fmdom ids)) | None \<Rightarrow> None)"
    if "distinct (map fst es)" for es :: "(u32 \<times> (u64, unit) fmap) list"
    using that by (induction es) (auto simp: map_of_eq_None_iff image_iff split: option.split)
  from this [OF distinct_btree_keys, of m]
  show "group_of (prepare_label_posting_index_payload m) l = (case fmlookup m l of Some ids \<Rightarrow> sorted_list_of_set (fset (fmdom ids)) | None \<Rightarrow> [])"
    unfolding eq map_of_btree_entries by (simp add: sorted_fset_list split: option.split)
qed

lemma edge_label_groups:
  "group_of (prepare_label_posting_index_payload (current_label_membership_index src)) l =
     sorted_list_of_set {i. nested_at src U64_MAX (l, i) \<noteq> None}"
proof -
  have members: "fset (fmdom (current_members m)) = {i. opt_at m U64_MAX i \<noteq> None}" for m :: "(u64, unit membership_slot) fmap"
    by (auto simp: fmlookup_dom_iff current_members_lookup)
  have none: "current_members m = fmempty \<Longrightarrow> opt_at m U64_MAX i = None" for m :: "(u64, unit membership_slot) fmap" and i
    using current_members_lookup [of m i] by simp
  show ?thesis
    unfolding label_groups_of_map(2) current_label_membership_index_def non_empty_groups_lookup nested_at_def prod.case
    by (cases "fmlookup src l") (auto simp: members none simp del: not_None_eq)
qed

text \<open>The members of a label in a scan of the ordered label index.\<close>

definition scanned :: "((u32 \<times> u64) \<times> unit membership_slot) list \<Rightarrow> u32 \<Rightarrow> u64 list" where
  "scanned es l = map (snd \<circ> fst) (filter (\<lambda>((l', _), slot). l' = l \<and> slot_option_current slot \<noteq> None) es)"

lemma scanned_simps [simp]:
  "scanned [] l = []"
  "scanned (((l', i), slot) # es) l = (if l' = l \<and> slot_option_current slot \<noteq> None then [i] else []) @ scanned es l"
  by (simp_all add: scanned_def)

lemma scanned_absent: "\<forall>e \<in> set es. l < fst (fst e) \<Longrightarrow> scanned es l = []"
  by (fastforce simp: scanned_def filter_empty_conv)

definition groups_below :: "u32 option \<Rightarrow> (u32 \<times> u64 list) list \<Rightarrow> bool" where
  "groups_below current gs \<longleftrightarrow> (case current of None \<Rightarrow> gs = [] | Some c \<Rightarrow> \<forall>g \<in> set gs. fst g < c)"

lemma posting_groups_loop_spec:
  assumes "sorted (map (fst \<circ> fst) es)" and "groups_below current groups" and "current = None \<Longrightarrow> ids = []"
    and "\<And>c e. current = Some c \<Longrightarrow> e \<in> set es \<Longrightarrow> c \<le> fst (fst e)" and "sorted_wrt (<) (map fst groups)" and "no_empty_group groups"
  shows "sorted_wrt (<) (map fst (posting_groups_loop es current ids groups)) \<and> no_empty_group (posting_groups_loop es current ids groups) \<and>
    group_of (posting_groups_loop es current ids groups) l = group_of groups l @ (if current = Some l then ids else []) @ scanned es l"
  using assms
proof (induction es current ids groups rule: posting_groups_loop.induct)
  case (1 current ids groups)
  show ?case
  proof (cases "ids = []")
    case False
    then obtain c where c: "current = Some c" using "1.prems"(3) by (cases current) auto
    have below: "\<forall>g \<in> set groups. fst g < c" using "1.prems"(2) c by (simp add: groups_below_def)
    then have absent: "c \<notin> fst ` set groups" by auto
    have "sorted_wrt (<) (map fst (groups @ [(c, ids)]))" using "1.prems"(5) below by (auto simp: sorted_wrt_append)
    moreover have "group_of (groups @ [(c, ids)]) l = group_of groups l @ (if c = l then ids else [])"
      unfolding group_of_snoc [OF absent] using group_of_absent [OF absent] by auto
    ultimately show ?thesis using False c "1.prems"(6) by simp
  qed (use "1.prems" in auto)
next
  case (2 label_id node_id slot rest current ids groups)
  let ?member = "if slot_option_current slot \<noteq> None then [node_id] else []"
  have above: "label_id \<le> fst (fst e)" if "e \<in> set rest" for e using "2.prems"(1) that by auto
  have srt: "sorted (map (\<lambda>e. fst (fst e)) rest)" using "2.prems"(1) by (simp add: comp_def)
  show ?case
  proof (cases "current = Some label_id")
    case True
    have step: "posting_groups_loop (((label_id, node_id), slot) # rest) current ids groups = posting_groups_loop rest current (ids @ ?member) groups"
      using True by (simp add: Let_def)
    have "sorted_wrt (<) (map fst (posting_groups_loop rest current (ids @ ?member) groups)) \<and>
        no_empty_group (posting_groups_loop rest current (ids @ ?member) groups) \<and>
        group_of (posting_groups_loop rest current (ids @ ?member) groups) l = group_of groups l @ (if current = Some l then ids @ ?member else []) @ scanned rest l"
      by (rule "2.IH"(2) [OF refl]) (use True srt "2.prems"(2,5,6) above in \<open>auto simp: comp_def\<close>)
    then show ?thesis unfolding step using True by auto
  next
    case False
    define gs where "gs = (if ids \<noteq> [] then groups @ [(the current, ids)] else groups)"
    have lower: "c < label_id" if "current = Some c" for c using "2.prems"(4) [OF that, of "((label_id, node_id), slot)"] False that by auto
    have step: "posting_groups_loop (((label_id, node_id), slot) # rest) current ids groups = posting_groups_loop rest (Some label_id) ?member gs"
      using False by (simp add: Let_def gs_def)
    have gs: "\<forall>g \<in> set gs. fst g < label_id" "sorted_wrt (<) (map fst gs)" "no_empty_group gs"
        "group_of gs l = group_of groups l @ (if current = Some l then ids else [])"
    proof -
      have "(\<forall>g \<in> set gs. fst g < label_id) \<and> sorted_wrt (<) (map fst gs) \<and> no_empty_group gs \<and>
          group_of gs l = group_of groups l @ (if current = Some l then ids else [])"
      proof (cases current)
        case None
        then have "gs = []" using "2.prems"(2,3) by (simp add: gs_def groups_below_def)
        moreover have "groups = []" using "2.prems"(2) None by (simp add: groups_below_def)
        ultimately show ?thesis using None by simp
      next
        case (Some c)
        have below: "\<forall>g \<in> set groups. fst g < c" using "2.prems"(2) Some by (simp add: groups_below_def)
        then have absent: "c \<notin> fst ` set groups" by auto
        have low: "\<forall>g \<in> set groups. fst g < label_id" using below lower [OF Some] by (meson order_less_trans)
        have "group_of gs l = group_of groups l @ (if current = Some l then ids else [])"
        proof (cases "ids = []")
          case False
          then show ?thesis unfolding gs_def using group_of_snoc [OF absent, of ids l] group_of_absent [OF absent] Some by auto
        qed (simp add: gs_def)
        moreover have "sorted_wrt (<) (map fst gs)" using "2.prems"(5) below Some by (auto simp: gs_def sorted_wrt_append)
        moreover have "\<forall>g \<in> set gs. fst g < label_id" using low lower [OF Some] Some by (simp add: gs_def)
        ultimately show ?thesis using "2.prems"(6) by (simp add: gs_def)
      qed
      then show "\<forall>g \<in> set gs. fst g < label_id" "sorted_wrt (<) (map fst gs)" "no_empty_group gs"
        "group_of gs l = group_of groups l @ (if current = Some l then ids else [])" by blast+
    qed
    have ih: "sorted_wrt (<) (map fst (posting_groups_loop rest (Some label_id) ?member gs)) \<and>
        no_empty_group (posting_groups_loop rest (Some label_id) ?member gs) \<and>
        group_of (posting_groups_loop rest (Some label_id) ?member gs) l = group_of gs l @ (if Some label_id = Some l then ?member else []) @ scanned rest l"
      unfolding gs_def
      by (rule "2.IH"(1) [OF refl]) (use False srt gs(1-3) [unfolded gs_def] above in \<open>auto simp: groups_below_def comp_def\<close>)
    show ?thesis
    proof (cases "current = Some l")
      case True
      then have "l < label_id" by (rule lower)
      then have "scanned rest l = []" using above by (intro scanned_absent ballI) (rule order_less_le_trans)
      then show ?thesis unfolding step using ih gs(4) True \<open>l < label_id\<close> by auto
    qed (use ih gs(4) step in auto)
  qed
qed

lemma node_label_groups:
  "sorted_wrt (<) (map fst (node_label_posting_groups_current st))" "no_empty_group (node_label_posting_groups_current st)"
  "group_of (node_label_posting_groups_current st) l = sorted_list_of_set {i. opt_at (label_node_index st) U64_MAX (l, i) \<noteq> None}"
proof -
  let ?es = "btree_entries (label_node_index st)"
  note spec = posting_groups_loop_spec [of ?es None "[]" "[]" l, OF _ _ _ _ _ _, folded node_label_posting_groups_current_def]
  have srt: "sorted (map (fst \<circ> fst) ?es)" using sorted_labels [OF sorted_btree_keys, of "label_node_index st"] by (simp add: comp_def)
  have all: "sorted_wrt (<) (map fst (node_label_posting_groups_current st)) \<and> no_empty_group (node_label_posting_groups_current st) \<and>
      group_of (node_label_posting_groups_current st) l = group_of [] l @ [] @ scanned ?es l"
    using spec [OF srt] by (simp add: groups_below_def)
  then show "sorted_wrt (<) (map fst (node_label_posting_groups_current st))" "no_empty_group (node_label_posting_groups_current st)" by blast+
  have members: "scanned ?es l = map snd (map fst (filter (\<lambda>((l', _), slot). l' = l \<and> slot_option_current slot \<noteq> None) ?es))"
    by (simp add: scanned_def)
  have keys: "map fst (filter (\<lambda>((l', _), slot). l' = l \<and> slot_option_current slot \<noteq> None) ?es) =
      sorted_list_of_set {k. fst k = l \<and> opt_at (label_node_index st) U64_MAX k \<noteq> None}" (is "?ks = sorted_list_of_set ?K")
    unfolding filter_btree_entries
    by (intro arg_cong [where f = sorted_list_of_set]) (auto simp: opt_at_def slot_option_current_at [abs_def] bind_eq_Some_conv split: prod.splits)
  have fin: "finite ?K" by (rule finite_subset [OF _ finite_opt_at [of "label_node_index st" U64_MAX]]) auto
  have "sorted (map snd ?ks)"
  proof -
    have "sorted ?ks" unfolding keys by simp
    then have "sorted_wrt (\<lambda>a b. snd a \<le> snd b) ?ks"
      by (rule sorted_wrt_mono_rel [rotated]) (use fin in \<open>auto simp: keys less_eq_prod_def\<close>)
    then show ?thesis by (simp only: sorted_map)
  qed
  moreover have "distinct (map snd ?ks)"
    unfolding keys distinct_map using fin by (auto simp: inj_on_def prod_eq_iff)
  ultimately have "map snd ?ks = sorted_list_of_set (set (map snd ?ks))" by (rule sorted_set_list)
  also have "set (map snd ?ks) = {i. opt_at (label_node_index st) U64_MAX (l, i) \<noteq> None}"
    unfolding keys using fin by (force simp: image_iff simp del: not_None_eq)
  finally show "group_of (node_label_posting_groups_current st) l = sorted_list_of_set {i. opt_at (label_node_index st) U64_MAX (l, i) \<noteq> None}"
    using all members by simp
qed

end
