(* ===== verification/Segment_Written.thy ===== *)
theory Segment_Written
  imports Segment_Open Segment_Export
begin

text \<open>
  A memtable written as a segment and opened again: every part of the open segment holds what the
  memtable shows at the last sequence number. Each lemma joins what a component promises about the
  bytes it wrote with what the memtable handed to it.
\<close>

definition flushed_segment :: "walk \<Rightarrow> to_vec \<Rightarrow> memtable_state \<Rightarrow> segment_reader \<Rightarrow> bool" where
  "flushed_segment walk to_vec st sr \<longleftrightarrow>
     (\<exists>files. write_segment_inner walk to_vec st = Inr files \<and> files_fit files \<and> open_segment files = Inr sr)"

lemma flushed_records:
  assumes reach: "memtable_reach pv st w" and flushed: "flushed_segment walk tv st sr" and ok: "flushable tv st"
  shows "nodes_written tv (current_nodes st) sr" and "edges_written tv (current_edges st) sr"
    and "sr_deleted_nodes sr = deleted_nodes st" and "sr_deleted_edges sr = deleted_edges st" and "flushed_adjacency walk st sr"
proof -
  from flushed obtain files where files: "write_segment_inner walk tv st = Inr files" "files_fit files" "open_segment files = Inr sr"
    by (auto simp: flushed_segment_def)
  note parts = open_segment_parts [OF files(3)]
  from files(1) show "nodes_written tv (current_nodes st) sr"
    by (rule write_segment_parts) (use parts files(2) ok keyed_current(1) [OF reach] in
      \<open>auto simp: nodes_written_def files_fit_def flushable_def lookup_current\<close>)
  from files(1) show "edges_written tv (current_edges st) sr"
    by (rule write_segment_parts) (use parts files(2) ok keyed_current(2) [OF reach] in
      \<open>auto simp: edges_written_def files_fit_def flushable_def lookup_current\<close>)
  have "load_tombstones_from_bytes (sf_tombstones files) = Inr (deleted_nodes st, deleted_edges st)"
    by (rule write_segment_parts [OF files(1)]) (use files(2) load_written_tombstones in \<open>simp add: files_fit_def\<close>)
  then show del: "sr_deleted_nodes sr = deleted_nodes st" "sr_deleted_edges sr = deleted_edges st" using parts(17) by simp_all
  from files(1) show "flushed_adjacency walk st sr"
    by (rule write_segment_parts) (use parts del in \<open>auto simp: flushed_adjacency_def Let_def\<close>)
qed

lemma flushed_indexes:
  assumes "flushed_segment walk tv st sr"
  shows "sr_node_label_index sr = write_label_posting_index_plan_payload (node_label_posting_groups_current st)"
    and "sr_edge_label_index sr = write_label_posting_index_plan_payload
      (prepare_label_posting_index_payload (current_label_membership_index (label_edge_index st)))"
    and "sr_timestamp_index sr = write_timestamp_index_plan_payload (prepare_timestamp_index_payload (current_time_index (time_node_index st)))"
    and "sr_edge_triple_index sr = write_edge_triple_index_plan_payload (prepare_edge_triple_index_payload walk (current_edges st))"
    and "\<exists>keys. prepare_key_index_payload walk (current_nodes st) = Inr keys \<and> sr_key_index sr = write_key_index_plan_payload keys"
    and "length (sr_node_label_index sr) < 2 ^ 64" and "length (sr_edge_label_index sr) < 2 ^ 64" and "length (sr_timestamp_index sr) < 2 ^ 64"
    and "length (sr_edge_triple_index sr) < 2 ^ 64" and "length (sr_key_index sr) < 2 ^ 64"
    and "length (sr_adj_out_idx sr) < 2 ^ 64" and "length (sr_adj_out_dat sr) < 2 ^ 64"
    and "length (sr_adj_in_idx sr) < 2 ^ 64" and "length (sr_adj_in_dat sr) < 2 ^ 64"
proof -
  from assms obtain files where files: "write_segment_inner walk tv st = Inr files" "files_fit files" "open_segment files = Inr sr"
    by (auto simp: flushed_segment_def)
  note parts = open_segment_parts [OF files(3)]
  show "sr_node_label_index sr = write_label_posting_index_plan_payload (node_label_posting_groups_current st)"
    "sr_edge_label_index sr = write_label_posting_index_plan_payload
      (prepare_label_posting_index_payload (current_label_membership_index (label_edge_index st)))"
    "sr_timestamp_index sr = write_timestamp_index_plan_payload (prepare_timestamp_index_payload (current_time_index (time_node_index st)))"
    "sr_edge_triple_index sr = write_edge_triple_index_plan_payload (prepare_edge_triple_index_payload walk (current_edges st))"
    "\<exists>keys. prepare_key_index_payload walk (current_nodes st) = Inr keys \<and> sr_key_index sr = write_key_index_plan_payload keys"
    by (rule write_segment_parts [OF files(1)], simp add: parts)+
  show "length (sr_node_label_index sr) < 2 ^ 64" "length (sr_edge_label_index sr) < 2 ^ 64" "length (sr_timestamp_index sr) < 2 ^ 64"
    "length (sr_edge_triple_index sr) < 2 ^ 64" "length (sr_key_index sr) < 2 ^ 64" "length (sr_adj_out_idx sr) < 2 ^ 64"
    "length (sr_adj_out_dat sr) < 2 ^ 64" "length (sr_adj_in_idx sr) < 2 ^ 64" "length (sr_adj_in_dat sr) < 2 ^ 64"
    using files(2) by (simp_all add: files_fit_def parts)
qed

section \<open>Live records are not deleted\<close>

lemma live_not_deleted:
  "node_at st i U64_MAX = Some n \<Longrightarrow> i |\<notin>| fmdom (deleted_nodes st)"
  "edge_at st i U64_MAX = Some e \<Longrightarrow> i |\<notin>| fmdom (deleted_edges st)"
  by (auto simp: fmlookup_dom_iff lookup_deleted node_at_def node_tombstone_current_def edge_at_def edge_tombstone_current_def
      split: Option.bind_splits elim!: live_value.elims)

lemma live_finite: "finite {i. node_at st i U64_MAX \<noteq> None}" "finite {i. edge_at st i U64_MAX \<noteq> None}"
  and live_card: "card {i. node_at st i U64_MAX \<noteq> None} = fcard (fmdom (current_nodes st))"
    "card {i. edge_at st i U64_MAX \<noteq> None} = fcard (fmdom (current_edges st))"
proof -
  have "fset (fmdom (current_nodes st)) = {i. node_at st i U64_MAX \<noteq> None}" "fset (fmdom (current_edges st)) = {i. edge_at st i U64_MAX \<noteq> None}"
    by (auto simp: fmlookup_dom_iff lookup_current)
  then show "finite {i. node_at st i U64_MAX \<noteq> None}" "finite {i. edge_at st i U64_MAX \<noteq> None}"
    "card {i. node_at st i U64_MAX \<noteq> None} = fcard (fmdom (current_nodes st))"
    "card {i. edge_at st i U64_MAX \<noteq> None} = fcard (fmdom (current_edges st))"
    by (metis finite_fset, metis finite_fset, simp_all add: fcard.rep_eq)
qed

lemma few_live:
  assumes "flushable tv st"
  shows "A \<subseteq> {i. node_at st i U64_MAX \<noteq> None} \<Longrightarrow> card A < 2 ^ 32" and "A \<subseteq> {i. edge_at st i U64_MAX \<noteq> None} \<Longrightarrow> card A < 2 ^ 32"
proof -
  have "card {i. node_at st i U64_MAX \<noteq> None} < 2 ^ 32" "card {i. edge_at st i U64_MAX \<noteq> None} < 2 ^ 32"
    using assms unfolding live_card flushable_def by blast+
  then show "A \<subseteq> {i. node_at st i U64_MAX \<noteq> None} \<Longrightarrow> card A < 2 ^ 32" "A \<subseteq> {i. edge_at st i U64_MAX \<noteq> None} \<Longrightarrow> card A < 2 ^ 32"
    using card_mono [OF live_finite(1), of A st] card_mono [OF live_finite(2), of A st] by linarith+
qed

lemma filter_live:
  "set xs \<subseteq> {i. node_at st i U64_MAX \<noteq> None} \<Longrightarrow> filter (\<lambda>i. i |\<notin>| fmdom (deleted_nodes st)) xs = xs"
  "set ys \<subseteq> {i. edge_at st i U64_MAX \<noteq> None} \<Longrightarrow> filter (\<lambda>i. i |\<notin>| fmdom (deleted_edges st)) ys = ys"
  using live_not_deleted by (intro filter_True; blast)+

section \<open>Adjacency\<close>

lemma fmdom_within:
  assumes "\<And>i x. fmlookup m i = Some x \<Longrightarrow> P i"
  shows "fset (fmdom m) \<subseteq> {i. P i}"
proof
  fix i assume "i \<in> fset (fmdom m)"
  then obtain x where "fmlookup m i = Some x" by (auto simp: fmlookup_dom_iff)
  from assms [OF this] show "i \<in> {i. P i}" by (rule CollectI)
qed

lemma flushed_adjacency_fits:
  assumes reach: "memtable_reach pv st w" and flushed: "flushed_segment walk tv st sr" and ok: "flushable tv st"
  shows "adjacency_fits st sr"
proof -
  have few: "fcard (fmdom es) < 2 ^ 32" if "\<And>i x. fmlookup es i = Some x \<Longrightarrow> edge_at st i U64_MAX \<noteq> None" for es :: "(u64, adj_entry) fmap"
  proof -
    have "fset (fmdom es) \<subseteq> {i. edge_at st i U64_MAX \<noteq> None}" using that by (rule fmdom_within)
    from few_live(2) [OF ok this] show ?thesis by (simp add: fcard.rep_eq)
  qed
  note at = reach_edge_index(4,5) [OF reach, of U64_MAX]
  have "fcard (fmdom es) < 2 ^ 32" if "fmlookup (current_adj_map (adj_out st)) n = Some es \<or> fmlookup (current_adj_map (adj_in st)) n = Some es" for n es
    by (rule few) (use that at current_adj_lookup in \<open>metis option.distinct(1)\<close>)
  then show ?thesis using flushed_indexes(11-14) [OF flushed] by (simp add: adjacency_fits_def)
qed

section \<open>Labels\<close>

lemma groups_small:
  assumes order: "sorted_wrt (<) (map fst gs)" and groups: "\<And>l. group_of gs l = sorted_list_of_set (A l)" and small: "\<And>l. card (A l) < 2 ^ 32"
  shows "label_groups_ok gs"
proof -
  have dist: "distinct (map fst gs)" using order by (simp add: strict_sorted_iff)
  have "length (snd g) < 2 ^ 32" if "g \<in> set gs" for g
  proof -
    have "map_of gs (fst g) = Some (snd g)" using dist that by (simp add: map_of_is_SomeI)
    then have "snd g = sorted_list_of_set (A (fst g))" using groups [of "fst g"] by simp
    then show ?thesis using small by simp
  qed
  then show ?thesis using order by (simp add: label_groups_ok_def)
qed

lemma node_label_members:
  assumes "memtable_reach pv st w"
  shows "group_of (node_label_posting_groups_current st) l = sorted_list_of_set {i. \<exists>n. node_at st i U64_MAX = Some n \<and> l \<in> labels_of n}"
  unfolding node_label_groups(3) reach_node_index(1) [OF assms] ..

lemma edge_label_members:
  assumes "memtable_reach pv st w"
  shows "group_of (prepare_label_posting_index_payload (current_label_membership_index (label_edge_index st))) l =
    sorted_list_of_set {i. \<exists>e. edge_at st i U64_MAX = Some e \<and> e_label_id e = l}"
  unfolding edge_label_groups reach_edge_index(1) [OF assms] ..

lemma label_members_live:
  "{i. \<exists>n. node_at st i U64_MAX = Some n \<and> P n} \<subseteq> {i. node_at st i U64_MAX \<noteq> None}"
  "{i. \<exists>e. edge_at st i U64_MAX = Some e \<and> Q e} \<subseteq> {i. edge_at st i U64_MAX \<noteq> None}"
  by auto

lemma label_members_finite [simp]:
  "finite {i. \<exists>n. node_at st i U64_MAX = Some n \<and> P n}" "finite {i. \<exists>e. edge_at st i U64_MAX = Some e \<and> Q e}"
  by (rule finite_subset [OF label_members_live(1) live_finite(1)], rule finite_subset [OF label_members_live(2) live_finite(2)])

lemma flushed_labels:
  assumes reach: "memtable_reach pv st w" and flushed: "flushed_segment walk tv st sr" and ok: "flushable tv st"
  shows "nodes_by_label_id sr l = Inr (sorted_list_of_set {i. \<exists>n. node_at st i U64_MAX = Some n \<and> l \<in> labels_of n})"
    and "label_posting_index_count (sr_node_label_index sr) l = Inr (card {i. \<exists>n. node_at st i U64_MAX = Some n \<and> l \<in> labels_of n})"
    and "edges_by_label_id sr l = Inr (sorted_list_of_set {i. \<exists>e. edge_at st i U64_MAX = Some e \<and> e_label_id e = l})"
    and "label_posting_index_count (sr_edge_label_index sr) l = Inr (card {i. \<exists>e. edge_at st i U64_MAX = Some e \<and> e_label_id e = l})"
    and "segment_node_label_ids sr = Inr (sorted_list_of_set {l. \<exists>i n. node_at st i U64_MAX = Some n \<and> l \<in> labels_of n})"
proof -
  note idx = flushed_indexes [OF flushed] and del = flushed_records(3,4) [OF reach flushed ok]
  let ?gs = "node_label_posting_groups_current st" and ?N = "\<lambda>l. {i. \<exists>n. node_at st i U64_MAX = Some n \<and> l \<in> labels_of n}"
  have gs: "label_groups_ok ?gs"
    by (rule groups_small [where A = ?N, OF node_label_groups(1)]) (simp_all only: node_label_members [OF reach] few_live(1) [OF ok label_members_live(1)])
  note query = label_query_written [OF idx(1,6) gs]
  have live: "filter (\<lambda>i. i |\<notin>| fmdom (deleted_nodes st)) (sorted_list_of_set (?N l)) = sorted_list_of_set (?N l)"
    by (rule filter_live(1)) auto
  show "nodes_by_label_id sr l = Inr (sorted_list_of_set (?N l))"
    unfolding nodes_by_label_id_def query(1) del node_label_members [OF reach] live ..
  show "label_posting_index_count (sr_node_label_index sr) l = Inr (card (?N l))" by (simp add: query(2) node_label_members [OF reach])
  let ?es = "prepare_label_posting_index_payload (current_label_membership_index (label_edge_index st))"
    and ?E = "\<lambda>l. {i. \<exists>e. edge_at st i U64_MAX = Some e \<and> e_label_id e = l}"
  have es: "label_groups_ok ?es"
    by (rule groups_small [where A = ?E, OF label_groups_of_map(1)]) (simp_all only: edge_label_members [OF reach] few_live(2) [OF ok label_members_live(2)])
  note equery = label_query_written [OF idx(2,7) es]
  have elive: "filter (\<lambda>i. i |\<notin>| fmdom (deleted_edges st)) (sorted_list_of_set (?E l)) = sorted_list_of_set (?E l)"
    by (rule filter_live(2)) auto
  show "edges_by_label_id sr l = Inr (sorted_list_of_set (?E l))"
    unfolding edges_by_label_id_def equery(1) del edge_label_members [OF reach] elive ..
  show "label_posting_index_count (sr_edge_label_index sr) l = Inr (card (?E l))" by (simp add: equery(2) edge_label_members [OF reach])
  have "l \<in> set (map fst ?gs) \<longleftrightarrow> (\<exists>i n. node_at st i U64_MAX = Some n \<and> l \<in> labels_of n)" for l
  proof -
    have "l \<in> set (map fst ?gs) \<longleftrightarrow> group_of ?gs l \<noteq> []"
    proof (cases "map_of ?gs l")
      case None
      then have "l \<notin> fst ` set ?gs" by (simp only: map_of_eq_None_iff not_False_eq_True)
      then show ?thesis using None by simp
    next
      case (Some ids)
      then have g: "(l, ids) \<in> set ?gs" by (rule map_of_SomeD)
      then have "ids \<noteq> []" using node_label_groups(2) [of st] by fastforce
      moreover have "l \<in> set (map fst ?gs)" using g by force
      ultimately show ?thesis using Some by simp
    qed
    also have "\<dots> \<longleftrightarrow> ?N l \<noteq> {}" by (simp add: node_label_members [OF reach])
    finally show ?thesis by blast
  qed
  then have "set (map fst ?gs) = {l. \<exists>i n. node_at st i U64_MAX = Some n \<and> l \<in> labels_of n}" by blast
  moreover have "map fst ?gs = sorted_list_of_set (set (map fst ?gs))"
    using node_label_groups(1) [of st] by (intro sorted_set_list) (simp_all only: strict_sorted_iff)
  ultimately show "segment_node_label_ids sr = Inr (sorted_list_of_set {l. \<exists>i n. node_at st i U64_MAX = Some n \<and> l \<in> labels_of n})"
    unfolding segment_node_label_ids_def label_ids_written [OF idx(1,6) gs] by simp
qed

section \<open>Update times\<close>

lemma flushed_times:
  assumes reach: "memtable_reach pv st w" and flushed: "flushed_segment walk tv st sr" and ok: "flushable tv st"
  shows "segment_nodes_by_time_range sr l from to = Inr (sorted_list_of_set
    {i. \<exists>n. node_at st i U64_MAX = Some n \<and> l \<in> labels_of n \<and> sint from \<le> sint (n_updated_at n) \<and> sint (n_updated_at n) \<le> sint to})"
proof -
  note idx = flushed_indexes(3,8) [OF flushed] and del = flushed_records(3) [OF reach flushed ok]
  let ?xs = "prepare_timestamp_index_payload (current_time_index (time_node_index st))"
    and ?N = "{i. \<exists>n. node_at st i U64_MAX = Some n \<and> l \<in> labels_of n \<and> sint from \<le> sint (n_updated_at n) \<and> sint (n_updated_at n) \<le> sint to}"
  have mem: "(l', t, i) \<in> set ?xs \<longleftrightarrow> (\<exists>n. node_at st i U64_MAX = Some n \<and> l' \<in> labels_of n \<and> sint (n_updated_at n) = t)" for l' t i
    unfolding reach_node_index(2) [OF reach, symmetric] using current_time_set [of "time_node_index st"] by (auto simp: prepare_timestamp_index_payload_def set_eq_iff)
  have dist: "distinct ?xs" and srt: "sorted ?xs" by (simp_all add: prepare_timestamp_index_payload_def sorted_fset_list)
  have times: "times_ok ?xs"
    unfolding times_ok_def using srt by (auto simp: mem)
  let ?ids = "times_between ?xs l (sint from) (sint to)"
  have ids: "set ?ids = ?N"
    unfolding times_between_def by (force simp: time_key_def time_id_def mem image_iff)
  have "distinct ?ids"
    unfolding times_between_def distinct_map
  proof (intro conjI inj_onI)
    fix x y assume "x \<in> set (filter (\<lambda>x. fst (time_key x) = l \<and> sint from \<le> snd (time_key x) \<and> snd (time_key x) \<le> sint to) ?xs)"
      "y \<in> set (filter (\<lambda>x. fst (time_key x) = l \<and> sint from \<le> snd (time_key x) \<and> snd (time_key x) \<le> sint to) ?xs)" "time_id x = time_id y"
    moreover obtain lx tx ix ly ty iy where "x = (lx, tx, ix)" "y = (ly, ty, iy)" by (metis prod_cases3)
    ultimately have "lx = l" "ly = l" "ix = iy" "(lx, tx, ix) \<in> set ?xs" "(ly, ty, iy) \<in> set ?xs" "x = (lx, tx, ix)" "y = (ly, ty, iy)"
      by (auto simp: time_key_def time_id_def)
    then show "x = y" unfolding mem by auto
  qed (use dist in simp)
  then have "sort ?ids = sorted_list_of_set ?N" unfolding ids [symmetric] by (simp add: sorted_list_of_set_sort_remdups distinct_remdups_id)
  moreover have "filter (\<lambda>i. i |\<notin>| fmdom (deleted_nodes st)) ?ids = ?ids" by (rule filter_live(1)) (auto simp: ids)
  ultimately show ?thesis unfolding time_range_written(1) [OF idx times] del by simp
qed

section \<open>Edge triples\<close>

lemma remdups_adj_set: "sorted xs \<Longrightarrow> remdups_adj xs = sorted_list_of_set (set xs)"
proof -
  assume "sorted xs"
  then have "sorted (remdups_adj xs) \<and> distinct (remdups_adj xs)"
  proof (induction xs rule: remdups_adj.induct)
    case (3 x y xs)
    then show ?case by (cases "x = y") auto
  qed simp_all
  then show ?thesis using sorted_set_list [of "remdups_adj xs"] by simp
qed

lemma flushed_triples:
  assumes reach: "memtable_reach pv st w" and walk: "walk_ok walk" and flushed: "flushed_segment walk tv st sr" and ok: "flushable tv st"
  shows "edge_ids_by_triple sr t = Inr (sorted_list_of_set {i. \<exists>e. edge_at st i U64_MAX = Some e \<and> triple_of e = t})"
proof -
  note idx = flushed_indexes(4,9) [OF flushed] and del = flushed_records(4) [OF reach flushed ok]
  let ?xs = "prepare_edge_triple_index_payload walk (current_edges st)" and ?E = "{i. \<exists>e. edge_at st i U64_MAX = Some e \<and> triple_of e = t}"
  have srt: "sorted ?xs" by (simp add: prepare_edge_triple_index_payload_def)
  have mem: "(a, b, l, i) \<in> set ?xs \<longleftrightarrow> (\<exists>e. edge_at st i U64_MAX = Some e \<and> triple_of e = (a, b, l))" for a b l i
  proof -
    have "set (walk (fmdom (current_edges st))) = {i. edge_at st i U64_MAX \<noteq> None}"
      using walk by (auto simp: walk_ok_def fmlookup_dom_iff lookup_current)
    moreover have "e_id e = k" if "edge_at st k U64_MAX = Some e" for k e
      using keyed_current(2) [OF reach] that by (auto simp: keyed_def lookup_current)
    ultimately show ?thesis
      by (force simp: prepare_edge_triple_index_payload_def Let_def image_iff lookup_current)
  qed
  let ?ids = "map triple_id (filter (\<lambda>x. triple_key x = t) ?xs)"
  have ids: "set ?ids = ?E"
    by (cases t) (force simp: triple_key_def triple_id_def mem image_iff)
  have "filter (\<lambda>i. i |\<notin>| fmdom (deleted_edges st)) ?ids = ?ids" by (rule filter_live(2)) (unfold ids, auto)
  then show ?thesis unfolding triple_ids_written [OF idx srt] del using ids by (simp add: remdups_adj_set del: set_map)
qed

section \<open>Keys\<close>

definition key_row_of :: "node_record \<Rightarrow> u32 \<Rightarrow> key_index_entry" where
  "key_row_of n l = \<lparr>ke_label_id = l, ke_key = n_key n, ke_node_id = n_id n, ke_encoded_len = of_nat (14 + length (n_key n))\<rparr>"

lemma key_row_of_simps [simp]:
  "entry_key (key_row_of n l) = (l, n_key n)" "ke_key (key_row_of n l) = n_key n" "ke_node_id (key_row_of n l) = n_id n"
  "ke_encoded_len (key_row_of n l) = of_nat (14 + length (n_key n))"
  by (simp_all add: key_row_of_def entry_key_def)

lemma key_index_entries_rows:
  "key_index_entries n = (if length (n_key n) > 65535 then Inl (SerializationError ''node key exceeds maximum length'')
    else Inr (map (key_row_of n) (as_slice (n_label_ids n))))"
  by (simp add: key_index_entries_def key_row_of_def)

lemma all_key_rows:
  "r_map key_index_entries ns = Inr ps \<Longrightarrow>
    (\<forall>e. e \<in> set (concat ps) \<longleftrightarrow> (\<exists>n \<in> set ns. \<exists>l \<in> labels_of n. e = key_row_of n l)) \<and> (\<forall>n \<in> set ns. length (n_key n) \<le> 65535)"
proof (induction ns arbitrary: ps)
  case (Cons n ns)
  then obtain qs where q: "r_map key_index_entries ns = Inr qs" "ps = map (key_row_of n) (as_slice (n_label_ids n)) # qs" "length (n_key n) \<le> 65535"
    by (auto simp: r_bind_eq_Inr key_index_entries_rows [of n] split: if_splits)
  show ?case using Cons.IH [OF q(1)] q(2,3) by auto
qed simp

lemma prepared_keys:
  assumes keys: "prepare_key_index_payload walk m = Inr es" and walk: "walk_ok walk" and keyed: "keyed n_id m"
    and ok: "\<And>k n. fmlookup m k = Some n \<Longrightarrow> node_ok n"
  shows "keys_ok es" and "(\<exists>e \<in> set es. entry_key e = (l, k) \<and> ke_node_id e = i) \<longleftrightarrow> (\<exists>n. fmlookup m i = Some n \<and> l \<in> labels_of n \<and> n_key n = k)"
proof -
  let ?nodes = "map (\<lambda>k. the (fmlookup m k)) (walk (fmdom m))"
  from keys obtain parts where parts: "r_map key_index_entries ?nodes = Inr parts" and es: "es = sort_key key_order (concat parts)" "\<not> duplicate_key_pair es"
    by (auto simp: prepare_key_index_payload_def r_bind_eq_Inr Let_def split: if_splits)
  have nodes: "set ?nodes = {n. \<exists>k. fmlookup m k = Some n}"
    using walk by (force simp: walk_ok_def fmlookup_dom_iff image_iff)
  note rows = all_key_rows [OF parts]
  have mem: "e \<in> set es \<longleftrightarrow> (\<exists>n l. (\<exists>k. fmlookup m k = Some n) \<and> l \<in> labels_of n \<and> e = key_row_of n l)" for e
    using rows unfolding nodes es(1) set_sort by blast
  have short: "length (n_key n) \<le> 65535" if "fmlookup m k = Some n" for n k using rows that unfolding nodes by blast
  have "utf8_valid (n_key n)" if "fmlookup m k = Some n" for n k using ok [OF that] by (simp add: node_ok_def)
  then have "\<forall>e \<in> set es. length (ke_key e) \<le> 65535 \<and> utf8_valid (ke_key e) \<and> ke_encoded_len e = of_nat (14 + length (ke_key e))"
    using short by (auto simp: mem)
  then show "keys_ok es" using es by (simp add: keys_ok_def)
  show "(\<exists>e \<in> set es. entry_key e = (l, k) \<and> ke_node_id e = i) \<longleftrightarrow> (\<exists>n. fmlookup m i = Some n \<and> l \<in> labels_of n \<and> n_key n = k)"
    unfolding Bex_def mem using keyed by (fastforce simp: keyed_def)
qed

lemma flushed_keys:
  assumes reach: "memtable_reach pv st w" and walk: "walk_ok walk" and flushed: "flushed_segment walk tv st sr" and ok: "flushable tv st"
  obtains find_id where "\<And>t. binary_search_key_index sr t = Inr (find_id t)"
    and "\<And>lookups. sorted (map snd lookups) \<Longrightarrow> resolve_keys_to_ids sr lookups = Inr (hits find_id lookups)"
    and "\<And>l k i. find_id (l, k) = Some i \<longleftrightarrow> (\<exists>n. node_at st i U64_MAX = Some n \<and> l \<in> labels_of n \<and> n_key n = k)"
proof -
  note idx = flushed_indexes(5,10) [OF flushed]
  then obtain es where keys: "prepare_key_index_payload walk (current_nodes st) = Inr es" and data: "sr_key_index sr = write_key_index_plan_payload es"
    by blast
  have nodes: "node_ok n" if "fmlookup (current_nodes st) k = Some n" for k n using ok that by (simp add: flushable_def lookup_current)
  note es = prepared_keys [OF keys walk keyed_current(1) [OF reach] nodes]
  show thesis
  proof (rule that)
    show "binary_search_key_index sr t = Inr (key_rows es t)" for t by (rule key_search_written [OF data idx(2) es(1)])
    show "resolve_keys_to_ids sr lookups = Inr (hits (key_rows es) lookups)" if "sorted (map snd lookups)" for lookups
      by (rule resolve_keys_written [OF data idx(2) es(1) that])
    show "key_rows es (l, k) = Some i \<longleftrightarrow> (\<exists>n. node_at st i U64_MAX = Some n \<and> l \<in> labels_of n \<and> n_key n = k)" for l k i
      using key_rows_iff [OF es(1), where t = "(l, k)" and i = i] es(2) [where l = l and k = k and i = i] by (simp only: lookup_current)
  qed
qed

end
