(* ===== verification/Segment_Total.thy ===== *)
theory Segment_Total
  imports Segment_Written
begin

text \<open>
  Writing a segment succeeds: for a memtable within stated limits no step of the writer fails, and
  every file stays below \<open>2 ^ 64\<close> bytes.
\<close>

text \<open>
  The limits: records that can be encoded, at most one live node for each pair of a label and a key,
  and fewer than \<open>2 ^ 24\<close> nodes, edges and tombstones, so that no offset overflows.
\<close>

definition flush_ready :: "to_vec \<Rightarrow> memtable_state \<Rightarrow> bool" where
  "flush_ready to_vec st \<longleftrightarrow>
     (\<forall>i n. node_at st i U64_MAX = Some n \<longrightarrow>
        node_ok n \<and> length (n_key n) \<le> 65535 \<and> (\<exists>bs. to_vec (n_props n) = Inr bs \<and> length bs < 2 ^ 32)) \<and>
     (\<forall>i e. edge_at st i U64_MAX = Some e \<longrightarrow> props_wf (e_props e) \<and> (\<exists>bs. to_vec (e_props e) = Inr bs \<and> length bs < 2 ^ 32)) \<and>
     (\<forall>i j m n. node_at st i U64_MAX = Some m \<longrightarrow> node_at st j U64_MAX = Some n \<longrightarrow> n_key m = n_key n \<longrightarrow>
        labels_of m \<inter> labels_of n \<noteq> {} \<longrightarrow> i = j) \<and>
     fcard (fmdom (current_nodes st)) < 2 ^ 24 \<and> fcard (fmdom (current_edges st)) < 2 ^ 24 \<and>
     fcard (fmdom (deleted_nodes st)) + fcard (fmdom (deleted_edges st)) < 2 ^ 24"

lemma ready_flushable: "flush_ready tv st \<Longrightarrow> flushable tv st"
  unfolding flush_ready_def flushable_def by fastforce

section \<open>Lists of results\<close>

lemma r_map_all:
  "\<forall>x \<in> set xs. \<exists>y. f x = Inr y \<and> P y \<Longrightarrow> \<exists>ys. r_map f xs = Inr ys \<and> length ys = length xs \<and> (\<forall>y \<in> set ys. P y)"
proof (induction xs)
  case (Cons x xs)
  from Cons.prems obtain y where y: "f x = Inr y" "P y" by auto
  from Cons.IH Cons.prems obtain ys where "r_map f xs = Inr ys" "length ys = length xs" "\<forall>y \<in> set ys. P y" by auto
  with y show ?case by (intro exI [of _ "y # ys"]) simp
qed simp

lemma concat_within:
  assumes "\<And>x. x \<in> set xs \<Longrightarrow> length x \<le> k" and "length xs \<le> n"
  shows "length (concat xs) \<le> n * k"
  using length_concat_bound [OF assms(1)] mult_le_mono1 [OF assms(2), of k] by (meson le_trans)

section \<open>Records\<close>

lemma few_labels: "node_ok n \<Longrightarrow> length (as_slice (n_label_ids n)) \<le> 10"
  using node_ok_labels [of n] by (auto simp: MAX_NODE_LABELS_PER_NODE_def)

lemma node_encodes:
  assumes "node_ok n" and "length (n_key n) \<le> 65535" and "tv (n_props n) = Inr bs" and "length bs < 2 ^ 32"
  shows "\<exists>r. encode_node_record_into tv n = Inr r \<and> length r \<le> 2 ^ 33"
proof -
  have "length (concat (map to_le_bytes (as_slice (n_label_ids n)))) \<le> 40"
    using few_labels [OF assms(1)] by (simp add: length_concat_map [of _ 4])
  then show ?thesis using assms by (simp add: encode_node_record_into_def Let_def ser_err_def)
qed

lemma edge_encodes:
  assumes "tv (e_props e) = Inr bs" and "length bs < 2 ^ 32"
  shows "\<exists>r. encode_edge_record_into tv e = Inr r \<and> length r \<le> 2 ^ 33"
  using assms by (simp add: encode_edge_record_into_def ser_err_def)

lemma length_values: "length (sorted_values rid m) = fcard (fmdom m)"
  by (simp add: sorted_values_def length_sorted_ids)

lemma payload_within:
  assumes "length ids = length records" and "length ids < 2 ^ 24" and "\<forall>r \<in> set records. length r \<le> 2 ^ 33"
  shows "\<exists>spans data. records_payload ids records = (spans, data) \<and> map fst spans = ids \<and> length data < 2 ^ 60"
proof -
  obtain spans data where payload: "records_payload ids records = (spans, data)" by (cases "records_payload ids records")
  note parts = records_payload_parts [OF payload assms(1)]
  have "length (concat records) \<le> 2 ^ 24 * 2 ^ 33" by (rule concat_within) (use assms in simp_all)
  then have "length data < 2 ^ 60" unfolding parts(3) records_start_def using assms(2) by simp
  moreover have "map fst spans = ids" using parts(1,5) index_rows_nth [OF assms(1)] assms(1) by (intro nth_equalityI) simp_all
  ultimately show ?thesis using payload by blast
qed

lemma nodes_payload_ok:
  assumes "keyed n_id m" and "fcard (fmdom m) < 2 ^ 24"
    and nodes: "\<forall>k n. fmlookup m k = Some n \<longrightarrow> node_ok n \<and> length (n_key n) \<le> 65535 \<and> (\<exists>bs. tv (n_props n) = Inr bs \<and> length bs < 2 ^ 32)"
  shows "\<exists>spans data. write_nodes_payload tv m = Inr (spans, data) \<and> map fst spans = sorted_list_of_fset (fmdom m) \<and> length data < 2 ^ 60"
proof -
  note nodes = nodes [rule_format]
  note vals = sorted_values_keyed [OF assms(1)]
  have "\<forall>n \<in> set (sorted_values n_id m). \<exists>r. encode_node_record_into tv n = Inr r \<and> length r \<le> 2 ^ 33"
  proof
    fix n assume "n \<in> set (sorted_values n_id m)"
    then obtain k where "fmlookup m k = Some n" unfolding vals(1) by (auto simp: fmlookup_dom_iff)
    with nodes node_encodes show "\<exists>r. encode_node_record_into tv n = Inr r \<and> length r \<le> 2 ^ 33" by blast
  qed
  from r_map_all [OF this] obtain records where recs: "r_map (encode_node_record_into tv) (sorted_values n_id m) = Inr records"
    "length records = length (sorted_values n_id m)" "\<forall>r \<in> set records. length r \<le> 2 ^ 33" by blast
  from payload_within [of "map n_id (sorted_values n_id m)" records] recs assms(2) vals(2) show ?thesis
    by (auto simp: write_nodes_payload_def Let_def length_values length_sorted_ids)
qed

lemma edges_payload_ok:
  assumes "keyed e_id m" and "fcard (fmdom m) < 2 ^ 24"
    and edges: "\<forall>k e. fmlookup m k = Some e \<longrightarrow> (\<exists>bs. tv (e_props e) = Inr bs \<and> length bs < 2 ^ 32)"
  shows "\<exists>spans data. write_edges_payload tv m = Inr (spans, data) \<and> map fst spans = sorted_list_of_fset (fmdom m) \<and> length data < 2 ^ 60"
proof -
  note edges = edges [rule_format]
  note vals = sorted_values_keyed [OF assms(1)]
  have "\<forall>e \<in> set (sorted_values e_id m). \<exists>r. encode_edge_record_into tv e = Inr r \<and> length r \<le> 2 ^ 33"
  proof
    fix e assume "e \<in> set (sorted_values e_id m)"
    then obtain k where "fmlookup m k = Some e" unfolding vals(1) by (auto simp: fmlookup_dom_iff)
    with edges edge_encodes show "\<exists>r. encode_edge_record_into tv e = Inr r \<and> length r \<le> 2 ^ 33" by blast
  qed
  from r_map_all [OF this] obtain records where recs: "r_map (encode_edge_record_into tv) (sorted_values e_id m) = Inr records"
    "length records = length (sorted_values e_id m)" "\<forall>r \<in> set records. length r \<le> 2 ^ 33" by blast
  from payload_within [of "map e_id (sorted_values e_id m)" records] recs assms(2) vals(2) show ?thesis
    by (auto simp: write_edges_payload_def Let_def length_values length_sorted_ids)
qed

section \<open>Metadata and vectors\<close>

lemma node_meta_ok:
  assumes ids: "map fst spans = sorted_list_of_fset (fmdom m)" and few: "length spans < 2 ^ 24"
    and nodes: "\<forall>k n. fmlookup m k = Some n \<longrightarrow> node_ok n"
  shows "\<exists>data. write_node_meta_payload spans m = Inr data \<and> length data < 2 ^ 60"
proof -
  note nodes = nodes [rule_format]
  have "\<forall>x \<in> set spans. \<exists>r. node_of_span m x = Inr r \<and> length (as_slice (n_label_ids (snd r))) \<le> 10"
  proof
    fix x assume "x \<in> set spans"
    then have "fst x \<in> set (map fst spans)" by simp
    then obtain n where "fmlookup m (fst x) = Some n" unfolding ids by (auto simp: fmlookup_dom_iff)
    with nodes few_labels show "\<exists>r. node_of_span m x = Inr r \<and> length (as_slice (n_label_ids (snd r))) \<le> 10"
      by (auto simp: node_of_span_def)
  qed
  from r_map_all [OF this] obtain rows where rows: "r_map (node_of_span m) spans = Inr rows" "length rows = length spans"
    "\<forall>r \<in> set rows. length (as_slice (n_label_ids (snd r))) \<le> 10" by blast
  let ?labels = "map (\<lambda>(_, node). as_slice (n_label_ids node)) rows"
  have labels: "length (concat ?labels) \<le> 2 ^ 24 * 10" by (rule concat_within) (use rows few in auto)
  show ?thesis
    using few rows(2) labels
    by (simp add: write_node_meta_payload_def Let_def checked_mul_or_def checked_add_or_def rows(1) NODE_META_HEADER_SIZE_def
        NODE_META_FIXED_ENTRY_SIZE_def NODE_META_LABEL_OFFSET_ENTRY_SIZE_def length_concat_map [of node_meta_row 48]
        length_concat_map [of "\<lambda>n. to_le_bytes (of_nat n :: u64)" 8] length_concat_map [of "to_le_bytes :: u32 \<Rightarrow> bytes" 4] del: length_concat)
qed

lemma edge_meta_ok:
  assumes ids: "map fst spans = sorted_list_of_fset (fmdom m)" and few: "length spans < 2 ^ 24"
  shows "\<exists>data. write_edge_meta_payload spans m = Inr data \<and> length data < 2 ^ 60"
proof -
  have "\<forall>x \<in> set spans. \<exists>r. edge_meta_row m x = Inr r \<and> length r \<le> 80"
  proof
    fix x assume "x \<in> set spans"
    then have "fst x \<in> set (map fst spans)" by simp
    then obtain e where "fmlookup m (fst x) = Some e" unfolding ids by (auto simp: fmlookup_dom_iff)
    then show "\<exists>r. edge_meta_row m x = Inr r \<and> length r \<le> 80" by (cases x) (simp add: edge_meta_row_def)
  qed
  from r_map_all [OF this] obtain rows where rows: "r_map (edge_meta_row m) spans = Inr rows" "length rows = length spans"
    "\<forall>r \<in> set rows. length r \<le> 80" by blast
  have "length (concat rows) \<le> 2 ^ 24 * 80" by (rule concat_within) (use rows few in auto)
  then show ?thesis using rows(1) by (simp add: write_edge_meta_payload_def del: length_concat)
qed

lemma vector_plan_ok:
  assumes "\<forall>x \<in> set spans. \<exists>n. fmlookup m (fst x) = Some n \<and> node_ok n"
    and "d + length spans * 2 ^ 35 < 2 ^ 64" and "s + length spans * 2 ^ 35 < 2 ^ 64"
  shows "\<exists>rows. prepare_node_vector_source_plan m d s spans = Inr rows"
  using assms
proof (induction spans arbitrary: d s)
  case (Cons x spans)
  obtain k u v where x: "x = (k, u, v)" by (cases x)
  from Cons.prems(1) x obtain n where n: "fmlookup m k = Some n" "node_ok n" by auto
  let ?d = "case n_dense_vector n of Some values \<Rightarrow> length values * DENSE_VECTOR_VALUE_SIZE | None \<Rightarrow> 0"
    and ?s = "case n_sparse_vector n of Some values \<Rightarrow> length values * SPARSE_VECTOR_ENTRY_SIZE | None \<Rightarrow> 0"
  have size: "?d \<le> 2 ^ 35" "?s \<le> 2 ^ 35"
    using n(2) by (auto simp: node_ok_def DENSE_VECTOR_VALUE_SIZE_def SPARSE_VECTOR_ENTRY_SIZE_def split: option.split)
  have ends: "(d + ?d) + length spans * 2 ^ 35 < 2 ^ 64" "(s + ?s) + length spans * 2 ^ 35 < 2 ^ 64" using Cons.prems(2,3) size by simp_all
  then have adds: "d + ?d < 2 ^ 64" "s + ?s < 2 ^ 64" by linarith+
  have rest: "\<forall>x \<in> set spans. \<exists>n. fmlookup m (fst x) = Some n \<and> node_ok n" using Cons.prems(1) by simp
  obtain rows where "prepare_node_vector_source_plan m (d + ?d) (s + ?s) spans = Inr rows" using Cons.IH [OF rest ends] by blast
  then show ?case unfolding x using n(1) adds by (simp add: Let_def checked_add_or_def)
qed simp

lemma vector_components_ok:
  assumes ids: "map fst spans = sorted_list_of_fset (fmdom m)" and few: "length spans < 2 ^ 24"
    and nodes: "\<forall>k n. fmlookup m k = Some n \<longrightarrow> node_ok n"
  shows "\<exists>vm db sb. write_node_vector_source_components spans m = Inr (vm, db, sb) \<and> length vm < 2 ^ 60"
proof -
  note nodes = nodes [rule_format]
  have node: "\<exists>n. fmlookup m (fst x) = Some n \<and> node_ok n" if "x \<in> set spans" for x
  proof -
    from that have "fst x \<in> set (map fst spans)" by simp
    then show ?thesis unfolding ids using nodes by (auto simp: fmlookup_dom_iff)
  qed
  then have "\<exists>rows. prepare_node_vector_source_plan m 0 0 spans = Inr rows" using few by (intro vector_plan_ok) simp_all
  then obtain rows where plan: "prepare_node_vector_source_plan m 0 0 spans = Inr rows" by blast
  define ns where "ns = map (\<lambda>x. the (fmlookup m (fst x))) spans"
  have len: "length ns = length spans" by (simp add: ns_def)
  have at: "fmlookup m (fst (spans ! i)) = Some (ns ! i) \<and> node_ok (ns ! i)" if "i < length spans" for i
    using node [OF nth_mem [OF that]] that by (auto simp: ns_def)
  from vector_plan [OF plan _ len] at have rows: "rows = vector_rows 0 0 (zip (map fst spans) ns)" by simp
  have "\<forall>(k, n) \<in> set (zip (map fst spans) ns). fmlookup m k = Some n \<and> node_ok n" using at len by (auto simp: set_zip)
  note blobs = blob_rows [OF this]
  have "length rows < 2 ^ 24" using few len by (simp add: rows)
  then show ?thesis
    by (simp add: write_node_vector_source_components_def plan Let_def write_node_dense_vector_blob_payload_def write_node_sparse_vector_blob_payload_def
        rows blobs write_node_vector_meta_payload_def length_concat_map [of vector_meta_row 28] del: length_concat)
qed

section \<open>Indexes\<close>

lemma duplicate_found:
  "duplicate_key_pair es \<Longrightarrow> \<exists>a \<in> set es. \<exists>b \<in> set es. entry_key a = entry_key b \<and> ke_node_id a \<noteq> ke_node_id b"
proof (induction es rule: duplicate_key_pair.induct)
  case (1 left right es)
  then show ?case by (cases "duplicate_key_pair (right # es)") (auto simp: entry_key_def)
qed simp_all

lemma key_index_ok:
  assumes walk: "walk_ok walk" and keyed: "keyed n_id m" and few: "fcard (fmdom m) < 2 ^ 24"
    and nodes: "\<forall>k n. fmlookup m k = Some n \<longrightarrow> node_ok n \<and> length (n_key n) \<le> 65535"
    and unique: "\<forall>i j a b. fmlookup m i = Some a \<longrightarrow> fmlookup m j = Some b \<longrightarrow> n_key a = n_key b \<longrightarrow> labels_of a \<inter> labels_of b \<noteq> {} \<longrightarrow> i = j"
  shows "\<exists>keys. prepare_key_index_payload walk m = Inr keys \<and> length (write_key_index_plan_payload keys) < 2 ^ 60"
proof -
  note nodes = nodes [rule_format]
  note unique = unique [rule_format]
  let ?nodes = "map (\<lambda>k. the (fmlookup m k)) (walk (fmdom m))"
  have mem: "\<exists>k. fmlookup m k = Some n" if "n \<in> set ?nodes" for n
    using that walk by (auto simp: walk_ok_def fmlookup_dom_iff)
  have "\<forall>n \<in> set ?nodes. \<exists>es. key_index_entries n = Inr es \<and> length es \<le> 10"
  proof
    fix n assume "n \<in> set ?nodes"
    from mem [OF this] obtain k where "fmlookup m k = Some n" ..
    from nodes [OF this] few_labels [of n] show "\<exists>es. key_index_entries n = Inr es \<and> length es \<le> 10"
      by (simp add: key_index_entries_rows)
  qed
  from r_map_all [OF this] obtain parts where parts: "r_map key_index_entries ?nodes = Inr parts" "length parts = length ?nodes"
    "\<forall>es \<in> set parts. length es \<le> 10" by blast
  note rows = all_key_rows [OF parts(1)]
  let ?es = "sort_key key_order (concat parts)"
  have "length ?nodes = fcard (fmdom m)" using walk by (simp add: walk_ok_def fcard.rep_eq distinct_card [symmetric])
  then have "length (concat parts) \<le> 2 ^ 24 * 10" by (intro concat_within) (use parts few in auto)
  then have n: "length ?es \<le> 2 ^ 24 * 10" by simp
  have none: "\<not> duplicate_key_pair ?es"
  proof
    assume "duplicate_key_pair ?es"
    from duplicate_found [OF this] obtain a b where ab: "a \<in> set (concat parts)" "b \<in> set (concat parts)" "entry_key a = entry_key b" "ke_node_id a \<noteq> ke_node_id b"
      unfolding set_sort by blast
    then obtain n l n' l' where n: "n \<in> set ?nodes" "l \<in> labels_of n" "a = key_row_of n l" and n': "n' \<in> set ?nodes" "l' \<in> labels_of n'" "b = key_row_of n' l'"
      using rows by metis
    from mem [OF n(1)] mem [OF n'(1)] obtain i j where "fmlookup m i = Some n" "fmlookup m j = Some n'" by blast
    with unique [of i n j n'] n n' ab(3,4) keyed show False by (auto simp: keyed_def)
  qed
  have row: "length (key_index_row e) \<le> 65549" if "e \<in> set ?es" for e
    using that rows by (auto simp: length_key_row)
  have "length (concat (map key_index_row ?es)) \<le> 2 ^ 24 * 10 * 65549" by (rule concat_within) (use row n in auto)
  then have "length (write_key_index_plan_payload ?es) < 2 ^ 60"
    using n by (simp add: write_key_index_plan_payload_def Let_def length_concat_map [of "to_le_bytes :: u64 \<Rightarrow> bytes" 8] del: length_concat)
  then show ?thesis using none by (simp add: prepare_key_index_payload_def parts(1) Let_def)
qed

lemma label_index_size:
  assumes order: "sorted_wrt (<) (map fst gs)" and groups: "\<And>g. g \<in> set gs \<Longrightarrow> length (snd g) \<le> 2 ^ 24"
  shows "length (write_label_posting_index_plan_payload gs) < 2 ^ 60"
proof -
  have "distinct (map fst gs)" using order by (simp add: strict_sorted_iff)
  then have "length gs = card (set (map fst gs))" by (simp only: distinct_card length_map)
  also have "\<dots> \<le> card (UNIV :: u32 set)" by (rule card_mono) simp_all
  finally have n: "length gs \<le> 2 ^ 32" by (simp add: card_word)
  have "length (concat (map (\<lambda>(_, ids). concat (map to_le_bytes ids)) gs)) \<le> 2 ^ 32 * (2 ^ 24 * 8)"
    by (rule concat_within) (use groups n in \<open>auto simp: length_concat_map [of "to_le_bytes :: u64 \<Rightarrow> bytes" 8] simp del: length_concat\<close>)
  moreover have "length (concat (label_index_rows off gs)) = length gs * 16" for off
    by (induction off gs rule: label_index_rows.induct) (simp_all add: Let_def)
  ultimately show ?thesis using n by (simp add: write_label_posting_index_plan_payload_def Let_def del: length_concat)
qed

lemma group_lengths:
  assumes order: "sorted_wrt (<) (map fst gs)" and groups: "\<And>l. group_of gs l = sorted_list_of_set (A l)" and small: "\<And>l. card (A l) \<le> n"
    and g: "g \<in> set gs"
  shows "length (snd g) \<le> n"
proof -
  have "distinct (map fst gs)" using order by (simp add: strict_sorted_iff)
  then have "map_of gs (fst g) = Some (snd g)" using g by (simp add: map_of_is_SomeI)
  then have "snd g = sorted_list_of_set (A (fst g))" using groups [of "fst g"] by simp
  then show ?thesis using small by simp
qed

lemma time_index_size:
  assumes reach: "memtable_reach pv st w" and few: "fcard (fmdom (current_nodes st)) < 2 ^ 24"
  shows "length (write_timestamp_index_plan_payload (prepare_timestamp_index_payload (current_time_index (time_node_index st)))) < 2 ^ 62"
proof -
  let ?T = "current_time_index (time_node_index st)" and ?N = "{i. node_at st i U64_MAX \<noteq> None}"
  have T: "(l, t, i) \<in> fset ?T \<longleftrightarrow> (\<exists>n. node_at st i U64_MAX = Some n \<and> l \<in> labels_of n \<and> sint (n_updated_at n) = t)" for l t i
    unfolding current_time_set reach_node_index(2) [OF reach, symmetric] by (rule mem_Collect_eq)
  have "inj_on (\<lambda>(l, t, i). (l, i)) (fset ?T)" by (auto simp: inj_on_def T)
  then have "card (fset ?T) = card ((\<lambda>(l, t, i). (l, i)) ` fset ?T)" by (rule card_image [symmetric])
  also have "\<dots> \<le> card ((UNIV :: u32 set) \<times> ?N)" using live_finite(1) [of st] by (intro card_mono) (auto simp: T)
  also have "\<dots> = 2 ^ 32 * fcard (fmdom (current_nodes st))" by (simp only: card_cartesian_product card_word live_card) simp
  also have "\<dots> \<le> 2 ^ 32 * 2 ^ 24" using few by simp
  finally show ?thesis
    by (simp add: write_timestamp_index_plan_payload_def prepare_timestamp_index_payload_def length_concat_map [of timestamp_row 20]
        length_timestamp_row length_sorted_ids fcard.rep_eq del: length_concat)
qed

lemma triple_index_size:
  assumes "walk_ok walk" and "fcard (fmdom m) < 2 ^ 24"
  shows "length (write_edge_triple_index_plan_payload (prepare_edge_triple_index_payload walk m)) < 2 ^ 60"
proof -
  have "length (walk (fmdom m)) = fcard (fmdom m)" using assms(1) by (simp add: walk_ok_def fcard.rep_eq distinct_card [symmetric])
  then show ?thesis
    using assms(2) by (simp add: write_edge_triple_index_plan_payload_def prepare_edge_triple_index_payload_def
        length_concat_map [of edge_triple_row 28] length_edge_triple_row del: length_concat)
qed

lemma tombstones_size:
  assumes "fcard (fmdom dn) + fcard (fmdom de) < 2 ^ 24"
  shows "length (write_tombstones_payload dn de) < 2 ^ 60"
proof -
  have "length (concat (map (tombstone_row k) (btree_entries m))) = fcard (fmdom m) * 25" for k :: u8 and m
    using length_concat_map [of "tombstone_row k" 25 "btree_entries m"]
    by (simp only: length_tombstone_row TOMBSTONE_ENTRY_SIZE_def btree_entries_def length_map length_sorted_ids)
  then show ?thesis using assms by (simp add: write_tombstones_payload_def del: length_concat)
qed

section \<open>Adjacency\<close>

lemma varint_size: "length (write_varint_to_vec v) \<le> n" if "unat v < 2 ^ (7 * n)" and "0 < n"
  using that
proof (induction n arbitrary: v)
  case (Suc n)
  let ?rest = "drop_bit 7 v"
  show ?case
  proof (cases "?rest = 0")
    case False
    have small: "unat ?rest < 2 ^ (7 * n)"
      using Suc.prems(1) by (simp add: drop_bit_eq_div unat_div power_add less_mult_imp_div_less mult.commute)
    moreover have "0 < n"
    proof (rule ccontr)
      assume "\<not> 0 < n"
      then have "unat ?rest = 0" using small by simp
      then show False using False by (simp add: unat_eq_0)
    qed
    ultimately have "length (write_varint_to_vec ?rest) \<le> n" by (rule Suc.IH)
    then show ?thesis using False by (subst write_varint_to_vec.simps) (simp add: Let_def)
  qed (subst write_varint_to_vec.simps, simp add: Let_def)
qed simp

lemma varint_at_most_10: "length (write_varint_to_vec v) \<le> 10"
proof (rule varint_size)
  have "unat v < 2 ^ 64" using unsigned_less [of v] by simp
  then show "unat v < 2 ^ (7 * 10)" by (rule order_less_trans) simp
qed simp

lemma group_posting_size: "length (group_posting_bytes prev ps) \<le> length ps * 44"
proof (induction prev ps rule: group_posting_bytes.induct)
  case (2 prev p ps)
  obtain e n w vf vt where p: "p = (e, n, w, vf, vt)" by (metis prod_cases5)
  have "length (write_adjacency_posting_bytes prev p) \<le> 44"
    using varint_at_most_10 [of "e - prev"] varint_at_most_10 [of n] varint_at_most_10 [of vf] varint_at_most_10 [of "valid_to_enc vt"]
    by (simp add: write_adjacency_posting_bytes_def p)
  then show ?case using 2 by simp
qed simp

lemma adjacency_sizes:
  assumes walk: "walk_ok walk" and vals: "\<And>n. adj_values adj n = {x. \<exists>i e. edge_at st i U64_MAX = Some e \<and> node_of e = n \<and> x = entry e}"
    and label: "\<And>e. adj_label_id (entry e) = e_label_id e" and few: "fcard (fmdom (current_edges st)) < 2 ^ 24"
    and lists: "\<And>n es. fmlookup adj n = Some es \<Longrightarrow> fcard (fmdom es) \<le> 2 ^ 24"
  shows "length (write_adjacency_index_payload (prepare_adjacency_payloads walk adj)) < 2 ^ 60"
    and "length (write_adjacency_postings_payload (prepare_adjacency_payloads walk adj)) < 2 ^ 60"
proof -
  let ?plan = "prepare_adjacency_payloads walk adj" and ?E = "{i. edge_at st i U64_MAX \<noteq> None}"
  have entry: "\<exists>es. fmlookup adj (gp_node_id g) = Some es \<and> gp_label_id g \<in> adj_label_id ` set (map snd (hash_entries walk es)) \<and>
      gp_postings g = sort_key fst (map posting_of (filter (\<lambda>e. adj_label_id e = gp_label_id g) (map snd (hash_entries walk es))))" if "g \<in> set ?plan" for g
    using in_plan [OF that] unfolding set_adjacency_groups [OF walk] set_label_groups by auto
  have key: "group_key g \<in> (\<lambda>i. case edge_at st i U64_MAX of Some e \<Rightarrow> (node_of e, e_label_id e) | None \<Rightarrow> (0, 0)) ` ?E" if g: "g \<in> set ?plan" for g
  proof -
    from entry [OF g] obtain es x where es: "fmlookup adj (gp_node_id g) = Some es" "x \<in> set (map snd (hash_entries walk es))" "gp_label_id g = adj_label_id x"
      by blast
    then have "x \<in> adj_values adj (gp_node_id g)" unfolding hash_values [OF walk] adj_values_def by blast
    then obtain i e where "edge_at st i U64_MAX = Some e" "node_of e = gp_node_id g" "x = entry e" unfolding vals by blast
    then show ?thesis using es(3) label by (intro image_eqI [of _ _ i]) (simp_all add: group_key_def)
  qed
  have "length ?plan = card (set (map group_key ?plan))" using distinct_group_keys [OF walk, of adj] by (simp only: distinct_card length_map)
  also have "\<dots> \<le> card ?E"
    by (rule surj_card_le [OF live_finite(2), where f = "\<lambda>i. case edge_at st i U64_MAX of Some e \<Rightarrow> (node_of e, e_label_id e) | None \<Rightarrow> (0, 0)"])
      (use key in auto)
  finally have n: "length ?plan \<le> 2 ^ 24" using few by (simp only: live_card)
  then show "length (write_adjacency_index_payload ?plan) < 2 ^ 60"
    by (simp add: write_adjacency_index_payload_def length_concat_map [of adjacency_index_row 24] ADJ_INDEX_ENTRY_SIZE_def del: length_concat)
  have "length (gp_postings g) \<le> 2 ^ 24" if g: "g \<in> set ?plan" for g
  proof -
    from entry [OF g] obtain es where es: "fmlookup adj (gp_node_id g) = Some es"
      "gp_postings g = sort_key fst (map posting_of (filter (\<lambda>e. adj_label_id e = gp_label_id g) (map snd (hash_entries walk es))))" by blast
    have "length (gp_postings g) \<le> length (hash_entries walk es)" unfolding es(2) by (simp add: le_trans [OF length_filter_le])
    also have "\<dots> = fcard (fmdom es)" using walk by (simp add: hash_entries_def walk_ok_def fcard.rep_eq distinct_card [symmetric])
    finally show ?thesis using lists [OF es(1)] by simp
  qed
  then have "length (group_posting_bytes 0 (gp_postings g)) \<le> 2 ^ 24 * 44" if "g \<in> set ?plan" for g
    using group_posting_size [of 0 "gp_postings g"] that by (meson le_trans mult_le_mono1)
  then have "length (write_adjacency_postings_payload ?plan) \<le> 2 ^ 24 * (2 ^ 24 * 44)"
    unfolding write_adjacency_postings_payload_def by (intro concat_within) (use n in auto)
  then show "length (write_adjacency_postings_payload ?plan) < 2 ^ 60" by simp
qed

section \<open>The whole segment\<close>

lemma adjacency_list_sizes:
  assumes reach: "memtable_reach pv st w" and few: "fcard (fmdom (current_edges st)) < 2 ^ 24"
    and es: "fmlookup (current_adj_map (adj_out st)) n = Some es \<or> fmlookup (current_adj_map (adj_in st)) n = Some es"
  shows "fcard (fmdom es) \<le> 2 ^ 24"
proof -
  note at = reach_edge_index(4,5) [OF reach, of U64_MAX]
  have "edge_at st i U64_MAX \<noteq> None" if i: "fmlookup es i = Some x" for i x
  proof -
    have "nested_at (adj_out st) U64_MAX (n, i) = Some x \<or> nested_at (adj_in st) U64_MAX (n, i) = Some x"
      using es i unfolding current_adj_lookup [symmetric] by blast
    then obtain e where "edge_at st i U64_MAX = Some e" unfolding at by blast
    then show ?thesis by simp
  qed
  then have "fset (fmdom es) \<subseteq> {i. edge_at st i U64_MAX \<noteq> None}" by (rule fmdom_within)
  then have "card (fset (fmdom es)) \<le> card {i. edge_at st i U64_MAX \<noteq> None}" by (rule card_mono [OF live_finite(2)])
  then have "fcard (fmdom es) \<le> fcard (fmdom (current_edges st))" unfolding fcard.rep_eq [symmetric] live_card .
  then show ?thesis using few by linarith
qed

lemma write_succeeds:
  assumes reach: "memtable_reach pv st w" and walk: "walk_ok walk" and ready: "flush_ready tv st"
  shows "\<exists>files. write_segment_inner walk tv st = Inr files \<and> files_fit files"
proof -
  let ?N = "current_nodes st" and ?E = "current_edges st"
  have few: "fcard (fmdom ?N) < 2 ^ 24" "fcard (fmdom ?E) < 2 ^ 24" "fcard (fmdom (deleted_nodes st)) + fcard (fmdom (deleted_edges st)) < 2 ^ 24"
    and nodes: "\<forall>k n. fmlookup ?N k = Some n \<longrightarrow> node_ok n \<and> length (n_key n) \<le> 65535 \<and> (\<exists>bs. tv (n_props n) = Inr bs \<and> length bs < 2 ^ 32)"
    and edges: "\<forall>k e. fmlookup ?E k = Some e \<longrightarrow> (\<exists>bs. tv (e_props e) = Inr bs \<and> length bs < 2 ^ 32)"
    and unique: "\<forall>i j a b. fmlookup ?N i = Some a \<longrightarrow> fmlookup ?N j = Some b \<longrightarrow> n_key a = n_key b \<longrightarrow> labels_of a \<inter> labels_of b \<noteq> {} \<longrightarrow> i = j"
    using ready unfolding flush_ready_def lookup_current by blast+
  have node: "\<forall>k n. fmlookup ?N k = Some n \<longrightarrow> node_ok n" using nodes by blast
  note keyed = keyed_current [OF reach]
  obtain spans nd where nd: "write_nodes_payload tv ?N = Inr (spans, nd)" "map fst spans = sorted_list_of_fset (fmdom ?N)" "length nd < 2 ^ 60"
    using nodes_payload_ok [OF keyed(1) few(1) nodes] by blast
  obtain espans ed where ed: "write_edges_payload tv ?E = Inr (espans, ed)" "map fst espans = sorted_list_of_fset (fmdom ?E)" "length ed < 2 ^ 60"
    using edges_payload_ok [OF keyed(2) few(2) edges] by blast
  have lens: "length spans < 2 ^ 24" "length espans < 2 ^ 24"
    using few nd(2) ed(2) by (metis length_map length_sorted_ids)+
  obtain nm where nm: "write_node_meta_payload spans ?N = Inr nm" "length nm < 2 ^ 60" using node_meta_ok [OF nd(2) lens(1) node] by blast
  obtain em where em: "write_edge_meta_payload espans ?E = Inr em" "length em < 2 ^ 60" using edge_meta_ok [OF ed(2) lens(2)] by blast
  obtain vm db sb where vm: "write_node_vector_source_components spans ?N = Inr (vm, db, sb)" "length vm < 2 ^ 60"
    using vector_components_ok [OF nd(2) lens(1) node] by blast
  have short: "\<forall>k n. fmlookup ?N k = Some n \<longrightarrow> node_ok n \<and> length (n_key n) \<le> 65535" using nodes by blast
  obtain keys where keys: "prepare_key_index_payload walk ?N = Inr keys" "length (write_key_index_plan_payload keys) < 2 ^ 60"
    using key_index_ok [OF walk keyed(1) few(1) short unique] by blast
  have cards: "card {i. \<exists>n. node_at st i U64_MAX = Some n \<and> P n} \<le> 2 ^ 24" "card {i. \<exists>e. edge_at st i U64_MAX = Some e \<and> Q e} \<le> 2 ^ 24" for P Q
    using card_mono [OF live_finite(1) label_members_live(1), of st P] card_mono [OF live_finite(2) label_members_live(2), of st Q] few(1,2)
    unfolding live_card by linarith+
  have nl: "length (write_label_posting_index_plan_payload (node_label_posting_groups_current st)) < 2 ^ 60"
    by (rule label_index_size [OF node_label_groups(1)], rule group_lengths [OF node_label_groups(1) node_label_members [OF reach]]) (rule cards)
  have el: "length (write_label_posting_index_plan_payload (prepare_label_posting_index_payload (current_label_membership_index (label_edge_index st)))) < 2 ^ 60"
    by (rule label_index_size [OF label_groups_of_map(1)], rule group_lengths [OF label_groups_of_map(1) edge_label_members [OF reach]]) (rule cards)
  note vals = adj_values_current(1,2) [OF reach]
  have sizes: "length (write_adjacency_index_payload (prepare_adjacency_payloads walk (current_adj_map (adj_out st)))) < 2 ^ 60"
    "length (write_adjacency_postings_payload (prepare_adjacency_payloads walk (current_adj_map (adj_out st)))) < 2 ^ 60"
    "length (write_adjacency_index_payload (prepare_adjacency_payloads walk (current_adj_map (adj_in st)))) < 2 ^ 60"
    "length (write_adjacency_postings_payload (prepare_adjacency_payloads walk (current_adj_map (adj_in st)))) < 2 ^ 60"
    by (rule adjacency_sizes [OF walk vals(1) _ few(2)] adjacency_sizes [OF walk vals(2) _ few(2)];
        use adjacency_list_sizes [OF reach few(2)] in \<open>auto simp: adj_out_entry_def adj_in_entry_def\<close>)+
  show ?thesis
    using nd(3) ed(3) nm(2) em(2) vm(2) keys(2) nl el sizes time_index_size [OF reach few(1)] triple_index_size [OF walk few(2)] tombstones_size [OF few(3)]
    by (simp add: write_segment_inner_def Let_def nd(1) ed(1) nm(1) em(1) vm(1) write_flush_node_index_components_def keys(1)
        write_flush_edge_index_components_def files_fit_def)
qed

lemma flush_succeeds:
  assumes "memtable_reach pv st w" and "walk_ok walk" and "flush_ready tv st"
  obtains sr where "flushed_segment walk tv st sr" and "flushable tv st"
proof -
  obtain files where files: "write_segment_inner walk tv st = Inr files" "files_fit files" using write_succeeds [OF assms] by blast
  note ok = ready_flushable [OF assms(3)]
  obtain sr where "open_segment files = Inr sr" using open_written [OF assms(1) files ok] by blast
  then show thesis using that files ok by (auto simp: flushed_segment_def)
qed

end
