(* ===== verification/Memtable_Counts.thy ===== *)
theory Memtable_Counts
  imports Memtable_Reach
begin

text \<open>
  The counters \<^verbatim>\<open>live_node_count\<close> and \<^verbatim>\<open>live_edge_count\<close> of \<^verbatim>\<open>src/src/memtable.rs\<close>. They are machine
  words that saturate; as long as a memtable holds fewer than \<open>2^64\<close> slots of a kind they are the
  numbers of live nodes and edges.
\<close>

definition counts :: "memtable_state \<Rightarrow> nat \<times> nat" where
  "counts st = (live_node_count st, live_edge_count st)"

lemmas setter_defs = set_node_state_def set_edge_state_def set_node_key_def set_edge_triple_def set_time_slot_def
  set_ordered_edge_slot_def set_node_label_slot_def set_node_label_membership_slot_def set_ordered_edge_label_slot_def
  set_edge_label_slot_def set_adj_out_slot_def set_adj_in_slot_def set_node_tombstone_slot_def set_edge_tombstone_slot_def
  set_secondary_eq_slot_def set_secondary_range_slot_def set_compound_slot_def

lemma counts_setters [simp]:
  "counts (set_node_state st i n w) = counts st" "counts (set_edge_state st i e w) = counts st"
  "counts (set_node_key st l k v w) = counts st" "counts (set_edge_triple st a b l v w) = counts st"
  "counts (set_time_slot st t p w) = counts st" "counts (set_ordered_edge_slot st i p w) = counts st"
  "counts (set_node_label_slot st l i p w) = counts st" "counts (set_ordered_edge_label_slot st l i p w) = counts st"
  "counts (set_edge_label_slot st l i p w) = counts st" "counts (set_adj_out_slot st a i x w) = counts st"
  "counts (set_adj_in_slot st a i x w) = counts st" "counts (set_node_tombstone_slot st i p w) = counts st"
  "counts (set_edge_tombstone_slot st i p w) = counts st" "counts (set_secondary_eq_slot st a b i p w) = counts st"
  "counts (set_secondary_range_slot st a bs i p w) = counts st" "counts (set_compound_slot st a bs i p w) = counts st"
  by (simp_all add: setter_defs counts_def account_def Let_def split_beta)

lemma counts_fold: "(\<And>x st. counts (f x st) = counts st) \<Longrightarrow> counts (fold f xs st) = counts st"
  by (induction xs arbitrary: st) simp_all

lemma counts_run_actions [simp]: "counts (run_actions st a w) = counts st"
  by (simp add: run_actions_def Let_def counts_fold split_beta)

lemma counts_syncs:
  "sync_secondary_index_entries_for_node_upsert pv st old n w = Some st' \<Longrightarrow> counts st' = counts st"
  "sync_secondary_index_entries_for_edge_upsert pv st old' e w = Some st' \<Longrightarrow> counts st' = counts st"
  "remove_secondary_index_entries_for_node pv st n w = Some st' \<Longrightarrow> counts st' = counts st"
  "remove_secondary_index_entries_for_edge pv st e w = Some st' \<Longrightarrow> counts st' = counts st"
  by (auto simp: sync_secondary_index_entries_for_node_upsert_def sync_secondary_index_entries_for_edge_upsert_def
      add_secondary_index_entries_for_node_def add_secondary_index_entries_for_edge_def
      remove_secondary_index_entries_for_node_def remove_secondary_index_entries_for_edge_def bind_eq_Some_conv
      split: if_splits option.splits)

lemma counts_labels [simp]:
  "counts (fold (retire_node_label old n w) ls st) = counts st" "counts (fold (enter_node_label n w) ls st) = counts st"
  "counts (fold (leave_node_label n w) ls st) = counts st"
  by (rule counts_fold; simp add: retire_node_label_def enter_node_label_def leave_node_label_def Let_def)+

lemma counts_edges [simp]: "counts (retire_edge old e w st) = counts st" "counts (leave_edge i e w st) = counts st"
  by (simp_all add: retire_edge_def leave_edge_def Let_def)

lemma counts_updates [simp]:
  "counts (st\<lparr>live_node_count := n\<rparr>) = (n, snd (counts st))" "counts (st\<lparr>live_edge_count := n\<rparr>) = (fst (counts st), n)"
  by (simp_all add: counts_def)

lemma counts_of: "live_node_count st = fst (counts st)" "live_edge_count st = snd (counts st)"
  by (simp_all add: counts_def)

lemma counts_apply_op:
  assumes "apply_op pv st op w = Some st'"
  shows "counts st' = (case op of
      UpsertNode n \<Rightarrow> if current_node st (n_id n) = None then apfst (\<lambda>c. saturating_add c 1) (counts st) else counts st
    | UpsertEdge e \<Rightarrow> if current_edge st (e_id e) = None then apsnd (\<lambda>c. saturating_add c 1) (counts st) else counts st
    | DeleteNode i _ \<Rightarrow> if current_node st i = None then counts st else apfst (\<lambda>c. c - 1) (counts st)
    | DeleteEdge i _ \<Rightarrow> if current_edge st i = None then counts st else apsnd (\<lambda>c. c - 1) (counts st)
    | _ \<Rightarrow> counts st)"
  using assms
  by (cases op) (auto simp: apply_upsert_node_def apply_upsert_edge_def apply_delete_node_def apply_delete_edge_def Let_def counts_of
      apfst_def apsnd_def map_prod_def split_beta split: option.splits if_splits dest!: counts_syncs)

section \<open>The counters count\<close>

text \<open>
  \<open>live\<close> are the ids of live records of a kind, \<open>held\<close> those of all its slots, \<open>c\<close> the counter. Ids are
  64-bit words, so all these sets are finite.
\<close>

definition counter_ok :: "nat \<Rightarrow> u64 set \<Rightarrow> u64 set \<Rightarrow> bool" where
  "counter_ok c live held \<longleftrightarrow> live \<subseteq> held \<and> (card held \<le> USIZE_MAX \<longrightarrow> c = card live)"

lemma counter_upsert:
  assumes "counter_ok c live held"
  shows "counter_ok (if i \<in> live then c else saturating_add c 1) (insert i live) (insert i held)"
proof -
  have "card (insert i live) \<le> card (insert i held)" "card held \<le> card (insert i held)"
    using assms by (auto simp: counter_ok_def intro!: card_mono)
  then show ?thesis using assms by (auto simp: counter_ok_def saturating_add_def insert_absorb)
qed

lemma counter_delete:
  assumes "counter_ok c live held"
  shows "counter_ok (if i \<in> live then c - 1 else c) (live - {i}) (insert i held)"
proof -
  have "card held \<le> card (insert i held)" by (intro card_mono) auto
  then show ?thesis using assms by (auto simp: counter_ok_def)
qed

definition counts_ok :: "memtable_state \<Rightarrow> bool" where
  "counts_ok st \<longleftrightarrow>
     counter_ok (live_node_count st) {i. live_node (view st U64_MAX) i \<noteq> None} {i. g_nodes (view st U64_MAX) i \<noteq> None} \<and>
     counter_ok (live_edge_count st) {i. live_edge (view st U64_MAX) i \<noteq> None} {i. g_edges (view st U64_MAX) i \<noteq> None}"

lemma node_counter_step:
  assumes "counter_ok (live_node_count st) {i. live_node (view st U64_MAX) i \<noteq> None} {i. g_nodes (view st U64_MAX) i \<noteq> None}"
    (is "counter_ok ?c ?L ?H")
    and "apply_op pv st op w = Some st'" and step: "store_step pv (view st U64_MAX) op w = Some (view st' U64_MAX)"
  shows "counter_ok (live_node_count st') {i. live_node (view st' U64_MAX) i \<noteq> None} {i. g_nodes (view st' U64_MAX) i \<noteq> None}"
proof -
  have live: "{i. live_node (view st' U64_MAX) i \<noteq> None} =
      (case op of UpsertNode x \<Rightarrow> insert (n_id x) ?L | DeleteNode i _ \<Rightarrow> ?L - {i} | _ \<Rightarrow> ?L)"
    by (auto simp: live_node_step [OF step] split: wal_op.splits if_splits)
  have held: "{i. g_nodes (view st' U64_MAX) i \<noteq> None} =
      (case op of UpsertNode x \<Rightarrow> insert (n_id x) ?H | DeleteNode i _ \<Rightarrow> insert i ?H | _ \<Rightarrow> ?H)"
    by (auto simp: store_step_nodes [OF step] split: wal_op.splits if_splits)
  have "live_node_count st' = (case op of
      UpsertNode x \<Rightarrow> if n_id x \<in> ?L then ?c else saturating_add ?c 1
    | DeleteNode i _ \<Rightarrow> if i \<in> ?L then ?c - 1 else ?c | _ \<Rightarrow> ?c)"
    unfolding counts_of counts_apply_op [OF assms(2)] by (simp add: current_node_view split: wal_op.split)
  note eqs = this live held
  show ?thesis
    unfolding eqs using counter_upsert [OF assms(1)] counter_delete [OF assms(1)] assms(1)
    by (cases op) (simp_all only: wal_op.case)
qed

lemma edge_counter_step:
  assumes "counter_ok (live_edge_count st) {i. live_edge (view st U64_MAX) i \<noteq> None} {i. g_edges (view st U64_MAX) i \<noteq> None}"
    (is "counter_ok ?c ?L ?H")
    and "apply_op pv st op w = Some st'" and step: "store_step pv (view st U64_MAX) op w = Some (view st' U64_MAX)"
  shows "counter_ok (live_edge_count st') {i. live_edge (view st' U64_MAX) i \<noteq> None} {i. g_edges (view st' U64_MAX) i \<noteq> None}"
proof -
  have live: "{i. live_edge (view st' U64_MAX) i \<noteq> None} =
      (case op of UpsertEdge x \<Rightarrow> insert (e_id x) ?L | DeleteEdge i _ \<Rightarrow> ?L - {i} | _ \<Rightarrow> ?L)"
    by (auto simp: live_edge_step [OF step] split: wal_op.splits if_splits)
  have held: "{i. g_edges (view st' U64_MAX) i \<noteq> None} =
      (case op of UpsertEdge x \<Rightarrow> insert (e_id x) ?H | DeleteEdge i _ \<Rightarrow> insert i ?H | _ \<Rightarrow> ?H)"
    by (auto simp: store_step_edges [OF step] split: wal_op.splits if_splits)
  have "live_edge_count st' = (case op of
      UpsertEdge x \<Rightarrow> if e_id x \<in> ?L then ?c else saturating_add ?c 1
    | DeleteEdge i _ \<Rightarrow> if i \<in> ?L then ?c - 1 else ?c | _ \<Rightarrow> ?c)"
    unfolding counts_of counts_apply_op [OF assms(2)] by (simp add: current_edge_view split: wal_op.split)
  note eqs = this live held
  show ?thesis
    unfolding eqs using counter_upsert [OF assms(1)] counter_delete [OF assms(1)] assms(1)
    by (cases op) (simp_all only: wal_op.case)
qed

lemma counts_ok_step:
  assumes "counts_ok st" and "apply_op pv st op w = Some st'"
    and step: "store_step pv (view st U64_MAX) op w = Some (view st' U64_MAX)"
  shows "counts_ok st'"
  using assms node_counter_step [OF _ assms(2,3)] edge_counter_step [OF _ assms(2,3)] unfolding counts_ok_def by blast

lemma counts_seeds [simp]:
  "counts (seed_eq i seeds1 st) = counts st" "counts (seed_range i seeds2 st) = counts st" "counts (seed_compound i seeds2 st) = counts st"
  by (simp_all add: seed_eq_def seed_range_def seed_compound_def Let_def counts_fold split_beta) (simp_all add: counts_def)

lemma counts_register: "register_secondary_index pv st entry = Some st' \<Longrightarrow> counts st' = counts st"
  by (auto simp: register_secondary_index_def register_target_def Let_def split_beta
      split: if_splits secondary_index_target.splits secondary_index_kind.splits) (auto simp: counts_def account_def)

lemma counts_unregister: "counts (fst (unregister_secondary_index st i)) = counts st"
  by (auto simp: unregister_secondary_index_def unregister_target_def Let_def split_beta counts_def account_def
      drop_eq_state_def drop_range_state_def drop_compound_state_def
      split: option.splits secondary_index_target.splits secondary_index_kind.splits)

lemma counts_ok_core:
  assumes "counts_ok st" and "counts st' = counts st" and "same_core (view st' U64_MAX) (view st U64_MAX)"
  shows "counts_ok st'"
  using assms same_core_live [OF assms(3)] by (simp add: counts_ok_def counts_of same_core_def)

lemma reach_counts: "memtable_reach pv st w \<Longrightarrow> counts_ok st"
proof (induction rule: memtable_reach.induct)
  case new
  have "g_nodes store_empty = (\<lambda>_. None)" "g_edges store_empty = (\<lambda>_. None)" by (simp_all add: store_empty_def)
  then show ?case by (simp add: counts_ok_def counter_ok_def) (simp add: memtable_new_def)
next
  case (op st w x op st')
  note inv = reach_invariants [OF op.hyps(1)]
  have "settled st x" "ids_ok (view st U64_MAX)" using inv settled_mono op.hyps(2) by (auto simp: store_ok_def)
  from view_apply_op_new [OF this(1) le_U64_MAX this(2) op.hyps(3), of pv] op.hyps(4)
  show ?case by (intro counts_ok_step [OF op.IH op.hyps(4)]) simp
next
  case (register st w entry st')
  then show ?case by (metis counts_ok_core counts_register same_core_register)
next
  case (unregister st w i)
  then show ?case by (metis counts_ok_core counts_unregister same_core_unregister)
qed

lemma held_ids: "{i. rec_at m U64_MAX i \<noteq> None} = fset (fmdom m)"
  by (auto simp: rec_at_def slot_at_max fmlookup_dom_iff bind_eq_Some_conv)

lemma held_card:
  "card {i. g_nodes (view st U64_MAX) i \<noteq> None} = fcard (fmdom (nodes st))"
  "card {i. g_edges (view st U64_MAX) i \<noteq> None} = fcard (fmdom (edges st))"
  using held_ids [of "nodes st"] held_ids [of "edges st"] by (simp_all add: view_def fcard.rep_eq)

end
