(* ===== verification/Memtable_Theorems.thy ===== *)
theory Memtable_Theorems
  imports Memtable_Total Memtable_Counts Memtable_Adjacency
begin

text \<open>
  The theorems about the memtable: isolation of snapshots, last write wins, exact scans, cursors,
  batches and adjacency, exact size estimate and counters, and the absence of panics.
\<close>

section \<open>A small session\<close>

text \<open>A node with the labels 1 and 4 written at sequence number 3, and an edge from it to itself at 5.\<close>

definition sample_edge :: edge_record where
  "sample_edge = \<lparr>e_id = 8, e_from = 7, e_to = 7, e_label_id = 2, e_props = [], e_created_at = 0, e_updated_at = 0,
     e_weight = 0, e_valid_from = 0, e_valid_to = 0, e_last_write_seq = 0\<rparr>"

definition sample_log :: "(wal_op \<times> u64) list" where
  "sample_log = [(UpsertNode example_node, 3), (UpsertEdge sample_edge, 5)]"

lemma sample_edge_wf: "op_wf (UpsertEdge sample_edge)"
  by (simp add: sample_edge_def props_wf_def btree_wf_def)

lemma session_log:
  assumes "memtable_session pv st w" and "sorted (w # map snd ops)" and "\<forall>(op, _) \<in> set ops. op_wf op"
  shows "\<exists>st'. apply_ops pv st ops = Some st' \<and> memtable_session pv st' (last (w # map snd ops))"
  using assms
proof (induction ops arbitrary: st w)
  case (Cons e ops)
  obtain op x where e: "e = (op, x)" by (cases e)
  with Cons.prems have op: "w \<le> x" "op_wf op" by auto
  from session_op_total [OF Cons.prems(1) op] obtain st1 where st1: "apply_op pv st op x = Some st1" by blast
  have "memtable_session pv st1 x" by (rule memtable_session.op [OF Cons.prems(1) op st1])
  from Cons.IH [OF this] Cons.prems(2,3) e st1 show ?case by auto
qed simp

lemma sample_session:
  obtains st where "apply_ops pv memtable_new sample_log = Some st" "memtable_session pv st 5"
  using session_log [OF memtable_session.new, of sample_log pv] example_node_wf sample_edge_wf
  by (auto simp: sample_log_def simp del: op_wf.simps)

lemma sample_log_ok: "log_ok 0 sample_log"
  using example_node_wf sample_edge_wf op_wf_ok by (auto simp: log_ok_def sample_log_def simp del: op_wf.simps op_ok.simps)

lemma sample_records:
  assumes "apply_ops pv memtable_new sample_log = Some st"
  shows "g_nodes (view st 5) = [7 \<mapsto> Live (example_node\<lparr>n_last_write_seq := 3\<rparr>)]"
    and "g_edges (view st 5) = [8 \<mapsto> Live (sample_edge\<lparr>e_last_write_seq := 5\<rparr>)]"
proof -
  have ids: "n_id example_node = 7" "e_id sample_edge = 8" by (simp_all add: example_node_def sample_edge_def)
  have "store_run pv store_empty [(UpsertNode example_node, 3), (UpsertEdge sample_edge, 5)] = Some (view st 5)"
    using log_view [OF sample_log_ok assms, of 5] by (simp add: sample_log_def)
  then obtain g where g: "store_step pv store_empty (UpsertNode example_node) 3 = Some g"
      "store_step pv g (UpsertEdge sample_edge) 5 = Some (view st 5)"
    by (auto simp: bind_eq_Some_conv simp del: store_step.simps)
  have "g_nodes store_empty = Map.empty" "g_edges store_empty = Map.empty" by (simp_all add: store_empty_def)
  then show "g_nodes (view st 5) = [7 \<mapsto> Live (example_node\<lparr>n_last_write_seq := 3\<rparr>)]"
    "g_edges (view st 5) = [8 \<mapsto> Live (sample_edge\<lparr>e_last_write_seq := 5\<rparr>)]"
    using store_step_nodes [OF g(1)] store_step_nodes [OF g(2)] store_step_edges [OF g(1)] store_step_edges [OF g(2)] ids by simp_all
qed

section \<open>Snapshots\<close>

text \<open>
  C2. Snapshot isolation: applying an operation with sequence number \<open>w\<close> changes nothing that a
  reader at an earlier snapshot sees: no record, no tombstone, no entry of any index.
\<close>

theorem apply_op_snapshot_isolation:
  assumes "apply_op pv st op w = Some st'" and "s < w"
  shows "view st' s = view st s \<and> (\<forall>i. node_at st' i s = node_at st i s) \<and> (\<forall>i. edge_at st' i s = edge_at st i s) \<and>
    (\<forall>i. node_deleted_at st' i s = node_deleted_at st i s) \<and> (\<forall>i. edge_deleted_at st' i s = edge_deleted_at st i s)"
proof -
  have "view st' s = view st s" using view_apply_op_old [OF assms(1)] assms(2) by simp
  then show ?thesis by (simp add: node_at_view edge_at_view node_deleted_at_view edge_deleted_at_view)
qed

theorem apply_op_snapshot_isolation_witness:
  "\<exists>st st'. apply_ops (\<lambda>_. []) memtable_new sample_log = Some st \<and> apply_op (\<lambda>_. []) st (DeleteNode 7 0) 9 = Some st' \<and>
     node_at st' 7 5 = node_at st 7 5"
proof -
  obtain st where st: "apply_ops (\<lambda>_. []) memtable_new sample_log = Some st" "memtable_session (\<lambda>_. []) st 5"
    by (rule sample_session)
  obtain st' where st': "apply_op (\<lambda>_. []) st (DeleteNode 7 0) 9 = Some st'"
    using session_op_total [OF st(2), of 9 "DeleteNode 7 0"] by auto
  have "(5 :: u64) < 9" by simp
  from apply_op_snapshot_isolation [OF st' this] st st' show ?thesis by blast
qed

text \<open>The records after a log of operations: the last write of an id counts.\<close>

fun node_write :: "u64 \<Rightarrow> wal_op \<times> u64 \<Rightarrow> node_record option \<Rightarrow> node_record option" where
  "node_write i (op, w) r = (case op of
     UpsertNode n \<Rightarrow> if i = n_id n then Some (n\<lparr>n_last_write_seq := w\<rparr>) else r
   | DeleteNode j _ \<Rightarrow> if i = j then None else r
   | _ \<Rightarrow> r)"

fun edge_write :: "u64 \<Rightarrow> wal_op \<times> u64 \<Rightarrow> edge_record option \<Rightarrow> edge_record option" where
  "edge_write i (op, w) r = (case op of
     UpsertEdge e \<Rightarrow> if i = e_id e then Some (e\<lparr>e_last_write_seq := w\<rparr>) else r
   | DeleteEdge j _ \<Rightarrow> if i = j then None else r
   | _ \<Rightarrow> r)"

definition written_node :: "u64 \<Rightarrow> (wal_op \<times> u64) list \<Rightarrow> node_record option" where
  "written_node i ops = fold (node_write i) ops None"

definition written_edge :: "u64 \<Rightarrow> (wal_op \<times> u64) list \<Rightarrow> edge_record option" where
  "written_edge i ops = fold (edge_write i) ops None"

lemma store_run_written:
  "store_run pv g ops = Some g' \<Longrightarrow> live_node g' i = fold (node_write i) ops (live_node g i)"
  "store_run pv g ops = Some g' \<Longrightarrow> live_edge g' i = fold (edge_write i) ops (live_edge g i)"
proof (induction pv g ops arbitrary: g' rule: store_run.induct)
  case (2 pv g op w rest)
  {
    case 1
    then obtain g1 where g1: "store_step pv g op w = Some g1" "store_run pv g1 rest = Some g'" by (auto simp: bind_eq_Some_conv)
    with "2.IH"(1) show ?case by (simp add: live_node_step [OF g1(1)])
  next
    case 2
    then obtain g1 where g1: "store_step pv g op w = Some g1" "store_run pv g1 rest = Some g'" by (auto simp: bind_eq_Some_conv)
    with "2.IH"(2) show ?case by (simp add: live_edge_step [OF g1(1)])
  }
qed simp_all

text \<open>
  C3. The memtable is a multi-version store: after a log of operations in sequence order, what a
  reader at snapshot \<open>s\<close> sees is the single-version store after the operations up to \<open>s\<close>, and the
  record read under an id is the one its last write up to \<open>s\<close> left.
\<close>

theorem memtable_refines_versions:
  assumes "log_ok 0 ops" and "apply_ops pv memtable_new ops = Some st"
  shows "store_run pv store_empty (filter (\<lambda>(_, w). w \<le> s) ops) = Some (view st s) \<and>
    (\<forall>i. node_at st i s = written_node i (filter (\<lambda>(_, w). w \<le> s) ops)) \<and>
    (\<forall>i. edge_at st i s = written_edge i (filter (\<lambda>(_, w). w \<le> s) ops))"
proof -
  note run = log_view [OF assms, of s]
  then show ?thesis
    using store_run_written [OF run] by (simp add: node_at_view edge_at_view written_node_def written_edge_def)
qed

theorem memtable_refines_versions_witness:
  "\<exists>st. apply_ops (\<lambda>_. []) memtable_new sample_log = Some st \<and>
     node_at st 7 2 = None \<and> node_at st 7 4 = Some (example_node\<lparr>n_last_write_seq := 3\<rparr>) \<and>
     edge_at st 8 4 = None \<and> edge_at st 8 5 = Some (sample_edge\<lparr>e_last_write_seq := 5\<rparr>)"
proof -
  obtain st where st: "apply_ops (\<lambda>_. []) memtable_new sample_log = Some st" "memtable_session (\<lambda>_. []) st 5"
    by (rule sample_session)
  note read = memtable_refines_versions [OF sample_log_ok st(1)]
  have "n_id example_node = 7" "e_id sample_edge = 8" by (simp_all add: example_node_def sample_edge_def)
  then show ?thesis
    using st(1) read [of 2] read [of 4] read [of 5] by (auto simp: sample_log_def written_node_def written_edge_def)
qed

section \<open>Scans\<close>

text \<open>
  C6. Index scans are exact: at every snapshot the label and time indexes list, in ascending order
  and without repetition, exactly the live records with the label (and an update time in the
  range, both ends included), the counts are the numbers of those records, and the label list has
  exactly the labels in use.
\<close>

theorem index_scans_exact:
  assumes "memtable_reach pv st w"
  shows "(visible_nodes_by_label_id st l s = Some (sorted_list_of_set {i. \<exists>n. node_at st i s = Some n \<and> l \<in> labels_of n})) \<and>
    (visible_nodes_by_label_id_count st l s = Some (card {i. \<exists>n. node_at st i s = Some n \<and> l \<in> labels_of n})) \<and>
    (visible_edges_by_label_id st l s = sorted_list_of_set {i. \<exists>e. edge_at st i s = Some e \<and> e_label_id e = l}) \<and>
    (visible_edges_by_label_id_count st l s = Some (card {i. \<exists>e. edge_at st i s = Some e \<and> e_label_id e = l})) \<and>
    (visible_node_label_ids st s = sorted_list_of_set {l. \<exists>i n. node_at st i s = Some n \<and> l \<in> labels_of n}) \<and>
    (visible_nodes_by_time_range st l a b s = Some (sorted_list_of_set
      {i. \<exists>n. node_at st i s = Some n \<and> l \<in> labels_of n \<and> sint a \<le> sint (n_updated_at n) \<and> sint (n_updated_at n) \<le> sint b}))"
proof (intro conjI)
  note node = reach_node_index [OF assms] and edge = reach_edge_index [OF assms]
  show "visible_nodes_by_label_id st l s = Some (sorted_list_of_set {i. \<exists>n. node_at st i s = Some n \<and> l \<in> labels_of n})"
    "visible_nodes_by_label_id_count st l s = Some (card {i. \<exists>n. node_at st i s = Some n \<and> l \<in> labels_of n})"
    unfolding visible_nodes_by_label_id_def visible_nodes_by_label_id_count_def label_scan node(1) by (rule refl)+
  show "visible_edges_by_label_id st l s = sorted_list_of_set {i. \<exists>e. edge_at st i s = Some e \<and> e_label_id e = l}"
    unfolding edges_by_label edge(1) ..
  show "visible_edges_by_label_id_count st l s = Some (card {i. \<exists>e. edge_at st i s = Some e \<and> e_label_id e = l})"
    unfolding visible_edges_by_label_id_count_def label_scan edge(2) ..
  show "visible_node_label_ids st s = sorted_list_of_set {l. \<exists>i n. node_at st i s = Some n \<and> l \<in> labels_of n}"
    unfolding visible_labels node(1) ..
  show "visible_nodes_by_time_range st l a b s = Some (sorted_list_of_set
      {i. \<exists>n. node_at st i s = Some n \<and> l \<in> labels_of n \<and> sint a \<le> sint (n_updated_at n) \<and> sint (n_updated_at n) \<le> sint b})"
  proof (cases "sint a \<le> sint b")
    case True
    from time_scan [OF assms this, of l s] obtain ids where ids: "time_range_ids st l (sint a) (sint b) s = Some ids" "distinct ids"
        "set ids = {i. \<exists>n. node_at st i s = Some n \<and> l \<in> labels_of n \<and> sint a \<le> sint (n_updated_at n) \<and> sint (n_updated_at n) \<le> sint b}"
      by blast
    have "sort ids = sorted_list_of_set (set ids)"
      using sorted_list_of_set.idem_if_sorted_distinct [of "sort ids"] ids(2) by simp
    with True ids(1,3) show ?thesis by (simp add: visible_nodes_by_time_range_def)
  next
    case False
    then have none: "{i. \<exists>n. node_at st i s = Some n \<and> l \<in> labels_of n \<and> sint a \<le> sint (n_updated_at n) \<and> sint (n_updated_at n) \<le> sint b} = {}"
      by auto
    show ?thesis unfolding none using False by (simp add: visible_nodes_by_time_range_def)
  qed
qed

theorem index_scans_exact_witness:
  "\<exists>st. apply_ops (\<lambda>_. []) memtable_new sample_log = Some st \<and>
     visible_nodes_by_label_id st 4 5 = Some (sorted_list_of_set {i. \<exists>n. node_at st i 5 = Some n \<and> 4 \<in> labels_of n})"
proof -
  obtain st where st: "apply_ops (\<lambda>_. []) memtable_new sample_log = Some st" "memtable_session (\<lambda>_. []) st 5"
    by (rule sample_session)
  from index_scans_exact [OF session_reach [OF st(2)], of 4 5] st(1) show ?thesis by blast
qed

text \<open>
  C18. Cursors neither skip nor repeat: the next id after a given one is the least visible id above
  it, for all edges and for the nodes and edges of a label, and the cursor ends exactly when no
  visible id is left.
\<close>

theorem cursor_next_exact:
  assumes "memtable_reach pv st w"
  shows "(next_visible_edge_id_after st s after =
      Some (let S = {i. (\<forall>a. after = Some a \<longrightarrow> a < i) \<and> edge_at st i s \<noteq> None} in if S = {} then None else Some (Min S))) \<and>
    (next_visible_node_by_label_id_after st l s after =
      Some (let S = {i. (\<forall>a. after = Some a \<longrightarrow> a < i) \<and> (\<exists>n. node_at st i s = Some n \<and> l \<in> labels_of n)}
        in if S = {} then None else Some (Min S))) \<and>
    (next_visible_edge_by_label_id_after st l s after =
      Some (let S = {i. (\<forall>a. after = Some a \<longrightarrow> a < i) \<and> (\<exists>e. edge_at st i s = Some e \<and> e_label_id e = l)}
        in if S = {} then None else Some (Min S)))"
proof (intro conjI)
  note node = reach_node_index [OF assms] and edge = reach_edge_index [OF assms]
  obtain es where es: "btree_range (ordered_edge_ids st) (after_bound after) Unbounded = Some es"
    by (cases after) (auto simp: btree_range_def after_bound_def)
  have after: "above_start (after_bound after) i \<and> below_end Unbounded i \<and> P \<longleftrightarrow> (\<forall>a. after = Some a \<longrightarrow> a < i) \<and> P" for i P
    by (cases after) (simp_all add: after_bound_def)
  show "next_visible_edge_id_after st s after =
      Some (let S = {i. (\<forall>a. after = Some a \<longrightarrow> a < i) \<and> edge_at st i s \<noteq> None} in if S = {} then None else Some (Min S))"
    unfolding next_visible_edge_id_after_def es option.map find_visible [OF es] after edge(3) ..
  show "next_visible_node_by_label_id_after st l s after =
      Some (let S = {i. (\<forall>a. after = Some a \<longrightarrow> a < i) \<and> (\<exists>n. node_at st i s = Some n \<and> l \<in> labels_of n)}
        in if S = {} then None else Some (Min S))"
    unfolding next_visible_node_by_label_id_after_def label_cursor_eq node(1) ..
  show "next_visible_edge_by_label_id_after st l s after =
      Some (let S = {i. (\<forall>a. after = Some a \<longrightarrow> a < i) \<and> (\<exists>e. edge_at st i s = Some e \<and> e_label_id e = l)}
        in if S = {} then None else Some (Min S))"
    unfolding next_visible_edge_by_label_id_after_def label_cursor_eq edge(2) ..
qed

theorem cursor_next_exact_witness:
  "\<exists>st. apply_ops (\<lambda>_. []) memtable_new sample_log = Some st \<and>
     next_visible_edge_id_after st 5 None = Some (let S = {i. edge_at st i 5 \<noteq> None} in if S = {} then None else Some (Min S))"
proof -
  obtain st where st: "apply_ops (\<lambda>_. []) memtable_new sample_log = Some st" "memtable_session (\<lambda>_. []) st 5"
    by (rule sample_session)
  from cursor_next_exact [OF session_reach [OF st(2)], of 5 None] st(1) show ?thesis by auto
qed

section \<open>Batches\<close>

lemma batch_fresh:
  assumes "distinct (map fst lookups)" and "\<forall>i \<in> set (map fst lookups). i < length results"
  shows "(if lookups = [] then Some (results, []) else batch_loop oc lookups fmempty results []) =
    Some (batch_plain oc lookups results [])"
  using batch_cached [OF assms, of fmempty oc "[]"] by auto

text \<open>
  C17. The cache of a batched read is transparent: when the positions to fill are distinct and within
  the results, a batch over nodes, edges, selected fields or triples never panics and returns what
  reading every key afresh would return, however often keys repeat in the batch.
\<close>

theorem batch_reads_equivalent:
  assumes "distinct (map fst lookups)" and "\<forall>i \<in> set (map fst lookups). i < length results"
    and "distinct (map fst triples)" and "\<forall>i \<in> set (map fst triples). i < length es"
    and "length results = length es" and "length ns = length es" and "length xs = length es"
  shows "batch_get_nodes_at st lookups s results = Some (batch_plain (record_outcome id (nodes st) s) lookups results []) \<and>
    batch_get_edges_at st lookups s es = Some (batch_plain (record_outcome id (edges st) s) lookups es []) \<and>
    batch_get_node_selected_fields_at st lookups needs s ns =
      Some (batch_plain (record_outcome (project_node needs) (nodes st) s) lookups ns []) \<and>
    batch_get_edge_selected_fields_at st lookups eneeds s xs =
      Some (batch_plain (record_outcome (project_edge eneeds) (edges st) s) lookups xs []) \<and>
    batch_edges_by_triples_at st triples s es =
      Some (batch_plain (\<lambda>(src, to, l). case edge_by_triple_at st src to l s of Some e \<Rightarrow> Found e | None \<Rightarrow> NotHere) triples es [])"
  unfolding batch_get_nodes_at_def batch_get_edges_at_def batch_get_node_selected_fields_at_def
    batch_get_edge_selected_fields_at_def batch_edges_by_triples_at_def
  using assms by (simp add: batch_fresh)

theorem batch_reads_equivalent_witness:
  "\<exists>st. apply_ops (\<lambda>_. []) memtable_new sample_log = Some st \<and>
     batch_get_nodes_at st [(0, 7), (2, 9), (1, 7)] 5 [None, None, None] =
       Some ([Some (example_node\<lparr>n_last_write_seq := 3\<rparr>), Some (example_node\<lparr>n_last_write_seq := 3\<rparr>), None], [(2, 9)])"
proof -
  obtain st where st: "apply_ops (\<lambda>_. []) memtable_new sample_log = Some st" "memtable_session (\<lambda>_. []) st 5"
    by (rule sample_session)
  have recs: "rec_at (nodes st) 5 7 = Some (Live (example_node\<lparr>n_last_write_seq := 3\<rparr>))" "rec_at (nodes st) 5 9 = None"
    using sample_records(1) [OF st(1)] by (simp_all add: view_def)
  have oc: "record_outcome id (nodes st) 5 7 = Found (example_node\<lparr>n_last_write_seq := 3\<rparr>)" "record_outcome id (nodes st) 5 9 = NotHere"
    using recs by (auto simp: record_outcome_def rec_at_def record_at_def bind_eq_Some_conv split: option.splits)
  have "batch_get_nodes_at st [(0, 7), (2, 9), (1, 7)] 5 [None, None, None] =
      Some (batch_plain (record_outcome id (nodes st) 5) [(0, 7), (2, 9), (1, 7)] [None, None, None] [])"
    using batch_reads_equivalent [of "[(0, 7), (2, 9), (1, 7)]" "[None, None, None]" "[]" "[None, None, None]" "[None, None, None]"
        "[None, None, None]" st 5] by simp
  with st(1) oc show ?thesis by simp
qed

section \<open>Adjacency\<close>

text \<open>
  C7. Adjacency reads are exact for every order in which the hash maps are walked: the edges at a
  node in a direction, filtered by label, each once (a self loop once even in both directions),
  leaving out edges to deleted nodes; a limit \<open>k > 0\<close> returns the first \<open>k\<close> of them; a deleted
  node has none.
\<close>

theorem neighbors_exact:
  assumes "memtable_reach pv st w" and "walk_ok walk" and "\<not> node_deleted_at st n s"
  shows "distinct (map nb_edge_id (neighbors_at walk st n dir filt 0 s)) \<and>
    set (neighbors_at walk st n dir filt 0 s) = incident st s (\<lambda>i. node_deleted_at st i s) n dir filt \<and>
    neighbors_at walk st n dir filt k s =
      (if k = 0 then neighbors_at walk st n dir filt 0 s else take k (neighbors_at walk st n dir filt 0 s)) \<and>
    distinct (map nb_edge_id (incident_edges_at walk st n dir filt s)) \<and>
    set (incident_edges_at walk st n dir filt s) = incident st s (\<lambda>_. False) n dir filt"
  using collect_exact [OF assms(1,2)] collect_direction_limit [of walk st "\<lambda>i. node_deleted_at st i s" n dir filt k s] assms(3)
  by (simp add: neighbors_at_def incident_edges_at_def)

lemma singleton_list: "set xs = {x} \<Longrightarrow> distinct xs \<Longrightarrow> xs = [x]"
  by (cases xs; cases "tl xs") auto

lemma single_loop_incident:
  assumes "\<And>i. edge_at st i s = (if i = k then Some f else None)" and "e_from f = n" and "e_to f = n" and "\<not> hidden n"
  shows "incident st s hidden n Both None = {neighbor_of (adj_out_entry f)}"
proof -
  have loop: "adj_in_entry f = adj_out_entry f" using assms(2,3) by (simp add: loop_entry)
  have one: "(\<exists>i e. edge_at st i s = Some e \<and> Q e) \<longleftrightarrow> Q f" for Q unfolding assms(1) by auto
  have ok: "allowed hidden None (adj_out_entry f)" using assms(3,4) by (simp add: allowed_def label_excluded_def)
  show ?thesis unfolding incident_def one assms(2,3) loop using ok by auto
qed

theorem neighbors_exact_witness:
  "\<exists>st. apply_ops (\<lambda>_. []) memtable_new sample_log = Some st \<and>
     map nb_edge_id (neighbors_at sorted_list_of_fset st 7 Both None 0 5) = [8]"
proof -
  obtain st where st: "apply_ops (\<lambda>_. []) memtable_new sample_log = Some st" "memtable_session (\<lambda>_. []) st 5"
    by (rule sample_session)
  define f where "f = sample_edge\<lparr>e_last_write_seq := 5\<rparr>"
  have f: "e_id f = 8" "e_from f = 7" "e_to f = 7" by (simp_all add: f_def sample_edge_def)
  have at: "edge_at st i 5 = (if i = 8 then Some f else None)" for i
    using sample_records(2) [OF st(1)] by (simp add: edge_at_view live_edge_def f_def)
  have "node_indexes_ok (view st 5)" using reach_invariants [OF session_reach [OF st(2)]] by (simp add: store_ok_def)
  then have dead: "g_node_tombstones (view st 5) 7 = Some () \<longleftrightarrow> (\<exists>t. g_nodes (view st 5) 7 = Some (Tombstone t))"
    unfolding node_indexes_ok_def by blast
  have alive: "\<not> node_deleted_at st 7 5"
    unfolding node_deleted_at_view unit_option dead sample_records(1) [OF st(1)] by simp
  have "walk_ok sorted_list_of_fset" by (simp add: walk_ok_def sorted_list_of_fset.rep_eq)
  note exact = neighbors_exact [OF session_reach [OF st(2)] this alive, of Both None 0]
  let ?N = "neighbors_at sorted_list_of_fset st 7 Both None 0 5"
  have "set ?N = {neighbor_of (adj_out_entry f)}"
    unfolding conjunct1 [OF conjunct2 [OF exact]]
    by (rule single_loop_incident [where k = 8]) (rule at, rule f(2), rule f(3), rule alive)
  then have "set (map nb_edge_id ?N) = {8}" using f(1) by simp
  then have "map nb_edge_id ?N = [8]" by (rule singleton_list) (rule conjunct1 [OF exact])
  with st(1) show ?thesis by (intro exI [of _ st] conjI)
qed

section \<open>Accounting\<close>

text \<open>
  C15. The running size estimate never drifts: after any sequence of operations, index registrations
  and removals it equals the estimate recomputed from scratch over every slot and every version.
\<close>

theorem estimated_size_exact:
  assumes "memtable_reach pv st w"
  shows "estimated_bytes st = recompute_estimated_size st"
  using reach_invariants [OF assms] by (simp add: balanced_def)

theorem estimated_size_exact_witness:
  "\<exists>st. apply_ops (\<lambda>_. []) memtable_new sample_log = Some st \<and> estimated_bytes st = recompute_estimated_size st"
proof -
  obtain st where st: "apply_ops (\<lambda>_. []) memtable_new sample_log = Some st" "memtable_session (\<lambda>_. []) st 5"
    by (rule sample_session)
  from estimated_size_exact [OF session_reach [OF st(2)]] st(1) show ?thesis by blast
qed

text \<open>
  The saturating live counters are the numbers of live nodes and edges, as long as the memtable
  holds fewer than \<open>2^64\<close> slots of the kind.
\<close>

theorem live_counters_exact:
  assumes "memtable_reach pv st w" and "fcard (fmdom (nodes st)) \<le> USIZE_MAX" and "fcard (fmdom (edges st)) \<le> USIZE_MAX"
  shows "live_node_count st = card {i. current_node st i \<noteq> None} \<and> live_edge_count st = card {i. current_edge st i \<noteq> None}"
  using reach_counts [OF assms(1)] assms(2,3)
  by (simp add: counts_ok_def counter_ok_def held_card current_node_view current_edge_view del: not_None_eq)

theorem live_counters_exact_witness:
  "\<exists>st. apply_ops (\<lambda>_. []) memtable_new sample_log = Some st \<and> live_node_count st = 1 \<and> live_edge_count st = 1"
proof -
  obtain st where st: "apply_ops (\<lambda>_. []) memtable_new sample_log = Some st" "memtable_session (\<lambda>_. []) st 5"
    by (rule sample_session)
  note reach = session_reach [OF st(2)]
  have "view st U64_MAX = view st 5" using reach_invariants [OF reach] by (intro settledD) auto
  note recs = sample_records [OF st(1), folded this]
  have "fcard (fmdom (nodes st)) = 1" "fcard (fmdom (edges st)) = 1" using recs by (simp_all flip: held_card)
  moreover have "{i. current_node st i \<noteq> None} = {7}" "{i. current_edge st i \<noteq> None} = {8}"
    using recs by (auto simp: current_node_view current_edge_view live_node_def live_edge_def split: if_splits)
  ultimately show ?thesis using live_counters_exact [OF reach] st(1) by (simp add: USIZE_MAX_def)
qed

section \<open>No panics\<close>

text \<open>
  C16. The memtable never panics: in a session of well formed operations and validated index
  declarations, applying the next operation and registering the next index always return.
\<close>

theorem memtable_never_panics:
  assumes "memtable_session pv st w" and "w \<le> x" and "op_wf op"
    and "validate_secondary_index_target (sie_target entry) = Inr ()"
  shows "(\<exists>st'. apply_op pv st op x = Some st') \<and> (\<exists>st'. register_secondary_index pv st entry = Some st')"
  using session_op_total [OF assms(1-3)] session_register_total [OF assms(1,4)] by blast

theorem memtable_never_panics_witness:
  "\<exists>st st'. apply_ops (\<lambda>_. []) memtable_new sample_log = Some st \<and> apply_op (\<lambda>_. []) st (UpsertNode example_node) 6 = Some st'"
proof -
  obtain st where st: "apply_ops (\<lambda>_. []) memtable_new sample_log = Some st" "memtable_session (\<lambda>_. []) st 5"
    by (rule sample_session)
  have "validate_secondary_index_target (NodeProperty 1 [97]) = Inr ()"
    by (simp add: validate_secondary_index_target_def validate_secondary_index_fields_def check_index_field_def MAX_SECONDARY_INDEX_FIELDS_def)
  then show ?thesis
    using memtable_never_panics [OF st(2) _ example_node_wf, of 6
        "\<lparr>sie_index_id = 1, sie_target = NodeProperty 1 [97], sie_kind = Equality, sie_state = Ready, sie_last_error = None\<rparr>"] st(1) by auto
qed

end
