(* ===== verification/Segment_Theorems.thy ===== *)
theory Segment_Theorems
  imports Segment_Total Memtable_Theorems
begin

text \<open>
  What flushing a memtable preserves: the reads of the segment that \<^verbatim>\<open>write_segment_inner\<close> wrote and
  \<^verbatim>\<open>SegmentReader::open_with_info\<close> opened answer as the memtable does at the last sequence number.
\<close>

section \<open>A sample memtable\<close>

lemma sample_now:
  assumes "apply_ops pv memtable_new sample_log = Some st"
  shows "g_nodes (view st U64_MAX) = [7 \<mapsto> Live (example_node\<lparr>n_last_write_seq := 3\<rparr>)]"
    and "g_edges (view st U64_MAX) = [8 \<mapsto> Live (sample_edge\<lparr>e_last_write_seq := 5\<rparr>)]"
proof -
  have "filter (\<lambda>(_, w). w \<le> U64_MAX) sample_log = filter (\<lambda>(_, w). w \<le> 5) sample_log" by (simp add: sample_log_def U64_MAX_def)
  then have "store_run pv store_empty (filter (\<lambda>(_, w). w \<le> 5) sample_log) = Some (view st U64_MAX)"
    using log_view [OF sample_log_ok assms, of U64_MAX] by (simp only:)
  then have "view st U64_MAX = view st 5" using log_view [OF sample_log_ok assms, of 5] by (simp only: option.inject)
  then show "g_nodes (view st U64_MAX) = [7 \<mapsto> Live (example_node\<lparr>n_last_write_seq := 3\<rparr>)]"
    "g_edges (view st U64_MAX) = [8 \<mapsto> Live (sample_edge\<lparr>e_last_write_seq := 5\<rparr>)]"
    using sample_records [OF assms] by simp_all
qed

lemma sample_at:
  assumes "apply_ops pv memtable_new sample_log = Some st"
  shows "node_at st i U64_MAX = (if i = 7 then Some (example_node\<lparr>n_last_write_seq := 3\<rparr>) else None)"
    and "edge_at st i U64_MAX = (if i = 8 then Some (sample_edge\<lparr>e_last_write_seq := 5\<rparr>) else None)"
    and "deleted_nodes st = fmempty" and "deleted_edges st = fmempty"
proof -
  note now = sample_now [OF assms]
  show "node_at st i U64_MAX = (if i = 7 then Some (example_node\<lparr>n_last_write_seq := 3\<rparr>) else None)"
    "edge_at st i U64_MAX = (if i = 8 then Some (sample_edge\<lparr>e_last_write_seq := 5\<rparr>) else None)"
    by (simp_all add: node_at_view edge_at_view live_node_def live_edge_def now)
  have recs: "Option.bind (fmlookup (nodes st) i) (\<lambda>slot. record_at slot U64_MAX) = g_nodes (view st U64_MAX) i"
    "Option.bind (fmlookup (edges st) i) (\<lambda>slot. record_at slot U64_MAX) = g_edges (view st U64_MAX) i" for i
    by (simp_all add: view_def rec_at_def record_at_def)
  have "node_tombstone_current st i = None" "edge_tombstone_current st i = None" for i
    unfolding node_tombstone_current_def edge_tombstone_current_def recs now by (auto split: Option.bind_splits)
  then show "deleted_nodes st = fmempty" "deleted_edges st = fmempty" by (auto intro!: fmap_ext simp: lookup_deleted)
qed

lemma sample_ready:
  assumes "apply_ops pv memtable_new sample_log = Some st"
  shows "flush_ready empty_map_to_vec st"
proof -
  note at = sample_at [OF assms]
  have wf: "nls_wf (n_label_ids example_node)" using op_wf_ok [OF example_node_wf] by simp
  have fields: "n_key example_node = [97, 98]" "n_props example_node = []" "n_dense_vector example_node = Some [1, 2]"
    "n_sparse_vector example_node = Some [(3, 4)]" "utf8_valid [97, 98]"
    by (simp_all add: example_node_def utf8_valid_def)
  then have ok: "node_ok (example_node\<lparr>n_last_write_seq := 3\<rparr>)"
    using wf by (simp add: node_ok_def props_wf_def btree_wf_def)
  have props: "n_props example_node = []" "length (n_key example_node) \<le> 65535" "e_props sample_edge = []" "props_wf []"
    by (simp_all add: example_node_def sample_edge_def props_wf_def btree_wf_def)
  have single: "fmdom (current_nodes st) = {|7|}" "fmdom (current_edges st) = {|8|}"
    by (auto simp: fset_eq_iff fmlookup_dom_iff lookup_current at)
  show ?thesis unfolding flush_ready_def using ok props by (simp add: at single fcard.rep_eq empty_map_to_vec_def)
qed

lemma sample_flush:
  obtains st where "apply_ops (\<lambda>_. []) memtable_new sample_log = Some st" and "memtable_reach (\<lambda>_. []) st 5"
    and "flush_ready empty_map_to_vec st" and "walk_ok sorted_list_of_fset"
proof -
  obtain st where st: "apply_ops (\<lambda>_. []) memtable_new sample_log = Some st" "memtable_session (\<lambda>_. []) st 5" by (rule sample_session)
  then show thesis using that session_reach [OF st(2)] sample_ready [OF st(1)] by (simp add: walk_ok_def sorted_list_of_fset.rep_eq)
qed

section \<open>Records\<close>

lemma segment_records:
  assumes "memtable_reach pv st w" and "flushed_segment walk tv st sr" and "flushable tv st"
  shows "segment_node sr (current_nodes st) k = node_at st k U64_MAX" and "segment_edge sr (current_edges st) k = edge_at st k U64_MAX"
  using live_not_deleted [of st k] flushed_records(3,4) [OF assms]
  by (cases "node_at st k U64_MAX"; cases "edge_at st k U64_MAX"; simp add: segment_node_def segment_edge_def lookup_current is_node_deleted_def is_edge_deleted_def)+

text \<open>
  C8. Flushing keeps every record. For every reachable memtable within the limits of the format,
  writing the segment succeeds, opening it succeeds, and for every id the segment returns exactly the
  record the memtable shows at the last sequence number: nodes with labels, key, properties, weight,
  vectors and sequence number, and edges; a deleted or unknown id returns nothing.
\<close>

theorem flush_preserves_records:
  assumes "memtable_reach pv st w" and "walk_ok walk" and "rmp_lossless tv fs" and "flush_ready tv st"
  shows "\<exists>sr. flushed_segment walk tv st sr \<and>
    (\<forall>k. get_node fs sr k = Inr (node_at st k U64_MAX) \<and> get_edge fs sr k = Inr (edge_at st k U64_MAX) \<and>
       get_edge_core sr k = Inr (map_option core_fields (edge_at st k U64_MAX)))"
proof -
  obtain sr where sr: "flushed_segment walk tv st sr" "flushable tv st" using flush_succeeds [OF assms(1,2,4)] .
  then show ?thesis
    using segment_node_reads [OF flushed_records(1) [OF assms(1) sr] assms(3)] segment_edge_reads [OF flushed_records(2) [OF assms(1) sr] assms(3)]
    by (intro exI [of _ sr]) (simp add: segment_records [OF assms(1) sr])
qed

theorem flush_preserves_records_witness:
  "\<exists>st sr. apply_ops (\<lambda>_. []) memtable_new sample_log = Some st \<and> flushed_segment sorted_list_of_fset empty_map_to_vec st sr \<and>
     get_node empty_map_from_slice sr 7 = Inr (Some (example_node\<lparr>n_last_write_seq := 3\<rparr>)) \<and>
     get_edge empty_map_from_slice sr 8 = Inr (Some (sample_edge\<lparr>e_last_write_seq := 5\<rparr>)) \<and> get_node empty_map_from_slice sr 8 = Inr None"
proof -
  obtain st where st: "apply_ops (\<lambda>_. []) memtable_new sample_log = Some st" and ready: "memtable_reach (\<lambda>_. []) st 5"
    "flush_ready empty_map_to_vec st" "walk_ok sorted_list_of_fset" by (rule sample_flush)
  from flush_preserves_records [OF ready(1,3) empty_map_lossless ready(2)] obtain sr where sr: "flushed_segment sorted_list_of_fset empty_map_to_vec st sr"
    "\<And>k. get_node empty_map_from_slice sr k = Inr (node_at st k U64_MAX)" "\<And>k. get_edge empty_map_from_slice sr k = Inr (edge_at st k U64_MAX)"
    by blast
  then show ?thesis using st by (intro exI [of _ st] exI [of _ sr]) (simp add: sample_at [OF st])
qed

text \<open>A sample segment for the witnesses below.\<close>

lemma sample_segment:
  obtains st sr where "apply_ops (\<lambda>_. []) memtable_new sample_log = Some st" and "memtable_reach (\<lambda>_. []) st 5"
    and "walk_ok sorted_list_of_fset" and "flushed_segment sorted_list_of_fset empty_map_to_vec st sr" and "flushable empty_map_to_vec st"
proof -
  obtain st where st: "apply_ops (\<lambda>_. []) memtable_new sample_log = Some st" and ready: "memtable_reach (\<lambda>_. []) st 5"
    "flush_ready empty_map_to_vec st" "walk_ok sorted_list_of_fset" by (rule sample_flush)
  from flush_succeeds [OF ready(1,3,2)] obtain sr where "flushed_segment sorted_list_of_fset empty_map_to_vec st sr" "flushable empty_map_to_vec st" .
  then show thesis using that st ready by blast
qed

section \<open>Indexes\<close>

text \<open>
  C9. The lookup indexes of a segment are exact: the label indexes list, in ascending order and with
  the right counts, the live nodes and edges of a label, and exactly the labels in use; the timestamp
  index lists the live nodes of a label updated within a range; the triple index lists all live edges
  between two nodes with a label.
\<close>

theorem flush_preserves_scans:
  assumes "memtable_reach pv st w" and "walk_ok walk" and "flushed_segment walk tv st sr" and "flushable tv st"
  shows "nodes_by_label_id sr l = Inr (sorted_list_of_set {i. \<exists>n. node_at st i U64_MAX = Some n \<and> l \<in> labels_of n}) \<and>
    label_posting_index_count (sr_node_label_index sr) l = Inr (card {i. \<exists>n. node_at st i U64_MAX = Some n \<and> l \<in> labels_of n}) \<and>
    edges_by_label_id sr l = Inr (sorted_list_of_set {i. \<exists>e. edge_at st i U64_MAX = Some e \<and> e_label_id e = l}) \<and>
    label_posting_index_count (sr_edge_label_index sr) l = Inr (card {i. \<exists>e. edge_at st i U64_MAX = Some e \<and> e_label_id e = l}) \<and>
    segment_node_label_ids sr = Inr (sorted_list_of_set {l. \<exists>i n. node_at st i U64_MAX = Some n \<and> l \<in> labels_of n}) \<and>
    segment_nodes_by_time_range sr l a b = Inr (sorted_list_of_set
      {i. \<exists>n. node_at st i U64_MAX = Some n \<and> l \<in> labels_of n \<and> sint a \<le> sint (n_updated_at n) \<and> sint (n_updated_at n) \<le> sint b}) \<and>
    edge_ids_by_triple sr t = Inr (sorted_list_of_set {i. \<exists>e. edge_at st i U64_MAX = Some e \<and> triple_of e = t})"
  using flushed_labels [OF assms(1,3,4)] flushed_times [OF assms(1,3,4)] flushed_triples [OF assms] by blast

theorem flush_preserves_scans_witness:
  "\<exists>st sr. apply_ops (\<lambda>_. []) memtable_new sample_log = Some st \<and> flushed_segment sorted_list_of_fset empty_map_to_vec st sr \<and>
     edge_ids_by_triple sr (7, 7, 2) = Inr [8] \<and> edges_by_label_id sr 3 = Inr []"
proof -
  obtain st sr where st: "apply_ops (\<lambda>_. []) memtable_new sample_log = Some st" and h: "memtable_reach (\<lambda>_. []) st 5" "walk_ok sorted_list_of_fset"
    "flushed_segment sorted_list_of_fset empty_map_to_vec st sr" "flushable empty_map_to_vec st" by (rule sample_segment)
  note scans = flush_preserves_scans [OF h, of 3 0 0 "(7, 7, 2)"]
  have sets: "{i. \<exists>e. edge_at st i U64_MAX = Some e \<and> triple_of e = (7, 7, 2)} = {8}" "{i. \<exists>e. edge_at st i U64_MAX = Some e \<and> e_label_id e = 3} = {}"
    unfolding sample_at(2) [OF st] by (auto simp: sample_edge_def split: if_splits)
  have "edge_ids_by_triple sr (7, 7, 2) = Inr [8]" "edges_by_label_id sr 3 = Inr []" using scans unfolding sets by simp_all
  with st h(3) show ?thesis by blast
qed

text \<open>
  C11. The key index of a segment is exact: it finds a node for a label and a key exactly when a live
  node has them, the lookup by key returns that node's record, and the batched lookup of sorted
  queries gives the same ids, whether it seeks every key or walks the index once.
\<close>

theorem flush_preserves_keys:
  assumes "memtable_reach pv st w" and "walk_ok walk" and "flushed_segment walk tv st sr" and "flushable tv st" and "rmp_lossless tv fs"
  shows "\<exists>find_id. (\<forall>l k i. find_id (l, k) = Some i \<longleftrightarrow> (\<exists>n. node_at st i U64_MAX = Some n \<and> l \<in> labels_of n \<and> n_key n = k)) \<and>
    (\<forall>t. binary_search_key_index sr t = Inr (find_id t)) \<and>
    (\<forall>t. segment_node_by_key fs sr t = Inr (case find_id t of Some i \<Rightarrow> node_at st i U64_MAX | None \<Rightarrow> None)) \<and>
    (\<forall>lookups. sorted (map snd lookups) \<longrightarrow> resolve_keys_to_ids sr lookups = Inr (hits find_id lookups))"
proof (rule flushed_keys [OF assms(1-4)])
  fix find_id
  assume search: "\<And>t. binary_search_key_index sr t = Inr (find_id t)"
    and "\<And>lookups. sorted (map snd lookups) \<Longrightarrow> resolve_keys_to_ids sr lookups = Inr (hits find_id lookups)"
    and "\<And>l k i. find_id (l, k) = Some i \<longleftrightarrow> (\<exists>n. node_at st i U64_MAX = Some n \<and> l \<in> labels_of n \<and> n_key n = k)"
  moreover have "segment_node_by_key fs sr t = Inr (case find_id t of Some i \<Rightarrow> node_at st i U64_MAX | None \<Rightarrow> None)" for t
    using segment_node_reads [OF flushed_records(1) [OF assms(1,3,4)] assms(5)]
    by (simp add: segment_node_by_key_def search segment_records [OF assms(1,3,4)] split: option.split)
  ultimately show ?thesis by (intro exI [of _ find_id] conjI allI impI) simp_all
qed

theorem flush_preserves_keys_witness:
  "\<exists>st sr. apply_ops (\<lambda>_. []) memtable_new sample_log = Some st \<and> flushed_segment sorted_list_of_fset empty_map_to_vec st sr \<and>
     binary_search_key_index sr (4, [97, 98]) = Inr (Some 7) \<and>
     segment_node_by_key empty_map_from_slice sr (4, [97, 98]) = Inr (Some (example_node\<lparr>n_last_write_seq := 3\<rparr>))"
proof -
  obtain st sr where st: "apply_ops (\<lambda>_. []) memtable_new sample_log = Some st" and h: "memtable_reach (\<lambda>_. []) st 5" "walk_ok sorted_list_of_fset"
    "flushed_segment sorted_list_of_fset empty_map_to_vec st sr" "flushable empty_map_to_vec st" by (rule sample_segment)
  from flush_preserves_keys [OF h empty_map_lossless] obtain find_id where
    f: "\<And>l k i. find_id (l, k) = Some i \<longleftrightarrow> (\<exists>n. node_at st i U64_MAX = Some n \<and> l \<in> labels_of n \<and> n_key n = k)"
    "\<And>t. binary_search_key_index sr t = Inr (find_id t)"
    "\<And>t. segment_node_by_key empty_map_from_slice sr t = Inr (case find_id t of Some i \<Rightarrow> node_at st i U64_MAX | None \<Rightarrow> None)" by blast
  have "n_key example_node = [97, 98]" "4 \<in> labels_of example_node" by (simp_all add: example_node_def MAX_NODE_LABELS_PER_NODE_def)
  then have "find_id (4, [97, 98]) = Some 7" unfolding f(1) sample_at(1) [OF st] by simp
  with f(2,3) [of "(4, [97, 98])"] st h(3) show ?thesis by (intro exI [of _ st] exI [of _ sr]) (simp add: sample_at(1) [OF st])
qed

section \<open>Neighbours\<close>

text \<open>
  C10. Flushing keeps the adjacency: the segment answers for a node, a direction and a label filter
  with every edge that the memtable shows there, each once, without edges to deleted nodes, and a
  limit cuts a prefix off the same list (exactly \<open>k\<close> long for a single direction). The one value the
  posting format cannot hold, a validity that ends at -1, is excluded.
\<close>

theorem flush_preserves_neighbors:
  assumes "memtable_reach pv st w" and "walk_ok walk" and "flushed_segment walk tv st sr" and "flushable tv st"
    and "\<forall>i e. edge_at st i U64_MAX = Some e \<longrightarrow> e_valid_to e \<noteq> -1"
  shows "\<exists>answer. segment_neighbors sr n dir filt 0 = Inr answer \<and> distinct (map nb_edge_id answer) \<and>
    set answer = incident st U64_MAX (\<lambda>i. node_deleted_at st i U64_MAX) n dir filt \<and>
    (\<forall>k > 0. \<exists>m \<le> k. segment_neighbors sr n dir filt k = Inr (take m answer) \<and> (dir \<noteq> Both \<longrightarrow> m = k))"
proof -
  have adj: "flushed_adjacency walk st sr" "adjacency_fits st sr"
    using flushed_records(5) [OF assms(1,3,4)] flushed_adjacency_fits [OF assms(1,3,4)] .
  note files = adjacency_of_flush [OF assms(2) adj]
  obtain answer where answer: "segment_neighbors sr n dir filt 0 = Inr answer" "distinct (map nb_edge_id answer)"
    "set answer = incident st U64_MAX (\<lambda>i. node_deleted_at st i U64_MAX) n dir filt"
    by (rule flush_neighbors [OF assms(1,2) adj]) (use assms(5) in auto)
  have "\<exists>m \<le> k. segment_neighbors sr n dir filt k = Inr (take m answer) \<and> (dir \<noteq> Both \<longrightarrow> m = k)" if "0 < k" for k
    using segment_neighbors_prefix [OF files that, of n dir filt] segment_neighbors_unlimited [OF files, of n dir filt] answer(1) by simp
  with answer show ?thesis by blast
qed

theorem flush_preserves_neighbors_witness:
  "\<exists>st sr. apply_ops (\<lambda>_. []) memtable_new sample_log = Some st \<and> flushed_segment sorted_list_of_fset empty_map_to_vec st sr \<and>
     (\<exists>answer. segment_neighbors sr 7 Both None 0 = Inr answer \<and> map nb_edge_id answer = [8])"
proof -
  obtain st sr where st: "apply_ops (\<lambda>_. []) memtable_new sample_log = Some st" and h: "memtable_reach (\<lambda>_. []) st 5" "walk_ok sorted_list_of_fset"
    "flushed_segment sorted_list_of_fset empty_map_to_vec st sr" "flushable empty_map_to_vec st" by (rule sample_segment)
  let ?f = "sample_edge\<lparr>e_last_write_seq := 5\<rparr>"
  have f: "e_from ?f = 7" "e_to ?f = 7" "e_id ?f = 8" "e_valid_to ?f \<noteq> -1" by (simp_all add: sample_edge_def)
  have expiry: "\<forall>i e. edge_at st i U64_MAX = Some e \<longrightarrow> e_valid_to e \<noteq> -1" using f(4) by (simp add: sample_at [OF st])
  have alive: "\<not> node_deleted_at st 7 U64_MAX"
    unfolding deleted_flags(1) [OF h(1), symmetric] lookup_deleted(1) [symmetric] sample_at(3) [OF st] by simp
  from flush_preserves_neighbors [OF h expiry, of 7 Both None] obtain answer where a: "segment_neighbors sr 7 Both None 0 = Inr answer"
    "distinct (map nb_edge_id answer)" "set answer = incident st U64_MAX (\<lambda>i. node_deleted_at st i U64_MAX) 7 Both None" by blast
  have "set answer = {neighbor_of (adj_out_entry ?f)}"
    unfolding a(3) by (rule single_loop_incident [where k = 8]) (simp_all only: sample_at(2) [OF st] f alive not_False_eq_True)
  then have "set (map nb_edge_id answer) = {8}" using f(3) by simp
  then have "map nb_edge_id answer = [8]" using a(2) by (rule singleton_list)
  with st h(3) a(1) show ?thesis by (intro exI [of _ st] exI [of _ sr] exI [of _ answer] conjI)
qed

text \<open>
  What the posting format does to a validity that ends at -1: the writer stores \<open>valid_to + 1\<close>, which
  wraps to 0, the code of an edge that never ends.
\<close>

lemma expiry_lost:
  "decode_adj_posting (write_adjacency_posting_bytes 0 (e, n, x, vf, -1)) 0 0 =
     Inr ((e, n, x, vf, I64_MAX), length (write_adjacency_posting_bytes 0 (e, n, x, vf, -1)))"
proof -
  let ?bs = "write_adjacency_posting_bytes 0 (e, n, x, vf, -1)"
  have "length ?bs \<le> 44" using group_posting_size [of 0 "[(e, n, x, vf, -1)]"] by simp
  moreover have "get_range ?bs 0 (0 + length ?bs) = Some ?bs" by (simp add: get_range_def)
  ultimately show ?thesis using decode_posting_written [of ?bs 0 0 "(e, n, x, vf, -1)"] by (simp add: read_back_def)
qed

section \<open>Batches\<close>

text \<open>
  C12. Batched reads of a segment answer as single reads do: for lookups sorted by id, with positions
  inside the result slice, every position whose id the memtable shows receives its record and every
  other position is left as it was, whichever strategy the reader chooses; the metadata batches fill
  empty distinct positions with the metadata of the same records.
\<close>

theorem flush_batches:
  assumes "memtable_reach pv st w" and "flushed_segment walk tv st sr" and "flushable tv st" and "rmp_lossless tv fs"
    and "\<forall>i \<in> set (map fst lookups). i < length ns \<and> i < length es \<and> i < length nms \<and> i < length ems" and "sorted (map snd lookups)"
    and "\<forall>i \<in> set (map fst lookups). nms ! i = None \<and> ems ! i = None" and "distinct (map fst lookups)"
  shows "get_nodes_batch fs sr lookups ns = Some (Inr (fill_in (\<lambda>k. node_at st k U64_MAX) lookups ns)) \<and>
    get_edges_batch fs sr lookups es = Some (Inr (fill_in (\<lambda>k. edge_at st k U64_MAX) lookups es)) \<and>
    get_node_meta_batch sr lookups nms = Some (Inr (fill_in (\<lambda>k. map_option node_triple (node_at st k U64_MAX)) lookups nms)) \<and>
    get_edge_metadata_batch sr lookups ems = Some (Inr (fill_in (\<lambda>k. map_option edge_metadata_from_edge (edge_at st k U64_MAX)) lookups ems))"
proof -
  note nodes = flushed_records(1) [OF assms(1-3)] and edges = flushed_records(2) [OF assms(1-3)]
  have recs: "segment_node sr (current_nodes st) = (\<lambda>k. node_at st k U64_MAX)" "segment_edge sr (current_edges st) = (\<lambda>k. edge_at st k U64_MAX)"
    using segment_records [OF assms(1-3)] by auto
  have slots: "\<forall>i \<in> set (map fst lookups). i < length ns" "\<forall>i \<in> set (map fst lookups). i < length es"
    "\<forall>i \<in> set (map fst lookups). i < length nms" "\<forall>i \<in> set (map fst lookups). i < length ems"
    "\<forall>i \<in> set (map fst lookups). nms ! i = None" "\<forall>i \<in> set (map fst lookups). ems ! i = None" using assms(5,7) by blast+
  show ?thesis
    using nodes_batch [OF nodes assms(4) slots(1) assms(6)] edges_batch [OF edges assms(4) slots(2) assms(6)]
      node_metadata_batch [OF nodes assms(4) slots(3) assms(6) slots(5) assms(8)] edge_metadata_batch [OF edges assms(4) slots(4) assms(6) slots(6) assms(8)]
    unfolding recs by simp
qed

theorem flush_batches_witness:
  "\<exists>st sr. apply_ops (\<lambda>_. []) memtable_new sample_log = Some st \<and> flushed_segment sorted_list_of_fset empty_map_to_vec st sr \<and>
     get_nodes_batch empty_map_from_slice sr [(1, 6), (0, 7)] [None, None] = Some (Inr [Some (example_node\<lparr>n_last_write_seq := 3\<rparr>), None])"
proof -
  obtain st sr where st: "apply_ops (\<lambda>_. []) memtable_new sample_log = Some st" and h: "memtable_reach (\<lambda>_. []) st 5" "walk_ok sorted_list_of_fset"
    "flushed_segment sorted_list_of_fset empty_map_to_vec st sr" "flushable empty_map_to_vec st" by (rule sample_segment)
  have "get_nodes_batch empty_map_from_slice sr [(1, 6), (0, 7)] [None, None] =
      Some (Inr (fill_in (\<lambda>k. node_at st k U64_MAX) [(1, 6), (0, 7)] [None, None]))"
    by (rule conjunct1 [OF flush_batches [OF h(1,3,4) empty_map_lossless, of _ _ "[None, None]" "[None, None]" "[None, None]"]]) simp_all
  then show ?thesis using st h(3) by (intro exI [of _ st] exI [of _ sr]) (simp add: fill_in_def sample_at [OF st])
qed

end
