(* ===== verification/Spec2Isabelle.thy ===== *)
theory Spec2Isabelle
  imports Degree_Exact Degree_Sidecar Compound_Order Index_Targets Segment_Theorems
begin

text \<open>
  A verification library for OverGraph, an embedded property-graph database written in Rust
  (\<^verbatim>\<open>src/src/\<close>). The library models the storage core: how a write is encoded, logged, applied to
  the multi-version memtable and counted in the degree cache, how readers see it at a snapshot,
  how the log is made durable, what a reopened database finds after a crash, and how a memtable is
  written as a segment and read from it.

  \<^bold>\<open>The program and its parts.\<close> A write request is planned into a list of logged operations
  (\<^verbatim>\<open>WalOp\<close>). \<^verbatim>\<open>commit_core_write_plan\<close> appends them to the write-ahead log, one operation as a single
  record and several as an atomic batch between two markers, and then applies each operation to the
  label catalog, the active memtable and the degree overlay. The log is synchronised at once or by a
  background thread (group commit). Readers look into the memtable at a snapshot sequence number.
  Secondary indexes are declared on properties; numeric values and compound tuples are encoded to
  byte keys whose order is the order of the values. When a database is opened, the records of the
  log are read back, a torn tail is cut, and the operations are replayed into a fresh memtable. A full
  memtable is flushed: its current records, tombstones, adjacency and indexes become the files of a
  segment, which is opened, checked and searched in place.

  \<^bold>\<open>Theories and the code they model.\<close>

  \<^descr>[\<open>Prelude\<close>] results as sums (\<open>r_bind\<close>, \<open>r_map\<close>, \<open>r_fold\<close>), little-endian bytes, the collections
    \<open>codec\<close>, \<open>wf_intros\<close> and \<open>slot_simps\<close>.
  \<^descr>[\<open>Graph_Types\<close>] \<^verbatim>\<open>types.rs\<close>, \<^verbatim>\<open>error.rs\<close>: errors, label names and canonical label sets, property
    values, records, operations and their tags. Label sets are exactly the sorted sets of one to
    ten distinct nonzero ids.
  \<^descr>[\<open>Encoding\<close>] \<^verbatim>\<open>encoding.rs\<close>: every field reader and writer and the two whole-operation
    functions. The locale \<open>field_codec\<close> states the contract of a reader and its writer; the payload
    codec round-trips, decodes only well-formed records and fails exactly on oversized fields.
  \<^descr>[\<open>Wal\<close>] \<^verbatim>\<open>wal.rs\<close>: frames, the writer, the crash-tolerant reader, truncation. A file is an
    optional list of bytes. Any crash prefix reads as its whole units; truncating and appending
    composes. \<open>damaged_frame\<close> says by the layout of a frame alone when one is damaged (a bad length, a
    cut, a payload with another checksum), and such a frame ends the log, also inside a batch.
  \<^descr>[\<open>Wal_Sync\<close>] \<^verbatim>\<open>wal_sync.rs\<close> and the group-commit branches of \<^verbatim>\<open>engine/mod.rs\<close>: each critical
    section of the mutex is a step of \<open>sync_step\<close>, and rule induction over \<open>sync_reach\<close> covers every
    interleaving. The condition variable is part of the state: \<open>cvar_wait\<close> parks the writer, only
    \<open>notify_all\<close> wakes it, and a parked writer takes no step. A writer that had to wait is notified
    within five rounds of the thread and its retry is then answered; shutdown ends and reports truthfully.
  \<^descr>[\<open>Numeric_Keys\<close>, \<open>Numeric_Order\<close>, \<open>Range_Semantics\<close>] \<^verbatim>\<open>property_value_semantics.rs\<close>: numeric values across
    integer and floating-point types, their keys, and range bounds with their cursors.
  \<^descr>[\<open>Compound_Keys\<close>, \<open>Compound_Order\<close>] \<^verbatim>\<open>secondary_index_key.rs\<close>: tuple keys of compound indexes,
    their order and prefixes.
  \<^descr>[\<open>Index_Decl\<close>, \<open>Index_Targets\<close>] the validation of index declarations, the public fields and the
    manifest fields with the conversions between the two, and that a stored target indexes the fields
    of the records the specification named.
  \<^descr>[\<open>Slots\<close>] the versioned slot of \<^verbatim>\<open>memtable.rs\<close> and the locale \<open>mvcc_map\<close>, the contract of a map of
    slots (a write is seen from its sequence number on and changes nothing before it), interpreted
    for each shape of nested map; \<open>sized_mvcc_map\<close> extends it with size accounting.
  \<^descr>[\<open>Memtable\<close>] the state and every operation of \<^verbatim>\<open>memtable.rs\<close>; \<open>Memtable_Index\<close> declares and seeds
    indexes; \<open>Memtable_View\<close> and \<open>Memtable_Store\<close> refine the memtable at a snapshot to a
    single-version store whose indexes agree with its records; \<open>Memtable_Size\<close>, \<open>Memtable_Reach\<close>,
    \<open>Memtable_Counts\<close> and \<open>Memtable_Total\<close> are the invariants of reachable states (exact size
    estimate, exact counters, no panic); \<open>Memtable_Reads\<close>, \<open>Memtable_Query\<close>, \<open>Memtable_Scans\<close>
    and \<open>Memtable_Adjacency\<close> the reads; \<open>Memtable_Theorems\<close> the properties.
  \<^descr>[\<open>Vectors\<close>] dense and sparse vector validation of \<^verbatim>\<open>types.rs\<close> with IEEE addition rounded to nearest
    even, and the normalisation of operations on write and on replay: it is idempotent, so replay
    keeps what was written.
  \<^descr>[\<open>Labels\<close>] the runtime label catalog of \<^verbatim>\<open>engine/mod.rs\<close> and the token checks of \<^verbatim>\<open>manifest.rs\<close>: names
    and ids correspond one to one, and a stored catalog reopens as itself.
  \<^descr>[\<open>Degree\<close>] deltas and the sharded overlay of \<^verbatim>\<open>degree_cache.rs\<close>, and the deltas of an operation.
  \<^descr>[\<open>Engine\<close>] \<^verbatim>\<open>engine/mod.rs\<close>: committing a request (\<open>commit_ops\<close>) and replaying a generation
    (\<open>replay_wal_generation_to_memtable_and_overlay\<close>), over the state \<open>engine_core\<close>.
  \<^descr>[\<open>Recovery\<close>] runs of the engine as \<open>engine_step\<close>, and crash recovery: the locale \<open>unit_journal\<close>
    states what a step must log for a replay to follow it, and its interpretation on the engine
    discharges it for both commit paths and both sync modes. \<open>engine_history\<close> adds to a run a last
    request whose record reached the log while its synchronisation failed: it was refused, and a
    crash may bring it back. Requests after such a failure, and requests refused by the
    label check after their records were logged, are outside: there the log holds records of which
    the live engine has no state.
  \<^descr>[\<open>Degree_Exact\<close>] the locale \<open>delta_map\<close> (a map one adds deltas to), interpreted for shards and
    for the overlay, and the exactness of the degree counts along \<open>serving_run\<close>, where refused
    requests, with a failed synchronisation among them, are interleaved with the accepted ones.
    \<open>failed_batch_drops_degrees\<close> shows the case outside it: a batch whose label check fails half-way
    leaves its first operations in the memtable and loses their degrees.
  \<^descr>[\<open>Degree_Sidecar\<close>] the sidecar payload of \<^verbatim>\<open>degree_cache.rs\<close>: what is written validates and is looked up
    exactly, and the merge of several sidecars adds them up.
  \<^descr>[\<open>Segment_Io\<close>, \<open>Segment_Search\<close>, \<open>Byte_Layout\<close>] the field readers, binary searches and batch
    strategies of \<^verbatim>\<open>segment_reader.rs\<close>, and what they find in well-formed tables.
  \<^descr>[\<open>Segment_Edges\<close>, \<open>Segment_Nodes\<close>, \<open>Segment_Adjacency\<close>, \<open>Segment_Indexes\<close>] the files of a segment as
    \<^verbatim>\<open>segment_writer.rs\<close> writes them, byte for byte, and the reads of \<^verbatim>\<open>segment_reader.rs\<close> on them;
    each \<open>_Exact\<close> theory, \<open>Segment_Tombstones\<close> and \<open>Segment_Neighbors\<close> prove that what is read is
    what was written.
  \<^descr>[\<open>Segment_Write\<close>] \<^verbatim>\<open>write_segment_inner\<close> and the checks at opening; \<open>Segment_Export\<close> and
    \<open>Segment_Flush\<close> relate what the memtable hands over to what it shows; \<open>Segment_Total\<close> proves that
    writing succeeds, \<open>Segment_Open\<close> that the checks pass, \<open>Segment_Written\<close> what the open segment
    holds, and \<open>Segment_Theorems\<close> that records, batches, scans, keys and neighbours are preserved.

  \<^bold>\<open>Conventions.\<close> Machine integers are words of their width and wrap; floating-point numbers are their
  bit patterns. Errors are the left of a sum, panics are \<open>None\<close>. Error texts leave out the values the
  source formats into them. Hash maps are finite maps; where their iteration order could matter it is
  a parameter. The memtable and the catalog are guarded by locks in the source, so that each operation
  is one step. Third-party code is a parameter: MessagePack (\<open>to_vec\<close>, \<open>from_slice\<close>, with the hypothesis
  \<open>rmp_lossless\<close>), the checksum, the serialisation of a value inside a compound key. The results of
  file synchronisation are arguments. No definition needs fuel: loops over bytes shrink their input,
  and the sync thread is fed with a list of results.

  \<^bold>\<open>Bounds.\<close> Sequence numbers are assumed not to pass \<open>2^64\<close> in a run, and every accepted record to fit the
  reader's limit, which the writer does not enforce (\<open>Wal.wal_append_oversized_lost\<close>). A memtable is
  \<open>flush_ready\<close> when it holds fewer than \<open>2 ^ 24\<close> nodes, edges and tombstones, its keys have at most
  65535 bytes and its encoded properties fewer than \<open>2 ^ 32\<close>, which keeps every file below \<open>2 ^ 64\<close> bytes.

  \<^bold>\<open>Not modelled.\<close> Planning of write requests and transactions, the envelopes, identities and manifests
  of segment components and the optional declared-index, metadata and vector-index components, batched
  adjacency reads, compaction, the publication of a flushed segment in the manifest file, query
  planning and execution, graph traversals and reads over merged sources, the query language, schema
  management, vector indexes, scrubbing, statistics and the language bindings. The engine model
  still sees segments through two edge lookups. Next in line are the merged reads over memtable and
  segments (\<^verbatim>\<open>source_list.rs\<close>) and the component identity header.
\<close>

end
